(* ===== verification/Prelude.thy ===== *)
theory Prelude
  imports Main "HOL-Library.Word" "HOL-Library.Char_ord" "HOL-Library.List_Lexorder"
begin

text \<open>
  Shared vocabulary of the development: the collections of unfolding facts, the fragment of the
  C++ standard library that the sources use on \<open>std::string\<close> (search, erase, decimal printing and
  parsing), the case mappings of the C locale, and the generic list lemmas the components share.
  A C++ string is a list of bytes, here a \<open>char list\<close>; \<open>std::string::npos\<close> is \<open>None\<close>.
\<close>

named_theorems pred_defs \<open>the builder operations of the predicate classes\<close>
named_theorems sql_defs \<open>the SQL text builders\<close>
named_theorems cursor_defs \<open>the cursor operations of the result sets\<close>
named_theorems session_defs \<open>the operations of a store session\<close>
named_theorems block_defs \<open>the operations of a shared block\<close>

type_synonym byte = "8 word"
type_synonym uint32 = "32 word"
type_synonym int64 = "64 word"

subsection \<open>Characters\<close>

abbreviation squote :: char where "squote \<equiv> CHR 0x27"
abbreviation dquote :: char where "dquote \<equiv> CHR 0x22"
abbreviation bquote :: char where "bquote \<equiv> CHR 0x60"

definition is_digit :: "char \<Rightarrow> bool" where
  "is_digit c \<longleftrightarrow> of_char c \<ge> (48::nat) \<and> of_char c \<le> (57::nat)"

definition is_space :: "char \<Rightarrow> bool" where
  "is_space c \<longleftrightarrow> of_char c = (32::nat) \<or> (of_char c \<ge> (9::nat) \<and> of_char c \<le> (13::nat))"

definition toupper :: "char \<Rightarrow> char" where
  "toupper c = (if of_char c \<ge> (97::nat) \<and> of_char c \<le> (122::nat)
     then char_of (of_char c - (32::nat)) else c)"

definition tolower :: "char \<Rightarrow> char" where
  "tolower c = (if of_char c \<ge> (65::nat) \<and> of_char c \<le> (90::nat)
     then char_of (of_char c + (32::nat)) else c)"

subsection \<open>Searching a string\<close>

definition find_from :: "char \<Rightarrow> string \<Rightarrow> nat \<Rightarrow> nat option" where
  "find_from c s n =
     (let p = n + length (takeWhile (\<lambda>x. x \<noteq> c) (drop n s))
      in if p < length s then Some p else None)"

definition find_last_of :: "char \<Rightarrow> string \<Rightarrow> nat option" where
  "find_last_of c s =
     (let p = length (takeWhile (\<lambda>x. x \<noteq> c) (rev s))
      in if p < length s then Some (length s - Suc p) else None)"

definition substr :: "string \<Rightarrow> nat \<Rightarrow> nat \<Rightarrow> string" where
  "substr s pos n = take n (drop pos s)"

definition erase_at :: "nat \<Rightarrow> nat \<Rightarrow> string \<Rightarrow> string" where
  "erase_at pos n s = take pos s @ drop (pos + n) s"

lemma find_from_Some:
  "find_from c s n = Some p \<Longrightarrow> n \<le> p \<and> p < length s \<and> s ! p = c"
proof -
  assume "find_from c s n = Some p"
  then have p: "p = n + length (takeWhile (\<lambda>x. x \<noteq> c) (drop n s))" and lt: "p < length s"
    by (auto simp: find_from_def Let_def split: if_splits)
  have "length (takeWhile (\<lambda>x. x \<noteq> c) (drop n s)) < length (drop n s)"
    using p lt by simp
  then have "\<not> drop n s ! length (takeWhile (\<lambda>x. x \<noteq> c) (drop n s)) \<noteq> c"
    by (rule nth_length_takeWhile)
  with p lt show ?thesis by simp
qed

lemma find_from_None: "find_from c s n = None \<longleftrightarrow> c \<notin> set (drop n s)"
proof (cases "n \<le> length s")
  case True
  have "length (takeWhile (\<lambda>x. x \<noteq> c) xs) < length xs \<longleftrightarrow> c \<in> set xs" for xs
    by (induction xs) auto
  from this [of "drop n s"] True show ?thesis by (auto simp: find_from_def Let_def)
next
  case False
  then show ?thesis by (simp add: find_from_def)
qed

lemma find_last_of_snoc [simp]: "find_last_of c (s @ [c]) = Some (length s)"
  by (simp add: find_last_of_def)

lemma erase_last [simp]: "erase_at (length s) (Suc 0) (s @ [c]) = s"
  by (simp add: erase_at_def)

subsection \<open>Decimal printing and parsing\<close>

definition digit_char :: "nat \<Rightarrow> char" where
  "digit_char d = char_of (48 + d)"

definition digit_val :: "char \<Rightarrow> nat" where
  "digit_val c = of_char c - 48"

fun nat_str :: "nat \<Rightarrow> string" where
  "nat_str n = (if n < 10 then [digit_char n] else nat_str (n div 10) @ [digit_char (n mod 10)])"

declare nat_str.simps [simp del]

definition to_string :: "int \<Rightarrow> string" where
  "to_string i = (if i < 0 then ''-'' @ nat_str (nat (- i)) else nat_str (nat i))"

definition digits_val :: "string \<Rightarrow> nat" where
  "digits_val ds = foldl (\<lambda>a d. 10 * a + digit_val d) 0 ds"

text \<open>
  \<open>std::stoi\<close> and \<open>std::stoll\<close>: leading white space, an optional sign and the longest run of digits;
  \<open>None\<close> is the exception they throw when there is no digit or the value does not fit.
\<close>

definition std_sto :: "nat \<Rightarrow> string \<Rightarrow> int option" where
  "std_sto w s =
     (let s1 = dropWhile is_space s;
          neg = (s1 \<noteq> [] \<and> hd s1 = CHR ''-'');
          s2 = (if s1 \<noteq> [] \<and> (hd s1 = CHR ''-'' \<or> hd s1 = CHR ''+'') then tl s1 else s1);
          ds = takeWhile is_digit s2;
          v = (if neg then - int (digits_val ds) else int (digits_val ds))
      in if ds = [] \<or> v < - (2 ^ w) \<or> v \<ge> 2 ^ w then None else Some v)"

definition stoi :: "string \<Rightarrow> int option" where
  "stoi s = std_sto 31 s"

definition stoll :: "string \<Rightarrow> int option" where
  "stoll s = std_sto 63 s"

lemma of_char_digit_char: "d < 10 \<Longrightarrow> of_char (digit_char d) = 48 + d"
  by (simp add: digit_char_def)

lemma digit_char_digit [simp]: "d < 10 \<Longrightarrow> is_digit (digit_char d)"
  by (simp add: is_digit_def of_char_digit_char)

lemma digit_val_char [simp]: "d < 10 \<Longrightarrow> digit_val (digit_char d) = d"
  by (simp add: digit_val_def of_char_digit_char)

lemma nat_str_digits: "\<forall>c \<in> set (nat_str n). is_digit c"
  by (induction n rule: nat_str.induct) (subst nat_str.simps, auto)

lemma nat_str_nonempty [simp]: "nat_str n \<noteq> []"
  by (subst nat_str.simps) simp

lemma digits_val_snoc: "digits_val (ds @ [d]) = 10 * digits_val ds + digit_val d"
  by (simp add: digits_val_def)

lemma digits_val_nat_str [simp]: "digits_val (nat_str n) = n"
proof (induction n rule: nat_str.induct)
  case (1 n)
  show ?case
  proof (cases "n < 10")
    case True
    then show ?thesis by (subst nat_str.simps) (simp add: digits_val_def)
  next
    case False
    then show ?thesis
      by (subst nat_str.simps) (simp add: 1 digits_val_snoc)
  qed
qed

lemma nat_str_inj: "nat_str m = nat_str n \<longleftrightarrow> m = n"
  by (metis digits_val_nat_str)

lemma takeWhile_nat_str [simp]: "takeWhile is_digit (nat_str n) = nat_str n"
  using nat_str_digits by (simp add: takeWhile_eq_all_conv)

lemma hd_nat_str_digit: "is_digit (hd (nat_str n))"
  using nat_str_digits [of n] hd_in_set [OF nat_str_nonempty] by blast

lemma digit_not_special: "is_digit c \<Longrightarrow> \<not> is_space c \<and> c \<noteq> CHR ''-'' \<and> c \<noteq> CHR ''+''"
  by (auto simp: is_digit_def is_space_def)

lemma dropWhile_nat_str [simp]: "dropWhile is_space (nat_str n) = nat_str n"
  using digit_not_special [OF hd_nat_str_digit, of n] by (cases "nat_str n") auto

lemma sto_to_string:
  assumes "- (2 ^ w) \<le> i" and "i < 2 ^ w"
  shows "std_sto w (to_string i) = Some i"
proof (cases "i < 0")
  case True
  have "is_space CHR ''-'' = False" by (simp add: is_space_def)
  with True assms show ?thesis by (simp add: std_sto_def to_string_def Let_def)
next
  case False
  note h = digit_not_special [OF hd_nat_str_digit, of "nat i"]
  from False assms h show ?thesis by (simp add: std_sto_def to_string_def Let_def)
qed

lemma stoi_to_string: "- (2 ^ 31) \<le> i \<Longrightarrow> i < 2 ^ 31 \<Longrightarrow> stoi (to_string i) = Some i"
  unfolding stoi_def by (rule sto_to_string)

lemma stoll_to_string: "- (2 ^ 63) \<le> i \<Longrightarrow> i < 2 ^ 63 \<Longrightarrow> stoll (to_string i) = Some i"
  unfolding stoll_def by (rule sto_to_string)

lemma to_string_nonempty [simp]: "to_string i \<noteq> []"
  by (simp add: to_string_def)

subsection \<open>Counting characters\<close>

lemma count_list_filter_neq: "c \<noteq> d \<Longrightarrow> count_list (filter (\<lambda>x. x \<noteq> d) s) c = count_list s c"
  by (induction s) auto

lemma count_list_concat_map:
  "count_list (concat (map f xs)) c = sum_list (map (\<lambda>x. count_list (f x) c) xs)"
  by (induction xs) auto

lemma count_list_notin: "c \<notin> set s \<Longrightarrow> count_list s c = 0"
  by (simp add: count_list_0_iff)

subsection \<open>Splitting and joining\<close>

fun split_on :: "char \<Rightarrow> string \<Rightarrow> string list" where
  "split_on c [] = [[]]"
| "split_on c (x # xs) =
     (if x = c then [] # split_on c xs
      else (case split_on c xs of [] \<Rightarrow> [[x]] | y # ys \<Rightarrow> (x # y) # ys))"

fun join_with :: "string \<Rightarrow> string list \<Rightarrow> string" where
  "join_with sep [] = []"
| "join_with sep [x] = x"
| "join_with sep (x # y # ys) = x @ sep @ join_with sep (y # ys)"

lemma split_on_nonempty [simp]: "split_on c s \<noteq> []"
  by (induction s) (auto split: list.splits)

lemma split_on_notin: "c \<notin> set s \<Longrightarrow> split_on c s = [s]"
  by (induction s) auto

lemma split_on_append: "c \<notin> set a \<Longrightarrow> split_on c (a @ c # b) = a # split_on c b"
  by (induction a) auto

lemma join_with_split [simp]: "join_with [c] (split_on c s) = s"
proof (induction s)
  case Nil
  then show ?case by simp
next
  case (Cons x s)
  obtain y ys where "split_on c s = y # ys" by (cases "split_on c s") auto
  with Cons show ?case by (cases ys) auto
qed

lemma split_on_parts: "t \<in> set (split_on c s) \<Longrightarrow> c \<notin> set t"
proof (induction s arbitrary: t)
  case (Cons x s)
  then show ?case by (auto split: list.splits if_splits)
qed simp

lemma split_on_last_suffix: "\<exists>u. s = u @ last (split_on c s)"
proof (induction s)
  case (Cons x s)
  then obtain u where u: "s = u @ last (split_on c s)" by blast
  obtain y ys where sp: "split_on c s = y # ys" by (cases "split_on c s") auto
  show ?case
  proof (cases "x \<noteq> c \<and> ys = []")
    case True
    with sp join_with_split [of c s] show ?thesis by simp
  next
    case False
    with u sp have "last (split_on c (x # s)) = last (split_on c s)" by auto
    then have "x # s = (x # u) @ last (split_on c (x # s))" using u by simp
    then show ?thesis by blast
  qed
qed simp

lemma join_with_snoc:
  "join_with sep (xs @ [x]) = (if xs = [] then x else join_with sep xs @ sep @ x)"
  by (induction sep xs rule: join_with.induct) auto

end
