(* ===== verification/Errno.thy ===== *)
theory Errno
  imports Prelude
begin

text \<open>
  The error codes of the relational store (rdb_errno.h).  A method returns \<open>E_OK\<close> or one of the named
  codes, or an SQLite result code \<open>n\<close> negated by \<open>SQLiteError::ErrNo\<close> (sqlite_errno.h), here
  \<open>E_SQLITE n\<close>; \<open>errno_value\<close> gives the numbers the sources use.
\<close>

datatype rdb_errno = E_OK
  | E_ERROR
  | E_CANNOT_UPDATE_READONLY
  | E_REMOVE_FILE
  | E_EMPTY_FILE_NAME
  | E_EMPTY_TABLE_NAME
  | E_EMPTY_VALUES_BUCKET
  | E_INVALID_STATEMENT
  | E_INVALID_COLUMN_INDEX
  | E_INVALID_COLUMN_TYPE
  | E_INVALID_COLUMN_NAME
  | E_QUERY_IN_EXECUTE
  | E_TRANSACTION_IN_EXECUTE
  | E_EXECUTE_IN_STEP_QUERY
  | E_EXECUTE_WRITE_IN_READ_CONNECTION
  | E_BEGIN_TRANSACTION_IN_READ_CONNECTION
  | E_NO_TRANSACTION_IN_SESSION
  | E_MORE_STEP_QUERY_IN_ONE_SESSION
  | E_NO_ROW_IN_QUERY
  | E_INVALID_BIND_ARGS_COUNT
  | E_INVALID_OBJECT_TYPE
  | E_INVALID_CONFLICT_FLAG
  | E_HAVING_CLAUSE_NOT_IN_GROUP_BY
  | E_NOT_SUPPORTED_BY_STEP_RESULT_SET
  | E_STEP_RESULT_SET_CROSS_THREADS
  | E_STEP_RESULT_QUERY_NOT_EXECUTED
  | E_STEP_RESULT_IS_AFTER_LAST
  | E_STEP_RESULT_QUERY_EXCEEDED
  | E_STATEMENT_NOT_PREPARED
  | E_EXECUTE_RESULT_INCORRECT
  | E_STEP_RESULT_CLOSED
  | E_RELATIVE_PATH
  | E_EMPTY_NEW_ENCRYPT_KEY
  | E_CHANGE_UNENCRYPTED_TO_ENCRYPTED
  | E_CHANGE_ENCRYPT_KEY_IN_BUSY
  | E_STEP_STATEMENT_NOT_INIT
  | E_NOT_SUPPORTED_ATTACH_IN_WAL_MODE
  | E_CREATE_FOLDER_FAIL
  | E_SQLITE_SQL_BUILDER_NORMALIZE_FAIL
  | E_STORE_SESSION_NOT_GIVE_CONNECTION_TEMPORARILY
  | E_STORE_SESSION_NO_CURRENT_TRANSACTION
  | E_NOT_SUPPORT
  | E_INVALID_PARCEL
  | E_INVALID_FILE_PATH
  | E_SET_PERSIST_WAL
  | E_SQLITE int

fun errno_value :: "rdb_errno \<Rightarrow> int" where
  "errno_value E_OK = 0"
| "errno_value E_ERROR = 1000 + 1"
| "errno_value E_CANNOT_UPDATE_READONLY = 1000 + 2"
| "errno_value E_REMOVE_FILE = 1000 + 3"
| "errno_value E_EMPTY_FILE_NAME = 1000 + 4"
| "errno_value E_EMPTY_TABLE_NAME = 1000 + 5"
| "errno_value E_EMPTY_VALUES_BUCKET = 1000 + 6"
| "errno_value E_INVALID_STATEMENT = 1000 + 7"
| "errno_value E_INVALID_COLUMN_INDEX = 1000 + 8"
| "errno_value E_INVALID_COLUMN_TYPE = 1000 + 9"
| "errno_value E_INVALID_COLUMN_NAME = 1000 + 10"
| "errno_value E_QUERY_IN_EXECUTE = 1000 + 11"
| "errno_value E_TRANSACTION_IN_EXECUTE = 1000 + 12"
| "errno_value E_EXECUTE_IN_STEP_QUERY = 1000 + 13"
| "errno_value E_EXECUTE_WRITE_IN_READ_CONNECTION = 1000 + 14"
| "errno_value E_BEGIN_TRANSACTION_IN_READ_CONNECTION = 1000 + 15"
| "errno_value E_NO_TRANSACTION_IN_SESSION = 1000 + 16"
| "errno_value E_MORE_STEP_QUERY_IN_ONE_SESSION = 1000 + 17"
| "errno_value E_NO_ROW_IN_QUERY = 1000 + 18"
| "errno_value E_INVALID_BIND_ARGS_COUNT = 1000 + 19"
| "errno_value E_INVALID_OBJECT_TYPE = 1000 + 20"
| "errno_value E_INVALID_CONFLICT_FLAG = 1000 + 21"
| "errno_value E_HAVING_CLAUSE_NOT_IN_GROUP_BY = 1000 + 22"
| "errno_value E_NOT_SUPPORTED_BY_STEP_RESULT_SET = 1000 + 23"
| "errno_value E_STEP_RESULT_SET_CROSS_THREADS = 1000 + 24"
| "errno_value E_STEP_RESULT_QUERY_NOT_EXECUTED = 1000 + 25"
| "errno_value E_STEP_RESULT_IS_AFTER_LAST = 1000 + 26"
| "errno_value E_STEP_RESULT_QUERY_EXCEEDED = 1000 + 27"
| "errno_value E_STATEMENT_NOT_PREPARED = 1000 + 28"
| "errno_value E_EXECUTE_RESULT_INCORRECT = 1000 + 29"
| "errno_value E_STEP_RESULT_CLOSED = 1000 + 30"
| "errno_value E_RELATIVE_PATH = 1000 + 31"
| "errno_value E_EMPTY_NEW_ENCRYPT_KEY = 1000 + 32"
| "errno_value E_CHANGE_UNENCRYPTED_TO_ENCRYPTED = 1000 + 33"
| "errno_value E_CHANGE_ENCRYPT_KEY_IN_BUSY = 1000 + 34"
| "errno_value E_STEP_STATEMENT_NOT_INIT = 1000 + 35"
| "errno_value E_NOT_SUPPORTED_ATTACH_IN_WAL_MODE = 1000 + 36"
| "errno_value E_CREATE_FOLDER_FAIL = 1000 + 37"
| "errno_value E_SQLITE_SQL_BUILDER_NORMALIZE_FAIL = 1000 + 38"
| "errno_value E_STORE_SESSION_NOT_GIVE_CONNECTION_TEMPORARILY = 1000 + 39"
| "errno_value E_STORE_SESSION_NO_CURRENT_TRANSACTION = 1000 + 40"
| "errno_value E_NOT_SUPPORT = 1000 + 41"
| "errno_value E_INVALID_PARCEL = 1000 + 42"
| "errno_value E_INVALID_FILE_PATH = 1000 + 43"
| "errno_value E_SET_PERSIST_WAL = 1000 + 44"
| "errno_value (E_SQLITE n) = - n"

text \<open>
  No two outcomes share a number as long as the SQLite code is one of SQLite's (positive) codes: a
  client that compares numbers tells them apart.
\<close>

fun sqlite_code_ok :: "rdb_errno \<Rightarrow> bool" where
  "sqlite_code_ok (E_SQLITE n) = (0 < n)"
| "sqlite_code_ok _ = True"

lemma errno_value_inj:
  "sqlite_code_ok a \<Longrightarrow> sqlite_code_ok b \<Longrightarrow> errno_value a = errno_value b \<longleftrightarrow> a = b"
  by (cases a; cases b) simp_all

type_synonym 'a result = "rdb_errno + 'a"

end
