(* ===== verification/Value_Object.thy ===== *)
theory Value_Object
  imports Errno
begin

text \<open>
  The values of a row: \<open>ValueObject\<close> (value_object.cpp), a tagged \<open>std::variant\<close>, and \<open>ValuesBucket\<close>
  (values_bucket.cpp), a \<open>std::map\<close> from column names to values.  Integers keep their widths; a
  double is its 64-bit pattern.  The map is the list of its entries in key order, since the sources
  iterate over it.  \<open>Parcel\<close> belongs to another repository: its operations are the parameter
  \<open>'p parcel_ops\<close>, and what the code relies on is the named hypothesis \<open>parcel_fifo\<close>.
\<close>

subsection \<open>ValueObject\<close>

datatype ValueObjectType = TYPE_NULL | TYPE_INT | TYPE_DOUBLE | TYPE_STRING | TYPE_BLOB | TYPE_BOOL

datatype variant = VLong int64 | VDouble "64 word" | VString string | VBool bool | VBlob "byte list"

record ValueObject =
  vtype :: ValueObjectType
  val :: variant

text \<open>The default constructor leaves the variant at its first alternative.\<close>

definition ValueObject_null :: ValueObject where
  "ValueObject_null = \<lparr>vtype = TYPE_NULL, val = VLong 0\<rparr>"

definition ValueObject_int :: "32 word \<Rightarrow> ValueObject" where
  "ValueObject_int v = \<lparr>vtype = TYPE_INT, val = VLong (scast v)\<rparr>"

definition ValueObject_long :: "int64 \<Rightarrow> ValueObject" where
  "ValueObject_long v = \<lparr>vtype = TYPE_INT, val = VLong v\<rparr>"

definition ValueObject_double :: "64 word \<Rightarrow> ValueObject" where
  "ValueObject_double v = \<lparr>vtype = TYPE_DOUBLE, val = VDouble v\<rparr>"

definition ValueObject_bool :: "bool \<Rightarrow> ValueObject" where
  "ValueObject_bool v = \<lparr>vtype = TYPE_BOOL, val = VBool v\<rparr>"

definition ValueObject_string :: "string \<Rightarrow> ValueObject" where
  "ValueObject_string v = \<lparr>vtype = TYPE_STRING, val = VString v\<rparr>"

definition ValueObject_blob :: "byte list \<Rightarrow> ValueObject" where
  "ValueObject_blob v = \<lparr>vtype = TYPE_BLOB, val = VBlob v\<rparr>"

lemmas ValueObject_ctors = ValueObject_null_def ValueObject_int_def ValueObject_long_def
  ValueObject_double_def ValueObject_bool_def ValueObject_string_def ValueObject_blob_def

text \<open>Outcome of a getter: a value, an error code, or the exception of \<open>std::get\<close>.\<close>

datatype 'a getter = Got 'a | Failed rdb_errno | BadVariantAccess

definition GetInt :: "ValueObject \<Rightarrow> (32 word) getter" where
  "GetInt v =
     (if vtype v \<noteq> TYPE_INT then Failed E_INVALID_OBJECT_TYPE
      else case val v of VLong n \<Rightarrow> Got (ucast n) | _ \<Rightarrow> BadVariantAccess)"

definition GetLong :: "ValueObject \<Rightarrow> int64 getter" where
  "GetLong v =
     (if vtype v \<noteq> TYPE_INT then Failed E_INVALID_OBJECT_TYPE
      else case val v of VLong n \<Rightarrow> Got n | _ \<Rightarrow> BadVariantAccess)"

definition GetDouble :: "ValueObject \<Rightarrow> (64 word) getter" where
  "GetDouble v =
     (if vtype v \<noteq> TYPE_DOUBLE then Failed E_INVALID_OBJECT_TYPE
      else case val v of VDouble d \<Rightarrow> Got d | _ \<Rightarrow> BadVariantAccess)"

definition GetBool :: "ValueObject \<Rightarrow> bool getter" where
  "GetBool v =
     (if vtype v \<noteq> TYPE_BOOL then Failed E_INVALID_OBJECT_TYPE
      else case val v of VBool b \<Rightarrow> Got b | _ \<Rightarrow> BadVariantAccess)"

definition GetString :: "ValueObject \<Rightarrow> string getter" where
  "GetString v =
     (if vtype v \<noteq> TYPE_STRING then Failed E_INVALID_OBJECT_TYPE
      else case val v of VString s \<Rightarrow> Got s | _ \<Rightarrow> BadVariantAccess)"

definition GetBlob :: "ValueObject \<Rightarrow> (byte list) getter" where
  "GetBlob v =
     (if vtype v \<noteq> TYPE_BLOB then Failed E_INVALID_OBJECT_TYPE
      else case val v of VBlob b \<Rightarrow> Got b | _ \<Rightarrow> BadVariantAccess)"

text \<open>The class invariant: the tag names the alternative the variant holds.\<close>

fun value_wf :: "ValueObject \<Rightarrow> bool" where
  "value_wf v =
     (case vtype v of
        TYPE_NULL \<Rightarrow> True
      | TYPE_INT \<Rightarrow> (case val v of VLong _ \<Rightarrow> True | _ \<Rightarrow> False)
      | TYPE_DOUBLE \<Rightarrow> (case val v of VDouble _ \<Rightarrow> True | _ \<Rightarrow> False)
      | TYPE_STRING \<Rightarrow> (case val v of VString _ \<Rightarrow> True | _ \<Rightarrow> False)
      | TYPE_BLOB \<Rightarrow> (case val v of VBlob _ \<Rightarrow> True | _ \<Rightarrow> False)
      | TYPE_BOOL \<Rightarrow> (case val v of VBool _ \<Rightarrow> True | _ \<Rightarrow> False))"

subsection \<open>Parcels, a parameter\<close>

record 'p parcel_ops =
  WriteInt16 :: "16 word \<Rightarrow> 'p \<Rightarrow> 'p"
  WriteInt32 :: "32 word \<Rightarrow> 'p \<Rightarrow> 'p"
  WriteInt64 :: "64 word \<Rightarrow> 'p \<Rightarrow> 'p"
  WriteDouble :: "64 word \<Rightarrow> 'p \<Rightarrow> 'p"
  WriteString :: "string \<Rightarrow> 'p \<Rightarrow> 'p"
  WriteUInt8Vector :: "byte list \<Rightarrow> 'p \<Rightarrow> 'p"
  WriteBool :: "bool \<Rightarrow> 'p \<Rightarrow> 'p"
  ReadInt16 :: "'p \<Rightarrow> 16 word \<times> 'p"
  ReadInt32 :: "'p \<Rightarrow> 32 word \<times> 'p"
  ReadInt64 :: "'p \<Rightarrow> 64 word \<times> 'p"
  ReadDouble :: "'p \<Rightarrow> 64 word \<times> 'p"
  ReadString :: "'p \<Rightarrow> string \<times> 'p"
  ReadUInt8Vector :: "'p \<Rightarrow> byte list \<times> 'p"
  ReadBool :: "'p \<Rightarrow> bool \<times> 'p"
  WriteParcelable :: "('p \<Rightarrow> 'p option) \<Rightarrow> 'p \<Rightarrow> 'p option"
  ReadParcelable :: "('p \<Rightarrow> ValueObject \<times> 'p) \<Rightarrow> 'p \<Rightarrow> ValueObject option \<times> 'p"

datatype item = I16 "16 word" | I32 "32 word" | I64 "64 word" | IDouble "64 word"
  | IString string | IBytes "byte list" | IBool bool

text \<open>
  What the code relies on: writes append, reads return the items in the order they were written, and
  a parcelable is a presence mark followed by what its \<open>Marshalling\<close> writes.  \<open>D\<close> embeds these items into those of
  a parcel that can hold more.
\<close>

definition parcel_fifo_as :: "(item \<Rightarrow> 'i) \<Rightarrow> 'p parcel_ops \<Rightarrow> ('p \<Rightarrow> 'i list) \<Rightarrow> bool" where
  "parcel_fifo_as D P items \<longleftrightarrow>
     (\<forall>x p. items (WriteInt16 P x p) = items p @ [D (I16 x)]) \<and>
     (\<forall>x p. items (WriteInt32 P x p) = items p @ [D (I32 x)]) \<and>
     (\<forall>x p. items (WriteInt64 P x p) = items p @ [D (I64 x)]) \<and>
     (\<forall>x p. items (WriteDouble P x p) = items p @ [D (IDouble x)]) \<and>
     (\<forall>x p. items (WriteString P x p) = items p @ [D (IString x)]) \<and>
     (\<forall>x p. items (WriteUInt8Vector P x p) = items p @ [D (IBytes x)]) \<and>
     (\<forall>x p. items (WriteBool P x p) = items p @ [D (IBool x)]) \<and>
     (\<forall>x xs p. items p = D (I16 x) # xs \<longrightarrow> (\<exists>q. ReadInt16 P p = (x, q) \<and> items q = xs)) \<and>
     (\<forall>x xs p. items p = D (I32 x) # xs \<longrightarrow> (\<exists>q. ReadInt32 P p = (x, q) \<and> items q = xs)) \<and>
     (\<forall>x xs p. items p = D (I64 x) # xs \<longrightarrow> (\<exists>q. ReadInt64 P p = (x, q) \<and> items q = xs)) \<and>
     (\<forall>x xs p. items p = D (IDouble x) # xs \<longrightarrow> (\<exists>q. ReadDouble P p = (x, q) \<and> items q = xs)) \<and>
     (\<forall>x xs p. items p = D (IString x) # xs \<longrightarrow> (\<exists>q. ReadString P p = (x, q) \<and> items q = xs)) \<and>
     (\<forall>x xs p. items p = D (IBytes x) # xs \<longrightarrow> (\<exists>q. ReadUInt8Vector P p = (x, q) \<and> items q = xs)) \<and>
     (\<forall>x xs p. items p = D (IBool x) # xs \<longrightarrow> (\<exists>q. ReadBool P p = (x, q) \<and> items q = xs)) \<and>
     (\<forall>m p. WriteParcelable P m p = m (WriteInt32 P 1 p)) \<and>
     (\<forall>u p. ReadParcelable P u p =
        (case ReadInt32 P p of (n, q) \<Rightarrow>
           if n = 0 then (None, q) else (case u q of (v, r) \<Rightarrow> (Some v, r))))"

definition parcel_fifo :: "'p parcel_ops \<Rightarrow> ('p \<Rightarrow> item list) \<Rightarrow> bool" where
  "parcel_fifo P items \<longleftrightarrow> parcel_fifo_as (\<lambda>x. x) P items"

subsection \<open>Marshalling a value\<close>

fun type_code :: "ValueObjectType \<Rightarrow> 16 word" where
  "type_code TYPE_NULL = 0"
| "type_code TYPE_INT = 1"
| "type_code TYPE_DOUBLE = 2"
| "type_code TYPE_STRING = 3"
| "type_code TYPE_BLOB = 4"
| "type_code TYPE_BOOL = 5"

text \<open>\<open>None\<close> is the exception of \<open>std::get\<close> on a variant that does not match the tag.\<close>

definition Marshalling :: "'p parcel_ops \<Rightarrow> ValueObject \<Rightarrow> 'p \<Rightarrow> 'p option" where
  "Marshalling P v parcel =
     (let p = WriteInt16 P (type_code (vtype v)) parcel in
      case vtype v of
        TYPE_NULL \<Rightarrow> Some p
      | TYPE_INT \<Rightarrow> (case val v of VLong n \<Rightarrow> Some (WriteInt64 P n p) | _ \<Rightarrow> None)
      | TYPE_DOUBLE \<Rightarrow> (case val v of VDouble d \<Rightarrow> Some (WriteDouble P d p) | _ \<Rightarrow> None)
      | TYPE_STRING \<Rightarrow> (case val v of VString s \<Rightarrow> Some (WriteString P s p) | _ \<Rightarrow> None)
      | TYPE_BLOB \<Rightarrow> (case val v of VBlob b \<Rightarrow> Some (WriteUInt8Vector P b p) | _ \<Rightarrow> None)
      | TYPE_BOOL \<Rightarrow> (case val v of VBool b \<Rightarrow> Some (WriteBool P b p) | _ \<Rightarrow> None))"

definition Unmarshalling :: "'p parcel_ops \<Rightarrow> 'p \<Rightarrow> ValueObject \<times> 'p" where
  "Unmarshalling P parcel =
     (let (code, p) = ReadInt16 P parcel; v = ValueObject_null in
      if code = type_code TYPE_NULL then (v\<lparr>vtype := TYPE_NULL\<rparr>, p)
      else if code = type_code TYPE_INT then
        (case ReadInt64 P p of (n, q) \<Rightarrow> (v\<lparr>vtype := TYPE_INT, val := VLong n\<rparr>, q))
      else if code = type_code TYPE_DOUBLE then
        (case ReadDouble P p of (d, q) \<Rightarrow> (v\<lparr>vtype := TYPE_DOUBLE, val := VDouble d\<rparr>, q))
      else if code = type_code TYPE_STRING then
        (case ReadString P p of (s, q) \<Rightarrow> (v\<lparr>vtype := TYPE_STRING, val := VString s\<rparr>, q))
      else if code = type_code TYPE_BLOB then
        (case ReadUInt8Vector P p of (b, q) \<Rightarrow> (v\<lparr>vtype := TYPE_BLOB, val := VBlob b\<rparr>, q))
      else if code = type_code TYPE_BOOL then
        (case ReadBool P p of (b, q) \<Rightarrow> (v\<lparr>vtype := TYPE_BOOL, val := VBool b\<rparr>, q))
      else (v, p))"

subsection \<open>ValuesBucket\<close>

type_synonym ValuesBucket = "(string \<times> ValueObject) list"

text \<open>\<open>std::map::insert\<close>: the entries stay in key order, and a key that is present keeps its value.\<close>

fun map_insert :: "'k::linorder \<Rightarrow> 'v \<Rightarrow> ('k \<times> 'v) list \<Rightarrow> ('k \<times> 'v) list" where
  "map_insert k v [] = [(k, v)]"
| "map_insert k v ((k', v') # m) =
     (if k < k' then (k, v) # (k', v') # m
      else if k = k' then (k', v') # m
      else (k', v') # map_insert k v m)"

definition map_erase :: "'k \<Rightarrow> ('k \<times> 'v) list \<Rightarrow> ('k \<times> 'v) list" where
  "map_erase k m = filter (\<lambda>(k', _). k' \<noteq> k) m"

definition map_wf :: "('k::linorder \<times> 'v) list \<Rightarrow> bool" where
  "map_wf m \<longleftrightarrow> sorted_wrt (<) (map fst m)"

definition PutString :: "string \<Rightarrow> string \<Rightarrow> ValuesBucket \<Rightarrow> ValuesBucket" where
  "PutString columnName value b = map_insert columnName (ValueObject_string value) b"

definition PutInt :: "string \<Rightarrow> 32 word \<Rightarrow> ValuesBucket \<Rightarrow> ValuesBucket" where
  "PutInt columnName value b = map_insert columnName (ValueObject_int value) b"

definition PutLong :: "string \<Rightarrow> int64 \<Rightarrow> ValuesBucket \<Rightarrow> ValuesBucket" where
  "PutLong columnName value b = map_insert columnName (ValueObject_long value) b"

definition PutDouble :: "string \<Rightarrow> 64 word \<Rightarrow> ValuesBucket \<Rightarrow> ValuesBucket" where
  "PutDouble columnName value b = map_insert columnName (ValueObject_double value) b"

definition PutBool :: "string \<Rightarrow> bool \<Rightarrow> ValuesBucket \<Rightarrow> ValuesBucket" where
  "PutBool columnName value b = map_insert columnName (ValueObject_bool value) b"

definition PutBlob :: "string \<Rightarrow> byte list \<Rightarrow> ValuesBucket \<Rightarrow> ValuesBucket" where
  "PutBlob columnName value b = map_insert columnName (ValueObject_blob value) b"

definition PutNull :: "string \<Rightarrow> ValuesBucket \<Rightarrow> ValuesBucket" where
  "PutNull columnName b = map_insert columnName ValueObject_null b"

definition Delete :: "string \<Rightarrow> ValuesBucket \<Rightarrow> ValuesBucket" where
  "Delete columnName b = map_erase columnName b"

definition Bucket_Clear :: "ValuesBucket \<Rightarrow> ValuesBucket" where
  "Bucket_Clear b = []"

definition Size :: "ValuesBucket \<Rightarrow> nat" where
  "Size b = length b"

definition IsEmpty :: "ValuesBucket \<Rightarrow> bool" where
  "IsEmpty b \<longleftrightarrow> b = []"

definition HasColumn :: "string \<Rightarrow> ValuesBucket \<Rightarrow> bool" where
  "HasColumn columnName b = (case map_of b columnName of None \<Rightarrow> False | Some _ \<Rightarrow> True)"

definition GetObject :: "string \<Rightarrow> ValuesBucket \<Rightarrow> ValueObject option" where
  "GetObject columnName b = map_of b columnName"

definition GetAll :: "ValuesBucket \<Rightarrow> (string \<times> ValueObject) list" where
  "GetAll b = b"

text \<open>The size is written as a 32-bit integer; a failing value aborts the whole marshalling.\<close>

fun Bucket_write :: "'p parcel_ops \<Rightarrow> ValuesBucket \<Rightarrow> 'p \<Rightarrow> 'p option" where
  "Bucket_write P [] p = Some p"
| "Bucket_write P ((k, v) # b) p =
     (let p = WriteString P k p in
      case WriteParcelable P (Marshalling P v) p of
        None \<Rightarrow> None
      | Some q \<Rightarrow> Bucket_write P b q)"

definition Bucket_Marshalling :: "'p parcel_ops \<Rightarrow> ValuesBucket \<Rightarrow> 'p \<Rightarrow> 'p option" where
  "Bucket_Marshalling P b p = Bucket_write P b (WriteInt32 P (of_nat (length b)) p)"

text \<open>\<open>None\<close> is the dereference of the null pointer that \<open>ReadParcelable\<close> returns for an absent value.\<close>

fun Bucket_read :: "'p parcel_ops \<Rightarrow> nat \<Rightarrow> ValuesBucket \<Rightarrow> 'p \<Rightarrow> (ValuesBucket \<times> 'p) option" where
  "Bucket_read P 0 m p = Some (m, p)"
| "Bucket_read P (Suc n) m p =
     (case ReadString P p of (key, q) \<Rightarrow>
      case ReadParcelable P (Unmarshalling P) q of
        (None, r) \<Rightarrow> None
      | (Some v, r) \<Rightarrow> Bucket_read P n (map_insert key v m) r)"

definition Bucket_Unmarshalling :: "'p parcel_ops \<Rightarrow> 'p \<Rightarrow> (ValuesBucket \<times> 'p) option" where
  "Bucket_Unmarshalling P p =
     (case ReadInt32 P p of (mapSize, q) \<Rightarrow> Bucket_read P (nat (sint mapSize)) [] q)"

subsection \<open>A map that keeps the first value of a key\<close>

locale keep_first_map =
  fixes put :: "'k \<Rightarrow> 'v \<Rightarrow> 'm \<Rightarrow> 'm"
    and lookup :: "'m \<Rightarrow> 'k \<Rightarrow> 'v option"
    and erase :: "'k \<Rightarrow> 'm \<Rightarrow> 'm"
    and wf_map :: "'m \<Rightarrow> bool"
  assumes wf_put: "wf_map m \<Longrightarrow> wf_map (put k v m)"
    and wf_erase: "wf_map m \<Longrightarrow> wf_map (erase k m)"
    and lookup_put: "wf_map m \<Longrightarrow>
      lookup (put k v m) = (if lookup m k = None then (lookup m)(k \<mapsto> v) else lookup m)"
    and lookup_erase: "wf_map m \<Longrightarrow> lookup (erase k m) = (lookup m)(k := None)"
begin

lemma wf_fold: "wf_map m \<Longrightarrow> wf_map (fold (\<lambda>(k, v). put k v) kvs m)"
  by (induction kvs arbitrary: m) (auto intro: wf_put)

lemma lookup_fold:
  "wf_map m \<Longrightarrow> lookup (fold (\<lambda>(k, v). put k v) kvs m) = map_of kvs ++ lookup m"
proof (induction kvs arbitrary: m)
  case Nil
  then show ?case by simp
next
  case (Cons kv kvs)
  obtain k v where kv: "kv = (k, v)" by (cases kv)
  have "map_of kvs ++ lookup (put k v m) = map_of (kv # kvs) ++ lookup m"
    using Cons.prems kv by (auto simp: lookup_put fun_eq_iff map_add_def split: option.splits)
  moreover have "lookup (fold (\<lambda>(k, v). put k v) (kv # kvs) m) = map_of kvs ++ lookup (put k v m)"
    using Cons.IH [OF wf_put [OF Cons.prems]] kv by simp
  ultimately show ?case by (rule back_subst [of "\<lambda>x. _ = x", rotated])
qed

lemma put_after_erase: "wf_map m \<Longrightarrow> lookup (put k v (erase k m)) = (lookup m)(k \<mapsto> v)"
  by (simp add: lookup_put lookup_erase wf_erase)

end

lemma map_insert_fst: "set (map fst (map_insert k v m)) = insert k (set (map fst m))"
  by (induction k v m rule: map_insert.induct) (simp_all add: insert_commute)

lemma map_wf_insert: "map_wf m \<Longrightarrow> map_wf (map_insert k v m)"
proof (induction m)
  case Nil
  then show ?case by (simp add: map_wf_def)
next
  case (Cons kv m)
  obtain k' v' where "kv = (k', v')" by (cases kv)
  with Cons map_insert_fst [of k v m] show ?case
    by (fastforce simp: map_wf_def)
qed

lemma map_of_insert:
  "map_wf m \<Longrightarrow> map_of (map_insert k v m) = (if map_of m k = None then (map_of m)(k \<mapsto> v) else map_of m)"
proof (induction m)
  case Nil
  then show ?case by simp
next
  case (Cons kv m)
  obtain k' v' where kv: "kv = (k', v')" by (cases kv)
  from Cons.prems kv have m: "map_wf m" "\<forall>x \<in> set (map fst m). k' < x"
    by (auto simp: map_wf_def)
  have "map_of m k = None" if "k < k'"
    using m(2) that by (auto simp: map_of_eq_None_iff)
  with Cons.IH [OF m(1)] kv show ?case
    by (auto simp: fun_upd_twist)
qed

lemma map_of_erase: "map_of (map_erase k m) = (map_of m)(k := None)"
  by (induction m) (auto simp: map_erase_def)

lemma map_wf_erase: "map_wf m \<Longrightarrow> map_wf (map_erase k m)"
  by (induction m) (auto simp: map_wf_def map_erase_def)

interpretation bucket: keep_first_map map_insert map_of map_erase map_wf
  by unfold_locales (auto simp: map_wf_insert map_wf_erase map_of_insert map_of_erase)

text \<open>Inserting the entries of an ordered map one by one, in order, rebuilds it.\<close>

lemma map_insert_last: "\<forall>x \<in> set (map fst m). x < k \<Longrightarrow> map_insert k v m = m @ [(k, v)]"
  by (induction m) auto

lemma map_wf_snoc: "map_wf (m @ [(k, v)]) \<longleftrightarrow> map_wf m \<and> (\<forall>x \<in> set (map fst m). x < k)"
  by (auto simp: map_wf_def sorted_wrt_append)

subsection \<open>Round trip through a parcel\<close>

fun value_items :: "ValueObject \<Rightarrow> item list" where
  "value_items v = I16 (type_code (vtype v)) #
     (case vtype v of
        TYPE_NULL \<Rightarrow> []
      | _ \<Rightarrow> (case val v of VLong n \<Rightarrow> [I64 n] | VDouble d \<Rightarrow> [IDouble d] | VString s \<Rightarrow> [IString s]
               | VBlob b \<Rightarrow> [IBytes b] | VBool b \<Rightarrow> [IBool b]))"

text \<open>A null value carries no payload: the reader builds a fresh one.\<close>

definition strip_null :: "ValueObject \<Rightarrow> ValueObject" where
  "strip_null v = (if vtype v = TYPE_NULL then ValueObject_null else v)"

lemma parcel_writes:
  assumes "parcel_fifo_as D P items"
  shows "items (WriteInt16 P a p) = items p @ [D (I16 a)]" "items (WriteInt32 P b p) = items p @ [D (I32 b)]"
    "items (WriteInt64 P c p) = items p @ [D (I64 c)]" "items (WriteDouble P d p) = items p @ [D (IDouble d)]"
    "items (WriteString P e p) = items p @ [D (IString e)]" "items (WriteUInt8Vector P f p) = items p @ [D (IBytes f)]"
    "items (WriteBool P g p) = items p @ [D (IBool g)]"
    "WriteParcelable P m p = m (WriteInt32 P 1 p)"
  using assms by (simp_all add: parcel_fifo_as_def)

lemma parcel_reads:
  assumes "parcel_fifo_as D P items"
  shows "items p = D (I16 a) # xs \<Longrightarrow> \<exists>q. ReadInt16 P p = (a, q) \<and> items q = xs"
    "items p = D (I32 b) # xs \<Longrightarrow> \<exists>q. ReadInt32 P p = (b, q) \<and> items q = xs"
    "items p = D (I64 c) # xs \<Longrightarrow> \<exists>q. ReadInt64 P p = (c, q) \<and> items q = xs"
    "items p = D (IDouble d) # xs \<Longrightarrow> \<exists>q. ReadDouble P p = (d, q) \<and> items q = xs"
    "items p = D (IString e) # xs \<Longrightarrow> \<exists>q. ReadString P p = (e, q) \<and> items q = xs"
    "items p = D (IBytes f) # xs \<Longrightarrow> \<exists>q. ReadUInt8Vector P p = (f, q) \<and> items q = xs"
    "items p = D (IBool g) # xs \<Longrightarrow> \<exists>q. ReadBool P p = (g, q) \<and> items q = xs"
    "ReadParcelable P u p =
       (case ReadInt32 P p of (n, q) \<Rightarrow> if n = 0 then (None, q) else (case u q of (v, r) \<Rightarrow> (Some v, r)))"
  using assms by (simp_all add: parcel_fifo_as_def)

lemma Marshalling_items:
  assumes "parcel_fifo_as D P items" and "value_wf v"
  shows "\<exists>q. Marshalling P v p = Some q \<and> items q = items p @ map D (value_items v)"
  using assms(2) parcel_writes [OF assms(1)]
  by (cases "vtype v"; cases "val v") (auto simp: Marshalling_def Let_def)

lemma Unmarshalling_items:
  assumes "parcel_fifo_as D P items" and "value_wf v" and "items p = map D (value_items v) @ rest"
  shows "\<exists>q. Unmarshalling P p = (strip_null v, q) \<and> items q = rest"
proof -
  obtain q where q: "ReadInt16 P p = (type_code (vtype v), q)" "items q = map D (tl (value_items v)) @ rest"
    using parcel_reads(1) [OF assms(1), where p = p] assms(3) by auto
  then show ?thesis
    using assms(2) parcel_reads [OF assms(1), where p = q]
    by (cases "vtype v"; cases "val v")
      (fastforce simp: Unmarshalling_def Let_def strip_null_def ValueObject_null_def)+
qed

definition bucket_items :: "ValuesBucket \<Rightarrow> item list" where
  "bucket_items b = concat (map (\<lambda>(k, v). IString k # I32 1 # value_items v) b)"

lemma Bucket_write_items:
  assumes "parcel_fifo_as D P items" and "\<forall>(k, v) \<in> set b. value_wf v"
  shows "\<exists>q. Bucket_write P b p = Some q \<and> items q = items p @ map D (bucket_items b)"
  using assms(2)
proof (induction b arbitrary: p)
  case Nil
  then show ?case by (simp add: bucket_items_def)
next
  case (Cons kv b)
  obtain k v where kv: "kv = (k, v)" by (cases kv)
  from Cons.prems kv have "value_wf v" by auto
  from Marshalling_items [OF assms(1) this, of "WriteInt32 P 1 (WriteString P k p)"]
  obtain q where q: "Marshalling P v (WriteInt32 P 1 (WriteString P k p)) = Some q"
    "items q = items p @ D (IString k) # D (I32 1) # map D (value_items v)"
    by (auto simp: parcel_writes [OF assms(1)])
  from Cons.IH [of q] Cons.prems obtain r where
    "Bucket_write P b q = Some r" "items r = items q @ map D (bucket_items b)" by auto
  with q kv show ?case
    by (simp add: parcel_writes [OF assms(1)] bucket_items_def)
qed

lemma Bucket_read_items:
  assumes "parcel_fifo_as D P items" and "\<forall>(k, v) \<in> set b. value_wf v"
    and "map_wf (m @ map (\<lambda>(k, v). (k, strip_null v)) b)" and "items p = map D (bucket_items b) @ rest"
  shows "\<exists>q. Bucket_read P (length b) m p = Some (m @ map (\<lambda>(k, v). (k, strip_null v)) b, q)
    \<and> items q = rest"
  using assms(2-4)
proof (induction b arbitrary: m p)
  case Nil
  then show ?case by (simp add: bucket_items_def)
next
  case (Cons kv b)
  obtain k v where kv: "kv = (k, v)" by (cases kv)
  from Cons.prems(3) kv have it: "items p = D (IString k) # D (I32 1) # map D (value_items v) @ map D (bucket_items b) @ rest"
    by (simp add: bucket_items_def)
  obtain q1 where q1: "ReadString P p = (k, q1)" "items q1 = D (I32 1) # map D (value_items v) @ map D (bucket_items b) @ rest"
    using parcel_reads(5) [OF assms(1) it] by auto
  obtain q2 where q2: "ReadInt32 P q1 = (1, q2)" "items q2 = map D (value_items v) @ map D (bucket_items b) @ rest"
    using parcel_reads(2) [OF assms(1) q1(2)] by auto
  have v: "value_wf v" using Cons.prems(1) kv by auto
  obtain q3 where q3: "Unmarshalling P q2 = (strip_null v, q3)" "items q3 = map D (bucket_items b) @ rest"
    using Unmarshalling_items [OF assms(1) v q2(2)] by auto
  have wf: "map_wf ((m @ [(k, strip_null v)]) @ map (\<lambda>(k, v). (k, strip_null v)) b)"
    using Cons.prems(2) kv by simp
  then have "map_insert k (strip_null v) m = m @ [(k, strip_null v)]"
    by (intro map_insert_last) (auto simp: map_wf_def sorted_wrt_append)
  with Cons.IH [OF _ wf q3(2)] Cons.prems(1) q1 q2 q3 kv show ?case
    by (auto simp: parcel_reads(8) [OF assms(1)])
qed

definition bucket_ok :: "ValuesBucket \<Rightarrow> bool" where
  "bucket_ok b \<longleftrightarrow> map_wf b \<and> (\<forall>(k, v) \<in> set b. value_wf v) \<and> length b < 2 ^ 31"

lemma sint_of_nat_31: "n < 2 ^ 31 \<Longrightarrow> nat (sint (of_nat n :: 32 word)) = n"
  by (simp add: signed_of_nat signed_take_bit_eq_if_positive take_bit_nat_eq_self
      signed_take_bit_int_eq_self flip: of_nat_power)

lemma bucket_write:
  assumes F: "parcel_fifo_as D P items" and b: "bucket_ok b"
  shows "\<exists>q. Bucket_Marshalling P b p = Some q \<and> items q = items p @ map D (I32 (of_nat (length b)) # bucket_items b)"
  using Bucket_write_items [OF F, of b "WriteInt32 P (of_nat (length b)) p"] b
  by (auto simp: Bucket_Marshalling_def parcel_writes [OF F] bucket_ok_def)

lemma bucket_read:
  assumes F: "parcel_fifo_as D P items" and b: "bucket_ok b" and i: "items p = map D (I32 (of_nat (length b)) # bucket_items b) @ rest"
  shows "\<exists>q. Bucket_Unmarshalling P p = Some (map (\<lambda>(k, v). (k, strip_null v)) b, q) \<and> items q = rest"
proof -
  from b have wf: "map_wf b" "\<forall>(k, v) \<in> set b. value_wf v" "length b < 2 ^ 31" by (simp_all add: bucket_ok_def)
  obtain q where q: "ReadInt32 P p = (of_nat (length b), q)" "items q = map D (bucket_items b) @ rest"
    using parcel_reads(2) [OF F, of p] i by auto
  have "map_wf ([] @ map (\<lambda>(k, v). (k, strip_null v)) b)"
    using wf(1) by (simp add: map_wf_def comp_def case_prod_unfold)
  from Bucket_read_items [OF F wf(2) this q(2)] q(1) show ?thesis
    by (auto simp: Bucket_Unmarshalling_def sint_of_nat_31 [OF wf(3)])
qed

text \<open>
  C10 (roundtrip): a bucket written to a parcel and read back is the same bucket (null values carry no
  payload), and exactly the items it wrote are consumed, given that parcels return items in the order
  written.
\<close>

theorem bucket_parcel_roundtrip:
  assumes "parcel_fifo P items" and "bucket_ok b" and "items p = []"
  shows "\<exists>q r. Bucket_Marshalling P b p = Some q
    \<and> Bucket_Unmarshalling P q = Some (map (\<lambda>(k, v). (k, strip_null v)) b, r) \<and> items r = []"
proof -
  note F = assms(1) [unfolded parcel_fifo_def]
  obtain q where q: "Bucket_Marshalling P b p = Some q" "items q = map (\<lambda>x. x) (I32 (of_nat (length b)) # bucket_items b) @ []"
    using bucket_write [OF F assms(2), of p] assms(3) by auto
  from bucket_read [OF F assms(2) q(2)] q(1) show ?thesis by blast
qed

text \<open>A parcel as the list of its unread items: the hypothesis on parcels can hold.\<close>

definition list_parcel :: "item list parcel_ops" where
  "list_parcel = \<lparr>
     WriteInt16 = (\<lambda>x p. p @ [I16 x]), WriteInt32 = (\<lambda>x p. p @ [I32 x]), WriteInt64 = (\<lambda>x p. p @ [I64 x]),
     WriteDouble = (\<lambda>x p. p @ [IDouble x]), WriteString = (\<lambda>x p. p @ [IString x]),
     WriteUInt8Vector = (\<lambda>x p. p @ [IBytes x]), WriteBool = (\<lambda>x p. p @ [IBool x]),
     ReadInt16 = (\<lambda>p. case p of I16 x # q \<Rightarrow> (x, q) | _ \<Rightarrow> (0, p)),
     ReadInt32 = (\<lambda>p. case p of I32 x # q \<Rightarrow> (x, q) | _ \<Rightarrow> (0, p)),
     ReadInt64 = (\<lambda>p. case p of I64 x # q \<Rightarrow> (x, q) | _ \<Rightarrow> (0, p)),
     ReadDouble = (\<lambda>p. case p of IDouble x # q \<Rightarrow> (x, q) | _ \<Rightarrow> (0, p)),
     ReadString = (\<lambda>p. case p of IString x # q \<Rightarrow> (x, q) | _ \<Rightarrow> ([], p)),
     ReadUInt8Vector = (\<lambda>p. case p of IBytes x # q \<Rightarrow> (x, q) | _ \<Rightarrow> ([], p)),
     ReadBool = (\<lambda>p. case p of IBool x # q \<Rightarrow> (x, q) | _ \<Rightarrow> (False, p)),
     WriteParcelable = (\<lambda>m p. m (p @ [I32 1])),
     ReadParcelable = (\<lambda>u p. case (case p of I32 x # q \<Rightarrow> (x, q) | _ \<Rightarrow> (0, p)) of (n, q) \<Rightarrow>
        if n = 0 then (None, q) else (case u q of (v, r) \<Rightarrow> (Some v, r)))\<rparr>"

lemma list_parcel_fifo: "parcel_fifo list_parcel (\<lambda>p. p)"
  by (simp add: parcel_fifo_def parcel_fifo_as_def list_parcel_def)

theorem bucket_parcel_roundtrip_witness:
  "\<exists>q r. Bucket_Marshalling list_parcel [(''age'', ValueObject_int 7), (''name'', ValueObject_string ''x'')] [] = Some q
    \<and> Bucket_Unmarshalling list_parcel q
        = Some ([(''age'', ValueObject_int 7), (''name'', ValueObject_string ''x'')], r) \<and> r = []"
proof -
  have ok: "bucket_ok [(''age'', ValueObject_int 7), (''name'', ValueObject_string ''x'')]"
    by (simp add: bucket_ok_def map_wf_def ValueObject_ctors)
  show ?thesis
    using bucket_parcel_roundtrip [OF list_parcel_fifo ok refl]
    by (simp add: strip_null_def ValueObject_ctors)
qed



lemma ctors_wf:
  "value_wf ValueObject_null" "value_wf (ValueObject_int i)" "value_wf (ValueObject_long l)"
  "value_wf (ValueObject_double d)" "value_wf (ValueObject_bool b)" "value_wf (ValueObject_string s)"
  "value_wf (ValueObject_blob bs)" "value_wf (fst (Unmarshalling P p))"
  by (simp_all add: ValueObject_ctors Unmarshalling_def Let_def split: prod.splits)

text \<open>
  Reading an integer value as a 32-bit int gives the stored number exactly when that
  number fits 32 bits; the code truncates silently otherwise.
\<close>

theorem GetInt_exact_iff:
  "\<exists>m. GetInt (ValueObject_long n) = Got m
    \<and> (sint m = sint n \<longleftrightarrow> - (2 ^ 31) \<le> sint n \<and> sint n < 2 ^ 31)"
proof -
  have "sint (ucast n :: 32 word) = signed_take_bit 31 (sint n)"
    by (simp add: sint_uint unsigned_ucast_eq signed_take_bit_take_bit)
  moreover have "signed_take_bit 31 (sint n) = sint n \<longleftrightarrow> - (2 ^ 31) \<le> sint n \<and> sint n < 2 ^ 31"
    by (simp add: signed_take_bit_int_eq_self_iff)
  ultimately show ?thesis
    by (simp add: GetInt_def ValueObject_long_def)
qed

end
