(* ===== verification/Sqlite_Statement.thy ===== *)
theory Sqlite_Statement
  imports Value_Object
begin

text \<open>
  A prepared statement (sqlite_statement.cpp).  SQLite itself belongs to another repository: its C
  interface is the parameter \<open>'s sqlite3_api\<close>, whose functions read and change a library state \<open>'s\<close>;
  pointers are \<open>nat option\<close>, \<open>None\<close> for the null pointer.  What the code relies on is the named
  hypothesis \<open>sqlite_contract\<close>.  The conversions between doubles and other types are a parameter too,
  since a double is kept as its bit pattern.
\<close>

subsection \<open>SQLite, a parameter\<close>

type_synonym ptr = "nat option"

datatype bind_value =
  BindNull | BindInt64 int64 | BindDouble "64 word" | BindBlob "byte list" | BindText string

record 's sqlite3_api =
  sqlite3_open_v2 :: "string \<Rightarrow> int \<Rightarrow> 's \<Rightarrow> int \<times> ptr \<times> 's"
  sqlite3_close :: "ptr \<Rightarrow> 's \<Rightarrow> int \<times> 's"
  sqlite3_key :: "ptr \<Rightarrow> byte list \<Rightarrow> 's \<Rightarrow> int \<times> 's"
  sqlite3_rekey :: "ptr \<Rightarrow> byte list \<Rightarrow> 's \<Rightarrow> int \<times> 's"
  sqlite3_file_control :: "ptr \<Rightarrow> 's \<Rightarrow> int \<times> 's"
  sqlite3_busy_timeout :: "ptr \<Rightarrow> int \<Rightarrow> 's \<Rightarrow> int \<times> 's"
  sqlite3_prepare_v2 :: "ptr \<Rightarrow> string \<Rightarrow> 's \<Rightarrow> int \<times> ptr \<times> 's"
  sqlite3_finalize :: "ptr \<Rightarrow> 's \<Rightarrow> int \<times> 's"
  sqlite3_reset :: "ptr \<Rightarrow> 's \<Rightarrow> int \<times> 's"
  sqlite3_clear_bindings :: "ptr \<Rightarrow> 's \<Rightarrow> int \<times> 's"
  sqlite3_bind :: "ptr \<Rightarrow> int \<Rightarrow> bind_value \<Rightarrow> 's \<Rightarrow> int \<times> 's"
  sqlite3_step :: "ptr \<Rightarrow> 's \<Rightarrow> int \<times> 's"
  sqlite3_stmt_readonly :: "ptr \<Rightarrow> 's \<Rightarrow> int"
  sqlite3_column_count :: "ptr \<Rightarrow> 's \<Rightarrow> int"
  sqlite3_bind_parameter_count :: "ptr \<Rightarrow> 's \<Rightarrow> int"
  sqlite3_column_name :: "ptr \<Rightarrow> int \<Rightarrow> 's \<Rightarrow> string option"
  sqlite3_column_type :: "ptr \<Rightarrow> int \<Rightarrow> 's \<Rightarrow> int"
  sqlite3_column_int64 :: "ptr \<Rightarrow> int \<Rightarrow> 's \<Rightarrow> int64"
  sqlite3_column_double :: "ptr \<Rightarrow> int \<Rightarrow> 's \<Rightarrow> 64 word"
  sqlite3_column_text :: "ptr \<Rightarrow> int \<Rightarrow> 's \<Rightarrow> string option"
  sqlite3_column_bytes :: "ptr \<Rightarrow> int \<Rightarrow> 's \<Rightarrow> int"
  sqlite3_column_blob :: "ptr \<Rightarrow> int \<Rightarrow> 's \<Rightarrow> byte list option"
  sqlite3_changes :: "ptr \<Rightarrow> 's \<Rightarrow> int"
  sqlite3_last_insert_rowid :: "ptr \<Rightarrow> 's \<Rightarrow> int64"

text \<open>Conversions of doubles, by their bit patterns: a cast from and to \<open>int64_t\<close>, \<open>std::strtod\<close>, and
  an output stream with precision 15.\<close>

record fp_ops =
  fp_of_int64 :: "int64 \<Rightarrow> 64 word"
  fp_to_int64 :: "64 word \<Rightarrow> int64"
  fp_strtod :: "string \<Rightarrow> 64 word"
  fp_print15 :: "64 word \<Rightarrow> string"
  fp_zero :: "64 word"

abbreviation (input) SQLITE_OK :: int where "SQLITE_OK \<equiv> 0"
abbreviation (input) SQLITE_BUSY :: int where "SQLITE_BUSY \<equiv> 5"
abbreviation (input) SQLITE_LOCKED :: int where "SQLITE_LOCKED \<equiv> 6"
abbreviation (input) SQLITE_ROW :: int where "SQLITE_ROW \<equiv> 100"
abbreviation (input) SQLITE_DONE :: int where "SQLITE_DONE \<equiv> 101"

abbreviation (input) SQLITE_INTEGER :: int where "SQLITE_INTEGER \<equiv> 1"
abbreviation (input) SQLITE_FLOAT :: int where "SQLITE_FLOAT \<equiv> 2"
abbreviation (input) SQLITE_TEXT :: int where "SQLITE_TEXT \<equiv> 3"
abbreviation (input) SQLITE_BLOB :: int where "SQLITE_BLOB \<equiv> 4"
abbreviation (input) SQLITE_NULL :: int where "SQLITE_NULL \<equiv> 5"

definition ErrNo :: "int \<Rightarrow> rdb_errno" where
  "ErrNo sqliteErr = E_SQLITE sqliteErr"

subsection \<open>strtoll with base 0\<close>

definition digit_of :: "char \<Rightarrow> nat" where
  "digit_of c =
     (let n = of_char c in
      if 48 \<le> n \<and> n \<le> 57 then n - 48
      else if 97 \<le> n \<and> n \<le> 122 then n - 87
      else if 65 \<le> n \<and> n \<le> 90 then n - 55
      else 36)"

definition strtoll_digits :: "nat \<Rightarrow> string \<Rightarrow> int" where
  "strtoll_digits base s =
     foldl (\<lambda>a c. a * int base + int (digit_of c)) 0 (takeWhile (\<lambda>c. digit_of c < base) s)"

definition strtoll_unsigned :: "string \<Rightarrow> int" where
  "strtoll_unsigned s =
     (if take 1 s = ''0'' then
        if (take 2 s = ''0x'' \<or> take 2 s = ''0X'') \<and> 2 < length s \<and> digit_of (s ! 2) < 16
        then strtoll_digits 16 (drop 2 s)
        else strtoll_digits 8 s
      else strtoll_digits 10 s)"

text \<open>The value saturates at the bounds of \<open>long long\<close>.\<close>

definition strtoll :: "string \<Rightarrow> int64" where
  "strtoll s =
     (let t = dropWhile is_space s;
          v = (if take 1 t = ''-'' then - strtoll_unsigned (drop 1 t)
               else if take 1 t = ''+'' then strtoll_unsigned (drop 1 t)
               else strtoll_unsigned t)
      in word_of_int (max (- (2 ^ 63)) (min (2 ^ 63 - 1) v)))"

subsection \<open>The statement\<close>

record SqliteStatement =
  st_sql :: string
  stmtHandle :: ptr
  readOnly :: bool
  columnCount :: int
  numParameters :: int

definition SqliteStatement_new :: SqliteStatement where
  "SqliteStatement_new =
     \<lparr>st_sql = [], stmtHandle = None, readOnly = False, columnCount = 0, numParameters = 0\<rparr>"

definition Finalize :: "'s sqlite3_api \<Rightarrow> SqliteStatement \<Rightarrow> 's \<Rightarrow> rdb_errno \<times> SqliteStatement \<times> 's" where
  "Finalize api st s =
     (if stmtHandle st = None then (E_OK, st, s)
      else
        let (errCode, s) = sqlite3_finalize api (stmtHandle st) s;
            st = st\<lparr>stmtHandle := None, st_sql := [], readOnly := False, columnCount := 0, numParameters := 0\<rparr>
        in (if errCode \<noteq> SQLITE_OK then ErrNo errCode else E_OK, st, s))"

definition Prepare :: "'s sqlite3_api \<Rightarrow> ptr \<Rightarrow> string \<Rightarrow> SqliteStatement \<Rightarrow> 's \<Rightarrow>
    rdb_errno \<times> SqliteStatement \<times> 's" where
  "Prepare api dbHandle newSql st s =
     (if st_sql st = newSql then (E_OK, st, s)
      else
        let (errCode, stmt, s) = sqlite3_prepare_v2 api dbHandle newSql s in
        if errCode \<noteq> SQLITE_OK then
          (ErrNo errCode, st, if stmt \<noteq> None then snd (sqlite3_finalize api stmt s) else s)
        else
          let (_, st, s) = Finalize api st s;
              st = st\<lparr>st_sql := newSql, stmtHandle := stmt\<rparr>;
              st = st\<lparr>readOnly := (sqlite3_stmt_readonly api stmt s \<noteq> 0),
                      columnCount := sqlite3_column_count api stmt s,
                      numParameters := sqlite3_bind_parameter_count api stmt s\<rparr>
          in (E_OK, st, s))"

text \<open>The default branch of the switch reads the value as a string; the getters leave the local
  variable at its initial value when they fail.\<close>

definition got_or :: "'a \<Rightarrow> 'a getter \<Rightarrow> 'a option" where
  "got_or d g = (case g of Got v \<Rightarrow> Some v | Failed _ \<Rightarrow> Some d | BadVariantAccess \<Rightarrow> None)"

definition bind_arg :: "ValueObject \<Rightarrow> bind_value option" where
  "bind_arg arg =
     (case vtype arg of
        TYPE_NULL \<Rightarrow> Some BindNull
      | TYPE_INT \<Rightarrow> map_option BindInt64 (got_or 0 (GetLong arg))
      | TYPE_DOUBLE \<Rightarrow> map_option BindDouble (got_or 0 (GetDouble arg))
      | TYPE_BLOB \<Rightarrow> map_option BindBlob (got_or [] (GetBlob arg))
      | TYPE_BOOL \<Rightarrow> map_option (\<lambda>b. BindInt64 (if b then 1 else 0)) (got_or False (GetBool arg))
      | TYPE_STRING \<Rightarrow> map_option BindText (got_or [] (GetString arg)))"

text \<open>\<open>None\<close> is the exception of \<open>std::get\<close>.\<close>

fun InnerBindArguments :: "'s sqlite3_api \<Rightarrow> SqliteStatement \<Rightarrow> ValueObject list \<Rightarrow> int \<Rightarrow> 's \<Rightarrow>
    (rdb_errno \<times> 's) option" where
  "InnerBindArguments api st [] index s = Some (E_OK, s)"
| "InnerBindArguments api st (arg # args) index s =
     (case bind_arg arg of
        None \<Rightarrow> None
      | Some v \<Rightarrow>
          let (errCode, s) = sqlite3_bind api (stmtHandle st) index v s in
          if errCode \<noteq> SQLITE_OK then Some (ErrNo errCode, s)
          else InnerBindArguments api st args (index + 1) s)"

definition BindArguments :: "'s sqlite3_api \<Rightarrow> SqliteStatement \<Rightarrow> ValueObject list \<Rightarrow> 's \<Rightarrow>
    (rdb_errno \<times> 's) option" where
  "BindArguments api st bindArgs s =
     (let count = int (length bindArgs) in
      if count = 0 then Some (E_OK, s)
      else
        let abindArgs =
          (if numParameters st \<noteq> 0 \<and> count \<le> numParameters st
           then bindArgs @ replicate (nat (numParameters st - count)) ValueObject_null
           else [])
        in if count > numParameters st then Some (E_INVALID_BIND_ARGS_COUNT, s)
           else InnerBindArguments api st abindArgs 1 s)"

definition ResetStatementAndClearBindings :: "'s sqlite3_api \<Rightarrow> SqliteStatement \<Rightarrow> 's \<Rightarrow> rdb_errno \<times> 's" where
  "ResetStatementAndClearBindings api st s =
     (if stmtHandle st = None then (E_OK, s)
      else
        let (errCode, s) = sqlite3_reset api (stmtHandle st) s in
        if errCode \<noteq> SQLITE_OK then (ErrNo errCode, s)
        else
          let (errCode, s) = sqlite3_clear_bindings api (stmtHandle st) s in
          if errCode \<noteq> SQLITE_OK then (ErrNo errCode, s) else (E_OK, s))"

definition Step :: "'s sqlite3_api \<Rightarrow> SqliteStatement \<Rightarrow> 's \<Rightarrow> int \<times> 's" where
  "Step api st s = sqlite3_step api (stmtHandle st) s"

definition GetColumnCount :: "SqliteStatement \<Rightarrow> int result" where
  "GetColumnCount st = (if stmtHandle st = None then Inl E_INVALID_STATEMENT else Inr (columnCount st))"

definition GetNumParameters :: "SqliteStatement \<Rightarrow> int result" where
  "GetNumParameters st = (if stmtHandle st = None then Inl E_INVALID_STATEMENT else Inr (numParameters st))"

definition GetColumnName :: "'s sqlite3_api \<Rightarrow> SqliteStatement \<Rightarrow> int \<Rightarrow> 's \<Rightarrow> string result" where
  "GetColumnName api st index s =
     (if stmtHandle st = None then Inl E_INVALID_STATEMENT
      else if index \<ge> columnCount st then Inl E_INVALID_COLUMN_INDEX
      else case sqlite3_column_name api (stmtHandle st) index s of
             None \<Rightarrow> Inl E_ERROR
           | Some name \<Rightarrow> Inr name)"

definition GetColumnType :: "'s sqlite3_api \<Rightarrow> SqliteStatement \<Rightarrow> int \<Rightarrow> 's \<Rightarrow> int result" where
  "GetColumnType api st index s =
     (if stmtHandle st = None then Inl E_INVALID_STATEMENT
      else if index \<ge> columnCount st then Inl E_INVALID_COLUMN_INDEX
      else
        let t = sqlite3_column_type api (stmtHandle st) index s in
        if t \<in> {SQLITE_INTEGER, SQLITE_FLOAT, SQLITE_BLOB, SQLITE_NULL, SQLITE_TEXT} then Inr t else Inl E_ERROR)"

definition GetColumnBlob :: "'s sqlite3_api \<Rightarrow> SqliteStatement \<Rightarrow> int \<Rightarrow> 's \<Rightarrow> byte list result" where
  "GetColumnBlob api st index s =
     (if stmtHandle st = None then Inl E_INVALID_STATEMENT
      else if index \<ge> columnCount st then Inl E_INVALID_COLUMN_INDEX
      else
        let t = sqlite3_column_type api (stmtHandle st) index s in
        if t \<noteq> SQLITE_BLOB \<and> t \<noteq> SQLITE_TEXT \<and> t \<noteq> SQLITE_NULL then Inl E_INVALID_COLUMN_TYPE
        else
          let size = sqlite3_column_bytes api (stmtHandle st) index s in
          case sqlite3_column_blob api (stmtHandle st) index s of
            None \<Rightarrow> Inr []
          | Some blob \<Rightarrow> Inr (if size = 0 then [] else take (nat size) blob))"

definition GetColumnString :: "'s sqlite3_api \<Rightarrow> fp_ops \<Rightarrow> SqliteStatement \<Rightarrow> int \<Rightarrow> 's \<Rightarrow> string result" where
  "GetColumnString api fp st index s =
     (if stmtHandle st = None then Inl E_INVALID_STATEMENT
      else if index \<ge> columnCount st then Inl E_INVALID_COLUMN_INDEX
      else
        let t = sqlite3_column_type api (stmtHandle st) index s in
        if t = SQLITE_TEXT then
          Inr (case sqlite3_column_text api (stmtHandle st) index s of None \<Rightarrow> [] | Some v \<Rightarrow> v)
        else if t = SQLITE_INTEGER then Inr (to_string (sint (sqlite3_column_int64 api (stmtHandle st) index s)))
        else if t = SQLITE_FLOAT then Inr (fp_print15 fp (sqlite3_column_double api (stmtHandle st) index s))
        else if t = SQLITE_NULL then Inr []
        else if t = SQLITE_BLOB then Inl E_INVALID_COLUMN_TYPE
        else Inl E_ERROR)"

definition GetColumnLong :: "'s sqlite3_api \<Rightarrow> fp_ops \<Rightarrow> SqliteStatement \<Rightarrow> int \<Rightarrow> 's \<Rightarrow> int64 result" where
  "GetColumnLong api fp st index s =
     (if stmtHandle st = None then Inl E_INVALID_STATEMENT
      else if index \<ge> columnCount st then Inl E_INVALID_COLUMN_INDEX
      else
        let t = sqlite3_column_type api (stmtHandle st) index s in
        if t = SQLITE_INTEGER then Inr (sqlite3_column_int64 api (stmtHandle st) index s)
        else if t = SQLITE_TEXT then
          Inr (case sqlite3_column_text api (stmtHandle st) index s of None \<Rightarrow> 0 | Some v \<Rightarrow> strtoll v)
        else if t = SQLITE_FLOAT then Inr (fp_to_int64 fp (sqlite3_column_double api (stmtHandle st) index s))
        else if t = SQLITE_NULL then Inr 0
        else if t = SQLITE_BLOB then Inl E_INVALID_COLUMN_TYPE
        else Inl E_ERROR)"

definition GetColumnDouble :: "'s sqlite3_api \<Rightarrow> fp_ops \<Rightarrow> SqliteStatement \<Rightarrow> int \<Rightarrow> 's \<Rightarrow> (64 word) result" where
  "GetColumnDouble api fp st index s =
     (if stmtHandle st = None then Inl E_INVALID_STATEMENT
      else if index \<ge> columnCount st then Inl E_INVALID_COLUMN_INDEX
      else
        let t = sqlite3_column_type api (stmtHandle st) index s in
        if t = SQLITE_FLOAT then Inr (sqlite3_column_double api (stmtHandle st) index s)
        else if t = SQLITE_INTEGER then Inr (fp_of_int64 fp (sqlite3_column_int64 api (stmtHandle st) index s))
        else if t = SQLITE_TEXT then
          Inr (case sqlite3_column_text api (stmtHandle st) index s of
                 None \<Rightarrow> fp_zero fp | Some v \<Rightarrow> fp_strtod fp v)
        else if t = SQLITE_NULL then Inr (fp_zero fp)
        else if t = SQLITE_BLOB then Inl E_INVALID_COLUMN_TYPE
        else Inl E_ERROR)"


subsection \<open>What the code relies on\<close>

text \<open>
  \<open>db\<close> is the content of the database, \<open>live\<close> the statements that have been prepared and not finalised,
  \<open>busy\<close> those that have been stepped and not reset.  The contract says what the SQLite documentation
  says of \<open>sqlite3_stmt_readonly\<close>: stepping a read-only statement does not change the content; the flag
  belongs to the statement for as long as it lives; resetting or finalising a statement that is
  read-only or not busy does not change the content; preparing and binding never do.
\<close>

definition ro_stable :: "'s sqlite3_api \<Rightarrow> nat set \<Rightarrow> 's \<Rightarrow> 's \<Rightarrow> bool" where
  "ro_stable a L s s' \<longleftrightarrow> (\<forall>h \<in> L. sqlite3_stmt_readonly a (Some h) s' = sqlite3_stmt_readonly a (Some h) s)"

definition harmless :: "'s sqlite3_api \<Rightarrow> ('s \<Rightarrow> nat set) \<Rightarrow> ptr \<Rightarrow> 's \<Rightarrow> bool" where
  "harmless a busy p s \<longleftrightarrow> p = None \<or> sqlite3_stmt_readonly a p s \<noteq> 0 \<or> the p \<notin> busy s"

definition quiet :: "'s sqlite3_api \<Rightarrow> ('s \<Rightarrow> 'c) \<Rightarrow> ('s \<Rightarrow> nat set) \<Rightarrow> ('s \<Rightarrow> nat set) \<Rightarrow> 's \<Rightarrow> 's \<Rightarrow> bool" where
  "quiet a db live busy s s' \<longleftrightarrow>
     db s' = db s \<and> live s' = live s \<and> busy s' \<subseteq> busy s \<and> ro_stable a (live s) s s'"

definition sqlite_contract :: "'s sqlite3_api \<Rightarrow> ('s \<Rightarrow> 'c) \<Rightarrow> ('s \<Rightarrow> nat set) \<Rightarrow> ('s \<Rightarrow> nat set) \<Rightarrow> bool" where
  "sqlite_contract a db live busy \<longleftrightarrow>
     (\<forall>p i v s. quiet a db live busy s (snd (sqlite3_bind a p i v s)))
   \<and> (\<forall>p s. quiet a db live busy s (snd (sqlite3_clear_bindings a p s)))
   \<and> (\<forall>p s. let s' = snd (sqlite3_step a p s) in
        live s' = live s \<and> busy s' \<subseteq> busy s \<union> set_option p \<and> ro_stable a (live s) s s'
        \<and> (p = None \<or> sqlite3_stmt_readonly a p s \<noteq> 0 \<longrightarrow> db s' = db s))
   \<and> (\<forall>p s. let s' = snd (sqlite3_reset a p s) in
        live s' = live s \<and> busy s' \<subseteq> busy s \<and> ro_stable a (live s) s s'
        \<and> (harmless a busy p s \<longrightarrow> db s' = db s))
   \<and> (\<forall>p s. let s' = snd (sqlite3_finalize a p s) in
        live s' = live s - set_option p \<and> busy s' \<subseteq> busy s \<and> ro_stable a (live s - set_option p) s s'
        \<and> (harmless a busy p s \<longrightarrow> db s' = db s))
   \<and> (\<forall>d q s. case sqlite3_prepare_v2 a d q s of (rc, p, s') \<Rightarrow>
        db s' = db s \<and> live s' = live s \<union> set_option p \<and> set_option p \<inter> live s = {}
        \<and> busy s' \<subseteq> busy s \<and> set_option p \<inter> busy s' = {} \<and> ro_stable a (live s) s s')"

lemma contract_bind: "sqlite_contract a db live busy \<Longrightarrow> quiet a db live busy s (snd (sqlite3_bind a p i v s))"
  and contract_clear: "sqlite_contract a db live busy \<Longrightarrow> quiet a db live busy s (snd (sqlite3_clear_bindings a p s))"
  by (simp_all add: sqlite_contract_def)

lemma contract_step:
  "sqlite_contract a db live busy \<Longrightarrow> s' = snd (sqlite3_step a p s) \<Longrightarrow>
     live s' = live s \<and> busy s' \<subseteq> busy s \<union> set_option p \<and> ro_stable a (live s) s s'
     \<and> (p = None \<or> sqlite3_stmt_readonly a p s \<noteq> 0 \<longrightarrow> db s' = db s)"
  by (simp add: sqlite_contract_def Let_def)

lemma contract_reset:
  "sqlite_contract a db live busy \<Longrightarrow> s' = snd (sqlite3_reset a p s) \<Longrightarrow>
     live s' = live s \<and> busy s' \<subseteq> busy s \<and> ro_stable a (live s) s s'
     \<and> (harmless a busy p s \<longrightarrow> db s' = db s)"
  by (simp add: sqlite_contract_def Let_def)

lemma contract_finalize:
  "sqlite_contract a db live busy \<Longrightarrow> s' = snd (sqlite3_finalize a p s) \<Longrightarrow>
     live s' = live s - set_option p \<and> busy s' \<subseteq> busy s \<and> ro_stable a (live s - set_option p) s s'
     \<and> (harmless a busy p s \<longrightarrow> db s' = db s)"
  by (simp add: sqlite_contract_def Let_def)

lemma contract_prepare:
  "sqlite_contract a db live busy \<Longrightarrow> sqlite3_prepare_v2 a d q s = (rc, p, s') \<Longrightarrow>
     db s' = db s \<and> live s' = live s \<union> set_option p \<and> set_option p \<inter> live s = {}
     \<and> busy s' \<subseteq> busy s \<and> set_option p \<inter> busy s' = {} \<and> ro_stable a (live s) s s'"
proof -
  assume "sqlite_contract a db live busy" and eq: "sqlite3_prepare_v2 a d q s = (rc, p, s')"
  then have "\<forall>d q s. case sqlite3_prepare_v2 a d q s of (rc, p, s') \<Rightarrow>
        db s' = db s \<and> live s' = live s \<union> set_option p \<and> set_option p \<inter> live s = {}
        \<and> busy s' \<subseteq> busy s \<and> set_option p \<inter> busy s' = {} \<and> ro_stable a (live s) s s'"
    by (simp add: sqlite_contract_def)
  from spec [OF spec [OF spec [OF this, of d], of q], of s] eq show ?thesis by simp
qed

subsection \<open>The state of a statement\<close>

text \<open>The handle is live, the cached flag is the one SQLite has, and a statement that may write is never
  left between its first step and its reset.\<close>

definition stmt_safe :: "'s sqlite3_api \<Rightarrow> ('s \<Rightarrow> nat set) \<Rightarrow> ('s \<Rightarrow> nat set) \<Rightarrow> SqliteStatement \<Rightarrow> 's \<Rightarrow> bool" where
  "stmt_safe a live busy st s \<longleftrightarrow>
     (\<forall>h. stmtHandle st = Some h \<longrightarrow>
        h \<in> live s \<and> (readOnly st \<longrightarrow> sqlite3_stmt_readonly a (Some h) s \<noteq> 0)
        \<and> (sqlite3_stmt_readonly a (Some h) s = 0 \<longrightarrow> h \<notin> busy s))"

lemma stmt_safe_new [simp]: "stmt_safe a live busy SqliteStatement_new s"
  by (simp add: stmt_safe_def SqliteStatement_new_def)

lemma stmt_safe_mono:
  "stmt_safe a live busy st s \<Longrightarrow> live s \<subseteq> live s' \<Longrightarrow> busy s' \<subseteq> busy s \<Longrightarrow> ro_stable a (live s) s s' \<Longrightarrow>
     stmt_safe a live busy st s'"
  by (auto simp: stmt_safe_def ro_stable_def)

lemma stmt_safe_harmless: "stmt_safe a live busy st s \<Longrightarrow> harmless a busy (stmtHandle st) s"
  by (auto simp: stmt_safe_def harmless_def)

lemma quiet_refl [simp]: "quiet a db live busy s s"
  by (simp add: quiet_def ro_stable_def)

lemma quiet_trans: "quiet a db live busy s t \<Longrightarrow> quiet a db live busy t u \<Longrightarrow> quiet a db live busy s u"
  by (auto simp: quiet_def ro_stable_def)

lemma stmt_safe_quiet: "quiet a db live busy s s' \<Longrightarrow> stmt_safe a live busy st s \<Longrightarrow> stmt_safe a live busy st s'"
  by (auto simp: quiet_def intro: stmt_safe_mono)

lemma InnerBindArguments_quiet:
  assumes "sqlite_contract a db live busy"
  shows "InnerBindArguments a st args i s = Some (e, s') \<Longrightarrow> quiet a db live busy s s'"
proof (induction args arbitrary: i s)
  case Nil
  then show ?case by simp
next
  case (Cons arg args)
  obtain v where v: "bind_arg arg = Some v"
    using Cons.prems by (cases "bind_arg arg") auto
  obtain rc t where b: "sqlite3_bind a (stmtHandle st) i v s = (rc, t)" by fastforce
  have q: "quiet a db live busy s t"
    using contract_bind [OF assms, of s "stmtHandle st" i v] b by simp
  show ?case
    using Cons.prems Cons.IH [of "i + 1" t] quiet_trans [OF q] q v b by (auto split: if_splits)
qed

lemma BindArguments_quiet:
  "sqlite_contract a db live busy \<Longrightarrow> BindArguments a st args s = Some (e, s') \<Longrightarrow> quiet a db live busy s s'"
  by (auto simp: BindArguments_def Let_def intro: InnerBindArguments_quiet split: if_splits)

lemma Reset_keeps:
  assumes c: "sqlite_contract a db live busy" and st: "stmt_safe a live busy st s"
    and r: "ResetStatementAndClearBindings a st s = (e, s')"
  shows "db s' = db s \<and> stmt_safe a live busy st s'"
proof (cases "stmtHandle st = None")
  case True
  with r st show ?thesis by (simp add: ResetStatementAndClearBindings_def)
next
  case False
  obtain rc t where t: "sqlite3_reset a (stmtHandle st) s = (rc, t)" by fastforce
  have k: "db t = db s" "stmt_safe a live busy st t"
    using contract_reset [OF c, of t "stmtHandle st" s] t stmt_safe_harmless [OF st] stmt_safe_mono [OF st, of t]
    by simp_all
  obtain rc' u where u: "sqlite3_clear_bindings a (stmtHandle st) t = (rc', u)" by fastforce
  then have q: "quiet a db live busy t u" using contract_clear [OF c, of t "stmtHandle st"] by simp
  then have "s' = t \<or> s' = u" using r t u False
    by (auto simp: ResetStatementAndClearBindings_def Let_def split: if_splits)
  with k stmt_safe_quiet [OF q k(2)] q show ?thesis by (auto simp: quiet_def)
qed

lemma Step_keeps:
  assumes c: "sqlite_contract a db live busy" and st: "stmt_safe a live busy st s"
    and r: "Step a st s = (rc, s')" and ro: "readOnly st"
  shows "db s' = db s \<and> stmt_safe a live busy st s'"
proof -
  have s': "s' = snd (sqlite3_step a (stmtHandle st) s)" using r by (simp add: Step_def)
  show ?thesis
    using contract_step [OF c s'] st ro by (auto simp: stmt_safe_def ro_stable_def)
qed

lemma Finalize_keeps:
  assumes c: "sqlite_contract a db live busy" and st: "stmt_safe a live busy st s"
    and r: "Finalize a st s = (e, st', s')"
  shows "db s' = db s \<and> live s - set_option (stmtHandle st) = live s' \<and> busy s' \<subseteq> busy s
    \<and> ro_stable a (live s') s s' \<and> stmtHandle st' = None"
  using r contract_finalize [OF c, of "snd (sqlite3_finalize a (stmtHandle st) s)" "stmtHandle st" s]
    stmt_safe_harmless [OF st]
  by (auto simp: Finalize_def ro_stable_def split: if_splits prod.splits)

lemma Prepare_keeps:
  assumes c: "sqlite_contract a db live busy" and st: "stmt_safe a live busy st s"
    and r: "Prepare a d q st s = (e, st', s')"
  shows "db s' = db s \<and> stmt_safe a live busy st' s'"
proof (cases "st_sql st = q")
  case True
  with r st show ?thesis by (simp add: Prepare_def)
next
  case False
  obtain rc p t where p: "sqlite3_prepare_v2 a d q s = (rc, p, t)" by (metis prod.exhaust)
  note k = contract_prepare [OF c p]
  have safe: "stmt_safe a live busy st t" using k stmt_safe_mono [OF st, of t] by simp
  show ?thesis
  proof (cases "rc = SQLITE_OK")
    case True
    obtain e' st0 u where f: "Finalize a st t = (e', st0, u)" by (metis prod.exhaust)
    note kf = Finalize_keeps [OF c safe f]
    have s': "s' = u" "stmtHandle st' = p" "readOnly st' = (sqlite3_stmt_readonly a p u \<noteq> 0)"
      using r p f False True by (auto simp: Prepare_def)
    have "\<forall>h. p = Some h \<longrightarrow> h \<in> live u \<and> h \<notin> busy u"
      using k kf st by (auto simp: stmt_safe_def)
    with s' kf k show ?thesis by (simp add: stmt_safe_def)
  next
    case rc: False
    show ?thesis
    proof (cases p)
      case None
      with r p False rc k safe show ?thesis by (simp add: Prepare_def)
    next
      case (Some h)
      have s': "s' = snd (sqlite3_finalize a (Some h) t)" "st' = st"
        using r p False rc Some by (simp_all add: Prepare_def)
      have "harmless a busy (Some h) t" using k Some by (simp add: harmless_def)
      moreover have "stmtHandle st \<noteq> Some h" using st k Some by (auto simp: stmt_safe_def)
      ultimately show ?thesis
        using contract_finalize [OF c s'(1)] k safe s'
        by (auto simp: stmt_safe_def ro_stable_def)
    qed
  qed
qed


subsection \<open>Binding\<close>

text \<open>What a well-formed value binds as.\<close>

fun value_binding :: "ValueObject \<Rightarrow> bind_value" where
  "value_binding v =
     (if vtype v = TYPE_NULL then BindNull
      else case val v of
             VLong n \<Rightarrow> BindInt64 n
           | VDouble d \<Rightarrow> BindDouble d
           | VString t \<Rightarrow> BindText t
           | VBool b \<Rightarrow> BindInt64 (if b then 1 else 0)
           | VBlob b \<Rightarrow> BindBlob b)"

lemma bind_arg_wf: "value_wf v \<Longrightarrow> bind_arg v = Some (value_binding v)"
  by (cases "vtype v"; cases "val v")
    (simp_all add: bind_arg_def got_or_def GetLong_def GetDouble_def GetBlob_def GetBool_def GetString_def)

lemma bind_arg_null [simp]: "bind_arg ValueObject_null = Some BindNull"
  by (simp add: bind_arg_def ValueObject_null_def)

definition bind_from :: "'s sqlite3_api \<Rightarrow> ptr \<Rightarrow> nat \<Rightarrow> bind_value list \<Rightarrow> 's \<Rightarrow> 's" where
  "bind_from a p i vs = fold (\<lambda>(i, v) s. snd (sqlite3_bind a p (int i) v s)) (enumerate i vs)"

lemma InnerBindArguments_all:
  assumes "\<forall>i v s. fst (sqlite3_bind a (stmtHandle st) i v s) = SQLITE_OK"
  shows "list_all2 (\<lambda>arg v. bind_arg arg = Some v) args vs \<Longrightarrow>
    InnerBindArguments a st args (int i) s = Some (E_OK, bind_from a (stmtHandle st) i vs s)"
proof (induction args vs arbitrary: i s rule: list_all2_induct)
  case Nil
  then show ?case by (simp add: bind_from_def)
next
  case (Cons arg args v vs)
  obtain t where "sqlite3_bind a (stmtHandle st) (int i) v s = (SQLITE_OK, t)"
    using assms by (metis prod.collapse)
  with Cons.hyps Cons.IH [of "Suc i" t] show ?case
    by (simp add: bind_from_def add.commute)
qed


end
