(* ===== verification/Sqlite_Utils.thy ===== *)
theory Sqlite_Utils
  imports Errno
begin

text \<open>
  Classification of SQL statements by their first three characters: \<open>SqliteUtils\<close> (sqlite_utils.cpp)
  and the older \<open>SqliteDatabaseUtils\<close> (sqlite_database_utils.cpp).
\<close>

datatype stmt_type = STATEMENT_SELECT | STATEMENT_UPDATE | STATEMENT_ATTACH | STATEMENT_DETACH
  | STATEMENT_BEGIN | STATEMENT_COMMIT | STATEMENT_ROLLBACK | STATEMENT_PRAGMA | STATEMENT_DDL
  | STATEMENT_OTHER

definition SQL_TYPE_MAP :: "(string \<times> stmt_type) list" where
  "SQL_TYPE_MAP =
     [(''SEL'', STATEMENT_SELECT), (''INS'', STATEMENT_UPDATE), (''UPD'', STATEMENT_UPDATE),
      (''REP'', STATEMENT_UPDATE), (''DEL'', STATEMENT_UPDATE), (''ATT'', STATEMENT_ATTACH),
      (''DET'', STATEMENT_DETACH), (''COM'', STATEMENT_COMMIT), (''END'', STATEMENT_COMMIT),
      (''ROL'', STATEMENT_ROLLBACK), (''BEG'', STATEMENT_BEGIN), (''PRA'', STATEMENT_PRAGMA),
      (''CRE'', STATEMENT_DDL), (''DRO'', STATEMENT_DDL), (''ALT'', STATEMENT_DDL)]"

definition StrToUpper :: "string \<Rightarrow> string" where
  "StrToUpper s = map toupper s"

definition GetSqlStatementType :: "string \<Rightarrow> stmt_type" where
  "GetSqlStatementType sql =
     (if length sql < 3 then STATEMENT_OTHER
      else case map_of SQL_TYPE_MAP (StrToUpper (substr sql 0 3)) of
             Some t \<Rightarrow> t
           | None \<Rightarrow> STATEMENT_OTHER)"

definition IsSqlReadOnly :: "stmt_type \<Rightarrow> bool" where
  "IsSqlReadOnly t = (if t = STATEMENT_SELECT then True else False)"

definition IsSpecial :: "stmt_type \<Rightarrow> bool" where
  "IsSpecial t =
     (if t = STATEMENT_BEGIN \<or> t = STATEMENT_COMMIT \<or> t = STATEMENT_ROLLBACK then True else False)"

definition ON_CONFLICT_CLAUSE :: "string list" where
  "ON_CONFLICT_CLAUSE = [[], '' OR ROLLBACK'', '' OR ABORT'', '' OR FAIL'', '' OR IGNORE'', '' OR REPLACE'']"

definition GetConflictClause :: "int \<Rightarrow> string result" where
  "GetConflictClause conflictResolution =
     (if conflictResolution < 0 \<or> conflictResolution \<ge> 6 then Inl E_INVALID_CONFLICT_FLAG
      else Inr (ON_CONFLICT_CLAUSE ! nat conflictResolution))"

subsection \<open>Case insensitivity\<close>

lemma toupper_idem [simp]: "toupper (toupper c) = toupper c"
proof (cases "of_char c \<ge> (97::nat) \<and> of_char c \<le> (122::nat)")
  case True
  then have "of_char (toupper c) = of_char c - (32::nat)"
    by (simp add: toupper_def less_imp_diff_less)
  moreover have "of_char c - (32::nat) < 97"
    using True by linarith
  ultimately have "\<not> of_char (toupper c) \<ge> (97::nat)"
    by simp
  then show ?thesis unfolding toupper_def [of "toupper c"] by simp
next
  case False
  then have "toupper c = c" by (simp only: toupper_def if_False)
  then show ?thesis by simp
qed

lemma GetSqlStatementType_upper: "GetSqlStatementType (StrToUpper s) = GetSqlStatementType s"
  by (simp add: GetSqlStatementType_def StrToUpper_def substr_def take_map comp_def)

text \<open>
  The statement type depends on nothing but the first three characters up to case, so
  the transaction statements are recognised however they are written; the flags that route a statement
  are exclusive.
\<close>

theorem statement_type_prefix:
  assumes "StrToUpper (take 3 s) = StrToUpper (take 3 t)" and "3 \<le> length s" and "3 \<le> length t"
  shows "GetSqlStatementType s = GetSqlStatementType t
    \<and> \<not> (IsSqlReadOnly (GetSqlStatementType s) \<and> IsSpecial (GetSqlStatementType s))"
  using assms
  by (simp add: GetSqlStatementType_def substr_def IsSqlReadOnly_def IsSpecial_def)

theorem statement_type_prefix_witness:
  "GetSqlStatementType ''begin exclusive'' = STATEMENT_BEGIN"
proof -
  have "StrToUpper (take 3 ''begin exclusive'') = StrToUpper (take 3 ''BEGIN'')" by code_simp
  from statement_type_prefix [OF this] have "GetSqlStatementType ''begin exclusive'' = GetSqlStatementType ''BEGIN''"
    by simp
  also have "\<dots> = STATEMENT_BEGIN" by code_simp
  finally show ?thesis .
qed

end
