(* ===== verification/Sqlite_Demo.thy ===== *)
theory Sqlite_Demo
  imports Sqlite_Statement Sqlite_Utils
begin

text \<open>
  A small instance of the SQLite interface, on which witnesses evaluate the model: statements are kept
  in a list and their handles are positions in it, the content of the database is the list of the
  write statements that have run, a statement whose text starts with SELECT or PRAGMA is read-only, and
  its parameters are its question marks.  The instance satisfies \<open>sqlite_contract\<close>.
\<close>

record demo =
  stmts :: "string list"
  closed :: "nat list"
  running :: "nat list"
  bound :: "(nat \<times> int \<times> bind_value) list"
  content :: "string list"

definition demo_init :: demo where
  "demo_init = \<lparr>stmts = [], closed = [], running = [], bound = [], content = []\<rparr>"

definition demo_reads :: "string \<Rightarrow> bool" where
  "demo_reads q \<longleftrightarrow> GetSqlStatementType q = STATEMENT_SELECT \<or> GetSqlStatementType q = STATEMENT_PRAGMA"

definition demo_readonly :: "ptr \<Rightarrow> demo \<Rightarrow> int" where
  "demo_readonly p s =
     (case p of None \<Rightarrow> 1
      | Some h \<Rightarrow> if h < length (stmts s) \<and> demo_reads (stmts s ! h) then 1 else 0)"

definition demo_prepare :: "ptr \<Rightarrow> string \<Rightarrow> demo \<Rightarrow> int \<times> ptr \<times> demo" where
  "demo_prepare d q s =
     (let h = length (stmts s) in
      (0, Some h, s\<lparr>stmts := stmts s @ [q], closed := removeAll h (closed s), running := removeAll h (running s)\<rparr>))"

definition demo_step :: "ptr \<Rightarrow> demo \<Rightarrow> int \<times> demo" where
  "demo_step p s =
     (case p of None \<Rightarrow> (21, s)
      | Some h \<Rightarrow>
          if demo_readonly p s \<noteq> 0 then (100, s\<lparr>running := h # running s\<rparr>)
          else if h < length (stmts s) then (101, s\<lparr>content := content s @ [stmts s ! h]\<rparr>)
          else (21, s))"

definition demo_api :: "demo sqlite3_api" where
  "demo_api = \<lparr>
     sqlite3_open_v2 = (\<lambda>path flags s. (0, Some 0, s)),
     sqlite3_close = (\<lambda>p s. (0, s)),
     sqlite3_key = (\<lambda>p k s. (0, s)),
     sqlite3_rekey = (\<lambda>p k s. (0, s)),
     sqlite3_file_control = (\<lambda>p s. (0, s)),
     sqlite3_busy_timeout = (\<lambda>p n s. (0, s)),
     sqlite3_prepare_v2 = demo_prepare,
     sqlite3_finalize = (\<lambda>p s. (0, s\<lparr>closed := (case p of None \<Rightarrow> [] | Some h \<Rightarrow> [h]) @ closed s\<rparr>)),
     sqlite3_reset = (\<lambda>p s. (0, s\<lparr>running := (case p of None \<Rightarrow> running s | Some h \<Rightarrow> removeAll h (running s))\<rparr>)),
     sqlite3_clear_bindings = (\<lambda>p s. (0, s\<lparr>bound := []\<rparr>)),
     sqlite3_bind = (\<lambda>p i v s. (0, s\<lparr>bound := bound s @ (case p of None \<Rightarrow> [] | Some h \<Rightarrow> [(h, i, v)])\<rparr>)),
     sqlite3_step = demo_step,
     sqlite3_stmt_readonly = demo_readonly,
     sqlite3_column_count = (\<lambda>p s. demo_readonly p s),
     sqlite3_bind_parameter_count =
       (\<lambda>p s. case p of None \<Rightarrow> 0
              | Some h \<Rightarrow> if h < length (stmts s) then int (count_list (stmts s ! h) CHR ''?'') else 0),
     sqlite3_column_name = (\<lambda>p i s. Some ''c''),
     sqlite3_column_type = (\<lambda>p i s. 1),
     sqlite3_column_int64 = (\<lambda>p i s. word_of_int (int (length (content s)))),
     sqlite3_column_double = (\<lambda>p i s. 0),
     sqlite3_column_text = (\<lambda>p i s. None),
     sqlite3_column_bytes = (\<lambda>p i s. 0),
     sqlite3_column_blob = (\<lambda>p i s. None),
     sqlite3_changes = (\<lambda>p s. 1),
     sqlite3_last_insert_rowid = (\<lambda>p s. word_of_int (int (length (content s))))\<rparr>"

definition demo_live :: "demo \<Rightarrow> nat set" where
  "demo_live s = {h. h < length (stmts s)} - set (closed s)"

definition demo_busy :: "demo \<Rightarrow> nat set" where
  "demo_busy s = {h. h < length (stmts s)} \<inter> set (running s)"

lemma demo_contract: "sqlite_contract demo_api content demo_live demo_busy"
  unfolding sqlite_contract_def
proof (intro conjI allI)
  fix p i v s
  show "quiet demo_api content demo_live demo_busy s (snd (sqlite3_bind demo_api p i v s))"
    by (auto simp: demo_api_def quiet_def ro_stable_def demo_live_def demo_busy_def demo_readonly_def)
next
  fix p s
  show "quiet demo_api content demo_live demo_busy s (snd (sqlite3_clear_bindings demo_api p s))"
    by (auto simp: demo_api_def quiet_def ro_stable_def demo_live_def demo_busy_def demo_readonly_def)
next
  fix p s
  show "let s' = snd (sqlite3_step demo_api p s) in
        demo_live s' = demo_live s \<and> demo_busy s' \<subseteq> demo_busy s \<union> set_option p \<and> ro_stable demo_api (demo_live s) s s'
        \<and> (p = None \<or> sqlite3_stmt_readonly demo_api p s \<noteq> 0 \<longrightarrow> content s' = content s)"
    by (cases p)
      (auto simp: demo_api_def demo_step_def ro_stable_def demo_live_def demo_busy_def demo_readonly_def Let_def)
next
  fix p s
  show "let s' = snd (sqlite3_reset demo_api p s) in
        demo_live s' = demo_live s \<and> demo_busy s' \<subseteq> demo_busy s \<and> ro_stable demo_api (demo_live s) s s'
        \<and> (harmless demo_api demo_busy p s \<longrightarrow> content s' = content s)"
    by (cases p)
      (auto simp: demo_api_def ro_stable_def demo_live_def demo_busy_def demo_readonly_def Let_def)
next
  fix p s
  show "let s' = snd (sqlite3_finalize demo_api p s) in
        demo_live s' = demo_live s - set_option p \<and> demo_busy s' \<subseteq> demo_busy s
        \<and> ro_stable demo_api (demo_live s - set_option p) s s'
        \<and> (harmless demo_api demo_busy p s \<longrightarrow> content s' = content s)"
    by (cases p)
      (auto simp: demo_api_def ro_stable_def demo_live_def demo_busy_def demo_readonly_def Let_def)
next
  fix d q s
  show "case sqlite3_prepare_v2 demo_api d q s of (rc, p, s') \<Rightarrow>
        content s' = content s \<and> demo_live s' = demo_live s \<union> set_option p \<and> set_option p \<inter> demo_live s = {}
        \<and> demo_busy s' \<subseteq> demo_busy s \<and> set_option p \<inter> demo_busy s' = {} \<and> ro_stable demo_api (demo_live s) s s'"
    by (auto simp: demo_api_def demo_prepare_def ro_stable_def demo_live_def demo_busy_def demo_readonly_def
        Let_def nth_append)
qed


text \<open>An update with four parameters, of which three are given.\<close>

definition demo_stmt :: SqliteStatement where
  "demo_stmt = \<lparr>st_sql = ''UPDATE t SET a=?,b=?,c=? WHERE d=?'', stmtHandle = Some 7, readOnly = False,
     columnCount = 0, numParameters = 4\<rparr>"


end
