(* ===== verification/Sqlite_Connection.thy ===== *)
theory Sqlite_Connection
  imports Sqlite_Demo
begin

text \<open>
  One connection to a database (sqlite_connection.cpp) with its configuration (sqlite_config.cpp) and
  the global constants (sqlite_global_config.cpp).  The environment \<open>'s env\<close> bundles the SQLite
  interface, the file system calls and the conversions of doubles, all parameters.  An operation
  returns its result, the connection and the library state; \<open>None\<close> is the exception a malformed bind
  argument raises.
\<close>

subsection \<open>Environment, configuration, constants\<close>

record 's env =
  api :: "'s sqlite3_api"
  fp :: fp_ops
  os_stat :: "string \<Rightarrow> 's \<Rightarrow> nat option"
  os_chmod :: "string \<Rightarrow> nat \<Rightarrow> 's \<Rightarrow> int \<times> 's"
  os_remove :: "string \<Rightarrow> 's \<Rightarrow> int \<times> 's"
  os_rename :: "string \<Rightarrow> string \<Rightarrow> 's \<Rightarrow> int \<times> 's"

datatype StorageMode = MODE_MEMORY | MODE_DISK

record RdbStoreConfig_view =
  rc_path :: string
  rc_storageMode :: StorageMode
  rc_readOnly :: bool
  rc_encryptKey :: "byte list"
  rc_journalMode :: string
  rc_syncMode :: string
  rc_fileType :: string

record SqliteConfig =
  cfg_path :: string
  cfg_storageMode :: StorageMode
  cfg_readOnly :: bool
  cfg_encryptKey :: "byte list"
  cfg_encrypted :: bool
  cfg_initEncrypted :: bool
  cfg_journalMode :: string
  cfg_fileType :: string
  cfg_syncMode :: string

definition GetReadConnectionCount :: int where "GetReadConnectionCount = 4 - 1"
definition GetMemoryDbPath :: string where "GetMemoryDbPath = '':memory:''"
definition GetPageSize :: int where "GetPageSize = 4096"
definition GetWalSyncMode :: string where "GetWalSyncMode = ''FULL''"
definition GetJournalFileSize :: int where "GetJournalFileSize = 524288"
definition GetWalAutoCheckpoint :: int where "GetWalAutoCheckpoint = 100"
definition GetDefaultJournalMode :: string where "GetDefaultJournalMode = ''WAL''"

definition SqliteConfig_of :: "RdbStoreConfig_view \<Rightarrow> SqliteConfig" where
  "SqliteConfig_of c =
     \<lparr>cfg_path = rc_path c, cfg_storageMode = rc_storageMode c, cfg_readOnly = rc_readOnly c,
      cfg_encryptKey = rc_encryptKey c, cfg_encrypted = (rc_encryptKey c \<noteq> []),
      cfg_initEncrypted = (rc_encryptKey c \<noteq> []),
      cfg_journalMode = (if rc_journalMode c = [] then GetDefaultJournalMode else rc_journalMode c),
      cfg_fileType = rc_fileType c, cfg_syncMode = rc_syncMode c\<rparr>"

definition SetPath :: "string \<Rightarrow> SqliteConfig \<Rightarrow> SqliteConfig" where
  "SetPath newPath c = c\<lparr>cfg_path := newPath\<rparr>"

definition UpdateEncryptKey :: "byte list \<Rightarrow> SqliteConfig \<Rightarrow> SqliteConfig" where
  "UpdateEncryptKey newKey c = c\<lparr>cfg_encryptKey := newKey, cfg_encrypted := (newKey \<noteq> [])\<rparr>"

definition ClearEncryptKey :: "SqliteConfig \<Rightarrow> SqliteConfig" where
  "ClearEncryptKey c = c\<lparr>cfg_encryptKey := []\<rparr>"

subsection \<open>The connection\<close>

record SqliteConnection =
  dbHandle :: ptr
  isWriteConnection :: bool
  isReadOnly :: bool
  statement :: SqliteStatement
  stepStatement :: "SqliteStatement option"
  filePath :: string
  openFlags :: int

definition SqliteConnection_new :: "bool \<Rightarrow> SqliteConnection" where
  "SqliteConnection_new w =
     \<lparr>dbHandle = None, isWriteConnection = w, isReadOnly = False, statement = SqliteStatement_new,
      stepStatement = None, filePath = [], openFlags = 0\<rparr>"

definition IsWriteConnection :: "SqliteConnection \<Rightarrow> bool" where
  "IsWriteConnection c = isWriteConnection c"

definition Conn_Prepare :: "'s env \<Rightarrow> string \<Rightarrow> SqliteConnection \<Rightarrow> 's \<Rightarrow>
    bool result \<times> SqliteConnection \<times> 's" where
  "Conn_Prepare E sql c s =
     (let (errCode, st, s) = Prepare (api E) (dbHandle c) sql (statement c) s;
          c = c\<lparr>statement := st\<rparr>
      in (if errCode \<noteq> E_OK then Inl errCode else Inr (readOnly st), c, s))"

definition PrepareAndBind :: "'s env \<Rightarrow> string \<Rightarrow> ValueObject list \<Rightarrow> SqliteConnection \<Rightarrow> 's \<Rightarrow>
    (rdb_errno \<times> SqliteConnection \<times> 's) option" where
  "PrepareAndBind E sql bindArgs c s =
     (if dbHandle c = None then Some (E_INVALID_STATEMENT, c, s)
      else
        let (errCode, st, s) = Prepare (api E) (dbHandle c) sql (statement c) s;
            c = c\<lparr>statement := st\<rparr>
        in if errCode \<noteq> E_OK then Some (errCode, c, s)
           else if \<not> isWriteConnection c \<and> \<not> readOnly st then Some (E_EXECUTE_WRITE_IN_READ_CONNECTION, c, s)
           else case BindArguments (api E) st bindArgs s of
                  None \<Rightarrow> None
                | Some (errCode, s) \<Rightarrow> Some (errCode, c, s))"

text \<open>The statement is reset on every path after a step; on the error paths the result of that reset is
  dropped.  Where the last reset fails, the error is returned and the value, which the out parameter
  still receives, is not part of the result.\<close>

definition Conn_Reset :: "'s env \<Rightarrow> SqliteConnection \<Rightarrow> 's \<Rightarrow> rdb_errno \<times> 's" where
  "Conn_Reset E c s = ResetStatementAndClearBindings (api E) (statement c) s"

definition finish_with :: "'s env \<Rightarrow> 'a \<Rightarrow> SqliteConnection \<Rightarrow> 's \<Rightarrow>
    ('a result \<times> SqliteConnection \<times> 's) option" where
  "finish_with E v c s =
     (let (errCode, s) = Conn_Reset E c s in Some (if errCode = E_OK then Inr v else Inl errCode, c, s))"

definition fail_with :: "'s env \<Rightarrow> rdb_errno \<Rightarrow> SqliteConnection \<Rightarrow> 's \<Rightarrow>
    ('a result \<times> SqliteConnection \<times> 's) option" where
  "fail_with E e c s = Some (Inl e, c, snd (Conn_Reset E c s))"

definition Conn_ExecuteSql :: "'s env \<Rightarrow> string \<Rightarrow> ValueObject list \<Rightarrow> SqliteConnection \<Rightarrow> 's \<Rightarrow>
    (unit result \<times> SqliteConnection \<times> 's) option" where
  "Conn_ExecuteSql E sql bindArgs c s =
     (case PrepareAndBind E sql bindArgs c s of
        None \<Rightarrow> None
      | Some (errCode, c, s) \<Rightarrow>
          if errCode \<noteq> E_OK then Some (Inl errCode, c, s)
          else
            let (rc, s) = Step (api E) (statement c) s in
            if rc = SQLITE_ROW then fail_with E E_QUERY_IN_EXECUTE c s
            else if rc \<noteq> SQLITE_DONE then fail_with E (ErrNo rc) c s
            else finish_with E () c s)"

definition Conn_ExecuteForChangedRowCount :: "'s env \<Rightarrow> string \<Rightarrow> ValueObject list \<Rightarrow> SqliteConnection \<Rightarrow> 's \<Rightarrow>
    (int result \<times> SqliteConnection \<times> 's) option" where
  "Conn_ExecuteForChangedRowCount E sql bindArgs c s =
     (case PrepareAndBind E sql bindArgs c s of
        None \<Rightarrow> None
      | Some (errCode, c, s) \<Rightarrow>
          if errCode \<noteq> E_OK then Some (Inl errCode, c, s)
          else
            let (rc, s) = Step (api E) (statement c) s in
            if rc = SQLITE_ROW then fail_with E E_QUERY_IN_EXECUTE c s
            else if rc \<noteq> SQLITE_DONE then fail_with E (ErrNo rc) c s
            else finish_with E (sqlite3_changes (api E) (dbHandle c) s) c s)"

definition Conn_ExecuteForLastInsertedRowId :: "'s env \<Rightarrow> string \<Rightarrow> ValueObject list \<Rightarrow> SqliteConnection \<Rightarrow> 's \<Rightarrow>
    (int64 result \<times> SqliteConnection \<times> 's) option" where
  "Conn_ExecuteForLastInsertedRowId E sql bindArgs c s =
     (case PrepareAndBind E sql bindArgs c s of
        None \<Rightarrow> None
      | Some (errCode, c, s) \<Rightarrow>
          if errCode \<noteq> E_OK then Some (Inl errCode, c, s)
          else
            let (rc, s) = Step (api E) (statement c) s in
            if rc = SQLITE_ROW then fail_with E E_QUERY_IN_EXECUTE c s
            else if rc \<noteq> SQLITE_DONE then fail_with E (ErrNo rc) c s
            else finish_with E (if sqlite3_changes (api E) (dbHandle c) s > 0
                                then sqlite3_last_insert_rowid (api E) (dbHandle c) s else - 1) c s)"

definition Conn_ExecuteGetLong :: "'s env \<Rightarrow> string \<Rightarrow> ValueObject list \<Rightarrow> SqliteConnection \<Rightarrow> 's \<Rightarrow>
    (int64 result \<times> SqliteConnection \<times> 's) option" where
  "Conn_ExecuteGetLong E sql bindArgs c s =
     (case PrepareAndBind E sql bindArgs c s of
        None \<Rightarrow> None
      | Some (errCode, c, s) \<Rightarrow>
          if errCode \<noteq> E_OK then Some (Inl errCode, c, s)
          else
            let (rc, s) = Step (api E) (statement c) s in
            if rc \<noteq> SQLITE_ROW then fail_with E E_NO_ROW_IN_QUERY c s
            else case GetColumnLong (api E) (fp E) (statement c) 0 s of
                   Inl e \<Rightarrow> fail_with E e c s
                 | Inr v \<Rightarrow> finish_with E v c s)"

definition Conn_ExecuteGetString :: "'s env \<Rightarrow> string \<Rightarrow> ValueObject list \<Rightarrow> SqliteConnection \<Rightarrow> 's \<Rightarrow>
    (string result \<times> SqliteConnection \<times> 's) option" where
  "Conn_ExecuteGetString E sql bindArgs c s =
     (case PrepareAndBind E sql bindArgs c s of
        None \<Rightarrow> None
      | Some (errCode, c, s) \<Rightarrow>
          if errCode \<noteq> E_OK then Some (Inl errCode, c, s)
          else
            let (rc, s) = Step (api E) (statement c) s in
            if rc \<noteq> SQLITE_ROW then fail_with E E_NO_ROW_IN_QUERY c s
            else case GetColumnString (api E) (fp E) (statement c) 0 s of
                   Inl e \<Rightarrow> fail_with E e c s
                 | Inr v \<Rightarrow> finish_with E v c s)"


fun column_names :: "'s sqlite3_api \<Rightarrow> SqliteStatement \<Rightarrow> int \<Rightarrow> nat \<Rightarrow> 's \<Rightarrow> string list" where
  "column_names a st i 0 s = []"
| "column_names a st i (Suc n) s =
     (case GetColumnName a st i s of Inl _ \<Rightarrow> [] | Inr name \<Rightarrow> name) # column_names a st (i + 1) n s"

text \<open>The result is the read-only flag, the number of parameters and the column names.\<close>

definition Conn_PrepareAndGetInfo :: "'s env \<Rightarrow> string \<Rightarrow> SqliteConnection \<Rightarrow> 's \<Rightarrow>
    (bool \<times> int \<times> string list) result \<times> SqliteConnection \<times> 's" where
  "Conn_PrepareAndGetInfo E sql c s =
     (let (errCode, st, s) = Prepare (api E) (dbHandle c) sql (statement c) s;
          c = c\<lparr>statement := st\<rparr>
      in if errCode \<noteq> E_OK then (Inl errCode, c, s)
         else case GetColumnCount st of
           Inl e \<Rightarrow> (Inl e, c, s)
         | Inr count \<Rightarrow>
             let columnNames = column_names (api E) st 0 (nat count) s in
             (case GetNumParameters st of
                Inl e \<Rightarrow> (Inl e, c, s)
              | Inr params \<Rightarrow> (Inr (readOnly st, params, columnNames), c, s)))"

text \<open>\<open>stepStatement\<close> is shared with the caller, who steps it; the method returns null or that pointer.
  The outer \<open>None\<close> also covers a null \<open>stepStatement\<close>, which the method dereferences unchecked.\<close>

definition Conn_BeginStepQuery :: "'s env \<Rightarrow> string \<Rightarrow> string list \<Rightarrow> SqliteConnection \<Rightarrow> 's \<Rightarrow>
    (unit result \<times> SqliteConnection \<times> 's) option" where
  "Conn_BeginStepQuery E sql selectionArgs c s =
     (case stepStatement c of
        None \<Rightarrow> None
      | Some st \<Rightarrow>
          let (errCode, st, s) = Prepare (api E) (dbHandle c) sql st s;
              c = c\<lparr>stepStatement := Some st\<rparr>
          in if errCode \<noteq> E_OK then Some (Inl errCode, c, s)
             else case BindArguments (api E) st (map ValueObject_string selectionArgs) s of
                    None \<Rightarrow> None
                  | Some (errCode, s) \<Rightarrow> Some (if errCode \<noteq> E_OK then Inl errCode else Inr (), c, s))"

definition Conn_EndStepQuery :: "'s env \<Rightarrow> SqliteConnection \<Rightarrow> 's \<Rightarrow> (rdb_errno \<times> 's) option" where
  "Conn_EndStepQuery E c s =
     (case stepStatement c of
        None \<Rightarrow> None
      | Some st \<Rightarrow> Some (ResetStatementAndClearBindings (api E) st s))"

definition Conn_ChangeEncryptKey :: "'s env \<Rightarrow> byte list \<Rightarrow> SqliteConnection \<Rightarrow> 's \<Rightarrow>
    (rdb_errno \<times> SqliteConnection \<times> 's) option" where
  "Conn_ChangeEncryptKey E newKey c s =
     (let (rc, s) = sqlite3_rekey (api E) (dbHandle c) newKey s in
      if rc \<noteq> SQLITE_OK then Some (ErrNo rc, c, s)
      else
        let (errCode, st, s) = Finalize (api E) (statement c) s;
            c = c\<lparr>statement := st\<rparr>
        in if errCode \<noteq> E_OK then Some (errCode, c, s)
           else case stepStatement c of
             None \<Rightarrow> None
           | Some st \<Rightarrow>
               let (errCode, st, s) = Finalize (api E) st s in
               Some (errCode, c\<lparr>stepStatement := Some st\<rparr>, s))"

subsection \<open>Opening\<close>

definition SetPageSize :: "'s env \<Rightarrow> SqliteConnection \<Rightarrow> 's \<Rightarrow> (rdb_errno \<times> SqliteConnection \<times> 's) option" where
  "SetPageSize E c s =
     (if isReadOnly c then Some (E_OK, c, s)
      else case Conn_ExecuteGetLong E ''PRAGMA page_size'' [] c s of
        None \<Rightarrow> None
      | Some (Inl e, c, s) \<Rightarrow> Some (e, c, s)
      | Some (Inr value, c, s) \<Rightarrow>
          if sint value = GetPageSize then Some (E_OK, c, s)
          else case Conn_ExecuteSql E (''PRAGMA page_size='' @ to_string GetPageSize) [] c s of
            None \<Rightarrow> None
          | Some (Inl e, c, s) \<Rightarrow> Some (e, c, s)
          | Some (Inr _, c, s) \<Rightarrow> Some (E_OK, c, s))"

definition SetEncryptKey :: "'s env \<Rightarrow> byte list \<Rightarrow> SqliteConnection \<Rightarrow> 's \<Rightarrow> rdb_errno \<times> 's" where
  "SetEncryptKey E encryptKey c s =
     (if encryptKey = [] then (E_OK, s)
      else
        let (rc, s) = sqlite3_key (api E) (dbHandle c) encryptKey s in
        (if rc \<noteq> SQLITE_OK then ErrNo rc else E_OK, s))"

definition SetPersistWal :: "'s env \<Rightarrow> SqliteConnection \<Rightarrow> 's \<Rightarrow> rdb_errno \<times> 's" where
  "SetPersistWal E c s =
     (let (rc, s) = sqlite3_file_control (api E) (dbHandle c) s in
      (if rc \<noteq> SQLITE_OK then E_SET_PERSIST_WAL else E_OK, s))"

text \<open>The only method that returns a bare SQLite code; its caller ignores it.\<close>

definition SetBusyTimeout :: "'s env \<Rightarrow> int \<Rightarrow> SqliteConnection \<Rightarrow> 's \<Rightarrow> int \<times> 's" where
  "SetBusyTimeout E timeout c s = sqlite3_busy_timeout (api E) (dbHandle c) timeout s"

text \<open>A file that anyone may execute, or others may access, is limited to reading and writing by its
  owner and group.\<close>

definition LimitPermission :: "'s env \<Rightarrow> string \<Rightarrow> 's \<Rightarrow> 's" where
  "LimitPermission E dbPath s =
     (case os_stat E dbPath s of
        None \<Rightarrow> s
      | Some st_mode \<Rightarrow>
          if and st_mode 79 \<noteq> 0 then snd (os_chmod E dbPath (and st_mode 432) s) else s)"

definition SetWalSyncMode :: "'s env \<Rightarrow> string \<Rightarrow> SqliteConnection \<Rightarrow> 's \<Rightarrow>
    (rdb_errno \<times> SqliteConnection \<times> 's) option" where
  "SetWalSyncMode E syncMode c s =
     (let targetValue = (if length syncMode \<noteq> 0 then syncMode else GetWalSyncMode) in
      case Conn_ExecuteGetString E ''PRAGMA synchronous'' [] c s of
        None \<Rightarrow> None
      | Some (Inl e, c, s) \<Rightarrow> Some (e, c, s)
      | Some (Inr value, c, s) \<Rightarrow>
          if StrToUpper value = targetValue then Some (E_OK, c, s)
          else case Conn_ExecuteSql E (''PRAGMA synchronous='' @ targetValue) [] c s of
            None \<Rightarrow> None
          | Some (Inl e, c, s) \<Rightarrow> Some (e, c, s)
          | Some (Inr _, c, s) \<Rightarrow> Some (E_OK, c, s))"

definition SetJournalMode :: "'s env \<Rightarrow> string \<Rightarrow> string \<Rightarrow> SqliteConnection \<Rightarrow> 's \<Rightarrow>
    (rdb_errno \<times> SqliteConnection \<times> 's) option" where
  "SetJournalMode E journalMode synclMode c s =
     (if isReadOnly c then Some (E_OK, c, s)
      else case Conn_ExecuteGetString E ''PRAGMA journal_mode'' [] c s of
        None \<Rightarrow> None
      | Some (Inl e, c, s) \<Rightarrow> Some (e, c, s)
      | Some (Inr currentMode, c, s) \<Rightarrow>
          case (if StrToUpper currentMode = journalMode then Some (Inr journalMode, c, s)
                else Conn_ExecuteGetString E (''PRAGMA journal_mode='' @ journalMode) [] c s) of
            None \<Rightarrow> None
          | Some (Inl e, c, s) \<Rightarrow> Some (e, c, s)
          | Some (Inr mode, c, s) \<Rightarrow>
              if StrToUpper currentMode \<noteq> journalMode \<and> StrToUpper mode \<noteq> journalMode
              then Some (E_EXECUTE_RESULT_INCORRECT, c, s)
              else if journalMode = ''WAL'' then SetWalSyncMode E synclMode c s
              else Some (E_OK, c, s))"

definition SetJournalSizeLimit :: "'s env \<Rightarrow> SqliteConnection \<Rightarrow> 's \<Rightarrow> (rdb_errno \<times> SqliteConnection \<times> 's) option" where
  "SetJournalSizeLimit E c s =
     (if isReadOnly c then Some (E_OK, c, s)
      else case Conn_ExecuteGetLong E ''PRAGMA journal_size_limit'' [] c s of
        None \<Rightarrow> None
      | Some (Inl e, c, s) \<Rightarrow> Some (e, c, s)
      | Some (Inr currentValue, c, s) \<Rightarrow>
          if sint currentValue = GetJournalFileSize then Some (E_OK, c, s)
          else case Conn_ExecuteGetLong E (''PRAGMA journal_size_limit='' @ to_string GetJournalFileSize) [] c s of
            None \<Rightarrow> None
          | Some (Inl e, c, s) \<Rightarrow> Some (e, c, s)
          | Some (Inr _, c, s) \<Rightarrow> Some (E_OK, c, s))"

definition SetAutoCheckpoint :: "'s env \<Rightarrow> SqliteConnection \<Rightarrow> 's \<Rightarrow> (rdb_errno \<times> SqliteConnection \<times> 's) option" where
  "SetAutoCheckpoint E c s =
     (if isReadOnly c then Some (E_OK, c, s)
      else case Conn_ExecuteGetLong E ''PRAGMA wal_autocheckpoint'' [] c s of
        None \<Rightarrow> None
      | Some (Inl e, c, s) \<Rightarrow> Some (e, c, s)
      | Some (Inr value, c, s) \<Rightarrow>
          if sint value = GetWalAutoCheckpoint then Some (E_OK, c, s)
          else case Conn_ExecuteGetLong E (''PRAGMA wal_autocheckpoint='' @ to_string GetWalAutoCheckpoint) [] c s of
            None \<Rightarrow> None
          | Some (Inl e, c, s) \<Rightarrow> Some (e, c, s)
          | Some (Inr _, c, s) \<Rightarrow> Some (E_OK, c, s))"

text \<open>A step that may fail, then the rest.\<close>

definition and_then :: "(rdb_errno \<times> SqliteConnection \<times> 's) option \<Rightarrow>
    (SqliteConnection \<Rightarrow> 's \<Rightarrow> (rdb_errno \<times> SqliteConnection \<times> 's) option) \<Rightarrow>
    (rdb_errno \<times> SqliteConnection \<times> 's) option" where
  "and_then r k =
     (case r of None \<Rightarrow> None
      | Some (e, c, s) \<Rightarrow> if e \<noteq> E_OK then Some (e, c, s) else k c s)"

definition Config :: "'s env \<Rightarrow> SqliteConfig \<Rightarrow> SqliteConnection \<Rightarrow> 's \<Rightarrow> (rdb_errno \<times> SqliteConnection \<times> 's) option" where
  "Config E config c s =
     (if cfg_storageMode config = MODE_MEMORY then Some (E_OK, c, s)
      else
        and_then (SetPageSize E c s) (\<lambda>c s.
        and_then (let (e, s) = SetEncryptKey E (cfg_encryptKey config) c s in Some (e, c, s)) (\<lambda>c s.
        and_then (SetJournalMode E (cfg_journalMode config) (cfg_syncMode config) c s) (\<lambda>c s.
        and_then (SetJournalSizeLimit E c s) (\<lambda>c s.
        SetAutoCheckpoint E c s)))))"

definition db_path_of :: "SqliteConfig \<Rightarrow> string result" where
  "db_path_of config =
     (if cfg_storageMode config = MODE_MEMORY then Inr GetMemoryDbPath
      else if cfg_path config = [] then Inl E_EMPTY_FILE_NAME
      else if hd (cfg_path config) \<noteq> CHR ''/'' then Inl E_RELATIVE_PATH
      else Inr (cfg_path config))"

text \<open>\<open>SQLITE_OPEN_READONLY\<close> is 1, \<open>SQLITE_OPEN_READWRITE | SQLITE_OPEN_CREATE\<close> is 6.\<close>

definition Conn_InnerOpen :: "'s env \<Rightarrow> SqliteConfig \<Rightarrow> SqliteConnection \<Rightarrow> 's \<Rightarrow>
    (rdb_errno \<times> SqliteConnection \<times> 's) option" where
  "Conn_InnerOpen E config c s =
     (case db_path_of config of
        Inl e \<Rightarrow> Some (e, c, s)
      | Inr dbPath \<Rightarrow>
          let c = c\<lparr>stepStatement := Some SqliteStatement_new,
                    isReadOnly := (\<not> isWriteConnection c \<or> cfg_readOnly config)\<rparr>;
              openFileFlags = (if cfg_readOnly config then 1 else 6);
              (rc, handle, s) = sqlite3_open_v2 (api E) dbPath openFileFlags s;
              c = c\<lparr>dbHandle := handle\<rparr>
          in if rc \<noteq> SQLITE_OK then Some (ErrNo rc, c, s)
             else
               let (_, s) = SetPersistWal E c s;
                   (_, s) = SetBusyTimeout E 2000 c s;
                   s = LimitPermission E dbPath s
               in and_then (Config E config c s) (\<lambda>c s.
                    Some (E_OK, c\<lparr>filePath := dbPath, openFlags := openFileFlags\<rparr>, s)))"

text \<open>The destructor.\<close>

definition Conn_delete :: "'s env \<Rightarrow> SqliteConnection \<Rightarrow> 's \<Rightarrow> 's" where
  "Conn_delete E c s =
     (if dbHandle c = None then s
      else
        let (_, _, s) = Finalize (api E) (statement c) s;
            s = (case stepStatement c of None \<Rightarrow> s | Some st \<Rightarrow> snd (snd (Finalize (api E) st s)))
        in snd (sqlite3_close (api E) (dbHandle c) s))"

definition Conn_Open :: "'s env \<Rightarrow> SqliteConfig \<Rightarrow> bool \<Rightarrow> 's \<Rightarrow> (SqliteConnection result \<times> 's) option" where
  "Conn_Open E config w s =
     (case Conn_InnerOpen E config (SqliteConnection_new w) s of
        None \<Rightarrow> None
      | Some (errCode, c, s) \<Rightarrow>
          if errCode \<noteq> E_OK then Some (Inl errCode, Conn_delete E c s) else Some (Inr c, s))"


subsection \<open>Executing on a connection\<close>

text \<open>The calls that run one statement to its end.\<close>

datatype exec_call =
    xExecuteSql string "ValueObject list"
  | xChangedRowCount string "ValueObject list"
  | xLastInsertedRowId string "ValueObject list"
  | xGetLong string "ValueObject list"
  | xGetString string "ValueObject list"

definition drop_result :: "('a result \<times> SqliteConnection \<times> 's) option \<Rightarrow> (rdb_errno \<times> SqliteConnection \<times> 's) option" where
  "drop_result r = map_option (\<lambda>(v, c, s). (case v of Inl e \<Rightarrow> e | Inr _ \<Rightarrow> E_OK, c, s)) r"

fun exec_call_on :: "'s env \<Rightarrow> exec_call \<Rightarrow> SqliteConnection \<Rightarrow> 's \<Rightarrow> (rdb_errno \<times> SqliteConnection \<times> 's) option" where
  "exec_call_on E (xExecuteSql sql args) c s = drop_result (Conn_ExecuteSql E sql args c s)"
| "exec_call_on E (xChangedRowCount sql args) c s = drop_result (Conn_ExecuteForChangedRowCount E sql args c s)"
| "exec_call_on E (xLastInsertedRowId sql args) c s = drop_result (Conn_ExecuteForLastInsertedRowId E sql args c s)"
| "exec_call_on E (xGetLong sql args) c s = drop_result (Conn_ExecuteGetLong E sql args c s)"
| "exec_call_on E (xGetString sql args) c s = drop_result (Conn_ExecuteGetString E sql args c s)"

fun exec_calls :: "'s env \<Rightarrow> exec_call list \<Rightarrow> SqliteConnection \<Rightarrow> 's \<Rightarrow> (SqliteConnection \<times> 's) option" where
  "exec_calls E [] c s = Some (c, s)"
| "exec_calls E (x # xs) c s =
     (case exec_call_on E x c s of None \<Rightarrow> None | Some (e, c, s) \<Rightarrow> exec_calls E xs c s)"

text \<open>What the calls keep: nothing but the statement and the library state changes.\<close>

lemma PrepareAndBind_keeps:
  assumes c: "sqlite_contract (api E) db live busy" and st: "stmt_safe (api E) live busy (statement c) s"
    and r: "PrepareAndBind E sql args c s = Some (e, c', s')"
  shows "db s' = db s \<and> stmt_safe (api E) live busy (statement c') s'
    \<and> isWriteConnection c' = isWriteConnection c
    \<and> (e = E_OK \<longrightarrow> isWriteConnection c' \<or> readOnly (statement c'))"
proof (cases "dbHandle c = None")
  case True
  with r st show ?thesis by (auto simp: PrepareAndBind_def)
next
  case False
  obtain e1 st1 s1 where p: "Prepare (api E) (dbHandle c) sql (statement c) s = (e1, st1, s1)"
    by (metis prod.exhaust)
  note k = Prepare_keeps [OF c st p]
  have "BindArguments (api E) st1 args s1 = Some (e, s') \<Longrightarrow>
      db s' = db s \<and> stmt_safe (api E) live busy st1 s'"
    using BindArguments_quiet [OF c, of st1 args s1 e s'] k stmt_safe_quiet [of "api E" db live busy s1 s' st1]
    by (auto simp: quiet_def)
  with r p k False show ?thesis
    by (auto simp: PrepareAndBind_def Let_def split: if_splits option.splits)
qed

lemma Conn_Reset_keeps:
  assumes "sqlite_contract (api E) db live busy" and "stmt_safe (api E) live busy (statement c) s"
  shows "db (snd (Conn_Reset E c s)) = db s \<and> stmt_safe (api E) live busy (statement c) (snd (Conn_Reset E c s))"
  using Reset_keeps [OF assms] by (cases "Conn_Reset E c s") (simp add: Conn_Reset_def)

lemma finish_keeps:
  assumes "sqlite_contract (api E) db live busy" and "stmt_safe (api E) live busy (statement c) s"
  shows "finish_with E v c s = Some (r, c', s') \<Longrightarrow> db s' = db s \<and> c' = c \<and> stmt_safe (api E) live busy (statement c) s'"
    and "fail_with E e c s = Some (r, c', s') \<Longrightarrow> db s' = db s \<and> c' = c \<and> stmt_safe (api E) live busy (statement c) s'"
  using Conn_Reset_keeps [OF assms] by (auto simp: finish_with_def fail_with_def split: prod.splits)

text \<open>All five calls prepare and bind, step once, and finish or fail.\<close>

definition step_and_end :: "'s env \<Rightarrow> string \<Rightarrow> ValueObject list \<Rightarrow>
    (int \<Rightarrow> SqliteConnection \<Rightarrow> 's \<Rightarrow> rdb_errno + 'a) \<Rightarrow> SqliteConnection \<Rightarrow> 's \<Rightarrow>
    ('a result \<times> SqliteConnection \<times> 's) option" where
  "step_and_end E sql args judge c s =
     (case PrepareAndBind E sql args c s of
        None \<Rightarrow> None
      | Some (e, c, s) \<Rightarrow>
          if e \<noteq> E_OK then Some (Inl e, c, s)
          else
            let (rc, s) = Step (api E) (statement c) s in
            case judge rc c s of Inl e \<Rightarrow> fail_with E e c s | Inr v \<Rightarrow> finish_with E v c s)"

lemma step_and_end_keeps:
  assumes c: "sqlite_contract (api E) db live busy" and st: "stmt_safe (api E) live busy (statement c) s"
    and w: "\<not> isWriteConnection c" and r: "step_and_end E sql args judge c s = Some (v, c', s')"
  shows "db s' = db s \<and> stmt_safe (api E) live busy (statement c') s' \<and> \<not> isWriteConnection c'"
proof -
  obtain e1 c1 s1 where p: "PrepareAndBind E sql args c s = Some (e1, c1, s1)"
    using r by (auto simp: step_and_end_def split: option.splits)
  note k = PrepareAndBind_keeps [OF c st p]
  obtain rc s2 where t: "Step (api E) (statement c1) s1 = (rc, s2)" by fastforce
  show ?thesis
  proof (cases "e1 = E_OK")
    case True
    with w k have ro: "readOnly (statement c1)" and w1: "\<not> isWriteConnection c1" by auto
    have k2: "db s2 = db s1" "stmt_safe (api E) live busy (statement c1) s2"
      using Step_keeps [OF c _ t ro] k by blast+
    show ?thesis
      using r p t True k2(1) k w1
      by (auto simp: step_and_end_def split: sum.splits dest!: finish_keeps [OF c k2(2)])
  next
    case False
    with r p k w show ?thesis by (auto simp: step_and_end_def)
  qed
qed

lemma exec_as_step_and_end:
  "Conn_ExecuteSql E sql args c s = step_and_end E sql args
     (\<lambda>rc c s. if rc = SQLITE_ROW then Inl E_QUERY_IN_EXECUTE else if rc \<noteq> SQLITE_DONE then Inl (ErrNo rc) else Inr ()) c s"
  "Conn_ExecuteForChangedRowCount E sql args c s = step_and_end E sql args
     (\<lambda>rc c s. if rc = SQLITE_ROW then Inl E_QUERY_IN_EXECUTE else if rc \<noteq> SQLITE_DONE then Inl (ErrNo rc)
               else Inr (sqlite3_changes (api E) (dbHandle c) s)) c s"
  "Conn_ExecuteForLastInsertedRowId E sql args c s = step_and_end E sql args
     (\<lambda>rc c s. if rc = SQLITE_ROW then Inl E_QUERY_IN_EXECUTE else if rc \<noteq> SQLITE_DONE then Inl (ErrNo rc)
               else Inr (if sqlite3_changes (api E) (dbHandle c) s > 0
                         then sqlite3_last_insert_rowid (api E) (dbHandle c) s else - 1)) c s"
  "Conn_ExecuteGetLong E sql args c s = step_and_end E sql args
     (\<lambda>rc c s. if rc \<noteq> SQLITE_ROW then Inl E_NO_ROW_IN_QUERY else GetColumnLong (api E) (fp E) (statement c) 0 s) c s"
  "Conn_ExecuteGetString E sql args c s = step_and_end E sql args
     (\<lambda>rc c s. if rc \<noteq> SQLITE_ROW then Inl E_NO_ROW_IN_QUERY else GetColumnString (api E) (fp E) (statement c) 0 s) c s"
  by (auto simp: step_and_end_def Conn_ExecuteSql_def Conn_ExecuteForChangedRowCount_def
      Conn_ExecuteForLastInsertedRowId_def Conn_ExecuteGetLong_def Conn_ExecuteGetString_def Let_def
      split: option.splits prod.splits sum.splits)

lemma drop_result_Some:
  "drop_result r = Some (e, c, s) \<Longrightarrow> \<exists>v. r = Some (v, c, s)"
  by (auto simp: drop_result_def)

lemma exec_call_keeps:
  assumes "sqlite_contract (api E) db live busy" and "stmt_safe (api E) live busy (statement c) s"
    and "\<not> isWriteConnection c" and "exec_call_on E x c s = Some (e, c', s')"
  shows "db s' = db s \<and> stmt_safe (api E) live busy (statement c') s' \<and> \<not> isWriteConnection c'"
  using assms(4)
  by (cases x) (auto simp: exec_as_step_and_end dest!: drop_result_Some step_and_end_keeps [OF assms(1-3)])

lemma exec_calls_keep:
  assumes "sqlite_contract (api E) db live busy"
  shows "stmt_safe (api E) live busy (statement c) s \<Longrightarrow> \<not> isWriteConnection c \<Longrightarrow>
    exec_calls E xs c s = Some (c', s') \<Longrightarrow> db s' = db s"
proof (induction xs arbitrary: c s)
  case Nil
  then show ?case by simp
next
  case (Cons x xs)
  obtain e c1 s1 where x: "exec_call_on E x c s = Some (e, c1, s1)"
    using Cons.prems(3) by (auto split: option.splits)
  with Cons.IH [of c1 s1] Cons.prems exec_call_keeps [OF assms Cons.prems(1,2) x] show ?case by simp
qed


lemma InnerBindArguments_total:
  "\<forall>v \<in> set args. value_wf v \<Longrightarrow> InnerBindArguments a st args i s \<noteq> None"
proof (induction args arbitrary: i s)
  case Nil
  then show ?case by simp
next
  case (Cons v args)
  then have v: "bind_arg v = Some (value_binding v)" by (intro bind_arg_wf) simp
  obtain rc t where "sqlite3_bind a (stmtHandle st) i (value_binding v) s = (rc, t)" by fastforce
  with Cons v show ?case by (simp del: value_binding.simps)
qed

lemma BindArguments_total:
  "\<forall>v \<in> set args. value_wf v \<Longrightarrow> BindArguments a st args s \<noteq> None"
proof -
  assume "\<forall>v \<in> set args. value_wf v"
  then have "\<forall>v \<in> set (args @ replicate (nat (numParameters st - int (length args))) ValueObject_null). value_wf v"
    by (auto simp: ValueObject_null_def)
  from InnerBindArguments_total [OF this, of a st 1 s] show ?thesis
    by (simp add: BindArguments_def Let_def del: not_None_eq)
qed

lemma PrepareAndBind_total:
  "\<forall>v \<in> set args. value_wf v \<Longrightarrow> PrepareAndBind E sql args c s \<noteq> None"
  by (auto simp: PrepareAndBind_def Let_def BindArguments_total split: prod.splits option.splits simp del: value_wf.simps not_None_eq)

lemma step_and_end_total:
  "\<forall>v \<in> set args. value_wf v \<Longrightarrow> step_and_end E sql args judge c s \<noteq> None"
  using PrepareAndBind_total [of args E sql c s]
  by (auto simp: step_and_end_def finish_with_def fail_with_def Let_def split: prod.splits sum.splits)

fun exec_args :: "exec_call \<Rightarrow> ValueObject list" where
  "exec_args (xExecuteSql sql args) = args"
| "exec_args (xChangedRowCount sql args) = args"
| "exec_args (xLastInsertedRowId sql args) = args"
| "exec_args (xGetLong sql args) = args"
| "exec_args (xGetString sql args) = args"

lemma exec_call_total:
  "\<forall>v \<in> set (exec_args x). value_wf v \<Longrightarrow> exec_call_on E x c s \<noteq> None"
  by (cases x) (simp_all add: exec_as_step_and_end drop_result_def step_and_end_total)

lemma exec_calls_total:
  "\<forall>x \<in> set xs. \<forall>v \<in> set (exec_args x). value_wf v \<Longrightarrow> \<exists>r. exec_calls E xs c s = Some r"
proof (induction xs arbitrary: c s)
  case Nil
  then show ?case by simp
next
  case (Cons x xs)
  then have "exec_call_on E x c s \<noteq> None" by (intro exec_call_total) simp
  with Cons show ?case by auto
qed

text \<open>No operation changes what a connection was opened for.\<close>

lemma PrepareAndBind_kind:
  "PrepareAndBind E sql args c s = Some (e, c', s') \<Longrightarrow> isWriteConnection c' = isWriteConnection c"
  by (auto simp: PrepareAndBind_def Let_def split: if_splits prod.splits option.splits)

lemma step_and_end_kind:
  "step_and_end E sql args judge c s = Some (v, c', s') \<Longrightarrow> isWriteConnection c' = isWriteConnection c"
  by (auto simp: step_and_end_def finish_with_def fail_with_def split: option.splits prod.splits sum.splits if_splits
      dest!: PrepareAndBind_kind)

lemmas exec_kind = step_and_end_kind [of _ _ "[]"]

lemma SetPageSize_kind: "SetPageSize E c s = Some (e, c', s') \<Longrightarrow> isWriteConnection c' = isWriteConnection c"
  and SetWalSyncMode_kind: "SetWalSyncMode E m c s = Some (e, c', s') \<Longrightarrow> isWriteConnection c' = isWriteConnection c"
  and SetJournalSizeLimit_kind: "SetJournalSizeLimit E c s = Some (e, c', s') \<Longrightarrow> isWriteConnection c' = isWriteConnection c"
  and SetAutoCheckpoint_kind: "SetAutoCheckpoint E c s = Some (e, c', s') \<Longrightarrow> isWriteConnection c' = isWriteConnection c"
  by (auto simp: SetPageSize_def SetWalSyncMode_def SetJournalSizeLimit_def SetAutoCheckpoint_def exec_as_step_and_end Let_def
      split: option.splits prod.splits sum.splits if_splits dest!: exec_kind)

lemma SetJournalMode_kind:
  "SetJournalMode E j m c s = Some (e, c', s') \<Longrightarrow> isWriteConnection c' = isWriteConnection c"
  by (auto simp: SetJournalMode_def exec_as_step_and_end
      split: option.splits prod.splits sum.splits if_splits dest!: exec_kind SetWalSyncMode_kind)

lemma Config_kind: "Config E config c s = Some (e, c', s') \<Longrightarrow> isWriteConnection c' = isWriteConnection c"
  by (auto simp: Config_def and_then_def
      split: option.splits prod.splits if_splits
      dest!: SetPageSize_kind SetJournalMode_kind SetJournalSizeLimit_kind SetAutoCheckpoint_kind)

lemma Conn_InnerOpen_kind:
  "Conn_InnerOpen E config c s = Some (e, c', s') \<Longrightarrow> isWriteConnection c' = isWriteConnection c"
  by (auto simp: Conn_InnerOpen_def and_then_def Let_def
      split: option.splits prod.splits sum.splits if_splits dest!: Config_kind)

lemma Conn_Open_kind: "Conn_Open E config w s = Some (Inr c, s') \<Longrightarrow> isWriteConnection c = w"
  by (auto simp: Conn_Open_def SqliteConnection_new_def split: option.splits prod.splits if_splits dest!: Conn_InnerOpen_kind)

lemma Conn_Open_error: "Conn_Open E config w s = Some (Inl e, s') \<Longrightarrow> e \<noteq> E_OK"
  by (auto simp: Conn_Open_def split: option.splits prod.splits if_splits)

lemma Config_read:
  "isReadOnly c \<Longrightarrow> Config E config c s = Some (e, c', s') \<Longrightarrow> c' = c"
  by (auto simp: Config_def SetPageSize_def SetJournalMode_def SetJournalSizeLimit_def SetAutoCheckpoint_def
      and_then_def split: if_splits prod.splits)

lemma Conn_InnerOpen_read:
  assumes "Conn_InnerOpen E config (SqliteConnection_new False) s = Some (E_OK, c, s0)"
  shows "statement c = SqliteStatement_new \<and> \<not> isWriteConnection c"
proof -
  obtain path where path: "db_path_of config = Inr path"
    using assms by (cases "db_path_of config") (auto simp: Conn_InnerOpen_def db_path_of_def split: if_splits)
  obtain rc h t where o: "sqlite3_open_v2 (api E) path (if cfg_readOnly config then 1 else 6) s = (rc, h, t)"
    by (metis prod.exhaust)
  let ?c = "(SqliteConnection_new False)\<lparr>stepStatement := Some SqliteStatement_new, isReadOnly := True, dbHandle := h\<rparr>"
  have rc: "rc = SQLITE_OK"
    using assms path o by (auto simp: Conn_InnerOpen_def SqliteConnection_new_def ErrNo_def Let_def split: if_splits)
  obtain u where "and_then (Config E config ?c u) (\<lambda>c s. Some (E_OK, c\<lparr>filePath := path,
      openFlags := (if cfg_readOnly config then 1 else 6)\<rparr>, s)) = Some (E_OK, c, s0)"
    using assms path o rc by (auto simp: Conn_InnerOpen_def SqliteConnection_new_def Let_def split: prod.splits)
  then obtain c1 s1 where c1: "Config E config ?c u = Some (E_OK, c1, s1)" and
    c: "c = c1\<lparr>filePath := path, openFlags := (if cfg_readOnly config then 1 else 6)\<rparr>"
    by (auto simp: and_then_def split: option.splits if_splits)
  have "c1 = ?c" by (rule Config_read [OF _ c1]) simp
  with c show ?thesis by (simp add: SqliteConnection_new_def)
qed

lemma Conn_Open_read:
  "Conn_Open E config False s = Some (Inr c, s0) \<Longrightarrow> statement c = SqliteStatement_new \<and> \<not> isWriteConnection c"
  by (auto simp: Conn_Open_def split: option.splits prod.splits if_splits dest: Conn_InnerOpen_read)


definition demo_env :: "demo env" where
  "demo_env = \<lparr>api = demo_api,
     fp = \<lparr>fp_of_int64 = (\<lambda>_. 0), fp_to_int64 = (\<lambda>_. 0), fp_strtod = (\<lambda>_. 0), fp_print15 = (\<lambda>_. ''0''), fp_zero = 0\<rparr>,
     os_stat = (\<lambda>_ _. Some 511), os_chmod = (\<lambda>_ _ s. (0, s)), os_remove = (\<lambda>_ s. (0, s)), os_rename = (\<lambda>_ _ s. (0, s))\<rparr>"

definition demo_config :: SqliteConfig where
  "demo_config = SqliteConfig_of \<lparr>rc_path = ''/data/test.db'', rc_storageMode = MODE_DISK, rc_readOnly = False,
     rc_encryptKey = [], rc_journalMode = [], rc_syncMode = [], rc_fileType = []\<rparr>"

lemmas demo_eval = demo_env_def demo_api_def demo_init_def demo_prepare_def demo_step_def demo_readonly_def demo_reads_def

definition demo_reader :: SqliteConnection where
  "demo_reader = \<lparr>dbHandle = Some 0, isWriteConnection = False, isReadOnly = True, statement = SqliteStatement_new,
     stepStatement = Some SqliteStatement_new, filePath = ''/data/test.db'', openFlags = 6\<rparr>"

lemma demo_reader_opened: "Conn_Open demo_env demo_config False demo_init = Some (Inr demo_reader, demo_init)"
  by (simp add: Conn_Open_def Conn_InnerOpen_def db_path_of_def Config_def SetPageSize_def SetEncryptKey_def
      SetJournalMode_def SetJournalSizeLimit_def SetAutoCheckpoint_def and_then_def SetPersistWal_def SetBusyTimeout_def
      LimitPermission_def SqliteConnection_new_def demo_config_def SqliteConfig_of_def demo_reader_def demo_eval)


end
