(* ===== verification/Connection_Pool.thy ===== *)
theory Connection_Pool
  imports Sqlite_Connection
begin

text \<open>
  The pool of connections (sqlite_connection_pool.cpp) and the transaction records it keeps
  (base_transaction.cpp).  Connections are objects on a heap, named by their addresses, so that the
  model can tell a live connection from a deleted one.  A method that waits on a condition variable
  is \<open>Blocks\<close> when its condition does not hold; \<open>Crash\<close> is an access to a deleted or missing object
  or an uncaught exception.
\<close>

datatype 'a run = Ret 'a | Blocks | Crash

fun run_bind :: "'a run \<Rightarrow> ('a \<Rightarrow> 'b run) \<Rightarrow> 'b run" where
  "run_bind (Ret v) k = k v"
| "run_bind Blocks k = Blocks"
| "run_bind Crash k = Crash"

fun of_option :: "'a option \<Rightarrow> 'a run" where
  "of_option None = Crash"
| "of_option (Some v) = Ret v"

lemma run_bind_Ret [simp]: "run_bind m k = Ret v \<longleftrightarrow> (\<exists>x. m = Ret x \<and> k x = Ret v)"
  by (cases m) auto

lemma run_bind_Crash [simp]: "run_bind m k = Crash \<longleftrightarrow> m = Crash \<or> (\<exists>x. m = Ret x \<and> k x = Crash)"
  by (cases m) auto

lemma of_option_Crash [simp]: "of_option r = Crash \<longleftrightarrow> r = None"
  by (cases r) auto

lemma of_option_Ret [simp]: "of_option r = Ret v \<longleftrightarrow> r = Some v"
  by (cases r) auto

subsection \<open>BaseTransaction\<close>

datatype TransType = ROLLBACK_SELF | ROLLBACK_PARENT

record BaseTransaction =
  allBeforeSuccessful :: bool
  markedSuccessful :: bool
  childFailure :: bool
  ttype :: TransType
  tid :: int

definition BaseTransaction_new :: "int \<Rightarrow> BaseTransaction" where
  "BaseTransaction_new i =
     \<lparr>allBeforeSuccessful = True, markedSuccessful = False, childFailure = False, ttype = ROLLBACK_SELF, tid = i\<rparr>"

definition getTransactionStr :: "BaseTransaction \<Rightarrow> string" where
  "getTransactionStr t =
     (if tid t = 0 then ''BEGIN EXCLUSIVE'' else ''SAVEPOINT'' @ '' '' @ ''TRANS_STR'' @ to_string (tid t)) @ '';''"

definition getCommitStr :: "BaseTransaction \<Rightarrow> string" where
  "getCommitStr t = (if tid t = 0 then ''COMMIT'' else []) @ '';''"

definition getRollbackStr :: "BaseTransaction \<Rightarrow> string" where
  "getRollbackStr t =
     (if tid t = 0 then ''ROLLBACK'' else ''ROLLBACK TO'' @ '' '' @ ''TRANS_STR'' @ to_string (tid t)) @ '';''"

subsection \<open>The pool\<close>

text \<open>The last element of \<open>readConnections\<close> is the back of the vector; the first of \<open>transactionStack\<close>
  is the top of the stack.\<close>

record 's pool =
  lib :: 's
  heap :: "nat \<Rightarrow> SqliteConnection option"
  next_ptr :: nat
  config :: SqliteConfig
  writeConnection :: ptr
  writeConnectionUsed :: bool
  readConnections :: "nat list"
  readConnectionCount :: int
  idleReadConnectionCount :: int
  transactionStack :: "BaseTransaction list"

definition open_connection :: "'s env \<Rightarrow> bool \<Rightarrow> 's pool \<Rightarrow> (nat result \<times> 's pool) run" where
  "open_connection E w P =
     run_bind (of_option (Conn_Open E (config P) w (lib P))) (\<lambda>(r, s).
       Ret (case r of
              Inl e \<Rightarrow> (Inl e, P\<lparr>lib := s\<rparr>)
            | Inr c \<Rightarrow> (Inr (next_ptr P), P\<lparr>lib := s, heap := (heap P)(next_ptr P := Some c), next_ptr := next_ptr P + 1\<rparr>)))"

definition delete_connection :: "'s env \<Rightarrow> nat \<Rightarrow> 's pool \<Rightarrow> 's pool run" where
  "delete_connection E p P =
     (case heap P p of
        None \<Rightarrow> Crash
      | Some c \<Rightarrow> Ret (P\<lparr>lib := Conn_delete E c (lib P), heap := (heap P)(p := None)\<rparr>))"

fun delete_all :: "'s env \<Rightarrow> nat list \<Rightarrow> 's pool \<Rightarrow> 's pool run" where
  "delete_all E [] P = Ret P"
| "delete_all E (p # ps) P = run_bind (delete_connection E p P) (delete_all E ps)"

definition SqliteConnectionPool_new :: "SqliteConfig \<Rightarrow> 's \<Rightarrow> 's pool" where
  "SqliteConnectionPool_new c s =
     \<lparr>lib = s, heap = (\<lambda>_. None), next_ptr = 0, config = c, writeConnection = None, writeConnectionUsed = True,
      readConnections = [], readConnectionCount = 0, idleReadConnectionCount = 0, transactionStack = []\<rparr>"

definition InitReadConnectionCount :: "'s pool \<Rightarrow> 's pool" where
  "InitReadConnectionCount P =
     P\<lparr>readConnectionCount :=
        (if cfg_storageMode (config P) = MODE_MEMORY then 0
         else if cfg_journalMode (config P) = ''WAL'' then GetReadConnectionCount
         else 0)\<rparr>"

definition CloseAllConnections :: "'s env \<Rightarrow> 's pool \<Rightarrow> 's pool run" where
  "CloseAllConnections E P =
     run_bind (case writeConnection P of None \<Rightarrow> Ret P | Some w \<Rightarrow> delete_connection E w P) (\<lambda>P.
     run_bind (delete_all E (readConnections P) (P\<lparr>writeConnection := None, writeConnectionUsed := True\<rparr>)) (\<lambda>P.
     Ret (P\<lparr>readConnections := [], idleReadConnectionCount := 0\<rparr>)))"

text \<open>The loop that opens the read connections; on a failure everything is closed and the key cleared.
  The two callers do that in opposite orders, which does not matter.\<close>

fun open_reads :: "'s env \<Rightarrow> nat \<Rightarrow> 's pool \<Rightarrow> (rdb_errno \<times> 's pool) run" where
  "open_reads E 0 P = Ret (E_OK, P)"
| "open_reads E (Suc n) P =
     run_bind (open_connection E False P) (\<lambda>(r, P).
       case r of
         Inl e \<Rightarrow> run_bind (CloseAllConnections E P) (\<lambda>P. Ret (e, P\<lparr>config := ClearEncryptKey (config P)\<rparr>))
       | Inr p \<Rightarrow> open_reads E n (P\<lparr>readConnections := readConnections P @ [p]\<rparr>))"

definition Init :: "'s env \<Rightarrow> 's pool \<Rightarrow> (rdb_errno \<times> 's pool) run" where
  "Init E P =
     run_bind (open_connection E True P) (\<lambda>(r, P).
       case r of
         Inl e \<Rightarrow> Ret (e, P\<lparr>writeConnection := None\<rparr>)
       | Inr w \<Rightarrow>
           let P = InitReadConnectionCount (P\<lparr>writeConnection := Some w\<rparr>) in
           run_bind (open_reads E (nat (readConnectionCount P)) P) (\<lambda>(e, P).
             if e \<noteq> E_OK then Ret (e, P)
             else Ret (E_OK, P\<lparr>writeConnectionUsed := False, idleReadConnectionCount := readConnectionCount P\<rparr>)))"

definition Pool_Create :: "'s env \<Rightarrow> SqliteConfig \<Rightarrow> 's \<Rightarrow> (rdb_errno \<times> 's pool) run" where
  "Pool_Create E c s =
     run_bind (Init E (SqliteConnectionPool_new c s)) (\<lambda>(e, P).
       if e \<noteq> E_OK then
         run_bind (CloseAllConnections E (P\<lparr>config := ClearEncryptKey (config P)\<rparr>)) (\<lambda>P. Ret (e, P))
       else Ret (E_OK, P))"

subsection \<open>Acquiring and releasing\<close>

definition AcquireWriteConnection :: "'s pool \<Rightarrow> (ptr \<times> 's pool) run" where
  "AcquireWriteConnection P =
     (if writeConnectionUsed P then Blocks else Ret (writeConnection P, P\<lparr>writeConnectionUsed := True\<rparr>))"

definition ReleaseWriteConnection :: "'s pool \<Rightarrow> 's pool" where
  "ReleaseWriteConnection P = P\<lparr>writeConnectionUsed := False\<rparr>"

definition AcquireReadConnection :: "'s pool \<Rightarrow> (ptr \<times> 's pool) run" where
  "AcquireReadConnection P =
     (if \<not> idleReadConnectionCount P > 0 then Blocks
      else if readConnections P = [] then Crash
      else Ret (Some (last (readConnections P)),
                P\<lparr>readConnections := butlast (readConnections P), idleReadConnectionCount := idleReadConnectionCount P - 1\<rparr>))"

definition ReleaseReadConnection :: "nat \<Rightarrow> 's pool \<Rightarrow> 's pool" where
  "ReleaseReadConnection p P =
     P\<lparr>readConnections := readConnections P @ [p], idleReadConnectionCount := idleReadConnectionCount P + 1\<rparr>"

definition Pool_AcquireConnection :: "bool \<Rightarrow> 's pool \<Rightarrow> (ptr \<times> 's pool) run" where
  "Pool_AcquireConnection ro P =
     (if ro \<and> readConnectionCount P \<noteq> 0 then AcquireReadConnection P else AcquireWriteConnection P)"

definition Pool_ReleaseConnection :: "nat \<Rightarrow> 's pool \<Rightarrow> 's pool" where
  "Pool_ReleaseConnection p P =
     (if Some p = writeConnection P then ReleaseWriteConnection P else ReleaseReadConnection p P)"

subsection \<open>Rekeying, reopening, restoring\<close>

definition IsOverLength :: "byte list \<Rightarrow> bool" where
  "IsOverLength newKey = (if newKey = [] then False else length newKey > 1024)"

definition InnerReOpenReadConnections :: "'s env \<Rightarrow> 's pool \<Rightarrow> (rdb_errno \<times> 's pool) run" where
  "InnerReOpenReadConnections E P =
     run_bind (delete_all E (readConnections P) P) (\<lambda>P.
       open_reads E (nat (readConnectionCount P)) (P\<lparr>readConnections := []\<rparr>))"

definition ReOpenAvailableReadConnections :: "'s env \<Rightarrow> 's pool \<Rightarrow> (rdb_errno \<times> 's pool) run" where
  "ReOpenAvailableReadConnections E P = InnerReOpenReadConnections E P"

definition Pool_ChangeEncryptKey :: "'s env \<Rightarrow> byte list \<Rightarrow> 's pool \<Rightarrow> (rdb_errno \<times> 's pool) run" where
  "Pool_ChangeEncryptKey E newKey P =
     (if \<not> cfg_initEncrypted (config P) then Ret (E_CHANGE_UNENCRYPTED_TO_ENCRYPTED, P)
      else if newKey = [] then Ret (E_EMPTY_NEW_ENCRYPT_KEY, P)
      else if IsOverLength newKey then Ret (E_ERROR, P)
      else if writeConnectionUsed P then Ret (E_CHANGE_ENCRYPT_KEY_IN_BUSY, P)
      else if idleReadConnectionCount P < readConnectionCount P then Ret (E_CHANGE_ENCRYPT_KEY_IN_BUSY, P)
      else case writeConnection P of
        None \<Rightarrow> Crash
      | Some w \<Rightarrow>
          run_bind (of_option (heap P w)) (\<lambda>c.
          run_bind (of_option (Conn_ChangeEncryptKey E newKey c (lib P))) (\<lambda>(e, c, s).
            let P = P\<lparr>lib := s, heap := (heap P)(w := Some c)\<rparr> in
            if e \<noteq> E_OK then Ret (e, P)
            else InnerReOpenReadConnections E (P\<lparr>config := UpdateEncryptKey newKey (config P)\<rparr>))))"

definition DeleteFile :: "'s env \<Rightarrow> string \<Rightarrow> 's pool \<Rightarrow> bool \<times> 's pool" where
  "DeleteFile E path P = (let (r, s) = os_remove E path (lib P) in (r = 0, P\<lparr>lib := s\<rparr>))"

definition RenameFile :: "'s env \<Rightarrow> string \<Rightarrow> string \<Rightarrow> 's pool \<Rightarrow> int \<times> 's pool" where
  "RenameFile E src dest P = (let (r, s) = os_rename E src dest (lib P) in (r, P\<lparr>lib := s\<rparr>))"

definition delete_database :: "'s env \<Rightarrow> string \<Rightarrow> 's pool \<Rightarrow> 's pool" where
  "delete_database E path P =
     fold (\<lambda>suffix P. snd (DeleteFile E (path @ suffix) P)) [[], ''-shm'', ''-wal'', ''-journal''] P"

definition ChangeDbFileForRestore :: "'s env \<Rightarrow> string \<Rightarrow> string \<Rightarrow> byte list \<Rightarrow> 's pool \<Rightarrow> (rdb_errno \<times> 's pool) run" where
  "ChangeDbFileForRestore E newPath backupPath newKey P =
     (if writeConnectionUsed P \<or> idleReadConnectionCount P \<noteq> readConnectionCount P then Ret (E_ERROR, P)
      else
        run_bind (CloseAllConnections E P) (\<lambda>P.
          let currentPath = cfg_path (config P);
              P = delete_database E currentPath P;
              P = (if currentPath \<noteq> newPath then delete_database E newPath P else P);
              P = snd (RenameFile E backupPath newPath P);
              P = P\<lparr>config := UpdateEncryptKey newKey (SetPath newPath (config P))\<rparr>
          in Init E P))"


subsection \<open>The interface a session relies on\<close>

text \<open>
  \<open>inv P H\<close> says that the provider is in a good state while the connections of \<open>H\<close> are out.  An
  acquired connection is one that nobody holds, acquiring waits or succeeds but never fails, and a
  connection that is given back is no longer out.
\<close>

locale connection_source =
  fixes acquire :: "bool \<Rightarrow> 'p \<Rightarrow> (ptr \<times> 'p) run"
    and release :: "nat \<Rightarrow> 'p \<Rightarrow> 'p"
    and inv :: "'p \<Rightarrow> nat set \<Rightarrow> bool"
  assumes acquire_fresh: "inv P H \<Longrightarrow> acquire ro P = Ret (c, P') \<Longrightarrow> \<exists>q. c = Some q \<and> q \<notin> H \<and> inv P' (insert q H)"
    and acquire_defined: "inv P H \<Longrightarrow> acquire ro P \<noteq> Crash"
    and release_held: "inv P H \<Longrightarrow> q \<in> H \<Longrightarrow> inv (release q P) (H - {q})"
begin

text \<open>A run of acquisitions by one client, then their releases in any order.\<close>

fun acquire_list :: "bool list \<Rightarrow> 'p \<Rightarrow> (nat list \<times> 'p) run" where
  "acquire_list [] P = Ret ([], P)"
| "acquire_list (ro # ros) P =
     run_bind (acquire ro P) (\<lambda>(c, P).
       case c of None \<Rightarrow> Crash
       | Some q \<Rightarrow> run_bind (acquire_list ros P) (\<lambda>(qs, P). Ret (q # qs, P)))"

lemma acquire_list_distinct:
  "inv P H \<Longrightarrow> acquire_list ros P = Ret (qs, P') \<Longrightarrow>
     inv P' (H \<union> set qs) \<and> distinct qs \<and> set qs \<inter> H = {} \<and> length qs = length ros"
proof (induction ros arbitrary: P H qs)
  case Nil
  then show ?case by simp
next
  case (Cons ro ros)
  then obtain c P1 where a: "acquire ro P = Ret (c, P1)" by (auto split: prod.splits)
  from acquire_fresh [OF Cons.prems(1) a] obtain q where q: "c = Some q" "q \<notin> H" "inv P1 (insert q H)" by blast
  with Cons.prems(2) a obtain qs' where qs: "qs = q # qs'" "acquire_list ros P1 = Ret (qs', P')"
    by (auto split: prod.splits)
  from Cons.IH [OF q(3) qs(2)] q(2) qs(1) show ?case by simp
qed

lemma acquire_list_defined: "inv P H \<Longrightarrow> acquire_list ros P \<noteq> Crash"
proof (induction ros arbitrary: P H)
  case Nil
  then show ?case by simp
next
  case (Cons ro ros)
  show ?case
  proof (cases "acquire ro P")
    case (Ret r)
    obtain c P1 where r: "r = (c, P1)" by fastforce
    with Ret acquire_fresh [OF Cons.prems] obtain q where "c = Some q" "inv P1 (insert q H)" by blast
    with Cons.IH [of P1 "insert q H"] Ret r show ?thesis by (cases "acquire_list ros P1") auto
  next
    case Blocks
    then show ?thesis by simp
  next
    case Crash
    with acquire_defined [OF Cons.prems] show ?thesis by blast
  qed
qed

lemma release_all:
  "inv P (H \<union> set qs) \<Longrightarrow> distinct qs \<Longrightarrow> set qs \<inter> H = {} \<Longrightarrow> inv (fold release qs P) H"
proof (induction qs arbitrary: P)
  case Nil
  then show ?case by simp
next
  case (Cons q qs)
  have "H \<union> set (q # qs) - {q} = H \<union> set qs" using Cons.prems by auto
  with release_held [OF Cons.prems(1), of q] have "inv (release q P) (H \<union> set qs)" by simp
  with Cons show ?case by simp
qed

end

subsection \<open>The invariant of the pool\<close>

definition reader_at :: "'s pool \<Rightarrow> nat \<Rightarrow> bool" where
  "reader_at P q \<longleftrightarrow> q < next_ptr P \<and> (\<exists>c. heap P q = Some c \<and> \<not> isWriteConnection c)"

definition writer_at :: "'s pool \<Rightarrow> nat \<Rightarrow> bool" where
  "writer_at P q \<longleftrightarrow> q < next_ptr P \<and> (\<exists>c. heap P q = Some c \<and> isWriteConnection c)"

definition pool_inv :: "'s pool \<Rightarrow> nat set \<Rightarrow> bool" where
  "pool_inv P H \<longleftrightarrow>
     finite H \<and> distinct (readConnections P) \<and> set (readConnections P) \<inter> H = {}
   \<and> (\<forall>q \<in> set (readConnections P). reader_at P q)
   \<and> idleReadConnectionCount P = int (length (readConnections P))
   \<and> (case writeConnection P of None \<Rightarrow> False
      | Some w \<Rightarrow> writer_at P w \<and> (writeConnectionUsed P \<longleftrightarrow> w \<in> H) \<and> (\<forall>q \<in> H - {w}. reader_at P q)
          \<and> int (card (H - {w})) + int (length (readConnections P)) = readConnectionCount P)"

lemma pool_inv_writer: "pool_inv P H \<Longrightarrow> \<exists>w. writeConnection P = Some w \<and> writer_at P w"
  by (auto simp: pool_inv_def split: option.splits)

lemma reader_not_writer: "reader_at P q \<Longrightarrow> \<not> writer_at P q"
  by (auto simp: reader_at_def writer_at_def)

lemma reader_writer_update [simp]:
  "reader_at (P\<lparr>writeConnectionUsed := b\<rparr>) q = reader_at P q"
  "writer_at (P\<lparr>writeConnectionUsed := b\<rparr>) q = writer_at P q"
  "reader_at (P\<lparr>readConnections := rs, idleReadConnectionCount := n\<rparr>) q = reader_at P q"
  "writer_at (P\<lparr>readConnections := rs, idleReadConnectionCount := n\<rparr>) q = writer_at P q"
  by (simp_all add: reader_at_def writer_at_def)

lemma AcquireWrite_fresh:
  assumes "pool_inv P H" and "AcquireWriteConnection P = Ret (c, P')"
  shows "\<exists>q. c = Some q \<and> q \<notin> H \<and> pool_inv P' (insert q H)"
proof -
  obtain w where w: "writeConnection P = Some w" "writer_at P w" using pool_inv_writer [OF assms(1)] by blast
  have free: "w \<notin> H" and c: "c = Some w" "P' = P\<lparr>writeConnectionUsed := True\<rparr>"
    using assms w by (auto simp: pool_inv_def AcquireWriteConnection_def split: if_splits)
  have "w \<notin> set (readConnections P)"
    using assms(1) w(2) reader_not_writer by (fastforce simp: pool_inv_def)
  with assms(1) w free c show ?thesis by (simp add: pool_inv_def)
qed

lemma AcquireRead_fresh:
  assumes "pool_inv P H" and "AcquireReadConnection P = Ret (c, P')"
  shows "\<exists>q. c = Some q \<and> q \<notin> H \<and> pool_inv P' (insert q H)"
proof -
  let ?rs = "readConnections P"
  obtain rs q where rs: "?rs = rs @ [q]"
    using assms(2) by (cases ?rs rule: rev_cases) (auto simp: AcquireReadConnection_def split: if_splits)
  have c: "c = Some q" "P' = P\<lparr>readConnections := rs, idleReadConnectionCount := idleReadConnectionCount P - 1\<rparr>"
    using assms(2) rs by (auto simp: AcquireReadConnection_def split: if_splits)
  obtain w where w: "writeConnection P = Some w" "writer_at P w" using pool_inv_writer [OF assms(1)] by blast
  have q: "reader_at P q" "q \<notin> H" "q \<noteq> w" using assms(1) rs w reader_not_writer by (auto simp: pool_inv_def)
  then have i: "insert q H - {w} = insert q (H - {w})" by auto
  show ?thesis
    using assms(1) rs w q c by (simp add: pool_inv_def i)
qed

lemma Acquire_defined: "pool_inv P H \<Longrightarrow> Pool_AcquireConnection ro P \<noteq> Crash"
  by (auto simp: pool_inv_def Pool_AcquireConnection_def AcquireReadConnection_def AcquireWriteConnection_def)

lemma Release_held:
  assumes inv: "pool_inv P H" and q: "q \<in> H"
  shows "pool_inv (Pool_ReleaseConnection q P) (H - {q})"
proof -
  obtain w where w: "writeConnection P = Some w" "writer_at P w" using pool_inv_writer [OF inv] by blast
  show ?thesis
  proof (cases "q = w")
    case True
    with inv w show ?thesis
      by (auto simp: pool_inv_def Pool_ReleaseConnection_def ReleaseWriteConnection_def)
  next
    case False
    have sub: "H - {q} - {w} = H - {w} - {q}" by auto
    have "card (H - {w}) = Suc (card (H - {w} - {q}))"
      by (rule card.remove) (use inv q False in \<open>auto simp: pool_inv_def\<close>)
    then have c: "int (card (H - {w} - {q})) = int (card (H - {w})) - 1" by simp
    have r: "reader_at P q" "q \<notin> set (readConnections P)" using inv q w False by (auto simp: pool_inv_def)
    have P: "Pool_ReleaseConnection q P = P\<lparr>readConnections := readConnections P @ [q],
        idleReadConnectionCount := idleReadConnectionCount P + 1\<rparr>"
      using w False by (simp add: Pool_ReleaseConnection_def ReleaseReadConnection_def)
    show ?thesis
      using inv w r False by (simp add: pool_inv_def P sub c) blast
  qed
qed

interpretation sqlite_pool: connection_source Pool_AcquireConnection Pool_ReleaseConnection pool_inv
proof
  show "\<exists>q. c = Some q \<and> q \<notin> H \<and> pool_inv P' (insert q H)"
    if "pool_inv P H" "Pool_AcquireConnection ro P = Ret (c, P')" for P H ro c and P' :: "'a pool"
    using that AcquireWrite_fresh AcquireRead_fresh by (auto simp: Pool_AcquireConnection_def split: if_splits)
qed (use Acquire_defined Release_held in auto)


subsection \<open>Opening and closing many connections\<close>

text \<open>What the pool keeps beside its heap and its read connections.\<close>

definition same_rest :: "'s pool \<Rightarrow> 's pool \<Rightarrow> bool" where
  "same_rest P P' \<longleftrightarrow>
     config P' = config P \<and> writeConnection P' = writeConnection P \<and> writeConnectionUsed P' = writeConnectionUsed P
   \<and> readConnectionCount P' = readConnectionCount P \<and> idleReadConnectionCount P' = idleReadConnectionCount P
   \<and> transactionStack P' = transactionStack P"

lemma open_connection_cases:
  "open_connection E w P =
     (case Conn_Open E (config P) w (lib P) of
        None \<Rightarrow> Crash
      | Some (Inl e, s) \<Rightarrow> Ret (Inl e, P\<lparr>lib := s\<rparr>)
      | Some (Inr c, s) \<Rightarrow> Ret (Inr (next_ptr P), P\<lparr>lib := s, heap := (heap P)(next_ptr P := Some c), next_ptr := next_ptr P + 1\<rparr>))"
  by (simp add: open_connection_def split: option.split sum.split)

lemma open_connection_Inr:
  assumes "open_connection E w P = Ret (Inr q, P')"
  shows "q = next_ptr P \<and> next_ptr P' = Suc q \<and> (\<exists>c. heap P' = (heap P)(q := Some c) \<and> isWriteConnection c = w)
    \<and> readConnections P' = readConnections P \<and> same_rest P P'"
proof -
  obtain c s where o: "Conn_Open E (config P) w (lib P) = Some (Inr c, s)" and q: "q = next_ptr P"
    and P': "P' = P\<lparr>lib := s, heap := (heap P)(q := Some c), next_ptr := q + 1\<rparr>"
    using assms by (auto simp: open_connection_cases split: option.splits sum.splits)
  have "heap P' = (heap P)(q := Some c) \<and> isWriteConnection c = w"
    using Conn_Open_kind [OF o] P' by simp
  then have "\<exists>c. heap P' = (heap P)(q := Some c) \<and> isWriteConnection c = w" ..
  with q P' show ?thesis by (simp add: same_rest_def)
qed

lemma open_connection_Inl: "open_connection E w P = Ret (Inl e, P') \<Longrightarrow> e \<noteq> E_OK"
  by (auto simp: open_connection_cases split: option.splits sum.splits dest: Conn_Open_error)

lemma open_reads_opened:
  "open_reads E n P = Ret (E_OK, P') \<Longrightarrow>
     readConnections P' = readConnections P @ [next_ptr P ..< next_ptr P + n] \<and> next_ptr P' = next_ptr P + n
     \<and> (\<forall>q < next_ptr P. heap P' q = heap P q) \<and> (\<forall>q \<in> {next_ptr P ..< next_ptr P + n}. reader_at P' q)
     \<and> same_rest P P'"
proof (induction n arbitrary: P)
  case 0
  then show ?case by (simp add: same_rest_def)
next
  case (Suc n)
  then obtain r P1 where o: "open_connection E False P = Ret (r, P1)" by auto
  then obtain q where r: "r = Inr q"
    using Suc.prems open_connection_Inl [of E False P] by (cases r) auto
  note q = open_connection_Inr [OF o [unfolded r]]
  obtain c where c: "heap P1 = (heap P)(q := Some c)" "\<not> isWriteConnection c" using q by blast
  let ?P1 = "P1\<lparr>readConnections := readConnections P1 @ [q]\<rparr>"
  have "open_reads E n ?P1 = Ret (E_OK, P')" using Suc.prems o r by simp
  note IH = Suc.IH [OF this]
  have n1: "next_ptr ?P1 = Suc (next_ptr P)" using q by simp
  have "reader_at P' (next_ptr P)" using IH q c n1 by (auto simp: reader_at_def)
  then have readers: "\<forall>i \<in> {next_ptr P ..< next_ptr P + Suc n}. reader_at P' i"
    using IH n1 by (auto simp: Suc_le_eq order_le_less)
  have below: "\<forall>i < next_ptr P. heap P' i = heap P i" using IH q c by auto
  have rest: "same_rest P P'" using IH q by (auto simp: same_rest_def)
  have "[next_ptr P ..< next_ptr P + Suc n] = next_ptr P # [Suc (next_ptr P) ..< Suc (next_ptr P) + n]"
    by (simp add: upt_rec)
  with IH q n1 readers below rest show ?case by simp
qed

lemma delete_all_heap:
  "delete_all E qs P = Ret P' \<Longrightarrow>
     heap P' = (\<lambda>q. if q \<in> set qs then None else heap P q) \<and> next_ptr P' = next_ptr P
     \<and> readConnections P' = readConnections P \<and> same_rest P P'"
proof (induction qs arbitrary: P)
  case Nil
  then show ?case by (simp add: same_rest_def)
next
  case (Cons q qs)
  then obtain P1 where d: "delete_connection E q P = Ret P1" "delete_all E qs P1 = Ret P'" by auto
  then have "heap P1 = (heap P)(q := None)" "next_ptr P1 = next_ptr P" "readConnections P1 = readConnections P" "same_rest P P1"
    by (auto simp: delete_connection_def same_rest_def split: option.splits)
  with Cons.IH [OF d(2)] show ?case by (auto simp: same_rest_def)
qed

lemma delete_all_defined:
  "distinct qs \<Longrightarrow> \<forall>q \<in> set qs. heap P q \<noteq> None \<Longrightarrow> \<exists>P'. delete_all E qs P = Ret P'"
proof (induction qs arbitrary: P)
  case Nil
  then show ?case by simp
next
  case (Cons q qs)
  then obtain P1 where d: "delete_connection E q P = Ret P1" "heap P1 = (heap P)(q := None)"
    by (auto simp: delete_connection_def)
  have "\<exists>P'. delete_all E qs P1 = Ret P'"
    by (rule Cons.IH) (use Cons.prems d in auto)
  with d show ?case by auto
qed

text \<open>A pool whose read connections have just been opened, with a writer that was there before.\<close>

lemma fresh_readers_inv:
  assumes "readConnections P = [n ..< n + k]" and "\<forall>q \<in> {n ..< n + k}. reader_at P q"
    and "writeConnection P = Some w" and "writer_at P w" and "\<not> writeConnectionUsed P"
    and "readConnectionCount P = int k" and "idleReadConnectionCount P = int k"
  shows "pool_inv P {}"
  using assms by (simp add: pool_inv_def)

definition expected_readers :: "SqliteConfig \<Rightarrow> int" where
  "expected_readers c = (if cfg_storageMode c \<noteq> MODE_MEMORY \<and> cfg_journalMode c = ''WAL'' then 3 else 0)"

lemma Init_inv:
  assumes "Init E P = Ret (E_OK, P')" and "readConnections P = []"
  shows "pool_inv P' {} \<and> readConnectionCount P' = expected_readers (config P) \<and> config P' = config P
    \<and> transactionStack P' = transactionStack P"
proof -
  obtain r P1 where o: "open_connection E True P = Ret (r, P1)" using assms(1) by (auto simp: Init_def)
  then obtain w where r: "r = Inr w"
    using assms(1) open_connection_Inl [of E True P] by (cases r) (auto simp: Init_def)
  note q = open_connection_Inr [OF o [unfolded r]]
  obtain c where c: "heap P1 = (heap P)(w := Some c)" "isWriteConnection c" using q by blast
  let ?P1 = "InitReadConnectionCount (P1\<lparr>writeConnection := Some w\<rparr>)"
  obtain e P2 where l: "open_reads E (nat (readConnectionCount ?P1)) ?P1 = Ret (e, P2)"
    using assms(1) o r by (auto simp: Init_def Let_def)
  then have e: "e = E_OK" and P': "P' = P2\<lparr>writeConnectionUsed := False, idleReadConnectionCount := readConnectionCount P2\<rparr>"
    using assms(1) o r by (auto simp: Init_def Let_def split: if_splits)
  let ?k = "nat (readConnectionCount ?P1)"
  note k = open_reads_opened [OF l [unfolded e]]
  have rc: "readConnectionCount ?P1 = expected_readers (config P)" "readConnectionCount ?P1 \<ge> 0"
    using q by (auto simp: InitReadConnectionCount_def expected_readers_def GetReadConnectionCount_def same_rest_def)
  have f: "readConnections ?P1 = []" "next_ptr ?P1 = Suc w" "heap ?P1 w = Some c" "writeConnection ?P1 = Some w"
    "config ?P1 = config P" "transactionStack ?P1 = transactionStack P"
    using q c assms(2) by (simp_all add: InitReadConnectionCount_def same_rest_def)
  have "pool_inv P' {}"
    by (rule fresh_readers_inv [where n = "Suc w" and k = ?k and w = w])
      (use k f c rc in \<open>auto simp: P' same_rest_def reader_at_def writer_at_def\<close>)
  with k f rc show ?thesis by (simp add: P' same_rest_def)
qed


lemma InnerReOpen_opened:
  assumes inv: "pool_inv P H" and r: "InnerReOpenReadConnections E P = Ret (E_OK, P')"
  shows "readConnections P' = [next_ptr P ..< next_ptr P + nat (readConnectionCount P)]
    \<and> (\<forall>q \<in> set (readConnections P'). reader_at P' q) \<and> same_rest P P'
    \<and> (\<forall>q. q < next_ptr P \<and> q \<notin> set (readConnections P) \<longrightarrow> heap P' q = heap P q) \<and> next_ptr P \<le> next_ptr P'"
proof -
  obtain P1 where d: "delete_all E (readConnections P) P = Ret P1"
    and o: "open_reads E (nat (readConnectionCount P1)) (P1\<lparr>readConnections := []\<rparr>) = Ret (E_OK, P')"
    using r by (auto simp: InnerReOpenReadConnections_def)
  from delete_all_heap [OF d] open_reads_opened [OF o] show ?thesis
    by (auto simp: same_rest_def)
qed

lemma held_below: "pool_inv P H \<Longrightarrow> q \<in> H \<Longrightarrow> q < next_ptr P \<and> q \<notin> set (readConnections P)"
  by (cases "q = the (writeConnection P)")
    (auto simp: pool_inv_def reader_at_def writer_at_def split: option.splits)

lemma writer_below: "pool_inv P H \<Longrightarrow> writeConnection P = Some w \<Longrightarrow> w < next_ptr P \<and> w \<notin> set (readConnections P)"
  using reader_not_writer by (fastforce simp: pool_inv_def writer_at_def split: option.splits)

text \<open>Reopening keeps what is out, and has the full number of read connections again.\<close>

lemma InnerReOpen_inv_iff:
  assumes inv: "pool_inv P H" and r: "InnerReOpenReadConnections E P = Ret (E_OK, P')"
    and w: "writeConnection P = Some w"
  shows "pool_inv P' H \<longleftrightarrow> H \<subseteq> {w}"
proof -
  note k = InnerReOpen_opened [OF inv r]
  have cnt: "int (card (H - {w})) + int (length (readConnections P)) = readConnectionCount P"
    and fin: "finite H" and used: "writeConnectionUsed P \<longleftrightarrow> w \<in> H"
    and idle: "idleReadConnectionCount P = int (length (readConnections P))"
    and wr: "writer_at P w"
    using inv w by (auto simp: pool_inv_def)
  have len: "int (length (readConnections P')) = readConnectionCount P" using k cnt by simp
  have heap: "heap P' w = heap P w" using k writer_below [OF inv w] by auto
  show ?thesis
  proof
    assume "pool_inv P' H"
    then have "idleReadConnectionCount P' = int (length (readConnections P'))" by (simp add: pool_inv_def)
    moreover have "idleReadConnectionCount P' = idleReadConnectionCount P" using k by (simp add: same_rest_def)
    ultimately have "int (card (H - {w})) = 0" using len cnt idle by linarith
    with fin show "H \<subseteq> {w}" by auto
  next
    assume H: "H \<subseteq> {w}"
    then have none: "H - {w} = {}" by auto
    have cnt': "int (length (readConnections P)) = readConnectionCount P" using cnt [unfolded none] by simp
    have "\<forall>q \<in> H - {w}. reader_at P' q" using none by blast
    moreover have "set (readConnections P') \<inter> H = {}" using k held_below [OF inv] by fastforce
    moreover have "writer_at P' w" using wr heap k by (auto simp: writer_at_def)
    moreover have "distinct (readConnections P')" using k by simp
    ultimately show "pool_inv P' H"
      using k w used idle len cnt' fin H unfolding pool_inv_def by (simp add: same_rest_def)
  qed
qed

lemma Conn_ChangeEncryptKey_kind:
  "Conn_ChangeEncryptKey E k c s = Some (e, c', s') \<Longrightarrow> isWriteConnection c' = isWriteConnection c"
  by (auto simp: Conn_ChangeEncryptKey_def Let_def split: prod.splits if_splits option.splits)

lemma pool_inv_new_conn:
  assumes "pool_inv P H" and "heap P w = Some c" and "isWriteConnection c' = isWriteConnection c"
  shows "pool_inv (P\<lparr>lib := s, heap := (heap P)(w := Some c')\<rparr>) H"
proof -
  have "reader_at (P\<lparr>lib := s, heap := (heap P)(w := Some c')\<rparr>) q = reader_at P q"
    "writer_at (P\<lparr>lib := s, heap := (heap P)(w := Some c')\<rparr>) q = writer_at P q" for q
    using assms(2,3) by (auto simp: reader_at_def writer_at_def)
  with assms(1) show ?thesis by (simp add: pool_inv_def split: option.splits)
qed

lemma pool_inv_config [simp]: "pool_inv (P\<lparr>config := cfg\<rparr>) H = pool_inv P H"
  by (simp add: pool_inv_def reader_at_def writer_at_def split: option.splits)

lemma pool_inv_new_key:
  "pool_inv P H \<Longrightarrow> heap P w = Some c \<Longrightarrow> isWriteConnection c' = isWriteConnection c \<Longrightarrow>
     pool_inv (P\<lparr>lib := s, heap := (heap P)(w := Some c'), config := cfg\<rparr>) H"
  by (simp add: pool_inv_new_conn)

lemma busy_iff:
  assumes "pool_inv P H"
  shows "writeConnectionUsed P \<or> idleReadConnectionCount P < readConnectionCount P \<longleftrightarrow> H \<noteq> {}"
proof -
  obtain w where w: "writeConnection P = Some w" using pool_inv_writer [OF assms] by blast
  with assms have c: "int (card (H - {w})) = readConnectionCount P - idleReadConnectionCount P" "finite H"
    "writeConnectionUsed P \<longleftrightarrow> w \<in> H"
    by (auto simp: pool_inv_def)
  have "card (H - {w}) > 0 \<longleftrightarrow> H - {w} \<noteq> {}" using c(2) by (simp add: card_gt_0_iff)
  with c show ?thesis by auto
qed

subsection \<open>A pool to evaluate\<close>

text \<open>A read-only encrypted database on disk in WAL mode, so that opening runs no statement.\<close>

definition demo_pool_config :: SqliteConfig where
  "demo_pool_config = SqliteConfig_of \<lparr>rc_path = ''/data/test.db'', rc_storageMode = MODE_DISK, rc_readOnly = True,
     rc_encryptKey = [1, 2], rc_journalMode = [], rc_syncMode = [], rc_fileType = []\<rparr>"

definition demo_conn :: "bool \<Rightarrow> SqliteConnection" where
  "demo_conn w = \<lparr>dbHandle = Some 0, isWriteConnection = w, isReadOnly = True, statement = SqliteStatement_new,
     stepStatement = Some SqliteStatement_new, filePath = ''/data/test.db'', openFlags = 1\<rparr>"

definition demo_heap :: "nat \<Rightarrow> SqliteConnection option" where
  "demo_heap = (\<lambda>_. None)(0 := Some (demo_conn True), 1 := Some (demo_conn False), 2 := Some (demo_conn False),
     3 := Some (demo_conn False))"

definition demo_pool :: "demo pool" where
  "demo_pool = \<lparr>lib = demo_init, heap = demo_heap, next_ptr = 4, config = demo_pool_config, writeConnection = Some 0,
     writeConnectionUsed = False, readConnections = [1, 2, 3], readConnectionCount = 3, idleReadConnectionCount = 3,
     transactionStack = []\<rparr>"

definition demo_openable :: "SqliteConfig \<Rightarrow> bool" where
  "demo_openable c \<longleftrightarrow> cfg_storageMode c = MODE_DISK \<and> cfg_journalMode c = ''WAL'' \<and> cfg_readOnly c \<and> cfg_path c = ''/data/test.db''"

lemma demo_calls [simp]:
  "SetEncryptKey demo_env k c s = (E_OK, s)"
  "SetPersistWal demo_env c s = (E_OK, s)"
  "SetBusyTimeout demo_env n c s = (0, s)"
  "LimitPermission demo_env path s = s"
  "sqlite3_open_v2 (api demo_env) path flags s = (0, Some 0, s)"
  by (simp_all add: SetEncryptKey_def SetPersistWal_def SetBusyTimeout_def LimitPermission_def demo_env_def demo_api_def)

lemma demo_open: "demo_openable c \<Longrightarrow> Conn_Open demo_env c w s = Some (Inr (demo_conn w), s)"
  by (simp add: demo_openable_def Conn_Open_def Conn_InnerOpen_def db_path_of_def Config_def SetPageSize_def
      SetJournalMode_def SetJournalSizeLimit_def SetAutoCheckpoint_def and_then_def SqliteConnection_new_def demo_conn_def)

lemma demo_pool_openable: "demo_openable demo_pool_config"
  by (simp add: demo_openable_def demo_pool_config_def SqliteConfig_of_def GetDefaultJournalMode_def)

lemma demo_open_reads: "demo_openable (config P) \<Longrightarrow> \<exists>P'. open_reads demo_env n P = Ret (E_OK, P')"
  by (induction n arbitrary: P) (auto simp: open_connection_cases demo_open)

lemma demo_init_returns: "demo_openable (config P) \<Longrightarrow> \<exists>P'. Init demo_env P = Ret (E_OK, P')"
proof -
  assume o: "demo_openable (config P)"
  let ?P = "InitReadConnectionCount (P\<lparr>heap := (heap P)(next_ptr P := Some (demo_conn True)), next_ptr := next_ptr P + 1,
    writeConnection := Some (next_ptr P)\<rparr>)"
  have "demo_openable (config ?P)" using o by (simp add: InitReadConnectionCount_def)
  from demo_open_reads [OF this] obtain P' where "open_reads demo_env (nat (readConnectionCount ?P)) ?P = Ret (E_OK, P')" by blast
  with o show ?thesis by (simp add: Init_def open_connection_cases demo_open)
qed

lemma demo_reopen:
  assumes "demo_openable (config P)" and "distinct (readConnections P)" and "\<forall>q \<in> set (readConnections P). heap P q \<noteq> None"
  shows "\<exists>P'. InnerReOpenReadConnections demo_env P = Ret (E_OK, P')"
proof -
  obtain P1 where d: "delete_all demo_env (readConnections P) P = Ret P1" using delete_all_defined [OF assms(2,3)] by blast
  with delete_all_heap [OF d] assms(1) have "demo_openable (config (P1\<lparr>readConnections := []\<rparr>))" by (simp add: same_rest_def)
  from demo_open_reads [OF this] d show ?thesis by (simp add: InnerReOpenReadConnections_def)
qed

lemma demo_pool_created: "Pool_Create demo_env demo_pool_config demo_init = Ret (E_OK, demo_pool)"
proof -
  have c: "cfg_storageMode demo_pool_config = MODE_DISK" "cfg_journalMode demo_pool_config = ''WAL''"
    using demo_pool_openable by (simp_all add: demo_openable_def)
  show ?thesis
    by (simp add: Pool_Create_def Init_def SqliteConnectionPool_new_def InitReadConnectionCount_def GetReadConnectionCount_def
        open_connection_cases demo_open [OF demo_pool_openable] c demo_pool_def demo_heap_def numeral_3_eq_3 numeral_2_eq_2
        eval_nat_numeral Let_def)
qed

lemma demo_pool_inv: "pool_inv demo_pool {}"
  by (simp add: pool_inv_def demo_pool_def demo_heap_def demo_conn_def reader_at_def writer_at_def)

lemma demo_pool_inv_out: "pool_inv (demo_pool\<lparr>readConnections := [1, 2], idleReadConnectionCount := 2\<rparr>) {3}"
  by (simp add: pool_inv_def demo_pool_def demo_heap_def demo_conn_def reader_at_def writer_at_def)

subsection \<open>Properties\<close>

text \<open>
  A pool that was created successfully has one idle writer and, for a database on disk
  in WAL mode, three idle readers; all of them are distinct live connections, the counters agree with
  the vector, and nothing is handed out.
\<close>

theorem pool_created:
  assumes "Pool_Create E c s = Ret (E_OK, P)"
  shows "pool_inv P {} \<and> readConnectionCount P = expected_readers c \<and> transactionStack P = []"
proof -
  have "Init E (SqliteConnectionPool_new c s) = Ret (E_OK, P)"
    using assms by (auto simp: Pool_Create_def split: if_splits)
  from Init_inv [OF this] show ?thesis by (simp add: SqliteConnectionPool_new_def)
qed

theorem pool_created_witness:
  "pool_inv demo_pool {} \<and> readConnectionCount demo_pool = 3"
  using pool_created [OF demo_pool_created] by (simp add: demo_pool_def)

text \<open>
  C32 (liveness): with the connections of \<open>H\<close> out, a request waits exactly when its kind is exhausted (all
  readers out, or the writer out); otherwise it returns, without an undefined access, a connection that
  nobody holds and that fits the request.
\<close>

theorem acquire_waits_iff_exhausted:
  assumes "pool_inv P H"
  shows "(Pool_AcquireConnection ro P = Blocks \<longleftrightarrow>
      (if ro \<and> readConnectionCount P \<noteq> 0 then int (card (H - {the (writeConnection P)})) = readConnectionCount P
       else the (writeConnection P) \<in> H))
    \<and> (Pool_AcquireConnection ro P \<noteq> Blocks \<longrightarrow>
        (\<exists>q P'. Pool_AcquireConnection ro P = Ret (Some q, P') \<and> q \<notin> H \<and> pool_inv P' (insert q H)
          \<and> (if ro \<and> readConnectionCount P \<noteq> 0 then reader_at P' q else writer_at P' q)))"
proof
  obtain w where w: "writeConnection P = Some w" using pool_inv_writer [OF assms] by blast
  then show "Pool_AcquireConnection ro P = Blocks \<longleftrightarrow>
      (if ro \<and> readConnectionCount P \<noteq> 0 then int (card (H - {the (writeConnection P)})) = readConnectionCount P
       else the (writeConnection P) \<in> H)"
    using assms by (auto simp: pool_inv_def Pool_AcquireConnection_def AcquireReadConnection_def AcquireWriteConnection_def)
  show "Pool_AcquireConnection ro P \<noteq> Blocks \<longrightarrow>
        (\<exists>q P'. Pool_AcquireConnection ro P = Ret (Some q, P') \<and> q \<notin> H \<and> pool_inv P' (insert q H)
          \<and> (if ro \<and> readConnectionCount P \<noteq> 0 then reader_at P' q else writer_at P' q))"
  proof
    assume "Pool_AcquireConnection ro P \<noteq> Blocks"
    then obtain c P' where r: "Pool_AcquireConnection ro P = Ret (c, P')"
      using sqlite_pool.acquire_defined [OF assms] by (metis prod.exhaust run.exhaust)
    from sqlite_pool.acquire_fresh [OF assms r] obtain q where q: "c = Some q" "q \<notin> H" "pool_inv P' (insert q H)" by blast
    have "if ro \<and> readConnectionCount P \<noteq> 0 then reader_at P' q else writer_at P' q"
      using r q(1) w assms
      by (auto simp: Pool_AcquireConnection_def AcquireReadConnection_def AcquireWriteConnection_def pool_inv_def
          split: if_splits)
    with r q show "\<exists>q P'. Pool_AcquireConnection ro P = Ret (Some q, P') \<and> q \<notin> H \<and> pool_inv P' (insert q H)
          \<and> (if ro \<and> readConnectionCount P \<noteq> 0 then reader_at P' q else writer_at P' q)"
      by blast
  qed
qed

theorem acquire_waits_iff_exhausted_witness:
  "\<exists>q P'. Pool_AcquireConnection True (demo_pool\<lparr>readConnections := [1, 2], idleReadConnectionCount := 2\<rparr>) = Ret (Some q, P')
     \<and> q \<notin> {3} \<and> pool_inv P' {q, 3} \<and> reader_at P' q"
proof -
  let ?P = "demo_pool\<lparr>readConnections := [1, 2], idleReadConnectionCount := 2\<rparr>"
  have "Pool_AcquireConnection True ?P \<noteq> Blocks"
    by (simp add: Pool_AcquireConnection_def AcquireReadConnection_def demo_pool_def)
  with acquire_waits_iff_exhausted [OF demo_pool_inv_out, of True] show ?thesis
    by (simp add: demo_pool_def)
qed

text \<open>
  Changing the key is refused, and changes nothing, while any connection is out; if it
  succeeds, the pool is complete and idle again and its configuration has the new key.
\<close>

theorem rekey_keeps_pool:
  assumes inv: "pool_inv P H" and r: "Pool_ChangeEncryptKey E newKey P = Ret (e, P')"
  shows "(H \<noteq> {} \<longrightarrow> e \<noteq> E_OK \<and> P' = P)
    \<and> (e = E_OK \<longrightarrow> pool_inv P' {} \<and> cfg_encryptKey (config P') = newKey)"
proof (cases "H = {}")
  case False
  with busy_iff [OF inv] r show ?thesis by (auto simp: Pool_ChangeEncryptKey_def split: if_splits)
next
  case True
  obtain w where w: "writeConnection P = Some w" using pool_inv_writer [OF inv] by blast
  have "e = E_OK \<Longrightarrow> pool_inv P' {} \<and> cfg_encryptKey (config P') = newKey"
  proof -
    assume e: "e = E_OK"
    from r e w obtain c c' s where c: "heap P w = Some c" "Conn_ChangeEncryptKey E newKey c (lib P) = Some (E_OK, c', s)"
      and o: "InnerReOpenReadConnections E (P\<lparr>lib := s, heap := (heap P)(w := Some c'), config := UpdateEncryptKey newKey (config P)\<rparr>)
        = Ret (E_OK, P')"
      by (auto simp: Pool_ChangeEncryptKey_def Let_def split: if_splits prod.splits)
    have inv': "pool_inv (P\<lparr>lib := s, heap := (heap P)(w := Some c'), config := UpdateEncryptKey newKey (config P)\<rparr>) {}"
      using pool_inv_new_key [OF inv c(1) Conn_ChangeEncryptKey_kind [OF c(2)]] True by simp
    from InnerReOpen_inv_iff [OF inv' o, of w] InnerReOpen_opened [OF inv' o] w show ?thesis
      by (simp add: same_rest_def UpdateEncryptKey_def)
  qed
  with True show ?thesis by simp
qed

theorem rekey_keeps_pool_witness:
  "Pool_ChangeEncryptKey demo_env [9] (demo_pool\<lparr>readConnections := [1, 2], idleReadConnectionCount := 2\<rparr>)
     = Ret (E_CHANGE_ENCRYPT_KEY_IN_BUSY, demo_pool\<lparr>readConnections := [1, 2], idleReadConnectionCount := 2\<rparr>)
   \<and> (\<exists>P'. Pool_ChangeEncryptKey demo_env [9] demo_pool = Ret (E_OK, P') \<and> pool_inv P' {} \<and> cfg_encryptKey (config P') = [9])"
proof -
  let ?P = "demo_pool\<lparr>readConnections := [1, 2], idleReadConnectionCount := 2\<rparr>"
  have key: "cfg_initEncrypted demo_pool_config" by (simp add: demo_pool_config_def SqliteConfig_of_def)
  then have b: "Pool_ChangeEncryptKey demo_env [9] ?P = Ret (E_CHANGE_ENCRYPT_KEY_IN_BUSY, ?P)"
    by (simp add: Pool_ChangeEncryptKey_def IsOverLength_def demo_pool_def)
  let ?Q = "demo_pool\<lparr>config := UpdateEncryptKey [9] demo_pool_config\<rparr>"
  have rekey: "Conn_ChangeEncryptKey demo_env [9] (demo_conn True) demo_init = Some (E_OK, demo_conn True, demo_init)"
    by (simp add: Conn_ChangeEncryptKey_def demo_conn_def Finalize_def SqliteStatement_new_def demo_env_def demo_api_def)
  have h: "demo_heap 0 = Some (demo_conn True)" by (simp add: demo_heap_def)
  have "Pool_ChangeEncryptKey demo_env [9] demo_pool = InnerReOpenReadConnections demo_env ?Q"
    using key rekey h by (simp add: Pool_ChangeEncryptKey_def IsOverLength_def demo_pool_def fun_upd_idem Let_def)
  moreover have "\<exists>P'. InnerReOpenReadConnections demo_env ?Q = Ret (E_OK, P')"
    by (rule demo_reopen) (use demo_pool_openable in
      \<open>simp_all add: demo_openable_def UpdateEncryptKey_def demo_pool_def demo_heap_def\<close>)
  ultimately have "\<exists>P'. Pool_ChangeEncryptKey demo_env [9] demo_pool = Ret (E_OK, P')" by simp
  then obtain P' where "Pool_ChangeEncryptKey demo_env [9] demo_pool = Ret (E_OK, P')" by blast
  with rekey_keeps_pool [OF demo_pool_inv this] b show ?thesis by blast
qed

text \<open>
  Restoring from a backup is refused, and changes nothing, while any connection is out; if
  it succeeds, every connection has been reopened on the new path and the pool is complete and idle.
\<close>

theorem restore_reopens_pool:
  assumes inv: "pool_inv P H" and r: "ChangeDbFileForRestore E newPath backupPath newKey P = Ret (e, P')"
  shows "(H \<noteq> {} \<longrightarrow> e = E_ERROR \<and> P' = P)
    \<and> (e = E_OK \<longrightarrow> pool_inv P' {} \<and> cfg_path (config P') = newPath \<and> cfg_encryptKey (config P') = newKey)"
proof (cases "H = {}")
  case False
  with busy_iff [OF inv] r show ?thesis by (auto simp: ChangeDbFileForRestore_def split: if_splits)
next
  case True
  have "e = E_OK \<Longrightarrow> pool_inv P' {} \<and> cfg_path (config P') = newPath \<and> cfg_encryptKey (config P') = newKey"
  proof -
    assume e: "e = E_OK"
    let ?files = "\<lambda>P1. snd (RenameFile E backupPath newPath
        (let P2 = delete_database E (cfg_path (config P1)) P1 in
         if cfg_path (config P1) \<noteq> newPath then delete_database E newPath P2 else P2))"
    from r e obtain P1 where P1: "CloseAllConnections E P = Ret P1"
      and o: "Init E ((?files P1)\<lparr>config := UpdateEncryptKey newKey (SetPath newPath (config (?files P1)))\<rparr>) = Ret (E_OK, P')"
      by (auto simp: ChangeDbFileForRestore_def Let_def split: if_splits)
    have "readConnections (delete_database E path Q) = readConnections Q" for path Q
      by (simp add: delete_database_def DeleteFile_def split: prod.splits)
    then have "readConnections (?files P1) = []"
      using P1 by (auto simp: CloseAllConnections_def RenameFile_def Let_def split: prod.splits)
    with Init_inv [OF o] show ?thesis by (simp add: UpdateEncryptKey_def SetPath_def)
  qed
  with True show ?thesis by simp
qed

theorem restore_reopens_pool_witness:
  "\<exists>P'. ChangeDbFileForRestore demo_env ''/data/test.db'' ''/data/backup.db'' [9] demo_pool = Ret (E_OK, P')
     \<and> pool_inv P' {} \<and> cfg_path (config P') = ''/data/test.db'' \<and> cfg_encryptKey (config P') = [9]"
proof -
  have "\<exists>P'. ChangeDbFileForRestore demo_env ''/data/test.db'' ''/data/backup.db'' [9] demo_pool = Ret (E_OK, P')"
  proof -
    obtain P1 where P1: "CloseAllConnections demo_env demo_pool = Ret P1" and c: "config P1 = demo_pool_config"
      by (simp add: CloseAllConnections_def delete_connection_def demo_pool_def demo_heap_def)
    let ?P2 = "P1\<lparr>config := UpdateEncryptKey [9] (SetPath ''/data/test.db'' demo_pool_config)\<rparr>"
    have "\<exists>P'. Init demo_env ?P2 = Ret (E_OK, P')"
      by (rule demo_init_returns) (use demo_pool_openable in \<open>simp add: demo_openable_def UpdateEncryptKey_def SetPath_def\<close>)
    moreover have "delete_database demo_env path P1 = P1" "snd (RenameFile demo_env p q P1) = P1" for path p q
      by (simp_all add: delete_database_def DeleteFile_def RenameFile_def demo_env_def)
    moreover have "\<not> writeConnectionUsed demo_pool" "idleReadConnectionCount demo_pool = readConnectionCount demo_pool"
      by (simp_all add: demo_pool_def)
    ultimately show ?thesis using P1 c by (simp add: ChangeDbFileForRestore_def Let_def)
  qed
  then obtain P' where "ChangeDbFileForRestore demo_env ''/data/test.db'' ''/data/backup.db'' [9] demo_pool = Ret (E_OK, P')" ..
  with restore_reopens_pool [OF demo_pool_inv this] show ?thesis by blast
qed

text \<open>
  Reopening the readers after a schema change does not look at the readers that are out: it
  leaves a pool that is consistent exactly when none was out.
\<close>

theorem reopen_consistent_iff_no_reader_out:
  assumes "pool_inv P H" and "ReOpenAvailableReadConnections E P = Ret (E_OK, P')"
  shows "pool_inv P' H \<longleftrightarrow> H \<subseteq> {the (writeConnection P)}"
proof -
  obtain w where w: "writeConnection P = Some w" using pool_inv_writer [OF assms(1)] by blast
  with InnerReOpen_inv_iff [OF assms(1) _ w] assms(2) show ?thesis
    by (simp add: ReOpenAvailableReadConnections_def)
qed


theorem reopen_consistent_iff_no_reader_out_witness:
  "\<exists>P'. ReOpenAvailableReadConnections demo_env (demo_pool\<lparr>readConnections := [1, 2], idleReadConnectionCount := 2\<rparr>) = Ret (E_OK, P')
     \<and> \<not> pool_inv P' {3}"
proof -
  let ?P = "demo_pool\<lparr>readConnections := [1, 2], idleReadConnectionCount := 2\<rparr>"
  have "\<exists>P'. ReOpenAvailableReadConnections demo_env ?P = Ret (E_OK, P')"
    unfolding ReOpenAvailableReadConnections_def
    by (rule demo_reopen) (use demo_pool_openable in \<open>simp_all add: demo_pool_def demo_heap_def\<close>)
  then obtain P' where P': "ReOpenAvailableReadConnections demo_env ?P = Ret (E_OK, P')" ..
  have "\<not> {3} \<subseteq> {the (writeConnection ?P)}" by (simp add: demo_pool_def)
  with reopen_consistent_iff_no_reader_out [OF demo_pool_inv_out P'] P' show ?thesis by blast
qed

end
