(* ===== verification/Store_Session.thy ===== *)
theory Store_Session
  imports Connection_Pool
begin

text \<open>
  A session of the store (store_session.cpp): it borrows a connection from the pool, counts how often it
  is in use, runs statements on it, and works on the transaction stack the pool keeps.  A session and
  the pool are passed and returned explicitly; \<open>Blocks\<close> and \<open>Crash\<close> are those of the pool.
\<close>

record StoreSession =
  connection :: ptr
  connectionUseCount :: int
  isInStepQuery :: bool

definition StoreSession_new :: StoreSession where
  "StoreSession_new = \<lparr>connection = None, connectionUseCount = 0, isInStepQuery = False\<rparr>"

subsection \<open>Borrowing a connection\<close>

text \<open>Written over the operations of the pool, so that what holds of every pool with the contract of
  \<open>connection_source\<close> is proved once.\<close>

definition acquire_with :: "(bool \<Rightarrow> 'p \<Rightarrow> (ptr \<times> 'p) run) \<Rightarrow> bool \<Rightarrow> StoreSession \<Rightarrow> 'p \<Rightarrow> (StoreSession \<times> 'p) run" where
  "acquire_with acq ro ss P =
     (if connection ss = None then
        run_bind (acq ro P) (\<lambda>(c, P). Ret (ss\<lparr>connection := c, connectionUseCount := connectionUseCount ss + 1\<rparr>, P))
      else Ret (ss\<lparr>connectionUseCount := connectionUseCount ss + 1\<rparr>, P))"

definition release_with :: "(nat \<Rightarrow> 'p \<Rightarrow> 'p) \<Rightarrow> StoreSession \<Rightarrow> 'p \<Rightarrow> StoreSession \<times> 'p" where
  "release_with rel ss P =
     (case connection ss of
        None \<Rightarrow> (ss, P)
      | Some c \<Rightarrow>
          if connectionUseCount ss \<le> 0 then (ss, P)
          else
            let ss = ss\<lparr>connectionUseCount := connectionUseCount ss - 1\<rparr> in
            if connectionUseCount ss = 0 then (ss\<lparr>connection := None\<rparr>, rel c P) else (ss, P))"

definition AcquireConnection :: "bool \<Rightarrow> StoreSession \<Rightarrow> 's pool \<Rightarrow> (StoreSession \<times> 's pool) run" where
  "AcquireConnection = acquire_with Pool_AcquireConnection"

definition ReleaseConnection :: "StoreSession \<Rightarrow> 's pool \<Rightarrow> StoreSession \<times> 's pool" where
  "ReleaseConnection = release_with Pool_ReleaseConnection"

text \<open>A method call through the session's connection pointer.\<close>

definition on_connection :: "(SqliteConnection \<Rightarrow> 's \<Rightarrow> ('a \<times> SqliteConnection \<times> 's) option) \<Rightarrow>
    StoreSession \<Rightarrow> 's pool \<Rightarrow> ('a \<times> 's pool) run" where
  "on_connection f ss P =
     (case connection ss of
        None \<Rightarrow> Crash
      | Some q \<Rightarrow>
          (case heap P q of
             None \<Rightarrow> Crash
           | Some c \<Rightarrow>
               run_bind (of_option (f c (lib P))) (\<lambda>(r, c, s).
                 Ret (r, P\<lparr>lib := s, heap := (heap P)(q := Some c)\<rparr>))))"

definition session_is_writer :: "StoreSession \<Rightarrow> 's pool \<Rightarrow> bool run" where
  "session_is_writer ss P =
     (case connection ss of
        None \<Rightarrow> Crash
      | Some q \<Rightarrow> run_bind (of_option (heap P q)) (\<lambda>c. Ret (IsWriteConnection c)))"

subsection \<open>Running a statement\<close>

definition BeginExecuteSql :: "'s env \<Rightarrow> string \<Rightarrow> StoreSession \<Rightarrow> 's pool \<Rightarrow> (rdb_errno \<times> StoreSession \<times> 's pool) run" where
  "BeginExecuteSql E sql ss P =
     (let t = GetSqlStatementType sql in
      if IsSpecial t then Ret (E_TRANSACTION_IN_EXECUTE, ss, P)
      else
        run_bind (AcquireConnection (IsSqlReadOnly t) ss P) (\<lambda>(ss, P).
        run_bind (on_connection (\<lambda>c s. Some (Conn_Prepare E sql c s)) ss P) (\<lambda>(r, P).
          case r of
            Inl errCode \<Rightarrow> let (ss, P) = ReleaseConnection ss P in Ret (errCode, ss, P)
          | Inr isRO \<Rightarrow>
              run_bind (session_is_writer ss P) (\<lambda>w.
                if isRO = w then
                  let (ss, P) = ReleaseConnection ss P in
                  run_bind (AcquireConnection isRO ss P) (\<lambda>(ss, P).
                  run_bind (session_is_writer ss P) (\<lambda>w.
                    if \<not> isRO \<and> \<not> w then
                      let (ss, P) = ReleaseConnection ss P in Ret (E_EXECUTE_WRITE_IN_READ_CONNECTION, ss, P)
                    else Ret (E_OK, ss, P)))
                else Ret (E_OK, ss, P)))))"

text \<open>What the executing methods share: begin, call one method of the connection, release.\<close>

definition execute_with :: "'s env \<Rightarrow> string \<Rightarrow>
    (SqliteConnection \<Rightarrow> 's \<Rightarrow> ('a result \<times> SqliteConnection \<times> 's) option) \<Rightarrow>
    StoreSession \<Rightarrow> 's pool \<Rightarrow> ('a result \<times> StoreSession \<times> 's pool) run" where
  "execute_with E sql f ss P =
     run_bind (BeginExecuteSql E sql ss P) (\<lambda>(errCode, ss, P).
       if errCode \<noteq> E_OK then Ret (Inl errCode, ss, P)
       else
         run_bind (on_connection f ss P) (\<lambda>(r, P).
           let (ss, P) = ReleaseConnection ss P in Ret (r, ss, P)))"

definition Session_ExecuteSql :: "'s env \<Rightarrow> string \<Rightarrow> ValueObject list \<Rightarrow> StoreSession \<Rightarrow> 's pool \<Rightarrow>
    (unit result \<times> StoreSession \<times> 's pool) run" where
  "Session_ExecuteSql E sql bindArgs = execute_with E sql (Conn_ExecuteSql E sql bindArgs)"

definition Session_ExecuteForChangedRowCount :: "'s env \<Rightarrow> string \<Rightarrow> ValueObject list \<Rightarrow> StoreSession \<Rightarrow> 's pool \<Rightarrow>
    (int result \<times> StoreSession \<times> 's pool) run" where
  "Session_ExecuteForChangedRowCount E sql bindArgs = execute_with E sql (Conn_ExecuteForChangedRowCount E sql bindArgs)"

definition Session_ExecuteForLastInsertedRowId :: "'s env \<Rightarrow> string \<Rightarrow> ValueObject list \<Rightarrow> StoreSession \<Rightarrow> 's pool \<Rightarrow>
    (int64 result \<times> StoreSession \<times> 's pool) run" where
  "Session_ExecuteForLastInsertedRowId E sql bindArgs = execute_with E sql (Conn_ExecuteForLastInsertedRowId E sql bindArgs)"

definition Session_ExecuteGetLong :: "'s env \<Rightarrow> string \<Rightarrow> ValueObject list \<Rightarrow> StoreSession \<Rightarrow> 's pool \<Rightarrow>
    (int64 result \<times> StoreSession \<times> 's pool) run" where
  "Session_ExecuteGetLong E sql bindArgs = execute_with E sql (Conn_ExecuteGetLong E sql bindArgs)"

text \<open>\<open>SqliteDatabaseUtils::GetSqlStatementType\<close> trims the text first.  It upper-cases the three
  characters through an iterator of an empty string; the model takes the text those writes leave in the
  string's buffer.\<close>

definition Db_GetSqlStatementType :: "string \<Rightarrow> stmt_type" where
  "Db_GetSqlStatementType sql =
     (let sql = rev (dropWhile (\<lambda>c. c = CHR '' '') (rev (dropWhile (\<lambda>c. c = CHR '' '') sql))) in
      if length sql < 3 then STATEMENT_OTHER
      else case map_of SQL_TYPE_MAP (map toupper (take 3 sql)) of None \<Rightarrow> STATEMENT_OTHER | Some t \<Rightarrow> t)"

definition Session_ExecuteGetString :: "'s env \<Rightarrow> string \<Rightarrow> ValueObject list \<Rightarrow> StoreSession \<Rightarrow> 's pool \<Rightarrow>
    (string result \<times> StoreSession \<times> 's pool) run" where
  "Session_ExecuteGetString E sql bindArgs ss P =
     run_bind (BeginExecuteSql E sql ss P) (\<lambda>(errCode, ss, P).
       if errCode \<noteq> E_OK then Ret (Inl errCode, ss, P)
       else
         run_bind (if Db_GetSqlStatementType sql = STATEMENT_PRAGMA then
                     let (ss, P) = ReleaseConnection ss P in AcquireConnection False ss P
                   else Ret (ss, P)) (\<lambda>(ss, P).
         run_bind (on_connection (Conn_ExecuteGetString E sql bindArgs) ss P) (\<lambda>(r, P).
           let (ss, P) = ReleaseConnection ss P in Ret (r, ss, P))))"

definition Session_PrepareAndGetInfo :: "'s env \<Rightarrow> string \<Rightarrow> StoreSession \<Rightarrow> 's pool \<Rightarrow>
    ((bool \<times> int \<times> string list) result \<times> StoreSession \<times> 's pool) run" where
  "Session_PrepareAndGetInfo E sql ss P =
     (let t = GetSqlStatementType sql in
      if IsSpecial t then Ret (Inl E_TRANSACTION_IN_EXECUTE, ss, P)
      else
        run_bind (AcquireConnection (IsSqlReadOnly t) ss P) (\<lambda>(ss, P).
        run_bind (on_connection (\<lambda>c s. Some (Conn_PrepareAndGetInfo E sql c s)) ss P) (\<lambda>(r, P).
          let (ss, P) = ReleaseConnection ss P in Ret (r, ss, P))))"

definition IsHoldingConnection :: "StoreSession \<Rightarrow> bool" where
  "IsHoldingConnection ss = (if connection ss = None then False else True)"

subsection \<open>Step queries\<close>

definition Session_BeginStepQuery :: "'s env \<Rightarrow> string \<Rightarrow> string list \<Rightarrow> StoreSession \<Rightarrow> 's pool \<Rightarrow>
    (unit result \<times> StoreSession \<times> 's pool) run" where
  "Session_BeginStepQuery E sql selectionArgs ss P =
     (if isInStepQuery ss then Ret (Inl E_MORE_STEP_QUERY_IN_ONE_SESSION, ss, P)
      else if GetSqlStatementType sql \<noteq> STATEMENT_SELECT then Ret (Inl E_EXECUTE_IN_STEP_QUERY, ss, P)
      else
        run_bind (AcquireConnection True ss P) (\<lambda>(ss, P).
        run_bind (on_connection (Conn_BeginStepQuery E sql selectionArgs) ss P) (\<lambda>(r, P).
          case r of
            Inl e \<Rightarrow> let (ss, P) = ReleaseConnection ss P in Ret (Inl e, ss, P)
          | Inr _ \<Rightarrow> Ret (Inr (), ss\<lparr>isInStepQuery := True\<rparr>, P))))"

definition Session_EndStepQuery :: "'s env \<Rightarrow> StoreSession \<Rightarrow> 's pool \<Rightarrow> (rdb_errno \<times> StoreSession \<times> 's pool) run" where
  "Session_EndStepQuery E ss P =
     (if \<not> isInStepQuery ss then Ret (E_OK, ss, P)
      else
        run_bind (on_connection (\<lambda>c s. map_option (\<lambda>(e, s). (e, c, s)) (Conn_EndStepQuery E c s)) ss P) (\<lambda>(errCode, P).
          let (ss, P) = ReleaseConnection (ss\<lparr>isInStepQuery := False\<rparr>) P in Ret (errCode, ss, P)))"

subsection \<open>Transactions by nesting: begin, commit, roll back\<close>

definition errno_of :: "'a result \<Rightarrow> rdb_errno" where
  "errno_of r = (case r of Inl e \<Rightarrow> e | Inr _ \<Rightarrow> E_OK)"

definition BeginTransaction :: "'s env \<Rightarrow> StoreSession \<Rightarrow> 's pool \<Rightarrow> (rdb_errno \<times> StoreSession \<times> 's pool) run" where
  "BeginTransaction E ss P =
     run_bind (AcquireConnection False ss P) (\<lambda>(ss, P).
       let transaction = BaseTransaction_new (int (length (transactionStack P))) in
       run_bind (on_connection (Conn_ExecuteSql E (getTransactionStr transaction) []) ss P) (\<lambda>(r, P).
         let P = (if errno_of r \<noteq> E_OK then P else P\<lparr>transactionStack := transaction # transactionStack P\<rparr>);
             (ss, P) = ReleaseConnection ss P
         in Ret (errno_of r, ss, P)))"

definition Commit :: "'s env \<Rightarrow> StoreSession \<Rightarrow> 's pool \<Rightarrow> (rdb_errno \<times> StoreSession \<times> 's pool) run" where
  "Commit E ss P =
     (case transactionStack P of
        [] \<Rightarrow> Ret (E_OK, ss, P)
      | transaction # rest \<Rightarrow>
          if length (getCommitStr transaction) \<le> 1 then Ret (E_OK, ss, P\<lparr>transactionStack := rest\<rparr>)
          else
            run_bind (AcquireConnection False ss P) (\<lambda>(ss, P).
            run_bind (on_connection (Conn_ExecuteSql E (getCommitStr transaction) []) ss P) (\<lambda>(r, P).
              let (ss, P) = ReleaseConnection ss P in
              if errno_of r \<noteq> E_OK then Ret (errno_of r, ss, P)
              else Ret (E_OK, ss, P\<lparr>transactionStack := tl (transactionStack P)\<rparr>))))"

text \<open>The stack is copied, so that popping it and marking the parent change nothing in the pool.\<close>

definition RollBack :: "'s env \<Rightarrow> StoreSession \<Rightarrow> 's pool \<Rightarrow> (rdb_errno \<times> StoreSession \<times> 's pool) run" where
  "RollBack E ss P =
     (case transactionStack P of
        [] \<Rightarrow> Ret (E_NO_TRANSACTION_IN_SESSION, ss, P)
      | transaction # copied \<Rightarrow>
          let copied = (case copied of
                [] \<Rightarrow> []
              | parent # others \<Rightarrow>
                  if ttype transaction \<noteq> ROLLBACK_SELF then parent\<lparr>childFailure := True\<rparr> # others else copied)
          in
          run_bind (AcquireConnection False ss P) (\<lambda>(ss, P).
          run_bind (on_connection (Conn_ExecuteSql E (getRollbackStr transaction) []) ss P) (\<lambda>(r, P).
            let (ss, P) = ReleaseConnection ss P in Ret (errno_of r, ss, P))))"

definition IsInTransaction :: "'s pool \<Rightarrow> bool" where
  "IsInTransaction P = (transactionStack P \<noteq> [])"

subsection \<open>Transactions by marking: begin with observer, mark, end\<close>

text \<open>An observer is a log of the calls it received.\<close>

datatype observed = OnBegin | OnCommit | OnRollback

definition notify :: "observed \<Rightarrow> observed list option \<Rightarrow> observed list option" where
  "notify e obs = map_option (\<lambda>l. l @ [e]) obs"

definition BeginTransaction_observed :: "'s env \<Rightarrow> observed list option \<Rightarrow> StoreSession \<Rightarrow> 's pool \<Rightarrow>
    (rdb_errno \<times> observed list option \<times> StoreSession \<times> 's pool) run" where
  "BeginTransaction_observed E obs ss P =
     run_bind
       (if transactionStack P = [] then
          run_bind (AcquireConnection False ss P) (\<lambda>(ss, P).
          run_bind (session_is_writer ss P) (\<lambda>w.
            if \<not> w then
              let (ss, P) = ReleaseConnection ss P in Ret (E_BEGIN_TRANSACTION_IN_READ_CONNECTION, ss, P)
            else
              run_bind (on_connection (Conn_ExecuteSql E ''BEGIN EXCLUSIVE;'' []) ss P) (\<lambda>(r, P).
                if errno_of r \<noteq> E_OK then let (ss, P) = ReleaseConnection ss P in Ret (errno_of r, ss, P)
                else Ret (E_OK, ss, P))))
        else Ret (E_OK, ss, P))
       (\<lambda>(errCode, ss, P).
          if errCode \<noteq> E_OK then Ret (errCode, obs, ss, P)
          else Ret (E_OK, notify OnBegin obs, ss,
                    P\<lparr>transactionStack := BaseTransaction_new (int (length (transactionStack P))) # transactionStack P\<rparr>))"

definition MarkAsCommit :: "'s pool \<Rightarrow> rdb_errno \<times> 's pool" where
  "MarkAsCommit P =
     (case transactionStack P of
        [] \<Rightarrow> (E_NO_TRANSACTION_IN_SESSION, P)
      | t # ts \<Rightarrow> (E_OK, P\<lparr>transactionStack := t\<lparr>markedSuccessful := True\<rparr> # ts\<rparr>))"

definition MarkAsCommitWithObserver :: "observed list option \<Rightarrow> 's pool \<Rightarrow> rdb_errno \<times> 's pool" where
  "MarkAsCommitWithObserver obs P =
     (case transactionStack P of
        [] \<Rightarrow> (E_NO_TRANSACTION_IN_SESSION, P)
      | t # ts \<Rightarrow> (E_OK, P\<lparr>transactionStack := t\<lparr>markedSuccessful := True\<rparr> # ts\<rparr>))"

definition EndTransactionWithObserver :: "'s env \<Rightarrow> observed list option \<Rightarrow> StoreSession \<Rightarrow> 's pool \<Rightarrow>
    (rdb_errno \<times> observed list option \<times> StoreSession \<times> 's pool) run" where
  "EndTransactionWithObserver E obs ss P =
     (case transactionStack P of
        [] \<Rightarrow> Ret (E_NO_TRANSACTION_IN_SESSION, obs, ss, P)
      | t # ts \<Rightarrow>
          let isSucceed = (allBeforeSuccessful t \<and> markedSuccessful t);
              P = P\<lparr>transactionStack := ts\<rparr>;
              obs = notify (if isSucceed then OnCommit else OnRollback) obs
          in case ts of
               u # us \<Rightarrow>
                 Ret (E_OK, notify OnRollback obs, ss,
                      if \<not> isSucceed then P\<lparr>transactionStack := u\<lparr>allBeforeSuccessful := False\<rparr> # us\<rparr> else P)
             | [] \<Rightarrow>
                 run_bind (on_connection (Conn_ExecuteSql E (if isSucceed then ''COMMIT;'' else ''ROLLBACK;'') []) ss P) (\<lambda>(r, P).
                   let (ss, P) = ReleaseConnection ss P in Ret (errno_of r, obs, ss, P)))"

definition EndTransaction :: "'s env \<Rightarrow> StoreSession \<Rightarrow> 's pool \<Rightarrow> (rdb_errno \<times> StoreSession \<times> 's pool) run" where
  "EndTransaction E ss P =
     (case transactionStack P of
        [] \<Rightarrow> Ret (E_NO_TRANSACTION_IN_SESSION, ss, P)
      | t # ts \<Rightarrow>
          let isSucceed = (allBeforeSuccessful t \<and> markedSuccessful t);
              P = P\<lparr>transactionStack := ts\<rparr>
          in case ts of
               u # us \<Rightarrow>
                 Ret (E_OK, ss, if \<not> isSucceed then P\<lparr>transactionStack := u\<lparr>allBeforeSuccessful := False\<rparr> # us\<rparr> else P)
             | [] \<Rightarrow>
                 run_bind (on_connection (Conn_ExecuteSql E (if isSucceed then ''COMMIT;'' else ''ROLLBACK;'') []) ss P) (\<lambda>(r, P).
                   let (ss, P) = ReleaseConnection ss P in Ret (errno_of r, ss, P)))"

definition CheckNoTransaction :: "'s pool \<Rightarrow> rdb_errno" where
  "CheckNoTransaction P = (if transactionStack P = [] then E_STORE_SESSION_NO_CURRENT_TRANSACTION else E_OK)"

text \<open>The sleep between ending and beginning again has no effect on the state.\<close>

definition GiveConnectionTemporarily :: "'s env \<Rightarrow> StoreSession \<Rightarrow> 's pool \<Rightarrow> (rdb_errno \<times> StoreSession \<times> 's pool) run" where
  "GiveConnectionTemporarily E ss P =
     (if CheckNoTransaction P \<noteq> E_OK then Ret (CheckNoTransaction P, ss, P)
      else if markedSuccessful (hd (transactionStack P)) \<or> length (transactionStack P) > 1
      then Ret (E_STORE_SESSION_NOT_GIVE_CONNECTION_TEMPORARILY, ss, P)
      else
        let (_, P) = MarkAsCommit P in
        run_bind (EndTransaction E ss P) (\<lambda>(_, ss, P).
        run_bind (BeginTransaction E ss P) (\<lambda>(_, ss, P). Ret (E_OK, ss, P))))"

subsection \<open>Backup and attach\<close>

definition key_arg :: "byte list \<Rightarrow> ValueObject" where
  "key_arg destEncryptKey = (if length destEncryptKey \<noteq> 0 then ValueObject_blob destEncryptKey else ValueObject_string [])"

definition Session_Backup :: "'s env \<Rightarrow> string \<Rightarrow> byte list \<Rightarrow> StoreSession \<Rightarrow> 's pool \<Rightarrow>
    (rdb_errno \<times> StoreSession \<times> 's pool) run" where
  "Session_Backup E databasePath destEncryptKey ss P =
     run_bind (Session_ExecuteSql E ''ATTACH ? AS backup KEY ?'' [ValueObject_string databasePath, key_arg destEncryptKey] ss P)
       (\<lambda>(r, ss, P).
     if errno_of r \<noteq> E_OK then Ret (errno_of r, ss, P)
     else run_bind (Session_ExecuteGetLong E (''SELECT export_database('' @ [squote] @ ''backup'' @ [squote] @ '')'') [] ss P)
       (\<lambda>(r, ss, P).
     if errno_of r \<noteq> E_OK then Ret (errno_of r, ss, P)
     else run_bind (Session_ExecuteSql E ''detach backup'' [] ss P)
       (\<lambda>(r, ss, P). Ret (errno_of r, ss, P))))"

definition Session_Attach :: "'s env \<Rightarrow> string \<Rightarrow> string \<Rightarrow> byte list \<Rightarrow> StoreSession \<Rightarrow> 's pool \<Rightarrow>
    (rdb_errno \<times> StoreSession \<times> 's pool) run" where
  "Session_Attach E alias pathName destEncryptKey ss P =
     run_bind (Session_ExecuteGetString E ''PRAGMA journal_mode'' [] ss P) (\<lambda>(r, ss, P).
       case r of
         Inl e \<Rightarrow> Ret (e, ss, P)
       | Inr journalMode \<Rightarrow>
           if StrToUpper journalMode = ''WAL'' then Ret (E_NOT_SUPPORTED_ATTACH_IN_WAL_MODE, ss, P)
           else
             run_bind (Session_ExecuteSql E ''ATTACH ? AS ? KEY ?''
                 [ValueObject_string pathName, ValueObject_string alias, key_arg destEncryptKey] ss P)
               (\<lambda>(r, ss, P). Ret (errno_of r, ss, P)))"


subsection \<open>Sessions over any pool\<close>

definition session_wf :: "StoreSession \<Rightarrow> bool" where
  "session_wf ss \<longleftrightarrow> 0 \<le> connectionUseCount ss \<and> (connection ss = None \<longleftrightarrow> connectionUseCount ss = 0)"

abbreviation held :: "StoreSession \<Rightarrow> nat set" where
  "held ss \<equiv> set_option (connection ss)"

text \<open>One more use of a connection than before.\<close>

definition borrowed :: "StoreSession \<Rightarrow> StoreSession \<Rightarrow> bool" where
  "borrowed ss ss' \<longleftrightarrow>
     connectionUseCount ss' = connectionUseCount ss + 1 \<and> connection ss' \<noteq> None
   \<and> (connection ss \<noteq> None \<longrightarrow> connection ss' = connection ss) \<and> isInStepQuery ss' = isInStepQuery ss"

lemma borrowed_wf: "session_wf ss \<Longrightarrow> borrowed ss ss' \<Longrightarrow> session_wf ss'"
  by (auto simp: session_wf_def borrowed_def)

lemma session_new_wf [simp]: "session_wf StoreSession_new" "held StoreSession_new = {}"
  by (simp_all add: session_wf_def StoreSession_new_def)

lemma release_borrowed:
  assumes "session_wf ss" and "borrowed ss ss'" and "release_with rel ss' P = (ss'', P'')"
  shows "ss'' = ss"
proof -
  obtain c where c: "connection ss' = Some c" using assms(2) by (auto simp: borrowed_def)
  show ?thesis
    using assms c by (cases ss; cases ss') (auto simp: session_wf_def borrowed_def release_with_def Let_def split: if_splits)
qed

context connection_source
begin

text \<open>\<open>K\<close> is what the other sessions hold.\<close>

lemma session_acquire:
  assumes "inv P (K \<union> held ss)" and "held ss \<inter> K = {}" and "session_wf ss"
    and r: "acquire_with acquire ro ss P = Ret (ss', P')"
  shows "borrowed ss ss' \<and> inv P' (K \<union> held ss') \<and> held ss' \<inter> K = {} \<and> session_wf ss'"
proof (cases "connection ss")
  case None
  with r obtain c where a: "acquire ro P = Ret (c, P')"
    and ss': "ss' = ss\<lparr>connection := c, connectionUseCount := connectionUseCount ss + 1\<rparr>"
    by (auto simp: acquire_with_def)
  from acquire_fresh [OF assms(1) a] obtain q where "c = Some q" "q \<notin> K" "inv P' (insert q K)"
    using None by auto
  with None ss' assms(3) show ?thesis by (auto simp: borrowed_def session_wf_def)
next
  case (Some q)
  with assms show ?thesis by (auto simp: acquire_with_def borrowed_def session_wf_def)
qed

lemma session_acquire_defined: "inv P (K \<union> held ss) \<Longrightarrow> acquire_with acquire ro ss P \<noteq> Crash"
  using acquire_defined [of P "K \<union> held ss" ro] by (auto simp: acquire_with_def)

lemma session_release:
  assumes "inv P (K \<union> held ss)" and "held ss \<inter> K = {}" and "session_wf ss"
    and r: "release_with release ss P = (ss', P')"
  shows "inv P' (K \<union> held ss') \<and> held ss' \<inter> K = {} \<and> session_wf ss'"
proof (cases "connection ss")
  case None
  with assms show ?thesis by (auto simp: release_with_def)
next
  case (Some q)
  have "K \<union> held ss - {q} = K" using Some assms(2) by auto
  with release_held [OF assms(1), of q] Some have "inv (release q P) K" by simp
  with assms Some show ?thesis by (auto simp: release_with_def session_wf_def Let_def split: if_splits)
qed

end

subsection \<open>Many sessions on one pool\<close>

text \<open>Every session of every thread, and the pool; a step is one session borrowing (a session that would
  wait does not step) or giving back.\<close>

inductive sys_step for acq :: "bool \<Rightarrow> 'p \<Rightarrow> (ptr \<times> 'p) run" and rel :: "nat \<Rightarrow> 'p \<Rightarrow> 'p" where
  borrow: "acquire_with acq ro (sess i) P = Ret (ss', P') \<Longrightarrow> sys_step acq rel (sess, P) (sess(i := ss'), P')"
| give_back: "release_with rel (sess i) P = (ss', P') \<Longrightarrow> sys_step acq rel (sess, P) (sess(i := ss'), P')"

inductive_cases sys_stepE: "sys_step acq rel (sess, P) S"

definition all_held :: "(nat \<Rightarrow> StoreSession) \<Rightarrow> nat set" where
  "all_held sess = (\<Union>i. held (sess i))"

definition no_sharing :: "(nat \<Rightarrow> StoreSession) \<Rightarrow> bool" where
  "no_sharing sess \<longleftrightarrow> (\<forall>i j q. connection (sess i) = Some q \<and> connection (sess j) = Some q \<longrightarrow> i = j)"

lemma all_held_split: "all_held sess = (\<Union>j \<in> - {i}. held (sess j)) \<union> held (sess i)"
  by (auto simp: all_held_def)

lemma all_held_upd: "all_held (sess(i := ss')) = (\<Union>j \<in> - {i}. held (sess j)) \<union> held ss'"
  by (auto simp: all_held_def split: if_splits)

lemma no_sharing_upd:
  assumes "no_sharing sess" and "held ss' \<inter> (\<Union>j \<in> - {i}. held (sess j)) = {}"
  shows "no_sharing (sess(i := ss'))"
proof -
  have other: "connection ss' = Some q \<Longrightarrow> j \<noteq> i \<Longrightarrow> connection (sess j) \<noteq> Some q" for j q
    using assms(2) by auto
  show ?thesis unfolding no_sharing_def
  proof (intro allI impI)
    fix a b q
    assume h: "connection ((sess(i := ss')) a) = Some q \<and> connection ((sess(i := ss')) b) = Some q"
    show "a = b"
    proof (cases "a = i \<or> b = i")
      case True
      with h other [of q a] other [of q b] show ?thesis by (cases "a = i"; cases "b = i") auto
    next
      case False
      with h assms(1) show ?thesis by (auto simp: no_sharing_def)
    qed
  qed
qed

lemma no_sharing_split: "no_sharing sess \<Longrightarrow> held (sess i) \<inter> (\<Union>j \<in> - {i}. held (sess j)) = {}"
  by (auto simp: no_sharing_def)

context connection_source
begin

definition sys_inv :: "(nat \<Rightarrow> StoreSession) \<times> 'p \<Rightarrow> bool" where
  "sys_inv S \<longleftrightarrow> inv (snd S) (all_held (fst S)) \<and> no_sharing (fst S) \<and> (\<forall>i. session_wf (fst S i))"

lemma sys_inv_step:
  assumes "sys_inv (sess, P)" and "sys_step acquire release (sess, P) S"
  shows "sys_inv S"
proof -
  let ?K = "\<lambda>i. \<Union>j \<in> - {i}. held (sess j)"
  have inv: "inv P (?K i \<union> held (sess i))" and dis: "held (sess i) \<inter> ?K i = {}" and wf: "session_wf (sess i)" for i
    using assms(1) by (simp_all add: sys_inv_def all_held_split [of sess i, symmetric] no_sharing_split)
  have keep: "sys_inv (sess(i := ss'), P')"
    if "inv P' (?K i \<union> held ss') \<and> held ss' \<inter> ?K i = {} \<and> session_wf ss'" for i ss' P'
    using that assms(1) no_sharing_upd [of sess ss' i] by (simp add: sys_inv_def all_held_upd)
  from assms(2) show ?thesis
  proof (rule sys_stepE)
    fix ro i ss' P'
    assume S: "S = (sess(i := ss'), P')" and a: "acquire_with acquire ro (sess i) P = Ret (ss', P')"
    show ?thesis unfolding S by (rule keep) (simp add: session_acquire [OF inv dis wf a])
  next
    fix i ss' P'
    assume S: "S = (sess(i := ss'), P')" and r: "release_with release (sess i) P = (ss', P')"
    show ?thesis unfolding S by (rule keep) (simp add: session_release [OF inv dis wf r])
  qed
qed

lemma sys_inv_reachable:
  "(sys_step acquire release)\<^sup>*\<^sup>* S S' \<Longrightarrow> sys_inv S \<Longrightarrow> sys_inv S'"
proof (induction rule: rtranclp_induct)
  case base
  then show ?case .
next
  case (step S1 S2)
  then show ?case by (cases S1) (blast intro: sys_inv_step)
qed

lemma sys_inv_start: "inv P {} \<Longrightarrow> sys_inv (\<lambda>_. StoreSession_new, P)"
  by (simp add: sys_inv_def all_held_def no_sharing_def StoreSession_new_def session_wf_def)

end


subsection \<open>What the methods of a session keep\<close>

text \<open>The pool is consistent while this session has what it holds and others have \<open>K\<close>.\<close>

definition good :: "StoreSession \<Rightarrow> nat set \<Rightarrow> 's pool \<Rightarrow> bool" where
  "good ss K P \<longleftrightarrow> pool_inv P (K \<union> held ss) \<and> held ss \<inter> K = {} \<and> session_wf ss"

definition keeps_kind :: "(SqliteConnection \<Rightarrow> 's \<Rightarrow> ('a \<times> SqliteConnection \<times> 's) option) \<Rightarrow> bool" where
  "keeps_kind f \<longleftrightarrow> (\<forall>c s r c' s'. f c s = Some (r, c', s') \<longrightarrow> isWriteConnection c' = isWriteConnection c)"

lemma pool_transactionStack_only [simp]:
  "pool_inv (P\<lparr>transactionStack := ts\<rparr>) H = pool_inv P H"
  by (simp add: pool_inv_def reader_at_def writer_at_def split: option.splits)

lemma good_transactionStack [simp]: "good ss K (P\<lparr>transactionStack := ts\<rparr>) = good ss K P"
  by (simp add: good_def)

lemma Acquire_stack: "Pool_AcquireConnection ro P = Ret (c, P') \<Longrightarrow> transactionStack P' = transactionStack P"
  by (auto simp: Pool_AcquireConnection_def AcquireReadConnection_def AcquireWriteConnection_def split: if_splits)

lemma Release_stack: "transactionStack (Pool_ReleaseConnection q P) = transactionStack P"
  by (simp add: Pool_ReleaseConnection_def ReleaseWriteConnection_def ReleaseReadConnection_def)

lemma AcquireConnection_good:
  assumes "good ss K P" and "AcquireConnection ro ss P = Ret (ss', P')"
  shows "borrowed ss ss' \<and> good ss' K P' \<and> transactionStack P' = transactionStack P"
proof -
  have "transactionStack P' = transactionStack P"
    using assms(2) Acquire_stack by (auto simp: AcquireConnection_def acquire_with_def split: if_splits)
  with sqlite_pool.session_acquire [of P K ss ro ss' P'] assms show ?thesis
    by (auto simp: good_def AcquireConnection_def)
qed

lemma AcquireConnection_defined: "good ss K P \<Longrightarrow> AcquireConnection ro ss P \<noteq> Crash"
  using sqlite_pool.session_acquire_defined [of P K ss ro] by (simp add: good_def AcquireConnection_def)

lemma ReleaseConnection_good:
  assumes "good ss K P" and "ReleaseConnection ss P = (ss', P')"
  shows "good ss' K P' \<and> transactionStack P' = transactionStack P"
proof -
  have "transactionStack P' = transactionStack P"
    using assms(2) Release_stack by (auto simp: ReleaseConnection_def release_with_def Let_def split: option.splits if_splits)
  with sqlite_pool.session_release [of P K ss ss' P'] assms show ?thesis
    by (auto simp: good_def ReleaseConnection_def)
qed

lemma give_back_borrowed:
  assumes "session_wf ss" and "borrowed ss ss1" and "good ss1 K P" and "ReleaseConnection ss1 P = (ss', P')"
  shows "ss' = ss \<and> good ss K P' \<and> transactionStack P' = transactionStack P"
  using release_borrowed [OF assms(1,2) assms(4) [unfolded ReleaseConnection_def]] ReleaseConnection_good [OF assms(3,4)]
  by simp

lemma on_connection_good:
  assumes g: "good ss K P" and f: "keeps_kind f" and r: "on_connection f ss P = Ret (v, P')"
  shows "good ss K P' \<and> transactionStack P' = transactionStack P"
proof -
  obtain q c c' s where q: "connection ss = Some q" "heap P q = Some c" "f c (lib P) = Some (v, c', s)"
    and P': "P' = P\<lparr>lib := s, heap := (heap P)(q := Some c')\<rparr>"
    using r by (auto simp: on_connection_def split: option.splits)
  have "isWriteConnection c' = isWriteConnection c" using f q(3) unfolding keeps_kind_def by blast
  from pool_inv_new_conn [OF _ q(2) this, of "K \<union> held ss" s] g P' show ?thesis by (simp add: good_def)
qed

text \<open>A connection that a session holds is there.\<close>

lemma held_is_live: "good ss K P \<Longrightarrow> connection ss = Some q \<Longrightarrow> \<exists>c. heap P q = Some c"
  by (cases "writeConnection P = Some q")
    (auto simp: good_def pool_inv_def reader_at_def writer_at_def split: option.splits)

lemma on_connection_defined:
  assumes "good ss K P" and "connection ss \<noteq> None" and "\<And>c s. f c s \<noteq> None"
  shows "on_connection f ss P \<noteq> Crash"
  using assms held_is_live [OF assms(1)] by (auto simp: on_connection_def split: option.splits)

lemma session_is_writer_defined:
  "good ss K P \<Longrightarrow> connection ss \<noteq> None \<Longrightarrow> session_is_writer ss P \<noteq> Crash"
  using held_is_live by (fastforce simp: session_is_writer_def split: option.splits)

lemma Conn_Prepare_kind: "keeps_kind (\<lambda>c s. Some (Conn_Prepare E sql c s))"
  by (auto simp: keeps_kind_def Conn_Prepare_def Let_def split: prod.splits)

lemma exec_kinds:
  "keeps_kind (Conn_ExecuteSql E sql args)" "keeps_kind (Conn_ExecuteForChangedRowCount E sql args)"
  "keeps_kind (Conn_ExecuteForLastInsertedRowId E sql args)" "keeps_kind (Conn_ExecuteGetLong E sql args)"
  "keeps_kind (Conn_ExecuteGetString E sql args)"
  by (auto simp: keeps_kind_def exec_as_step_and_end dest: step_and_end_kind)

lemma borrowed_holds: "borrowed ss ss' \<Longrightarrow> connection ss' \<noteq> None"
  by (simp add: borrowed_def)

lemma BeginExecuteSql_good:
  assumes g: "good ss K P" and r: "BeginExecuteSql E sql ss P = Ret (e, ss', P')"
  shows "good ss' K P' \<and> transactionStack P' = transactionStack P \<and> (if e = E_OK then borrowed ss ss' else ss' = ss)"
proof (cases "IsSpecial (GetSqlStatementType sql)")
  case True
  with r g show ?thesis by (auto simp: BeginExecuteSql_def)
next
  case False
  have wf: "session_wf ss" using g by (simp add: good_def)
  obtain ss1 P1 where a: "AcquireConnection (IsSqlReadOnly (GetSqlStatementType sql)) ss P = Ret (ss1, P1)"
    using r False by (auto simp: BeginExecuteSql_def)
  note k1 = AcquireConnection_good [OF g a]
  obtain p P2 where o: "on_connection (\<lambda>c s. Some (Conn_Prepare E sql c s)) ss1 P1 = Ret (p, P2)"
    using r False a by (auto simp: BeginExecuteSql_def)
  have k2: "good ss1 K P2 \<and> transactionStack P2 = transactionStack P1"
    using on_connection_good [OF _ Conn_Prepare_kind o] k1 by blast
  obtain ss3 P3 where rel: "ReleaseConnection ss1 P2 = (ss3, P3)" by fastforce
  note k3 = give_back_borrowed [OF wf _ _ rel, of K]
  have e: "errno_of (Inl x) = E_OK \<longleftrightarrow> x = E_OK" for x by (simp add: errno_of_def)
  show ?thesis
  proof (cases p)
    case (Inl err)
    obtain c s q where "Conn_Prepare E sql c s = (Inl err, q)"
      using o Inl by (auto simp: on_connection_def split: option.splits prod.splits)
    then have "err \<noteq> E_OK" by (auto simp: Conn_Prepare_def Let_def split: prod.splits if_splits)
    with r False a o rel Inl k1 k2 k3 show ?thesis by (auto simp: BeginExecuteSql_def)
  next
    case (Inr ro)
    obtain w where w: "session_is_writer ss1 P2 = Ret w"
      using r False a o Inr by (auto simp: BeginExecuteSql_def)
    show ?thesis
    proof (cases "ro = w")
      case True
      obtain ss4 P4 where a4: "AcquireConnection ro ss3 P3 = Ret (ss4, P4)"
        using r False a o Inr w rel True by (auto simp: BeginExecuteSql_def)
      have ss3: "ss3 = ss" "good ss K P3" using k1 k2 k3 by auto
      note k4 = AcquireConnection_good [OF ss3(2) a4 [unfolded ss3(1)]]
      obtain w4 where w4: "session_is_writer ss4 P4 = Ret w4"
        using r False a o Inr w rel True a4 by (auto simp: BeginExecuteSql_def)
      obtain ss5 P5 where rel5: "ReleaseConnection ss4 P4 = (ss5, P5)" by fastforce
      note k5 = give_back_borrowed [OF wf _ _ rel5, of K]
      show ?thesis
        using r False a o Inr w rel True a4 w4 rel5 k1 k2 k3 k4 k5
        by (auto simp: BeginExecuteSql_def split: if_splits)
    next
      case other: False
      with r False a o Inr w k1 k2 show ?thesis by (auto simp: BeginExecuteSql_def)
    qed
  qed
qed

lemma execute_with_good:
  assumes g: "good ss K P" and f: "keeps_kind f" and r: "execute_with E sql f ss P = Ret (v, ss', P')"
  shows "ss' = ss \<and> good ss K P' \<and> transactionStack P' = transactionStack P"
proof -
  obtain e ss1 P1 where b: "BeginExecuteSql E sql ss P = Ret (e, ss1, P1)"
    using r by (auto simp: execute_with_def)
  note k1 = BeginExecuteSql_good [OF g b]
  show ?thesis
  proof (cases "e = E_OK")
    case True
    obtain x P2 where o: "on_connection f ss1 P1 = Ret (x, P2)"
      using r b True by (auto simp: execute_with_def)
    have k2: "good ss1 K P2 \<and> transactionStack P2 = transactionStack P1" using on_connection_good [OF _ f o] k1 by blast
    have "ReleaseConnection ss1 P2 = (ss', P')"
      using r b True o by (auto simp: execute_with_def split: prod.splits)
    with give_back_borrowed [of ss ss1 K P2 ss' P'] k1 k2 g True show ?thesis by (simp add: good_def)
  next
    case False
    with r b k1 show ?thesis by (auto simp: execute_with_def)
  qed
qed


lemma BeginExecuteSql_defined:
  assumes g: "good ss K P"
  shows "BeginExecuteSql E sql ss P \<noteq> Crash"
proof (cases "IsSpecial (GetSqlStatementType sql)")
  case True
  then show ?thesis by (simp add: BeginExecuteSql_def)
next
  case False
  have wf: "session_wf ss" using g by (simp add: good_def)
  show ?thesis
  proof
    assume crash: "BeginExecuteSql E sql ss P = Crash"
    obtain ss1 P1 where a: "AcquireConnection (IsSqlReadOnly (GetSqlStatementType sql)) ss P = Ret (ss1, P1)"
      using crash False AcquireConnection_defined [OF g] by (auto simp: BeginExecuteSql_def)
    note k1 = AcquireConnection_good [OF g a]
    obtain p P2 where o: "on_connection (\<lambda>c s. Some (Conn_Prepare E sql c s)) ss1 P1 = Ret (p, P2)"
      using crash False a on_connection_defined [of ss1 K P1 "\<lambda>c s. Some (Conn_Prepare E sql c s)"] k1 borrowed_holds
      by (auto simp: BeginExecuteSql_def)
    have k2: "good ss1 K P2" using on_connection_good [OF _ Conn_Prepare_kind o] k1 by blast
    obtain ro where ro: "p = Inr ro" using crash False a o by (cases p) (auto simp: BeginExecuteSql_def split: prod.splits)
    obtain w where w: "session_is_writer ss1 P2 = Ret w"
      using crash False a o ro session_is_writer_defined [OF k2] borrowed_holds k1 by (auto simp: BeginExecuteSql_def)
    obtain ss3 P3 where rel: "ReleaseConnection ss1 P2 = (ss3, P3)" by fastforce
    have ss3: "ss3 = ss" "good ss K P3" using give_back_borrowed [OF wf _ k2 rel] k1 by auto
    have eq: "ro = w" using crash False a o ro w by (auto simp: BeginExecuteSql_def split: if_splits)
    obtain ss4 P4 where a4: "AcquireConnection ro ss P3 = Ret (ss4, P4)"
      using crash False a o ro w rel eq ss3 AcquireConnection_defined [OF ss3(2)] by (auto simp: BeginExecuteSql_def)
    note k4 = AcquireConnection_good [OF ss3(2) a4]
    obtain w4 where "session_is_writer ss4 P4 = Ret w4"
      using crash False a o ro w rel eq ss3 a4 session_is_writer_defined [of ss4 K P4] borrowed_holds k4
      by (auto simp: BeginExecuteSql_def)
    with crash False a o ro w rel eq ss3 a4 show False
      by (auto simp: BeginExecuteSql_def split: if_splits prod.splits)
  qed
qed

lemma execute_with_defined:
  assumes g: "good ss K P" and f: "\<And>c s. f c s \<noteq> None"
  shows "execute_with E sql f ss P \<noteq> Crash"
proof
  assume crash: "execute_with E sql f ss P = Crash"
  obtain e ss1 P1 where b: "BeginExecuteSql E sql ss P = Ret (e, ss1, P1)"
    using crash BeginExecuteSql_defined [OF g] by (auto simp: execute_with_def split: prod.splits if_splits)
  note k1 = BeginExecuteSql_good [OF g b]
  have "e = E_OK" using crash b by (auto simp: execute_with_def split: if_splits)
  with crash b on_connection_defined [OF _ _ f, of ss1 K P1] k1 borrowed_holds show False
    by (auto simp: execute_with_def split: prod.splits)
qed

lemma ExecuteGetString_good:
  assumes g: "good ss K P" and r: "Session_ExecuteGetString E sql args ss P = Ret (v, ss', P')"
  shows "ss' = ss \<and> good ss K P' \<and> transactionStack P' = transactionStack P"
proof -
  have wf: "session_wf ss" using g by (simp add: good_def)
  obtain e ss1 P1 where b: "BeginExecuteSql E sql ss P = Ret (e, ss1, P1)"
    using r by (auto simp: Session_ExecuteGetString_def)
  note k1 = BeginExecuteSql_good [OF g b]
  show ?thesis
  proof (cases "e = E_OK")
    case True
    obtain ss2 P2 where re: "(if Db_GetSqlStatementType sql = STATEMENT_PRAGMA then
        let (ss, P) = ReleaseConnection ss1 P1 in AcquireConnection False ss P else Ret (ss1, P1)) = Ret (ss2, P2)"
      using r b True by (auto simp: Session_ExecuteGetString_def)
    have k2: "borrowed ss ss2 \<and> good ss2 K P2 \<and> transactionStack P2 = transactionStack P"
    proof (cases "Db_GetSqlStatementType sql = STATEMENT_PRAGMA")
      case pragma: True
      obtain ss3 P3 where rel: "ReleaseConnection ss1 P1 = (ss3, P3)" by fastforce
      have ss3: "ss3 = ss" "good ss K P3" "transactionStack P3 = transactionStack P1"
        using give_back_borrowed [OF wf _ _ rel, of K] k1 True by auto
      show ?thesis using AcquireConnection_good [OF ss3(2), of False ss2 P2] re pragma rel ss3 k1 by auto
    next
      case False
      with re k1 True show ?thesis by auto
    qed
    obtain x P4 where o: "on_connection (Conn_ExecuteGetString E sql args) ss2 P2 = Ret (x, P4)"
      using r b True re by (auto simp: Session_ExecuteGetString_def)
    have k4: "good ss2 K P4 \<and> transactionStack P4 = transactionStack P2"
      using on_connection_good [OF _ exec_kinds(5) o] k2 by blast
    have "ReleaseConnection ss2 P4 = (ss', P')"
      using r b True re o by (auto simp: Session_ExecuteGetString_def split: prod.splits)
    with give_back_borrowed [OF wf _ _ this, of K] k2 k4 show ?thesis by simp
  next
    case False
    with r b k1 show ?thesis by (auto simp: Session_ExecuteGetString_def)
  qed
qed

subsection \<open>Properties: connections\<close>

text \<open>
  C1 (safety): on a pool that was created successfully, however the sessions of all threads interleave
  their borrowing and giving back, no two sessions ever hold the same connection, every held connection
  is live, and the pool's counters stay consistent with what is out.
\<close>

theorem sessions_never_share:
  assumes "Pool_Create E c s = Ret (E_OK, P)"
    and "(sys_step Pool_AcquireConnection Pool_ReleaseConnection)\<^sup>*\<^sup>* (\<lambda>_. StoreSession_new, P) (sess, P')"
  shows "pool_inv P' (all_held sess)
    \<and> (\<forall>i j q. connection (sess i) = Some q \<and> connection (sess j) = Some q \<longrightarrow> i = j)
    \<and> (\<forall>i. 0 \<le> connectionUseCount (sess i) \<and> (connection (sess i) = None \<longleftrightarrow> connectionUseCount (sess i) = 0))"
proof -
  have "Init E (SqliteConnectionPool_new c s) = Ret (E_OK, P)"
    using assms(1) by (auto simp: Pool_Create_def split: if_splits)
  from Init_inv [OF this] have "pool_inv P {}" by (simp add: SqliteConnectionPool_new_def)
  from sqlite_pool.sys_inv_reachable [OF assms(2) sqlite_pool.sys_inv_start [OF this]] show ?thesis
    unfolding sqlite_pool.sys_inv_def by (simp add: no_sharing_def session_wf_def)
qed

theorem sessions_never_share_witness:
  "\<exists>sess P'. (sys_step Pool_AcquireConnection Pool_ReleaseConnection)\<^sup>*\<^sup>* (\<lambda>_. StoreSession_new, demo_pool) (sess, P')
     \<and> connection (sess 0) = Some 3 \<and> connection (sess 1) = Some 2 \<and> pool_inv P' (all_held sess)"
proof -
  let ?a = "\<lparr>connection = Some 3, connectionUseCount = 1, isInStepQuery = False\<rparr>"
  let ?b = "\<lparr>connection = Some 2, connectionUseCount = 1, isInStepQuery = False\<rparr>"
  let ?s1 = "(\<lambda>_. StoreSession_new)(0 := ?a)" and ?s2 = "(\<lambda>_. StoreSession_new)(0 := ?a, Suc 0 := ?b)"
  let ?P1 = "demo_pool\<lparr>readConnections := [1, 2], idleReadConnectionCount := 2\<rparr>"
  let ?P2 = "demo_pool\<lparr>readConnections := [1], idleReadConnectionCount := 1\<rparr>"
  have "sys_step Pool_AcquireConnection Pool_ReleaseConnection (\<lambda>_. StoreSession_new, demo_pool) (?s1, ?P1)"
    by (rule borrow [where ro = True]) (simp add: acquire_with_def StoreSession_new_def Pool_AcquireConnection_def
        AcquireReadConnection_def demo_pool_def)
  moreover have "sys_step Pool_AcquireConnection Pool_ReleaseConnection (?s1, ?P1) (?s2, ?P2)"
    by (rule borrow [where ro = True]) (simp add: acquire_with_def StoreSession_new_def Pool_AcquireConnection_def
        AcquireReadConnection_def demo_pool_def)
  ultimately have r: "(sys_step Pool_AcquireConnection Pool_ReleaseConnection)\<^sup>*\<^sup>* (\<lambda>_. StoreSession_new, demo_pool) (?s2, ?P2)"
    by (rule rtranclp.rtrancl_into_rtrancl [OF r_into_rtranclp])
  from sessions_never_share [OF demo_pool_created r] r show ?thesis
    by (intro exI [of _ ?s2] exI [of _ ?P2]) simp
qed


text \<open>The executing methods of a session as one call.\<close>

definition drop_value :: "('a result \<times> StoreSession \<times> 's pool) run \<Rightarrow> (rdb_errno \<times> StoreSession \<times> 's pool) run" where
  "drop_value r = run_bind r (\<lambda>(v, ss, P). Ret (errno_of v, ss, P))"

fun session_call_on :: "'s env \<Rightarrow> exec_call \<Rightarrow> StoreSession \<Rightarrow> 's pool \<Rightarrow> (rdb_errno \<times> StoreSession \<times> 's pool) run" where
  "session_call_on E (xExecuteSql sql args) ss P = drop_value (Session_ExecuteSql E sql args ss P)"
| "session_call_on E (xChangedRowCount sql args) ss P = drop_value (Session_ExecuteForChangedRowCount E sql args ss P)"
| "session_call_on E (xLastInsertedRowId sql args) ss P = drop_value (Session_ExecuteForLastInsertedRowId E sql args ss P)"
| "session_call_on E (xGetLong sql args) ss P = drop_value (Session_ExecuteGetLong E sql args ss P)"
| "session_call_on E (xGetString sql args) ss P = drop_value (Session_ExecuteGetString E sql args ss P)"

lemmas session_execs = Session_ExecuteSql_def Session_ExecuteForChangedRowCount_def
  Session_ExecuteForLastInsertedRowId_def Session_ExecuteGetLong_def

lemma session_call_good:
  assumes "good ss K P" and "session_call_on E x ss P = Ret (e, ss', P')"
  shows "ss' = ss \<and> good ss K P' \<and> transactionStack P' = transactionStack P"
  using assms(2)
  by (cases x) (auto simp: drop_value_def session_execs
      dest!: ExecuteGetString_good [OF assms(1)] execute_with_good [OF assms(1) exec_kinds(1)]
        execute_with_good [OF assms(1) exec_kinds(2)] execute_with_good [OF assms(1) exec_kinds(3)]
        execute_with_good [OF assms(1) exec_kinds(4)])

lemma exec_total:
  assumes "\<forall>v \<in> set args. value_wf v"
  shows "Conn_ExecuteSql E sql args c s \<noteq> None" "Conn_ExecuteForChangedRowCount E sql args c s \<noteq> None"
    "Conn_ExecuteForLastInsertedRowId E sql args c s \<noteq> None" "Conn_ExecuteGetLong E sql args c s \<noteq> None"
    "Conn_ExecuteGetString E sql args c s \<noteq> None"
  using step_and_end_total [OF assms] unfolding exec_as_step_and_end by auto

lemma ExecuteGetString_defined:
  assumes g: "good ss K P" and args: "\<forall>v \<in> set args. value_wf v"
  shows "Session_ExecuteGetString E sql args ss P \<noteq> Crash"
proof
  assume crash: "Session_ExecuteGetString E sql args ss P = Crash"
  have wf: "session_wf ss" using g by (simp add: good_def)
  obtain e ss1 P1 where b: "BeginExecuteSql E sql ss P = Ret (e, ss1, P1)"
    using crash BeginExecuteSql_defined [OF g] by (auto simp: Session_ExecuteGetString_def split: prod.splits if_splits)
  note k1 = BeginExecuteSql_good [OF g b]
  have e: "e = E_OK" using crash b by (auto simp: Session_ExecuteGetString_def split: if_splits)
  obtain ss3 P3 where rel: "ReleaseConnection ss1 P1 = (ss3, P3)" by fastforce
  have ss3: "ss3 = ss" "good ss K P3" using give_back_borrowed [OF wf _ _ rel, of K] k1 e by auto
  obtain ss2 P2 where re: "(if Db_GetSqlStatementType sql = STATEMENT_PRAGMA then
      let (ss, P) = ReleaseConnection ss1 P1 in AcquireConnection False ss P else Ret (ss1, P1)) = Ret (ss2, P2)"
    using crash b e rel ss3 AcquireConnection_defined [OF ss3(2), of False]
    by (auto simp: Session_ExecuteGetString_def split: if_splits prod.splits)
  have "good ss2 K P2 \<and> connection ss2 \<noteq> None"
    using re rel ss3 AcquireConnection_good [OF ss3(2), of False ss2 P2] k1 e borrowed_holds
    by (auto split: if_splits)
  with on_connection_defined [OF _ _ exec_total(5) [OF args], of ss2 K P2] crash b e re show False
    by (auto simp: Session_ExecuteGetString_def split: prod.splits)
qed

lemma session_call_defined:
  assumes "good ss K P" and "\<forall>v \<in> set (exec_args x). value_wf v"
  shows "session_call_on E x ss P \<noteq> Crash"
  using assms
  by (cases x) (auto simp: drop_value_def session_execs exec_total execute_with_defined ExecuteGetString_defined simp del: not_None_eq)

text \<open>
  C7 (invariant): a statement run through a session either waits for a connection or returns, on every
  path including the failing ones, with the session exactly as it was before, the pool consistent with
  what the other sessions hold, and the transaction stack untouched; it never touches a connection that
  is gone.
\<close>

theorem execute_restores_session:
  assumes "good ss K P" and "\<forall>v \<in> set (exec_args x). value_wf v"
  shows "session_call_on E x ss P = Blocks
    \<or> (\<exists>e P'. session_call_on E x ss P = Ret (e, ss, P') \<and> good ss K P' \<and> transactionStack P' = transactionStack P)"
proof (cases "session_call_on E x ss P")
  case (Ret r)
  obtain e ss' P' where r: "r = (e, ss', P')" by (metis prod.exhaust)
  from session_call_good [OF assms(1) Ret [unfolded r]] Ret r show ?thesis by auto
next
  case Blocks
  then show ?thesis by simp
next
  case Crash
  with session_call_defined [OF assms] show ?thesis by blast
qed

lemma demo_good: "good StoreSession_new {} demo_pool"
  using demo_pool_inv by (simp add: good_def)

theorem execute_restores_session_witness:
  "\<exists>e P'. session_call_on demo_env (xGetLong ''SELECT 1'' []) StoreSession_new demo_pool = Ret (e, StoreSession_new, P')
     \<and> good StoreSession_new {} P' \<and> transactionStack P' = []"
proof -
  have t: "GetSqlStatementType ''SELECT 1'' = STATEMENT_SELECT" by code_simp
  have "session_call_on demo_env (xGetLong ''SELECT 1'' []) StoreSession_new demo_pool \<noteq> Blocks"
    using t by (simp add: drop_value_def session_execs execute_with_def BeginExecuteSql_def AcquireConnection_def acquire_with_def
        StoreSession_new_def Pool_AcquireConnection_def AcquireReadConnection_def demo_pool_def on_connection_def demo_heap_def
        IsSpecial_def IsSqlReadOnly_def Conn_Prepare_def Prepare_def demo_conn_def SqliteStatement_new_def Finalize_def
        session_is_writer_def IsWriteConnection_def ReleaseConnection_def release_with_def Conn_ExecuteGetLong_def
        PrepareAndBind_def BindArguments_def Step_def GetColumnLong_def finish_with_def Conn_Reset_def
        ResetStatementAndClearBindings_def demo_eval)
  with execute_restores_session [OF demo_good, of "xGetLong ''SELECT 1'' []" demo_env] show ?thesis
    by (simp add: demo_pool_def)
qed


lemma step_kinds:
  "keeps_kind (Conn_BeginStepQuery E sql args)"
  "keeps_kind (\<lambda>c s. map_option (\<lambda>(e, s). (e, c, s)) (Conn_EndStepQuery E c s))"
  by (auto simp: keeps_kind_def Conn_BeginStepQuery_def Let_def split: option.splits prod.splits if_splits)

lemma BeginStepQuery_good:
  assumes g: "good ss K P" and r: "Session_BeginStepQuery E sql args ss P = Ret (v, ss1, P1)"
  shows "case v of
      Inl e \<Rightarrow> ss1 = ss \<and> good ss K P1
    | Inr _ \<Rightarrow> \<not> isInStepQuery ss \<and> isInStepQuery ss1 \<and> borrowed ss (ss1\<lparr>isInStepQuery := False\<rparr>) \<and> good ss1 K P1"
proof (cases "isInStepQuery ss \<or> GetSqlStatementType sql \<noteq> STATEMENT_SELECT")
  case True
  with r g show ?thesis by (auto simp: Session_BeginStepQuery_def split: if_splits)
next
  case False
  have wf: "session_wf ss" using g by (simp add: good_def)
  obtain ss2 P2 where a: "AcquireConnection True ss P = Ret (ss2, P2)" using r False by (auto simp: Session_BeginStepQuery_def)
  note k1 = AcquireConnection_good [OF g a]
  obtain x P3 where o: "on_connection (Conn_BeginStepQuery E sql args) ss2 P2 = Ret (x, P3)"
    using r False a by (auto simp: Session_BeginStepQuery_def)
  have k3: "good ss2 K P3" using on_connection_good [OF _ step_kinds(1) o] k1 by blast
  show ?thesis
  proof (cases x)
    case (Inl e)
    with r False a o have "ReleaseConnection ss2 P3 = (ss1, P1)" "v = Inl e"
      by (auto simp: Session_BeginStepQuery_def split: prod.splits)
    with give_back_borrowed [OF wf _ k3] k1 show ?thesis by auto
  next
    case (Inr u)
    with r False a o k1 k3 show ?thesis
      by (auto simp: Session_BeginStepQuery_def borrowed_def good_def session_wf_def)
  qed
qed

text \<open>
  A step query that fails to begin leaves the session as it was; one that begins holds a
  connection until it ends, refuses a second one meanwhile, and ending it, whatever code that returns,
  leaves the session exactly as it was before.
\<close>

theorem step_query_balanced:
  assumes "good ss K P" and "Session_BeginStepQuery E sql args ss P = Ret (v, ss1, P1)"
  shows "case v of
      Inl e \<Rightarrow> ss1 = ss \<and> good ss K P1
    | Inr _ \<Rightarrow> IsHoldingConnection ss1
        \<and> Session_BeginStepQuery E sql' args' ss1 P1 = Ret (Inl E_MORE_STEP_QUERY_IN_ONE_SESSION, ss1, P1)
        \<and> (\<forall>e ss2 P2. Session_EndStepQuery E ss1 P1 = Ret (e, ss2, P2) \<longrightarrow> ss2 = ss \<and> good ss K P2)"
proof (cases v)
  case (Inl e)
  with BeginStepQuery_good [OF assms] show ?thesis by simp
next
  case (Inr u)
  note k = BeginStepQuery_good [OF assms]
  let ?ss1 = "ss1\<lparr>isInStepQuery := False\<rparr>"
  have "ss2 = ss \<and> good ss K P2" if end_: "Session_EndStepQuery E ss1 P1 = Ret (e, ss2, P2)" for e ss2 P2
  proof -
    obtain P3 where o: "on_connection (\<lambda>c s. map_option (\<lambda>(e, s). (e, c, s)) (Conn_EndStepQuery E c s)) ss1 P1 = Ret (e, P3)"
      and rel: "ReleaseConnection ?ss1 P3 = (ss2, P2)"
      using end_ k Inr by (auto simp: Session_EndStepQuery_def split: prod.splits)
    have "good ss1 K P3" using on_connection_good [OF _ step_kinds(2) o] k Inr by simp
    then have "good ?ss1 K P3" by (simp add: good_def session_wf_def)
    moreover have "session_wf ss" using assms(1) by (simp add: good_def)
    ultimately show ?thesis using give_back_borrowed [OF _ _ _ rel, of ss K] k Inr by simp
  qed
  moreover have "IsHoldingConnection ss1" using k Inr by (simp add: IsHoldingConnection_def borrowed_def)
  moreover have "Session_BeginStepQuery E sql' args' ss1 P1 = Ret (Inl E_MORE_STEP_QUERY_IN_ONE_SESSION, ss1, P1)"
    using k Inr by (simp add: Session_BeginStepQuery_def)
  ultimately show ?thesis using Inr by auto
qed

theorem step_query_balanced_witness:
  "\<exists>ss1 P1. Session_BeginStepQuery demo_env ''SELECT 1'' [] StoreSession_new demo_pool = Ret (Inr (), ss1, P1)
     \<and> IsHoldingConnection ss1
     \<and> Session_BeginStepQuery demo_env ''SELECT 2'' [] ss1 P1 = Ret (Inl E_MORE_STEP_QUERY_IN_ONE_SESSION, ss1, P1)"
proof -
  have t: "GetSqlStatementType ''SELECT 1'' = STATEMENT_SELECT" by code_simp
  have "\<exists>ss1 P1. Session_BeginStepQuery demo_env ''SELECT 1'' [] StoreSession_new demo_pool = Ret (Inr (), ss1, P1)"
    using t by (simp add: Session_BeginStepQuery_def AcquireConnection_def acquire_with_def
        StoreSession_new_def Pool_AcquireConnection_def AcquireReadConnection_def demo_pool_def on_connection_def demo_heap_def
        Conn_BeginStepQuery_def Prepare_def demo_conn_def SqliteStatement_new_def Finalize_def BindArguments_def demo_eval)
  then obtain ss1 P1 where b: "Session_BeginStepQuery demo_env ''SELECT 1'' [] StoreSession_new demo_pool = Ret (Inr (), ss1, P1)"
    by blast
  from step_query_balanced [OF demo_good b, of "''SELECT 2''" "[]"] b show ?thesis by auto
qed

subsection \<open>Transactions to evaluate\<close>

lemma demo_exec:
  assumes "dbHandle c = Some h" and "isWriteConnection c" and "\<not> demo_reads sql" and "st_sql (statement c) \<noteq> sql"
  shows "\<exists>c' s'. Conn_ExecuteSql demo_env sql [] c s = Some (Inr (), c', s')
    \<and> dbHandle c' = Some h \<and> isWriteConnection c' \<and> st_sql (statement c') = sql"
  using assms
  by (cases "stmtHandle (statement c)")
    (auto simp: Conn_ExecuteSql_def PrepareAndBind_def Prepare_def Finalize_def BindArguments_def Step_def finish_with_def
      Conn_Reset_def ResetStatementAndClearBindings_def demo_env_def demo_api_def demo_prepare_def demo_step_def
      demo_readonly_def Let_def)

definition demo_ready :: "demo pool \<Rightarrow> string \<Rightarrow> bool" where
  "demo_ready P last_sql \<longleftrightarrow> \<not> writeConnectionUsed P \<and> writeConnection P = Some 0
     \<and> (\<exists>c. heap P 0 = Some c \<and> dbHandle c = Some 0 \<and> isWriteConnection c \<and> st_sql (statement c) = last_sql)"

lemma demo_pool_ready: "demo_ready demo_pool []"
  by (simp add: demo_ready_def demo_pool_def demo_heap_def demo_conn_def SqliteStatement_new_def)

abbreviation demo_holding :: StoreSession where
  "demo_holding \<equiv> \<lparr>connection = Some 0, connectionUseCount = 1, isInStepQuery = False\<rparr>"

lemma demo_acquire:
  "demo_ready P q \<Longrightarrow> AcquireConnection False StoreSession_new P = Ret (demo_holding, P\<lparr>writeConnectionUsed := True\<rparr>)"
  by (simp add: demo_ready_def AcquireConnection_def acquire_with_def StoreSession_new_def Pool_AcquireConnection_def
      AcquireWriteConnection_def)

lemma demo_release:
  "writeConnection P = Some 0 \<Longrightarrow> ReleaseConnection demo_holding P = (StoreSession_new, P\<lparr>writeConnectionUsed := False\<rparr>)"
  by (simp add: ReleaseConnection_def release_with_def StoreSession_new_def Pool_ReleaseConnection_def ReleaseWriteConnection_def)

lemma demo_on_writer:
  assumes "demo_ready P q" and "sql \<noteq> q" and "\<not> demo_reads sql"
  shows "\<exists>P'. on_connection (Conn_ExecuteSql demo_env sql []) demo_holding (P\<lparr>writeConnectionUsed := True\<rparr>) = Ret (Inr (), P')
    \<and> demo_ready (P'\<lparr>writeConnectionUsed := False\<rparr>) sql \<and> writeConnection P' = Some 0 \<and> transactionStack P' = transactionStack P"
proof -
  obtain c where c: "heap P 0 = Some c" "dbHandle c = Some 0" "isWriteConnection c" "st_sql (statement c) = q"
    "writeConnection P = Some 0"
    using assms(1) by (auto simp: demo_ready_def)
  from demo_exec [OF c(2,3) assms(3), of "lib P"] c(4) assms(2) obtain c' s' where
    e: "Conn_ExecuteSql demo_env sql [] c (lib P) = Some (Inr (), c', s')" "dbHandle c' = Some 0" "isWriteConnection c'"
      "st_sql (statement c') = sql"
    by auto
  with c show ?thesis by (simp add: on_connection_def demo_ready_def)
qed

lemma demo_begin:
  assumes "demo_ready P q" and "sql = getTransactionStr (BaseTransaction_new (int (length (transactionStack P))))"
    and "sql \<noteq> q" and "\<not> demo_reads sql"
  shows "\<exists>P'. BeginTransaction demo_env StoreSession_new P = Ret (E_OK, StoreSession_new, P') \<and> demo_ready P' sql
    \<and> transactionStack P' = BaseTransaction_new (int (length (transactionStack P))) # transactionStack P"
proof -
  from demo_on_writer [OF assms(1,3,4)] obtain P' where
    "on_connection (Conn_ExecuteSql demo_env sql []) demo_holding (P\<lparr>writeConnectionUsed := True\<rparr>) = Ret (Inr (), P')"
    "demo_ready (P'\<lparr>writeConnectionUsed := False\<rparr>) sql" "writeConnection P' = Some 0" "transactionStack P' = transactionStack P"
    by blast
  with assms(2) show ?thesis
    by (simp add: BeginTransaction_def demo_acquire [OF assms(1)] demo_release errno_of_def demo_ready_def)
qed

lemma demo_strings:
  "getTransactionStr (BaseTransaction_new 0) = ''BEGIN EXCLUSIVE;''"
  "getTransactionStr (BaseTransaction_new 1) = ''SAVEPOINT TRANS_STR1;''"
  "getRollbackStr (BaseTransaction_new 1) = ''ROLLBACK TO TRANS_STR1;''"
  "\<not> demo_reads ''BEGIN EXCLUSIVE;''" "\<not> demo_reads ''SAVEPOINT TRANS_STR1;''" "\<not> demo_reads ''ROLLBACK TO TRANS_STR1;''"
  by code_simp+

subsection \<open>Properties: transactions\<close>

datatype trans_call = tBegin | tCommit | tRollBack

fun trans_call_on :: "'s env \<Rightarrow> trans_call \<Rightarrow> StoreSession \<Rightarrow> 's pool \<Rightarrow> (rdb_errno \<times> StoreSession \<times> 's pool) run" where
  "trans_call_on E tBegin ss P = BeginTransaction E ss P"
| "trans_call_on E tCommit ss P = Commit E ss P"
| "trans_call_on E tRollBack ss P = RollBack E ss P"

text \<open>The identifiers of the stack are the depths, from 0 at the bottom.\<close>

definition stack_ids :: "BaseTransaction list \<Rightarrow> bool" where
  "stack_ids ts \<longleftrightarrow> map tid (rev ts) = map int [0..<length ts]"

lemma stack_ids_push: "stack_ids ts \<Longrightarrow> stack_ids (BaseTransaction_new (int (length ts)) # ts)"
  by (simp add: stack_ids_def BaseTransaction_new_def)

lemma stack_ids_pop: "stack_ids (t # ts) \<Longrightarrow> stack_ids ts \<and> tid t = int (length ts)"
  by (simp add: stack_ids_def)

lemma run_on_writer:
  assumes g: "good ss K P" and a: "AcquireConnection False ss P = Ret (ss1, P1)"
    and o: "on_connection (Conn_ExecuteSql E sql args) ss1 P1 = Ret (r, P2)"
    and rel: "ReleaseConnection ss1 (P2\<lparr>transactionStack := ts\<rparr>) = (ss', P')"
  shows "ss' = ss \<and> good ss K P' \<and> transactionStack P' = ts \<and> transactionStack P1 = transactionStack P
    \<and> transactionStack P2 = transactionStack P"
proof -
  have wf: "session_wf ss" using g by (simp add: good_def)
  note k1 = AcquireConnection_good [OF g a]
  have k2: "good ss1 K P2 \<and> transactionStack P2 = transactionStack P1"
    using on_connection_good [OF _ exec_kinds(1) o] k1 by blast
  then have "good ss1 K (P2\<lparr>transactionStack := ts\<rparr>)" by simp
  from give_back_borrowed [OF wf _ this rel] k1 k2 show ?thesis by simp
qed

lemma run_on_writer_same:
  assumes "good ss K P" and "AcquireConnection False ss P = Ret (ss1, P1)"
    and "on_connection (Conn_ExecuteSql E sql args) ss1 P1 = Ret (r, P2)"
    and "ReleaseConnection ss1 P2 = (ss', P')"
  shows "ss' = ss \<and> good ss K P' \<and> transactionStack P' = transactionStack P"
  using run_on_writer [OF assms(1-3), of "transactionStack P2" ss' P'] assms(4) by simp

lemma BeginTransaction_effect:
  assumes g: "good ss K P" and r: "BeginTransaction E ss P = Ret (e, ss', P')"
  shows "ss' = ss \<and> good ss K P' \<and> transactionStack P' =
    (if e = E_OK then BaseTransaction_new (int (length (transactionStack P))) # transactionStack P else transactionStack P)"
proof -
  obtain ss1 P1 where a: "AcquireConnection False ss P = Ret (ss1, P1)" using r by (auto simp: BeginTransaction_def)
  let ?t = "BaseTransaction_new (int (length (transactionStack P1)))"
  obtain v P2 where o: "on_connection (Conn_ExecuteSql E (getTransactionStr ?t) []) ss1 P1 = Ret (v, P2)"
    using r a by (auto simp: BeginTransaction_def Let_def)
  show ?thesis
  proof (cases "errno_of v = E_OK")
    case True
    with r a o have rel: "ReleaseConnection ss1 (P2\<lparr>transactionStack := ?t # transactionStack P2\<rparr>) = (ss', P')" and "e = E_OK"
      by (auto simp: BeginTransaction_def Let_def split: prod.splits)
    with run_on_writer [OF g a o rel] show ?thesis by simp
  next
    case False
    with r a o have rel: "ReleaseConnection ss1 P2 = (ss', P')" and "e \<noteq> E_OK"
      by (auto simp: BeginTransaction_def Let_def split: prod.splits)
    with run_on_writer_same [OF g a o rel] show ?thesis by simp
  qed
qed

lemma Commit_effect:
  assumes g: "good ss K P" and r: "Commit E ss P = Ret (e, ss', P')"
  shows "ss' = ss \<and> good ss K P' \<and> transactionStack P' = (if e = E_OK then tl (transactionStack P) else transactionStack P)"
proof (cases "transactionStack P")
  case Nil
  with g r show ?thesis by (auto simp: Commit_def)
next
  case (Cons t rest)
  show ?thesis
  proof (cases "length (getCommitStr t) \<le> 1")
    case True
    with g r Cons show ?thesis by (auto simp: Commit_def)
  next
    case False
    obtain ss1 P1 where a: "AcquireConnection False ss P = Ret (ss1, P1)" using r Cons False by (auto simp: Commit_def)
    obtain v P2 where o: "on_connection (Conn_ExecuteSql E (getCommitStr t) []) ss1 P1 = Ret (v, P2)"
      using r Cons False a by (auto simp: Commit_def)
    obtain ss3 P3 where rel: "ReleaseConnection ss1 P2 = (ss3, P3)" by fastforce
    note k = run_on_writer_same [OF g a o rel]
    show ?thesis
      using r Cons False a o rel k by (auto simp: Commit_def split: if_splits)
  qed
qed

lemma RollBack_effect:
  assumes g: "good ss K P" and r: "RollBack E ss P = Ret (e, ss', P')"
  shows "ss' = ss \<and> good ss K P' \<and> transactionStack P' = transactionStack P"
proof (cases "transactionStack P")
  case Nil
  with g r show ?thesis by (auto simp: RollBack_def)
next
  case (Cons t rest)
  obtain ss1 P1 where a: "AcquireConnection False ss P = Ret (ss1, P1)" using r Cons by (auto simp: RollBack_def Let_def)
  obtain v P2 where o: "on_connection (Conn_ExecuteSql E (getRollbackStr t) []) ss1 P1 = Ret (v, P2)"
    using r Cons a by (auto simp: RollBack_def Let_def)
  have rel: "ReleaseConnection ss1 P2 = (ss', P')"
    using r Cons a o by (auto simp: RollBack_def Let_def split: prod.splits)
  from run_on_writer_same [OF g a o rel] show ?thesis by simp
qed

fun trans_calls :: "'s env \<Rightarrow> trans_call list \<Rightarrow> StoreSession \<Rightarrow> 's pool \<Rightarrow> (StoreSession \<times> 's pool) run" where
  "trans_calls E [] ss P = Ret (ss, P)"
| "trans_calls E (c # cs) ss P = run_bind (trans_call_on E c ss P) (\<lambda>(e, ss, P). trans_calls E cs ss P)"

lemma trans_call_ids:
  assumes "good ss K P" and "stack_ids (transactionStack P)" and "trans_call_on E c ss P = Ret (e, ss', P')"
  shows "ss' = ss \<and> good ss K P' \<and> stack_ids (transactionStack P')"
proof (cases c)
  case tBegin
  with BeginTransaction_effect [OF assms(1)] assms(2,3) show ?thesis by (auto intro: stack_ids_push split: if_splits)
next
  case tCommit
  with Commit_effect [OF assms(1)] assms(2,3) show ?thesis
    by (cases "transactionStack P") (auto dest: stack_ids_pop split: if_splits)
next
  case tRollBack
  with RollBack_effect [OF assms(1)] assms(2,3) show ?thesis by auto
qed

lemma trans_calls_ids:
  "good ss K P \<Longrightarrow> stack_ids (transactionStack P) \<Longrightarrow> trans_calls E cs ss P = Ret (ss', P') \<Longrightarrow>
     ss' = ss \<and> good ss K P' \<and> stack_ids (transactionStack P')"
proof (induction cs arbitrary: ss P)
  case Nil
  then show ?case by auto
next
  case (Cons c cs)
  then obtain e ss1 P1 where c: "trans_call_on E c ss P = Ret (e, ss1, P1)" "trans_calls E cs ss1 P1 = Ret (ss', P')"
    by auto
  from trans_call_ids [OF Cons.prems(1,2) c(1)] Cons.IH [of ss1 P1] c(2) show ?case by auto
qed

lemma to_string_nat_inj: "to_string (int m) = to_string (int n) \<longleftrightarrow> m = n"
  by (simp add: to_string_def nat_str_inj)

lemma getTransactionStr_inj:
  "tid t = int m \<Longrightarrow> tid u = int n \<Longrightarrow> getTransactionStr t = getTransactionStr u \<longleftrightarrow> m = n"
  by (auto simp: getTransactionStr_def to_string_nat_inj)

lemma stack_names_distinct: "stack_ids ts \<Longrightarrow> distinct (map getTransactionStr ts)"
proof (induction ts)
  case Nil
  then show ?case by simp
next
  case (Cons t ts)
  have t: "stack_ids ts" "tid t = int (length ts)" using stack_ids_pop [OF Cons.prems] by auto
  have "getTransactionStr t \<noteq> getTransactionStr u" if u: "u \<in> set ts" for u
  proof -
    have "tid u \<in> set (map int [0..<length ts])"
      using u t(1) unfolding stack_ids_def by (metis image_eqI set_map set_rev)
    then obtain n where "tid u = int n" "n < length ts" by auto
    with t(2) getTransactionStr_inj show ?thesis by (metis less_irrefl)
  qed
  with Cons t show ?case by auto
qed


lemma demo_two_levels:
  "\<exists>P'. trans_calls demo_env [tBegin, tBegin] StoreSession_new demo_pool = Ret (StoreSession_new, P')
    \<and> demo_ready P' ''SAVEPOINT TRANS_STR1;'' \<and> transactionStack P' = [BaseTransaction_new 1, BaseTransaction_new 0]"
proof -
  have n: "transactionStack demo_pool = []" by (simp add: demo_pool_def)
  from demo_begin [OF demo_pool_ready, of "''BEGIN EXCLUSIVE;''"] n demo_strings obtain P1 where
    P1: "BeginTransaction demo_env StoreSession_new demo_pool = Ret (E_OK, StoreSession_new, P1)"
      "demo_ready P1 ''BEGIN EXCLUSIVE;''" "transactionStack P1 = [BaseTransaction_new 0]"
    by auto
  from demo_begin [OF P1(2), of "''SAVEPOINT TRANS_STR1;''"] P1(3) demo_strings obtain P2 where
    "BeginTransaction demo_env StoreSession_new P1 = Ret (E_OK, StoreSession_new, P2)"
    "demo_ready P2 ''SAVEPOINT TRANS_STR1;''" "transactionStack P2 = [BaseTransaction_new 1, BaseTransaction_new 0]"
    by auto
  with P1 show ?thesis by simp
qed


text \<open>
  C39 (error): rolling back works on a copy of the stack: the level it rolls back stays open in the pool.
\<close>

theorem RollBack_leaves_level_open:
  assumes "good ss K P" and "RollBack E ss P = Ret (e, ss', P')" and "transactionStack P \<noteq> []"
  shows "transactionStack P' = transactionStack P \<and> IsInTransaction P'"
  using RollBack_effect [OF assms(1,2)] assms(3) by (simp add: IsInTransaction_def)


theorem RollBack_leaves_level_open_witness:
  "\<exists>P P'. trans_calls demo_env [tBegin, tBegin] StoreSession_new demo_pool = Ret (StoreSession_new, P)
     \<and> RollBack demo_env StoreSession_new P = Ret (E_OK, StoreSession_new, P') \<and> length (transactionStack P') = 2"
proof -
  obtain P where P: "trans_calls demo_env [tBegin, tBegin] StoreSession_new demo_pool = Ret (StoreSession_new, P)"
    "demo_ready P ''SAVEPOINT TRANS_STR1;''" "transactionStack P = [BaseTransaction_new 1, BaseTransaction_new 0]"
    using demo_two_levels by blast
  have g: "good StoreSession_new {} P"
    using trans_calls_ids [OF demo_good _ P(1)] by (simp add: demo_pool_def stack_ids_def)
  from demo_on_writer [OF P(2), of "''ROLLBACK TO TRANS_STR1;''"] demo_strings obtain Q where
    "on_connection (Conn_ExecuteSql demo_env ''ROLLBACK TO TRANS_STR1;'' []) demo_holding (P\<lparr>writeConnectionUsed := True\<rparr>)
      = Ret (Inr (), Q)" "writeConnection Q = Some 0"
    by auto
  then have r: "RollBack demo_env StoreSession_new P = Ret (E_OK, StoreSession_new, Q\<lparr>writeConnectionUsed := False\<rparr>)"
    using P(3) by (simp add: RollBack_def demo_acquire [OF P(2)] demo_release errno_of_def demo_strings)
  from RollBack_leaves_level_open [OF g r] P r show ?thesis by auto
qed

text \<open>
  Nested transactions by marking: a tree of transactions, each marked as successful or not before it
  ends.
\<close>

datatype mtree = MTree bool "mtree list"

fun all_marked :: "mtree \<Rightarrow> bool" and all_marked_list :: "mtree list \<Rightarrow> bool" where
  "all_marked (MTree b ms) \<longleftrightarrow> b \<and> all_marked_list ms"
| "all_marked_list [] \<longleftrightarrow> True"
| "all_marked_list (m # ms) \<longleftrightarrow> all_marked m \<and> all_marked_list ms"

fun mark_if :: "bool \<Rightarrow> 's pool \<Rightarrow> 's pool" where
  "mark_if b P = (if b then snd (MarkAsCommit P) else P)"

fun run_tree :: "'s env \<Rightarrow> mtree \<Rightarrow> StoreSession \<Rightarrow> 's pool \<Rightarrow> (StoreSession \<times> 's pool) run"
  and run_trees :: "'s env \<Rightarrow> mtree list \<Rightarrow> StoreSession \<Rightarrow> 's pool \<Rightarrow> (StoreSession \<times> 's pool) run" where
  "run_tree E (MTree b ms) ss P =
     run_bind (BeginTransaction_observed E None ss P) (\<lambda>(_, _, ss, P).
     run_bind (run_trees E ms ss P) (\<lambda>(ss, P).
     run_bind (EndTransaction E ss (mark_if b P)) (\<lambda>(_, ss, P). Ret (ss, P))))"
| "run_trees E [] ss P = Ret (ss, P)"
| "run_trees E (m # ms) ss P = run_bind (run_tree E m ss P) (\<lambda>(ss, P). run_trees E ms ss P)"

lemma run_nested:
  "run_tree E m ss (P\<lparr>transactionStack := t # ts\<rparr>) =
     Ret (ss, P\<lparr>transactionStack := t\<lparr>allBeforeSuccessful := allBeforeSuccessful t \<and> all_marked m\<rparr> # ts\<rparr>)"
  "run_trees E ms ss (P\<lparr>transactionStack := t # ts\<rparr>) =
     Ret (ss, P\<lparr>transactionStack := t\<lparr>allBeforeSuccessful := allBeforeSuccessful t \<and> all_marked_list ms\<rparr> # ts\<rparr>)"
proof (induction m and ms arbitrary: t ts and t ts rule: all_marked_all_marked_list.induct)
  case (1 b ms)
  show ?case
    using 1 [of "BaseTransaction_new (int (Suc (length ts)))" "t # ts"]
    by (simp add: BeginTransaction_observed_def EndTransaction_def MarkAsCommit_def BaseTransaction_new_def notify_def Let_def)
next
  case 2
  then show ?case by simp
next
  case (3 m ms)
  then show ?case by simp
qed

text \<open>
  When the outermost transaction ends, after any nesting of transactions inside it, the
  session commits exactly when every transaction of the nest was marked as successful, and rolls
  everything back otherwise; no statement is sent for the inner ones.
\<close>

theorem nested_marks_decide:
  "run_bind (run_trees E ms ss (P\<lparr>transactionStack := [BaseTransaction_new 0]\<rparr>)) (\<lambda>(ss, P). EndTransaction E ss (mark_if b P))
   = run_bind (on_connection (Conn_ExecuteSql E (if all_marked (MTree b ms) then ''COMMIT;'' else ''ROLLBACK;'') []) ss
        (P\<lparr>transactionStack := []\<rparr>))
       (\<lambda>(r, P). let (ss, P) = ReleaseConnection ss P in Ret (errno_of r, ss, P))"
  by (simp add: run_nested EndTransaction_def MarkAsCommit_def BaseTransaction_new_def)

end
