(* ===== verification/Clause_Spec.thy ===== *)
theory Clause_Spec
  imports Prelude
begin

text \<open>
  The abstract contract of a WHERE-clause builder.  A clause is a sequence of tokens; a builder call
  is one of five actions on that sequence; the grammar of SQL boolean expressions says which finished
  sequences are conditions.  The interface \<open>clause_builder\<close> is what a builder class promises: its
  text, its arguments and its \<open>isNeedAnd\<close> flag follow the token sequence.  The consequences for whole
  call sequences are proved once, inside the locale.
\<close>

subsection \<open>Tokens, their text and their placeholders\<close>

text \<open>
  \<open>TAnd True\<close> is the connective written without a leading blank (\<open>EqualTo\<close>, \<open>BeginWrap\<close>), \<open>TAnd False\<close>
  the one with it.  \<open>TAtom c t n\<close> is a comparison of column text \<open>c\<close> with operator text \<open>t\<close> that holds
  \<open>n\<close> placeholders.
\<close>

datatype token = TAnd bool | TOr | TOpen | TClose | TAtom string string nat

fun token_text :: "token \<Rightarrow> string" where
  "token_text (TAnd tight) = (if tight then ''AND '' else '' AND '')"
| "token_text TOr = '' OR ''"
| "token_text TOpen = '' ( ''"
| "token_text TClose = '' ) ''"
| "token_text (TAtom column operator n) = column @ operator"

definition render :: "token list \<Rightarrow> string" where
  "render ts = concat (map token_text ts)"

fun token_holes :: "token \<Rightarrow> nat" where
  "token_holes (TAtom column operator n) = n"
| "token_holes _ = 0"

definition holes :: "token list \<Rightarrow> nat" where
  "holes ts = sum_list (map token_holes ts)"

fun is_connective :: "token \<Rightarrow> bool" where
  "is_connective (TAnd _) = True"
| "is_connective TOr = True"
| "is_connective _ = False"

fun is_atom :: "token \<Rightarrow> bool" where
  "is_atom (TAtom _ _ _) = True"
| "is_atom _ = False"

lemma render_simps [simp]:
  "render [] = []" "render (t # ts) = token_text t @ render ts" "render (ts @ us) = render ts @ render us"
  by (simp_all add: render_def)

lemma holes_simps [simp]:
  "holes [] = 0" "holes (t # ts) = token_holes t + holes ts" "holes (ts @ us) = holes ts + holes us"
  by (simp_all add: holes_def)

subsection \<open>The alternation of operands and connectives\<close>

text \<open>
  The scanner's flag is \<open>True\<close> after an operand (a connective or a closing parenthesis may follow)
  and \<open>False\<close> where an operand must come next; \<open>None\<close> is a sequence no condition starts with.
\<close>

fun scan_token :: "token \<Rightarrow> bool \<Rightarrow> bool option" where
  "scan_token (TAtom _ _ _) need = (if need then None else Some True)"
| "scan_token (TAnd _) need = (if need then Some False else None)"
| "scan_token TOr need = (if need then Some False else None)"
| "scan_token TOpen need = (if need then None else Some False)"
| "scan_token TClose need = (if need then Some True else None)"

fun scan_from :: "bool \<Rightarrow> token list \<Rightarrow> bool option" where
  "scan_from need [] = Some need"
| "scan_from need (t # ts) = Option.bind (scan_token t need) (\<lambda>n. scan_from n ts)"

abbreviation scan :: "token list \<Rightarrow> bool option" where
  "scan \<equiv> scan_from False"

lemma scan_from_append [simp]:
  "scan_from need (ts @ us) = Option.bind (scan_from need ts) (\<lambda>n. scan_from n us)"
  by (induction ts arbitrary: need) (auto split: bind_splits)

text \<open>The nesting depth; \<open>None\<close> once a parenthesis closes that was never opened.\<close>

fun depth_from :: "nat \<Rightarrow> token list \<Rightarrow> nat option" where
  "depth_from d [] = Some d"
| "depth_from d (TOpen # ts) = depth_from (Suc d) ts"
| "depth_from d (TClose # ts) = (case d of 0 \<Rightarrow> None | Suc e \<Rightarrow> depth_from e ts)"
| "depth_from d (_ # ts) = depth_from d ts"

lemma depth_from_append [simp]:
  "depth_from d (ts @ us) = Option.bind (depth_from d ts) (\<lambda>e. depth_from e us)"
  by (induction d ts rule: depth_from.induct) (auto split: nat.splits)

subsection \<open>The grammar of conditions\<close>

inductive sql_expr :: "token list \<Rightarrow> bool" where
  atom: "sql_expr [TAtom column operator n]"
| conn: "sql_expr a \<Longrightarrow> sql_expr b \<Longrightarrow> is_connective t \<Longrightarrow> sql_expr (a @ t # b)"
| paren: "sql_expr a \<Longrightarrow> sql_expr (TOpen # a @ [TClose])"

text \<open>The prefixes of a condition that wait for an operand, with their open parentheses.\<close>

inductive waiting :: "nat \<Rightarrow> token list \<Rightarrow> bool" where
  start: "waiting 0 []"
| conn: "waiting d p \<Longrightarrow> sql_expr e \<Longrightarrow> is_connective t \<Longrightarrow> waiting d (p @ e @ [t])"
| open_par: "waiting d p \<Longrightarrow> waiting (Suc d) (p @ [TOpen])"

text \<open>Completing a waiting prefix by an operand reduces its innermost group to one expression.\<close>

lemma waiting_complete:
  assumes "waiting d p" and "sql_expr e"
  shows "case d of 0 \<Rightarrow> sql_expr (p @ e)
    | Suc c \<Rightarrow> \<exists>q m. p = q @ TOpen # m \<and> waiting c q \<and> sql_expr (m @ e)"
  using assms
proof (induction arbitrary: e rule: waiting.induct)
  case start
  then show ?case by simp
next
  case (conn d p e0 t)
  from conn.hyps conn.prems have "sql_expr (e0 @ t # e)"
    by (blast intro: sql_expr.conn)
  note IH = conn.IH [OF this]
  show ?case
  proof (cases d)
    case 0
    with IH show ?thesis by simp
  next
    case (Suc c)
    with IH obtain q m where "p = q @ TOpen # m" "waiting c q" "sql_expr (m @ e0 @ t # e)"
      by auto
    then have "p @ e0 @ [t] = q @ TOpen # (m @ e0 @ [t])" "sql_expr ((m @ e0 @ [t]) @ e)"
      by simp_all
    then have "\<exists>q m. p @ e0 @ [t] = q @ TOpen # m \<and> waiting c q \<and> sql_expr (m @ e)"
      using \<open>waiting c q\<close> by blast
    with Suc show ?thesis by simp
  qed
next
  case (open_par d p)
  then show ?case by force
qed

definition viable :: "nat \<Rightarrow> bool \<Rightarrow> token list \<Rightarrow> bool" where
  "viable d need ts \<longleftrightarrow>
     (if need then \<exists>p e. ts = p @ e \<and> waiting d p \<and> sql_expr e else waiting d ts)"

lemma viable_step:
  assumes v: "viable d need ts"
    and s: "scan_token t need = Some need'" and d: "depth_from d [t] = Some d'"
  shows "viable d' need' (ts @ [t])"
proof (cases t)
  case (TAnd tight)
  with assms show ?thesis
    by (auto simp: viable_def split: if_splits) (metis waiting.conn is_connective.simps(1))
next
  case TOr
  with assms show ?thesis
    by (auto simp: viable_def split: if_splits) (metis waiting.conn is_connective.simps(2))
next
  case TOpen
  with assms show ?thesis
    by (auto simp: viable_def split: if_splits intro: waiting.open_par)
next
  case TClose
  with s d obtain n: need and n': need' and dd: "d = Suc d'"
    by (auto split: if_splits nat.splits)
  from v n obtain p e where ts: "ts = p @ e" and p: "waiting d p" and e: "sql_expr e"
    by (auto simp: viable_def)
  from waiting_complete [OF p e] dd obtain q m
    where "p = q @ TOpen # m" and q: "waiting d' q" and m: "sql_expr (m @ e)"
    by auto
  with ts TClose have "ts @ [t] = q @ (TOpen # (m @ e) @ [TClose])" by simp
  moreover have "sql_expr (TOpen # (m @ e) @ [TClose])" using m by (rule sql_expr.paren)
  ultimately show ?thesis using q n' by (auto simp: viable_def)
next
  case (TAtom c oper n)
  with assms show ?thesis
    by (auto simp: viable_def split: if_splits intro: sql_expr.atom)
qed

lemma viable_scan:
  "scan ts = Some need \<Longrightarrow> depth_from 0 ts = Some d \<Longrightarrow> viable d need ts"
proof (induction ts arbitrary: need d rule: rev_induct)
  case Nil
  then show ?case by (simp add: viable_def waiting.start)
next
  case (snoc t ts)
  from snoc.prems obtain n0 d0 where
    "scan ts = Some n0" "scan_token t n0 = Some need" "depth_from 0 ts = Some d0" "depth_from d0 [t] = Some d"
    by (auto split: bind_splits)
  with snoc.IH show ?case by (blast intro: viable_step)
qed

theorem scan_balanced_expr:
  assumes "scan ts = Some True" and "depth_from 0 ts = Some 0"
  shows "sql_expr ts"
proof -
  from viable_scan [OF assms] obtain p e where "ts = p @ e" "waiting 0 p" "sql_expr e"
    by (auto simp: viable_def)
  with waiting_complete [of 0 p e] show ?thesis by simp
qed

subsection \<open>The actions of a builder call\<close>

text \<open>
  What one call does to the clause: nothing, an operand with its arguments (the flag says which
  spelling of the connective precedes it), an opening or closing parenthesis, or a disjunction.
\<close>

datatype action = Skip | Operand bool token "string list" | Open | Close | Disj

fun act_tokens :: "action \<Rightarrow> bool \<Rightarrow> token list" where
  "act_tokens Skip need = []"
| "act_tokens (Operand tight t args) need = (if need then [TAnd tight, t] else [t])"
| "act_tokens Open need = (if need then [TAnd True, TOpen] else [TOpen])"
| "act_tokens Close need = (if need then [TClose] else [])"
| "act_tokens Disj need = (if need then [TOr] else [])"

fun act_args :: "action \<Rightarrow> string list" where
  "act_args (Operand tight t args) = args"
| "act_args _ = []"

fun act_need :: "action \<Rightarrow> bool \<Rightarrow> bool" where
  "act_need (Operand tight t args) need = True"
| "act_need Open need = False"
| "act_need Disj need = False"
| "act_need _ need = need"

fun good_action :: "action \<Rightarrow> bool" where
  "good_action (Operand tight t args) = (is_atom t \<and> token_holes t = length args)"
| "good_action _ = True"

lemma scan_act:
  "good_action a \<Longrightarrow> scan_from need (act_tokens a need) = Some (act_need a need)"
  by (cases a; cases need) (auto elim!: is_atom.elims)

lemma holes_act: "good_action a \<Longrightarrow> holes (act_tokens a need) = length (act_args a)"
  by (cases a) auto

fun spec_run :: "action list \<Rightarrow> token list \<times> string list \<times> bool \<Rightarrow> token list \<times> string list \<times> bool" where
  "spec_run [] s = s"
| "spec_run (a # as) (ts, args, need) =
     spec_run as (ts @ act_tokens a need, args @ act_args a, act_need a need)"

abbreviation spec_tokens :: "action list \<Rightarrow> token list" where
  "spec_tokens as \<equiv> fst (spec_run as ([], [], False))"

abbreviation spec_args :: "action list \<Rightarrow> string list" where
  "spec_args as \<equiv> fst (snd (spec_run as ([], [], False)))"

abbreviation spec_need :: "action list \<Rightarrow> bool" where
  "spec_need as \<equiv> snd (snd (spec_run as ([], [], False)))"

lemma spec_run_inv:
  assumes "list_all good_action as" and "scan ts = Some need" and "holes ts = length args"
    and "spec_run as (ts, args, need) = (ts', args', need')"
  shows "scan ts' = Some need' \<and> holes ts' = length args'"
  using assms
proof (induction as arbitrary: ts args need)
  case Nil
  then show ?case by simp
next
  case (Cons a as)
  have "scan (ts @ act_tokens a need) = Some (act_need a need)"
    and "holes (ts @ act_tokens a need) = length (args @ act_args a)"
    using Cons.prems by (auto simp: scan_act holes_act)
  from Cons.IH [OF _ this] Cons.prems show ?case by simp
qed

subsection \<open>The interface of a builder class\<close>

locale clause_builder =
  fixes call_on :: "'call \<Rightarrow> 's \<Rightarrow> 's"
    and clause :: "'s \<Rightarrow> string"
    and args :: "'s \<Rightarrow> string list"
    and need :: "'s \<Rightarrow> bool"
    and act :: "'call \<Rightarrow> action"
  assumes clause_call: "clause (call_on c s) = clause s @ render (act_tokens (act c) (need s))"
    and args_call: "args (call_on c s) = args s @ act_args (act c)"
    and need_call: "need (call_on c s) = act_need (act c) (need s)"
    and good_call: "good_action (act c)"
begin

lemma run_refines:
  assumes "clause s = render ts" and "args s = xs" and "need s = n"
    and "spec_run (map act cs) (ts, xs, n) = (ts', xs', n')"
  shows "clause (fold call_on cs s) = render ts' \<and> args (fold call_on cs s) = xs'
    \<and> need (fold call_on cs s) = n'"
  using assms
proof (induction cs arbitrary: s ts xs n)
  case Nil
  then show ?case by simp
next
  case (Cons c cs)
  from Cons.prems show ?case
    by (simp add: Cons.IH [of "call_on c s" "ts @ act_tokens (act c) n"]
        clause_call args_call need_call)
qed

lemma run_from_empty:
  assumes "clause s = []" and "args s = []" and "\<not> need s"
  shows "clause (fold call_on cs s) = render (spec_tokens (map act cs))"
    and "args (fold call_on cs s) = spec_args (map act cs)"
    and "need (fold call_on cs s) = spec_need (map act cs)"
  using run_refines [of s "[]" "[]" False cs] assms
  by (cases "spec_run (map act cs) ([], [], False)"; simp)+

lemma run_scan: "scan (spec_tokens (map act cs)) = Some (spec_need (map act cs))"
  and run_holes: "holes (spec_tokens (map act cs)) = length (spec_args (map act cs))"
  using spec_run_inv [of "map act cs" "[]" False "[]"] good_call
  by (cases "spec_run (map act cs) ([], [], False)"; simp add: list_all_iff)+

lemma run_condition:
  assumes "clause s = []" and "args s = []" and "\<not> need s"
    and "need (fold call_on cs s)" and "depth_from 0 (spec_tokens (map act cs)) = Some 0"
  shows "sql_expr (spec_tokens (map act cs))
    \<and> clause (fold call_on cs s) = render (spec_tokens (map act cs))
    \<and> holes (spec_tokens (map act cs)) = length (args (fold call_on cs s))"
  using assms run_from_empty [OF assms(1-3), of cs] run_scan [of cs] run_holes [of cs]
  by (auto intro: scan_balanced_expr)

end

end
