(* ===== verification/Predicates.thy ===== *)
theory Predicates
  imports Clause_Spec
begin

text \<open>
  The WHERE-clause builder of the relational store: \<open>StringUtils\<close> (string_utils.cpp) and
  \<open>AbsPredicates\<close> (abs_predicates.cpp).  A builder object is a record; every method takes the
  object and returns it changed, and a method that rejects its arguments returns it unchanged, as
  the early \<open>return this\<close> of the source does.  The operations are polymorphic in the record's
  extension, so that the derived classes use them unchanged.
\<close>

subsection \<open>String helpers (string_utils.cpp)\<close>

definition SurroundWithQuote :: "string \<Rightarrow> string \<Rightarrow> string" where
  "SurroundWithQuote value quote = (if value = [] then value else quote @ value @ quote)"

text \<open>The loop of \<open>SurroundWithFunction\<close>, with its \<open>isFirst\<close> flag and its \<open>builder\<close>.\<close>

fun SurroundWithFunction_loop :: "string \<Rightarrow> bool \<Rightarrow> string \<Rightarrow> string list \<Rightarrow> string" where
  "SurroundWithFunction_loop separator isFirst builder [] = builder"
| "SurroundWithFunction_loop separator isFirst builder (text # array) =
     SurroundWithFunction_loop separator False
       ((if \<not> isFirst then builder @ '' '' @ separator @ '' '' else builder) @ text) array"

definition SurroundWithFunction :: "string \<Rightarrow> string \<Rightarrow> string list \<Rightarrow> string" where
  "SurroundWithFunction function separator array =
     SurroundWithFunction_loop separator True (function @ ''('') array @ '')''"

subsection \<open>The builder object\<close>

record abs_predicates =
  whereClause :: string
  whereArgs :: "string list"
  order_str :: string
  group_str :: string
  index_str :: string
  limit_val :: int
  offset_val :: int
  is_distinct :: bool
  isNeedAnd :: bool
  isSorted :: bool

definition Initial :: "'a abs_predicates_scheme \<Rightarrow> 'a abs_predicates_scheme" where
  "Initial p = p\<lparr>is_distinct := False, isNeedAnd := False, isSorted := False, whereArgs := [],
     whereClause := [], order_str := [], group_str := [], index_str := [], limit_val := -1, offset_val := -1\<rparr>"

definition AbsPredicates :: abs_predicates where
  "AbsPredicates = \<lparr>whereClause = [], whereArgs = [], order_str = [], group_str = [], index_str = [],
     limit_val = -1, offset_val = -1, is_distinct = False, isNeedAnd = False, isSorted = False\<rparr>"

definition AbsPredicates_Clear :: "'a abs_predicates_scheme \<Rightarrow> 'a abs_predicates_scheme" where
  "AbsPredicates_Clear p = Initial p"

fun CheckArgs :: "string list \<Rightarrow> bool" where
  "CheckArgs [] = True"
| "CheckArgs (i # args) = (if i = [] then False else CheckArgs args)"

definition CheckParameter :: "string \<Rightarrow> string \<Rightarrow> string list \<Rightarrow> bool" where
  "CheckParameter methodName field args =
     (if field = [] then False
      else if length args \<noteq> 0 then CheckArgs args
      else True)"

definition RemoveQuotes :: "string \<Rightarrow> string" where
  "RemoveQuotes source =
     (if source = [] then source
      else filter (\<lambda>c. c \<noteq> bquote) (filter (\<lambda>c. c \<noteq> dquote) (filter (\<lambda>c. c \<noteq> squote) source)))"

text \<open>
  The splitting loop of \<open>Normalized\<close>: \<open>pos\<close> is the next dot at or after \<open>left\<close>.  The result is the
  vector \<open>split\<close> together with the final value of \<open>left\<close>.
\<close>

function Normalized_split :: "string \<Rightarrow> nat \<Rightarrow> string list \<Rightarrow> string list \<times> nat" where
  "Normalized_split source left split =
     (case find_from CHR ''.'' source left of
        None \<Rightarrow> (split, left)
      | Some pos \<Rightarrow> Normalized_split source (pos + 1) (split @ [substr source left (pos - left)]))"
  by pat_completeness auto
termination
  by (relation "measure (\<lambda>(s, l, _). length s - l)") (auto dest: find_from_Some)

declare Normalized_split.simps [simp del]

definition Normalized :: "string \<Rightarrow> string" where
  "Normalized source =
     (if source = [] then source
      else if find_from CHR ''.'' source 0 = None then SurroundWithQuote source [bquote]
      else let (split, left) = Normalized_split source 0 [];
               split = (if left < length source then split @ [drop left source] else split)
           in if length split \<noteq> 2 then source
              else SurroundWithQuote (split ! 0) [bquote] @ ''.''
                   @ SurroundWithQuote (split ! 1) [bquote])"

definition CheckIsNeedAnd :: "'a abs_predicates_scheme \<Rightarrow> 'a abs_predicates_scheme" where
  "CheckIsNeedAnd p =
     (if isNeedAnd p then p\<lparr>whereClause := whereClause p @ '' AND ''\<rparr> else p\<lparr>isNeedAnd := True\<rparr>)"

subsection \<open>Comparison methods\<close>

definition EqualTo :: "string \<Rightarrow> string \<Rightarrow> 'a abs_predicates_scheme \<Rightarrow> 'a abs_predicates_scheme" where
  [pred_defs]: "EqualTo field value p =
     (if \<not> CheckParameter ''equalTo'' field [value] then p
      else let p = (if isNeedAnd p then p\<lparr>whereClause := whereClause p @ ''AND ''\<rparr>
                    else p\<lparr>isNeedAnd := True\<rparr>);
               normalizedField = Normalized (RemoveQuotes field)
           in p\<lparr>whereClause := whereClause p @ normalizedField @ '' = ? '',
                whereArgs := whereArgs p @ [value]\<rparr>)"

definition NotEqualTo :: "string \<Rightarrow> string \<Rightarrow> 'a abs_predicates_scheme \<Rightarrow> 'a abs_predicates_scheme" where
  [pred_defs]: "NotEqualTo field value p =
     (if \<not> CheckParameter ''notEqualTo'' field [value] then p
      else let p = CheckIsNeedAnd p;
               normalizedField = Normalized (RemoveQuotes field)
           in p\<lparr>whereClause := whereClause p @ normalizedField @ '' <> ? '',
                whereArgs := whereArgs p @ [value]\<rparr>)"

definition Contains :: "string \<Rightarrow> string \<Rightarrow> 'a abs_predicates_scheme \<Rightarrow> 'a abs_predicates_scheme" where
  [pred_defs]: "Contains field value p =
     (if \<not> CheckParameter ''contains'' field [value] then p
      else let p = CheckIsNeedAnd p;
               normalizedField = Normalized (RemoveQuotes field)
           in p\<lparr>whereClause := whereClause p @ normalizedField @ '' LIKE ? '',
                whereArgs := whereArgs p @ [''%'' @ value @ ''%'']\<rparr>)"

definition BeginsWith :: "string \<Rightarrow> string \<Rightarrow> 'a abs_predicates_scheme \<Rightarrow> 'a abs_predicates_scheme" where
  [pred_defs]: "BeginsWith field value p =
     (if \<not> CheckParameter ''beginsWith'' field [value] then p
      else let p = CheckIsNeedAnd p;
               normalizedField = Normalized (RemoveQuotes field)
           in p\<lparr>whereClause := whereClause p @ normalizedField @ '' LIKE ? '',
                whereArgs := whereArgs p @ [value @ ''%'']\<rparr>)"

definition EndsWith :: "string \<Rightarrow> string \<Rightarrow> 'a abs_predicates_scheme \<Rightarrow> 'a abs_predicates_scheme" where
  [pred_defs]: "EndsWith field value p =
     (if \<not> CheckParameter ''endsWith'' field [value] then p
      else let p = CheckIsNeedAnd p;
               normalizedField = Normalized (RemoveQuotes field)
           in p\<lparr>whereClause := whereClause p @ normalizedField @ '' LIKE ? '',
                whereArgs := whereArgs p @ [''%'' @ value]\<rparr>)"

definition IsNull :: "string \<Rightarrow> 'a abs_predicates_scheme \<Rightarrow> 'a abs_predicates_scheme" where
  [pred_defs]: "IsNull field p =
     (if \<not> CheckParameter ''isNull'' field [] then p
      else let p = CheckIsNeedAnd p;
               normalizedField = Normalized (RemoveQuotes field)
           in p\<lparr>whereClause := whereClause p @ normalizedField @ '' is null ''\<rparr>)"

definition IsNotNull :: "string \<Rightarrow> 'a abs_predicates_scheme \<Rightarrow> 'a abs_predicates_scheme" where
  [pred_defs]: "IsNotNull field p =
     (if \<not> CheckParameter ''isNotNull'' field [] then p
      else let p = CheckIsNeedAnd p;
               normalizedField = Normalized (RemoveQuotes field)
           in p\<lparr>whereClause := whereClause p @ normalizedField @ '' is not null ''\<rparr>)"

definition Like :: "string \<Rightarrow> string \<Rightarrow> 'a abs_predicates_scheme \<Rightarrow> 'a abs_predicates_scheme" where
  [pred_defs]: "Like field value p =
     (if \<not> CheckParameter ''like'' field [value] then p
      else let p = CheckIsNeedAnd p;
               normalizedField = Normalized (RemoveQuotes field)
           in p\<lparr>whereClause := whereClause p @ normalizedField @ '' LIKE ? '',
                whereArgs := whereArgs p @ [value]\<rparr>)"

definition Glob :: "string \<Rightarrow> string \<Rightarrow> 'a abs_predicates_scheme \<Rightarrow> 'a abs_predicates_scheme" where
  [pred_defs]: "Glob field value p =
     (if \<not> CheckParameter ''glob'' field [value] then p
      else let p = CheckIsNeedAnd p;
               normalizedField = Normalized (RemoveQuotes field)
           in p\<lparr>whereClause := whereClause p @ normalizedField @ '' GLOB ? '',
                whereArgs := whereArgs p @ [value]\<rparr>)"

definition Between :: "string \<Rightarrow> string \<Rightarrow> string \<Rightarrow> 'a abs_predicates_scheme \<Rightarrow> 'a abs_predicates_scheme" where
  [pred_defs]: "Between field low high p =
     (if \<not> CheckParameter ''between'' field [low, high] then p
      else let p = CheckIsNeedAnd p;
               normalizedField = Normalized (RemoveQuotes field)
           in p\<lparr>whereClause := whereClause p @ normalizedField @ '' BETWEEN ? AND ? '',
                whereArgs := whereArgs p @ [low, high]\<rparr>)"

definition NotBetween :: "string \<Rightarrow> string \<Rightarrow> string \<Rightarrow> 'a abs_predicates_scheme \<Rightarrow> 'a abs_predicates_scheme" where
  [pred_defs]: "NotBetween field low high p =
     (if \<not> CheckParameter ''notBetween'' field [low, high] then p
      else let p = CheckIsNeedAnd p;
               normalizedField = Normalized (RemoveQuotes field)
           in p\<lparr>whereClause := whereClause p @ normalizedField @ '' NOT BETWEEN ? AND ? '',
                whereArgs := whereArgs p @ [low, high]\<rparr>)"

definition GreaterThan :: "string \<Rightarrow> string \<Rightarrow> 'a abs_predicates_scheme \<Rightarrow> 'a abs_predicates_scheme" where
  [pred_defs]: "GreaterThan field value p =
     (if \<not> CheckParameter ''greaterThan'' field [value] then p
      else let p = CheckIsNeedAnd p;
               normalizedField = Normalized (RemoveQuotes field)
           in p\<lparr>whereClause := whereClause p @ normalizedField @ '' > ? '',
                whereArgs := whereArgs p @ [value]\<rparr>)"

definition LessThan :: "string \<Rightarrow> string \<Rightarrow> 'a abs_predicates_scheme \<Rightarrow> 'a abs_predicates_scheme" where
  [pred_defs]: "LessThan field value p =
     (if \<not> CheckParameter ''lessThan'' field [value] then p
      else let p = CheckIsNeedAnd p;
               normalizedField = Normalized (RemoveQuotes field)
           in p\<lparr>whereClause := whereClause p @ normalizedField @ '' < ? '',
                whereArgs := whereArgs p @ [value]\<rparr>)"

definition GreaterThanOrEqualTo :: "string \<Rightarrow> string \<Rightarrow> 'a abs_predicates_scheme \<Rightarrow> 'a abs_predicates_scheme" where
  [pred_defs]: "GreaterThanOrEqualTo field value p =
     (if \<not> CheckParameter ''greaterThanOrEqualTo'' field [value] then p
      else let p = CheckIsNeedAnd p;
               normalizedField = Normalized (RemoveQuotes field)
           in p\<lparr>whereClause := whereClause p @ normalizedField @ '' >= ? '',
                whereArgs := whereArgs p @ [value]\<rparr>)"

definition LessThanOrEqualTo :: "string \<Rightarrow> string \<Rightarrow> 'a abs_predicates_scheme \<Rightarrow> 'a abs_predicates_scheme" where
  [pred_defs]: "LessThanOrEqualTo field value p =
     (if \<not> CheckParameter ''greaterThanOrEqualTo'' field [value] then p
      else let p = CheckIsNeedAnd p;
               normalizedField = Normalized (RemoveQuotes field)
           in p\<lparr>whereClause := whereClause p @ normalizedField @ '' <= ? '',
                whereArgs := whereArgs p @ [value]\<rparr>)"

definition AppendWhereClauseWithInOrNotIn ::
    "string \<Rightarrow> string \<Rightarrow> string list \<Rightarrow> 'a abs_predicates_scheme \<Rightarrow> 'a abs_predicates_scheme" where
  "AppendWhereClauseWithInOrNotIn methodName field replaceValues p =
     p\<lparr>whereClause := whereClause p @ Normalized (RemoveQuotes field)
          @ SurroundWithFunction methodName '','' replaceValues\<rparr>"

text \<open>The loop both methods run: one placeholder and one argument per value.\<close>

fun InOrNotIn_loop :: "string list \<Rightarrow> string list \<times> string list \<Rightarrow> string list \<times> string list" where
  "InOrNotIn_loop [] acc = acc"
| "InOrNotIn_loop (i # values) (replaceValues, args) =
     InOrNotIn_loop values (replaceValues @ [''?''], args @ [i])"

definition In :: "string \<Rightarrow> string list \<Rightarrow> 'a abs_predicates_scheme \<Rightarrow> 'a abs_predicates_scheme" where
  [pred_defs]: "In field values p =
     (if \<not> CheckParameter ''in'' field [] then p
      else if values = [] then p
      else let p = CheckIsNeedAnd p;
               (replaceValues, args) = InOrNotIn_loop values ([], whereArgs p)
           in AppendWhereClauseWithInOrNotIn '' IN '' field replaceValues (p\<lparr>whereArgs := args\<rparr>))"

definition NotIn :: "string \<Rightarrow> string list \<Rightarrow> 'a abs_predicates_scheme \<Rightarrow> 'a abs_predicates_scheme" where
  [pred_defs]: "NotIn field values p =
     (if \<not> CheckParameter ''notIn'' field [] then p
      else if values = [] then p
      else let p = CheckIsNeedAnd p;
               (replaceValues, args) = InOrNotIn_loop values ([], whereArgs p)
           in AppendWhereClauseWithInOrNotIn '' NOT IN '' field replaceValues (p\<lparr>whereArgs := args\<rparr>))"

subsection \<open>Connectives and grouping\<close>

definition BeginWrap :: "'a abs_predicates_scheme \<Rightarrow> 'a abs_predicates_scheme" where
  [pred_defs]: "BeginWrap p =
     (let p = (if isNeedAnd p then p\<lparr>whereClause := whereClause p @ ''AND '', isNeedAnd := False\<rparr> else p)
      in p\<lparr>whereClause := whereClause p @ '' ( ''\<rparr>)"

definition EndWrap :: "'a abs_predicates_scheme \<Rightarrow> 'a abs_predicates_scheme" where
  [pred_defs]: "EndWrap p =
     (if \<not> isNeedAnd p then p else p\<lparr>whereClause := whereClause p @ '' ) ''\<rparr>)"

definition Or :: "'a abs_predicates_scheme \<Rightarrow> 'a abs_predicates_scheme" where
  [pred_defs]: "Or p =
     (if \<not> isNeedAnd p then p
      else p\<lparr>whereClause := whereClause p @ '' OR '', isNeedAnd := False\<rparr>)"

definition And :: "'a abs_predicates_scheme \<Rightarrow> 'a abs_predicates_scheme" where
  [pred_defs]: "And p = (if \<not> isNeedAnd p then p else p)"

subsection \<open>Ordering, grouping, limits\<close>

definition OrderByAsc :: "string \<Rightarrow> 'a abs_predicates_scheme \<Rightarrow> 'a abs_predicates_scheme" where
  [pred_defs]: "OrderByAsc field p =
     (if \<not> CheckParameter ''orderByAsc'' field [] then p
      else let p = (if isSorted p then p\<lparr>order_str := order_str p @ '',''\<rparr> else p);
               normalizedField = Normalized (RemoveQuotes field)
           in p\<lparr>order_str := order_str p @ normalizedField @ '' ASC '', isSorted := True\<rparr>)"

definition OrderByDesc :: "string \<Rightarrow> 'a abs_predicates_scheme \<Rightarrow> 'a abs_predicates_scheme" where
  [pred_defs]: "OrderByDesc field p =
     (if \<not> CheckParameter ''orderByDesc'' field [] then p
      else let p = (if isSorted p then p\<lparr>order_str := order_str p @ '',''\<rparr> else p);
               normalizedField = Normalized (RemoveQuotes field)
           in p\<lparr>order_str := order_str p @ normalizedField @ '' DESC '', isSorted := True\<rparr>)"

definition Distinct :: "'a abs_predicates_scheme \<Rightarrow> 'a abs_predicates_scheme" where
  [pred_defs]: "Distinct p = p\<lparr>is_distinct := True\<rparr>"

definition Limit :: "int \<Rightarrow> 'a abs_predicates_scheme \<Rightarrow> 'a abs_predicates_scheme" where
  [pred_defs]: "Limit value p =
     (if limit_val p \<noteq> -1 then p
      else if value < 1 then p
      else p\<lparr>limit_val := value\<rparr>)"

definition Offset :: "int \<Rightarrow> 'a abs_predicates_scheme \<Rightarrow> 'a abs_predicates_scheme" where
  [pred_defs]: "Offset rowOffset p =
     (if offset_val p \<noteq> -1 then p
      else if rowOffset < 1 then p
      else p\<lparr>offset_val := rowOffset\<rparr>)"

text \<open>
  The loop of \<open>GroupBy\<close> appends to \<open>group\<close> as it goes; on a bad field the method returns from inside
  the loop (\<open>Inl\<close>), keeping what was appended so far.
\<close>

fun GroupBy_loop :: "string list \<Rightarrow> string \<Rightarrow> string + string" where
  "GroupBy_loop [] grp = Inr grp"
| "GroupBy_loop (field # flds) grp =
     (if \<not> CheckParameter ''GroupBy'' field [] then Inl grp
      else GroupBy_loop flds (grp @ Normalized (RemoveQuotes field) @ '',''))"

definition GroupBy :: "string list \<Rightarrow> 'a abs_predicates_scheme \<Rightarrow> 'a abs_predicates_scheme" where
  "GroupBy flds p =
     (if flds = [] then p
      else case GroupBy_loop flds (group_str p) of
             Inl grp \<Rightarrow> p\<lparr>group_str := grp\<rparr>
           | Inr grp \<Rightarrow>
               (case find_last_of CHR '','' grp of
                  None \<Rightarrow> p\<lparr>group_str := grp\<rparr>
                | Some pos \<Rightarrow> p\<lparr>group_str := erase_at pos 1 grp\<rparr>))"

definition IndexedBy :: "string \<Rightarrow> 'a abs_predicates_scheme \<Rightarrow> 'a abs_predicates_scheme" where
  [pred_defs]: "IndexedBy indexName p =
     (if \<not> CheckParameter ''indexedBy'' indexName [] then p
      else p\<lparr>index_str := RemoveQuotes indexName\<rparr>)"

subsection \<open>Setters\<close>

definition SetWhereClause :: "string \<Rightarrow> 'a abs_predicates_scheme \<Rightarrow> 'a abs_predicates_scheme" where
  "SetWhereClause clause p = (if clause = [] then p else p\<lparr>whereClause := clause\<rparr>)"

definition SetWhereArgs :: "string list \<Rightarrow> 'a abs_predicates_scheme \<Rightarrow> 'a abs_predicates_scheme" where
  "SetWhereArgs args p = p\<lparr>whereArgs := args\<rparr>"

definition SetOrder :: "string \<Rightarrow> 'a abs_predicates_scheme \<Rightarrow> 'a abs_predicates_scheme" where
  "SetOrder ord p = (if ord = [] then p else p\<lparr>order_str := ord\<rparr>)"

subsection \<open>Calls on a builder\<close>

text \<open>One constructor per public building method, and the dispatch of a call to its method.\<close>

datatype pred_call =
    cEqualTo string string
  | cNotEqualTo string string
  | cContains string string
  | cBeginsWith string string
  | cEndsWith string string
  | cLike string string
  | cGlob string string
  | cGreaterThan string string
  | cLessThan string string
  | cGreaterThanOrEqualTo string string
  | cLessThanOrEqualTo string string
  | cIsNull string
  | cIsNotNull string
  | cBetween string string string
  | cNotBetween string string string
  | cIn string "string list"
  | cNotIn string "string list"
  | cBeginWrap
  | cEndWrap
  | cOr
  | cAnd
  | cDistinct
  | cOrderByAsc string
  | cOrderByDesc string
  | cIndexedBy string
  | cLimit int
  | cOffset int
  | cGroupBy "string list"

fun pred_call_on :: "pred_call \<Rightarrow> 'a abs_predicates_scheme \<Rightarrow> 'a abs_predicates_scheme" where
  "pred_call_on (cEqualTo f v) = EqualTo f v"
| "pred_call_on (cNotEqualTo f v) = NotEqualTo f v"
| "pred_call_on (cContains f v) = Contains f v"
| "pred_call_on (cBeginsWith f v) = BeginsWith f v"
| "pred_call_on (cEndsWith f v) = EndsWith f v"
| "pred_call_on (cLike f v) = Like f v"
| "pred_call_on (cGlob f v) = Glob f v"
| "pred_call_on (cGreaterThan f v) = GreaterThan f v"
| "pred_call_on (cLessThan f v) = LessThan f v"
| "pred_call_on (cGreaterThanOrEqualTo f v) = GreaterThanOrEqualTo f v"
| "pred_call_on (cLessThanOrEqualTo f v) = LessThanOrEqualTo f v"
| "pred_call_on (cIsNull f) = IsNull f"
| "pred_call_on (cIsNotNull f) = IsNotNull f"
| "pred_call_on (cBetween f lo hi) = Between f lo hi"
| "pred_call_on (cNotBetween f lo hi) = NotBetween f lo hi"
| "pred_call_on (cIn f vs) = In f vs"
| "pred_call_on (cNotIn f vs) = NotIn f vs"
| "pred_call_on cBeginWrap = BeginWrap"
| "pred_call_on cEndWrap = EndWrap"
| "pred_call_on cOr = Or"
| "pred_call_on cAnd = And"
| "pred_call_on cDistinct = Distinct"
| "pred_call_on (cOrderByAsc f) = OrderByAsc f"
| "pred_call_on (cOrderByDesc f) = OrderByDesc f"
| "pred_call_on (cIndexedBy f) = IndexedBy f"
| "pred_call_on (cLimit n) = Limit n"
| "pred_call_on (cOffset n) = Offset n"
| "pred_call_on (cGroupBy fs) = GroupBy fs"

text \<open>
  What each call is meant to do to the clause: a valid comparison is an operand on the normalised
  column, with as many placeholders as arguments; everything else leaves the clause alone.
\<close>

abbreviation column_of :: "string \<Rightarrow> string" where
  "column_of f \<equiv> Normalized (RemoveQuotes f)"

definition compare_act :: "bool \<Rightarrow> string \<Rightarrow> string \<Rightarrow> string list \<Rightarrow> string list \<Rightarrow> action" where
  "compare_act tight f oper given bound =
     (if f \<noteq> [] \<and> [] \<notin> set given then Operand tight (TAtom (column_of f) oper (length bound)) bound
      else Skip)"

definition in_act :: "string \<Rightarrow> string \<Rightarrow> string list \<Rightarrow> action" where
  "in_act f fun_name vs =
     (if f \<noteq> [] \<and> vs \<noteq> []
      then Operand False (TAtom (column_of f)
             (SurroundWithFunction fun_name '','' (replicate (length vs) ''?'')) (length vs)) vs
      else Skip)"

fun pred_act :: "pred_call \<Rightarrow> action" where
  "pred_act (cEqualTo f v) = compare_act True f '' = ? '' [v] [v]"
| "pred_act (cNotEqualTo f v) = compare_act False f '' <> ? '' [v] [v]"
| "pred_act (cContains f v) = compare_act False f '' LIKE ? '' [v] [''%'' @ v @ ''%'']"
| "pred_act (cBeginsWith f v) = compare_act False f '' LIKE ? '' [v] [v @ ''%'']"
| "pred_act (cEndsWith f v) = compare_act False f '' LIKE ? '' [v] [''%'' @ v]"
| "pred_act (cLike f v) = compare_act False f '' LIKE ? '' [v] [v]"
| "pred_act (cGlob f v) = compare_act False f '' GLOB ? '' [v] [v]"
| "pred_act (cGreaterThan f v) = compare_act False f '' > ? '' [v] [v]"
| "pred_act (cLessThan f v) = compare_act False f '' < ? '' [v] [v]"
| "pred_act (cGreaterThanOrEqualTo f v) = compare_act False f '' >= ? '' [v] [v]"
| "pred_act (cLessThanOrEqualTo f v) = compare_act False f '' <= ? '' [v] [v]"
| "pred_act (cIsNull f) = compare_act False f '' is null '' [] []"
| "pred_act (cIsNotNull f) = compare_act False f '' is not null '' [] []"
| "pred_act (cBetween f lo hi) = compare_act False f '' BETWEEN ? AND ? '' [lo, hi] [lo, hi]"
| "pred_act (cNotBetween f lo hi) = compare_act False f '' NOT BETWEEN ? AND ? '' [lo, hi] [lo, hi]"
| "pred_act (cIn f vs) = in_act f '' IN '' vs"
| "pred_act (cNotIn f vs) = in_act f '' NOT IN '' vs"
| "pred_act cBeginWrap = Open"
| "pred_act cEndWrap = Close"
| "pred_act cOr = Disj"
| "pred_act _ = Skip"

lemma CheckArgs_iff [simp]: "CheckArgs args \<longleftrightarrow> [] \<notin> set args"
  by (induction args) auto

lemma CheckParameter_iff [simp]: "CheckParameter m f args \<longleftrightarrow> f \<noteq> [] \<and> [] \<notin> set args"
  by (auto simp: CheckParameter_def)

lemma InOrNotIn_loop_eq [simp]:
  "InOrNotIn_loop vs (rs, args) = (rs @ replicate (length vs) ''?'', args @ vs)"
  by (induction vs arbitrary: rs args) (auto simp: replicate_append_same [symmetric])

lemma GroupBy_frame [simp]:
  "whereClause (GroupBy fs p) = whereClause p" "whereArgs (GroupBy fs p) = whereArgs p"
  "isNeedAnd (GroupBy fs p) = isNeedAnd p" "order_str (GroupBy fs p) = order_str p"
  "isSorted (GroupBy fs p) = isSorted p" "limit_val (GroupBy fs p) = limit_val p"
  "offset_val (GroupBy fs p) = offset_val p" "is_distinct (GroupBy fs p) = is_distinct p"
  "index_str (GroupBy fs p) = index_str p"
  by (auto simp: GroupBy_def split: sum.splits option.splits)

interpretation abs_builder: clause_builder pred_call_on whereClause whereArgs isNeedAnd pred_act
proof
  fix c :: pred_call and s :: "'a abs_predicates_scheme"
  note defs = pred_defs compare_act_def in_act_def CheckIsNeedAnd_def Let_def
    AppendWhereClauseWithInOrNotIn_def
  show "whereClause (pred_call_on c s) = whereClause s @ render (act_tokens (pred_act c) (isNeedAnd s))"
    by (cases c) (simp_all add: defs GroupBy_frame)
  show "whereArgs (pred_call_on c s) = whereArgs s @ act_args (pred_act c)"
    by (cases c) (simp_all add: defs GroupBy_frame)
  show "isNeedAnd (pred_call_on c s) = act_need (pred_act c) (isNeedAnd s)"
    by (cases c) (simp_all add: defs GroupBy_frame)
  show "good_action (pred_act c)"
    by (cases c) (simp_all add: compare_act_def in_act_def)
qed

subsection \<open>Column names\<close>

lemma RemoveQuotes_filter:
  "RemoveQuotes s = filter (\<lambda>c. c \<noteq> bquote \<and> c \<noteq> dquote \<and> c \<noteq> squote) s"
  by (auto simp: RemoveQuotes_def conj_ac)

lemma Normalized_split_eq:
  "left \<le> length s \<Longrightarrow> Normalized_split s left acc =
     (acc @ butlast (split_on CHR ''.'' (drop left s)),
      length s - length (last (split_on CHR ''.'' (drop left s))))"
proof (induction s left acc rule: Normalized_split.induct)
  case (1 s left acc)
  let ?d = "CHR ''.''"
  show ?case
  proof (cases "find_from ?d s left")
    case None
    then have "split_on ?d (drop left s) = [drop left s]"
      by (simp add: find_from_None split_on_notin)
    with None "1.prems" show ?thesis by (subst Normalized_split.simps) simp
  next
    case (Some pos)
    let ?a = "takeWhile (\<lambda>x. x \<noteq> ?d) (drop left s)"
    from Some have pos: "pos = left + length ?a" and p: "pos < length s" "s ! pos = ?d"
      using find_from_Some [OF Some] by (auto simp: find_from_def Let_def split: if_splits)
    have a: "take (pos - left) (drop left s) = ?a"
      by (metis takeWhile_eq_take pos diff_add_inverse)
    have "drop left s = ?a @ drop pos s"
      using takeWhile_dropWhile_id [of "\<lambda>x. x \<noteq> ?d" "drop left s"] pos
      by (simp add: dropWhile_eq_drop add.commute)
    also have "drop pos s = ?d # drop (pos + 1) s"
      using p by (simp add: Cons_nth_drop_Suc [symmetric])
    finally have dec: "drop left s = ?a @ ?d # drop (pos + 1) s" .
    have "?d \<notin> set ?a" by (auto dest: set_takeWhileD)
    from split_on_append [OF this, of "drop (pos + 1) s"] dec
    have sp: "split_on ?d (drop left s) = ?a # split_on ?d (drop (pos + 1) s)" by simp
    show ?thesis
      using "1.IH" [OF Some] p Some sp a
      by (subst Normalized_split.simps) (simp add: substr_def)
  qed
qed

text \<open>
  The reference for \<open>Normalized\<close>: the dot-separated parts of the name, a trailing empty part dropped;
  a name of one part without a dot and a name of two parts are quoted part by part.
\<close>

definition column_parts :: "string \<Rightarrow> string list" where
  "column_parts s =
     (let parts = split_on CHR ''.'' s in if last parts = [] then butlast parts else parts)"

lemma pair_case:
  "(case xs of [a, b] \<Rightarrow> f a b | _ \<Rightarrow> z) = (if length xs \<noteq> 2 then z else f (xs ! 0) (xs ! 1))"
  by (auto split: list.splits simp: numeral_2_eq_2)

lemma Normalized_parts:
  "s \<noteq> [] \<Longrightarrow> Normalized s =
     (if CHR ''.'' \<notin> set s then bquote # s @ [bquote]
      else case column_parts s of
             [a, b] \<Rightarrow> SurroundWithQuote a [bquote] @ ''.'' @ SurroundWithQuote b [bquote]
           | _ \<Rightarrow> s)"
proof -
  assume s: "s \<noteq> []"
  let ?ps = "split_on CHR ''.'' s"
  obtain u where u: "s = u @ last ?ps" using split_on_last_suffix by blast
  then have len: "length s - length (last ?ps) = length u" and dr: "drop (length u) s = last ?ps"
    by (metis diff_add_inverse2 length_append, metis append_eq_conv_conj)
  obtain sp left where nsp: "Normalized_split s 0 [] = (sp, left)" by fastforce
  then have "(if left < length s then sp @ [drop left s] else sp) = column_parts s"
    using Normalized_split_eq [of 0 s "[]"] len dr u
    by (cases "last ?ps = []") (auto simp: column_parts_def Let_def)
  with nsp s show ?thesis
    by (simp add: Normalized_def find_from_None SurroundWithQuote_def Let_def pair_case)
qed

lemma split_on_subset: "t \<in> set (split_on c s) \<Longrightarrow> set t \<subseteq> set s"
proof (induction s arbitrary: t)
  case (Cons x s)
  then show ?case by (fastforce split: list.splits if_splits)
qed simp

lemma column_parts_subset: "t \<in> set (column_parts s) \<Longrightarrow> set t \<subseteq> set s"
  by (auto simp: column_parts_def Let_def split: if_splits dest!: in_set_butlastD split_on_subset)

lemma set_Normalized: "set (Normalized s) \<subseteq> set s \<union> {bquote, CHR ''.''}"
proof (cases "s = []")
  case True
  then show ?thesis by (simp add: Normalized_def)
next
  case False
  have "set a \<subseteq> set s \<and> set b \<subseteq> set s" if "column_parts s = [a, b]" for a b
    using column_parts_subset [of a s] column_parts_subset [of b s] that by simp
  with False show ?thesis
    by (auto simp: Normalized_parts SurroundWithQuote_def split: list.splits)
qed

lemma hole_not_in_column: "CHR ''?'' \<notin> set f \<Longrightarrow> CHR ''?'' \<notin> set (column_of f)"
  using set_Normalized [of "RemoveQuotes f"] by (auto simp: RemoveQuotes_filter)

lemma SurroundWithFunction_loop_eq:
  "SurroundWithFunction_loop sep False b xs = b @ concat (map (\<lambda>x. '' '' @ sep @ '' '' @ x) xs)"
  by (induction xs arbitrary: b) auto

lemma SurroundWithFunction_join:
  "SurroundWithFunction f sep xs = f @ ''('' @ join_with ('' '' @ sep @ '' '') xs @ '')''"
proof -
  have "join_with s (x # ys) = x @ concat (map (\<lambda>x. s @ x) ys)" for s x ys
    by (induction ys arbitrary: x) auto
  then show ?thesis
    by (cases xs) (auto simp: SurroundWithFunction_def SurroundWithFunction_loop_eq)
qed

lemma count_join_holes:
  "count_list (join_with '' , '' (replicate n ''?'')) CHR ''?'' = n"
  by (induction n rule: induct_nat_012) auto

subsection \<open>The calls of a builder and what they leave alone\<close>

fun call_column :: "pred_call \<Rightarrow> string" where
  "call_column (cEqualTo f v) = f"
| "call_column (cNotEqualTo f v) = f"
| "call_column (cContains f v) = f"
| "call_column (cBeginsWith f v) = f"
| "call_column (cEndsWith f v) = f"
| "call_column (cLike f v) = f"
| "call_column (cGlob f v) = f"
| "call_column (cGreaterThan f v) = f"
| "call_column (cLessThan f v) = f"
| "call_column (cGreaterThanOrEqualTo f v) = f"
| "call_column (cLessThanOrEqualTo f v) = f"
| "call_column (cIsNull f) = f"
| "call_column (cIsNotNull f) = f"
| "call_column (cBetween f lo hi) = f"
| "call_column (cNotBetween f lo hi) = f"
| "call_column (cIn f vs) = f"
| "call_column (cNotIn f vs) = f"
| "call_column _ = []"

fun order_term :: "pred_call \<Rightarrow> string list" where
  "order_term (cOrderByAsc f) = (if f = [] then [] else [column_of f @ '' ASC ''])"
| "order_term (cOrderByDesc f) = (if f = [] then [] else [column_of f @ '' DESC ''])"
| "order_term _ = []"

fun limit_term :: "pred_call \<Rightarrow> int list" where
  "limit_term (cLimit n) = (if n < 1 then [] else [n])"
| "limit_term _ = []"

fun offset_term :: "pred_call \<Rightarrow> int list" where
  "offset_term (cOffset n) = (if n < 1 then [] else [n])"
| "offset_term _ = []"

definition first_or_unset :: "int list \<Rightarrow> int" where
  "first_or_unset ns = (case ns of [] \<Rightarrow> -1 | n # _ \<Rightarrow> n)"

lemmas call_unfolds = pred_defs CheckIsNeedAnd_def AppendWhereClauseWithInOrNotIn_def Let_def

lemma order_call:
  "order_term c = [] \<Longrightarrow> order_str (pred_call_on c p) = order_str p \<and> isSorted (pred_call_on c p) = isSorted p"
  by (cases c) (simp_all add: call_unfolds split: if_splits)

lemma order_call_term:
  "order_term c = [t] \<Longrightarrow> order_str (pred_call_on c p) = order_str p @ (if isSorted p then '','' else []) @ t
    \<and> isSorted (pred_call_on c p)"
  by (cases c) (auto simp: call_unfolds split: if_splits)

lemma order_term_cases: "order_term c = [] \<or> (\<exists>t. order_term c = [t])"
  by (cases c) auto

lemma limit_call:
  "limit_val (pred_call_on c p) = (if limit_val p = -1 then first_or_unset (limit_term c) else limit_val p)"
  by (cases c) (simp_all add: call_unfolds first_or_unset_def)

lemma offset_call:
  "offset_val (pred_call_on c p) = (if offset_val p = -1 then first_or_unset (offset_term c) else offset_val p)"
  by (cases c) (simp_all add: call_unfolds first_or_unset_def)

lemma limit_terms_positive: "n \<in> set (limit_term c) \<Longrightarrow> 1 \<le> n"
  and offset_terms_positive: "n \<in> set (offset_term c) \<Longrightarrow> 1 \<le> n"
  by (cases c; auto split: if_splits)+

lemma first_or_unset_append:
  "\<forall>n \<in> set ns. 1 \<le> n \<Longrightarrow> first_or_unset (ns @ ms) =
     (if first_or_unset ns = -1 then first_or_unset ms else first_or_unset ns)"
  by (cases ns) (auto simp: first_or_unset_def)

lemma token_text_holes:
  "CHR ''?'' \<notin> set (call_column c) \<Longrightarrow> t \<in> set (act_tokens (pred_act c) need) \<Longrightarrow>
     count_list (token_text t) CHR ''?'' = token_holes t"
  by (cases c; auto simp: compare_act_def in_act_def SurroundWithFunction_join count_join_holes
      count_list_notin hole_not_in_column split: if_splits)

lemma spec_tokens_texts:
  assumes "\<forall>c \<in> set cs. CHR ''?'' \<notin> set (call_column c)"
    and "\<forall>t \<in> set ts. count_list (token_text t) CHR ''?'' = token_holes t"
  shows "\<forall>t \<in> set (fst (spec_run (map pred_act cs) (ts, xs, need))).
    count_list (token_text t) CHR ''?'' = token_holes t"
  using assms
proof (induction cs arbitrary: ts xs need)
  case Nil
  then show ?case by simp
next
  case (Cons c cs)
  have "\<forall>t \<in> set (ts @ act_tokens (pred_act c) need). count_list (token_text t) CHR ''?'' = token_holes t"
    using Cons.prems token_text_holes [of c] by auto
  from Cons.IH [OF _ this] Cons.prems(1) show ?case by simp
qed

lemma render_holes:
  "\<forall>t \<in> set ts. count_list (token_text t) CHR ''?'' = token_holes t \<Longrightarrow>
     count_list (render ts) CHR ''?'' = holes ts"
  by (induction ts) auto

lemma AbsPredicates_fields [simp]:
  "whereClause AbsPredicates = []" "whereArgs AbsPredicates = []" "isNeedAnd AbsPredicates = False"
  "order_str AbsPredicates = []" "isSorted AbsPredicates = False" "group_str AbsPredicates = []"
  "limit_val AbsPredicates = -1" "offset_val AbsPredicates = -1" "index_str AbsPredicates = []"
  "is_distinct AbsPredicates = False"
  by (simp_all add: AbsPredicates_def)

subsection \<open>Properties\<close>

text \<open>
  C2 (refinement): for every sequence of calls on a new builder, the WHERE text is the rendering of the
  token sequence the calls specify, the bound arguments are the specified ones in order, and the
  \<open>isNeedAnd\<close> flag says exactly whether the sequence ends in an operand.
\<close>

theorem builder_refines_tokens:
  "whereClause (fold pred_call_on cs AbsPredicates) = render (spec_tokens (map pred_act cs))
    \<and> whereArgs (fold pred_call_on cs AbsPredicates) = spec_args (map pred_act cs)
    \<and> scan (spec_tokens (map pred_act cs)) = Some (isNeedAnd (fold pred_call_on cs AbsPredicates))"
  using abs_builder.run_from_empty [of AbsPredicates cs] abs_builder.run_scan [of cs] by simp

text \<open>
  C9 (safety): if the parentheses the calls open and close are balanced and the last call left an
  operand, the WHERE text renders a token sequence of the grammar of SQL conditions (operands joined
  by AND and OR, properly parenthesised), with exactly one placeholder per bound argument.
\<close>

theorem builder_condition:
  assumes "isNeedAnd (fold pred_call_on cs AbsPredicates)"
    and "depth_from 0 (spec_tokens (map pred_act cs)) = Some 0"
  shows "sql_expr (spec_tokens (map pred_act cs))
    \<and> whereClause (fold pred_call_on cs AbsPredicates) = render (spec_tokens (map pred_act cs))
    \<and> holes (spec_tokens (map pred_act cs)) = length (whereArgs (fold pred_call_on cs AbsPredicates))"
  using abs_builder.run_condition [of AbsPredicates cs] assms by simp

definition sample_calls :: "pred_call list" where
  "sample_calls = [cEqualTo ''t.a'' ''1'', cBeginWrap, cIn ''b'' [''x'', ''y''], cOr, cIsNull ''c'', cEndWrap]"

lemmas call_eval = sample_calls_def compare_act_def in_act_def call_unfolds pred_call_on.simps

theorem builder_condition_witness:
  "whereClause (fold pred_call_on sample_calls AbsPredicates)
     = ''`t`.`a` = ? AND  ( `b` IN (? , ?) OR `c` is null  ) ''
   \<and> sql_expr (spec_tokens (map pred_act sample_calls))"
proof -
  have c: "column_of ''t.a'' = ''`t`.`a`''" "column_of ''b'' = ''`b`''" "column_of ''c'' = ''`c`''"
    by code_simp+
  have f: "SurroundWithFunction '' IN '' '','' [''?'', ''?''] = '' IN (? , ?)''" by code_simp
  have n: "isNeedAnd (fold pred_call_on sample_calls AbsPredicates)"
    by (simp add: call_eval)
  have d: "depth_from 0 (spec_tokens (map pred_act sample_calls)) = Some 0"
    by (simp add: call_eval numeral_2_eq_2)
  show ?thesis
    using builder_condition [OF n d] c f by (simp add: call_eval numeral_2_eq_2)
qed

text \<open>
  C37 (bounds): as long as no column name given to a comparison contains a question mark, the number of
  placeholders in the WHERE text equals the number of bound arguments, whatever the calls.
\<close>

theorem builder_placeholders:
  assumes "\<forall>c \<in> set cs. CHR ''?'' \<notin> set (call_column c)"
  shows "count_list (whereClause (fold pred_call_on cs AbsPredicates)) CHR ''?''
    = length (whereArgs (fold pred_call_on cs AbsPredicates))"
proof -
  have "count_list (render (spec_tokens (map pred_act cs))) CHR ''?'' = holes (spec_tokens (map pred_act cs))"
    by (rule render_holes, rule spec_tokens_texts [OF assms]) simp
  then show ?thesis
    using abs_builder.run_from_empty [of AbsPredicates cs] abs_builder.run_holes [of cs] by simp
qed

theorem builder_placeholders_witness:
  "count_list (whereClause (fold pred_call_on sample_calls AbsPredicates)) CHR ''?'' = 3
   \<and> whereArgs (fold pred_call_on sample_calls AbsPredicates) = [''1'', ''x'', ''y'']"
proof -
  have a: "whereArgs (fold pred_call_on sample_calls AbsPredicates) = [''1'', ''x'', ''y'']"
    by (simp add: call_eval)
  have "\<forall>c \<in> set sample_calls. CHR ''?'' \<notin> set (call_column c)"
    by (simp add: sample_calls_def)
  from builder_placeholders [OF this] a show ?thesis by simp
qed

text \<open>
  The ORDER BY text after any calls is the accepted sort terms in call order, joined
  by commas.
\<close>

theorem builder_order:
  "order_str (fold pred_call_on cs AbsPredicates) = join_with '','' (concat (map order_term cs))
    \<and> (isSorted (fold pred_call_on cs AbsPredicates) \<longleftrightarrow> concat (map order_term cs) \<noteq> [])"
proof (induction cs rule: rev_induct)
  case Nil
  then show ?case by simp
next
  case (snoc c cs)
  from order_term_cases [of c] show ?case
  proof
    assume "order_term c = []"
    with snoc order_call [of c "fold pred_call_on cs AbsPredicates"] show ?thesis by simp
  next
    assume "\<exists>t. order_term c = [t]"
    then obtain t where t: "order_term c = [t]" by blast
    from order_call_term [OF t, of "fold pred_call_on cs AbsPredicates"] snoc t show ?thesis
      by (simp add: join_with_snoc del: concat_eq_Nil_conv)
  qed
qed

text \<open>
  LIMIT and OFFSET keep the first positive value they are given; later calls and
  values below one change nothing, and \<open>-1\<close> means that no call was accepted.
\<close>

theorem builder_limit_offset:
  "limit_val (fold pred_call_on cs AbsPredicates) = first_or_unset (concat (map limit_term cs))
    \<and> offset_val (fold pred_call_on cs AbsPredicates) = first_or_unset (concat (map offset_term cs))"
proof (induction cs rule: rev_induct)
  case Nil
  then show ?case by (simp add: first_or_unset_def)
next
  case (snoc c cs)
  have "\<forall>n \<in> set (concat (map limit_term cs)). 1 \<le> n" "\<forall>n \<in> set (concat (map offset_term cs)). 1 \<le> n"
    using limit_terms_positive offset_terms_positive by auto
  with snoc show ?case
    by (simp add: limit_call offset_call first_or_unset_append)
qed

text \<open>
  The index loop of \<open>Normalized\<close> computes the quoting by dot-separated parts: a name
  without a dot is quoted whole, a name of two parts is quoted part by part, and any other name is
  returned as it is, unquoted.
\<close>

theorem Normalized_quotes_parts:
  "Normalized s =
     (if s = [] then []
      else if CHR ''.'' \<notin> set s then bquote # s @ [bquote]
      else case column_parts s of
             [a, b] \<Rightarrow> SurroundWithQuote a [bquote] @ ''.'' @ SurroundWithQuote b [bquote]
           | _ \<Rightarrow> s)"
proof (cases "s = []")
  case True
  then show ?thesis by (simp add: Normalized_def)
next
  case False
  then show ?thesis using Normalized_parts [OF False] by simp
qed

lemma GroupBy_loop_Inr:
  "[] \<notin> set fs \<Longrightarrow> GroupBy_loop fs g = Inr (g @ concat (map (\<lambda>f. column_of f @ '','') fs))"
  by (induction fs arbitrary: g) auto

lemma concat_terminated:
  "fs \<noteq> [] \<Longrightarrow> concat (map (\<lambda>f. h f @ [c]) fs) = join_with [c] (map h fs) @ [c]"
  by (induction fs rule: induct_list012) auto

text \<open>
  Grouping by a non-empty list of non-empty names appends the quoted names, separated
  by commas and without a trailing one, to whatever the GROUP BY text was before.
\<close>

theorem GroupBy_columns:
  assumes "fs \<noteq> []" and "[] \<notin> set fs"
  shows "group_str (GroupBy fs p) = group_str p @ join_with '','' (map column_of fs)"
proof -
  have "group_str p @ concat (map (\<lambda>f. column_of f @ '','') fs)
      = (group_str p @ join_with '','' (map column_of fs)) @ '',''"
    using concat_terminated [OF assms(1), of column_of] by simp
  with assms show ?thesis
    by (simp add: GroupBy_def GroupBy_loop_Inr del: append_assoc length_append)
qed

theorem GroupBy_columns_witness:
  "group_str (GroupBy [''b''] (GroupBy [''a''] AbsPredicates)) = ''`a``b`''"
proof -
  have "[''a''] \<noteq> [] \<and> [] \<notin> set [''a'']" "[''b''] \<noteq> [] \<and> [] \<notin> set [''b'']" by simp_all
  then have "group_str (GroupBy [''b''] (GroupBy [''a''] AbsPredicates))
      = (group_str AbsPredicates @ join_with '','' (map column_of [''a''])) @ join_with '','' (map column_of [''b''])"
    using GroupBy_columns [of "[''a'']" AbsPredicates] GroupBy_columns [of "[''b'']" "GroupBy [''a''] AbsPredicates"]
    by simp
  also have "\<dots> = ''`a``b`''" by code_simp
  finally show ?thesis .
qed

end
