(* ===== verification/Rdb_Predicates.thy ===== *)
theory Rdb_Predicates
  imports Predicates
begin

text \<open>
  The predicate classes bound to a table: \<open>AbsRdbPredicates\<close> (abs_rdb_predicates.cpp), which mirrors
  some calls into the predicates of the distributed service, and \<open>RdbPredicates\<close>
  (rdb_predicates.cpp), which adds joins.  C++ inheritance is record extension.  The class
  \<open>DistributedRdb::RdbPredicates\<close> belongs to another repository: its object is a value of type
  \<open>'d\<close> and its operations are the parameter \<open>'d dist_ops\<close>.
\<close>

subsection \<open>The distributed predicates, a parameter\<close>

datatype rdb_operator = EQUAL_TO | NOT_EQUAL_TO | AND_OP | OR_OP | ORDER_BY | LIMIT

record 'd dist_ops =
  new_predicates :: 'd
  set_table :: "string \<Rightarrow> 'd \<Rightarrow> 'd"
  set_devices :: "string list \<Rightarrow> 'd \<Rightarrow> 'd"
  AddOperation :: "rdb_operator \<Rightarrow> string \<Rightarrow> string \<Rightarrow> 'd \<Rightarrow> 'd"

subsection \<open>AbsRdbPredicates\<close>

record 'd rdb_predicates = abs_predicates +
  tableName :: string
  joinTypes :: "string list"
  joinTableNames :: "string list"
  joinConditions :: "string list"
  joinCount :: int
  dist_predicates :: 'd

definition AbsRdbPredicates :: "'d dist_ops \<Rightarrow> string \<Rightarrow> 'd rdb_predicates" where
  "AbsRdbPredicates ops name =
     (let p = abs_predicates.extend AbsPredicates
                (rdb_predicates.fields [] [] [] [] 0 (new_predicates ops))
      in if name = [] then p\<lparr>tableName := []\<rparr>
         else p\<lparr>tableName := name, dist_predicates := set_table ops name (dist_predicates p)\<rparr>)"

definition InitialParam :: "('d, 'a) rdb_predicates_scheme \<Rightarrow> ('d, 'a) rdb_predicates_scheme" where
  "InitialParam p = p\<lparr>joinTypes := [], joinTableNames := [], joinConditions := [], joinCount := 0\<rparr>"

definition AbsRdbPredicates_Clear :: "('d, 'a) rdb_predicates_scheme \<Rightarrow> ('d, 'a) rdb_predicates_scheme" where
  "AbsRdbPredicates_Clear p = InitialParam (AbsPredicates_Clear p)"

definition AbsRdbPredicates_GetJoinClause :: "('d, 'a) rdb_predicates_scheme \<Rightarrow> string" where
  "AbsRdbPredicates_GetJoinClause p = tableName p"

fun ToString_args :: "string list \<Rightarrow> string \<Rightarrow> string" where
  "ToString_args [] args = args"
| "ToString_args (item # items) args = ToString_args items (args @ item @ '', '')"

definition ToString :: "('d, 'a) rdb_predicates_scheme \<Rightarrow> string" where
  "ToString p =
     ''TableName = '' @ tableName p @ '', {WhereClause:'' @ whereClause p @ '', whereArgs:{''
       @ ToString_args (whereArgs p) [] @ ''}''
       @ '', order:'' @ order_str p @ '', group:'' @ group_str p @ '', index:'' @ index_str p
       @ '', limit:'' @ to_string (limit_val p) @ '', offset:'' @ to_string (offset_val p)
       @ '', distinct:'' @ to_string (of_bool (is_distinct p))
       @ '', isNeedAnd:'' @ to_string (of_bool (isNeedAnd p))
       @ '', isSorted:'' @ to_string (of_bool (isSorted p)) @ ''}''"

definition InDevices :: "'d dist_ops \<Rightarrow> string list \<Rightarrow> ('d, 'a) rdb_predicates_scheme \<Rightarrow> ('d, 'a) rdb_predicates_scheme" where
  "InDevices ops devices p = p\<lparr>dist_predicates := set_devices ops devices (dist_predicates p)\<rparr>"

definition InAllDevices :: "'d dist_ops \<Rightarrow> ('d, 'a) rdb_predicates_scheme \<Rightarrow> ('d, 'a) rdb_predicates_scheme" where
  "InAllDevices ops p = p\<lparr>dist_predicates := set_devices ops [] (dist_predicates p)\<rparr>"

text \<open>The getter changes the mutable \<open>predicates_\<close>; it returns the object and what it hands out.\<close>

definition GetDistributedPredicates ::
    "'d dist_ops \<Rightarrow> ('d, 'a) rdb_predicates_scheme \<Rightarrow> 'd \<times> ('d, 'a) rdb_predicates_scheme" where
  "GetDistributedPredicates ops p =
     (let limit = limit_val p;
          p = (if limit \<ge> 0
               then p\<lparr>dist_predicates := AddOperation ops LIMIT (to_string limit) (to_string (offset_val p))
                        (dist_predicates p)\<rparr>
               else p)
      in (dist_predicates p, p))"

definition mirror :: "'d dist_ops \<Rightarrow> rdb_operator \<Rightarrow> string \<Rightarrow> string \<Rightarrow>
    ('d, 'a) rdb_predicates_scheme \<Rightarrow> ('d, 'a) rdb_predicates_scheme" where
  "mirror ops oper field value p =
     p\<lparr>dist_predicates := AddOperation ops oper field value (dist_predicates p)\<rparr>"

definition Rdb_EqualTo :: "'d dist_ops \<Rightarrow> string \<Rightarrow> string \<Rightarrow>
    ('d, 'a) rdb_predicates_scheme \<Rightarrow> ('d, 'a) rdb_predicates_scheme" where
  "Rdb_EqualTo ops field value p = EqualTo field value (mirror ops EQUAL_TO field value p)"

definition Rdb_NotEqualTo :: "'d dist_ops \<Rightarrow> string \<Rightarrow> string \<Rightarrow>
    ('d, 'a) rdb_predicates_scheme \<Rightarrow> ('d, 'a) rdb_predicates_scheme" where
  "Rdb_NotEqualTo ops field value p = NotEqualTo field value (mirror ops NOT_EQUAL_TO field value p)"

definition Rdb_And :: "'d dist_ops \<Rightarrow> ('d, 'a) rdb_predicates_scheme \<Rightarrow> ('d, 'a) rdb_predicates_scheme" where
  "Rdb_And ops p = And (mirror ops AND_OP [] [] p)"

definition Rdb_Or :: "'d dist_ops \<Rightarrow> ('d, 'a) rdb_predicates_scheme \<Rightarrow> ('d, 'a) rdb_predicates_scheme" where
  "Rdb_Or ops p = Or (mirror ops OR_OP [] [] p)"

definition Rdb_OrderByAsc :: "'d dist_ops \<Rightarrow> string \<Rightarrow>
    ('d, 'a) rdb_predicates_scheme \<Rightarrow> ('d, 'a) rdb_predicates_scheme" where
  "Rdb_OrderByAsc ops field p = OrderByAsc field (mirror ops ORDER_BY field ''true'' p)"

definition Rdb_OrderByDesc :: "'d dist_ops \<Rightarrow> string \<Rightarrow>
    ('d, 'a) rdb_predicates_scheme \<Rightarrow> ('d, 'a) rdb_predicates_scheme" where
  "Rdb_OrderByDesc ops field p = OrderByDesc field (mirror ops ORDER_BY field ''false'' p)"

text \<open>A call through a table-bound builder: the overridden methods, else the inherited one.\<close>

fun rdb_call_on :: "'d dist_ops \<Rightarrow> pred_call \<Rightarrow>
    ('d, 'a) rdb_predicates_scheme \<Rightarrow> ('d, 'a) rdb_predicates_scheme" where
  "rdb_call_on ops (cEqualTo f v) = Rdb_EqualTo ops f v"
| "rdb_call_on ops (cNotEqualTo f v) = Rdb_NotEqualTo ops f v"
| "rdb_call_on ops cAnd = Rdb_And ops"
| "rdb_call_on ops cOr = Rdb_Or ops"
| "rdb_call_on ops (cOrderByAsc f) = Rdb_OrderByAsc ops f"
| "rdb_call_on ops (cOrderByDesc f) = Rdb_OrderByDesc ops f"
| "rdb_call_on ops c = pred_call_on c"

subsection \<open>RdbPredicates: joins\<close>

datatype JoinType = INNER | LEFT | CROSS

definition RdbPredicates :: "'d dist_ops \<Rightarrow> string \<Rightarrow> 'd rdb_predicates" where
  "RdbPredicates ops name = InitialParam (AbsRdbPredicates ops name)"

definition GetGrammar :: "JoinType \<Rightarrow> string" where
  "GetGrammar type =
     (if type = INNER then ''INNER JOIN''
      else if type = LEFT then ''LEFT OUTER JOIN''
      else ''CROSS JOIN'')"

definition Join :: "JoinType \<Rightarrow> string \<Rightarrow> ('d, 'a) rdb_predicates_scheme \<Rightarrow> ('d, 'a) rdb_predicates_scheme" where
  "Join join name p =
     (if name = [] then p
      else p\<lparr>joinTypes := joinTypes p @ [GetGrammar join],
             joinTableNames := joinTableNames p @ [name],
             joinCount := joinCount p + 1\<rparr>)"

definition CrossJoin :: "string \<Rightarrow> ('d, 'a) rdb_predicates_scheme \<Rightarrow> ('d, 'a) rdb_predicates_scheme" where
  "CrossJoin name = Join CROSS name"

definition InnerJoin :: "string \<Rightarrow> ('d, 'a) rdb_predicates_scheme \<Rightarrow> ('d, 'a) rdb_predicates_scheme" where
  "InnerJoin name = Join INNER name"

definition LeftOuterJoin :: "string \<Rightarrow> ('d, 'a) rdb_predicates_scheme \<Rightarrow> ('d, 'a) rdb_predicates_scheme" where
  "LeftOuterJoin name = Join LEFT name"

text \<open>The loop \<open>while (joinCount > 1)\<close> of \<open>Using\<close> and \<open>On\<close>.\<close>

function skip_conditions :: "('d, 'a) rdb_predicates_scheme \<Rightarrow> ('d, 'a) rdb_predicates_scheme" where
  "skip_conditions p =
     (if joinCount p > 1
      then skip_conditions (p\<lparr>joinConditions := joinConditions p @ [[]], joinCount := joinCount p - 1\<rparr>)
      else p)"
  by pat_completeness auto
termination by (relation "measure (\<lambda>p. nat (joinCount p))") auto

declare skip_conditions.simps [simp del]

definition Using :: "string list \<Rightarrow> ('d, 'a) rdb_predicates_scheme \<Rightarrow> ('d, 'a) rdb_predicates_scheme" where
  "Using flds p =
     (if length flds = 0 then p
      else if joinCount p \<le> 0 then p
      else let p = skip_conditions p;
               p = p\<lparr>joinCount := joinCount p - 1\<rparr>
           in p\<lparr>joinConditions := joinConditions p @ [SurroundWithFunction ''USING'' '','' flds]\<rparr>)"

definition On :: "string list \<Rightarrow> ('d, 'a) rdb_predicates_scheme \<Rightarrow> ('d, 'a) rdb_predicates_scheme" where
  "On clauses p =
     (if length clauses = 0 then p
      else if joinCount p \<le> 0 then p
      else let p = skip_conditions p;
               p = p\<lparr>joinCount := joinCount p - 1\<rparr>
           in p\<lparr>joinConditions := joinConditions p @ [SurroundWithFunction ''ON'' ''AND'' clauses]\<rparr>)"

text \<open>
  The loop of \<open>ProcessJoins\<close> over \<open>i\<close>: \<open>None\<close> where the source reads \<open>joinTypes[i]\<close> or
  \<open>joinConditions[i]\<close> past the end of the vector, which C++ leaves undefined.
\<close>

function ProcessJoins_from :: "nat \<Rightarrow> string \<Rightarrow> ('d, 'a) rdb_predicates_scheme \<Rightarrow> string option" where
  "ProcessJoins_from i builder p =
     (if i < length (joinTableNames p) then
        if i < length (joinTypes p) \<and> i < length (joinConditions p) then
          let builder = builder @ '' '' @ joinTypes p ! i @ '' '' @ joinTableNames p ! i;
              builder = (if joinConditions p ! i \<noteq> [] then builder @ '' '' @ joinConditions p ! i else builder)
          in ProcessJoins_from (Suc i) builder p
        else None
      else Some builder)"
  by pat_completeness auto
termination by (relation "measure (\<lambda>(i, b, p). length (joinTableNames p) - i)") auto

declare ProcessJoins_from.simps [simp del]

definition ProcessJoins :: "('d, 'a) rdb_predicates_scheme \<Rightarrow> string option" where
  "ProcessJoins p = ProcessJoins_from 0 (tableName p) p"

definition GetJoinClause :: "('d, 'a) rdb_predicates_scheme \<Rightarrow> string option" where
  "GetJoinClause p = (if joinTableNames p \<noteq> [] then ProcessJoins p else Some (tableName p))"

text \<open>The join calls a client can make, and their dispatch.\<close>

datatype join_call = jCross string | jInner string | jLeft string | jUsing "string list" | jOn "string list"

fun join_call_on :: "join_call \<Rightarrow> ('d, 'a) rdb_predicates_scheme \<Rightarrow> ('d, 'a) rdb_predicates_scheme" where
  "join_call_on (jCross t) = CrossJoin t"
| "join_call_on (jInner t) = InnerJoin t"
| "join_call_on (jLeft t) = LeftOuterJoin t"
| "join_call_on (jUsing fs) = Using fs"
| "join_call_on (jOn cs) = On cs"

definition join_inv :: "('d, 'a) rdb_predicates_scheme \<Rightarrow> bool" where
  "join_inv p \<longleftrightarrow> 0 \<le> joinCount p \<and> length (joinTypes p) = length (joinTableNames p)
     \<and> int (length (joinConditions p)) + joinCount p = int (length (joinTableNames p))"

fun join_text :: "string \<times> string \<times> string \<Rightarrow> string" where
  "join_text (type, name, cond) =
     '' '' @ type @ '' '' @ name @ (if cond \<noteq> [] then '' '' @ cond else [])"

definition join_list :: "('d, 'a) rdb_predicates_scheme \<Rightarrow> (string \<times> string \<times> string) list" where
  "join_list p = zip (joinTypes p) (zip (joinTableNames p) (joinConditions p))"

subsection \<open>The builder interface on table-bound predicates\<close>

lemma mirror_frame [simp]:
  "whereClause (mirror ops oper f v p) = whereClause p" "whereArgs (mirror ops oper f v p) = whereArgs p"
  "isNeedAnd (mirror ops oper f v p) = isNeedAnd p"
  "abs_predicates.truncate (mirror ops oper f v p) = abs_predicates.truncate p"
  by (simp_all add: mirror_def abs_predicates.truncate_def)

lemmas rdb_overrides = Rdb_EqualTo_def Rdb_NotEqualTo_def Rdb_And_def Rdb_Or_def Rdb_OrderByAsc_def
  Rdb_OrderByDesc_def

lemma rdb_call_mirrors: "\<exists>q. rdb_call_on ops c p = pred_call_on c q
    \<and> (q = p \<or> (\<exists>oper f v. q = mirror ops oper f v p))"
  by (cases c) (auto simp: rdb_overrides)

interpretation rdb_builder: clause_builder "rdb_call_on ops" whereClause whereArgs isNeedAnd pred_act
  for ops :: "'d dist_ops"
proof
  fix c and s :: "('d, 'a) rdb_predicates_scheme"
  obtain q where q: "rdb_call_on ops c s = pred_call_on c q"
    and f: "whereClause q = whereClause s" "whereArgs q = whereArgs s" "isNeedAnd q = isNeedAnd s"
    using rdb_call_mirrors [of ops c s] by auto
  show "whereClause (rdb_call_on ops c s) = whereClause s @ render (act_tokens (pred_act c) (isNeedAnd s))"
    using f by (simp add: q abs_builder.clause_call)
  show "whereArgs (rdb_call_on ops c s) = whereArgs s @ act_args (pred_act c)"
    using f by (simp add: q abs_builder.args_call)
  show "isNeedAnd (rdb_call_on ops c s) = act_need (pred_act c) (isNeedAnd s)"
    using f by (simp add: q abs_builder.need_call)
  show "good_action (pred_act c)" by (rule abs_builder.good_call)
qed

lemma pred_call_truncate:
  "abs_predicates.truncate (pred_call_on c p) = pred_call_on c (abs_predicates.truncate p)"
  by (cases c) (auto simp: call_unfolds GroupBy_def abs_predicates.truncate_def
      split: sum.splits option.splits)

lemma rdb_call_truncate:
  "abs_predicates.truncate (rdb_call_on ops c p) = pred_call_on c (abs_predicates.truncate p)"
  using rdb_call_mirrors [of ops c p] by (auto simp: pred_call_truncate)

lemma rdb_calls_truncate:
  "abs_predicates.truncate (fold (rdb_call_on ops) cs p) = fold pred_call_on cs (abs_predicates.truncate p)"
  by (induction cs arbitrary: p) (simp_all add: rdb_call_truncate)

lemma RdbPredicates_fields [simp]:
  "abs_predicates.truncate (RdbPredicates ops name) = AbsPredicates"
  "joinTypes (RdbPredicates ops name) = []" "joinTableNames (RdbPredicates ops name) = []"
  "joinConditions (RdbPredicates ops name) = []" "joinCount (RdbPredicates ops name) = 0"
  "tableName (RdbPredicates ops name) = name"
  by (simp_all add: RdbPredicates_def AbsRdbPredicates_def InitialParam_def AbsPredicates_def Let_def
      abs_predicates.truncate_def abs_predicates.extend_def rdb_predicates.fields_def)

text \<open>
  Whatever the calls and whatever the distributed service does with the mirrored
  operations, the local part of a table-bound builder is the one the base class builds.
\<close>

theorem rdb_calls_local:
  "abs_predicates.truncate (fold (rdb_call_on ops) cs (RdbPredicates ops name))
     = fold pred_call_on cs AbsPredicates"
  by (simp add: rdb_calls_truncate)

subsection \<open>Joins\<close>

lemma skip_conditions_eq:
  "skip_conditions p =
     p\<lparr>joinConditions := joinConditions p @ replicate (nat (joinCount p) - 1) [],
       joinCount := min 1 (joinCount p)\<rparr>"
proof (induction p rule: skip_conditions.induct)
  case (1 p)
  show ?case
  proof (cases "joinCount p > 1")
    case True
    then obtain k where "joinCount p = 2 + int k" using zle_iff_zadd [of 2 "joinCount p"] by auto
    then show ?thesis
      using True 1 by (subst skip_conditions.simps) (simp add: nat_add_distrib)
  next
    case False
    then show ?thesis by (subst skip_conditions.simps) simp
  qed
qed

lemma join_call_inv: "join_inv p \<Longrightarrow> join_inv (join_call_on c p)"
  by (cases c) (auto simp: join_inv_def CrossJoin_def InnerJoin_def LeftOuterJoin_def Join_def
      Using_def On_def skip_conditions_eq Let_def)

lemma join_calls_inv: "join_inv p \<Longrightarrow> join_inv (fold join_call_on cs p)"
  by (induction cs arbitrary: p) (auto intro: join_call_inv)

lemma join_call_table [simp]: "tableName (join_call_on c p) = tableName p"
  by (cases c) (auto simp: CrossJoin_def InnerJoin_def LeftOuterJoin_def Join_def
      Using_def On_def skip_conditions_eq Let_def)

lemma join_calls_table [simp]: "tableName (fold join_call_on cs p) = tableName p"
  by (induction cs arbitrary: p) auto

lemma ProcessJoins_from_eq:
  assumes "length (joinTypes p) = length (joinTableNames p)"
  shows "ProcessJoins_from i b p =
    (if i < length (joinTableNames p) \<and> length (joinConditions p) < length (joinTableNames p) then None
     else Some (b @ concat (map join_text (drop i (join_list p)))))"
  using assms
proof (induction i b p rule: ProcessJoins_from.induct)
  case (1 i b p)
  show ?case
  proof (cases "i < length (joinTableNames p)")
    case False
    then show ?thesis
      using 1 by (subst ProcessJoins_from.simps) (simp add: join_list_def)
  next
    case lt: True
    show ?thesis
    proof (cases "i < length (joinConditions p)")
      case False
      with lt show ?thesis by (subst ProcessJoins_from.simps) simp
    next
      case True
      with lt "1.prems" have "i < length (join_list p)" by (simp add: join_list_def)
      from Cons_nth_drop_Suc [OF this] have
        "drop i (join_list p) = join_list p ! i # drop (Suc i) (join_list p)" by simp
      moreover have "join_list p ! i = (joinTypes p ! i, joinTableNames p ! i, joinConditions p ! i)"
        using lt True "1.prems" by (simp add: join_list_def)
      ultimately show ?thesis
        using 1 lt True
        by (subst ProcessJoins_from.simps) (auto simp: Let_def join_list_def)
    qed
  qed
qed

text \<open>
  After any join calls on a new builder, the type and table vectors have one length,
  and the conditions plus the joins still without one make up that length.
\<close>

theorem join_calls_keep_inv:
  "join_inv (fold join_call_on cs (RdbPredicates ops name))"
  by (rule join_calls_inv) (simp add: join_inv_def)

text \<open>
  The join clause is read within the bounds of the condition vector exactly when no join
  is left without a condition; it is then the table name followed by each join in call order, with
  its condition if there is one.
\<close>

theorem GetJoinClause_defined:
  "GetJoinClause (fold join_call_on cs (RdbPredicates ops name)) =
     (if joinCount (fold join_call_on cs (RdbPredicates ops name)) = 0
      then Some (name @ concat (map join_text (join_list (fold join_call_on cs (RdbPredicates ops name)))))
      else None)"
proof -
  let ?p = "fold join_call_on cs (RdbPredicates ops name)"
  have inv: "join_inv ?p" by (rule join_calls_inv) (simp add: join_inv_def)
  then have "ProcessJoins ?p =
    (if joinTableNames ?p \<noteq> [] \<and> joinCount ?p \<noteq> 0 then None
     else Some (name @ concat (map join_text (join_list ?p))))"
    by (auto simp: ProcessJoins_def ProcessJoins_from_eq join_inv_def)
  with inv show ?thesis by (auto simp: GetJoinClause_def join_inv_def join_list_def)
qed

text \<open>
  A cross join that no \<open>on\<close> or \<open>using\<close> follows makes the query builder read the condition
  vector out of bounds.
\<close>

theorem CrossJoin_alone_undefined:
  "t \<noteq> [] \<Longrightarrow> GetJoinClause (CrossJoin t (RdbPredicates ops name)) = None"
  by (simp add: GetJoinClause_def ProcessJoins_def ProcessJoins_from_eq CrossJoin_def Join_def)

definition log_ops :: "(rdb_operator \<times> string \<times> string) list dist_ops" where
  "log_ops = \<lparr>new_predicates = [], set_table = (\<lambda>_ d. d), set_devices = (\<lambda>_ d. d),
     AddOperation = (\<lambda>oper f v d. d @ [(oper, f, v)])\<rparr>"

theorem CrossJoin_alone_undefined_witness:
  "GetJoinClause (CrossJoin ''Book'' (RdbPredicates log_ops ''user'')) = None"
  by (rule CrossJoin_alone_undefined) simp

text \<open>
  A comparison that the local builder rejects, because a field or a value is empty, is
  mirrored to the distributed predicates all the same.
\<close>

theorem rejected_call_is_mirrored:
  "f = [] \<or> v = [] \<Longrightarrow>
     abs_predicates.truncate (Rdb_EqualTo ops f v p) = abs_predicates.truncate p
     \<and> dist_predicates (Rdb_EqualTo ops f v p) = AddOperation ops EQUAL_TO f v (dist_predicates p)"
  by (auto simp: Rdb_EqualTo_def EqualTo_def) (simp_all add: mirror_def)

theorem rejected_call_is_mirrored_witness:
  "dist_predicates (Rdb_EqualTo log_ops ''name'' [] (RdbPredicates log_ops ''user''))
     = [(EQUAL_TO, ''name'', [])]
   \<and> abs_predicates.truncate (Rdb_EqualTo log_ops ''name'' [] (RdbPredicates log_ops ''user'')) = AbsPredicates"
proof -
  have "dist_predicates (RdbPredicates log_ops ''user'') = []"
    by (simp add: RdbPredicates_def AbsRdbPredicates_def InitialParam_def log_ops_def
        abs_predicates.extend_def rdb_predicates.fields_def Let_def)
  with rejected_call_is_mirrored [of "''name''" "[]" log_ops "RdbPredicates log_ops ''user''"]
  show ?thesis by (simp add: log_ops_def)
qed

end
