(* ===== verification/Sql_Builder.thy ===== *)
theory Sql_Builder
  imports Rdb_Predicates Value_Object
begin

text \<open>
  The SQL text of a statement: \<open>SqliteSqlBuilder\<close> (sqlite_sql_builder.cpp).  The column normaliser
  matches three \<open>std::regex\<close> patterns; the fragment of the ECMAScript syntax they use is a small
  datatype with a backtracking matcher that returns every match in the order the engine tries them.
\<close>

subsection \<open>Regular expressions\<close>

datatype regex =
    Chr "char \<Rightarrow> bool"
  | Star "char \<Rightarrow> bool"
  | Plus "char \<Rightarrow> bool"
  | Seq regex regex
  | Alt regex regex
  | Opt regex
  | Group nat regex
  | Backref nat

type_synonym captures = "nat \<Rightarrow> string option"

fun greedy :: "nat \<Rightarrow> nat \<Rightarrow> captures \<Rightarrow> string \<Rightarrow> (captures \<times> string) list" where
  "greedy least 0 c s = (if least = 0 then [(c, s)] else [])"
| "greedy least (Suc n) c s = (if least \<le> Suc n then (c, drop (Suc n) s) # greedy least n c s else [])"

text \<open>
  The matches of a pattern at the front of a string, as captures and rest, in the engine's orderer.
  ECMAScript lets a reference to a group that took no part in the match succeed on nothing; the common
  C++ libraries let it fail.  The flag \<open>unset\<close> says which.
\<close>

fun matches :: "bool \<Rightarrow> regex \<Rightarrow> captures \<Rightarrow> string \<Rightarrow> (captures \<times> string) list" where
  "matches unset (Chr P) c s = (case s of [] \<Rightarrow> [] | x # xs \<Rightarrow> if P x then [(c, xs)] else [])"
| "matches unset (Star P) c s = greedy 0 (length (takeWhile P s)) c s"
| "matches unset (Plus P) c s = greedy 1 (length (takeWhile P s)) c s"
| "matches unset (Seq r q) c s = concat (map (\<lambda>(c', s'). matches unset q c' s') (matches unset r c s))"
| "matches unset (Alt r q) c s = matches unset r c s @ matches unset q c s"
| "matches unset (Opt r) c s = matches unset r c s @ [(c, s)]"
| "matches unset (Group n r) c s =
     map (\<lambda>(c', s'). (c'(n \<mapsto> take (length s - length s') s), s')) (matches unset r c s)"
| "matches unset (Backref n) c s =
     (case c n of
        None \<Rightarrow> (if unset then [(c, s)] else [])
      | Some t \<Rightarrow> (if take (length t) s = t then [(c, drop (length t) s)] else []))"

definition regex_match :: "bool \<Rightarrow> regex \<Rightarrow> string \<Rightarrow> captures option" where
  "regex_match unset r s =
     (case filter (\<lambda>(c, rest). rest = []) (matches unset r Map.empty s) of
        [] \<Rightarrow> None
      | (c, _) # _ \<Rightarrow> Some c)"

definition is_word :: "char \<Rightarrow> bool" where
  "is_word c \<longleftrightarrow> is_digit c \<or> c = CHR ''_'' \<or> toupper c \<noteq> c \<or> tolower c \<noteq> c"

definition is_quote :: "char \<Rightarrow> bool" where
  "is_quote c \<longleftrightarrow> c = squote \<or> c = dquote \<or> c = bquote"

text \<open>\<open>^(\w+)$\<close>, \<open>^(['"`])?([^`"']+)\1$\<close> and \<open>^(\w+|\*)\s*([.]\s*(\w+|\*))?\s*(AS|as)?\s*(\w+)?$\<close>.\<close>

definition word_pattern :: regex where
  "word_pattern = Group 1 (Plus is_word)"

definition quoted_pattern :: regex where
  "quoted_pattern =
     Seq (Opt (Group 1 (Chr is_quote))) (Seq (Group 2 (Plus (\<lambda>c. \<not> is_quote c))) (Backref 1))"

definition word_or_star :: regex where
  "word_or_star = Alt (Plus is_word) (Chr (\<lambda>c. c = CHR ''*''))"

definition column_pattern :: regex where
  "column_pattern =
     Seq (Group 1 word_or_star) (Seq (Star is_space)
     (Seq (Opt (Group 2 (Seq (Chr (\<lambda>c. c = CHR ''.'')) (Seq (Star is_space) (Group 3 word_or_star)))))
     (Seq (Star is_space)
     (Seq (Opt (Group 4 (Alt (Seq (Chr (\<lambda>c. c = CHR ''A'')) (Chr (\<lambda>c. c = CHR ''S'')))
                            (Seq (Chr (\<lambda>c. c = CHR ''a'')) (Chr (\<lambda>c. c = CHR ''s''))))))
     (Seq (Star is_space) (Opt (Group 5 (Plus is_word))))))))"

definition capture :: "captures \<Rightarrow> nat \<Rightarrow> string" where
  "capture c n = (case c n of None \<Rightarrow> [] | Some t \<Rightarrow> t)"

subsection \<open>Column normalisation\<close>

definition trim_blanks :: "string \<Rightarrow> string" where
  "trim_blanks s = rev (dropWhile (\<lambda>c. c = CHR '' '') (rev (dropWhile (\<lambda>c. c = CHR '' '') s)))"

text \<open>Both methods take the error code by reference; here they return it beside the text.\<close>

definition NormalizeComplexPattern :: "bool \<Rightarrow> string \<Rightarrow> rdb_errno \<Rightarrow> string \<times> rdb_errno" where
  "NormalizeComplexPattern unset source errorCode =
     (let replaceResult = trim_blanks (filter (\<lambda>c. \<not> is_quote c) source) in
      case regex_match unset column_pattern replaceResult of
        None \<Rightarrow> (SurroundWithQuote replaceResult [bquote], errorCode)
      | Some result \<Rightarrow>
          let firstName = capture result 1; lastName = capture result 3; alias = capture result 5 in
          if firstName = [] then (SurroundWithQuote replaceResult [bquote], errorCode)
          else
            let aresult = SurroundWithQuote firstName [bquote];
                aresult = (if lastName \<noteq> [] then
                             if lastName = ''*'' then aresult @ ''.'' @ lastName
                             else aresult @ ''.'' @ SurroundWithQuote lastName [bquote]
                           else aresult)
            in if alias \<noteq> [] then
                 if lastName \<noteq> ''*'' then (aresult @ '' as '' @ SurroundWithQuote alias [bquote], errorCode)
                 else (aresult, E_SQLITE_SQL_BUILDER_NORMALIZE_FAIL)
               else (aresult, errorCode))"

definition Normalize :: "bool \<Rightarrow> string \<Rightarrow> rdb_errno \<Rightarrow> string \<times> rdb_errno" where
  "Normalize unset source errorCode =
     (if source = [] then ([], errorCode)
      else if regex_match unset word_pattern source \<noteq> None then (SurroundWithQuote source [bquote], errorCode)
      else if source = ''*'' then (''*'', errorCode)
      else if regex_match unset quoted_pattern source \<noteq> None then (source, errorCode)
      else NormalizeComplexPattern unset source errorCode)"

subsection \<open>Clauses\<close>

definition AppendClause :: "string \<Rightarrow> string \<Rightarrow> string \<Rightarrow> string" where
  "AppendClause builder name clause = (if clause = [] then builder else builder @ name @ clause)"

fun AppendColumns_from :: "bool \<Rightarrow> nat \<Rightarrow> string \<Rightarrow> string list \<Rightarrow> rdb_errno \<Rightarrow> string \<times> rdb_errno" where
  "AppendColumns_from unset i builder [] errorCode = (builder @ '' '', errorCode)"
| "AppendColumns_from unset i builder (column # columns) errorCode =
     (if length column \<noteq> 0 then
        let builder = (if i > 0 then builder @ '', '' else builder);
            (text, errorCode) = Normalize unset column errorCode
        in AppendColumns_from unset (Suc i) (builder @ text) columns errorCode
      else AppendColumns_from unset (Suc i) builder columns errorCode)"

definition AppendColumns :: "bool \<Rightarrow> string \<Rightarrow> string list \<Rightarrow> rdb_errno \<Rightarrow> string \<times> rdb_errno" where
  "AppendColumns unset builder columns errorCode = AppendColumns_from unset 0 builder columns errorCode"

fun AppendExpr_from :: "nat \<Rightarrow> string \<Rightarrow> string list \<Rightarrow> string" where
  "AppendExpr_from i builder [] = builder @ '' ''"
| "AppendExpr_from i builder (expr # exprs) =
     (if length expr \<noteq> 0
      then AppendExpr_from (Suc i) ((if i > 0 then builder @ '', '' else builder) @ expr) exprs
      else AppendExpr_from (Suc i) builder exprs)"

definition AppendExpr :: "string \<Rightarrow> string list \<Rightarrow> string" where
  "AppendExpr builder exprs = AppendExpr_from 0 builder exprs"

definition BuildSqlStringFromPredicates ::
    "string \<Rightarrow> string \<Rightarrow> string \<Rightarrow> string \<Rightarrow> int \<Rightarrow> int \<Rightarrow> string" where
  "BuildSqlStringFromPredicates index clause grp ord limit offset =
     (let limitStr = (if limit = -1 then [] else to_string limit);
          offsetStr = (if offset = -1 then [] else to_string offset);
          sqlString = [];
          sqlString = AppendClause sqlString '' INDEXED BY '' index;
          sqlString = AppendClause sqlString '' WHERE '' clause;
          sqlString = AppendClause sqlString '' GROUP BY '' grp;
          sqlString = AppendClause sqlString '' ORDER BY '' ord;
          sqlString = AppendClause sqlString '' LIMIT '' limitStr
      in AppendClause sqlString '' OFFSET '' offsetStr)"

definition BuildSqlStringFromPredicates_of :: "('d, 'a) rdb_predicates_scheme \<Rightarrow> string" where
  "BuildSqlStringFromPredicates_of p =
     (let limitStr = (if limit_val p = -1 then [] else to_string (limit_val p));
          offsetStr = (if offset_val p = -1 then [] else to_string (offset_val p));
          sqlString = [];
          sqlString = AppendClause sqlString '' INDEXED BY '' (index_str p);
          sqlString = AppendClause sqlString '' WHERE '' (whereClause p);
          sqlString = AppendClause sqlString '' GROUP BY '' (group_str p);
          sqlString = AppendClause sqlString '' ORDER BY '' (order_str p);
          sqlString = AppendClause sqlString '' LIMIT '' limitStr
      in AppendClause sqlString '' OFFSET '' offsetStr)"

definition BuildSqlStringFromPredicatesNoWhere ::
    "string \<Rightarrow> string \<Rightarrow> string \<Rightarrow> string \<Rightarrow> int \<Rightarrow> int \<Rightarrow> string" where
  "BuildSqlStringFromPredicatesNoWhere index clause grp ord limit offset =
     (let limitStr = (if limit = -1 then [] else to_string limit);
          offsetStr = (if offset = -1 then [] else to_string offset);
          sqlString = [];
          sqlString = AppendClause sqlString '' INDEXED BY '' index;
          sqlString = AppendClause sqlString '' '' clause;
          sqlString = AppendClause sqlString '' GROUP BY '' grp;
          sqlString = AppendClause sqlString '' ORDER BY '' ord;
          sqlString = AppendClause sqlString '' LIMIT '' limitStr
      in AppendClause sqlString '' OFFSET '' offsetStr)"

subsection \<open>Statements\<close>

datatype ConflictResolution = ON_CONFLICT_NONE | ON_CONFLICT_ROLLBACK | ON_CONFLICT_ABORT
  | ON_CONFLICT_FAIL | ON_CONFLICT_IGNORE | ON_CONFLICT_REPLACE

fun onConflictClause :: "ConflictResolution \<Rightarrow> string" where
  "onConflictClause ON_CONFLICT_NONE = []"
| "onConflictClause ON_CONFLICT_ROLLBACK = '' OR ROLLBACK''"
| "onConflictClause ON_CONFLICT_ABORT = '' OR ABORT''"
| "onConflictClause ON_CONFLICT_FAIL = '' OR FAIL''"
| "onConflictClause ON_CONFLICT_IGNORE = '' OR IGNORE''"
| "onConflictClause ON_CONFLICT_REPLACE = '' OR REPLACE''"

definition BuildDeleteString ::
    "string \<Rightarrow> string \<Rightarrow> string \<Rightarrow> string \<Rightarrow> string \<Rightarrow> int \<Rightarrow> int \<Rightarrow> string" where
  "BuildDeleteString table index clause grp ord limit offset =
     ''Delete '' @ ''FROM '' @ table
       @ BuildSqlStringFromPredicates index clause grp ord limit offset"

fun append_assignments :: "bool \<Rightarrow> (string \<times> ValueObject) list \<Rightarrow> string \<Rightarrow> ValueObject list \<Rightarrow>
    string \<times> ValueObject list" where
  "append_assignments first [] sql bindArgs = (sql, bindArgs)"
| "append_assignments first ((k, v) # m) sql bindArgs =
     append_assignments False m (sql @ (if first then [] else '','') @ k @ ''=?'') (bindArgs @ [v])"

definition BuildUpdateString ::
    "ValuesBucket \<Rightarrow> string \<Rightarrow> string list \<Rightarrow> string \<Rightarrow> string \<Rightarrow> string \<Rightarrow> string \<Rightarrow> int \<Rightarrow> int \<Rightarrow>
     ValueObject list \<Rightarrow> ConflictResolution \<Rightarrow> string \<times> ValueObject list" where
  "BuildUpdateString values table args index clause grp ord limit offset bindArgs conflict =
     (let sql = ''UPDATE'' @ onConflictClause conflict @ '' '' @ table @ '' SET '';
          (sql, bindArgs) = append_assignments True (GetAll values) sql bindArgs;
          bindArgs = (if args \<noteq> [] then bindArgs @ map ValueObject_string args else bindArgs)
      in (sql @ BuildSqlStringFromPredicates index clause grp ord limit offset, bindArgs))"

definition BuildUpdateStringOnlyWhere ::
    "ValuesBucket \<Rightarrow> string \<Rightarrow> string list \<Rightarrow> string \<Rightarrow> string \<Rightarrow> string \<Rightarrow> string \<Rightarrow> int \<Rightarrow> int \<Rightarrow>
     ValueObject list \<Rightarrow> ConflictResolution \<Rightarrow> string \<times> ValueObject list" where
  "BuildUpdateStringOnlyWhere values table args index clause grp ord limit offset bindArgs conflict =
     (let sql = ''UPDATE'' @ onConflictClause conflict @ '' '' @ table @ '' SET '';
          bindArgs = (if args \<noteq> [] then bindArgs @ map ValueObject_string args else bindArgs)
      in (sql @ BuildSqlStringFromPredicates index clause grp ord limit offset, bindArgs))"

text \<open>
  The result is the returned code and \<open>outSql\<close> where it was assigned; \<open>None\<close> is the exception of
  \<open>std::stoi\<close>.
\<close>

definition BuildQueryString ::
    "bool \<Rightarrow> bool \<Rightarrow> string \<Rightarrow> string list \<Rightarrow> string \<Rightarrow> string \<Rightarrow> string \<Rightarrow> string \<Rightarrow> string \<Rightarrow> string \<Rightarrow>
     (rdb_errno \<times> string option) option" where
  "BuildQueryString unset dist table columns whereText groupBy having orderBy limit offset =
     (if table = [] then Some (E_EMPTY_TABLE_NAME, None)
      else
        let sql = ''SELECT '';
            sql = (if dist then sql @ ''DISTINCT '' else sql);
            errorCode = E_OK;
            (sql, errorCode) = (if length columns \<noteq> 0 then AppendColumns unset sql columns errorCode
                                else (sql @ ''* '', errorCode))
        in case stoi limit of
             None \<Rightarrow> None
           | Some climit \<Rightarrow>
               (case stoi offset of
                  None \<Rightarrow> None
                | Some coffset \<Rightarrow>
                    Some (errorCode, Some (sql @ ''FROM '' @ table
                      @ BuildSqlStringFromPredicates having whereText groupBy orderBy climit coffset))))"

definition BuildQueryStringWithExpr ::
    "string \<Rightarrow> bool \<Rightarrow> string \<Rightarrow> string \<Rightarrow> string \<Rightarrow> string \<Rightarrow> int \<Rightarrow> int \<Rightarrow> string list \<Rightarrow> string" where
  "BuildQueryStringWithExpr table dist index clause grp ord limit offset expr =
     (let sql = ''SELECT '';
          sql = (if dist then sql @ ''DISTINCT '' else sql);
          sql = (if length expr \<noteq> 0 then AppendExpr sql expr else sql @ ''* '')
      in sql @ ''FROM '' @ table @ BuildSqlStringFromPredicates index clause grp ord limit offset)"

definition BuildCountString ::
    "string \<Rightarrow> string \<Rightarrow> string \<Rightarrow> string \<Rightarrow> string \<Rightarrow> int \<Rightarrow> int \<Rightarrow> string" where
  "BuildCountString table index clause grp ord limit offset =
     ''SELECT COUNT(*) FROM '' @ table
       @ BuildSqlStringFromPredicates index clause grp ord limit offset"

definition BuildCountString_of :: "('d, 'a) rdb_predicates_scheme \<Rightarrow> string" where
  "BuildCountString_of p = ''SELECT COUNT(*) FROM '' @ tableName p @ BuildSqlStringFromPredicates_of p"

text \<open>
  The query of a predicates object and the columns.  \<open>None\<close> is undefined behaviour in the join clause
  or an exception; when the inner call fails, the empty string is returned.
\<close>

definition BuildQueryString_of :: "bool \<Rightarrow> ('d, 'a) rdb_predicates_scheme \<Rightarrow> string list \<Rightarrow> string option" where
  "BuildQueryString_of unset p columns =
     (case GetJoinClause p of
        None \<Rightarrow> None
      | Some table \<Rightarrow>
          (case BuildQueryString unset (is_distinct p) table columns (whereClause p) (group_str p)
                  (index_str p) (order_str p) (to_string (limit_val p)) (to_string (offset_val p)) of
             None \<Rightarrow> None
           | Some (_, outSql) \<Rightarrow> Some (case outSql of None \<Rightarrow> [] | Some sql \<Rightarrow> sql)))"

subsection \<open>What the patterns accept\<close>

lemma greedy_rests: "(c', s') \<in> set (greedy l n c s) \<longleftrightarrow> c' = c \<and> (\<exists>k. l \<le> k \<and> k \<le> n \<and> s' = drop k s)"
proof (induction n)
  case (Suc n)
  show ?case
  proof (cases "l \<le> Suc n")
    case True
    then have "(\<exists>k. l \<le> k \<and> k \<le> Suc n \<and> s' = drop k s)
        \<longleftrightarrow> s' = drop (Suc n) s \<or> (\<exists>k. l \<le> k \<and> k \<le> n \<and> s' = drop k s)"
      by (metis le_SucE le_SucI order_refl)
    with True Suc show ?thesis by auto
  next
    case False
    then show ?thesis by auto
  qed
qed auto

lemma greedy_rest: "(\<exists>x \<in> set (greedy l n c s). snd x = t) \<longleftrightarrow> (\<exists>k. l \<le> k \<and> k \<le> n \<and> t = drop k s)"
  by (auto simp: Bex_def split_paired_Ex greedy_rests)

lemma length_takeWhile_eq: "length (takeWhile P s) = length s \<longleftrightarrow> list_all P s"
  by (induction s) auto

lemma regex_match_Some:
  "regex_match unset r s \<noteq> None \<longleftrightarrow> (\<exists>x \<in> set (matches unset r Map.empty s). snd x = [])"
proof -
  have "regex_match unset r s \<noteq> None
      \<longleftrightarrow> filter (\<lambda>(c, rest). rest = []) (matches unset r Map.empty s) \<noteq> []"
    by (auto simp: regex_match_def split: list.splits prod.splits)
  also have "\<dots> \<longleftrightarrow> (\<exists>x \<in> set (matches unset r Map.empty s). snd x = [])"
    by (simp add: filter_empty_conv case_prod_unfold)
  finally show ?thesis .
qed

lemma word_pattern_iff: "regex_match unset word_pattern s \<noteq> None \<longleftrightarrow> s \<noteq> [] \<and> list_all is_word s"
proof -
  let ?n = "length (takeWhile is_word s)"
  have "regex_match unset word_pattern s \<noteq> None
      \<longleftrightarrow> (\<exists>x \<in> set (greedy 1 ?n Map.empty s). snd x = [])"
    unfolding regex_match_Some word_pattern_def by (simp add: case_prod_unfold)
  also have "\<dots> \<longleftrightarrow> (\<exists>k. 1 \<le> k \<and> k \<le> ?n \<and> [] = drop k s)"
    by (rule greedy_rest)
  also have "\<dots> \<longleftrightarrow> 1 \<le> length s \<and> ?n = length s"
    using length_takeWhile_le [of is_word s] by (auto intro: exI [of _ "length s"])
  finally show ?thesis by (auto simp: length_takeWhile_eq Suc_le_eq)
qed

lemma quoted_pattern_unquoted: "list_all (\<lambda>c. \<not> is_quote c) s \<Longrightarrow> regex_match False quoted_pattern s = None"
  using regex_match_Some [of False quoted_pattern s]
  by (cases s) (auto simp: quoted_pattern_def greedy_rests)

text \<open>The first match the engine tries, composed along a pattern.\<close>

definition first_match :: "regex \<Rightarrow> captures \<Rightarrow> string \<Rightarrow> captures \<Rightarrow> string \<Rightarrow> bool" where
  "first_match r c s c' s' \<longleftrightarrow> (\<exists>xs. matches False r c s = (c', s') # xs)"

lemma first_match_Seq:
  "first_match r c s c1 s1 \<Longrightarrow> first_match q c1 s1 c2 s2 \<Longrightarrow> first_match (Seq r q) c s c2 s2"
  by (auto simp: first_match_def)

lemma first_match_Group:
  "first_match r c s c1 s1 \<Longrightarrow> first_match (Group n r) c s (c1(n \<mapsto> take (length s - length s1) s)) s1"
  by (auto simp: first_match_def)

lemma first_match_Opt: "first_match r c s c1 s1 \<Longrightarrow> first_match (Opt r) c s c1 s1"
  by (auto simp: first_match_def)

lemma first_match_Opt_skip: "matches False r c s = [] \<Longrightarrow> first_match (Opt r) c s c s"
  by (simp add: first_match_def)

lemma takeWhile_prefix:
  "list_all P w \<Longrightarrow> t = [] \<or> \<not> P (hd t) \<Longrightarrow> takeWhile P (w @ t) = w"
  by (induction w) (auto simp: takeWhile_eq_Nil_iff)

lemma first_match_Plus:
  "w \<noteq> [] \<Longrightarrow> list_all P w \<Longrightarrow> t = [] \<or> \<not> P (hd t) \<Longrightarrow> first_match (Plus P) c (w @ t) c t"
  using takeWhile_prefix [of P w t] by (cases w) (auto simp: first_match_def)

lemma first_match_Star:
  "list_all P w \<Longrightarrow> t = [] \<or> \<not> P (hd t) \<Longrightarrow> first_match (Star P) c (w @ t) c t"
  using takeWhile_prefix [of P w t] by (cases w) (auto simp: first_match_def)

lemma first_match_Star0: "t = [] \<or> \<not> P (hd t) \<Longrightarrow> first_match (Star P) c t c t"
  using first_match_Star [of P "[]" t c] by simp

lemma first_match_word_or_star:
  "w \<noteq> [] \<Longrightarrow> list_all is_word w \<Longrightarrow> t = [] \<or> \<not> is_word (hd t) \<Longrightarrow>
     first_match word_or_star c (w @ t) c t"
  using first_match_Plus [of w is_word t c] by (auto simp: first_match_def word_or_star_def)

lemma first_match_regex: "first_match r Map.empty s c [] \<Longrightarrow> regex_match False r s = Some c"
  by (auto simp: first_match_def regex_match_def)

lemma dot_not_word: "\<not> is_word CHR ''.''" "\<not> is_space CHR ''.''"
  by code_simp+

lemma column_pattern_dotted:
  assumes "a \<noteq> []" "list_all is_word a" "b \<noteq> []" "list_all is_word b"
  shows "\<exists>c. regex_match False column_pattern (a @ ''.'' @ b) = Some c
    \<and> c 1 = Some a \<and> c 3 = Some b \<and> c 5 = None"
proof -
  let ?c1 = "[1 \<mapsto> a]" and ?c3 = "[1 \<mapsto> a, 3 \<mapsto> b]"
  have g1: "first_match (Group 1 word_or_star) Map.empty (a @ ''.'' @ b) ?c1 (''.'' @ b)"
    using first_match_Group [OF first_match_word_or_star [of a "''.'' @ b" Map.empty], of 1] assms(1,2)
    by (simp add: dot_not_word)
  have dot: "first_match (Chr (\<lambda>c. c = CHR ''.'')) ?c1 (''.'' @ b) ?c1 b"
    by (simp add: first_match_def)
  have s3: "first_match (Star is_space) ?c1 b ?c1 b"
    by (rule first_match_Star0) (use assms(3,4) in \<open>cases b; auto simp: is_word_def is_digit_def is_space_def
        toupper_def tolower_def\<close>)
  have g3: "first_match (Group 3 word_or_star) ?c1 b ?c3 []"
    using first_match_Group [OF first_match_word_or_star [of b "[]" ?c1], of 3] assms(3,4) by simp
  let ?c2 = "?c3(2 \<mapsto> ''.'' @ b)"
  have g2: "first_match (Opt (Group 2 (Seq (Chr (\<lambda>c. c = CHR ''.'')) (Seq (Star is_space) (Group 3 word_or_star)))))
      ?c1 (''.'' @ b) ?c2 []"
    using first_match_Opt [OF first_match_Group [OF first_match_Seq [OF dot first_match_Seq [OF s3 g3]], of 2]]
    by simp
  have rest: "first_match (Seq (Star is_space)
     (Seq (Opt (Group 4 (Alt (Seq (Chr (\<lambda>c. c = CHR ''A'')) (Chr (\<lambda>c. c = CHR ''S'')))
                            (Seq (Chr (\<lambda>c. c = CHR ''a'')) (Chr (\<lambda>c. c = CHR ''s''))))))
     (Seq (Star is_space) (Opt (Group 5 (Plus is_word)))))) ?c2 [] ?c2 []"
    by (simp add: first_match_def)
  have s1: "first_match (Star is_space) ?c1 (''.'' @ b) ?c1 (''.'' @ b)"
    by (rule first_match_Star0) (simp add: dot_not_word)
  have "first_match column_pattern Map.empty (a @ ''.'' @ b) ?c2 []"
    unfolding column_pattern_def
    by (rule first_match_Seq [OF g1 first_match_Seq [OF s1 first_match_Seq [OF g2 rest]]])
  from first_match_regex [OF this] show ?thesis by (intro exI [of _ ?c2]) simp
qed

lemma word_not_quote: "is_word c \<Longrightarrow> \<not> is_quote c \<and> c \<noteq> CHR '' '' \<and> c \<noteq> CHR ''*''"
  by (auto simp: is_word_def is_quote_def is_digit_def toupper_def tolower_def)

lemma trim_blanks_id:
  "s \<noteq> [] \<Longrightarrow> hd s \<noteq> CHR '' '' \<Longrightarrow> last s \<noteq> CHR '' '' \<Longrightarrow> trim_blanks s = s"
  by (simp add: trim_blanks_def dropWhile_eq_self_iff [THEN iffD2] hd_rev)

lemma Normalize_word: "w \<noteq> [] \<Longrightarrow> list_all is_word w \<Longrightarrow> Normalize unset w e = (bquote # w @ [bquote], e)"
  using word_pattern_iff [of unset w] by (simp add: Normalize_def SurroundWithQuote_def)

lemma Normalize_dotted:
  assumes "a \<noteq> []" "list_all is_word a" "b \<noteq> []" "list_all is_word b"
  shows "Normalize False (a @ ''.'' @ b) e = (bquote # a @ [bquote, CHR ''.'', bquote] @ b @ [bquote], e)"
proof -
  let ?s = "a @ ''.'' @ b"
  have nq: "list_all (\<lambda>c. \<not> is_quote c) ?s"
    using assms(2,4) word_not_quote by (auto simp: list_all_iff) (simp add: is_quote_def)
  then have flt: "filter (\<lambda>c. \<not> is_quote c) ?s = ?s"
    by (simp add: list_all_iff)
  have tb: "trim_blanks ?s = ?s"
    using assms word_not_quote [of "hd a"] word_not_quote [of "last b"]
    by (intro trim_blanks_id) (auto simp: list_all_iff)
  have w: "regex_match False word_pattern ?s = None"
    using word_pattern_iff [of False ?s] dot_not_word by auto
  obtain c where "regex_match False column_pattern ?s = Some c" "c 1 = Some a" "c 3 = Some b" "c 5 = None"
    using column_pattern_dotted [OF assms] by blast
  moreover have "b \<noteq> ''*''" using assms(4) word_not_quote [of "CHR ''*''"] by auto
  moreover have "?s \<noteq> ''*''" using assms(1,3) by (cases a; cases b) auto
  ultimately show ?thesis
    using assms(1,3) w quoted_pattern_unquoted [OF nq] flt tb
    by (simp add: Normalize_def NormalizeComplexPattern_def capture_def SurroundWithQuote_def Let_def)
qed

text \<open>
  A column given as a word is quoted, and one given as table and column words joined by
  a dot is quoted part by part; the error code is left alone.
\<close>

theorem Normalize_columns:
  assumes "a \<noteq> []" "list_all is_word a" "b \<noteq> []" "list_all is_word b"
  shows "Normalize unset a e = (bquote # a @ [bquote], e)
    \<and> Normalize False (a @ ''.'' @ b) e = (bquote # a @ [bquote, CHR ''.'', bquote] @ b @ [bquote], e)"
  using Normalize_word Normalize_dotted assms by blast

theorem Normalize_columns_witness:
  "Normalize False ''user.age'' E_OK = (''`user`.`age`'', E_OK)"
proof -
  have "list_all is_word ''user''" "list_all is_word ''age''" by code_simp+
  then show ?thesis using Normalize_columns [of "''user''" "''age''" False E_OK] by simp
qed

subsection \<open>Statement texts\<close>

lemma append_assignments_tail:
  "append_assignments False m sql ba =
     (sql @ concat (map (\<lambda>(k, v). '','' @ k @ ''=?'') m), ba @ map snd m)"
  by (induction m arbitrary: sql ba) auto

lemma append_assignments_eq:
  "append_assignments True m sql ba =
     (sql @ join_with '','' (map (\<lambda>(k, v). k @ ''=?'') m), ba @ map snd m)"
proof -
  have "join_with '','' (x # xs) = x @ concat (map (\<lambda>y. '','' @ y) xs)" for x xs
    by (induction xs arbitrary: x) auto
  then show ?thesis
    by (cases m) (auto simp: append_assignments_tail comp_def case_prod_unfold)
qed

lemma BuildUpdateString_eq:
  "BuildUpdateString values table args index clause grp ord limit offset bindArgs conflict =
     (''UPDATE'' @ onConflictClause conflict @ '' '' @ table @ '' SET ''
        @ join_with '','' (map (\<lambda>(k, v). k @ ''=?'') values)
        @ BuildSqlStringFromPredicates index clause grp ord limit offset,
      bindArgs @ map snd values @ map ValueObject_string args)"
  by (simp add: BuildUpdateString_def append_assignments_eq GetAll_def Let_def)

text \<open>
  C36 (equivalence): building the query of a predicates object prints its limit and offset and parses
  them again; the resulting text is the SELECT of the join clause followed by exactly the clauses the
  object itself renders, so that nothing is lost on the way.
\<close>

theorem query_string_of_predicates:
  assumes "GetJoinClause p = Some table" and "table \<noteq> []"
    and "- (2 ^ 31) \<le> limit_val p" "limit_val p < 2 ^ 31"
    and "- (2 ^ 31) \<le> offset_val p" "offset_val p < 2 ^ 31"
  shows "BuildQueryString_of unset p columns =
    Some ((if columns = [] then ''SELECT '' @ (if is_distinct p then ''DISTINCT '' else []) @ ''* ''
           else fst (AppendColumns unset (''SELECT '' @ (if is_distinct p then ''DISTINCT '' else [])) columns E_OK))
      @ ''FROM '' @ table @ BuildSqlStringFromPredicates_of p)"
  using assms
  by (cases "AppendColumns unset (''SELECT '' @ (if is_distinct p then ''DISTINCT '' else [])) columns E_OK")
    (auto simp: BuildQueryString_of_def BuildQueryString_def stoi_to_string
      BuildSqlStringFromPredicates_def BuildSqlStringFromPredicates_of_def Let_def)

theorem query_string_of_predicates_witness:
  "BuildQueryString_of False (Limit 10 (Rdb_EqualTo log_ops ''id'' ''3'' (RdbPredicates log_ops ''user''))) []
     = Some ''SELECT * FROM user WHERE `id` = ?  LIMIT 10''"
proof -
  let ?p = "Limit 10 (Rdb_EqualTo log_ops ''id'' ''3'' (RdbPredicates log_ops ''user''))"
  have j: "GetJoinClause ?p = Some ''user''" by code_simp
  have n: "''user'' \<noteq> []" by simp
  have b: "- (2 ^ 31) \<le> limit_val ?p" "limit_val ?p < 2 ^ 31" "- (2 ^ 31) \<le> offset_val ?p" "offset_val ?p < 2 ^ 31"
    by code_simp+
  have q: "BuildSqlStringFromPredicates_of ?p = '' WHERE `id` = ?  LIMIT 10''" by code_simp
  have d: "is_distinct ?p = False" by code_simp
  show ?thesis using query_string_of_predicates [OF j n b, of False "[]"] q d by simp
qed

text \<open>An offset without a limit is rendered without a LIMIT clause.\<close>

lemma offset_without_limit:
  "BuildSqlStringFromPredicates_of (Offset 5 (RdbPredicates log_ops ''user'')) = '' OFFSET 5''"
  by code_simp

text \<open>An empty first column leaves its separator behind.\<close>

lemma empty_first_column:
  "BuildQueryString False False ''user'' [[], ''age''] [] [] [] [] ''-1'' ''-1''
     = Some (E_OK, Some ''SELECT , `age` FROM user'')"
  by code_simp

end
