(* ===== verification/Rdb_Store.thy ===== *)
theory Rdb_Store
  imports Store_Session Sql_Builder
begin

text \<open>
  The store itself (rdb_store_impl.cpp): the map from threads to sessions with its use counts, the
  statements the convenience methods build, and the methods that run them in the calling thread's
  session.  The calling thread is the argument \<open>thr\<close>; sessions are objects named by their position in
  \<open>sessions\<close>.  Path helpers that belong to another repository and the file system are the parameter
  \<open>'s file_ops\<close>; the distributed service and the trace points are left out.
\<close>

record 's file_ops =
  ExtractFilePath :: "string \<Rightarrow> string"
  PathToRealPath :: "string \<Rightarrow> 's \<Rightarrow> string option"
  file_exists :: "string \<Rightarrow> 's \<Rightarrow> bool"

record 's store =
  pool :: "'s pool"
  sessions :: "StoreSession list"
  threadMap :: "nat \<Rightarrow> (nat \<times> int) option"
  idleSessions :: "nat list"
  store_path :: string
  isOpen :: bool
  transactionObserverStack :: "observed list option list"

definition MAX_IDLE_SESSION_SIZE :: nat where "MAX_IDLE_SESSION_SIZE = 5"

definition RdbStoreImpl_new :: "string \<Rightarrow> 's pool \<Rightarrow> 's store" where
  "RdbStoreImpl_new path P =
     \<lparr>pool = P, sessions = [], threadMap = (\<lambda>_. None), idleSessions = [], store_path = path, isOpen = True,
      transactionObserverStack = []\<rparr>"

definition Store_InnerOpen :: "'s env \<Rightarrow> RdbStoreConfig_view \<Rightarrow> 's \<Rightarrow> (rdb_errno \<times> 's store option) run" where
  "Store_InnerOpen E rc s =
     run_bind (Pool_Create E (SqliteConfig_of rc) s) (\<lambda>(errCode, P).
       if errCode \<noteq> E_OK then Ret (errCode, None) else Ret (E_OK, Some (RdbStoreImpl_new (rc_path rc) P)))"

subsection \<open>Sessions of threads\<close>

definition GetThreadSession :: "nat \<Rightarrow> 's store \<Rightarrow> nat \<times> 's store" where
  "GetThreadSession thr S =
     (case threadMap S thr of
        Some (sid, useCount) \<Rightarrow> (sid, S\<lparr>threadMap := (threadMap S)(thr := Some (sid, useCount + 1))\<rparr>)
      | None \<Rightarrow>
          let (sid, S) =
            (if idleSessions S = [] then (length (sessions S), S\<lparr>sessions := sessions S @ [StoreSession_new]\<rparr>)
             else (last (idleSessions S), S\<lparr>idleSessions := butlast (idleSessions S)\<rparr>))
          in (sid, S\<lparr>threadMap := (threadMap S)(thr := Some (sid, 1))\<rparr>))"

definition ReleaseThreadSession :: "nat \<Rightarrow> 's store \<Rightarrow> 's store" where
  "ReleaseThreadSession thr S =
     (case threadMap S thr of
        None \<Rightarrow> S
      | Some (sid, useCount) \<Rightarrow>
          let useCount = useCount - 1 in
          if useCount > 0 then S\<lparr>threadMap := (threadMap S)(thr := Some (sid, useCount))\<rparr>
          else
            S\<lparr>idleSessions := (if length (idleSessions S) < MAX_IDLE_SESSION_SIZE then idleSessions S @ [sid] else idleSessions S),
              threadMap := (threadMap S)(thr := None)\<rparr>)"

text \<open>A method of the session at \<open>sid\<close>.\<close>

definition on_session :: "nat \<Rightarrow> (StoreSession \<Rightarrow> 's pool \<Rightarrow> ('a \<times> StoreSession \<times> 's pool) run) \<Rightarrow> 's store \<Rightarrow> ('a \<times> 's store) run" where
  "on_session sid f S =
     (if sid < length (sessions S) then
        run_bind (f (sessions S ! sid) (pool S)) (\<lambda>(r, ss, P). Ret (r, S\<lparr>pool := P, sessions := (sessions S)[sid := ss]\<rparr>))
      else Crash)"

text \<open>Get the session, call, release: what most methods do.\<close>

definition in_session :: "nat \<Rightarrow> (StoreSession \<Rightarrow> 's pool \<Rightarrow> ('a \<times> StoreSession \<times> 's pool) run) \<Rightarrow> 's store \<Rightarrow> ('a \<times> 's store) run" where
  "in_session thr f S =
     (let (sid, S) = GetThreadSession thr S in
      run_bind (on_session sid f S) (\<lambda>(r, S). Ret (r, ReleaseThreadSession thr S)))"

text \<open>Get the session, call, release only on failure: what the transaction methods do.\<close>

definition keep_session :: "nat \<Rightarrow> (StoreSession \<Rightarrow> 's pool \<Rightarrow> (rdb_errno \<times> StoreSession \<times> 's pool) run) \<Rightarrow> 's store \<Rightarrow> (rdb_errno \<times> 's store) run" where
  "keep_session thr f S =
     (let (sid, S) = GetThreadSession thr S in
      run_bind (on_session sid f S) (\<lambda>(errCode, S).
        Ret (errCode, if errCode \<noteq> E_OK then ReleaseThreadSession thr S else S)))"

subsection \<open>The statements\<close>

fun conflict_code :: "ConflictResolution \<Rightarrow> int" where
  "conflict_code ON_CONFLICT_NONE = 0"
| "conflict_code ON_CONFLICT_ROLLBACK = 1"
| "conflict_code ON_CONFLICT_ABORT = 2"
| "conflict_code ON_CONFLICT_FAIL = 3"
| "conflict_code ON_CONFLICT_IGNORE = 4"
| "conflict_code ON_CONFLICT_REPLACE = 5"

fun append_columns :: "bool \<Rightarrow> (string \<times> ValueObject) list \<Rightarrow> string \<Rightarrow> ValueObject list \<Rightarrow> string \<times> ValueObject list" where
  "append_columns first [] sql bindArgs = (sql, bindArgs)"
| "append_columns first ((k, v) # m) sql bindArgs =
     append_columns False m (sql @ (if first then [] else '','') @ k) (bindArgs @ [v])"

fun append_marks :: "nat \<Rightarrow> nat \<Rightarrow> string \<Rightarrow> string" where
  "append_marks i 0 sql = sql"
| "append_marks i (Suc n) sql = append_marks (Suc i) n (sql @ (if i = 0 then ''?'' else '',?''))"

definition InsertWithConflictResolution :: "'s env \<Rightarrow> nat \<Rightarrow> string \<Rightarrow> ValuesBucket \<Rightarrow> ConflictResolution \<Rightarrow>
    's store \<Rightarrow> (int64 result \<times> 's store) run" where
  "InsertWithConflictResolution E thr table initialValues conflictResolution S =
     (if table = [] then Ret (Inl E_EMPTY_TABLE_NAME, S)
      else if IsEmpty initialValues then Ret (Inl E_EMPTY_VALUES_BUCKET, S)
      else case GetConflictClause (conflict_code conflictResolution) of
        Inl errCode \<Rightarrow> Ret (Inl errCode, S)
      | Inr conflictClause \<Rightarrow>
          let sql = ''INSERT'' @ conflictClause @ '' INTO '' @ table @ ''('';
              valuesMap = GetAll initialValues;
              (sql, bindArgs) = append_columns True valuesMap sql [];
              sql = append_marks 0 (length valuesMap) (sql @ '') VALUES ('') @ '')''
          in in_session thr (Session_ExecuteForLastInsertedRowId E sql bindArgs) S)"

definition Store_Insert :: "'s env \<Rightarrow> nat \<Rightarrow> string \<Rightarrow> ValuesBucket \<Rightarrow> 's store \<Rightarrow> (int64 result \<times> 's store) run" where
  "Store_Insert E thr table initialValues S = InsertWithConflictResolution E thr table initialValues ON_CONFLICT_NONE S"

definition Store_Replace :: "'s env \<Rightarrow> nat \<Rightarrow> string \<Rightarrow> ValuesBucket \<Rightarrow> 's store \<Rightarrow> (int64 result \<times> 's store) run" where
  "Store_Replace E thr table initialValues S = InsertWithConflictResolution E thr table initialValues ON_CONFLICT_REPLACE S"

definition UpdateWithConflictResolution :: "'s env \<Rightarrow> nat \<Rightarrow> string \<Rightarrow> ValuesBucket \<Rightarrow> string \<Rightarrow> string list \<Rightarrow>
    ConflictResolution \<Rightarrow> 's store \<Rightarrow> (int result \<times> 's store) run" where
  "UpdateWithConflictResolution E thr table values clause args conflictResolution S =
     (if table = [] then Ret (Inl E_EMPTY_TABLE_NAME, S)
      else if IsEmpty values then Ret (Inl E_EMPTY_VALUES_BUCKET, S)
      else case GetConflictClause (conflict_code conflictResolution) of
        Inl errCode \<Rightarrow> Ret (Inl errCode, S)
      | Inr conflictClause \<Rightarrow>
          let sql = ''UPDATE'' @ conflictClause @ '' '' @ table @ '' SET '';
              (sql, bindArgs) = append_assignments True (GetAll values) sql [];
              sql = (if clause \<noteq> [] then sql @ '' WHERE '' @ clause else sql);
              bindArgs = bindArgs @ map ValueObject_string args
          in in_session thr (Session_ExecuteForChangedRowCount E sql bindArgs) S)"

definition Store_Update :: "'s env \<Rightarrow> nat \<Rightarrow> string \<Rightarrow> ValuesBucket \<Rightarrow> string \<Rightarrow> string list \<Rightarrow> 's store \<Rightarrow> (int result \<times> 's store) run" where
  "Store_Update E thr table values clause args S =
     UpdateWithConflictResolution E thr table values clause args ON_CONFLICT_NONE S"

definition Store_Update_by :: "'s env \<Rightarrow> nat \<Rightarrow> ValuesBucket \<Rightarrow> 'd rdb_predicates \<Rightarrow> 's store \<Rightarrow> (int result \<times> 's store) run" where
  "Store_Update_by E thr values p S = Store_Update E thr (tableName p) values (whereClause p) (whereArgs p) S"

definition Store_Delete :: "'s env \<Rightarrow> nat \<Rightarrow> string \<Rightarrow> string \<Rightarrow> string list \<Rightarrow> 's store \<Rightarrow> (int result \<times> 's store) run" where
  "Store_Delete E thr table clause args S =
     (if table = [] then Ret (Inl E_EMPTY_TABLE_NAME, S)
      else
        let sql = ''DELETE FROM '' @ table;
            sql = (if clause \<noteq> [] then sql @ '' WHERE '' @ clause else sql)
        in in_session thr (Session_ExecuteForChangedRowCount E sql (map ValueObject_string args)) S)"

definition Store_Delete_by :: "'s env \<Rightarrow> nat \<Rightarrow> 'd rdb_predicates \<Rightarrow> 's store \<Rightarrow> (int result \<times> 's store) run" where
  "Store_Delete_by E thr p S = Store_Delete E thr (tableName p) (whereClause p) (whereArgs p) S"

subsection \<open>Queries\<close>

text \<open>A result set is made from the path, the statement and its arguments; nothing runs yet.\<close>

record query_set =
  qs_path :: string
  qs_sql :: string
  qs_args :: "string list"

definition QuerySql :: "string \<Rightarrow> string list \<Rightarrow> 's store \<Rightarrow> query_set" where
  "QuerySql sql selectionArgs S = \<lparr>qs_path = store_path S, qs_sql = sql, qs_args = selectionArgs\<rparr>"

definition Store_Query_by :: "bool \<Rightarrow> 'd rdb_predicates \<Rightarrow> string list \<Rightarrow> 's store \<Rightarrow> query_set run" where
  "Store_Query_by unset p columns S =
     run_bind (of_option (BuildQueryString_of unset p columns)) (\<lambda>sql. Ret (QuerySql sql (whereArgs p) S))"

definition ExecuteAndGetLong :: "'s env \<Rightarrow> nat \<Rightarrow> string \<Rightarrow> ValueObject list \<Rightarrow> 's store \<Rightarrow> (int64 result \<times> 's store) run" where
  "ExecuteAndGetLong E thr sql bindArgs S = in_session thr (Session_ExecuteGetLong E sql bindArgs) S"

definition ExecuteAndGetString :: "'s env \<Rightarrow> nat \<Rightarrow> string \<Rightarrow> ValueObject list \<Rightarrow> 's store \<Rightarrow> (string result \<times> 's store) run" where
  "ExecuteAndGetString E thr sql bindArgs S = in_session thr (Session_ExecuteGetString E sql bindArgs) S"

definition Store_ExecuteForLastInsertedRowId :: "'s env \<Rightarrow> nat \<Rightarrow> string \<Rightarrow> ValueObject list \<Rightarrow> 's store \<Rightarrow> (int64 result \<times> 's store) run" where
  "Store_ExecuteForLastInsertedRowId E thr sql bindArgs S = in_session thr (Session_ExecuteForLastInsertedRowId E sql bindArgs) S"

definition Store_ExecuteForChangedRowCount :: "'s env \<Rightarrow> nat \<Rightarrow> string \<Rightarrow> ValueObject list \<Rightarrow> 's store \<Rightarrow> (int result \<times> 's store) run" where
  "Store_ExecuteForChangedRowCount E thr sql bindArgs S = in_session thr (Session_ExecuteForChangedRowCount E sql bindArgs) S"

definition Store_Count :: "'s env \<Rightarrow> nat \<Rightarrow> 'd rdb_predicates \<Rightarrow> 's store \<Rightarrow> (int64 result \<times> 's store) run" where
  "Store_Count E thr p S =
     ExecuteAndGetLong E thr (BuildCountString_of p) (map ValueObject_string (whereArgs p)) S"

subsection \<open>Statements given as text\<close>

definition CheckAttach :: "'s env \<Rightarrow> nat \<Rightarrow> string \<Rightarrow> 's store \<Rightarrow> (rdb_errno \<times> 's store) run" where
  "CheckAttach E thr sql S =
     (let rest = dropWhile (\<lambda>c. c = CHR '' '') sql in
      if rest = [] then Ret (E_OK, S)
      else if StrToUpper (take 3 rest) \<noteq> ''ATT'' then Ret (E_OK, S)
      else
        run_bind (ExecuteAndGetString E thr ''PRAGMA journal_mode'' [] S) (\<lambda>(r, S).
          case r of
            Inl e \<Rightarrow> Ret (e, S)
          | Inr journalMode \<Rightarrow>
              Ret (if StrToUpper journalMode = ''WAL'' then E_NOT_SUPPORTED_ATTACH_IN_WAL_MODE else E_OK, S)))"

definition Store_ExecuteSql :: "'s env \<Rightarrow> nat \<Rightarrow> string \<Rightarrow> ValueObject list \<Rightarrow> 's store \<Rightarrow> (rdb_errno \<times> 's store) run" where
  "Store_ExecuteSql E thr sql bindArgs S =
     run_bind (CheckAttach E thr sql S) (\<lambda>(errCode, S).
       if errCode \<noteq> E_OK then Ret (errCode, S)
       else
         let (sid, S) = GetThreadSession thr S in
         run_bind (on_session sid (Session_ExecuteSql E sql bindArgs) S) (\<lambda>(r, S).
           if errno_of r \<noteq> E_OK then Ret (errno_of r, ReleaseThreadSession thr S)
           else if GetSqlStatementType sql = STATEMENT_DDL then
             run_bind (ReOpenAvailableReadConnections E (pool S)) (\<lambda>(errCode, P).
               Ret (errCode, ReleaseThreadSession thr (S\<lparr>pool := P\<rparr>)))
           else Ret (E_OK, ReleaseThreadSession thr S)))"

definition Store_GetVersion :: "'s env \<Rightarrow> nat \<Rightarrow> 's store \<Rightarrow> ((32 word) result \<times> 's store) run" where
  "Store_GetVersion E thr S =
     run_bind (ExecuteAndGetLong E thr ''PRAGMA user_version;'' [] S) (\<lambda>(r, S). Ret (map_sum id ucast r, S))"

definition Store_SetVersion :: "'s env \<Rightarrow> nat \<Rightarrow> 32 word \<Rightarrow> 's store \<Rightarrow> (rdb_errno \<times> 's store) run" where
  "Store_SetVersion E thr version S =
     Store_ExecuteSql E thr (''PRAGMA user_version = '' @ to_string (sint version)) [] S"

definition Store_PrepareAndGetInfo :: "'s env \<Rightarrow> nat \<Rightarrow> string \<Rightarrow> 's store \<Rightarrow> ((bool \<times> int \<times> string list) result \<times> 's store) run" where
  "Store_PrepareAndGetInfo E thr sql S = in_session thr (Session_PrepareAndGetInfo E sql) S"

subsection \<open>Backup, attach, restore, key\<close>

definition Store_Backup :: "'s env \<Rightarrow> 's file_ops \<Rightarrow> nat \<Rightarrow> string \<Rightarrow> byte list \<Rightarrow> 's store \<Rightarrow> (rdb_errno \<times> 's store) run" where
  "Store_Backup E F thr databasePath destEncryptKey S =
     (if databasePath = [] then Ret (E_INVALID_FILE_PATH, S)
      else if CHR ''/'' \<notin> set databasePath then
        in_session thr (Session_Backup E (ExtractFilePath F (store_path S) @ databasePath) destEncryptKey) S
      else if PathToRealPath F (ExtractFilePath F databasePath) (lib (pool S)) = None then Ret (E_INVALID_FILE_PATH, S)
      else in_session thr (Session_Backup E databasePath destEncryptKey) S)"

definition Store_Attach :: "'s env \<Rightarrow> nat \<Rightarrow> string \<Rightarrow> string \<Rightarrow> byte list \<Rightarrow> 's store \<Rightarrow> (rdb_errno \<times> 's store) run" where
  "Store_Attach E thr alias pathName destEncryptKey S = in_session thr (Session_Attach E alias pathName destEncryptKey) S"

definition Store_ChangeEncryptKey :: "'s env \<Rightarrow> byte list \<Rightarrow> 's store \<Rightarrow> (rdb_errno \<times> 's store) run" where
  "Store_ChangeEncryptKey E newKey S =
     run_bind (Pool_ChangeEncryptKey E newKey (pool S)) (\<lambda>(e, P). Ret (e, S\<lparr>pool := P\<rparr>))"

text \<open>The connection pool is never null in an open store.\<close>

definition Store_ChangeDbFileForRestore :: "'s env \<Rightarrow> 's file_ops \<Rightarrow> string \<Rightarrow> string \<Rightarrow> byte list \<Rightarrow> 's store \<Rightarrow>
    (rdb_errno \<times> 's store) run" where
  "Store_ChangeDbFileForRestore E F newPath backupPath newKey S =
     (if \<not> isOpen S then Ret (E_ERROR, S)
      else if newPath = [] \<or> backupPath = [] then Ret (E_INVALID_FILE_PATH, S)
      else
        let backupFilePath = (if CHR ''/'' \<notin> set backupPath then ExtractFilePath F (store_path S) @ backupPath else backupPath) in
        if \<not> file_exists F backupFilePath (lib (pool S)) then Ret (E_INVALID_FILE_PATH, S)
        else if CHR ''/'' \<in> set newPath \<and> PathToRealPath F (ExtractFilePath F newPath) (lib (pool S)) = None
        then Ret (E_INVALID_FILE_PATH, S)
        else
          let restoreFilePath = (if CHR ''/'' \<notin> set newPath then ExtractFilePath F (store_path S) @ newPath else newPath) in
          if backupFilePath = restoreFilePath then Ret (E_INVALID_FILE_PATH, S)
          else
            run_bind (ChangeDbFileForRestore E restoreFilePath backupFilePath newKey (pool S)) (\<lambda>(ret, P).
              Ret (ret, S\<lparr>pool := P, store_path := (if ret = E_OK then restoreFilePath else store_path S)\<rparr>)))"

subsection \<open>Transactions\<close>

definition Store_BeginTransaction :: "'s env \<Rightarrow> nat \<Rightarrow> 's store \<Rightarrow> (rdb_errno \<times> 's store) run" where
  "Store_BeginTransaction E thr S = keep_session thr (BeginTransaction E) S"

definition Store_RollBack :: "'s env \<Rightarrow> nat \<Rightarrow> 's store \<Rightarrow> (rdb_errno \<times> 's store) run" where
  "Store_RollBack E thr S = keep_session thr (RollBack E) S"

definition Store_Commit :: "'s env \<Rightarrow> nat \<Rightarrow> 's store \<Rightarrow> (rdb_errno \<times> 's store) run" where
  "Store_Commit E thr S = keep_session thr (Commit E) S"

text \<open>Observers are not aliased in the model: the store's stack holds the log that \<open>OnBegin\<close> started.\<close>

definition BeginTransactionWithObserver :: "'s env \<Rightarrow> nat \<Rightarrow> observed list option \<Rightarrow> 's store \<Rightarrow> (rdb_errno \<times> 's store) run" where
  "BeginTransactionWithObserver E thr obs S =
     (let (sid, S) = GetThreadSession thr S in
      run_bind (on_session sid (\<lambda>ss P. run_bind (BeginTransaction_observed E obs ss P) (\<lambda>(e, obs, ss, P). Ret ((e, obs), ss, P))) S)
        (\<lambda>((errCode, obs), S).
           let S = S\<lparr>transactionObserverStack := obs # transactionObserverStack S\<rparr> in
           Ret (errCode, if errCode \<noteq> E_OK then ReleaseThreadSession thr S else S)))"

definition Store_MarkAsCommit :: "nat \<Rightarrow> 's store \<Rightarrow> (rdb_errno \<times> 's store) run" where
  "Store_MarkAsCommit thr S = in_session thr (\<lambda>ss P. let (e, P) = MarkAsCommit P in Ret (e, ss, P)) S"

definition Store_EndTransaction :: "'s env \<Rightarrow> nat \<Rightarrow> 's store \<Rightarrow> (rdb_errno \<times> 's store) run" where
  "Store_EndTransaction E thr S =
     (let obs = (case transactionObserverStack S of [] \<Rightarrow> None | o1 # _ \<Rightarrow> o1);
          S = S\<lparr>transactionObserverStack := tl (transactionObserverStack S)\<rparr>;
          (sid, S) = GetThreadSession thr S
      in run_bind (on_session sid (\<lambda>ss P. run_bind (EndTransactionWithObserver E obs ss P) (\<lambda>(e, _, ss, P). Ret (e, ss, P))) S)
           (\<lambda>(errCode, S). Ret (errCode, ReleaseThreadSession thr (ReleaseThreadSession thr S))))"

definition Store_IsInTransaction :: "nat \<Rightarrow> 's store \<Rightarrow> (bool \<times> 's store) run" where
  "Store_IsInTransaction thr S = in_session thr (\<lambda>ss P. Ret (IsInTransaction P, ss, P)) S"

definition Store_IsHoldingConnection :: "nat \<Rightarrow> 's store \<Rightarrow> (bool \<times> 's store) run" where
  "Store_IsHoldingConnection thr S =
     (let (sid, S) = GetThreadSession thr S in on_session sid (\<lambda>ss P. Ret (IsHoldingConnection ss, ss, P)) S)"

definition Store_GiveConnectionTemporarily :: "'s env \<Rightarrow> nat \<Rightarrow> 's store \<Rightarrow> (rdb_errno \<times> 's store) run" where
  "Store_GiveConnectionTemporarily E thr S =
     (let (sid, S) = GetThreadSession thr S in on_session sid (GiveConnectionTemporarily E) S)"

subsection \<open>Step queries\<close>

definition Store_BeginStepQuery :: "'s env \<Rightarrow> nat \<Rightarrow> string \<Rightarrow> string list \<Rightarrow> 's store \<Rightarrow> (unit result \<times> 's store) run" where
  "Store_BeginStepQuery E thr sql bindArgs S =
     (let (sid, S) = GetThreadSession thr S in on_session sid (Session_BeginStepQuery E sql bindArgs) S)"

definition Store_EndStepQuery :: "'s env \<Rightarrow> nat \<Rightarrow> 's store \<Rightarrow> (rdb_errno \<times> 's store) run" where
  "Store_EndStepQuery E thr S =
     (let (sid, S) = GetThreadSession thr S in
      run_bind (on_session sid (Session_EndStepQuery E) S) (\<lambda>(err, S).
        Ret (err, ReleaseThreadSession thr (ReleaseThreadSession thr S))))"


subsection \<open>The registry of sessions\<close>

text \<open>No session serves two threads, an idle session serves none, and every entry is in use.\<close>

definition registry_inv :: "'s store \<Rightarrow> bool" where
  "registry_inv S \<longleftrightarrow>
     (\<forall>thr sid n. threadMap S thr = Some (sid, n) \<longrightarrow> sid < length (sessions S) \<and> 1 \<le> n \<and> sid \<notin> set (idleSessions S))
   \<and> (\<forall>a b sid m n. threadMap S a = Some (sid, m) \<and> threadMap S b = Some (sid, n) \<longrightarrow> a = b)
   \<and> distinct (idleSessions S) \<and> (\<forall>sid \<in> set (idleSessions S). sid < length (sessions S))
   \<and> length (idleSessions S) \<le> MAX_IDLE_SESSION_SIZE"

lemma registry_entry:
  "registry_inv S \<Longrightarrow> threadMap S thr = Some (sid, n) \<Longrightarrow> sid < length (sessions S) \<and> 1 \<le> n \<and> sid \<notin> set (idleSessions S)"
  by (simp add: registry_inv_def)

lemma registry_add:
  assumes inv: "registry_inv S" and "sid < length (sessions S')" and "length (sessions S) \<le> length (sessions S')"
    and "\<forall>a n. threadMap S a \<noteq> Some (sid, n)" and "sid \<notin> set (idleSessions S')"
    and "set (idleSessions S') \<subseteq> set (idleSessions S)" and "distinct (idleSessions S')"
    and "length (idleSessions S') \<le> length (idleSessions S)"
    and S': "threadMap S' = (threadMap S)(thr := Some (sid, 1))"
  shows "registry_inv S'"
  unfolding registry_inv_def
proof (intro conjI allI impI)
  fix a x n assume "threadMap S' a = Some (x, n)"
  then show "x < length (sessions S')" "1 \<le> n" "x \<notin> set (idleSessions S')"
    using assms registry_entry [OF inv, of a x n] by (auto simp: S' split: if_splits)
next
  fix a b x m n assume "threadMap S' a = Some (x, m) \<and> threadMap S' b = Some (x, n)"
  then show "a = b" using assms(4) inv by (auto simp: S' registry_inv_def split: if_splits)
qed (use assms in \<open>fastforce simp: registry_inv_def\<close>)+

lemma GetThreadSession_inv:
  assumes inv: "registry_inv S" and g: "GetThreadSession thr S = (sid, S')"
  shows "registry_inv S' \<and> sid < length (sessions S') \<and> pool S' = pool S
    \<and> (\<exists>n. threadMap S' = (threadMap S)(thr := Some (sid, n)))
    \<and> sessions S' = (if threadMap S thr = None \<and> idleSessions S = [] then sessions S @ [StoreSession_new] else sessions S)"
proof (cases "threadMap S thr")
  case (Some e)
  obtain x n where e: "e = (x, n)" by fastforce
  have S': "sid = x" "S' = S\<lparr>threadMap := (threadMap S)(thr := Some (x, n + 1))\<rparr>"
    using g Some e by (auto simp: GetThreadSession_def)
  have "registry_inv S'"
    unfolding registry_inv_def
  proof (intro conjI allI impI)
    fix a y m assume "threadMap S' a = Some (y, m)"
    then show "y < length (sessions S')" "1 \<le> m" "y \<notin> set (idleSessions S')"
      using registry_entry [OF inv, of a y m] registry_entry [OF inv, of thr x n] Some e by (auto simp: S' split: if_splits)
  next
    fix a b y m k assume "threadMap S' a = Some (y, m) \<and> threadMap S' b = Some (y, k)"
    then show "a = b" using inv Some e by (auto simp: S' registry_inv_def split: if_splits)
  qed (use inv in \<open>auto simp: S' registry_inv_def\<close>)
  with S' registry_entry [OF inv] Some e show ?thesis by auto
next
  case None
  show ?thesis
  proof (cases "idleSessions S = []")
    case True
    then have S': "sid = length (sessions S)"
      "S' = S\<lparr>sessions := sessions S @ [StoreSession_new], threadMap := (threadMap S)(thr := Some (sid, 1))\<rparr>"
      using g None by (auto simp: GetThreadSession_def)
    have "\<forall>a n. threadMap S a \<noteq> Some (sid, n)" using registry_entry [OF inv] S'(1) by fastforce
    then have "registry_inv S'"
      by (intro registry_add [OF inv, of sid S' thr]) (use True S' in auto)
    with S' True None show ?thesis by auto
  next
    case False
    then obtain rest where rest: "idleSessions S = rest @ [sid]"
      "S' = S\<lparr>idleSessions := rest, threadMap := (threadMap S)(thr := Some (sid, 1))\<rparr>"
      using g None by (cases "idleSessions S" rule: rev_cases) (auto simp: GetThreadSession_def)
    have i: "sid < length (sessions S)" "distinct rest" "sid \<notin> set rest" using inv rest(1) by (auto simp: registry_inv_def)
    have "\<forall>a n. threadMap S a \<noteq> Some (sid, n)" using registry_entry [OF inv] rest(1) by fastforce
    then have "registry_inv S'"
      by (intro registry_add [OF inv, of sid S' thr]) (use rest i in auto)
    with rest i False None show ?thesis by auto
  qed
qed

lemma ReleaseThreadSession_inv:
  assumes inv: "registry_inv S"
  shows "registry_inv (ReleaseThreadSession thr S) \<and> pool (ReleaseThreadSession thr S) = pool S
    \<and> sessions (ReleaseThreadSession thr S) = sessions S"
proof (cases "threadMap S thr")
  case None
  with inv show ?thesis by (simp add: ReleaseThreadSession_def)
next
  case (Some e)
  obtain x n where e: "e = (x, n)" by fastforce
  note x = registry_entry [OF inv Some [unfolded e]]
  let ?S = "ReleaseThreadSession thr S"
  have others: "threadMap S a \<noteq> Some (x, m)" if "a \<noteq> thr" for a m
    using that inv Some e unfolding registry_inv_def by blast
  have "registry_inv ?S"
    unfolding registry_inv_def
  proof (intro conjI allI impI)
    fix a y m assume "threadMap ?S a = Some (y, m)"
    then show "y < length (sessions ?S)" "1 \<le> m" "y \<notin> set (idleSessions ?S)"
      using registry_entry [OF inv, of a y m] x others [of a m] Some e
      by (auto simp: ReleaseThreadSession_def Let_def split: if_splits)
  next
    fix a b y m k assume "threadMap ?S a = Some (y, m) \<and> threadMap ?S b = Some (y, k)"
    then show "a = b" using inv others Some e
      by (auto simp: ReleaseThreadSession_def Let_def registry_inv_def split: if_splits)
  qed (use inv x Some e in \<open>auto simp: ReleaseThreadSession_def registry_inv_def Let_def\<close>)
  with Some e show ?thesis by (simp add: ReleaseThreadSession_def Let_def)
qed


subsection \<open>The invariant of the store\<close>

definition held_except :: "nat \<Rightarrow> StoreSession list \<Rightarrow> nat set" where
  "held_except i ses = (\<Union>j \<in> {..<length ses} - {i}. held (ses ! j))"

definition held_by :: "StoreSession list \<Rightarrow> nat set" where
  "held_by ses = (\<Union>j \<in> {..<length ses}. held (ses ! j))"

definition sessions_inv :: "StoreSession list \<Rightarrow> 's pool \<Rightarrow> bool" where
  "sessions_inv ses P \<longleftrightarrow>
     pool_inv P (held_by ses) \<and> (\<forall>i < length ses. held (ses ! i) \<inter> held_except i ses = {} \<and> session_wf (ses ! i))"

definition store_inv :: "'s store \<Rightarrow> bool" where
  "store_inv S \<longleftrightarrow> registry_inv S \<and> sessions_inv (sessions S) (pool S)"

lemma in_held:
  "q \<in> held_except i ses \<longleftrightarrow> (\<exists>j < length ses. j \<noteq> i \<and> connection (ses ! j) = Some q)"
  "q \<in> held_by ses \<longleftrightarrow> (\<exists>j < length ses. connection (ses ! j) = Some q)"
  by (auto simp: held_except_def held_by_def)

lemma held_split: "i < length ses \<Longrightarrow> held_by ses = held_except i ses \<union> held (ses ! i)"
  by (auto simp: held_by_def held_except_def)

lemma held_except_upd: "i < length ses \<Longrightarrow> held_except i (ses[i := ss]) = held_except i ses"
  by (auto simp: held_except_def)

lemma sessions_good: "sessions_inv ses P \<Longrightarrow> i < length ses \<Longrightarrow> good (ses ! i) (held_except i ses) P"
  by (simp add: sessions_inv_def good_def held_split)

lemma sessions_upd:
  assumes inv: "sessions_inv ses P" and i: "i < length ses" and g: "good ss (held_except i ses) P'"
  shows "sessions_inv (ses[i := ss]) P'"
proof -
  let ?ses = "ses[i := ss]"
  have pool: "pool_inv P' (held_by ?ses)"
    using g i held_split [of i ?ses] by (simp add: good_def held_except_upd)
  have "held (?ses ! j) \<inter> held_except j ?ses = {} \<and> session_wf (?ses ! j)" if j: "j < length ses" for j
  proof (cases "j = i")
    case True
    with g i show ?thesis by (simp add: good_def held_except_upd)
  next
    case False
    have old: "held (ses ! j) \<inter> held_except j ses = {}" "session_wf (ses ! j)"
      using inv j by (auto simp: sessions_inv_def)
    have "held ss \<inter> held (ses ! j) = {}"
      using g i j False by (auto simp: good_def held_except_def)
    moreover have "held_except j ?ses \<subseteq> held ss \<union> held_except j ses"
      using i by (auto simp: in_held nth_list_update split: if_splits)
    ultimately show ?thesis using old False by auto
  qed
  with pool show ?thesis by (simp add: sessions_inv_def)
qed

lemma sessions_grow:
  assumes "sessions_inv ses P"
  shows "sessions_inv (ses @ [StoreSession_new]) P"
proof -
  have n: "connection StoreSession_new = None" by (simp add: StoreSession_new_def)
  have "held_by (ses @ [StoreSession_new]) = held_by ses"
    using n by (fastforce simp: in_held nth_append less_Suc_eq)
  moreover have "held_except i (ses @ [StoreSession_new]) = held_except i ses" for i
    using n by (fastforce simp: in_held nth_append less_Suc_eq)
  ultimately show ?thesis
    using assms n by (auto simp: sessions_inv_def nth_append less_Suc_eq)
qed

definition keeps_good :: "(StoreSession \<Rightarrow> 's pool \<Rightarrow> ('a \<times> StoreSession \<times> 's pool) run) \<Rightarrow> bool" where
  "keeps_good f \<longleftrightarrow> (\<forall>ss K P r ss' P'. good ss K P \<longrightarrow> f ss P = Ret (r, ss', P') \<longrightarrow> good ss' K P')"

lemma registry_frame:
  "registry_inv S \<Longrightarrow> threadMap S' = threadMap S \<Longrightarrow> idleSessions S' = idleSessions S \<Longrightarrow>
     length (sessions S') = length (sessions S) \<Longrightarrow> registry_inv S'"
  by (simp add: registry_inv_def)

lemma on_session_inv:
  assumes inv: "store_inv S" and f: "keeps_good f" and r: "on_session sid f S = Ret (v, S')"
  shows "store_inv S' \<and> threadMap S' = threadMap S \<and> idleSessions S' = idleSessions S"
proof -
  obtain ss P where sid: "sid < length (sessions S)" and c: "f (sessions S ! sid) (pool S) = Ret (v, ss, P)"
    and S': "S' = S\<lparr>pool := P, sessions := (sessions S)[sid := ss]\<rparr>"
    using r by (auto simp: on_session_def split: if_splits)
  have "good ss (held_except sid (sessions S)) P"
    using f c sessions_good [of "sessions S" "pool S" sid] sid inv by (auto simp: keeps_good_def store_inv_def)
  with inv sid S' sessions_upd [of "sessions S" "pool S" sid ss P] registry_frame [of S S'] show ?thesis
    by (simp add: store_inv_def)
qed

lemma GetThreadSession_store_inv:
  assumes "store_inv S" and "GetThreadSession thr S = (sid, S')"
  shows "store_inv S'"
  using GetThreadSession_inv [of S thr sid S'] assms by (auto simp: store_inv_def intro: sessions_grow)

lemma ReleaseThreadSession_store_inv: "store_inv S \<Longrightarrow> store_inv (ReleaseThreadSession thr S)"
  using ReleaseThreadSession_inv [of S thr] by (simp add: store_inv_def)

lemma in_session_inv:
  assumes "store_inv S" and "keeps_good f" and "in_session thr f S = Ret (v, S')"
  shows "store_inv S'"
proof -
  obtain sid S1 where g: "GetThreadSession thr S = (sid, S1)" by fastforce
  with assms(3) obtain S2 where "on_session sid f S1 = Ret (v, S2)" "S' = ReleaseThreadSession thr S2"
    by (auto simp: in_session_def)
  with on_session_inv [OF GetThreadSession_store_inv [OF assms(1) g] assms(2)] ReleaseThreadSession_store_inv
  show ?thesis by blast
qed

lemma keep_session_inv:
  assumes "store_inv S" and "keeps_good f" and "keep_session thr f S = Ret (v, S')"
  shows "store_inv S'"
proof -
  obtain sid S1 where g: "GetThreadSession thr S = (sid, S1)" by fastforce
  with assms(3) obtain S2 where "on_session sid f S1 = Ret (v, S2)"
    "S' = (if v \<noteq> E_OK then ReleaseThreadSession thr S2 else S2)"
    by (auto simp: keep_session_def)
  with on_session_inv [OF GetThreadSession_store_inv [OF assms(1) g] assms(2)] ReleaseThreadSession_store_inv
  show ?thesis by (metis (full_types))
qed


subsection \<open>The calls of the store\<close>

lemma exec_keeps_good:
  "keeps_good (Session_ExecuteSql E sql args)" "keeps_good (Session_ExecuteForChangedRowCount E sql args)"
  "keeps_good (Session_ExecuteForLastInsertedRowId E sql args)" "keeps_good (Session_ExecuteGetLong E sql args)"
  "keeps_good (Session_ExecuteGetString E sql args)"
  unfolding keeps_good_def session_execs
  using execute_with_good exec_kinds ExecuteGetString_good by fast+

lemma keeps_goodI:
  "(\<And>ss K P r ss' P'. good ss K P \<Longrightarrow> f ss P = Ret (r, ss', P') \<Longrightarrow> good ss' K P') \<Longrightarrow> keeps_good f"
  unfolding keeps_good_def by blast

lemma trans_keeps_good: "keeps_good (BeginTransaction E)" "keeps_good (Commit E)" "keeps_good (RollBack E)"
  by (rule keeps_goodI, drule (1) BeginTransaction_effect Commit_effect RollBack_effect, simp)+

lemma step_keeps_good: "keeps_good (Session_BeginStepQuery E sql args)" "keeps_good (Session_EndStepQuery E)"
proof -
  show "keeps_good (Session_BeginStepQuery E sql args)"
    unfolding keeps_good_def
  proof (intro allI impI)
    fix ss K P r ss' P'
    assume "good ss K P" "Session_BeginStepQuery E sql args ss P = Ret (r, ss', P')"
    from BeginStepQuery_good [OF this] show "good ss' K P'" by (cases r) auto
  qed
  show "keeps_good (Session_EndStepQuery E)"
    unfolding keeps_good_def
  proof (intro allI impI)
    fix ss K P r ss' P'
    assume g: "good ss K P" and e: "Session_EndStepQuery E ss P = Ret (r, ss', P')"
    show "good ss' K P'"
    proof (cases "isInStepQuery ss")
      case True
      then obtain P1 where o: "on_connection (\<lambda>c s. map_option (\<lambda>(e, s). (e, c, s)) (Conn_EndStepQuery E c s)) ss P = Ret (r, P1)"
        and rel: "ReleaseConnection (ss\<lparr>isInStepQuery := False\<rparr>) P1 = (ss', P')"
        using e by (auto simp: Session_EndStepQuery_def split: prod.splits)
      have "good (ss\<lparr>isInStepQuery := False\<rparr>) K P1"
        using on_connection_good [OF g step_kinds(2) o] by (simp add: good_def session_wf_def)
      from ReleaseConnection_good [OF this rel] show ?thesis by simp
    next
      case False
      with g e show ?thesis by (auto simp: Session_EndStepQuery_def)
    qed
  qed
qed

text \<open>The calls a thread makes on the store.\<close>

datatype store_call =
    sExecute exec_call
  | sBeginTransaction | sCommit | sRollBack | sMarkAsCommit | sIsInTransaction | sIsHoldingConnection
  | sBeginStepQuery string "string list" | sEndStepQuery

definition drop_res :: "('a \<times> 's store) run \<Rightarrow> 's store run" where
  "drop_res r = run_bind r (\<lambda>(_, S). Ret S)"

fun store_exec :: "'s env \<Rightarrow> nat \<Rightarrow> exec_call \<Rightarrow> 's store \<Rightarrow> 's store run" where
  "store_exec E thr (xExecuteSql sql args) S = drop_res (Store_ExecuteSql E thr sql args S)"
| "store_exec E thr (xChangedRowCount sql args) S = drop_res (Store_ExecuteForChangedRowCount E thr sql args S)"
| "store_exec E thr (xLastInsertedRowId sql args) S = drop_res (Store_ExecuteForLastInsertedRowId E thr sql args S)"
| "store_exec E thr (xGetLong sql args) S = drop_res (ExecuteAndGetLong E thr sql args S)"
| "store_exec E thr (xGetString sql args) S = drop_res (ExecuteAndGetString E thr sql args S)"

fun store_call_on :: "'s env \<Rightarrow> nat \<Rightarrow> store_call \<Rightarrow> 's store \<Rightarrow> 's store run" where
  "store_call_on E thr (sExecute x) S = store_exec E thr x S"
| "store_call_on E thr sBeginTransaction S = drop_res (Store_BeginTransaction E thr S)"
| "store_call_on E thr sCommit S = drop_res (Store_Commit E thr S)"
| "store_call_on E thr sRollBack S = drop_res (Store_RollBack E thr S)"
| "store_call_on E thr sMarkAsCommit S = drop_res (Store_MarkAsCommit thr S)"
| "store_call_on E thr sIsInTransaction S = drop_res (Store_IsInTransaction thr S)"
| "store_call_on E thr sIsHoldingConnection S = drop_res (Store_IsHoldingConnection thr S)"
| "store_call_on E thr (sBeginStepQuery sql args) S = drop_res (Store_BeginStepQuery E thr sql args S)"
| "store_call_on E thr sEndStepQuery S = drop_res (Store_EndStepQuery E thr S)"

text \<open>A schema change reopens the readers, which is only safe while none is out.\<close>

fun schema_call :: "store_call \<Rightarrow> bool" where
  "schema_call (sExecute (xExecuteSql sql args)) \<longleftrightarrow> GetSqlStatementType sql = STATEMENT_DDL"
| "schema_call _ \<longleftrightarrow> False"

lemma drop_res_Ret [simp]: "drop_res r = Ret S' \<longleftrightarrow> (\<exists>v. r = Ret (v, S'))"
  by (auto simp: drop_res_def)

lemma CheckAttach_cases:
  "CheckAttach E thr sql S = Ret (e, S') \<Longrightarrow>
     S' = S \<or> (\<exists>v. in_session thr (Session_ExecuteGetString E ''PRAGMA journal_mode'' []) S = Ret (v, S'))"
  by (cases "in_session thr (Session_ExecuteGetString E ''PRAGMA journal_mode'' []) S")
    (auto simp: CheckAttach_def ExecuteAndGetString_def Let_def split: if_splits sum.splits)

lemma CheckAttach_inv:
  "store_inv S \<Longrightarrow> CheckAttach E thr sql S = Ret (e, S') \<Longrightarrow> store_inv S'"
  by (auto dest!: CheckAttach_cases dest: in_session_inv [OF _ exec_keeps_good(5)])

lemma on_thread_inv:
  assumes "store_inv S" and "keeps_good f" and "GetThreadSession thr S = (sid, S1)" and "on_session sid f S1 = Ret (v, S2)"
  shows "store_inv S2"
  using on_session_inv [OF GetThreadSession_store_inv [OF assms(1,3)] assms(2,4)] by simp

lemma Store_ExecuteSql_inv:
  assumes inv: "store_inv S" and r: "Store_ExecuteSql E thr sql args S = Ret (e, S')"
    and ddl: "GetSqlStatementType sql \<noteq> STATEMENT_DDL"
  shows "store_inv S'"
proof -
  obtain e1 S1 where a: "CheckAttach E thr sql S = Ret (e1, S1)" using r by (auto simp: Store_ExecuteSql_def)
  note inv1 = CheckAttach_inv [OF inv a]
  obtain sid S2 where g: "GetThreadSession thr S1 = (sid, S2)" by fastforce
  have "S' = S1 \<or> (\<exists>v S3. on_session sid (Session_ExecuteSql E sql args) S2 = Ret (v, S3) \<and> S' = ReleaseThreadSession thr S3)"
    using r a g ddl by (auto simp: Store_ExecuteSql_def split: if_splits)
  with on_thread_inv [OF inv1 exec_keeps_good(1) g] ReleaseThreadSession_store_inv inv1 show ?thesis by blast
qed

lemma mark_keeps_good:
  "keeps_good (\<lambda>ss P. let (e, P) = MarkAsCommit P in Ret (e, ss, P))"
  "keeps_good (\<lambda>ss P. Ret (g ss P, ss, P))"
  by (auto simp: keeps_good_def MarkAsCommit_def split: list.splits)

lemma store_call_inv:
  assumes inv: "store_inv S" and r: "store_call_on E thr c S = Ret S'" and c: "\<not> schema_call c"
  shows "store_inv S'"
proof (cases c)
  case (sExecute x)
  with r c show ?thesis
    by (cases x)
      (auto simp: Store_ExecuteForChangedRowCount_def Store_ExecuteForLastInsertedRowId_def ExecuteAndGetLong_def
        ExecuteAndGetString_def dest: Store_ExecuteSql_inv [OF inv] in_session_inv [OF inv exec_keeps_good(2)]
        in_session_inv [OF inv exec_keeps_good(3)] in_session_inv [OF inv exec_keeps_good(4)]
        in_session_inv [OF inv exec_keeps_good(5)])
next
  case (sBeginStepQuery sql args)
  obtain sid S1 where "GetThreadSession thr S = (sid, S1)" by fastforce
  with r sBeginStepQuery on_thread_inv [OF inv step_keeps_good(1)] show ?thesis
    by (auto simp: Store_BeginStepQuery_def)
next
  case sEndStepQuery
  obtain sid S1 where "GetThreadSession thr S = (sid, S1)" by fastforce
  with r sEndStepQuery on_thread_inv [OF inv step_keeps_good(2)] show ?thesis
    by (auto simp: Store_EndStepQuery_def intro!: ReleaseThreadSession_store_inv)
next
  case sIsHoldingConnection
  obtain sid S1 where "GetThreadSession thr S = (sid, S1)" by fastforce
  with r sIsHoldingConnection on_thread_inv [OF inv mark_keeps_good(2)] show ?thesis
    by (auto simp: Store_IsHoldingConnection_def)
qed (use r inv in \<open>auto simp: Store_BeginTransaction_def Store_Commit_def Store_RollBack_def Store_MarkAsCommit_def
      Store_IsInTransaction_def
      dest: keep_session_inv [OF inv trans_keeps_good(1)] keep_session_inv [OF inv trans_keeps_good(2)]
        keep_session_inv [OF inv trans_keeps_good(3)] in_session_inv [OF inv mark_keeps_good(1) [unfolded Let_def]]
        in_session_inv [OF inv mark_keeps_good(2)]\<close>)

fun store_run :: "'s env \<Rightarrow> (nat \<times> store_call) list \<Rightarrow> 's store \<Rightarrow> 's store run" where
  "store_run E [] S = Ret S"
| "store_run E ((thr, c) # cs) S = run_bind (store_call_on E thr c S) (store_run E cs)"

lemma store_run_inv:
  "store_inv S \<Longrightarrow> store_run E cs S = Ret S' \<Longrightarrow> \<forall>(thr, c) \<in> set cs. \<not> schema_call c \<Longrightarrow> store_inv S'"
proof (induction cs arbitrary: S)
  case Nil
  then show ?case by simp
next
  case (Cons tc cs)
  obtain thr c where tc: "tc = (thr, c)" by fastforce
  then obtain S1 where c: "store_call_on E thr c S = Ret S1" "store_run E cs S1 = Ret S'"
    using Cons.prems(2) by auto
  with store_call_inv [OF Cons.prems(1) c(1)] Cons.IH [OF _ c(2)] Cons.prems(3) tc show ?case by auto
qed

lemma new_store_inv: "pool_inv P {} \<Longrightarrow> store_inv (RdbStoreImpl_new path P)"
  by (simp add: store_inv_def registry_inv_def sessions_inv_def held_by_def RdbStoreImpl_new_def)


subsection \<open>Use counts\<close>

lemma get_then_release:
  assumes inv: "registry_inv S" and g: "GetThreadSession thr S = (sid, S1)" and m: "threadMap S2 = threadMap S1"
  shows "threadMap (ReleaseThreadSession thr S2) = threadMap S"
proof (cases "threadMap S thr")
  case None
  with g m show ?thesis
    by (auto simp: GetThreadSession_def ReleaseThreadSession_def Let_def fun_eq_iff split: if_splits)
next
  case (Some e)
  then obtain x n where "threadMap S thr = Some (x, n)" "1 \<le> n" using registry_entry [OF inv] by (cases e) auto
  with g m show ?thesis
    by (auto simp: GetThreadSession_def ReleaseThreadSession_def Let_def fun_eq_iff)
qed

lemma on_session_threads: "on_session sid f S = Ret (v, S') \<Longrightarrow> threadMap S' = threadMap S"
  by (auto simp: on_session_def split: if_splits)

lemma in_session_threads:
  assumes "registry_inv S" and "in_session thr f S = Ret (v, S')"
  shows "threadMap S' = threadMap S"
proof -
  obtain sid S1 where g: "GetThreadSession thr S = (sid, S1)" by fastforce
  with assms(2) obtain S2 where o: "on_session sid f S1 = Ret (v, S2)" and S': "S' = ReleaseThreadSession thr S2"
    by (auto simp: in_session_def)
  from get_then_release [OF assms(1) g on_session_threads [OF o]] S' show ?thesis by simp
qed

lemma CheckAttach_threads:
  "registry_inv S \<Longrightarrow> CheckAttach E thr sql S = Ret (e, S') \<Longrightarrow> threadMap S' = threadMap S"
  by (auto dest!: CheckAttach_cases dest: in_session_threads)

lemma Store_ExecuteSql_threads:
  assumes inv: "store_inv S" and r: "Store_ExecuteSql E thr sql args S = Ret (e, S')"
  shows "threadMap S' = threadMap S"
proof -
  obtain e1 S1 where a: "CheckAttach E thr sql S = Ret (e1, S1)" using r by (auto simp: Store_ExecuteSql_def)
  have inv1: "registry_inv S1" and t1: "threadMap S1 = threadMap S"
    using CheckAttach_inv [OF inv a] CheckAttach_threads [OF _ a] inv by (auto simp: store_inv_def)
  show ?thesis
  proof (cases "e1 = E_OK")
    case True
    obtain sid S2 where g: "GetThreadSession thr S1 = (sid, S2)" by fastforce
    obtain v S3 where o: "on_session sid (Session_ExecuteSql E sql args) S2 = Ret (v, S3)"
      using r a True g by (auto simp: Store_ExecuteSql_def)
    have "\<exists>P. S' = ReleaseThreadSession thr (S3\<lparr>pool := P\<rparr>)"
    proof (cases "errno_of v = E_OK \<and> GetSqlStatementType sql = STATEMENT_DDL")
      case True
      with r a g o \<open>e1 = E_OK\<close> show ?thesis by (auto simp: Store_ExecuteSql_def)
    next
      case False
      then have "S' = ReleaseThreadSession thr (S3\<lparr>pool := pool S3\<rparr>)"
        using r a g o \<open>e1 = E_OK\<close> by (auto simp: Store_ExecuteSql_def split: if_splits)
      then show ?thesis ..
    qed
    then obtain P where S': "S' = ReleaseThreadSession thr (S3\<lparr>pool := P\<rparr>)" ..
    have "threadMap (S3\<lparr>pool := P\<rparr>) = threadMap S2" using on_session_threads [OF o] by simp
    from get_then_release [OF inv1 g this] S' t1 show ?thesis by simp
  next
    case False
    with r a t1 show ?thesis by (auto simp: Store_ExecuteSql_def)
  qed
qed

subsection \<open>The texts\<close>

lemma append_columns_tail:
  "append_columns False m sql ba = (sql @ concat (map (\<lambda>(k, v). '','' @ k) m), ba @ map snd m)"
  by (induction m arbitrary: sql ba) auto

lemma append_columns_eq:
  "append_columns True m sql ba = (sql @ join_with '','' (map fst m), ba @ map snd m)"
proof -
  have "join_with '','' (x # xs) = x @ concat (map (\<lambda>y. '','' @ y) xs)" for x xs
    by (induction xs arbitrary: x) auto
  then show ?thesis
    by (cases m) (auto simp: append_columns_tail comp_def case_prod_unfold)
qed

lemma append_marks_tail: "0 < i \<Longrightarrow> append_marks i n sql = sql @ concat (replicate n '',?'')"
  by (induction i n sql rule: append_marks.induct) auto

lemma append_marks_eq: "append_marks 0 n sql = sql @ join_with '','' (replicate n ''?'')"
proof -
  have "join_with '','' (x # xs) = x @ concat (map (\<lambda>y. '','' @ y) xs)" for x xs
    by (induction xs arbitrary: x) auto
  then show ?thesis by (cases n) (simp_all add: append_marks_tail)
qed

lemma GetConflictClause_code: "GetConflictClause (conflict_code c) = Inr (onConflictClause c)"
  by (cases c) (simp_all add: GetConflictClause_def ON_CONFLICT_CLAUSE_def numeral_2_eq_2 numeral_3_eq_3 eval_nat_numeral)

lemma count_join_marks: "count_list (join_with '','' (replicate n ''?'')) CHR ''?'' = n"
  by (induction n rule: induct_nat_012) auto

lemma count_join_names:
  "\<forall>k \<in> set ks. CHR ''?'' \<notin> set k \<Longrightarrow> count_list (join_with '','' ks) CHR ''?'' = 0"
  by (induction ks rule: induct_list012) (auto simp: count_list_notin)

lemma onConflict_no_hole: "count_list (onConflictClause c) CHR ''?'' = 0"
  by (cases c) auto

subsection \<open>Properties\<close>


definition demo_rc :: RdbStoreConfig_view where
  "demo_rc = \<lparr>rc_path = ''/data/test.db'', rc_storageMode = MODE_DISK, rc_readOnly = True,
     rc_encryptKey = [1, 2], rc_journalMode = [], rc_syncMode = [], rc_fileType = []\<rparr>"

lemma demo_store_opens: "Store_InnerOpen demo_env demo_rc demo_init = Ret (E_OK, Some (RdbStoreImpl_new ''/data/test.db'' demo_pool))"
  using demo_pool_created [unfolded demo_pool_config_def]
  by (simp add: Store_InnerOpen_def demo_rc_def)

lemma demo_store_begins:
  "\<exists>P1 P2. store_run demo_env [(7, sBeginTransaction), (8, sBeginTransaction)] (RdbStoreImpl_new path demo_pool)
     = Ret ((RdbStoreImpl_new path P2)\<lparr>sessions := [StoreSession_new, StoreSession_new],
         threadMap := (\<lambda>_. None)(7 := Some (0, 1), 8 := Some (1, 1))\<rparr>)"
proof -
  have n: "transactionStack demo_pool = []" by (simp add: demo_pool_def)
  from demo_begin [OF demo_pool_ready, of "''BEGIN EXCLUSIVE;''"] n demo_strings obtain P1 where
    P1: "BeginTransaction demo_env StoreSession_new demo_pool = Ret (E_OK, StoreSession_new, P1)"
      "demo_ready P1 ''BEGIN EXCLUSIVE;''" "transactionStack P1 = [BaseTransaction_new 0]"
    by auto
  from demo_begin [OF P1(2), of "''SAVEPOINT TRANS_STR1;''"] P1(3) demo_strings obtain P2 where
    P2: "BeginTransaction demo_env StoreSession_new P1 = Ret (E_OK, StoreSession_new, P2)"
    by auto
  from P1(1) P2 show ?thesis
    by (simp add: Store_BeginTransaction_def keep_session_def GetThreadSession_def RdbStoreImpl_new_def on_session_def)
qed


text \<open>
  Running a statement through the store, of any of the five kinds, gives the thread's
  session back: whatever the outcome, every thread has the use count it had before the call.
\<close>

theorem statements_restore_use_counts:
  assumes "store_inv S" and "store_exec E thr x S = Ret S'"
  shows "threadMap S' = threadMap S"
proof -
  have r: "registry_inv S" using assms(1) by (simp add: store_inv_def)
  from assms(2) show ?thesis
    by (cases x)
      (auto simp: Store_ExecuteForChangedRowCount_def Store_ExecuteForLastInsertedRowId_def ExecuteAndGetLong_def
        ExecuteAndGetString_def dest: Store_ExecuteSql_threads [OF assms(1)] in_session_threads [OF r])
qed

lemma demo_store_inv: "store_inv (RdbStoreImpl_new path demo_pool)"
  using new_store_inv [OF demo_pool_inv] .

theorem statements_restore_use_counts_witness:
  "\<exists>S'. store_exec demo_env 7 (xGetLong ''SELECT 1'' []) (RdbStoreImpl_new ''/data/test.db'' demo_pool) = Ret S'
     \<and> threadMap S' 7 = None \<and> length (sessions S') = 1"
proof -
  have t: "GetSqlStatementType ''SELECT 1'' = STATEMENT_SELECT" by code_simp
  have "\<exists>v P'. Session_ExecuteGetLong demo_env ''SELECT 1'' [] StoreSession_new demo_pool = Ret (v, StoreSession_new, P')"
    using t by (simp add: session_execs execute_with_def BeginExecuteSql_def AcquireConnection_def acquire_with_def
        StoreSession_new_def Pool_AcquireConnection_def AcquireReadConnection_def demo_pool_def on_connection_def demo_heap_def
        IsSpecial_def IsSqlReadOnly_def Conn_Prepare_def Prepare_def demo_conn_def SqliteStatement_new_def Finalize_def
        session_is_writer_def IsWriteConnection_def ReleaseConnection_def release_with_def Conn_ExecuteGetLong_def
        PrepareAndBind_def BindArguments_def Step_def GetColumnLong_def finish_with_def Conn_Reset_def
        ResetStatementAndClearBindings_def demo_eval)
  then obtain v P' where "Session_ExecuteGetLong demo_env ''SELECT 1'' [] StoreSession_new demo_pool = Ret (v, StoreSession_new, P')"
    by blast
  then have "\<exists>S'. store_exec demo_env 7 (xGetLong ''SELECT 1'' []) (RdbStoreImpl_new ''/data/test.db'' demo_pool) = Ret S'
      \<and> length (sessions S') = 1"
    by (auto simp: ExecuteAndGetLong_def in_session_def GetThreadSession_def RdbStoreImpl_new_def on_session_def
        ReleaseThreadSession_def)
  then obtain S' where S': "store_exec demo_env 7 (xGetLong ''SELECT 1'' []) (RdbStoreImpl_new ''/data/test.db'' demo_pool) = Ret S'"
    "length (sessions S') = 1"
    by blast
  have "threadMap S' 7 = None"
    using statements_restore_use_counts [OF demo_store_inv S'(1)] by (simp add: RdbStoreImpl_new_def)
  with S' show ?thesis by blast
qed

text \<open>
  Committing a transaction that was begun on an idle thread returns success and leaves the
  thread with a session in use twice, which nothing gives back.
\<close>

theorem commit_keeps_session_in_use:
  assumes "threadMap S thr = None" and "Store_BeginTransaction E thr S = Ret (E_OK, S1)"
    and "Store_Commit E thr S1 = Ret (E_OK, S2)"
  shows "\<exists>sid. threadMap S2 thr = Some (sid, 2)"
proof -
  obtain sid S' where g: "GetThreadSession thr S = (sid, S')" by fastforce
  then have t: "threadMap S' thr = Some (sid, 1)" using assms(1) by (auto simp: GetThreadSession_def Let_def split: if_splits)
  have "threadMap S1 = threadMap S'"
    using assms(2) g by (auto simp: Store_BeginTransaction_def keep_session_def dest: on_session_threads)
  with t have t1: "threadMap S1 thr = Some (sid, 1)" by simp
  then have g1: "GetThreadSession thr S1 = (sid, S1\<lparr>threadMap := (threadMap S1)(thr := Some (sid, 2))\<rparr>)"
    by (simp add: GetThreadSession_def)
  have "threadMap S2 = (threadMap S1)(thr := Some (sid, 2))"
    using assms(3) g1 by (auto simp: Store_Commit_def keep_session_def dest: on_session_threads)
  then show ?thesis by simp
qed

theorem commit_keeps_session_in_use_witness:
  "\<exists>S1 S2. Store_BeginTransaction demo_env 7 (RdbStoreImpl_new ''/data/test.db'' demo_pool) = Ret (E_OK, S1)
     \<and> Store_Commit demo_env 7 S1 = Ret (E_OK, S2) \<and> transactionStack (pool S2) = [] \<and> threadMap S2 7 = Some (0, 2)"
proof -
  let ?S = "RdbStoreImpl_new ''/data/test.db'' demo_pool"
  have n: "transactionStack demo_pool = []" by (simp add: demo_pool_def)
  from demo_begin [OF demo_pool_ready, of "''BEGIN EXCLUSIVE;''"] n demo_strings obtain P1 where
    P1: "BeginTransaction demo_env StoreSession_new demo_pool = Ret (E_OK, StoreSession_new, P1)"
      "demo_ready P1 ''BEGIN EXCLUSIVE;''" "transactionStack P1 = [BaseTransaction_new 0]"
    by auto
  let ?S1 = "(RdbStoreImpl_new ''/data/test.db'' P1)\<lparr>sessions := [StoreSession_new], threadMap := (\<lambda>_. None)(7 := Some (0, 1))\<rparr>"
  have b: "Store_BeginTransaction demo_env 7 ?S = Ret (E_OK, ?S1)"
    using P1(1) by (simp add: Store_BeginTransaction_def keep_session_def GetThreadSession_def RdbStoreImpl_new_def on_session_def)
  have c: "getCommitStr (BaseTransaction_new 0) = ''COMMIT;''" "\<not> demo_reads ''COMMIT;''" by code_simp+
  from demo_on_writer [OF P1(2), of "''COMMIT;''"] c obtain Q where
    Q: "on_connection (Conn_ExecuteSql demo_env ''COMMIT;'' []) demo_holding (P1\<lparr>writeConnectionUsed := True\<rparr>) = Ret (Inr (), Q)"
      "writeConnection Q = Some 0" "transactionStack Q = [BaseTransaction_new 0]"
    using P1(3) by auto
  have "Commit demo_env StoreSession_new P1 = Ret (E_OK, StoreSession_new, Q\<lparr>writeConnectionUsed := False, transactionStack := []\<rparr>)"
    using Q P1(3) c by (simp add: Commit_def demo_acquire [OF P1(2)] demo_release errno_of_def)
  then have "\<exists>S2. Store_Commit demo_env 7 ?S1 = Ret (E_OK, S2) \<and> transactionStack (pool S2) = [] \<and> threadMap S2 7 = Some (0, 2)"
    by (simp add: Store_Commit_def keep_session_def GetThreadSession_def RdbStoreImpl_new_def on_session_def)
  then obtain S2 where S2: "Store_Commit demo_env 7 ?S1 = Ret (E_OK, S2)" "transactionStack (pool S2) = []" "threadMap S2 7 = Some (0, 2)"
    by blast
  have "threadMap ?S 7 = None" by (simp add: RdbStoreImpl_new_def)
  from commit_keeps_session_in_use [OF this b S2(1)] b S2 show ?thesis by blast
qed

text \<open>
  An insert runs one statement that names the columns of the bucket in order and has one
  placeholder per column, with the bucket's values bound in the same order; the conflict clause is the
  one of the requested resolution.
\<close>

theorem insert_statement:
  assumes "table \<noteq> []" and "initialValues \<noteq> []"
  shows "InsertWithConflictResolution E thr table initialValues conflictResolution S =
    in_session thr (Session_ExecuteForLastInsertedRowId E
      (''INSERT'' @ onConflictClause conflictResolution @ '' INTO '' @ table @ ''('' @ join_with '','' (map fst initialValues)
        @ '') VALUES ('' @ join_with '','' (replicate (length initialValues) ''?'') @ '')'')
      (map snd initialValues)) S"
  using assms
  by (simp add: InsertWithConflictResolution_def IsEmpty_def GetConflictClause_code GetAll_def append_columns_eq append_marks_eq)


theorem insert_statement_witness:
  "Store_Replace demo_env 7 ''user'' [(''age'', ValueObject_int 18), (''name'', ValueObject_string ''Li'')] (RdbStoreImpl_new [] demo_pool) =
     in_session 7 (Session_ExecuteForLastInsertedRowId demo_env ''INSERT OR REPLACE INTO user(age,name) VALUES (?,?)''
       [ValueObject_int 18, ValueObject_string ''Li'']) (RdbStoreImpl_new [] demo_pool)"
  using insert_statement [of "''user''" "[(''age'', ValueObject_int 18), (''name'', ValueObject_string ''Li'')]" demo_env 7 ON_CONFLICT_REPLACE
    "RdbStoreImpl_new [] demo_pool"]
  by (simp add: Store_Replace_def numeral_2_eq_2)

end
