(* ===== verification/Byte_Memory.thy ===== *)
theory Byte_Memory
  imports Prelude "HOL-Library.Monad_Syntax"
begin

text \<open>
  A byte-addressed memory region with little-endian words, for code that lays out structures in shared
  memory.  An access outside the region is the value \<open>None\<close>: a theorem that an operation returns
  \<open>Some\<close> excludes it.
\<close>

type_synonym memory = "nat \<Rightarrow> byte"

fun rd :: "nat \<Rightarrow> memory \<Rightarrow> nat \<Rightarrow> nat" where
  "rd 0 m a = 0"
| "rd (Suc k) m a = unat (m a) + 256 * rd k m (Suc a)"

fun wr :: "nat \<Rightarrow> nat \<Rightarrow> nat \<Rightarrow> memory \<Rightarrow> memory" where
  "wr 0 a v m = m"
| "wr (Suc k) a v m = wr k (Suc a) (v div 256) (m(a := of_nat v))"

fun wr_bytes :: "nat \<Rightarrow> byte list \<Rightarrow> memory \<Rightarrow> memory" where
  "wr_bytes a [] m = m"
| "wr_bytes a (b # bs) m = wr_bytes (Suc a) bs (m(a := b))"

definition r32 :: "memory \<Rightarrow> nat \<Rightarrow> uint32" where
  "r32 m a = of_nat (rd 4 m a)"

definition r64 :: "memory \<Rightarrow> nat \<Rightarrow> 64 word" where
  "r64 m a = of_nat (rd 8 m a)"

definition w32 :: "nat \<Rightarrow> uint32 \<Rightarrow> memory \<Rightarrow> memory" where
  "w32 a v = wr 4 a (unat v)"

definition w64 :: "nat \<Rightarrow> 64 word \<Rightarrow> memory \<Rightarrow> memory" where
  "w64 a v = wr 8 a (unat v)"

lemma rd_cong: "(\<And>i. i < k \<Longrightarrow> m (a + i) = m' (a + i)) \<Longrightarrow> rd k m a = rd k m' a"
proof (induction k arbitrary: a)
  case (Suc k)
  have "rd k m (Suc a) = rd k m' (Suc a)" using Suc.prems [of "Suc _"] by (intro Suc.IH) simp
  moreover have "m a = m' a" using Suc.prems [of 0] by simp
  ultimately show ?case by simp
qed simp

lemma wr_outside: "a' < a \<or> a + k \<le> a' \<Longrightarrow> wr k a v m a' = m a'"
  by (induction k arbitrary: a v m) auto

lemma rd_wr_same: "rd k (wr k a v m) a = v mod 256 ^ k"
proof (induction k arbitrary: a v m)
  case (Suc k)
  have "unat (wr k (Suc a) (v div 256) (m(a := of_nat v)) a) = v mod 256"
    by (simp add: wr_outside unat_of_nat)
  moreover have "v mod 256 + 256 * (v div 256 mod 256 ^ k) = v mod 256 ^ Suc k"
    by (simp add: mod_mult2_eq)
  ultimately show ?case by (simp add: Suc.IH)
qed simp

lemma wr_bytes_outside: "a' < a \<or> a + length bs \<le> a' \<Longrightarrow> wr_bytes a bs m a' = m a'"
  by (induction bs arbitrary: a m) auto

lemma wr_bytes_inside: "i < length bs \<Longrightarrow> wr_bytes a bs m (a + i) = bs ! i"
proof (induction bs arbitrary: a m i)
  case (Cons b bs)
  show ?case
  proof (cases i)
    case 0 then show ?thesis by (simp add: wr_bytes_outside)
  next
    case (Suc j) with Cons show ?thesis by (simp add: Cons.IH [of j "Suc a", simplified])
  qed
qed simp

lemma wr_bytes_read: "map (wr_bytes a bs m) [a..<a + length bs] = bs"
  by (rule nth_equalityI) (simp_all add: wr_bytes_inside)

lemma r32_w32 [simp]: "r32 (w32 a v m) a = v"
  using unsigned_less [where ?'a = nat and w = v] by (simp add: r32_def w32_def rd_wr_same)

lemma r64_w64 [simp]: "r64 (w64 a v m) a = v"
  using unsigned_less [where ?'a = nat and w = v] by (simp add: r64_def w64_def rd_wr_same)

lemma w32_outside: "b < a \<or> a + 4 \<le> b \<Longrightarrow> w32 a v m b = m b"
  by (auto simp: w32_def wr_outside)

lemma w64_outside: "b < a \<or> a + 8 \<le> b \<Longrightarrow> w64 a v m b = m b"
  by (auto simp: w64_def wr_outside)

text \<open>Two memories that agree on a set of addresses.\<close>

definition agree :: "nat set \<Rightarrow> memory \<Rightarrow> memory \<Rightarrow> bool" where
  "agree A m m' \<longleftrightarrow> (\<forall>a \<in> A. m' a = m a)"

lemma agreeD: "agree A m m' \<Longrightarrow> a \<in> A \<Longrightarrow> m' a = m a"
  by (simp add: agree_def)

lemma agree_refl [simp]: "agree A m m"
  by (simp add: agree_def)

lemma agree_trans: "agree A m m' \<Longrightarrow> agree A m' m'' \<Longrightarrow> agree A m m''"
  by (simp add: agree_def)

lemma agree_mono: "agree A m m' \<Longrightarrow> B \<subseteq> A \<Longrightarrow> agree B m m'"
  by (auto simp: agree_def)

lemma agree_w32: "{a..<a + 4} \<inter> A = {} \<Longrightarrow> agree A m (w32 a v m)"
proof (unfold agree_def, intro ballI)
  fix b assume "{a..<a + 4} \<inter> A = {}" and "b \<in> A"
  then have "b \<notin> {a..<a + 4}" by blast
  then have "b < a \<or> a + 4 \<le> b" by auto
  then show "w32 a v m b = m b" by (rule w32_outside)
qed

lemma agree_w64: "{a..<a + 8} \<inter> A = {} \<Longrightarrow> agree A m (w64 a v m)"
proof (unfold agree_def, intro ballI)
  fix b assume "{a..<a + 8} \<inter> A = {}" and "b \<in> A"
  then have "b \<notin> {a..<a + 8}" by blast
  then have "b < a \<or> a + 8 \<le> b" by auto
  then show "w64 a v m b = m b" by (rule w64_outside)
qed

lemma agree_wr_bytes: "{a..<a + length bs} \<inter> A = {} \<Longrightarrow> agree A m (wr_bytes a bs m)"
proof (unfold agree_def, intro ballI)
  fix b assume "{a..<a + length bs} \<inter> A = {}" and "b \<in> A"
  then have "b \<notin> {a..<a + length bs}" by blast
  then have "b < a \<or> a + length bs \<le> b" by auto
  then show "wr_bytes a bs m b = m b" by (rule wr_bytes_outside)
qed

lemma agree_r32: "agree A m m' \<Longrightarrow> {a..<a + 4} \<subseteq> A \<Longrightarrow> r32 m' a = r32 m a"
  unfolding r32_def by (rule arg_cong [where f = of_nat], rule rd_cong) (simp add: agree_def subset_iff)

lemma agree_r64: "agree A m m' \<Longrightarrow> {a..<a + 8} \<subseteq> A \<Longrightarrow> r64 m' a = r64 m a"
  unfolding r64_def by (rule arg_cong [where f = of_nat], rule rd_cong) (simp add: agree_def subset_iff)

lemma agree_bytes: "agree A m m' \<Longrightarrow> {a..<b} \<subseteq> A \<Longrightarrow> map m' [a..<b] = map m [a..<b]"
  by (auto simp: agree_def subset_iff)

lemma r32_other: "b + 4 \<le> a \<or> a + 4 \<le> b \<Longrightarrow> r32 (w32 a v m) b = r32 m b"
  by (rule agree_r32 [OF agree_w32 [of a "{b..<b + 4}"]]) auto

lemma rd_zero: "(\<And>i. i < k \<Longrightarrow> m (a + i) = 0) \<Longrightarrow> rd k m a = 0"
proof (induction k arbitrary: a)
  case (Suc k)
  have "rd k m (Suc a) = 0" using Suc.prems [of "Suc _"] by (intro Suc.IH) simp
  then show ?case using Suc.prems [of 0] by simp
qed simp

lemma r32_zero: "(\<And>i. i < 4 \<Longrightarrow> m (a + i) = 0) \<Longrightarrow> r32 m a = 0"
  by (simp add: r32_def rd_zero)

end
