(* ===== verification/Shared_Block.thy ===== *)
theory Shared_Block
  imports Byte_Memory
begin

text \<open>
  The shared-memory block that carries query results (shared_block.cpp, shared_block.h): a header of
  four 32-bit words, a chain of row groups with 100 row offsets each, one directory of 12-byte cell
  units per row, and the bytes of strings and blobs.  A pointer into the block is its distance from the
  start, \<open>None\<close> for the null pointer; the outer \<open>None\<close> of an operation is an access outside the block.
  The bounds-checked copy routines belong to another repository: whether they accept a destination size
  and a count is the parameter \<open>sec\<close>.
\<close>

unbundle bit_operations_syntax

subsection \<open>The block and its accesses\<close>

datatype block_status = SHARED_BLOCK_OK | SHARED_BLOCK_BAD_VALUE | SHARED_BLOCK_NO_MEMORY
  | SHARED_BLOCK_INVALID_OPERATION | SHARED_BLOCK_ASHMEM_ERROR | SHARED_BLOCK_SET_PORT_ERROR

record SharedBlock =
  mName :: string
  mData :: memory
  mSize :: "64 word"
  mReadOnly :: bool

abbreviation (input) CELL_UNIT_TYPE_NULL :: uint32 where "CELL_UNIT_TYPE_NULL \<equiv> 0"
abbreviation (input) CELL_UNIT_TYPE_INTEGER :: uint32 where "CELL_UNIT_TYPE_INTEGER \<equiv> 1"
abbreviation (input) CELL_UNIT_TYPE_FLOAT :: uint32 where "CELL_UNIT_TYPE_FLOAT \<equiv> 2"
abbreviation (input) CELL_UNIT_TYPE_STRING :: uint32 where "CELL_UNIT_TYPE_STRING \<equiv> 3"
abbreviation (input) CELL_UNIT_TYPE_BLOB :: uint32 where "CELL_UNIT_TYPE_BLOB \<equiv> 4"

text \<open>Where the fields of \<open>SharedBlockHeader\<close>, \<open>RowGroupHeader\<close> and \<open>CellUnit\<close> (packed) lie.\<close>

abbreviation (input) unusedOffset_at :: nat where "unusedOffset_at \<equiv> 0"
abbreviation (input) firstRowGroupOffset_at :: nat where "firstRowGroupOffset_at \<equiv> 4"
abbreviation (input) rowNums_at :: nat where "rowNums_at \<equiv> 8"
abbreviation (input) columnNums_at :: nat where "columnNums_at \<equiv> 12"
abbreviation (input) nextGroupOffset_at :: "nat \<Rightarrow> nat" where "nextGroupOffset_at grp \<equiv> grp + 400"
abbreviation (input) rowOffsets_at :: "nat \<Rightarrow> nat \<Rightarrow> nat" where "rowOffsets_at grp i \<equiv> grp + 4 * i"
abbreviation (input) cell_at :: "nat \<Rightarrow> nat" where "cell_at unit \<equiv> unit + 4"
abbreviation (input) size_at :: "nat \<Rightarrow> nat" where "size_at unit \<equiv> unit + 8"

abbreviation (input) ROW_OFFSETS_NUM :: nat where "ROW_OFFSETS_NUM \<equiv> 100"
abbreviation (input) COL_MAX_NUM :: uint32 where "COL_MAX_NUM \<equiv> 32767"

definition ld32 :: "SharedBlock \<Rightarrow> nat \<Rightarrow> uint32 option" where
  "ld32 B a = (if a + 4 \<le> unat (mSize B) then Some (r32 (mData B) a) else None)"

definition ld64 :: "SharedBlock \<Rightarrow> nat \<Rightarrow> 64 word option" where
  "ld64 B a = (if a + 8 \<le> unat (mSize B) then Some (r64 (mData B) a) else None)"

definition ld_bytes :: "SharedBlock \<Rightarrow> nat \<Rightarrow> nat \<Rightarrow> byte list option" where
  "ld_bytes B a n = (if a + n \<le> unat (mSize B) then Some (map (mData B) [a..<a + n]) else None)"

definition st32 :: "nat \<Rightarrow> uint32 \<Rightarrow> SharedBlock \<Rightarrow> SharedBlock option" where
  "st32 a v B = (if a + 4 \<le> unat (mSize B) then Some (B\<lparr>mData := w32 a v (mData B)\<rparr>) else None)"

definition st64 :: "nat \<Rightarrow> 64 word \<Rightarrow> SharedBlock \<Rightarrow> SharedBlock option" where
  "st64 a v B = (if a + 8 \<le> unat (mSize B) then Some (B\<lparr>mData := w64 a v (mData B)\<rparr>) else None)"

definition st_bytes :: "nat \<Rightarrow> byte list \<Rightarrow> SharedBlock \<Rightarrow> SharedBlock option" where
  "st_bytes a bs B =
     (if a + length bs \<le> unat (mSize B) then Some (B\<lparr>mData := wr_bytes a bs (mData B)\<rparr>) else None)"

subsection \<open>Creating a block\<close>

text \<open>Anonymous shared memory belongs to another repository: creating it gives the bytes it starts with,
  mapping it and reading a range of it succeed or fail.\<close>

record ashmem_ops =
  CreateAshmem :: "string \<Rightarrow> 64 word \<Rightarrow> memory option"
  MapReadAndWriteAshmem :: bool
  ReadFromAshmem :: "64 word \<Rightarrow> nat \<Rightarrow> nat \<Rightarrow> bool"

definition Init :: "ashmem_ops \<Rightarrow> SharedBlock \<Rightarrow> bool" where
  "Init A B = ReadFromAshmem A (mSize B) 16 0"

definition CreateSharedBlock :: "ashmem_ops \<Rightarrow> string \<Rightarrow> 64 word \<Rightarrow> memory \<Rightarrow> block_status \<times> SharedBlock option" where
  "CreateSharedBlock A name sz m =
     (let B = \<lparr>mName = name, mData = m, mSize = sz, mReadOnly = False\<rparr> in
      if \<not> Init A B then (SHARED_BLOCK_ASHMEM_ERROR, None) else (SHARED_BLOCK_OK, Some B))"

definition Create :: "ashmem_ops \<Rightarrow> string \<Rightarrow> 64 word \<Rightarrow> block_status \<times> SharedBlock option" where
  "Create A name sz =
     (case CreateAshmem A (''SharedBlock:'' @ name) sz of
        None \<Rightarrow> (SHARED_BLOCK_ASHMEM_ERROR, None)
      | Some m \<Rightarrow>
          if \<not> MapReadAndWriteAshmem A then (SHARED_BLOCK_SET_PORT_ERROR, None)
          else case CreateSharedBlock A name sz m of
            (result, blk) \<Rightarrow> if result = SHARED_BLOCK_OK then (SHARED_BLOCK_OK, blk) else (result, None))"

subsection \<open>Offsets and allocation\<close>

definition OffsetToPtr :: "SharedBlock \<Rightarrow> uint32 \<Rightarrow> uint32 \<Rightarrow> nat option" where
  "OffsetToPtr B offset bufferSize =
     (if mSize B \<le> ucast offset then None
      else if mSize B < ucast (offset + bufferSize) then None
      else Some (unat offset))"

definition Alloc :: "64 word \<Rightarrow> bool \<Rightarrow> SharedBlock \<Rightarrow> (uint32 \<times> SharedBlock) option" where
  "Alloc sz aligned B = do {
     unused \<leftarrow> ld32 B unusedOffset_at;
     let padding = (if aligned then (NOT unused + 1) AND 3 else 0);
     let offset = unused + padding;
     if mSize B < ucast offset + sz then Some (0, B)
     else do {
       B \<leftarrow> st32 unusedOffset_at (ucast (ucast offset + sz)) B;
       Some (offset, B)
     }
   }"

definition Clear :: "SharedBlock \<Rightarrow> (block_status \<times> SharedBlock) option" where
  "Clear B =
     (if mReadOnly B then Some (SHARED_BLOCK_INVALID_OPERATION, B)
      else do {
        B \<leftarrow> st32 unusedOffset_at 420 B;
        B \<leftarrow> st32 firstRowGroupOffset_at 16 B;
        B \<leftarrow> st32 rowNums_at 0 B;
        B \<leftarrow> st32 columnNums_at 0 B;
        firstRowGroupOffset \<leftarrow> ld32 B firstRowGroupOffset_at;
        case OffsetToPtr B firstRowGroupOffset 0 of
          None \<Rightarrow> Some (SHARED_BLOCK_BAD_VALUE, B)
        | Some firstGroup \<Rightarrow> do {
            B \<leftarrow> st32 (nextGroupOffset_at firstGroup) 0 B;
            Some (SHARED_BLOCK_OK, B)
          }
      })"

definition SetColumnNum :: "uint32 \<Rightarrow> SharedBlock \<Rightarrow> (block_status \<times> SharedBlock) option" where
  "SetColumnNum numColumns B =
     (if mReadOnly B then Some (SHARED_BLOCK_INVALID_OPERATION, B)
      else do {
        cur \<leftarrow> ld32 B columnNums_at;
        rowNums \<leftarrow> ld32 B rowNums_at;
        if (cur > 0 \<or> rowNums > 0) \<and> cur \<noteq> numColumns then Some (SHARED_BLOCK_INVALID_OPERATION, B)
        else if numColumns > COL_MAX_NUM then Some (SHARED_BLOCK_INVALID_OPERATION, B)
        else do {
          B \<leftarrow> st32 columnNums_at numColumns B;
          Some (SHARED_BLOCK_OK, B)
        }
      })"

subsection \<open>Rows\<close>

fun GetRowOffset_loop :: "SharedBlock \<Rightarrow> nat \<Rightarrow> nat \<Rightarrow> nat option option" where
  "GetRowOffset_loop B grp rowPos =
     (if rowPos \<ge> ROW_OFFSETS_NUM then
        (case ld32 B (nextGroupOffset_at grp) of
           None \<Rightarrow> None
         | Some next \<Rightarrow>
             (case OffsetToPtr B next 0 of
                None \<Rightarrow> Some None
              | Some grp \<Rightarrow> GetRowOffset_loop B grp (rowPos - ROW_OFFSETS_NUM)))
      else Some (Some (rowOffsets_at grp rowPos)))"

definition GetRowOffset :: "SharedBlock \<Rightarrow> uint32 \<Rightarrow> nat option option" where
  "GetRowOffset B row = do {
     firstRowGroupOffset \<leftarrow> ld32 B firstRowGroupOffset_at;
     case OffsetToPtr B firstRowGroupOffset 0 of
       None \<Rightarrow> Some None
     | Some grp \<Rightarrow> GetRowOffset_loop B grp (unat row)
   }"

fun AllocRowOffset_loop :: "SharedBlock \<Rightarrow> nat \<Rightarrow> nat \<Rightarrow> (nat \<times> nat) option option" where
  "AllocRowOffset_loop B grp rowPos =
     (if rowPos > ROW_OFFSETS_NUM then
        (case ld32 B (nextGroupOffset_at grp) of
           None \<Rightarrow> None
         | Some next \<Rightarrow>
             (case OffsetToPtr B next 0 of
                None \<Rightarrow> Some None
              | Some grp \<Rightarrow> AllocRowOffset_loop B grp (rowPos - ROW_OFFSETS_NUM)))
      else Some (Some (grp, rowPos)))"

declare GetRowOffset_loop.simps [simp del] AllocRowOffset_loop.simps [simp del]

text \<open>The group for the row after the last: a new one is linked when the last is full and has no successor.\<close>

definition AllocRowOffset_group :: "nat \<Rightarrow> nat \<Rightarrow> SharedBlock \<Rightarrow> ((nat \<times> nat) option \<times> SharedBlock) option" where
  "AllocRowOffset_group grp rowPos B =
     (if rowPos = ROW_OFFSETS_NUM then do {
        next \<leftarrow> ld32 B (nextGroupOffset_at grp);
        (next, B) \<leftarrow> (if next = 0 then do {
                         (offset, B) \<leftarrow> Alloc 404 True B;
                         B \<leftarrow> st32 (nextGroupOffset_at grp) offset B;
                         Some (offset, B)
                       } else Some (next, B));
        if next = 0 then Some (None, B)
        else case OffsetToPtr B next 0 of
          None \<Rightarrow> Some (None, B)
        | Some grp \<Rightarrow> do {
            B \<leftarrow> st32 (nextGroupOffset_at grp) 0 B;
            Some (Some (grp, 0), B)
          }
      } else Some (Some (grp, rowPos), B))"

definition AllocRowOffset :: "SharedBlock \<Rightarrow> (nat option \<times> SharedBlock) option" where
  "AllocRowOffset B = do {
     rowNums \<leftarrow> ld32 B rowNums_at;
     firstRowGroupOffset \<leftarrow> ld32 B firstRowGroupOffset_at;
     case OffsetToPtr B firstRowGroupOffset 0 of
       None \<Rightarrow> Some (None, B)
     | Some grp \<Rightarrow> do {
         r \<leftarrow> AllocRowOffset_loop B grp (unat rowNums);
         case r of
           None \<Rightarrow> Some (None, B)
         | Some (grp, rowPos) \<Rightarrow> do {
             (r, B) \<leftarrow> AllocRowOffset_group grp rowPos B;
             case r of
               None \<Rightarrow> Some (None, B)
             | Some (grp, rowPos) \<Rightarrow> do {
                 rowNums \<leftarrow> ld32 B rowNums_at;
                 B \<leftarrow> st32 rowNums_at (rowNums + 1) B;
                 Some (Some (rowOffsets_at grp rowPos), B)
               }
           }
       }
   }"

definition AllocRow :: "(nat \<Rightarrow> nat \<Rightarrow> bool) \<Rightarrow> SharedBlock \<Rightarrow> (block_status \<times> SharedBlock) option" where
  "AllocRow sec B =
     (if mReadOnly B then Some (SHARED_BLOCK_INVALID_OPERATION, B)
      else do {
        (rowOffset, B) \<leftarrow> AllocRowOffset B;
        case rowOffset of
          None \<Rightarrow> Some (SHARED_BLOCK_NO_MEMORY, B)
        | Some rowOffset \<Rightarrow> do {
            columnNums \<leftarrow> ld32 B columnNums_at;
            let fieldDirSize = (ucast columnNums * 12 :: 64 word);
            (fieldDirOffset, B) \<leftarrow> Alloc fieldDirSize True B;
            if fieldDirOffset = 0 then do {
              rowNums \<leftarrow> ld32 B rowNums_at;
              B \<leftarrow> st32 rowNums_at (rowNums - 1) B;
              Some (SHARED_BLOCK_NO_MEMORY, B)
            }
            else case OffsetToPtr B fieldDirOffset 0 of
              None \<Rightarrow> Some (SHARED_BLOCK_BAD_VALUE, B)
            | Some fieldDir \<Rightarrow>
                if \<not> sec (unat fieldDirSize) (unat fieldDirSize) then Some (SHARED_BLOCK_NO_MEMORY, B)
                else do {
                  B \<leftarrow> st_bytes fieldDir (replicate (unat fieldDirSize) 0) B;
                  B \<leftarrow> st32 rowOffset fieldDirOffset B;
                  Some (SHARED_BLOCK_OK, B)
                }
          }
      })"

definition FreeLastRow :: "SharedBlock \<Rightarrow> (block_status \<times> SharedBlock) option" where
  "FreeLastRow B =
     (if mReadOnly B then Some (SHARED_BLOCK_INVALID_OPERATION, B)
      else do {
        rowNums \<leftarrow> ld32 B rowNums_at;
        B \<leftarrow> (if rowNums > 0 then st32 rowNums_at (rowNums - 1) B else Some B);
        Some (SHARED_BLOCK_OK, B)
      })"

subsection \<open>Cells\<close>

definition GetCellUnit :: "SharedBlock \<Rightarrow> uint32 \<Rightarrow> uint32 \<Rightarrow> nat option option" where
  "GetCellUnit B row column = do {
     rowNums \<leftarrow> ld32 B rowNums_at;
     columnNums \<leftarrow> ld32 B columnNums_at;
     if row \<ge> rowNums \<or> column \<ge> columnNums then Some None
     else do {
       rowOffset \<leftarrow> GetRowOffset B row;
       case rowOffset of
         None \<Rightarrow> Some None
       | Some rowOffset \<Rightarrow> do {
           offset \<leftarrow> ld32 B rowOffset;
           case OffsetToPtr B offset 0 of
             None \<Rightarrow> Some None
           | Some cellUnit \<Rightarrow> Some (Some (cellUnit + 12 * unat column))
         }
     }
   }"

text \<open>The bytes \<open>value\<close> points to are a list, and \<open>size\<close> is its length.\<close>

definition PutBlobOrString :: "(nat \<Rightarrow> nat \<Rightarrow> bool) \<Rightarrow> uint32 \<Rightarrow> uint32 \<Rightarrow> byte list \<Rightarrow> uint32 \<Rightarrow> SharedBlock \<Rightarrow>
    (block_status \<times> SharedBlock) option" where
  "PutBlobOrString sec row column value type B =
     (if mReadOnly B then Some (SHARED_BLOCK_INVALID_OPERATION, B)
      else do {
        cellUnit \<leftarrow> GetCellUnit B row column;
        case cellUnit of
          None \<Rightarrow> Some (SHARED_BLOCK_BAD_VALUE, B)
        | Some cellUnit \<Rightarrow> do {
            let size = (of_nat (length value) :: 64 word);
            (offset, B) \<leftarrow> Alloc size False B;
            if offset = 0 then Some (SHARED_BLOCK_NO_MEMORY, B)
            else case OffsetToPtr B offset 0 of
              None \<Rightarrow> Some (SHARED_BLOCK_NO_MEMORY, B)
            | Some ptr \<Rightarrow>
                if size \<noteq> 0 \<and> \<not> sec (unat size) (unat size) then Some (SHARED_BLOCK_NO_MEMORY, B)
                else do {
                  B \<leftarrow> (if size \<noteq> 0 then st_bytes ptr value B else Some B);
                  B \<leftarrow> st32 cellUnit type B;
                  B \<leftarrow> st32 (cell_at cellUnit) offset B;
                  B \<leftarrow> st32 (size_at cellUnit) (ucast size) B;
                  Some (SHARED_BLOCK_OK, B)
                }
          }
      })"

definition PutBlob :: "(nat \<Rightarrow> nat \<Rightarrow> bool) \<Rightarrow> uint32 \<Rightarrow> uint32 \<Rightarrow> byte list \<Rightarrow> SharedBlock \<Rightarrow> (block_status \<times> SharedBlock) option" where
  "PutBlob sec row column value B = PutBlobOrString sec row column value CELL_UNIT_TYPE_BLOB B"

definition PutString :: "(nat \<Rightarrow> nat \<Rightarrow> bool) \<Rightarrow> uint32 \<Rightarrow> uint32 \<Rightarrow> byte list \<Rightarrow> SharedBlock \<Rightarrow> (block_status \<times> SharedBlock) option" where
  "PutString sec row column value B = PutBlobOrString sec row column value CELL_UNIT_TYPE_STRING B"

definition PutLong :: "uint32 \<Rightarrow> uint32 \<Rightarrow> int64 \<Rightarrow> SharedBlock \<Rightarrow> (block_status \<times> SharedBlock) option" where
  "PutLong row column value B =
     (if mReadOnly B then Some (SHARED_BLOCK_INVALID_OPERATION, B)
      else do {
        cellUnit \<leftarrow> GetCellUnit B row column;
        case cellUnit of
          None \<Rightarrow> Some (SHARED_BLOCK_BAD_VALUE, B)
        | Some cellUnit \<Rightarrow> do {
            B \<leftarrow> st32 cellUnit CELL_UNIT_TYPE_INTEGER B;
            B \<leftarrow> st64 (cell_at cellUnit) value B;
            Some (SHARED_BLOCK_OK, B)
          }
      })"

definition PutDouble :: "uint32 \<Rightarrow> uint32 \<Rightarrow> 64 word \<Rightarrow> SharedBlock \<Rightarrow> (block_status \<times> SharedBlock) option" where
  "PutDouble row column value B =
     (if mReadOnly B then Some (SHARED_BLOCK_INVALID_OPERATION, B)
      else do {
        cellUnit \<leftarrow> GetCellUnit B row column;
        case cellUnit of
          None \<Rightarrow> Some (SHARED_BLOCK_BAD_VALUE, B)
        | Some cellUnit \<Rightarrow> do {
            B \<leftarrow> st32 cellUnit CELL_UNIT_TYPE_FLOAT B;
            B \<leftarrow> st64 (cell_at cellUnit) value B;
            Some (SHARED_BLOCK_OK, B)
          }
      })"

definition PutNull :: "uint32 \<Rightarrow> uint32 \<Rightarrow> SharedBlock \<Rightarrow> (block_status \<times> SharedBlock) option" where
  "PutNull row column B =
     (if mReadOnly B then Some (SHARED_BLOCK_INVALID_OPERATION, B)
      else do {
        cellUnit \<leftarrow> GetCellUnit B row column;
        case cellUnit of
          None \<Rightarrow> Some (SHARED_BLOCK_BAD_VALUE, B)
        | Some cellUnit \<Rightarrow> do {
            B \<leftarrow> st32 cellUnit CELL_UNIT_TYPE_NULL B;
            B \<leftarrow> st32 (cell_at cellUnit) 0 B;
            B \<leftarrow> st32 (size_at cellUnit) 0 B;
            Some (SHARED_BLOCK_OK, B)
          }
      })"

text \<open>Reading a string or blob cell: the pointer, or null, and the size.\<close>

definition GetCellUnitValueBlob :: "SharedBlock \<Rightarrow> nat \<Rightarrow> (nat option \<times> nat) option" where
  "GetCellUnitValueBlob B cellUnit = do {
     offset \<leftarrow> ld32 B (cell_at cellUnit);
     size \<leftarrow> ld32 B (size_at cellUnit);
     Some (OffsetToPtr B offset size, unat size)
   }"

definition GetCellUnitValueString :: "SharedBlock \<Rightarrow> nat \<Rightarrow> (nat option \<times> nat) option" where
  "GetCellUnitValueString B cellUnit = GetCellUnitValueBlob B cellUnit"

definition GetUsedBytes :: "SharedBlock \<Rightarrow> uint32 option" where
  "GetUsedBytes B = ld32 B unusedOffset_at"

definition GetRowNum :: "SharedBlock \<Rightarrow> uint32 option" where
  "GetRowNum B = ld32 B rowNums_at"

definition GetColumnNum :: "SharedBlock \<Rightarrow> uint32 option" where
  "GetColumnNum B = ld32 B columnNums_at"

definition SetRawData :: "(nat \<Rightarrow> nat \<Rightarrow> bool) \<Rightarrow> byte list \<Rightarrow> SharedBlock \<Rightarrow> (block_status \<times> SharedBlock) option" where
  "SetRawData sec rawData B =
     (let size = (of_nat (length rawData) :: 64 word) in
      if size \<le> 0 then Some (SHARED_BLOCK_INVALID_OPERATION, B)
      else if size > mSize B then Some (SHARED_BLOCK_NO_MEMORY, B)
      else if \<not> sec (unat (mSize B)) (unat size) then Some (SHARED_BLOCK_NO_MEMORY, B)
      else do {
        B \<leftarrow> st_bytes 0 rawData B;
        Some (SHARED_BLOCK_OK, B)
      })"

end
