(* ===== verification/Block_Table.thy ===== *)
theory Block_Table
  imports Shared_Block
begin

text \<open>
  A shared block implements a table of cells.  \<open>layout\<close> is the invariant of the bytes: the chain of row
  groups, the row directories and the string bytes lie apart from each other below the unused offset.
  \<open>holds_table\<close> abstracts a block to a table; each operation of the block is the operation of the table
  or fails and leaves the table as it was, and no operation accesses memory outside the block.
\<close>

unbundle bit_operations_syntax

subsection \<open>What a block holds\<close>

datatype cell = CellNull | CellLong int64 | CellDouble "64 word" | CellString "byte list" | CellBlob "byte list"

text \<open>A cell as the clients of the block read it.\<close>

definition ReadCell :: "SharedBlock \<Rightarrow> uint32 \<Rightarrow> uint32 \<Rightarrow> cell option" where
  "ReadCell B row column = do {
     cellUnit \<leftarrow> GetCellUnit B row column;
     u \<leftarrow> cellUnit;
     t \<leftarrow> ld32 B u;
     if t = CELL_UNIT_TYPE_INTEGER then map_option CellLong (ld64 B (cell_at u))
     else if t = CELL_UNIT_TYPE_FLOAT then map_option CellDouble (ld64 B (cell_at u))
     else if t = CELL_UNIT_TYPE_STRING \<or> t = CELL_UNIT_TYPE_BLOB then do {
       (p, n) \<leftarrow> GetCellUnitValueBlob B u;
       a \<leftarrow> p;
       bs \<leftarrow> ld_bytes B a n;
       Some (if t = CELL_UNIT_TYPE_STRING then CellString bs else CellBlob bs)
     }
     else Some CellNull
   }"

definition pay_off :: "memory \<Rightarrow> nat \<Rightarrow> nat" where "pay_off m p = unat (r32 m (p + 4))"
definition pay_len :: "memory \<Rightarrow> nat \<Rightarrow> nat" where "pay_len m p = unat (r32 m (p + 8))"
definition has_pay :: "memory \<Rightarrow> nat \<Rightarrow> bool" where "has_pay m p \<longleftrightarrow> r32 m p = 3 \<or> r32 m p = 4"

definition decode :: "memory \<Rightarrow> nat \<Rightarrow> cell" where
  "decode m p =
     (if r32 m p = 1 then CellLong (r64 m (p + 4))
      else if r32 m p = 2 then CellDouble (r64 m (p + 4))
      else if r32 m p = 3 then CellString (map m [pay_off m p..<pay_off m p + pay_len m p])
      else if r32 m p = 4 then CellBlob (map m [pay_off m p..<pay_off m p + pay_len m p])
      else CellNull)"

definition payload :: "memory \<Rightarrow> nat \<Rightarrow> nat set" where
  "payload m p = (if has_pay m p then {pay_off m p..<pay_off m p + pay_len m p} else {})"

lemma decode_agree:
  assumes "agree ({p..<p + 12} \<union> payload m p) m m'"
  shows "decode m' p = decode m p" "payload m' p = payload m p" "has_pay m' p = has_pay m p"
    "pay_off m' p = pay_off m p" "pay_len m' p = pay_len m p" "r32 m' p = r32 m p"
proof -
  have t: "r32 m' p = r32 m p" and o: "r32 m' (p + 4) = r32 m (p + 4)" and n: "r32 m' (p + 8) = r32 m (p + 8)"
    and v: "r64 m' (p + 4) = r64 m (p + 4)"
    by (auto intro!: agree_r32 [OF assms] agree_r64 [OF assms])
  show 1: "r32 m' p = r32 m p" "has_pay m' p = has_pay m p" "pay_off m' p = pay_off m p" "pay_len m' p = pay_len m p"
    using t o n by (simp_all add: has_pay_def pay_off_def pay_len_def)
  then show "payload m' p = payload m p" by (simp add: payload_def)
  have "has_pay m p \<Longrightarrow> map m' [pay_off m p..<pay_off m p + pay_len m p] = map m [pay_off m p..<pay_off m p + pay_len m p]"
    by (rule agree_bytes [OF assms]) (auto simp: payload_def)
  then show "decode m' p = decode m p" using 1 v by (auto simp: decode_def has_pay_def)
qed

subsection \<open>The layout\<close>

definition apart :: "nat \<Rightarrow> nat list \<Rightarrow> bool" where
  "apart k xs \<longleftrightarrow> (\<forall>i < length xs. \<forall>j < length xs. i \<noteq> j \<longrightarrow> xs ! i + k \<le> xs ! j \<or> xs ! j + k \<le> xs ! i)"

definition slot :: "nat list \<Rightarrow> nat \<Rightarrow> nat" where
  "slot gs r = gs ! (r div 100) + 4 * (r mod 100)"

definition chain :: "memory \<Rightarrow> nat list \<Rightarrow> bool" where
  "chain m gs \<longleftrightarrow> (\<forall>i < length gs. r32 m (gs ! i + 400) = (if Suc i < length gs then of_nat (gs ! Suc i) else 0))"

definition cell_ok :: "memory \<Rightarrow> nat \<Rightarrow> nat \<Rightarrow> nat \<Rightarrow> nat list \<Rightarrow> nat list \<Rightarrow> nat \<Rightarrow> bool" where
  "cell_ok m U S n gs ds p \<longleftrightarrow> r32 m p \<le> 4 \<and> (has_pay m p \<longrightarrow>
     16 \<le> pay_off m p \<and> pay_off m p + pay_len m p \<le> U \<and> pay_off m p < S
     \<and> (\<forall>g \<in> set gs. pay_off m p + pay_len m p \<le> g \<or> g + 404 \<le> pay_off m p)
     \<and> (\<forall>d \<in> set ds. pay_off m p + pay_len m p \<le> d \<or> d + 12 * n \<le> pay_off m p))"

text \<open>A block of \<open>n\<close> columns whose row groups lie at \<open>gs\<close> and whose row directories lie at \<open>ds\<close>.\<close>

definition layout :: "SharedBlock \<Rightarrow> nat \<Rightarrow> nat list \<Rightarrow> nat list \<Rightarrow> bool" where
  "layout B n gs ds \<longleftrightarrow>
     (let m = mData B; U = unat (r32 m 0); S = unat (mSize B) in
       \<not> mReadOnly B \<and> S + 4 \<le> 2 ^ 32 \<and> 16 \<le> U \<and> U \<le> S \<and> 12 * length ds \<le> U
       \<and> 0 < n \<and> n \<le> 32767 \<and> r32 m 12 = of_nat n
       \<and> gs \<noteq> [] \<and> r32 m 4 = of_nat (hd gs) \<and> length ds \<le> 100 * length gs
       \<and> (\<forall>g \<in> set gs. 16 \<le> g \<and> g + 404 \<le> U) \<and> (\<forall>d \<in> set ds. 16 \<le> d \<and> d + 12 * n \<le> U)
       \<and> apart 404 gs \<and> apart (12 * n) ds \<and> (\<forall>g \<in> set gs. \<forall>d \<in> set ds. g + 404 \<le> d \<or> d + 12 * n \<le> g)
       \<and> chain m gs \<and> (\<forall>r < length ds. r32 m (slot gs r) = of_nat (ds ! r))
       \<and> (\<forall>d \<in> set ds. \<forall>c < n. cell_ok m U S n gs ds (d + 12 * c)))"

definition table_of :: "memory \<Rightarrow> nat \<Rightarrow> nat list \<Rightarrow> cell list list" where
  "table_of m n ds = map (\<lambda>d. map (\<lambda>c. decode m (d + 12 * c)) [0..<n]) ds"

definition holds_table :: "SharedBlock \<Rightarrow> nat \<Rightarrow> cell list list \<Rightarrow> bool" where
  "holds_table B n T \<longleftrightarrow> (\<exists>gs ds. layout B n gs ds \<and> r32 (mData B) 8 = of_nat (length ds) \<and> T = table_of (mData B) n ds)"

lemmas layout_unfold = layout_def Let_def

lemma layoutD:
  assumes "layout B n gs ds"
  shows "\<not> mReadOnly B" "unat (mSize B) + 4 \<le> 2 ^ 32" "16 \<le> unat (r32 (mData B) 0)"
    "unat (r32 (mData B) 0) \<le> unat (mSize B)" "12 * length ds \<le> unat (r32 (mData B) 0)"
    "0 < n" "n \<le> 32767" "r32 (mData B) 12 = of_nat n" "gs \<noteq> []" "r32 (mData B) 4 = of_nat (hd gs)"
    "length ds \<le> 100 * length gs" "apart 404 gs" "apart (12 * n) ds" "chain (mData B) gs"
    "\<And>g. g \<in> set gs \<Longrightarrow> 16 \<le> g \<and> g + 404 \<le> unat (r32 (mData B) 0)"
    "\<And>d. d \<in> set ds \<Longrightarrow> 16 \<le> d \<and> d + 12 * n \<le> unat (r32 (mData B) 0)"
    "\<And>g d. g \<in> set gs \<Longrightarrow> d \<in> set ds \<Longrightarrow> g + 404 \<le> d \<or> d + 12 * n \<le> g"
    "\<And>r. r < length ds \<Longrightarrow> r32 (mData B) (slot gs r) = of_nat (ds ! r)"
    "\<And>d c. d \<in> set ds \<Longrightarrow> c < n \<Longrightarrow> cell_ok (mData B) (unat (r32 (mData B) 0)) (unat (mSize B)) n gs ds (d + 12 * c)"
  using assms unfolding layout_unfold by simp_all

text \<open>The bytes that the rows depend on.\<close>

definition row_bytes :: "memory \<Rightarrow> nat \<Rightarrow> nat list \<Rightarrow> nat set" where
  "row_bytes m n ds = {4..<8} \<union> {12..<16} \<union> (\<Union>d \<in> set ds. {d..<d + 12 * n})
     \<union> (\<Union>d \<in> set ds. \<Union>c < n. payload m (d + 12 * c))"

lemma cell_bytes: "d \<in> set ds \<Longrightarrow> c < n \<Longrightarrow>
    {d + 12 * c..<d + 12 * c + 12} \<union> payload m (d + 12 * c) \<subseteq> row_bytes m n ds"
proof -
  assume d: "d \<in> set ds" and c: "c < n"
  then have "12 * c + 12 \<le> 12 * n" by simp
  then have "{d + 12 * c..<d + 12 * c + 12} \<subseteq> {d..<d + 12 * n}" by auto
  then show ?thesis using d c by (auto simp: row_bytes_def)
qed

lemma row_bytes_below:
  assumes "layout B n gs ds"
  shows "row_bytes (mData B) n ds \<subseteq> {4..<8} \<union> {12..<16} \<union> {16..<unat (r32 (mData B) 0)}"
proof -
  note D = layoutD [OF assms]
  have "payload (mData B) (d + 12 * c) \<subseteq> {16..<unat (r32 (mData B) 0)}" if "d \<in> set ds" "c < n" for d c
    using D(19) [OF that] by (auto simp: cell_ok_def payload_def)
  moreover have "{d..<d + 12 * n} \<subseteq> {16..<unat (r32 (mData B) 0)}" if "d \<in> set ds" for d
    using D(16) [OF that] by auto
  ultimately show ?thesis by (fastforce simp: row_bytes_def)
qed

lemma row_bytes_groups:
  assumes "layout B n gs ds" and "g \<in> set gs"
  shows "row_bytes (mData B) n ds \<inter> {g..<g + 404} = {}"
proof -
  note D = layoutD [OF assms(1)]
  have "payload (mData B) (d + 12 * c) \<inter> {g..<g + 404} = {}" if "d \<in> set ds" "c < n" for d c
  proof (cases "has_pay (mData B) (d + 12 * c)")
    case True
    with D(19) [OF that] assms(2) have "pay_off (mData B) (d + 12 * c) + pay_len (mData B) (d + 12 * c) \<le> g
      \<or> g + 404 \<le> pay_off (mData B) (d + 12 * c)" by (simp add: cell_ok_def)
    then show ?thesis using True by (auto simp: payload_def)
  qed (simp add: payload_def)
  moreover have "{d..<d + 12 * n} \<inter> {g..<g + 404} = {}" if "d \<in> set ds" for d
    using D(17) [OF assms(2) that] by auto
  moreover have "({4..<8} \<union> {12..<16}) \<inter> {g..<g + 404} = {}" using D(15) [OF assms(2)] by auto
  ultimately show ?thesis unfolding row_bytes_def by blast
qed

text \<open>The rows survive whatever leaves their bytes alone, while the groups may change.\<close>

lemma cell_ok_mono:
  assumes "cell_ok m U S n gs ds p" and "U \<le> U'" and "\<forall>g \<in> set gs'. g \<in> set gs \<or> U \<le> g"
    and "agree ({p..<p + 12} \<union> payload m p) m m'"
  shows "cell_ok m' U' S n gs' ds p"
proof -
  note d = decode_agree [OF assms(4)]
  have "pay_off m p + pay_len m p \<le> g \<or> g + 404 \<le> pay_off m p" if "has_pay m p" "g \<in> set gs'" for g
    using assms(1,3) that by (auto simp: cell_ok_def)
  then show ?thesis using assms(1,2) d by (auto simp: cell_ok_def)
qed

lemma layout_step:
  assumes L: "layout B n gs ds" and S: "mSize B' = mSize B" "mReadOnly B' = mReadOnly B"
    and U: "unat (r32 (mData B) 0) \<le> unat (r32 (mData B') 0)" "unat (r32 (mData B') 0) \<le> unat (mSize B)"
    and A: "agree (row_bytes (mData B) n ds) (mData B) (mData B')"
    and G: "gs' \<noteq> []" "hd gs' = hd gs" "apart 404 gs'" "length ds \<le> 100 * length gs'" "chain (mData B') gs'"
      "\<forall>g \<in> set gs'. g \<in> set gs \<or> unat (r32 (mData B) 0) \<le> g \<and> g + 404 \<le> unat (r32 (mData B') 0)"
    and R: "\<And>r. r < length ds \<Longrightarrow> r32 (mData B') (slot gs' r) = of_nat (ds ! r)"
  shows "layout B' n gs' ds \<and> table_of (mData B') n ds = table_of (mData B) n ds"
proof -
  note D = layoutD [OF L]
  have h: "r32 (mData B') 4 = r32 (mData B) 4" "r32 (mData B') 12 = r32 (mData B) 12"
    by (auto intro!: agree_r32 [OF A] simp: row_bytes_def)
  have c: "agree ({d + 12 * c..<d + 12 * c + 12} \<union> payload (mData B) (d + 12 * c)) (mData B) (mData B')"
    if "d \<in> set ds" "c < n" for d c
    by (rule agree_mono [OF A cell_bytes [OF that]])
  have "cell_ok (mData B') (unat (r32 (mData B') 0)) (unat (mSize B)) n gs' ds (d + 12 * c)"
    if "d \<in> set ds" "c < n" for d c
    by (rule cell_ok_mono [OF D(19) [OF that] U(1) _ c [OF that]]) (use G(6) in blast)
  moreover have "16 \<le> g \<and> g + 404 \<le> unat (r32 (mData B') 0)" if "g \<in> set gs'" for g
    using D(3) D(15) [of g] G(6) U(1) that by fastforce
  moreover have "d + 12 * n \<le> unat (r32 (mData B') 0)" "16 \<le> d" if "d \<in> set ds" for d
    using D(16) [OF that] U(1) by simp_all
  moreover have "g + 404 \<le> d \<or> d + 12 * n \<le> g" if "g \<in> set gs'" "d \<in> set ds" for g d
    using D(16) [OF that(2)] D(17) [of g d] G(6) that by fastforce
  ultimately have "layout B' n gs' ds"
    using D(1-10,13) S U G(1-5) R h unfolding layout_unfold by simp
  moreover have "table_of (mData B') n ds = table_of (mData B) n ds"
    unfolding table_of_def using decode_agree(1) [OF c] by simp
  ultimately show ?thesis by simp
qed

lemma slot_range: "r < 100 * length gs \<Longrightarrow> r div 100 < length gs \<and> gs ! (r div 100) \<in> set gs \<and>
    gs ! (r div 100) \<le> slot gs r \<and> slot gs r + 4 \<le> gs ! (r div 100) + 400"
proof -
  assume "r < 100 * length gs"
  then have "r div 100 < length gs" by (simp add: less_mult_imp_div_less mult.commute)
  moreover have "r mod 100 < 100" by simp
  ultimately show ?thesis by (simp add: slot_def)
qed

lemma apartD: "apart k xs \<Longrightarrow> i < length xs \<Longrightarrow> j < length xs \<Longrightarrow> i \<noteq> j \<Longrightarrow> xs ! i + k \<le> xs ! j \<or> xs ! j + k \<le> xs ! i"
  by (simp add: apart_def)

lemma slots_apart:
  assumes "apart 404 gs" and "r < 100 * length gs" "r' < 100 * length gs" "r \<noteq> r'"
  shows "slot gs r + 4 \<le> slot gs r' \<or> slot gs r' + 4 \<le> slot gs r"
proof (cases "r div 100 = r' div 100")
  case True
  then have "r mod 100 \<noteq> r' mod 100" using assms(4) by (metis mult_div_mod_eq)
  with True show ?thesis by (auto simp: slot_def)
next
  case False
  show ?thesis
    using apartD [OF assms(1) _ _ False] slot_range [OF assms(2)] slot_range [OF assms(3)] by fastforce
qed

text \<open>Writes outside the groups, the rows and the first and last header word keep the layout.\<close>

lemma layout_same_groups:
  assumes L: "layout B n gs ds" and S: "mSize B' = mSize B" "mReadOnly B' = mReadOnly B"
    and U: "unat (r32 (mData B) 0) \<le> unat (r32 (mData B') 0)" "unat (r32 (mData B') 0) \<le> unat (mSize B)"
    and A: "agree (row_bytes (mData B) n ds) (mData B) (mData B')"
    and N: "\<And>i. i < length gs \<Longrightarrow> r32 (mData B') (gs ! i + 400) = r32 (mData B) (gs ! i + 400)"
    and R: "\<And>r. r < length ds \<Longrightarrow> r32 (mData B') (slot gs r) = r32 (mData B) (slot gs r)"
  shows "layout B' n gs ds \<and> table_of (mData B') n ds = table_of (mData B) n ds"
proof (rule layout_step [OF L S U A])
  note D = layoutD [OF L]
  show "gs \<noteq> []" "hd gs = hd gs" "apart 404 gs" "length ds \<le> 100 * length gs" using D by simp_all
  show "chain (mData B') gs" using D(14) N by (simp add: chain_def)
  show "\<forall>g \<in> set gs. g \<in> set gs \<or> unat (r32 (mData B) 0) \<le> g \<and> g + 404 \<le> unat (r32 (mData B') 0)" by simp
  show "\<And>r. r < length ds \<Longrightarrow> r32 (mData B') (slot gs r) = of_nat (ds ! r)" using D(18) R by simp
qed

definition used_bytes :: "memory \<Rightarrow> nat set" where
  "used_bytes m = {4..<8} \<union> {12..<16} \<union> {16..<unat (r32 m 0)}"

lemma layout_outside:
  assumes L: "layout B n gs ds" and S: "mSize B' = mSize B" "mReadOnly B' = mReadOnly B"
    and U: "unat (r32 (mData B) 0) \<le> unat (r32 (mData B') 0)" "unat (r32 (mData B') 0) \<le> unat (mSize B)"
    and A: "agree (used_bytes (mData B)) (mData B) (mData B')"
  shows "layout B' n gs ds \<and> table_of (mData B') n ds = table_of (mData B) n ds"
proof (rule layout_same_groups [OF L S U])
  note D = layoutD [OF L]
  show "agree (row_bytes (mData B) n ds) (mData B) (mData B')"
    using agree_mono [OF A] row_bytes_below [OF L] by (simp add: used_bytes_def)
  fix i assume "i < length gs"
  then have "16 \<le> gs ! i \<and> gs ! i + 404 \<le> unat (r32 (mData B) 0)" by (simp add: D(15))
  then show "r32 (mData B') (gs ! i + 400) = r32 (mData B) (gs ! i + 400)"
    by (intro agree_r32 [OF A]) (auto simp: used_bytes_def)
next
  note D = layoutD [OF L]
  fix r assume "r < length ds"
  then have "r < 100 * length gs" using D(11) by simp
  from slot_range [OF this] D(15) [of "gs ! (r div 100)"]
  have "16 \<le> slot gs r" "slot gs r + 4 \<le> unat (r32 (mData B) 0)" by auto
  then show "r32 (mData B') (slot gs r) = r32 (mData B) (slot gs r)"
    by (intro agree_r32 [OF A]) (auto simp: used_bytes_def)
qed

subsection \<open>Offsets, allocation and lookup on a laid-out block\<close>

lemma ld32_in: "a + 4 \<le> unat (mSize B) \<Longrightarrow> ld32 B a = Some (r32 (mData B) a)"
  by (simp add: ld32_def)

lemma st32_in: "a + 4 \<le> unat (mSize B) \<Longrightarrow> st32 a v B = Some (B\<lparr>mData := w32 a v (mData B)\<rparr>)"
  by (simp add: st32_def)

lemma layout_size: "layout B n gs ds \<Longrightarrow> 420 \<le> unat (mSize B)"
proof -
  assume L: "layout B n gs ds"
  note D = layoutD [OF L]
  have "hd gs \<in> set gs" using D(9) by simp
  from D(15) [OF this] D(4) show ?thesis by linarith
qed

lemma unat_of_nat_32: "a < 2 ^ 32 \<Longrightarrow> unat (of_nat a :: uint32) = a"
  by (simp add: unat_of_nat)

lemma unat_ucast_32_64: "unat (ucast (x :: uint32) :: 64 word) = unat x"
  by transfer (simp add: take_bit_take_bit)

lemma ucast_64_32: "ucast (w :: 64 word) = (of_nat (unat w) :: uint32)"
  by simp

lemma OffsetToPtr_in:
  "unat a < unat (mSize B) \<Longrightarrow> OffsetToPtr B a 0 = Some (unat a)"
  by (simp add: OffsetToPtr_def word_le_nat_alt word_less_nat_alt unat_ucast_32_64)

lemma OffsetToPtr_nat:
  assumes "layout B n gs ds" and "a < unat (mSize B)"
  shows "OffsetToPtr B (of_nat a) 0 = Some a"
proof -
  have "unat (of_nat a :: uint32) = a" using layoutD(2) [OF assms(1)] assms(2) by (intro unat_of_nat_32) simp
  then show ?thesis using OffsetToPtr_in [of "of_nat a" B] assms(2) by simp
qed

lemma padding_le: "unat ((x :: uint32) AND 3) \<le> 3"
  using word_and_le1 [of x 3] by (simp add: word_le_nat_alt)

lemma Alloc_layout:
  assumes L: "layout B n gs ds" and sz: "unat sz < 2 ^ 63"
  shows "Alloc sz al B = Some (0, B) \<or>
    (\<exists>off m. Alloc sz al B = Some (off, B\<lparr>mData := m\<rparr>) \<and> m = w32 0 (of_nat (unat off + unat sz)) (mData B)
      \<and> unat (r32 (mData B) 0) \<le> unat off \<and> unat off + unat sz \<le> unat (mSize B)
      \<and> unat (r32 m 0) = unat off + unat sz \<and> off \<noteq> 0)"
proof -
  note D = layoutD [OF L]
  let ?U = "r32 (mData B) 0"
  let ?pad = "if al then (NOT ?U + 1) AND 3 else 0 :: uint32"
  let ?off = "?U + ?pad"
  have pad: "unat ?pad \<le> 3" using padding_le by simp
  have off: "unat ?off = unat ?U + unat ?pad"
    by (rule unat_add_lem [THEN iffD1]) (use pad D(2,4) in simp)
  have up: "unat (ucast ?off + sz :: 64 word) = unat ?off + unat sz"
  proof -
    have "unat (ucast ?off :: 64 word) = unat ?off" by (rule unat_ucast_32_64)
    moreover have "unat ?off < 2 ^ 32" using off pad D(2,4) by simp
    ultimately show ?thesis using sz by (subst unat_add_lem [THEN iffD1]) simp_all
  qed
  show ?thesis
  proof (cases "mSize B < ucast ?off + sz")
    case True
    then show ?thesis using layout_size [OF L] by (simp add: Alloc_def ld32_in Let_def)
  next
    case False
    then have le: "unat ?off + unat sz \<le> unat (mSize B)" using up by (simp add: word_less_nat_alt)
    have nz: "?off \<noteq> 0" using off D(3) by (metis add_is_0 not_numeral_le_zero unat_0)
    have uc: "ucast (ucast ?off + sz :: 64 word) = (of_nat (unat ?off + unat sz) :: uint32)"
      by (simp only: ucast_64_32 up)
    have u: "unat (of_nat (unat ?off + unat sz) :: uint32) = unat ?off + unat sz"
      using le D(2) by (intro unat_of_nat_32) simp
    have "Alloc sz al B = Some (?off, B\<lparr>mData := w32 0 (of_nat (unat ?off + unat sz)) (mData B)\<rparr>)"
      using False layout_size [OF L] uc by (simp add: Alloc_def ld32_in st32_in Let_def)
    then show ?thesis using off le nz u by (intro disjI2 exI conjI) auto
  qed
qed

lemma GetRowOffset_loop_layout:
  assumes L: "layout B n gs ds"
  shows "i + rowPos div 100 < length gs \<Longrightarrow>
    GetRowOffset_loop B (gs ! i) rowPos = Some (Some (gs ! (i + rowPos div 100) + 4 * (rowPos mod 100)))"
proof (induction rowPos arbitrary: i rule: less_induct)
  case (less rowPos)
  note D = layoutD [OF L]
  show ?case
  proof (cases "100 \<le> rowPos")
    case True
    then have div: "rowPos div 100 = Suc ((rowPos - 100) div 100)" and mod: "(rowPos - 100) mod 100 = rowPos mod 100"
      by (simp_all add: le_div_geq le_mod_geq)
    then have i: "Suc i < length gs" and "i < length gs" using less.prems by simp_all
    have "16 \<le> gs ! i \<and> gs ! i + 404 \<le> unat (mSize B)" "gs ! Suc i < unat (mSize B)"
      using D(4) D(15) [OF nth_mem [OF i]] D(15) [OF nth_mem [OF \<open>i < length gs\<close>]] by linarith+
    moreover have "r32 (mData B) (gs ! i + 400) = of_nat (gs ! Suc i)" using D(14) i by (simp add: chain_def)
    ultimately have "GetRowOffset_loop B (gs ! i) rowPos = GetRowOffset_loop B (gs ! Suc i) (rowPos - 100)"
      using True by (subst GetRowOffset_loop.simps) (simp add: ld32_in OffsetToPtr_nat [OF L])
    then show ?thesis using less.IH [of "rowPos - 100" "Suc i"] less.prems True div mod by simp
  next
    case False
    then show ?thesis by (subst GetRowOffset_loop.simps) simp
  qed
qed

lemma first_group:
  assumes L: "layout B n gs ds"
  shows "ld32 B 4 = Some (of_nat (gs ! 0))" "OffsetToPtr B (of_nat (gs ! 0)) 0 = Some (gs ! 0)"
proof -
  note D = layoutD [OF L]
  have g: "hd gs = gs ! 0" "gs ! 0 \<in> set gs" using D(9) by (simp_all add: hd_conv_nth)
  then show "ld32 B 4 = Some (of_nat (gs ! 0))" using D(10) layout_size [OF L] by (simp add: ld32_in)
  have "gs ! 0 < unat (mSize B)" using D(4) D(15) [OF g(2)] by linarith
  then show "OffsetToPtr B (of_nat (gs ! 0)) 0 = Some (gs ! 0)" by (rule OffsetToPtr_nat [OF L])
qed

lemma length_bound:
  assumes "layout B n gs ds"
  shows "length ds < 2 ^ 32 - 1"
  using layoutD(2,4,5) [OF assms] by simp

lemma GetCellUnit_layout:
  assumes L: "layout B n gs ds" and R: "r32 (mData B) 8 = of_nat (length ds)"
  shows "GetCellUnit B row column =
    Some (if unat row < length ds \<and> unat column < n then Some (ds ! unat row + 12 * unat column) else None)"
proof -
  note D = layoutD [OF L]
  have sz: "420 \<le> unat (mSize B)" by (rule layout_size [OF L])
  have rows: "unat (of_nat (length ds) :: uint32) = length ds" using length_bound [OF L] by (intro unat_of_nat_32) simp
  have cols: "unat (of_nat n :: uint32) = n" using D(7) by (intro unat_of_nat_32) simp
  show ?thesis
  proof (cases "unat row < length ds \<and> unat column < n")
    case True
    then have "unat row div 100 < length gs" using slot_range [of "unat row" gs] D(11) by simp
    then have off: "GetRowOffset B row = Some (Some (slot gs (unat row)))"
      using GetRowOffset_loop_layout [OF L, of 0 "unat row"] first_group [OF L] by (simp add: GetRowOffset_def slot_def)
    have d: "ds ! unat row \<in> set ds" using True by simp
    have "slot gs (unat row) + 4 \<le> unat (mSize B)"
      using slot_range [of "unat row" gs] True D(4,11) D(15) [of "gs ! (unat row div 100)"] by linarith
    moreover have "ds ! unat row < unat (mSize B)" using D(4,6) D(16) [OF d] by linarith
    ultimately show ?thesis
      using True sz rows cols off R D(8) D(18) [of "unat row"]
      by (simp add: GetCellUnit_def ld32_in word_le_nat_alt OffsetToPtr_nat [OF L])
  next
    case False
    then show ?thesis using sz rows cols R D(8) by (auto simp: GetCellUnit_def ld32_in word_le_nat_alt)
  qed
qed

lemma table_nth: "r < length ds \<Longrightarrow> c < n \<Longrightarrow> table_of m n ds ! r ! c = decode m (ds ! r + 12 * c)"
  by (simp add: table_of_def)

lemma table_length [simp]: "length (table_of m n ds) = length ds"
  by (simp add: table_of_def)

lemma cell_in_block:
  assumes L: "layout B n gs ds" and "r < length ds" "c < n"
  shows "16 \<le> ds ! r + 12 * c" "ds ! r + 12 * c + 12 \<le> unat (r32 (mData B) 0)"
    "ds ! r + 12 * c + 12 \<le> unat (mSize B)"
proof -
  note D = layoutD [OF L]
  have "12 * c + 12 \<le> 12 * n" using assms(3) by simp
  then show 1: "16 \<le> ds ! r + 12 * c" "ds ! r + 12 * c + 12 \<le> unat (r32 (mData B) 0)"
    using D(16) [of "ds ! r"] assms(2) by fastforce+
  then show "ds ! r + 12 * c + 12 \<le> unat (mSize B)" using D(4) by linarith
qed

lemma ReadCell_layout:
  assumes L: "layout B n gs ds" and R: "r32 (mData B) 8 = of_nat (length ds)"
    and "unat row < length ds" "unat column < n"
  shows "ReadCell B row column = Some (table_of (mData B) n ds ! unat row ! unat column)"
proof -
  note D = layoutD [OF L]
  let ?m = "mData B" and ?p = "ds ! unat row + 12 * unat column"
  note p = cell_in_block [OF L assms(3,4)]
  have ok: "cell_ok ?m (unat (r32 ?m 0)) (unat (mSize B)) n gs ds ?p" using D(19) assms(3,4) by simp
  have blob: "GetCellUnitValueBlob B ?p = Some (Some (pay_off ?m ?p), pay_len ?m ?p)
      \<and> ld_bytes B (pay_off ?m ?p) (pay_len ?m ?p) = Some (map ?m [pay_off ?m ?p..<pay_off ?m ?p + pay_len ?m ?p])"
    if h: "has_pay ?m ?p"
  proof -
    let ?o = "r32 ?m (?p + 4)" and ?n = "r32 ?m (?p + 8)"
    from ok h have b: "unat ?o + unat ?n \<le> unat (mSize B)" "unat ?o < unat (mSize B)"
      using D(4) by (auto simp: cell_ok_def pay_off_def pay_len_def)
    have "unat (?o + ?n) = unat ?o + unat ?n"
      by (rule unat_add_lem [THEN iffD1]) (use b D(2) in simp)
    then have "OffsetToPtr B ?o ?n = Some (unat ?o)"
      using b by (simp add: OffsetToPtr_def word_le_nat_alt word_less_nat_alt unat_ucast_32_64)
    then show ?thesis using p b
      by (simp add: GetCellUnitValueBlob_def ld32_in ld_bytes_def pay_off_def pay_len_def add.assoc)
  qed
  have t: "r32 ?m ?p = 3 \<Longrightarrow> has_pay ?m ?p" "r32 ?m ?p = 4 \<Longrightarrow> has_pay ?m ?p" by (simp_all add: has_pay_def)
  have "ReadCell B row column = Some (decode ?m ?p)"
    using GetCellUnit_layout [OF L R, of row column] assms(3,4) p blob t
    by (auto simp: ReadCell_def decode_def ld32_in ld64_def)
  then show ?thesis using table_nth assms(3,4) by simp
qed

lemma cells_apart:
  assumes "apart (12 * n) ds" and "i < length ds" "r < length ds" "c' < n" "c < n" and "i \<noteq> r \<or> c' \<noteq> c"
  shows "ds ! i + 12 * c' + 12 \<le> ds ! r + 12 * c \<or> ds ! r + 12 * c + 12 \<le> ds ! i + 12 * c'"
proof (cases "i = r")
  case True
  then have "c' < c \<or> c < c'" using assms(6) by auto
  with True show ?thesis by auto
next
  case False
  have "12 * c' + 12 \<le> 12 * n" "12 * c + 12 \<le> 12 * n" using assms(4,5) by simp_all
  then show ?thesis using apartD [OF assms(1-3) False] by linarith
qed

lemma layout_put:
  assumes L: "layout B n gs ds" and S: "mSize B' = mSize B" "mReadOnly B' = mReadOnly B"
    and U: "unat (r32 (mData B) 0) \<le> unat (r32 (mData B') 0)" "unat (r32 (mData B') 0) \<le> unat (mSize B)"
    and rc: "r < length ds" "c < n" and p: "p = ds ! r + 12 * c"
    and A: "agree (used_bytes (mData B) - {p..<p + 12}) (mData B) (mData B')"
    and N: "cell_ok (mData B') (unat (r32 (mData B') 0)) (unat (mSize B)) n gs ds p"
  shows "layout B' n gs ds \<and>
    table_of (mData B') n ds = (table_of (mData B) n ds)[r := (table_of (mData B) n ds ! r)[c := decode (mData B') p]]"
proof -
  note D = layoutD [OF L]
  let ?m = "mData B" and ?m' = "mData B'"
  have d: "ds ! r \<in> set ds" using rc by simp
  have pin: "ds ! r \<le> p" "p + 12 \<le> ds ! r + 12 * n" using rc(2) p by simp_all
  have other: "agree ({ds ! i + 12 * c'..<ds ! i + 12 * c' + 12} \<union> payload ?m (ds ! i + 12 * c')) ?m ?m'"
    if i: "i < length ds" "c' < n" and ne: "i \<noteq> r \<or> c' \<noteq> c" for i c'
  proof (rule agree_mono [OF A])
    let ?q = "ds ! i + 12 * c'"
    have ok: "cell_ok ?m (unat (r32 ?m 0)) (unat (mSize B)) n gs ds ?q" using D(19) i by simp
    have "payload ?m ?q \<subseteq> used_bytes ?m - {p..<p + 12}"
    proof (cases "has_pay ?m ?q")
      case True
      with ok d have "16 \<le> pay_off ?m ?q" "pay_off ?m ?q + pay_len ?m ?q \<le> unat (r32 ?m 0)"
        "pay_off ?m ?q + pay_len ?m ?q \<le> ds ! r \<or> ds ! r + 12 * n \<le> pay_off ?m ?q"
        by (simp_all add: cell_ok_def)
      with True pin show ?thesis by (auto simp: payload_def used_bytes_def)
    qed (simp add: payload_def)
    moreover have "{?q..<?q + 12} \<subseteq> used_bytes ?m - {p..<p + 12}"
      using cell_in_block [OF L i] cells_apart [OF D(13) i(1) rc(1) i(2) rc(2) ne] p by (auto simp: used_bytes_def)
    ultimately show "{?q..<?q + 12} \<union> payload ?m ?q \<subseteq> used_bytes ?m - {p..<p + 12}" by simp
  qed
  have grp: "r32 ?m' a = r32 ?m a" if "g \<in> set gs" "g \<le> a" "a + 4 \<le> g + 404" for g a
    by (rule agree_r32 [OF A]) (use that D(15) [OF that(1)] D(17) [OF that(1) d] pin in \<open>auto simp: used_bytes_def\<close>)
  have hdr: "r32 ?m' 4 = r32 ?m 4" "r32 ?m' 12 = r32 ?m 12"
    using D(16) [OF d] pin by (auto intro!: agree_r32 [OF A] simp: used_bytes_def)
  have "cell_ok ?m' (unat (r32 ?m' 0)) (unat (mSize B)) n gs ds (d' + 12 * c')" if d': "d' \<in> set ds" and c': "c' < n" for d' c'
  proof -
    obtain i where i: "i < length ds" "d' = ds ! i" using d' by (auto simp: in_set_conv_nth)
    show ?thesis
    proof (cases "i = r \<and> c' = c")
      case True then show ?thesis using N p i by simp
    next
      case False
      then have "cell_ok ?m' (unat (r32 ?m' 0)) (unat (mSize B)) n gs ds (ds ! i + 12 * c')"
        by (intro cell_ok_mono [OF D(19) U(1) _ other]) (use i c' in auto)
      then show ?thesis using i by simp
    qed
  qed
  moreover have "r32 ?m' (gs ! i + 400) = r32 ?m (gs ! i + 400)" if "i < length gs" for i
    by (rule grp [OF nth_mem [OF that]]) simp_all
  then have "chain ?m' gs" using D(14) by (simp add: chain_def)
  moreover have "r32 ?m' (slot gs i) = of_nat (ds ! i)" if "i < length ds" for i
  proof -
    have "i < 100 * length gs" using that D(11) by simp
    from slot_range [OF this] grp [of "gs ! (i div 100)" "slot gs i"] D(18) [OF that] show ?thesis by simp
  qed
  moreover have "g + 404 \<le> unat (r32 ?m' 0)" if "g \<in> set gs" for g using D(15) [OF that] U(1) by simp
  moreover have "d + 12 * n \<le> unat (r32 ?m' 0)" if "d \<in> set ds" for d using D(16) [OF that] U(1) by simp
  ultimately have lay: "layout B' n gs ds"
    using D(1-13,15-17) S U hdr unfolding layout_unfold by auto
  have "table_of ?m' n ds ! i ! j = (table_of ?m n ds)[r := (table_of ?m n ds ! r)[c := decode ?m' p]] ! i ! j"
    if "i < length ds" "j < n" for i j
  proof (cases "i = r \<and> j = c")
    case True then show ?thesis using p rc by (simp add: table_of_def)
  next
    case False
    then have "decode ?m' (ds ! i + 12 * j) = decode ?m (ds ! i + 12 * j)"
      by (intro decode_agree(1) other) (use that in auto)
    then show ?thesis using False that rc by (cases "i = r") (simp_all add: table_of_def)
  qed
  then have "table_of ?m' n ds = (table_of ?m n ds)[r := (table_of ?m n ds ! r)[c := decode ?m' p]]"
    using rc by (intro nth_equalityI) (simp_all add: table_of_def nth_list_update)
  with lay show ?thesis by simp
qed

text \<open>The three shapes of a write to a cell.\<close>

lemma used_header: "{0..<4} \<inter> used_bytes m = {}" "{8..<12} \<inter> used_bytes m = {}"
  by (auto simp: used_bytes_def)

lemma agree_header: "agree (used_bytes m) m0 (w32 0 v m0)" "agree (used_bytes m) m0 (w32 8 v m0)"
  by (rule agree_w32, use used_header in simp)+

lemma put_scalar:
  assumes L: "layout B n gs ds" and R: "r32 (mData B) 8 = of_nat (length ds)"
    and rc: "r < length ds" "c < n" and p: "p = ds ! r + 12 * c"
    and m': "m' = w64 (p + 4) v (w32 p t (mData B))" and t: "t = 1 \<or> t = 2"
  shows "layout (B\<lparr>mData := m'\<rparr>) n gs ds \<and> r32 m' 8 = of_nat (length ds) \<and>
    table_of m' n ds = (table_of (mData B) n ds)[r := (table_of (mData B) n ds ! r)
      [c := (if t = 1 then CellLong v else CellDouble v)]]"
proof -
  note pb = cell_in_block [OF L rc, folded p]
  have A: "agree (- {p..<p + 12}) (mData B) m'"
    unfolding m' by (rule agree_trans [OF agree_w32 agree_w64]) auto
  have ty: "r32 m' p = t"
  proof -
    have "r32 m' p = r32 (w32 p t (mData B)) p" unfolding m'
      by (rule agree_r32 [OF agree_w64 [of "p + 4" "{p..<p + 4}"]]) auto
    then show ?thesis by simp
  qed
  have dec: "decode m' p = (if t = 1 then CellLong v else CellDouble v)" using ty t by (auto simp: decode_def m')
  have h: "r32 m' 0 = r32 (mData B) 0" "r32 m' 8 = r32 (mData B) 8"
    by (rule agree_r32 [OF A], use pb in auto)+
  have "cell_ok m' (unat (r32 m' 0)) (unat (mSize B)) n gs ds p" using ty t by (auto simp: cell_ok_def has_pay_def word_le_nat_alt)
  then show ?thesis
    using layout_put [OF L _ _ _ _ rc p, of "B\<lparr>mData := m'\<rparr>"] agree_mono [OF A] h R dec layoutD(4) [OF L]
    by (simp add: Diff_subset_conv)
qed

lemma put_null:
  assumes L: "layout B n gs ds" and R: "r32 (mData B) 8 = of_nat (length ds)"
    and rc: "r < length ds" "c < n" and p: "p = ds ! r + 12 * c"
    and m': "m' = w32 (p + 8) 0 (w32 (p + 4) 0 (w32 p 0 (mData B)))"
  shows "layout (B\<lparr>mData := m'\<rparr>) n gs ds \<and> r32 m' 8 = of_nat (length ds) \<and>
    table_of m' n ds = (table_of (mData B) n ds)[r := (table_of (mData B) n ds ! r)[c := CellNull]]"
proof -
  note pb = cell_in_block [OF L rc, folded p]
  have A: "agree (- {p..<p + 12}) (mData B) m'"
    unfolding m' by (rule agree_trans [OF agree_w32 agree_trans [OF agree_w32 agree_w32]]) auto
  have ty: "r32 m' p = 0" by (simp add: m' r32_other)
  have h: "r32 m' 0 = r32 (mData B) 0" "r32 m' 8 = r32 (mData B) 8"
    by (rule agree_r32 [OF A], use pb in auto)+
  have "cell_ok m' (unat (r32 m' 0)) (unat (mSize B)) n gs ds p" using ty by (simp add: cell_ok_def has_pay_def)
  moreover have "decode m' p = CellNull" using ty by (simp add: decode_def)
  ultimately show ?thesis
    using layout_put [OF L _ _ _ _ rc p, of "B\<lparr>mData := m'\<rparr>"] agree_mono [OF A] h R layoutD(4) [OF L]
    by (simp add: Diff_subset_conv)
qed

lemma put_bytes:
  assumes L: "layout B n gs ds" and R: "r32 (mData B) 8 = of_nat (length ds)"
    and rc: "r < length ds" "c < n" and p: "p = ds ! r + 12 * c" and t: "t = 3 \<or> t = 4"
    and off: "unat (r32 (mData B) 0) \<le> unat off" "unat off + length bs \<le> unat (mSize B)" "unat off < unat (mSize B)"
    and m': "m' = w32 (p + 8) (of_nat (length bs)) (w32 (p + 4) off (w32 p t
                (wr_bytes (unat off) bs (w32 0 (of_nat (unat off + length bs)) (mData B)))))"
  shows "layout (B\<lparr>mData := m'\<rparr>) n gs ds \<and> r32 m' 8 = of_nat (length ds) \<and>
    table_of m' n ds = (table_of (mData B) n ds)[r := (table_of (mData B) n ds ! r)
      [c := (if t = 3 then CellString bs else CellBlob bs)]]"
proof -
  note D = layoutD [OF L]
  note pb = cell_in_block [OF L rc, folded p]
  let ?m1 = "w32 0 (of_nat (unat off + length bs)) (mData B)"
  let ?m2 = "wr_bytes (unat off) bs ?m1"
  have A2: "agree (- {p..<p + 12}) ?m2 m'"
    unfolding m' by (rule agree_trans [OF agree_w32 agree_trans [OF agree_w32 agree_w32]]) auto
  have A1: "agree (used_bytes (mData B) \<union> {8..<12}) (mData B) ?m2"
    by (rule agree_trans [OF agree_w32 agree_wr_bytes]) (use off D(3) in \<open>auto simp: used_bytes_def\<close>)
  have U: "r32 m' 0 = of_nat (unat off + length bs)"
  proof -
    have "r32 m' 0 = r32 ?m2 0" by (rule agree_r32 [OF A2]) (use pb in auto)
    also have "\<dots> = r32 ?m1 0"
      by (rule agree_r32 [OF agree_wr_bytes [of "unat off" bs "{0..<4}"]]) (use off D(3) in auto)
    finally show ?thesis by simp
  qed
  have u: "unat (r32 m' 0) = unat off + length bs"
    unfolding U using off D(2) by (intro unat_of_nat_32) simp
  have len: "unat (of_nat (length bs) :: uint32) = length bs" using off D(2) by (intro unat_of_nat_32) simp
  have ty: "r32 m' p = t" "pay_off m' p = unat off" "pay_len m' p = length bs"
    unfolding pay_off_def pay_len_def using len by (simp_all add: m' r32_other)
  have bytes: "map m' [unat off..<unat off + length bs] = bs"
  proof -
    have "map m' [unat off..<unat off + length bs] = map ?m2 [unat off..<unat off + length bs]"
      by (rule agree_bytes [OF A2]) (use off pb in auto)
    then show ?thesis by (simp add: wr_bytes_read)
  qed
  have dec: "decode m' p = (if t = 3 then CellString bs else CellBlob bs)"
    using ty t bytes by (auto simp: decode_def)
  have "cell_ok m' (unat (r32 m' 0)) (unat (mSize B)) n gs ds p"
    using ty t u off D(3) D(15) D(16) by (fastforce simp: cell_ok_def word_le_nat_alt)
  moreover have "agree (used_bytes (mData B) - {p..<p + 12}) (mData B) m'"
    by (rule agree_trans [OF agree_mono [OF A1] agree_mono [OF A2]]) auto
  moreover have "r32 m' 8 = r32 (mData B) 8"
    by (rule agree_r32 [OF agree_trans [OF agree_mono [OF A1] agree_mono [OF A2], of "{8..<12}"]]) (use pb in auto)
  ultimately show ?thesis
    using layout_put [OF L _ _ _ _ rc p, of "B\<lparr>mData := m'\<rparr>"] u off R dec by simp
qed

subsection \<open>Allocating rows on a laid-out block\<close>

lemma AllocRowOffset_loop_layout:
  assumes L: "layout B n gs ds"
  shows "i < length gs \<Longrightarrow> rowPos \<le> 100 * (length gs - i) \<Longrightarrow>
    AllocRowOffset_loop B (gs ! i) rowPos =
      Some (Some (gs ! (i + (rowPos - 1) div 100), rowPos - 100 * ((rowPos - 1) div 100)))"
proof (induction rowPos arbitrary: i rule: less_induct)
  case (less rowPos)
  note D = layoutD [OF L]
  show ?case
  proof (cases "100 < rowPos")
    case True
    then have div: "(rowPos - 1) div 100 = Suc ((rowPos - 100 - 1) div 100)" by (simp add: le_div_geq)
    have i: "Suc i < length gs" using less.prems True by simp
    have "16 \<le> gs ! i \<and> gs ! i + 404 \<le> unat (mSize B)" "gs ! Suc i < unat (mSize B)"
      using D(4) D(15) [OF nth_mem [OF i]] D(15) [OF nth_mem [OF less.prems(1)]] by linarith+
    moreover have "r32 (mData B) (gs ! i + 400) = of_nat (gs ! Suc i)" using D(14) i by (simp add: chain_def)
    ultimately have "AllocRowOffset_loop B (gs ! i) rowPos = AllocRowOffset_loop B (gs ! Suc i) (rowPos - 100)"
      using True by (subst AllocRowOffset_loop.simps) (simp add: ld32_in OffsetToPtr_nat [OF L])
    then show ?thesis using less.IH [of "rowPos - 100" "Suc i"] less.prems True i div by simp
  next
    case False
    then have "(rowPos - 1) div 100 = 0" by simp
    with False show ?thesis by (subst AllocRowOffset_loop.simps) simp
  qed
qed

lemma slot_take: "r < 100 * k \<Longrightarrow> slot (take k gs) r = slot gs r"
  by (simp add: slot_def less_mult_imp_div_less mult.commute)

lemma slot_append: "r < 100 * length gs \<Longrightarrow> slot (gs @ hs) r = slot gs r"
  by (simp add: slot_def nth_append less_mult_imp_div_less mult.commute)

lemma apart_take: "apart k xs \<Longrightarrow> apart k (take j xs)"
  by (simp add: apart_def)

lemma apart_snoc: "apart k xs \<Longrightarrow> (\<And>x. x \<in> set xs \<Longrightarrow> x + k \<le> y) \<Longrightarrow> apart k (xs @ [y])"
  by (auto simp: apart_def nth_append less_Suc_eq)

lemma group_reuse:
  assumes L: "layout B n gs ds" and k: "Suc k < length gs" and len: "length ds = 100 * Suc k"
    and m': "m' = w32 (gs ! Suc k + 400) 0 (mData B)"
  shows "layout (B\<lparr>mData := m'\<rparr>) n (take (Suc (Suc k)) gs) ds \<and> table_of m' n ds = table_of (mData B) n ds
    \<and> r32 m' 8 = r32 (mData B) 8"
proof -
  note D = layoutD [OF L]
  let ?gs = "take (Suc (Suc k)) gs" and ?g = "gs ! Suc k"
  have g: "?g \<in> set gs" using k by simp
  have A: "agree (- {?g + 400..<?g + 404}) (mData B) m'" unfolding m' by (rule agree_w32) auto
  have ap: "gs ! i + 404 \<le> ?g \<or> ?g + 404 \<le> gs ! i" if "i < length gs" "i \<noteq> Suc k" for i
    using apartD [OF D(12) that(1) k] that(2) by simp
  have h: "r32 m' 0 = r32 (mData B) 0" "r32 m' 8 = r32 (mData B) 8"
    by (rule agree_r32 [OF A], use D(15) [OF g] in auto)+
  have "layout (B\<lparr>mData := m'\<rparr>) n ?gs ds \<and> table_of (mData (B\<lparr>mData := m'\<rparr>)) n ds = table_of (mData B) n ds"
  proof (rule layout_step [OF L])
    show "agree (row_bytes (mData B) n ds) (mData B) (mData (B\<lparr>mData := m'\<rparr>))"
      using row_bytes_groups [OF L g] by (simp add: agree_mono [OF A] disjoint_iff subset_iff)
    have "r32 m' (gs ! i + 400) = r32 (mData B) (gs ! i + 400)" if "i < Suc k" for i
      by (rule agree_r32 [OF A]) (use ap [of i] that k in auto)
    moreover have "r32 m' (?g + 400) = 0" by (simp add: m')
    ultimately show "chain (mData (B\<lparr>mData := m'\<rparr>)) ?gs"
      using D(14) k by (auto simp: chain_def less_Suc_eq)
    show "\<forall>g \<in> set ?gs. g \<in> set gs \<or> unat (r32 (mData B) 0) \<le> g \<and> g + 404 \<le> unat (r32 (mData (B\<lparr>mData := m'\<rparr>)) 0)"
      by (auto dest: in_set_takeD)
    fix r assume r: "r < length ds"
    then have q: "r div 100 < Suc k" using len by simp
    have "r32 m' (slot gs r) = r32 (mData B) (slot gs r)"
      by (rule agree_r32 [OF A]) (use slot_range [of r gs] r len k q ap [of "r div 100"] in auto)
    then show "r32 (mData (B\<lparr>mData := m'\<rparr>)) (slot ?gs r) = of_nat (ds ! r)"
      using slot_take [of r "Suc (Suc k)" gs] r len D(18) [OF r] by simp
  qed (use h D k len in \<open>simp_all add: apart_take hd_conv_nth\<close>)
  then show ?thesis using h by simp
qed

lemma group_new:
  assumes L: "layout B n gs ds" and k: "Suc k = length gs" and len: "length ds = 100 * Suc k"
    and off: "unat (r32 (mData B) 0) \<le> unat off" "unat off + 404 \<le> unat (mSize B)"
    and m': "m' = w32 (unat off + 400) 0 (w32 (gs ! k + 400) off (w32 0 (of_nat (unat off + 404)) (mData B)))"
  shows "layout (B\<lparr>mData := m'\<rparr>) n (gs @ [unat off]) ds \<and> table_of m' n ds = table_of (mData B) n ds
    \<and> r32 m' 8 = r32 (mData B) 8"
proof -
  note D = layoutD [OF L]
  let ?g = "gs ! k" and ?o = "unat off"
  have g: "?g \<in> set gs" using k by simp
  have bd: "16 \<le> ?g" "?g + 404 \<le> ?o" using D(15) [OF g] off(1) by linarith+
  have A: "agree (- ({0..<4} \<union> {?g + 400..<?g + 404} \<union> {?o..<?o + 404})) (mData B) m'"
    unfolding m' by (rule agree_trans [OF agree_w32 agree_trans [OF agree_w32 agree_w32]]) auto
  have ap: "gs ! i + 404 \<le> ?g \<or> ?g + 404 \<le> gs ! i" if "i < length gs" "i \<noteq> k" for i
    using apartD [OF D(12) that(1)] that(2) k by simp
  have below: "16 \<le> gs ! i \<and> gs ! i + 404 \<le> ?o" if "i < length gs" for i
    using D(15) [OF nth_mem [OF that]] off(1) by linarith
  have "r32 m' 0 = of_nat (?o + 404)" unfolding m' using bd by (simp add: r32_other)
  then have u: "unat (r32 m' 0) = ?o + 404" using off(2) D(2) by (simp only:) (intro unat_of_nat_32, simp)
  have h8: "r32 m' 8 = r32 (mData B) 8" by (rule agree_r32 [OF A]) (use bd in auto)
  have "layout (B\<lparr>mData := m'\<rparr>) n (gs @ [?o]) ds \<and> table_of (mData (B\<lparr>mData := m'\<rparr>)) n ds = table_of (mData B) n ds"
  proof (rule layout_step [OF L])
    have "row_bytes (mData B) n ds \<inter> ({0..<4} \<union> {?g + 400..<?g + 404} \<union> {?o..<?o + 404}) = {}"
      using row_bytes_groups [OF L g] row_bytes_below [OF L] off(1) D(3) by fastforce
    then show "agree (row_bytes (mData B) n ds) (mData B) (mData (B\<lparr>mData := m'\<rparr>))"
      by (simp add: agree_mono [OF A] disjoint_eq_subset_Compl)
    have "r32 m' (gs ! i + 400) = r32 (mData B) (gs ! i + 400)" if "i < k" for i
      by (rule agree_r32 [OF A]) (use ap [of i] below [of i] that k in auto)
    moreover have "r32 m' (?g + 400) = off" "r32 m' (?o + 400) = 0" unfolding m' using bd by (simp_all add: r32_other)
    ultimately show "chain (mData (B\<lparr>mData := m'\<rparr>)) (gs @ [?o])"
      using D(14) k [symmetric] by (auto simp: chain_def nth_append less_Suc_eq)
    show "\<forall>g \<in> set (gs @ [?o]). g \<in> set gs \<or> unat (r32 (mData B) 0) \<le> g \<and> g + 404 \<le> unat (r32 (mData (B\<lparr>mData := m'\<rparr>)) 0)"
      using u off(1) by simp
    show "apart 404 (gs @ [?o])" by (rule apart_snoc [OF D(12)]) (use D(15) off(1) in fastforce)
    fix r assume r: "r < length ds"
    then have r': "r < 100 * length gs" using D(11) by simp
    have "r32 m' (slot gs r) = r32 (mData B) (slot gs r)"
      by (rule agree_r32 [OF A])
        (use slot_range [OF r'] ap [of "r div 100"] below [of "r div 100"] in \<open>cases "r div 100 = k"; auto\<close>)
    then show "r32 (mData (B\<lparr>mData := m'\<rparr>)) (slot (gs @ [?o]) r) = of_nat (ds ! r)"
      using slot_append [OF r', of "[?o]"] D(18) [OF r] by simp
  qed (use u off D in \<open>simp_all\<close>)
  then show ?thesis using h8 by simp
qed

lemma AllocRowOffset_group_layout:
  assumes L: "layout B n gs ds" and k: "k < length gs" and len: "length ds = 100 * k + rowPos" "rowPos \<le> 100"
  shows "\<exists>r B1 gs'. AllocRowOffset_group (gs ! k) rowPos B = Some (r, B1) \<and> r32 (mData B1) 8 = r32 (mData B) 8
    \<and> layout B1 n gs' ds \<and> table_of (mData B1) n ds = table_of (mData B) n ds
    \<and> (r = None \<or> (length ds < 100 * length gs' \<and> r = Some (gs' ! (length ds div 100), length ds mod 100)))"
proof (cases "rowPos = 100")
  case False
  then have "length ds < 100 * length gs" "length ds div 100 = k" "length ds mod 100 = rowPos" using k len by simp_all
  then show ?thesis using False L by (auto simp: AllocRowOffset_group_def)
next
  case True
  note D = layoutD [OF L]
  have len': "length ds = 100 * Suc k" using len True by simp
  let ?m = "mData B"
  have inb: "gs ! k + 404 \<le> unat (mSize B)" "16 \<le> gs ! k" using D(4) D(15) [OF nth_mem [OF k]] by linarith+
  have nxt: "ld32 B (gs ! k + 400) = Some (if Suc k < length gs then of_nat (gs ! Suc k) else 0)"
    using inb D(14) k by (simp add: ld32_in chain_def)
  show ?thesis
  proof (cases "Suc k < length gs")
    case more: True
    let ?g = "gs ! Suc k"
    have g: "16 \<le> ?g" "?g + 404 \<le> unat (mSize B)" using D(4) D(15) [OF nth_mem [OF more]] by linarith+
    have "unat (of_nat ?g :: uint32) = ?g" using g D(2) by (intro unat_of_nat_32) simp
    then have nz: "(of_nat ?g :: uint32) \<noteq> 0" using g by auto
    have "AllocRowOffset_group (gs ! k) rowPos B = Some (Some (?g, 0), B\<lparr>mData := w32 (?g + 400) 0 ?m\<rparr>)"
      using True nxt more nz g OffsetToPtr_nat [OF L, of ?g] by (simp add: AllocRowOffset_group_def st32_in)
    then show ?thesis using group_reuse [OF L more len' refl] len' more
      by (intro exI [of _ "Some (?g, 0)"] exI [of _ "B\<lparr>mData := w32 (?g + 400) 0 ?m\<rparr>"] exI [of _ "take (Suc (Suc k)) gs"]) simp
  next
    case last: False
    then have k': "Suc k = length gs" using k by simp
    from Alloc_layout [OF L, of 404 True] consider
        (full) "Alloc 404 True B = Some (0, B)"
      | (new) off m where "Alloc 404 True B = Some (off, B\<lparr>mData := m\<rparr>)" "m = w32 0 (of_nat (unat off + 404)) ?m"
          "unat (r32 ?m 0) \<le> unat off" "unat off + 404 \<le> unat (mSize B)" "off \<noteq> 0"
      by auto
    then show ?thesis
    proof cases
      case full
      let ?m' = "w32 (gs ! k + 400) 0 ?m"
      have A: "agree (- {gs ! k + 400..<gs ! k + 404}) ?m ?m'" by (rule agree_w32) auto
      have r: "AllocRowOffset_group (gs ! k) rowPos B = Some (None, B\<lparr>mData := ?m'\<rparr>)"
        using True nxt last full inb by (simp add: AllocRowOffset_group_def st32_in)
      have h: "r32 ?m' 0 = r32 ?m 0" "r32 ?m' 8 = r32 ?m 8" by (rule agree_r32 [OF A], use inb in auto)+
      have "layout (B\<lparr>mData := ?m'\<rparr>) n gs ds \<and> table_of (mData (B\<lparr>mData := ?m'\<rparr>)) n ds = table_of ?m n ds"
      proof (rule layout_same_groups [OF L])
        show "agree (row_bytes ?m n ds) ?m (mData (B\<lparr>mData := ?m'\<rparr>))"
          using row_bytes_groups [OF L nth_mem [OF k]] by (simp add: agree_mono [OF A] disjoint_iff subset_iff)
        fix i assume i: "i < length gs"
        show "r32 (mData (B\<lparr>mData := ?m'\<rparr>)) (gs ! i + 400) = r32 ?m (gs ! i + 400)"
        proof (cases "i = k")
          case True then show ?thesis using nxt last inb by (simp add: ld32_in)
        next
          case False then show ?thesis using apartD [OF D(12) i k] by (auto intro!: r32_other)
        qed
      next
        fix r assume "r < length ds"
        then have r': "r < 100 * length gs" using D(11) by simp
        from slot_range [OF r'] apartD [OF D(12) _ k, of "r div 100"]
        show "r32 (mData (B\<lparr>mData := ?m'\<rparr>)) (slot gs r) = r32 ?m (slot gs r)"
          by (cases "r div 100 = k") (auto simp: r32_other)
      qed (use h D(4) in simp_all)
      then show ?thesis using r h by auto
    next
      case new
      have "OffsetToPtr (B\<lparr>mData := x\<rparr>) off 0 = Some (unat off)" for x
        using new(4) by (intro OffsetToPtr_in) simp
      then have "AllocRowOffset_group (gs ! k) rowPos B = Some (Some (unat off, 0),
          B\<lparr>mData := w32 (unat off + 400) 0 (w32 (gs ! k + 400) off m)\<rparr>)"
        using True nxt last new inb by (simp add: AllocRowOffset_group_def st32_in)
      then show ?thesis
        using group_new [OF L k' len' new(3,4) refl] new(2) len' k'
        by (intro exI [of _ "Some (unat off, 0)"] exI [of _ "B\<lparr>mData := w32 (unat off + 400) 0 (w32 (gs ! k + 400) off m)\<rparr>"]
            exI [of _ "gs @ [unat off]"]) (simp add: nth_append)
    qed
  qed
qed

lemma AllocRowOffset_layout:
  assumes L: "layout B n gs ds" and R: "r32 (mData B) 8 = of_nat (length ds)"
  shows "\<exists>r B1 gs'. AllocRowOffset B = Some (r, B1) \<and> layout B1 n gs' ds \<and> table_of (mData B1) n ds = table_of (mData B) n ds
    \<and> (r = None \<and> r32 (mData B1) 8 = of_nat (length ds)
       \<or> r = Some (slot gs' (length ds)) \<and> length ds < 100 * length gs' \<and> r32 (mData B1) 8 = of_nat (Suc (length ds)))"
proof -
  note D = layoutD [OF L]
  let ?k = "(length ds - 1) div 100"
  have rows: "unat (of_nat (length ds) :: uint32) = length ds" using length_bound [OF L] by (intro unat_of_nat_32) simp
  have k: "?k < length gs" using D(9,11) by (cases ds) (auto simp: div_less_iff_less_mult)
  have pos: "length ds = 100 * ?k + (length ds - 100 * ?k)" "length ds - 100 * ?k \<le> 100"
    using mult_div_mod_eq [of 100 "length ds - 1"] mod_less_divisor [of 100 "length ds - 1"] by linarith+
  have loop: "AllocRowOffset_loop B (gs ! 0) (length ds) = Some (Some (gs ! ?k, length ds - 100 * ?k))"
    using AllocRowOffset_loop_layout [OF L, of 0 "length ds"] D(9,11) by simp
  obtain r B1 gs' where g: "AllocRowOffset_group (gs ! ?k) (length ds - 100 * ?k) B = Some (r, B1)"
    "r32 (mData B1) 8 = r32 (mData B) 8" "layout B1 n gs' ds" "table_of (mData B1) n ds = table_of (mData B) n ds"
    "r = None \<or> length ds < 100 * length gs' \<and> r = Some (gs' ! (length ds div 100), length ds mod 100)"
    using AllocRowOffset_group_layout [OF L k pos] by blast
  have go: "AllocRowOffset B = (case r of None \<Rightarrow> Some (None, B1) | Some (grp, rowPos) \<Rightarrow>
      Some (Some (grp + 4 * rowPos), B1\<lparr>mData := w32 8 (of_nat (length ds) + 1) (mData B1)\<rparr>))"
    using first_group [OF L] R rows loop g(1,2) layout_size [OF L] layout_size [OF g(3)]
    by (simp add: AllocRowOffset_def ld32_in st32_in split: option.splits)
  show ?thesis
  proof (cases r)
    case None
    then show ?thesis using go g R by auto
  next
    case (Some x)
    let ?B = "B1\<lparr>mData := w32 8 (of_nat (length ds) + 1) (mData B1)\<rparr>"
    have A: "agree (- {8..<12}) (mData B1) (mData ?B)" using agree_w32 [of 8 "- {8..<12}"] by simp
    have u0: "r32 (mData ?B) 0 = r32 (mData B1) 0" by (rule agree_r32 [OF A]) auto
    have "layout ?B n gs' ds \<and> table_of (mData ?B) n ds = table_of (mData B1) n ds"
      by (rule layout_outside [OF g(3)])
        (use u0 layoutD(4) [OF g(3)] agree_header in simp_all)
    moreover have "r = Some (gs' ! (length ds div 100), length ds mod 100)" "length ds < 100 * length gs'"
      using g(5) Some by auto
    ultimately show ?thesis using go g(4)
      by (intro exI [of _ "Some (slot gs' (length ds))"] exI [of _ ?B] exI [of _ gs']) (simp add: slot_def add.commute)
  qed
qed

lemma layout_snoc:
  assumes L: "layout B n gs ds" and d: "16 \<le> d" "d + 12 * n \<le> unat (r32 (mData B) 0)"
    and r: "length ds < 100 * length gs" "r32 (mData B) (slot gs (length ds)) = of_nat d"
    and ap: "\<And>g. g \<in> set gs \<Longrightarrow> g + 404 \<le> d" "\<And>e. e \<in> set ds \<Longrightarrow> e + 12 * n \<le> d"
      "\<And>e c. e \<in> set ds \<Longrightarrow> c < n \<Longrightarrow> has_pay (mData B) (e + 12 * c) \<Longrightarrow>
         pay_off (mData B) (e + 12 * c) + pay_len (mData B) (e + 12 * c) \<le> d"
    and z: "\<And>c. c < n \<Longrightarrow> r32 (mData B) (d + 12 * c) = 0" and l: "12 * Suc (length ds) \<le> unat (r32 (mData B) 0)"
  shows "layout B n gs (ds @ [d]) \<and> table_of (mData B) n (ds @ [d]) = table_of (mData B) n ds @ [replicate n CellNull]"
proof -
  note D = layoutD [OF L]
  let ?U = "unat (r32 (mData B) 0)"
  have "cell_ok (mData B) ?U (unat (mSize B)) n gs (ds @ [d]) (e + 12 * c)" if "e \<in> set (ds @ [d])" "c < n" for e c
    using D(19) [of e c] that z [of c] ap(3) [of e c] by (auto simp: cell_ok_def has_pay_def)
  moreover have "apart (12 * n) (ds @ [d])" by (rule apart_snoc [OF D(13) ap(2)])
  moreover have "r32 (mData B) (slot gs i) = of_nat ((ds @ [d]) ! i)" if "i < Suc (length ds)" for i
    using D(18) [of i] r(2) that by (auto simp: less_Suc_eq nth_append)
  moreover have "g + 404 \<le> e \<or> e + 12 * n \<le> g" if "g \<in> set gs" "e \<in> set (ds @ [d])" for g e
    using D(17) [of g e] ap(1) [of g] that by auto
  ultimately have "layout B n gs (ds @ [d])"
    using D(1-12,14-16) d r(1) l unfolding layout_unfold by auto
  moreover have "map (\<lambda>c. decode (mData B) (d + 12 * c)) [0..<n] = replicate n CellNull"
    using z by (intro nth_equalityI) (simp_all add: decode_def)
  ultimately show ?thesis by (simp add: table_of_def)
qed

lemma layout_butlast: "layout B n gs (ds @ [d]) \<Longrightarrow> layout B n gs ds"
proof -
  assume L: "layout B n gs (ds @ [d])"
  note D = layoutD [OF L]
  have "apart (12 * n) ds" using apart_take [OF D(13), of "length ds"] by simp
  moreover have "r32 (mData B) (slot gs r) = of_nat (ds ! r)" if "r < length ds" for r
    using D(18) [of r] that by (simp add: nth_append)
  moreover have "cell_ok (mData B) (unat (r32 (mData B) 0)) (unat (mSize B)) n gs ds (e + 12 * c)"
    if "e \<in> set ds" "c < n" for e c
    using D(19) [of e c] that by (simp add: cell_ok_def)
  ultimately show "layout B n gs ds" using D(1-12,14-17) unfolding layout_unfold by simp
qed

text \<open>No operation changes the size of the block.\<close>

lemma st_size: "st32 a v B = Some B' \<Longrightarrow> mSize B' = mSize B" "st64 a w B = Some B' \<Longrightarrow> mSize B' = mSize B"
    "st_bytes a bs B = Some B' \<Longrightarrow> mSize B' = mSize B"
  by (auto simp: st32_def st64_def st_bytes_def split: if_splits)

lemma Alloc_size: "Alloc sz al B = Some (off, B') \<Longrightarrow> mSize B' = mSize B"
  by (auto simp: Alloc_def Let_def bind_eq_Some_conv dest: st_size split: if_splits)

lemma AllocRowOffset_group_size: "AllocRowOffset_group grp rowPos B = Some (r, B') \<Longrightarrow> mSize B' = mSize B"
  by (auto simp: AllocRowOffset_group_def bind_eq_Some_conv dest!: st_size Alloc_size split: if_splits option.splits prod.splits)

lemma AllocRowOffset_size: "AllocRowOffset B = Some (r, B') \<Longrightarrow> mSize B' = mSize B"
  by (auto simp: AllocRowOffset_def bind_eq_Some_conv dest!: st_size AllocRowOffset_group_size split: option.splits prod.splits)

text \<open>Writing a cleared row directory and its offset into the free slot.\<close>

lemma row_written:
  assumes L: "layout B n gs ds" and r: "length ds < 100 * length gs"
    and off: "unat (r32 (mData B) 0) \<le> unat off" "unat off + 12 * n \<le> unat (mSize B)"
    and m': "m' = w32 (slot gs (length ds)) off (wr_bytes (unat off) (replicate (12 * n) 0)
                (w32 0 (of_nat (unat off + 12 * n)) (mData B)))"
  shows "layout (B\<lparr>mData := m'\<rparr>) n gs (ds @ [unat off]) \<and> r32 m' 8 = r32 (mData B) 8
    \<and> table_of m' n (ds @ [unat off]) = table_of (mData B) n ds @ [replicate n CellNull]"
proof -
  note D = layoutD [OF L]
  let ?m = "mData B" and ?o = "unat off" and ?x = "slot gs (length ds)" and ?B = "B\<lparr>mData := m'\<rparr>"
  let ?g = "gs ! (length ds div 100)"
  note sr = slot_range [OF r]
  then have g: "?g \<in> set gs" and x: "?g \<le> ?x" "?x + 4 \<le> ?g + 400" by simp_all
  have gb: "16 \<le> ?g" "?g + 404 \<le> ?o" using D(15) [OF g] off(1) by linarith+
  let ?m1 = "w32 0 (of_nat (?o + 12 * n)) ?m"
  let ?m2 = "wr_bytes ?o (replicate (12 * n) 0) ?m1"
  have A: "agree (- ({0..<4} \<union> {?x..<?x + 4} \<union> {?o..<?o + 12 * n})) ?m m'"
    unfolding m' by (rule agree_trans [OF agree_w32 agree_trans [OF agree_wr_bytes agree_w32]]) auto
  have "r32 m' 0 = r32 ?m2 0" unfolding m' using gb x by (intro r32_other) simp
  also have "\<dots> = r32 ?m1 0"
    by (rule agree_r32 [OF agree_wr_bytes [of ?o _ "{0..<4}"]]) (use gb in auto)
  finally have "r32 m' 0 = of_nat (?o + 12 * n)" by simp
  then have u: "unat (r32 m' 0) = ?o + 12 * n" using off(2) D(2) by (simp only:) (intro unat_of_nat_32, simp)
  have h8: "r32 m' 8 = r32 ?m 8" by (rule agree_r32 [OF A]) (use gb x in auto)
  have "row_bytes ?m n ds \<inter> ({0..<4} \<union> {?x..<?x + 4} \<union> {?o..<?o + 12 * n}) = {}"
  proof -
    have "row_bytes ?m n ds \<inter> {?x..<?x + 4} = {}"
      using row_bytes_groups [OF L g] x by fastforce
    moreover have "row_bytes ?m n ds \<inter> ({0..<4} \<union> {?o..<?o + 12 * n}) = {}"
      using row_bytes_below [OF L] off(1) D(3) by fastforce
    ultimately show ?thesis by blast
  qed
  then have Ar: "agree (row_bytes ?m n ds) ?m m'" by (simp add: agree_mono [OF A] disjoint_eq_subset_Compl)
  have lay: "layout ?B n gs ds \<and> table_of (mData ?B) n ds = table_of ?m n ds"
  proof (rule layout_same_groups [OF L])
    show "agree (row_bytes ?m n ds) ?m (mData ?B)" using Ar by simp
    fix i assume i: "i < length gs"
    have "gs ! i + 404 \<le> ?o" "16 \<le> gs ! i" using D(15) [OF nth_mem [OF i]] off(1) by linarith+
    moreover have "i = length ds div 100 \<or> gs ! i + 404 \<le> ?g \<or> ?g + 404 \<le> gs ! i" using apartD [OF D(12) i] sr by blast
    ultimately have "r32 m' (gs ! i + 400) = r32 ?m (gs ! i + 400)" using x by (intro agree_r32 [OF A]) auto
    then show "r32 (mData ?B) (gs ! i + 400) = r32 ?m (gs ! i + 400)" by simp
  next
    fix i assume i: "i < length ds"
    then have i': "i < 100 * length gs" using D(11) by simp
    from slot_range [OF this] D(15) [of "gs ! (i div 100)"] off(1)
    have "slot gs i + 4 \<le> ?o" "16 \<le> slot gs i" by auto
    then have "r32 m' (slot gs i) = r32 ?m (slot gs i)"
      using slots_apart [OF D(12) i' r] i by (intro agree_r32 [OF A]) auto
    then show "r32 (mData ?B) (slot gs i) = r32 ?m (slot gs i)" by simp
  qed (use u off D(4) in simp_all)
  have cells: "has_pay m' (e + 12 * c) = has_pay ?m (e + 12 * c)" "pay_off m' (e + 12 * c) = pay_off ?m (e + 12 * c)"
    "pay_len m' (e + 12 * c) = pay_len ?m (e + 12 * c)" if "e \<in> set ds" "c < n" for e c
    using decode_agree [OF agree_mono [OF Ar cell_bytes [OF that]]] by simp_all
  have zero: "r32 m' (?o + 12 * c) = 0" if c: "c < n" for c
  proof (rule r32_zero)
    fix i :: nat assume "i < 4"
    then have i: "12 * c + i < 12 * n" using c by simp
    have "m' (?o + 12 * c + i) = ?m2 (?o + (12 * c + i))" unfolding m' using gb x by (simp add: w32_outside add.assoc)
    then show "m' (?o + 12 * c + i) = 0" using wr_bytes_inside [of "12 * c + i" "replicate (12 * n) 0" ?o ?m1] i by simp
  qed
  have "layout ?B n gs (ds @ [?o]) \<and> table_of (mData ?B) n (ds @ [?o]) = table_of (mData ?B) n ds @ [replicate n CellNull]"
  proof (rule layout_snoc)
    show "layout ?B n gs ds" using lay by simp
    show "r32 (mData ?B) (slot gs (length ds)) = of_nat ?o" by (simp add: m')
    show "12 * Suc (length ds) \<le> unat (r32 (mData ?B) 0)" using u D(5,6) off(1) by simp
    show "g + 404 \<le> ?o" if "g \<in> set gs" for g using D(15) [OF that] off(1) by linarith
    show "e + 12 * n \<le> ?o" if "e \<in> set ds" for e using D(16) [OF that] off(1) by linarith
    show "pay_off (mData ?B) (e + 12 * c) + pay_len (mData ?B) (e + 12 * c) \<le> ?o"
      if "e \<in> set ds" "c < n" "has_pay (mData ?B) (e + 12 * c)" for e c
      using D(19) [OF that(1,2)] cells [OF that(1,2)] that(3) off(1) by (auto simp: cell_ok_def)
  qed (use gb u r zero in simp_all)
  then show ?thesis using lay h8 by simp
qed

subsection \<open>The block as a table\<close>

lemma holds_tableI:
  "layout B n gs ds \<Longrightarrow> r32 (mData B) 8 = of_nat (length ds) \<Longrightarrow> T = table_of (mData B) n ds \<Longrightarrow> holds_table B n T"
  unfolding holds_table_def by blast

text \<open>What the bounds-checked routines promise: a count that fits a destination of at most \<open>2 ^ 31 - 1\<close>
  bytes is accepted.\<close>

definition securec_contract :: "(nat \<Rightarrow> nat \<Rightarrow> bool) \<Rightarrow> bool" where
  "securec_contract sec \<longleftrightarrow> (\<forall>d k. 0 < k \<and> k \<le> d \<and> d \<le> 2 ^ 31 - 1 \<longrightarrow> sec d k)"

lemma Clear_table:
  assumes "\<not> mReadOnly B" and "420 \<le> unat (mSize B)" and "unat (mSize B) + 4 \<le> 2 ^ 32" and "0 < n" "n \<le> 32767"
  shows "\<exists>B1 B2. Clear B = Some (SHARED_BLOCK_OK, B1) \<and> SetColumnNum (of_nat n) B1 = Some (SHARED_BLOCK_OK, B2)
    \<and> holds_table B2 n [] \<and> mSize B2 = mSize B"
proof -
  let ?m1 = "w32 416 0 (w32 12 0 (w32 8 0 (w32 4 16 (w32 0 420 (mData B)))))"
  let ?m2 = "w32 12 (of_nat n) ?m1"
  have c: "Clear B = Some (SHARED_BLOCK_OK, B\<lparr>mData := ?m1\<rparr>)"
    using assms(1,2) OffsetToPtr_in [of 16] by (simp add: Clear_def st32_in ld32_in r32_other)
  have n: "\<not> (32767 :: uint32) < of_nat n" using assms(5) by (simp add: word_less_nat_alt unat_of_nat_32)
  have s: "SetColumnNum (of_nat n) (B\<lparr>mData := ?m1\<rparr>) = Some (SHARED_BLOCK_OK, B\<lparr>mData := ?m2\<rparr>)"
    using assms(1,2) n by (simp add: SetColumnNum_def st32_in ld32_in r32_other)
  have "layout (B\<lparr>mData := ?m2\<rparr>) n [16] []"
    unfolding layout_unfold using assms by (simp add: r32_other chain_def apart_def)
  then have "holds_table (B\<lparr>mData := ?m2\<rparr>) n []"
    by (rule holds_tableI) (simp_all add: r32_other table_of_def)
  with c s show ?thesis by auto
qed

lemma alloc_table:
  assumes "layout B n gs ds" and "unat off + k \<le> unat (mSize B)" and "unat (r32 (mData B) 0) \<le> unat off"
  shows "layout (B\<lparr>mData := w32 0 (of_nat (unat off + k)) (mData B)\<rparr>) n gs ds
    \<and> table_of (w32 0 (of_nat (unat off + k)) (mData B)) n ds = table_of (mData B) n ds"
proof -
  have "unat (of_nat (unat off + k) :: uint32) = unat off + k"
    using assms(2) layoutD(2) [OF assms(1)] by (intro unat_of_nat_32) simp
  then show ?thesis
    using layout_outside [OF assms(1), of "B\<lparr>mData := w32 0 (of_nat (unat off + k)) (mData B)\<rparr>"] assms(2,3) agree_header(1) by simp
qed

lemma AllocRow_table:
  assumes T: "holds_table B n T" and sec: "securec_contract sec"
  shows "\<exists>e B'. AllocRow sec B = Some (e, B') \<and> mSize B' = mSize B \<and>
    (e = SHARED_BLOCK_OK \<and> holds_table B' n (T @ [replicate n CellNull]) \<or> e = SHARED_BLOCK_NO_MEMORY \<and> holds_table B' n T)"
proof -
  obtain gs ds where L: "layout B n gs ds" and R: "r32 (mData B) 8 = of_nat (length ds)" and T': "T = table_of (mData B) n ds"
    using T by (auto simp: holds_table_def)
  obtain r B1 gs' where a: "AllocRowOffset B = Some (r, B1)" and L1: "layout B1 n gs' ds"
    and t1: "table_of (mData B1) n ds = table_of (mData B) n ds"
    and r: "r = None \<and> r32 (mData B1) 8 = of_nat (length ds)
      \<or> r = Some (slot gs' (length ds)) \<and> length ds < 100 * length gs' \<and> r32 (mData B1) 8 = of_nat (Suc (length ds))"
    using AllocRowOffset_layout [OF L R] by blast
  have size1: "mSize B1 = mSize B" using AllocRowOffset_size [OF a] .
  show ?thesis
  proof (cases r)
    case None
    then have "AllocRow sec B = Some (SHARED_BLOCK_NO_MEMORY, B1)" using a layoutD(1) [OF L] by (simp add: AllocRow_def)
    moreover have "holds_table B1 n T" using holds_tableI [OF L1] r None t1 T' by simp
    ultimately show ?thesis using size1 by auto
  next
    case (Some x)
    note D = layoutD [OF L1]
    from r Some have x: "x = slot gs' (length ds)" and len: "length ds < 100 * length gs'"
      and R1: "r32 (mData B1) 8 = of_nat (Suc (length ds))" by auto
    let ?dir = "ucast (of_nat n :: uint32) * 12 :: 64 word"
    have dir: "unat ?dir = 12 * n"
    proof -
      have "unat (ucast (of_nat n :: uint32) :: 64 word) = n" using D(7) by (simp add: unat_ucast_32_64 unat_of_nat_32)
      then show ?thesis using D(7) by (subst unat_mult_lem [THEN iffD1]) simp_all
    qed
    have sz1: "420 \<le> unat (mSize B1)" by (rule layout_size [OF L1])
    have xin: "x + 4 \<le> unat (mSize B1)" using slot_range [OF len] D(4) D(15) [of "gs' ! (length ds div 100)"] x by linarith
    from Alloc_layout [OF L1, of ?dir True] dir D(7) consider
        (full) "Alloc ?dir True B1 = Some (0, B1)"
      | (new) off m where "Alloc ?dir True B1 = Some (off, B1\<lparr>mData := m\<rparr>)" "m = w32 0 (of_nat (unat off + 12 * n)) (mData B1)"
          "unat (r32 (mData B1) 0) \<le> unat off" "unat off + 12 * n \<le> unat (mSize B1)" "off \<noteq> 0"
      by auto
    then show ?thesis
    proof cases
      case full
      let ?B2 = "B1\<lparr>mData := w32 8 (of_nat (length ds)) (mData B1)\<rparr>"
      have "AllocRow sec B = Some (SHARED_BLOCK_NO_MEMORY, ?B2)"
        using a Some full layoutD(1) [OF L] D(8) R1 sz1 by (simp add: AllocRow_def ld32_in st32_in)
      moreover have "layout ?B2 n gs' ds \<and> table_of (mData ?B2) n ds = table_of (mData B1) n ds"
        by (rule layout_outside [OF L1]) (use D(4) agree_header(2) in \<open>simp_all add: r32_other\<close>)
      then have "holds_table ?B2 n T" using t1 T' by (intro holds_tableI [of _ _ gs' ds]) simp_all
      ultimately show ?thesis using size1 by auto
    next
      case new
      let ?m' = "w32 x off (wr_bytes (unat off) (replicate (12 * n) 0) m)"
      have ptr: "OffsetToPtr (B1\<lparr>mData := m\<rparr>) off 0 = Some (unat off)" using new(4) D(6) by (intro OffsetToPtr_in) simp
      have ok: "sec (12 * n) (12 * n)" using sec D(6,7) by (simp add: securec_contract_def)
      have "AllocRow sec B = Some (SHARED_BLOCK_OK, B1\<lparr>mData := ?m'\<rparr>)"
        using a Some new ptr ok layoutD(1) [OF L] D(8) dir sz1 xin by (simp add: AllocRow_def ld32_in st32_in st_bytes_def)
      moreover have "holds_table (B1\<lparr>mData := ?m'\<rparr>) n (T @ [replicate n CellNull])"
        using row_written [OF L1 len new(3,4), of ?m'] x new(2) R1 t1 T'
        by (intro holds_tableI [of _ _ gs' "ds @ [unat off]"]) simp_all
      ultimately show ?thesis using size1 by auto
    qed
  qed
qed

lemma FreeLastRow_table:
  assumes T: "holds_table B n T"
  shows "\<exists>B'. FreeLastRow B = Some (SHARED_BLOCK_OK, B') \<and> mSize B' = mSize B \<and> holds_table B' n (butlast T)"
proof -
  obtain gs ds where L: "layout B n gs ds" and R: "r32 (mData B) 8 = of_nat (length ds)" and T': "T = table_of (mData B) n ds"
    using T by (auto simp: holds_table_def)
  note D = layoutD [OF L]
  have rows: "unat (of_nat (length ds) :: uint32) = length ds" using length_bound [OF L] by (intro unat_of_nat_32) simp
  have sz: "420 \<le> unat (mSize B)" by (rule layout_size [OF L])
  show ?thesis
  proof (cases ds rule: rev_cases)
    case Nil
    then show ?thesis using D(1) R sz T T' by (simp add: FreeLastRow_def ld32_in table_of_def)
  next
    case (snoc ds' d)
    let ?B = "B\<lparr>mData := w32 8 (of_nat (length ds')) (mData B)\<rparr>"
    have "r32 (mData B) 8 > 0" using R rows snoc by (simp add: word_less_nat_alt)
    then have "FreeLastRow B = Some (SHARED_BLOCK_OK, ?B)" using D(1) R sz snoc by (simp add: FreeLastRow_def ld32_in st32_in)
    moreover have "layout B n gs ds'" using L snoc by (rule_tac layout_butlast) simp_all
    then have "layout ?B n gs ds' \<and> table_of (mData ?B) n ds' = table_of (mData B) n ds'"
      by (rule layout_outside) (use D(4) agree_header(2) in \<open>simp_all add: r32_other\<close>)
    then have "holds_table ?B n (butlast T)"
      using T' snoc by (intro holds_tableI [of _ _ gs ds']) (simp_all add: table_of_def)
    ultimately show ?thesis by auto
  qed
qed

text \<open>Writing a cell, of any kind.\<close>

definition put_cell :: "(nat \<Rightarrow> nat \<Rightarrow> bool) \<Rightarrow> nat \<Rightarrow> nat \<Rightarrow> cell \<Rightarrow> SharedBlock \<Rightarrow> (block_status \<times> SharedBlock) option" where
  "put_cell sec r c x B =
     (case x of
        CellNull \<Rightarrow> PutNull (of_nat r) (of_nat c) B
      | CellLong v \<Rightarrow> PutLong (of_nat r) (of_nat c) v B
      | CellDouble v \<Rightarrow> PutDouble (of_nat r) (of_nat c) v B
      | CellString bs \<Rightarrow> PutString sec (of_nat r) (of_nat c) bs B
      | CellBlob bs \<Rightarrow> PutBlob sec (of_nat r) (of_nat c) bs B)"

fun cell_fits :: "cell \<Rightarrow> bool" where
  "cell_fits (CellString bs) = (length bs < 2 ^ 63)"
| "cell_fits (CellBlob bs) = (length bs < 2 ^ 63)"
| "cell_fits _ = True"

lemma put_outside:
  assumes "holds_table B n T" and "\<not> (unat row < length T \<and> unat column < n)"
  shows "GetCellUnit B row column = Some None" "\<not> mReadOnly B"
  using assms GetCellUnit_layout layoutD(1) by (auto simp: holds_table_def)

lemma PutBytes_table:
  assumes T: "holds_table B n T" and t: "t = 3 \<or> t = 4" and len: "length bs < 2 ^ 63"
    and rc: "unat row < length T" "unat column < n"
  shows "\<exists>e B'. PutBlobOrString sec row column bs t B = Some (e, B') \<and> mSize B' = mSize B \<and>
    (e = SHARED_BLOCK_OK \<and> holds_table B' n (T[unat row := (T ! unat row)[unat column := (if t = 3 then CellString bs else CellBlob bs)]])
     \<or> e = SHARED_BLOCK_NO_MEMORY \<and> holds_table B' n T)"
proof -
  obtain gs ds where L: "layout B n gs ds" and R: "r32 (mData B) 8 = of_nat (length ds)" and T': "T = table_of (mData B) n ds"
    using T by (auto simp: holds_table_def)
  note D = layoutD [OF L]
  let ?p = "ds ! unat row + 12 * unat column"
  have rc': "unat row < length ds" "unat column < n" using rc T' by simp_all
  have g: "GetCellUnit B row column = Some (Some ?p)" using GetCellUnit_layout [OF L R] rc' by simp
  have ln: "unat (of_nat (length bs) :: 64 word) = length bs" using len by (simp add: unat_of_nat)
  note pb = cell_in_block [OF L rc']
  from Alloc_layout [OF L, of "of_nat (length bs)" False] ln len consider
      (full) "Alloc (of_nat (length bs)) False B = Some (0, B)"
    | (new) off m where "Alloc (of_nat (length bs)) False B = Some (off, B\<lparr>mData := m\<rparr>)"
        "m = w32 0 (of_nat (unat off + length bs)) (mData B)"
        "unat (r32 (mData B) 0) \<le> unat off" "unat off + length bs \<le> unat (mSize B)" "off \<noteq> 0"
    by auto
  then show ?thesis
  proof cases
    case full
    then show ?thesis using g D(1) T by (simp add: PutBlobOrString_def)
  next
    case new
    let ?B1 = "B\<lparr>mData := m\<rparr>"
    have T1: "holds_table ?B1 n T"
      using alloc_table [OF L new(4,3)] new(2) R T' by (intro holds_tableI [of _ _ gs ds]) (simp_all add: r32_other)
    show ?thesis
    proof (cases "unat off < unat (mSize B) \<and> (length bs = 0 \<or> sec (length bs) (length bs))")
      case False
      have "OffsetToPtr ?B1 off 0 = None" if "\<not> unat off < unat (mSize B)"
        using that by (simp add: OffsetToPtr_def word_le_nat_alt unat_ucast_32_64)
      moreover have "OffsetToPtr ?B1 off 0 = Some (unat off)" if "unat off < unat (mSize B)"
        using that by (intro OffsetToPtr_in) simp
      moreover have "(of_nat (length bs) :: 64 word) \<noteq> 0" if "length bs \<noteq> 0" using that ln by fastforce
      ultimately have "PutBlobOrString sec row column bs t B = Some (SHARED_BLOCK_NO_MEMORY, ?B1)"
        using False g D(1) new ln by (cases "unat off < unat (mSize B)") (simp_all add: PutBlobOrString_def)
      then show ?thesis using T1 by simp
    next
      case True
      let ?m' = "w32 (?p + 8) (of_nat (length bs)) (w32 (?p + 4) off (w32 ?p t (wr_bytes (unat off) bs m)))"
      have ptr: "OffsetToPtr ?B1 off 0 = Some (unat off)" using True by (intro OffsetToPtr_in) simp
      have wb: "(if (of_nat (length bs) :: 64 word) \<noteq> 0 then st_bytes (unat off) bs ?B1 else Some ?B1)
          = Some (B\<lparr>mData := wr_bytes (unat off) bs m\<rparr>)"
        using new(4) ln by (cases bs) (auto simp: st_bytes_def)
      have uc: "ucast (of_nat (length bs) :: 64 word) = (of_nat (length bs) :: uint32)" by (simp add: ucast_64_32 ln)
      have "PutBlobOrString sec row column bs t B = Some (SHARED_BLOCK_OK, B\<lparr>mData := ?m'\<rparr>)"
        using True g D(1) new(1,5) ptr wb ln uc pb by (auto simp: PutBlobOrString_def st32_in add.assoc)
      moreover have "holds_table (B\<lparr>mData := ?m'\<rparr>) n
          (T[unat row := (T ! unat row)[unat column := (if t = 3 then CellString bs else CellBlob bs)]])"
        using put_bytes [OF L R rc' refl t new(3,4), of ?m'] True new(2) T' by (intro holds_tableI [of _ _ gs ds]) simp_all
      ultimately show ?thesis by simp
    qed
  qed
qed

lemma PutScalar_table:
  assumes T: "holds_table B n T" and rc: "unat row < length T" "unat column < n"
  shows "\<exists>B'. PutLong row column v B = Some (SHARED_BLOCK_OK, B') \<and> mSize B' = mSize B
      \<and> holds_table B' n (T[unat row := (T ! unat row)[unat column := CellLong v]])" (is ?L)
    and "\<exists>B'. PutDouble row column v B = Some (SHARED_BLOCK_OK, B') \<and> mSize B' = mSize B
      \<and> holds_table B' n (T[unat row := (T ! unat row)[unat column := CellDouble v]])" (is ?F)
    and "\<exists>B'. PutNull row column B = Some (SHARED_BLOCK_OK, B') \<and> mSize B' = mSize B
      \<and> holds_table B' n (T[unat row := (T ! unat row)[unat column := CellNull]])" (is ?N)
proof -
  obtain gs ds where L: "layout B n gs ds" and R: "r32 (mData B) 8 = of_nat (length ds)" and T': "T = table_of (mData B) n ds"
    using T by (auto simp: holds_table_def)
  let ?p = "ds ! unat row + 12 * unat column"
  have rc': "unat row < length ds" "unat column < n" using rc T' by simp_all
  have g: "GetCellUnit B row column = Some (Some ?p)" using GetCellUnit_layout [OF L R] rc' by simp
  note pb = cell_in_block [OF L rc']
  have "holds_table (B\<lparr>mData := w64 (?p + 4) v (w32 ?p t (mData B))\<rparr>) n
      (T[unat row := (T ! unat row)[unat column := (if t = 1 then CellLong v else CellDouble v)]])" if "t = 1 \<or> t = 2" for t
    using put_scalar [OF L R rc' refl refl that] T' by (intro holds_tableI [of _ _ gs ds]) simp_all
  from this [of 1] this [of 2] show ?L ?F
    using g layoutD(1) [OF L] pb by (simp_all add: PutLong_def PutDouble_def st32_in st64_def add.assoc)
  have "holds_table (B\<lparr>mData := w32 (?p + 8) 0 (w32 (?p + 4) 0 (w32 ?p 0 (mData B)))\<rparr>) n
      (T[unat row := (T ! unat row)[unat column := CellNull]])"
    using put_null [OF L R rc' refl refl] T' by (intro holds_tableI [of _ _ gs ds]) simp_all
  then show ?N using g layoutD(1) [OF L] pb by (simp add: PutNull_def st32_in add.assoc)
qed

lemma holds_table_bound: "holds_table B n T \<Longrightarrow> length T < 2 ^ 32 \<and> n < 2 ^ 32"
  using length_bound layoutD(7) by (fastforce simp: holds_table_def)

lemma put_cell_table:
  assumes T: "holds_table B n T" and rc: "r < length T" "c < n" and x: "cell_fits x"
  shows "\<exists>e B'. put_cell sec r c x B = Some (e, B') \<and> mSize B' = mSize B \<and>
    (e = SHARED_BLOCK_OK \<and> holds_table B' n (T[r := (T ! r)[c := x]]) \<or> e = SHARED_BLOCK_NO_MEMORY \<and> holds_table B' n T)"
proof -
  have u: "unat (of_nat r :: uint32) = r" "unat (of_nat c :: uint32) = c"
    using rc holds_table_bound [OF T] by (simp_all add: unat_of_nat_32)
  note s = PutScalar_table [OF T, of "of_nat r" "of_nat c", unfolded u, OF rc]
  note b = PutBytes_table [OF T, of _ _ "of_nat r" "of_nat c", unfolded u, OF _ _ rc]
  show ?thesis
  proof (cases x)
    case CellNull then show ?thesis using s(3) by (auto simp: put_cell_def)
  next
    case (CellLong v) then show ?thesis using s(1) [of v] by (auto simp: put_cell_def)
  next
    case (CellDouble v) then show ?thesis using s(2) [of v] by (auto simp: put_cell_def)
  next
    case (CellString bs) then show ?thesis using b [of 3 bs sec] x by (auto simp: put_cell_def PutString_def)
  next
    case (CellBlob bs) then show ?thesis using b [of 4 bs sec] x by (auto simp: put_cell_def PutBlob_def)
  qed
qed

lemma ReadCell_table:
  assumes "holds_table B n T" and "unat row < length T" "unat column < n"
  shows "ReadCell B row column = Some (T ! unat row ! unat column)"
  using assms ReadCell_layout by (auto simp: holds_table_def)

lemma GetRowNum_table: "holds_table B n T \<Longrightarrow> GetRowNum B = Some (of_nat (length T)) \<and> GetColumnNum B = Some (of_nat n)"
  using layout_size layoutD(8) by (fastforce simp: holds_table_def GetRowNum_def GetColumnNum_def ld32_in)

subsection \<open>The contract of a block\<close>

text \<open>What a client relies on: a row is added at the end or not at all, a cell is written or not at all,
  the last row can be taken back.\<close>

locale row_block =
  fixes holds :: "'b \<Rightarrow> nat \<Rightarrow> cell list list \<Rightarrow> bool"
    and alloc :: "'b \<Rightarrow> (block_status \<times> 'b) option"
    and free :: "'b \<Rightarrow> (block_status \<times> 'b) option"
    and put :: "nat \<Rightarrow> nat \<Rightarrow> cell \<Rightarrow> 'b \<Rightarrow> (block_status \<times> 'b) option"
  assumes alloc_law: "holds b n T \<Longrightarrow> \<exists>e b'. alloc b = Some (e, b') \<and>
      (e = SHARED_BLOCK_OK \<and> holds b' n (T @ [replicate n CellNull]) \<or> e = SHARED_BLOCK_NO_MEMORY \<and> holds b' n T)"
    and free_law: "holds b n T \<Longrightarrow> \<exists>b'. free b = Some (SHARED_BLOCK_OK, b') \<and> holds b' n (butlast T)"
    and put_law: "holds b n T \<Longrightarrow> r < length T \<Longrightarrow> c < n \<Longrightarrow> cell_fits x \<Longrightarrow> \<exists>e b'. put r c x b = Some (e, b') \<and>
      (e = SHARED_BLOCK_OK \<and> holds b' n (T[r := (T ! r)[c := x]]) \<or> e = SHARED_BLOCK_NO_MEMORY \<and> holds b' n T)"
begin

text \<open>Writing the cells of a row from left to right, up to the first that has no space.\<close>

fun put_row :: "nat \<Rightarrow> nat \<Rightarrow> cell list \<Rightarrow> 'b \<Rightarrow> (bool \<times> 'b) option" where
  "put_row r c [] b = Some (True, b)"
| "put_row r c (x # xs) b =
     (case put r c x b of
        None \<Rightarrow> None
      | Some (e, b) \<Rightarrow> if e = SHARED_BLOCK_OK then put_row r (Suc c) xs b else Some (False, b))"

lemma put_row_law:
  "holds b n (T @ [ys]) \<Longrightarrow> length ys = n \<Longrightarrow> c + length xs \<le> n \<Longrightarrow> list_all cell_fits xs \<Longrightarrow>
   \<exists>ok b' zs. put_row (length T) c xs b = Some (ok, b') \<and> holds b' n (T @ [zs]) \<and> length zs = n
     \<and> (ok \<longrightarrow> zs = take c ys @ xs @ drop (c + length xs) ys)"
proof (induction xs arbitrary: c b ys)
  case Nil
  then show ?case by auto
next
  case (Cons x xs)
  have "c < n" "cell_fits x" using Cons.prems by simp_all
  then obtain e b' where p: "put (length T) c x b = Some (e, b')"
    and h: "e = SHARED_BLOCK_OK \<and> holds b' n (T @ [ys[c := x]]) \<or> e = SHARED_BLOCK_NO_MEMORY \<and> holds b' n (T @ [ys])"
    using put_law [OF Cons.prems(1), of "length T" c x] by auto
  show ?case
  proof (cases "e = SHARED_BLOCK_OK")
    case True
    then obtain ok b'' zs where "put_row (length T) (Suc c) xs b' = Some (ok, b'')" "holds b'' n (T @ [zs])" "length zs = n"
      "ok \<longrightarrow> zs = take (Suc c) (ys[c := x]) @ xs @ drop (Suc c + length xs) (ys[c := x])"
      using Cons.IH [of b' "ys[c := x]" "Suc c"] h Cons.prems by auto
    then show ?thesis using p True \<open>c < n\<close> Cons.prems(2)
      by (auto simp: take_Suc_conv_app_nth drop_update_cancel)
  next
    case False
    then show ?thesis using p h Cons.prems(2) by auto
  qed
qed

text \<open>A whole row is appended, or the block holds what it held.\<close>

definition add_row :: "nat \<Rightarrow> cell list \<Rightarrow> 'b \<Rightarrow> (bool \<times> 'b) option" where
  "add_row r xs b =
     (case alloc b of
        None \<Rightarrow> None
      | Some (e, b) \<Rightarrow>
          if e \<noteq> SHARED_BLOCK_OK then Some (False, b)
          else case put_row r 0 xs b of
            None \<Rightarrow> None
          | Some (True, b) \<Rightarrow> Some (True, b)
          | Some (False, b) \<Rightarrow> (case free b of None \<Rightarrow> None | Some (e, b) \<Rightarrow> Some (False, b)))"

lemma add_row_law:
  assumes "holds b n T" and "length xs = n" and "list_all cell_fits xs"
  shows "\<exists>ok b'. add_row (length T) xs b = Some (ok, b') \<and> holds b' n (if ok then T @ [xs] else T)"
proof -
  obtain e b1 where a: "alloc b = Some (e, b1)"
    and h: "e = SHARED_BLOCK_OK \<and> holds b1 n (T @ [replicate n CellNull]) \<or> e = SHARED_BLOCK_NO_MEMORY \<and> holds b1 n T"
    using alloc_law [OF assms(1)] by blast
  show ?thesis
  proof (cases "e = SHARED_BLOCK_OK")
    case True
    then obtain ok b2 zs where p: "put_row (length T) 0 xs b1 = Some (ok, b2)" "holds b2 n (T @ [zs])" "ok \<longrightarrow> zs = xs"
      using put_row_law [of b1 n T "replicate n CellNull" 0 xs] h assms(2,3) by auto
    obtain b3 where "free b2 = Some (SHARED_BLOCK_OK, b3)" "holds b3 n T" using free_law [OF p(2)] by auto
    then show ?thesis using a True p by (cases ok) (auto simp: add_row_def)
  next
    case False
    then show ?thesis using a h by (auto simp: add_row_def)
  qed
qed

end

definition block_holds :: "(nat \<Rightarrow> nat \<Rightarrow> bool) \<Rightarrow> SharedBlock \<Rightarrow> nat \<Rightarrow> cell list list \<Rightarrow> bool" where
  "block_holds sec B n T \<longleftrightarrow> securec_contract sec \<and> holds_table B n T"

interpretation shared: row_block "block_holds sec" "AllocRow sec" FreeLastRow "put_cell sec" for sec
proof
  fix b n T
  assume h: "block_holds sec b n T"
  show "\<exists>e b'. AllocRow sec b = Some (e, b') \<and>
      (e = SHARED_BLOCK_OK \<and> block_holds sec b' n (T @ [replicate n CellNull]) \<or> e = SHARED_BLOCK_NO_MEMORY \<and> block_holds sec b' n T)"
    using AllocRow_table [of b n T sec] h by (auto simp: block_holds_def)
  show "\<exists>b'. FreeLastRow b = Some (SHARED_BLOCK_OK, b') \<and> block_holds sec b' n (butlast T)"
    using FreeLastRow_table [of b n T] h by (auto simp: block_holds_def)
  fix r c x
  assume "r < length T" "c < n" "cell_fits x"
  then show "\<exists>e b'. put_cell sec r c x b = Some (e, b') \<and>
      (e = SHARED_BLOCK_OK \<and> block_holds sec b' n (T[r := (T ! r)[c := x]]) \<or> e = SHARED_BLOCK_NO_MEMORY \<and> block_holds sec b' n T)"
    using put_cell_table [of b n T r c x sec] h by (auto simp: block_holds_def)
qed

subsection \<open>Properties\<close>

datatype block_op = bAllocRow | bFreeLastRow | bPut nat nat cell

fun block_op_on :: "(nat \<Rightarrow> nat \<Rightarrow> bool) \<Rightarrow> block_op \<Rightarrow> SharedBlock \<Rightarrow> (block_status \<times> SharedBlock) option" where
  "block_op_on sec bAllocRow B = AllocRow sec B"
| "block_op_on sec bFreeLastRow B = FreeLastRow B"
| "block_op_on sec (bPut r c x) B = put_cell sec r c x B"

fun block_run :: "(nat \<Rightarrow> nat \<Rightarrow> bool) \<Rightarrow> block_op list \<Rightarrow> SharedBlock \<Rightarrow> (block_status list \<times> SharedBlock) option" where
  "block_run sec [] B = Some ([], B)"
| "block_run sec (x # xs) B =
     (case block_op_on sec x B of
        None \<Rightarrow> None
      | Some (e, B) \<Rightarrow> (case block_run sec xs B of None \<Rightarrow> None | Some (es, B) \<Rightarrow> Some (e # es, B)))"

text \<open>The table a sequence of operations specifies, given the codes they returned; \<open>None\<close> for a code that
  an operation never returns.\<close>

fun table_op :: "nat \<Rightarrow> block_op \<Rightarrow> block_status \<Rightarrow> cell list list \<Rightarrow> cell list list option" where
  "table_op n bAllocRow e T =
     (if e = SHARED_BLOCK_OK then Some (T @ [replicate n CellNull]) else if e = SHARED_BLOCK_NO_MEMORY then Some T else None)"
| "table_op n bFreeLastRow e T = (if e = SHARED_BLOCK_OK then Some (butlast T) else None)"
| "table_op n (bPut r c x) e T =
     (if r < length T \<and> c < n then
        if e = SHARED_BLOCK_OK then Some (T[r := (T ! r)[c := x]])
        else if e = SHARED_BLOCK_NO_MEMORY then Some T else None
      else if e = SHARED_BLOCK_BAD_VALUE then Some T else None)"

fun table_run :: "nat \<Rightarrow> (block_op \<times> block_status) list \<Rightarrow> cell list list \<Rightarrow> cell list list option" where
  "table_run n [] T = Some T"
| "table_run n ((x, e) # xs) T = (case table_op n x e T of None \<Rightarrow> None | Some T \<Rightarrow> table_run n xs T)"

fun op_fits :: "block_op \<Rightarrow> bool" where
  "op_fits (bPut r c x) = (r < 2 ^ 32 \<and> c < 2 ^ 32 \<and> cell_fits x)"
| "op_fits _ = True"

lemma put_cell_outside:
  assumes "holds_table B n T" and "\<not> (r < length T \<and> c < n)" and "r < 2 ^ 32" "c < 2 ^ 32"
  shows "put_cell sec r c x B = Some (SHARED_BLOCK_BAD_VALUE, B)"
proof -
  have "unat (of_nat r :: uint32) = r" "unat (of_nat c :: uint32) = c" using assms(3,4) by (simp_all add: unat_of_nat_32)
  then show ?thesis using put_outside [OF assms(1), of "of_nat r" "of_nat c"] assms(2)
    by (cases x) (simp_all add: put_cell_def PutNull_def PutLong_def PutDouble_def PutString_def PutBlob_def PutBlobOrString_def)
qed

lemma block_op_table:
  assumes "holds_table B n T" and "securec_contract sec" and "op_fits x"
  shows "\<exists>e B' T'. block_op_on sec x B = Some (e, B') \<and> table_op n x e T = Some T' \<and> holds_table B' n T'"
proof (cases x)
  case bAllocRow
  then show ?thesis using AllocRow_table [OF assms(1,2)] by fastforce
next
  case bFreeLastRow
  then show ?thesis using FreeLastRow_table [OF assms(1)] by fastforce
next
  case (bPut r c y)
  show ?thesis
  proof (cases "r < length T \<and> c < n")
    case True
    then show ?thesis using put_cell_table [OF assms(1), of r c y sec] bPut assms(3) by fastforce
  next
    case False
    then show ?thesis using put_cell_outside [OF assms(1) False, of sec y] bPut assms by auto
  qed
qed

lemma block_run_table:
  "holds_table B n T \<Longrightarrow> securec_contract sec \<Longrightarrow> list_all op_fits xs \<Longrightarrow>
   \<exists>es B' T'. block_run sec xs B = Some (es, B') \<and> length es = length xs \<and> table_run n (zip xs es) T = Some T' \<and> holds_table B' n T'"
proof (induction xs arbitrary: B T)
  case (Cons x xs)
  then obtain e B1 T1 where 1: "block_op_on sec x B = Some (e, B1)" "table_op n x e T = Some T1" "holds_table B1 n T1"
    using block_op_table [OF Cons.prems(1,2), of x] by auto
  obtain es B2 T2 where "block_run sec xs B1 = Some (es, B2)" "length es = length xs"
    "table_run n (zip xs es) T1 = Some T2" "holds_table B2 n T2"
    using Cons.IH [OF 1(3) Cons.prems(2)] Cons.prems(3) by auto
  then show ?case using 1 by (intro exI [of _ "e # es"]) auto
qed auto

text \<open>
  C5 (refinement): on a cleared block of any size between 420 bytes and 4 GB, every sequence of row
  allocations, row releases and cell writes runs without an access outside the block; the codes it returns
  are those the table specification allows, and reading any cell afterwards gives the cell of the table
  that the successful operations specify.
\<close>

theorem block_refines_table:
  assumes "\<not> mReadOnly B" and "420 \<le> unat (mSize B)" and "unat (mSize B) + 4 \<le> 2 ^ 32" and "0 < n" "n \<le> 32767"
    and "securec_contract sec" and "list_all op_fits xs"
  shows "\<exists>B1 B2 es B3 T. Clear B = Some (SHARED_BLOCK_OK, B1) \<and> SetColumnNum (of_nat n) B1 = Some (SHARED_BLOCK_OK, B2)
    \<and> block_run sec xs B2 = Some (es, B3) \<and> table_run n (zip xs es) [] = Some T
    \<and> GetRowNum B3 = Some (of_nat (length T))
    \<and> (\<forall>row column. unat row < length T \<and> unat column < n \<longrightarrow> ReadCell B3 row column = Some (T ! unat row ! unat column))"
proof -
  obtain B1 B2 where 1: "Clear B = Some (SHARED_BLOCK_OK, B1)" "SetColumnNum (of_nat n) B1 = Some (SHARED_BLOCK_OK, B2)"
    "holds_table B2 n []"
    using Clear_table [OF assms(1-5)] by blast
  obtain es B3 T where 2: "block_run sec xs B2 = Some (es, B3)" "table_run n (zip xs es) [] = Some T" "holds_table B3 n T"
    using block_run_table [OF 1(3) assms(6,7)] by blast
  with 1 show ?thesis using ReadCell_table [OF 2(3)] GetRowNum_table [OF 2(3)] by blast
qed

definition sample_block :: SharedBlock where
  "sample_block = \<lparr>mName = ''t'', mData = (\<lambda>_. 0), mSize = 460, mReadOnly = False\<rparr>"

definition sample_ops :: "block_op list" where
  "sample_ops = [bAllocRow, bPut 0 0 (CellLong 7), bPut 0 1 (CellString [72, 105, 0]), bPut 1 0 CellNull, bAllocRow]"

theorem block_refines_table_witness:
  "\<exists>B1 B2 es B3 T. Clear sample_block = Some (SHARED_BLOCK_OK, B1) \<and> SetColumnNum 2 B1 = Some (SHARED_BLOCK_OK, B2)
    \<and> block_run (\<lambda>d k. 0 < k \<and> k \<le> d) sample_ops B2 = Some (es, B3) \<and> table_run 2 (zip sample_ops es) [] = Some T
    \<and> GetRowNum B3 = Some (of_nat (length T))"
proof -
  have "list_all op_fits sample_ops" by (simp add: sample_ops_def)
  moreover have "securec_contract (\<lambda>d k. 0 < k \<and> k \<le> d)" by (simp add: securec_contract_def)
  ultimately show ?thesis
    using block_refines_table [of sample_block 2 "\<lambda>d k. 0 < k \<and> k \<le> d" sample_ops] by (fastforce simp: sample_block_def)
qed

text \<open>
  The bounds check of a string or blob adds its offset and its size in 32 bits.  For a block
  smaller than 4 GB, a pointer it hands out really covers the size exactly when that sum does not wrap
  around, which an untrusted block does not guarantee.
\<close>

theorem OffsetToPtr_bounds_iff:
  assumes "OffsetToPtr B offset bufferSize = Some p" and "unat (mSize B) < 2 ^ 32"
  shows "p + unat bufferSize \<le> unat (mSize B) \<longleftrightarrow> unat offset + unat bufferSize < 2 ^ 32"
proof -
  have p: "p = unat offset" and le: "unat (offset + bufferSize) \<le> unat (mSize B)"
    using assms(1) by (auto simp: OffsetToPtr_def word_le_nat_alt word_less_nat_alt unat_ucast_32_64 split: if_splits)
  have "unat (offset + bufferSize) = unat offset + unat bufferSize" if "unat offset + unat bufferSize < 2 ^ 32"
    using that by (intro unat_add_lem [THEN iffD1]) simp
  then show ?thesis using p le assms(2) by auto
qed

theorem OffsetToPtr_bounds_iff_witness:
  "OffsetToPtr sample_block 100 (- 50) = Some 100 \<and> \<not> 100 + unat (- 50 :: uint32) \<le> unat (mSize sample_block)"
proof -
  have 1: "OffsetToPtr sample_block 100 (- 50) = Some 100" by (simp add: OffsetToPtr_def sample_block_def)
  have "\<not> unat (100 :: uint32) + unat (- 50 :: uint32) < 2 ^ 32" by simp
  then show ?thesis using OffsetToPtr_bounds_iff [OF 1] 1 by (simp add: sample_block_def)
qed

end
