(* ===== verification/Fill_Block.thy ===== *)
theory Fill_Block
  imports Sqlite_Statement Block_Table
begin

text \<open>
  Filling a shared block from a stepped statement (share_block.cpp) and the serialiser that an extended
  SQLite calls for the same purpose (shared_block_serializer_info.cpp).  The outer \<open>None\<close> is an access
  outside the block or a loop that does not end.
\<close>

subsection \<open>One row\<close>

datatype FillOneRowResult = FILL_ONE_ROW_SUCESS | SHARED_BLOCK_IS_FULL | FILL_ONE_ROW_FAIL

definition fill_status :: "(block_status \<times> SharedBlock) option \<Rightarrow> (FillOneRowResult \<times> SharedBlock) option" where
  "fill_status r =
     (case r of
        None \<Rightarrow> None
      | Some (status, B) \<Rightarrow> Some (if status \<noteq> SHARED_BLOCK_OK then SHARED_BLOCK_IS_FULL else FILL_ONE_ROW_SUCESS, B))"

text \<open>The bytes copied from the text of a column: \<open>k\<close> bytes of the zero-terminated text; more than there
  are would be read outside it.\<close>

definition text_bytes :: "string \<Rightarrow> int \<Rightarrow> byte list option" where
  "text_bytes text k =
     (let bs = map of_char text @ [0] in if 0 \<le> k \<and> nat k \<le> length bs then Some (take (nat k) bs) else None)"

definition blob_bytes :: "byte list option \<Rightarrow> int \<Rightarrow> byte list option" where
  "blob_bytes blob k =
     (let bs = (case blob of None \<Rightarrow> [] | Some bs \<Rightarrow> bs) in if 0 \<le> k \<and> nat k \<le> length bs then Some (take (nat k) bs) else None)"

definition FillOneRowOfString :: "'s sqlite3_api \<Rightarrow> (nat \<Rightarrow> nat \<Rightarrow> bool) \<Rightarrow> ptr \<Rightarrow> int \<Rightarrow> int \<Rightarrow> 's \<Rightarrow> SharedBlock \<Rightarrow>
    (FillOneRowResult \<times> SharedBlock) option" where
  "FillOneRowOfString api sec st addedRows pos s B =
     (case sqlite3_column_text api st pos s of
        None \<Rightarrow> Some (SHARED_BLOCK_IS_FULL, B)
      | Some text \<Rightarrow> do {
          let sizeIncludingNull = sqlite3_column_bytes api st pos s + 1;
          bs \<leftarrow> text_bytes text sizeIncludingNull;
          fill_status (PutString sec (of_int addedRows) (of_int pos) bs B)
        })"

definition FillOneRowOfLong :: "'s sqlite3_api \<Rightarrow> ptr \<Rightarrow> int \<Rightarrow> int \<Rightarrow> 's \<Rightarrow> SharedBlock \<Rightarrow>
    (FillOneRowResult \<times> SharedBlock) option" where
  "FillOneRowOfLong api st addedRows pos s B =
     fill_status (PutLong (of_int addedRows) (of_int pos) (sqlite3_column_int64 api st pos s) B)"

definition FillOneRowOfFloat :: "'s sqlite3_api \<Rightarrow> ptr \<Rightarrow> int \<Rightarrow> int \<Rightarrow> 's \<Rightarrow> SharedBlock \<Rightarrow>
    (FillOneRowResult \<times> SharedBlock) option" where
  "FillOneRowOfFloat api st addedRows pos s B =
     fill_status (PutDouble (of_int addedRows) (of_int pos) (sqlite3_column_double api st pos s) B)"

definition FillOneRowOfBlob :: "'s sqlite3_api \<Rightarrow> (nat \<Rightarrow> nat \<Rightarrow> bool) \<Rightarrow> ptr \<Rightarrow> int \<Rightarrow> int \<Rightarrow> 's \<Rightarrow> SharedBlock \<Rightarrow>
    (FillOneRowResult \<times> SharedBlock) option" where
  "FillOneRowOfBlob api sec st addedRows pos s B = do {
     bs \<leftarrow> blob_bytes (sqlite3_column_blob api st pos s) (sqlite3_column_bytes api st pos s);
     fill_status (PutBlob sec (of_int addedRows) (of_int pos) bs B)
   }"

definition FillOneRowOfNull :: "int \<Rightarrow> int \<Rightarrow> SharedBlock \<Rightarrow> (FillOneRowResult \<times> SharedBlock) option" where
  "FillOneRowOfNull addedRows pos B = fill_status (PutNull (of_int addedRows) (of_int pos) B)"

definition FillOneColumn :: "'s sqlite3_api \<Rightarrow> (nat \<Rightarrow> nat \<Rightarrow> bool) \<Rightarrow> ptr \<Rightarrow> int \<Rightarrow> int \<Rightarrow> 's \<Rightarrow> SharedBlock \<Rightarrow>
    (FillOneRowResult \<times> SharedBlock) option" where
  "FillOneColumn api sec st addedRows i s B =
     (let type = sqlite3_column_type api st i s in
      if type = SQLITE_TEXT then FillOneRowOfString api sec st addedRows i s B
      else if type = SQLITE_INTEGER then FillOneRowOfLong api st addedRows i s B
      else if type = SQLITE_FLOAT then FillOneRowOfFloat api st addedRows i s B
      else if type = SQLITE_BLOB then FillOneRowOfBlob api sec st addedRows i s B
      else if type = SQLITE_NULL then FillOneRowOfNull addedRows i B
      else Some (FILL_ONE_ROW_FAIL, B))"

fun FillOneRow_loop :: "'s sqlite3_api \<Rightarrow> (nat \<Rightarrow> nat \<Rightarrow> bool) \<Rightarrow> ptr \<Rightarrow> int \<Rightarrow> nat list \<Rightarrow> FillOneRowResult \<Rightarrow> 's \<Rightarrow>
    SharedBlock \<Rightarrow> (FillOneRowResult \<times> SharedBlock) option" where
  "FillOneRow_loop api sec st addedRows [] result s B = Some (result, B)"
| "FillOneRow_loop api sec st addedRows (i # is) result s B =
     (case FillOneColumn api sec st addedRows (int i) s B of
        None \<Rightarrow> None
      | Some (result, B) \<Rightarrow>
          if result = FILL_ONE_ROW_FAIL \<or> result = SHARED_BLOCK_IS_FULL then Some (result, B)
          else FillOneRow_loop api sec st addedRows is result s B)"

definition FillOneRow :: "'s sqlite3_api \<Rightarrow> (nat \<Rightarrow> nat \<Rightarrow> bool) \<Rightarrow> ptr \<Rightarrow> int \<Rightarrow> int \<Rightarrow> 's \<Rightarrow> SharedBlock \<Rightarrow>
    (FillOneRowResult \<times> SharedBlock) option" where
  "FillOneRow api sec st columns addedRows s B = do {
     (status, B) \<leftarrow> AllocRow sec B;
     if status \<noteq> SHARED_BLOCK_OK then Some (SHARED_BLOCK_IS_FULL, B)
     else do {
       (result, B) \<leftarrow> FillOneRow_loop api sec st addedRows [0..<nat columns] FILL_ONE_ROW_SUCESS s B;
       if result \<noteq> FILL_ONE_ROW_SUCESS then do {
         (status, B) \<leftarrow> FreeLastRow B;
         Some (result, B)
       }
       else Some (result, B)
     }
   }"

subsection \<open>The whole block\<close>

record SharedBlockInfo =
  sharedBlock :: SharedBlock
  stmt :: ptr
  numColumns :: int
  startPos :: int
  addedRows :: int
  requiredPos :: int
  totalRows :: int
  isCountAllRows :: bool
  columnNum :: int
  isFull :: bool
  hasException :: bool

definition SharedBlockInfo_new :: "SharedBlock \<Rightarrow> ptr \<Rightarrow> SharedBlockInfo" where
  "SharedBlockInfo_new B st =
     \<lparr>sharedBlock = B, stmt = st, numColumns = 0, startPos = 0, addedRows = 0, requiredPos = 0, totalRows = 0,
      isCountAllRows = False, columnNum = 0, isFull = False, hasException = False\<rparr>"

definition FillRow_refill :: "'s sqlite3_api \<Rightarrow> (nat \<Rightarrow> nat \<Rightarrow> bool) \<Rightarrow> 's \<Rightarrow> SharedBlockInfo \<Rightarrow> (FillOneRowResult \<times> SharedBlockInfo) option" where
  "FillRow_refill api sec s info = do {
     (status, B) \<leftarrow> Clear (sharedBlock info);
     (status, B) \<leftarrow> SetColumnNum (of_int (columnNum info)) B;
     let info = info\<lparr>sharedBlock := B, startPos := startPos info + addedRows info, addedRows := 0\<rparr>;
     (result, B) \<leftarrow> FillOneRow api sec (stmt info) (columnNum info) (addedRows info) s (sharedBlock info);
     Some (result, info\<lparr>sharedBlock := B\<rparr>)
   }"

definition FillRow :: "'s sqlite3_api \<Rightarrow> (nat \<Rightarrow> nat \<Rightarrow> bool) \<Rightarrow> 's \<Rightarrow> SharedBlockInfo \<Rightarrow> SharedBlockInfo option" where
  "FillRow api sec s info = do {
     (result, B) \<leftarrow> FillOneRow api sec (stmt info) (columnNum info) (addedRows info) s (sharedBlock info);
     let info = info\<lparr>sharedBlock := B\<rparr>;
     (result, info) \<leftarrow>
       (if result = SHARED_BLOCK_IS_FULL \<and> addedRows info \<noteq> 0 \<and> startPos info + addedRows info \<le> requiredPos info
        then FillRow_refill api sec s info
        else Some (result, info));
     Some (if result = FILL_ONE_ROW_SUCESS then info\<lparr>addedRows := addedRows info + 1\<rparr>
           else if result = SHARED_BLOCK_IS_FULL then info\<lparr>isFull := True\<rparr>
           else info\<lparr>hasException := True\<rparr>)
   }"

abbreviation (input) RETRY_TIME :: nat where "RETRY_TIME \<equiv> 50"

partial_function (option) FillSharedBlock_loop ::
    "'s sqlite3_api \<Rightarrow> (nat \<Rightarrow> nat \<Rightarrow> bool) \<Rightarrow> nat \<Rightarrow> bool \<Rightarrow> bool \<Rightarrow> SharedBlockInfo \<Rightarrow> 's \<Rightarrow> (SharedBlockInfo \<times> 's) option" where
  "FillSharedBlock_loop api sec retryCount full exn info s =
     (if exn \<or> (full \<and> \<not> isCountAllRows info) then Some (info, s)
      else
        let (err, s) = sqlite3_step api (stmt info) s in
        if err = SQLITE_ROW then
          let info = info\<lparr>totalRows := totalRows info + 1\<rparr> in
          if startPos info \<ge> totalRows info \<or> full then FillSharedBlock_loop api sec 0 full exn info s
          else
            Option.bind (FillRow api sec s info) (\<lambda>info.
              FillSharedBlock_loop api sec 0 (isFull info) (hasException info) info s)
        else if err = SQLITE_DONE then Some (info, s)
        else if err = SQLITE_LOCKED \<or> err = SQLITE_BUSY then
          if retryCount > RETRY_TIME then FillSharedBlock_loop api sec retryCount full True info s
          else FillSharedBlock_loop api sec (retryCount + 1) full exn info s
        else FillSharedBlock_loop api sec retryCount full True info s)"

definition FillSharedBlock :: "'s sqlite3_api \<Rightarrow> (nat \<Rightarrow> nat \<Rightarrow> bool) \<Rightarrow> SharedBlockInfo \<Rightarrow> 's \<Rightarrow> (SharedBlockInfo \<times> 's) option" where
  "FillSharedBlock api sec info s =
     FillSharedBlock_loop api sec 0 False False (info\<lparr>totalRows := 0, addedRows := 0\<rparr>) s"

definition ResetStatement :: "'s sqlite3_api \<Rightarrow> SharedBlockInfo \<Rightarrow> 's \<Rightarrow> bool \<times> 's" where
  "ResetStatement api info s =
     (let (_, s) = sqlite3_reset api (stmt info) s
      in (\<not> (totalRows info > 0 \<and> addedRows info = 0), s))"

unbundle bit_operations_syntax

definition GetCombinedData :: "int \<Rightarrow> int \<Rightarrow> int64" where
  "GetCombinedData start tot =
     (let high = ucast (of_int start :: 32 word) :: 64 word;
          low = ucast (of_int tot :: 32 word) :: 64 word
      in push_bit 32 high OR low)"

subsection \<open>The serialiser\<close>

record SharedBlockSerializerInfo =
  serBlock :: SharedBlock
  anumColumns :: int
  atotalRows :: int
  astartPos :: int
  raddedRows :: int
  risFull :: bool

abbreviation (input) SQLITE_ERROR :: int where "SQLITE_ERROR \<equiv> 1"
abbreviation (input) SQLITE_FULL :: int where "SQLITE_FULL \<equiv> 13"

definition SharedBlockSerializerInfo_new :: "SharedBlock \<Rightarrow> int \<Rightarrow> int \<Rightarrow> SharedBlockSerializerInfo" where
  "SharedBlockSerializerInfo_new B columns start =
     \<lparr>serBlock = B, anumColumns = columns, atotalRows = 0, astartPos = start, raddedRows = 0, risFull = False\<rparr>"

definition Seri_AddRow :: "(nat \<Rightarrow> nat \<Rightarrow> bool) \<Rightarrow> int \<Rightarrow> SharedBlockSerializerInfo \<Rightarrow> (int \<times> SharedBlockSerializerInfo) option" where
  "Seri_AddRow sec added z = do {
     (status, B) \<leftarrow> AllocRow sec (serBlock z);
     let z = z\<lparr>serBlock := B\<rparr>;
     if status \<noteq> SHARED_BLOCK_OK then Some (SQLITE_FULL, z\<lparr>risFull := True\<rparr>)
     else Some (SQLITE_OK, z\<lparr>raddedRows := added + 1\<rparr>)
   }"

definition Seri_Reset :: "int \<Rightarrow> SharedBlockSerializerInfo \<Rightarrow> (int \<times> SharedBlockSerializerInfo) option" where
  "Seri_Reset start z = do {
     (status, B) \<leftarrow> Clear (serBlock z);
     let z = z\<lparr>serBlock := B\<rparr>;
     if status \<noteq> SHARED_BLOCK_OK then Some (SQLITE_ERROR, z)
     else do {
       (status, B) \<leftarrow> SetColumnNum (of_int (anumColumns z)) B;
       let z = z\<lparr>serBlock := B\<rparr>;
       if status \<noteq> SHARED_BLOCK_OK then Some (SQLITE_ERROR, z)
       else Some (SQLITE_OK, z\<lparr>astartPos := start, raddedRows := 0, risFull := False\<rparr>)
     }
   }"

definition Seri_Finish :: "int \<Rightarrow> int \<Rightarrow> SharedBlockSerializerInfo \<Rightarrow> int \<times> SharedBlockSerializerInfo" where
  "Seri_Finish added tot z = (SQLITE_OK, z\<lparr>raddedRows := added, atotalRows := tot\<rparr>)"

text \<open>What the putting methods share: on a failure the row is taken back and the block is full.\<close>

definition seri_put :: "(SharedBlock \<Rightarrow> (block_status \<times> SharedBlock) option) \<Rightarrow> SharedBlockSerializerInfo \<Rightarrow>
    (int \<times> SharedBlockSerializerInfo) option" where
  "seri_put put z = do {
     (status, B) \<leftarrow> put (serBlock z);
     if status \<noteq> SHARED_BLOCK_OK then do {
       (_, B) \<leftarrow> FreeLastRow B;
       Some (SQLITE_FULL, z\<lparr>serBlock := B, risFull := True\<rparr>)
     }
     else Some (SQLITE_OK, z\<lparr>serBlock := B\<rparr>)
   }"

definition Seri_PutString :: "(nat \<Rightarrow> nat \<Rightarrow> bool) \<Rightarrow> int \<Rightarrow> int \<Rightarrow> byte list \<Rightarrow> SharedBlockSerializerInfo \<Rightarrow>
    (int \<times> SharedBlockSerializerInfo) option" where
  "Seri_PutString sec row column text = seri_put (PutString sec (of_int row) (of_int column) text)"

definition Seri_PutLong :: "int \<Rightarrow> int \<Rightarrow> int64 \<Rightarrow> SharedBlockSerializerInfo \<Rightarrow> (int \<times> SharedBlockSerializerInfo) option" where
  "Seri_PutLong row column value = seri_put (PutLong (of_int row) (of_int column) value)"

definition Seri_PutDouble :: "int \<Rightarrow> int \<Rightarrow> 64 word \<Rightarrow> SharedBlockSerializerInfo \<Rightarrow> (int \<times> SharedBlockSerializerInfo) option" where
  "Seri_PutDouble row column value = seri_put (PutDouble (of_int row) (of_int column) value)"

definition Seri_PutBlob :: "(nat \<Rightarrow> nat \<Rightarrow> bool) \<Rightarrow> int \<Rightarrow> int \<Rightarrow> byte list \<Rightarrow> SharedBlockSerializerInfo \<Rightarrow>
    (int \<times> SharedBlockSerializerInfo) option" where
  "Seri_PutBlob sec row column blob = seri_put (PutBlob sec (of_int row) (of_int column) blob)"

definition Seri_PutNull :: "int \<Rightarrow> int \<Rightarrow> SharedBlockSerializerInfo \<Rightarrow> (int \<times> SharedBlockSerializerInfo) option" where
  "Seri_PutNull row column = seri_put (PutNull (of_int row) (of_int column))"

definition Seri_PutOther :: "SharedBlockSerializerInfo \<Rightarrow> (int \<times> SharedBlockSerializerInfo) option" where
  "Seri_PutOther z = do {
     (_, B) \<leftarrow> FreeLastRow (serBlock z);
     Some (SQLITE_ERROR, z\<lparr>serBlock := B\<rparr>)
   }"

subsection \<open>Filling through the serialiser\<close>

text \<open>The extension of SQLite that fills a block by itself, calling the serialiser while it steps, belongs
  to another repository: setting the methods, clearing them and one step are parameters.\<close>

record 's shared_ext =
  use_shared :: "ptr \<Rightarrow> 's \<Rightarrow> int \<times> 's"
  set_shared :: "ptr \<Rightarrow> 's \<Rightarrow> int \<times> 's"
  clear_shared :: "ptr \<Rightarrow> 's \<Rightarrow> int \<times> 's"
  step_shared :: "ptr \<Rightarrow> bool \<Rightarrow> int \<Rightarrow> int \<Rightarrow> SharedBlockSerializerInfo \<Rightarrow> 's \<Rightarrow> int \<times> SharedBlockSerializerInfo \<times> 's"

function FillSharedBlockOpt_loop :: "'s shared_ext \<Rightarrow> SharedBlockInfo \<Rightarrow> nat \<Rightarrow> SharedBlockSerializerInfo \<Rightarrow> 's \<Rightarrow>
    SharedBlockSerializerInfo \<times> 's" where
  "FillSharedBlockOpt_loop X info retryCount z s =
     (let (err, z, s) = step_shared X (stmt info) (isCountAllRows info) (startPos info) (requiredPos info) z s in
      if err = SQLITE_DONE then (z, s)
      else if err = SQLITE_LOCKED \<or> err = SQLITE_BUSY then
        if retryCount > RETRY_TIME then (z, s)
        else FillSharedBlockOpt_loop X info (retryCount + 1) z s
      else (z, s))"
  by pat_completeness auto
termination
  by (relation "measure (\<lambda>(X, info, retryCount, z, s). 51 - retryCount)") auto

declare FillSharedBlockOpt_loop.simps [simp del]

definition FillSharedBlockOpt :: "'s shared_ext \<Rightarrow> ptr \<Rightarrow> SharedBlockInfo \<Rightarrow> 's \<Rightarrow> SharedBlockInfo \<times> 's" where
  "FillSharedBlockOpt X db info s =
     (let z = SharedBlockSerializerInfo_new (sharedBlock info) (numColumns info) (startPos info);
          (rc, s) = set_shared X db s
      in if rc \<noteq> SQLITE_OK then (info, s)
         else
           let (z, s) = FillSharedBlockOpt_loop X info 0 z s;
               info = info\<lparr>sharedBlock := serBlock z, totalRows := atotalRows z, startPos := astartPos z, addedRows := raddedRows z\<rparr>;
               (rc, s) = clear_shared X db s
           in (info, s))"

subsection \<open>A statement that steps through rows\<close>

definition column_reads :: "'s sqlite3_api \<Rightarrow> ptr \<Rightarrow> int \<Rightarrow> 's \<Rightarrow> cell \<Rightarrow> bool" where
  "column_reads api st i s x \<longleftrightarrow>
     (case x of
        CellNull \<Rightarrow> sqlite3_column_type api st i s = SQLITE_NULL
      | CellLong v \<Rightarrow> sqlite3_column_type api st i s = SQLITE_INTEGER \<and> sqlite3_column_int64 api st i s = v
      | CellDouble v \<Rightarrow> sqlite3_column_type api st i s = SQLITE_FLOAT \<and> sqlite3_column_double api st i s = v
      | CellString bs \<Rightarrow> sqlite3_column_type api st i s = SQLITE_TEXT \<and>
          (\<exists>text. sqlite3_column_text api st i s = Some text \<and> sqlite3_column_bytes api st i s = int (length text)
            \<and> bs = map of_char text @ [0])
      | CellBlob bs \<Rightarrow> sqlite3_column_type api st i s = SQLITE_BLOB \<and> sqlite3_column_bytes api st i s = int (length bs)
          \<and> (sqlite3_column_blob api st i s = Some bs \<or> bs = [] \<and> sqlite3_column_blob api st i s = None))"

definition row_reads :: "'s sqlite3_api \<Rightarrow> ptr \<Rightarrow> nat \<Rightarrow> 's \<Rightarrow> cell list \<Rightarrow> bool" where
  "row_reads api st n s xs \<longleftrightarrow>
     length xs = n \<and> list_all cell_fits xs \<and> (\<forall>i < n. column_reads api st (int i) s (xs ! i))"

text \<open>Stepping the statement from \<open>s\<close> gives these rows and then reports that it is done.\<close>

inductive yields :: "'s sqlite3_api \<Rightarrow> ptr \<Rightarrow> nat \<Rightarrow> 's \<Rightarrow> cell list list \<Rightarrow> bool" for api st n where
  finished: "fst (sqlite3_step api st s) = SQLITE_DONE \<Longrightarrow> yields api st n s []"
| row: "sqlite3_step api st s = (SQLITE_ROW, s') \<Longrightarrow> row_reads api st n s' xs \<Longrightarrow> yields api st n s' rows \<Longrightarrow>
    yields api st n s (xs # rows)"

lemma FillOneColumn_put:
  assumes "column_reads api st (int i) s x"
  shows "FillOneColumn api sec st (int r) (int i) s B = fill_status (put_cell sec r i x B)"
  using assms
  by (cases x) (auto simp: column_reads_def FillOneColumn_def FillOneRowOfString_def FillOneRowOfLong_def FillOneRowOfFloat_def
      FillOneRowOfBlob_def FillOneRowOfNull_def put_cell_def text_bytes_def blob_bytes_def Let_def)

definition fill_result :: "bool \<Rightarrow> FillOneRowResult" where
  "fill_result ok = (if ok then FILL_ONE_ROW_SUCESS else SHARED_BLOCK_IS_FULL)"

lemma FillOneRow_loop_put:
  "(\<And>j. j < length xs \<Longrightarrow> column_reads api st (int (c + j)) s (xs ! j)) \<Longrightarrow>
   FillOneRow_loop api sec st (int r) [c..<c + length xs] FILL_ONE_ROW_SUCESS s B =
     map_option (\<lambda>(ok, B). (fill_result ok, B)) (shared.put_row sec r c xs B)"
proof (induction xs arbitrary: c B)
  case Nil
  then show ?case by (simp add: fill_result_def)
next
  case (Cons x xs)
  have x: "column_reads api st (int c) s x" using Cons.prems [of 0] by simp
  have tl: "column_reads api st (int (Suc c + j)) s (xs ! j)" if "j < length xs" for j
    using Cons.prems [of "Suc j"] that by simp
  have up: "[c..<c + length (x # xs)] = c # [Suc c..<Suc c + length xs]" by (simp add: upt_rec)
  show ?case
    using Cons.IH [OF tl] unfolding up FillOneRow_loop.simps FillOneColumn_put [OF x]
    by (auto simp: fill_status_def fill_result_def split: option.splits prod.splits)
qed

lemma FillOneRow_add:
  assumes "row_reads api st n s xs"
  shows "FillOneRow api sec st (int n) (int r) s B =
    map_option (\<lambda>(ok, B). (fill_result ok, B)) (shared.add_row sec r xs B)"
proof -
  have "FillOneRow_loop api sec st (int r) [0..<n] FILL_ONE_ROW_SUCESS s B' =
      map_option (\<lambda>(ok, B). (fill_result ok, B)) (shared.put_row sec r 0 xs B')" for B'
    using FillOneRow_loop_put [of xs api st 0 s sec r B'] assms by (simp add: row_reads_def)
  note loop = this
  show ?thesis
  proof (cases "AllocRow sec B")
    case (Some a)
    obtain e B1 where a: "a = (e, B1)" by (cases a)
    show ?thesis
    proof (cases "shared.put_row sec r 0 xs B1")
      case None
      then show ?thesis using Some a loop [of B1] by (simp add: FillOneRow_def shared.add_row_def fill_result_def)
    next
      case (Some p)
      obtain ok B2 where p: "p = (ok, B2)" by (cases p)
      show ?thesis
        using Some \<open>AllocRow sec B = Some a\<close> a p loop [of B1]
        by (cases ok; cases "FreeLastRow B2") (auto simp: FillOneRow_def shared.add_row_def fill_result_def)
    qed
  qed (simp add: FillOneRow_def shared.add_row_def)
qed

lemma FillOneRow_law:
  assumes "block_holds sec B n T" and "row_reads api st n s xs"
  shows "\<exists>ok B'. FillOneRow api sec st (int n) (int (length T)) s B = Some (fill_result ok, B')
    \<and> block_holds sec B' n (if ok then T @ [xs] else T)"
proof -
  obtain ok B' where "shared.add_row sec (length T) xs B = Some (ok, B')" "block_holds sec B' n (if ok then T @ [xs] else T)"
    using shared.add_row_law [OF assms(1), of xs] assms(2) unfolding row_reads_def by blast
  then show ?thesis using FillOneRow_add [OF assms(2), of sec "length T" B] by (intro exI [of _ ok] exI [of _ B']) simp
qed

lemma block_reset:
  assumes "block_holds sec B n T"
  shows "\<exists>B1 B2. Clear B = Some (SHARED_BLOCK_OK, B1) \<and> SetColumnNum (of_int (int n)) B1 = Some (SHARED_BLOCK_OK, B2)
    \<and> block_holds sec B2 n []"
proof -
  obtain gs ds where L: "layout B n gs ds" using assms by (auto simp: block_holds_def holds_table_def)
  show ?thesis
    using Clear_table [OF layoutD(1) [OF L] layout_size [OF L] layoutD(2) [OF L] layoutD(6,7) [OF L]] assms
    by (fastforce simp: block_holds_def)
qed

subsection \<open>The window of rows that a block receives\<close>

text \<open>After the rows \<open>rs\<close> have been stepped over, the block holds the rows from \<open>startPos\<close> on.\<close>

definition window :: "(nat \<Rightarrow> nat \<Rightarrow> bool) \<Rightarrow> nat \<Rightarrow> cell list list \<Rightarrow> SharedBlockInfo \<Rightarrow> bool" where
  "window sec n rs info \<longleftrightarrow>
     columnNum info = int n \<and> 0 \<le> startPos info \<and> 0 \<le> addedRows info \<and> \<not> hasException info
     \<and> nat (addedRows info) \<le> length rs - nat (startPos info)
     \<and> block_holds sec (sharedBlock info) n (take (nat (addedRows info)) (drop (nat (startPos info)) rs))
     \<and> (isFull info \<longrightarrow> addedRows info = 0 \<or> requiredPos info < startPos info + addedRows info)
     \<and> (\<not> isFull info \<longrightarrow> startPos info + addedRows info = int (length rs) \<or> int (length rs) \<le> startPos info \<and> addedRows info = 0)"

lemma FillRow_window:
  assumes w: "window sec n rs info" and nf: "\<not> isFull info" and pos: "startPos info \<le> int (length rs)"
    and row: "row_reads api (stmt info) n s xs"
  shows "\<exists>info'. FillRow api sec s info = Some info' \<and> window sec n (rs @ [xs]) info'
    \<and> stmt info' = stmt info \<and> totalRows info' = totalRows info \<and> isCountAllRows info' = isCountAllRows info
    \<and> requiredPos info' = requiredPos info \<and> startPos info \<le> startPos info'
    \<and> (startPos info' = startPos info \<or> startPos info' \<le> requiredPos info)"
proof -
  let ?p = "nat (startPos info)" and ?k = "nat (addedRows info)"
  let ?T = "take ?k (drop ?p rs)"
  from w nf pos have k: "?p + ?k = length rs" by (auto simp: window_def)
  then have T: "?T = drop ?p rs" "length ?T = ?k" by simp_all
  have h: "block_holds sec (sharedBlock info) n ?T" and c: "columnNum info = int n" and a: "addedRows info = int (length ?T)"
    and p0: "0 \<le> startPos info" using w T(2) by (auto simp: window_def)
  obtain ok B where f: "FillOneRow api sec (stmt info) (int n) (addedRows info) s (sharedBlock info) = Some (fill_result ok, B)"
    and hB: "block_holds sec B n (if ok then ?T @ [xs] else ?T)"
    using FillOneRow_law [OF h row] unfolding a [symmetric] by blast
  have ex: "\<not> hasException info" using w by (simp add: window_def)
  show ?thesis
  proof (cases ok)
    case True
    have "nat (addedRows info + 1) = Suc ?k" using a by simp
    moreover have "take (Suc ?k) (drop ?p (rs @ [xs])) = ?T @ [xs]" using k by simp
    ultimately have "window sec n (rs @ [xs]) (info\<lparr>sharedBlock := B, addedRows := addedRows info + 1\<rparr>)"
      using hB True c p0 ex nf k a by (auto simp: window_def)
    then show ?thesis using f c True by (auto simp: FillRow_def fill_result_def)
  next
    case False
    have keep: "take ?k (drop ?p (rs @ [xs])) = ?T" using k by simp
    show ?thesis
    proof (cases "addedRows info \<noteq> 0 \<and> startPos info + addedRows info \<le> requiredPos info")
      case again: True
      obtain B1 B2 where r: "Clear B = Some (SHARED_BLOCK_OK, B1)" "SetColumnNum (of_int (int n)) B1 = Some (SHARED_BLOCK_OK, B2)"
        "block_holds sec B2 n []"
        using block_reset hB by meson
      obtain ok' B3 where g: "FillOneRow api sec (stmt info) (int n) 0 s B2 = Some (fill_result ok', B3)"
        and h3: "block_holds sec B3 n (if ok' then [xs] else [])"
        using FillOneRow_law [OF r(3) row] unfolding append_Nil list.size(3) int_ops(1) by blast
      let ?i = "info\<lparr>sharedBlock := B3, startPos := startPos info + addedRows info, addedRows := (if ok' then 1 else 0), isFull := \<not> ok'\<rparr>"
      have q: "nat (startPos info + addedRows info) = length rs" "startPos info + addedRows info = int (length rs)"
        using k p0 a by linarith+
      have "window sec n (rs @ [xs]) ?i"
        using h3 c ex q by (cases ok') (auto simp: window_def)
      moreover have "FillRow api sec s info = Some ?i"
        using f c False again r g nf by (cases ok') (auto simp: FillRow_def FillRow_refill_def fill_result_def)
      ultimately show ?thesis using a again by (intro exI [of _ ?i]) auto
    next
      case stop: False
      then have "window sec n (rs @ [xs]) (info\<lparr>sharedBlock := B, isFull := True\<rparr>)"
        using hB False c p0 ex k keep a by (auto simp: window_def)
      then show ?thesis using f c False stop by (auto simp: FillRow_def fill_result_def)
    qed
  qed
qed

text \<open>Passing over a row that is not wanted: the block is full, or the row lies before the start.\<close>

lemma window_skip:
  assumes "window sec n rs info" and "isFull info \<or> int (length rs) < startPos info"
  shows "window sec n (rs @ [xs]) (info\<lparr>totalRows := t\<rparr>)"
proof -
  have "take (nat (addedRows info)) (drop (nat (startPos info)) (rs @ [xs])) = take (nat (addedRows info)) (drop (nat (startPos info)) rs)"
    using assms by (auto simp: window_def)
  then show ?thesis using assms by (auto simp: window_def)
qed

lemma window_total [simp]: "window sec n rs (info\<lparr>totalRows := t\<rparr>) = window sec n rs info"
  by (simp add: window_def)

definition filled :: "(nat \<Rightarrow> nat \<Rightarrow> bool) \<Rightarrow> nat \<Rightarrow> cell list list \<Rightarrow> SharedBlockInfo \<Rightarrow> bool" where
  "filled sec n rs info \<longleftrightarrow>
     window sec n rs info \<and> (isCountAllRows info \<or> \<not> isFull info \<longrightarrow> totalRows info = int (length rs))"

lemma window_extend: "window sec n rs info \<Longrightarrow> isFull info \<Longrightarrow> window sec n (rs @ us) info"
  by (auto simp: window_def)

lemma FillSharedBlock_loop_window:
  "yields api st n s rows \<Longrightarrow> stmt info = st \<Longrightarrow> window sec n rs info \<Longrightarrow> totalRows info = int (length rs) \<Longrightarrow>
   \<exists>info' s'. FillSharedBlock_loop api sec k (isFull info) (hasException info) info s = Some (info', s')
     \<and> filled sec n (rs @ rows) info' \<and> requiredPos info' = requiredPos info \<and> startPos info \<le> startPos info'
     \<and> (startPos info' = startPos info \<or> startPos info' \<le> requiredPos info) \<and> isCountAllRows info' = isCountAllRows info"
proof (induction arbitrary: info rs k rule: yields.induct)
  case (finished s)
  have ex: "\<not> hasException info" using finished.prems by (simp add: window_def)
  obtain s' where st: "sqlite3_step api st s = (SQLITE_DONE, s')" using finished.hyps by (cases "sqlite3_step api st s") auto
  have "FillSharedBlock_loop api sec k (isFull info) (hasException info) info s =
      Some (info, if isFull info \<and> \<not> isCountAllRows info then s else s')"
    by (subst FillSharedBlock_loop.simps) (simp add: ex st finished.prems)
  then show ?case using finished.prems by (auto simp: filled_def)
next
  case (row s s' xs rows)
  note w = row.prems(2) and t = row.prems(3)
  have ex: "\<not> hasException info" using w by (simp add: window_def)
  let ?i = "info\<lparr>totalRows := totalRows info + 1\<rparr>"
  show ?case
  proof (cases "isFull info \<and> \<not> isCountAllRows info")
    case True
    then have "FillSharedBlock_loop api sec k (isFull info) (hasException info) info s = Some (info, s)"
      by (subst FillSharedBlock_loop.simps) simp
    then show ?thesis using w t True window_extend [OF w] by (auto simp: filled_def)
  next
    case go: False
    show ?thesis
    proof (cases "startPos ?i \<ge> totalRows ?i \<or> isFull info")
      case True
      then have "window sec n (rs @ [xs]) ?i" using window_skip [OF w] t by auto
      moreover have "FillSharedBlock_loop api sec k (isFull info) (hasException info) info s
          = FillSharedBlock_loop api sec 0 (isFull ?i) (hasException ?i) ?i s'"
        using go ex row.hyps(1) row.prems(1) True
        by (subst FillSharedBlock_loop.simps) (simp, blast)
      ultimately show ?thesis using row.IH [of ?i "rs @ [xs]" 0] row.prems t by simp
    next
      case False
      have "window sec n rs ?i" "\<not> isFull ?i" "startPos ?i \<le> int (length rs)" "row_reads api (stmt ?i) n s' xs"
        using w False t row.hyps(2) row.prems(1) by auto
      from FillRow_window [OF this] obtain info1 where f: "FillRow api sec s' ?i = Some info1"
        "window sec n (rs @ [xs]) info1" "stmt info1 = stmt ?i" "totalRows info1 = totalRows ?i"
        "isCountAllRows info1 = isCountAllRows ?i" "requiredPos info1 = requiredPos ?i" "startPos ?i \<le> startPos info1"
        "startPos info1 = startPos ?i \<or> startPos info1 \<le> requiredPos ?i" by blast
      have "FillSharedBlock_loop api sec k (isFull info) (hasException info) info s
          = FillSharedBlock_loop api sec 0 (isFull info1) (hasException info1) info1 s'"
        using ex row.hyps(1) row.prems(1) False f(1)
        by (subst FillSharedBlock_loop.simps) simp
      then show ?thesis using row.IH [of info1 "rs @ [xs]" 0] f row.prems t by auto
    qed
  qed
qed

text \<open>
  Filling a cleared block from a statement that steps through rows returns.  The block
  then holds, in order and cell by cell, consecutive rows of the result beginning at the reported start;
  when all rows are counted the total is their number; and the required row is among the rows held,
  unless the rows end before it or a single row is larger than the whole block.
\<close>

lemma fill_holds_required_row:
  assumes "yields api (stmt info) n s rows" and "securec_contract sec" and "holds_table (sharedBlock info) n []"
    and "columnNum info = int n" and "0 \<le> startPos info" "startPos info \<le> requiredPos info"
    and "\<not> isFull info" "\<not> hasException info"
  shows "\<exists>info' s'. FillSharedBlock api sec info s = Some (info', s')
    \<and> holds_table (sharedBlock info') n (take (nat (addedRows info')) (drop (nat (startPos info')) rows))
    \<and> (isCountAllRows info \<longrightarrow> totalRows info' = int (length rows))
    \<and> startPos info \<le> startPos info' \<and> startPos info' \<le> requiredPos info
    \<and> (requiredPos info < startPos info' + addedRows info' \<or> int (length rows) \<le> requiredPos info \<or> addedRows info' = 0 \<and> isFull info')"
proof -
  let ?i = "info\<lparr>totalRows := 0, addedRows := 0\<rparr>"
  have "window sec n [] ?i" using assms by (simp add: window_def block_holds_def)
  from FillSharedBlock_loop_window [OF assms(1) _ this, of 0] assms(6-8)
  obtain info' s' where f: "FillSharedBlock api sec info s = Some (info', s')" "filled sec n rows info'"
    "requiredPos info' = requiredPos info" "startPos info \<le> startPos info'" "startPos info' \<le> requiredPos info"
    "isCountAllRows info' = isCountAllRows info"
    by (fastforce simp: FillSharedBlock_def)
  have "requiredPos info < startPos info' + addedRows info' \<or> int (length rows) \<le> requiredPos info \<or> addedRows info' = 0 \<and> isFull info'"
    using f by (auto simp: filled_def window_def)
  then show ?thesis using f by (auto simp: filled_def window_def block_holds_def)
qed

subsection \<open>A table as a statement\<close>

text \<open>A small instance of the SQLite interface that steps through the rows of a given table; its state is
  the number of rows it has returned.\<close>

definition column_of_row :: "cell list list \<Rightarrow> int \<Rightarrow> nat \<Rightarrow> cell" where
  "column_of_row rows i s =
     (if 0 < s \<and> s \<le> length rows \<and> 0 \<le> i \<and> nat i < length (rows ! (s - 1)) then rows ! (s - 1) ! nat i else CellNull)"

definition cell_type :: "cell \<Rightarrow> int" where
  "cell_type x = (case x of CellNull \<Rightarrow> SQLITE_NULL | CellLong _ \<Rightarrow> SQLITE_INTEGER | CellDouble _ \<Rightarrow> SQLITE_FLOAT
     | CellString _ \<Rightarrow> SQLITE_TEXT | CellBlob _ \<Rightarrow> SQLITE_BLOB)"

definition table_api :: "cell list list \<Rightarrow> nat sqlite3_api" where
  "table_api rows =
     \<lparr>sqlite3_open_v2 = (\<lambda>_ _ s. (0, Some 0, s)), sqlite3_close = (\<lambda>_ s. (0, s)), sqlite3_key = (\<lambda>_ _ s. (0, s)),
      sqlite3_rekey = (\<lambda>_ _ s. (0, s)), sqlite3_file_control = (\<lambda>_ s. (0, s)), sqlite3_busy_timeout = (\<lambda>_ _ s. (0, s)),
      sqlite3_prepare_v2 = (\<lambda>_ _ s. (0, Some 0, 0)), sqlite3_finalize = (\<lambda>_ s. (0, s)), sqlite3_reset = (\<lambda>_ s. (0, 0)),
      sqlite3_clear_bindings = (\<lambda>_ s. (0, s)), sqlite3_bind = (\<lambda>_ _ _ s. (0, s)),
      sqlite3_step = (\<lambda>_ s. if s < length rows then (100, Suc s) else (101, s)),
      sqlite3_stmt_readonly = (\<lambda>_ _. 1), sqlite3_column_count = (\<lambda>_ _. case rows of [] \<Rightarrow> 0 | r # _ \<Rightarrow> int (length r)),
      sqlite3_bind_parameter_count = (\<lambda>_ _. 0), sqlite3_column_name = (\<lambda>_ i _. Some (CHR ''c'' # to_string i)),
      sqlite3_column_type = (\<lambda>_ i s. cell_type (column_of_row rows i s)),
      sqlite3_column_int64 = (\<lambda>_ i s. case column_of_row rows i s of CellLong v \<Rightarrow> v | _ \<Rightarrow> 0),
      sqlite3_column_double = (\<lambda>_ i s. case column_of_row rows i s of CellDouble v \<Rightarrow> v | _ \<Rightarrow> 0),
      sqlite3_column_text = (\<lambda>_ i s. case column_of_row rows i s of CellString bs \<Rightarrow> Some (map (\<lambda>b. char_of (unat b)) (butlast bs)) | _ \<Rightarrow> None),
      sqlite3_column_bytes = (\<lambda>_ i s. case column_of_row rows i s of CellString bs \<Rightarrow> int (length bs) - 1 | CellBlob bs \<Rightarrow> int (length bs) | _ \<Rightarrow> 0),
      sqlite3_column_blob = (\<lambda>_ i s. case column_of_row rows i s of CellBlob bs \<Rightarrow> Some bs | _ \<Rightarrow> None),
      sqlite3_changes = (\<lambda>_ _. 0), sqlite3_last_insert_rowid = (\<lambda>_ _. 0)\<rparr>"

definition no_text :: "cell \<Rightarrow> bool" where
  "no_text x = (case x of CellString _ \<Rightarrow> False | _ \<Rightarrow> True)"

lemma table_api_reads:
  assumes "0 < s" "s \<le> length rows" and "length (rows ! (s - 1)) = n" and "list_all cell_fits (rows ! (s - 1))"
    and "list_all no_text (rows ! (s - 1))"
  shows "row_reads (table_api rows) st n s (rows ! (s - 1))"
proof -
  have "column_reads (table_api rows) st (int i) s (rows ! (s - 1) ! i)" if "i < n" for i
  proof -
    have "column_of_row rows (int i) s = rows ! (s - 1) ! i" using assms that by (simp add: column_of_row_def)
    moreover have "no_text (rows ! (s - 1) ! i)" using assms(3,5) that by (simp add: list_all_length)
    ultimately show ?thesis
      by (cases "rows ! (s - 1) ! i") (simp_all add: column_reads_def table_api_def cell_type_def no_text_def)
  qed
  then show ?thesis using assms by (simp add: row_reads_def)
qed

lemma table_api_yields:
  assumes "\<And>r. r \<in> set rows \<Longrightarrow> length r = n \<and> list_all cell_fits r \<and> list_all no_text r"
  shows "s \<le> length rows \<Longrightarrow> yields (table_api rows) st n s (drop s rows)"
proof (induction "length rows - s" arbitrary: s)
  case 0
  then show ?case by (intro yields.finished [of "table_api rows" st s n, THEN back_subst [where P = "yields _ _ _ _"]])
      (simp_all add: table_api_def)
next
  case (Suc k)
  then have s: "s < length rows" by simp
  have "sqlite3_step (table_api rows) st s = (SQLITE_ROW, Suc s)" using s by (simp add: table_api_def)
  moreover have "row_reads (table_api rows) st n (Suc s) (rows ! s)"
    using table_api_reads [of "Suc s" rows n st] assms [of "rows ! s"] s by simp
  moreover have "yields (table_api rows) st n (Suc s) (drop (Suc s) rows)" using Suc s by simp
  ultimately have "yields (table_api rows) st n s (rows ! s # drop (Suc s) rows)" by (rule yields.row)
  then show ?case using s by (simp add: Cons_nth_drop_Suc)
qed

text \<open>
  The serialiser is made with the field \<open>numColumns\<close>, which nothing sets.  When the extended
  SQLite starts the block again in the middle of a result, the block has no columns any more, and no cell
  can be written into it.
\<close>

theorem serializer_reset_loses_columns:
  assumes "holds_table B n T" and "Seri_Reset start (SharedBlockSerializerInfo_new B (numColumns (SharedBlockInfo_new B st)) p) = Some (rc, z)"
  shows "rc = SQLITE_OK \<and> GetColumnNum (serBlock z) = Some 0
    \<and> PutLong row column v (serBlock z) = Some (SHARED_BLOCK_BAD_VALUE, serBlock z)"
proof -
  obtain gs ds where L: "layout B n gs ds" using assms by (auto simp: holds_table_def)
  note sz = layout_size [OF L] and ro = layoutD(1) [OF L]
  let ?m = "w32 12 0 (w32 416 0 (w32 12 0 (w32 8 0 (w32 4 16 (w32 0 420 (mData B))))))"
  have "Clear B = Some (SHARED_BLOCK_OK, B\<lparr>mData := w32 416 0 (w32 12 0 (w32 8 0 (w32 4 16 (w32 0 420 (mData B)))))\<rparr>)"
    using ro sz OffsetToPtr_in [of 16] by (simp add: Clear_def st32_in ld32_in r32_other)
  then have z: "rc = SQLITE_OK" "serBlock z = B\<lparr>mData := ?m\<rparr>"
    using assms(2) ro sz
    by (auto simp: Seri_Reset_def SharedBlockSerializerInfo_new_def SharedBlockInfo_new_def SetColumnNum_def ld32_in st32_in r32_other)
  then show ?thesis using sz ro by (simp add: GetColumnNum_def PutLong_def GetCellUnit_def ld32_in r32_other)
qed

theorem serializer_reset_loses_columns_witness:
  "\<exists>B z. Seri_Reset 0 (SharedBlockSerializerInfo_new B (numColumns (SharedBlockInfo_new B None)) 0) = Some (SQLITE_OK, z)
    \<and> GetColumnNum (serBlock z) = Some 0"
proof -
  obtain B where B: "holds_table B 1 []" using Clear_table [of sample_block 1] by (auto simp: sample_block_def)
  then obtain gs ds where L: "layout B 1 gs ds" by (auto simp: holds_table_def)
  have "\<exists>rc z. Seri_Reset 0 (SharedBlockSerializerInfo_new B (numColumns (SharedBlockInfo_new B None)) 0) = Some (rc, z)"
    using layoutD(1) [OF L] layout_size [OF L] OffsetToPtr_in [of 16]
    by (simp add: Seri_Reset_def SharedBlockSerializerInfo_new_def SharedBlockInfo_new_def SetColumnNum_def Clear_def
        ld32_in st32_in r32_other)
  then show ?thesis using serializer_reset_loses_columns [OF B] by blast
qed

lemma GetCombinedData_low: "ucast (GetCombinedData start tot) = (of_int tot :: 32 word)"
  unfolding GetCombinedData_def Let_def
  by (rule bit_word_eqI) (auto simp: bit_simps)

end
