(* ===== verification/Abs_Result_Set.thy ===== *)
theory Abs_Result_Set
  imports Errno "HOL-Library.Monad_Syntax"
begin

text \<open>
  What every result set does with its own positioning (abs_result_set.cpp).  The methods call the
  virtual methods of the concrete class, so they are written over a record of those; \<open>None\<close> is a call
  that does not return: it waits for ever, loops for ever or is undefined.  The locale \<open>row_cursor\<close>
  states what a concrete class promises about moving and counting, and what follows for the methods
  here; the step result set and the shared result sets are its interpretations.
\<close>

subsection \<open>The methods\<close>

abbreviation (input) INIT_POS :: int where "INIT_POS \<equiv> - 1"

record ('e, 'r) result_set_ops =
  vRowPos :: "'r \<Rightarrow> int"
  vGoToRow :: "int \<Rightarrow> 'r \<Rightarrow> ('e \<times> 'r) option"
  vGetRowCount :: "'r \<Rightarrow> (('e + int) \<times> 'r) option"
  vGetAllColumnNames :: "'r \<Rightarrow> (('e + string list) \<times> 'r) option"

definition GetRowIndex :: "('e, 'r) result_set_ops \<Rightarrow> 'r \<Rightarrow> int" where
  "GetRowIndex V r = vRowPos V r"

definition GoTo :: "('e, 'r) result_set_ops \<Rightarrow> int \<Rightarrow> 'r \<Rightarrow> ('e \<times> 'r) option" where
  "GoTo V off r = vGoToRow V (vRowPos V r + off) r"

definition GoToFirstRow :: "('e, 'r) result_set_ops \<Rightarrow> 'r \<Rightarrow> ('e \<times> 'r) option" where
  "GoToFirstRow V r = vGoToRow V 0 r"

definition GoToLastRow :: "('e, 'r) result_set_ops \<Rightarrow> 'r \<Rightarrow> ('e \<times> 'r) option" where
  "GoToLastRow V r = do {
     (res, r) \<leftarrow> vGetRowCount V r;
     case res of Inl ret \<Rightarrow> Some (ret, r) | Inr rowCnt \<Rightarrow> vGoToRow V (rowCnt - 1) r
   }"

definition GoToNextRow :: "('e, 'r) result_set_ops \<Rightarrow> 'r \<Rightarrow> ('e \<times> 'r) option" where
  "GoToNextRow V r = vGoToRow V (vRowPos V r + 1) r"

definition GoToPreviousRow :: "('e, 'r) result_set_ops \<Rightarrow> 'r \<Rightarrow> ('e \<times> 'r) option" where
  "GoToPreviousRow V r = vGoToRow V (vRowPos V r - 1) r"

definition IsAtFirstRow :: "('e, 'r) result_set_ops \<Rightarrow> 'r \<Rightarrow> bool" where
  "IsAtFirstRow V r = (vRowPos V r = 0)"

definition IsAtLastRow :: "('e, 'r) result_set_ops \<Rightarrow> 'r \<Rightarrow> (('e + bool) \<times> 'r) option" where
  "IsAtLastRow V r = do {
     (res, r) \<leftarrow> vGetRowCount V r;
     case res of Inl ret \<Rightarrow> Some (Inl ret, r) | Inr rowCnt \<Rightarrow> Some (Inr (vRowPos V r = rowCnt - 1), r)
   }"

definition IsStarted :: "('e, 'r) result_set_ops \<Rightarrow> 'r \<Rightarrow> bool" where
  "IsStarted V r = (vRowPos V r \<noteq> INIT_POS)"

definition IsEnded :: "('e, 'r) result_set_ops \<Rightarrow> 'r \<Rightarrow> (('e + bool) \<times> 'r) option" where
  "IsEnded V r = do {
     (res, r) \<leftarrow> vGetRowCount V r;
     case res of Inl ret \<Rightarrow> Some (Inl ret, r)
     | Inr rowCnt \<Rightarrow> Some (Inr (if rowCnt = 0 then True else vRowPos V r = rowCnt), r)
   }"

definition Rs_GetColumnCount :: "('e, 'r) result_set_ops \<Rightarrow> 'r \<Rightarrow> (('e + int) \<times> 'r) option" where
  "Rs_GetColumnCount V r = do {
     (res, r) \<leftarrow> vGetAllColumnNames V r;
     case res of Inl ret \<Rightarrow> Some (Inl ret, r) | Inr columnNames \<Rightarrow> Some (Inr (int (length columnNames)), r)
   }"

text \<open>The name looked for loses everything up to its last dot and is compared without case.\<close>

fun find_column :: "string \<Rightarrow> string list \<Rightarrow> int \<Rightarrow> int option" where
  "find_column lower [] columnIndex = None"
| "find_column lower (name # names) columnIndex =
     (if map tolower name = lower then Some columnIndex else find_column lower names (columnIndex + 1))"

definition column_key :: "string \<Rightarrow> string" where
  "column_key columnName =
     map tolower (case find_last_of CHR ''.'' columnName of None \<Rightarrow> columnName | Some periodIndex \<Rightarrow> drop (periodIndex + 1) columnName)"

definition GetColumnIndex :: "'e \<Rightarrow> ('e, 'r) result_set_ops \<Rightarrow> string \<Rightarrow> 'r \<Rightarrow> (('e + int) \<times> 'r) option" where
  "GetColumnIndex e_error V columnName r = do {
     (res, r) \<leftarrow> vGetAllColumnNames V r;
     case res of Inl ret \<Rightarrow> Some (Inl ret, r)
     | Inr columnNames \<Rightarrow>
         Some (case find_column (column_key columnName) columnNames 0 of None \<Rightarrow> Inl e_error | Some i \<Rightarrow> Inr i, r)
   }"

text \<open>The names are asked for a second time; an index outside the second answer is undefined.\<close>

definition Rs_GetColumnName :: "'e \<Rightarrow> ('e, 'r) result_set_ops \<Rightarrow> int \<Rightarrow> 'r \<Rightarrow> (('e + string) \<times> 'r) option" where
  "Rs_GetColumnName e_invalid V columnIndex r = do {
     (res, r) \<leftarrow> Rs_GetColumnCount V r;
     case res of Inl ret \<Rightarrow> Some (Inl ret, r)
     | Inr rowCnt \<Rightarrow>
         if columnIndex \<ge> rowCnt \<or> columnIndex < 0 then Some (Inl e_invalid, r)
         else do {
           (res, r) \<leftarrow> vGetAllColumnNames V r;
           let columnNames = (case res of Inl _ \<Rightarrow> [] | Inr names \<Rightarrow> names);
           if nat columnIndex < length columnNames then Some (Inr (columnNames ! nat columnIndex), r) else None
         }
   }"

subsection \<open>A cursor over \<open>n\<close> rows\<close>

text \<open>The specification: a position from \<open>- 1\<close>, before the first row.  A call aims at a row; a row that
  exists is reached, otherwise the call fails and the position is \<open>- 1\<close>, or \<open>hi\<close> when the aim was too far.\<close>

datatype cursor_call = cGoToRow int | cGoTo int | cFirst | cLast | cNext | cPrevious

fun aim :: "nat \<Rightarrow> int \<Rightarrow> cursor_call \<Rightarrow> int" where
  "aim n pos (cGoToRow p) = p"
| "aim n pos (cGoTo k) = pos + k"
| "aim n pos cFirst = 0"
| "aim n pos cLast = int n - 1"
| "aim n pos cNext = pos + 1"
| "aim n pos cPrevious = pos - 1"

definition move :: "nat \<Rightarrow> int \<Rightarrow> int \<Rightarrow> bool \<times> int" where
  "move n hi p = (if p < 0 then (False, - 1) else if p < int n then (True, p) else (False, hi))"

fun moves :: "nat \<Rightarrow> int \<Rightarrow> cursor_call list \<Rightarrow> int \<Rightarrow> bool list \<times> int" where
  "moves n hi [] pos = ([], pos)"
| "moves n hi (c # cs) pos =
     (let (b, pos) = move n hi (aim n pos c); (bs, pos) = moves n hi cs pos in (b # bs, pos))"

text \<open>The calls on a result set; a class may have its own method for the next row.\<close>

fun run_call :: "('e, 'r) result_set_ops \<Rightarrow> ('r \<Rightarrow> ('e \<times> 'r) option) \<Rightarrow> cursor_call \<Rightarrow> 'r \<Rightarrow> ('e \<times> 'r) option" where
  "run_call V nextRow (cGoToRow p) r = vGoToRow V p r"
| "run_call V nextRow (cGoTo k) r = GoTo V k r"
| "run_call V nextRow cFirst r = GoToFirstRow V r"
| "run_call V nextRow cLast r = GoToLastRow V r"
| "run_call V nextRow cNext r = nextRow r"
| "run_call V nextRow cPrevious r = GoToPreviousRow V r"

fun run_calls :: "('e, 'r) result_set_ops \<Rightarrow> ('r \<Rightarrow> ('e \<times> 'r) option) \<Rightarrow> cursor_call list \<Rightarrow> 'r \<Rightarrow> ('e list \<times> 'r) option" where
  "run_calls V nextRow [] r = Some ([], r)"
| "run_calls V nextRow (c # cs) r = do {
     (e, r) \<leftarrow> run_call V nextRow c r;
     (es, r) \<leftarrow> run_calls V nextRow cs r;
     Some (e # es, r)
   }"

subsection \<open>What a concrete class promises\<close>

locale row_cursor =
  fixes V :: "('e, 'r) result_set_ops" and ok :: 'e and inv :: "'r \<Rightarrow> bool" and n :: nat and hi :: int
  assumes go: "inv r \<Longrightarrow> \<exists>e r'. vGoToRow V p r = Some (e, r') \<and> inv r' \<and> (e = ok, vRowPos V r') = move n hi p"
    and count: "inv r \<Longrightarrow> \<exists>r'. vGetRowCount V r = Some (Inr (int n), r') \<and> inv r' \<and> vRowPos V r' = vRowPos V r"
begin

lemma at_last: "inv r \<Longrightarrow> \<exists>r'. IsAtLastRow V r = Some (Inr (vRowPos V r = int n - 1), r') \<and> inv r' \<and> vRowPos V r' = vRowPos V r"
  using count [of r] by (auto simp: IsAtLastRow_def)

lemma ended: "inv r \<Longrightarrow> \<exists>r'. IsEnded V r = Some (Inr (n = 0 \<or> vRowPos V r = int n), r') \<and> inv r' \<and> vRowPos V r' = vRowPos V r"
  using count [of r] by (auto simp: IsEnded_def)

lemma last_row: "inv r \<Longrightarrow> \<exists>e r'. GoToLastRow V r = Some (e, r') \<and> inv r' \<and> (e = ok, vRowPos V r') = move n hi (int n - 1)"
  using count [of r] go by (fastforce simp: GoToLastRow_def)

end

locale row_scanner = row_cursor +
  fixes nextRow :: "'b \<Rightarrow> ('a \<times> 'b) option"
  assumes next_row: "inv r \<Longrightarrow> \<exists>e r'. nextRow r = Some (e, r') \<and> inv r' \<and> (e = ok, vRowPos V r') = move n hi (vRowPos V r + 1)"
begin

lemma call: "inv r \<Longrightarrow> \<exists>e r'. run_call V nextRow c r = Some (e, r') \<and> inv r' \<and> (e = ok, vRowPos V r') = move n hi (aim n (vRowPos V r) c)"
  by (cases c) (simp_all add: go last_row next_row GoTo_def GoToFirstRow_def GoToPreviousRow_def)

text \<open>Every sequence of calls returns, succeeds exactly where the specification does, and leaves the
  position the specification gives.\<close>

lemma calls: "inv r \<Longrightarrow> \<exists>es r'. run_calls V nextRow cs r = Some (es, r') \<and> inv r'
    \<and> (map (\<lambda>e. e = ok) es, vRowPos V r') = moves n hi cs (vRowPos V r)"
proof (induction cs arbitrary: r)
  case (Cons c cs)
  obtain e r1 where "run_call V nextRow c r = Some (e, r1)" "inv r1" "(e = ok, vRowPos V r1) = move n hi (aim n (vRowPos V r) c)"
    using call [OF Cons.prems] by blast
  with Cons.IH [of r1] show ?case
    by (auto split: prod.splits)
qed simp

end

text \<open>The inherited method for the next row is one such method.\<close>

sublocale row_cursor \<subseteq> inherited: row_scanner V ok inv n hi "GoToNextRow V"
  by unfold_locales (simp add: GoToNextRow_def go)

text \<open>Going forward from the start finds every row once: the first \<open>n\<close> calls succeed, the next fails.\<close>

lemma scan_moves: "k \<le> n \<Longrightarrow> moves n hi (replicate k cNext) (- 1) = (replicate k True, int k - 1)"
proof (induction k)
  case (Suc k)
  have step: "moves n hi (cs @ [cNext]) p = (let (bs, q) = moves n hi cs p; (b, q) = move n hi (q + 1) in (bs @ [b], q))" for cs p
    by (induction cs arbitrary: p) (auto split: prod.splits)
  show ?case
    using Suc step [of "replicate k cNext" "- 1"] by (simp add: replicate_append_same move_def)
qed simp

end
