(* ===== verification/Step_Result_Set.thy ===== *)
theory Step_Result_Set
  imports Rdb_Store Fill_Block Abs_Result_Set
begin

text \<open>
  The result set that steps through a statement (step_result_set.cpp).  Its methods run on the store it
  belongs to and on the thread that calls them; \<open>sqliteStatement\<close> is the step statement of the
  connection at that address.  \<open>None\<close> is a call that does not return.  The last part shows that, for a
  query whose statement yields \<open>n\<close> rows, the result set is a cursor over \<open>n\<close> rows: the locale
  \<open>row_scanner\<close> is interpreted on it, through the store, the session, the pool and the connection.
\<close>

subsection \<open>The object\<close>

record StepResultSet =
  rowPos :: int
  isClosed :: bool
  rdb :: bool
  sql :: string
  selectionArgs :: "string list"
  isAfterLast :: bool
  rowCount :: int
  step_tid :: "nat option"
  sqliteStatement :: ptr

definition StepResultSet_new :: "string \<Rightarrow> string list \<Rightarrow> StepResultSet" where
  "StepResultSet_new q args =
     \<lparr>rowPos = INIT_POS, isClosed = False, rdb = True, sql = q, selectionArgs = args, isAfterLast = False,
      rowCount = INIT_POS, step_tid = None, sqliteStatement = None\<rparr>"

type_synonym 's rs = "StepResultSet \<times> 's store"

definition returned :: "'a run \<Rightarrow> 'a option" where
  "returned m = (case m of Ret v \<Rightarrow> Some v | Blocks \<Rightarrow> None | Crash \<Rightarrow> None)"

lemma returned_Ret [simp]: "returned (Ret v) = Some v"
  by (simp add: returned_def)

text \<open>The connection a thread's session holds, and the statement behind the shared pointer.  A deleted
  connection has finalised its step statement.\<close>

definition thread_connection :: "nat \<Rightarrow> 's store \<Rightarrow> ptr" where
  "thread_connection thr S =
     (case threadMap S thr of None \<Rightarrow> None | Some (sid, _) \<Rightarrow> connection (sessions S ! sid))"

definition stmt_at :: "ptr \<Rightarrow> 's store \<Rightarrow> SqliteStatement option" where
  "stmt_at p S =
     (case p of
        None \<Rightarrow> None
      | Some c \<Rightarrow> (case heap (pool S) c of None \<Rightarrow> Some SqliteStatement_new | Some conn \<Rightarrow> stepStatement conn))"

abbreviation set_lib :: "'s \<Rightarrow> 's store \<Rightarrow> 's store" where
  "set_lib s S \<equiv> S\<lparr>pool := (pool S)\<lparr>lib := s\<rparr>\<rparr>"

subsection \<open>Beginning and ending the query\<close>

definition CheckSession :: "nat \<Rightarrow> StepResultSet \<Rightarrow> rdb_errno" where
  "CheckSession thr r = (if Some thr \<noteq> step_tid r then E_STEP_RESULT_SET_CROSS_THREADS else E_OK)"

definition PrepareStep :: "'s env \<Rightarrow> nat \<Rightarrow> 's rs \<Rightarrow> (rdb_errno \<times> 's rs) option" where
  "PrepareStep E thr = (\<lambda>(r, S).
     if isClosed r then Some (E_STEP_RESULT_CLOSED, r, S)
     else if sqliteStatement r \<noteq> None then Some (CheckSession thr r, r, S)
     else if \<not> rdb r then None
     else do {
       (res, S) \<leftarrow> returned (Store_BeginStepQuery E thr (sql r) (selectionArgs r) S);
       case res of
         Inl errCode \<Rightarrow> do {
           (_, S) \<leftarrow> returned (Store_EndStepQuery E thr S);
           Some (errCode, r, S)
         }
       | Inr _ \<Rightarrow> Some (E_OK, r\<lparr>sqliteStatement := thread_connection thr S, step_tid := Some thr\<rparr>, S)
     })"

definition FinishStep :: "'s env \<Rightarrow> nat \<Rightarrow> 's rs \<Rightarrow> (rdb_errno \<times> 's rs) option" where
  "FinishStep E thr = (\<lambda>(r, S).
     if CheckSession thr r \<noteq> E_OK then Some (CheckSession thr r, r, S)
     else if sqliteStatement r = None then Some (E_OK, r, S)
     else
       let r = r\<lparr>sqliteStatement := None, rowPos := INIT_POS\<rparr> in
       if rdb r then do {
         (errCode, S) \<leftarrow> returned (Store_EndStepQuery E thr S);
         Some (errCode, r, S)
       }
       else Some (E_OK, r, S))"

definition Reset :: "'s env \<Rightarrow> 's rs \<Rightarrow> 's rs option" where
  "Reset E = (\<lambda>(r, S).
     if sqliteStatement r \<noteq> None then do {
       st \<leftarrow> stmt_at (sqliteStatement r) S;
       Some (r\<lparr>rowPos := INIT_POS, isAfterLast := False\<rparr>, set_lib (snd (sqlite3_reset (api E) (stmtHandle st) (lib (pool S)))) S)
     }
     else Some (r\<lparr>rowPos := INIT_POS, isAfterLast := False\<rparr>, S))"

subsection \<open>Moving\<close>

abbreviation (input) STEP_QUERY_RETRY_MAX_TIMES :: nat where "STEP_QUERY_RETRY_MAX_TIMES \<equiv> 50"

text \<open>The loop that steps again while the table is locked; \<open>None\<close> in the result is giving up.\<close>

function GoToNextRow_retry :: "'s env \<Rightarrow> SqliteStatement \<Rightarrow> nat \<Rightarrow> int \<Rightarrow> 's \<Rightarrow> int option \<times> 's" where
  "GoToNextRow_retry E st retryCount errCode s =
     (if errCode = SQLITE_LOCKED \<or> errCode = SQLITE_BUSY then
        if retryCount > STEP_QUERY_RETRY_MAX_TIMES then (None, s)
        else let (errCode, s) = Step (api E) st s in GoToNextRow_retry E st (retryCount + 1) errCode s
      else (Some errCode, s))"
  by pat_completeness auto
termination
  by (relation "measure (\<lambda>(E, st, retryCount, errCode, s). 51 - retryCount)") auto

declare GoToNextRow_retry.simps [simp del]

definition Step_GoToNextRow :: "'s env \<Rightarrow> nat \<Rightarrow> 's rs \<Rightarrow> (rdb_errno \<times> 's rs) option" where
  "Step_GoToNextRow E thr rS = do {
     (errCode, r, S) \<leftarrow> PrepareStep E thr rS;
     if errCode \<noteq> E_OK then Some (errCode, r, S)
     else do {
       st \<leftarrow> stmt_at (sqliteStatement r) S;
       let (errCode, s) = Step (api E) st (lib (pool S));
       let (res, s) = GoToNextRow_retry E st 0 errCode s;
       let S = set_lib s S;
       case res of
         None \<Rightarrow> Some (E_STEP_RESULT_QUERY_EXCEEDED, r, S)
       | Some errCode \<Rightarrow>
           if errCode = SQLITE_ROW then Some (E_OK, r\<lparr>rowPos := rowPos r + 1\<rparr>, S)
           else if errCode = SQLITE_DONE then do {
             (_, rS) \<leftarrow> FinishStep E thr (r\<lparr>isAfterLast := True, rowCount := rowPos r + 1\<rparr>, S);
             Some (E_STEP_RESULT_IS_AFTER_LAST, rS)
           }
           else do {
             (_, rS) \<leftarrow> FinishStep E thr (r, S);
             Some (ErrNo errCode, rS)
           }
     }
   }"

partial_function (option) GoToRow_loop :: "'s env \<Rightarrow> nat \<Rightarrow> int \<Rightarrow> 's rs \<Rightarrow> (rdb_errno \<times> 's rs) option" where
  "GoToRow_loop E thr position rS =
     (if position \<noteq> rowPos (fst rS) then do {
        (errCode, rS) \<leftarrow> Step_GoToNextRow E thr rS;
        if errCode \<noteq> E_OK then Some (errCode, rS) else GoToRow_loop E thr position rS
      }
      else Some (E_OK, rS))"

text \<open>The call to itself after \<open>Reset\<close> finds a position that is not before the current one, so it is
  written out once.\<close>

definition Step_GoToRow :: "'s env \<Rightarrow> nat \<Rightarrow> int \<Rightarrow> 's rs \<Rightarrow> (rdb_errno \<times> 's rs) option" where
  "Step_GoToRow E thr position rS =
     (if \<not> rdb (fst rS) then Some (E_ERROR, rS)
      else if position < 0 then do { rS \<leftarrow> Reset E rS; Some (E_ERROR, rS) }
      else if position = rowPos (fst rS) then Some (E_OK, rS)
      else if position < rowPos (fst rS) then do { rS \<leftarrow> Reset E rS; GoToRow_loop E thr position rS }
      else GoToRow_loop E thr position rS)"

partial_function (option) GetRowCount_loop :: "'s env \<Rightarrow> nat \<Rightarrow> 's rs \<Rightarrow> 's rs option" where
  "GetRowCount_loop E thr rS = do {
     (errCode, rS) \<leftarrow> Step_GoToNextRow E thr rS;
     if errCode = E_OK then GetRowCount_loop E thr rS else Some rS
   }"

definition Step_GetRowCount :: "'s env \<Rightarrow> nat \<Rightarrow> 's rs \<Rightarrow> (int result \<times> 's rs) option" where
  "Step_GetRowCount E thr rS =
     (if rowCount (fst rS) \<noteq> INIT_POS then Some (Inr (rowCount (fst rS)), rS)
      else do {
        let oldPosition = rowPos (fst rS);
        rS \<leftarrow> GetRowCount_loop E thr rS;
        let count = rowCount (fst rS);
        (_, rS) \<leftarrow> Step_GoToRow E thr oldPosition rS;
        Some (Inr count, rS)
      })"

definition Step_IsEnded :: "StepResultSet \<Rightarrow> bool" where
  "Step_IsEnded r = isAfterLast r"

definition Step_IsStarted :: "StepResultSet \<Rightarrow> bool" where
  "Step_IsStarted r = (rowPos r \<noteq> INIT_POS)"

definition Step_IsAtFirstRow :: "StepResultSet \<Rightarrow> bool" where
  "Step_IsAtFirstRow r = (rowPos r = 0)"

definition Step_Close :: "'s env \<Rightarrow> nat \<Rightarrow> 's rs \<Rightarrow> (rdb_errno \<times> 's rs) option" where
  "Step_Close E thr = (\<lambda>(r, S).
     if isClosed r then Some (E_OK, r, S)
     else do {
       (errCode, r, S) \<leftarrow> FinishStep E thr (r\<lparr>isClosed := True\<rparr>, S);
       Some (errCode, r\<lparr>rdb := False\<rparr>, S)
     })"

subsection \<open>Columns\<close>

fun column_names_loop :: "'s env \<Rightarrow> SqliteStatement \<Rightarrow> nat list \<Rightarrow> 's \<Rightarrow> string list result" where
  "column_names_loop E st [] s = Inr []"
| "column_names_loop E st (i # is) s =
     (case GetColumnName (api E) st (int i) s of
        Inl errCode \<Rightarrow> Inl errCode
      | Inr columnName \<Rightarrow>
          (case column_names_loop E st is s of Inl errCode \<Rightarrow> Inl errCode | Inr names \<Rightarrow> Inr (columnName # names)))"

definition Step_GetAllColumnNames :: "'s env \<Rightarrow> nat \<Rightarrow> 's rs \<Rightarrow> (string list result \<times> 's rs) option" where
  "Step_GetAllColumnNames E thr rS = do {
     (errCode, r, S) \<leftarrow> PrepareStep E thr rS;
     if errCode \<noteq> E_OK then Some (Inl errCode, r, S)
     else do {
       st \<leftarrow> stmt_at (sqliteStatement r) S;
       case GetColumnCount st of
         Inl errCode \<Rightarrow> Some (Inl errCode, r, S)
       | Inr n \<Rightarrow> Some (column_names_loop E st [0..<nat n] (lib (pool S)), r, S)
     }
   }"

text \<open>What the getters share: a position, and the statement.\<close>

definition on_row :: "(SqliteStatement \<Rightarrow> 's \<Rightarrow> 'a result) \<Rightarrow> 's rs \<Rightarrow> 'a result option" where
  "on_row get = (\<lambda>(r, S).
     if rowPos r = INIT_POS then Some (Inl E_STEP_RESULT_QUERY_NOT_EXECUTED)
     else do { st \<leftarrow> stmt_at (sqliteStatement r) S; Some (get st (lib (pool S))) })"

datatype ColumnType = ColumnType_NULL | ColumnType_INTEGER | ColumnType_FLOAT | ColumnType_STRING | ColumnType_BLOB

definition Step_GetColumnType :: "'s env \<Rightarrow> int \<Rightarrow> 's rs \<Rightarrow> ColumnType result option" where
  "Step_GetColumnType E columnIndex = on_row (\<lambda>st s.
     case GetColumnType (api E) st columnIndex s of
       Inl errCode \<Rightarrow> Inl errCode
     | Inr sqliteType \<Rightarrow>
         Inr (if sqliteType = SQLITE_INTEGER then ColumnType_INTEGER
              else if sqliteType = SQLITE_FLOAT then ColumnType_FLOAT
              else if sqliteType = SQLITE_BLOB then ColumnType_BLOB
              else if sqliteType = SQLITE_NULL then ColumnType_NULL
              else ColumnType_STRING))"

definition Step_GetBlob :: "'s env \<Rightarrow> int \<Rightarrow> 's rs \<Rightarrow> byte list result option" where
  "Step_GetBlob E columnIndex = on_row (\<lambda>st. GetColumnBlob (api E) st columnIndex)"

definition Step_GetString :: "'s env \<Rightarrow> int \<Rightarrow> 's rs \<Rightarrow> string result option" where
  "Step_GetString E columnIndex = on_row (\<lambda>st. GetColumnString (api E) (fp E) st columnIndex)"

definition Step_GetInt :: "'s env \<Rightarrow> int \<Rightarrow> 's rs \<Rightarrow> (32 word) result option" where
  "Step_GetInt E columnIndex = on_row (\<lambda>st s.
     case GetColumnLong (api E) (fp E) st columnIndex s of Inl errCode \<Rightarrow> Inl errCode | Inr columnValue \<Rightarrow> Inr (ucast columnValue))"

definition Step_GetLong :: "'s env \<Rightarrow> int \<Rightarrow> 's rs \<Rightarrow> int64 result option" where
  "Step_GetLong E columnIndex = on_row (\<lambda>st. GetColumnLong (api E) (fp E) st columnIndex)"

definition Step_GetDouble :: "'s env \<Rightarrow> int \<Rightarrow> 's rs \<Rightarrow> (64 word) result option" where
  "Step_GetDouble E columnIndex = on_row (\<lambda>st. GetColumnDouble (api E) (fp E) st columnIndex)"

definition Step_IsColumnNull :: "'s env \<Rightarrow> int \<Rightarrow> 's rs \<Rightarrow> bool result option" where
  "Step_IsColumnNull E columnIndex rS = do {
     res \<leftarrow> Step_GetColumnType E columnIndex rS;
     Some (case res of Inl errCode \<Rightarrow> Inl errCode | Inr columnType \<Rightarrow> Inr (columnType = ColumnType_NULL))
   }"

definition step_ops :: "'s env \<Rightarrow> nat \<Rightarrow> (rdb_errno, 's rs) result_set_ops" where
  "step_ops E thr =
     \<lparr>vRowPos = (\<lambda>(r, S). rowPos r), vGoToRow = Step_GoToRow E thr, vGetRowCount = Step_GetRowCount E thr,
      vGetAllColumnNames = Step_GetAllColumnNames E thr\<rparr>"

subsection \<open>No null statement is read\<close>

text \<open>The calls on one result set, from any threads; between them the store may have changed in any way.\<close>

datatype rs_call = rGoToRow int | rGoToNextRow | rGetRowCount | rGetAllColumnNames | rFinishStep | rClose

fun call_rs :: "'s env \<Rightarrow> nat \<Rightarrow> rs_call \<Rightarrow> 's rs \<Rightarrow> 's rs option" where
  "call_rs E thr (rGoToRow p) rS = map_option snd (Step_GoToRow E thr p rS)"
| "call_rs E thr rGoToNextRow rS = map_option snd (Step_GoToNextRow E thr rS)"
| "call_rs E thr rGetRowCount rS = map_option snd (Step_GetRowCount E thr rS)"
| "call_rs E thr rGetAllColumnNames rS = map_option snd (Step_GetAllColumnNames E thr rS)"
| "call_rs E thr rFinishStep rS = map_option snd (FinishStep E thr rS)"
| "call_rs E thr rClose rS = map_option snd (Step_Close E thr rS)"

inductive rs_reach :: "'s env \<Rightarrow> string \<Rightarrow> string list \<Rightarrow> StepResultSet \<Rightarrow> bool" for E q args where
  new: "rs_reach E q args (StepResultSet_new q args)"
| step: "rs_reach E q args r \<Longrightarrow> call_rs E thr c (r, S) = Some (r', S') \<Longrightarrow> rs_reach E q args r'"

definition rs_inv :: "StepResultSet \<Rightarrow> bool" where
  "rs_inv r \<longleftrightarrow>
     - 1 \<le> rowPos r \<and> - 1 \<le> rowCount r \<and> (rowPos r \<noteq> - 1 \<longrightarrow> sqliteStatement r \<noteq> None)
     \<and> (sqliteStatement r \<noteq> None \<longrightarrow> step_tid r \<noteq> None) \<and> isClosed r = (\<not> rdb r) \<and> (isAfterLast r \<longrightarrow> rowCount r \<noteq> - 1)"

lemma not_Inl_unit [simp]: "(\<forall>e. r \<noteq> Inl e) \<longleftrightarrow> r = Inr ()" for r :: "'e + unit"
  by (cases r) auto

lemma begun_connection:
  assumes "Store_BeginStepQuery E thr q args S = Ret (Inr u, S')"
  shows "thread_connection thr S' \<noteq> None"
proof -
  obtain sid S1 where g: "GetThreadSession thr S = (sid, S1)" by fastforce
  then have m: "\<exists>m. threadMap S1 thr = Some (sid, m)"
    by (auto simp: GetThreadSession_def Let_def split: option.splits if_splits)
  obtain ss P where b: "Session_BeginStepQuery E q args (sessions S1 ! sid) (pool S1) = Ret (Inr u, ss, P)"
    and S': "S' = S1\<lparr>pool := P, sessions := (sessions S1)[sid := ss]\<rparr>" "sid < length (sessions S1)"
    using assms g by (auto simp: Store_BeginStepQuery_def on_session_def split: if_splits)
  from b have "connection ss \<noteq> None"
    by (auto simp: Session_BeginStepQuery_def on_connection_def Let_def split: if_splits sum.split_asm option.split_asm prod.split_asm)
  with m S' show ?thesis by (auto simp: thread_connection_def)
qed

lemma refused_begin:
  assumes "Store_BeginStepQuery E thr q args S = Ret (Inl e, S')"
  shows "e \<noteq> E_OK"
proof -
  have conn: "Conn_BeginStepQuery E q args c s = Some (Inl e, c', s') \<Longrightarrow> e \<noteq> E_OK" for c s c' s'
    by (auto simp: Conn_BeginStepQuery_def Let_def split: option.split_asm prod.split_asm if_splits)
  from assms obtain ss0 P0 ss P where "Session_BeginStepQuery E q args ss0 P0 = Ret (Inl e, ss, P)"
    by (auto simp: Store_BeginStepQuery_def on_session_def split: if_splits prod.split_asm)
  then show ?thesis
    using conn by (auto simp: Session_BeginStepQuery_def on_connection_def Let_def split: if_splits sum.split_asm option.split_asm prod.split_asm)
      (metis not_Inl_unit)
qed

lemma returned_Some [simp]: "returned m = Some v \<longleftrightarrow> m = Ret v"
  by (cases m) (simp_all add: returned_def)

lemma PrepareStep_inv:
  assumes inv: "rs_inv r" and p: "PrepareStep E thr (r, S) = Some (e, r', S')"
  shows "rs_inv r' \<and> (e = E_OK \<longrightarrow> sqliteStatement r' \<noteq> None \<and> step_tid r' = Some thr \<and> \<not> isClosed r') \<and> rowPos r' = rowPos r"
proof (cases "isClosed r \<or> sqliteStatement r \<noteq> None")
  case True
  with p inv show ?thesis by (auto simp: PrepareStep_def CheckSession_def rs_inv_def split: if_splits)
next
  case False
  then obtain res S1 where b: "Store_BeginStepQuery E thr (sql r) (selectionArgs r) S = Ret (res, S1)"
    using p inv by (auto simp: PrepareStep_def rs_inv_def bind_eq_Some_conv)
  show ?thesis
  proof (cases res)
    case (Inl x)
    with refused_begin b have "x \<noteq> E_OK" by blast
    with b p False Inl inv show ?thesis by (auto simp: PrepareStep_def bind_eq_Some_conv split: if_splits)
  next
    case (Inr u)
    with begun_connection b have "thread_connection thr S1 \<noteq> None" by blast
    with b p False Inr inv show ?thesis by (auto simp: PrepareStep_def rs_inv_def split: if_splits)
  qed
qed

lemma FinishStep_inv:
  assumes "FinishStep E thr (r, S) = Some (e, r', S')"
  shows "(rs_inv r \<longrightarrow> rs_inv r') \<and> isClosed r' = isClosed r \<and> rdb r' = rdb r"
  using assms
  by (auto simp: FinishStep_def rs_inv_def CheckSession_def Let_def bind_eq_Some_conv split: if_splits)

lemma Reset_inv: "rs_inv r \<Longrightarrow> Reset E (r, S) = Some (r', S') \<Longrightarrow> rs_inv r' \<and> rowPos r' = - 1"
  by (auto simp: Reset_def rs_inv_def bind_eq_Some_conv split: if_splits)

lemma Step_GoToNextRow_inv:
  assumes inv: "rs_inv r" and g: "Step_GoToNextRow E thr (r, S) = Some (e, r', S')"
  shows "rs_inv r'"
proof -
  obtain e1 r1 S1 where p: "PrepareStep E thr (r, S) = Some (e1, r1, S1)"
    using g by (auto simp: Step_GoToNextRow_def bind_eq_Some_conv)
  note p1 = PrepareStep_inv [OF inv p]
  show ?thesis
  proof (cases "e1 = E_OK")
    case False
    with g p p1 show ?thesis by (simp add: Step_GoToNextRow_def)
  next
    case True
    have up: "rs_inv (r1\<lparr>rowPos := rowPos r1 + 1\<rparr>)" "rs_inv (r1\<lparr>isAfterLast := True, rowCount := rowPos r1 + 1\<rparr>)"
      using p1 True by (auto simp: rs_inv_def)
    obtain st where st: "stmt_at (sqliteStatement r1) S1 = Some st"
      using g p True by (auto simp: Step_GoToNextRow_def bind_eq_Some_conv)
    obtain c s where c: "Step (api E) st (lib (pool S1)) = (c, s)" by fastforce
    obtain res s' where res: "GoToNextRow_retry E st 0 c s = (res, s')" by fastforce
    from g p True st c res show ?thesis
      using p1 up by (auto simp: Step_GoToNextRow_def bind_eq_Some_conv Let_def dest: FinishStep_inv split: option.split_asm if_splits)
  qed
qed

lemma GoToRow_loop_inv: "GoToRow_loop E thr p rS = Some y \<Longrightarrow> rs_inv (fst rS) \<longrightarrow> rs_inv (fst (snd y))"
proof (induct rule: GoToRow_loop.raw_induct [rotated, consumes 1, case_names 1])
  case (1 loop E thr p rS y)
  show ?case
  proof
    assume inv: "rs_inv (fst rS)"
    show "rs_inv (fst (snd y))"
    proof (cases "p = rowPos (fst rS)")
      case False
      with 1(2) obtain e rS' where n: "Step_GoToNextRow E thr rS = Some (e, rS')"
        and k: "(if e \<noteq> E_OK then Some (e, rS') else loop E thr p rS') = Some y"
        by (auto simp: bind_eq_Some_conv)
      from Step_GoToNextRow_inv [of "fst rS" E thr "snd rS" e "fst rS'" "snd rS'"] n inv have "rs_inv (fst rS')" by simp
      with 1(1) [of E thr p rS' y] k show ?thesis by (auto split: if_splits)
    qed (use 1 inv in auto)
  qed
qed

lemma GetRowCount_loop_inv: "GetRowCount_loop E thr rS = Some y \<Longrightarrow> rs_inv (fst rS) \<longrightarrow> rs_inv (fst y)"
proof (induct rule: GetRowCount_loop.raw_induct [rotated, consumes 1, case_names 1])
  case (1 loop E thr rS y)
  show ?case
  proof
    assume inv: "rs_inv (fst rS)"
    from 1(2) obtain e rS' where n: "Step_GoToNextRow E thr rS = Some (e, rS')"
      and k: "(if e = E_OK then loop E thr rS' else Some rS') = Some y"
      by (auto simp: bind_eq_Some_conv)
    from Step_GoToNextRow_inv [of "fst rS" E thr "snd rS" e "fst rS'" "snd rS'"] n inv have "rs_inv (fst rS')" by simp
    with 1(1) [of E thr rS' y] k show "rs_inv (fst y)" by (auto split: if_splits)
  qed
qed

lemma Step_GoToRow_inv: "rs_inv r \<Longrightarrow> Step_GoToRow E thr p (r, S) = Some (e, r', S') \<Longrightarrow> rs_inv r'"
  using GoToRow_loop_inv [of E thr p]
  by (fastforce simp: Step_GoToRow_def bind_eq_Some_conv dest: Reset_inv split: if_splits)

lemma call_rs_inv: "rs_inv r \<Longrightarrow> call_rs E thr c (r, S) = Some (r', S') \<Longrightarrow> rs_inv r'"
proof (cases c)
  case rGetRowCount
  assume "rs_inv r" "call_rs E thr c (r, S) = Some (r', S')"
  with rGetRowCount show ?thesis
    using GetRowCount_loop_inv [of E thr "(r, S)"] Step_GoToRow_inv [of _ E thr "rowPos r"]
    by (fastforce simp: Step_GetRowCount_def bind_eq_Some_conv Let_def split: if_splits)
next
  case rGetAllColumnNames
  assume inv: "rs_inv r" and c: "call_rs E thr c (r, S) = Some (r', S')"
  obtain e r1 S1 where p: "PrepareStep E thr (r, S) = Some (e, r1, S1)"
    using c rGetAllColumnNames by (auto simp: Step_GetAllColumnNames_def bind_eq_Some_conv)
  have "r' = r1"
    using c rGetAllColumnNames p
    by (cases "stmt_at (sqliteStatement r1) S1"; cases "GetColumnCount (the (stmt_at (sqliteStatement r1) S1))")
      (auto simp: Step_GetAllColumnNames_def split: if_splits)
  with PrepareStep_inv [OF inv p] show ?thesis by simp
next
  case rClose
  assume "rs_inv r" and c: "call_rs E thr c (r, S) = Some (r', S')"
  show ?thesis
  proof (cases "isClosed r")
    case False
    have "rs_inv (r\<lparr>isClosed := True, rdb := False\<rparr>)" using \<open>rs_inv r\<close> by (simp add: rs_inv_def)
    with False c rClose \<open>rs_inv r\<close> show ?thesis
      by (auto simp: Step_Close_def FinishStep_def CheckSession_def rs_inv_def bind_eq_Some_conv Let_def split: if_splits)
  qed (use \<open>rs_inv r\<close> c rClose in \<open>simp add: Step_Close_def\<close>)
qed (auto dest: Step_GoToRow_inv Step_GoToNextRow_inv FinishStep_inv)

text \<open>
  Whatever calls are made on a step result set, from whichever threads and whatever
  happens to the store in between, a result set that stands on a row has a statement, so that no getter
  reads through a null pointer; one that has a statement knows the thread that began it; it is closed
  exactly when it has let go of its store; and one that has passed the last row knows the row count.
\<close>

theorem step_result_set_inv:
  assumes "rs_reach E q args r"
  shows "rs_inv r \<and> (on_row get (r, S) = None \<longrightarrow> sqliteStatement r \<noteq> None)"
proof -
  from assms have "rs_inv r"
  proof (induction rule: rs_reach.induct)
    case new
    show ?case by (simp add: rs_inv_def StepResultSet_new_def)
  qed (use call_rs_inv in blast)
  then show ?thesis by (auto simp: rs_inv_def on_row_def split: if_splits)
qed

subsection \<open>A query with \<open>n\<close> rows\<close>

text \<open>
  What is relied on of SQLite for one query text with its arguments: \<open>prepared h s\<close> says that \<open>h\<close> is the
  query, reset and without bindings; \<open>at_row h s = Some (k, b)\<close> that it is bound, has returned \<open>k\<close> of its
  \<open>n\<close> rows and reports a lock \<open>b\<close> times before the next answer.  A lock lasts for at most 51 attempts.
\<close>

record 's query_view =
  is_live :: "nat \<Rightarrow> 's \<Rightarrow> bool"
  prepared :: "nat \<Rightarrow> 's \<Rightarrow> bool"
  at_row :: "nat \<Rightarrow> 's \<Rightarrow> (nat \<times> nat) option"

definition stands :: "'s query_view \<Rightarrow> nat \<Rightarrow> nat \<Rightarrow> 's \<Rightarrow> bool" where
  "stands v h k s \<longleftrightarrow> (\<exists>b \<le> 51. at_row v h s = Some (k, b))"

definition query_contract :: "'s env \<Rightarrow> string \<Rightarrow> string list \<Rightarrow> nat \<Rightarrow> int \<times> int \<Rightarrow> 's query_view \<Rightarrow> bool" where
  "query_contract E q args n np v \<longleftrightarrow>
     GetSqlStatementType q = STATEMENT_SELECT
   \<and> (\<forall>d s. \<exists>h s'. sqlite3_prepare_v2 (api E) d q s = (SQLITE_OK, Some h, s') \<and> \<not> is_live v h s \<and> prepared v h s'
        \<and> (\<forall>p. p \<noteq> Some h \<longrightarrow> prepared v h (snd (sqlite3_finalize (api E) p s'))))
   \<and> (\<forall>h s. prepared v h s \<longrightarrow> (sqlite3_bind_parameter_count (api E) (Some h) s, sqlite3_column_count (api E) (Some h) s) = np)
   \<and> (\<forall>st h s. prepared v h s \<longrightarrow> stmtHandle st = Some h \<longrightarrow> numParameters st = fst np \<longrightarrow>
        (\<exists>s'. BindArguments (api E) st (map ValueObject_string args) s = Some (E_OK, s') \<and> stands v h 0 s'))
   \<and> (\<forall>h k b s. at_row v h s = Some (k, Suc b) \<longrightarrow>
        (\<exists>c s'. sqlite3_step (api E) (Some h) s = (c, s') \<and> c \<in> {SQLITE_BUSY, SQLITE_LOCKED} \<and> at_row v h s' = Some (k, b)))
   \<and> (\<forall>h k s. at_row v h s = Some (k, 0) \<longrightarrow> k < n \<longrightarrow>
        (\<exists>s'. sqlite3_step (api E) (Some h) s = (SQLITE_ROW, s') \<and> stands v h (Suc k) s'))
   \<and> (\<forall>h s. at_row v h s = Some (n, 0) \<longrightarrow> (\<exists>s'. sqlite3_step (api E) (Some h) s = (SQLITE_DONE, s') \<and> at_row v h s' \<noteq> None))
   \<and> (\<forall>h s. at_row v h s \<noteq> None \<longrightarrow> (\<exists>s'. sqlite3_reset (api E) (Some h) s = (SQLITE_OK, s') \<and> stands v h 0 s'))
   \<and> (\<forall>h s. stands v h 0 s \<longrightarrow> (\<exists>s'. sqlite3_clear_bindings (api E) (Some h) s = (SQLITE_OK, s') \<and> prepared v h s'))
   \<and> (\<forall>h s i. at_row v h s \<noteq> None \<longrightarrow> 0 \<le> i \<longrightarrow> i < snd np \<longrightarrow> sqlite3_column_name (api E) (Some h) i s \<noteq> None)"

lemma contractD:
  assumes "query_contract E q args n np v"
  shows "GetSqlStatementType q = STATEMENT_SELECT"
    and "\<exists>h s'. sqlite3_prepare_v2 (api E) d q s = (SQLITE_OK, Some h, s') \<and> \<not> is_live v h s \<and> prepared v h s'
        \<and> (\<forall>p. p \<noteq> Some h \<longrightarrow> prepared v h (snd (sqlite3_finalize (api E) p s')))"
    and "prepared v h s \<Longrightarrow> (sqlite3_bind_parameter_count (api E) (Some h) s, sqlite3_column_count (api E) (Some h) s) = np"
    and "prepared v h s \<Longrightarrow> stmtHandle st = Some h \<Longrightarrow> numParameters st = fst np \<Longrightarrow>
        \<exists>s'. BindArguments (api E) st (map ValueObject_string args) s = Some (E_OK, s') \<and> stands v h 0 s'"
    and "at_row v h s = Some (k, Suc b) \<Longrightarrow>
        \<exists>c s'. sqlite3_step (api E) (Some h) s = (c, s') \<and> c \<in> {SQLITE_BUSY, SQLITE_LOCKED} \<and> at_row v h s' = Some (k, b)"
    and "at_row v h s = Some (k, 0) \<Longrightarrow> k < n \<Longrightarrow> \<exists>s'. sqlite3_step (api E) (Some h) s = (SQLITE_ROW, s') \<and> stands v h (Suc k) s'"
    and "at_row v h s = Some (n, 0) \<Longrightarrow> \<exists>s'. sqlite3_step (api E) (Some h) s = (SQLITE_DONE, s') \<and> at_row v h s' \<noteq> None"
    and "at_row v h s \<noteq> None \<Longrightarrow> \<exists>s'. sqlite3_reset (api E) (Some h) s = (SQLITE_OK, s') \<and> stands v h 0 s'"
    and "stands v h 0 s \<Longrightarrow> \<exists>s'. sqlite3_clear_bindings (api E) (Some h) s = (SQLITE_OK, s') \<and> prepared v h s'"
    and "at_row v h s \<noteq> None \<Longrightarrow> 0 \<le> i \<Longrightarrow> i < snd np \<Longrightarrow> sqlite3_column_name (api E) (Some h) i s \<noteq> None"
  by (insert assms, unfold query_contract_def, elim conjE, assumption, elim conjE, simp only: simp_thms)
    (elim conjE, simp only: simp_thms)+

text \<open>One step with its retries.\<close>

lemma retry_steps:
  assumes C: "query_contract E q args n np v" and st: "stmtHandle st = Some h"
  shows "at_row v h s = Some (k, b) \<Longrightarrow> rc + b \<le> 51 \<Longrightarrow> k \<le> n \<Longrightarrow>
    \<exists>s'. (case Step (api E) st s of (c, s) \<Rightarrow> GoToNextRow_retry E st rc c s) = (Some (if k < n then SQLITE_ROW else SQLITE_DONE), s')
      \<and> (if k < n then stands v h (Suc k) s' else at_row v h s' \<noteq> None)"
proof (induction b arbitrary: s rc)
  case 0
  show ?case
  proof (cases "k < n")
    case True
    with contractD(6) [OF C 0(1)] st show ?thesis by (auto simp: Step_def GoToNextRow_retry.simps)
  next
    case False
    with 0 have "at_row v h s = Some (n, 0)" by simp
    from contractD(7) [OF C this] False st show ?thesis by (auto simp: Step_def GoToNextRow_retry.simps)
  qed
next
  case (Suc b)
  from contractD(5) [OF C Suc.prems(1)] obtain c s1 where c: "sqlite3_step (api E) (Some h) s = (c, s1)"
    "c \<in> {SQLITE_BUSY, SQLITE_LOCKED}" "at_row v h s1 = Some (k, b)" by blast
  have "GoToNextRow_retry E st rc c s1 = (case Step (api E) st s1 of (c, s) \<Rightarrow> GoToNextRow_retry E st (rc + 1) c s)"
    using c(2) Suc.prems(2) by (subst GoToNextRow_retry.simps) auto
  with Suc.IH [OF c(3), of "rc + 1"] Suc.prems c(1) st show ?case by (simp add: Step_def)
qed

text \<open>A statement that always reports a lock.\<close>

definition step_on :: "'s env \<Rightarrow> SqliteStatement \<Rightarrow> 's \<Rightarrow> 's" where
  "step_on E st s = snd (sqlite3_step (api E) (stmtHandle st) s)"

lemma retry_gives_up:
  assumes busy: "\<And>s. fst (sqlite3_step (api E) (stmtHandle st) s) \<in> {SQLITE_BUSY, SQLITE_LOCKED}"
  shows "c \<in> {SQLITE_BUSY, SQLITE_LOCKED} \<Longrightarrow> rc \<le> 51 \<Longrightarrow> GoToNextRow_retry E st rc c s = (None, (step_on E st ^^ (51 - rc)) s)"
proof (induction "51 - rc" arbitrary: rc c s)
  case 0
  then show ?case by (subst GoToNextRow_retry.simps) auto
next
  case (Suc k)
  obtain c' s' where s': "sqlite3_step (api E) (stmtHandle st) s = (c', s')" by fastforce
  then have c': "c' \<in> {SQLITE_BUSY, SQLITE_LOCKED}" "s' = step_on E st s" using busy [of s] by (auto simp: step_on_def)
  have k: "k = 51 - (rc + 1)" "51 - rc = Suc k" "rc + 1 \<le> 51" using Suc.hyps(2) by auto
  have "GoToNextRow_retry E st rc c s = GoToNextRow_retry E st (rc + 1) c' s'"
    using Suc.prems k(3) s' by (subst GoToNextRow_retry.simps) (auto simp: Step_def)
  with Suc.hyps(1) [OF k(1) c'(1) k(3), of s'] c'(2) k(1,2) show ?case by (simp add: funpow_swap1)
qed

text \<open>
  C35 (termination): moving to the next row returns also when the table stays locked for ever: after 52
  attempts it gives up with \<open>E_STEP_RESULT_QUERY_EXCEEDED\<close>, on the row it was on, with the query still
  open.
\<close>

theorem next_row_gives_up:
  assumes "\<not> isClosed r" "sqliteStatement r = Some c" "step_tid r = Some thr" and st: "stmt_at (Some c) S = Some st"
    and busy: "\<And>s. fst (sqlite3_step (api E) (stmtHandle st) s) \<in> {SQLITE_BUSY, SQLITE_LOCKED}"
  shows "Step_GoToNextRow E thr (r, S) = Some (E_STEP_RESULT_QUERY_EXCEEDED, r, set_lib ((step_on E st ^^ 52) (lib (pool S))) S)"
proof -
  obtain c0 s0 where s0: "Step (api E) st (lib (pool S)) = (c0, s0)" by fastforce
  then have "c0 \<in> {SQLITE_BUSY, SQLITE_LOCKED}" "s0 = step_on E st (lib (pool S))"
    using busy [of "lib (pool S)"] by (auto simp: Step_def step_on_def)
  then have "GoToNextRow_retry E st 0 c0 s0 = (None, (step_on E st ^^ 51) (step_on E st (lib (pool S))))"
    using retry_gives_up [OF busy, of c0 0 s0] by simp
  moreover have "(step_on E st ^^ 51) (step_on E st x) = (step_on E st ^^ 52) x" for x
    using funpow_swap1 [of "step_on E st" 51 x] by (simp add: numeral_eq_Suc)
  ultimately show ?thesis
    using assms(1-3) st s0 by (simp add: Step_GoToNextRow_def PrepareStep_def CheckSession_def)
qed

subsection \<open>The store between queries and in a query\<close>

definition sess_idle :: "StoreSession \<Rightarrow> bool" where
  "sess_idle ss \<longleftrightarrow> ss = StoreSession_new"

definition others_idle :: "'s store \<Rightarrow> bool" where
  "others_idle S \<longleftrightarrow> registry_inv S \<and> (\<forall>i \<in> set (idleSessions S). sess_idle (sessions S ! i))"

text \<open>The connection a reader would get, and what taking it out leaves behind.\<close>

definition pool_gives :: "'s pool \<Rightarrow> nat \<Rightarrow> bool" where
  "pool_gives P c \<longleftrightarrow>
     (if readConnectionCount P \<noteq> 0
      then 0 < idleReadConnectionCount P \<and> readConnections P \<noteq> [] \<and> last (readConnections P) = c \<and> writeConnection P \<noteq> Some c
      else \<not> writeConnectionUsed P \<and> writeConnection P = Some c)"

definition pool_lent :: "'s pool \<Rightarrow> nat \<Rightarrow> bool" where
  "pool_lent P c \<longleftrightarrow>
     (if readConnectionCount P \<noteq> 0 then 0 \<le> idleReadConnectionCount P \<and> writeConnection P \<noteq> Some c
      else writeConnection P = Some c)"

lemma pool_lends:
  "pool_gives P c \<Longrightarrow> \<exists>P'. Pool_AcquireConnection True P = Ret (Some c, P') \<and> pool_lent P' c \<and> heap P' = heap P \<and> lib P' = lib P"
  by (cases "readConnectionCount P = 0")
    (simp_all add: pool_gives_def pool_lent_def Pool_AcquireConnection_def AcquireReadConnection_def AcquireWriteConnection_def)

lemma pool_takes_back: "pool_lent P c \<Longrightarrow> pool_gives (Pool_ReleaseConnection c P) c"
  by (cases "readConnectionCount P = 0"; cases "Some c = writeConnection P")
    (simp_all add: pool_gives_def pool_lent_def Pool_ReleaseConnection_def ReleaseWriteConnection_def ReleaseReadConnection_def)

lemma pool_release_frame [simp]:
  "heap (Pool_ReleaseConnection c P) = heap P" "lib (Pool_ReleaseConnection c P) = lib P"
  by (simp_all add: Pool_ReleaseConnection_def ReleaseWriteConnection_def ReleaseReadConnection_def)

lemma pool_lent_frame [simp]: "pool_lent (P\<lparr>lib := s\<rparr>) c = pool_lent P c" "pool_lent (P\<lparr>lib := s, heap := hp\<rparr>) c = pool_lent P c"
  by (simp_all add: pool_lent_def)

text \<open>The connection can run the query: its step statement is the query, ready, or anything else.\<close>

definition stmt_ready :: "'s query_view \<Rightarrow> string \<Rightarrow> int \<times> int \<Rightarrow> SqliteStatement \<Rightarrow> 's \<Rightarrow> bool" where
  "stmt_ready v q np st s \<longleftrightarrow>
     (if st_sql st = q then \<exists>h. stmtHandle st = Some h \<and> prepared v h s \<and> (numParameters st, columnCount st) = np
      else \<forall>h. stmtHandle st = Some h \<longrightarrow> is_live v h s)"

definition conn_ready :: "'s query_view \<Rightarrow> string \<Rightarrow> int \<times> int \<Rightarrow> SqliteConnection \<Rightarrow> 's \<Rightarrow> bool" where
  "conn_ready v q np conn s \<longleftrightarrow> (\<exists>st. stepStatement conn = Some st \<and> stmt_ready v q np st s)"

definition conn_runs :: "string \<Rightarrow> int \<times> int \<Rightarrow> SqliteConnection \<Rightarrow> nat \<Rightarrow> bool" where
  "conn_runs q np conn h \<longleftrightarrow> (\<exists>st. stepStatement conn = Some st \<and> st_sql st = q \<and> stmtHandle st = Some h \<and> (numParameters st, columnCount st) = np)"

lemma conn_begins:
  assumes C: "query_contract E q args n np v" and r: "conn_ready v q np conn s"
  shows "\<exists>conn' h s'. Conn_BeginStepQuery E q args conn s = Some (Inr (), conn', s') \<and> conn_runs q np conn' h \<and> stands v h 0 s'"
proof -
  from r obtain st where st: "stepStatement conn = Some st"
    "if st_sql st = q then \<exists>h. stmtHandle st = Some h \<and> prepared v h s \<and> (numParameters st, columnCount st) = np
     else \<forall>h. stmtHandle st = Some h \<longrightarrow> is_live v h s" by (auto simp: conn_ready_def stmt_ready_def)
  have "\<exists>st' h s'. Prepare (api E) (dbHandle conn) q st s = (E_OK, st', s') \<and> st_sql st' = q \<and> stmtHandle st' = Some h
      \<and> (numParameters st', columnCount st') = np \<and> prepared v h s'"
  proof (cases "st_sql st = q")
    case True
    with st show ?thesis by (auto simp: Prepare_def)
  next
    case False
    from contractD(2) [OF C, of "dbHandle conn" s] obtain h s1 where p: "sqlite3_prepare_v2 (api E) (dbHandle conn) q s = (SQLITE_OK, Some h, s1)"
      "\<not> is_live v h s" "prepared v h s1" "\<forall>p. p \<noteq> Some h \<longrightarrow> prepared v h (snd (sqlite3_finalize (api E) p s1))" by blast
    then have "prepared v h (snd (snd (Finalize (api E) st s1)))"
      using st(2) False by (auto simp: Finalize_def Let_def split: prod.splits if_splits)
    with p(1) False contractD(3) [OF C] show ?thesis
      by (auto simp: Prepare_def Let_def split: prod.splits)
  qed
  then obtain st' h s1 where p: "Prepare (api E) (dbHandle conn) q st s = (E_OK, st', s1)" "st_sql st' = q" "stmtHandle st' = Some h"
    "(numParameters st', columnCount st') = np" "prepared v h s1" by blast
  from p(4) have "numParameters st' = fst np" by auto
  from contractD(4) [OF C p(5,3) this] p st(1) show ?thesis
    by (auto simp: Conn_BeginStepQuery_def conn_runs_def)
qed

lemma conn_ends:
  assumes C: "query_contract E q args n np v" and r: "conn_runs q np conn h" and a: "at_row v h s \<noteq> None"
  shows "\<exists>s'. Conn_EndStepQuery E conn s = Some (E_OK, s') \<and> conn_ready v q np conn s'"
proof -
  from contractD(8) [OF C a] obtain s1 where s1: "sqlite3_reset (api E) (Some h) s = (SQLITE_OK, s1)" "stands v h 0 s1" by blast
  from contractD(9) [OF C s1(2)] obtain s2 where s2: "sqlite3_clear_bindings (api E) (Some h) s1 = (SQLITE_OK, s2)" "prepared v h s2" by blast
  from r obtain st where st: "stepStatement conn = Some st" "st_sql st = q" "stmtHandle st = Some h" "(numParameters st, columnCount st) = np"
    by (auto simp: conn_runs_def)
  have "stmt_ready v q np st s2" using st s2 by (simp add: stmt_ready_def)
  with st s1 s2 show ?thesis by (simp add: Conn_EndStepQuery_def conn_ready_def ResetStatementAndClearBindings_def)
qed

definition thread_idle :: "nat \<Rightarrow> 's store \<Rightarrow> bool" where
  "thread_idle thr S \<longleftrightarrow> others_idle S \<and> (\<forall>sid m. threadMap S thr = Some (sid, m) \<longrightarrow> sess_idle (sessions S ! sid))"

definition store_idle :: "'s query_view \<Rightarrow> string \<Rightarrow> int \<times> int \<Rightarrow> nat \<Rightarrow> 's store \<Rightarrow> bool" where
  "store_idle v q np thr S \<longleftrightarrow> thread_idle thr S
     \<and> (\<exists>c conn. pool_gives (pool S) c \<and> heap (pool S) c = Some conn \<and> conn_ready v q np conn (lib (pool S)))"

abbreviation in_query :: "nat \<Rightarrow> StoreSession" where
  "in_query c \<equiv> \<lparr>connection = Some c, connectionUseCount = 1, isInStepQuery = True\<rparr>"

definition store_in_query :: "string \<Rightarrow> int \<times> int \<Rightarrow> nat \<Rightarrow> nat \<Rightarrow> nat \<Rightarrow> 's store \<Rightarrow> bool" where
  "store_in_query q np thr c h S \<longleftrightarrow> others_idle S
     \<and> (\<exists>sid m. threadMap S thr = Some (sid, m) \<and> sessions S ! sid = in_query c)
     \<and> pool_lent (pool S) c \<and> (\<exists>conn. heap (pool S) c = Some conn \<and> conn_runs q np conn h)"

lemma in_query_lib [simp]: "store_in_query q np thr c h (set_lib s S) = store_in_query q np thr c h S"
  by (simp add: store_in_query_def others_idle_def registry_inv_def)

lemma get_session:
  assumes i: "others_idle S" and g: "GetThreadSession thr S = (sid, S')"
  shows "others_idle S' \<and> sid < length (sessions S') \<and> sid \<notin> set (idleSessions S') \<and> pool S' = pool S
    \<and> (\<exists>m. threadMap S' thr = Some (sid, m)
        \<and> (case threadMap S thr of None \<Rightarrow> sess_idle (sessions S' ! sid) \<and> m = 1 | Some (x, k) \<Rightarrow> x = sid \<and> m = k + 1 \<and> sessions S' = sessions S))"
proof -
  have reg: "registry_inv S" and idle: "\<forall>i \<in> set (idleSessions S). sess_idle (sessions S ! i)" using i by (auto simp: others_idle_def)
  note inv = GetThreadSession_inv [OF reg g]
  from inv obtain m where m: "threadMap S' thr = Some (sid, m)" by auto
  from registry_entry [OF _ m] inv have sid: "sid \<notin> set (idleSessions S')" by blast
  have i_bound: "\<forall>i \<in> set (idleSessions S). i < length (sessions S)" using reg by (auto simp: registry_inv_def)
  show ?thesis
  proof (cases "threadMap S thr")
    case None
    show ?thesis
    proof (cases "idleSessions S = []")
      case True
      with g None have "S' = S\<lparr>sessions := sessions S @ [StoreSession_new], threadMap := (threadMap S)(thr := Some (sid, 1))\<rparr>" "sid = length (sessions S)"
        by (auto simp: GetThreadSession_def)
      with inv m sid True None show ?thesis by (simp add: others_idle_def sess_idle_def)
    next
      case False
      then obtain rest where "idleSessions S = rest @ [sid]" "S' = S\<lparr>idleSessions := rest, threadMap := (threadMap S)(thr := Some (sid, 1))\<rparr>"
        using g None by (cases "idleSessions S" rule: rev_cases) (auto simp: GetThreadSession_def)
      with inv m sid idle None show ?thesis by (simp add: others_idle_def)
    qed
  next
    case (Some e)
    with g obtain k where "e = (sid, k)" "S' = S\<lparr>threadMap := (threadMap S)(thr := Some (sid, k + 1))\<rparr>"
      by (cases e) (auto simp: GetThreadSession_def)
    with inv m sid idle Some show ?thesis by (simp add: others_idle_def)
  qed
qed

lemma release_session:
  assumes i: "others_idle S" and t: "threadMap S thr = Some (sid, m)" and idle: "sess_idle (sessions S ! sid)"
  shows "others_idle (ReleaseThreadSession thr S) \<and> thread_idle thr (ReleaseThreadSession thr S)"
proof -
  let ?S = "ReleaseThreadSession thr S"
  have reg: "registry_inv ?S" "sessions ?S = sessions S" using ReleaseThreadSession_inv i by (auto simp: others_idle_def)
  have "set (idleSessions ?S) \<subseteq> insert sid (set (idleSessions S))" "threadMap ?S thr = None \<or> threadMap ?S thr = Some (sid, m - 1)"
    using t by (auto simp: ReleaseThreadSession_def Let_def)
  with reg idle i show ?thesis by (auto simp: others_idle_def thread_idle_def)
qed

lemma release_idle: "thread_idle thr S \<Longrightarrow> thread_idle thr (ReleaseThreadSession thr S)"
  using release_session [of S thr] by (cases "threadMap S thr") (auto simp: thread_idle_def ReleaseThreadSession_def)

lemma thread_idle_upd:
  assumes i: "others_idle S" and t: "threadMap S thr = Some (sid, m)"
  shows "others_idle (S\<lparr>pool := P, sessions := (sessions S)[sid := ss]\<rparr>)"
    and "sess_idle ss \<Longrightarrow> thread_idle thr (S\<lparr>pool := P, sessions := (sessions S)[sid := ss]\<rparr>)"
proof -
  let ?S = "S\<lparr>pool := P, sessions := (sessions S)[sid := ss]\<rparr>"
  have reg: "registry_inv S" using i by (simp add: others_idle_def)
  from registry_entry [OF reg t] have sid: "sid < length (sessions S)" "sid \<notin> set (idleSessions S)" by auto
  show o: "others_idle ?S" using i sid registry_frame [OF reg, of ?S] by (auto simp: others_idle_def nth_list_update)
  show "thread_idle thr ?S" if "sess_idle ss" using o t that sid by (simp add: thread_idle_def)
qed

lemma session_begins:
  assumes C: "query_contract E q args n np v" and g: "pool_gives P c" and h: "heap P c = Some conn" "conn_ready v q np conn (lib P)"
  shows "\<exists>P' k. Session_BeginStepQuery E q args StoreSession_new P = Ret (Inr (), in_query c, P') \<and> pool_lent P' c
    \<and> (\<exists>conn'. heap P' c = Some conn' \<and> conn_runs q np conn' k) \<and> stands v k 0 (lib P')"
proof -
  from pool_lends [OF g] obtain P1 where P1: "Pool_AcquireConnection True P = Ret (Some c, P1)" "pool_lent P1 c" "heap P1 = heap P" "lib P1 = lib P" by blast
  from conn_begins [OF C h(2)] obtain conn' k s' where b: "Conn_BeginStepQuery E q args conn (lib P) = Some (Inr (), conn', s')"
    "conn_runs q np conn' k" "stands v k 0 s'" by blast
  show ?thesis
    by (rule exI [of _ "P1\<lparr>lib := s', heap := (heap P1)(c := Some conn')\<rparr>"])
      (use P1 b h contractD(1) [OF C] in \<open>auto simp: Session_BeginStepQuery_def AcquireConnection_def acquire_with_def StoreSession_new_def on_connection_def\<close>)
qed

lemma session_ends:
  assumes C: "query_contract E q args n np v" and l: "pool_lent P c" and h: "heap P c = Some conn" "conn_runs q np conn k"
    and a: "at_row v k (lib P) \<noteq> None"
  shows "\<exists>P' conn'. Session_EndStepQuery E (in_query c) P = Ret (E_OK, StoreSession_new, P') \<and> pool_gives P' c
    \<and> heap P' c = Some conn' \<and> conn_ready v q np conn' (lib P')"
proof -
  from conn_ends [OF C h(2) a] obtain s' where s': "Conn_EndStepQuery E conn (lib P) = Some (E_OK, s')" "conn_ready v q np conn s'" by blast
  let ?P = "P\<lparr>lib := s', heap := (heap P)(c := Some conn)\<rparr>"
  have "pool_gives (Pool_ReleaseConnection c ?P) c" using l by (intro pool_takes_back) simp
  with s' h show ?thesis
    by (intro exI [of _ "Pool_ReleaseConnection c ?P"])
      (auto simp: Session_EndStepQuery_def on_connection_def ReleaseConnection_def release_with_def StoreSession_new_def)
qed

lemma store_begins:
  assumes C: "query_contract E q args n np v" and i: "store_idle v q np thr S"
  shows "\<exists>S' c h. Store_BeginStepQuery E thr q args S = Ret (Inr (), S') \<and> thread_connection thr S' = Some c
    \<and> store_in_query q np thr c h S' \<and> stands v h 0 (lib (pool S'))"
proof -
  obtain sid S1 where g: "GetThreadSession thr S = (sid, S1)" by fastforce
  have o: "others_idle S" using i by (simp add: store_idle_def thread_idle_def)
  note G = get_session [OF o g]
  then obtain m where m: "threadMap S1 thr = Some (sid, m)" and oi: "others_idle S1" and sid: "sid < length (sessions S1)" and P: "pool S1 = pool S" by blast
  have new: "sessions S1 ! sid = StoreSession_new"
    using G i by (auto simp: store_idle_def thread_idle_def sess_idle_def split: option.splits)
  from i obtain c conn where c: "pool_gives (pool S) c" "heap (pool S) c = Some conn" "conn_ready v q np conn (lib (pool S))"
    by (auto simp: store_idle_def)
  from session_begins [OF C c] obtain P' k where b: "Session_BeginStepQuery E q args StoreSession_new (pool S) = Ret (Inr (), in_query c, P')"
    "pool_lent P' c" "\<exists>conn'. heap P' c = Some conn' \<and> conn_runs q np conn' k" "stands v k 0 (lib P')" by blast
  show ?thesis
    by (intro exI [of _ "S1\<lparr>pool := P', sessions := (sessions S1)[sid := in_query c]\<rparr>"] exI [of _ c] exI [of _ k])
      (use g b new sid m P thread_idle_upd(1) [OF oi m] in \<open>simp add: Store_BeginStepQuery_def on_session_def thread_connection_def store_in_query_def\<close>)
qed

lemma store_ends:
  assumes C: "query_contract E q args n np v" and i: "store_in_query q np thr c h S" and a: "at_row v h (lib (pool S)) \<noteq> None"
  shows "\<exists>S'. Store_EndStepQuery E thr S = Ret (E_OK, S') \<and> store_idle v q np thr S' \<and> pool_gives (pool S') c"
proof -
  obtain sid S1 where g: "GetThreadSession thr S = (sid, S1)" by fastforce
  have o: "others_idle S" using i by (simp add: store_in_query_def)
  from i obtain x m0 conn where x: "threadMap S thr = Some (x, m0)" "sessions S ! x = in_query c" "pool_lent (pool S) c"
    "heap (pool S) c = Some conn" "conn_runs q np conn h" by (auto simp: store_in_query_def)
  from get_session [OF o g] x obtain m where m: "threadMap S1 thr = Some (sid, m)" "others_idle S1" "sid < length (sessions S1)" "pool S1 = pool S"
    "sessions S1 ! sid = in_query c" by auto
  from session_ends [OF C x(3-5) a] obtain P' conn' where e: "Session_EndStepQuery E (in_query c) (pool S) = Ret (E_OK, StoreSession_new, P')"
    "pool_gives P' c" "heap P' c = Some conn'" "conn_ready v q np conn' (lib P')" by blast
  let ?S2 = "S1\<lparr>pool := P', sessions := (sessions S1)[sid := StoreSession_new]\<rparr>"
  have "thread_idle thr ?S2" using thread_idle_upd(2) [OF m(2,1)] by (simp add: sess_idle_def)
  then have idle: "thread_idle thr (ReleaseThreadSession thr (ReleaseThreadSession thr ?S2))" by (intro release_idle)
  have "pool (ReleaseThreadSession thr (ReleaseThreadSession thr ?S2)) = P'"
    by (simp add: ReleaseThreadSession_def Let_def split: option.split prod.split)
  with idle e g m show ?thesis
    by (auto simp: Store_EndStepQuery_def on_session_def store_idle_def)
qed

subsection \<open>The result set is a cursor\<close>

definition rs_ok :: "'s env \<Rightarrow> string \<Rightarrow> string list \<Rightarrow> nat \<Rightarrow> int \<times> int \<Rightarrow> 's query_view \<Rightarrow> nat \<Rightarrow> 's rs \<Rightarrow> bool" where
  "rs_ok E q args n np v thr = (\<lambda>(r, S).
     query_contract E q args n np v \<and> \<not> isClosed r \<and> rdb r \<and> sql r = q \<and> selectionArgs r = args \<and> rowCount r \<in> {- 1, int n}
   \<and> - 1 \<le> rowPos r \<and> rowPos r < int n
   \<and> (case sqliteStatement r of
        None \<Rightarrow> rowPos r = - 1 \<and> store_idle v q np thr S
      | Some c \<Rightarrow> step_tid r = Some thr
          \<and> (\<exists>h. store_in_query q np thr c h S \<and> stands v h (nat (rowPos r + 1)) (lib (pool S)))))"

lemma rs_okD:
  assumes "rs_ok E q args n np v thr (r, S)"
  shows "query_contract E q args n np v" and "\<not> isClosed r" "rdb r" "sql r = q" "selectionArgs r = args" "rowCount r \<in> {- 1, int n}"
    and "- 1 \<le> rowPos r" "rowPos r < int n"
    and "sqliteStatement r = None \<Longrightarrow> rowPos r = - 1 \<and> store_idle v q np thr S"
    and "sqliteStatement r = Some c \<Longrightarrow> step_tid r = Some thr \<and> (\<exists>h. store_in_query q np thr c h S \<and> stands v h (nat (rowPos r + 1)) (lib (pool S)))"
  using assms by (auto simp: rs_ok_def)

lemma new_rs_ok:
  "query_contract E q args n np v \<Longrightarrow> store_idle v q np thr S \<Longrightarrow> rs_ok E q args n np v thr (StepResultSet_new q args, S)"
  by (simp add: rs_ok_def StepResultSet_new_def)

lemma in_query_stmt: "store_in_query q np thr c h S \<Longrightarrow> \<exists>st. stmt_at (Some c) S = Some st \<and> stmtHandle st = Some h"
  by (auto simp: store_in_query_def conn_runs_def stmt_at_def)

lemma prepare_ok:
  assumes ok: "rs_ok E q args n np v thr (r, S)"
  shows "\<exists>c S' h. PrepareStep E thr (r, S) = Some (E_OK, r\<lparr>sqliteStatement := Some c, step_tid := Some thr\<rparr>, S')
    \<and> store_in_query q np thr c h S' \<and> stands v h (nat (rowPos r + 1)) (lib (pool S'))"
proof (cases "sqliteStatement r")
  case None
  note d = rs_okD [OF ok]
  from d(9) [OF None] store_begins [OF d(1)] d None show ?thesis by (fastforce simp: PrepareStep_def)
next
  case (Some c)
  note d = rs_okD [OF ok]
  from d(10) [OF Some] have "r = r\<lparr>sqliteStatement := Some c, step_tid := Some thr\<rparr>" using Some by simp
  moreover have "PrepareStep E thr (r, S) = Some (E_OK, r, S)" using d(2) d(10) [OF Some] Some by (auto simp: PrepareStep_def CheckSession_def)
  ultimately show ?thesis using d(10) [OF Some] by metis
qed

lemma finish_ok:
  assumes C: "query_contract E q args n np v" and "sqliteStatement r = Some c" "step_tid r = Some thr" "rdb r"
    and "store_in_query q np thr c h S" "at_row v h (lib (pool S)) \<noteq> None"
  shows "\<exists>S'. FinishStep E thr (r, S) = Some (E_OK, r\<lparr>sqliteStatement := None, rowPos := INIT_POS\<rparr>, S') \<and> store_idle v q np thr S'"
  using store_ends [OF C assms(5,6)] assms by (auto simp: FinishStep_def CheckSession_def)

lemma next_ok:
  assumes ok: "rs_ok E q args n np v thr (r, S)"
  shows "\<exists>r' S'. Step_GoToNextRow E thr (r, S) = Some (if rowPos r + 1 < int n then E_OK else E_STEP_RESULT_IS_AFTER_LAST, r', S')
    \<and> rs_ok E q args n np v thr (r', S')
    \<and> (if rowPos r + 1 < int n then rowPos r' = rowPos r + 1 \<and> rowCount r' = rowCount r \<and> isAfterLast r' = isAfterLast r
       else rowPos r' = - 1 \<and> rowCount r' = int n \<and> isAfterLast r')"
proof -
  note d = rs_okD [OF ok]
  from prepare_ok [OF ok] obtain c S1 h where p: "PrepareStep E thr (r, S) = Some (E_OK, r\<lparr>sqliteStatement := Some c, step_tid := Some thr\<rparr>, S1)"
    "store_in_query q np thr c h S1" "stands v h (nat (rowPos r + 1)) (lib (pool S1))" by blast
  from in_query_stmt [OF p(2)] obtain st where st: "stmt_at (Some c) S1 = Some st" "stmtHandle st = Some h" by blast
  from p(3) obtain b where b: "at_row v h (lib (pool S1)) = Some (nat (rowPos r + 1), b)" "b \<le> 51" by (auto simp: stands_def)
  obtain e0 s0 where e0: "Step (api E) st (lib (pool S1)) = (e0, s0)" by fastforce
  have "nat (rowPos r + 1) \<le> n" using d(7,8) by simp
  from retry_steps [OF d(1) st(2) b(1) _ this, of 0] b(2) d(7) e0 obtain s' where
    s': "GoToNextRow_retry E st 0 e0 s0 = (Some (if rowPos r + 1 < int n then SQLITE_ROW else SQLITE_DONE), s')"
    "if rowPos r + 1 < int n then stands v h (Suc (nat (rowPos r + 1))) s' else at_row v h s' \<noteq> None"
    by (auto simp: nat_less_iff)
  show ?thesis
  proof (cases "rowPos r + 1 < int n")
    case True
    have "nat (rowPos r + 1 + 1) = Suc (nat (rowPos r + 1))" using d(7) by simp
    with True s' st e0 p d(1-8) show ?thesis by (auto simp: Step_GoToNextRow_def rs_ok_def)
  next
    case False
    let ?r = "r\<lparr>sqliteStatement := Some c, step_tid := Some thr, isAfterLast := True, rowCount := rowPos r + 1\<rparr>"
    have n: "rowPos r + 1 = int n" using False d(8) by simp
    have "\<exists>S'. FinishStep E thr (?r, set_lib s' S1) = Some (E_OK, ?r\<lparr>sqliteStatement := None, rowPos := INIT_POS\<rparr>, S') \<and> store_idle v q np thr S'"
      by (rule finish_ok [OF d(1)]) (use p s' False d in auto)
    with False s' st e0 p d n show ?thesis by (auto simp: Step_GoToNextRow_def rs_ok_def)
  qed
qed

lemma reset_ok:
  assumes ok: "rs_ok E q args n np v thr (r, S)"
  shows "\<exists>r' S'. Reset E (r, S) = Some (r', S') \<and> rs_ok E q args n np v thr (r', S') \<and> rowPos r' = - 1 \<and> rowCount r' = rowCount r
    \<and> \<not> isAfterLast r'"
proof (cases "sqliteStatement r")
  case None
  with ok show ?thesis by (auto simp: Reset_def rs_ok_def)
next
  case (Some c)
  note d = rs_okD [OF ok]
  from d(10) [OF Some] obtain h where h: "store_in_query q np thr c h S" "stands v h (nat (rowPos r + 1)) (lib (pool S))" "step_tid r = Some thr" by blast
  from in_query_stmt [OF h(1)] obtain st where st: "stmt_at (Some c) S = Some st" "stmtHandle st = Some h" by blast
  have "at_row v h (lib (pool S)) \<noteq> None" using h(2) by (auto simp: stands_def)
  from contractD(8) [OF d(1) this] obtain s' where "sqlite3_reset (api E) (Some h) (lib (pool S)) = (SQLITE_OK, s')" "stands v h 0 s'" by blast
  with st h Some d show ?thesis by (auto simp: Reset_def rs_ok_def)
qed

lemma go_loop_ok:
  "rs_ok E q args n np v thr (r, S) \<Longrightarrow> rowPos r \<le> p \<Longrightarrow> \<exists>r' S'.
     GoToRow_loop E thr p (r, S) = Some (if p < int n then E_OK else E_STEP_RESULT_IS_AFTER_LAST, r', S')
     \<and> rs_ok E q args n np v thr (r', S') \<and> rowPos r' = (if p < int n then p else - 1)
     \<and> (p < int n \<longrightarrow> rowCount r' = rowCount r \<and> isAfterLast r' = isAfterLast r)"
proof (induction "nat (p - rowPos r)" arbitrary: r S)
  case 0
  then have "p = rowPos r" by simp
  with 0 rs_okD(8) [OF 0(2)] show ?case by (simp add: GoToRow_loop.simps [of E thr "rowPos r" "(r, S)"])
next
  case (Suc k)
  then have ne: "p \<noteq> rowPos r" by auto
  from next_ok [OF Suc.prems(1)] obtain r1 S1 where s: "Step_GoToNextRow E thr (r, S) =
      Some (if rowPos r + 1 < int n then E_OK else E_STEP_RESULT_IS_AFTER_LAST, r1, S1)" "rs_ok E q args n np v thr (r1, S1)"
    "if rowPos r + 1 < int n then rowPos r1 = rowPos r + 1 \<and> rowCount r1 = rowCount r \<and> isAfterLast r1 = isAfterLast r
     else rowPos r1 = - 1 \<and> rowCount r1 = int n \<and> isAfterLast r1" by blast
  show ?case
  proof (cases "rowPos r + 1 < int n")
    case True
    with s(3) Suc.hyps(2) have "k = nat (p - rowPos r1)" "rowPos r1 \<le> p" by auto
    from Suc.hyps(1) [OF this(1) s(2) this(2)] True s ne show ?thesis
      by (auto simp: GoToRow_loop.simps [of E thr p "(r, S)"])
  next
    case False
    then have "\<not> p < int n" using Suc.prems(2) ne by simp
    with False s ne show ?thesis by (simp add: GoToRow_loop.simps [of E thr p "(r, S)"])
  qed
qed

lemma count_loop_ok:
  "rs_ok E q args n np v thr (r, S) \<Longrightarrow> \<exists>r' S'. GetRowCount_loop E thr (r, S) = Some (r', S')
     \<and> rs_ok E q args n np v thr (r', S') \<and> rowPos r' = - 1 \<and> rowCount r' = int n \<and> isAfterLast r'"
proof (induction "nat (int n - rowPos r)" arbitrary: r S)
  case 0
  with rs_okD(8) [OF 0(2)] show ?case by simp
next
  case (Suc k)
  from next_ok [OF Suc.prems] obtain r1 S1 where s: "Step_GoToNextRow E thr (r, S) =
      Some (if rowPos r + 1 < int n then E_OK else E_STEP_RESULT_IS_AFTER_LAST, r1, S1)" "rs_ok E q args n np v thr (r1, S1)"
    "if rowPos r + 1 < int n then rowPos r1 = rowPos r + 1 \<and> rowCount r1 = rowCount r \<and> isAfterLast r1 = isAfterLast r
     else rowPos r1 = - 1 \<and> rowCount r1 = int n \<and> isAfterLast r1" by blast
  show ?case
  proof (cases "rowPos r + 1 < int n")
    case True
    with s(3) Suc.hyps(2) have "k = nat (int n - rowPos r1)" by auto
    from Suc.hyps(1) [OF this s(2)] True s show ?thesis by (simp add: GetRowCount_loop.simps [of E thr "(r, S)"])
  next
    case False
    with s show ?thesis by (simp add: GetRowCount_loop.simps [of E thr "(r, S)"])
  qed
qed

lemma go_ok:
  assumes ok: "rs_ok E q args n np v thr (r, S)"
  shows "\<exists>e r' S'. Step_GoToRow E thr p (r, S) = Some (e, r', S') \<and> rs_ok E q args n np v thr (r', S')
    \<and> (e = E_OK, rowPos r') = move n (- 1) p \<and> (0 \<le> p \<and> p < int n \<longrightarrow> rowCount r' = rowCount r \<and> (rowPos r \<le> p \<longrightarrow> isAfterLast r' = isAfterLast r))"
proof -
  note d = rs_okD [OF ok]
  from reset_ok [OF ok] obtain r1 S1 where R: "Reset E (r, S) = Some (r1, S1)" "rs_ok E q args n np v thr (r1, S1)" "rowPos r1 = - 1"
    "rowCount r1 = rowCount r" by blast
  consider "p < 0" | "p = rowPos r" "0 \<le> p" | "0 \<le> p" "p < rowPos r" | "0 \<le> p" "rowPos r < p" by linarith
  then show ?thesis
  proof cases
    case 1
    with R d show ?thesis by (simp add: Step_GoToRow_def move_def)
  next
    case 2
    with ok d show ?thesis by (simp add: Step_GoToRow_def move_def)
  next
    case 3
    with go_loop_ok [OF R(2), of p] R d show ?thesis by (fastforce simp: Step_GoToRow_def move_def)
  next
    case 4
    with go_loop_ok [OF ok, of p] d show ?thesis by (fastforce simp: Step_GoToRow_def move_def)
  qed
qed

lemma count_ok:
  assumes ok: "rs_ok E q args n np v thr (r, S)"
  shows "\<exists>r' S'. Step_GetRowCount E thr (r, S) = Some (Inr (int n), r', S') \<and> rs_ok E q args n np v thr (r', S') \<and> rowPos r' = rowPos r
    \<and> (rowCount r = - 1 \<and> rowPos r \<noteq> - 1 \<longrightarrow> isAfterLast r')"
proof (cases "rowCount r = - 1")
  case True
  note d = rs_okD [OF ok]
  from count_loop_ok [OF ok] obtain r1 S1 where c: "GetRowCount_loop E thr (r, S) = Some (r1, S1)" "rs_ok E q args n np v thr (r1, S1)"
    "rowPos r1 = - 1" "rowCount r1 = int n" "isAfterLast r1" by blast
  from go_ok [OF c(2), of "rowPos r"] obtain e r2 S2 where g: "Step_GoToRow E thr (rowPos r) (r1, S1) = Some (e, r2, S2)"
    "rs_ok E q args n np v thr (r2, S2)" "(e = E_OK, rowPos r2) = move n (- 1) (rowPos r)"
    "0 \<le> rowPos r \<and> rowPos r < int n \<longrightarrow> rowPos r1 \<le> rowPos r \<longrightarrow> isAfterLast r2 = isAfterLast r1" by blast
  have "rowPos r2 = rowPos r" using g(3) d(7,8) by (auto simp: move_def split: if_splits)
  with True c g d(7,8) show ?thesis by (auto simp: Step_GetRowCount_def)
next
  case False
  with rs_okD(6) [OF ok] ok show ?thesis by (auto simp: Step_GetRowCount_def)
qed

interpretation stepping: row_scanner "step_ops E thr" E_OK "rs_ok E q args n np v thr" n "- 1" "Step_GoToNextRow E thr"
proof unfold_locales
  fix rS p assume ok: "rs_ok E q args n np v thr rS"
  obtain r S where rS: "rS = (r, S)" by fastforce
  show "\<exists>e rS'. vGoToRow (step_ops E thr) p rS = Some (e, rS') \<and> rs_ok E q args n np v thr rS'
      \<and> (e = E_OK, vRowPos (step_ops E thr) rS') = move n (- 1) p"
    using go_ok [of E q args n np v thr r S p] ok rS by (fastforce simp: step_ops_def)
  show "\<exists>rS'. vGetRowCount (step_ops E thr) rS = Some (Inr (int n), rS') \<and> rs_ok E q args n np v thr rS'
      \<and> vRowPos (step_ops E thr) rS' = vRowPos (step_ops E thr) rS"
    using count_ok [of E q args n np v thr r S] ok rS by (fastforce simp: step_ops_def)
  have "rowPos r + 1 \<ge> 0" using rs_okD(7) ok rS by fastforce
  then show "\<exists>e rS'. Step_GoToNextRow E thr rS = Some (e, rS') \<and> rs_ok E q args n np v thr rS'
      \<and> (e = E_OK, vRowPos (step_ops E thr) rS') = move n (- 1) (vRowPos (step_ops E thr) rS + 1)"
    using next_ok [of E q args n np v thr r S] ok rS by (fastforce simp: step_ops_def move_def)
qed

text \<open>
  C6 (refinement): for a query whose statement yields \<open>n\<close> rows, every sequence of positioning calls on a
  new step result set returns, fails exactly where there is no row to go to, and leaves the result set at
  the position a cursor over \<open>n\<close> rows has; the statement has then returned exactly the rows up to that
  position.  Locks that last for at most 51 attempts do not show.
\<close>

theorem step_result_set_is_cursor:
  assumes "query_contract E q args n np v" and "store_idle v q np thr S"
  shows "\<exists>es r S'. run_calls (step_ops E thr) (Step_GoToNextRow E thr) cs (StepResultSet_new q args, S) = Some (es, r, S')
    \<and> (map (\<lambda>e. e = E_OK) es, rowPos r) = moves n (- 1) cs (- 1)
    \<and> (rowPos r \<noteq> - 1 \<longrightarrow> (\<exists>c st h. sqliteStatement r = Some c \<and> stmt_at (Some c) S' = Some st \<and> stmtHandle st = Some h
        \<and> stands v h (nat (rowPos r + 1)) (lib (pool S'))))"
proof -
  have p: "vRowPos (step_ops E thr) (x, y) = rowPos x" for x y by (simp add: step_ops_def)
  have "rowPos (StepResultSet_new q args) = - 1" by (simp add: StepResultSet_new_def)
  with stepping.calls [OF new_rs_ok [OF assms], of cs] obtain es r S' where c:
    "run_calls (step_ops E thr) (Step_GoToNextRow E thr) cs (StepResultSet_new q args, S) = Some (es, r, S')"
    "rs_ok E q args n np v thr (r, S')" "(map (\<lambda>e. e = E_OK) es, rowPos r) = moves n (- 1) cs (- 1)"
    by (auto simp: p)
  have "\<exists>c st h. sqliteStatement r = Some c \<and> stmt_at (Some c) S' = Some st \<and> stmtHandle st = Some h
      \<and> stands v h (nat (rowPos r + 1)) (lib (pool S'))" if "rowPos r \<noteq> - 1"
  proof (cases "sqliteStatement r")
    case None
    with rs_okD(9) [OF c(2)] that show ?thesis by simp
  next
    case (Some c')
    from rs_okD(10) [OF c(2) Some] Some show ?thesis using in_query_stmt by fastforce
  qed
  with c show ?thesis by blast
qed

subsection \<open>A store on a table\<close>

definition table_env :: "cell list list \<Rightarrow> nat env" where
  "table_env rows = \<lparr>api = table_api rows,
     fp = \<lparr>fp_of_int64 = (\<lambda>_. 0), fp_to_int64 = (\<lambda>_. 0), fp_strtod = (\<lambda>_. 0), fp_print15 = (\<lambda>_. ''0''), fp_zero = 0\<rparr>,
     os_stat = (\<lambda>_ _. Some 511), os_chmod = (\<lambda>_ _ s. (0, s)), os_remove = (\<lambda>_ s. (0, s)), os_rename = (\<lambda>_ _ s. (0, s))\<rparr>"

definition table_store :: "nat store" where
  "table_store = RdbStoreImpl_new ''/data/test.db''
     \<lparr>lib = 0, heap = demo_heap, next_ptr = 4, config = demo_pool_config, writeConnection = Some 0, writeConnectionUsed = False,
      readConnections = [1, 2, 3], readConnectionCount = 3, idleReadConnectionCount = 3, transactionStack = []\<rparr>"

definition table_view :: "nat \<Rightarrow> nat query_view" where
  "table_view n = \<lparr>is_live = (\<lambda>_ _. False), prepared = (\<lambda>h s. h = 0 \<and> s = 0),
     at_row = (\<lambda>h s. if h = 0 \<and> s \<le> n then Some (s, 0) else None)\<rparr>"

definition table_columns :: "cell list list \<Rightarrow> int" where
  "table_columns rows = (case rows of [] \<Rightarrow> 0 | r # _ \<Rightarrow> int (length r))"

lemma table_contract: "query_contract (table_env rows) ''SELECT a FROM t'' [] (length rows) (0, table_columns rows) (table_view (length rows))"
proof -
  have "GetSqlStatementType ''SELECT a FROM t'' = STATEMENT_SELECT" by code_simp
  then show ?thesis
    by (auto simp: query_contract_def table_env_def table_api_def table_view_def table_columns_def stands_def BindArguments_def Suc_le_eq)
qed

lemma table_store_idle: "store_idle (table_view n) ''SELECT a FROM t'' np thr table_store"
  by (auto simp: store_idle_def thread_idle_def others_idle_def registry_inv_def table_store_def RdbStoreImpl_new_def pool_gives_def
      demo_heap_def demo_conn_def conn_ready_def stmt_ready_def SqliteStatement_new_def)

theorem step_result_set_is_cursor_witness:
  "\<exists>es r S'. run_calls (step_ops (table_env [[CellLong 1], [CellLong 2]]) 7) (Step_GoToNextRow (table_env [[CellLong 1], [CellLong 2]]) 7)
       [cNext, cNext, cNext, cLast, cFirst, cPrevious, cGoToRow 1] (StepResultSet_new ''SELECT a FROM t'' [], table_store) = Some (es, r, S')
     \<and> map (\<lambda>e. e = E_OK) es = [True, True, False, True, True, False, True] \<and> rowPos r = 1"
  using step_result_set_is_cursor [OF table_contract [of "[[CellLong 1], [CellLong 2]]"] table_store_idle,
      of 7 "[cNext, cNext, cNext, cLast, cFirst, cPrevious, cGoToRow 1]"]
  by (fastforce simp: move_def)

lemma table_first_row:
  "\<exists>r S'. Step_GoToNextRow (table_env [[CellLong 1]]) 7 (StepResultSet_new ''SELECT a FROM t'' [], table_store) = Some (E_OK, r, S')
     \<and> rs_ok (table_env [[CellLong 1]]) ''SELECT a FROM t'' [] 1 (0, 1) (table_view 1) 7 (r, S') \<and> rowPos r = 0 \<and> rowCount r = - 1"
  using next_ok [OF new_rs_ok [OF table_contract [of "[[CellLong 1]]"] table_store_idle], of 7]
  by (auto simp: StepResultSet_new_def table_columns_def)

theorem step_result_set_inv_witness:
  "\<exists>r. rs_reach (table_env [[CellLong 1]]) ''SELECT a FROM t'' [] r \<and> rs_inv r \<and> rowPos r = 0 \<and> sqliteStatement r \<noteq> None"
proof -
  let ?E = "table_env [[CellLong 1]]" and ?q = "''SELECT a FROM t''"
  obtain r S' where r: "Step_GoToNextRow ?E 7 (StepResultSet_new ?q [], table_store) = Some (E_OK, r, S')" "rowPos r = 0"
    using table_first_row by blast
  have "call_rs ?E 7 rGoToNextRow (StepResultSet_new ?q [], table_store) = Some (r, S')" using r(1) by simp
  then have reach: "rs_reach ?E ?q [] r" by (rule rs_reach.step [OF rs_reach.new])
  have "rs_inv r" using step_result_set_inv [OF reach] by blast
  with reach r(2) show ?thesis by (auto simp: rs_inv_def)
qed

subsection \<open>Two step queries of one thread, and the end flag\<close>

lemma begin_in_query:
  assumes "store_in_query q np thr c h S"
  shows "\<exists>S'. Store_BeginStepQuery E thr q2 args2 S = Ret (Inl E_MORE_STEP_QUERY_IN_ONE_SESSION, S')
    \<and> store_in_query q np thr c h S' \<and> lib (pool S') = lib (pool S)"
proof -
  obtain sid S1 where g: "GetThreadSession thr S = (sid, S1)" by fastforce
  from assms obtain x m where x: "others_idle S" "threadMap S thr = Some (x, m)" "sessions S ! x = in_query c" by (auto simp: store_in_query_def)
  from get_session [OF x(1) g] x have m: "others_idle S1" "sid < length (sessions S1)" "pool S1 = pool S" "threadMap S1 thr = Some (sid, m + 1)"
    "sessions S1 ! sid = in_query c" by auto
  then have "on_session sid (Session_BeginStepQuery E q2 args2) S1 = Ret (Inl E_MORE_STEP_QUERY_IN_ONE_SESSION, S1)"
    by (simp add: on_session_def Session_BeginStepQuery_def list_update_same_conv)
  moreover have "store_in_query q np thr c h S1" using assms m by (auto simp: store_in_query_def)
  ultimately show ?thesis using g m(3) by (auto simp: Store_BeginStepQuery_def)
qed

text \<open>
  A thread that begins a second step query while its first stands on a row gets the error
  \<open>E_MORE_STEP_QUERY_IN_ONE_SESSION\<close>, and the clean-up after that error ends the query of the first: its
  connection is back in the pool, for the next reader to take, while the first result set still points to
  the statement of that connection.
\<close>

theorem second_query_ends_first:
  assumes ok: "rs_ok E q args n np v thr (r, S)" and "rowPos r \<noteq> - 1"
  shows "\<exists>c S'. sqliteStatement r = Some c
    \<and> PrepareStep E thr (StepResultSet_new q2 args2, S) = Some (E_MORE_STEP_QUERY_IN_ONE_SESSION, StepResultSet_new q2 args2, S')
    \<and> pool_gives (pool S') c"
proof (cases "sqliteStatement r")
  case None
  with rs_okD(9) [OF ok] assms(2) show ?thesis by simp
next
  case (Some c)
  note d = rs_okD [OF ok]
  from d(10) [OF Some] obtain h where h: "store_in_query q np thr c h S" "stands v h (nat (rowPos r + 1)) (lib (pool S))" by blast
  from begin_in_query [OF h(1), of E q2 args2] obtain S1 where
    b: "Store_BeginStepQuery E thr q2 args2 S = Ret (Inl E_MORE_STEP_QUERY_IN_ONE_SESSION, S1)"
    "store_in_query q np thr c h S1" "lib (pool S1) = lib (pool S)" by blast
  have "at_row v h (lib (pool S1)) \<noteq> None" using h(2) b(3) by (auto simp: stands_def)
  from store_ends [OF d(1) b(2) this] b Some show ?thesis by (auto simp: PrepareStep_def StepResultSet_new_def)
qed

theorem second_query_ends_first_witness:
  "\<exists>r c S S'. Step_GoToNextRow (table_env [[CellLong 1]]) 7 (StepResultSet_new ''SELECT a FROM t'' [], table_store) = Some (E_OK, r, S)
     \<and> sqliteStatement r = Some c
     \<and> PrepareStep (table_env [[CellLong 1]]) 7 (StepResultSet_new ''SELECT 1'' [], S)
         = Some (E_MORE_STEP_QUERY_IN_ONE_SESSION, StepResultSet_new ''SELECT 1'' [], S') \<and> pool_gives (pool S') c"
  using table_first_row second_query_ends_first [of "table_env [[CellLong 1]]" "''SELECT a FROM t''" "[]" 1 "(0, 1)" "table_view 1" 7 _ _ "''SELECT 1''" "[]"]
  by fastforce

text \<open>
  Asking for the row count from a row, when it is not known yet, runs to the end and comes
  back to the row; \<open>IsEnded\<close> answers yes from then on, although the result set stands on a row.
\<close>

theorem row_count_marks_ended:
  assumes "rs_ok E q args n np v thr (r, S)" and "rowPos r \<noteq> - 1" and "rowCount r = - 1"
  shows "\<exists>r' S'. Step_GetRowCount E thr (r, S) = Some (Inr (int n), r', S') \<and> rowPos r' = rowPos r \<and> Step_IsEnded r'"
  using count_ok [OF assms(1)] assms(2,3) by (auto simp: Step_IsEnded_def)

theorem row_count_marks_ended_witness:
  "\<exists>r S r' S'. Step_GoToNextRow (table_env [[CellLong 1]]) 7 (StepResultSet_new ''SELECT a FROM t'' [], table_store) = Some (E_OK, r, S)
     \<and> Step_GetRowCount (table_env [[CellLong 1]]) 7 (r, S) = Some (Inr 1, r', S') \<and> rowPos r' = 0 \<and> Step_IsEnded r'"
  using table_first_row row_count_marks_ended [of "table_env [[CellLong 1]]" "''SELECT a FROM t''" "[]" 1 "(0, 1)" "table_view 1" 7]
  by fastforce

text \<open>A result set that has never been moved cannot be closed without an error.\<close>

lemma Close_unmoved:
  "Step_Close E thr (StepResultSet_new q args, S)
   = Some (E_STEP_RESULT_SET_CROSS_THREADS, StepResultSet_new q args\<lparr>isClosed := True, rdb := False\<rparr>, S)"
  by (simp add: Step_Close_def StepResultSet_new_def FinishStep_def CheckSession_def)

text \<open>Closing from another thread leaves the query of the first thread open: its session stays in it.\<close>

lemma Close_other_thread:
  "rs_ok E q args n np v thr (r, S) \<Longrightarrow> sqliteStatement r = Some c \<Longrightarrow> other \<noteq> thr \<Longrightarrow>
     Step_Close E other (r, S) = Some (E_STEP_RESULT_SET_CROSS_THREADS, r\<lparr>isClosed := True, rdb := False\<rparr>, S)"
  using rs_okD(2,10) [of E q args n np v thr r S] by (auto simp: Step_Close_def FinishStep_def CheckSession_def)

definition locked_env :: "nat env" where
  "locked_env = (table_env [])\<lparr>api := (table_api [])\<lparr>sqlite3_step := (\<lambda>_ s. (SQLITE_BUSY, Suc s))\<rparr>\<rparr>"

theorem next_row_gives_up_witness:
  "Step_GoToNextRow locked_env 7 (StepResultSet_new ''SELECT 1'' []\<lparr>sqliteStatement := Some 1, step_tid := Some 7\<rparr>, table_store)
   = Some (E_STEP_RESULT_QUERY_EXCEEDED, StepResultSet_new ''SELECT 1'' []\<lparr>sqliteStatement := Some 1, step_tid := Some 7\<rparr>, set_lib 52 table_store)"
proof -
  have st: "stmt_at (Some 1) table_store = Some SqliteStatement_new"
    by (simp add: stmt_at_def table_store_def RdbStoreImpl_new_def demo_heap_def demo_conn_def)
  have f: "step_on locked_env SqliteStatement_new = Suc" by (auto simp: step_on_def locked_env_def)
  have "(Suc ^^ n) m = n + m" for n m by (induction n) auto
  with next_row_gives_up [of "StepResultSet_new ''SELECT 1'' []\<lparr>sqliteStatement := Some 1, step_tid := Some 7\<rparr>" 1 7 table_store SqliteStatement_new locked_env] st f
  show ?thesis by (simp add: StepResultSet_new_def locked_env_def table_store_def RdbStoreImpl_new_def)
qed

end
