(* ===== verification/Shared_Result_Set.thy ===== *)
theory Shared_Result_Set
  imports Step_Result_Set
begin

text \<open>
  The result set over a shared block (abs_shared_result_set.cpp, sqlite_shared_result_set.cpp), and the
  path that fills its block: the connection, the session and the store method \<open>ExecuteForSharedBlock\<close>.
  The result set owns its block, so the block is part of its state.  A pointer that would be null is
  \<open>None\<close>; the outer \<open>None\<close> is a call that does not return.
\<close>

subsection \<open>Reading a cell\<close>

text \<open>The zero-terminated text at an address; running out of the block is undefined.\<close>

definition c_string :: "SharedBlock \<Rightarrow> nat \<Rightarrow> string option" where
  "c_string B a =
     map_option (\<lambda>z. map (\<lambda>i. char_of (unat (mData B i))) [a..<z]) (List.find (\<lambda>i. mData B i = 0) [a..<unat (mSize B)])"

definition on_cell :: "SharedBlock \<Rightarrow> uint32 \<Rightarrow> uint32 \<Rightarrow> (nat \<Rightarrow> uint32 \<Rightarrow> 'a result option) \<Rightarrow> 'a result option" where
  "on_cell B row column get = do {
     cellUnit \<leftarrow> GetCellUnit B row column;
     case cellUnit of
       None \<Rightarrow> Some (Inl E_ERROR)
     | Some u \<Rightarrow> do { t \<leftarrow> ld32 B u; get u t }
   }"

definition Cell_GetBlob :: "SharedBlock \<Rightarrow> uint32 \<Rightarrow> uint32 \<Rightarrow> byte list result option" where
  "Cell_GetBlob B row column = on_cell B row column (\<lambda>u t.
     if t = CELL_UNIT_TYPE_BLOB \<or> t = CELL_UNIT_TYPE_STRING then do {
       (blob, k) \<leftarrow> GetCellUnitValueBlob B u;
       case blob of
         None \<Rightarrow> Some (Inr [])
       | Some a \<Rightarrow> if k = 0 then Some (Inr []) else map_option Inr (ld_bytes B a k)
     }
     else if t = CELL_UNIT_TYPE_INTEGER \<or> t = CELL_UNIT_TYPE_NULL \<or> t = CELL_UNIT_TYPE_FLOAT then Some (Inr [])
     else Some (Inl E_INVALID_OBJECT_TYPE))"

text \<open>The text of a string cell, as the conversions use it: none when it is empty.\<close>

definition cell_text :: "SharedBlock \<Rightarrow> nat \<Rightarrow> string option option" where
  "cell_text B u = do {
     (tempValue, sizeIncludingNull) \<leftarrow> GetCellUnitValueString B u;
     case tempValue of
       None \<Rightarrow> Some None
     | Some a \<Rightarrow> if sizeIncludingNull \<le> 1 then Some None else map_option Some (c_string B a)
   }"

text \<open>Printing a double to an output stream is the parameter \<open>os\<close>.\<close>

definition Cell_GetString :: "(64 word \<Rightarrow> string) \<Rightarrow> SharedBlock \<Rightarrow> uint32 \<Rightarrow> uint32 \<Rightarrow> string result option" where
  "Cell_GetString os B row column = on_cell B row column (\<lambda>u t.
     if t = CELL_UNIT_TYPE_STRING then do {
       text \<leftarrow> cell_text B u;
       Some (case text of None \<Rightarrow> Inl E_ERROR | Some value \<Rightarrow> Inr value)
     }
     else if t = CELL_UNIT_TYPE_INTEGER then do { v \<leftarrow> ld64 B (cell_at u); Some (Inr (to_string (sint v))) }
     else if t = CELL_UNIT_TYPE_FLOAT then do { v \<leftarrow> ld64 B (cell_at u); Some (Inr (os v)) }
     else Some (Inl E_ERROR))"

definition Cell_GetInt :: "SharedBlock \<Rightarrow> uint32 \<Rightarrow> uint32 \<Rightarrow> (32 word) result option" where
  "Cell_GetInt B row column = on_cell B row column (\<lambda>u t. do { v \<leftarrow> ld64 B (cell_at u); Some (Inr (ucast v)) })"

definition Cell_GetLong :: "fp_ops \<Rightarrow> SharedBlock \<Rightarrow> uint32 \<Rightarrow> uint32 \<Rightarrow> int64 result option" where
  "Cell_GetLong f B row column = on_cell B row column (\<lambda>u t.
     if t = CELL_UNIT_TYPE_INTEGER then map_option Inr (ld64 B (cell_at u))
     else if t = CELL_UNIT_TYPE_STRING then do {
       text \<leftarrow> cell_text B u;
       Some (Inr (case text of None \<Rightarrow> 0 | Some value \<Rightarrow> strtoll value))
     }
     else if t = CELL_UNIT_TYPE_FLOAT then do { v \<leftarrow> ld64 B (cell_at u); Some (Inr (fp_to_int64 f v)) }
     else if t = CELL_UNIT_TYPE_NULL \<or> t = CELL_UNIT_TYPE_BLOB then Some (Inr 0)
     else Some (Inl E_INVALID_OBJECT_TYPE))"

definition Cell_GetDouble :: "fp_ops \<Rightarrow> SharedBlock \<Rightarrow> uint32 \<Rightarrow> uint32 \<Rightarrow> (64 word) result option" where
  "Cell_GetDouble f B row column = on_cell B row column (\<lambda>u t.
     if t = CELL_UNIT_TYPE_FLOAT then map_option Inr (ld64 B (cell_at u))
     else if t = CELL_UNIT_TYPE_STRING then do {
       text \<leftarrow> cell_text B u;
       Some (Inr (case text of None \<Rightarrow> fp_zero f | Some value \<Rightarrow> fp_strtod f value))
     }
     else if t = CELL_UNIT_TYPE_INTEGER then do { v \<leftarrow> ld64 B (cell_at u); Some (Inr (fp_of_int64 f v)) }
     else if t = CELL_UNIT_TYPE_NULL \<or> t = CELL_UNIT_TYPE_BLOB then Some (Inr (fp_zero f))
     else Some (Inl E_INVALID_OBJECT_TYPE))"

definition Cell_IsColumnNull :: "SharedBlock \<Rightarrow> uint32 \<Rightarrow> uint32 \<Rightarrow> bool result option" where
  "Cell_IsColumnNull B row column = on_cell B row column (\<lambda>u t. Some (Inr (t = CELL_UNIT_TYPE_NULL)))"

definition Cell_GetColumnType :: "SharedBlock \<Rightarrow> uint32 \<Rightarrow> uint32 \<Rightarrow> uint32 result option" where
  "Cell_GetColumnType B row column = on_cell B row column (\<lambda>u t. Some (Inr t))"

subsection \<open>Filling a block through the store\<close>

text \<open>The out parameter \<open>rowNum\<close> and the block are returned with the code.\<close>

definition Conn_ExecuteForSharedBlock :: "'s env \<Rightarrow> 's shared_ext \<Rightarrow> (nat \<Rightarrow> nat \<Rightarrow> bool) \<Rightarrow> int \<Rightarrow> string \<Rightarrow> ValueObject list \<Rightarrow>
    SharedBlock option \<Rightarrow> int \<Rightarrow> int \<Rightarrow> bool \<Rightarrow> SqliteConnection \<Rightarrow> 's \<Rightarrow>
    ((rdb_errno \<times> int \<times> SharedBlock option) \<times> SqliteConnection \<times> 's) option" where
  "Conn_ExecuteForSharedBlock E X sec num q bindArgs blk start required countAll c s =
     (case blk of
        None \<Rightarrow> Some ((E_ERROR, num, None), c, s)
      | Some B \<Rightarrow> do {
          (errCode, c, s) \<leftarrow> PrepareAndBind E q bindArgs c s;
          if errCode \<noteq> E_OK then Some ((errCode, num, Some B), c, s)
          else do {
            (status, B) \<leftarrow> Clear B;
            if status \<noteq> SHARED_BLOCK_OK then Some ((E_ERROR, num, Some B), c, s)
            else do {
              let tempSqlite3St = stmtHandle (statement c);
              let columns = sqlite3_column_count (api E) tempSqlite3St s;
              (status, B) \<leftarrow> SetColumnNum (of_int columns) B;
              if status \<noteq> SHARED_BLOCK_OK then Some ((E_ERROR, num, Some B), c, s)
              else do {
                let info = SharedBlockInfo_new B tempSqlite3St\<lparr>requiredPos := required, columnNum := columns,
                  isCountAllRows := countAll, startPos := start\<rparr>;
                let (rc, s) = use_shared X (dbHandle c) s;
                (info, s) \<leftarrow> (if rc = SQLITE_OK then Some (FillSharedBlockOpt X (dbHandle c) info s)
                              else FillSharedBlock (api E) sec info s);
                let (ok, s) = ResetStatement (api E) info s;
                if \<not> ok then Some ((E_ERROR, num, Some (sharedBlock info)), c, s)
                else do {
                  let num = sint (ucast (GetCombinedData (startPos info) (totalRows info)) :: 32 word);
                  let (errCode, s) = ResetStatementAndClearBindings (api E) (statement c) s;
                  Some ((errCode, num, Some (sharedBlock info)), c, s)
                }
              }
            }
          }
        })"

definition Session_ExecuteForSharedBlock :: "'s env \<Rightarrow> 's shared_ext \<Rightarrow> (nat \<Rightarrow> nat \<Rightarrow> bool) \<Rightarrow> int \<Rightarrow> string \<Rightarrow> ValueObject list \<Rightarrow>
    SharedBlock option \<Rightarrow> int \<Rightarrow> int \<Rightarrow> bool \<Rightarrow> StoreSession \<Rightarrow> 's pool \<Rightarrow>
    ((rdb_errno \<times> int \<times> SharedBlock option) \<times> StoreSession \<times> 's pool) run" where
  "Session_ExecuteForSharedBlock E X sec num q bindArgs blk start required countAll ss P =
     run_bind (execute_with E q (\<lambda>c s. map_option (\<lambda>(r, c, s). (Inr r, c, s))
         (Conn_ExecuteForSharedBlock E X sec num q bindArgs blk start required countAll c s)) ss P)
       (\<lambda>(r, ss, P). Ret (case r of Inl errCode \<Rightarrow> (errCode, num, blk) | Inr v \<Rightarrow> v, ss, P))"

definition Store_ExecuteForSharedBlock :: "'s env \<Rightarrow> 's shared_ext \<Rightarrow> (nat \<Rightarrow> nat \<Rightarrow> bool) \<Rightarrow> nat \<Rightarrow> int \<Rightarrow> SharedBlock option \<Rightarrow>
    int \<Rightarrow> int \<Rightarrow> bool \<Rightarrow> string \<Rightarrow> ValueObject list \<Rightarrow> 's store \<Rightarrow> ((rdb_errno \<times> int \<times> SharedBlock option) \<times> 's store) run" where
  "Store_ExecuteForSharedBlock E X sec thr num blk start required countAll q bindArgs S =
     in_session thr (Session_ExecuteForSharedBlock E X sec num q bindArgs blk start required countAll) S"

subsection \<open>The result set\<close>

abbreviation (input) NO_COUNT :: int where "NO_COUNT \<equiv> - 1"
abbreviation (input) DEFAULT_BLOCK_SIZE :: "64 word" where "DEFAULT_BLOCK_SIZE \<equiv> 2097152"
abbreviation (input) PICK_POS :: int where "PICK_POS \<equiv> 3"

record SqliteSharedResultSet =
  sh_rowPos :: int
  sh_isClosed :: bool
  sh_block :: "SharedBlock option"
  resultSetBlockCapacity :: int
  isOnlyFillResultSetBlock :: bool
  qrySql :: string
  selectionArgVec :: "string list"
  rowNum :: int
  sh_tid :: "nat option"
  sh_statement :: ptr

definition SqliteSharedResultSet_new :: "ashmem_ops \<Rightarrow> string \<Rightarrow> string \<Rightarrow> string list \<Rightarrow> SqliteSharedResultSet" where
  "SqliteSharedResultSet_new A path q bindArgs =
     \<lparr>sh_rowPos = INIT_POS, sh_isClosed = False, sh_block = snd (Create A path DEFAULT_BLOCK_SIZE), resultSetBlockCapacity = 0,
      isOnlyFillResultSetBlock = False, qrySql = q, selectionArgVec = bindArgs, rowNum = NO_COUNT, sh_tid = None, sh_statement = None\<rparr>"

type_synonym 's shrs = "SqliteSharedResultSet \<times> 's store"

text \<open>What the methods need of their surroundings: SQLite with its extension, the copy routines, the
  printing of doubles and the calling thread.\<close>

record 's shctx =
  cE :: "'s env"
  cX :: "'s shared_ext"
  csec :: "nat \<Rightarrow> nat \<Rightarrow> bool"
  cos :: "64 word \<Rightarrow> string"
  cthr :: nat

definition Shared_CheckSession :: "'s shctx \<Rightarrow> SqliteSharedResultSet \<Rightarrow> rdb_errno" where
  "Shared_CheckSession K r = (if Some (cthr K) \<noteq> sh_tid r then E_STEP_RESULT_SET_CROSS_THREADS else E_OK)"

definition Shared_PrepareStep :: "'s shctx \<Rightarrow> 's shrs \<Rightarrow> (rdb_errno \<times> 's shrs) option" where
  "Shared_PrepareStep K = (\<lambda>(r, S).
     if sh_isClosed r then Some (E_STEP_RESULT_CLOSED, r, S)
     else if sh_statement r \<noteq> None then Some (Shared_CheckSession K r, r, S)
     else do {
       (res, S) \<leftarrow> returned (Store_BeginStepQuery (cE K) (cthr K) (qrySql r) (selectionArgVec r) S);
       case res of
         Inl errCode \<Rightarrow> do {
           (_, S) \<leftarrow> returned (Store_EndStepQuery (cE K) (cthr K) S);
           Some (errCode, r, S)
         }
       | Inr _ \<Rightarrow> Some (E_OK, r\<lparr>sh_statement := thread_connection (cthr K) S, sh_tid := Some (cthr K)\<rparr>, S)
     })"

definition Shared_GetAllColumnNames :: "'s shctx \<Rightarrow> 's shrs \<Rightarrow> (string list result \<times> 's shrs) option" where
  "Shared_GetAllColumnNames K rS = do {
     (errCode, r, S) \<leftarrow> Shared_PrepareStep K rS;
     if errCode \<noteq> E_OK then Some (Inl errCode, r, S)
     else do {
       st \<leftarrow> stmt_at (sh_statement r) S;
       case GetColumnCount st of
         Inl errCode \<Rightarrow> Some (Inl errCode, r, S)
       | Inr n \<Rightarrow>
           (case column_names_loop (cE K) st [0..<nat n] (lib (pool S)) of
              Inl errCode \<Rightarrow> Some (Inl errCode, r, S)
            | Inr columnNames \<Rightarrow> do {
                (_, S) \<leftarrow> returned (Store_EndStepQuery (cE K) (cthr K) S);
                Some (Inr columnNames, r\<lparr>sh_statement := None\<rparr>, S)
              })
     }
   }"

definition ClearBlock :: "SharedBlock option \<Rightarrow> SharedBlock option option" where
  "ClearBlock blk = (case blk of None \<Rightarrow> Some None | Some B \<Rightarrow> map_option (\<lambda>(_, B). Some B) (Clear B))"

definition PickFillBlockStartPosition :: "int \<Rightarrow> int \<Rightarrow> int" where
  "PickFillBlockStartPosition resultSetPosition blockCapacity =
     max (resultSetPosition - sgn blockCapacity * (\<bar>blockCapacity\<bar> div PICK_POS)) 0"

definition Shared_FillSharedBlock :: "'s shctx \<Rightarrow> int \<Rightarrow> 's shrs \<Rightarrow> 's shrs option" where
  "Shared_FillSharedBlock K required = (\<lambda>(r, S). do {
     blk \<leftarrow> ClearBlock (sh_block r);
     let r = r\<lparr>sh_block := blk\<rparr>;
     if blk = None then Some (r, S)
     else do {
       let bindArgs = map ValueObject_string (selectionArgVec r);
       if rowNum r = NO_COUNT then do {
         ((_, num, blk), S) \<leftarrow> returned (Store_ExecuteForSharedBlock (cE K) (cX K) (csec K) (cthr K) (rowNum r) (sh_block r)
           required required True (qrySql r) bindArgs S);
         cap \<leftarrow> Option.bind blk GetRowNum;
         Some (r\<lparr>rowNum := num, sh_block := blk, resultSetBlockCapacity := sint cap\<rparr>, S)
       }
       else do {
         let start = (if isOnlyFillResultSetBlock r then required
                      else PickFillBlockStartPosition required (resultSetBlockCapacity r));
         ((_, num, blk), S) \<leftarrow> returned (Store_ExecuteForSharedBlock (cE K) (cX K) (csec K) (cthr K) (rowNum r) (sh_block r)
           start required False (qrySql r) bindArgs S);
         Some (r\<lparr>rowNum := num, sh_block := blk\<rparr>, S)
       }
     }
   })"

definition Shared_GetRowCount :: "'s shctx \<Rightarrow> 's shrs \<Rightarrow> (int result \<times> 's shrs) option" where
  "Shared_GetRowCount K = (\<lambda>(r, S). do {
     (r, S) \<leftarrow> (if rowNum r = NO_COUNT then Shared_FillSharedBlock K 0 (r, S) else Some (r, S));
     Some (Inr (rowNum r), r, S)
   })"

definition Shared_OnGo :: "'s shctx \<Rightarrow> int \<Rightarrow> 's shrs \<Rightarrow> 's shrs option" where
  "Shared_OnGo K newPosition = (\<lambda>(r, S).
     case sh_block r of
       None \<Rightarrow> Shared_FillSharedBlock K newPosition (r, S)
     | Some B \<Rightarrow> do {
         n \<leftarrow> GetRowNum B;
         if newPosition \<ge> sint n then Shared_FillSharedBlock K newPosition (r, S) else Some (r, S)
       })"

text \<open>\<open>OnGo\<close> of this class always answers true, so the branch for false is not taken.\<close>

definition Shared_GoToRow :: "'s shctx \<Rightarrow> int \<Rightarrow> 's shrs \<Rightarrow> (rdb_errno \<times> 's shrs) option" where
  "Shared_GoToRow K position rS = do {
     (res, r, S) \<leftarrow> Shared_GetRowCount K rS;
     let rowCnt = (case res of Inl _ \<Rightarrow> 0 | Inr n \<Rightarrow> n);
     if position \<ge> rowCnt then Some (E_ERROR, r\<lparr>sh_rowPos := rowCnt\<rparr>, S)
     else if position < 0 then Some (E_ERROR, r\<lparr>sh_rowPos := INIT_POS\<rparr>, S)
     else if position = sh_rowPos r then Some (E_OK, r, S)
     else do {
       outside \<leftarrow> (case sh_block r of
                     None \<Rightarrow> Some True
                   | Some B \<Rightarrow> do { n \<leftarrow> GetRowNum B; Some ((of_int position :: uint32) \<ge> n) });
       (r, S) \<leftarrow> (if outside then Shared_OnGo K position (r, S) else Some (r, S));
       Some (E_OK, r\<lparr>sh_rowPos := position\<rparr>, S)
     }
   }"

definition shared_ops :: "'s shctx \<Rightarrow> (rdb_errno, 's shrs) result_set_ops" where
  "shared_ops K =
     \<lparr>vRowPos = (\<lambda>(r, S). sh_rowPos r), vGoToRow = Shared_GoToRow K, vGetRowCount = Shared_GetRowCount K,
      vGetAllColumnNames = Shared_GetAllColumnNames K\<rparr>"

definition Shared_CheckState :: "'s shctx \<Rightarrow> int \<Rightarrow> 's shrs \<Rightarrow> (rdb_errno \<times> 's shrs) option" where
  "Shared_CheckState K columnIndex rS =
     (if sh_block (fst rS) = None then Some (E_ERROR, rS)
      else do {
        (res, rS) \<leftarrow> Rs_GetColumnCount (shared_ops K) rS;
        let cnt = (case res of Inl _ \<Rightarrow> 0 | Inr n \<Rightarrow> n);
        if columnIndex \<ge> cnt \<or> columnIndex < 0 then Some (E_INVALID_COLUMN_INDEX, rS)
        else do {
          (res, rS) \<leftarrow> Shared_GetRowCount K rS;
          let rowCnt = (case res of Inl _ \<Rightarrow> 0 | Inr n \<Rightarrow> n);
          Some (if sh_rowPos (fst rS) < 0 \<or> sh_rowPos (fst rS) \<ge> rowCnt then E_INVALID_STATEMENT else E_OK, rS)
        }
      })"

text \<open>What the getters share: check, then read the cell of the row with the number of the position.\<close>

definition shared_get :: "'s shctx \<Rightarrow> int \<Rightarrow> (SharedBlock \<Rightarrow> uint32 \<Rightarrow> uint32 \<Rightarrow> 'a result option) \<Rightarrow> 's shrs \<Rightarrow>
    ('a result \<times> 's shrs) option" where
  "shared_get K columnIndex get rS = do {
     (errCode, r, S) \<leftarrow> Shared_CheckState K columnIndex rS;
     if errCode \<noteq> E_OK then Some (Inl errCode, r, S)
     else do {
       B \<leftarrow> sh_block r;
       v \<leftarrow> get B (of_int (sh_rowPos r)) (of_int columnIndex);
       Some (v, r, S)
     }
   }"

definition Shared_GetBlob :: "'s shctx \<Rightarrow> int \<Rightarrow> 's shrs \<Rightarrow> (byte list result \<times> 's shrs) option" where
  "Shared_GetBlob K columnIndex = shared_get K columnIndex Cell_GetBlob"

definition Shared_GetString :: "'s shctx \<Rightarrow> int \<Rightarrow> 's shrs \<Rightarrow> (string result \<times> 's shrs) option" where
  "Shared_GetString K columnIndex = shared_get K columnIndex (Cell_GetString (cos K))"

definition Shared_GetInt :: "'s shctx \<Rightarrow> int \<Rightarrow> 's shrs \<Rightarrow> ((32 word) result \<times> 's shrs) option" where
  "Shared_GetInt K columnIndex = shared_get K columnIndex Cell_GetInt"

definition Shared_GetLong :: "'s shctx \<Rightarrow> int \<Rightarrow> 's shrs \<Rightarrow> (int64 result \<times> 's shrs) option" where
  "Shared_GetLong K columnIndex = shared_get K columnIndex (Cell_GetLong (fp (cE K)))"

definition Shared_GetDouble :: "'s shctx \<Rightarrow> int \<Rightarrow> 's shrs \<Rightarrow> ((64 word) result \<times> 's shrs) option" where
  "Shared_GetDouble K columnIndex = shared_get K columnIndex (Cell_GetDouble (fp (cE K)))"

definition Shared_IsColumnNull :: "'s shctx \<Rightarrow> int \<Rightarrow> 's shrs \<Rightarrow> (bool result \<times> 's shrs) option" where
  "Shared_IsColumnNull K columnIndex = shared_get K columnIndex Cell_IsColumnNull"

text \<open>This one does not check the state, and does not check that there is a block.\<close>

definition Shared_GetColumnType :: "int \<Rightarrow> 's shrs \<Rightarrow> uint32 result option" where
  "Shared_GetColumnType columnIndex = (\<lambda>(r, S).
     Option.bind (sh_block r) (\<lambda>B. Cell_GetColumnType B (of_int (sh_rowPos r)) (of_int columnIndex)))"

definition Shared_Close :: "SqliteSharedResultSet \<Rightarrow> SqliteSharedResultSet" where
  "Shared_Close r = r\<lparr>sh_isClosed := True, sh_block := None\<rparr>"

definition Shared_SetBlock :: "SharedBlock option \<Rightarrow> SqliteSharedResultSet \<Rightarrow> SqliteSharedResultSet" where
  "Shared_SetBlock blk r = r\<lparr>sh_block := blk, rowNum := NO_COUNT\<rparr>"

definition Shared_HasBlock :: "SqliteSharedResultSet \<Rightarrow> bool" where
  "Shared_HasBlock r = (sh_block r \<noteq> None)"

definition SetFillBlockForwardOnly :: "bool \<Rightarrow> SqliteSharedResultSet \<Rightarrow> SqliteSharedResultSet" where
  "SetFillBlockForwardOnly b r = r\<lparr>isOnlyFillResultSetBlock := b\<rparr>"

subsection \<open>What the getters of a cell return\<close>

definition c_text :: "byte list \<Rightarrow> string" where
  "c_text bs = map (\<lambda>b. char_of (unat b)) (takeWhile (\<lambda>b. b \<noteq> 0) bs)"

definition terminated :: "cell \<Rightarrow> bool" where
  "terminated x = (case x of CellString bs \<Rightarrow> 0 \<in> set bs | _ \<Rightarrow> True)"

definition blob_of_cell :: "cell \<Rightarrow> byte list result" where
  "blob_of_cell x = (case x of CellBlob bs \<Rightarrow> Inr bs | CellString bs \<Rightarrow> Inr bs | _ \<Rightarrow> Inr [])"

definition string_of_cell :: "(64 word \<Rightarrow> string) \<Rightarrow> cell \<Rightarrow> string result" where
  "string_of_cell os x =
     (case x of CellString bs \<Rightarrow> if length bs \<le> 1 then Inl E_ERROR else Inr (c_text bs)
      | CellLong v \<Rightarrow> Inr (to_string (sint v)) | CellDouble v \<Rightarrow> Inr (os v) | _ \<Rightarrow> Inl E_ERROR)"

definition long_of_cell :: "fp_ops \<Rightarrow> cell \<Rightarrow> int64 result" where
  "long_of_cell f x =
     (case x of CellLong v \<Rightarrow> Inr v | CellDouble v \<Rightarrow> Inr (fp_to_int64 f v)
      | CellString bs \<Rightarrow> Inr (if length bs \<le> 1 then 0 else strtoll (c_text bs)) | _ \<Rightarrow> Inr 0)"

definition double_of_cell :: "fp_ops \<Rightarrow> cell \<Rightarrow> (64 word) result" where
  "double_of_cell f x =
     (case x of CellDouble v \<Rightarrow> Inr v | CellLong v \<Rightarrow> Inr (fp_of_int64 f v)
      | CellString bs \<Rightarrow> Inr (if length bs \<le> 1 then fp_zero f else fp_strtod f (c_text bs)) | _ \<Rightarrow> Inr (fp_zero f))"

definition unit_holds :: "SharedBlock \<Rightarrow> nat \<Rightarrow> uint32 \<Rightarrow> cell \<Rightarrow> bool" where
  "unit_holds B u t x =
     (case x of
        CellNull \<Rightarrow> t = 0
      | CellLong v \<Rightarrow> t = 1 \<and> ld64 B (cell_at u) = Some v
      | CellDouble v \<Rightarrow> t = 2 \<and> ld64 B (cell_at u) = Some v
      | CellString bs \<Rightarrow> t = 3 \<and> (\<exists>a. GetCellUnitValueBlob B u = Some (Some a, length bs) \<and> ld_bytes B a (length bs) = Some bs)
      | CellBlob bs \<Rightarrow> t = 4 \<and> (\<exists>a. GetCellUnitValueBlob B u = Some (Some a, length bs) \<and> ld_bytes B a (length bs) = Some bs))"

lemma on_cell_in:
  assumes T: "holds_table B n T" and i: "unat row < length T" "unat column < n"
  shows "\<exists>u t. GetCellUnit B row column = Some (Some u) \<and> ld32 B u = Some t \<and> unit_holds B u t (T ! unat row ! unat column)"
proof -
  obtain gs ds where L: "layout B n gs ds" "r32 (mData B) 8 = of_nat (length ds)" "T = table_of (mData B) n ds"
    using T by (auto simp: holds_table_def)
  let ?u = "ds ! unat row + 12 * unat column"
  have g: "GetCellUnit B row column = Some (Some ?u)" using GetCellUnit_layout [OF L(1,2)] i L(3) by simp
  have t: "ld32 B ?u = Some (r32 (mData B) ?u)" using cell_in_block(3) [OF L(1), of "unat row" "unat column"] i L(3) by (simp add: ld32_in)
  have four: "r32 (mData B) ?u \<le> 4" using layoutD(19) [OF L(1), of "ds ! unat row" "unat column"] i L(3) by (simp add: cell_ok_def)
  have "unit_holds B ?u (r32 (mData B) ?u) (T ! unat row ! unat column)"
    using ReadCell_table [OF T i] g t four
    by (auto simp: ReadCell_def unit_holds_def bind_eq_Some_conv ld_bytes_def split: if_splits cell.splits)
       (auto simp: word_le_nat_alt word_unat_eq_iff)
  then show ?thesis using g t by blast
qed

lemma on_cell_out:
  "holds_table B n T \<Longrightarrow> \<not> (unat row < length T \<and> unat column < n) \<Longrightarrow> on_cell B row column get = Some (Inl E_ERROR)"
  by (auto simp: on_cell_def holds_table_def GetCellUnit_layout)

lemma find_upt:
  assumes z: "i < k" "k \<le> N" and p: "P (a + i)" "\<And>j. j < i \<Longrightarrow> \<not> P (a + j)"
  shows "List.find P [a..<a + N] = Some (a + i)"
  by (subst find_Some_iff) (intro exI [of _ i], use assms in auto)

lemma c_string_bytes:
  assumes b: "ld_bytes B a (length bs) = Some bs" and z: "0 \<in> set bs"
  shows "c_string B a = Some (c_text bs)"
proof -
  let ?i = "length (takeWhile (\<lambda>b. b \<noteq> 0) bs)" and ?N = "unat (mSize B) - a"
  have bs: "bs = map (mData B) [a..<a + length bs]" "a + length bs \<le> unat (mSize B)"
    using b by (auto simp: ld_bytes_def split: if_splits)
  have i: "?i < length bs"
    using z by (induction bs) auto
  have z0: "bs ! ?i = 0" using nth_length_takeWhile [of "\<lambda>b. b \<noteq> 0" bs] i by simp
  have nz: "bs ! j \<noteq> 0" if "j < ?i" for j
    using that set_takeWhileD [of "bs ! j" "\<lambda>b. b \<noteq> 0" bs] nth_mem [of j "takeWhile (\<lambda>b. b \<noteq> 0) bs"] by (simp add: takeWhile_nth)
  have at: "mData B (a + j) = bs ! j" if "j < length bs" for j by (subst bs(1)) (use that in simp)
  have "List.find (\<lambda>j. mData B j = 0) [a..<a + ?N] = Some (a + ?i)"
    by (rule find_upt [of ?i "length bs"])
      (use i bs(2) at z0 nz in auto)
  moreover have "map (\<lambda>j. char_of (unat (mData B j))) [a..<a + ?i] = c_text bs"
  proof (rule nth_equalityI)
    fix j assume "j < length (map (\<lambda>j. char_of (unat (mData B j))) [a..<a + ?i])"
    then have j: "j < ?i" by simp
    with i at [of j] show "map (\<lambda>j. char_of (unat (mData B j))) [a..<a + ?i] ! j = c_text bs ! j"
      by (simp add: c_text_def takeWhile_nth)
  qed (simp add: c_text_def)
  ultimately show ?thesis using bs(2) by (simp add: c_string_def)
qed

lemma cell_text_of:
  assumes "unit_holds B u t (CellString bs)" "0 \<in> set bs"
  shows "cell_text B u = Some (if length bs \<le> 1 then None else Some (c_text bs))"
  using assms c_string_bytes by (auto simp: unit_holds_def cell_text_def GetCellUnitValueString_def)

lemma cell_getters:
  assumes T: "holds_table B n T" and i: "unat row < length T" "unat column < n" and z: "terminated (T ! unat row ! unat column)"
  shows "Cell_GetBlob B row column = Some (blob_of_cell (T ! unat row ! unat column))"
    and "Cell_GetString os B row column = Some (string_of_cell os (T ! unat row ! unat column))"
    and "Cell_GetLong f B row column = Some (long_of_cell f (T ! unat row ! unat column))"
    and "Cell_GetDouble f B row column = Some (double_of_cell f (T ! unat row ! unat column))"
    and "Cell_IsColumnNull B row column = Some (Inr (T ! unat row ! unat column = CellNull))"
    and "T ! unat row ! unat column = CellLong v \<Longrightarrow> Cell_GetInt B row column = Some (Inr (ucast v))"
proof -
  let ?x = "T ! unat row ! unat column"
  from on_cell_in [OF T i] obtain u t where g: "GetCellUnit B row column = Some (Some u)" "ld32 B u = Some t" and h: "unit_holds B u t ?x" by blast
  have tx: "?x = CellString bs \<Longrightarrow> cell_text B u = Some (if length bs \<le> 1 then None else Some (c_text bs))" for bs
    using cell_text_of [of B u t bs] h z by (simp add: terminated_def)
  note defs = g on_cell_def Cell_GetBlob_def Cell_GetString_def Cell_GetLong_def Cell_GetDouble_def Cell_IsColumnNull_def
    blob_of_cell_def string_of_cell_def long_of_cell_def double_of_cell_def
  show "Cell_GetBlob B row column = Some (blob_of_cell ?x)"
    using h by (cases ?x) (auto simp: defs unit_holds_def)
  show "Cell_GetString os B row column = Some (string_of_cell os ?x)"
    using h tx by (cases ?x) (auto simp: defs unit_holds_def)
  show "Cell_GetLong f B row column = Some (long_of_cell f ?x)"
    using h tx by (cases ?x) (auto simp: defs unit_holds_def)
  show "Cell_GetDouble f B row column = Some (double_of_cell f ?x)"
    using h tx by (cases ?x) (auto simp: defs unit_holds_def)
  show "Cell_IsColumnNull B row column = Some (Inr (?x = CellNull))"
    using h by (cases ?x) (auto simp: defs unit_holds_def)
  show "Cell_GetInt B row column = Some (Inr (ucast v))" if "?x = CellLong v"
    using h that by (auto simp: g on_cell_def Cell_GetInt_def unit_holds_def)
qed

subsection \<open>A result set whose rows are in its block\<close>

text \<open>\<open>T\<close> is what the block holds, \<open>n\<close> the number of rows the result set knows, \<open>nc\<close> that of its columns.
  Every check of a column index asks the statement for its columns, so the query must be able to begin.\<close>

definition sh_state :: "'s shctx \<Rightarrow> string \<Rightarrow> string list \<Rightarrow> nat \<Rightarrow> nat \<Rightarrow> int \<Rightarrow> 's query_view \<Rightarrow> cell list list \<Rightarrow> 's shrs \<Rightarrow> bool" where
  "sh_state K q args n nc np v T = (\<lambda>(r, S).
     query_contract (cE K) q args n (np, int nc) v \<and> store_idle v q (np, int nc) (cthr K) S
   \<and> \<not> sh_isClosed r \<and> sh_statement r = None \<and> qrySql r = q \<and> selectionArgVec r = args
   \<and> (\<exists>B. sh_block r = Some B \<and> holds_table B nc T)
   \<and> rowNum r = int n \<and> - 1 \<le> sh_rowPos r \<and> sh_rowPos r \<le> int n \<and> n < 2 ^ 31)"

lemma sh_stateD:
  assumes "sh_state K q args n nc np v T (r, S)"
  shows "query_contract (cE K) q args n (np, int nc) v" "store_idle v q (np, int nc) (cthr K) S" "\<not> sh_isClosed r" "sh_statement r = None"
    "qrySql r = q" "selectionArgVec r = args" "\<exists>B. sh_block r = Some B \<and> holds_table B nc T" "rowNum r = int n"
    "- 1 \<le> sh_rowPos r" "sh_rowPos r \<le> int n" "n < 2 ^ 31"
  using assms by (auto simp: sh_state_def)

lemma sh_count: "sh_state K q args n nc np v T (r, S) \<Longrightarrow> Shared_GetRowCount K (r, S) = Some (Inr (int n), r, S)"
  using sh_stateD(8) [of K q args n nc np v T r S] by (simp add: Shared_GetRowCount_def)

lemma column_names_ok:
  assumes "\<And>i. i \<in> set is \<Longrightarrow> int i < columnCount st \<and> sqlite3_column_name (api E) (stmtHandle st) (int i) s \<noteq> None" and "stmtHandle st \<noteq> None"
  shows "\<exists>names. column_names_loop E st is s = Inr names \<and> length names = length is"
  using assms(1)
proof (induction "is")
  case (Cons i "is")
  then obtain names where "column_names_loop E st is s = Inr names" "length names = length is" by auto
  with Cons.prems [of i] assms(2) show ?case by (auto simp: GetColumnName_def)
qed simp

lemma sh_names:
  assumes ok: "sh_state K q args n nc np v T (r, S)"
  shows "\<exists>names r' S'. Shared_GetAllColumnNames K (r, S) = Some (Inr names, r', S') \<and> length names = nc \<and> sh_state K q args n nc np v T (r', S')
    \<and> sh_rowPos r' = sh_rowPos r \<and> sh_block r' = sh_block r"
proof -
  note d = sh_stateD [OF ok]
  from store_begins [OF d(1,2)] obtain S1 c h where b: "Store_BeginStepQuery (cE K) (cthr K) q args S = Ret (Inr (), S1)"
    "thread_connection (cthr K) S1 = Some c" "store_in_query q (np, int nc) (cthr K) c h S1" "stands v h 0 (lib (pool S1))" by blast
  from b(3) obtain conn st where st: "heap (pool S1) c = Some conn" "stepStatement conn = Some st" "stmtHandle st = Some h" "columnCount st = int nc"
    by (auto simp: store_in_query_def conn_runs_def)
  have a: "at_row v h (lib (pool S1)) \<noteq> None" using b(4) by (auto simp: stands_def)
  have "sqlite3_column_name (api (cE K)) (Some h) (int i) (lib (pool S1)) \<noteq> None" if "i < nc" for i
    by (rule contractD(10) [OF d(1) a]) (use that in auto)
  then obtain names where n: "column_names_loop (cE K) st [0..<nc] (lib (pool S1)) = Inr names" "length names = nc"
    using column_names_ok [of "[0..<nc]" st "cE K" "lib (pool S1)"] st by auto
  from store_ends [OF d(1) b(3) a] obtain S2 where e: "Store_EndStepQuery (cE K) (cthr K) S1 = Ret (E_OK, S2)" "store_idle v q (np, int nc) (cthr K) S2" by blast
  have "Shared_GetAllColumnNames K (r, S) = Some (Inr names, r\<lparr>sh_statement := None, sh_tid := Some (cthr K)\<rparr>, S2)"
    using d(3-6) b(1,2) st n e by (simp add: Shared_GetAllColumnNames_def Shared_PrepareStep_def stmt_at_def GetColumnCount_def)
  then show ?thesis using ok n(2) e(2) by (auto simp: sh_state_def)
qed

lemma sh_get:
  assumes ok: "sh_state K q args n nc np v T (r, S)" and p: "0 \<le> sh_rowPos r" "sh_rowPos r < int n" and i: "i < nc"
    and len: "length T < 2 ^ 31" and B: "sh_block r = Some B"
    and g: "get B (of_int (sh_rowPos r)) (of_nat i) = Some res"
  shows "\<exists>r' S'. shared_get K (int i) get (r, S) = Some (res, r', S') \<and> sh_state K q args n nc np v T (r', S') \<and> sh_rowPos r' = sh_rowPos r"
proof -
  from sh_names [OF ok] obtain names r1 S1 where n1: "Shared_GetAllColumnNames K (r, S) = Some (Inr names, r1, S1)" "length names = nc"
    "sh_state K q args n nc np v T (r1, S1)" "sh_rowPos r1 = sh_rowPos r" "sh_block r1 = sh_block r" by blast
  have "Shared_CheckState K (int i) (r, S) = Some (E_OK, r1, S1)"
    using n1 B i p sh_count [OF n1(3)] by (simp add: Shared_CheckState_def Rs_GetColumnCount_def shared_ops_def)
  with n1 B g show ?thesis by (simp add: shared_get_def)
qed

lemma sh_go:
  assumes ok: "sh_state K q args n nc np v T (r, S)" and T: "length T = n"
  shows "\<exists>e r' S'. Shared_GoToRow K p (r, S) = Some (e, r', S') \<and> sh_state K q args n nc np v T (r', S')
    \<and> (e = E_OK, sh_rowPos r') = move n (int n) p"
proof -
  note d = sh_stateD [OF ok]
  from d(7) obtain B where B: "sh_block r = Some B" "holds_table B nc T" by blast
  have rows: "GetRowNum B = Some (of_nat n)" using GetRowNum_table [OF B(2)] T by simp
  have inside: "\<not> (of_nat n :: uint32) \<le> of_int p" if "0 \<le> p" "p < int n"
  proof -
    have "unat (of_int p :: uint32) = nat p" using that d(11) by (simp add: unat_of_nat_32 of_nat_nat [symmetric] del: of_nat_nat)
    moreover have "unat (of_nat n :: uint32) = n" using d(11) by (intro unat_of_nat_32) simp
    ultimately show ?thesis using that by (simp add: word_le_nat_alt)
  qed
  show ?thesis
    using ok sh_count [OF ok] B rows inside d(9,10) by (auto simp: Shared_GoToRow_def move_def sh_state_def)
qed

interpretation sharing: row_cursor "shared_ops K" E_OK "\<lambda>rS. sh_state K q args n nc np v T rS \<and> length T = n" n "int n"
proof unfold_locales
  fix rS p assume ok: "sh_state K q args n nc np v T rS \<and> length T = n"
  obtain r S where rS: "rS = (r, S)" by fastforce
  show "\<exists>e rS'. vGoToRow (shared_ops K) p rS = Some (e, rS') \<and> (sh_state K q args n nc np v T rS' \<and> length T = n)
      \<and> (e = E_OK, vRowPos (shared_ops K) rS') = move n (int n) p"
    using sh_go [of K q args n nc np v T r S p] ok rS by (fastforce simp: shared_ops_def)
  show "\<exists>rS'. vGetRowCount (shared_ops K) rS = Some (Inr (int n), rS') \<and> (sh_state K q args n nc np v T rS' \<and> length T = n)
      \<and> vRowPos (shared_ops K) rS' = vRowPos (shared_ops K) rS"
    using sh_count [of K q args n nc np v T r S] ok rS by (simp add: shared_ops_def)
qed

lemma pos_index: "0 \<le> p \<Longrightarrow> p < int n \<Longrightarrow> n < 2 ^ 31 \<Longrightarrow> unat (of_int p :: uint32) = nat p"
  using unat_of_nat_32 [of "nat p"] by simp

lemma column_index: "holds_table B nc T \<Longrightarrow> i < nc \<Longrightarrow> unat (of_nat i :: uint32) = i"
  using holds_table_bound [of B nc T] by (intro unat_of_nat_32) linarith

lemma sh_getters:
  assumes st: "sh_state K q args n nc np v T (r, S)"
    and row: "0 \<le> sh_rowPos r" "sh_rowPos r < int (length T)" "sh_rowPos r < int n" "length T < 2 ^ 31" and i: "i < nc"
    and z: "terminated (T ! nat (sh_rowPos r) ! i)"
  shows "map_option fst (Shared_GetString K (int i) (r, S)) = Some (string_of_cell (cos K) (T ! nat (sh_rowPos r) ! i))
    \<and> map_option fst (Shared_GetLong K (int i) (r, S)) = Some (long_of_cell (fp (cE K)) (T ! nat (sh_rowPos r) ! i))
    \<and> map_option fst (Shared_GetDouble K (int i) (r, S)) = Some (double_of_cell (fp (cE K)) (T ! nat (sh_rowPos r) ! i))
    \<and> map_option fst (Shared_GetBlob K (int i) (r, S)) = Some (blob_of_cell (T ! nat (sh_rowPos r) ! i))
    \<and> map_option fst (Shared_IsColumnNull K (int i) (r, S)) = Some (Inr (T ! nat (sh_rowPos r) ! i = CellNull))"
proof -
  note d = sh_stateD [OF st]
  from d(7) obtain B where B: "sh_block r = Some B" "holds_table B nc T" by blast
  let ?row = "of_int (sh_rowPos r) :: uint32" and ?col = "of_nat i :: uint32"
  have ix: "unat ?row = nat (sh_rowPos r)" "unat ?col = i"
    using pos_index [OF row(1,2,4)] column_index [OF B(2) i] by auto
  have rl: "unat ?row < length T" "unat ?col < nc" using ix row i by auto
  have z': "terminated (T ! unat ?row ! unat ?col)" using z ix by simp
  note c = cell_getters [OF B(2) rl z', unfolded ix]
  show ?thesis
    unfolding Shared_GetString_def Shared_GetLong_def Shared_GetDouble_def Shared_GetBlob_def Shared_IsColumnNull_def
    using sh_get [where get = Cell_GetBlob, OF st row(1,3) i row(4) B(1) c(1)]
      sh_get [where get = "Cell_GetString (cos K)", OF st row(1,3) i row(4) B(1) c(2)]
      sh_get [where get = "Cell_GetLong (fp (cE K))", OF st row(1,3) i row(4) B(1) c(3)]
      sh_get [where get = "Cell_GetDouble (fp (cE K))", OF st row(1,3) i row(4) B(1) c(4)]
      sh_get [where get = Cell_IsColumnNull, OF st row(1,3) i row(4) B(1) c(5)]
    by auto
qed



lemma refill_starts_later: "0 < cap \<Longrightarrow> cap \<le> p \<Longrightarrow> 0 < PickFillBlockStartPosition p cap \<and> PickFillBlockStartPosition p cap \<le> p"
  by (auto simp: PickFillBlockStartPosition_def)

subsection \<open>Filling through a connection\<close>

lemma combined_count: "0 \<le> t \<Longrightarrow> t < 2 ^ 31 \<Longrightarrow> sint (ucast (GetCombinedData st t) :: 32 word) = t"
  by (simp add: GetCombinedData_low sint_sbintrunc' signed_take_bit_int_eq_self)


subsection \<open>Examples\<close>

lemma one_row_codes:
  "map_option fst (Option.bind (Clear sample_block) (\<lambda>(_, B). Option.bind (SetColumnNum 1 B)
     (\<lambda>(_, B). block_run (\<lambda>d k. 0 < k) [bAllocRow, bPut 0 0 (CellLong 5)] B))) = Some [SHARED_BLOCK_OK, SHARED_BLOCK_OK]"
  by code_simp

lemma one_row_block: "\<exists>B. holds_table B 1 [[CellLong 5]]"
proof -
  obtain B1 B2 where b: "Clear sample_block = Some (SHARED_BLOCK_OK, B1)" "SetColumnNum (of_nat 1) B1 = Some (SHARED_BLOCK_OK, B2)" "holds_table B2 1 []"
    using Clear_table [of sample_block 1] by (auto simp: sample_block_def)
  obtain es B3 T where "block_run (\<lambda>d k. 0 < k) [bAllocRow, bPut 0 0 (CellLong 5)] B2 = Some (es, B3)"
    "table_run 1 (zip [bAllocRow, bPut 0 0 (CellLong 5)] es) [] = Some T" "holds_table B3 1 T"
    using block_run_table [OF b(3), of "\<lambda>d k. 0 < k" "[bAllocRow, bPut 0 0 (CellLong 5)]"] by (auto simp: securec_contract_def)
  with one_row_codes b show ?thesis by (auto split: if_splits)
qed

definition no_ext :: "nat shared_ext" where
  "no_ext = \<lparr>use_shared = (\<lambda>_ s. (1, s)), set_shared = (\<lambda>_ s. (1, s)), clear_shared = (\<lambda>_ s. (1, s)), step_shared = (\<lambda>_ _ _ _ z s. (101, z, s))\<rparr>"

definition table_ctx :: "cell list list \<Rightarrow> nat shctx" where
  "table_ctx rows = \<lparr>cE = table_env rows, cX = no_ext, csec = (\<lambda>d k. 0 < k), cos = (\<lambda>_. ''0''), cthr = 7\<rparr>"

definition table_shared :: "SharedBlock \<Rightarrow> int \<Rightarrow> int \<Rightarrow> SqliteSharedResultSet" where
  "table_shared B n p = \<lparr>sh_rowPos = p, sh_isClosed = False, sh_block = Some B, resultSetBlockCapacity = 1, isOnlyFillResultSetBlock = False,
     qrySql = ''SELECT a FROM t'', selectionArgVec = [], rowNum = n, sh_tid = None, sh_statement = None\<rparr>"

lemma table_sh_state:
  assumes "holds_table B 1 T" and "rows \<noteq> []" "length (hd rows) = 1" "length rows < 2 ^ 31" and "- 1 \<le> p" "p \<le> int (length rows)"
  shows "sh_state (table_ctx rows) ''SELECT a FROM t'' [] (length rows) 1 0 (table_view (length rows)) T (table_shared B (int (length rows)) p, table_store)"
proof -
  have "table_columns rows = 1" using assms(2,3) by (cases rows) (auto simp: table_columns_def)
  then show ?thesis
    using table_contract [of rows] table_store_idle assms by (auto simp: sh_state_def table_ctx_def table_shared_def)
qed




end
