(* ===== verification/Data_Share_Result_Set.thy ===== *)
theory Data_Share_Result_Set
  imports Shared_Result_Set
begin

text \<open>
  The result set of the data share framework: the writer of its block (datashare_block_writer_impl.cpp),
  the bridge that copies rows of a relational result set into it (rdb_result_set_bridge.cpp) and the
  result set that shows a window of rows (datashare_result_set.cpp, datashare_abs_result_set.cpp).
  The locale \<open>served_rows\<close> is what the bridge needs of a relational result set, \<open>served_bridge\<close> what the
  data share result set needs of a bridge; the first is interpreted on the shared result set of the
  store, the second follows from the first.  The error codes of this framework (datashare_errno.h) have
  the names and numbers of those of the store.  \<open>None\<close> is a call that does not return or is undefined.
\<close>

subsection \<open>The writer of a block\<close>

text \<open>The state of a writer is its block, \<open>None\<close> for a null pointer.\<close>

definition ConvertErrorCode :: "block_status \<Rightarrow> rdb_errno" where
  "ConvertErrorCode shareBlockErr = (if shareBlockErr = SHARED_BLOCK_OK then E_OK else E_ERROR)"

definition on_block :: "(SharedBlock \<Rightarrow> (block_status \<times> SharedBlock) option) \<Rightarrow> SharedBlock option \<Rightarrow> (rdb_errno \<times> SharedBlock option) option" where
  "on_block act blk =
     (case blk of
        None \<Rightarrow> Some (E_ERROR, None)
      | Some B \<Rightarrow> do { (status, B) \<leftarrow> act B; Some (ConvertErrorCode status, Some B) })"

definition Writer_new :: "ashmem_ops \<Rightarrow> string \<Rightarrow> 64 word \<Rightarrow> SharedBlock option" where
  "Writer_new A name sz = snd (Create A name sz)"

definition Writer_Clear :: "SharedBlock option \<Rightarrow> (rdb_errno \<times> SharedBlock option) option" where
  "Writer_Clear = on_block Clear"

definition Writer_SetColumnNum :: "uint32 \<Rightarrow> SharedBlock option \<Rightarrow> (rdb_errno \<times> SharedBlock option) option" where
  "Writer_SetColumnNum k = on_block (SetColumnNum k)"

definition Writer_AllocRow :: "(nat \<Rightarrow> nat \<Rightarrow> bool) \<Rightarrow> SharedBlock option \<Rightarrow> (rdb_errno \<times> SharedBlock option) option" where
  "Writer_AllocRow sec = on_block (AllocRow sec)"

definition Writer_FreeLastRow :: "SharedBlock option \<Rightarrow> (rdb_errno \<times> SharedBlock option) option" where
  "Writer_FreeLastRow = on_block FreeLastRow"

definition GetCurrentRowIndex :: "SharedBlock option \<Rightarrow> uint32 option option" where
  "GetCurrentRowIndex blk =
     (case blk of
        None \<Rightarrow> Some None
      | Some B \<Rightarrow> do { n \<leftarrow> GetRowNum B; Some (if n > 0 then Some (n - 1) else None) })"

definition write_with :: "(uint32 \<Rightarrow> SharedBlock \<Rightarrow> (block_status \<times> SharedBlock) option) \<Rightarrow> SharedBlock option \<Rightarrow> (rdb_errno \<times> SharedBlock option) option" where
  "write_with put blk = do {
     currentRowIndex \<leftarrow> GetCurrentRowIndex blk;
     case currentRowIndex of
       None \<Rightarrow> Some (E_ERROR, blk)
     | Some row \<Rightarrow> on_block (put row) blk
   }"

definition Write_null :: "uint32 \<Rightarrow> SharedBlock option \<Rightarrow> (rdb_errno \<times> SharedBlock option) option" where
  "Write_null column = write_with (\<lambda>row. PutNull row column)"

definition Write_long :: "uint32 \<Rightarrow> int64 \<Rightarrow> SharedBlock option \<Rightarrow> (rdb_errno \<times> SharedBlock option) option" where
  "Write_long column value = write_with (\<lambda>row. PutLong row column value)"

definition Write_double :: "uint32 \<Rightarrow> 64 word \<Rightarrow> SharedBlock option \<Rightarrow> (rdb_errno \<times> SharedBlock option) option" where
  "Write_double column value = write_with (\<lambda>row. PutDouble row column value)"

definition Write_blob :: "(nat \<Rightarrow> nat \<Rightarrow> bool) \<Rightarrow> uint32 \<Rightarrow> byte list \<Rightarrow> SharedBlock option \<Rightarrow> (rdb_errno \<times> SharedBlock option) option" where
  "Write_blob sec column value = write_with (\<lambda>row. PutBlob sec row column value)"

definition Write_string :: "(nat \<Rightarrow> nat \<Rightarrow> bool) \<Rightarrow> uint32 \<Rightarrow> byte list \<Rightarrow> SharedBlock option \<Rightarrow> (rdb_errno \<times> SharedBlock option) option" where
  "Write_string sec column value = write_with (\<lambda>row. PutString sec row column value)"

text \<open>The reading methods return the number of \<open>E_ERROR\<close>, converted to their type, when there is no block.\<close>

definition Writer_GetUsedBytes :: "SharedBlock option \<Rightarrow> (64 word) option" where
  "Writer_GetUsedBytes blk =
     (case blk of None \<Rightarrow> Some (of_int (errno_value E_ERROR)) | Some B \<Rightarrow> map_option ucast (GetUsedBytes B))"

definition Writer_GetRowNum :: "SharedBlock option \<Rightarrow> uint32 option" where
  "Writer_GetRowNum blk = (case blk of None \<Rightarrow> Some (of_int (errno_value E_ERROR)) | Some B \<Rightarrow> GetRowNum B)"

definition Writer_GetColumnNum :: "SharedBlock option \<Rightarrow> uint32 option" where
  "Writer_GetColumnNum blk = (case blk of None \<Rightarrow> Some (of_int (errno_value E_ERROR)) | Some B \<Rightarrow> GetColumnNum B)"

definition Writer_Size :: "SharedBlock option \<Rightarrow> 64 word" where
  "Writer_Size blk = (case blk of None \<Rightarrow> of_int (errno_value E_ERROR) | Some B \<Rightarrow> mSize B)"

definition Writer_SetRawData :: "(nat \<Rightarrow> nat \<Rightarrow> bool) \<Rightarrow> byte list \<Rightarrow> SharedBlock option \<Rightarrow> ((block_status option) \<times> SharedBlock option) option" where
  "Writer_SetRawData sec rawData blk =
     (case blk of
        None \<Rightarrow> Some (None, None)
      | Some B \<Rightarrow> do { (status, B) \<leftarrow> SetRawData sec rawData B; Some (Some status, Some B) })"

subsection \<open>The bridge\<close>

text \<open>The virtual methods of a relational result set that the bridge calls.  The types of columns are the
  numbers of \<open>ColumnType\<close>, which are those of the cell units.\<close>

record 'q rdb_rs =
  rBase :: "(rdb_errno, 'q) result_set_ops"
  rIsStarted :: "'q \<Rightarrow> bool"
  rGoToNextRow :: "'q \<Rightarrow> (rdb_errno \<times> 'q) option"
  rGetColumnType :: "int \<Rightarrow> 'q \<Rightarrow> (uint32 result \<times> 'q) option"
  rGetLong :: "int \<Rightarrow> 'q \<Rightarrow> (int64 result \<times> 'q) option"
  rGetDouble :: "int \<Rightarrow> 'q \<Rightarrow> ((64 word) result \<times> 'q) option"
  rGetString :: "int \<Rightarrow> 'q \<Rightarrow> (string result \<times> 'q) option"
  rGetBlob :: "int \<Rightarrow> 'q \<Rightarrow> (byte list result \<times> 'q) option"

text \<open>A local variable without initialiser that a failing call did not set may not be read.\<close>

definition initialised :: "'a result \<Rightarrow> 'a option" where
  "initialised res = (case res of Inl _ \<Rightarrow> None | Inr v \<Rightarrow> Some v)"

fun GetColumnTypes :: "'q rdb_rs \<Rightarrow> nat list \<Rightarrow> 'q \<Rightarrow> (uint32 list \<times> 'q) option" where
  "GetColumnTypes R [] q = Some ([], q)"
| "GetColumnTypes R (i # is) q = do {
     (res, q) \<leftarrow> rGetColumnType R (int i) q;
     t \<leftarrow> initialised res;
     (columnTypes, q) \<leftarrow> GetColumnTypes R is q;
     Some (t # columnTypes, q)
   }"

text \<open>\<open>strlen\<close> stops at the first zero byte, in the text as in the blob.\<close>

definition WriteBlobData :: "'q rdb_rs \<Rightarrow> (nat \<Rightarrow> nat \<Rightarrow> bool) \<Rightarrow> nat \<Rightarrow> SharedBlock option \<times> 'q \<Rightarrow> (SharedBlock option \<times> 'q) option" where
  "WriteBlobData R sec column = (\<lambda>(W, q). do {
     (res, q) \<leftarrow> rGetBlob R (int column) q;
     let blobValue = (case res of Inl _ \<Rightarrow> [] | Inr bs \<Rightarrow> bs);
     if blobValue = [] then Some (W, q)
     else do {
       (_, W) \<leftarrow> Write_string sec (of_nat column) (takeWhile (\<lambda>b. b \<noteq> 0) blobValue) W;
       Some (W, q)
     }
   })"

definition c_bytes :: "string \<Rightarrow> byte list" where
  "c_bytes text = takeWhile (\<lambda>b. b \<noteq> 0) (map of_char text) @ [0]"

definition write_column :: "'q rdb_rs \<Rightarrow> (nat \<Rightarrow> nat \<Rightarrow> bool) \<Rightarrow> uint32 \<Rightarrow> nat \<Rightarrow> SharedBlock option \<times> 'q \<Rightarrow> (SharedBlock option \<times> 'q) option" where
  "write_column R sec t i = (\<lambda>(W, q).
     if t = CELL_UNIT_TYPE_INTEGER then do {
       (res, q) \<leftarrow> rGetLong R (int i) q;
       value \<leftarrow> initialised res;
       (_, W) \<leftarrow> Write_long (of_nat i) value W;
       Some (W, q)
     }
     else if t = CELL_UNIT_TYPE_FLOAT then do {
       (res, q) \<leftarrow> rGetDouble R (int i) q;
       dValue \<leftarrow> initialised res;
       (_, W) \<leftarrow> Write_double (of_nat i) dValue W;
       Some (W, q)
     }
     else if t = CELL_UNIT_TYPE_NULL then do {
       (_, W) \<leftarrow> Write_null (of_nat i) W;
       Some (W, q)
     }
     else if t = CELL_UNIT_TYPE_BLOB then WriteBlobData R sec i (W, q)
     else do {
       (res, q) \<leftarrow> rGetString R (int i) q;
       let stringValue = (case res of Inl _ \<Rightarrow> '''' | Inr s \<Rightarrow> s);
       (_, W) \<leftarrow> Write_string sec (of_nat i) (c_bytes stringValue) W;
       Some (W, q)
     })"

fun WriteColumn :: "'q rdb_rs \<Rightarrow> (nat \<Rightarrow> nat \<Rightarrow> bool) \<Rightarrow> uint32 list \<Rightarrow> nat list \<Rightarrow> SharedBlock option \<times> 'q \<Rightarrow> (SharedBlock option \<times> 'q) option" where
  "WriteColumn R sec columnTypes [] Wq = Some Wq"
| "WriteColumn R sec columnTypes (i # is) Wq = do {
     t \<leftarrow> (if i < length columnTypes then Some (columnTypes ! i) else None);
     Wq \<leftarrow> write_column R sec t i Wq;
     WriteColumn R sec columnTypes is Wq
   }"

function WriteBlock :: "'q rdb_rs \<Rightarrow> (nat \<Rightarrow> nat \<Rightarrow> bool) \<Rightarrow> int \<Rightarrow> int \<Rightarrow> nat \<Rightarrow> uint32 list \<Rightarrow> SharedBlock option \<times> 'q \<Rightarrow> (SharedBlock option \<times> 'q) option" where
  "WriteBlock R sec row target n columnTypes Wq =
     (if row \<le> target then do {
        (status, W) \<leftarrow> Writer_AllocRow sec (fst Wq);
        if status \<noteq> E_OK then Some (W, snd Wq)
        else do {
          (W, q) \<leftarrow> WriteColumn R sec columnTypes [0..<n] (W, snd Wq);
          (errCode, q) \<leftarrow> rGoToNextRow R q;
          if errCode \<noteq> E_OK then Some (W, q) else WriteBlock R sec (row + 1) target n columnTypes (W, q)
        }
      }
      else Some Wq)"
  by pat_completeness auto
termination by (relation "measure (\<lambda>(_, _, row, target, _). nat (target + 1 - row))") auto

declare WriteBlock.simps [simp del]

definition Bridge_OnGo :: "'q rdb_rs \<Rightarrow> (nat \<Rightarrow> nat \<Rightarrow> bool) \<Rightarrow> int \<Rightarrow> int \<Rightarrow> SharedBlock option \<times> 'q \<Rightarrow> (bool \<times> SharedBlock option \<times> 'q) option" where
  "Bridge_OnGo R sec start target = (\<lambda>(W, q). do {
     (res, q) \<leftarrow> vGetRowCount (rBase R) q;
     rowCount \<leftarrow> initialised res;
     if start < 0 \<or> target < 0 \<or> target \<ge> rowCount then Some (False, W, q)
     else do {
       (res, q) \<leftarrow> Rs_GetColumnCount (rBase R) q;
       cols \<leftarrow> initialised res;
       if cols \<le> 0 then Some (False, W, q)
       else do {
         q \<leftarrow> (if rIsStarted R q then Some q else map_option snd (GoToFirstRow (rBase R) q));
         (errCode, q) \<leftarrow> vGoToRow (rBase R) start q;
         if errCode \<noteq> E_OK then Some (False, W, q)
         else do {
           (columnTypes, q) \<leftarrow> GetColumnTypes R [0..<nat cols] q;
           (W, q) \<leftarrow> WriteBlock R sec start target (nat cols) columnTypes (W, q);
           Some (True, W, q)
         }
       }
     }
   })"

text \<open>What the data share result set calls on a bridge.\<close>

record 'q bridge =
  bGetRowCount :: "'q \<Rightarrow> (int result \<times> 'q) option"
  bGetAllColumnNames :: "'q \<Rightarrow> (string list result \<times> 'q) option"
  bOnGo :: "int \<Rightarrow> int \<Rightarrow> SharedBlock option \<times> 'q \<Rightarrow> (bool \<times> SharedBlock option \<times> 'q) option"

definition rdb_bridge :: "'q rdb_rs \<Rightarrow> (nat \<Rightarrow> nat \<Rightarrow> bool) \<Rightarrow> 'q bridge" where
  "rdb_bridge R sec =
     \<lparr>bGetRowCount = vGetRowCount (rBase R), bGetAllColumnNames = vGetAllColumnNames (rBase R), bOnGo = Bridge_OnGo R sec\<rparr>"

subsection \<open>The result set\<close>

text \<open>The writer shares the block of the result set by pointer: it points to null, to the block the result
  set has, or to one that the result set has deleted.\<close>

datatype writer_block = NullBlock | OwnBlock | FreedBlock

abbreviation (input) STEP_LENGTH :: int where "STEP_LENGTH \<equiv> 2"

record DataShareResultSet =
  ds_rowPos :: int
  ds_isClosed :: bool
  startRowPos :: int
  endRowPos :: int
  ds_block :: "SharedBlock option"
  blockWriter :: "writer_block option"
  hasBridge :: bool

definition DataShareResultSet_empty :: DataShareResultSet where
  "DataShareResultSet_empty =
     \<lparr>ds_rowPos = INIT_POS, ds_isClosed = False, startRowPos = - 1, endRowPos = - 1, ds_block = None, blockWriter = None, hasBridge = False\<rparr>"

definition DataShareResultSet_new :: "ashmem_ops \<Rightarrow> int \<Rightarrow> DataShareResultSet" where
  "DataShareResultSet_new A blockId =
     (let blk = Writer_new A (''DataShare'' @ to_string blockId) DEFAULT_BLOCK_SIZE in
      DataShareResultSet_empty\<lparr>hasBridge := True, ds_block := blk,
        blockWriter := Some (if blk = None then NullBlock else OwnBlock)\<rparr>)"

type_synonym 'q dsrs = "DataShareResultSet \<times> 'q"

definition Ds_GetAllColumnNames :: "'q bridge \<Rightarrow> 'q dsrs \<Rightarrow> (string list result \<times> 'q dsrs) option" where
  "Ds_GetAllColumnNames Br = (\<lambda>(r, q).
     if \<not> hasBridge r then Some (Inl E_ERROR, r, q)
     else map_option (\<lambda>(res, q). (res, r, q)) (bGetAllColumnNames Br q))"

definition Ds_GetRowCount :: "'q bridge \<Rightarrow> 'q dsrs \<Rightarrow> (int result \<times> 'q dsrs) option" where
  "Ds_GetRowCount Br = (\<lambda>(r, q).
     if \<not> hasBridge r then Some (Inl E_ERROR, r, q)
     else map_option (\<lambda>(res, q). (res, r, q)) (bGetRowCount Br q))"

text \<open>A missing bridge gives \<open>E_ERROR\<close>, which as a truth value is true.\<close>

definition Ds_OnGo :: "'q bridge \<Rightarrow> int \<Rightarrow> int \<Rightarrow> 'q dsrs \<Rightarrow> (bool \<times> 'q dsrs) option" where
  "Ds_OnGo Br startRowIndex targetRowIndex = (\<lambda>(r, q).
     if \<not> hasBridge r then Some (errno_value E_ERROR \<noteq> 0, r, q)
     else case blockWriter r of
       None \<Rightarrow> Some (errno_value E_ERROR \<noteq> 0, r, q)
     | Some NullBlock \<Rightarrow> do {
         (b, _, q) \<leftarrow> bOnGo Br startRowIndex targetRowIndex (None, q);
         Some (b, r, q)
       }
     | Some OwnBlock \<Rightarrow> do {
         (b, blk, q) \<leftarrow> bOnGo Br startRowIndex targetRowIndex (ds_block r, q);
         Some (b, r\<lparr>ds_block := blk\<rparr>, q)
       }
     | Some FreedBlock \<Rightarrow> None)"

definition Ds_GoToRow :: "'q bridge \<Rightarrow> int \<Rightarrow> 'q dsrs \<Rightarrow> (rdb_errno \<times> 'q dsrs) option" where
  "Ds_GoToRow Br position = (\<lambda>(r, q).
     if ds_block r = None then Some (E_ERROR, r, q)
     else do {
       (res, r, q) \<leftarrow> Ds_GetRowCount Br (r, q);
       let rowCnt = (case res of Inl _ \<Rightarrow> 0 | Inr n \<Rightarrow> n);
       if position \<ge> rowCnt then Some (E_ERROR, r\<lparr>ds_rowPos := rowCnt\<rparr>, q)
       else if position < 0 then Some (E_ERROR, r\<lparr>ds_rowPos := INIT_POS\<rparr>, q)
       else if position = ds_rowPos r then Some (E_OK, r, q)
       else do {
         (result, r, q) \<leftarrow>
           (if position > endRowPos r \<or> position < startRowPos r then do {
              (res, r, q) \<leftarrow> Ds_GetAllColumnNames Br (r, q);
              let columnNames = (case res of Inl _ \<Rightarrow> [] | Inr names \<Rightarrow> names);
              B \<leftarrow> ds_block r;
              (_, B) \<leftarrow> Clear B;
              (_, B) \<leftarrow> SetColumnNum (of_nat (length columnNames)) B;
              (result, r, q) \<leftarrow> Ds_OnGo Br position (min (position + STEP_LENGTH) (rowCnt - 1)) (r\<lparr>ds_block := Some B\<rparr>, q);
              if result then do {
                n \<leftarrow> Option.bind (ds_block r) GetRowNum;
                Some (True, r\<lparr>startRowPos := position, endRowPos := sint (of_int position + n - 1)\<rparr>, q)
              }
              else Some (False, r, q)
            }
            else Some (True, r, q));
         if \<not> result then Some (E_ERROR, r\<lparr>ds_rowPos := INIT_POS, startRowPos := INIT_POS, endRowPos := INIT_POS\<rparr>, q)
         else Some (E_OK, r\<lparr>ds_rowPos := position\<rparr>, q)
       }
     })"

definition ds_ops :: "'q bridge \<Rightarrow> (rdb_errno, 'q dsrs) result_set_ops" where
  "ds_ops Br =
     \<lparr>vRowPos = (\<lambda>(r, q). ds_rowPos r), vGoToRow = Ds_GoToRow Br, vGetRowCount = Ds_GetRowCount Br,
      vGetAllColumnNames = Ds_GetAllColumnNames Br\<rparr>"

definition Ds_CheckState :: "'q bridge \<Rightarrow> int \<Rightarrow> 'q dsrs \<Rightarrow> (rdb_errno \<times> 'q dsrs) option" where
  "Ds_CheckState Br columnIndex rq =
     (if ds_block (fst rq) = None then Some (E_ERROR, rq)
      else do {
        (res, rq) \<leftarrow> Rs_GetColumnCount (ds_ops Br) rq;
        let cnt = (case res of Inl _ \<Rightarrow> 0 | Inr n \<Rightarrow> n);
        if columnIndex \<ge> cnt \<or> columnIndex < 0 then Some (E_INVALID_COLUMN_INDEX, rq)
        else do {
          (res, rq) \<leftarrow> Ds_GetRowCount Br rq;
          let rowCnt = (case res of Inl _ \<Rightarrow> 0 | Inr n \<Rightarrow> n);
          Some (if ds_rowPos (fst rq) < 0 \<or> ds_rowPos (fst rq) \<ge> rowCnt then E_INVALID_STATEMENT else E_OK, rq)
        }
      })"

definition ds_get :: "'q bridge \<Rightarrow> int \<Rightarrow> (SharedBlock \<Rightarrow> uint32 \<Rightarrow> uint32 \<Rightarrow> 'a result option) \<Rightarrow> 'q dsrs \<Rightarrow> ('a result \<times> 'q dsrs) option" where
  "ds_get Br columnIndex get rq = do {
     (errCode, r, q) \<leftarrow> Ds_CheckState Br columnIndex rq;
     if errCode \<noteq> E_OK then Some (Inl errCode, r, q)
     else do {
       B \<leftarrow> ds_block r;
       v \<leftarrow> get B (of_int (ds_rowPos r - startRowPos r)) (of_int columnIndex);
       Some (v, r, q)
     }
   }"

definition Ds_GetBlob :: "'q bridge \<Rightarrow> int \<Rightarrow> 'q dsrs \<Rightarrow> (byte list result \<times> 'q dsrs) option" where
  "Ds_GetBlob Br columnIndex = ds_get Br columnIndex Cell_GetBlob"

definition Ds_GetString :: "'q bridge \<Rightarrow> (64 word \<Rightarrow> string) \<Rightarrow> int \<Rightarrow> 'q dsrs \<Rightarrow> (string result \<times> 'q dsrs) option" where
  "Ds_GetString Br os columnIndex = ds_get Br columnIndex (Cell_GetString os)"

definition Ds_GetLong :: "'q bridge \<Rightarrow> fp_ops \<Rightarrow> int \<Rightarrow> 'q dsrs \<Rightarrow> (int64 result \<times> 'q dsrs) option" where
  "Ds_GetLong Br f columnIndex = ds_get Br columnIndex (Cell_GetLong f)"

definition Ds_GetDouble :: "'q bridge \<Rightarrow> fp_ops \<Rightarrow> int \<Rightarrow> 'q dsrs \<Rightarrow> ((64 word) result \<times> 'q dsrs) option" where
  "Ds_GetDouble Br f columnIndex = ds_get Br columnIndex (Cell_GetDouble f)"

definition Ds_IsColumnNull :: "'q bridge \<Rightarrow> int \<Rightarrow> 'q dsrs \<Rightarrow> (bool result \<times> 'q dsrs) option" where
  "Ds_IsColumnNull Br columnIndex = ds_get Br columnIndex Cell_IsColumnNull"

text \<open>These two do not check the state, nor that there is a block.\<close>

definition Ds_GetInt :: "int \<Rightarrow> DataShareResultSet \<Rightarrow> (32 word) result option" where
  "Ds_GetInt columnIndex r =
     Option.bind (ds_block r) (\<lambda>B. Cell_GetInt B (of_int (ds_rowPos r - startRowPos r)) (of_int columnIndex))"

definition Ds_GetDataType :: "int \<Rightarrow> DataShareResultSet \<Rightarrow> uint32 result option" where
  "Ds_GetDataType columnIndex r =
     Option.bind (ds_block r) (\<lambda>B. Cell_GetColumnType B (of_int (ds_rowPos r) - of_int (startRowPos r)) (of_int columnIndex))"

definition Ds_ClosedBlock :: "DataShareResultSet \<Rightarrow> DataShareResultSet" where
  "Ds_ClosedBlock r =
     r\<lparr>ds_block := None,
       blockWriter := (if ds_block r \<noteq> None \<and> blockWriter r = Some OwnBlock then Some FreedBlock else blockWriter r)\<rparr>"

definition Ds_Close :: "DataShareResultSet \<Rightarrow> rdb_errno \<times> DataShareResultSet" where
  "Ds_Close r = (E_OK, Ds_ClosedBlock (r\<lparr>ds_isClosed := True\<rparr>))"

text \<open>Another block than the one the result set has.\<close>

definition Ds_SetBlock :: "SharedBlock option \<Rightarrow> DataShareResultSet \<Rightarrow> DataShareResultSet" where
  "Ds_SetBlock blk r = (Ds_ClosedBlock r)\<lparr>ds_block := blk\<rparr>"

definition Ds_HasBlock :: "DataShareResultSet \<Rightarrow> bool" where
  "Ds_HasBlock r = (ds_block r \<noteq> None)"

definition Ds_ClearBlock :: "DataShareResultSet \<Rightarrow> DataShareResultSet option" where
  "Ds_ClearBlock r = map_option (\<lambda>blk. r\<lparr>ds_block := blk\<rparr>) (ClearBlock (ds_block r))"

subsection \<open>The methods every data share result set has\<close>

text \<open>datashare_abs_result_set.cpp repeats abs_result_set.cpp over its own virtual methods.\<close>

definition Ds_GoTo :: "'q bridge \<Rightarrow> int \<Rightarrow> 'q dsrs \<Rightarrow> (rdb_errno \<times> 'q dsrs) option" where
  "Ds_GoTo Br off = GoTo (ds_ops Br) off"

definition Ds_GoToFirstRow :: "'q bridge \<Rightarrow> 'q dsrs \<Rightarrow> (rdb_errno \<times> 'q dsrs) option" where
  "Ds_GoToFirstRow Br = GoToFirstRow (ds_ops Br)"

definition Ds_GoToLastRow :: "'q bridge \<Rightarrow> 'q dsrs \<Rightarrow> (rdb_errno \<times> 'q dsrs) option" where
  "Ds_GoToLastRow Br = GoToLastRow (ds_ops Br)"

definition Ds_GoToNextRow :: "'q bridge \<Rightarrow> 'q dsrs \<Rightarrow> (rdb_errno \<times> 'q dsrs) option" where
  "Ds_GoToNextRow Br = GoToNextRow (ds_ops Br)"

definition Ds_GoToPreviousRow :: "'q bridge \<Rightarrow> 'q dsrs \<Rightarrow> (rdb_errno \<times> 'q dsrs) option" where
  "Ds_GoToPreviousRow Br = GoToPreviousRow (ds_ops Br)"

definition Ds_IsAtFirstRow :: "'q bridge \<Rightarrow> 'q dsrs \<Rightarrow> bool" where
  "Ds_IsAtFirstRow Br = IsAtFirstRow (ds_ops Br)"

definition Ds_IsAtLastRow :: "'q bridge \<Rightarrow> 'q dsrs \<Rightarrow> (bool result \<times> 'q dsrs) option" where
  "Ds_IsAtLastRow Br = IsAtLastRow (ds_ops Br)"

definition Ds_IsStarted :: "'q bridge \<Rightarrow> 'q dsrs \<Rightarrow> bool" where
  "Ds_IsStarted Br = IsStarted (ds_ops Br)"

definition Ds_IsEnded :: "'q bridge \<Rightarrow> 'q dsrs \<Rightarrow> (bool result \<times> 'q dsrs) option" where
  "Ds_IsEnded Br = IsEnded (ds_ops Br)"

definition Ds_GetColumnCount :: "'q bridge \<Rightarrow> 'q dsrs \<Rightarrow> (int result \<times> 'q dsrs) option" where
  "Ds_GetColumnCount Br = Rs_GetColumnCount (ds_ops Br)"

definition Ds_GetColumnIndex :: "'q bridge \<Rightarrow> string \<Rightarrow> 'q dsrs \<Rightarrow> (int result \<times> 'q dsrs) option" where
  "Ds_GetColumnIndex Br = GetColumnIndex E_ERROR (ds_ops Br)"

definition Ds_GetColumnName :: "'q bridge \<Rightarrow> int \<Rightarrow> 'q dsrs \<Rightarrow> (string result \<times> 'q dsrs) option" where
  "Ds_GetColumnName Br = Rs_GetColumnName E_INVALID_COLUMN_INDEX (ds_ops Br)"

subsection \<open>What arrives in a window\<close>

definition cell_type :: "cell \<Rightarrow> uint32" where
  "cell_type x = (case x of CellNull \<Rightarrow> 0 | CellLong _ \<Rightarrow> 1 | CellDouble _ \<Rightarrow> 2 | CellString _ \<Rightarrow> 3 | CellBlob _ \<Rightarrow> 4)"

text \<open>The cell that is written for \<open>x\<close> in a column taken to have type \<open>t\<close>.\<close>

definition written :: "fp_ops \<Rightarrow> (64 word \<Rightarrow> string) \<Rightarrow> uint32 \<Rightarrow> cell \<Rightarrow> cell" where
  "written f os t x =
     (if t = 1 then CellLong (case long_of_cell f x of Inl _ \<Rightarrow> 0 | Inr v \<Rightarrow> v)
      else if t = 2 then CellDouble (case double_of_cell f x of Inl _ \<Rightarrow> 0 | Inr v \<Rightarrow> v)
      else if t = 0 then CellNull
      else if t = 4 then
        (case blob_of_cell x of Inl _ \<Rightarrow> CellNull | Inr [] \<Rightarrow> CellNull | Inr bs \<Rightarrow> CellString (takeWhile (\<lambda>b. b \<noteq> 0) bs))
      else CellString (c_bytes (case string_of_cell os x of Inl _ \<Rightarrow> '''' | Inr s \<Rightarrow> s)))"

text \<open>A text or blob for which the block has no space is left null.\<close>

definition delivered :: "fp_ops \<Rightarrow> (64 word \<Rightarrow> string) \<Rightarrow> uint32 \<Rightarrow> cell \<Rightarrow> cell \<Rightarrow> bool" where
  "delivered f os t x y \<longleftrightarrow> y = written f os t x \<or> (\<exists>bs. written f os t x = CellString bs) \<and> y = CellNull"

definition window :: "fp_ops \<Rightarrow> (64 word \<Rightarrow> string) \<Rightarrow> nat \<Rightarrow> cell list list \<Rightarrow> uint32 list \<Rightarrow> nat \<Rightarrow> cell list list \<Rightarrow> bool" where
  "window f os nc rows ts s ws \<longleftrightarrow>
     (\<forall>j < length ws. \<forall>i < nc. delivered f os (ts ! i) (rows ! (s + j) ! i) (ws ! j ! i))"

lemma long_double_defined: "(\<exists>v. long_of_cell f x = Inr v) \<and> (\<exists>w. double_of_cell f x = Inr w)"
  by (simp add: long_of_cell_def double_of_cell_def split: cell.split)

lemma blob_defined: "\<exists>bs. blob_of_cell x = Inr bs"
  by (simp add: blob_of_cell_def split: cell.split)

subsection \<open>Writing into the last row\<close>

lemma write_last:
  assumes T: "holds_table B n (T @ [ys])" and i: "i < n" "length ys = n" and x: "cell_fits x"
    and put: "\<And>row. put row = (case x of CellNull \<Rightarrow> PutNull row (of_nat i) | CellLong v \<Rightarrow> PutLong row (of_nat i) v
      | CellDouble v \<Rightarrow> PutDouble row (of_nat i) v | CellString bs \<Rightarrow> PutString sec row (of_nat i) bs | CellBlob bs \<Rightarrow> PutBlob sec row (of_nat i) bs)"
  shows "\<exists>e B' y. write_with put (Some B) = Some (e, Some B') \<and> holds_table B' n (T @ [ys[i := y]])
    \<and> (y = x \<or> (\<exists>bs. x = CellString bs \<or> x = CellBlob bs) \<and> y = ys ! i)"
proof -
  have b: "length T < 2 ^ 32 - 1" using holds_table_bound [OF T] by simp
  have "unat (of_nat (Suc (length T)) :: uint32) = Suc (length T)" using b by (intro unat_of_nat_32) simp
  then have pos: "(of_nat (Suc (length T)) :: uint32) > 0" by (simp add: word_less_nat_alt del: of_nat_Suc)
  have cur: "GetCurrentRowIndex (Some B) = Some (Some (of_nat (length T)))"
    using GetRowNum_table [OF T] pos by (simp add: GetCurrentRowIndex_def)
  have put': "put (of_nat (length T)) B = put_cell sec (length T) i x B"
    by (simp add: put put_cell_def split: cell.split)
  have col: "unat (of_nat i :: uint32) = i" and row: "unat (of_nat (length T) :: uint32) = length T"
    using i b column_index [OF T] by (auto intro: unat_of_nat_32)
  note s = PutScalar_table [OF T, of "of_nat (length T)" "of_nat i", unfolded row col]
  have upd: "(T @ [ys])[length T := ((T @ [ys]) ! length T)[i := y]] = T @ [ys[i := y]]" for y by simp
  show ?thesis
  proof (cases "\<exists>bs. x = CellString bs \<or> x = CellBlob bs")
    case True
    from put_cell_table [OF T, of "length T" i x sec] i x upd obtain e B' where
      p: "put_cell sec (length T) i x B = Some (e, B')" and h: "holds_table B' n (T @ [ys[i := x]]) \<or> holds_table B' n (T @ [ys])"
      by auto
    then have "\<exists>y. holds_table B' n (T @ [ys[i := y]]) \<and> (y = x \<or> y = ys ! i)"
      by (metis list_update_id)
    with True cur put' p show ?thesis by (auto simp: write_with_def on_block_def)
  next
    case False
    have "\<exists>e B'. put_cell sec (length T) i x B = Some (e, B') \<and> holds_table B' n (T @ [ys[i := x]])"
    proof (cases x)
      case (CellLong v) then show ?thesis using s(1) [of v] i by (auto simp: put_cell_def)
    next
      case (CellDouble v) then show ?thesis using s(2) [of v] i by (auto simp: put_cell_def)
    next
      case CellNull then show ?thesis using s(3) i by (auto simp: put_cell_def)
    qed (use False in auto)
    with cur put' show ?thesis by (auto simp: write_with_def on_block_def)
  qed
qed

subsection \<open>What the bridge needs of a relational result set\<close>

definition gives :: "('q \<Rightarrow> bool) \<Rightarrow> ('q \<Rightarrow> int) \<Rightarrow> ('q \<Rightarrow> ('a result \<times> 'q) option) \<Rightarrow> 'q \<Rightarrow> 'a result \<Rightarrow> bool" where
  "gives I pos get q v \<longleftrightarrow> (\<exists>q'. get q = Some (v, q') \<and> I q' \<and> pos q' = pos q)"

locale served_rows = row_scanner "rBase R" E_OK inv "length rows" hi "rGoToNextRow R"
  for R :: "'q rdb_rs" and inv :: "'q \<Rightarrow> bool" and rows :: "cell list list" and hi :: int +
  fixes nc :: nat and f :: fp_ops and os :: "64 word \<Rightarrow> string" and sec :: "nat \<Rightarrow> nat \<Rightarrow> bool"
  assumes names: "inv q \<Longrightarrow> \<exists>ns. length ns = nc \<and> gives inv (vRowPos (rBase R)) (vGetAllColumnNames (rBase R)) q (Inr ns)"
    and started: "inv q \<Longrightarrow> rIsStarted R q \<longleftrightarrow> vRowPos (rBase R) q \<noteq> INIT_POS"
    and sizes: "inv q \<Longrightarrow> 0 < nc \<and> nc \<le> 32767 \<and> length rows < 2 ^ 31 - 2 \<and> securec_contract sec"
    and fits: "inv q \<Longrightarrow> j < length rows \<Longrightarrow> i < nc \<Longrightarrow> cell_fits (written f os t (rows ! j ! i))"
    and get_type: "inv q \<Longrightarrow> vRowPos (rBase R) q = int j \<Longrightarrow> j < length rows \<Longrightarrow> i < nc \<Longrightarrow>
      gives inv (vRowPos (rBase R)) (rGetColumnType R (int i)) q (Inr (cell_type (rows ! j ! i)))"
    and get_long: "inv q \<Longrightarrow> vRowPos (rBase R) q = int j \<Longrightarrow> j < length rows \<Longrightarrow> i < nc \<Longrightarrow>
      gives inv (vRowPos (rBase R)) (rGetLong R (int i)) q (long_of_cell f (rows ! j ! i))"
    and get_double: "inv q \<Longrightarrow> vRowPos (rBase R) q = int j \<Longrightarrow> j < length rows \<Longrightarrow> i < nc \<Longrightarrow>
      gives inv (vRowPos (rBase R)) (rGetDouble R (int i)) q (double_of_cell f (rows ! j ! i))"
    and get_string: "inv q \<Longrightarrow> vRowPos (rBase R) q = int j \<Longrightarrow> j < length rows \<Longrightarrow> i < nc \<Longrightarrow>
      gives inv (vRowPos (rBase R)) (rGetString R (int i)) q (string_of_cell os (rows ! j ! i))"
    and get_blob: "inv q \<Longrightarrow> vRowPos (rBase R) q = int j \<Longrightarrow> j < length rows \<Longrightarrow> i < nc \<Longrightarrow>
      gives inv (vRowPos (rBase R)) (rGetBlob R (int i)) q (blob_of_cell (rows ! j ! i))"
begin

lemma types:
  "inv q \<Longrightarrow> vRowPos (rBase R) q = int j \<Longrightarrow> j < length rows \<Longrightarrow> \<forall>i \<in> set is. i < nc \<Longrightarrow>
   \<exists>q'. GetColumnTypes R is q = Some (map (\<lambda>i. cell_type (rows ! j ! i)) is, q') \<and> inv q' \<and> vRowPos (rBase R) q' = int j"
proof (induction "is" arbitrary: q)
  case (Cons i "is")
  then obtain q1 where "rGetColumnType R (int i) q = Some (Inr (cell_type (rows ! j ! i)), q1)" "inv q1" "vRowPos (rBase R) q1 = int j"
    using get_type [of q j i] by (auto simp: gives_def)
  with Cons.IH [of q1] Cons.prems show ?case by (auto simp: initialised_def)
qed simp

lemma column:
  assumes q: "inv q" "vRowPos (rBase R) q = int j" "j < length rows" and i: "i < nc" "length ys = nc" "ys ! i = CellNull"
    and T: "holds_table B nc (T @ [ys])"
  shows "\<exists>B' q' y. write_column R sec t i (Some B, q) = Some (Some B', q') \<and> holds_table B' nc (T @ [ys[i := y]])
    \<and> delivered f os t (rows ! j ! i) y \<and> inv q' \<and> vRowPos (rBase R) q' = int j"
proof -
  let ?x = "rows ! j ! i" and ?w = "written f os t (rows ! j ! i)"
  obtain v w bs where d: "long_of_cell f ?x = Inr v" "double_of_cell f ?x = Inr w" "blob_of_cell ?x = Inr bs"
    using long_double_defined blob_defined by metis
  have fit: "cell_fits ?w" using fits q i by blast
  note wr = write_last [OF T i(1,2) fit, of _ sec]
  consider "t = 1" | "t = 2" | "t = 0" | "t = 4" "bs = []" | "t = 4" "bs \<noteq> []" | "t \<noteq> 0" "t \<noteq> 1" "t \<noteq> 2" "t \<noteq> 4" by blast
  then show ?thesis
  proof cases
    case 1
    then have w: "?w = CellLong v" using d by (simp add: written_def)
    then show ?thesis
      using 1 d wr [of "\<lambda>row. PutLong row (of_nat i) v"] get_long [OF q i(1)] q(2)
      by (fastforce simp: write_column_def gives_def initialised_def Write_long_def delivered_def)
  next
    case 2
    then have w: "?w = CellDouble w" using d by (simp add: written_def)
    then show ?thesis
      using 2 d wr [of "\<lambda>row. PutDouble row (of_nat i) w"] get_double [OF q i(1)] q(2)
      by (fastforce simp: write_column_def gives_def initialised_def Write_double_def delivered_def)
  next
    case 3
    then have w: "?w = CellNull" by (simp add: written_def)
    then show ?thesis
      using 3 wr [of "\<lambda>row. PutNull row (of_nat i)"] q
      by (fastforce simp: write_column_def Write_null_def delivered_def)
  next
    case 4
    then have w: "?w = CellNull" using d by (simp add: written_def)
    have "T @ [ys[i := CellNull]] = T @ [ys]" using i by (metis list_update_id)
    then show ?thesis
      using 4 w d get_blob [OF q i(1)] q(2) T
      by (fastforce simp: write_column_def WriteBlobData_def gives_def delivered_def)
  next
    case 5
    then have w: "?w = CellString (takeWhile (\<lambda>b. b \<noteq> 0) bs)" using d by (simp add: written_def split: list.split)
    then show ?thesis
      using 5 d i(3) wr [of "\<lambda>row. PutString sec row (of_nat i) (takeWhile (\<lambda>b. b \<noteq> 0) bs)"] get_blob [OF q i(1)] q(2)
      by (fastforce simp: write_column_def WriteBlobData_def gives_def Write_string_def delivered_def)
  next
    case 6
    let ?s = "case string_of_cell os ?x of Inl _ \<Rightarrow> '''' | Inr s \<Rightarrow> s"
    have w: "?w = CellString (c_bytes ?s)" using 6 by (simp add: written_def)
    then show ?thesis
      using 6 i(3) wr [of "\<lambda>row. PutString sec row (of_nat i) (c_bytes ?s)"] get_string [OF q i(1)] q(2)
      by (fastforce simp: write_column_def gives_def Write_string_def delivered_def)
  qed
qed

lemma columns:
  assumes ts: "length ts = nc" and j: "j < length rows"
  shows "inv q \<Longrightarrow> vRowPos (rBase R) q = int j \<Longrightarrow> length ys = nc \<Longrightarrow> holds_table B nc (T @ [ys]) \<Longrightarrow> i + k = nc \<Longrightarrow>
    (\<And>l. l < nc \<Longrightarrow> if l < i then delivered f os (ts ! l) (rows ! j ! l) (ys ! l) else ys ! l = CellNull) \<Longrightarrow>
    \<exists>B' q' zs. WriteColumn R sec ts [i..<nc] (Some B, q) = Some (Some B', q') \<and> holds_table B' nc (T @ [zs]) \<and> length zs = nc
      \<and> (\<forall>l < nc. delivered f os (ts ! l) (rows ! j ! l) (zs ! l)) \<and> inv q' \<and> vRowPos (rBase R) q' = int j"
proof (induction k arbitrary: i q ys B)
  case 0
  then show ?case by auto
next
  case (Suc k)
  have i: "i < nc" using Suc.prems(5) by simp
  have "ys ! i = CellNull" using Suc.prems(6) [OF i] by simp
  from column [OF Suc.prems(1,2) j i Suc.prems(3) this Suc.prems(4), of "ts ! i"] obtain B1 q1 y where
    c: "write_column R sec (ts ! i) i (Some B, q) = Some (Some B1, q1)" "holds_table B1 nc (T @ [ys[i := y]])"
      "delivered f os (ts ! i) (rows ! j ! i) y" "inv q1" "vRowPos (rBase R) q1 = int j" by blast
  have "if l < Suc i then delivered f os (ts ! l) (rows ! j ! l) (ys[i := y] ! l) else ys[i := y] ! l = CellNull" if "l < nc" for l
    using Suc.prems(6) [OF that] c(3) i Suc.prems(3) by (auto simp: nth_list_update less_Suc_eq)
  from Suc.IH [OF c(4,5) _ c(2) _ this] Suc.prems(3,5) c(1) i ts show ?case by (simp add: upt_conv_Cons)
qed

text \<open>From a position on its first row, a window of rows is appended; it ends early when the block is full.\<close>

lemma block:
  assumes ts: "length ts = nc"
  shows "inv q \<Longrightarrow> vRowPos (rBase R) q = int s \<Longrightarrow> target < int (length rows) \<Longrightarrow> s < length rows \<Longrightarrow> holds_table B nc T \<Longrightarrow>
    \<exists>B' q' ws. WriteBlock R sec (int s) target nc ts (Some B, q) = Some (Some B', q') \<and> holds_table B' nc (T @ ws)
      \<and> int (length ws) \<le> max 0 (target + 1 - int s) \<and> window f os nc rows ts s ws \<and> inv q'"
proof (induction "nat (target + 1 - int s)" arbitrary: s q B T)
  case 0
  then show ?case by (auto simp: WriteBlock.simps [of _ _ "int s"] window_def intro!: exI [of _ "[]"])
next
  case (Suc d)
  have le: "int s \<le> target" using Suc.hyps(2) by simp
  have sec: "securec_contract sec" using sizes Suc.prems(1) by blast
  from AllocRow_table [OF Suc.prems(5) sec] obtain e B1 where a: "AllocRow sec B = Some (e, B1)"
    and h: "e = SHARED_BLOCK_OK \<and> holds_table B1 nc (T @ [replicate nc CellNull]) \<or> e = SHARED_BLOCK_NO_MEMORY \<and> holds_table B1 nc T" by auto
  show ?case
  proof (cases "e = SHARED_BLOCK_OK")
    case False
    then show ?thesis using le a h Suc.prems(1)
      by (auto simp: WriteBlock.simps [of _ _ "int s"] Writer_AllocRow_def on_block_def ConvertErrorCode_def window_def intro!: exI [of _ "[]"])
  next
    case True
    then have h1: "holds_table B1 nc (T @ [replicate nc CellNull])" using h by simp
    from columns [OF ts Suc.prems(4,1,2) _ h1, of 0 nc] obtain B2 q2 zs where
      c: "WriteColumn R sec ts [0..<nc] (Some B1, q) = Some (Some B2, q2)" "holds_table B2 nc (T @ [zs])"
        "\<forall>l < nc. delivered f os (ts ! l) (rows ! s ! l) (zs ! l)" "inv q2" "vRowPos (rBase R) q2 = int s" by auto
    obtain e3 q3 where n: "rGoToNextRow R q2 = Some (e3, q3)" "inv q3"
      "(e3 = E_OK, vRowPos (rBase R) q3) = move (length rows) hi (int s + 1)" using next_row [OF c(4)] c(5) by auto
    have one: "WriteBlock R sec (int s) target nc ts (Some B, q) =
        (if e3 = E_OK then WriteBlock R sec (int (Suc s)) target nc ts (Some B2, q3) else Some (Some B2, q3))"
      using le a True c(1) n(1) by (simp add: WriteBlock.simps [of _ _ "int s"] Writer_AllocRow_def on_block_def ConvertErrorCode_def add.commute)
    show ?thesis
    proof (cases "e3 = E_OK")
      case False
      then show ?thesis using one c(2,3) n(2) le
        by (auto simp: window_def intro!: exI [of _ "[zs]"])
    next
      case e3: True
      then have s1: "Suc s < length rows" "vRowPos (rBase R) q3 = int (Suc s)" using n(3) by (auto simp: move_def split: if_splits)
      have "d = nat (target + 1 - int (Suc s))" using Suc.hyps(2) by simp
      from Suc.hyps(1) [OF this n(2) s1(2) Suc.prems(3) s1(1) c(2)] obtain B4 q4 ws where
        w: "WriteBlock R sec (int (Suc s)) target nc ts (Some B2, q3) = Some (Some B4, q4)" "holds_table B4 nc ((T @ [zs]) @ ws)"
          "int (length ws) \<le> max 0 (target + 1 - int (Suc s))" "window f os nc rows ts (Suc s) ws" "inv q4" by auto
      have "window f os nc rows ts s (zs # ws)"
        using w(4) c(3) by (auto simp: window_def nth_Cons split: nat.split)
      then show ?thesis using one e3 w le by (auto intro!: exI [of _ "zs # ws"])
    qed
  qed
qed

end

subsection \<open>What the result set needs of a bridge\<close>

text \<open>The block of the result set shows a window of the rows, and the position is in it.\<close>

definition window_shown :: "cell list list \<Rightarrow> nat \<Rightarrow> fp_ops \<Rightarrow> (64 word \<Rightarrow> string) \<Rightarrow> DataShareResultSet \<Rightarrow> nat \<Rightarrow> cell list list \<Rightarrow> bool" where
  "window_shown rows nc f os r s ws \<longleftrightarrow> s < length rows \<and> s + length ws \<le> length rows \<and> length ws \<le> 3
     \<and> (\<exists>B. ds_block r = Some B \<and> holds_table B nc ws)
     \<and> window f os nc rows (map (\<lambda>i. cell_type (rows ! s ! i)) [0..<nc]) s ws
     \<and> startRowPos r = int s \<and> endRowPos r = int s + int (length ws) - 1
     \<and> (0 \<le> ds_rowPos r \<and> ds_rowPos r < int (length rows) \<longrightarrow> int s \<le> ds_rowPos r \<and> ds_rowPos r < int s + int (max 1 (length ws)))"

definition ds_served :: "('q \<Rightarrow> bool) \<Rightarrow> cell list list \<Rightarrow> nat \<Rightarrow> fp_ops \<Rightarrow> (64 word \<Rightarrow> string) \<Rightarrow> 'q dsrs \<Rightarrow> bool" where
  "ds_served I rows nc f os = (\<lambda>(r, q). I q \<and> hasBridge r \<and> blockWriter r = Some OwnBlock
     \<and> - 1 \<le> ds_rowPos r \<and> ds_rowPos r \<le> int (length rows)
     \<and> (\<exists>B. ds_block r = Some B \<and> \<not> mReadOnly B \<and> 420 \<le> unat (mSize B) \<and> unat (mSize B) + 4 \<le> 2 ^ 32)
     \<and> (startRowPos r = - 1 \<and> endRowPos r = - 1 \<and> \<not> (0 \<le> ds_rowPos r \<and> ds_rowPos r < int (length rows)) \<or> (\<exists>s ws. window_shown rows nc f os r s ws)))"

text \<open>All getters of a column give what a cell says.\<close>

definition getters_give :: "'q bridge \<Rightarrow> fp_ops \<Rightarrow> (64 word \<Rightarrow> string) \<Rightarrow> nat \<Rightarrow> 'q dsrs \<Rightarrow> cell \<Rightarrow> bool" where
  "getters_give Br f os i rq y \<longleftrightarrow>
     map_option fst (Ds_GetLong Br f (int i) rq) = Some (long_of_cell f y)
   \<and> map_option fst (Ds_GetDouble Br f (int i) rq) = Some (double_of_cell f y)
   \<and> map_option fst (Ds_GetString Br os (int i) rq) = Some (string_of_cell os y)
   \<and> map_option fst (Ds_GetBlob Br (int i) rq) = Some (blob_of_cell y)
   \<and> map_option fst (Ds_IsColumnNull Br (int i) rq) = Some (Inr (y = CellNull))"

locale served_bridge =
  fixes Br :: "'q bridge" and I :: "'q \<Rightarrow> bool" and rows :: "cell list list"
    and nc :: nat and f :: fp_ops and os :: "64 word \<Rightarrow> string"
  assumes bcount: "I q \<Longrightarrow> \<exists>q'. bGetRowCount Br q = Some (Inr (int (length rows)), q') \<and> I q'"
    and bnames: "I q \<Longrightarrow> \<exists>ns q'. bGetAllColumnNames Br q = Some (Inr ns, q') \<and> length ns = nc \<and> I q'"
    and bsizes: "I q \<Longrightarrow> 0 < nc \<and> nc \<le> 32767 \<and> length rows < 2 ^ 31 - 2"
    and bgo: "I q \<Longrightarrow> s < length rows \<Longrightarrow> int s \<le> target \<Longrightarrow> target < int (length rows) \<Longrightarrow> holds_table B nc [] \<Longrightarrow>
      \<exists>B' q' ws. bOnGo Br (int s) target (Some B, q) = Some (True, Some B', q') \<and> holds_table B' nc ws \<and> I q'
        \<and> int (length ws) \<le> target + 1 - int s \<and> window f os nc rows (map (\<lambda>i. cell_type (rows ! s ! i)) [0..<nc]) s ws"
begin

abbreviation shows_window :: "DataShareResultSet \<Rightarrow> nat \<Rightarrow> cell list list \<Rightarrow> bool" where
  "shows_window \<equiv> window_shown rows nc f os"

abbreviation ds_inv :: "'q dsrs \<Rightarrow> bool" where
  "ds_inv \<equiv> ds_served I rows nc f os"

lemmas shows_window_def = window_shown_def and ds_inv_def = ds_served_def

lemma table_block: "holds_table B nc ws \<Longrightarrow> \<not> mReadOnly B \<and> 420 \<le> unat (mSize B) \<and> unat (mSize B) + 4 \<le> 2 ^ 32"
  using layoutD(1,2) layout_size by (fastforce simp: holds_table_def)

lemma ds_count: "ds_inv (r, q) \<Longrightarrow> \<exists>q'. Ds_GetRowCount Br (r, q) = Some (Inr (int (length rows)), r, q') \<and> ds_inv (r, q') \<and> I q'"
  using bcount [of q] by (auto simp: ds_inv_def Ds_GetRowCount_def)

lemma ds_names: "ds_inv (r, q) \<Longrightarrow> \<exists>ns q'. Ds_GetAllColumnNames Br (r, q) = Some (Inr ns, r, q') \<and> length ns = nc \<and> ds_inv (r, q') \<and> I q'"
  using bnames [of q] by (auto simp: ds_inv_def Ds_GetAllColumnNames_def)

lemma last_pos:
  assumes "p + k \<le> length rows" "length rows < 2 ^ 31 - 2"
  shows "sint (of_int (int p) + of_nat k - 1 :: uint32) = int p + int k - 1"
proof -
  have "(of_int (int p) + of_nat k - 1 :: uint32) = of_int (int p + int k - 1)" by simp
  also have "sint (of_int (int p + int k - 1) :: uint32) = int p + int k - 1"
    using assms by (simp only: sint_sbintrunc') (rule signed_take_bit_int_eq_self, auto)
  finally show ?thesis .
qed

text \<open>Filling the block again for a position outside the window.\<close>

lemma refill:
  assumes inv: "ds_inv (r, q)" and p: "p < length rows" "int p \<noteq> ds_rowPos r" "int p > endRowPos r \<or> int p < startRowPos r"
  shows "\<exists>r' q'. Ds_GoToRow Br (int p) (r, q) = Some (E_OK, r', q') \<and> ds_inv (r', q') \<and> ds_rowPos r' = int p"
proof -
  from inv obtain B where B: "ds_block r = Some B" "\<not> mReadOnly B" "420 \<le> unat (mSize B)" "unat (mSize B) + 4 \<le> 2 ^ 32"
    and w: "hasBridge r" "blockWriter r = Some OwnBlock" "I q" by (auto simp: ds_inv_def)
  note sz = bsizes [OF w(3)]
  obtain q1 where c: "Ds_GetRowCount Br (r, q) = Some (Inr (int (length rows)), r, q1)" "ds_inv (r, q1)" using ds_count [OF inv] by blast
  obtain ns q2 where n: "Ds_GetAllColumnNames Br (r, q1) = Some (Inr ns, r, q2)" "length ns = nc" "I q2" using ds_names [OF c(2)] by blast
  obtain B1 B2 where b: "Clear B = Some (SHARED_BLOCK_OK, B1)" "SetColumnNum (of_nat nc) B1 = Some (SHARED_BLOCK_OK, B2)" "holds_table B2 nc []"
    using Clear_table [OF B(2-4)] sz by blast
  let ?t = "min (int p + 2) (int (length rows) - 1)"
  have t: "int p \<le> ?t" "?t < int (length rows)" using p(1) by linarith+
  from bgo [OF n(3) p(1) t b(3)] obtain B3 q3 ws where
    g: "bOnGo Br (int p) ?t (Some B2, q2) = Some (True, Some B3, q3)" "holds_table B3 nc ws" "I q3" "int (length ws) \<le> ?t + 1 - int p"
      "window f os nc rows (map (\<lambda>i. cell_type (rows ! p ! i)) [0..<nc]) p ws" by auto
  have len: "p + length ws \<le> length rows" using g(4) p(1) by linarith
  have rn: "GetRowNum B3 = Some (of_nat (length ws))" using GetRowNum_table [OF g(2)] by blast
  let ?r = "r\<lparr>ds_block := Some B3, startRowPos := int p, endRowPos := int p + int (length ws) - 1, ds_rowPos := int p\<rparr>"
  have "Ds_GoToRow Br (int p) (r, q) = Some (E_OK, ?r, q3)"
    using c n b g(1) rn last_pos [OF len] sz p B(1) w by (simp add: Ds_GoToRow_def Ds_OnGo_def)
  moreover have "length ws \<le> 3" using g(4) by linarith
  then have "shows_window ?r p ws" using p(1) len g by (simp add: shows_window_def)
  then have "ds_inv (?r, q3)" unfolding ds_inv_def using w g(3) p(1) table_block [OF g(2)] by auto
  ultimately show ?thesis by (intro exI conjI) auto
qed

lemma ds_go:
  assumes inv: "ds_inv (r, q)"
  shows "\<exists>e r' q'. Ds_GoToRow Br p (r, q) = Some (e, r', q') \<and> ds_inv (r', q') \<and> (e = E_OK, ds_rowPos r') = move (length rows) (int (length rows)) p"
proof -
  from inv obtain B where B: "ds_block r = Some B" by (auto simp: ds_inv_def)
  obtain q1 where c: "Ds_GetRowCount Br (r, q) = Some (Inr (int (length rows)), r, q1)" "ds_inv (r, q1)" using ds_count [OF inv] by blast
  have moved: "ds_inv (r\<lparr>ds_rowPos := x\<rparr>, q1)" if "x = - 1 \<or> x = int (length rows)" for x
    using c(2) that by (auto simp: ds_inv_def shows_window_def)
  consider "p \<ge> int (length rows)" | "p < 0" | "0 \<le> p" "p < int (length rows)" by linarith
  then show ?thesis
  proof cases
    case 1 then show ?thesis using B c moved [of "int (length rows)"] by (simp add: Ds_GoToRow_def move_def)
  next
    case 2
    then have "\<not> p \<ge> int (length rows)" by simp
    then show ?thesis using 2 B c moved [of "- 1"] by (simp add: Ds_GoToRow_def move_def)
  next
    case 3
    then obtain k where k: "p = int k" "k < length rows" using nonneg_int_cases by fastforce
    consider "p = ds_rowPos r" | "p \<noteq> ds_rowPos r" "p > endRowPos r \<or> p < startRowPos r" | "p \<noteq> ds_rowPos r" "startRowPos r \<le> p" "p \<le> endRowPos r" by linarith
    then show ?thesis
    proof cases
      case 1 then show ?thesis using 3 B c by (simp add: Ds_GoToRow_def move_def)
    next
      case 2 then show ?thesis using refill [OF inv k(2)] k by (auto simp: move_def)
    next
      case in_window: 3
      have "startRowPos r \<noteq> - 1 \<or> endRowPos r \<noteq> - 1" using in_window 3 by auto
      then obtain s ws where w: "shows_window r s ws" using c(2) by (auto simp: ds_inv_def)
      then have "shows_window (r\<lparr>ds_rowPos := p\<rparr>) s ws" using in_window by (auto simp: shows_window_def)
      then have "ds_inv (r\<lparr>ds_rowPos := p\<rparr>, q1)" using c(2) 3 by (auto simp: ds_inv_def)
      then show ?thesis using 3 in_window B c by (simp add: Ds_GoToRow_def move_def)
    qed
  qed
qed

text \<open>On a row, every getter reads the cell of the window.\<close>

lemma ds_getter:
  assumes inv: "ds_inv (r, q)" and i: "i < nc" and row: "0 \<le> ds_rowPos r" "ds_rowPos r < int (length rows)"
    and B: "ds_block r = Some B" and g: "get B (of_int (ds_rowPos r - startRowPos r)) (of_nat i) = Some v"
  shows "\<exists>q'. ds_get Br (int i) get (r, q) = Some (v, r, q') \<and> ds_inv (r, q')"
proof -
  obtain ns q1 where n: "Ds_GetAllColumnNames Br (r, q) = Some (Inr ns, r, q1)" "length ns = nc" "ds_inv (r, q1)" using ds_names [OF inv] by blast
  obtain q2 where c: "Ds_GetRowCount Br (r, q1) = Some (Inr (int (length rows)), r, q2)" "ds_inv (r, q2)" using ds_count [OF n(3)] by blast
  have "Ds_CheckState Br (int i) (r, q) = Some (E_OK, r, q2)"
    using n c B i row by (simp add: Ds_CheckState_def Rs_GetColumnCount_def ds_ops_def)
  then show ?thesis using B g c(2) by (simp add: ds_get_def)
qed

lemma ds_reads:
  assumes inv: "ds_inv (r, q)" and i: "i < nc" and row: "ds_rowPos r = int p" "p < length rows"
  shows "\<exists>s ws. shows_window r s ws \<and> s \<le> p
    \<and> (ws = [] \<and> map_option fst (Ds_GetLong Br f (int i) (r, q)) = Some (Inl E_ERROR)
     \<or> p < s + length ws \<and> (terminated (ws ! (p - s) ! i) \<longrightarrow> getters_give Br f os i (r, q) (ws ! (p - s) ! i)))"
proof -
  from inv row obtain s ws where w: "shows_window r s ws" by (auto simp: ds_inv_def)
  then obtain B where B: "ds_block r = Some B" "holds_table B nc ws" and s: "startRowPos r = int s" "s \<le> p" "p < s + max 1 (length ws)"
    "p < length rows" using row by (auto simp: shows_window_def)
  have pos: "0 \<le> ds_rowPos r" "ds_rowPos r < int (length rows)" using row by auto
  have sz: "length rows < 2 ^ 31 - 2" using inv bsizes by (auto simp: ds_inv_def)
  let ?row = "of_int (ds_rowPos r - startRowPos r) :: uint32"
  have ix: "unat ?row = p - s" "unat (of_nat i :: uint32) = i"
    using row s sz unat_of_nat_32 [of "p - s"] column_index [OF B(2) i] by (auto simp: of_nat_diff)
  show ?thesis
  proof (cases "ws = []")
    case True
    then have "Cell_GetLong f B ?row (of_nat i) = Some (Inl E_ERROR)"
      unfolding Cell_GetLong_def by (intro on_cell_out [OF B(2)]) simp
    from ds_getter [where get = "Cell_GetLong f", OF inv i pos B(1) this]
    have "map_option fst (Ds_GetLong Br f (int i) (r, q)) = Some (Inl E_ERROR)" by (auto simp: Ds_GetLong_def)
    with w s(2) True show ?thesis by (intro exI [of _ s] exI [of _ ws]) simp
  next
    case False
    then have "1 \<le> length ws" by (cases ws) auto
    then have p: "p < s + length ws" using s(3) by simp
    have rl: "unat ?row < length ws" "unat (of_nat i :: uint32) < nc" using ix p s(2) i by auto
    note g = ds_getter [OF inv i pos B(1)] and c = cell_getters [OF B(2) rl, unfolded ix]
    have "terminated (ws ! (p - s) ! i) \<longrightarrow> getters_give Br f os i (r, q) (ws ! (p - s) ! i)"
      unfolding getters_give_def Ds_GetLong_def Ds_GetDouble_def Ds_GetString_def Ds_GetBlob_def Ds_IsColumnNull_def
      using g [where get = "Cell_GetLong f", OF c(3)] g [where get = "Cell_GetDouble f", OF c(4)] g [where get = "Cell_GetString os", OF c(2)]
        g [where get = Cell_GetBlob, OF c(1)] g [where get = Cell_IsColumnNull, OF c(5)] by auto
    with w s(2) p show ?thesis by blast
  qed
qed

end

sublocale served_bridge \<subseteq> ds: row_cursor "ds_ops Br" E_OK ds_inv "length rows" "int (length rows)"
proof unfold_locales
  fix rq p assume inv: "ds_inv rq"
  obtain r q where rq: "rq = (r, q)" by fastforce
  show "\<exists>e rq'. vGoToRow (ds_ops Br) p rq = Some (e, rq') \<and> ds_inv rq' \<and> (e = E_OK, vRowPos (ds_ops Br) rq') = move (length rows) (int (length rows)) p"
    using ds_go [of r q p] inv rq by (fastforce simp: ds_ops_def)
  show "\<exists>rq'. vGetRowCount (ds_ops Br) rq = Some (Inr (int (length rows)), rq') \<and> ds_inv rq' \<and> vRowPos (ds_ops Br) rq' = vRowPos (ds_ops Br) rq"
    using ds_count [of r q] inv rq by (fastforce simp: ds_ops_def)
qed

text \<open>The bridge over a relational result set that serves its rows is such a bridge.\<close>

context served_rows
begin

lemma column_count: "inv q \<Longrightarrow> \<exists>q'. Rs_GetColumnCount (rBase R) q = Some (Inr (int nc), q') \<and> inv q' \<and> vRowPos (rBase R) q' = vRowPos (rBase R) q"
  using names [of q] by (auto simp: gives_def Rs_GetColumnCount_def)

lemma on_go:
  assumes q: "inv q" and s: "s < length rows" "int s \<le> target" "target < int (length rows)" and B: "holds_table B nc []"
  shows "\<exists>B' q' ws. Bridge_OnGo R sec (int s) target (Some B, q) = Some (True, Some B', q') \<and> holds_table B' nc ws \<and> inv q'
    \<and> int (length ws) \<le> target + 1 - int s \<and> window f os nc rows (map (\<lambda>i. cell_type (rows ! s ! i)) [0..<nc]) s ws"
proof -
  obtain q1 where c: "vGetRowCount (rBase R) q = Some (Inr (int (length rows)), q1)" "inv q1" using count [OF q] by blast
  obtain q2 where n: "Rs_GetColumnCount (rBase R) q1 = Some (Inr (int nc), q2)" "inv q2" using column_count [OF c(2)] by blast
  have "\<exists>q3. (if rIsStarted R q2 then Some q2 else map_option snd (GoToFirstRow (rBase R) q2)) = Some q3 \<and> inv q3"
    using go [OF n(2), of 0] n(2) by (auto simp: GoToFirstRow_def)
  then obtain q3 where f: "(if rIsStarted R q2 then Some q2 else map_option snd (GoToFirstRow (rBase R) q2)) = Some q3" "inv q3" by blast
  obtain e q4 where g: "vGoToRow (rBase R) (int s) q3 = Some (e, q4)" "inv q4" "(e = E_OK, vRowPos (rBase R) q4) = move (length rows) hi (int s)"
    using go [OF f(2), of "int s"] by blast
  then have g': "e = E_OK" "vRowPos (rBase R) q4 = int s" using s(1) by (auto simp: move_def)
  obtain q5 where t: "GetColumnTypes R [0..<nc] q4 = Some (map (\<lambda>i. cell_type (rows ! s ! i)) [0..<nc], q5)" "inv q5" "vRowPos (rBase R) q5 = int s"
    using types [OF g(2) g'(2) s(1), of "[0..<nc]"] by auto
  obtain B' q6 ws where w: "WriteBlock R sec (int s) target nc (map (\<lambda>i. cell_type (rows ! s ! i)) [0..<nc]) (Some B, q5) = Some (Some B', q6)"
    "holds_table B' nc ([] @ ws)" "int (length ws) \<le> max 0 (target + 1 - int s)"
    "window f os nc rows (map (\<lambda>i. cell_type (rows ! s ! i)) [0..<nc]) s ws" "inv q6"
    using block [OF _ t(2,3) s(3,1) B, of "map (\<lambda>i. cell_type (rows ! s ! i)) [0..<nc]"] by auto
  have "Bridge_OnGo R sec (int s) target (Some B, q) = Some (True, Some B', q6)"
    using c n f g(1) g'(1) t(1) w(1) s sizes [OF q] by (simp add: Bridge_OnGo_def initialised_def)
  with w s show ?thesis by auto
qed

end

sublocale served_rows \<subseteq> rdb: served_bridge "rdb_bridge R sec" inv rows nc f os
proof unfold_locales
  fix q assume q: "inv q"
  show "\<exists>q'. bGetRowCount (rdb_bridge R sec) q = Some (Inr (int (length rows)), q') \<and> inv q'"
    using count [OF q] by (auto simp: rdb_bridge_def)
  show "\<exists>ns q'. bGetAllColumnNames (rdb_bridge R sec) q = Some (Inr ns, q') \<and> length ns = nc \<and> inv q'"
    using names [OF q] by (auto simp: rdb_bridge_def gives_def)
  show "0 < nc \<and> nc \<le> 32767 \<and> length rows < 2 ^ 31 - 2" using sizes [OF q] by blast
qed (use on_go in \<open>simp add: rdb_bridge_def\<close>)

subsection \<open>Over the shared result set of the store\<close>

definition shared_rdb :: "'s shctx \<Rightarrow> 's shrs rdb_rs" where
  "shared_rdb K =
     \<lparr>rBase = shared_ops K, rIsStarted = IsStarted (shared_ops K), rGoToNextRow = GoToNextRow (shared_ops K),
      rGetColumnType = (\<lambda>i rS. map_option (\<lambda>res. (res, rS)) (Shared_GetColumnType i rS)),
      rGetLong = Shared_GetLong K, rGetDouble = Shared_GetDouble K, rGetString = Shared_GetString K, rGetBlob = Shared_GetBlob K\<rparr>"

definition rows_ok :: "fp_ops \<Rightarrow> (64 word \<Rightarrow> string) \<Rightarrow> nat \<Rightarrow> cell list list \<Rightarrow> bool" where
  "rows_ok f os nc rows \<longleftrightarrow>
     (\<forall>j < length rows. \<forall>i < nc. terminated (rows ! j ! i) \<and> (\<forall>t. cell_fits (written f os t (rows ! j ! i))))"

definition sh_served :: "'s shctx \<Rightarrow> string \<Rightarrow> string list \<Rightarrow> nat \<Rightarrow> int \<Rightarrow> 's query_view \<Rightarrow> cell list list \<Rightarrow> 's shrs \<Rightarrow> bool" where
  "sh_served K q args nc np v rows rS \<longleftrightarrow>
     sh_state K q args (length rows) nc np v rows rS \<and> rows_ok (fp (cE K)) (cos K) nc rows
   \<and> 0 < nc \<and> nc \<le> 32767 \<and> length rows < 2 ^ 31 - 2 \<and> securec_contract (csec K)"

lemma sh_gives:
  assumes ok: "sh_served K q args nc np v rows rS" and p: "vRowPos (shared_ops K) rS = int j" "j < length rows" and i: "i < nc"
    and g: "\<And>B row col. holds_table B nc rows \<Longrightarrow> unat row = j \<Longrightarrow> unat col = i \<Longrightarrow> get B row col = Some res"
  shows "gives (sh_served K q args nc np v rows) (vRowPos (shared_ops K)) (shared_get K (int i) get) rS res"
proof -
  obtain r S where rS: "rS = (r, S)" by fastforce
  have st: "sh_state K q args (length rows) nc np v rows (r, S)" using ok rS by (simp add: sh_served_def)
  from sh_stateD(7) [OF st] obtain B where B: "sh_block r = Some B" "holds_table B nc rows" by blast
  have pos: "0 \<le> sh_rowPos r" "sh_rowPos r < int (length rows)" "sh_rowPos r = int j" "length rows < 2 ^ 31"
    using p rS sh_stateD(11) [OF st] by (auto simp: shared_ops_def)
  have "unat (of_int (sh_rowPos r) :: uint32) = j" "unat (of_nat i :: uint32) = i"
    using pos_index [OF pos(1,2,4)] pos(3) column_index [OF B(2) i] by auto
  from sh_get [where get = get, OF st pos(1,2) i pos(4) B(1) g [OF B(2) this]] ok rS show ?thesis
    by (fastforce simp: gives_def sh_served_def shared_ops_def)
qed

lemma cell_type_read:
  assumes "holds_table B nc rows" "unat row < length rows" "unat col < nc"
  shows "Cell_GetColumnType B row col = Some (Inr (cell_type (rows ! unat row ! unat col)))"
  using on_cell_in [OF assms] by (auto simp: Cell_GetColumnType_def on_cell_def unit_holds_def cell_type_def split: cell.splits)

interpretation copied: served_rows "shared_rdb K" "sh_served K q args nc np v rows" rows "int (length rows)" nc "fp (cE K)" "cos K" "csec K"
proof unfold_locales
  fix rS p assume ok: "sh_served K q args nc np v rows rS"
  then have st: "sh_state K q args (length rows) nc np v rows rS" by (simp add: sh_served_def)
  have keep: "sh_served K q args nc np v rows rS'" if "sh_state K q args (length rows) nc np v rows rS'" for rS'
    using ok that by (simp add: sh_served_def)
  note go = sharing.go [of K q args "length rows" nc np v rows rS, simplified]
  show "\<exists>e rS'. vGoToRow (rBase (shared_rdb K)) p rS = Some (e, rS') \<and> sh_served K q args nc np v rows rS'
      \<and> (e = E_OK, vRowPos (rBase (shared_rdb K)) rS') = move (length rows) (int (length rows)) p"
    using go [OF st, of p] keep by (fastforce simp: shared_rdb_def)
  show "\<exists>rS'. vGetRowCount (rBase (shared_rdb K)) rS = Some (Inr (int (length rows)), rS') \<and> sh_served K q args nc np v rows rS'
      \<and> vRowPos (rBase (shared_rdb K)) rS' = vRowPos (rBase (shared_rdb K)) rS"
    using sharing.count [of K q args "length rows" nc np v rows rS] st keep by (fastforce simp: shared_rdb_def)
  show "\<exists>e rS'. rGoToNextRow (shared_rdb K) rS = Some (e, rS') \<and> sh_served K q args nc np v rows rS'
      \<and> (e = E_OK, vRowPos (rBase (shared_rdb K)) rS') = move (length rows) (int (length rows)) (vRowPos (rBase (shared_rdb K)) rS + 1)"
    using go [OF st] keep by (fastforce simp: shared_rdb_def GoToNextRow_def)
  show "\<exists>ns. length ns = nc \<and> gives (sh_served K q args nc np v rows) (vRowPos (rBase (shared_rdb K))) (vGetAllColumnNames (rBase (shared_rdb K))) rS (Inr ns)"
  proof (cases rS)
    case (Pair r S)
    from sh_names [OF st [unfolded Pair]] obtain ns r' S' where n: "Shared_GetAllColumnNames K (r, S) = Some (Inr ns, r', S')" "length ns = nc"
      "sh_state K q args (length rows) nc np v rows (r', S')" "sh_rowPos r' = sh_rowPos r" by blast
    with keep [OF n(3)] Pair show ?thesis by (intro exI [of _ ns]) (simp add: gives_def shared_rdb_def shared_ops_def)
  qed
  show "rIsStarted (shared_rdb K) rS \<longleftrightarrow> vRowPos (rBase (shared_rdb K)) rS \<noteq> INIT_POS"
    by (simp add: shared_rdb_def IsStarted_def)
  show "0 < nc \<and> nc \<le> 32767 \<and> length rows < 2 ^ 31 - 2 \<and> securec_contract (csec K)" using ok by (simp add: sh_served_def)
  fix j i assume i: "i < nc" and j: "j < length rows"
  show "cell_fits (written (fp (cE K)) (cos K) t (rows ! j ! i))" for t using ok i j by (simp add: sh_served_def rows_ok_def)
  assume p: "vRowPos (rBase (shared_rdb K)) rS = int j"
  then have p': "vRowPos (shared_ops K) rS = int j" by (simp add: shared_rdb_def)
  have z: "terminated (rows ! j ! i)" using ok i j by (simp add: sh_served_def rows_ok_def)
  note g = sh_gives [OF ok p' j i]
  note c = cell_getters [where T = rows and n = nc]
  show "gives (sh_served K q args nc np v rows) (vRowPos (rBase (shared_rdb K))) (rGetColumnType (shared_rdb K) (int i)) rS (Inr (cell_type (rows ! j ! i)))"
  proof -
    obtain r S where rS: "rS = (r, S)" by fastforce
    from sh_stateD(7) [OF st [unfolded rS]] obtain B where B: "sh_block r = Some B" "holds_table B nc rows" by blast
    have pos: "0 \<le> sh_rowPos r" "sh_rowPos r < int (length rows)" "sh_rowPos r = int j" "length rows < 2 ^ 31"
      using p' j rS sh_stateD(11) [OF st [unfolded rS]] by (auto simp: shared_ops_def)
    have "unat (of_int (sh_rowPos r) :: uint32) = j" "unat (of_nat i :: uint32) = i"
      using pos_index [OF pos(1,2,4)] pos(3) column_index [OF B(2) i] by auto
    with cell_type_read [OF B(2), of "of_int (sh_rowPos r)" "of_nat i"] j i B(1) rS ok show ?thesis
      by (simp add: gives_def shared_rdb_def Shared_GetColumnType_def)
  qed
  show "gives (sh_served K q args nc np v rows) (vRowPos (rBase (shared_rdb K))) (rGetLong (shared_rdb K) (int i)) rS (long_of_cell (fp (cE K)) (rows ! j ! i))"
    unfolding shared_rdb_def Shared_GetLong_def by simp (rule g, use c(3) i j z in auto)
  show "gives (sh_served K q args nc np v rows) (vRowPos (rBase (shared_rdb K))) (rGetDouble (shared_rdb K) (int i)) rS (double_of_cell (fp (cE K)) (rows ! j ! i))"
    unfolding shared_rdb_def Shared_GetDouble_def by simp (rule g, use c(4) i j z in auto)
  show "gives (sh_served K q args nc np v rows) (vRowPos (rBase (shared_rdb K))) (rGetString (shared_rdb K) (int i)) rS (string_of_cell (cos K) (rows ! j ! i))"
    unfolding shared_rdb_def Shared_GetString_def by simp (rule g, use c(2) i j z in auto)
  show "gives (sh_served K q args nc np v rows) (vRowPos (rBase (shared_rdb K))) (rGetBlob (shared_rdb K) (int i)) rS (blob_of_cell (rows ! j ! i))"
    unfolding shared_rdb_def Shared_GetBlob_def by simp (rule g, use c(1) i j z in auto)
qed

abbreviation data_share :: "'s shctx \<Rightarrow> 's shrs bridge" where
  "data_share K \<equiv> rdb_bridge (shared_rdb K) (csec K)"

lemma fresh_inv:
  assumes "sh_served K q args nc np v rows rS" and "ds_block (DataShareResultSet_new A b) \<noteq> None"
  shows "ds_served (sh_served K q args nc np v rows) rows nc (fp (cE K)) (cos K) (DataShareResultSet_new A b, rS)"
  using assms
  by (auto simp: ds_served_def DataShareResultSet_new_def DataShareResultSet_empty_def Writer_new_def Create_def
      CreateSharedBlock_def Let_def split: option.splits if_splits)

lemma written_same:
  "written f os 0 CellNull = CellNull" "written f os 1 (CellLong v) = CellLong v" "written f os 2 (CellDouble w) = CellDouble w"
  by (simp_all add: written_def long_of_cell_def double_of_cell_def)

text \<open>A text with its terminator and no other zero arrives as it is.\<close>

lemma byte_char: "of_char (char_of (unat (x :: byte))) = x"
proof -
  have "of_char (char_of (unat x)) = (of_nat (of_char (char_of (unat x))) :: byte)" by (simp only: of_nat_of_char)
  also have "\<dots> = x" using unsigned_less [of x, where 'a = nat] by (simp add: of_char_of)
  finally show ?thesis .
qed

lemma written_text:
  assumes "0 \<notin> set bs" "bs \<noteq> []"
  shows "written f os 3 (CellString (bs @ [0])) = CellString (bs @ [0])"
proof -
  have "takeWhile (\<lambda>b. b \<noteq> 0) (bs @ [0]) = bs" "takeWhile (\<lambda>b. b \<noteq> 0) bs = bs"
    using assms(1) by (auto simp: takeWhile_append takeWhile_eq_all_conv)
  with assms(2) show ?thesis
    by (simp add: written_def string_of_cell_def c_text_def c_bytes_def comp_def byte_char)
qed


text \<open>
  The types of the columns are read once, on the first row of a window, and used for all its
  rows: a null in a column whose first cell in the window is an integer is sent as the integer zero, and
  the reader is told that it is not null.
\<close>

theorem later_null_becomes_zero:
  assumes ok: "sh_served K q args nc np v rows (r, S)" and row: "sh_rowPos r = int p" "p < length rows" and i: "i < nc"
    and null: "rows ! p ! i = CellNull" and types: "length ts = nc" "ts ! i = cell_type (CellLong x)"
    and B: "holds_table B nc (T @ [replicate nc CellNull])"
  shows "\<exists>B' rS' zs. WriteColumn (shared_rdb K) (csec K) ts [0..<nc] (Some B, r, S) = Some (Some B', rS')
    \<and> holds_table B' nc (T @ [zs]) \<and> zs ! i = CellLong 0
    \<and> Cell_IsColumnNull B' (of_nat (length T)) (of_nat i) = Some (Inr False)"
proof -
  have pos: "vRowPos (rBase (shared_rdb K)) (r, S) = int p" using row by (simp add: shared_rdb_def shared_ops_def)
  from copied.columns [OF types(1) row(2) ok pos _ B, of 0 nc] obtain B' rS' zs where
    w: "WriteColumn (shared_rdb K) (csec K) ts [0..<nc] (Some B, r, S) = Some (Some B', rS')" "holds_table B' nc (T @ [zs])"
      "delivered (fp (cE K)) (cos K) (ts ! i) (rows ! p ! i) (zs ! i)" using i by auto
  have z: "zs ! i = CellLong 0" using w(3) null types(2) by (auto simp: delivered_def written_def cell_type_def long_of_cell_def)
  have ix: "unat (of_nat (length T) :: uint32) = length T" "unat (of_nat i :: uint32) = i"
    using holds_table_bound [OF w(2)] column_index [OF w(2) i] by (auto intro: unat_of_nat_32)
  have "Cell_IsColumnNull B' (of_nat (length T)) (of_nat i) = Some (Inr False)"
    using cell_getters(5) [OF w(2), of "of_nat (length T)" "of_nat i", unfolded ix] z i by (simp add: terminated_def)
  with w z show ?thesis by blast
qed

subsection \<open>Examples\<close>

definition sample_ashmem :: ashmem_ops where
  "sample_ashmem = \<lparr>CreateAshmem = (\<lambda>_ _. Some (\<lambda>_. 0)), MapReadAndWriteAshmem = True, ReadFromAshmem = (\<lambda>_ _ _. True)\<rparr>"

lemma sample_ds: "ds_block (DataShareResultSet_new sample_ashmem 0) \<noteq> None"
  by (simp add: DataShareResultSet_new_def Writer_new_def Create_def CreateSharedBlock_def Init_def sample_ashmem_def Let_def)

lemma null_row_codes:
  "map_option fst (Option.bind (Clear sample_block) (\<lambda>(_, B). Option.bind (SetColumnNum 1 B)
     (\<lambda>(_, B). block_run (\<lambda>d k. 0 < k) [bAllocRow] B))) = Some [SHARED_BLOCK_OK]"
  by code_simp

lemma null_row_block: "\<exists>B. holds_table B 1 [[CellNull]]"
proof -
  obtain B1 B2 where b: "Clear sample_block = Some (SHARED_BLOCK_OK, B1)" "SetColumnNum (of_nat 1) B1 = Some (SHARED_BLOCK_OK, B2)" "holds_table B2 1 []"
    using Clear_table [of sample_block 1] by (auto simp: sample_block_def)
  obtain es B3 T where "block_run (\<lambda>d k. 0 < k) [bAllocRow] B2 = Some (es, B3)"
    "table_run 1 (zip [bAllocRow] es) [] = Some T" "holds_table B3 1 T"
    using block_run_table [OF b(3), of "\<lambda>d k. 0 < k" "[bAllocRow]"] by (auto simp: securec_contract_def)
  with null_row_codes b show ?thesis by (auto split: if_splits)
qed

lemma table_served:
  assumes "holds_table B 1 [[CellNull]]" and "p = - 1 \<or> p = 0"
  shows "sh_served (table_ctx [[CellNull]]) ''SELECT a FROM t'' [] 1 0 (table_view 1) [[CellNull]] (table_shared B 1 p, table_store)"
proof -
  let ?rows = "[[CellNull]]"
  have "sh_state (table_ctx ?rows) ''SELECT a FROM t'' [] (length ?rows) 1 0 (table_view (length ?rows)) ?rows (table_shared B (int (length ?rows)) p, table_store)"
    using assms by (intro table_sh_state) auto
  moreover have "rows_ok (fp (cE (table_ctx ?rows))) (cos (table_ctx ?rows)) 1 ?rows"
    by (simp add: rows_ok_def terminated_def written_def long_of_cell_def double_of_cell_def blob_of_cell_def string_of_cell_def c_bytes_def)
  ultimately show ?thesis by (simp add: sh_served_def table_ctx_def securec_contract_def)
qed

theorem later_null_becomes_zero_witness:
  "\<exists>B B' rS' zs. holds_table B 1 [[CellNull]]
     \<and> WriteColumn (shared_rdb (table_ctx [[CellNull]])) (csec (table_ctx [[CellNull]])) [1] [0] (Some B, table_shared B 1 0, table_store) = Some (Some B', rS')
     \<and> holds_table B' 1 [zs] \<and> zs ! 0 = CellLong 0"
proof -
  obtain B where B: "holds_table B 1 [[CellNull]]" using null_row_block by blast
  have ok: "sh_served (table_ctx [[CellNull]]) ''SELECT a FROM t'' [] 1 0 (table_view 1) [[CellNull]] (table_shared B 1 0, table_store)"
    by (rule table_served [OF B]) simp
  from later_null_becomes_zero [OF ok, of 0 0 "[1]" 5 B "[]"] B show ?thesis
    by (fastforce simp: table_shared_def cell_type_def)
qed


end
