(* ===== verification/Data_Share_Values.thy ===== *)
theory Data_Share_Values
  imports Value_Object
begin

text \<open>
  The values of the data share framework (datashare_value_object.cpp, datashare_values_bucket.cpp) and
  their conversion to values of the store (\<open>ToValuesBucket\<close> of rdb_utils.cpp).  The two value classes
  have the same types, alternatives and parcel format, so both are the record \<open>ValueObject\<close>, and the
  methods here are those of the store on it; the laws of the bucket and its round trip hold for both.
\<close>

subsection \<open>DataShareValueObject\<close>

type_synonym DataShareValueObject = ValueObject

definition DsValue_null :: DataShareValueObject where
  "DsValue_null = ValueObject_null"

definition DsValue_int :: "32 word \<Rightarrow> DataShareValueObject" where
  "DsValue_int v = \<lparr>vtype = TYPE_INT, val = VLong (scast v)\<rparr>"

definition DsValue_long :: "int64 \<Rightarrow> DataShareValueObject" where
  "DsValue_long v = \<lparr>vtype = TYPE_INT, val = VLong v\<rparr>"

definition DsValue_double :: "64 word \<Rightarrow> DataShareValueObject" where
  "DsValue_double v = \<lparr>vtype = TYPE_DOUBLE, val = VDouble v\<rparr>"

definition DsValue_bool :: "bool \<Rightarrow> DataShareValueObject" where
  "DsValue_bool v = \<lparr>vtype = TYPE_BOOL, val = VBool v\<rparr>"

definition DsValue_string :: "string \<Rightarrow> DataShareValueObject" where
  "DsValue_string v = \<lparr>vtype = TYPE_STRING, val = VString v\<rparr>"

definition DsValue_blob :: "byte list \<Rightarrow> DataShareValueObject" where
  "DsValue_blob v = \<lparr>vtype = TYPE_BLOB, val = VBlob v\<rparr>"

lemmas DsValue_ctors = DsValue_null_def DsValue_int_def DsValue_long_def DsValue_double_def DsValue_bool_def
  DsValue_string_def DsValue_blob_def

text \<open>A moved-from value is null, with the alternative it had.\<close>

definition DsValue_move :: "DataShareValueObject \<Rightarrow> DataShareValueObject \<times> DataShareValueObject" where
  "DsValue_move v = (v, v\<lparr>vtype := TYPE_NULL\<rparr>)"

definition DsValue_GetInt :: "DataShareValueObject \<Rightarrow> (32 word) getter" where
  "DsValue_GetInt v = GetInt v"

definition DsValue_GetLong :: "DataShareValueObject \<Rightarrow> int64 getter" where
  "DsValue_GetLong v = GetLong v"

definition DsValue_GetDouble :: "DataShareValueObject \<Rightarrow> (64 word) getter" where
  "DsValue_GetDouble v = GetDouble v"

definition DsValue_GetBool :: "DataShareValueObject \<Rightarrow> bool getter" where
  "DsValue_GetBool v = GetBool v"

definition DsValue_GetString :: "DataShareValueObject \<Rightarrow> string getter" where
  "DsValue_GetString v = GetString v"

definition DsValue_GetBlob :: "DataShareValueObject \<Rightarrow> (byte list) getter" where
  "DsValue_GetBlob v = GetBlob v"

lemmas DsValue_getters = DsValue_GetInt_def DsValue_GetLong_def DsValue_GetDouble_def DsValue_GetBool_def
  DsValue_GetString_def DsValue_GetBlob_def

definition DsValue_Marshalling :: "'p parcel_ops \<Rightarrow> DataShareValueObject \<Rightarrow> 'p \<Rightarrow> 'p option" where
  "DsValue_Marshalling P = Marshalling P"

definition DsValue_Unmarshalling :: "'p parcel_ops \<Rightarrow> 'p \<Rightarrow> DataShareValueObject \<times> 'p" where
  "DsValue_Unmarshalling P = Unmarshalling P"

subsection \<open>DataShareValuesBucket\<close>

type_synonym DataShareValuesBucket = "(string \<times> DataShareValueObject) list"

definition DsBucket_PutString :: "string \<Rightarrow> string \<Rightarrow> DataShareValuesBucket \<Rightarrow> DataShareValuesBucket" where
  "DsBucket_PutString k value b = map_insert k (DsValue_string value) b"

definition DsBucket_PutInt :: "string \<Rightarrow> 32 word \<Rightarrow> DataShareValuesBucket \<Rightarrow> DataShareValuesBucket" where
  "DsBucket_PutInt k value b = map_insert k (DsValue_int value) b"

definition DsBucket_PutLong :: "string \<Rightarrow> int64 \<Rightarrow> DataShareValuesBucket \<Rightarrow> DataShareValuesBucket" where
  "DsBucket_PutLong k value b = map_insert k (DsValue_long value) b"

definition DsBucket_PutDouble :: "string \<Rightarrow> 64 word \<Rightarrow> DataShareValuesBucket \<Rightarrow> DataShareValuesBucket" where
  "DsBucket_PutDouble k value b = map_insert k (DsValue_double value) b"

definition DsBucket_PutBool :: "string \<Rightarrow> bool \<Rightarrow> DataShareValuesBucket \<Rightarrow> DataShareValuesBucket" where
  "DsBucket_PutBool k value b = map_insert k (DsValue_bool value) b"

definition DsBucket_PutBlob :: "string \<Rightarrow> byte list \<Rightarrow> DataShareValuesBucket \<Rightarrow> DataShareValuesBucket" where
  "DsBucket_PutBlob k value b = map_insert k (DsValue_blob value) b"

definition DsBucket_PutNull :: "string \<Rightarrow> DataShareValuesBucket \<Rightarrow> DataShareValuesBucket" where
  "DsBucket_PutNull k b = map_insert k DsValue_null b"

definition DsBucket_Delete :: "string \<Rightarrow> DataShareValuesBucket \<Rightarrow> DataShareValuesBucket" where
  "DsBucket_Delete k b = map_erase k b"

definition DsBucket_Clear :: "DataShareValuesBucket \<Rightarrow> DataShareValuesBucket" where
  "DsBucket_Clear b = []"

definition DsBucket_Size :: "DataShareValuesBucket \<Rightarrow> nat" where
  "DsBucket_Size b = length b"

definition DsBucket_IsEmpty :: "DataShareValuesBucket \<Rightarrow> bool" where
  "DsBucket_IsEmpty b \<longleftrightarrow> b = []"

definition HasColumnOrKey :: "string \<Rightarrow> DataShareValuesBucket \<Rightarrow> bool" where
  "HasColumnOrKey k b = (case map_of b k of None \<Rightarrow> False | Some _ \<Rightarrow> True)"

definition DsBucket_GetObject :: "string \<Rightarrow> DataShareValuesBucket \<Rightarrow> DataShareValueObject option" where
  "DsBucket_GetObject k b = map_of b k"

definition DsBucket_GetAll :: "DataShareValuesBucket \<Rightarrow> (string \<times> DataShareValueObject) list" where
  "DsBucket_GetAll b = b"

definition DsBucket_Marshalling :: "'p parcel_ops \<Rightarrow> DataShareValuesBucket \<Rightarrow> 'p \<Rightarrow> 'p option" where
  "DsBucket_Marshalling P b p = Bucket_write P b (WriteInt32 P (of_nat (length b)) p)"

definition DsBucket_Unmarshalling :: "'p parcel_ops \<Rightarrow> 'p \<Rightarrow> (DataShareValuesBucket \<times> 'p) option" where
  "DsBucket_Unmarshalling P p = (case ReadInt32 P p of (mapSize, q) \<Rightarrow> Bucket_read P (nat (sint mapSize)) [] q)"

subsection \<open>Values for the store\<close>

text \<open>\<open>None\<close> is the exception of a getter, or the use of a variable a failing getter has not set.\<close>

definition got :: "'a getter \<Rightarrow> 'a option" where
  "got g = (case g of Got v \<Rightarrow> Some v | _ \<Rightarrow> None)"

fun ToValuesBucket_loop :: "(string \<times> DataShareValueObject) list \<Rightarrow> ValuesBucket \<Rightarrow> ValuesBucket option" where
  "ToValuesBucket_loop [] valuesMap = Some valuesMap"
| "ToValuesBucket_loop ((key, value) # entries) valuesMap =
     (case vtype value of
        TYPE_BOOL \<Rightarrow> Option.bind (got (DsValue_GetBool value)) (\<lambda>v. ToValuesBucket_loop entries (map_insert key (ValueObject_bool v) valuesMap))
      | TYPE_INT \<Rightarrow> Option.bind (got (DsValue_GetInt value)) (\<lambda>v. ToValuesBucket_loop entries (map_insert key (ValueObject_int v) valuesMap))
      | TYPE_DOUBLE \<Rightarrow> Option.bind (got (DsValue_GetDouble value)) (\<lambda>v. ToValuesBucket_loop entries (map_insert key (ValueObject_double v) valuesMap))
      | TYPE_STRING \<Rightarrow> Option.bind (got (DsValue_GetString value)) (\<lambda>v. ToValuesBucket_loop entries (map_insert key (ValueObject_string v) valuesMap))
      | TYPE_BLOB \<Rightarrow> Option.bind (got (DsValue_GetBlob value)) (\<lambda>v. ToValuesBucket_loop entries (map_insert key (ValueObject_blob v) valuesMap))
      | TYPE_NULL \<Rightarrow> ToValuesBucket_loop entries valuesMap)"

definition ToValuesBucket :: "DataShareValuesBucket \<Rightarrow> ValuesBucket option" where
  "ToValuesBucket b = ToValuesBucket_loop (DsBucket_GetAll b) []"

subsection \<open>What arrives in the store\<close>

text \<open>A null is dropped, an integer is cut to 32 bits, everything else is kept.\<close>

definition stored :: "DataShareValueObject \<Rightarrow> ValueObject option" where
  "stored v =
     (case vtype v of
        TYPE_NULL \<Rightarrow> None
      | TYPE_INT \<Rightarrow> (case val v of VLong n \<Rightarrow> Some (ValueObject_int (ucast n)) | _ \<Rightarrow> None)
      | _ \<Rightarrow> Some v)"

lemma loop_step:
  assumes "value_wf v"
  shows "ToValuesBucket_loop ((k, v) # b) m =
    (case stored v of None \<Rightarrow> ToValuesBucket_loop b m | Some w \<Rightarrow> ToValuesBucket_loop b (map_insert k w m))"
  using assms
  by (cases v) (auto simp: stored_def got_def DsValue_getters GetInt_def GetDouble_def GetBool_def GetString_def GetBlob_def
      ValueObject_ctors split: ValueObjectType.splits variant.splits)

lemma loop_entries:
  assumes "\<forall>(k, v) \<in> set b. value_wf v"
  shows "ToValuesBucket_loop b m = Some (fold (\<lambda>(k, v). map_insert k v) (List.map_filter (\<lambda>(k, v). map_option (Pair k) (stored v)) b) m)"
  using assms
proof (induction b arbitrary: m)
  case Nil
  then show ?case by (simp add: map_filter_simps)
next
  case (Cons kv b)
  obtain k v where "kv = (k, v)" by fastforce
  with Cons loop_step [of v k b m] show ?case by (auto simp: map_filter_simps split: option.split)
qed

lemma map_of_stored:
  "distinct (map fst b) \<Longrightarrow> map_of (List.map_filter (\<lambda>(k, v). map_option (Pair k) (stored v)) b) k = Option.bind (map_of b k) stored"
proof (induction b arbitrary: k)
  case (Cons kv b)
  obtain k' v where kv: "kv = (k', v)" by fastforce
  have "map_of (List.map_filter (\<lambda>(k, v). map_option (Pair k) (stored v)) b) k' = None"
    using Cons.IH [of k'] Cons.prems kv by (simp add: map_of_eq_None_iff [THEN iffD2])
  with Cons kv show ?case by (auto simp: map_filter_simps split: option.split)
qed (simp add: map_filter_simps)

text \<open>
  Converting a well-formed bucket for the store never raises; a column has a value in
  the result exactly when it had a value that is not null, and it is the same value, except that an
  integer is cut to its low 32 bits.
\<close>

theorem to_values_bucket_columns:
  assumes "map_wf b" and "\<forall>(k, v) \<in> set b. value_wf v"
  shows "\<exists>m. ToValuesBucket b = Some m \<and> map_wf m \<and> (\<forall>k. map_of m k = Option.bind (map_of b k) stored)"
proof -
  let ?kvs = "List.map_filter (\<lambda>(k, v). map_option (Pair k) (stored v)) b"
  have d: "distinct (map fst b)" using assms(1) by (auto simp: map_wf_def strict_sorted_iff)
  have "ToValuesBucket b = Some (fold (\<lambda>(k, v). map_insert k v) ?kvs [])"
    using loop_entries [OF assms(2)] by (simp add: ToValuesBucket_def DsBucket_GetAll_def)
  moreover have "map_wf (fold (\<lambda>(k, v). map_insert k v) ?kvs [])"
    by (rule bucket.wf_fold) (simp add: map_wf_def)
  moreover have "map_of (fold (\<lambda>(k, v). map_insert k v) ?kvs []) = map_of ?kvs"
    using bucket.lookup_fold [of "[]" ?kvs] by (simp add: map_wf_def)
  ultimately show ?thesis using map_of_stored [OF d] by simp
qed

theorem to_values_bucket_columns_witness:
  "\<exists>m. ToValuesBucket [(''a'', DsValue_long 4294967297), (''b'', DsValue_null), (''c'', DsValue_string ''x'')] = Some m
     \<and> map_of m ''a'' = Some (ValueObject_int 1) \<and> map_of m ''b'' = None \<and> map_of m ''c'' = Some (ValueObject_string ''x'')"
proof -
  let ?b = "[(''a'', DsValue_long 4294967297), (''b'', DsValue_null), (''c'', DsValue_string ''x'')]"
  have "map_wf ?b" "\<forall>(k, v) \<in> set ?b. value_wf v"
    by (simp_all add: map_wf_def DsValue_ctors ValueObject_ctors)
  from to_values_bucket_columns [OF this] show ?thesis
    by (auto simp: stored_def DsValue_ctors ValueObject_ctors)
qed

text \<open>The bucket itself survives a parcel, as that of the store does.\<close>

lemma ds_bucket_calls:
  "DsBucket_Marshalling P b p = Bucket_Marshalling P b p" "DsBucket_Unmarshalling P p = Bucket_Unmarshalling P p"
  by (simp_all add: DsBucket_Marshalling_def DsBucket_Unmarshalling_def Bucket_Marshalling_def Bucket_Unmarshalling_def)

end
