(* ===== verification/Data_Share_Predicates.thy ===== *)
theory Data_Share_Predicates
  imports Data_Share_Values "HOL-Library.Monad_Syntax"
begin

text \<open>
  The predicates of the data share framework (datashare_predicates_object.cpp, datashare_predicates.cpp):
  a list of operations with up to three parameters, or a clause given as text; what the consumer builds
  is sent to the provider in a parcel.  \<open>None\<close> is an exception (\<open>std::get\<close> on another alternative,
  \<open>vector::at\<close> out of range) or the dereference of a null pointer.
\<close>

subsection \<open>DataSharePredicatesObject\<close>

text \<open>A number read from a parcel is cast to the enumeration without a check.\<close>

datatype ObjectType = OT_NULL | OT_INT | OT_DOUBLE | OT_STRING | OT_BOOL | OT_LONG
  | OT_INT_VECTOR | OT_LONG_VECTOR | OT_DOUBLE_VECTOR | OT_STRING_VECTOR | OT_OTHER "16 word"

datatype pvariant = PInt "32 word" | PLong int64 | PDouble "64 word" | PString string | PBool bool
  | PInts "32 word list" | PLongs "int64 list" | PStrings "string list" | PDoubles "64 word list"

record DataSharePredicatesObject =
  otype :: ObjectType
  oval :: pvariant

text \<open>A variant that is not set holds its first alternative, the number 0.\<close>

definition Obj_null :: DataSharePredicatesObject where
  "Obj_null = \<lparr>otype = OT_NULL, oval = PInt 0\<rparr>"

definition Obj_int :: "32 word \<Rightarrow> DataSharePredicatesObject" where
  "Obj_int v = \<lparr>otype = OT_INT, oval = PLong (scast v)\<rparr>"

definition Obj_long :: "int64 \<Rightarrow> DataSharePredicatesObject" where
  "Obj_long v = \<lparr>otype = OT_LONG, oval = PLong v\<rparr>"

definition Obj_double :: "64 word \<Rightarrow> DataSharePredicatesObject" where
  "Obj_double v = \<lparr>otype = OT_DOUBLE, oval = PDouble v\<rparr>"

definition Obj_bool :: "bool \<Rightarrow> DataSharePredicatesObject" where
  "Obj_bool v = \<lparr>otype = OT_BOOL, oval = PBool v\<rparr>"

definition Obj_string :: "string \<Rightarrow> DataSharePredicatesObject" where
  "Obj_string v = \<lparr>otype = OT_STRING, oval = PString v\<rparr>"

definition Obj_ints :: "32 word list \<Rightarrow> DataSharePredicatesObject" where
  "Obj_ints v = \<lparr>otype = OT_INT_VECTOR, oval = (if v \<noteq> [] then PLongs (map scast v) else PInt 0)\<rparr>"

definition Obj_longs :: "int64 list \<Rightarrow> DataSharePredicatesObject" where
  "Obj_longs v = \<lparr>otype = OT_LONG_VECTOR, oval = PLongs v\<rparr>"

definition Obj_strings :: "string list \<Rightarrow> DataSharePredicatesObject" where
  "Obj_strings v = \<lparr>otype = OT_STRING_VECTOR, oval = PStrings v\<rparr>"

definition Obj_doubles :: "64 word list \<Rightarrow> DataSharePredicatesObject" where
  "Obj_doubles v = \<lparr>otype = OT_DOUBLE_VECTOR, oval = PDoubles v\<rparr>"

lemmas Obj_ctors = Obj_null_def Obj_int_def Obj_long_def Obj_double_def Obj_bool_def Obj_string_def
  Obj_ints_def Obj_longs_def Obj_strings_def Obj_doubles_def

definition Obj_move :: "DataSharePredicatesObject \<Rightarrow> DataSharePredicatesObject \<times> DataSharePredicatesObject" where
  "Obj_move x = (x, x\<lparr>otype := OT_NULL\<rparr>)"

definition Obj_GetInt :: "DataSharePredicatesObject \<Rightarrow> (32 word) getter" where
  "Obj_GetInt x =
     (if otype x \<noteq> OT_INT then Failed E_INVALID_OBJECT_TYPE
      else case oval x of PLong v \<Rightarrow> Got (ucast v) | _ \<Rightarrow> BadVariantAccess)"

text \<open>The check is for the type of a 32-bit integer.\<close>

definition Obj_GetLong :: "DataSharePredicatesObject \<Rightarrow> int64 getter" where
  "Obj_GetLong x =
     (if otype x \<noteq> OT_INT then Failed E_INVALID_OBJECT_TYPE
      else case oval x of PLong v \<Rightarrow> Got v | _ \<Rightarrow> BadVariantAccess)"

definition Obj_GetDouble :: "DataSharePredicatesObject \<Rightarrow> (64 word) getter" where
  "Obj_GetDouble x =
     (if otype x \<noteq> OT_DOUBLE then Failed E_INVALID_OBJECT_TYPE
      else case oval x of PDouble v \<Rightarrow> Got v | _ \<Rightarrow> BadVariantAccess)"

definition Obj_GetBool :: "DataSharePredicatesObject \<Rightarrow> (bool) getter" where
  "Obj_GetBool x =
     (if otype x \<noteq> OT_BOOL then Failed E_INVALID_OBJECT_TYPE
      else case oval x of PBool v \<Rightarrow> Got v | _ \<Rightarrow> BadVariantAccess)"

definition Obj_GetString :: "DataSharePredicatesObject \<Rightarrow> (string) getter" where
  "Obj_GetString x =
     (if otype x \<noteq> OT_STRING then Failed E_INVALID_OBJECT_TYPE
      else case oval x of PString v \<Rightarrow> Got v | _ \<Rightarrow> BadVariantAccess)"

definition Obj_GetIntVector :: "DataSharePredicatesObject \<Rightarrow> (32 word list) getter" where
  "Obj_GetIntVector x =
     (if otype x \<noteq> OT_INT_VECTOR then Failed E_INVALID_OBJECT_TYPE
      else case oval x of PInts v \<Rightarrow> Got v | _ \<Rightarrow> BadVariantAccess)"

definition Obj_GetLongVector :: "DataSharePredicatesObject \<Rightarrow> (int64 list) getter" where
  "Obj_GetLongVector x =
     (if otype x \<noteq> OT_LONG_VECTOR then Failed E_INVALID_OBJECT_TYPE
      else case oval x of PLongs v \<Rightarrow> Got v | _ \<Rightarrow> BadVariantAccess)"

definition Obj_GetDoubleVector :: "DataSharePredicatesObject \<Rightarrow> (64 word list) getter" where
  "Obj_GetDoubleVector x =
     (if otype x \<noteq> OT_DOUBLE_VECTOR then Failed E_INVALID_OBJECT_TYPE
      else case oval x of PDoubles v \<Rightarrow> Got v | _ \<Rightarrow> BadVariantAccess)"

definition Obj_GetStringVector :: "DataSharePredicatesObject \<Rightarrow> (string list) getter" where
  "Obj_GetStringVector x =
     (if otype x \<noteq> OT_STRING_VECTOR then Failed E_INVALID_OBJECT_TYPE
      else case oval x of PStrings v \<Rightarrow> Got v | _ \<Rightarrow> BadVariantAccess)"

lemmas Obj_getters = Obj_GetInt_def Obj_GetLong_def Obj_GetDouble_def Obj_GetBool_def Obj_GetString_def
  Obj_GetIntVector_def Obj_GetLongVector_def Obj_GetDoubleVector_def Obj_GetStringVector_def

fun object_code :: "ObjectType \<Rightarrow> 16 word" where
  "object_code OT_NULL = 0"
| "object_code OT_INT = 1"
| "object_code OT_DOUBLE = 2"
| "object_code OT_STRING = 3"
| "object_code OT_BOOL = 4"
| "object_code OT_LONG = 5"
| "object_code OT_INT_VECTOR = 6"
| "object_code OT_LONG_VECTOR = 7"
| "object_code OT_DOUBLE_VECTOR = 8"
| "object_code OT_STRING_VECTOR = 9"
| "object_code (OT_OTHER c) = c"

definition object_type :: "16 word \<Rightarrow> ObjectType" where
  "object_type c =
     (let types = [OT_NULL, OT_INT, OT_DOUBLE, OT_STRING, OT_BOOL, OT_LONG, OT_INT_VECTOR, OT_LONG_VECTOR, OT_DOUBLE_VECTOR, OT_STRING_VECTOR]
      in if unat c < length types then types ! unat c else OT_OTHER c)"

subsection \<open>Parcels with vectors, a parameter\<close>

text \<open>The vector operations of the parcel library, and reading a parcelable of the class above.\<close>

record 'p ds_parcel =
  ppc :: "'p parcel_ops"
  WriteInt64Vector :: "int64 list \<Rightarrow> 'p \<Rightarrow> 'p"
  WriteDoubleVector :: "64 word list \<Rightarrow> 'p \<Rightarrow> 'p"
  WriteStringVector :: "string list \<Rightarrow> 'p \<Rightarrow> 'p"
  ReadInt64Vector :: "'p \<Rightarrow> int64 list \<times> 'p"
  ReadDoubleVector :: "'p \<Rightarrow> 64 word list \<times> 'p"
  ReadStringVector :: "'p \<Rightarrow> string list \<times> 'p"
  ReadObject :: "('p \<Rightarrow> DataSharePredicatesObject \<times> 'p) \<Rightarrow> 'p \<Rightarrow> DataSharePredicatesObject option \<times> 'p"

definition MarshallingVector :: "'p ds_parcel \<Rightarrow> DataSharePredicatesObject \<Rightarrow> 'p \<Rightarrow> 'p option" where
  "MarshallingVector D x p =
     (case otype x of
        OT_INT_VECTOR \<Rightarrow> (case oval x of PLongs v \<Rightarrow> Some (WriteInt64Vector D v p) | _ \<Rightarrow> None)
      | OT_LONG_VECTOR \<Rightarrow> (case oval x of PLongs v \<Rightarrow> Some (WriteInt64Vector D v p) | _ \<Rightarrow> None)
      | OT_DOUBLE_VECTOR \<Rightarrow> (case oval x of PDoubles v \<Rightarrow> Some (WriteDoubleVector D v p) | _ \<Rightarrow> None)
      | OT_STRING_VECTOR \<Rightarrow> (case oval x of PStrings v \<Rightarrow> Some (WriteStringVector D v p) | _ \<Rightarrow> None)
      | _ \<Rightarrow> Some p)"

definition Obj_Marshalling :: "'p ds_parcel \<Rightarrow> DataSharePredicatesObject \<Rightarrow> 'p \<Rightarrow> 'p option" where
  "Obj_Marshalling D x parcel =
     (let p = WriteInt16 (ppc D) (object_code (otype x)) parcel in
      Option.bind
        (case otype x of
           OT_INT \<Rightarrow> (case oval x of PLong v \<Rightarrow> Some (WriteInt64 (ppc D) v p) | _ \<Rightarrow> None)
         | OT_LONG \<Rightarrow> (case oval x of PLong v \<Rightarrow> Some (WriteInt64 (ppc D) v p) | _ \<Rightarrow> None)
         | OT_DOUBLE \<Rightarrow> (case oval x of PDouble v \<Rightarrow> Some (WriteDouble (ppc D) v p) | _ \<Rightarrow> None)
         | OT_STRING \<Rightarrow> (case oval x of PString v \<Rightarrow> Some (WriteString (ppc D) v p) | _ \<Rightarrow> None)
         | OT_BOOL \<Rightarrow> (case oval x of PBool v \<Rightarrow> Some (WriteBool (ppc D) v p) | _ \<Rightarrow> None)
         | _ \<Rightarrow> Some p)
        (MarshallingVector D x))"

text \<open>The integer alternatives that are read are those of 32 bits.\<close>

definition UnmarshallingVector :: "'p ds_parcel \<Rightarrow> DataSharePredicatesObject \<times> 'p \<Rightarrow> DataSharePredicatesObject \<times> 'p" where
  "UnmarshallingVector D = (\<lambda>(x, p).
     case otype x of
       OT_INT_VECTOR \<Rightarrow> (case ReadInt64Vector D p of (v, q) \<Rightarrow> (x\<lparr>oval := PInts (map ucast v)\<rparr>, q))
     | OT_LONG_VECTOR \<Rightarrow> (case ReadInt64Vector D p of (v, q) \<Rightarrow> (x\<lparr>oval := PLongs v\<rparr>, q))
     | OT_DOUBLE_VECTOR \<Rightarrow> (case ReadDoubleVector D p of (v, q) \<Rightarrow> (x\<lparr>oval := PDoubles v\<rparr>, q))
     | OT_STRING_VECTOR \<Rightarrow> (case ReadStringVector D p of (v, q) \<Rightarrow> (x\<lparr>oval := PStrings v\<rparr>, q))
     | _ \<Rightarrow> (x, p))"

definition Obj_Unmarshalling :: "'p ds_parcel \<Rightarrow> 'p \<Rightarrow> DataSharePredicatesObject \<times> 'p" where
  "Obj_Unmarshalling D parcel =
     (case ReadInt16 (ppc D) parcel of (c, p) \<Rightarrow>
      let x = Obj_null\<lparr>otype := object_type c\<rparr> in
      UnmarshallingVector D
        (case otype x of
           OT_INT \<Rightarrow> (case ReadInt64 (ppc D) p of (v, q) \<Rightarrow> (x\<lparr>oval := PInt (ucast v)\<rparr>, q))
         | OT_LONG \<Rightarrow> (case ReadInt64 (ppc D) p of (v, q) \<Rightarrow> (x\<lparr>oval := PLong v\<rparr>, q))
         | OT_DOUBLE \<Rightarrow> (case ReadDouble (ppc D) p of (v, q) \<Rightarrow> (x\<lparr>oval := PDouble v\<rparr>, q))
         | OT_STRING \<Rightarrow> (case ReadString (ppc D) p of (v, q) \<Rightarrow> (x\<lparr>oval := PString v\<rparr>, q))
         | OT_BOOL \<Rightarrow> (case ReadBool (ppc D) p of (v, q) \<Rightarrow> (x\<lparr>oval := PBool v\<rparr>, q))
         | _ \<Rightarrow> (x, p)))"

subsection \<open>Operations\<close>

datatype ParameterCount = ZERO_COUNT | ONE_COUNT | TWO_COUNT | THREE_COUNT | INVALID_COUNT | COUNT_OTHER "64 word"

datatype OperationType = OP_INVALID_OPERATION | OP_EQUAL_TO | OP_NOT_EQUAL_TO | OP_GREATER_THAN | OP_LESS_THAN | OP_GREATER_THAN_OR_EQUAL_TO
  | OP_LESS_THAN_OR_EQUAL_TO | OP_AND | OP_OR | OP_IS_NULL | OP_IS_NOT_NULL | OP_IN
  | OP_NOT_IN | OP_LIKE | OP_UNLIKE | OP_ORDER_BY_ASC | OP_ORDER_BY_DESC | OP_LIMIT
  | OP_OFFSET | OP_BEGIN_WARP | OP_END_WARP | OP_BEGIN_WITH | OP_END_WITH | OP_IN_KEY
  | OP_DISTINCT | OP_GROUP_BY | OP_INDEXED_BY | OP_CONTAINS | OP_GLOB | OP_BETWEEN
  | OP_NOTBETWEEN | OP_KEY_PREFIX | OP_LAST_TYPE
  | OP_OTHER "64 word"

datatype SettingMode = INVALID_MODE | QUERY_LANGUAGE | PREDICATES_METHOD | MODE_OTHER "64 word"

record OperationItem =
  operation :: OperationType
  para1 :: DataSharePredicatesObject
  para2 :: DataSharePredicatesObject
  para3 :: DataSharePredicatesObject
  parameterCount :: ParameterCount

record DataSharePredicates =
  ds_tableName :: string
  operationList :: "OperationItem list"
  ds_whereClause :: string
  ds_whereArgs :: "string list"
  ds_order :: string
  settingMode :: SettingMode

text \<open>The constructors do not set \<open>settingMode_\<close>: the value it starts with is an argument.\<close>

definition DataSharePredicates_new :: "SettingMode \<Rightarrow> DataSharePredicates" where
  "DataSharePredicates_new m0 =
     \<lparr>ds_tableName = [], operationList = [], ds_whereClause = [], ds_whereArgs = [], ds_order = [], settingMode = m0\<rparr>"

definition DataSharePredicates_of :: "SettingMode \<Rightarrow> string \<Rightarrow> OperationItem list \<Rightarrow> DataSharePredicates" where
  "DataSharePredicates_of m0 table items = (DataSharePredicates_new m0)\<lparr>ds_tableName := table, operationList := items\<rparr>"

definition ClearQueryLanguage :: "DataSharePredicates \<Rightarrow> DataSharePredicates" where
  "ClearQueryLanguage p = p\<lparr>ds_whereClause := [], ds_whereArgs := [], ds_order := []\<rparr>"

definition SetOperationList :: "OperationType \<Rightarrow> DataSharePredicatesObject \<Rightarrow> DataSharePredicatesObject \<Rightarrow> DataSharePredicatesObject \<Rightarrow>
    ParameterCount \<Rightarrow> DataSharePredicates \<Rightarrow> DataSharePredicates" where
  "SetOperationList operationType x1 x2 x3 n p =
     (let item = \<lparr>operation = operationType, para1 = x1, para2 = x2, para3 = x3, parameterCount = n\<rparr>;
          p = p\<lparr>operationList := operationList p @ [item]\<rparr>
      in if settingMode p \<noteq> PREDICATES_METHOD then (ClearQueryLanguage p)\<lparr>settingMode := PREDICATES_METHOD\<rparr> else p)"

subsection \<open>The calls of a consumer\<close>

definition EqualTo_int :: "string \<Rightarrow> 32 word \<Rightarrow> DataSharePredicates \<Rightarrow> DataSharePredicates" where
  "EqualTo_int field value p = SetOperationList OP_EQUAL_TO (Obj_string field) (Obj_int value) Obj_null TWO_COUNT p"

definition EqualTo_long :: "string \<Rightarrow> int64 \<Rightarrow> DataSharePredicates \<Rightarrow> DataSharePredicates" where
  "EqualTo_long field value p = SetOperationList OP_EQUAL_TO (Obj_string field) (Obj_long value) Obj_null TWO_COUNT p"

definition EqualTo_double :: "string \<Rightarrow> 64 word \<Rightarrow> DataSharePredicates \<Rightarrow> DataSharePredicates" where
  "EqualTo_double field value p = SetOperationList OP_EQUAL_TO (Obj_string field) (Obj_double value) Obj_null TWO_COUNT p"

definition EqualTo_string :: "string \<Rightarrow> string \<Rightarrow> DataSharePredicates \<Rightarrow> DataSharePredicates" where
  "EqualTo_string field value p = SetOperationList OP_EQUAL_TO (Obj_string field) (Obj_string value) Obj_null TWO_COUNT p"

definition EqualTo_bool :: "string \<Rightarrow> bool \<Rightarrow> DataSharePredicates \<Rightarrow> DataSharePredicates" where
  "EqualTo_bool field value p = SetOperationList OP_EQUAL_TO (Obj_string field) (Obj_bool value) Obj_null TWO_COUNT p"

definition NotEqualTo_int :: "string \<Rightarrow> 32 word \<Rightarrow> DataSharePredicates \<Rightarrow> DataSharePredicates" where
  "NotEqualTo_int field value p = SetOperationList OP_NOT_EQUAL_TO (Obj_string field) (Obj_int value) Obj_null TWO_COUNT p"

definition NotEqualTo_long :: "string \<Rightarrow> int64 \<Rightarrow> DataSharePredicates \<Rightarrow> DataSharePredicates" where
  "NotEqualTo_long field value p = SetOperationList OP_NOT_EQUAL_TO (Obj_string field) (Obj_long value) Obj_null TWO_COUNT p"

definition NotEqualTo_double :: "string \<Rightarrow> 64 word \<Rightarrow> DataSharePredicates \<Rightarrow> DataSharePredicates" where
  "NotEqualTo_double field value p = SetOperationList OP_NOT_EQUAL_TO (Obj_string field) (Obj_double value) Obj_null TWO_COUNT p"

definition NotEqualTo_string :: "string \<Rightarrow> string \<Rightarrow> DataSharePredicates \<Rightarrow> DataSharePredicates" where
  "NotEqualTo_string field value p = SetOperationList OP_NOT_EQUAL_TO (Obj_string field) (Obj_string value) Obj_null TWO_COUNT p"

definition NotEqualTo_bool :: "string \<Rightarrow> bool \<Rightarrow> DataSharePredicates \<Rightarrow> DataSharePredicates" where
  "NotEqualTo_bool field value p = SetOperationList OP_NOT_EQUAL_TO (Obj_string field) (Obj_bool value) Obj_null TWO_COUNT p"

definition GreaterThan_int :: "string \<Rightarrow> 32 word \<Rightarrow> DataSharePredicates \<Rightarrow> DataSharePredicates" where
  "GreaterThan_int field value p = SetOperationList OP_GREATER_THAN (Obj_string field) (Obj_int value) Obj_null TWO_COUNT p"

definition GreaterThan_long :: "string \<Rightarrow> int64 \<Rightarrow> DataSharePredicates \<Rightarrow> DataSharePredicates" where
  "GreaterThan_long field value p = SetOperationList OP_GREATER_THAN (Obj_string field) (Obj_long value) Obj_null TWO_COUNT p"

definition GreaterThan_double :: "string \<Rightarrow> 64 word \<Rightarrow> DataSharePredicates \<Rightarrow> DataSharePredicates" where
  "GreaterThan_double field value p = SetOperationList OP_GREATER_THAN (Obj_string field) (Obj_double value) Obj_null TWO_COUNT p"

definition GreaterThan_string :: "string \<Rightarrow> string \<Rightarrow> DataSharePredicates \<Rightarrow> DataSharePredicates" where
  "GreaterThan_string field value p = SetOperationList OP_GREATER_THAN (Obj_string field) (Obj_string value) Obj_null TWO_COUNT p"

definition LessThan_int :: "string \<Rightarrow> 32 word \<Rightarrow> DataSharePredicates \<Rightarrow> DataSharePredicates" where
  "LessThan_int field value p = SetOperationList OP_LESS_THAN (Obj_string field) (Obj_int value) Obj_null TWO_COUNT p"

definition LessThan_long :: "string \<Rightarrow> int64 \<Rightarrow> DataSharePredicates \<Rightarrow> DataSharePredicates" where
  "LessThan_long field value p = SetOperationList OP_LESS_THAN (Obj_string field) (Obj_long value) Obj_null TWO_COUNT p"

definition LessThan_double :: "string \<Rightarrow> 64 word \<Rightarrow> DataSharePredicates \<Rightarrow> DataSharePredicates" where
  "LessThan_double field value p = SetOperationList OP_LESS_THAN (Obj_string field) (Obj_double value) Obj_null TWO_COUNT p"

definition LessThan_string :: "string \<Rightarrow> string \<Rightarrow> DataSharePredicates \<Rightarrow> DataSharePredicates" where
  "LessThan_string field value p = SetOperationList OP_LESS_THAN (Obj_string field) (Obj_string value) Obj_null TWO_COUNT p"

definition GreaterThanOrEqualTo_int :: "string \<Rightarrow> 32 word \<Rightarrow> DataSharePredicates \<Rightarrow> DataSharePredicates" where
  "GreaterThanOrEqualTo_int field value p = SetOperationList OP_GREATER_THAN_OR_EQUAL_TO (Obj_string field) (Obj_int value) Obj_null TWO_COUNT p"

definition GreaterThanOrEqualTo_long :: "string \<Rightarrow> int64 \<Rightarrow> DataSharePredicates \<Rightarrow> DataSharePredicates" where
  "GreaterThanOrEqualTo_long field value p = SetOperationList OP_GREATER_THAN_OR_EQUAL_TO (Obj_string field) (Obj_long value) Obj_null TWO_COUNT p"

definition GreaterThanOrEqualTo_double :: "string \<Rightarrow> 64 word \<Rightarrow> DataSharePredicates \<Rightarrow> DataSharePredicates" where
  "GreaterThanOrEqualTo_double field value p = SetOperationList OP_GREATER_THAN_OR_EQUAL_TO (Obj_string field) (Obj_double value) Obj_null TWO_COUNT p"

definition GreaterThanOrEqualTo_string :: "string \<Rightarrow> string \<Rightarrow> DataSharePredicates \<Rightarrow> DataSharePredicates" where
  "GreaterThanOrEqualTo_string field value p = SetOperationList OP_GREATER_THAN_OR_EQUAL_TO (Obj_string field) (Obj_string value) Obj_null TWO_COUNT p"

text \<open>The 32-bit overload records the operation \<open>GREATER_THAN_OR_EQUAL_TO\<close>.\<close>

definition LessThanOrEqualTo_int :: "string \<Rightarrow> 32 word \<Rightarrow> DataSharePredicates \<Rightarrow> DataSharePredicates" where
  "LessThanOrEqualTo_int field value p = SetOperationList OP_GREATER_THAN_OR_EQUAL_TO (Obj_string field) (Obj_int value) Obj_null TWO_COUNT p"

definition LessThanOrEqualTo_long :: "string \<Rightarrow> int64 \<Rightarrow> DataSharePredicates \<Rightarrow> DataSharePredicates" where
  "LessThanOrEqualTo_long field value p = SetOperationList OP_LESS_THAN_OR_EQUAL_TO (Obj_string field) (Obj_long value) Obj_null TWO_COUNT p"

definition LessThanOrEqualTo_double :: "string \<Rightarrow> 64 word \<Rightarrow> DataSharePredicates \<Rightarrow> DataSharePredicates" where
  "LessThanOrEqualTo_double field value p = SetOperationList OP_LESS_THAN_OR_EQUAL_TO (Obj_string field) (Obj_double value) Obj_null TWO_COUNT p"

definition LessThanOrEqualTo_string :: "string \<Rightarrow> string \<Rightarrow> DataSharePredicates \<Rightarrow> DataSharePredicates" where
  "LessThanOrEqualTo_string field value p = SetOperationList OP_LESS_THAN_OR_EQUAL_TO (Obj_string field) (Obj_string value) Obj_null TWO_COUNT p"

text \<open>The log line of some calls reads the first element of its vector with \<open>at\<close>.\<close>

definition In_ints :: "string \<Rightarrow> 32 word list \<Rightarrow> DataSharePredicates \<Rightarrow> DataSharePredicates option" where
  "In_ints field value p = (if value = [] then None else Some (SetOperationList OP_IN (Obj_string field) (Obj_ints value) Obj_null TWO_COUNT p))"

definition In_longs :: "string \<Rightarrow> int64 list \<Rightarrow> DataSharePredicates \<Rightarrow> DataSharePredicates" where
  "In_longs field value p = SetOperationList OP_IN (Obj_string field) (Obj_longs value) Obj_null TWO_COUNT p"

definition In_doubles :: "string \<Rightarrow> 64 word list \<Rightarrow> DataSharePredicates \<Rightarrow> DataSharePredicates" where
  "In_doubles field value p = SetOperationList OP_IN (Obj_string field) (Obj_doubles value) Obj_null TWO_COUNT p"

definition In_strings :: "string \<Rightarrow> string list \<Rightarrow> DataSharePredicates \<Rightarrow> DataSharePredicates" where
  "In_strings field value p = SetOperationList OP_IN (Obj_string field) (Obj_strings value) Obj_null TWO_COUNT p"

definition NotIn_ints :: "string \<Rightarrow> 32 word list \<Rightarrow> DataSharePredicates \<Rightarrow> DataSharePredicates option" where
  "NotIn_ints field value p = (if value = [] then None else Some (SetOperationList OP_NOT_IN (Obj_string field) (Obj_ints value) Obj_null TWO_COUNT p))"

definition NotIn_longs :: "string \<Rightarrow> int64 list \<Rightarrow> DataSharePredicates \<Rightarrow> DataSharePredicates" where
  "NotIn_longs field value p = SetOperationList OP_NOT_IN (Obj_string field) (Obj_longs value) Obj_null TWO_COUNT p"

definition NotIn_doubles :: "string \<Rightarrow> 64 word list \<Rightarrow> DataSharePredicates \<Rightarrow> DataSharePredicates" where
  "NotIn_doubles field value p = SetOperationList OP_NOT_IN (Obj_string field) (Obj_doubles value) Obj_null TWO_COUNT p"

definition NotIn_strings :: "string \<Rightarrow> string list \<Rightarrow> DataSharePredicates \<Rightarrow> DataSharePredicates" where
  "NotIn_strings field value p = SetOperationList OP_NOT_IN (Obj_string field) (Obj_strings value) Obj_null TWO_COUNT p"

definition DsBeginWrap :: "DataSharePredicates \<Rightarrow> DataSharePredicates" where
  "DsBeginWrap p = SetOperationList OP_BEGIN_WARP Obj_null Obj_null Obj_null ZERO_COUNT p"

definition DsEndWrap :: "DataSharePredicates \<Rightarrow> DataSharePredicates" where
  "DsEndWrap p = SetOperationList OP_END_WARP Obj_null Obj_null Obj_null ZERO_COUNT p"

definition DsOr :: "DataSharePredicates \<Rightarrow> DataSharePredicates" where
  "DsOr p = SetOperationList OP_OR Obj_null Obj_null Obj_null ZERO_COUNT p"

definition DsAnd :: "DataSharePredicates \<Rightarrow> DataSharePredicates" where
  "DsAnd p = SetOperationList OP_AND Obj_null Obj_null Obj_null ZERO_COUNT p"

definition DsContains :: "string \<Rightarrow> string \<Rightarrow> DataSharePredicates \<Rightarrow> DataSharePredicates" where
  "DsContains field value p = SetOperationList OP_CONTAINS (Obj_string field) (Obj_string value) Obj_null TWO_COUNT p"

definition DsBeginsWith :: "string \<Rightarrow> string \<Rightarrow> DataSharePredicates \<Rightarrow> DataSharePredicates" where
  "DsBeginsWith field value p = SetOperationList OP_BEGIN_WITH (Obj_string field) (Obj_string value) Obj_null TWO_COUNT p"

definition DsEndsWith :: "string \<Rightarrow> string \<Rightarrow> DataSharePredicates \<Rightarrow> DataSharePredicates" where
  "DsEndsWith field value p = SetOperationList OP_END_WITH (Obj_string field) (Obj_string value) Obj_null TWO_COUNT p"

definition DsIsNull :: "string \<Rightarrow> DataSharePredicates \<Rightarrow> DataSharePredicates" where
  "DsIsNull field p = SetOperationList OP_IS_NULL (Obj_string field) Obj_null Obj_null ONE_COUNT p"

definition DsIsNotNull :: "string \<Rightarrow> DataSharePredicates \<Rightarrow> DataSharePredicates" where
  "DsIsNotNull field p = SetOperationList OP_IS_NOT_NULL (Obj_string field) Obj_null Obj_null ONE_COUNT p"

definition DsLike :: "string \<Rightarrow> string \<Rightarrow> DataSharePredicates \<Rightarrow> DataSharePredicates" where
  "DsLike field value p = SetOperationList OP_LIKE (Obj_string field) (Obj_string value) Obj_null TWO_COUNT p"

definition DsUnlike :: "string \<Rightarrow> string \<Rightarrow> DataSharePredicates \<Rightarrow> DataSharePredicates" where
  "DsUnlike field value p = SetOperationList OP_UNLIKE (Obj_string field) (Obj_string value) Obj_null TWO_COUNT p"

definition DsGlob :: "string \<Rightarrow> string \<Rightarrow> DataSharePredicates \<Rightarrow> DataSharePredicates" where
  "DsGlob field value p = SetOperationList OP_GLOB (Obj_string field) (Obj_string value) Obj_null TWO_COUNT p"

definition DsBetween :: "string \<Rightarrow> string \<Rightarrow> string \<Rightarrow> DataSharePredicates \<Rightarrow> DataSharePredicates" where
  "DsBetween field low high p = SetOperationList OP_BETWEEN (Obj_string field) (Obj_string low) (Obj_string high) THREE_COUNT p"

definition DsNotBetween :: "string \<Rightarrow> string \<Rightarrow> string \<Rightarrow> DataSharePredicates \<Rightarrow> DataSharePredicates" where
  "DsNotBetween field low high p = SetOperationList OP_NOTBETWEEN (Obj_string field) (Obj_string low) (Obj_string high) THREE_COUNT p"

definition DsOrderByAsc :: "string \<Rightarrow> DataSharePredicates \<Rightarrow> DataSharePredicates" where
  "DsOrderByAsc field p = SetOperationList OP_ORDER_BY_ASC (Obj_string field) Obj_null Obj_null ONE_COUNT p"

definition DsOrderByDesc :: "string \<Rightarrow> DataSharePredicates \<Rightarrow> DataSharePredicates" where
  "DsOrderByDesc field p = SetOperationList OP_ORDER_BY_DESC (Obj_string field) Obj_null Obj_null ONE_COUNT p"

definition DsDistinct :: "DataSharePredicates \<Rightarrow> DataSharePredicates" where
  "DsDistinct p = SetOperationList OP_DISTINCT Obj_null Obj_null Obj_null ZERO_COUNT p"

definition DsLimit :: "32 word \<Rightarrow> 32 word \<Rightarrow> DataSharePredicates \<Rightarrow> DataSharePredicates" where
  "DsLimit number off p = SetOperationList OP_LIMIT (Obj_int number) (Obj_int off) Obj_null TWO_COUNT p"

definition DsGroupBy :: "string list \<Rightarrow> DataSharePredicates \<Rightarrow> DataSharePredicates option" where
  "DsGroupBy strs p =
     (if strs = [] then None else Some (SetOperationList OP_GROUP_BY (Obj_strings strs) Obj_null Obj_null ONE_COUNT p))"

definition DsIndexedBy :: "string \<Rightarrow> DataSharePredicates \<Rightarrow> DataSharePredicates" where
  "DsIndexedBy field p = SetOperationList OP_INDEXED_BY (Obj_string field) Obj_null Obj_null ONE_COUNT p"

definition DsKeyPrefix :: "string \<Rightarrow> DataSharePredicates \<Rightarrow> DataSharePredicates" where
  "DsKeyPrefix field p = SetOperationList OP_KEY_PREFIX (Obj_string field) Obj_null Obj_null ONE_COUNT p"

definition DsInKeys :: "string list \<Rightarrow> DataSharePredicates \<Rightarrow> DataSharePredicates option" where
  "DsInKeys strs p =
     (if strs = [] then None else Some (SetOperationList OP_IN_KEY (Obj_strings strs) Obj_null Obj_null ONE_COUNT p))"

lemmas consumer_calls = EqualTo_int_def EqualTo_long_def EqualTo_double_def EqualTo_string_def EqualTo_bool_def NotEqualTo_int_def
  NotEqualTo_long_def NotEqualTo_double_def NotEqualTo_string_def NotEqualTo_bool_def GreaterThan_int_def GreaterThan_long_def
  GreaterThan_double_def GreaterThan_string_def LessThan_int_def LessThan_long_def LessThan_double_def LessThan_string_def
  GreaterThanOrEqualTo_int_def GreaterThanOrEqualTo_long_def GreaterThanOrEqualTo_double_def GreaterThanOrEqualTo_string_def LessThanOrEqualTo_int_def LessThanOrEqualTo_long_def
  LessThanOrEqualTo_double_def LessThanOrEqualTo_string_def In_ints_def In_longs_def In_doubles_def In_strings_def
  NotIn_ints_def NotIn_longs_def NotIn_doubles_def NotIn_strings_def DsBeginWrap_def DsEndWrap_def
  DsOr_def DsAnd_def DsContains_def DsBeginsWith_def DsEndsWith_def DsIsNull_def
  DsIsNotNull_def DsLike_def DsUnlike_def DsGlob_def DsBetween_def DsNotBetween_def
  DsOrderByAsc_def DsOrderByDesc_def DsDistinct_def DsLimit_def DsGroupBy_def DsIndexedBy_def
  DsKeyPrefix_def DsInKeys_def

definition DsSetWhereClause :: "string \<Rightarrow> DataSharePredicates \<Rightarrow> rdb_errno \<times> DataSharePredicates" where
  "DsSetWhereClause clause p =
     (if settingMode p \<noteq> PREDICATES_METHOD \<and> clause \<noteq> []
      then (E_OK, p\<lparr>ds_whereClause := clause, settingMode := QUERY_LANGUAGE\<rparr>) else (E_ERROR, p))"

definition DsSetWhereArgs :: "string list \<Rightarrow> DataSharePredicates \<Rightarrow> rdb_errno \<times> DataSharePredicates" where
  "DsSetWhereArgs args p =
     (if settingMode p \<noteq> PREDICATES_METHOD \<and> args \<noteq> []
      then (E_OK, p\<lparr>ds_whereArgs := args, settingMode := QUERY_LANGUAGE\<rparr>) else (E_ERROR, p))"

definition DsSetOrder :: "string \<Rightarrow> DataSharePredicates \<Rightarrow> rdb_errno \<times> DataSharePredicates" where
  "DsSetOrder ord p =
     (if settingMode p \<noteq> PREDICATES_METHOD \<and> ord \<noteq> []
      then (E_OK, p\<lparr>ds_order := ord, settingMode := QUERY_LANGUAGE\<rparr>) else (E_ERROR, p))"

definition SetSettingMode :: "SettingMode \<Rightarrow> DataSharePredicates \<Rightarrow> DataSharePredicates" where
  "SetSettingMode mode p = p\<lparr>settingMode := mode\<rparr>"

subsection \<open>Through a parcel\<close>

fun op_code :: "OperationType \<Rightarrow> 64 word" where
  "op_code OP_INVALID_OPERATION = 0"
| "op_code OP_EQUAL_TO = 1"
| "op_code OP_NOT_EQUAL_TO = 2"
| "op_code OP_GREATER_THAN = 3"
| "op_code OP_LESS_THAN = 4"
| "op_code OP_GREATER_THAN_OR_EQUAL_TO = 5"
| "op_code OP_LESS_THAN_OR_EQUAL_TO = 6"
| "op_code OP_AND = 7"
| "op_code OP_OR = 8"
| "op_code OP_IS_NULL = 9"
| "op_code OP_IS_NOT_NULL = 10"
| "op_code OP_IN = 11"
| "op_code OP_NOT_IN = 12"
| "op_code OP_LIKE = 13"
| "op_code OP_UNLIKE = 14"
| "op_code OP_ORDER_BY_ASC = 15"
| "op_code OP_ORDER_BY_DESC = 16"
| "op_code OP_LIMIT = 17"
| "op_code OP_OFFSET = 18"
| "op_code OP_BEGIN_WARP = 19"
| "op_code OP_END_WARP = 20"
| "op_code OP_BEGIN_WITH = 21"
| "op_code OP_END_WITH = 22"
| "op_code OP_IN_KEY = 23"
| "op_code OP_DISTINCT = 24"
| "op_code OP_GROUP_BY = 25"
| "op_code OP_INDEXED_BY = 26"
| "op_code OP_CONTAINS = 27"
| "op_code OP_GLOB = 28"
| "op_code OP_BETWEEN = 29"
| "op_code OP_NOTBETWEEN = 30"
| "op_code OP_KEY_PREFIX = 31"
| "op_code OP_LAST_TYPE = 32"
| "op_code (OP_OTHER c) = c"

definition op_type :: "64 word \<Rightarrow> OperationType" where
  "op_type c =
     (let types = [OP_INVALID_OPERATION, OP_EQUAL_TO, OP_NOT_EQUAL_TO, OP_GREATER_THAN, OP_LESS_THAN, OP_GREATER_THAN_OR_EQUAL_TO,
        OP_LESS_THAN_OR_EQUAL_TO, OP_AND, OP_OR, OP_IS_NULL, OP_IS_NOT_NULL, OP_IN,
        OP_NOT_IN, OP_LIKE, OP_UNLIKE, OP_ORDER_BY_ASC, OP_ORDER_BY_DESC, OP_LIMIT,
        OP_OFFSET, OP_BEGIN_WARP, OP_END_WARP, OP_BEGIN_WITH, OP_END_WITH, OP_IN_KEY,
        OP_DISTINCT, OP_GROUP_BY, OP_INDEXED_BY, OP_CONTAINS, OP_GLOB, OP_BETWEEN,
        OP_NOTBETWEEN, OP_KEY_PREFIX, OP_LAST_TYPE]
      in if unat c < length types then types ! unat c else OP_OTHER c)"

fun count_code :: "ParameterCount \<Rightarrow> 64 word" where
  "count_code ZERO_COUNT = 0"
| "count_code ONE_COUNT = 1"
| "count_code TWO_COUNT = 2"
| "count_code THREE_COUNT = 3"
| "count_code INVALID_COUNT = 4"
| "count_code (COUNT_OTHER c) = c"

definition count_type :: "64 word \<Rightarrow> ParameterCount" where
  "count_type c =
     (let types = [ZERO_COUNT, ONE_COUNT, TWO_COUNT, THREE_COUNT, INVALID_COUNT]
      in if unat c < length types then types ! unat c else COUNT_OTHER c)"

fun mode_code :: "SettingMode \<Rightarrow> 64 word" where
  "mode_code INVALID_MODE = 0"
| "mode_code QUERY_LANGUAGE = 1"
| "mode_code PREDICATES_METHOD = 2"
| "mode_code (MODE_OTHER c) = c"

definition mode_type :: "64 word \<Rightarrow> SettingMode" where
  "mode_type c =
     (let types = [INVALID_MODE, QUERY_LANGUAGE, PREDICATES_METHOD]
      in if unat c < length types then types ! unat c else MODE_OTHER c)"

definition write_item :: "'p ds_parcel \<Rightarrow> OperationItem \<Rightarrow> 'p \<Rightarrow> 'p option" where
  "write_item D it p = do {
     let p = WriteInt64 (ppc D) (op_code (operation it)) p;
     p \<leftarrow> WriteParcelable (ppc D) (Obj_Marshalling D (para1 it)) p;
     p \<leftarrow> WriteParcelable (ppc D) (Obj_Marshalling D (para2 it)) p;
     p \<leftarrow> WriteParcelable (ppc D) (Obj_Marshalling D (para3 it)) p;
     Some (WriteInt64 (ppc D) (count_code (parameterCount it)) p)
   }"

fun write_items :: "'p ds_parcel \<Rightarrow> OperationItem list \<Rightarrow> 'p \<Rightarrow> 'p option" where
  "write_items D [] p = Some p"
| "write_items D (it # its) p = Option.bind (write_item D it p) (write_items D its)"

definition Pred_Marshalling :: "'p ds_parcel \<Rightarrow> DataSharePredicates \<Rightarrow> 'p \<Rightarrow> 'p option" where
  "Pred_Marshalling D d parcel = do {
     p \<leftarrow> write_items D (operationList d) (WriteInt32 (ppc D) (of_nat (length (operationList d))) parcel);
     let p = WriteString (ppc D) (ds_whereClause d) p;
     let p = WriteStringVector D (ds_whereArgs d) p;
     let p = WriteString (ppc D) (ds_order d) p;
     Some (WriteInt64 (ppc D) (mode_code (settingMode d)) p)
   }"

text \<open>A parcelable that is absent is a null pointer, which is dereferenced.\<close>

definition read_object :: "'p ds_parcel \<Rightarrow> 'p \<Rightarrow> (DataSharePredicatesObject \<times> 'p) option" where
  "read_object D p = (case ReadObject D (Obj_Unmarshalling D) p of (None, q) \<Rightarrow> None | (Some x, q) \<Rightarrow> Some (x, q))"

definition read_item :: "'p ds_parcel \<Rightarrow> 'p \<Rightarrow> (OperationItem \<times> 'p) option" where
  "read_item D p = do {
     let (oper, p) = ReadInt64 (ppc D) p;
     (x1, p) \<leftarrow> read_object D p;
     (x2, p) \<leftarrow> read_object D p;
     (x3, p) \<leftarrow> read_object D p;
     let (n, p) = ReadInt64 (ppc D) p;
     Some (\<lparr>operation = op_type oper, para1 = x1, para2 = x2, para3 = x3, parameterCount = count_type n\<rparr>, p)
   }"

fun read_items :: "'p ds_parcel \<Rightarrow> nat \<Rightarrow> OperationItem list \<Rightarrow> 'p \<Rightarrow> (OperationItem list \<times> 'p) option" where
  "read_items D 0 acc p = Some (acc, p)"
| "read_items D (Suc n) acc p = do {
     (it, p) \<leftarrow> read_item D p;
     read_items D n (acc @ [it]) p
   }"

definition Pred_Unmarshalling :: "'p ds_parcel \<Rightarrow> SettingMode \<Rightarrow> 'p \<Rightarrow> (DataSharePredicates \<times> 'p) option" where
  "Pred_Unmarshalling D m0 parcel = do {
     let (listSize, p) = ReadInt32 (ppc D) parcel;
     (items, p) \<leftarrow> read_items D (nat (sint listSize)) [] p;
     let (clause, p) = ReadString (ppc D) p;
     let (args, p) = ReadStringVector D p;
     let (ord, p) = ReadString (ppc D) p;
     let (mode, p) = ReadInt64 (ppc D) p;
     let d = DataSharePredicates_of m0 [] items;
     let d = snd (DsSetWhereClause clause d);
     let d = snd (DsSetWhereArgs args d);
     let d = snd (DsSetOrder ord d);
     Some (SetSettingMode (mode_type mode) d, p)
   }"

subsection \<open>What a parcel promises\<close>

datatype ds_item = DI item | DLongs "int64 list" | DDoubles "64 word list" | DStrings "string list"

definition ds_fifo :: "'p ds_parcel \<Rightarrow> ('p \<Rightarrow> ds_item list) \<Rightarrow> bool" where
  "ds_fifo D items \<longleftrightarrow>
     (\<forall>x p. items (WriteInt16 (ppc D) x p) = items p @ [DI (I16 x)]) \<and>
     (\<forall>x p. items (WriteInt32 (ppc D) x p) = items p @ [DI (I32 x)]) \<and>
     (\<forall>x p. items (WriteInt64 (ppc D) x p) = items p @ [DI (I64 x)]) \<and>
     (\<forall>x p. items (WriteDouble (ppc D) x p) = items p @ [DI (IDouble x)]) \<and>
     (\<forall>x p. items (WriteString (ppc D) x p) = items p @ [DI (IString x)]) \<and>
     (\<forall>x p. items (WriteBool (ppc D) x p) = items p @ [DI (IBool x)]) \<and>
     (\<forall>x p. items (WriteInt64Vector D x p) = items p @ [DLongs x]) \<and>
     (\<forall>x p. items (WriteDoubleVector D x p) = items p @ [DDoubles x]) \<and>
     (\<forall>x p. items (WriteStringVector D x p) = items p @ [DStrings x]) \<and>
     (\<forall>x xs p. items p = DI (I16 x) # xs \<longrightarrow> (\<exists>q. ReadInt16 (ppc D) p = (x, q) \<and> items q = xs)) \<and>
     (\<forall>x xs p. items p = DI (I32 x) # xs \<longrightarrow> (\<exists>q. ReadInt32 (ppc D) p = (x, q) \<and> items q = xs)) \<and>
     (\<forall>x xs p. items p = DI (I64 x) # xs \<longrightarrow> (\<exists>q. ReadInt64 (ppc D) p = (x, q) \<and> items q = xs)) \<and>
     (\<forall>x xs p. items p = DI (IDouble x) # xs \<longrightarrow> (\<exists>q. ReadDouble (ppc D) p = (x, q) \<and> items q = xs)) \<and>
     (\<forall>x xs p. items p = DI (IString x) # xs \<longrightarrow> (\<exists>q. ReadString (ppc D) p = (x, q) \<and> items q = xs)) \<and>
     (\<forall>x xs p. items p = DI (IBool x) # xs \<longrightarrow> (\<exists>q. ReadBool (ppc D) p = (x, q) \<and> items q = xs)) \<and>
     (\<forall>x xs p. items p = DLongs x # xs \<longrightarrow> (\<exists>q. ReadInt64Vector D p = (x, q) \<and> items q = xs)) \<and>
     (\<forall>x xs p. items p = DDoubles x # xs \<longrightarrow> (\<exists>q. ReadDoubleVector D p = (x, q) \<and> items q = xs)) \<and>
     (\<forall>x xs p. items p = DStrings x # xs \<longrightarrow> (\<exists>q. ReadStringVector D p = (x, q) \<and> items q = xs)) \<and>
     (\<forall>m p. WriteParcelable (ppc D) m p = m (WriteInt32 (ppc D) 1 p)) \<and>
     (\<forall>u p. ReadObject D u p =
        (case ReadInt32 (ppc D) p of (n, q) \<Rightarrow>
           if n = 0 then (None, q) else (case u q of (v, r) \<Rightarrow> (Some v, r))))"

lemma parcel_ds_writes:
  assumes "ds_fifo D items"
  shows "items (WriteInt16 (ppc D) a p) = items p @ [DI (I16 a)]" "items (WriteInt32 (ppc D) b p) = items p @ [DI (I32 b)]"
    "items (WriteInt64 (ppc D) c p) = items p @ [DI (I64 c)]" "items (WriteDouble (ppc D) d p) = items p @ [DI (IDouble d)]"
    "items (WriteString (ppc D) e p) = items p @ [DI (IString e)]" "items (WriteBool (ppc D) g p) = items p @ [DI (IBool g)]"
    "items (WriteInt64Vector D h p) = items p @ [DLongs h]" "items (WriteDoubleVector D i p) = items p @ [DDoubles i]"
    "items (WriteStringVector D j p) = items p @ [DStrings j]" "WriteParcelable (ppc D) m p = m (WriteInt32 (ppc D) 1 p)"
  using assms by (simp_all add: ds_fifo_def)

lemma parcel_ds_reads:
  assumes "ds_fifo D items"
  shows "items p = DI (I16 a) # xs \<Longrightarrow> \<exists>q. ReadInt16 (ppc D) p = (a, q) \<and> items q = xs"
    "items p = DI (I32 b) # xs \<Longrightarrow> \<exists>q. ReadInt32 (ppc D) p = (b, q) \<and> items q = xs"
    "items p = DI (I64 c) # xs \<Longrightarrow> \<exists>q. ReadInt64 (ppc D) p = (c, q) \<and> items q = xs"
    "items p = DI (IDouble d) # xs \<Longrightarrow> \<exists>q. ReadDouble (ppc D) p = (d, q) \<and> items q = xs"
    "items p = DI (IString e) # xs \<Longrightarrow> \<exists>q. ReadString (ppc D) p = (e, q) \<and> items q = xs"
    "items p = DI (IBool g) # xs \<Longrightarrow> \<exists>q. ReadBool (ppc D) p = (g, q) \<and> items q = xs"
    "items p = DLongs h # xs \<Longrightarrow> \<exists>q. ReadInt64Vector D p = (h, q) \<and> items q = xs"
    "items p = DDoubles i # xs \<Longrightarrow> \<exists>q. ReadDoubleVector D p = (i, q) \<and> items q = xs"
    "items p = DStrings j # xs \<Longrightarrow> \<exists>q. ReadStringVector D p = (j, q) \<and> items q = xs"
    "ReadObject D u p = (case ReadInt32 (ppc D) p of (n, q) \<Rightarrow> if n = 0 then (None, q) else (case u q of (v, r) \<Rightarrow> (Some v, r)))"
  using assms by (simp_all add: ds_fifo_def)

text \<open>The alternative a type needs when it is written, and what arrives: integers come back as the
  alternative of 32 bits.\<close>

definition obj_wf :: "DataSharePredicatesObject \<Rightarrow> bool" where
  "obj_wf x =
     (case otype x of
        OT_NULL \<Rightarrow> True
      | OT_INT \<Rightarrow> (case oval x of PLong _ \<Rightarrow> True | _ \<Rightarrow> False)
      | OT_LONG \<Rightarrow> (case oval x of PLong _ \<Rightarrow> True | _ \<Rightarrow> False)
      | OT_DOUBLE \<Rightarrow> (case oval x of PDouble _ \<Rightarrow> True | _ \<Rightarrow> False)
      | OT_STRING \<Rightarrow> (case oval x of PString _ \<Rightarrow> True | _ \<Rightarrow> False)
      | OT_BOOL \<Rightarrow> (case oval x of PBool _ \<Rightarrow> True | _ \<Rightarrow> False)
      | OT_INT_VECTOR \<Rightarrow> (case oval x of PLongs _ \<Rightarrow> True | _ \<Rightarrow> False)
      | OT_LONG_VECTOR \<Rightarrow> (case oval x of PLongs _ \<Rightarrow> True | _ \<Rightarrow> False)
      | OT_DOUBLE_VECTOR \<Rightarrow> (case oval x of PDoubles _ \<Rightarrow> True | _ \<Rightarrow> False)
      | OT_STRING_VECTOR \<Rightarrow> (case oval x of PStrings _ \<Rightarrow> True | _ \<Rightarrow> False)
      | OT_OTHER _ \<Rightarrow> False)"

definition arrived :: "DataSharePredicatesObject \<Rightarrow> DataSharePredicatesObject" where
  "arrived x =
     (case otype x of
        OT_NULL \<Rightarrow> Obj_null
      | OT_INT \<Rightarrow> (case oval x of PLong v \<Rightarrow> x\<lparr>oval := PInt (ucast v)\<rparr> | _ \<Rightarrow> x)
      | OT_INT_VECTOR \<Rightarrow> (case oval x of PLongs v \<Rightarrow> x\<lparr>oval := PInts (map ucast v)\<rparr> | _ \<Rightarrow> x)
      | _ \<Rightarrow> x)"

definition object_items :: "DataSharePredicatesObject \<Rightarrow> ds_item list" where
  "object_items x = DI (I16 (object_code (otype x))) #
     (if otype x = OT_NULL then []
      else case oval x of PLong v \<Rightarrow> [DI (I64 v)] | PDouble v \<Rightarrow> [DI (IDouble v)] | PString v \<Rightarrow> [DI (IString v)] | PBool v \<Rightarrow> [DI (IBool v)]
        | PLongs v \<Rightarrow> [DLongs v] | PDoubles v \<Rightarrow> [DDoubles v] | PStrings v \<Rightarrow> [DStrings v] | _ \<Rightarrow> [])"

lemma object_type_code: "(\<And>c. t \<noteq> OT_OTHER c) \<Longrightarrow> object_type (object_code t) = t"
  by (cases t) (auto simp: object_type_def Let_def)

lemma op_type_code: "(\<And>c. t \<noteq> OP_OTHER c) \<Longrightarrow> op_type (op_code t) = t"
  by (cases t) (auto simp: op_type_def Let_def)

lemma count_type_code: "(\<And>c. t \<noteq> COUNT_OTHER c) \<Longrightarrow> count_type (count_code t) = t"
  by (cases t) (auto simp: count_type_def Let_def)

lemma mode_type_code: "(\<And>c. t \<noteq> MODE_OTHER c) \<Longrightarrow> mode_type (mode_code t) = t"
  by (cases t) (auto simp: mode_type_def Let_def)

lemma object_write:
  assumes "ds_fifo D items" "obj_wf x"
  shows "\<exists>q. Obj_Marshalling D x p = Some q \<and> items q = items p @ object_items x"
  using assms(2) parcel_ds_writes [OF assms(1)]
  by (cases x; cases "otype x"; cases "oval x")
    (auto simp: Obj_Marshalling_def MarshallingVector_def object_items_def obj_wf_def Let_def)

lemma obj_wf_cases:
  assumes "obj_wf x"
  obtains v where "x = \<lparr>otype = OT_NULL, oval = v\<rparr>" | v where "x = \<lparr>otype = OT_INT, oval = PLong v\<rparr>"
  | v where "x = \<lparr>otype = OT_LONG, oval = PLong v\<rparr>" | v where "x = \<lparr>otype = OT_DOUBLE, oval = PDouble v\<rparr>"
  | v where "x = \<lparr>otype = OT_STRING, oval = PString v\<rparr>" | v where "x = \<lparr>otype = OT_BOOL, oval = PBool v\<rparr>"
  | v where "x = \<lparr>otype = OT_INT_VECTOR, oval = PLongs v\<rparr>" | v where "x = \<lparr>otype = OT_LONG_VECTOR, oval = PLongs v\<rparr>"
  | v where "x = \<lparr>otype = OT_DOUBLE_VECTOR, oval = PDoubles v\<rparr>" | v where "x = \<lparr>otype = OT_STRING_VECTOR, oval = PStrings v\<rparr>"
  using assms by (cases x) (auto simp: obj_wf_def split: ObjectType.splits pvariant.splits)

lemma object_read:
  assumes F: "ds_fifo D items" and x: "obj_wf x" and i: "items p = object_items x @ rest"
  shows "\<exists>q. Obj_Unmarshalling D p = (arrived x, q) \<and> items q = rest"
proof -
  obtain q where q: "ReadInt16 (ppc D) p = (object_code (otype x), q)" "items q = tl (object_items x) @ rest"
    using parcel_ds_reads(1) [OF F, of p] i by (auto simp: object_items_def)
  have t: "object_type (object_code (otype x)) = otype x" using x by (intro object_type_code) (auto simp: obj_wf_def)
  note defs = Obj_Unmarshalling_def q(1) UnmarshallingVector_def arrived_def Obj_null_def Let_def
  from x show ?thesis
  proof (cases rule: obj_wf_cases)
    case (1 v) with t q show ?thesis by (auto simp: defs object_items_def)
  next
    case (2 v) with t q parcel_ds_reads(3) [OF F, of q v rest] show ?thesis by (auto simp: defs object_items_def)
  next
    case (3 v) with t q parcel_ds_reads(3) [OF F, of q v rest] show ?thesis by (auto simp: defs object_items_def)
  next
    case (4 v) with t q parcel_ds_reads(4) [OF F, of q v rest] show ?thesis by (auto simp: defs object_items_def)
  next
    case (5 v) with t q parcel_ds_reads(5) [OF F, of q v rest] show ?thesis by (auto simp: defs object_items_def)
  next
    case (6 v) with t q parcel_ds_reads(6) [OF F, of q v rest] show ?thesis by (auto simp: defs object_items_def)
  next
    case (7 v) with t q parcel_ds_reads(7) [OF F, of q v rest] show ?thesis by (auto simp: defs object_items_def)
  next
    case (8 v) with t q parcel_ds_reads(7) [OF F, of q v rest] show ?thesis by (auto simp: defs object_items_def)
  next
    case (9 v) with t q parcel_ds_reads(8) [OF F, of q v rest] show ?thesis by (auto simp: defs object_items_def)
  next
    case (10 v) with t q parcel_ds_reads(9) [OF F, of q v rest] show ?thesis by (auto simp: defs object_items_def)
  qed
qed

text \<open>A list of operations.\<close>

definition item_wf :: "OperationItem \<Rightarrow> bool" where
  "item_wf it \<longleftrightarrow> obj_wf (para1 it) \<and> obj_wf (para2 it) \<and> obj_wf (para3 it)
     \<and> (\<forall>c. operation it \<noteq> OP_OTHER c) \<and> (\<forall>c. parameterCount it \<noteq> COUNT_OTHER c)"

definition item_arrived :: "OperationItem \<Rightarrow> OperationItem" where
  "item_arrived it = it\<lparr>para1 := arrived (para1 it), para2 := arrived (para2 it), para3 := arrived (para3 it)\<rparr>"

definition item_items :: "OperationItem \<Rightarrow> ds_item list" where
  "item_items it = DI (I64 (op_code (operation it))) # DI (I32 1) # object_items (para1 it) @ DI (I32 1) # object_items (para2 it)
     @ DI (I32 1) # object_items (para3 it) @ [DI (I64 (count_code (parameterCount it)))]"

lemma parcelable_write:
  assumes "ds_fifo D items" "obj_wf x"
  shows "\<exists>q. WriteParcelable (ppc D) (Obj_Marshalling D x) p = Some q \<and> items q = items p @ DI (I32 1) # object_items x"
  using object_write [OF assms, of "WriteInt32 (ppc D) 1 p"] by (simp add: parcel_ds_writes [OF assms(1)])

lemma item_write:
  assumes F: "ds_fifo D items" and w: "item_wf it"
  shows "\<exists>q. write_item D it p = Some q \<and> items q = items p @ item_items it"
proof -
  note w' = w [unfolded item_wf_def]
  obtain p1 where 1: "WriteParcelable (ppc D) (Obj_Marshalling D (para1 it)) (WriteInt64 (ppc D) (op_code (operation it)) p) = Some p1"
    "items p1 = items p @ DI (I64 (op_code (operation it))) # DI (I32 1) # object_items (para1 it)"
    using parcelable_write [OF F, of "para1 it" "WriteInt64 (ppc D) (op_code (operation it)) p"] w' by (auto simp: parcel_ds_writes [OF F])
  obtain p2 where 2: "WriteParcelable (ppc D) (Obj_Marshalling D (para2 it)) p1 = Some p2" "items p2 = items p1 @ DI (I32 1) # object_items (para2 it)"
    using parcelable_write [OF F, of "para2 it" p1] w' by blast
  obtain p3 where 3: "WriteParcelable (ppc D) (Obj_Marshalling D (para3 it)) p2 = Some p3" "items p3 = items p2 @ DI (I32 1) # object_items (para3 it)"
    using parcelable_write [OF F, of "para3 it" p2] w' by blast
  from 1 2 3 show ?thesis by (simp add: write_item_def item_items_def parcel_ds_writes [OF F])
qed

lemma parcelable_read:
  assumes F: "ds_fifo D items" and "obj_wf x" and "items p = DI (I32 1) # object_items x @ rest"
  shows "\<exists>q. read_object D p = Some (arrived x, q) \<and> items q = rest"
proof -
  obtain q where q: "ReadInt32 (ppc D) p = (1, q)" "items q = object_items x @ rest" using parcel_ds_reads(2) [OF F assms(3)] by blast
  from object_read [OF F assms(2) q(2)] q(1) show ?thesis by (auto simp: read_object_def parcel_ds_reads(10) [OF F])
qed

lemma item_read:
  assumes F: "ds_fifo D items" and w: "item_wf it" and i: "items p = item_items it @ rest"
  shows "\<exists>q. read_item D p = Some (item_arrived it, q) \<and> items q = rest"
proof -
  note w' = w [unfolded item_wf_def]
  obtain p0 where 0: "ReadInt64 (ppc D) p = (op_code (operation it), p0)" "items p0 = tl (item_items it) @ rest"
    using parcel_ds_reads(3) [OF F, of p] i by (auto simp: item_items_def)
  obtain p1 where 1: "read_object D p0 = Some (arrived (para1 it), p1)"
    "items p1 = DI (I32 1) # object_items (para2 it) @ DI (I32 1) # object_items (para3 it) @ DI (I64 (count_code (parameterCount it))) # rest"
    using parcelable_read [OF F, of "para1 it" p0] 0(2) w' by (auto simp: item_items_def)
  obtain p2 where 2: "read_object D p1 = Some (arrived (para2 it), p2)"
    "items p2 = DI (I32 1) # object_items (para3 it) @ DI (I64 (count_code (parameterCount it))) # rest"
    using parcelable_read [OF F, of "para2 it" p1] 1(2) w' by auto
  obtain p3 where 3: "read_object D p2 = Some (arrived (para3 it), p3)" "items p3 = DI (I64 (count_code (parameterCount it))) # rest"
    using parcelable_read [OF F, of "para3 it" p2] 2(2) w' by auto
  obtain p4 where 4: "ReadInt64 (ppc D) p3 = (count_code (parameterCount it), p4)" "items p4 = rest" using parcel_ds_reads(3) [OF F 3(2)] by blast
  have "op_type (op_code (operation it)) = operation it" "count_type (count_code (parameterCount it)) = parameterCount it"
    using w' by (auto intro: op_type_code count_type_code)
  with 0 1 2 3 4 show ?thesis by (simp add: read_item_def item_arrived_def)
qed

lemma items_write:
  assumes F: "ds_fifo D items"
  shows "\<forall>it \<in> set its. item_wf it \<Longrightarrow> \<exists>q. write_items D its p = Some q \<and> items q = items p @ concat (map item_items its)"
proof (induction its arbitrary: p)
  case (Cons it its)
  then obtain q where "write_item D it p = Some q" "items q = items p @ item_items it" using item_write [OF F, of it p] by auto
  with Cons.IH [of q] Cons.prems show ?case by auto
qed simp

lemma items_read:
  assumes F: "ds_fifo D items"
  shows "\<forall>it \<in> set its. item_wf it \<Longrightarrow> items p = concat (map item_items its) @ rest \<Longrightarrow>
    \<exists>q. read_items D (length its) acc p = Some (acc @ map item_arrived its, q) \<and> items q = rest"
proof (induction its arbitrary: p acc)
  case (Cons it its)
  then obtain q where "read_item D p = Some (item_arrived it, q)" "items q = concat (map item_items its) @ rest"
    using item_read [OF F, of it p "concat (map item_items its) @ rest"] by auto
  with Cons.IH [of q "acc @ [item_arrived it]"] Cons.prems show ?case by auto
qed simp

text \<open>The text fields arrive unless the fresh object starts in the mode that refuses them.\<close>

definition received :: "SettingMode \<Rightarrow> DataSharePredicates \<Rightarrow> DataSharePredicates" where
  "received m0 d =
     (let d' = d\<lparr>ds_tableName := [], operationList := map item_arrived (operationList d)\<rparr>
      in if m0 = PREDICATES_METHOD then ClearQueryLanguage d' else d')"

definition sendable :: "DataSharePredicates \<Rightarrow> bool" where
  "sendable d \<longleftrightarrow> (\<forall>it \<in> set (operationList d). item_wf it) \<and> length (operationList d) < 2 ^ 31 \<and> (\<forall>c. settingMode d \<noteq> MODE_OTHER c)"

definition pred_tail :: "DataSharePredicates \<Rightarrow> ds_item list" where
  "pred_tail d = [DI (IString (ds_whereClause d)), DStrings (ds_whereArgs d), DI (IString (ds_order d)), DI (I64 (mode_code (settingMode d)))]"

definition pred_items :: "DataSharePredicates \<Rightarrow> ds_item list" where
  "pred_items d = DI (I32 (of_nat (length (operationList d)))) # concat (map item_items (operationList d)) @ pred_tail d"

lemma pred_write:
  assumes F: "ds_fifo D items" and d: "sendable d"
  shows "\<exists>q. Pred_Marshalling D d p = Some q \<and> items q = items p @ pred_items d"
  using items_write [OF F, of "operationList d" "WriteInt32 (ppc D) (of_nat (length (operationList d))) p"] d
  by (auto simp: Pred_Marshalling_def parcel_ds_writes [OF F] pred_items_def pred_tail_def sendable_def)

lemma pred_read:
  assumes F: "ds_fifo D items" and d: "sendable d" and i: "items q = pred_items d @ rest"
  shows "\<exists>r. Pred_Unmarshalling D m0 q = Some (received m0 d, r) \<and> items r = rest"
proof -
  note d' = d [unfolded sendable_def]
  let ?n = "of_nat (length (operationList d)) :: 32 word" and ?its = "concat (map item_items (operationList d))" and ?tail = "pred_tail d @ rest"
  note tail = pred_tail_def
  obtain q0 where 0: "ReadInt32 (ppc D) q = (?n, q0)" "items q0 = ?its @ ?tail" using parcel_ds_reads(2) [OF F, of q] i by (auto simp: pred_items_def)
  obtain q1 where r1: "read_items D (length (operationList d)) [] q0 = Some (map item_arrived (operationList d), q1)" "items q1 = ?tail"
    using items_read [OF F _ 0(2), of "[]"] d' by auto
  obtain q2 where r2: "ReadString (ppc D) q1 = (ds_whereClause d, q2)" "items q2 = tl ?tail" using parcel_ds_reads(5) [OF F, of q1] r1(2) by (auto simp: tail)
  obtain q3 where r3: "ReadStringVector D q2 = (ds_whereArgs d, q3)" "items q3 = tl (tl ?tail)" using parcel_ds_reads(9) [OF F, of q2] r2(2) by (auto simp: tail)
  obtain q4 where r4: "ReadString (ppc D) q3 = (ds_order d, q4)" "items q4 = tl (tl (tl ?tail))" using parcel_ds_reads(5) [OF F, of q3] r3(2) by (auto simp: tail)
  obtain q5 where r5: "ReadInt64 (ppc D) q4 = (mode_code (settingMode d), q5)" "items q5 = rest" using parcel_ds_reads(3) [OF F, of q4] r4(2) by (auto simp: tail)
  have m: "mode_type (mode_code (settingMode d)) = settingMode d" using d' by (auto intro: mode_type_code)
  have n: "nat (sint ?n) = length (operationList d)" using d' by (intro sint_of_nat_31) simp
  have "Pred_Unmarshalling D m0 q = Some (received m0 d, q5)"
    using 0(1) r1(1) r2(1) r3(1) r4(1) r5(1) m n
    by (cases d) (auto simp: Pred_Unmarshalling_def DataSharePredicates_of_def DataSharePredicates_new_def DsSetWhereClause_def DsSetWhereArgs_def
        DsSetOrder_def SetSettingMode_def received_def ClearQueryLanguage_def Let_def)
  with r5(2) show ?thesis by blast
qed

lemma pred_roundtrip:
  assumes F: "ds_fifo D items" and d: "sendable d" and p: "items p = []"
  shows "\<exists>q r. Pred_Marshalling D d p = Some q \<and> Pred_Unmarshalling D m0 q = Some (received m0 d, r) \<and> items r = []"
  using pred_write [OF F d, of p] pred_read [OF F d, of _ "[]"] p by fastforce

text \<open>
  C21 (roundtrip): predicates written to a parcel and read back are the same operations in the same order,
  the same clause, arguments, order and mode; the table name is not sent, integers come back as another
  alternative of their variant, and the text fields are lost if the new object happens to start in the
  mode for operations, since its mode is not initialised.
\<close>

theorem predicates_parcel_roundtrip:
  assumes F: "ds_fifo D items" and d: "sendable d" and p: "items p = []"
  shows "\<exists>q r. Pred_Marshalling D d p = Some q \<and> Pred_Unmarshalling D m0 q = Some (received m0 d, r) \<and> items r = []"
  using assms by (rule pred_roundtrip)

subsection \<open>Call sequences\<close>

text \<open>The calls a consumer can make; \<open>bool\<close> has an overload for (in)equality only and is promoted to \<open>int\<close>
  elsewhere.\<close>

datatype ds_value = DvInt "32 word" | DvLong int64 | DvDouble "64 word" | DvString string | DvBool bool

datatype ds_call =
    dEqualTo string ds_value
  | dNotEqualTo string ds_value
  | dGreaterThan string ds_value
  | dLessThan string ds_value
  | dGreaterThanOrEqualTo string ds_value
  | dLessThanOrEqualTo string ds_value
  | dIn string "string list"
  | dInInts string "32 word list"
  | dInLongs string "int64 list"
  | dInDoubles string "64 word list"
  | dNotIn string "string list"
  | dNotInInts string "32 word list"
  | dNotInLongs string "int64 list"
  | dNotInDoubles string "64 word list"
  | dBeginWrap
  | dEndWrap
  | dOr
  | dAnd
  | dContains string string
  | dBeginsWith string string
  | dEndsWith string string
  | dIsNull string
  | dIsNotNull string
  | dLike string string
  | dUnlike string string
  | dGlob string string
  | dBetween string string string
  | dNotBetween string string string
  | dOrderByAsc string
  | dOrderByDesc string
  | dDistinct
  | dLimit "32 word" "32 word"
  | dGroupBy "string list"
  | dIndexedBy string
  | dKeyPrefix string
  | dInKeys "string list"

fun ds_call_on :: "ds_call \<Rightarrow> DataSharePredicates \<Rightarrow> DataSharePredicates option" where

  "ds_call_on (dEqualTo f (DvInt v)) p = Some (EqualTo_int f v p)"
| "ds_call_on (dEqualTo f (DvLong v)) p = Some (EqualTo_long f v p)"
| "ds_call_on (dEqualTo f (DvDouble v)) p = Some (EqualTo_double f v p)"
| "ds_call_on (dEqualTo f (DvString v)) p = Some (EqualTo_string f v p)"
| "ds_call_on (dEqualTo f (DvBool v)) p = Some (EqualTo_bool f v p)"
| "ds_call_on (dNotEqualTo f (DvInt v)) p = Some (NotEqualTo_int f v p)"
| "ds_call_on (dNotEqualTo f (DvLong v)) p = Some (NotEqualTo_long f v p)"
| "ds_call_on (dNotEqualTo f (DvDouble v)) p = Some (NotEqualTo_double f v p)"
| "ds_call_on (dNotEqualTo f (DvString v)) p = Some (NotEqualTo_string f v p)"
| "ds_call_on (dNotEqualTo f (DvBool v)) p = Some (NotEqualTo_bool f v p)"
| "ds_call_on (dGreaterThan f (DvInt v)) p = Some (GreaterThan_int f v p)"
| "ds_call_on (dGreaterThan f (DvLong v)) p = Some (GreaterThan_long f v p)"
| "ds_call_on (dGreaterThan f (DvDouble v)) p = Some (GreaterThan_double f v p)"
| "ds_call_on (dGreaterThan f (DvString v)) p = Some (GreaterThan_string f v p)"
| "ds_call_on (dGreaterThan f (DvBool v)) p = Some (GreaterThan_int f (of_bool v) p)"
| "ds_call_on (dLessThan f (DvInt v)) p = Some (LessThan_int f v p)"
| "ds_call_on (dLessThan f (DvLong v)) p = Some (LessThan_long f v p)"
| "ds_call_on (dLessThan f (DvDouble v)) p = Some (LessThan_double f v p)"
| "ds_call_on (dLessThan f (DvString v)) p = Some (LessThan_string f v p)"
| "ds_call_on (dLessThan f (DvBool v)) p = Some (LessThan_int f (of_bool v) p)"
| "ds_call_on (dGreaterThanOrEqualTo f (DvInt v)) p = Some (GreaterThanOrEqualTo_int f v p)"
| "ds_call_on (dGreaterThanOrEqualTo f (DvLong v)) p = Some (GreaterThanOrEqualTo_long f v p)"
| "ds_call_on (dGreaterThanOrEqualTo f (DvDouble v)) p = Some (GreaterThanOrEqualTo_double f v p)"
| "ds_call_on (dGreaterThanOrEqualTo f (DvString v)) p = Some (GreaterThanOrEqualTo_string f v p)"
| "ds_call_on (dGreaterThanOrEqualTo f (DvBool v)) p = Some (GreaterThanOrEqualTo_int f (of_bool v) p)"
| "ds_call_on (dLessThanOrEqualTo f (DvInt v)) p = Some (LessThanOrEqualTo_int f v p)"
| "ds_call_on (dLessThanOrEqualTo f (DvLong v)) p = Some (LessThanOrEqualTo_long f v p)"
| "ds_call_on (dLessThanOrEqualTo f (DvDouble v)) p = Some (LessThanOrEqualTo_double f v p)"
| "ds_call_on (dLessThanOrEqualTo f (DvString v)) p = Some (LessThanOrEqualTo_string f v p)"
| "ds_call_on (dLessThanOrEqualTo f (DvBool v)) p = Some (LessThanOrEqualTo_int f (of_bool v) p)"
| "ds_call_on (dIn f vs) p = Some (In_strings f vs p)"
| "ds_call_on (dInInts f ns) p = In_ints f ns p"
| "ds_call_on (dInLongs f ls) p = Some (In_longs f ls p)"
| "ds_call_on (dInDoubles f ds) p = Some (In_doubles f ds p)"
| "ds_call_on (dNotIn f vs) p = Some (NotIn_strings f vs p)"
| "ds_call_on (dNotInInts f ns) p = NotIn_ints f ns p"
| "ds_call_on (dNotInLongs f ls) p = Some (NotIn_longs f ls p)"
| "ds_call_on (dNotInDoubles f ds) p = Some (NotIn_doubles f ds p)"
| "ds_call_on dBeginWrap p = Some (DsBeginWrap p)"
| "ds_call_on dEndWrap p = Some (DsEndWrap p)"
| "ds_call_on dOr p = Some (DsOr p)"
| "ds_call_on dAnd p = Some (DsAnd p)"
| "ds_call_on dDistinct p = Some (DsDistinct p)"
| "ds_call_on (dContains f v) p = Some (DsContains f v p)"
| "ds_call_on (dBeginsWith f v) p = Some (DsBeginsWith f v p)"
| "ds_call_on (dEndsWith f v) p = Some (DsEndsWith f v p)"
| "ds_call_on (dLike f v) p = Some (DsLike f v p)"
| "ds_call_on (dUnlike f v) p = Some (DsUnlike f v p)"
| "ds_call_on (dGlob f v) p = Some (DsGlob f v p)"
| "ds_call_on (dIsNull f) p = Some (DsIsNull f p)"
| "ds_call_on (dIsNotNull f) p = Some (DsIsNotNull f p)"
| "ds_call_on (dOrderByAsc f) p = Some (DsOrderByAsc f p)"
| "ds_call_on (dOrderByDesc f) p = Some (DsOrderByDesc f p)"
| "ds_call_on (dIndexedBy f) p = Some (DsIndexedBy f p)"
| "ds_call_on (dKeyPrefix f) p = Some (DsKeyPrefix f p)"
| "ds_call_on (dBetween f lo hi) p = Some (DsBetween f lo hi p)"
| "ds_call_on (dNotBetween f lo hi) p = Some (DsNotBetween f lo hi p)"
| "ds_call_on (dLimit n off) p = Some (DsLimit n off p)"
| "ds_call_on (dGroupBy fs) p = DsGroupBy fs p"
| "ds_call_on (dInKeys fs) p = DsInKeys fs p"


fun ds_calls :: "ds_call list \<Rightarrow> DataSharePredicates \<Rightarrow> DataSharePredicates option" where
  "ds_calls [] p = Some p"
| "ds_calls (c # cs) p = Option.bind (ds_call_on c p) (ds_calls cs)"

text \<open>A call appends one operation and leaves the mode for operations, with no text fields.\<close>

definition appended :: "OperationItem \<Rightarrow> DataSharePredicates \<Rightarrow> DataSharePredicates" where
  "appended it p =
     (let p = p\<lparr>operationList := operationList p @ [it]\<rparr>
      in if settingMode p = PREDICATES_METHOD then p else (ClearQueryLanguage p)\<lparr>settingMode := PREDICATES_METHOD\<rparr>)"

lemma SetOperationList_appended:
  "SetOperationList oper x1 x2 x3 n p = appended \<lparr>operation = oper, para1 = x1, para2 = x2, para3 = x3, parameterCount = n\<rparr> p"
  by (simp add: SetOperationList_def appended_def Let_def)

lemma appended_fields [simp]:
  "operationList (appended it p) = operationList p @ [it]" "settingMode (appended it p) = PREDICATES_METHOD"
  "ds_tableName (appended it p) = ds_tableName p"
  by (simp_all add: appended_def ClearQueryLanguage_def Let_def)

definition call_item :: "ds_call \<Rightarrow> OperationItem option" where
  "call_item c = map_option (\<lambda>p. hd (operationList p)) (ds_call_on c (DataSharePredicates_new PREDICATES_METHOD))"

lemma new_operations [simp]: "operationList (DataSharePredicates_new m) = []"
  by (simp add: DataSharePredicates_new_def)

lemmas call_unfold = call_item_def consumer_calls SetOperationList_appended

lemma ds_call_item: "ds_call_on c d = map_option (\<lambda>it. appended it d) (call_item c)"
proof (cases c)
  case (dEqualTo f v) then show ?thesis by (cases v) (simp_all add: call_unfold)
next
  case (dNotEqualTo f v) then show ?thesis by (cases v) (simp_all add: call_unfold)
next
  case (dGreaterThan f v) then show ?thesis by (cases v) (simp_all add: call_unfold)
next
  case (dLessThan f v) then show ?thesis by (cases v) (simp_all add: call_unfold)
next
  case (dGreaterThanOrEqualTo f v) then show ?thesis by (cases v) (simp_all add: call_unfold)
next
  case (dLessThanOrEqualTo f v) then show ?thesis by (cases v) (simp_all add: call_unfold)
qed (simp_all add: call_unfold)

lemma obj_wf_ctors [simp]:
  "obj_wf Obj_null" "obj_wf (Obj_int i)" "obj_wf (Obj_long l)" "obj_wf (Obj_double d)" "obj_wf (Obj_bool b)" "obj_wf (Obj_string s)"
  "ns \<noteq> [] \<Longrightarrow> obj_wf (Obj_ints ns)" "obj_wf (Obj_longs ls)" "obj_wf (Obj_strings ss)" "obj_wf (Obj_doubles ds)"
  by (simp_all add: obj_wf_def Obj_ctors)

lemma call_item_wf: "call_item c = Some it \<Longrightarrow> item_wf it"
proof (cases c)
  case (dEqualTo f v) then show "call_item c = Some it \<Longrightarrow> item_wf it" by (cases v) (auto simp: call_unfold item_wf_def)
next
  case (dNotEqualTo f v) then show "call_item c = Some it \<Longrightarrow> item_wf it" by (cases v) (auto simp: call_unfold item_wf_def)
next
  case (dGreaterThan f v) then show "call_item c = Some it \<Longrightarrow> item_wf it" by (cases v) (auto simp: call_unfold item_wf_def)
next
  case (dLessThan f v) then show "call_item c = Some it \<Longrightarrow> item_wf it" by (cases v) (auto simp: call_unfold item_wf_def)
next
  case (dGreaterThanOrEqualTo f v) then show "call_item c = Some it \<Longrightarrow> item_wf it" by (cases v) (auto simp: call_unfold item_wf_def)
next
  case (dLessThanOrEqualTo f v) then show "call_item c = Some it \<Longrightarrow> item_wf it" by (cases v) (auto simp: call_unfold item_wf_def)
qed (auto simp: call_unfold item_wf_def split: if_splits)

lemma ds_calls_items:
  "ds_calls cs d = Some d' \<Longrightarrow> \<exists>its. map call_item cs = map Some its \<and> d' = fold appended its d"
proof (induction cs arbitrary: d)
  case (Cons c cs)
  then obtain it where "call_item c = Some it" "ds_calls cs (appended it d) = Some d'"
    by (auto simp: ds_call_item bind_eq_Some_conv)
  with Cons.IH [of "appended it d"] obtain its where "map call_item cs = map Some its" "d' = fold appended its (appended it d)" by blast
  with \<open>call_item c = Some it\<close> show ?case by (intro exI [of _ "it # its"]) simp
qed simp

lemma fold_appended [simp]:
  "operationList (fold appended its d) = operationList d @ its" "ds_tableName (fold appended its d) = ds_tableName d"
  "its \<noteq> [] \<Longrightarrow> settingMode (fold appended its d) = PREDICATES_METHOD"
  by (induction its arbitrary: d) (auto, metis appended_fields(2) fold_simps(1))

lemma fold_appended_text:
  assumes "settingMode d = PREDICATES_METHOD \<Longrightarrow> ds_whereClause d = [] \<and> ds_whereArgs d = [] \<and> ds_order d = []" and "its \<noteq> []"
  shows "ds_whereClause (fold appended its d) = [] \<and> ds_whereArgs (fold appended its d) = [] \<and> ds_order (fold appended its d) = []"
  using assms
proof (induction its arbitrary: d)
  case (Cons it its)
  have "ds_whereClause (appended it d) = [] \<and> ds_whereArgs (appended it d) = [] \<and> ds_order (appended it d) = []"
    using Cons.prems(1) by (auto simp: appended_def ClearQueryLanguage_def Let_def)
  with Cons.IH [of "appended it d"] show ?case by (cases its) simp_all
qed simp

text \<open>
  Whatever the calls before, after at least one call the object is in the mode for
  operations with no text left, one operation has been added for each call, and setting a clause,
  arguments or an order is refused from then on.
\<close>

theorem consumer_calls_keep_mode:
  assumes "ds_calls (c # cs) p = Some p'" and "settingMode p = PREDICATES_METHOD \<Longrightarrow> ds_whereClause p = [] \<and> ds_whereArgs p = [] \<and> ds_order p = []"
  shows "settingMode p' = PREDICATES_METHOD \<and> ds_whereClause p' = [] \<and> ds_whereArgs p' = [] \<and> ds_order p' = []
    \<and> length (operationList p') = length (operationList p) + length (c # cs)
    \<and> DsSetWhereClause w p' = (E_ERROR, p') \<and> DsSetWhereArgs a p' = (E_ERROR, p') \<and> DsSetOrder ord p' = (E_ERROR, p')"
proof -
  obtain its where i: "map call_item (c # cs) = map Some its" "p' = fold appended its p" using ds_calls_items [OF assms(1)] by blast
  from i(1) have l: "length its = length (c # cs)" by (metis length_map)
  then have ne: "its \<noteq> []" by auto
  show ?thesis
    using fold_appended_text [OF assms(2) ne] ne l by (simp add: i(2) DsSetWhereClause_def DsSetWhereArgs_def DsSetOrder_def)
qed

theorem consumer_calls_keep_mode_witness:
  "\<exists>p'. ds_calls [dEqualTo ''a'' (DvString ''x''), dOr] (snd (DsSetWhereClause ''b = 1'' (DataSharePredicates_new INVALID_MODE))) = Some p'
     \<and> settingMode p' = PREDICATES_METHOD \<and> ds_whereClause p' = [] \<and> length (operationList p') = 2"
proof -
  let ?p = "snd (DsSetWhereClause ''b = 1'' (DataSharePredicates_new INVALID_MODE))"
  have r: "ds_calls [dEqualTo ''a'' (DvString ''x''), dOr] ?p = Some (DsOr (EqualTo_string ''a'' ''x'' ?p))" by simp
  have "settingMode ?p = QUERY_LANGUAGE" "operationList ?p = []" by (simp_all add: DsSetWhereClause_def DataSharePredicates_new_def)
  with consumer_calls_keep_mode [OF r] r show ?thesis by auto
qed

subsection \<open>A parcel as the list of its unread items\<close>

definition list_base :: "ds_item list parcel_ops" where
  "list_base = \<lparr>
     WriteInt16 = (\<lambda>x p. p @ [DI (I16 x)]), WriteInt32 = (\<lambda>x p. p @ [DI (I32 x)]), WriteInt64 = (\<lambda>x p. p @ [DI (I64 x)]),
     WriteDouble = (\<lambda>x p. p @ [DI (IDouble x)]), WriteString = (\<lambda>x p. p @ [DI (IString x)]),
     WriteUInt8Vector = (\<lambda>x p. p @ [DI (IBytes x)]), WriteBool = (\<lambda>x p. p @ [DI (IBool x)]),
     ReadInt16 = (\<lambda>p. case p of DI (I16 x) # q \<Rightarrow> (x, q) | _ \<Rightarrow> (0, p)),
     ReadInt32 = (\<lambda>p. case p of DI (I32 x) # q \<Rightarrow> (x, q) | _ \<Rightarrow> (0, p)),
     ReadInt64 = (\<lambda>p. case p of DI (I64 x) # q \<Rightarrow> (x, q) | _ \<Rightarrow> (0, p)),
     ReadDouble = (\<lambda>p. case p of DI (IDouble x) # q \<Rightarrow> (x, q) | _ \<Rightarrow> (0, p)),
     ReadString = (\<lambda>p. case p of DI (IString x) # q \<Rightarrow> (x, q) | _ \<Rightarrow> ([], p)),
     ReadUInt8Vector = (\<lambda>p. case p of DI (IBytes x) # q \<Rightarrow> (x, q) | _ \<Rightarrow> ([], p)),
     ReadBool = (\<lambda>p. case p of DI (IBool x) # q \<Rightarrow> (x, q) | _ \<Rightarrow> (False, p)),
     WriteParcelable = (\<lambda>m p. m (p @ [DI (I32 1)])),
     ReadParcelable = (\<lambda>u p. case (case p of DI (I32 x) # q \<Rightarrow> (x, q) | _ \<Rightarrow> (0, p)) of (n, q) \<Rightarrow>
        if n = 0 then (None, q) else (case u q of (v, r) \<Rightarrow> (Some v, r)))\<rparr>"

definition list_ds :: "ds_item list ds_parcel" where
  "list_ds = \<lparr>ppc = list_base,
     WriteInt64Vector = (\<lambda>x p. p @ [DLongs x]), WriteDoubleVector = (\<lambda>x p. p @ [DDoubles x]), WriteStringVector = (\<lambda>x p. p @ [DStrings x]),
     ReadInt64Vector = (\<lambda>p. case p of DLongs x # q \<Rightarrow> (x, q) | _ \<Rightarrow> ([], p)),
     ReadDoubleVector = (\<lambda>p. case p of DDoubles x # q \<Rightarrow> (x, q) | _ \<Rightarrow> ([], p)),
     ReadStringVector = (\<lambda>p. case p of DStrings x # q \<Rightarrow> (x, q) | _ \<Rightarrow> ([], p)),
     ReadObject = (\<lambda>u p. case (case p of DI (I32 x) # q \<Rightarrow> (x, q) | _ \<Rightarrow> (0, p)) of (n, q) \<Rightarrow>
        if n = 0 then (None, q) else (case u q of (v, r) \<Rightarrow> (Some v, r)))\<rparr>"

lemma list_ds_fifo: "ds_fifo list_ds (\<lambda>p. p)"
  by (simp add: ds_fifo_def list_ds_def list_base_def)

theorem predicates_parcel_roundtrip_witness:
  "\<exists>q r. Pred_Marshalling list_ds (EqualTo_int ''a'' 5 (DataSharePredicates_new INVALID_MODE)) [] = Some q
     \<and> Pred_Unmarshalling list_ds INVALID_MODE q
       = Some (received INVALID_MODE (EqualTo_int ''a'' 5 (DataSharePredicates_new INVALID_MODE)), r) \<and> r = []"
proof -
  have "sendable (EqualTo_int ''a'' 5 (DataSharePredicates_new INVALID_MODE))"
    by (simp add: sendable_def EqualTo_int_def SetOperationList_appended item_wf_def obj_wf_def Obj_ctors DataSharePredicates_new_def)
  from predicates_parcel_roundtrip [OF list_ds_fifo this refl] show ?thesis by blast
qed

end
