(* ===== verification/Data_Share_Operation.thy ===== *)
theory Data_Share_Operation
  imports Data_Share_Predicates
begin

text \<open>
  The operations of a batch and their results (datashare_operation.cpp, datashare_operation_builder.cpp, datashare_result.cpp), and the
  message parcel that carries them between processes.  A shared pointer that may be null is an \<open>option\<close>; the objects behind
  the pointers are values, so two operations never share a bucket.  A message is a parameter: its operations can fail,
  and \<open>message_ok\<close> says what is relied on when they do not.
\<close>

subsection \<open>Operations\<close>

definition TYPE_INSERT_OP :: "32 word" where
  "TYPE_INSERT_OP = 1"

definition TYPE_UPDATE_OP :: "32 word" where
  "TYPE_UPDATE_OP = 2"

definition TYPE_DELETE_OP :: "32 word" where
  "TYPE_DELETE_OP = 3"

definition TYPE_ASSERT_OP :: "32 word" where
  "TYPE_ASSERT_OP = 4"

definition VALUE_OBJECT :: "32 word" where
  "VALUE_OBJECT = 1"

definition VALUE_NULL :: "32 word" where
  "VALUE_NULL = 0"

definition REFERENCE_THRESHOLD :: int where
  "REFERENCE_THRESHOLD = 3 * 1024 * 1024"

text \<open>The back references are a \<open>std::map\<close>, so they are ordered by their keys.\<close>

record DataShareOperation =
  oper_type :: "32 word"
  oper_uri :: "string option"
  oper_valuesBucket :: "DataShareValuesBucket option"
  oper_expectedCount :: "32 word"
  oper_predicates :: "DataSharePredicates option"
  oper_valuesBucketReferences :: "DataShareValuesBucket option"
  oper_backReferences :: "(int \<times> 32 word) list"
  oper_interrupted :: bool

text \<open>\<open>m0\<close> is the mode that is in the memory of a new predicates object.\<close>

definition DataShareOperation_new :: "SettingMode \<Rightarrow> DataShareOperation" where
  "DataShareOperation_new m0 =
     \<lparr>oper_type = 0, oper_uri = None, oper_valuesBucket = Some [], oper_expectedCount = 0, oper_predicates = Some (DataSharePredicates_new m0),
      oper_valuesBucketReferences = Some [], oper_backReferences = [], oper_interrupted = False\<rparr>"

definition DataShareOperation_of :: "SettingMode \<Rightarrow> DataShareOperation option \<Rightarrow> string option \<Rightarrow> DataShareOperation" where
  "DataShareOperation_of m0 other withUri =
     (case other of Some x \<Rightarrow> x\<lparr>oper_uri := withUri\<rparr> | None \<Rightarrow> (DataShareOperation_new m0)\<lparr>oper_uri := withUri\<rparr>)"

definition IsInsertOperation :: "DataShareOperation \<Rightarrow> bool" where
  "IsInsertOperation x \<longleftrightarrow> oper_type x = TYPE_INSERT_OP"

definition IsUpdateOperation :: "DataShareOperation \<Rightarrow> bool" where
  "IsUpdateOperation x \<longleftrightarrow> oper_type x = TYPE_UPDATE_OP"

definition IsDeleteOperation :: "DataShareOperation \<Rightarrow> bool" where
  "IsDeleteOperation x \<longleftrightarrow> oper_type x = TYPE_DELETE_OP"

definition IsAssertOperation :: "DataShareOperation \<Rightarrow> bool" where
  "IsAssertOperation x \<longleftrightarrow> oper_type x = TYPE_ASSERT_OP"

definition IsInterruptionAllowed :: "DataShareOperation \<Rightarrow> bool" where
  "IsInterruptionAllowed x = oper_interrupted x"

subsection \<open>The builder\<close>

text \<open>A builder has the fields of an operation; a call that its type does not allow returns a null pointer.\<close>

type_synonym OperationBuilder = DataShareOperation

definition DataShareOperationBuilder_new :: "32 word \<Rightarrow> string option \<Rightarrow> OperationBuilder" where
  "DataShareOperationBuilder_new type uri =
     \<lparr>oper_type = type, oper_uri = uri, oper_valuesBucket = None, oper_expectedCount = 0, oper_predicates = None,
      oper_valuesBucketReferences = None, oper_backReferences = [], oper_interrupted = False\<rparr>"

definition NewInsertBuilder :: "string option \<Rightarrow> OperationBuilder option" where
  "NewInsertBuilder uri = (if uri = None then None else Some (DataShareOperationBuilder_new TYPE_INSERT_OP uri))"

definition NewUpdateBuilder :: "string option \<Rightarrow> OperationBuilder option" where
  "NewUpdateBuilder uri = (if uri = None then None else Some (DataShareOperationBuilder_new TYPE_UPDATE_OP uri))"

definition NewDeleteBuilder :: "string option \<Rightarrow> OperationBuilder option" where
  "NewDeleteBuilder uri = (if uri = None then None else Some (DataShareOperationBuilder_new TYPE_DELETE_OP uri))"

definition NewAssertBuilder :: "string option \<Rightarrow> OperationBuilder option" where
  "NewAssertBuilder uri = (if uri = None then None else Some (DataShareOperationBuilder_new TYPE_ASSERT_OP uri))"

definition Build :: "OperationBuilder \<Rightarrow> DataShareOperation option" where
  "Build b =
     (if oper_type b \<noteq> TYPE_UPDATE_OP \<or> (case oper_valuesBucket b of None \<Rightarrow> False | Some v \<Rightarrow> \<not> DsBucket_IsEmpty v) then Some b else None)"

definition WithValuesBucket :: "DataShareValuesBucket \<Rightarrow> OperationBuilder \<Rightarrow> OperationBuilder option" where
  "WithValuesBucket values b =
     (if oper_type b \<noteq> TYPE_INSERT_OP \<and> oper_type b \<noteq> TYPE_UPDATE_OP \<and> oper_type b \<noteq> TYPE_ASSERT_OP then None
      else Some (b\<lparr>oper_valuesBucket := Some (DsBucket_GetAll values)\<rparr>))"

definition WithPredicates :: "DataSharePredicates option \<Rightarrow> OperationBuilder \<Rightarrow> OperationBuilder option" where
  "WithPredicates predicates b =
     (if oper_type b \<noteq> TYPE_DELETE_OP \<and> oper_type b \<noteq> TYPE_UPDATE_OP \<and> oper_type b \<noteq> TYPE_ASSERT_OP then None
      else Some (b\<lparr>oper_predicates := predicates\<rparr>))"

definition WithExpectedCount :: "32 word \<Rightarrow> OperationBuilder \<Rightarrow> OperationBuilder option" where
  "WithExpectedCount count b =
     (if oper_type b \<noteq> TYPE_UPDATE_OP \<and> oper_type b \<noteq> TYPE_DELETE_OP \<and> oper_type b \<noteq> TYPE_ASSERT_OP then None
      else Some (b\<lparr>oper_expectedCount := count\<rparr>))"

definition WithPredicatesBackReference :: "int \<Rightarrow> 32 word \<Rightarrow> OperationBuilder \<Rightarrow> OperationBuilder option" where
  "WithPredicatesBackReference requestArgIndex previousResult b =
     (if oper_type b \<noteq> TYPE_UPDATE_OP \<and> oper_type b \<noteq> TYPE_DELETE_OP \<and> oper_type b \<noteq> TYPE_ASSERT_OP then None
      else Some (b\<lparr>oper_backReferences := map_insert requestArgIndex previousResult (oper_backReferences b)\<rparr>))"

definition WithValueBackReferences :: "DataShareValuesBucket option \<Rightarrow> OperationBuilder \<Rightarrow> OperationBuilder option" where
  "WithValueBackReferences backReferences b =
     (if oper_type b \<noteq> TYPE_INSERT_OP \<and> oper_type b \<noteq> TYPE_UPDATE_OP \<and> oper_type b \<noteq> TYPE_ASSERT_OP then None
      else Some (b\<lparr>oper_valuesBucketReferences := backReferences\<rparr>))"

definition WithInterruptionAllowed :: "bool \<Rightarrow> OperationBuilder \<Rightarrow> OperationBuilder option" where
  "WithInterruptionAllowed interrupted b =
     (if oper_type b \<noteq> TYPE_INSERT_OP \<and> oper_type b \<noteq> TYPE_UPDATE_OP \<and> oper_type b \<noteq> TYPE_ASSERT_OP \<and> oper_type b \<noteq> TYPE_DELETE_OP then None
      else Some (b\<lparr>oper_interrupted := interrupted\<rparr>))"

subsection \<open>Results\<close>

record DataShareResult =
  result_uri :: string
  result_count :: "32 word"

definition RESULT_VALUE_NULL :: "32 word" where
  "RESULT_VALUE_NULL = - 1"

definition DataShareResult_count :: "32 word \<Rightarrow> DataShareResult" where
  "DataShareResult_count count = \<lparr>result_uri = [], result_count = count\<rparr>"

definition DataShareResult_uri :: "string \<Rightarrow> DataShareResult" where
  "DataShareResult_uri uri = \<lparr>result_uri = uri, result_count = 0\<rparr>"

definition DataShareResult_both :: "string \<Rightarrow> 32 word \<Rightarrow> DataShareResult" where
  "DataShareResult_both uri count = \<lparr>result_uri = uri, result_count = count\<rparr>"

definition Result_ToString :: "DataShareResult \<Rightarrow> string" where
  "Result_ToString r =
     (let s = ''DataShareResult('' @ ''uri='' @ result_uri r @ '' '' @ ''count='' @ to_string (sint (result_count r)) @ '' '' in
      butlast s @ '')'')"

subsection \<open>Messages, a parameter\<close>

text \<open>
  A write gives nothing when it returns \<open>false\<close>.  \<open>base\<close> are the operations that the marshalling of buckets and predicates uses.
  \<open>WriteParcelable\<close> is given a null pointer (\<open>MsgWriteNull\<close>) or the marshalling of the object, whose outer \<open>None\<close> is an exception and whose inner \<open>None\<close> is
  \<open>false\<close>; \<open>ReadParcelable\<close> is one operation for each class and gives a null pointer or an object.  \<open>Uri\<close> is a class of
  another repository.
\<close>

record ('p, 'o) message_ops =
  base :: "'p ds_parcel"
  new_message :: 'p
  WriteInterfaceToken :: "string \<Rightarrow> 'p \<Rightarrow> 'p option"
  ReadInterfaceToken :: "'p \<Rightarrow> string \<times> 'p"
  MsgWriteInt32 :: "32 word \<Rightarrow> 'p \<Rightarrow> 'p option"
  MsgReadInt32 :: "'p \<Rightarrow> (32 word) option \<times> 'p"
  MsgWriteBool :: "bool \<Rightarrow> 'p \<Rightarrow> 'p option"
  MsgReadBool :: "'p \<Rightarrow> bool \<times> 'p"
  MsgWriteString :: "string \<Rightarrow> 'p \<Rightarrow> 'p option"
  MsgReadString :: "'p \<Rightarrow> string \<times> 'p"
  MsgWriteStringVector :: "string list \<Rightarrow> 'p \<Rightarrow> 'p option"
  MsgReadStringVector :: "'p \<Rightarrow> (string list) option \<times> 'p"
  WriteFileDescriptor :: "32 word \<Rightarrow> 'p \<Rightarrow> 'p option"
  ReadFileDescriptor :: "'p \<Rightarrow> 32 word \<times> 'p"
  WriteRemoteObject :: "'o \<Rightarrow> 'p \<Rightarrow> 'p option"
  ReadRemoteObject :: "'p \<Rightarrow> 'o option \<times> 'p"
  WriteUri :: "string \<Rightarrow> 'p \<Rightarrow> 'p option"
  ReadUri :: "'p \<Rightarrow> string option \<times> 'p"
  MsgWriteNull :: "'p \<Rightarrow> 'p option"
  MsgWriteParcelable :: "('p \<Rightarrow> 'p option option) \<Rightarrow> 'p \<Rightarrow> 'p option option"
  ReadBucket :: "('p \<Rightarrow> (DataShareValuesBucket option \<times> 'p) option) \<Rightarrow> 'p \<Rightarrow> (DataShareValuesBucket option \<times> 'p) option"
  ReadPredicates :: "('p \<Rightarrow> (DataSharePredicates option \<times> 'p) option) \<Rightarrow> 'p \<Rightarrow> (DataSharePredicates option \<times> 'p) option"
  ReadOperation :: "('p \<Rightarrow> (DataShareOperation option \<times> 'p) option) \<Rightarrow> 'p \<Rightarrow> (DataShareOperation option \<times> 'p) option"
  ReadResult :: "('p \<Rightarrow> (DataShareResult option \<times> 'p) option) \<Rightarrow> 'p \<Rightarrow> (DataShareResult option \<times> 'p) option"

text \<open>What the code does next when a write fails (\<open>d\<close>) and when it succeeds (\<open>k\<close>).\<close>

definition write_or :: "'p option option \<Rightarrow> 'r option \<Rightarrow> ('p \<Rightarrow> 'r option) \<Rightarrow> 'r option" where
  "write_or x d k = (case x of None \<Rightarrow> None | Some None \<Rightarrow> d | Some (Some p) \<Rightarrow> k p)"

lemma write_or_simps [simp]:
  "write_or None d k = None" "write_or (Some None) d k = d" "write_or (Some (Some p)) d k = k p"
  by (simp_all add: write_or_def)

definition write_bucket :: "('p, 'o) message_ops \<Rightarrow> DataShareValuesBucket \<Rightarrow> 'p \<Rightarrow> 'p option option" where
  "write_bucket M b = MsgWriteParcelable M (\<lambda>p. map_option Some (DsBucket_Marshalling (ppc (base M)) b p))"

definition read_bucket :: "('p, 'o) message_ops \<Rightarrow> 'p \<Rightarrow> (DataShareValuesBucket option \<times> 'p) option" where
  "read_bucket M = ReadBucket M (\<lambda>p. map_option (\<lambda>(b, q). (Some b, q)) (DsBucket_Unmarshalling (ppc (base M)) p))"

definition write_predicates :: "('p, 'o) message_ops \<Rightarrow> DataSharePredicates \<Rightarrow> 'p \<Rightarrow> 'p option option" where
  "write_predicates M d = MsgWriteParcelable M (\<lambda>p. map_option Some (Pred_Marshalling (base M) d p))"

definition read_predicates :: "('p, 'o) message_ops \<Rightarrow> SettingMode \<Rightarrow> 'p \<Rightarrow> (DataSharePredicates option \<times> 'p) option" where
  "read_predicates M m0 = ReadPredicates M (\<lambda>p. map_option (\<lambda>(d, q). (Some d, q)) (Pred_Unmarshalling (base M) m0 p))"

subsection \<open>Marshalling an operation\<close>

text \<open>A pointer is a mark and, unless it is null, the object.\<close>

definition write_pointer :: "('p, 'o) message_ops \<Rightarrow> ('a \<Rightarrow> 'p \<Rightarrow> 'p option option) \<Rightarrow> 'a option \<Rightarrow> 'p \<Rightarrow> 'p option option" where
  "write_pointer M wr x p =
     (case x of
        Some v \<Rightarrow> write_or (Some (MsgWriteInt32 M VALUE_OBJECT p)) (Some None) (wr v)
      | None \<Rightarrow> Some (MsgWriteInt32 M VALUE_NULL p))"

fun write_refs :: "('p, 'o) message_ops \<Rightarrow> (int \<times> 32 word) list \<Rightarrow> 'p \<Rightarrow> 'p option option" where
  "write_refs M [] p = Some (Some p)"
| "write_refs M ((k, v) # refs) p =
     write_or (Some (MsgWriteInt32 M (word_of_int k) p)) (Some None) (\<lambda>p.
     write_or (Some (MsgWriteInt32 M v p)) (Some None) (write_refs M refs))"

definition Operation_Marshalling :: "('p, 'o) message_ops \<Rightarrow> DataShareOperation \<Rightarrow> 'p \<Rightarrow> 'p option option" where
  "Operation_Marshalling M x out =
     write_or (Some (MsgWriteInt32 M (oper_type x) out)) (Some None) (\<lambda>out.
     write_or (Some (MsgWriteInt32 M (oper_expectedCount x) out)) (Some None) (\<lambda>out.
     write_or (Some (MsgWriteBool M (oper_interrupted x) out)) (Some None) (\<lambda>out.
     write_or (write_pointer M (\<lambda>u p. Some (WriteUri M u p)) (oper_uri x) out) (Some None) (\<lambda>out.
     write_or (write_pointer M (write_bucket M) (oper_valuesBucket x) out) (Some None) (\<lambda>out.
     write_or (write_pointer M (write_predicates M) (oper_predicates x) out) (Some None) (\<lambda>out.
     write_or (write_pointer M (write_bucket M) (oper_valuesBucketReferences x) out) (Some None) (\<lambda>out.
       let referenceSize = length (oper_backReferences x) in
       write_or (Some (MsgWriteInt32 M (of_nat referenceSize) out)) (Some None) (\<lambda>out.
         if sint (of_nat referenceSize :: 32 word) \<ge> REFERENCE_THRESHOLD then Some (Some out)
         else write_refs M (oper_backReferences x) out))))))))"

text \<open>Reading a pointer fails (inner \<open>None\<close>) when its mark cannot be read.\<close>

definition read_pointer :: "('p, 'o) message_ops \<Rightarrow> ('p \<Rightarrow> ('a option \<times> 'p) option) \<Rightarrow> 'p \<Rightarrow> ('a option option \<times> 'p) option" where
  "read_pointer M rd p =
     (case MsgReadInt32 M p of
        (None, p) \<Rightarrow> Some (None, p)
      | (Some mark, p) \<Rightarrow> if mark = VALUE_OBJECT then map_option (\<lambda>(x, p). (Some x, p)) (rd p) else Some (Some None, p))"

definition read_or :: "('a option \<times> 'p) option \<Rightarrow> ('p \<Rightarrow> 'r option) \<Rightarrow> ('a \<Rightarrow> 'p \<Rightarrow> 'r option) \<Rightarrow> 'r option" where
  "read_or x d k = (case x of None \<Rightarrow> None | Some (None, p) \<Rightarrow> d p | Some (Some v, p) \<Rightarrow> k v p)"

lemma read_or_simps [simp]:
  "read_or None d k = None" "read_or (Some (None, p)) d k = d p" "read_or (Some (Some v, p)) d k = k v p"
  by (simp_all add: read_or_def)

fun read_refs :: "('p, 'o) message_ops \<Rightarrow> nat \<Rightarrow> DataShareOperation \<Rightarrow> 'p \<Rightarrow> ((bool \<times> DataShareOperation) \<times> 'p) option" where
  "read_refs M 0 x p = Some ((True, x), p)"
| "read_refs M (Suc n) x p =
     read_or (Some (MsgReadInt32 M p)) (\<lambda>p. Some ((False, x), p)) (\<lambda>first p.
     read_or (Some (MsgReadInt32 M p)) (\<lambda>p. Some ((False, x), p)) (\<lambda>second p.
       read_refs M n (x\<lparr>oper_backReferences := map_insert (sint first) second (oper_backReferences x)\<rparr>) p))"

definition Operation_ReadFromParcel ::
  "('p, 'o) message_ops \<Rightarrow> SettingMode \<Rightarrow> DataShareOperation \<Rightarrow> 'p \<Rightarrow> ((bool \<times> DataShareOperation) \<times> 'p) option" where
  "Operation_ReadFromParcel M m0 x p =
     read_or (Some (MsgReadInt32 M p)) (\<lambda>p. Some ((False, x), p)) (\<lambda>t p.
     let x = x\<lparr>oper_type := t\<rparr> in
     read_or (Some (MsgReadInt32 M p)) (\<lambda>p. Some ((False, x), p)) (\<lambda>n p.
     case MsgReadBool M p of (interrupted, p) \<Rightarrow>
     let x = x\<lparr>oper_expectedCount := n, oper_interrupted := interrupted\<rparr> in
     read_or (read_pointer M (\<lambda>p. Some (ReadUri M p)) p) (\<lambda>p. Some ((False, x), p)) (\<lambda>u p.
     let x = x\<lparr>oper_uri := u\<rparr> in
     read_or (read_pointer M (read_bucket M) p) (\<lambda>p. Some ((False, x), p)) (\<lambda>v p.
     let x = x\<lparr>oper_valuesBucket := v\<rparr> in
     read_or (read_pointer M (read_predicates M m0) p) (\<lambda>p. Some ((False, x), p)) (\<lambda>d p.
     let x = x\<lparr>oper_predicates := d\<rparr> in
     read_or (read_pointer M (read_bucket M) p) (\<lambda>p. Some ((False, x), p)) (\<lambda>r p.
     let x = x\<lparr>oper_valuesBucketReferences := r\<rparr> in
     read_or (Some (MsgReadInt32 M p)) (\<lambda>p. Some ((False, x), p)) (\<lambda>referenceSize p.
       if sint referenceSize \<ge> REFERENCE_THRESHOLD then Some ((True, x), p)
       else read_refs M (nat (sint referenceSize)) x p)))))))"

definition Operation_Unmarshalling :: "('p, 'o) message_ops \<Rightarrow> SettingMode \<Rightarrow> 'p \<Rightarrow> (DataShareOperation option \<times> 'p) option" where
  "Operation_Unmarshalling M m0 p =
     (case Operation_ReadFromParcel M m0 (DataShareOperation_new m0) p of
        None \<Rightarrow> None
      | Some ((good, x), p) \<Rightarrow> Some (if good then Some x else None, p))"

text \<open>An operation that is made from a parcel starts from the initial values of its fields, and is returned also when it could not be read.\<close>

definition Operation_CreateFromParcel :: "('p, 'o) message_ops \<Rightarrow> SettingMode \<Rightarrow> 'p \<Rightarrow> (DataShareOperation \<times> 'p) option" where
  "Operation_CreateFromParcel M m0 p =
     map_option (\<lambda>((_, x), p). (x, p)) (Operation_ReadFromParcel M m0
       \<lparr>oper_type = - 1, oper_uri = None, oper_valuesBucket = None, oper_expectedCount = 0, oper_predicates = None,
        oper_valuesBucketReferences = None, oper_backReferences = [], oper_interrupted = False\<rparr> p)"

definition write_operation :: "('p, 'o) message_ops \<Rightarrow> DataShareOperation \<Rightarrow> 'p \<Rightarrow> 'p option option" where
  "write_operation M x = MsgWriteParcelable M (Operation_Marshalling M x)"

definition read_operation :: "('p, 'o) message_ops \<Rightarrow> SettingMode \<Rightarrow> 'p \<Rightarrow> (DataShareOperation option \<times> 'p) option" where
  "read_operation M m0 = ReadOperation M (Operation_Unmarshalling M m0)"

subsection \<open>Marshalling a result\<close>

definition Result_Marshalling :: "('p, 'o) message_ops \<Rightarrow> DataShareResult \<Rightarrow> 'p \<Rightarrow> 'p option option" where
  "Result_Marshalling M r p =
     write_or
       (if result_uri r = [] then Some (MsgWriteInt32 M RESULT_VALUE_NULL p)
        else write_or (Some (MsgWriteInt32 M VALUE_OBJECT p)) (Some None) (\<lambda>p. Some (WriteUri M (result_uri r) p))) (Some None) (\<lambda>p.
     Some (MsgWriteInt32 M (result_count r) p))"

definition Result_ReadFromParcel :: "('p, 'o) message_ops \<Rightarrow> DataShareResult \<Rightarrow> 'p \<Rightarrow> ((bool \<times> DataShareResult) \<times> 'p) option" where
  "Result_ReadFromParcel M r p =
     read_or (Some (MsgReadInt32 M p)) (\<lambda>p. Some ((False, r), p)) (\<lambda>mark p.
     case (if mark = VALUE_OBJECT then ReadUri M p else (Some (result_uri r), p)) of
       (None, p) \<Rightarrow> Some ((False, r), p)
     | (Some u, p) \<Rightarrow>
         read_or (Some (MsgReadInt32 M p)) (\<lambda>p. Some ((False, r\<lparr>result_uri := u\<rparr>), p)) (\<lambda>n p.
           Some ((True, r\<lparr>result_uri := u, result_count := n\<rparr>), p)))"

definition Result_Unmarshalling :: "('p, 'o) message_ops \<Rightarrow> 'p \<Rightarrow> (DataShareResult option \<times> 'p) option" where
  "Result_Unmarshalling M p =
     (case Result_ReadFromParcel M (DataShareResult_count 0) p of
        None \<Rightarrow> None
      | Some ((good, r), p) \<Rightarrow> Some (if good then Some r else None, p))"

definition write_result :: "('p, 'o) message_ops \<Rightarrow> DataShareResult \<Rightarrow> 'p \<Rightarrow> 'p option option" where
  "write_result M r = MsgWriteParcelable M (Result_Marshalling M r)"

definition read_result :: "('p, 'o) message_ops \<Rightarrow> 'p \<Rightarrow> (DataShareResult option \<times> 'p) option" where
  "read_result M = ReadResult M (Result_Unmarshalling M)"

subsection \<open>What a message promises\<close>

text \<open>
  What is written is read in the same order: a reader finds what a writer has put, in the form \<open>r\<close>, and nothing of what follows.
\<close>

definition coded :: "('p \<Rightarrow> 'i list) \<Rightarrow> ('a \<Rightarrow> bool) \<Rightarrow> ('a \<Rightarrow> 'p \<Rightarrow> 'p option option) \<Rightarrow> ('p \<Rightarrow> ('b \<times> 'p) option) \<Rightarrow> ('a \<Rightarrow> 'b) \<Rightarrow> ('a \<Rightarrow> 'i list) \<Rightarrow> bool" where
  "coded items ok wr rd r enc \<longleftrightarrow> (\<forall>x. ok x \<longrightarrow>
     (\<forall>p. \<exists>q. wr x p = Some (Some q) \<and> items q = items p @ enc x)
     \<and> (\<forall>p rest. items p = enc x @ rest \<longrightarrow> (\<exists>q. rd p = Some (r x, q) \<and> items q = rest)))"

definition carries :: "('p \<Rightarrow> 'i list) \<Rightarrow> ('a \<Rightarrow> bool) \<Rightarrow> ('a \<Rightarrow> 'p \<Rightarrow> 'p option option) \<Rightarrow> ('p \<Rightarrow> ('b \<times> 'p) option) \<Rightarrow> ('a \<Rightarrow> 'b) \<Rightarrow> bool" where
  "carries items ok wr rd r \<longleftrightarrow> (\<exists>enc. coded items ok wr rd r enc)"

lemma carriesE:
  assumes "carries items ok wr rd r"
  obtains enc where "coded items ok wr rd r enc"
  using assms unfolding carries_def by blast

lemma coded_write:
  assumes "coded items ok wr rd r enc" and "ok x"
  obtains q where "wr x p = Some (Some q)" and "items q = items p @ enc x"
  using assms unfolding coded_def by blast

lemma coded_read:
  assumes "coded items ok wr rd r enc" and "ok x" and "items p = enc x @ rest"
  obtains q where "rd p = Some (r x, q)" and "items q = rest"
  using assms unfolding coded_def by blast

lemma carriesI:
  assumes "\<And>x p. ok x \<Longrightarrow> \<exists>q. wr x p = Some (Some q) \<and> items q = items p @ enc x"
    and "\<And>x p rest. ok x \<Longrightarrow> items p = enc x @ rest \<Longrightarrow> \<exists>q. rd p = Some (r x, q) \<and> items q = rest"
  shows "carries items ok wr rd r"
  using assms unfolding carries_def coded_def by blast

definition message_ok :: "('p, 'o) message_ops \<Rightarrow> ('p \<Rightarrow> ds_item list) \<Rightarrow> (32 word \<Rightarrow> 32 word) \<Rightarrow> bool" where
  "message_ok M items dup \<longleftrightarrow>
     parcel_fifo_as DI (ppc (base M)) items \<and> ds_fifo (base M) items \<and> items (new_message M) = []
     \<and> carries items (\<lambda>_. True) (\<lambda>x p. Some (WriteInterfaceToken M x p)) (\<lambda>p. Some (ReadInterfaceToken M p)) (\<lambda>x. x)
     \<and> carries items (\<lambda>_. True) (\<lambda>x p. Some (MsgWriteInt32 M x p)) (\<lambda>p. Some (MsgReadInt32 M p)) Some
     \<and> carries items (\<lambda>_. True) (\<lambda>x p. Some (MsgWriteBool M x p)) (\<lambda>p. Some (MsgReadBool M p)) (\<lambda>x. x)
     \<and> carries items (\<lambda>_. True) (\<lambda>x p. Some (MsgWriteString M x p)) (\<lambda>p. Some (MsgReadString M p)) (\<lambda>x. x)
     \<and> carries items (\<lambda>_. True) (\<lambda>x p. Some (MsgWriteStringVector M x p)) (\<lambda>p. Some (MsgReadStringVector M p)) Some
     \<and> carries items (\<lambda>fd. 0 \<le> sint fd) (\<lambda>x p. Some (WriteFileDescriptor M x p)) (\<lambda>p. Some (ReadFileDescriptor M p)) dup
     \<and> carries items (\<lambda>_. True) (\<lambda>x p. Some (WriteRemoteObject M x p)) (\<lambda>p. Some (ReadRemoteObject M p)) Some
     \<and> carries items (\<lambda>_. True) (\<lambda>x p. Some (WriteUri M x p)) (\<lambda>p. Some (ReadUri M p)) Some
     \<and> (\<forall>p. MsgWriteNull M p = Some (WriteInt32 (ppc (base M)) 0 p))
     \<and> (\<forall>m p. MsgWriteParcelable M m p = m (WriteInt32 (ppc (base M)) 1 p))
     \<and> (\<forall>u p. ReadBucket M u p = (case ReadInt32 (ppc (base M)) p of (n, q) \<Rightarrow> if n = 0 then Some (None, q) else u q))
     \<and> (\<forall>u p. ReadPredicates M u p = (case ReadInt32 (ppc (base M)) p of (n, q) \<Rightarrow> if n = 0 then Some (None, q) else u q))
     \<and> (\<forall>u p. ReadOperation M u p = (case ReadInt32 (ppc (base M)) p of (n, q) \<Rightarrow> if n = 0 then Some (None, q) else u q))
     \<and> (\<forall>u p. ReadResult M u p = (case ReadInt32 (ppc (base M)) p of (n, q) \<Rightarrow> if n = 0 then Some (None, q) else u q))"

lemma message_carries:
  assumes "message_ok M items dup"
  shows "carries items (\<lambda>_. True) (\<lambda>x p. Some (WriteInterfaceToken M x p)) (\<lambda>p. Some (ReadInterfaceToken M p)) (\<lambda>x. x)"
    "carries items (\<lambda>_. True) (\<lambda>x p. Some (MsgWriteInt32 M x p)) (\<lambda>p. Some (MsgReadInt32 M p)) Some"
    "carries items (\<lambda>_. True) (\<lambda>x p. Some (MsgWriteBool M x p)) (\<lambda>p. Some (MsgReadBool M p)) (\<lambda>x. x)"
    "carries items (\<lambda>_. True) (\<lambda>x p. Some (MsgWriteString M x p)) (\<lambda>p. Some (MsgReadString M p)) (\<lambda>x. x)"
    "carries items (\<lambda>_. True) (\<lambda>x p. Some (MsgWriteStringVector M x p)) (\<lambda>p. Some (MsgReadStringVector M p)) Some"
    "carries items (\<lambda>fd. 0 \<le> sint fd) (\<lambda>x p. Some (WriteFileDescriptor M x p)) (\<lambda>p. Some (ReadFileDescriptor M p)) dup"
    "carries items (\<lambda>_. True) (\<lambda>x p. Some (WriteRemoteObject M x p)) (\<lambda>p. Some (ReadRemoteObject M p)) Some"
    "carries items (\<lambda>_. True) (\<lambda>x p. Some (WriteUri M x p)) (\<lambda>p. Some (ReadUri M p)) Some"
  using assms unfolding message_ok_def by blast+

text \<open>A parcelable is a mark and what its marshalling writes.\<close>

lemma parcelable_carries:
  assumes M: "message_ok M items dup" and c: "carries items ok wr rd r"
    and R: "\<And>p. rd' p = (case ReadInt32 (ppc (base M)) p of (n, q) \<Rightarrow> if n = 0 then Some (None, q) else rd q)"
  shows "carries items ok (\<lambda>x. MsgWriteParcelable M (wr x)) rd' r"
proof -
  have F: "ds_fifo (base M) items" and W: "\<And>m p. MsgWriteParcelable M m p = m (WriteInt32 (ppc (base M)) 1 p)"
    using M by (auto simp: message_ok_def)
  obtain enc where e: "coded items ok wr rd r enc" using c by (rule carriesE)
  show ?thesis
  proof (rule carriesI [where enc = "\<lambda>x. DI (I32 1) # enc x"])
    fix x p assume "ok x"
    then obtain q where "wr x (WriteInt32 (ppc (base M)) 1 p) = Some (Some q)" "items q = items (WriteInt32 (ppc (base M)) 1 p) @ enc x"
      by (rule coded_write [OF e])
    then show "\<exists>q. MsgWriteParcelable M (wr x) p = Some (Some q) \<and> items q = items p @ DI (I32 1) # enc x"
      by (simp add: W parcel_ds_writes [OF F])
  next
    fix x p rest assume x: "ok x" and i: "items p = (DI (I32 1) # enc x) @ rest"
    obtain q where q: "ReadInt32 (ppc (base M)) p = (1, q)" "items q = enc x @ rest" using parcel_ds_reads(2) [OF F, of p] i by auto
    obtain q' where "rd q = Some (r x, q')" "items q' = rest" using e x q(2) by (rule coded_read)
    then show "\<exists>q. rd' p = Some (r x, q) \<and> items q = rest" using q(1) by (simp add: R)
  qed
qed

definition arrived_bucket :: "DataShareValuesBucket \<Rightarrow> DataShareValuesBucket" where
  "arrived_bucket b = map (\<lambda>(k, v). (k, strip_null v)) b"

lemma bucket_carries:
  assumes M: "message_ok M items dup"
  shows "carries items bucket_ok (write_bucket M) (read_bucket M) (\<lambda>b. Some (arrived_bucket b))"
proof -
  have F: "parcel_fifo_as DI (ppc (base M)) items" using M by (simp add: message_ok_def)
  have "carries items bucket_ok (\<lambda>b p. map_option Some (DsBucket_Marshalling (ppc (base M)) b p))
      (\<lambda>p. map_option (\<lambda>(b, q). (Some b, q)) (DsBucket_Unmarshalling (ppc (base M)) p)) (\<lambda>b. Some (arrived_bucket b))"
    using bucket_write [OF F] bucket_read [OF F]
    by (intro carriesI [where enc = "\<lambda>b. map DI (I32 (of_nat (length b)) # bucket_items b)"]) (fastforce simp: ds_bucket_calls arrived_bucket_def)+
  moreover have "read_bucket M p = (case ReadInt32 (ppc (base M)) p of (n, q) \<Rightarrow> if n = 0 then Some (None, q)
      else map_option (\<lambda>(b, q). (Some b, q)) (DsBucket_Unmarshalling (ppc (base M)) q))" for p
    using M by (simp add: read_bucket_def message_ok_def)
  ultimately show ?thesis unfolding write_bucket_def [abs_def] by (rule parcelable_carries [OF M])
qed

lemma predicates_carries:
  assumes M: "message_ok M items dup"
  shows "carries items sendable (write_predicates M) (read_predicates M m0) (\<lambda>d. Some (received m0 d))"
proof -
  have F: "ds_fifo (base M) items" using M by (simp add: message_ok_def)
  have "carries items sendable (\<lambda>d p. map_option Some (Pred_Marshalling (base M) d p))
      (\<lambda>p. map_option (\<lambda>(d, q). (Some d, q)) (Pred_Unmarshalling (base M) m0 p)) (\<lambda>d. Some (received m0 d))"
    using pred_write [OF F] pred_read [OF F] by (intro carriesI [where enc = pred_items]) fastforce+
  moreover have "read_predicates M m0 p = (case ReadInt32 (ppc (base M)) p of (n, q) \<Rightarrow> if n = 0 then Some (None, q)
      else map_option (\<lambda>(d, q). (Some d, q)) (Pred_Unmarshalling (base M) m0 q))" for p
    using M by (simp add: read_predicates_def message_ok_def)
  ultimately show ?thesis unfolding write_predicates_def [abs_def] by (rule parcelable_carries [OF M])
qed

text \<open>What is written by one writer after another is read by the readers in that order; a later reader depends on what has been read.\<close>

lemma carries_then:
  assumes 1: "carries items ok wr1 rd1 (\<lambda>x. Some (f x))" and 2: "\<And>v. carries items (\<lambda>x. ok x \<and> f x = v) wr2 (rd2 v) r"
  shows "carries items ok (\<lambda>x p. write_or (wr1 x p) (Some None) (wr2 x)) (\<lambda>p. read_or (rd1 p) fl rd2) r"
proof -
  obtain e1 where e1: "coded items ok wr1 rd1 (\<lambda>x. Some (f x)) e1" using 1 by (rule carriesE)
  obtain e2 where e2: "\<And>v. coded items (\<lambda>x. ok x \<and> f x = v) wr2 (rd2 v) r (e2 v)" using 2 unfolding carries_def by metis
  show ?thesis
  proof (rule carriesI [where enc = "\<lambda>x. e1 x @ e2 (f x) x"])
    fix x p assume x: "ok x"
    obtain q where q: "wr1 x p = Some (Some q)" "items q = items p @ e1 x" using e1 x by (rule coded_write)
    obtain q' where "wr2 x q = Some (Some q')" "items q' = items q @ e2 (f x) x" using e2 [of "f x"] x by (auto elim: coded_write)
    with q show "\<exists>q. write_or (wr1 x p) (Some None) (wr2 x) = Some (Some q) \<and> items q = items p @ e1 x @ e2 (f x) x" by simp
  next
    fix x p rest assume x: "ok x" and i: "items p = (e1 x @ e2 (f x) x) @ rest"
    then have i': "items p = e1 x @ e2 (f x) x @ rest" by simp
    obtain q where q: "rd1 p = Some (Some (f x), q)" "items q = e2 (f x) x @ rest" using e1 x i' by (rule coded_read)
    obtain q' where "rd2 (f x) q = Some (r x, q')" "items q' = rest" using coded_read [OF e2 [of "f x"] _ q(2)] x by auto
    with q(1) show "\<exists>q. read_or (rd1 p) fl rd2 = Some (r x, q) \<and> items q = rest" by simp
  qed
qed

lemma carries_arg:
  assumes c: "carries items ok' wr rd r" and g: "\<And>x. ok x \<Longrightarrow> ok' (g x)"
  shows "carries items ok (\<lambda>x. wr (g x)) rd (\<lambda>x. r (g x))"
proof -
  obtain enc where "coded items ok' wr rd r enc" using c by (rule carriesE)
  then have "coded items ok (\<lambda>x. wr (g x)) rd (\<lambda>x. r (g x)) (\<lambda>x. enc (g x))" using g by (simp add: coded_def)
  then show ?thesis unfolding carries_def by blast
qed

lemma carries_done: "(\<And>x. ok x \<Longrightarrow> r x = c) \<Longrightarrow> carries items ok (\<lambda>x p. Some (Some p)) (\<lambda>p. Some (c, p)) r"
  by (rule carriesI [where enc = "\<lambda>x. []"]) auto

lemma carries_result: "carries items ok wr rd r \<Longrightarrow> (\<And>x. ok x \<Longrightarrow> r x = r' x) \<Longrightarrow> carries items ok wr rd r'"
  unfolding carries_def coded_def by simp

lemma carries_map:
  assumes c: "carries items ok wr rd r"
  shows "carries items ok wr (\<lambda>p. map_option (\<lambda>(v, q). (g v, q)) (rd p)) (\<lambda>x. g (r x))"
proof -
  obtain enc where "coded items ok wr rd r enc" using c by (rule carriesE)
  then have "coded items ok wr (\<lambda>p. map_option (\<lambda>(v, q). (g v, q)) (rd p)) (\<lambda>x. g (r x)) enc" unfolding coded_def by fastforce
  then show ?thesis unfolding carries_def by blast
qed

lemma pointer_carries:
  assumes M: "message_ok M items dup" and c: "carries items ok wr rd (\<lambda>x. Some (r x))"
  shows "carries items (pred_option ok) (write_pointer M wr) (read_pointer M rd) (\<lambda>x. Some (map_option r x))"
proof -
  obtain ei where ei: "coded items (\<lambda>_. True) (\<lambda>x p. Some (MsgWriteInt32 M x p)) (\<lambda>p. Some (MsgReadInt32 M p)) Some ei"
    using message_carries(2) [OF M] by (rule carriesE)
  obtain enc where e: "coded items ok wr rd (\<lambda>x. Some (r x)) enc" using c by (rule carriesE)
  show ?thesis
  proof (rule carriesI [where enc = "\<lambda>x. case x of None \<Rightarrow> ei VALUE_NULL | Some v \<Rightarrow> ei VALUE_OBJECT @ enc v"])
    fix x p assume x: "pred_option ok x"
    show "\<exists>q. write_pointer M wr x p = Some (Some q) \<and> items q = items p @ (case x of None \<Rightarrow> ei VALUE_NULL | Some v \<Rightarrow> ei VALUE_OBJECT @ enc v)"
    proof (cases x)
      case None
      then show ?thesis using coded_write [OF ei, where x = VALUE_NULL and p = p] by (auto simp: write_pointer_def)
    next
      case (Some v)
      obtain q where q: "MsgWriteInt32 M VALUE_OBJECT p = Some q" "items q = items p @ ei VALUE_OBJECT"
        using coded_write [OF ei, where x = VALUE_OBJECT and p = p] by auto
      have "ok v" using x Some by simp
      then obtain q' where "wr v q = Some (Some q')" "items q' = items q @ enc v" by (rule coded_write [OF e])
      with q Some show ?thesis by (simp add: write_pointer_def)
    qed
  next
    fix x p rest assume x: "pred_option ok x" and i: "items p = (case x of None \<Rightarrow> ei VALUE_NULL | Some v \<Rightarrow> ei VALUE_OBJECT @ enc v) @ rest"
    show "\<exists>q. read_pointer M rd p = Some (Some (map_option r x), q) \<and> items q = rest"
    proof (cases x)
      case None
      obtain q where "MsgReadInt32 M p = (Some VALUE_NULL, q)" "items q = rest"
        using coded_read [OF ei, where x = VALUE_NULL and p = p and rest = rest] i None by auto
      then show ?thesis using None by (simp add: read_pointer_def VALUE_NULL_def VALUE_OBJECT_def)
    next
      case (Some v)
      obtain q where q: "MsgReadInt32 M p = (Some VALUE_OBJECT, q)" "items q = enc v @ rest"
        using coded_read [OF ei, where x = VALUE_OBJECT and p = p and rest = "enc v @ rest"] i Some by auto
      have "ok v" using x Some by simp
      then obtain q' where "rd q = Some (Some (r v), q')" "items q' = rest" using q(2) by (rule coded_read [OF e])
      with q Some show ?thesis by (simp add: read_pointer_def)
    qed
  qed
qed

lemma carries_cong: "(\<And>x. ok x \<Longrightarrow> wr x = wr' x) \<Longrightarrow> carries items ok wr' rd r \<Longrightarrow> carries items ok wr rd r"
  unfolding carries_def coded_def by simp

definition refs_ok :: "(int \<times> 32 word) list \<Rightarrow> bool" where
  "refs_ok refs \<longleftrightarrow> map_wf refs \<and> (\<forall>(k, v) \<in> set refs. - (2 ^ 31) \<le> k \<and> k < 2 ^ 31)"

lemma refs_carries:
  assumes M: "message_ok M items dup"
  shows "carries items (\<lambda>refs. length refs = n \<and> refs_ok (oper_backReferences x @ refs))
    (write_refs M) (read_refs M n x) (\<lambda>refs. (True, x\<lparr>oper_backReferences := oper_backReferences x @ refs\<rparr>))"
proof (induction n arbitrary: x)
  case 0
  show ?case by (rule carriesI [where enc = "\<lambda>_. []"]) auto
next
  case (Suc n)
  let ?ok = "\<lambda>refs. length refs = Suc n \<and> refs_ok (oper_backReferences x @ refs)"
  let ?x = "\<lambda>v w. x\<lparr>oper_backReferences := map_insert (sint v) w (oper_backReferences x)\<rparr>"
  note i = message_carries(2) [OF M]
  have eq: "write_refs M refs = (\<lambda>p. write_or (Some (MsgWriteInt32 M (word_of_int (fst (hd refs))) p)) (Some None) (\<lambda>p.
      write_or (Some (MsgWriteInt32 M (snd (hd refs)) p)) (Some None) (write_refs M (tl refs))))" if "?ok refs" for refs
    using that by (cases refs) auto
  have step: "length (tl refs) = n \<and> refs_ok (oper_backReferences (?x v w) @ tl refs)
      \<and> oper_backReferences (?x v w) @ tl refs = oper_backReferences x @ refs"
    if h: "(?ok refs \<and> word_of_int (fst (hd refs)) = v) \<and> snd (hd refs) = w" for refs and v :: "32 word" and w
  proof -
    obtain k t where refs: "refs = (k, w) # t" using h by (cases refs) auto
    have k: "sint v = k" using h refs by (auto simp: refs_ok_def signed_of_int signed_take_bit_int_eq_self)
    have "map_insert k w (oper_backReferences x) = oper_backReferences x @ [(k, w)]"
      using h refs by (intro map_insert_last) (auto simp: refs_ok_def map_wf_def sorted_wrt_append)
    then show ?thesis using h refs k by simp
  qed
  have last: "carries items (\<lambda>refs. (?ok refs \<and> word_of_int (fst (hd refs)) = v) \<and> snd (hd refs) = w) (\<lambda>refs. write_refs M (tl refs))
      (read_refs M n (?x v w)) (\<lambda>refs. (True, x\<lparr>oper_backReferences := oper_backReferences x @ refs\<rparr>))" for v :: "32 word" and w
    by (rule carries_result [OF carries_arg [OF Suc.IH [of "?x v w"], where g = tl]]) (use step [of _ v w] in simp_all)
  show ?case unfolding read_refs.simps
    by (rule carries_cong [OF eq], assumption, rule carries_then [OF carries_arg [OF i] carries_then [OF carries_arg [OF i] last]]) simp_all
qed

lemma carries_then_bool:
  assumes 1: "carries items ok wr1 (\<lambda>p. Some (rd1 p)) f" and 2: "\<And>v. carries items (\<lambda>x. ok x \<and> f x = v) wr2 (rd2 v) r"
  shows "carries items ok (\<lambda>x p. write_or (wr1 x p) (Some None) (wr2 x)) (\<lambda>p. case rd1 p of (v, p) \<Rightarrow> rd2 v p) r"
proof -
  have "carries items ok (\<lambda>x p. write_or (wr1 x p) (Some None) (wr2 x))
      (\<lambda>p. read_or (map_option (\<lambda>(v, q). (Some v, q)) (Some (rd1 p))) (\<lambda>_. None) rd2) r"
    by (rule carries_then [OF carries_map [OF 1] 2])
  then show ?thesis by (simp add: case_prod_unfold)
qed


definition op_ok :: "DataShareOperation \<Rightarrow> bool" where
  "op_ok x \<longleftrightarrow> pred_option bucket_ok (oper_valuesBucket x) \<and> pred_option sendable (oper_predicates x)
     \<and> pred_option bucket_ok (oper_valuesBucketReferences x) \<and> refs_ok (oper_backReferences x) \<and> length (oper_backReferences x) < 2 ^ 31"

text \<open>What the other side has: too many back references are not sent, and none of them arrives.\<close>

definition arrived_operation :: "SettingMode \<Rightarrow> DataShareOperation \<Rightarrow> DataShareOperation" where
  "arrived_operation m0 x =
     x\<lparr>oper_valuesBucket := map_option arrived_bucket (oper_valuesBucket x), oper_predicates := map_option (received m0) (oper_predicates x),
       oper_valuesBucketReferences := map_option arrived_bucket (oper_valuesBucketReferences x),
       oper_backReferences := (if int (length (oper_backReferences x)) \<ge> REFERENCE_THRESHOLD then [] else oper_backReferences x)\<rparr>"

lemma sint_of_nat_small: "n < 2 ^ 31 \<Longrightarrow> sint (of_nat n :: 32 word) = int n"
  by (simp add: signed_of_nat signed_take_bit_eq_if_positive take_bit_nat_eq_self signed_take_bit_int_eq_self flip: of_nat_power)

lemma back_references_carries:
  assumes M: "message_ok M items dup" and y: "oper_backReferences y = []"
    and ok: "\<And>x. ok x \<Longrightarrow> op_ok x \<and> of_nat (length (oper_backReferences x)) = (n :: 32 word)"
    and r: "\<And>x. ok x \<Longrightarrow> r x = (True, y\<lparr>oper_backReferences := (if int (length (oper_backReferences x)) \<ge> REFERENCE_THRESHOLD then [] else oper_backReferences x)\<rparr>)"
  shows "carries items ok
     (\<lambda>x p. if sint (of_nat (length (oper_backReferences x)) :: 32 word) \<ge> REFERENCE_THRESHOLD then Some (Some p) else write_refs M (oper_backReferences x) p)
     (\<lambda>p. if sint n \<ge> REFERENCE_THRESHOLD then Some ((True, y), p) else read_refs M (nat (sint n)) y p) r"
proof -
  have len: "sint n = int (length (oper_backReferences x))" if "ok x" for x
    using ok [OF that] sint_of_nat_small [of "length (oper_backReferences x)"] by (auto simp: op_ok_def)
  have sn: "sint (of_nat (length (oper_backReferences x)) :: 32 word) = sint n" if "ok x" for x using ok [OF that] by simp
  show ?thesis
  proof (cases "sint n \<ge> REFERENCE_THRESHOLD")
    case True
    then have "r x = (True, y)" if "ok x" for x using r [OF that] len [OF that] y by simp
    then have "carries items ok (\<lambda>x p. Some (Some p)) (\<lambda>p. Some ((True, y), p)) r" by (rule carries_done)
    then show ?thesis using True by (auto intro!: carries_cong [where wr' = "\<lambda>x p. Some (Some p)"] simp: sn)
  next
    case False
    have "carries items ok (\<lambda>x. write_refs M (oper_backReferences x)) (read_refs M (nat (sint n)) y) r"
      by (rule carries_result [OF carries_arg [OF refs_carries [OF M, of "nat (sint n)" y], where g = oper_backReferences]])
        (use False len r ok y in \<open>auto simp: op_ok_def\<close>)
    then show ?thesis using False by (auto intro!: carries_cong [where wr' = "\<lambda>x. write_refs M (oper_backReferences x)"] simp: sn)
  qed
qed

lemma operation_read_carries:
  assumes M: "message_ok M items dup"
  shows "carries items op_ok (Operation_Marshalling M) (Operation_ReadFromParcel M m0 (DataShareOperation_new m0)) (\<lambda>x. (True, arrived_operation m0 x))"
proof -
  note i = message_carries(2) [OF M]
  note uri = pointer_carries [OF M message_carries(8) [OF M]] and bucket = pointer_carries [OF M bucket_carries [OF M]]
    and predicates = pointer_carries [OF M predicates_carries [OF M, of m0]]
  have arrived: "arrived_operation m0 x = \<lparr>oper_type = oper_type x, oper_uri = map_option (\<lambda>u. u) (oper_uri x),
      oper_valuesBucket = map_option arrived_bucket (oper_valuesBucket x), oper_expectedCount = oper_expectedCount x,
      oper_predicates = map_option (received m0) (oper_predicates x),
      oper_valuesBucketReferences = map_option arrived_bucket (oper_valuesBucketReferences x),
      oper_backReferences = (if int (length (oper_backReferences x)) \<ge> REFERENCE_THRESHOLD then [] else oper_backReferences x),
      oper_interrupted = oper_interrupted x\<rparr>" for x
    by (rule DataShareOperation.equality) (simp_all add: arrived_operation_def option.map_ident)
  show ?thesis unfolding Operation_Marshalling_def [abs_def] Operation_ReadFromParcel_def [abs_def] Let_def
    apply (rule carries_then [OF carries_arg [OF i]], simp)
    apply (rule carries_then [OF carries_arg [OF i]], simp)
    apply (rule carries_then_bool [OF carries_arg [OF message_carries(3) [OF M]]], simp)
    apply (rule carries_then [OF carries_arg [OF uri]], simp add: pred_option_def)
    apply (rule carries_then [OF carries_arg [OF bucket]], simp add: op_ok_def)
    apply (rule carries_then [OF carries_arg [OF predicates]], simp add: op_ok_def)
    apply (rule carries_then [OF carries_arg [OF bucket]], simp add: op_ok_def)
    apply (rule carries_then [OF carries_arg [OF i]], simp)
    apply (rule back_references_carries [OF M])
    apply (auto simp: DataShareOperation_new_def arrived)
    done
qed


lemma mark_reads:
  assumes M: "message_ok M items dup"
  shows "ReadOperation M u p = (case ReadInt32 (ppc (base M)) p of (n, q) \<Rightarrow> if n = 0 then Some (None, q) else u q)"
    and "ReadResult M u' p = (case ReadInt32 (ppc (base M)) p of (n, q) \<Rightarrow> if n = 0 then Some (None, q) else u' q)"
  using M unfolding message_ok_def by metis+

lemma operation_carries:
  assumes M: "message_ok M items dup"
  shows "carries items op_ok (write_operation M) (read_operation M m0) (\<lambda>x. Some (arrived_operation m0 x))"
proof -
  have "carries items op_ok (Operation_Marshalling M) (Operation_Unmarshalling M m0) (\<lambda>x. Some (arrived_operation m0 x))"
  proof -
    have "Operation_Unmarshalling M m0 = (\<lambda>p. map_option (\<lambda>(v, q). ((\<lambda>(good, x). if good then Some x else None) v, q))
        (Operation_ReadFromParcel M m0 (DataShareOperation_new m0) p))"
      by (auto simp: fun_eq_iff Operation_Unmarshalling_def split: option.split)
    then show ?thesis
      using carries_map [OF operation_read_carries [OF M, of m0], of "\<lambda>(good, x). if good then Some x else None"] by simp
  qed
  from parcelable_carries [OF M this, of "read_operation M m0"] show ?thesis
    by (simp add: write_operation_def [abs_def] read_operation_def mark_reads [OF M])
qed

lemma result_carries:
  assumes M: "message_ok M items dup"
  shows "carries items (\<lambda>_. True) (write_result M) (read_result M) Some"
proof -
  let ?d = "DataShareResult_count 0"
  obtain ei where ei: "coded items (\<lambda>_. True) (\<lambda>x p. Some (MsgWriteInt32 M x p)) (\<lambda>p. Some (MsgReadInt32 M p)) Some ei"
    using message_carries(2) [OF M] by (rule carriesE)
  obtain eu where eu: "coded items (\<lambda>_. True) (\<lambda>x p. Some (WriteUri M x p)) (\<lambda>p. Some (ReadUri M p)) Some eu"
    using message_carries(8) [OF M] by (rule carriesE)
  let ?mark = "\<lambda>r. if result_uri r = [] then ei RESULT_VALUE_NULL else ei VALUE_OBJECT @ eu (result_uri r)"
  have "carries items (\<lambda>_. True) (Result_Marshalling M) (Result_Unmarshalling M) Some"
  proof (rule carriesI [where enc = "\<lambda>r. ?mark r @ ei (result_count r)"])
    fix r :: DataShareResult and p
    obtain p1 where 1: "MsgWriteInt32 M RESULT_VALUE_NULL p = Some p1" "items p1 = items p @ ei RESULT_VALUE_NULL"
      using coded_write [OF ei, where x = RESULT_VALUE_NULL and p = p] by auto
    obtain p2 where 2: "MsgWriteInt32 M VALUE_OBJECT p = Some p2" "items p2 = items p @ ei VALUE_OBJECT"
      using coded_write [OF ei, where x = VALUE_OBJECT and p = p] by auto
    obtain p3 where 3: "WriteUri M (result_uri r) p2 = Some p3" "items p3 = items p2 @ eu (result_uri r)"
      using coded_write [OF eu, where x = "result_uri r" and p = p2] by auto
    obtain p4 where 4: "MsgWriteInt32 M (result_count r) p1 = Some p4" "items p4 = items p1 @ ei (result_count r)"
      using coded_write [OF ei, where x = "result_count r" and p = p1] by auto
    obtain p5 where 5: "MsgWriteInt32 M (result_count r) p3 = Some p5" "items p5 = items p3 @ ei (result_count r)"
      using coded_write [OF ei, where x = "result_count r" and p = p3] by auto
    show "\<exists>q. Result_Marshalling M r p = Some (Some q) \<and> items q = items p @ ?mark r @ ei (result_count r)"
      using 1 2 3 4 5 by (simp add: Result_Marshalling_def)
  next
    fix r :: DataShareResult and p rest assume i: "items p = (?mark r @ ei (result_count r)) @ rest"
    show "\<exists>q. Result_Unmarshalling M p = Some (Some r, q) \<and> items q = rest"
    proof (cases "result_uri r = []")
      case True
      obtain p1 where 1: "MsgReadInt32 M p = (Some RESULT_VALUE_NULL, p1)" "items p1 = ei (result_count r) @ rest"
        using coded_read [OF ei, where x = RESULT_VALUE_NULL and p = p and rest = "ei (result_count r) @ rest"] i True by auto
      obtain p2 where 2: "MsgReadInt32 M p1 = (Some (result_count r), p2)" "items p2 = rest"
        using coded_read [OF ei, where x = "result_count r" and p = p1 and rest = rest] 1 by auto
      show ?thesis using 1 2 True
        by (simp add: Result_Unmarshalling_def Result_ReadFromParcel_def RESULT_VALUE_NULL_def VALUE_OBJECT_def DataShareResult_count_def)
    next
      case False
      obtain p1 where 1: "MsgReadInt32 M p = (Some VALUE_OBJECT, p1)" "items p1 = eu (result_uri r) @ ei (result_count r) @ rest"
        using coded_read [OF ei, where x = VALUE_OBJECT and p = p and rest = "eu (result_uri r) @ ei (result_count r) @ rest"] i False by auto
      obtain p2 where 2: "ReadUri M p1 = (Some (result_uri r), p2)" "items p2 = ei (result_count r) @ rest"
        using coded_read [OF eu, where x = "result_uri r" and p = p1 and rest = "ei (result_count r) @ rest"] 1 by auto
      obtain p3 where 3: "MsgReadInt32 M p2 = (Some (result_count r), p3)" "items p3 = rest"
        using coded_read [OF ei, where x = "result_count r" and p = p2 and rest = rest] 2 by auto
      show ?thesis using 1 2 3 False by (simp add: Result_Unmarshalling_def Result_ReadFromParcel_def DataShareResult_count_def)
    qed
  qed
  from parcelable_carries [OF M this, of "read_result M"] show ?thesis
    by (simp add: write_result_def [abs_def] read_result_def mark_reads [OF M])
qed

text \<open>A vector is its elements, one after the other; its length is sent before it.\<close>

fun write_list :: "('a \<Rightarrow> 'p \<Rightarrow> 'p option option) \<Rightarrow> 'a list \<Rightarrow> 'p \<Rightarrow> 'p option option" where
  "write_list wr [] p = Some (Some p)"
| "write_list wr (x # xs) p = write_or (wr x p) (Some None) (write_list wr xs)"

fun read_list :: "('p \<Rightarrow> ('a option \<times> 'p) option) \<Rightarrow> nat \<Rightarrow> 'p \<Rightarrow> ((bool \<times> 'a list) \<times> 'p) option" where
  "read_list rd 0 p = Some ((True, []), p)"
| "read_list rd (Suc n) p =
     read_or (rd p) (\<lambda>p. Some ((False, []), p)) (\<lambda>x p.
       map_option (\<lambda>((good, xs), p). ((good, x # xs), p)) (read_list rd n p))"

lemma list_carries:
  assumes c: "carries items ok wr rd (\<lambda>x. Some (r x))"
  shows "carries items (\<lambda>xs. length xs = n \<and> list_all ok xs) (write_list wr) (read_list rd n) (\<lambda>xs. (True, map r xs))"
proof (induction n)
  case 0
  show ?case by (rule carriesI [where enc = "\<lambda>_. []"]) auto
next
  case (Suc n)
  let ?ok = "\<lambda>xs. length xs = Suc n \<and> list_all ok xs"
  have eq: "write_list wr xs = (\<lambda>p. write_or (wr (hd xs) p) (Some None) (write_list wr (tl xs)))" if "?ok xs" for xs
    using that by (cases xs) auto
  have last: "carries items (\<lambda>xs. ?ok xs \<and> r (hd xs) = v) (\<lambda>xs. write_list wr (tl xs))
      (\<lambda>p. map_option (\<lambda>((good, xs), p). ((good, v # xs), p)) (read_list rd n p)) (\<lambda>xs. (True, map r xs))" for v
  proof (rule carries_result)
    have "carries items (\<lambda>xs. ?ok xs \<and> r (hd xs) = v) (\<lambda>xs. write_list wr (tl xs)) (read_list rd n) (\<lambda>xs. (True, map r (tl xs)))"
      by (rule carries_arg [OF Suc.IH]) (auto simp: length_Suc_conv)
    from carries_map [OF this, of "\<lambda>(good, xs). (good, v # xs)"]
    show "carries items (\<lambda>xs. ?ok xs \<and> r (hd xs) = v) (\<lambda>xs. write_list wr (tl xs))
      (\<lambda>p. map_option (\<lambda>((good, xs), p). ((good, v # xs), p)) (read_list rd n p)) (\<lambda>xs. (True, v # map r (tl xs)))"
      by (simp add: split_beta')
  qed (auto simp: length_Suc_conv)
  show ?case unfolding read_list.simps
    by (rule carries_cong [OF eq], assumption, rule carries_then [OF carries_arg [OF c] last]) (auto simp: length_Suc_conv)
qed

end
