(* ===== verification/Data_Share_Remote.thy ===== *)
theory Data_Share_Remote
  imports Data_Share_Operation
begin

text \<open>
  The interface \<open>IDataShare\<close> between a consumer and a provider of shared data: the proxy of the consumer (datashare_proxy.cpp) writes
  a call into a message, the stub of the provider (datashare_stub.cpp) reads it, calls the extension through the queue
  of its event loop (datashare_stub_impl.cpp, datashare_uv_queue.cpp) and writes the answer into the reply.  A call that
  the code leaves undefined is \<open>None\<close>.  Messages, their transport, the event loop and the extension itself (JavaScript) are
  parameters.
\<close>

subsection \<open>The interface\<close>

type_synonym ('x, 's) call = "'s \<Rightarrow> ('x \<times> 's) option"

record ('s, 'o, 'r) IDataShare =
  ids_GetFileTypes :: "string \<Rightarrow> string \<Rightarrow> (string list, 's) call"
  ids_OpenFile :: "string \<Rightarrow> string \<Rightarrow> (32 word, 's) call"
  ids_OpenRawFile :: "string \<Rightarrow> string \<Rightarrow> (32 word, 's) call"
  ids_Insert :: "string \<Rightarrow> DataShareValuesBucket \<Rightarrow> (32 word, 's) call"
  ids_Update :: "string \<Rightarrow> DataSharePredicates \<Rightarrow> DataShareValuesBucket \<Rightarrow> (32 word, 's) call"
  ids_Delete :: "string \<Rightarrow> DataSharePredicates \<Rightarrow> (32 word, 's) call"
  ids_Query :: "string \<Rightarrow> DataSharePredicates \<Rightarrow> string list \<Rightarrow> ('r option, 's) call"
  ids_GetType :: "string \<Rightarrow> (string, 's) call"
  ids_BatchInsert :: "string \<Rightarrow> DataShareValuesBucket list \<Rightarrow> (32 word, 's) call"
  ids_RegisterObserver :: "string \<Rightarrow> 'o \<Rightarrow> (bool, 's) call"
  ids_UnregisterObserver :: "string \<Rightarrow> 'o \<Rightarrow> (bool, 's) call"
  ids_NotifyChange :: "string \<Rightarrow> (bool, 's) call"
  ids_NormalizeUri :: "string \<Rightarrow> (string, 's) call"
  ids_DenormalizeUri :: "string \<Rightarrow> (string, 's) call"
  ids_ExecuteBatch :: "DataShareOperation option list \<Rightarrow> (DataShareResult option list, 's) call"

definition CMD_GET_FILE_TYPES :: "32 word" where
  "CMD_GET_FILE_TYPES = 1"

definition CMD_OPEN_FILE :: "32 word" where
  "CMD_OPEN_FILE = 2"

definition CMD_OPEN_RAW_FILE :: "32 word" where
  "CMD_OPEN_RAW_FILE = 3"

definition CMD_INSERT :: "32 word" where
  "CMD_INSERT = 4"

definition CMD_UPDATE :: "32 word" where
  "CMD_UPDATE = 5"

definition CMD_DELETE :: "32 word" where
  "CMD_DELETE = 6"

definition CMD_QUERY :: "32 word" where
  "CMD_QUERY = 7"

definition CMD_GET_TYPE :: "32 word" where
  "CMD_GET_TYPE = 8"

definition CMD_BATCH_INSERT :: "32 word" where
  "CMD_BATCH_INSERT = 9"

definition CMD_REGISTER_OBSERVER :: "32 word" where
  "CMD_REGISTER_OBSERVER = 10"

definition CMD_UNREGISTER_OBSERVER :: "32 word" where
  "CMD_UNREGISTER_OBSERVER = 11"

definition CMD_NOTIFY_CHANGE :: "32 word" where
  "CMD_NOTIFY_CHANGE = 12"

definition CMD_NORMALIZE_URI :: "32 word" where
  "CMD_NORMALIZE_URI = 13"

definition CMD_DENORMALIZE_URI :: "32 word" where
  "CMD_DENORMALIZE_URI = 14"

definition CMD_EXECUTE_BATCH :: "32 word" where
  "CMD_EXECUTE_BATCH = 15"

definition IDATASHARE_DESCRIPTOR :: string where
  "IDATASHARE_DESCRIPTOR = ''OHOS.DataShare.IDataShare''"

text \<open>The codes of the IPC library; only \<open>NO_ERROR\<close> is told from the others.\<close>

datatype ipc_err = NO_ERROR | ERR_INVALID_VALUE | ERR_INVALID_STATE | IPC_ERROR "32 word"

subsection \<open>The provider's implementation\<close>

text \<open>
  What becomes of a task that is put into the queue: it is not queued, it is run within the three seconds that \<open>SyncCall\<close> waits,
  or it is late.  A late task is cancelled through the address of a local variable and, when it runs after all, writes
  into variables of a function that has returned; it is undefined.
\<close>

datatype uv_outcome = UV_NOT_QUEUED | UV_DONE | UV_LATE

definition SyncCall :: "uv_outcome \<Rightarrow> ('x, 's) call \<Rightarrow> 'x \<Rightarrow> ('x, 's) call" where
  "SyncCall outcome func ret s = (case outcome of UV_NOT_QUEUED \<Rightarrow> Some (ret, s) | UV_DONE \<Rightarrow> func s | UV_LATE \<Rightarrow> None)"

text \<open>\<open>Q\<close> gives the outcome, \<open>E\<close> is the extension, which may be gone.\<close>

definition on_extension :: "('s \<Rightarrow> uv_outcome) \<Rightarrow> ('s, 'o, 'b) IDataShare option \<Rightarrow> (('s, 'o, 'b) IDataShare \<Rightarrow> ('x, 's) call) \<Rightarrow> 'x \<Rightarrow> ('x, 's) call" where
  "on_extension Q E f ret s = SyncCall (Q s) (\<lambda>s. case E of None \<Rightarrow> Some (ret, s) | Some e \<Rightarrow> f e s) ret s"

definition Impl_GetFileTypes :: "('s \<Rightarrow> uv_outcome) \<Rightarrow> ('s, 'o, 'b) IDataShare option \<Rightarrow> string \<Rightarrow> string \<Rightarrow> (string list, 's) call" where
  "Impl_GetFileTypes Q E uri mimeTypeFilter = on_extension Q E (\<lambda>e. ids_GetFileTypes e uri mimeTypeFilter) []"

definition Impl_OpenFile :: "('s \<Rightarrow> uv_outcome) \<Rightarrow> ('s, 'o, 'b) IDataShare option \<Rightarrow> string \<Rightarrow> string \<Rightarrow> (32 word, 's) call" where
  "Impl_OpenFile Q E uri mode = on_extension Q E (\<lambda>e. ids_OpenFile e uri mode) (- 1)"

definition Impl_OpenRawFile :: "('s \<Rightarrow> uv_outcome) \<Rightarrow> ('s, 'o, 'b) IDataShare option \<Rightarrow> string \<Rightarrow> string \<Rightarrow> (32 word, 's) call" where
  "Impl_OpenRawFile Q E uri mode = on_extension Q E (\<lambda>e. ids_OpenRawFile e uri mode) (- 1)"

definition Impl_Insert :: "('s \<Rightarrow> uv_outcome) \<Rightarrow> ('s, 'o, 'b) IDataShare option \<Rightarrow> string \<Rightarrow> DataShareValuesBucket \<Rightarrow> (32 word, 's) call" where
  "Impl_Insert Q E uri bucket = on_extension Q E (\<lambda>e. ids_Insert e uri bucket) 0"

definition Impl_Update :: "('s \<Rightarrow> uv_outcome) \<Rightarrow> ('s, 'o, 'b) IDataShare option \<Rightarrow> string \<Rightarrow> DataSharePredicates \<Rightarrow> DataShareValuesBucket \<Rightarrow> (32 word, 's) call" where
  "Impl_Update Q E uri predicates bucket = on_extension Q E (\<lambda>e. ids_Update e uri predicates bucket) 0"

definition Impl_Delete :: "('s \<Rightarrow> uv_outcome) \<Rightarrow> ('s, 'o, 'b) IDataShare option \<Rightarrow> string \<Rightarrow> DataSharePredicates \<Rightarrow> (32 word, 's) call" where
  "Impl_Delete Q E uri predicates = on_extension Q E (\<lambda>e. ids_Delete e uri predicates) 0"

definition Impl_GetType :: "('s \<Rightarrow> uv_outcome) \<Rightarrow> ('s, 'o, 'b) IDataShare option \<Rightarrow> string \<Rightarrow> (string, 's) call" where
  "Impl_GetType Q E uri = on_extension Q E (\<lambda>e. ids_GetType e uri) []"

definition Impl_BatchInsert :: "('s \<Rightarrow> uv_outcome) \<Rightarrow> ('s, 'o, 'b) IDataShare option \<Rightarrow> string \<Rightarrow> DataShareValuesBucket list \<Rightarrow> (32 word, 's) call" where
  "Impl_BatchInsert Q E uri buckets = on_extension Q E (\<lambda>e. ids_BatchInsert e uri buckets) 0"

definition Impl_RegisterObserver :: "('s \<Rightarrow> uv_outcome) \<Rightarrow> ('s, 'o, 'b) IDataShare option \<Rightarrow> string \<Rightarrow> 'o \<Rightarrow> (bool, 's) call" where
  "Impl_RegisterObserver Q E uri observer = on_extension Q E (\<lambda>e. ids_RegisterObserver e uri observer) False"

definition Impl_UnregisterObserver :: "('s \<Rightarrow> uv_outcome) \<Rightarrow> ('s, 'o, 'b) IDataShare option \<Rightarrow> string \<Rightarrow> 'o \<Rightarrow> (bool, 's) call" where
  "Impl_UnregisterObserver Q E uri observer = on_extension Q E (\<lambda>e. ids_UnregisterObserver e uri observer) False"

definition Impl_NotifyChange :: "('s \<Rightarrow> uv_outcome) \<Rightarrow> ('s, 'o, 'b) IDataShare option \<Rightarrow> string \<Rightarrow> (bool, 's) call" where
  "Impl_NotifyChange Q E uri = on_extension Q E (\<lambda>e. ids_NotifyChange e uri) False"

definition Impl_NormalizeUri :: "('s \<Rightarrow> uv_outcome) \<Rightarrow> ('s, 'o, 'b) IDataShare option \<Rightarrow> string \<Rightarrow> (string, 's) call" where
  "Impl_NormalizeUri Q E uri = on_extension Q E (\<lambda>e. ids_NormalizeUri e uri) []"

definition Impl_DenormalizeUri :: "('s \<Rightarrow> uv_outcome) \<Rightarrow> ('s, 'o, 'b) IDataShare option \<Rightarrow> string \<Rightarrow> (string, 's) call" where
  "Impl_DenormalizeUri Q E uri = on_extension Q E (\<lambda>e. ids_DenormalizeUri e uri) []"

definition Impl_ExecuteBatch :: "('s \<Rightarrow> uv_outcome) \<Rightarrow> ('s, 'o, 'b) IDataShare option \<Rightarrow> DataShareOperation option list \<Rightarrow> (DataShareResult option list, 's) call" where
  "Impl_ExecuteBatch Q E operations = on_extension Q E (\<lambda>e. ids_ExecuteBatch e operations) []"

text \<open>The result set of a query is made from the bridge that the extension gives, or from a null pointer; \<open>mk\<close> is its constructor.\<close>

definition Impl_Query :: "('b option \<Rightarrow> 's \<Rightarrow> 'r \<times> 's) \<Rightarrow> ('s \<Rightarrow> uv_outcome) \<Rightarrow> ('s, 'o, 'b) IDataShare option \<Rightarrow> string \<Rightarrow> DataSharePredicates \<Rightarrow> string list \<Rightarrow> ('r option, 's) call" where
  "Impl_Query mk Q E uri predicates columns s =
     map_option (\<lambda>(ret, s). case mk ret s of (resultSet, s) \<Rightarrow> (Some resultSet, s)) (on_extension Q E (\<lambda>e. ids_Query e uri predicates columns) None s)"

definition DataShareStubImpl :: "('b option \<Rightarrow> 's \<Rightarrow> 'r \<times> 's) \<Rightarrow> ('s \<Rightarrow> uv_outcome) \<Rightarrow> ('s, 'o, 'b) IDataShare option \<Rightarrow> ('s, 'o, 'r) IDataShare" where
  "DataShareStubImpl mk Q E =
     \<lparr>ids_GetFileTypes = Impl_GetFileTypes Q E,
      ids_OpenFile = Impl_OpenFile Q E,
      ids_OpenRawFile = Impl_OpenRawFile Q E,
      ids_Insert = Impl_Insert Q E,
      ids_Update = Impl_Update Q E,
      ids_Delete = Impl_Delete Q E,
      ids_Query = Impl_Query mk Q E,
      ids_GetType = Impl_GetType Q E,
      ids_BatchInsert = Impl_BatchInsert Q E,
      ids_RegisterObserver = Impl_RegisterObserver Q E,
      ids_UnregisterObserver = Impl_UnregisterObserver Q E,
      ids_NotifyChange = Impl_NotifyChange Q E,
      ids_NormalizeUri = Impl_NormalizeUri Q E,
      ids_DenormalizeUri = Impl_DenormalizeUri Q E,
      ids_ExecuteBatch = Impl_ExecuteBatch Q E\<rparr>"

subsection \<open>The stub\<close>

text \<open>
  A result set is passed as the remote object of its stub, followed by its block: \<open>rs_stub\<close> is the remote object, \<open>rs_Marshalling\<close> writes the
  block and \<open>rs_proxy\<close> is the consumer's result set for a remote object, which reads the block from the rest of the message.
\<close>

record ('r, 'o, 'p, 'c) rs_ops =
  rs_stub :: "'r \<Rightarrow> 'o"
  rs_Marshalling :: "'r \<Rightarrow> 'p \<Rightarrow> 'p"
  rs_proxy :: "'o \<Rightarrow> 'p \<Rightarrow> 'c \<times> 'p"

text \<open>Whether the object and the block could be written is not asked.\<close>

definition CreateStub :: "('p, 'o) message_ops \<Rightarrow> ('r, 'o, 'p, 'c) rs_ops \<Rightarrow> 'r \<Rightarrow> 'p \<Rightarrow> 'p" where
  "CreateStub M R result p =
     rs_Marshalling R result (case WriteRemoteObject M (rs_stub R result) p of Some p \<Rightarrow> p | None \<Rightarrow> p)"

definition CreateProxy :: "('p, 'o) message_ops \<Rightarrow> ('r, 'o, 'p, 'c) rs_ops \<Rightarrow> 'p \<Rightarrow> 'c option \<times> 'p" where
  "CreateProxy M R p =
     (case ReadRemoteObject M p of
        (None, p) \<Rightarrow> (None, p)
      | (Some remoter, p) \<Rightarrow> (case rs_proxy R remoter p of (c, p) \<Rightarrow> (Some c, p)))"

type_synonym ('p, 's) reply = "(ipc_err \<times> 'p \<times> 's) option"

abbreviation (input) refused :: "'p \<Rightarrow> 's \<Rightarrow> ('p, 's) reply" where
  "refused reply s \<equiv> Some (ERR_INVALID_VALUE, reply, s)"

text \<open>The end of every command: what the call has returned is written into the reply.\<close>

definition answer_with :: "('x \<Rightarrow> 'p \<Rightarrow> 'p option option) \<Rightarrow> 'p \<Rightarrow> ('x \<times> 's) option \<Rightarrow> ('p, 's) reply" where
  "answer_with wr reply ret =
     (case ret of None \<Rightarrow> None | Some (x, s) \<Rightarrow> write_or (wr x reply) (refused reply s) (\<lambda>reply. Some (NO_ERROR, reply, s)))"

definition CmdGetFileTypes :: "('p, 'o) message_ops \<Rightarrow> ('s, 'o, 'r) IDataShare \<Rightarrow> 'p \<Rightarrow> 'p \<Rightarrow> 's \<Rightarrow> ('p, 's) reply" where
  "CmdGetFileTypes M P data reply s =
     read_or (Some (ReadUri M data)) (\<lambda>_. refused reply s) (\<lambda>uri data.
     case MsgReadString M data of (mimeTypeFilter, data) \<Rightarrow>
       if mimeTypeFilter = [] then refused reply s
       else answer_with (\<lambda>types p. Some (MsgWriteStringVector M types p)) reply (ids_GetFileTypes P uri mimeTypeFilter s))"

definition CmdOpenFile :: "('p, 'o) message_ops \<Rightarrow> ('s, 'o, 'r) IDataShare \<Rightarrow> 'p \<Rightarrow> 'p \<Rightarrow> 's \<Rightarrow> ('p, 's) reply" where
  "CmdOpenFile M P data reply s =
     read_or (Some (ReadUri M data)) (\<lambda>_. refused reply s) (\<lambda>uri data.
     case MsgReadString M data of (mode, data) \<Rightarrow>
       if mode = [] then refused reply s
       else answer_with (\<lambda>fd p. if sint fd < 0 then Some None else Some (WriteFileDescriptor M fd p)) reply (ids_OpenFile P uri mode s))"

definition CmdOpenRawFile :: "('p, 'o) message_ops \<Rightarrow> ('s, 'o, 'r) IDataShare \<Rightarrow> 'p \<Rightarrow> 'p \<Rightarrow> 's \<Rightarrow> ('p, 's) reply" where
  "CmdOpenRawFile M P data reply s =
     read_or (Some (ReadUri M data)) (\<lambda>_. refused reply s) (\<lambda>uri data.
     case MsgReadString M data of (mode, data) \<Rightarrow>
       if mode = [] then refused reply s
       else answer_with (\<lambda>fd p. Some (MsgWriteInt32 M fd p)) reply (ids_OpenRawFile P uri mode s))"

definition CmdInsert :: "('p, 'o) message_ops \<Rightarrow> ('s, 'o, 'r) IDataShare \<Rightarrow> 'p \<Rightarrow> 'p \<Rightarrow> 's \<Rightarrow> ('p, 's) reply" where
  "CmdInsert M P data reply s =
     read_or (Some (ReadUri M data)) (\<lambda>_. refused reply s) (\<lambda>uri data.
     read_or (read_bucket M data) (\<lambda>_. refused reply s) (\<lambda>bucket data.
       answer_with (\<lambda>index p. Some (MsgWriteInt32 M index p)) reply (ids_Insert P uri bucket s)))"

definition CmdUpdate :: "('p, 'o) message_ops \<Rightarrow> SettingMode \<Rightarrow> ('s, 'o, 'r) IDataShare \<Rightarrow> 'p \<Rightarrow> 'p \<Rightarrow> 's \<Rightarrow> ('p, 's) reply" where
  "CmdUpdate M m0 P data reply s =
     read_or (Some (ReadUri M data)) (\<lambda>_. refused reply s) (\<lambda>uri data.
     read_or (read_predicates M m0 data) (\<lambda>_. refused reply s) (\<lambda>predicates data.
     read_or (read_bucket M data) (\<lambda>_. refused reply s) (\<lambda>bucket data.
       answer_with (\<lambda>index p. Some (MsgWriteInt32 M index p)) reply (ids_Update P uri predicates bucket s))))"

definition CmdDelete :: "('p, 'o) message_ops \<Rightarrow> SettingMode \<Rightarrow> ('s, 'o, 'r) IDataShare \<Rightarrow> 'p \<Rightarrow> 'p \<Rightarrow> 's \<Rightarrow> ('p, 's) reply" where
  "CmdDelete M m0 P data reply s =
     read_or (Some (ReadUri M data)) (\<lambda>_. refused reply s) (\<lambda>uri data.
     read_or (read_predicates M m0 data) (\<lambda>_. refused reply s) (\<lambda>predicates data.
       answer_with (\<lambda>index p. Some (MsgWriteInt32 M index p)) reply (ids_Delete P uri predicates s)))"

definition CmdQuery :: "('r, 'o, 'p, 'c) rs_ops \<Rightarrow> ('p, 'o) message_ops \<Rightarrow> SettingMode \<Rightarrow> ('s, 'o, 'r) IDataShare \<Rightarrow> 'p \<Rightarrow> 'p \<Rightarrow> 's \<Rightarrow> ('p, 's) reply" where
  "CmdQuery R M m0 P data reply s =
     read_or (Some (ReadUri M data)) (\<lambda>_. refused reply s) (\<lambda>uri data.
     read_or (read_predicates M m0 data) (\<lambda>_. refused reply s) (\<lambda>predicates data.
     read_or (Some (MsgReadStringVector M data)) (\<lambda>_. refused reply s) (\<lambda>columns data.
       answer_with (\<lambda>resultSet p. case resultSet of None \<Rightarrow> Some None | Some r \<Rightarrow> Some (Some (CreateStub M R r p))) reply
         (ids_Query P uri predicates columns s))))"

definition CmdGetType :: "('p, 'o) message_ops \<Rightarrow> ('s, 'o, 'r) IDataShare \<Rightarrow> 'p \<Rightarrow> 'p \<Rightarrow> 's \<Rightarrow> ('p, 's) reply" where
  "CmdGetType M P data reply s =
     read_or (Some (ReadUri M data)) (\<lambda>_. refused reply s) (\<lambda>uri data.
       answer_with (\<lambda>type p. Some (MsgWriteString M type p)) reply (ids_GetType P uri s))"

definition CmdBatchInsert :: "('p, 'o) message_ops \<Rightarrow> ('s, 'o, 'r) IDataShare \<Rightarrow> 'p \<Rightarrow> 'p \<Rightarrow> 's \<Rightarrow> ('p, 's) reply" where
  "CmdBatchInsert M P data reply s =
     read_or (Some (ReadUri M data)) (\<lambda>_. refused reply s) (\<lambda>uri data.
     read_or (Some (MsgReadInt32 M data)) (\<lambda>_. refused reply s) (\<lambda>count data.
     case read_list (read_bucket M) (nat (sint count)) data of
       None \<Rightarrow> None
     | Some ((good, buckets), data) \<Rightarrow>
         if \<not> good then refused reply s
         else answer_with (\<lambda>ret p. Some (MsgWriteInt32 M ret p)) reply (ids_BatchInsert P uri buckets s)))"

definition CmdRegisterObserver :: "('p, 'o) message_ops \<Rightarrow> ('s, 'o, 'r) IDataShare \<Rightarrow> 'p \<Rightarrow> 'p \<Rightarrow> 's \<Rightarrow> ('p, 's) reply" where
  "CmdRegisterObserver M P data reply s =
     read_or (Some (ReadUri M data)) (\<lambda>_. refused reply s) (\<lambda>uri data.
     read_or (Some (ReadRemoteObject M data)) (\<lambda>_. refused reply s) (\<lambda>observer data.
       answer_with (\<lambda>ret p. Some (MsgWriteInt32 M (of_bool ret) p)) reply (ids_RegisterObserver P uri observer s)))"

definition CmdUnregisterObserver :: "('p, 'o) message_ops \<Rightarrow> ('s, 'o, 'r) IDataShare \<Rightarrow> 'p \<Rightarrow> 'p \<Rightarrow> 's \<Rightarrow> ('p, 's) reply" where
  "CmdUnregisterObserver M P data reply s =
     read_or (Some (ReadUri M data)) (\<lambda>_. refused reply s) (\<lambda>uri data.
     read_or (Some (ReadRemoteObject M data)) (\<lambda>_. refused reply s) (\<lambda>observer data.
       answer_with (\<lambda>ret p. Some (MsgWriteInt32 M (of_bool ret) p)) reply (ids_UnregisterObserver P uri observer s)))"

definition CmdNotifyChange :: "('p, 'o) message_ops \<Rightarrow> ('s, 'o, 'r) IDataShare \<Rightarrow> 'p \<Rightarrow> 'p \<Rightarrow> 's \<Rightarrow> ('p, 's) reply" where
  "CmdNotifyChange M P data reply s =
     read_or (Some (ReadUri M data)) (\<lambda>_. refused reply s) (\<lambda>uri data.
       answer_with (\<lambda>ret p. Some (MsgWriteInt32 M (of_bool ret) p)) reply (ids_NotifyChange P uri s))"

definition CmdNormalizeUri :: "('p, 'o) message_ops \<Rightarrow> ('s, 'o, 'r) IDataShare \<Rightarrow> 'p \<Rightarrow> 'p \<Rightarrow> 's \<Rightarrow> ('p, 's) reply" where
  "CmdNormalizeUri M P data reply s =
     read_or (Some (ReadUri M data)) (\<lambda>_. refused reply s) (\<lambda>uri data.
       answer_with (\<lambda>ret p. Some (WriteUri M ret p)) reply (ids_NormalizeUri P uri s))"

definition CmdDenormalizeUri :: "('p, 'o) message_ops \<Rightarrow> ('s, 'o, 'r) IDataShare \<Rightarrow> 'p \<Rightarrow> 'p \<Rightarrow> 's \<Rightarrow> ('p, 's) reply" where
  "CmdDenormalizeUri M P data reply s =
     read_or (Some (ReadUri M data)) (\<lambda>_. refused reply s) (\<lambda>uri data.
       answer_with (\<lambda>ret p. Some (WriteUri M ret p)) reply (ids_DenormalizeUri P uri s))"

text \<open>The results of a batch; a null result ends the loop with an error.\<close>

definition write_results :: "('p, 'o) message_ops \<Rightarrow> DataShareResult option list \<Rightarrow> 'p \<Rightarrow> 'p option option" where
  "write_results M results reply =
     (let count = of_nat (length results) :: 32 word in
      write_or (Some (MsgWriteInt32 M count reply)) (Some None)
        (write_list (\<lambda>r p. case r of None \<Rightarrow> Some None | Some r \<Rightarrow> write_result M r p) (take (nat (sint count)) results)))"

definition CmdExecuteBatch :: "('p, 'o) message_ops \<Rightarrow> SettingMode \<Rightarrow> ('s, 'o, 'r) IDataShare \<Rightarrow> 'p \<Rightarrow> 'p \<Rightarrow> 's \<Rightarrow> ('p, 's) reply" where
  "CmdExecuteBatch M m0 P data reply s =
     read_or (Some (MsgReadInt32 M data)) (\<lambda>_. refused reply s) (\<lambda>count data.
     case read_list (read_operation M m0) (nat (sint count)) data of
       None \<Rightarrow> None
     | Some ((good, operations), data) \<Rightarrow>
         if \<not> good then refused reply s
         else answer_with (write_results M) reply (ids_ExecuteBatch P (map Some operations) s))"

definition stubFuncMap :: "('r, 'o, 'p, 'c) rs_ops \<Rightarrow> ('p, 'o) message_ops \<Rightarrow> SettingMode \<Rightarrow> ('s, 'o, 'r) IDataShare \<Rightarrow> (32 word \<times> ('p \<Rightarrow> 'p \<Rightarrow> 's \<Rightarrow> ('p, 's) reply)) list" where
  "stubFuncMap R M m0 P =
     [(CMD_GET_FILE_TYPES, CmdGetFileTypes M P),
      (CMD_OPEN_FILE, CmdOpenFile M P),
      (CMD_OPEN_RAW_FILE, CmdOpenRawFile M P),
      (CMD_INSERT, CmdInsert M P),
      (CMD_UPDATE, CmdUpdate M m0 P),
      (CMD_DELETE, CmdDelete M m0 P),
      (CMD_QUERY, CmdQuery R M m0 P),
      (CMD_GET_TYPE, CmdGetType M P),
      (CMD_BATCH_INSERT, CmdBatchInsert M P),
      (CMD_REGISTER_OBSERVER, CmdRegisterObserver M P),
      (CMD_UNREGISTER_OBSERVER, CmdUnregisterObserver M P),
      (CMD_NOTIFY_CHANGE, CmdNotifyChange M P),
      (CMD_NORMALIZE_URI, CmdNormalizeUri M P),
      (CMD_DENORMALIZE_URI, CmdDenormalizeUri M P),
      (CMD_EXECUTE_BATCH, CmdExecuteBatch M m0 P)]"

text \<open>\<open>ipc\<close> is the request handler of the base class.\<close>

definition OnRemoteRequest ::
  "('r, 'o, 'p, 'c) rs_ops \<Rightarrow> ('p, 'o) message_ops \<Rightarrow> SettingMode \<Rightarrow> (32 word \<Rightarrow> 'p \<Rightarrow> 'p \<Rightarrow> 's \<Rightarrow> ('p, 's) reply) \<Rightarrow> ('s, 'o, 'r) IDataShare \<Rightarrow>
   32 word \<Rightarrow> 'p \<Rightarrow> 'p \<Rightarrow> 's \<Rightarrow> ('p, 's) reply" where
  "OnRemoteRequest R M m0 ipc P code data reply s =
     (case ReadInterfaceToken M data of (remoteDescriptor, data) \<Rightarrow>
       if IDATASHARE_DESCRIPTOR \<noteq> remoteDescriptor then Some (ERR_INVALID_STATE, reply, s)
       else case map_of (stubFuncMap R M m0 P) code of
         Some f \<Rightarrow> f data reply s
       | None \<Rightarrow> ipc code data reply s)"

subsection \<open>The proxy\<close>

text \<open>
  \<open>send\<close> is \<open>SendRequest\<close>: it gives an error code and the reply, and the provider's state changes meanwhile.  A vector that could not be
  read is empty.
\<close>

type_synonym ('p, 's) sender = "32 word \<Rightarrow> 'p \<Rightarrow> 's \<Rightarrow> ('p, 's) reply"

definition request_for :: "('p, 'o) message_ops \<Rightarrow> 'r option \<Rightarrow> ('p \<Rightarrow> 'r option) \<Rightarrow> 'r option" where
  "request_for M d k = write_or (Some (WriteInterfaceToken M IDATASHARE_DESCRIPTOR (new_message M))) d k"

text \<open>Sending, and what is returned when that fails (\<open>d\<close>).\<close>

definition send_or :: "('p, 's) sender \<Rightarrow> 32 word \<Rightarrow> 's \<Rightarrow> 'x \<Rightarrow> ('p \<Rightarrow> 'x) \<Rightarrow> 'p \<Rightarrow> ('x \<times> 's) option" where
  "send_or send code s d k data =
     (case send code data s of None \<Rightarrow> None | Some (err, reply, s) \<Rightarrow> Some (if err \<noteq> NO_ERROR then d else k reply, s))"

definition read_index :: "('p, 'o) message_ops \<Rightarrow> 'p \<Rightarrow> 32 word" where
  "read_index M reply = (case MsgReadInt32 M reply of (Some index, _) \<Rightarrow> index | (None, _) \<Rightarrow> - 1)"

definition read_uri_reply :: "('p, 'o) message_ops \<Rightarrow> 'p \<Rightarrow> string" where
  "read_uri_reply M reply = (case ReadUri M reply of (Some info, _) \<Rightarrow> info | (None, _) \<Rightarrow> [])"

definition Proxy_GetFileTypes :: "('p, 'o) message_ops \<Rightarrow> ('p, 's) sender \<Rightarrow> string \<Rightarrow> string \<Rightarrow> (string list, 's) call" where
  "Proxy_GetFileTypes M send uri mimeTypeFilter s =
     request_for M (Some ([], s)) (\<lambda>data.
     write_or (Some (WriteUri M uri data)) (Some ([], s)) (\<lambda>data.
     write_or (Some (MsgWriteString M mimeTypeFilter data)) (Some ([], s)) (\<lambda>data.
     case send CMD_GET_FILE_TYPES data s of
       None \<Rightarrow> None
     | Some (err, reply, s) \<Rightarrow> Some (case MsgReadStringVector M reply of (Some types, _) \<Rightarrow> types | (None, _) \<Rightarrow> [], s))))"

definition Proxy_OpenFile :: "('p, 'o) message_ops \<Rightarrow> ('p, 's) sender \<Rightarrow> string \<Rightarrow> string \<Rightarrow> (32 word, 's) call" where
  "Proxy_OpenFile M send uri mode s =
     request_for M (Some (- 1, s)) (\<lambda>data.
     write_or (Some (WriteUri M uri data)) (Some (- 1, s)) (\<lambda>data.
     write_or (Some (MsgWriteString M mode data)) (Some (- 1, s))
       (send_or send CMD_OPEN_FILE s (- 1) (\<lambda>reply. fst (ReadFileDescriptor M reply)))))"

definition Proxy_OpenRawFile :: "('p, 'o) message_ops \<Rightarrow> ('p, 's) sender \<Rightarrow> string \<Rightarrow> string \<Rightarrow> (32 word, 's) call" where
  "Proxy_OpenRawFile M send uri mode s =
     request_for M (Some (- 1, s)) (\<lambda>data.
     write_or (Some (WriteUri M uri data)) (Some (- 1, s)) (\<lambda>data.
     write_or (Some (MsgWriteString M mode data)) (Some (- 1, s))
       (send_or send CMD_OPEN_RAW_FILE s (- 1) (read_index M))))"

definition Proxy_Insert :: "('p, 'o) message_ops \<Rightarrow> ('p, 's) sender \<Rightarrow> string \<Rightarrow> DataShareValuesBucket \<Rightarrow> (32 word, 's) call" where
  "Proxy_Insert M send uri bucket s =
     request_for M (Some (- 1, s)) (\<lambda>data.
     write_or (Some (WriteUri M uri data)) (Some (- 1, s)) (\<lambda>data.
     write_or (write_bucket M bucket data) (Some (- 1, s))
       (send_or send CMD_INSERT s (- 1) (read_index M))))"

definition Proxy_Update :: "('p, 'o) message_ops \<Rightarrow> ('p, 's) sender \<Rightarrow> string \<Rightarrow> DataSharePredicates \<Rightarrow> DataShareValuesBucket \<Rightarrow> (32 word, 's) call" where
  "Proxy_Update M send uri predicates bucket s =
     request_for M (Some (- 1, s)) (\<lambda>data.
     write_or (Some (WriteUri M uri data)) (Some (- 1, s)) (\<lambda>data.
     write_or (write_predicates M predicates data) (Some (- 1, s)) (\<lambda>data.
     write_or (write_bucket M bucket data) (Some (- 1, s))
       (send_or send CMD_UPDATE s (- 1) (read_index M)))))"

definition Proxy_Delete :: "('p, 'o) message_ops \<Rightarrow> ('p, 's) sender \<Rightarrow> string \<Rightarrow> DataSharePredicates \<Rightarrow> (32 word, 's) call" where
  "Proxy_Delete M send uri predicates s =
     request_for M (Some (- 1, s)) (\<lambda>data.
     write_or (Some (WriteUri M uri data)) (Some (- 1, s)) (\<lambda>data.
     write_or (write_predicates M predicates data) (Some (- 1, s))
       (send_or send CMD_DELETE s (- 1) (read_index M))))"

definition Proxy_Query :: "('r, 'o, 'p, 'c) rs_ops \<Rightarrow> ('p, 'o) message_ops \<Rightarrow> ('p, 's) sender \<Rightarrow> string \<Rightarrow> DataSharePredicates \<Rightarrow> string list \<Rightarrow> ('c option, 's) call" where
  "Proxy_Query R M send uri predicates columns s =
     request_for M (Some (None, s)) (\<lambda>data.
     write_or (Some (WriteUri M uri data)) (Some (None, s)) (\<lambda>data.
     write_or (write_predicates M predicates data) (Some (None, s)) (\<lambda>data.
     write_or (Some (MsgWriteStringVector M columns data)) (Some (None, s))
       (send_or send CMD_QUERY s None (\<lambda>reply. fst (CreateProxy M R reply))))))"

definition Proxy_GetType :: "('p, 'o) message_ops \<Rightarrow> ('p, 's) sender \<Rightarrow> string \<Rightarrow> (string, 's) call" where
  "Proxy_GetType M send uri s =
     request_for M (Some ([], s)) (\<lambda>data.
     write_or (Some (WriteUri M uri data)) (Some ([], s))
       (send_or send CMD_GET_TYPE s [] (\<lambda>reply. fst (MsgReadString M reply))))"

definition Proxy_BatchInsert :: "('p, 'o) message_ops \<Rightarrow> ('p, 's) sender \<Rightarrow> string \<Rightarrow> DataShareValuesBucket list \<Rightarrow> (32 word, 's) call" where
  "Proxy_BatchInsert M send uri buckets s =
     request_for M (Some (- 1, s)) (\<lambda>data.
     write_or (Some (WriteUri M uri data)) (Some (- 1, s)) (\<lambda>data.
     let count = of_nat (length buckets) :: 32 word in
     write_or (Some (MsgWriteInt32 M count data)) (Some (- 1, s)) (\<lambda>data.
     write_or (write_list (write_bucket M) (take (nat (sint count)) buckets) data) (Some (- 1, s))
       (send_or send CMD_BATCH_INSERT s (- 1) (read_index M)))))"

definition Proxy_RegisterObserver :: "('p, 'o) message_ops \<Rightarrow> ('p, 's) sender \<Rightarrow> string \<Rightarrow> 'o \<Rightarrow> (bool, 's) call" where
  "Proxy_RegisterObserver M send uri observer s =
     request_for M (Some (False, s)) (\<lambda>data.
     write_or (Some (WriteUri M uri data)) (Some (False, s)) (\<lambda>data.
     write_or (Some (WriteRemoteObject M observer data)) (Some (False, s))
       (send_or send CMD_REGISTER_OBSERVER s False (\<lambda>_. True))))"

definition Proxy_UnregisterObserver :: "('p, 'o) message_ops \<Rightarrow> ('p, 's) sender \<Rightarrow> string \<Rightarrow> 'o \<Rightarrow> (bool, 's) call" where
  "Proxy_UnregisterObserver M send uri observer s =
     request_for M (Some (False, s)) (\<lambda>data.
     write_or (Some (WriteUri M uri data)) (Some (False, s)) (\<lambda>data.
     write_or (Some (WriteRemoteObject M observer data)) (Some (False, s))
       (send_or send CMD_UNREGISTER_OBSERVER s False (\<lambda>_. True))))"

definition Proxy_NotifyChange :: "('p, 'o) message_ops \<Rightarrow> ('p, 's) sender \<Rightarrow> string \<Rightarrow> (bool, 's) call" where
  "Proxy_NotifyChange M send uri s =
     request_for M (Some (False, s)) (\<lambda>data.
     write_or (Some (WriteUri M uri data)) (Some (False, s))
       (send_or send CMD_NOTIFY_CHANGE s False (\<lambda>_. True)))"

definition Proxy_NormalizeUri :: "('p, 'o) message_ops \<Rightarrow> ('p, 's) sender \<Rightarrow> string \<Rightarrow> (string, 's) call" where
  "Proxy_NormalizeUri M send uri s =
     request_for M (Some ([], s)) (\<lambda>data.
     write_or (Some (WriteUri M uri data)) (Some ([], s))
       (send_or send CMD_NORMALIZE_URI s [] (read_uri_reply M)))"

definition Proxy_DenormalizeUri :: "('p, 'o) message_ops \<Rightarrow> ('p, 's) sender \<Rightarrow> string \<Rightarrow> (string, 's) call" where
  "Proxy_DenormalizeUri M send uri s =
     request_for M (Some ([], s)) (\<lambda>data.
     write_or (Some (WriteUri M uri data)) (Some ([], s))
       (send_or send CMD_DENORMALIZE_URI s [] (read_uri_reply M)))"

text \<open>The results that could be read are returned, also when one could not.\<close>

definition read_results :: "('p, 'o) message_ops \<Rightarrow> 'p \<Rightarrow> DataShareResult option list option" where
  "read_results M reply =
     (case MsgReadInt32 M reply of
        (None, _) \<Rightarrow> Some []
      | (Some count, reply) \<Rightarrow> map_option (\<lambda>((good, results), _). map Some results) (read_list (read_result M) (nat (sint count)) reply))"

definition write_operation_pointer :: "('p, 'o) message_ops \<Rightarrow> DataShareOperation option \<Rightarrow> 'p \<Rightarrow> 'p option option" where
  "write_operation_pointer M x p = (case x of None \<Rightarrow> Some (MsgWriteNull M p) | Some x \<Rightarrow> write_operation M x p)"

definition Proxy_ExecuteBatch :: "('p, 'o) message_ops \<Rightarrow> ('p, 's) sender \<Rightarrow> DataShareOperation option list \<Rightarrow> (DataShareResult option list, 's) call" where
  "Proxy_ExecuteBatch M send operations s =
     request_for M (Some ([], s)) (\<lambda>data.
     let count = of_nat (length operations) :: 32 word in
     write_or (Some (MsgWriteInt32 M count data)) (Some ([], s)) (\<lambda>data.
     write_or (write_list (write_operation_pointer M) (take (nat (sint count)) operations) data) (Some ([], s)) (\<lambda>data.
     case send CMD_EXECUTE_BATCH data s of
       None \<Rightarrow> None
     | Some (err, reply, s) \<Rightarrow>
         if err \<noteq> NO_ERROR then Some ([], s) else map_option (\<lambda>results. (results, s)) (read_results M reply))))"

definition DataShareProxy :: "('r, 'o, 'p, 'c) rs_ops \<Rightarrow> ('p, 'o) message_ops \<Rightarrow> ('p, 's) sender \<Rightarrow> ('s, 'o, 'c) IDataShare" where
  "DataShareProxy R M send =
     \<lparr>ids_GetFileTypes = Proxy_GetFileTypes M send,
      ids_OpenFile = Proxy_OpenFile M send,
      ids_OpenRawFile = Proxy_OpenRawFile M send,
      ids_Insert = Proxy_Insert M send,
      ids_Update = Proxy_Update M send,
      ids_Delete = Proxy_Delete M send,
      ids_Query = Proxy_Query R M send,
      ids_GetType = Proxy_GetType M send,
      ids_BatchInsert = Proxy_BatchInsert M send,
      ids_RegisterObserver = Proxy_RegisterObserver M send,
      ids_UnregisterObserver = Proxy_UnregisterObserver M send,
      ids_NotifyChange = Proxy_NotifyChange M send,
      ids_NormalizeUri = Proxy_NormalizeUri M send,
      ids_DenormalizeUri = Proxy_DenormalizeUri M send,
      ids_ExecuteBatch = Proxy_ExecuteBatch M send\<rparr>"

end
