(* ===== verification/Data_Share_Calls.thy ===== *)
theory Data_Share_Calls
  imports Data_Share_Remote
begin

text \<open>
  Calls on shared data through a proxy and a stub.  A consumer that makes calls through its proxy gets what the provider
  returns for the calls that arrive: the arguments lose only what their marshalling loses, and of the answers some are lost.
\<close>

subsection \<open>What the transport promises\<close>

text \<open>A request reaches the handler \<open>H\<close> with an empty reply, and its reply comes back; neither message changes its items on the way.\<close>

definition transports :: "('p, 'o) message_ops \<Rightarrow> ('p \<Rightarrow> ds_item list) \<Rightarrow> (32 word \<Rightarrow> 'p \<Rightarrow> 'p \<Rightarrow> 's \<Rightarrow> ('p, 's) reply) \<Rightarrow> ('p, 's) sender \<Rightarrow> bool" where
  "transports M items H send \<longleftrightarrow>
     (\<forall>code data s. \<exists>data'. items data' = items data
        \<and> (case H code data' (new_message M) s of
             None \<Rightarrow> send code data s = None
           | Some (err, reply, s') \<Rightarrow> \<exists>reply'. items reply' = items reply \<and> send code data s = Some (err, reply', s')))"

text \<open>What the consumer sees of a result set depends on the items that the provider has written.\<close>

definition rs_ok :: "('r, 'o, 'p, 'c) rs_ops \<Rightarrow> ('p \<Rightarrow> ds_item list) \<Rightarrow> ('r \<Rightarrow> 'c) \<Rightarrow> bool" where
  "rs_ok R items view \<longleftrightarrow> (\<exists>enc. \<forall>r.
     (\<forall>p. items (rs_Marshalling R r p) = items p @ enc r) \<and> (\<forall>p rest. items p = enc r @ rest \<longrightarrow> (\<exists>q. rs_proxy R (rs_stub R r) p = (view r, q) \<and> items q = rest)))"

subsection \<open>A conversation\<close>

text \<open>
  \<open>W\<close> is what the proxy does with a message that it has begun, \<open>K\<close> what it does with the finished one; \<open>H\<close> is what the stub
  does with that message.  The stub's outcome is \<open>R\<close>, a function of what was sent.
\<close>

definition talks :: "('p \<Rightarrow> 'i list) \<Rightarrow> ('a \<Rightarrow> bool) \<Rightarrow> ('a \<Rightarrow> 'p \<Rightarrow> 'z) \<Rightarrow> ('p \<Rightarrow> 'y) \<Rightarrow> ('a \<Rightarrow> 'p \<Rightarrow> 'z) \<Rightarrow> ('a \<Rightarrow> 'y) \<Rightarrow> bool" where
  "talks items ok W H K R \<longleftrightarrow> (\<exists>enc. \<forall>x. ok x \<longrightarrow>
     (\<forall>p. \<exists>q. items q = items p @ enc x \<and> W x p = K x q) \<and> (\<forall>p. items p = enc x \<longrightarrow> H p = R x))"

lemma talks_end: "(\<And>x p. ok x \<Longrightarrow> H p = R x) \<Longrightarrow> talks items ok K H K R"
  unfolding talks_def by (intro exI [where x = "\<lambda>x. []"]) auto

lemma talks_weaken: "talks items ok W H K R \<Longrightarrow> (\<And>x. ok' x \<Longrightarrow> ok x) \<Longrightarrow> talks items ok' W H K R"
  unfolding talks_def by meson

lemma talks_then:
  assumes 1: "carries items ok wr rd (\<lambda>x. F (f x))" and 2: "\<And>v. talks items (\<lambda>x. ok x \<and> f x = v) W (H v) K R"
    and H': "\<And>p v q. rd p = Some (F v, q) \<Longrightarrow> H' p = H v q" and W': "\<And>x p q. wr x p = Some (Some q) \<Longrightarrow> W' x p = W x q"
  shows "talks items ok W' H' K R"
proof -
  obtain e1 where e1: "coded items ok wr rd (\<lambda>x. F (f x)) e1" using 1 by (rule carriesE)
  obtain e2 where e2: "\<And>v x. ok x \<and> f x = v \<Longrightarrow> (\<forall>p. \<exists>q. items q = items p @ e2 v x \<and> W x p = K x q) \<and> (\<forall>p. items p = e2 v x \<longrightarrow> H v p = R x)"
    using 2 unfolding talks_def by metis
  show ?thesis unfolding talks_def
  proof (intro exI [where x = "\<lambda>x. e1 x @ e2 (f x) x"] allI impI conjI)
    fix x p assume x: "ok x"
    obtain q where q: "wr x p = Some (Some q)" "items q = items p @ e1 x" using e1 x by (rule coded_write)
    obtain q' where "items q' = items q @ e2 (f x) x" "W x q = K x q'" using e2 [of x "f x"] x by blast
    then show "\<exists>q. items q = items p @ e1 x @ e2 (f x) x \<and> W' x p = K x q" using q W' [OF q(1)] by auto
  next
    fix x p assume x: "ok x" and i: "items p = e1 x @ e2 (f x) x"
    obtain q where q: "rd p = Some (F (f x), q)" "items q = e2 (f x) x" using e1 x i by (rule coded_read)
    then show "H' p = R x" using e2 [of x "f x"] x H' [OF q(1)] by simp
  qed
qed

lemma talks_read:
  assumes "carries items ok wr rd (\<lambda>x. Some (f x))" and "\<And>v. talks items (\<lambda>x. ok x \<and> f x = v) W (H v) K R"
  shows "talks items ok (\<lambda>x p. write_or (wr x p) (d x) (W x)) (\<lambda>p. read_or (rd p) fl H) K R"
  using assms by (rule talks_then) simp_all

lemma talks_string:
  assumes M: "message_ok M items dup" and "\<And>v. talks items (\<lambda>x. ok x \<and> f x = v) W (H v) K R"
  shows "talks items ok (\<lambda>x p. write_or (Some (MsgWriteString M (f x) p)) (d x) (W x)) (\<lambda>p. case MsgReadString M p of (v, p) \<Rightarrow> H v p) K R"
  by (rule talks_then [where F = "\<lambda>v. v", OF carries_arg [OF message_carries(4) [OF M]] assms(2)]) simp_all

lemma talks_list:
  assumes M: "message_ok M items dup" and c: "carries items okw wr rd (\<lambda>x. Some (r x))"
    and ok: "\<And>x. ok x \<Longrightarrow> length (f x) < 2 ^ 31 \<and> list_all okw (f x)" and t: "\<And>v. talks items (\<lambda>x. ok x \<and> map r (f x) = v) W (H v) K R"
  shows "talks items ok
    (\<lambda>x p. write_or (Some (MsgWriteInt32 M (of_nat (length (f x))) p)) (d x) (\<lambda>p.
       write_or (write_list wr (take (nat (sint (of_nat (length (f x)) :: 32 word))) (f x)) p) (d' x) (W x)))
    (\<lambda>p. read_or (Some (MsgReadInt32 M p)) fl (\<lambda>n p.
       case read_list rd (nat (sint n)) p of None \<Rightarrow> None | Some ((good, xs), p) \<Rightarrow> if \<not> good then fl' p else H xs p)) K R"
proof (rule talks_read [OF carries_arg [OF message_carries(2) [OF M]]])
  fix n :: "32 word"
  let ?ok = "\<lambda>x. ok x \<and> of_nat (length (f x)) = n"
  have n: "nat (sint n) = length (f x)" if "?ok x" for x using that ok [of x] sint_of_nat_31 [of "length (f x)"] by auto
  have l: "carries items ?ok (\<lambda>x. write_list wr (f x)) (read_list rd (nat (sint n))) (\<lambda>x. (True, map r (f x)))"
    by (rule carries_arg [OF list_carries [OF c]]) (use n ok in auto)
  show "talks items ?ok (\<lambda>x p. write_or (write_list wr (take (nat (sint (of_nat (length (f x)) :: 32 word))) (f x)) p) (d' x) (W x))
    (\<lambda>p. case read_list rd (nat (sint n)) p of None \<Rightarrow> None | Some ((good, xs), p) \<Rightarrow> if \<not> good then fl' p else H xs p) K R"
  proof (rule talks_then [where F = "\<lambda>v. (True, v)" and f = "\<lambda>x. map r (f x)"])
    show "carries items ?ok (\<lambda>x. write_list wr (take (nat (sint (of_nat (length (f x)) :: 32 word))) (f x))) (read_list rd (nat (sint n))) (\<lambda>x. (True, map r (f x)))"
      by (rule carries_cong [OF _ l]) (use n in auto)
    show "talks items (\<lambda>x. ?ok x \<and> map r (f x) = v) W (H v) K R" for v by (rule talks_weaken [OF t [of v]]) simp
  qed simp_all
qed simp


text \<open>Every request starts with the descriptor of the interface, and its code selects the command.\<close>

lemma talks_start:
  assumes M: "message_ok M items dup" and f: "map_of (stubFuncMap R M m0 P) code = Some h" and t: "talks items ok W (\<lambda>p. h p reply s) K A"
  shows "talks items ok (\<lambda>x p. write_or (Some (WriteInterfaceToken M IDATASHARE_DESCRIPTOR p)) (d x) (W x))
    (\<lambda>p. OnRemoteRequest R M m0 ipc P code p reply s) K A"
proof (rule talks_then [where F = "\<lambda>v. v" and f = "\<lambda>_. IDATASHARE_DESCRIPTOR", OF carries_arg [OF message_carries(1) [OF M]]])
  fix v
  show "talks items (\<lambda>x. ok x \<and> IDATASHARE_DESCRIPTOR = v) W
      (\<lambda>p. if IDATASHARE_DESCRIPTOR \<noteq> v then Some (ERR_INVALID_STATE, reply, s) else h p reply s) K A"
    using t by (cases "IDATASHARE_DESCRIPTOR = v") (auto simp: talks_def)
qed (simp_all add: OnRemoteRequest_def f)

text \<open>
  The whole call: what the provider's method returns comes back as \<open>g\<close> of what the reply carries, or as \<open>d\<close> when the stub cannot answer
  with it.
\<close>

lemma remote_call:
  assumes M: "message_ok M items dup" and tr: "transports M items H send"
    and t: "talks items ok W (\<lambda>p. H code p (new_message M) s)
      (\<lambda>x q. case send code q s of None \<Rightarrow> None | Some (err, reply, s) \<Rightarrow> A err reply s) (\<lambda>x. answer_with wr (new_message M) (f x))"
    and x: "ok x" and c: "carries items okr wr rd r"
    and g: "\<And>reply s v q. rd reply = Some (v, q) \<Longrightarrow> A NO_ERROR reply s = Some (g v, s)"
    and no: "\<And>ret s'. f x = Some (ret, s') \<Longrightarrow> \<not> okr ret \<Longrightarrow> wr ret (new_message M) = Some None"
    and d: "\<And>reply s ret s'. f x = Some (ret, s') \<Longrightarrow> \<not> okr ret \<Longrightarrow> items reply = [] \<Longrightarrow> A ERR_INVALID_VALUE reply s = Some (d, s)"
  shows "W x (new_message M) = map_option (\<lambda>(ret, s). (if okr ret then g (r ret) else d, s)) (f x)"
proof -
  have n: "items (new_message M) = []" using M by (simp add: message_ok_def)
  obtain enc where e: "\<And>x p. ok x \<Longrightarrow> \<exists>q. items q = items p @ enc x \<and> W x p = (case send code q s of None \<Rightarrow> None | Some (err, reply, s) \<Rightarrow> A err reply s)"
    and h: "\<And>x p. ok x \<Longrightarrow> items p = enc x \<Longrightarrow> H code p (new_message M) s = answer_with wr (new_message M) (f x)"
    using t unfolding talks_def by blast
  obtain q where q: "items q = enc x" "W x (new_message M) = (case send code q s of None \<Rightarrow> None | Some (err, reply, s) \<Rightarrow> A err reply s)"
    using e [OF x, of "new_message M"] n by auto
  obtain q' where q': "items q' = items q" "case H code q' (new_message M) s of None \<Rightarrow> send code q s = None
      | Some (err, reply, s') \<Rightarrow> \<exists>reply'. items reply' = items reply \<and> send code q s = Some (err, reply', s')"
    using tr unfolding transports_def by blast
  have H: "H code q' (new_message M) s = answer_with wr (new_message M) (f x)" using h [OF x] q' q by simp
  show ?thesis
  proof (cases "f x")
    case None
    then show ?thesis using H q' q by (simp add: answer_with_def)
  next
    case (Some rs)
    obtain ret s' where fx: "f x = Some (ret, s')" using Some by (cases rs) auto
    obtain er where er: "coded items okr wr rd r er" using c by (rule carriesE)
    show ?thesis
    proof (cases "okr ret")
      case True
      obtain p where p: "wr ret (new_message M) = Some (Some p)" "items p = er ret" using coded_write [OF er True, of "new_message M"] n by auto
      obtain p' where p': "items p' = er ret" "send code q s = Some (NO_ERROR, p', s')" using q'(2) H fx p by (auto simp: answer_with_def)
      obtain p'' where "rd p' = Some (r ret, p'')" using coded_read [OF er True, of p' "[]"] p' by auto
      then show ?thesis using q fx p' g True by simp
    next
      case False
      then obtain p' where "items p' = []" "send code q s = Some (ERR_INVALID_VALUE, p', s')" using q'(2) H fx no n by (auto simp: answer_with_def)
      then show ?thesis using q fx d [OF fx False] False by simp
    qed
  qed
qed


subsection \<open>The commands\<close>

lemmas command_codes = CMD_GET_FILE_TYPES_def CMD_OPEN_FILE_def CMD_OPEN_RAW_FILE_def CMD_INSERT_def CMD_UPDATE_def CMD_DELETE_def CMD_QUERY_def CMD_GET_TYPE_def CMD_BATCH_INSERT_def CMD_REGISTER_OBSERVER_def CMD_UNREGISTER_OBSERVER_def CMD_NOTIFY_CHANGE_def CMD_NORMALIZE_URI_def CMD_DENORMALIZE_URI_def CMD_EXECUTE_BATCH_def

lemma stub_lookups:
  shows "map_of (stubFuncMap R M m0 P) CMD_GET_FILE_TYPES = Some (CmdGetFileTypes M P)"
  and "map_of (stubFuncMap R M m0 P) CMD_OPEN_FILE = Some (CmdOpenFile M P)"
  and "map_of (stubFuncMap R M m0 P) CMD_OPEN_RAW_FILE = Some (CmdOpenRawFile M P)"
  and "map_of (stubFuncMap R M m0 P) CMD_INSERT = Some (CmdInsert M P)"
  and "map_of (stubFuncMap R M m0 P) CMD_UPDATE = Some (CmdUpdate M m0 P)"
  and "map_of (stubFuncMap R M m0 P) CMD_DELETE = Some (CmdDelete M m0 P)"
  and "map_of (stubFuncMap R M m0 P) CMD_QUERY = Some (CmdQuery R M m0 P)"
  and "map_of (stubFuncMap R M m0 P) CMD_GET_TYPE = Some (CmdGetType M P)"
  and "map_of (stubFuncMap R M m0 P) CMD_BATCH_INSERT = Some (CmdBatchInsert M P)"
  and "map_of (stubFuncMap R M m0 P) CMD_REGISTER_OBSERVER = Some (CmdRegisterObserver M P)"
  and "map_of (stubFuncMap R M m0 P) CMD_UNREGISTER_OBSERVER = Some (CmdUnregisterObserver M P)"
  and "map_of (stubFuncMap R M m0 P) CMD_NOTIFY_CHANGE = Some (CmdNotifyChange M P)"
  and "map_of (stubFuncMap R M m0 P) CMD_NORMALIZE_URI = Some (CmdNormalizeUri M P)"
  and "map_of (stubFuncMap R M m0 P) CMD_DENORMALIZE_URI = Some (CmdDenormalizeUri M P)"
  and "map_of (stubFuncMap R M m0 P) CMD_EXECUTE_BATCH = Some (CmdExecuteBatch M m0 P)"
  by (simp_all add: stubFuncMap_def command_codes)

lemma remote_send:
  assumes M: "message_ok M items dup" and tr: "transports M items H send"
    and t: "talks items ok W (\<lambda>p. H code p (new_message M) s) (\<lambda>x. send_or send code s d k) (\<lambda>x. answer_with wr (new_message M) (f x))"
    and x: "ok x" and c: "carries items okr wr rd r" and g: "\<And>reply v q. rd reply = Some (v, q) \<Longrightarrow> k reply = g v"
    and no: "\<And>ret s'. f x = Some (ret, s') \<Longrightarrow> \<not> okr ret \<Longrightarrow> wr ret (new_message M) = Some None"
  shows "W x (new_message M) = map_option (\<lambda>(ret, s). (if okr ret then g (r ret) else d, s)) (f x)"
  by (rule remote_call [OF M tr t [unfolded send_or_def [abs_def]] x c]) (simp_all add: g no)

text \<open>An integer comes back as it is.\<close>

lemma remote_index:
  assumes M: "message_ok M items dup" and tr: "transports M items H send"
    and t: "talks items ok W (\<lambda>p. H code p (new_message M) s) (\<lambda>x. send_or send code s (- 1) (read_index M))
      (\<lambda>x. answer_with (\<lambda>i p. Some (MsgWriteInt32 M i p)) (new_message M) (f x))" and x: "ok x"
  shows "W x (new_message M) = f x"
  using remote_send [OF M tr t x message_carries(2) [OF M], where g = "case_option (- 1) (\<lambda>i. i)"] by (simp add: read_index_def option.map_id)

lemma remote_insert:
  assumes M: "message_ok M items dup" and tr: "transports M items (OnRemoteRequest R M m0 ipc P) send" and ok: "bucket_ok bucket"
  shows "Proxy_Insert M send uri bucket s = ids_Insert P uri (arrived_bucket bucket) s"
proof -
  have t: "talks items (\<lambda>x. bucket_ok (snd x))
      (\<lambda>x p. write_or (Some (WriteInterfaceToken M IDATASHARE_DESCRIPTOR p)) (Some (- 1, s)) (\<lambda>p. write_or (Some (WriteUri M (fst x) p)) (Some (- 1, s)) (\<lambda>p. write_or (write_bucket M (snd x) p) (Some (- 1, s)) (\<lambda>p. (send_or send CMD_INSERT s (- 1) (read_index M)) p))))
      (\<lambda>p. OnRemoteRequest R M m0 ipc P CMD_INSERT p (new_message M) s) (\<lambda>x. send_or send CMD_INSERT s (- 1) (read_index M))
      (\<lambda>x. answer_with (\<lambda>i p. Some (MsgWriteInt32 M i p)) (new_message M) (ids_Insert P (fst x) (arrived_bucket (snd x)) s))"
    apply (rule talks_start [OF M stub_lookups(4)], unfold CmdInsert_def)
    apply (rule talks_read [OF carries_arg [OF message_carries(8) [OF M]]], simp)
    apply (rule talks_read [OF carries_arg [OF bucket_carries [OF M]]], simp)
    apply (rule talks_end, simp)
    done
  from remote_index [OF M tr t, of "(uri, bucket)"] ok show ?thesis by (simp add: Proxy_Insert_def request_for_def Let_def)
qed

lemma remote_update:
  assumes M: "message_ok M items dup" and tr: "transports M items (OnRemoteRequest R M m0 ipc P) send" and ok: "sendable predicates \<and> bucket_ok bucket"
  shows "Proxy_Update M send uri predicates bucket s = ids_Update P uri (received m0 predicates) (arrived_bucket bucket) s"
proof -
  have t: "talks items (\<lambda>x. sendable (fst (snd x)) \<and> bucket_ok (snd (snd x)))
      (\<lambda>x p. write_or (Some (WriteInterfaceToken M IDATASHARE_DESCRIPTOR p)) (Some (- 1, s)) (\<lambda>p. write_or (Some (WriteUri M (fst x) p)) (Some (- 1, s)) (\<lambda>p. write_or (write_predicates M (fst (snd x)) p) (Some (- 1, s)) (\<lambda>p. write_or (write_bucket M (snd (snd x)) p) (Some (- 1, s)) (\<lambda>p. (send_or send CMD_UPDATE s (- 1) (read_index M)) p)))))
      (\<lambda>p. OnRemoteRequest R M m0 ipc P CMD_UPDATE p (new_message M) s) (\<lambda>x. send_or send CMD_UPDATE s (- 1) (read_index M))
      (\<lambda>x. answer_with (\<lambda>i p. Some (MsgWriteInt32 M i p)) (new_message M) (ids_Update P (fst x) (received m0 (fst (snd x))) (arrived_bucket (snd (snd x))) s))"
    apply (rule talks_start [OF M stub_lookups(5)], unfold CmdUpdate_def)
    apply (rule talks_read [OF carries_arg [OF message_carries(8) [OF M]]], simp)
    apply (rule talks_read [OF carries_arg [OF predicates_carries [OF M]]], simp)
    apply (rule talks_read [OF carries_arg [OF bucket_carries [OF M]]], simp)
    apply (rule talks_end, simp)
    done
  from remote_index [OF M tr t, of "(uri, predicates, bucket)"] ok show ?thesis by (simp add: Proxy_Update_def request_for_def Let_def)
qed

lemma remote_delete:
  assumes M: "message_ok M items dup" and tr: "transports M items (OnRemoteRequest R M m0 ipc P) send" and ok: "sendable predicates"
  shows "Proxy_Delete M send uri predicates s = ids_Delete P uri (received m0 predicates) s"
proof -
  have t: "talks items (\<lambda>x. sendable (snd x))
      (\<lambda>x p. write_or (Some (WriteInterfaceToken M IDATASHARE_DESCRIPTOR p)) (Some (- 1, s)) (\<lambda>p. write_or (Some (WriteUri M (fst x) p)) (Some (- 1, s)) (\<lambda>p. write_or (write_predicates M (snd x) p) (Some (- 1, s)) (\<lambda>p. (send_or send CMD_DELETE s (- 1) (read_index M)) p))))
      (\<lambda>p. OnRemoteRequest R M m0 ipc P CMD_DELETE p (new_message M) s) (\<lambda>x. send_or send CMD_DELETE s (- 1) (read_index M))
      (\<lambda>x. answer_with (\<lambda>i p. Some (MsgWriteInt32 M i p)) (new_message M) (ids_Delete P (fst x) (received m0 (snd x)) s))"
    apply (rule talks_start [OF M stub_lookups(6)], unfold CmdDelete_def)
    apply (rule talks_read [OF carries_arg [OF message_carries(8) [OF M]]], simp)
    apply (rule talks_read [OF carries_arg [OF predicates_carries [OF M]]], simp)
    apply (rule talks_end, simp)
    done
  from remote_index [OF M tr t, of "(uri, predicates)"] ok show ?thesis by (simp add: Proxy_Delete_def request_for_def Let_def)
qed

lemma remote_open_raw_file:
  assumes M: "message_ok M items dup" and tr: "transports M items (OnRemoteRequest R M m0 ipc P) send" and ok: "mode \<noteq> []"
  shows "Proxy_OpenRawFile M send uri mode s = ids_OpenRawFile P uri mode s"
proof -
  have t: "talks items (\<lambda>x. (snd x) \<noteq> [])
      (\<lambda>x p. write_or (Some (WriteInterfaceToken M IDATASHARE_DESCRIPTOR p)) (Some (- 1, s)) (\<lambda>p. write_or (Some (WriteUri M (fst x) p)) (Some (- 1, s)) (\<lambda>p. write_or (Some (MsgWriteString M (snd x) p)) (Some (- 1, s)) (\<lambda>p. (send_or send CMD_OPEN_RAW_FILE s (- 1) (read_index M)) p))))
      (\<lambda>p. OnRemoteRequest R M m0 ipc P CMD_OPEN_RAW_FILE p (new_message M) s) (\<lambda>x. send_or send CMD_OPEN_RAW_FILE s (- 1) (read_index M))
      (\<lambda>x. answer_with (\<lambda>i p. Some (MsgWriteInt32 M i p)) (new_message M) (ids_OpenRawFile P (fst x) (snd x) s))"
    apply (rule talks_start [OF M stub_lookups(3)], unfold CmdOpenRawFile_def)
    apply (rule talks_read [OF carries_arg [OF message_carries(8) [OF M]]], simp)
    apply (rule talks_string [OF M])
    apply (rule talks_end, auto)
    done
  from remote_index [OF M tr t, of "(uri, mode)"] ok show ?thesis by (simp add: Proxy_OpenRawFile_def request_for_def Let_def)
qed

lemma remote_open_file:
  assumes M: "message_ok M items dup" and tr: "transports M items (OnRemoteRequest R M m0 ipc P) send" and ok: "mode \<noteq> []"
  shows "Proxy_OpenFile M send uri mode s = map_option (\<lambda>(fd, s). (if 0 \<le> sint fd then dup fd else - 1, s)) (ids_OpenFile P uri mode s)"
proof -
  have t: "talks items (\<lambda>x. (snd x) \<noteq> [])
      (\<lambda>x p. write_or (Some (WriteInterfaceToken M IDATASHARE_DESCRIPTOR p)) (Some (- 1, s)) (\<lambda>p. write_or (Some (WriteUri M (fst x) p)) (Some (- 1, s)) (\<lambda>p. write_or (Some (MsgWriteString M (snd x) p)) (Some (- 1, s)) (\<lambda>p. (send_or send CMD_OPEN_FILE s (- 1) (\<lambda>reply. fst (ReadFileDescriptor M reply))) p))))
      (\<lambda>p. OnRemoteRequest R M m0 ipc P CMD_OPEN_FILE p (new_message M) s) (\<lambda>x. send_or send CMD_OPEN_FILE s (- 1) (\<lambda>reply. fst (ReadFileDescriptor M reply)))
      (\<lambda>x. answer_with (\<lambda>fd p. if sint fd < 0 then Some None else Some (WriteFileDescriptor M fd p)) (new_message M) (ids_OpenFile P (fst x) (snd x) s))"
    apply (rule talks_start [OF M stub_lookups(2)], unfold CmdOpenFile_def)
    apply (rule talks_read [OF carries_arg [OF message_carries(8) [OF M]]], simp)
    apply (rule talks_string [OF M])
    apply (rule talks_end, auto)
    done
  have "carries items (\<lambda>fd. 0 \<le> sint fd) (\<lambda>fd p. if sint fd < 0 then Some None else Some (WriteFileDescriptor M fd p))
      (\<lambda>p. Some (ReadFileDescriptor M p)) dup"
    by (rule carries_cong [OF _ message_carries(6) [OF M]]) auto
  from remote_send [OF M tr t, where x = "(uri, mode)", OF _ this, where g = "\<lambda>fd. fd"] ok show ?thesis
    by (simp add: Proxy_OpenFile_def request_for_def)
qed

lemma remote_get_type:
  assumes M: "message_ok M items dup" and tr: "transports M items (OnRemoteRequest R M m0 ipc P) send"
  shows "Proxy_GetType M send uri s = ids_GetType P uri s"
proof -
  have t: "talks items (\<lambda>x. True)
      (\<lambda>x p. write_or (Some (WriteInterfaceToken M IDATASHARE_DESCRIPTOR p)) (Some ([], s)) (\<lambda>p. write_or (Some (WriteUri M x p)) (Some ([], s)) (\<lambda>p. (send_or send CMD_GET_TYPE s ([]) (\<lambda>reply. fst (MsgReadString M reply))) p)))
      (\<lambda>p. OnRemoteRequest R M m0 ipc P CMD_GET_TYPE p (new_message M) s) (\<lambda>x. send_or send CMD_GET_TYPE s ([]) (\<lambda>reply. fst (MsgReadString M reply)))
      (\<lambda>x. answer_with (\<lambda>type p. Some (MsgWriteString M type p)) (new_message M) (ids_GetType P x s))"
    apply (rule talks_start [OF M stub_lookups(8)], unfold CmdGetType_def)
    apply (rule talks_read [OF carries_arg [OF message_carries(8) [OF M]]], simp)
    apply (rule talks_end, simp)
    done
  from remote_send [OF M tr t, where x = uri, OF _ message_carries(4) [OF M], where g = "\<lambda>v. v"] show ?thesis
    by (simp add: Proxy_GetType_def request_for_def option.map_id)
qed

lemma remote_normalize_uri:
  assumes M: "message_ok M items dup" and tr: "transports M items (OnRemoteRequest R M m0 ipc P) send"
  shows "Proxy_NormalizeUri M send uri s = ids_NormalizeUri P uri s"
proof -
  have t: "talks items (\<lambda>x. True)
      (\<lambda>x p. write_or (Some (WriteInterfaceToken M IDATASHARE_DESCRIPTOR p)) (Some ([], s)) (\<lambda>p. write_or (Some (WriteUri M x p)) (Some ([], s)) (\<lambda>p. (send_or send CMD_NORMALIZE_URI s ([]) (read_uri_reply M)) p)))
      (\<lambda>p. OnRemoteRequest R M m0 ipc P CMD_NORMALIZE_URI p (new_message M) s) (\<lambda>x. send_or send CMD_NORMALIZE_URI s ([]) (read_uri_reply M))
      (\<lambda>x. answer_with (\<lambda>ret p. Some (WriteUri M ret p)) (new_message M) (ids_NormalizeUri P x s))"
    apply (rule talks_start [OF M stub_lookups(13)], unfold CmdNormalizeUri_def)
    apply (rule talks_read [OF carries_arg [OF message_carries(8) [OF M]]], simp)
    apply (rule talks_end, simp)
    done
  from remote_send [OF M tr t, where x = uri, OF _ message_carries(8) [OF M], where g = "case_option [] (\<lambda>v. v)"] show ?thesis
    by (simp add: Proxy_NormalizeUri_def request_for_def read_uri_reply_def option.map_id)
qed

lemma remote_denormalize_uri:
  assumes M: "message_ok M items dup" and tr: "transports M items (OnRemoteRequest R M m0 ipc P) send"
  shows "Proxy_DenormalizeUri M send uri s = ids_DenormalizeUri P uri s"
proof -
  have t: "talks items (\<lambda>x. True)
      (\<lambda>x p. write_or (Some (WriteInterfaceToken M IDATASHARE_DESCRIPTOR p)) (Some ([], s)) (\<lambda>p. write_or (Some (WriteUri M x p)) (Some ([], s)) (\<lambda>p. (send_or send CMD_DENORMALIZE_URI s ([]) (read_uri_reply M)) p)))
      (\<lambda>p. OnRemoteRequest R M m0 ipc P CMD_DENORMALIZE_URI p (new_message M) s) (\<lambda>x. send_or send CMD_DENORMALIZE_URI s ([]) (read_uri_reply M))
      (\<lambda>x. answer_with (\<lambda>ret p. Some (WriteUri M ret p)) (new_message M) (ids_DenormalizeUri P x s))"
    apply (rule talks_start [OF M stub_lookups(14)], unfold CmdDenormalizeUri_def)
    apply (rule talks_read [OF carries_arg [OF message_carries(8) [OF M]]], simp)
    apply (rule talks_end, simp)
    done
  from remote_send [OF M tr t, where x = uri, OF _ message_carries(8) [OF M], where g = "case_option [] (\<lambda>v. v)"] show ?thesis
    by (simp add: Proxy_DenormalizeUri_def request_for_def read_uri_reply_def option.map_id)
qed

lemma remote_register:
  assumes M: "message_ok M items dup" and tr: "transports M items (OnRemoteRequest R M m0 ipc P) send"
  shows "Proxy_RegisterObserver M send uri observer s = map_option (\<lambda>(_, s). (True, s)) (ids_RegisterObserver P uri observer s)"
proof -
  have t: "talks items (\<lambda>x. True)
      (\<lambda>x p. write_or (Some (WriteInterfaceToken M IDATASHARE_DESCRIPTOR p)) (Some (False, s)) (\<lambda>p. write_or (Some (WriteUri M (fst x) p)) (Some (False, s)) (\<lambda>p. write_or (Some (WriteRemoteObject M (snd x) p)) (Some (False, s)) (\<lambda>p. (send_or send CMD_REGISTER_OBSERVER s (False) (\<lambda>_. True)) p))))
      (\<lambda>p. OnRemoteRequest R M m0 ipc P CMD_REGISTER_OBSERVER p (new_message M) s) (\<lambda>x. send_or send CMD_REGISTER_OBSERVER s (False) (\<lambda>_. True))
      (\<lambda>x. answer_with (\<lambda>ret p. Some (MsgWriteInt32 M (of_bool ret) p)) (new_message M) (ids_RegisterObserver P (fst x) (snd x) s))"
    apply (rule talks_start [OF M stub_lookups(10)], unfold CmdRegisterObserver_def)
    apply (rule talks_read [OF carries_arg [OF message_carries(8) [OF M]]], simp)
    apply (rule talks_read [OF carries_arg [OF message_carries(7) [OF M]]], simp)
    apply (rule talks_end, simp)
    done
  from remote_send [OF M tr t, where x = "(uri, observer)", OF _ carries_arg [OF message_carries(2) [OF M], where ok = "\<lambda>_. True"], where g = "\<lambda>_. True"] show ?thesis
    by (simp add: Proxy_RegisterObserver_def request_for_def)
qed

lemma remote_unregister:
  assumes M: "message_ok M items dup" and tr: "transports M items (OnRemoteRequest R M m0 ipc P) send"
  shows "Proxy_UnregisterObserver M send uri observer s = map_option (\<lambda>(_, s). (True, s)) (ids_UnregisterObserver P uri observer s)"
proof -
  have t: "talks items (\<lambda>x. True)
      (\<lambda>x p. write_or (Some (WriteInterfaceToken M IDATASHARE_DESCRIPTOR p)) (Some (False, s)) (\<lambda>p. write_or (Some (WriteUri M (fst x) p)) (Some (False, s)) (\<lambda>p. write_or (Some (WriteRemoteObject M (snd x) p)) (Some (False, s)) (\<lambda>p. (send_or send CMD_UNREGISTER_OBSERVER s (False) (\<lambda>_. True)) p))))
      (\<lambda>p. OnRemoteRequest R M m0 ipc P CMD_UNREGISTER_OBSERVER p (new_message M) s) (\<lambda>x. send_or send CMD_UNREGISTER_OBSERVER s (False) (\<lambda>_. True))
      (\<lambda>x. answer_with (\<lambda>ret p. Some (MsgWriteInt32 M (of_bool ret) p)) (new_message M) (ids_UnregisterObserver P (fst x) (snd x) s))"
    apply (rule talks_start [OF M stub_lookups(11)], unfold CmdUnregisterObserver_def)
    apply (rule talks_read [OF carries_arg [OF message_carries(8) [OF M]]], simp)
    apply (rule talks_read [OF carries_arg [OF message_carries(7) [OF M]]], simp)
    apply (rule talks_end, simp)
    done
  from remote_send [OF M tr t, where x = "(uri, observer)", OF _ carries_arg [OF message_carries(2) [OF M], where ok = "\<lambda>_. True"], where g = "\<lambda>_. True"] show ?thesis
    by (simp add: Proxy_UnregisterObserver_def request_for_def)
qed

lemma remote_notify:
  assumes M: "message_ok M items dup" and tr: "transports M items (OnRemoteRequest R M m0 ipc P) send"
  shows "Proxy_NotifyChange M send uri s = map_option (\<lambda>(_, s). (True, s)) (ids_NotifyChange P uri s)"
proof -
  have t: "talks items (\<lambda>x. True)
      (\<lambda>x p. write_or (Some (WriteInterfaceToken M IDATASHARE_DESCRIPTOR p)) (Some (False, s)) (\<lambda>p. write_or (Some (WriteUri M x p)) (Some (False, s)) (\<lambda>p. (send_or send CMD_NOTIFY_CHANGE s (False) (\<lambda>_. True)) p)))
      (\<lambda>p. OnRemoteRequest R M m0 ipc P CMD_NOTIFY_CHANGE p (new_message M) s) (\<lambda>x. send_or send CMD_NOTIFY_CHANGE s (False) (\<lambda>_. True))
      (\<lambda>x. answer_with (\<lambda>ret p. Some (MsgWriteInt32 M (of_bool ret) p)) (new_message M) (ids_NotifyChange P x s))"
    apply (rule talks_start [OF M stub_lookups(12)], unfold CmdNotifyChange_def)
    apply (rule talks_read [OF carries_arg [OF message_carries(8) [OF M]]], simp)
    apply (rule talks_end, simp)
    done
  from remote_send [OF M tr t, where x = uri, OF _ carries_arg [OF message_carries(2) [OF M], where ok = "\<lambda>_. True"], where g = "\<lambda>_. True"] show ?thesis
    by (simp add: Proxy_NotifyChange_def request_for_def)
qed

lemma remote_get_file_types:
  assumes M: "message_ok M items dup" and tr: "transports M items (OnRemoteRequest R M m0 ipc P) send" and ok: "mimeTypeFilter \<noteq> []"
  shows "Proxy_GetFileTypes M send uri mimeTypeFilter s = ids_GetFileTypes P uri mimeTypeFilter s"
proof -
  have t: "talks items (\<lambda>x. (snd x) \<noteq> [])
      (\<lambda>x p. write_or (Some (WriteInterfaceToken M IDATASHARE_DESCRIPTOR p)) (Some ([], s)) (\<lambda>p. write_or (Some (WriteUri M (fst x) p)) (Some ([], s)) (\<lambda>p. write_or (Some (MsgWriteString M (snd x) p)) (Some ([], s)) (\<lambda>p. (\<lambda>p. case send CMD_GET_FILE_TYPES p s of None \<Rightarrow> None | Some (err, reply, s) \<Rightarrow> Some (case MsgReadStringVector M reply of (Some types, _) \<Rightarrow> types | (None, _) \<Rightarrow> [], s)) p))))
      (\<lambda>p. OnRemoteRequest R M m0 ipc P CMD_GET_FILE_TYPES p (new_message M) s) (\<lambda>x. \<lambda>p. case send CMD_GET_FILE_TYPES p s of None \<Rightarrow> None | Some (err, reply, s) \<Rightarrow> Some (case MsgReadStringVector M reply of (Some types, _) \<Rightarrow> types | (None, _) \<Rightarrow> [], s))
      (\<lambda>x. answer_with (\<lambda>types p. Some (MsgWriteStringVector M types p)) (new_message M) (ids_GetFileTypes P (fst x) (snd x) s))"
    apply (rule talks_start [OF M stub_lookups(1)], unfold CmdGetFileTypes_def)
    apply (rule talks_read [OF carries_arg [OF message_carries(8) [OF M]]], simp)
    apply (rule talks_string [OF M])
    apply (rule talks_end, auto)
    done
  from remote_call [OF M tr t, where x = "(uri, mimeTypeFilter)", OF _ message_carries(5) [OF M], where g = "case_option [] (\<lambda>v. v)" and d = "[]"] ok show ?thesis
    by (simp add: Proxy_GetFileTypes_def request_for_def option.map_id)
qed

text \<open>A result set is its remote object and its block.\<close>

lemma result_set_carries:
  assumes M: "message_ok M items dup" and R: "rs_ok R items view"
  shows "carries items (\<lambda>r. r \<noteq> None) (\<lambda>r p. case r of None \<Rightarrow> Some None | Some r \<Rightarrow> Some (Some (CreateStub M R r p))) (\<lambda>p. Some (CreateProxy M R p)) (map_option view)"
proof -
  obtain eo where eo: "coded items (\<lambda>_. True) (\<lambda>x p. Some (WriteRemoteObject M x p)) (\<lambda>p. Some (ReadRemoteObject M p)) Some eo"
    using message_carries(7) [OF M] by (rule carriesE)
  obtain enc where w: "\<And>r p. items (rs_Marshalling R r p) = items p @ enc r"
    and rd: "\<And>r p rest. items p = enc r @ rest \<Longrightarrow> \<exists>q. rs_proxy R (rs_stub R r) p = (view r, q) \<and> items q = rest"
    using R unfolding rs_ok_def by blast
  show ?thesis
  proof (rule carriesI [where enc = "\<lambda>r. eo (rs_stub R (the r)) @ enc (the r)"])
    fix r :: "'c option" and p assume "r \<noteq> None"
    then obtain v where r: "r = Some v" by auto
    obtain q where "WriteRemoteObject M (rs_stub R v) p = Some q" "items q = items p @ eo (rs_stub R v)"
      using coded_write [OF eo, where x = "rs_stub R v" and p = p] by auto
    then show "\<exists>q. (case r of None \<Rightarrow> Some None | Some r \<Rightarrow> Some (Some (CreateStub M R r p))) = Some (Some q) \<and> items q = items p @ eo (rs_stub R (the r)) @ enc (the r)"
      using r w by (simp add: CreateStub_def)
  next
    fix r :: "'c option" and p rest assume "r \<noteq> None" and i: "items p = (eo (rs_stub R (the r)) @ enc (the r)) @ rest"
    then obtain v where r: "r = Some v" by auto
    obtain q where q: "ReadRemoteObject M p = (Some (rs_stub R v), q)" "items q = enc v @ rest"
      using coded_read [OF eo, where x = "rs_stub R v" and p = p and rest = "enc v @ rest"] i r by auto
    obtain q' where "rs_proxy R (rs_stub R v) q = (view v, q')" "items q' = rest" using rd [OF q(2)] by auto
    with q r show "\<exists>q. Some (CreateProxy M R p) = Some (map_option view r, q) \<and> items q = rest" by (simp add: CreateProxy_def)
  qed
qed

lemma remote_query:
  assumes M: "message_ok M items dup" and tr: "transports M items (OnRemoteRequest R M m0 ipc P) send" and ok: "sendable predicates" and R: "rs_ok R items view"
  shows "Proxy_Query R M send uri predicates columns s = map_option (\<lambda>(resultSet, s). (map_option view resultSet, s)) (ids_Query P uri (received m0 predicates) columns s)"
proof -
  have t: "talks items (\<lambda>x. sendable (fst (snd x)))
      (\<lambda>x p. write_or (Some (WriteInterfaceToken M IDATASHARE_DESCRIPTOR p)) (Some (None, s)) (\<lambda>p. write_or (Some (WriteUri M (fst x) p)) (Some (None, s)) (\<lambda>p. write_or (write_predicates M (fst (snd x)) p) (Some (None, s)) (\<lambda>p. write_or (Some (MsgWriteStringVector M (snd (snd x)) p)) (Some (None, s)) (\<lambda>p. (send_or send CMD_QUERY s (None) (\<lambda>reply. fst (CreateProxy M R reply))) p)))))
      (\<lambda>p. OnRemoteRequest R M m0 ipc P CMD_QUERY p (new_message M) s) (\<lambda>x. send_or send CMD_QUERY s (None) (\<lambda>reply. fst (CreateProxy M R reply)))
      (\<lambda>x. answer_with (\<lambda>resultSet p. case resultSet of None \<Rightarrow> Some None | Some r \<Rightarrow> Some (Some (CreateStub M R r p))) (new_message M) (ids_Query P (fst x) (received m0 (fst (snd x))) (snd (snd x)) s))"
    apply (rule talks_start [OF M stub_lookups(7)], unfold CmdQuery_def)
    apply (rule talks_read [OF carries_arg [OF message_carries(8) [OF M]]], simp)
    apply (rule talks_read [OF carries_arg [OF predicates_carries [OF M]]], simp)
    apply (rule talks_read [OF carries_arg [OF message_carries(5) [OF M]]], simp)
    apply (rule talks_end, simp)
    done
  have e: "(if resultSet \<noteq> None then map_option view resultSet else None) = map_option view resultSet" for resultSet by (cases resultSet) auto
  from remote_send [OF M tr t, where x = "(uri, predicates, columns)", OF _ result_set_carries [OF M R], where g = "\<lambda>c. c"] ok show ?thesis unfolding e
    by (simp add: Proxy_Query_def request_for_def)
qed


lemma remote_batch_insert:
  assumes M: "message_ok M items dup" and tr: "transports M items (OnRemoteRequest R M m0 ipc P) send"
    and ok: "length buckets < 2 ^ 31 \<and> list_all bucket_ok buckets"
  shows "Proxy_BatchInsert M send uri buckets s = ids_BatchInsert P uri (map arrived_bucket buckets) s"
proof -
  have t: "talks items (\<lambda>x. length (snd x) < 2 ^ 31 \<and> list_all bucket_ok (snd x))
      (\<lambda>x p. write_or (Some (WriteInterfaceToken M IDATASHARE_DESCRIPTOR p)) (Some (- 1, s)) (\<lambda>p. write_or (Some (WriteUri M (fst x) p)) (Some (- 1, s))
        (\<lambda>p. write_or (Some (MsgWriteInt32 M (of_nat (length (snd x))) p)) (Some (- 1, s))
        (\<lambda>p. write_or (write_list (write_bucket M) (take (nat (sint (of_nat (length (snd x)) :: 32 word))) (snd x)) p) (Some (- 1, s))
          (send_or send CMD_BATCH_INSERT s (- 1) (read_index M))))))
      (\<lambda>p. OnRemoteRequest R M m0 ipc P CMD_BATCH_INSERT p (new_message M) s) (\<lambda>x. send_or send CMD_BATCH_INSERT s (- 1) (read_index M))
      (\<lambda>x. answer_with (\<lambda>i p. Some (MsgWriteInt32 M i p)) (new_message M) (ids_BatchInsert P (fst x) (map arrived_bucket (snd x)) s))"
    apply (rule talks_start [OF M stub_lookups(9)], unfold CmdBatchInsert_def)
    apply (rule talks_read [OF carries_arg [OF message_carries(8) [OF M]]], simp)
    apply (rule talks_list [OF M bucket_carries [OF M]], simp)
    apply (rule talks_end, simp)
    done
  from remote_index [OF M tr t, of "(uri, buckets)"] ok show ?thesis by (simp add: Proxy_BatchInsert_def request_for_def Let_def)
qed

text \<open>A vector with its length in front.\<close>

lemma vector_carries:
  assumes M: "message_ok M items dup" and c: "carries items ok wr rd (\<lambda>x. Some (r x))"
  shows "carries items (\<lambda>xs. length xs < 2 ^ 31 \<and> list_all ok xs)
     (\<lambda>xs p. write_or (Some (MsgWriteInt32 M (of_nat (length xs)) p)) (Some None) (write_list wr (take (nat (sint (of_nat (length xs) :: 32 word))) xs)))
     (\<lambda>p. read_or (Some (MsgReadInt32 M p)) fl (\<lambda>n. read_list rd (nat (sint n)))) (\<lambda>xs. (True, map r xs))"
proof (rule carries_then [OF carries_arg [OF message_carries(2) [OF M]]])
  fix n :: "32 word"
  let ?ok = "\<lambda>xs. (length xs < 2 ^ 31 \<and> list_all ok xs) \<and> of_nat (length xs) = n"
  have n: "nat (sint n) = length xs" if "?ok xs" for xs using that sint_of_nat_31 [of "length xs"] by auto
  have "carries items ?ok (write_list wr) (read_list rd (nat (sint n))) (\<lambda>xs. (True, map r xs))"
    by (rule carries_arg [OF list_carries [OF c], where g = "\<lambda>xs. xs"]) (use n in auto)
  then show "carries items ?ok (\<lambda>xs. write_list wr (take (nat (sint (of_nat (length xs) :: 32 word))) xs)) (read_list rd (nat (sint n))) (\<lambda>xs. (True, map r xs))"
    by (rule carries_cong [rotated]) (use n in auto)
qed simp

definition results_ok :: "DataShareResult option list \<Rightarrow> bool" where
  "results_ok results \<longleftrightarrow> length results < 2 ^ 31 \<and> None \<notin> set results"

lemma results_carries:
  assumes M: "message_ok M items dup"
  shows "carries items results_ok (write_results M)
    (\<lambda>p. read_or (Some (MsgReadInt32 M p)) (\<lambda>p. Some ((False, []), p)) (\<lambda>n. read_list (read_result M) (nat (sint n)))) (\<lambda>xs. (True, map the xs))"
proof -
  have "carries items (\<lambda>r. r \<noteq> None) (\<lambda>r p. case r of None \<Rightarrow> Some None | Some r \<Rightarrow> write_result M r p) (read_result M) (\<lambda>r. Some (the r))"
    by (rule carries_cong [OF _ carries_arg [OF result_carries [OF M], where g = the]]) auto
  then have "carries items results_ok
     (\<lambda>xs p. write_or (Some (MsgWriteInt32 M (of_nat (length xs)) p)) (Some None)
        (write_list (\<lambda>r p. case r of None \<Rightarrow> Some None | Some r \<Rightarrow> write_result M r p) (take (nat (sint (of_nat (length xs) :: 32 word))) xs)))
     (\<lambda>p. read_or (Some (MsgReadInt32 M p)) (\<lambda>p. Some ((False, []), p)) (\<lambda>n. read_list (read_result M) (nat (sint n)))) (\<lambda>xs. (True, map the xs))"
    by (intro carries_arg [OF vector_carries [OF M], where g = "\<lambda>xs. xs"]) (simp_all add: results_ok_def list_all_iff, metis not_None_eq)
  then show ?thesis unfolding write_results_def [abs_def] Let_def .
qed

lemma null_result_refused:
  assumes M: "message_ok M items dup" and n: "length results < 2 ^ 31" "\<not> results_ok results"
  shows "write_results M results p = Some None"
proof -
  have null: "write_list (\<lambda>r p. case r of None \<Rightarrow> Some None | Some r \<Rightarrow> write_result M r p) rs p = Some None" if "None \<in> set rs" for rs p
    using that
  proof (induction rs arbitrary: p)
    case (Cons r rs)
    obtain er where er: "coded items (\<lambda>_. True) (write_result M) (read_result M) Some er" using result_carries [OF M] by (rule carriesE)
    show ?case
    proof (cases r)
      case (Some v)
      obtain q where "write_result M v p = Some (Some q)" using coded_write [OF er, where x = v and p = p] by auto
      then show ?thesis using Some Cons by auto
    qed simp
  qed simp
  obtain ei where ei: "coded items (\<lambda>_. True) (\<lambda>x p. Some (MsgWriteInt32 M x p)) (\<lambda>p. Some (MsgReadInt32 M p)) Some ei"
    using message_carries(2) [OF M] by (rule carriesE)
  obtain q where "MsgWriteInt32 M (of_nat (length results)) p = Some q" using coded_write [OF ei, where x = "of_nat (length results)" and p = p] by auto
  then show ?thesis using n null [of results] by (simp add: write_results_def Let_def sint_of_nat_31 results_ok_def)
qed

lemma remote_execute_batch:
  assumes M: "message_ok M items dup" and tr: "transports M items (OnRemoteRequest R M m0 ipc P) send"
    and ok: "length operations < 2 ^ 31 \<and> list_all (\<lambda>x. x \<noteq> None \<and> op_ok (the x)) operations"
    and len: "\<And>ops s results s'. ids_ExecuteBatch P ops s = Some (results, s') \<Longrightarrow> length results < 2 ^ 31"
  shows "Proxy_ExecuteBatch M send operations s =
    map_option (\<lambda>(results, s). (if None \<in> set results then [] else results, s)) (ids_ExecuteBatch P (map (map_option (arrived_operation m0)) operations) s)"
proof -
  let ?K = "\<lambda>data. case send CMD_EXECUTE_BATCH data s of None \<Rightarrow> None | Some (err, reply, s) \<Rightarrow>
      if err \<noteq> NO_ERROR then Some ([], s) else map_option (\<lambda>results. (results, s)) (read_results M reply)"
  have op: "carries items (\<lambda>x. x \<noteq> None \<and> op_ok (the x)) (write_operation_pointer M) (read_operation M m0) (\<lambda>x. Some (arrived_operation m0 (the x)))"
    by (rule carries_cong [OF _ carries_arg [OF operation_carries [OF M], where g = the]]) (auto simp: write_operation_pointer_def)
  have t: "talks items (\<lambda>x. length x < 2 ^ 31 \<and> list_all (\<lambda>x. x \<noteq> None \<and> op_ok (the x)) x)
      (\<lambda>x p. write_or (Some (WriteInterfaceToken M IDATASHARE_DESCRIPTOR p)) (Some ([], s))
        (\<lambda>p. write_or (Some (MsgWriteInt32 M (of_nat (length x)) p)) (Some ([], s))
        (\<lambda>p. write_or (write_list (write_operation_pointer M) (take (nat (sint (of_nat (length x) :: 32 word))) x) p) (Some ([], s)) ?K)))
      (\<lambda>p. OnRemoteRequest R M m0 ipc P CMD_EXECUTE_BATCH p (new_message M) s) (\<lambda>x. ?K)
      (\<lambda>x. answer_with (write_results M) (new_message M) (ids_ExecuteBatch P (map Some (map (\<lambda>x. arrived_operation m0 (the x)) x)) s))"
    apply (rule talks_start [OF M stub_lookups(15)], unfold CmdExecuteBatch_def)
    apply (rule talks_list [OF M op], simp)
    apply (rule talks_end, simp)
    done
  have ops: "map Some (map (\<lambda>x. arrived_operation m0 (the x)) operations) = map (map_option (arrived_operation m0)) operations"
    using ok by (auto simp: list_all_iff)
  let ?ops = "map (map_option (arrived_operation m0)) operations"
  have e: "(if results_ok results then map Some (map the results) else []) = (if None \<in> set results then [] else results)"
    if "ids_ExecuteBatch P ?ops s = Some (results, s')" for results s'
    using len [OF that] by (auto simp: results_ok_def intro!: map_idI) (metis option.collapse)
  have g: "read_results M reply = Some (map Some (snd v))"
    if "read_or (Some (MsgReadInt32 M reply)) (\<lambda>p. Some ((False, []), p)) (\<lambda>n. read_list (read_result M) (nat (sint n))) = Some (v, q)" for reply v q
    using that by (cases v) (auto simp: read_results_def read_or_def split: prod.splits option.splits)
  have "Proxy_ExecuteBatch M send operations s = map_option (\<lambda>(ret, s). (if results_ok ret then map Some (map the ret) else [], s)) (ids_ExecuteBatch P ?ops s)"
    using remote_call [OF M tr t, where x = operations, OF ok results_carries [OF M], where g = "\<lambda>v. map Some (snd v)" and d = "[]", unfolded ops snd_conv] g len null_result_refused [OF M]
    by (simp add: Proxy_ExecuteBatch_def request_for_def Let_def)
  then show ?thesis using e by (auto intro!: option.map_cong0 split: prod.splits)
qed


subsection \<open>Sequences of calls\<close>

datatype 'o ds_call =
    Call_GetFileTypes string string
  | Call_OpenFile string string
  | Call_OpenRawFile string string
  | Call_Insert string DataShareValuesBucket
  | Call_Update string DataSharePredicates DataShareValuesBucket
  | Call_Delete string DataSharePredicates
  | Call_Query string DataSharePredicates "string list"
  | Call_GetType string
  | Call_BatchInsert string "DataShareValuesBucket list"
  | Call_RegisterObserver string 'o
  | Call_UnregisterObserver string 'o
  | Call_NotifyChange string
  | Call_NormalizeUri string
  | Call_DenormalizeUri string
  | Call_ExecuteBatch "DataShareOperation option list"

datatype 'r ds_answer = Strings "string list" | Index "32 word" | Result_Set "'r option" | Text string | Truth bool | Results "DataShareResult option list"

abbreviation (input) answered :: "('x \<Rightarrow> 'r ds_answer) \<Rightarrow> ('x \<times> 's) option \<Rightarrow> ('r ds_answer \<times> 's) option" where
  "answered f x \<equiv> map_option (\<lambda>(v, s). (f v, s)) x"

fun perform :: "('s, 'o, 'r) IDataShare \<Rightarrow> 'o ds_call \<Rightarrow> ('r ds_answer, 's) call" where
  "perform P (Call_GetFileTypes u f) s = answered Strings (ids_GetFileTypes P u f s)"
| "perform P (Call_OpenFile u m) s = answered Index (ids_OpenFile P u m s)"
| "perform P (Call_OpenRawFile u m) s = answered Index (ids_OpenRawFile P u m s)"
| "perform P (Call_Insert u b) s = answered Index (ids_Insert P u b s)"
| "perform P (Call_Update u d b) s = answered Index (ids_Update P u d b s)"
| "perform P (Call_Delete u d) s = answered Index (ids_Delete P u d s)"
| "perform P (Call_Query u d cs) s = answered Result_Set (ids_Query P u d cs s)"
| "perform P (Call_GetType u) s = answered Text (ids_GetType P u s)"
| "perform P (Call_BatchInsert u bs) s = answered Index (ids_BatchInsert P u bs s)"
| "perform P (Call_RegisterObserver u ob) s = answered Truth (ids_RegisterObserver P u ob s)"
| "perform P (Call_UnregisterObserver u ob) s = answered Truth (ids_UnregisterObserver P u ob s)"
| "perform P (Call_NotifyChange u) s = answered Truth (ids_NotifyChange P u s)"
| "perform P (Call_NormalizeUri u) s = answered Text (ids_NormalizeUri P u s)"
| "perform P (Call_DenormalizeUri u) s = answered Text (ids_DenormalizeUri P u s)"
| "perform P (Call_ExecuteBatch xs) s = answered Results (ids_ExecuteBatch P xs s)"

fun perform_all :: "('s, 'o, 'r) IDataShare \<Rightarrow> 'o ds_call list \<Rightarrow> ('r ds_answer list, 's) call" where
  "perform_all P [] s = Some ([], s)"
| "perform_all P (c # cs) s =
     (case perform P c s of
        None \<Rightarrow> None
      | Some (a, s) \<Rightarrow> map_option (\<lambda>(as, s). (a # as, s)) (perform_all P cs s))"

text \<open>The calls that can be sent, what arrives of them, and what the consumer gets for the provider's answer.\<close>

fun call_ok :: "'o ds_call \<Rightarrow> bool" where
  "call_ok (Call_GetFileTypes u f) \<longleftrightarrow> f \<noteq> []"
| "call_ok (Call_OpenFile u m) \<longleftrightarrow> m \<noteq> []"
| "call_ok (Call_OpenRawFile u m) \<longleftrightarrow> m \<noteq> []"
| "call_ok (Call_Insert u b) \<longleftrightarrow> bucket_ok b"
| "call_ok (Call_Update u d b) \<longleftrightarrow> sendable d \<and> bucket_ok b"
| "call_ok (Call_Delete u d) \<longleftrightarrow> sendable d"
| "call_ok (Call_Query u d cs) \<longleftrightarrow> sendable d"
| "call_ok (Call_BatchInsert u bs) \<longleftrightarrow> length bs < 2 ^ 31 \<and> list_all bucket_ok bs"
| "call_ok (Call_ExecuteBatch xs) \<longleftrightarrow> length xs < 2 ^ 31 \<and> list_all (\<lambda>x. x \<noteq> None \<and> op_ok (the x)) xs"
| "call_ok _ \<longleftrightarrow> True"

fun arrived_call :: "SettingMode \<Rightarrow> 'o ds_call \<Rightarrow> 'o ds_call" where
  "arrived_call m0 (Call_Insert u b) = Call_Insert u (arrived_bucket b)"
| "arrived_call m0 (Call_Update u d b) = Call_Update u (received m0 d) (arrived_bucket b)"
| "arrived_call m0 (Call_Delete u d) = Call_Delete u (received m0 d)"
| "arrived_call m0 (Call_Query u d cs) = Call_Query u (received m0 d) cs"
| "arrived_call m0 (Call_BatchInsert u bs) = Call_BatchInsert u (map arrived_bucket bs)"
| "arrived_call m0 (Call_ExecuteBatch xs) = Call_ExecuteBatch (map (map_option (arrived_operation m0)) xs)"
| "arrived_call m0 c = c"

text \<open>
  A descriptor is duplicated, and an error becomes -1; a result set becomes a proxy of it; a batch with a null result gives no results at all.
  For the observers and for a notification the consumer gets \<open>true\<close> whatever the provider has answered.
\<close>

fun returned :: "(32 word \<Rightarrow> 32 word) \<Rightarrow> ('r \<Rightarrow> 'c) \<Rightarrow> 'o ds_call \<Rightarrow> 'r ds_answer \<Rightarrow> 'c ds_answer" where
  "returned dup view (Call_OpenFile u m) (Index fd) = Index (if 0 \<le> sint fd then dup fd else - 1)"
| "returned dup view c (Truth b) = Truth True"
| "returned dup view c (Results rs) = Results (if None \<in> set rs then [] else rs)"
| "returned dup view c (Result_Set r) = Result_Set (map_option view r)"
| "returned dup view c (Strings xs) = Strings xs"
| "returned dup view c (Index i) = Index i"
| "returned dup view c (Text t) = Text t"

definition connected ::
  "('r, 'o, 'p, 'c) rs_ops \<Rightarrow> ('p, 'o) message_ops \<Rightarrow> ('p \<Rightarrow> ds_item list) \<Rightarrow> (32 word \<Rightarrow> 32 word) \<Rightarrow> ('r \<Rightarrow> 'c) \<Rightarrow> SettingMode \<Rightarrow> (32 word \<Rightarrow> 'p \<Rightarrow> 'p \<Rightarrow> 's \<Rightarrow> ('p, 's) reply) \<Rightarrow>
   ('s, 'o, 'r) IDataShare \<Rightarrow> ('p, 's) sender \<Rightarrow> bool" where
  "connected R M items dup view m0 ipc P send \<longleftrightarrow>
     message_ok M items dup \<and> rs_ok R items view \<and> transports M items (OnRemoteRequest R M m0 ipc P) send"

lemma remote_perform:
  assumes C: "connected R M items dup view m0 ipc P send" and c: "call_ok c"
    and len: "\<And>ops s results s'. ids_ExecuteBatch P ops s = Some (results, s') \<Longrightarrow> length results < 2 ^ 31"
  shows "perform (DataShareProxy R M send) c s = answered (returned dup view c) (perform P (arrived_call m0 c) s)"
proof -
  have M: "message_ok M items dup" and rs: "rs_ok R items view" and tr: "transports M items (OnRemoteRequest R M m0 ipc P) send"
    using C by (simp_all add: connected_def)
  note calls = remote_get_file_types [OF M tr] remote_open_file [OF M tr] remote_open_raw_file [OF M tr] remote_insert [OF M tr] remote_update [OF M tr]
    remote_delete [OF M tr] remote_query [OF M tr _ rs] remote_get_type [OF M tr] remote_batch_insert [OF M tr] remote_register [OF M tr]
    remote_unregister [OF M tr] remote_notify [OF M tr] remote_normalize_uri [OF M tr] remote_denormalize_uri [OF M tr] remote_execute_batch [OF M tr _ len]
  show ?thesis using c by (cases c) (simp_all add: DataShareProxy_def calls option.map_comp comp_def case_prod_unfold)
qed

lemma remote_perform_all:
  assumes C: "connected R M items dup view m0 ipc P send" and cs: "list_all call_ok cs"
    and len: "\<And>ops s results s'. ids_ExecuteBatch P ops s = Some (results, s') \<Longrightarrow> length results < 2 ^ 31"
  shows "perform_all (DataShareProxy R M send) cs s = map_option (\<lambda>(as, s). (map2 (returned dup view) cs as, s)) (perform_all P (map (arrived_call m0) cs) s)"
  using cs
proof (induction cs arbitrary: s)
  case (Cons c cs)
  have "perform (DataShareProxy R M send) c s = answered (returned dup view c) (perform P (arrived_call m0 c) s)"
    by (rule remote_perform [OF C]) (use Cons.prems len in auto)
  with Cons show ?case by (auto simp: option.map_comp comp_def case_prod_unfold split: option.splits)
qed simp


subsection \<open>The provider behind the stub\<close>

text \<open>The extension with its result sets, as the stub would call it directly.\<close>

definition extension_direct :: "('b option \<Rightarrow> 's \<Rightarrow> 'r \<times> 's) \<Rightarrow> ('s, 'o, 'b) IDataShare \<Rightarrow> ('s, 'o, 'r) IDataShare" where
  "extension_direct mk e =
     \<lparr>ids_GetFileTypes = ids_GetFileTypes e, ids_OpenFile = ids_OpenFile e, ids_OpenRawFile = ids_OpenRawFile e, ids_Insert = ids_Insert e,
      ids_Update = ids_Update e, ids_Delete = ids_Delete e,
      ids_Query = (\<lambda>u d cs s. map_option (\<lambda>(b, s). case mk b s of (r, s) \<Rightarrow> (Some r, s)) (ids_Query e u d cs s)),
      ids_GetType = ids_GetType e, ids_BatchInsert = ids_BatchInsert e, ids_RegisterObserver = ids_RegisterObserver e,
      ids_UnregisterObserver = ids_UnregisterObserver e, ids_NotifyChange = ids_NotifyChange e, ids_NormalizeUri = ids_NormalizeUri e,
      ids_DenormalizeUri = ids_DenormalizeUri e, ids_ExecuteBatch = ids_ExecuteBatch e\<rparr>"

lemmas Impl_defs = Impl_GetFileTypes_def Impl_OpenFile_def Impl_OpenRawFile_def Impl_Insert_def Impl_Update_def Impl_Delete_def Impl_Query_def Impl_GetType_def
  Impl_BatchInsert_def Impl_RegisterObserver_def Impl_UnregisterObserver_def Impl_NotifyChange_def Impl_NormalizeUri_def Impl_DenormalizeUri_def Impl_ExecuteBatch_def

lemma impl_runs_extension:
  assumes "\<And>s. Q s = UV_DONE"
  shows "DataShareStubImpl mk Q (Some e) = extension_direct mk e"
  by (simp add: DataShareStubImpl_def extension_direct_def fun_eq_iff Impl_defs on_extension_def SyncCall_def assms)


text \<open>A message as the list of its unread items, and a provider that counts the records it is given and refuses notifications.\<close>

definition list_message :: "(ds_item list, 32 word) message_ops" where
  "list_message =
     \<lparr>base = list_ds, new_message = [],
      WriteInterfaceToken = (\<lambda>x p. Some (p @ [DI (IString x)])),
      ReadInterfaceToken = (\<lambda>p. case p of DI (IString x) # q \<Rightarrow> (x, q) | _ \<Rightarrow> ([], p)),
      MsgWriteInt32 = (\<lambda>x p. Some (p @ [DI (I32 x)])),
      MsgReadInt32 = (\<lambda>p. case p of DI (I32 x) # q \<Rightarrow> (Some x, q) | _ \<Rightarrow> (None, p)),
      MsgWriteBool = (\<lambda>x p. Some (p @ [DI (IBool x)])),
      MsgReadBool = (\<lambda>p. case p of DI (IBool x) # q \<Rightarrow> (x, q) | _ \<Rightarrow> (False, p)),
      MsgWriteString = (\<lambda>x p. Some (p @ [DI (IString x)])),
      MsgReadString = (\<lambda>p. case p of DI (IString x) # q \<Rightarrow> (x, q) | _ \<Rightarrow> ([], p)),
      MsgWriteStringVector = (\<lambda>x p. Some (p @ [DStrings x])),
      MsgReadStringVector = (\<lambda>p. case p of DStrings x # q \<Rightarrow> (Some x, q) | _ \<Rightarrow> (None, p)),
      WriteFileDescriptor = (\<lambda>x p. Some (p @ [DI (I32 x)])),
      ReadFileDescriptor = (\<lambda>p. case p of DI (I32 x) # q \<Rightarrow> (x, q) | _ \<Rightarrow> (- 1, p)),
      WriteRemoteObject = (\<lambda>x p. Some (p @ [DI (I32 x)])),
      ReadRemoteObject = (\<lambda>p. case p of DI (I32 x) # q \<Rightarrow> (Some x, q) | _ \<Rightarrow> (None, p)),
      WriteUri = (\<lambda>x p. Some (p @ [DI (IString x)])),
      ReadUri = (\<lambda>p. case p of DI (IString x) # q \<Rightarrow> (Some x, q) | _ \<Rightarrow> (None, p)),
      MsgWriteNull = (\<lambda>p. Some (p @ [DI (I32 0)])),
      MsgWriteParcelable = (\<lambda>m p. m (p @ [DI (I32 1)])),
      ReadBucket = (\<lambda>u p. case ReadInt32 list_base p of (n, q) \<Rightarrow> if n = 0 then Some (None, q) else u q),
      ReadPredicates = (\<lambda>u p. case ReadInt32 list_base p of (n, q) \<Rightarrow> if n = 0 then Some (None, q) else u q),
      ReadOperation = (\<lambda>u p. case ReadInt32 list_base p of (n, q) \<Rightarrow> if n = 0 then Some (None, q) else u q),
      ReadResult = (\<lambda>u p. case ReadInt32 list_base p of (n, q) \<Rightarrow> if n = 0 then Some (None, q) else u q)\<rparr>"

lemma list_message_ok: "message_ok list_message (\<lambda>p. p) (\<lambda>fd. fd)"
proof -
  have one: "carries (\<lambda>p. p) ok (\<lambda>x p. Some (Some (p @ [e x]))) (\<lambda>p. Some (rd p)) r"
    if "\<And>x rest. ok x \<Longrightarrow> rd (e x # rest) = (r x, rest)" for ok rd and r :: "'x \<Rightarrow> 'y" and e :: "'x \<Rightarrow> ds_item"
    by (rule carriesI [where enc = "\<lambda>x. [e x]"]) (auto simp: that)
  have base: "parcel_fifo_as DI list_base (\<lambda>p. p)" by (simp add: parcel_fifo_as_def list_base_def)
  have ppc: "ppc list_ds = list_base" "WriteInt32 list_base x p = p @ [DI (I32 x)]" for x p by (simp_all add: list_ds_def list_base_def)
  show ?thesis unfolding message_ok_def list_message_def
    by (simp add: list_ds_fifo base ppc one)
qed

definition counting_provider :: "(nat, 32 word, unit) IDataShare" where
  "counting_provider =
     \<lparr>ids_GetFileTypes = (\<lambda>u f s. Some ([f], s)), ids_OpenFile = (\<lambda>u m s. Some (- 2, s)), ids_OpenRawFile = (\<lambda>u m s. Some (3, s)),
      ids_Insert = (\<lambda>u b s. Some (of_nat (length b), s + length b)), ids_Update = (\<lambda>u d b s. Some (0, s)), ids_Delete = (\<lambda>u d s. Some (of_nat s, 0)),
      ids_Query = (\<lambda>u d cs s. Some (Some (), s)), ids_GetType = (\<lambda>u s. Some (u, s)), ids_BatchInsert = (\<lambda>u bs s. Some (of_nat (length bs), s + length bs)),
      ids_RegisterObserver = (\<lambda>u ob s. Some (False, s)), ids_UnregisterObserver = (\<lambda>u ob s. Some (False, s)), ids_NotifyChange = (\<lambda>u s. Some (False, s)),
      ids_NormalizeUri = (\<lambda>u s. Some (u, s)), ids_DenormalizeUri = (\<lambda>u s. Some (u, s)), ids_ExecuteBatch = (\<lambda>xs s. Some ([], s))\<rparr>"

definition unit_sets :: "(unit, 32 word, ds_item list, 32 word) rs_ops" where
  "unit_sets = \<lparr>rs_stub = (\<lambda>_. 9), rs_Marshalling = (\<lambda>_ p. p), rs_proxy = (\<lambda>ob p. (ob, p))\<rparr>"

abbreviation (input) counting_stub :: "(nat, 32 word, unit) IDataShare" where
  "counting_stub \<equiv> DataShareStubImpl (\<lambda>_ s. ((), s)) (\<lambda>_. UV_DONE) (Some counting_provider)"

definition counting_send :: "(ds_item list, nat) sender" where
  "counting_send code data s = OnRemoteRequest unit_sets list_message INVALID_MODE (\<lambda>_ _ reply s. Some (IPC_ERROR 305, reply, s)) counting_stub code data [] s"

lemma counting_connected:
  "connected unit_sets list_message (\<lambda>p. p) (\<lambda>fd. fd) (\<lambda>_. 9) INVALID_MODE (\<lambda>_ _ reply s. Some (IPC_ERROR 305, reply, s)) counting_stub counting_send"
proof -
  have "rs_ok unit_sets (\<lambda>p. p) (\<lambda>_. 9)" unfolding rs_ok_def by (intro exI [where x = "\<lambda>_. []"]) (simp add: unit_sets_def)
  moreover have "new_message list_message = []" by (simp add: list_message_def)
  then have "transports list_message (\<lambda>p. p) (OnRemoteRequest unit_sets list_message INVALID_MODE (\<lambda>_ _ reply s. Some (IPC_ERROR 305, reply, s)) counting_stub) counting_send"
    unfolding transports_def counting_send_def by (auto split: option.split)
  ultimately show ?thesis by (simp add: connected_def list_message_ok)
qed


end
