(* ===== verification/Rdb_Utils.thy ===== *)
theory Rdb_Utils
  imports Rdb_Predicates Data_Share_Predicates
begin

text \<open>
  The translation of data share predicates to predicates of the store (rdb_utils.cpp).  The provider
  receives the operations a consumer recorded and replays them on a table-bound builder.  Printing a
  double with \<open>std::to_string\<close> is the parameter \<open>pr\<close>; \<open>None\<close> is an exception or the use of a variable
  that a failing getter has not set.
\<close>

subsection \<open>Translation\<close>

definition ObjToString :: "(64 word \<Rightarrow> string) \<Rightarrow> DataSharePredicatesObject \<Rightarrow> string option" where
  "ObjToString pr x =
     (case otype x of
        OT_INT \<Rightarrow> map_option (\<lambda>v. to_string (sint v)) (got (Obj_GetInt x))
      | OT_DOUBLE \<Rightarrow> map_option pr (got (Obj_GetDouble x))
      | OT_STRING \<Rightarrow> (case Obj_GetString x of Got s \<Rightarrow> Some s | Failed _ \<Rightarrow> Some '' '' | BadVariantAccess \<Rightarrow> None)
      | OT_BOOL \<Rightarrow> map_option (\<lambda>b. to_string (of_bool b)) (got (Obj_GetBool x))
      | OT_LONG \<Rightarrow> map_option (\<lambda>v. to_string (sint v)) (got (Obj_GetLong x))
      | _ \<Rightarrow> Some '' '')"

definition get_strings :: "DataSharePredicatesObject \<Rightarrow> string list option" where
  "get_strings x = (case oval x of PStrings v \<Rightarrow> Some v | _ \<Rightarrow> None)"

text \<open>One or two or three parameters printed, then the call on the builder.\<close>

definition with_one :: "(64 word \<Rightarrow> string) \<Rightarrow> OperationItem \<Rightarrow> (string \<Rightarrow> pred_call) \<Rightarrow> pred_call option" where
  "with_one pr it c = map_option c (ObjToString pr (para1 it))"

definition with_two :: "(64 word \<Rightarrow> string) \<Rightarrow> OperationItem \<Rightarrow> (string \<Rightarrow> string \<Rightarrow> pred_call) \<Rightarrow> pred_call option" where
  "with_two pr it c = do {
     x1 \<leftarrow> ObjToString pr (para1 it);
     x2 \<leftarrow> ObjToString pr (para2 it);
     Some (c x1 x2)
   }"

definition with_three :: "(64 word \<Rightarrow> string) \<Rightarrow> OperationItem \<Rightarrow> (string \<Rightarrow> string \<Rightarrow> string \<Rightarrow> pred_call) \<Rightarrow> pred_call option" where
  "with_three pr it c = do {
     x1 \<leftarrow> ObjToString pr (para1 it);
     x2 \<leftarrow> ObjToString pr (para2 it);
     x3 \<leftarrow> ObjToString pr (para3 it);
     Some (c x1 x2 x3)
   }"

definition with_strings :: "(64 word \<Rightarrow> string) \<Rightarrow> OperationItem \<Rightarrow> (string \<Rightarrow> string list \<Rightarrow> pred_call) \<Rightarrow> pred_call option" where
  "with_strings pr it c = do {
     x1 \<leftarrow> ObjToString pr (para1 it);
     vs \<leftarrow> get_strings (para2 it);
     Some (c x1 vs)
   }"

definition replay :: "'d dist_ops \<Rightarrow> pred_call option \<Rightarrow> 'd rdb_predicates \<Rightarrow> 'd rdb_predicates option" where
  "replay ops call p = map_option (\<lambda>c. rdb_call_on ops c p) call"

definition ToOperateFirst :: "'d dist_ops \<Rightarrow> (64 word \<Rightarrow> string) \<Rightarrow> OperationItem \<Rightarrow> 'd rdb_predicates \<Rightarrow> 'd rdb_predicates option" where
  "ToOperateFirst ops pr it p =
     (case operation it of
        OP_EQUAL_TO \<Rightarrow> replay ops (with_two pr it cEqualTo) p
      | OP_NOT_EQUAL_TO \<Rightarrow> replay ops (with_two pr it cNotEqualTo) p
      | OP_GREATER_THAN \<Rightarrow> replay ops (with_two pr it cGreaterThan) p
      | OP_LESS_THAN \<Rightarrow> replay ops (with_two pr it cLessThan) p
      | OP_GREATER_THAN_OR_EQUAL_TO \<Rightarrow> replay ops (with_two pr it cGreaterThanOrEqualTo) p
      | OP_AND \<Rightarrow> replay ops (Some cAnd) p
      | OP_OR \<Rightarrow> replay ops (Some cOr) p
      | OP_BEGIN_WARP \<Rightarrow> replay ops (Some cBeginWrap) p
      | OP_BETWEEN \<Rightarrow> replay ops (with_three pr it cBetween) p
      | _ \<Rightarrow> Some p)"

definition ToOperateSecond :: "'d dist_ops \<Rightarrow> (64 word \<Rightarrow> string) \<Rightarrow> OperationItem \<Rightarrow> 'd rdb_predicates \<Rightarrow> 'd rdb_predicates option" where
  "ToOperateSecond ops pr it p =
     (case operation it of
        OP_BEGIN_WITH \<Rightarrow> replay ops (with_two pr it cBeginsWith) p
      | OP_CONTAINS \<Rightarrow> replay ops (with_two pr it cContains) p
      | OP_DISTINCT \<Rightarrow> replay ops (Some cDistinct) p
      | OP_IN \<Rightarrow> replay ops (with_strings pr it cIn) p
      | OP_GLOB \<Rightarrow> replay ops (with_two pr it cGlob) p
      | OP_END_WARP \<Rightarrow> replay ops (Some cEndWrap) p
      | OP_INDEXED_BY \<Rightarrow> replay ops (with_one pr it cIndexedBy) p
      | OP_NOTBETWEEN \<Rightarrow> replay ops (with_three pr it cNotBetween) p
      | OP_ORDER_BY_ASC \<Rightarrow> replay ops (with_one pr it cOrderByAsc) p
      | _ \<Rightarrow> Some p)"

definition ToOperateThird :: "'d dist_ops \<Rightarrow> (64 word \<Rightarrow> string) \<Rightarrow> OperationItem \<Rightarrow> 'd rdb_predicates \<Rightarrow> 'd rdb_predicates option" where
  "ToOperateThird ops pr it p =
     (case operation it of
        OP_ORDER_BY_DESC \<Rightarrow> replay ops (with_one pr it cOrderByDesc) p
      | OP_END_WITH \<Rightarrow> replay ops (with_two pr it cEndsWith) p
      | OP_IS_NULL \<Rightarrow> replay ops (with_one pr it cIsNull) p
      | OP_IS_NOT_NULL \<Rightarrow> replay ops (with_one pr it cIsNotNull) p
      | OP_OFFSET \<Rightarrow> replay ops (map_option (\<lambda>v. cOffset (sint v)) (got (Obj_GetInt (para1 it)))) p
      | OP_LESS_THAN_OR_EQUAL_TO \<Rightarrow> replay ops (with_two pr it cLessThanOrEqualTo) p
      | OP_NOT_IN \<Rightarrow> replay ops (with_strings pr it cNotIn) p
      | OP_LIKE \<Rightarrow> replay ops (with_two pr it cLike) p
      | OP_LIMIT \<Rightarrow> replay ops (map_option (\<lambda>v. cLimit (sint v)) (got (Obj_GetInt (para1 it)))) p
      | OP_GROUP_BY \<Rightarrow> replay ops (map_option cGroupBy (get_strings (para1 it))) p
      | _ \<Rightarrow> Some p)"

fun ToPredicates_loop :: "'d dist_ops \<Rightarrow> (64 word \<Rightarrow> string) \<Rightarrow> OperationItem list \<Rightarrow> 'd rdb_predicates \<Rightarrow> 'd rdb_predicates option" where
  "ToPredicates_loop ops pr [] p = Some p"
| "ToPredicates_loop ops pr (it # its) p = do {
     p \<leftarrow> ToOperateFirst ops pr it p;
     p \<leftarrow> ToOperateSecond ops pr it p;
     p \<leftarrow> ToOperateThird ops pr it p;
     ToPredicates_loop ops pr its p
   }"

definition ToPredicates :: "'d dist_ops \<Rightarrow> (64 word \<Rightarrow> string) \<Rightarrow> DataSharePredicates \<Rightarrow> string \<Rightarrow> 'd rdb_predicates option" where
  "ToPredicates ops pr d table = do {
     p \<leftarrow> ToPredicates_loop ops pr (operationList d) (RdbPredicates ops table);
     Some (if settingMode d = QUERY_LANGUAGE
           then SetOrder (ds_order d) (SetWhereArgs (ds_whereArgs d) (SetWhereClause (ds_whereClause d) p))
           else p)
   }"

subsection \<open>What a call is meant to become\<close>

fun value_text :: "(64 word \<Rightarrow> string) \<Rightarrow> ds_value \<Rightarrow> string" where
  "value_text pr (DvInt v) = to_string (sint v)"
| "value_text pr (DvLong v) = to_string (sint v)"
| "value_text pr (DvDouble v) = pr v"
| "value_text pr (DvString s) = s"
| "value_text pr (DvBool b) = to_string (of_bool b)"

text \<open>The call of the store builder that a call of a consumer stands for, where the store has one.\<close>

fun intended :: "(64 word \<Rightarrow> string) \<Rightarrow> ds_call \<Rightarrow> pred_call option" where

  "intended pr (dEqualTo f v) = Some (cEqualTo f (value_text pr v))"
| "intended pr (dNotEqualTo f v) = Some (cNotEqualTo f (value_text pr v))"
| "intended pr (dGreaterThan f v) = Some (cGreaterThan f (value_text pr v))"
| "intended pr (dLessThan f v) = Some (cLessThan f (value_text pr v))"
| "intended pr (dGreaterThanOrEqualTo f v) = Some (cGreaterThanOrEqualTo f (value_text pr v))"
| "intended pr (dLessThanOrEqualTo f v) = Some (cLessThanOrEqualTo f (value_text pr v))"
| "intended pr (dIn f vs) = Some (cIn f vs)"
| "intended pr (dNotIn f vs) = Some (cNotIn f vs)"
| "intended pr dBeginWrap = Some cBeginWrap"
| "intended pr dEndWrap = Some cEndWrap"
| "intended pr dOr = Some cOr"
| "intended pr dAnd = Some cAnd"
| "intended pr dDistinct = Some cDistinct"
| "intended pr (dContains f v) = Some (cContains f v)"
| "intended pr (dBeginsWith f v) = Some (cBeginsWith f v)"
| "intended pr (dEndsWith f v) = Some (cEndsWith f v)"
| "intended pr (dLike f v) = Some (cLike f v)"
| "intended pr (dGlob f v) = Some (cGlob f v)"
| "intended pr (dIsNull f) = Some (cIsNull f)"
| "intended pr (dIsNotNull f) = Some (cIsNotNull f)"
| "intended pr (dOrderByAsc f) = Some (cOrderByAsc f)"
| "intended pr (dOrderByDesc f) = Some (cOrderByDesc f)"
| "intended pr (dIndexedBy f) = Some (cIndexedBy f)"
| "intended pr (dBetween f lo hi) = Some (cBetween f lo hi)"
| "intended pr (dNotBetween f lo hi) = Some (cNotBetween f lo hi)"
| "intended pr (dGroupBy fs) = Some (cGroupBy fs)"
| "intended pr _ = None"


text \<open>The calls that arrive unharmed: no integer values, no vectors of numbers, no limit.\<close>

fun portable :: "ds_call \<Rightarrow> bool" where
  "portable (dEqualTo f v) = (case v of DvInt _ \<Rightarrow> False | DvLong _ \<Rightarrow> False | _ \<Rightarrow> True)"
| "portable (dNotEqualTo f v) = (case v of DvInt _ \<Rightarrow> False | DvLong _ \<Rightarrow> False | _ \<Rightarrow> True)"
| "portable (dGreaterThan f v) = (case v of DvString _ \<Rightarrow> True | DvDouble _ \<Rightarrow> True | _ \<Rightarrow> False)"
| "portable (dLessThan f v) = (case v of DvString _ \<Rightarrow> True | DvDouble _ \<Rightarrow> True | _ \<Rightarrow> False)"
| "portable (dGreaterThanOrEqualTo f v) = (case v of DvString _ \<Rightarrow> True | DvDouble _ \<Rightarrow> True | _ \<Rightarrow> False)"
| "portable (dLessThanOrEqualTo f v) = (case v of DvString _ \<Rightarrow> True | DvDouble _ \<Rightarrow> True | _ \<Rightarrow> False)"
| "portable (dGroupBy fs) = (fs \<noteq> [])"
| "portable c = (intended (\<lambda>_. []) c \<noteq> None)"

definition translate :: "'d dist_ops \<Rightarrow> (64 word \<Rightarrow> string) \<Rightarrow> OperationItem \<Rightarrow> 'd rdb_predicates \<Rightarrow> 'd rdb_predicates option" where
  "translate ops pr it p = ToPredicates_loop ops pr [it] p"

lemma loop_translate: "ToPredicates_loop ops pr (it # its) p = Option.bind (translate ops pr it p) (ToPredicates_loop ops pr its)"
  by (simp add: translate_def Option.bind_assoc split_def)

lemma ucast_scast_32 [simp]: "ucast (scast (n :: 32 word) :: int64) = n"
  by (rule bit_word_eqI) (simp add: bit_simps)

lemma ObjToString_ctors [simp]:
  "ObjToString pr (Obj_string s) = Some s" "ObjToString pr (Obj_double d) = Some (pr d)" "ObjToString pr (Obj_bool b) = Some (to_string (of_bool b))"
  "ObjToString pr (Obj_int i) = Some (to_string (sint i))" "get_strings (Obj_strings vs) = Some vs"
  by (simp_all add: ObjToString_def get_strings_def Obj_ctors Obj_getters got_def)

lemma arrived_ctors [simp]:
  "arrived Obj_null = Obj_null" "arrived (Obj_string s) = Obj_string s" "arrived (Obj_double d) = Obj_double d"
  "arrived (Obj_bool b) = Obj_bool b" "arrived (Obj_strings vs) = Obj_strings vs"
  by (simp_all add: arrived_def Obj_ctors)

lemmas translate_unfold = translate_def ToOperateFirst_def ToOperateSecond_def ToOperateThird_def replay_def
  with_one_def with_two_def with_three_def with_strings_def call_unfold item_arrived_def


lemma portable_item:
  assumes "portable c"
  shows "\<exists>it call. call_item c = Some it \<and> item_arrived it = it \<and> intended pr c = Some call
    \<and> (\<forall>p. translate ops pr it p = Some (rdb_call_on ops call p))"
  using assms
proof (cases c)
  case (dEqualTo f v) with assms show ?thesis by (cases v) (simp_all add: translate_unfold)
next
  case (dNotEqualTo f v) with assms show ?thesis by (cases v) (simp_all add: translate_unfold)
next
  case (dGreaterThan f v) with assms show ?thesis by (cases v) (simp_all add: translate_unfold)
next
  case (dLessThan f v) with assms show ?thesis by (cases v) (simp_all add: translate_unfold)
next
  case (dGreaterThanOrEqualTo f v) with assms show ?thesis by (cases v) (simp_all add: translate_unfold)
next
  case (dLessThanOrEqualTo f v) with assms show ?thesis by (cases v) (simp_all add: translate_unfold)
qed (simp_all add: translate_unfold)


lemma portable_items:
  assumes "\<forall>c \<in> set cs. portable c"
  shows "\<exists>its calls. map call_item cs = map Some its \<and> map item_arrived its = its \<and> map (intended pr) cs = map Some calls
    \<and> (\<forall>p. ToPredicates_loop ops pr its p = Some (fold (rdb_call_on ops) calls p))"
  using assms
proof (induction cs)
  case (Cons c cs)
  then obtain its calls where i: "map call_item cs = map Some its" "map item_arrived its = its" "map (intended pr) cs = map Some calls"
    "\<forall>p. ToPredicates_loop ops pr its p = Some (fold (rdb_call_on ops) calls p)" by auto
  from portable_item [of c pr ops] Cons.prems obtain it call where "call_item c = Some it" "item_arrived it = it" "intended pr c = Some call"
    "\<forall>p. translate ops pr it p = Some (rdb_call_on ops call p)" by auto
  with i show ?case
    by (intro exI [of _ "it # its"] exI [of _ "call # calls"]) (simp add: loop_translate del: ToPredicates_loop.simps(2))
qed simp

lemma ds_calls_of_items: "map call_item cs = map Some its \<Longrightarrow> ds_calls cs d = Some (fold appended its d)"
proof (induction cs arbitrary: its d)
  case (Cons c cs)
  then obtain it its' where "its = it # its'" "call_item c = Some it" "map call_item cs = map Some its'" by (cases its) auto
  with Cons.IH [of its'] show ?case by (simp add: ds_call_item)
qed simp



text \<open>
  A comparison with a 32-bit integer can be translated in the process that built it, but once
  it has been sent through a parcel its translation raises an exception, because the reader stores the
  integer as another alternative of the variant than the one the getter asks for.
\<close>

theorem sent_integer_raises:
  assumes F: "ds_fifo D items" and p: "items parcel = []"
  shows "\<exists>sent d' rest. Pred_Marshalling D (EqualTo_int field n (DataSharePredicates_new m0)) parcel = Some sent
    \<and> Pred_Unmarshalling D m1 sent = Some (d', rest) \<and> ToPredicates ops pr d' table = None
    \<and> ToPredicates ops pr (EqualTo_int field n (DataSharePredicates_new m0)) table
        = Some (Rdb_EqualTo ops field (to_string (sint n)) (RdbPredicates ops table))"
proof -
  let ?d = "EqualTo_int field n (DataSharePredicates_new m0)"
  have "sendable ?d" by (simp add: sendable_def EqualTo_int_def SetOperationList_appended item_wf_def)
  from pred_roundtrip [OF F this p, of m1] obtain sent rest where
    r: "Pred_Marshalling D ?d parcel = Some sent" "Pred_Unmarshalling D m1 sent = Some (received m1 ?d, rest)" by blast
  have "ObjToString pr (arrived (Obj_int n)) = None" by (simp add: ObjToString_def arrived_def Obj_int_def Obj_GetInt_def got_def)
  then have "ToPredicates ops pr (received m1 ?d) table = None"
    by (simp add: ToPredicates_def received_def ClearQueryLanguage_def EqualTo_int_def SetOperationList_appended item_arrived_def
        ToOperateFirst_def replay_def with_two_def Let_def)
  moreover have "ToPredicates ops pr ?d table = Some (Rdb_EqualTo ops field (to_string (sint n)) (RdbPredicates ops table))"
    by (simp add: ToPredicates_def EqualTo_int_def SetOperationList_appended ToOperateFirst_def ToOperateSecond_def ToOperateThird_def replay_def with_two_def)
  ultimately show ?thesis using r by blast
qed

theorem sent_integer_raises_witness:
  "\<exists>sent d' rest. Pred_Marshalling list_ds (EqualTo_int ''age'' 7 (DataSharePredicates_new INVALID_MODE)) [] = Some sent
    \<and> Pred_Unmarshalling list_ds INVALID_MODE sent = Some (d', rest) \<and> ToPredicates log_ops (\<lambda>_. ''0'') d' ''t'' = None"
  using sent_integer_raises [OF list_ds_fifo, of "[]" "''age''" 7 INVALID_MODE INVALID_MODE log_ops "\<lambda>_. ''0''" "''t''"] by blast

text \<open>
  Less-than-or-equal with a 32-bit integer asks the store for greater-than-or-equal.
\<close>

theorem integer_less_equal_inverted:
  "ToPredicates ops pr (LessThanOrEqualTo_int field n (DataSharePredicates_new m0)) table
     = Some (GreaterThanOrEqualTo field (to_string (sint n)) (RdbPredicates ops table))"
  by (simp add: ToPredicates_def LessThanOrEqualTo_int_def SetOperationList_appended ToOperateFirst_def ToOperateSecond_def ToOperateThird_def
      replay_def with_two_def)

text \<open>Operations the translation does not know are dropped: a condition \<open>Unlike\<close> selects every row.\<close>

lemma unlike_dropped: "ToPredicates ops pr (DsUnlike field pat (DataSharePredicates_new m0)) table = Some (RdbPredicates ops table)"
  by (simp add: ToPredicates_def DsUnlike_def SetOperationList_appended ToOperateFirst_def ToOperateSecond_def ToOperateThird_def)

text \<open>The offset of a limit is not translated.\<close>

lemma limit_offset_dropped:
  "ToPredicates ops pr (DsLimit n off (DataSharePredicates_new m0)) table = Some (Limit (sint n) (RdbPredicates ops table))"
  by (simp add: ToPredicates_def DsLimit_def SetOperationList_appended ToOperateFirst_def ToOperateSecond_def ToOperateThird_def replay_def
      Obj_int_def Obj_GetInt_def got_def)

text \<open>A vector of numbers, and a 64-bit integer, cannot be translated at all.\<close>

lemma number_vectors_raise: "ToPredicates ops pr (In_longs field ns (DataSharePredicates_new m0)) table = None"
  by (simp add: ToPredicates_def In_longs_def SetOperationList_appended ToOperateFirst_def ToOperateSecond_def replay_def with_strings_def
      get_strings_def Obj_longs_def)

lemma long_values_undefined: "ToPredicates ops pr (EqualTo_long field n (DataSharePredicates_new m0)) table = None"
  by (simp add: ToPredicates_def EqualTo_long_def SetOperationList_appended ToOperateFirst_def replay_def with_two_def ObjToString_def
      Obj_long_def Obj_GetLong_def got_def)

end
