(* ===== verification/Task_Pool.thy ===== *)
theory Task_Pool
  imports Value_Object
begin

text \<open>
  The task pool of the preferences (task_queue.cpp, task_pool.cpp): queues of tasks with a lock, a pool
  of worker threads that take tasks from them, and the threads themselves.  Every method that holds the
  mutex of the pool is one function on the pool; the inductive relation \<open>pool_step\<close> interleaves them,
  with the waits on the condition variable \<open>hasTasks_\<close> as states of a worker.  A waiting worker can be
  notified, wake up for no reason, or run into the time limit of \<open>wait_for\<close>.  A task is opaque.

  The lemmas show that tasks of one tag run one at a time and in the order they were scheduled, that the
  counters count what they are meant to count, that a pool whose workers never time out leaves no task
  waiting while all its workers sleep, and that a time-out can do just that.
\<close>

datatype pref_errno =
    PE_OK | PE_ERROR | PE_STALE | PE_INVALID_ARGS | PE_OUT_OF_MEMORY | PE_NOT_PERMIT | PE_KEY_EMPTY
  | PE_KEY_EXCEED_MAX_LENGTH | PE_PTR_EXIST_ANOTHER_HOLDER | PE_DELETE_FILE_FAIL | PE_EMPTY_FILE_PATH
  | PE_RELATIVE_PATH | PE_EMPTY_FILE_NAME | PE_INVALID_FILE_PATH | PE_PATH_EXCEED_MAX_LENGTH
  | PE_VALUE_EXCEED_MAX_LENGTH | PE_KEY_EXCEED_LENGTH_LIMIT | PE_VALUE_EXCEED_LENGTH_LIMIT
  | PE_DEFAULT_EXCEED_LENGTH_LIMIT

definition INT_MAX :: int where
  "INT_MAX = 2 ^ 31 - 1"

subsection \<open>A queue of tasks\<close>

text \<open>A thread identifier is a number, the identifier of no thread is \<open>None\<close>; a null task is \<open>None\<close>.\<close>

record 'a TaskQueue =
  lockable :: bool
  lockThread :: "nat option"
  tasks :: "'a list"

definition TaskQueue_new :: "bool \<Rightarrow> 'a TaskQueue" where
  "TaskQueue_new l = \<lparr>lockable = l, lockThread = None, tasks = []\<rparr>"

definition PutTask :: "'a option \<Rightarrow> 'a TaskQueue \<Rightarrow> 'a TaskQueue" where
  "PutTask task q = (case task of None \<Rightarrow> q | Some t \<Rightarrow> q\<lparr>tasks := tasks q @ [t]\<rparr>)"

definition ReleaseLock :: "nat \<Rightarrow> 'a TaskQueue \<Rightarrow> 'a TaskQueue" where
  "ReleaseLock me q =
     (if \<not> lockable q then q
      else if lockThread q = Some me then q\<lparr>lockThread := None\<rparr>
      else q)"

definition GetTaskAutoLock :: "nat \<Rightarrow> 'a TaskQueue \<Rightarrow> 'a option \<times> 'a TaskQueue" where
  "GetTaskAutoLock me q =
     (if lockable q \<and> lockThread q \<noteq> Some me \<and> lockThread q \<noteq> None then (None, q)
      else
        let q = (if lockable q \<and> lockThread q = None then q\<lparr>lockThread := Some me\<rparr> else q) in
        (case tasks q of
           [] \<Rightarrow> (None, ReleaseLock me q)
         | t # ts \<Rightarrow> (Some t, q\<lparr>tasks := ts\<rparr>)))"

definition IsEmptyAndUnlocked :: "'a TaskQueue \<Rightarrow> bool" where
  "IsEmptyAndUnlocked q = (if lockable q \<and> lockThread q \<noteq> None then False else tasks q = [])"

subsection \<open>The pool\<close>

text \<open>
  The field \<open>spawned\<close> counts the threads that have been created so far: the identifiers of the workers are
  the numbers below it.
\<close>

record 'a TaskPool =
  queuedTasks :: "(string \<times> 'a TaskQueue) list"
  genericTasks :: "'a TaskQueue"
  genericThread :: "nat option"
  genericTaskCount :: int
  queuedTaskCount :: int
  isStarted :: bool
  isStopping :: bool
  isGenericThreadIdle :: bool
  maxThreads :: int
  minThreads :: int
  curThreads :: int
  idleThreads :: int
  spawned :: nat

definition TaskPool_new :: "int \<Rightarrow> int \<Rightarrow> 'a TaskPool" where
  "TaskPool_new maxT minT =
     \<lparr>queuedTasks = [], genericTasks = TaskQueue_new False, genericThread = None, genericTaskCount = 0,
      queuedTaskCount = 0, isStarted = False, isStopping = False, isGenericThreadIdle = False,
      maxThreads = maxT, minThreads = minT, curThreads = 0, idleThreads = 0, spawned = 0\<rparr>"

function spawn_while :: "int \<Rightarrow> 'a TaskPool \<Rightarrow> 'a TaskPool" where
  "spawn_while limits P =
     (if curThreads P < limits
      then spawn_while limits (P\<lparr>curThreads := curThreads P + 1, spawned := spawned P + 1\<rparr>)
      else P)"
  by pat_completeness auto

termination spawn_while
  by (relation "measure (\<lambda>(limits, P). nat (limits - curThreads P))") auto

declare spawn_while.simps [simp del]

definition SpawnThreads :: "bool \<Rightarrow> 'a TaskPool \<Rightarrow> pref_errno \<times> 'a TaskPool" where
  "SpawnThreads isStart P =
     (if \<not> isStarted P then (PE_NOT_PERMIT, P)
      else if curThreads P \<ge> maxThreads P then (PE_OK, P)
      else (PE_OK, spawn_while (if isStart then minThreads P else curThreads P + 1) P))"

definition TryToSpawnThreads :: "'a TaskPool \<Rightarrow> 'a TaskPool" where
  "TryToSpawnThreads P =
     (if curThreads P \<ge> maxThreads P \<or> curThreads P \<ge> queuedTaskCount P + genericTaskCount P then P
      else snd (SpawnThreads False P))"

definition Start :: "'a TaskPool \<Rightarrow> pref_errno \<times> 'a TaskPool" where
  "Start P =
     (if maxThreads P < minThreads P then (PE_INVALID_ARGS, P)
      else if maxThreads P \<le> 0 then (PE_INVALID_ARGS, P)
      else if minThreads P < 0 then (PE_INVALID_ARGS, P)
      else (PE_OK, snd (SpawnThreads True (P\<lparr>isStarted := True, isStopping := False\<rparr>))))"

text \<open>
  \<open>Stop\<close> waits until every thread has left, so it is two steps: the request, which notifies all workers,
  and the return.
\<close>

definition Stop_request :: "'a TaskPool \<Rightarrow> 'a TaskPool" where
  "Stop_request P = (if \<not> isStarted P then P else P\<lparr>isStopping := True\<rparr>)"

definition Stop_return :: "'a TaskPool \<Rightarrow> 'a TaskPool option" where
  "Stop_return P = (if curThreads P \<le> 0 then Some (P\<lparr>isStarted := False\<rparr>) else None)"

definition Schedule :: "'a option \<Rightarrow> 'a TaskPool \<Rightarrow> pref_errno \<times> 'a TaskPool" where
  "Schedule task P =
     (if task = None then (PE_INVALID_ARGS, P)
      else if \<not> isStarted P then (PE_NOT_PERMIT, P)
      else if isStopping P then (PE_STALE, P)
      else if genericTaskCount P = INT_MAX then (PE_ERROR, P)
      else (PE_OK, TryToSpawnThreads
             (P\<lparr>genericTasks := PutTask task (genericTasks P), genericTaskCount := genericTaskCount P + 1\<rparr>)))"

text \<open>\<open>queuedTasks_[tag]\<close> makes an empty lockable queue for a new tag.\<close>

definition with_queue :: "string \<Rightarrow> ('a TaskQueue \<Rightarrow> 'a TaskQueue) \<Rightarrow> (string \<times> 'a TaskQueue) list \<Rightarrow> (string \<times> 'a TaskQueue) list" where
  "with_queue tag f m = map (\<lambda>(k, q). (k, if k = tag then f q else q)) m"

definition Schedule_tag :: "string \<Rightarrow> 'a option \<Rightarrow> 'a TaskPool \<Rightarrow> pref_errno \<times> 'a TaskPool" where
  "Schedule_tag queueTag task P =
     (if task = None then (PE_INVALID_ARGS, P)
      else if \<not> isStarted P then (PE_NOT_PERMIT, P)
      else if isStopping P then (PE_STALE, P)
      else if queuedTaskCount P = INT_MAX then (PE_ERROR, P)
      else (PE_OK, TryToSpawnThreads
             (P\<lparr>queuedTasks := with_queue queueTag (PutTask task) (map_insert queueTag (TaskQueue_new True) (queuedTasks P)),
                queuedTaskCount := queuedTaskCount P + 1\<rparr>)))"

definition ShrinkMemory :: "string \<Rightarrow> 'a TaskPool \<Rightarrow> 'a TaskPool" where
  "ShrinkMemory tag P =
     (case map_of (queuedTasks P) tag of
        None \<Rightarrow> P
      | Some q \<Rightarrow> if IsEmptyAndUnlocked q then P\<lparr>queuedTasks := map_erase tag (queuedTasks P)\<rparr> else P)"

subsection \<open>What a worker does under the mutex\<close>

definition IsGenericWorker :: "nat \<Rightarrow> 'a TaskPool \<Rightarrow> bool" where
  "IsGenericWorker me P \<longleftrightarrow> genericThread P = Some me"

definition BecomeGenericWorker :: "nat \<Rightarrow> 'a TaskPool \<Rightarrow> 'a TaskPool" where
  "BecomeGenericWorker me P = (if genericThread P = None then P\<lparr>genericThread := Some me\<rparr> else P)"

definition ExitGenericWorker :: "nat \<Rightarrow> 'a TaskPool \<Rightarrow> 'a TaskPool" where
  "ExitGenericWorker me P =
     (let P = (if IsGenericWorker me P then P\<lparr>genericThread := None\<rparr> else P) in
      P\<lparr>curThreads := curThreads P - 1\<rparr>)"

definition SetThreadFree :: "nat \<Rightarrow> 'a TaskPool \<Rightarrow> 'a TaskPool" where
  "SetThreadFree me P = P\<lparr>queuedTasks := map (\<lambda>(tag, q). (tag, ReleaseLock me q)) (queuedTasks P)\<rparr>"

fun reap_queues :: "nat \<Rightarrow> (string \<times> 'a TaskQueue) list \<Rightarrow> ('a \<times> string) option \<times> (string \<times> 'a TaskQueue) list" where
  "reap_queues me [] = (None, [])"
| "reap_queues me ((tag, q) # m) =
     (case GetTaskAutoLock me q of
        (Some t, q') \<Rightarrow> (Some (t, tag), (tag, q') # m)
      | (None, q') \<Rightarrow> (case reap_queues me m of (r, m') \<Rightarrow> (r, (tag, q') # m')))"

text \<open>The result is the task with the tag of its queue; a generic task has no queue.\<close>

definition ReapTask :: "nat \<Rightarrow> 'a TaskPool \<Rightarrow> ('a \<times> string option) option \<times> 'a TaskPool" where
  "ReapTask me P =
     (case GetTaskAutoLock me (genericTasks P) of
        (Some t, q) \<Rightarrow> (Some (t, None), P\<lparr>genericTasks := q\<rparr>)
      | (None, q) \<Rightarrow>
          let P = P\<lparr>genericTasks := q\<rparr> in
          if IsGenericWorker me P \<and> curThreads P > 1 then (None, SetThreadFree me P)
          else (case reap_queues me (queuedTasks P) of
                  (r, m) \<Rightarrow> (map_option (\<lambda>(t, tag). (t, Some tag)) r, P\<lparr>queuedTasks := m\<rparr>)))"

text \<open>
  \<open>IdleExit\<close> gives the mutex up while it waits, so it is two steps.  The first one says whether the worker
  leaves at once (\<open>None\<close>), or waits with or without a time limit and whether it is the generic worker,
  which notifies the others before it waits; the second one says whether the worker leaves.
\<close>

definition IdleExit_wait :: "nat \<Rightarrow> 'a TaskPool \<Rightarrow> (bool \<times> bool) option \<times> 'a TaskPool" where
  "IdleExit_wait me P =
     (if isStopping P then (None, P)
      else
        let P = P\<lparr>idleThreads := idleThreads P + 1\<rparr>;
            isGenericWorker = IsGenericWorker me P in
        if \<not> isGenericWorker \<and> curThreads P > minThreads P then (Some (True, isGenericWorker), P)
        else (Some (False, isGenericWorker), if isGenericWorker then P\<lparr>isGenericThreadIdle := True\<rparr> else P))"

definition IdleExit_woken :: "bool \<Rightarrow> bool \<Rightarrow> bool \<Rightarrow> 'a TaskPool \<Rightarrow> bool \<times> 'a TaskPool" where
  "IdleExit_woken timed isGenericWorker timeout P =
     (if timed \<and> timeout \<and> genericTaskCount P \<le> 0 then (True, P\<lparr>idleThreads := idleThreads P - 1\<rparr>)
      else
        let P = (if \<not> timed \<and> isGenericWorker then P\<lparr>isGenericThreadIdle := False\<rparr> else P) in
        (False, P\<lparr>idleThreads := idleThreads P - 1\<rparr>))"

definition FinishExecuteTask :: "nat \<Rightarrow> string option \<Rightarrow> 'a TaskPool \<Rightarrow> 'a TaskPool" where
  "FinishExecuteTask me taskQueue P =
     (case taskQueue of
        Some tag \<Rightarrow> P\<lparr>queuedTasks := with_queue tag (ReleaseLock me) (queuedTasks P), queuedTaskCount := queuedTaskCount P - 1\<rparr>
      | None \<Rightarrow> P\<lparr>genericTaskCount := genericTaskCount P - 1\<rparr>)"

subsection \<open>Threads\<close>

text \<open>
  A worker has been created and has not yet become a candidate for the generic worker, is about to look
  for a task, waits (with a time limit or not, as the generic worker or not), has been woken (by the time
  limit or not) and waits for the mutex, runs a task, is about to leave, or has left.
\<close>

datatype 'a worker =
    Starting
  | Fetching
  | Asleep bool bool
  | Woken bool bool bool
  | Running 'a "string option"
  | Exiting
  | Gone

datatype 'a event = Submitted string 'a | Started string 'a | Finished string 'a

record 'a pool_world =
  pool :: "'a TaskPool"
  workers :: "nat \<Rightarrow> 'a worker"
  history :: "'a event list"

fun awaken :: "'a worker \<Rightarrow> 'a worker" where
  "awaken (Asleep timed g) = Woken timed g False"
| "awaken w = w"

fun is_asleep :: "'a worker \<Rightarrow> bool" where
  "is_asleep (Asleep _ _) = True"
| "is_asleep _ = False"

text \<open>One pass of the loop of \<open>GetTask\<close>: from taking the mutex to returning or waiting.\<close>

definition GetTask_pass :: "nat \<Rightarrow> 'a pool_world \<Rightarrow> 'a pool_world" where
  "GetTask_pass me W =
     (case ReapTask me (pool W) of
        (Some (t, tag), P) \<Rightarrow>
          W\<lparr>pool := P, workers := (workers W)(me := Running t tag),
            history := (case tag of None \<Rightarrow> history W | Some k \<Rightarrow> history W @ [Started k t])\<rparr>
      | (None, P) \<Rightarrow>
          (case IdleExit_wait me P of
             (None, P) \<Rightarrow> W\<lparr>pool := P, workers := (workers W)(me := Exiting)\<rparr>
           | (Some (timed, g), P) \<Rightarrow>
               W\<lparr>pool := P, workers := (if g then awaken \<circ> workers W else workers W)(me := Asleep timed g)\<rparr>))"

text \<open>The rest of a pass after the wait: leave, or go round the loop without giving up the mutex.\<close>

definition GetTask_resume :: "nat \<Rightarrow> bool \<Rightarrow> bool \<Rightarrow> bool \<Rightarrow> 'a pool_world \<Rightarrow> 'a pool_world" where
  "GetTask_resume me timed g timeout W =
     (case IdleExit_woken timed g timeout (pool W) of
        (True, P) \<Rightarrow> W\<lparr>pool := P, workers := (workers W)(me := Exiting)\<rparr>
      | (False, P) \<Rightarrow> GetTask_pass me (W\<lparr>pool := P\<rparr>))"

text \<open>
  The steps of the system; the flags say whether \<open>wait_for\<close> can run into its limit and whether the owner
  stops the pool.  The first eight are calls of the owner, the others are the body of \<open>TaskWorker\<close>.
\<close>

inductive pool_step :: "bool \<Rightarrow> bool \<Rightarrow> 'a pool_world \<Rightarrow> 'a pool_world \<Rightarrow> bool" for limit stops :: bool where
  start: "pool_step limit stops W (W\<lparr>pool := snd (Start (pool W))\<rparr>)"
| stop_request: "stops \<Longrightarrow> pool_step limit stops W
    (W\<lparr>pool := Stop_request (pool W), workers := (if isStarted (pool W) then awaken \<circ> workers W else workers W)\<rparr>)"
| stop_return: "stops \<Longrightarrow> Stop_return (pool W) = Some P \<Longrightarrow> pool_step limit stops W (W\<lparr>pool := P\<rparr>)"
| schedule_refused: "Schedule task (pool W) = (e, P) \<Longrightarrow> e \<noteq> PE_OK \<Longrightarrow> pool_step limit stops W (W\<lparr>pool := P\<rparr>)"
| schedule: "Schedule task (pool W) = (PE_OK, P) \<Longrightarrow>
    (ws = (workers W)(i := awaken (workers W i)) \<and> is_asleep (workers W i))
      \<or> (ws = workers W \<and> (\<forall>j. \<not> is_asleep (workers W j))) \<Longrightarrow>
    pool_step limit stops W (W\<lparr>pool := P, workers := ws\<rparr>)"
| schedule_tag_refused: "Schedule_tag tag task (pool W) = (e, P) \<Longrightarrow> e \<noteq> PE_OK \<Longrightarrow>
    pool_step limit stops W (W\<lparr>pool := P\<rparr>)"
| schedule_tag: "Schedule_tag tag (Some t) (pool W) = (PE_OK, P) \<Longrightarrow>
    pool_step limit stops W (W\<lparr>pool := P, workers := awaken \<circ> workers W, history := history W @ [Submitted tag t]\<rparr>)"
| shrink: "pool_step limit stops W (W\<lparr>pool := ShrinkMemory tag (pool W)\<rparr>)"
| begins: "i < spawned (pool W) \<Longrightarrow> workers W i = Starting \<Longrightarrow>
    pool_step limit stops W (W\<lparr>pool := BecomeGenericWorker i (pool W), workers := (workers W)(i := Fetching)\<rparr>)"
| fetch: "i < spawned (pool W) \<Longrightarrow> workers W i = Fetching \<Longrightarrow> pool_step limit stops W (GetTask_pass i W)"
| spurious: "i < spawned (pool W) \<Longrightarrow> workers W i = Asleep timed g \<Longrightarrow>
    pool_step limit stops W (W\<lparr>workers := (workers W)(i := Woken timed g False)\<rparr>)"
| timeout: "limit \<Longrightarrow> i < spawned (pool W) \<Longrightarrow> workers W i = Asleep True g \<Longrightarrow>
    pool_step limit stops W (W\<lparr>workers := (workers W)(i := Woken True g True)\<rparr>)"
| resume: "i < spawned (pool W) \<Longrightarrow> workers W i = Woken timed g timeout \<Longrightarrow>
    pool_step limit stops W (GetTask_resume i timed g timeout W)"
| finish: "i < spawned (pool W) \<Longrightarrow> workers W i = Running t tag \<Longrightarrow>
    pool_step limit stops W (W\<lparr>pool := FinishExecuteTask i tag (pool W), workers := (workers W)(i := Fetching),
      history := (case tag of None \<Rightarrow> history W | Some k \<Rightarrow> history W @ [Finished k t])\<rparr>)"
| leave: "i < spawned (pool W) \<Longrightarrow> workers W i = Exiting \<Longrightarrow>
    pool_step limit stops W (W\<lparr>pool := ExitGenericWorker i (pool W), workers := (workers W)(i := Gone)\<rparr>)"

definition pool_init :: "int \<Rightarrow> int \<Rightarrow> 'a pool_world" where
  "pool_init maxT minT = \<lparr>pool = TaskPool_new maxT minT, workers = (\<lambda>_. Starting), history = []\<rparr>"

subsection \<open>Queues by tag\<close>

text \<open>A tag without a queue stands for an empty one.\<close>

definition queue_of :: "'a TaskPool \<Rightarrow> string \<Rightarrow> 'a TaskQueue" where
  "queue_of P tag = (case map_of (queuedTasks P) tag of None \<Rightarrow> TaskQueue_new True | Some q \<Rightarrow> q)"

definition queues_wf :: "'a TaskPool \<Rightarrow> bool" where
  "queues_wf P \<longleftrightarrow> map_wf (queuedTasks P) \<and> \<not> lockable (genericTasks P) \<and> (\<forall>tag. lockable (queue_of P tag))"

lemma queue_of_cong: "queuedTasks P = queuedTasks Q \<Longrightarrow> queue_of P = queue_of Q"
  by (simp add: queue_of_def fun_eq_iff)

lemma map_of_with_queue: "map_of (with_queue tag f m) k = map_option (if k = tag then f else id) (map_of m k)"
  by (induction m) (auto simp: with_queue_def)

lemma with_queue_keys [simp]: "map fst (with_queue tag f m) = map fst m"
  by (induction m) (auto simp: with_queue_def)

lemma map_wf_with_queue [simp]: "map_wf (with_queue tag f m) = map_wf m"
  by (simp add: map_wf_def)

lemma map_wf_distinct: "map_wf m \<Longrightarrow> distinct (map fst m)"
  by (simp add: map_wf_def strict_sorted_iff)

lemma queue_of_update:
  "tag \<in> dom (map_of (queuedTasks P)) \<Longrightarrow>
     queue_of (P\<lparr>queuedTasks := with_queue tag f (queuedTasks P)\<rparr>) = (queue_of P)(tag := f (queue_of P tag))"
  by (auto simp: queue_of_def map_of_with_queue fun_eq_iff split: option.splits)

lemma queue_of_insert:
  "map_wf (queuedTasks P) \<Longrightarrow>
     queue_of (P\<lparr>queuedTasks := map_insert tag (TaskQueue_new True) (queuedTasks P)\<rparr>) = queue_of P"
  by (auto simp: queue_of_def map_of_insert fun_eq_iff split: option.splits)

lemma not_empty_queue: "tasks (queue_of P tag) \<noteq> [] \<or> lockThread (queue_of P tag) \<noteq> None \<Longrightarrow> tag \<in> dom (map_of (queuedTasks P))"
  by (auto simp: queue_of_def TaskQueue_new_def split: option.splits)

lemma spawn_while_result:
  "spawn_while limits P = P\<lparr>curThreads := curThreads P + int (nat (limits - curThreads P)),
     spawned := spawned P + nat (limits - curThreads P)\<rparr>"
proof (induction limits P rule: spawn_while.induct)
  case (1 limits P)
  then show ?case
    by (cases "curThreads P < limits") (simp_all add: spawn_while.simps [of limits P] nat_diff_distrib' Suc_nat_eq_nat_zadd1)
qed

lemma TryToSpawnThreads_result:
  obtains n where "TryToSpawnThreads P = P\<lparr>curThreads := curThreads P + int n, spawned := spawned P + n\<rparr>"
    and "n > 0 \<longrightarrow> curThreads P + int n \<le> maxThreads P"
proof (cases "curThreads P \<ge> maxThreads P \<or> curThreads P \<ge> queuedTaskCount P + genericTaskCount P \<or> \<not> isStarted P")
  case True
  with that [of 0] show ?thesis by (auto simp: TryToSpawnThreads_def SpawnThreads_def)
next
  case False
  with that [of 1] show ?thesis by (auto simp: TryToSpawnThreads_def SpawnThreads_def spawn_while_result)
qed

lemma Start_result:
  obtains n b c where "snd (Start P) = P\<lparr>curThreads := curThreads P + int n, spawned := spawned P + n, isStarted := b, isStopping := c\<rparr>"
    and "n > 0 \<longrightarrow> curThreads P + int n \<le> maxThreads P" and "c \<longrightarrow> isStopping P"
    and "b \<longrightarrow> isStarted P \<or> (1 \<le> maxThreads P \<and> maxThreads P \<le> curThreads P) \<or> curThreads P + int n \<ge> minThreads P"
proof (cases "maxThreads P < minThreads P \<or> maxThreads P \<le> 0 \<or> minThreads P < 0")
  case True
  with that [where n = 0 and b = "isStarted P" and c = "isStopping P"] show ?thesis by (auto simp: Start_def)
next
  case False
  show ?thesis
  proof (cases "curThreads P \<ge> maxThreads P \<or> curThreads P \<ge> minThreads P")
    case True
    with False have "snd (Start P) = P\<lparr>curThreads := curThreads P + int 0, spawned := spawned P + 0, isStarted := True, isStopping := False\<rparr>"
      by (auto simp: Start_def SpawnThreads_def spawn_while_result)
    from that [OF this] True False show ?thesis by auto
  next
    case less: False
    let ?n = "nat (minThreads P - curThreads P)"
    from False less have "snd (Start P) = P\<lparr>curThreads := curThreads P + int ?n, spawned := spawned P + ?n, isStarted := True, isStopping := False\<rparr>"
      by (simp add: Start_def SpawnThreads_def spawn_while_result)
    from that [OF this] less False show ?thesis by auto
  qed
qed

subsection \<open>Taking a task\<close>

lemma GetTask_None:
  assumes "lockable q" and "lockThread q \<noteq> Some me" and "GetTaskAutoLock me q = (None, q')"
  shows "q' = q" and "tasks q = [] \<or> lockThread q \<noteq> None"
  using assms by (auto simp: GetTaskAutoLock_def ReleaseLock_def Let_def split: if_splits list.splits)

lemma GetTask_Some:
  assumes "lockable q" and "lockThread q \<noteq> Some me" and "GetTaskAutoLock me q = (Some t, q')"
  shows "lockThread q = None" and "tasks q = t # tasks q'" and "q' = q\<lparr>lockThread := Some me, tasks := tasks q'\<rparr>"
  using assms by (auto simp: GetTaskAutoLock_def Let_def split: if_splits list.splits)

lemma GetTask_generic:
  "\<not> lockable q \<Longrightarrow> GetTaskAutoLock me q = (case tasks q of [] \<Rightarrow> (None, q) | t # ts \<Rightarrow> (Some t, q\<lparr>tasks := ts\<rparr>))"
  by (auto simp: GetTaskAutoLock_def ReleaseLock_def Let_def split: list.splits)

lemma reap_None:
  assumes "\<forall>(tag, q) \<in> set m. lockable q \<and> lockThread q \<noteq> Some me" and "reap_queues me m = (None, m')"
  shows "m' = m \<and> (\<forall>(tag, q) \<in> set m. tasks q = [] \<or> lockThread q \<noteq> None)"
  using assms
proof (induction m arbitrary: m')
  case (Cons kq m)
  obtain k q where kq: "kq = (k, q)" by (cases kq)
  obtain r q' where g: "GetTaskAutoLock me q = (r, q')" by (cases "GetTaskAutoLock me q")
  with Cons.prems kq have r: "r = None" by (cases r) auto
  with Cons.prems kq g obtain m2 where m2: "reap_queues me m = (None, m2)" "m' = (k, q') # m2"
    by (auto split: prod.splits)
  with Cons.IH [of m2] Cons.prems(1) kq GetTask_None [of q me q'] g r show ?case by auto
qed simp

lemma reap_Some:
  assumes "\<forall>(tag, q) \<in> set m. lockable q \<and> lockThread q \<noteq> Some me" and "distinct (map fst m)"
    and "reap_queues me m = (Some (t, tag), m')"
  shows "\<exists>q ts. map_of m tag = Some q \<and> lockThread q = None \<and> tasks q = t # ts
    \<and> m' = with_queue tag (\<lambda>q. q\<lparr>lockThread := Some me, tasks := ts\<rparr>) m"
  using assms
proof (induction m arbitrary: m')
  case (Cons kq m)
  obtain k q where kq: "kq = (k, q)" by (cases kq)
  obtain r q' where g: "GetTaskAutoLock me q = (r, q')" by (cases "GetTaskAutoLock me q")
  have idw: "with_queue k f m = m" for f
    using Cons.prems(2) kq by (induction m) (auto simp: with_queue_def)
  show ?case
  proof (cases r)
    case None
    with Cons.prems kq g obtain m2 where m2: "reap_queues me m = (Some (t, tag), m2)" "m' = (k, q') # m2"
      by (auto split: prod.splits)
    from Cons.IH [OF _ _ m2(1)] Cons.prems kq obtain p ts where p: "map_of m tag = Some p" "lockThread p = None" "tasks p = t # ts"
      "m2 = with_queue tag (\<lambda>q. q\<lparr>lockThread := Some me, tasks := ts\<rparr>) m" by auto
    from p(1) have "tag \<in> fst ` set m" by (metis fst_conv image_eqI map_of_SomeD)
    with Cons.prems(2) kq have "k \<noteq> tag" by auto
    with p m2 kq GetTask_None [of q me q'] g None Cons.prems(1) show ?thesis by (auto simp: with_queue_def)
  next
    case (Some t')
    with Cons.prems(3) kq g have "t' = t" "tag = k" "m' = (k, q') # m" by auto
    with GetTask_Some [of q me t q'] g Some kq Cons.prems(1) idw show ?thesis by (auto simp: with_queue_def)
  qed
qed simp

definition holds_none :: "nat \<Rightarrow> 'a TaskPool \<Rightarrow> bool" where
  "holds_none me P \<longleftrightarrow> (\<forall>tag. lockThread (queue_of P tag) \<noteq> Some me)"

lemma queues_listed:
  assumes "queues_wf P" "holds_none me P"
  shows "\<forall>(tag, q) \<in> set (queuedTasks P). lockable q \<and> lockThread q \<noteq> Some me"
proof clarify
  fix tag q assume "(tag, q) \<in> set (queuedTasks P)"
  with assms(1) have "map_of (queuedTasks P) tag = Some q" by (simp add: queues_wf_def map_wf_distinct)
  then have "queue_of P tag = q" by (simp add: queue_of_def)
  moreover from this assms have "lockable q" "lockThread q \<noteq> Some me" by (auto simp: queues_wf_def holds_none_def)
  ultimately show "lockable q \<and> lockThread q \<noteq> Some me" by simp
qed

lemma SetThreadFree_none:
  assumes "queues_wf P" "holds_none me P"
  shows "SetThreadFree me P = P"
proof -
  have "map (\<lambda>(tag, q). (tag, ReleaseLock me q)) (queuedTasks P) = queuedTasks P"
    using queues_listed [OF assms] by (intro map_idI) (auto simp: ReleaseLock_def)
  then show ?thesis by (simp add: SetThreadFree_def)
qed

text \<open>What \<open>ReapTask\<close> can do for a worker that holds no lock.\<close>

lemma ReapTask_cases:
  assumes wf: "queues_wf P" and free: "holds_none me P"
  obtains (Generic) t ts where "tasks (genericTasks P) = t # ts" "ReapTask me P = (Some (t, None), P\<lparr>genericTasks := (genericTasks P)\<lparr>tasks := ts\<rparr>\<rparr>)"
  | (Yield) "tasks (genericTasks P) = []" "IsGenericWorker me P" "curThreads P > 1" "ReapTask me P = (None, P)"
  | (Nothing) "tasks (genericTasks P) = []" "ReapTask me P = (None, P)" "\<forall>tag. tasks (queue_of P tag) = [] \<or> lockThread (queue_of P tag) \<noteq> None"
  | (Tagged) t tag ts where "tasks (genericTasks P) = []" "lockThread (queue_of P tag) = None" "tasks (queue_of P tag) = t # ts"
      "ReapTask me P = (Some (t, Some tag), P\<lparr>queuedTasks := with_queue tag (\<lambda>q. q\<lparr>lockThread := Some me, tasks := ts\<rparr>) (queuedTasks P)\<rparr>)"
      "tag \<in> dom (map_of (queuedTasks P))"
proof -
  note ql = queues_listed [OF wf free]
  have ng: "\<not> lockable (genericTasks P)" using wf by (simp add: queues_wf_def)
  show ?thesis
  proof (cases "tasks (genericTasks P)")
    case (Cons t ts)
    with Generic ng show ?thesis by (simp add: ReapTask_def GetTask_generic)
  next
    case Nil
    note e = this
    from ng e have g: "GetTaskAutoLock me (genericTasks P) = (None, genericTasks P)" by (simp add: GetTask_generic)
    show ?thesis
    proof (cases "IsGenericWorker me P \<and> curThreads P > 1")
      case True
      with g SetThreadFree_none [OF wf free] have "ReapTask me P = (None, P)" by (simp add: ReapTask_def)
      with Yield e True show ?thesis by blast
    next
      case False
      obtain r m where r: "reap_queues me (queuedTasks P) = (r, m)" by (cases "reap_queues me (queuedTasks P)")
      show ?thesis
      proof (cases r)
        case None
        with reap_None [OF ql] r have "m = queuedTasks P"
          and n: "\<forall>(tag, q) \<in> set (queuedTasks P). tasks q = [] \<or> lockThread q \<noteq> None" by auto
        with False g r None have "ReapTask me P = (None, P)" by (auto simp: ReapTask_def Let_def)
        moreover have "\<forall>tag. tasks (queue_of P tag) = [] \<or> lockThread (queue_of P tag) \<noteq> None"
          using n by (auto simp: queue_of_def TaskQueue_new_def split: option.splits dest: map_of_SomeD)
        ultimately show ?thesis using Nothing e by blast
      next
        case (Some ttag)
        obtain t tag where tt: "ttag = (t, tag)" by (cases ttag)
        have "distinct (map fst (queuedTasks P))" using wf by (simp add: queues_wf_def map_wf_distinct)
        with reap_Some [OF ql, of t tag m] r Some tt obtain q ts where
          q: "map_of (queuedTasks P) tag = Some q" "lockThread q = None" "tasks q = t # ts"
             "m = with_queue tag (\<lambda>q. q\<lparr>lockThread := Some me, tasks := ts\<rparr>) (queuedTasks P)" by auto
        with False g r Some tt have "ReapTask me P = (Some (t, Some tag), P\<lparr>queuedTasks := m\<rparr>)"
          by (auto simp: ReapTask_def Let_def)
        with q Tagged [of tag t ts] e show ?thesis by (auto simp: queue_of_def)
      qed
    qed
  qed
qed


subsection \<open>Tasks of a tag run one at a time, in order\<close>

definition submitted_of :: "string \<Rightarrow> 'a event list \<Rightarrow> 'a list" where
  "submitted_of tag h = concat (map (\<lambda>e. case e of Submitted k t \<Rightarrow> if k = tag then [t] else [] | _ \<Rightarrow> []) h)"

definition runs_of :: "string \<Rightarrow> 'a event list \<Rightarrow> 'a event list" where
  "runs_of tag h = filter (\<lambda>e. case e of Submitted k t \<Rightarrow> False | Started k t \<Rightarrow> k = tag | Finished k t \<Rightarrow> k = tag) h"

definition serial :: "string \<Rightarrow> 'a list \<Rightarrow> 'a event list" where
  "serial tag ts = concat (map (\<lambda>t. [Started tag t, Finished tag t]) ts)"

lemma event_simps [simp]:
  "submitted_of tag [] = []" "runs_of tag [] = []" "serial tag [] = []"
  "submitted_of tag (h @ [Submitted k t]) = submitted_of tag h @ (if k = tag then [t] else [])"
  "submitted_of tag (h @ [Started k t]) = submitted_of tag h"
  "submitted_of tag (h @ [Finished k t]) = submitted_of tag h"
  "runs_of tag (h @ [Submitted k t]) = runs_of tag h"
  "runs_of tag (h @ [Started k t]) = runs_of tag h @ (if k = tag then [Started k t] else [])"
  "runs_of tag (h @ [Finished k t]) = runs_of tag h @ (if k = tag then [Finished k t] else [])"
  "serial tag (ts @ [t]) = serial tag ts @ [Started tag t, Finished tag t]"
  by (auto simp: submitted_of_def runs_of_def serial_def)

text \<open>
  What holds of a tag: its queue is locked by the one worker that runs a task of the tag, if there is one,
  and the tasks scheduled so far are the finished ones, the running one and those in the queue.
\<close>

definition tag_ok :: "'a TaskQueue \<Rightarrow> (nat \<Rightarrow> 'a worker) \<Rightarrow> 'a event list \<Rightarrow> string \<Rightarrow> bool" where
  "tag_ok q ws h tag \<longleftrightarrow> (\<exists>finished.
     case lockThread q of
       None \<Rightarrow> (\<forall>j t. ws j \<noteq> Running t (Some tag)) \<and> submitted_of tag h = finished @ tasks q \<and> runs_of tag h = serial tag finished
     | Some i \<Rightarrow> \<exists>t. ws i = Running t (Some tag) \<and> (\<forall>j t. ws j = Running t (Some tag) \<longrightarrow> j = i)
         \<and> submitted_of tag h = finished @ t # tasks q \<and> runs_of tag h = serial tag finished @ [Started tag t])"

lemma tag_ok_other:
  assumes "k \<noteq> tag"
  shows "tag_ok q ws (h @ [Started tag t]) k = tag_ok q ws h k" "tag_ok q ws (h @ [Finished tag t]) k = tag_ok q ws h k"
    "tag_ok q ws (h @ [Submitted tag t]) k = tag_ok q ws h k"
  using assms by (cases "lockThread q"; auto simp: tag_ok_def)+

definition world_inv :: "'a pool_world \<Rightarrow> bool" where
  "world_inv W \<longleftrightarrow> queues_wf (pool W) \<and> (\<forall>tag. tag_ok (queue_of (pool W) tag) (workers W) (history W) tag)
     \<and> (\<forall>i \<ge> spawned (pool W). workers W i = Starting)"

definition same_runs :: "(nat \<Rightarrow> 'a worker) \<Rightarrow> (nat \<Rightarrow> 'a worker) \<Rightarrow> string \<Rightarrow> bool" where
  "same_runs ws ws' tag \<longleftrightarrow> (\<forall>i t. ws' i = Running t (Some tag) \<longleftrightarrow> ws i = Running t (Some tag))"

lemma tag_ok_cong: "same_runs ws ws' tag \<Longrightarrow> tag_ok q ws' h tag = tag_ok q ws h tag"
  by (cases "lockThread q") (auto simp: tag_ok_def same_runs_def)

lemma awaken_running [simp]: "awaken w = Running t k \<longleftrightarrow> w = Running t k" "awaken w = Starting \<longleftrightarrow> w = Starting"
  "awaken w = Gone \<longleftrightarrow> w = Gone" "awaken w = Exiting \<longleftrightarrow> w = Exiting" "is_asleep (awaken w) = False"
  by (cases w; auto)+

lemma same_runs_awaken [simp]: "same_runs ws (awaken \<circ> ws) tag" "same_runs ws (ws(i := awaken (ws i))) tag" "same_runs ws ws tag"
  by (auto simp: same_runs_def)

lemma same_runs_upd:
  "same_runs ws ws' tag \<Longrightarrow> (\<And>t. ws i \<noteq> Running t (Some tag)) \<Longrightarrow> (\<And>t. w \<noteq> Running t (Some tag)) \<Longrightarrow> same_runs ws (ws'(i := w)) tag"
  by (auto simp: same_runs_def)

lemma world_frame:
  assumes "world_inv W" and "queuedTasks P = queuedTasks (pool W)" and "lockable (genericTasks P) = lockable (genericTasks (pool W))"
    and "\<And>tag. same_runs (workers W) ws tag" and "spawned (pool W) \<le> spawned P" and "\<And>i. i \<ge> spawned P \<Longrightarrow> ws i = Starting"
  shows "world_inv (W\<lparr>pool := P, workers := ws\<rparr>)"
proof -
  have "tag_ok q ws h tag = tag_ok q (workers W) h tag" for q h tag by (rule tag_ok_cong [OF assms(4)])
  with assms(1-3,6) queue_of_cong [OF assms(2)] show ?thesis by (auto simp: world_inv_def queues_wf_def)
qed

lemma not_running_holds_none:
  assumes "world_inv W" and "\<And>t k. workers W me \<noteq> Running t k"
  shows "holds_none me (pool W)"
  unfolding holds_none_def
proof
  fix tag
  from assms(1) have "tag_ok (queue_of (pool W) tag) (workers W) (history W) tag" by (simp add: world_inv_def)
  with assms(2) show "lockThread (queue_of (pool W) tag) \<noteq> Some me" by (auto simp: tag_ok_def)
qed

text \<open>The possible outcomes of one pass of \<open>GetTask\<close>.\<close>

lemma GetTask_pass_cases:
  assumes inv: "world_inv W" and "\<And>t k. workers W me \<noteq> Running t k"
  obtains (Generic) t ts where "tasks (genericTasks (pool W)) = t # ts"
      "GetTask_pass me W = W\<lparr>pool := (pool W)\<lparr>genericTasks := (genericTasks (pool W))\<lparr>tasks := ts\<rparr>\<rparr>, workers := (workers W)(me := Running t None)\<rparr>"
  | (Tagged) t tag ts where "lockThread (queue_of (pool W) tag) = None" "tasks (queue_of (pool W) tag) = t # ts"
      "tag \<in> dom (map_of (queuedTasks (pool W)))"
      "GetTask_pass me W = W\<lparr>pool := (pool W)\<lparr>queuedTasks := with_queue tag (\<lambda>q. q\<lparr>lockThread := Some me, tasks := ts\<rparr>) (queuedTasks (pool W))\<rparr>,
         workers := (workers W)(me := Running t (Some tag)), history := history W @ [Started tag t]\<rparr>"
  | (Leave) "isStopping (pool W)" "GetTask_pass me W = W\<lparr>workers := (workers W)(me := Exiting)\<rparr>"
  | (Sleep) timed g b where "\<not> isStopping (pool W)" "tasks (genericTasks (pool W)) = []"
      "(g \<and> curThreads (pool W) > 1) \<or> (\<forall>tag. tasks (queue_of (pool W) tag) = [] \<or> lockThread (queue_of (pool W) tag) \<noteq> None)"
      "GetTask_pass me W = W\<lparr>pool := (pool W)\<lparr>idleThreads := idleThreads (pool W) + 1, isGenericThreadIdle := b\<rparr>,
         workers := (if g then awaken \<circ> workers W else workers W)(me := Asleep timed g)\<rparr>"
proof -
  have wf: "queues_wf (pool W)" using inv by (simp add: world_inv_def)
  note free = not_running_holds_none [OF assms]
  let ?idle = "IdleExit_wait me (pool W)"
  have idle: thesis if r: "ReapTask me (pool W) = (None, pool W)" and "tasks (genericTasks (pool W)) = []"
    and n: "(IsGenericWorker me (pool W) \<and> curThreads (pool W) > 1) \<or> (\<forall>tag. tasks (queue_of (pool W) tag) = [] \<or> lockThread (queue_of (pool W) tag) \<noteq> None)"
  proof (cases "isStopping (pool W)")
    case True
    with r Leave show ?thesis by (simp add: GetTask_pass_def IdleExit_wait_def)
  next
    case False
    let ?g = "IsGenericWorker me (pool W)"
    let ?t = "\<not> ?g \<and> curThreads (pool W) > minThreads (pool W)"
    have "GetTask_pass me W = W\<lparr>pool := (pool W)\<lparr>idleThreads := idleThreads (pool W) + 1, isGenericThreadIdle := (if ?g then True else isGenericThreadIdle (pool W))\<rparr>,
         workers := (if ?g then awaken \<circ> workers W else workers W)(me := Asleep ?t ?g)\<rparr>"
      using r False by (auto simp: GetTask_pass_def IdleExit_wait_def Let_def IsGenericWorker_def)
    from Sleep [OF False that(2) n this] show ?thesis .
  qed
  show ?thesis
  proof (cases rule: ReapTask_cases [OF wf free])
    case (1 t ts)
    with Generic show ?thesis by (simp add: GetTask_pass_def)
  next
    case 2
    with idle show ?thesis by blast
  next
    case 3
    with idle show ?thesis by blast
  next
    case (4 t tag ts)
    with Tagged [of tag t ts] show ?thesis by (simp add: GetTask_pass_def)
  qed
qed

lemma pass_world_inv:
  assumes inv: "world_inv W" and w: "\<And>t k. workers W me \<noteq> Running t k" and me: "me < spawned (pool W)"
  shows "world_inv (GetTask_pass me W)"
proof (cases rule: GetTask_pass_cases [OF inv w])
  case (1 t ts)
  have "same_runs (workers W) ((workers W)(me := Running t None)) tag" for tag
    using w by (intro same_runs_upd) auto
  with inv me show ?thesis unfolding 1(2)
    by (intro world_frame) (auto simp: world_inv_def)
next
  case (2 t tag ts)
  let ?P = "(pool W)\<lparr>queuedTasks := with_queue tag (\<lambda>q. q\<lparr>lockThread := Some me, tasks := ts\<rparr>) (queuedTasks (pool W))\<rparr>"
  note q = queue_of_update [OF 2(3), of "\<lambda>q. q\<lparr>lockThread := Some me, tasks := ts\<rparr>"]
  have "queues_wf ?P" using inv q by (simp add: world_inv_def queues_wf_def)
  moreover have "tag_ok (queue_of ?P k) ((workers W)(me := Running t (Some tag))) (history W @ [Started tag t]) k" for k
  proof (cases "k = tag")
    case True
    from inv have "tag_ok (queue_of (pool W) tag) (workers W) (history W) tag" by (simp add: world_inv_def)
    with True q 2(1,2) show ?thesis by (auto simp: tag_ok_def)
  next
    case False
    have s: "same_runs (workers W) ((workers W)(me := Running t (Some tag))) k" using w False by (intro same_runs_upd) auto
    from inv have "tag_ok (queue_of (pool W) k) (workers W) (history W) k" by (simp add: world_inv_def)
    then have "tag_ok (queue_of ?P k) (workers W) (history W @ [Started tag t]) k" using False q by (simp add: tag_ok_other)
    with s show ?thesis by (simp add: tag_ok_cong)
  qed
  ultimately show ?thesis unfolding 2(4) using inv me by (auto simp: world_inv_def)
next
  case 3
  have "same_runs (workers W) ((workers W)(me := Exiting)) tag" for tag
    using w by (intro same_runs_upd) auto
  from world_frame [OF inv _ _ this, of "pool W"] inv me show ?thesis unfolding 3(2) by (simp add: world_inv_def)
next
  case (4 timed g b)
  have "same_runs (workers W) ((if g then awaken \<circ> workers W else workers W)(me := Asleep timed g)) tag" for tag
    using w by (intro same_runs_upd) auto
  with inv me show ?thesis unfolding 4(4)
    by (intro world_frame) (auto simp: world_inv_def)
qed


lemma finish_world_inv:
  assumes inv: "world_inv W" and r: "workers W i = Running t (Some tag)" and i: "i < spawned (pool W)"
  shows "world_inv (W\<lparr>pool := FinishExecuteTask i (Some tag) (pool W), workers := (workers W)(i := Fetching), history := history W @ [Finished tag t]\<rparr>)"
proof -
  let ?P = "FinishExecuteTask i (Some tag) (pool W)" and ?q = "queue_of (pool W) tag"
  have ok: "tag_ok (queue_of (pool W) k) (workers W) (history W) k" for k using inv by (simp add: world_inv_def)
  have l: "lockThread ?q = Some i" using ok [of tag] r by (auto simp: tag_ok_def split: option.splits)
  have lk: "lockable ?q" using inv by (simp add: world_inv_def queues_wf_def)
  have "tag \<in> dom (map_of (queuedTasks (pool W)))" using not_empty_queue [of "pool W" tag] l by simp
  from queue_of_update [OF this, of "ReleaseLock i"]
  have q: "queue_of ?P = (queue_of (pool W))(tag := ?q\<lparr>lockThread := None\<rparr>)"
    using l lk by (simp add: FinishExecuteTask_def ReleaseLock_def queue_of_def fun_eq_iff)
  have "tag_ok (queue_of ?P k) ((workers W)(i := Fetching)) (history W @ [Finished tag t]) k" for k
  proof (cases "k = tag")
    case True
    from ok [of tag] l r obtain finished where "\<forall>j t. workers W j = Running t (Some tag) \<longrightarrow> j = i"
      "submitted_of tag (history W) = finished @ t # tasks ?q" "runs_of tag (history W) = serial tag finished @ [Started tag t]"
      by (auto simp: tag_ok_def)
    with q True show ?thesis by (auto simp: tag_ok_def intro!: exI [of _ "finished @ [t]"])
  next
    case False
    have "same_runs (workers W) ((workers W)(i := Fetching)) k" using r False by (intro same_runs_upd) auto
    with False q ok [of k] show ?thesis by (simp add: tag_ok_cong tag_ok_other)
  qed
  moreover have "queues_wf ?P"
    using inv q by (simp add: world_inv_def queues_wf_def) (simp add: FinishExecuteTask_def)
  moreover have "spawned ?P = spawned (pool W)" by (simp add: FinishExecuteTask_def)
  ultimately show ?thesis using inv i by (simp add: world_inv_def)
qed

lemma Schedule_tag_result:
  assumes "Schedule_tag tag (Some t) P = (PE_OK, P')" and "map_wf (queuedTasks P)"
  obtains n where
    "P' = P\<lparr>queuedTasks := with_queue tag (PutTask (Some t)) (map_insert tag (TaskQueue_new True) (queuedTasks P)), queuedTaskCount := queuedTaskCount P + 1,
       curThreads := curThreads P + int n, spawned := spawned P + n\<rparr>"
    "n > 0 \<longrightarrow> curThreads P + int n \<le> maxThreads P"
    "queue_of P' = (queue_of P)(tag := (queue_of P tag)\<lparr>tasks := tasks (queue_of P tag) @ [t]\<rparr>)"
    "map_wf (queuedTasks P')"
proof -
  let ?m = "map_insert tag (TaskQueue_new True) (queuedTasks P)"
  let ?P = "P\<lparr>queuedTasks := with_queue tag (PutTask (Some t)) ?m, queuedTaskCount := queuedTaskCount P + 1\<rparr>"
  from assms(1) have P': "P' = TryToSpawnThreads ?P"
    by (auto simp: Schedule_tag_def split: if_splits)
  obtain n where n: "TryToSpawnThreads ?P = ?P\<lparr>curThreads := curThreads ?P + int n, spawned := spawned ?P + n\<rparr>"
    "n > 0 \<longrightarrow> curThreads ?P + int n \<le> maxThreads ?P" using TryToSpawnThreads_result by blast
  have "queue_of P' = queue_of (P\<lparr>queuedTasks := ?m\<rparr>\<lparr>queuedTasks := with_queue tag (PutTask (Some t)) ?m\<rparr>)"
    using P' n by (intro queue_of_cong) simp
  also have "\<dots> = (queue_of P)(tag := (queue_of P tag)\<lparr>tasks := tasks (queue_of P tag) @ [t]\<rparr>)"
  proof -
    have "tag \<in> dom (map_of ?m)" using assms(2) by (auto simp: map_of_insert)
    then show ?thesis
      using queue_of_update [of tag "P\<lparr>queuedTasks := ?m\<rparr>" "PutTask (Some t)"] queue_of_insert [OF assms(2), of tag] by (simp add: PutTask_def)
  qed
  finally have "queue_of P' = (queue_of P)(tag := (queue_of P tag)\<lparr>tasks := tasks (queue_of P tag) @ [t]\<rparr>)" .
  with P' n assms(2) that [of n] show ?thesis by (simp add: map_wf_insert)
qed

lemma schedule_tag_world_inv:
  assumes inv: "world_inv W" and s: "Schedule_tag tag (Some t) (pool W) = (PE_OK, P)"
  shows "world_inv (W\<lparr>pool := P, workers := awaken \<circ> workers W, history := history W @ [Submitted tag t]\<rparr>)"
proof -
  have "map_wf (queuedTasks (pool W))" using inv by (simp add: world_inv_def queues_wf_def)
  from Schedule_tag_result [OF s this] obtain n where
    P: "P = (pool W)\<lparr>queuedTasks := with_queue tag (PutTask (Some t)) (map_insert tag (TaskQueue_new True) (queuedTasks (pool W))), queuedTaskCount := queuedTaskCount (pool W) + 1,
       curThreads := curThreads (pool W) + int n, spawned := spawned (pool W) + n\<rparr>"
    and q: "queue_of P = (queue_of (pool W))(tag := (queue_of (pool W) tag)\<lparr>tasks := tasks (queue_of (pool W) tag) @ [t]\<rparr>)"
    and "map_wf (queuedTasks P)" .
  have ok: "tag_ok (queue_of (pool W) k) (workers W) (history W) k" for k using inv by (simp add: world_inv_def)
  have "tag_ok (queue_of P k) (awaken \<circ> workers W) (history W @ [Submitted tag t]) k" for k
  proof (cases "k = tag")
    case True
    from ok [of tag] q True show ?thesis
      by (cases "lockThread (queue_of (pool W) tag)") (auto simp: tag_ok_def)
  next
    case False
    with q ok [of k] show ?thesis by (simp add: tag_ok_other tag_ok_cong [OF same_runs_awaken(1)])
  qed
  moreover have "queues_wf P"
    using inv q \<open>map_wf (queuedTasks P)\<close> P by (simp add: world_inv_def queues_wf_def)
  moreover have "spawned P = spawned (pool W) + n" using P by simp
  ultimately show ?thesis using inv by (simp add: world_inv_def)
qed

lemma shrink_queues:
  assumes "queues_wf P"
  shows "queue_of (ShrinkMemory tag P) = queue_of P" "queues_wf (ShrinkMemory tag P)" "spawned (ShrinkMemory tag P) = spawned P"
    "curThreads (ShrinkMemory tag P) = curThreads P" "maxThreads (ShrinkMemory tag P) = maxThreads P" "minThreads (ShrinkMemory tag P) = minThreads P"
    "isStarted (ShrinkMemory tag P) = isStarted P" "isStopping (ShrinkMemory tag P) = isStopping P" "genericTasks (ShrinkMemory tag P) = genericTasks P"
proof -
  have e: "q = TaskQueue_new True" if "map_of (queuedTasks P) tag = Some q" "IsEmptyAndUnlocked q" for q
  proof -
    have "lockable (queue_of P tag)" using assms by (simp add: queues_wf_def)
    with that show ?thesis by (cases q) (auto simp: queue_of_def IsEmptyAndUnlocked_def TaskQueue_new_def split: if_splits)
  qed
  show 1: "queue_of (ShrinkMemory tag P) = queue_of P"
    using e by (auto simp: ShrinkMemory_def queue_of_def map_of_erase fun_eq_iff split: option.splits)
  show "queues_wf (ShrinkMemory tag P)"
    using assms 1 by (auto simp: queues_wf_def) (auto simp: ShrinkMemory_def map_wf_erase split: option.splits if_splits)
qed (auto simp: ShrinkMemory_def split: option.splits)

lemma refused_unchanged:
  "Schedule task P = (e, P') \<Longrightarrow> e \<noteq> PE_OK \<Longrightarrow> P' = P"
  "Schedule_tag tag task P = (e, P') \<Longrightarrow> e \<noteq> PE_OK \<Longrightarrow> P' = P"
  by (auto simp: Schedule_def Schedule_tag_def split: if_splits)

lemma Schedule_result:
  assumes "Schedule task P = (PE_OK, P')"
  obtains t n where "task = Some t"
    "P' = P\<lparr>genericTasks := (genericTasks P)\<lparr>tasks := tasks (genericTasks P) @ [t]\<rparr>, genericTaskCount := genericTaskCount P + 1,
       curThreads := curThreads P + int n, spawned := spawned P + n\<rparr>"
    "n > 0 \<longrightarrow> curThreads P + int n \<le> maxThreads P"
proof -
  from assms obtain t where t: "task = Some t" by (cases task) (auto simp: Schedule_def)
  let ?P = "P\<lparr>genericTasks := (genericTasks P)\<lparr>tasks := tasks (genericTasks P) @ [t]\<rparr>, genericTaskCount := genericTaskCount P + 1\<rparr>"
  from assms t have P': "P' = TryToSpawnThreads ?P" by (auto simp: Schedule_def PutTask_def split: if_splits)
  obtain n where "TryToSpawnThreads ?P = ?P\<lparr>curThreads := curThreads ?P + int n, spawned := spawned ?P + n\<rparr>"
    "n > 0 \<longrightarrow> curThreads ?P + int n \<le> maxThreads ?P" using TryToSpawnThreads_result by blast
  with that [of t n] t P' show ?thesis by simp
qed

lemma resume_pass:
  "GetTask_resume me timed g timeout W =
     (let P = (pool W)\<lparr>isGenericThreadIdle := (if \<not> timed \<and> g then False else isGenericThreadIdle (pool W)),
          idleThreads := idleThreads (pool W) - 1\<rparr> in
      if timed \<and> timeout \<and> genericTaskCount (pool W) \<le> 0 then W\<lparr>pool := P, workers := (workers W)(me := Exiting)\<rparr>
      else GetTask_pass me (W\<lparr>pool := P\<rparr>))"
  by (auto simp: GetTask_resume_def IdleExit_woken_def Let_def)

lemma idle_fields_world_inv:
  assumes "world_inv W"
  shows "world_inv (W\<lparr>pool := (pool W)\<lparr>isGenericThreadIdle := b, idleThreads := n\<rparr>\<rparr>)" "world_inv (W\<lparr>pool := (pool W)\<lparr>idleThreads := n\<rparr>\<rparr>)"
  using assms world_frame [of W "(pool W)\<lparr>isGenericThreadIdle := b, idleThreads := n\<rparr>" "workers W"]
    world_frame [of W "(pool W)\<lparr>idleThreads := n\<rparr>" "workers W"] by (simp_all add: world_inv_def)

lemma worker_world_inv:
  assumes "world_inv W" and "i < spawned (pool W)" and "\<And>t k. workers W i \<noteq> Running t k" and "\<And>t k. w \<noteq> Running t k"
    and "queuedTasks P = queuedTasks (pool W)" "genericTasks P = genericTasks (pool W)" "spawned P = spawned (pool W)"
  shows "world_inv (W\<lparr>pool := P, workers := (workers W)(i := w)\<rparr>)"
proof -
  have "same_runs (workers W) ((workers W)(i := w)) tag" for tag using assms(3,4) by (intro same_runs_upd) auto
  with assms show ?thesis by (intro world_frame) (auto simp: world_inv_def)
qed


lemma step_world_inv: "pool_step limit stops W W' \<Longrightarrow> world_inv W \<Longrightarrow> world_inv W'"
proof (induction rule: pool_step.induct)
  case (start W)
  obtain n b c where "snd (Start (pool W)) = (pool W)\<lparr>curThreads := curThreads (pool W) + int n, spawned := spawned (pool W) + n, isStarted := b, isStopping := c\<rparr>"
    using Start_result by blast
  with start world_frame [OF start, of "snd (Start (pool W))" "workers W"] show ?case by (simp add: world_inv_def)
next
  case (stop_request W)
  then show ?case by (intro world_frame; cases "isStarted (pool W)") (auto simp: Stop_request_def world_inv_def)
next
  case (stop_return W P)
  then show ?case using world_frame [of W P "workers W"] by (auto simp: Stop_return_def world_inv_def split: if_splits)
next
  case (schedule task W P ws i)
  obtain t n where "P = (pool W)\<lparr>genericTasks := (genericTasks (pool W))\<lparr>tasks := tasks (genericTasks (pool W)) @ [t]\<rparr>,
      genericTaskCount := genericTaskCount (pool W) + 1, curThreads := curThreads (pool W) + int n, spawned := spawned (pool W) + n\<rparr>"
    using Schedule_result [OF schedule(1)] by blast
  with schedule(2,3) show ?case by (intro world_frame) (auto simp: world_inv_def)
next
  case (schedule_tag tag t W P)
  then show ?case by (intro schedule_tag_world_inv)
next
  case (shrink W tag)
  then have wf: "queues_wf (pool W)" by (simp add: world_inv_def)
  from shrink shrink_queues [OF wf, of tag] show ?case by (simp add: world_inv_def)
next
  case (begins i W)
  then show ?case by (intro worker_world_inv) (auto simp: BecomeGenericWorker_def)
next
  case (fetch i W)
  then show ?case by (intro pass_world_inv) auto
next
  case (spurious i W timed g)
  then show ?case using worker_world_inv [of W i "Woken timed g False" "pool W"] by auto
next
  case (timeout i W g)
  then show ?case using worker_world_inv [of W i "Woken True g True" "pool W"] by auto
next
  case (resume i W timed g timeout)
  then show ?case
    by (auto simp: resume_pass Let_def intro!: pass_world_inv idle_fields_world_inv worker_world_inv)
next
  case (finish i W t tag)
  show ?case
  proof (cases tag)
    case None
    have "same_runs (workers W) ((workers W)(i := Fetching)) k" for k using finish(2) None by (intro same_runs_upd) auto
    with finish None show ?thesis
      using world_frame [of W "FinishExecuteTask i tag (pool W)" "(workers W)(i := Fetching)"]
      by (auto simp: FinishExecuteTask_def world_inv_def)
  next
    case (Some k)
    with finish finish_world_inv [of W i t k] show ?thesis by simp
  qed
next
  case (leave i W)
  then show ?case by (intro worker_world_inv) (auto simp: ExitGenericWorker_def Let_def)
qed (auto dest: refused_unchanged)

lemma init_world_inv: "world_inv (pool_init maxT minT)"
  by (simp add: world_inv_def pool_init_def TaskPool_new_def queues_wf_def queue_of_def TaskQueue_new_def tag_ok_def map_wf_def)

lemma reachable_world_inv: "(pool_step limit stops)\<^sup>*\<^sup>* (pool_init maxT minT) W \<Longrightarrow> world_inv W"
  by (induction rule: rtranclp_induct) (auto intro: init_world_inv step_world_inv)

text \<open>
  C17 (safety): whatever the interleaving of the callers, the workers and the time limits, the tasks of one
  tag run one at a time and in the order they were scheduled: each starts after the one before it has
  finished.
\<close>

theorem tagged_tasks_serial:
  assumes "(pool_step limit stops)\<^sup>*\<^sup>* (pool_init maxT minT) W"
  shows "\<exists>ran waiting. submitted_of tag (history W) = ran @ waiting \<and>
    (runs_of tag (history W) = serial tag ran \<or>
     (\<exists>finished t. ran = finished @ [t] \<and> runs_of tag (history W) = serial tag finished @ [Started tag t]))"
proof -
  from reachable_world_inv [OF assms] have "tag_ok (queue_of (pool W) tag) (workers W) (history W) tag"
    by (simp add: world_inv_def)
  then show ?thesis
  proof (cases "lockThread (queue_of (pool W) tag)")
    case None
    with \<open>tag_ok _ _ _ _\<close> show ?thesis by (auto simp: tag_ok_def)
  next
    case (Some i)
    with \<open>tag_ok _ _ _ _\<close> obtain finished t where
      "submitted_of tag (history W) = (finished @ [t]) @ tasks (queue_of (pool W) tag)" "runs_of tag (history W) = serial tag finished @ [Started tag t]"
      by (auto simp: tag_ok_def)
    then show ?thesis by blast
  qed
qed

subsection \<open>Counting threads\<close>

definition live :: "'a pool_world \<Rightarrow> nat set" where
  "live W = {i. i < spawned (pool W) \<and> workers W i \<noteq> Gone}"

definition count_inv :: "'a pool_world \<Rightarrow> bool" where
  "count_inv W \<longleftrightarrow> curThreads (pool W) = int (card (live W)) \<and> curThreads (pool W) \<le> max 0 (maxThreads (pool W))
     \<and> (\<forall>i \<ge> spawned (pool W). workers W i = Starting)"

lemma live_finite [simp]: "finite (live W)"
  by (simp add: live_def)

lemma count_frame:
  assumes "count_inv W" and "curThreads P = curThreads (pool W)" "spawned P = spawned (pool W)" "maxThreads P = maxThreads (pool W)"
    and "\<And>i. ws i = Gone \<longleftrightarrow> workers W i = Gone" and "\<And>i. i \<ge> spawned P \<Longrightarrow> ws i = Starting"
  shows "count_inv (W\<lparr>pool := P, workers := ws, history := h\<rparr>)"
proof -
  have "live (W\<lparr>pool := P, workers := ws, history := h\<rparr>) = live W" using assms by (simp add: live_def)
  with assms show ?thesis by (simp add: count_inv_def)
qed

lemma count_spawn:
  assumes c: "count_inv W" and "curThreads P = curThreads (pool W) + int n" "spawned P = spawned (pool W) + n"
    and m: "maxThreads P = maxThreads (pool W)" "n > 0 \<longrightarrow> curThreads (pool W) + int n \<le> maxThreads (pool W)"
    and ws: "\<And>i. ws i = Gone \<longleftrightarrow> workers W i = Gone" "\<And>i. i \<ge> spawned (pool W) \<Longrightarrow> ws i = Starting"
  shows "count_inv (W\<lparr>pool := P, workers := ws, history := h\<rparr>)"
proof -
  let ?W = "W\<lparr>pool := P, workers := ws, history := h\<rparr>" and ?s = "spawned (pool W)"
  have "live ?W = live W \<union> {?s ..< ?s + n}" using assms by (auto simp: live_def not_le count_inv_def)
  moreover have "live W \<inter> {?s ..< ?s + n} = {}" by (auto simp: live_def)
  ultimately have "card (live ?W) = card (live W) + n" by (simp add: card_Un_disjoint)
  with assms show ?thesis by (cases "n = 0") (auto simp: count_inv_def)
qed


lemma pass_frame:
  assumes "world_inv W" and "\<And>t k. workers W me \<noteq> Running t k"
  obtains P ws h where "GetTask_pass me W = W\<lparr>pool := P, workers := ws, history := h\<rparr>"
    "curThreads P = curThreads (pool W)" "spawned P = spawned (pool W)" "maxThreads P = maxThreads (pool W)" "minThreads P = minThreads (pool W)"
    "isStarted P = isStarted (pool W)" "isStopping P = isStopping (pool W)"
    "\<forall>i. i \<noteq> me \<longrightarrow> ws i = workers W i \<or> ws i = awaken (workers W i)" "ws me \<noteq> Gone" "ws me = Exiting \<longrightarrow> isStopping (pool W)"
proof (cases rule: GetTask_pass_cases [OF assms])
  case (1 t ts)
  have "GetTask_pass me W = W\<lparr>pool := (pool W)\<lparr>genericTasks := (genericTasks (pool W))\<lparr>tasks := ts\<rparr>\<rparr>, workers := (workers W)(me := Running t None), history := history W\<rparr>"
    using 1(2) by simp
  then show ?thesis by (rule that) auto
next
  case (2 t tag ts)
  from 2(4) show ?thesis by (rule that) auto
next
  case 3
  have "GetTask_pass me W = W\<lparr>pool := pool W, workers := (workers W)(me := Exiting), history := history W\<rparr>" using 3(2) by simp
  then show ?thesis by (rule that) (use 3 in auto)
next
  case (4 timed g b)
  have "GetTask_pass me W = W\<lparr>pool := (pool W)\<lparr>idleThreads := idleThreads (pool W) + 1, isGenericThreadIdle := b\<rparr>,
    workers := (if g then awaken \<circ> workers W else workers W)(me := Asleep timed g), history := history W\<rparr>" using 4(4) by simp
  then show ?thesis by (rule that) auto
qed

lemma count_plain:
  assumes "count_inv W" and "curThreads P = curThreads (pool W)" "spawned P = spawned (pool W)" "maxThreads P = maxThreads (pool W)"
    and "i < spawned (pool W)" "workers W i \<noteq> Gone" "w \<noteq> Gone"
  shows "count_inv (W\<lparr>pool := P, workers := (workers W)(i := w), history := h\<rparr>)"
  using assms by (intro count_frame) (auto simp: count_inv_def)

lemma count_pass:
  assumes "count_inv W" "world_inv W" and "\<And>t k. workers W me \<noteq> Running t k" and "me < spawned (pool W)" "workers W me \<noteq> Gone"
  shows "count_inv (GetTask_pass me W)"
proof -
  obtain P ws h where p: "GetTask_pass me W = W\<lparr>pool := P, workers := ws, history := h\<rparr>"
    "curThreads P = curThreads (pool W)" "spawned P = spawned (pool W)" "maxThreads P = maxThreads (pool W)"
    "\<forall>i. i \<noteq> me \<longrightarrow> ws i = workers W i \<or> ws i = awaken (workers W i)" "ws me \<noteq> Gone"
    by (rule pass_frame [OF assms(2,3)]) blast
  have "(ws i = Gone) = (workers W i = Gone)" for i using p(5,6) assms(5) by (metis awaken_running(3))
  moreover have "ws i = Starting" if "i \<ge> spawned P" for i
    using p(5) [rule_format, of i] p(3) that assms(1,4) by (auto simp: count_inv_def)
  ultimately show ?thesis unfolding p(1) using assms(1) p by (intro count_frame) auto
qed

lemma count_leave:
  assumes c: "count_inv W" and i: "i < spawned (pool W)" "workers W i = Exiting"
  shows "count_inv (W\<lparr>pool := ExitGenericWorker i (pool W), workers := (workers W)(i := Gone)\<rparr>)"
proof -
  have l: "live (W\<lparr>pool := ExitGenericWorker i (pool W), workers := (workers W)(i := Gone)\<rparr>) = live W - {i}"
    by (auto simp: live_def ExitGenericWorker_def Let_def)
  have "i \<in> live W" using i by (simp add: live_def)
  then have "int (card (live W - {i})) = int (card (live W)) - 1"
    using card_Suc_Diff1 [of "live W" i] by simp
  moreover have "curThreads (ExitGenericWorker i (pool W)) = curThreads (pool W) - 1" "spawned (ExitGenericWorker i (pool W)) = spawned (pool W)"
    "maxThreads (ExitGenericWorker i (pool W)) = maxThreads (pool W)" by (simp_all add: ExitGenericWorker_def Let_def)
  ultimately show ?thesis using c i unfolding count_inv_def l by simp
qed

lemma step_count_inv: "pool_step limit stops W W' \<Longrightarrow> world_inv W \<Longrightarrow> count_inv W \<Longrightarrow> count_inv W'"
proof (induction rule: pool_step.induct)
  case (start W)
  obtain n b c where "snd (Start (pool W)) = (pool W)\<lparr>curThreads := curThreads (pool W) + int n, spawned := spawned (pool W) + n, isStarted := b, isStopping := c\<rparr>"
    "n > 0 \<longrightarrow> curThreads (pool W) + int n \<le> maxThreads (pool W)"
    using Start_result by blast
  with start count_spawn [of W "snd (Start (pool W))" n "workers W" "history W"] show ?case by (simp add: count_inv_def)
next
  case (stop_request W)
  then show ?case using count_frame [of W "Stop_request (pool W)" "if isStarted (pool W) then awaken \<circ> workers W else workers W" "history W"]
    by (auto simp: Stop_request_def count_inv_def split: if_splits)
next
  case (stop_return W P)
  then show ?case using count_frame [of W P "workers W" "history W"] by (auto simp: Stop_return_def count_inv_def split: if_splits)
next
  case (schedule task W P ws i)
  obtain t n where "P = (pool W)\<lparr>genericTasks := (genericTasks (pool W))\<lparr>tasks := tasks (genericTasks (pool W)) @ [t]\<rparr>,
      genericTaskCount := genericTaskCount (pool W) + 1, curThreads := curThreads (pool W) + int n, spawned := spawned (pool W) + n\<rparr>"
    "n > 0 \<longrightarrow> curThreads (pool W) + int n \<le> maxThreads (pool W)"
    using Schedule_result [OF schedule(1)] by blast
  with schedule(2,4) count_spawn [of W P n ws "history W"] show ?case by (auto simp: count_inv_def)
next
  case (schedule_tag tag t W P)
  then have "map_wf (queuedTasks (pool W))" by (simp add: world_inv_def queues_wf_def)
  then obtain n where "curThreads P = curThreads (pool W) + int n" "spawned P = spawned (pool W) + n" "maxThreads P = maxThreads (pool W)"
    "n > 0 \<longrightarrow> curThreads (pool W) + int n \<le> maxThreads (pool W)" by (rule Schedule_tag_result [OF schedule_tag(1)]) simp
  with schedule_tag(3) show ?case by (intro count_spawn) (auto simp: count_inv_def)
next
  case (shrink W tag)
  then have wf: "queues_wf (pool W)" by (simp add: world_inv_def)
  from shrink shrink_queues [OF wf, of tag] count_frame [of W "ShrinkMemory tag (pool W)" "workers W" "history W"] show ?case
    by (simp add: count_inv_def)
next
  case (begins i W)
  then show ?case using count_plain [of W "BecomeGenericWorker i (pool W)" i Fetching "history W"] by (auto simp: BecomeGenericWorker_def)
next
  case (fetch i W)
  then show ?case by (intro count_pass) auto
next
  case (spurious i W timed g)
  then show ?case using count_plain [of W "pool W" i "Woken timed g False" "history W"] by auto
next
  case (timeout i W g)
  then show ?case using count_plain [of W "pool W" i "Woken True g True" "history W"] by auto
next
  case (resume i W timed g timeout)
  let ?P = "(pool W)\<lparr>isGenericThreadIdle := (if \<not> timed \<and> g then False else isGenericThreadIdle (pool W)), idleThreads := idleThreads (pool W) - 1\<rparr>"
  have "count_inv (W\<lparr>pool := ?P\<rparr>)" "world_inv (W\<lparr>pool := ?P\<rparr>)"
    using resume count_frame [of W ?P "workers W" "history W"] idle_fields_world_inv by (auto simp: count_inv_def)
  then show ?case using resume count_pass [of "W\<lparr>pool := ?P\<rparr>" i] count_plain [of W ?P i Exiting "history W"]
    by (auto simp: resume_pass Let_def simp del: fun_upd_apply)
next
  case (finish i W t tag)
  then show ?case
    using count_plain [of W "FinishExecuteTask i tag (pool W)" i Fetching "case tag of None \<Rightarrow> history W | Some k \<Rightarrow> history W @ [Finished k t]"]
    by (auto simp: FinishExecuteTask_def split: option.splits)
next
  case (leave i W)
  then show ?case by (intro count_leave)
qed (auto dest: refused_unchanged)

lemma reachable_count_inv:
  "(pool_step limit stops)\<^sup>*\<^sup>* (pool_init maxT minT) W \<Longrightarrow> world_inv W \<and> count_inv W"
proof (induction rule: rtranclp_induct)
  case base
  show ?case by (simp add: init_world_inv) (simp add: count_inv_def pool_init_def TaskPool_new_def live_def)
qed (auto intro: step_world_inv step_count_inv)


text \<open>
  At every moment the counter of the pool is the number of worker threads that exist, and
  it never exceeds the maximum; so when \<open>Stop\<close> returns, having seen the counter at zero, no worker is left
  that could use the pool.
\<close>

theorem workers_counted:
  assumes "(pool_step limit stops)\<^sup>*\<^sup>* (pool_init maxT minT) W"
  shows "curThreads (pool W) = int (card {i. i < spawned (pool W) \<and> workers W i \<noteq> Gone})
    \<and> curThreads (pool W) \<le> max 0 (maxThreads (pool W))
    \<and> (Stop_return (pool W) \<noteq> None \<longrightarrow> (\<forall>i < spawned (pool W). workers W i = Gone))"
proof -
  from reachable_count_inv [OF assms] have c: "curThreads (pool W) = int (card (live W))" "curThreads (pool W) \<le> max 0 (maxThreads (pool W))"
    by (auto simp: count_inv_def)
  moreover have "workers W i = Gone" if "Stop_return (pool W) \<noteq> None" "i < spawned (pool W)" for i
  proof -
    from that(1) have "curThreads (pool W) \<le> 0" by (auto simp: Stop_return_def split: if_splits)
    with c(1) have "live W = {}" by simp
    with that(2) show ?thesis by (auto simp: live_def)
  qed
  ultimately show ?thesis by (simp add: live_def)
qed

subsection \<open>No task is left waiting\<close>

definition pending :: "'a TaskPool \<Rightarrow> bool" where
  "pending P \<longleftrightarrow> tasks (genericTasks P) \<noteq> [] \<or> (\<exists>tag. tasks (queue_of P tag) \<noteq> [])"

text \<open>A task waits while every worker sleeps or has left: nobody takes it until the next call.\<close>

definition stranded :: "'a pool_world \<Rightarrow> bool" where
  "stranded W \<longleftrightarrow> isStarted (pool W) \<and> pending (pool W) \<and> (\<forall>i < spawned (pool W). is_asleep (workers W i) \<or> workers W i = Gone)"

fun is_active :: "'a worker \<Rightarrow> bool" where
  "is_active (Asleep _ _) = False"
| "is_active Exiting = False"
| "is_active Gone = False"
| "is_active (Woken _ _ timeout) = (\<not> timeout)"
| "is_active _ = True"

definition progress_inv :: "'a pool_world \<Rightarrow> bool" where
  "progress_inv W \<longleftrightarrow> minThreads (pool W) \<ge> 1 \<and> \<not> isStopping (pool W)
     \<and> (\<forall>i < spawned (pool W). is_asleep (workers W i) \<or> is_active (workers W i))
     \<and> (isStarted (pool W) \<longrightarrow> curThreads (pool W) \<ge> 1)
     \<and> (pending (pool W) \<longrightarrow> (\<exists>i < spawned (pool W). is_active (workers W i)))"

lemma active_awaken [simp]: "is_active w \<Longrightarrow> is_active (awaken w)" "is_asleep w \<Longrightarrow> is_active (awaken w)"
  by (cases w; simp)+

lemma active_not_asleep: "is_active w \<Longrightarrow> \<not> is_asleep w \<and> w \<noteq> Gone"
  by (cases w) auto

lemma some_live:
  assumes "count_inv W" "curThreads (pool W) \<ge> 1"
  obtains i where "i < spawned (pool W)"
proof -
  from assms have "live W \<noteq> {}" by (auto simp: count_inv_def)
  then obtain i where "i \<in> live W" by blast
  with that show ?thesis by (auto simp: live_def)
qed

lemma another_live:
  assumes "count_inv W" "curThreads (pool W) > 1"
  obtains j where "j < spawned (pool W)" "j \<noteq> i"
proof -
  from assms have "card (live W) > 1" by (simp add: count_inv_def)
  then have "\<not> live W \<subseteq> {i}" using card_mono [of "{i}" "live W"] by auto
  with that show ?thesis by (auto simp: live_def)
qed

lemma pass_progress:
  assumes inv: "world_inv W" "count_inv W" and pr: "progress_inv W" and w: "\<And>t k. workers W me \<noteq> Running t k"
    and me: "me < spawned (pool W)"
  shows "progress_inv (GetTask_pass me W)"
proof (cases rule: GetTask_pass_cases [OF inv(1) w])
  case (1 t ts)
  with pr me show ?thesis by (auto simp: progress_inv_def)
next
  case (2 t tag ts)
  with pr me show ?thesis by (auto simp: progress_inv_def)
next
  case 3
  with pr show ?thesis by (simp add: progress_inv_def)
next
  case (4 timed g b)
  let ?P = "(pool W)\<lparr>idleThreads := idleThreads (pool W) + 1, isGenericThreadIdle := b\<rparr>"
    and ?ws = "(if g then awaken \<circ> workers W else workers W)(me := Asleep timed g)"
  have p: "pending ?P = pending (pool W)" using queue_of_cong [of ?P "pool W"] by (simp add: pending_def)
  have "\<exists>i < spawned (pool W). is_active (?ws i)" if "pending (pool W)"
  proof (cases "g \<and> curThreads (pool W) > 1")
    case True
    then obtain j where "j < spawned (pool W)" "j \<noteq> me" using another_live [OF inv(2)] by blast
    with True pr show ?thesis by (intro exI [of _ j]) (auto simp: progress_inv_def)
  next
    case False
    with 4(2,3) that obtain tag j where l: "lockThread (queue_of (pool W) tag) = Some j"
      by (auto simp: pending_def)
    from inv(1) have "tag_ok (queue_of (pool W) tag) (workers W) (history W) tag" by (simp add: world_inv_def)
    with l obtain t where r: "workers W j = Running t (Some tag)" by (auto simp: tag_ok_def)
    then have "j < spawned (pool W)" using inv(1) by (metis not_le world_inv_def worker.distinct(7))
    with r w show ?thesis by (intro exI [of _ j]) auto
  qed
  moreover have "is_asleep (?ws i) \<or> is_active (?ws i)" if "i < spawned (pool W)" for i
    using pr that by (auto simp: progress_inv_def)
  ultimately show ?thesis unfolding 4(4) using pr p by (simp add: progress_inv_def)
qed

lemma progress_frame:
  assumes "progress_inv W" and "minThreads P = minThreads (pool W)" "isStopping P = isStopping (pool W)" "isStarted P = isStarted (pool W)"
    "curThreads P = curThreads (pool W)" "spawned P = spawned (pool W)"
    and "\<And>i. i < spawned P \<Longrightarrow> is_asleep (ws i) \<or> is_active (ws i)"
    and "pending P \<Longrightarrow> \<exists>i < spawned P. is_active (ws i)"
  shows "progress_inv (W\<lparr>pool := P, workers := ws, history := h\<rparr>)"
  using assms by (simp add: progress_inv_def)

lemma progress_worker:
  assumes "progress_inv W" and "i < spawned (pool W)" "is_active w"
    and "minThreads P = minThreads (pool W)" "isStopping P = isStopping (pool W)" "isStarted P = isStarted (pool W)"
    "curThreads P = curThreads (pool W)" "spawned P = spawned (pool W)"
  shows "progress_inv (W\<lparr>pool := P, workers := (workers W)(i := w), history := h\<rparr>)"
  using assms by (intro progress_frame) (auto simp: progress_inv_def)


lemma progress_spawn:
  assumes pr: "progress_inv W" and c: "count_inv W" and "minThreads P = minThreads (pool W)" "isStopping P = isStopping (pool W)"
    and "curThreads P = curThreads (pool W) + int n" "spawned P = spawned (pool W) + n" "isStarted P \<Longrightarrow> curThreads P \<ge> 1"
    and "\<And>i. i < spawned (pool W) \<Longrightarrow> is_asleep (ws i) \<or> is_active (ws i)" "\<And>i. i \<ge> spawned (pool W) \<Longrightarrow> ws i = Starting"
    and "pending P \<Longrightarrow> \<exists>i < spawned P. is_active (ws i)"
  shows "progress_inv (W\<lparr>pool := P, workers := ws, history := h\<rparr>)"
proof -
  have "is_asleep (ws i) \<or> is_active (ws i)" if "i < spawned P" for i
    using assms(8,9) [of i] by (cases "i < spawned (pool W)") auto
  with assms show ?thesis by (simp add: progress_inv_def)
qed

lemma Schedule_started:
  "Schedule task P = (PE_OK, P') \<Longrightarrow> isStarted P" "Schedule_tag tag task P = (PE_OK, P') \<Longrightarrow> isStarted P"
  by (auto simp: Schedule_def Schedule_tag_def split: if_splits)

lemma step_progress:
  "pool_step False False W W' \<Longrightarrow> world_inv W \<Longrightarrow> count_inv W \<Longrightarrow> progress_inv W \<Longrightarrow> progress_inv W'"
proof (induction rule: pool_step.induct)
  case (start W)
  obtain n b c where n: "snd (Start (pool W)) = (pool W)\<lparr>curThreads := curThreads (pool W) + int n, spawned := spawned (pool W) + n, isStarted := b, isStopping := c\<rparr>"
    and c: "c \<longrightarrow> isStopping (pool W)"
    and b: "b \<longrightarrow> isStarted (pool W) \<or> (1 \<le> maxThreads (pool W) \<and> maxThreads (pool W) \<le> curThreads (pool W)) \<or> curThreads (pool W) + int n \<ge> minThreads (pool W)"
    using Start_result by blast
  have "pending (snd (Start (pool W))) = pending (pool W)"
    using n queue_of_cong [of "snd (Start (pool W))" "pool W"] by (simp add: pending_def)
  moreover have "isStarted (snd (Start (pool W))) \<Longrightarrow> curThreads (snd (Start (pool W))) \<ge> 1"
    using n b start(3) by (auto simp: progress_inv_def)
  ultimately have "progress_inv (W\<lparr>pool := snd (Start (pool W)), workers := workers W, history := history W\<rparr>)"
    using start c
    by (intro progress_spawn [OF start(3,2), of _ n]) (auto simp: n progress_inv_def count_inv_def intro: trans_less_add1)
  then show ?case by simp
next
  case (schedule task W P ws i)
  obtain t n where P: "P = (pool W)\<lparr>genericTasks := (genericTasks (pool W))\<lparr>tasks := tasks (genericTasks (pool W)) @ [t]\<rparr>,
      genericTaskCount := genericTaskCount (pool W) + 1, curThreads := curThreads (pool W) + int n, spawned := spawned (pool W) + n\<rparr>"
    using Schedule_result [OF schedule(1)] by blast
  have cur: "curThreads (pool W) \<ge> 1" using schedule(5) Schedule_started(1) [OF schedule(1)] by (simp add: progress_inv_def)
  obtain k where k: "k < spawned (pool W)" using some_live [OF schedule(4) cur] by blast
  have st: "workers W j = Starting" if "j \<ge> spawned (pool W)" for j using schedule(4) that by (simp add: count_inv_def)
  have "\<exists>j < spawned (pool W). is_active (ws j)"
    using schedule(2)
  proof
    assume a: "ws = (workers W)(i := awaken (workers W i)) \<and> is_asleep (workers W i)"
    then have "i < spawned (pool W)" using st [of i] by (metis is_asleep.simps(2) not_le)
    with a show ?thesis by (auto intro!: exI [of _ i])
  next
    assume "ws = workers W \<and> (\<forall>j. \<not> is_asleep (workers W j))"
    with k schedule(5) show ?thesis by (auto simp: progress_inv_def)
  qed
  moreover have "is_asleep (ws j) \<or> is_active (ws j)" if "j < spawned (pool W)" for j
  proof -
    have "is_asleep (workers W j) \<or> is_active (workers W j)" using schedule(5) that by (simp add: progress_inv_def)
    then show ?thesis using schedule(2) by auto
  qed
  moreover have "ws j = Starting" if "j \<ge> spawned (pool W)" for j using schedule(2) st that by auto
  ultimately show ?case
    using progress_spawn [OF schedule(5,4), of P n ws "history W"] P cur by (auto intro: trans_less_add1)
next
  case (schedule_tag tag t W P)
  then have "map_wf (queuedTasks (pool W))" by (simp add: world_inv_def queues_wf_def)
  then obtain n where P: "curThreads P = curThreads (pool W) + int n" "spawned P = spawned (pool W) + n" "minThreads P = minThreads (pool W)"
    "isStopping P = isStopping (pool W)" by (rule Schedule_tag_result [OF schedule_tag(1)]) simp
  have cur: "curThreads (pool W) \<ge> 1" using schedule_tag(4) Schedule_started(2) [OF schedule_tag(1)] by (simp add: progress_inv_def)
  obtain k where "k < spawned (pool W)" using some_live [OF schedule_tag(3) cur] by blast
  moreover have a: "is_active (awaken (workers W j))" if "j < spawned (pool W)" for j
    using schedule_tag(4) that by (auto simp: progress_inv_def)
  moreover have "workers W j = Starting" if "j \<ge> spawned (pool W)" for j using schedule_tag(3) that by (simp add: count_inv_def)
  ultimately show ?case using P cur by (intro progress_spawn [OF schedule_tag(4,3)]) (auto intro: trans_less_add1)
next
  case (shrink W tag)
  then have wf: "queues_wf (pool W)" by (simp add: world_inv_def)
  note s = shrink_queues [OF wf, of tag]
  have "pending (ShrinkMemory tag (pool W)) = pending (pool W)" using s by (simp add: pending_def)
  with shrink(3) s show ?case by (simp add: progress_inv_def)
next
  case (begins i W)
  then show ?case using progress_worker [of W i Fetching "BecomeGenericWorker i (pool W)" "history W"] by (auto simp: BecomeGenericWorker_def)
next
  case (fetch i W)
  then show ?case by (intro pass_progress) auto
next
  case (spurious i W timed g)
  then show ?case using progress_worker [of W i "Woken timed g False" "pool W" "history W"] by auto
next
  case (resume i W timed g timeout)
  let ?P = "(pool W)\<lparr>isGenericThreadIdle := (if \<not> timed \<and> g then False else isGenericThreadIdle (pool W)), idleThreads := idleThreads (pool W) - 1\<rparr>"
  have "\<not> timeout" using resume by (auto simp: progress_inv_def)
  moreover have "pending ?P = pending (pool W)" using queue_of_cong [of ?P "pool W"] by (simp add: pending_def)
  then have "count_inv (W\<lparr>pool := ?P\<rparr>)" "world_inv (W\<lparr>pool := ?P\<rparr>)" "progress_inv (W\<lparr>pool := ?P\<rparr>)"
    using resume count_frame [of W ?P "workers W" "history W"] idle_fields_world_inv by (auto simp: count_inv_def progress_inv_def)
  ultimately show ?case using resume pass_progress [of "W\<lparr>pool := ?P\<rparr>" i] by (simp add: resume_pass Let_def)
next
  case (finish i W t tag)
  then show ?case
    using progress_worker [of W i Fetching "FinishExecuteTask i tag (pool W)" "case tag of None \<Rightarrow> history W | Some k \<Rightarrow> history W @ [Finished k t]"]
    by (auto simp: FinishExecuteTask_def split: option.splits)
next
  case (leave i W)
  then show ?case by (auto simp: progress_inv_def)
qed (auto dest: refused_unchanged)

lemma reachable_progress:
  assumes "minT \<ge> 1"
  shows "(pool_step False False)\<^sup>*\<^sup>* (pool_init maxT minT) W \<Longrightarrow> world_inv W \<and> count_inv W \<and> progress_inv W"
proof (induction rule: rtranclp_induct)
  case base
  have "progress_inv (pool_init maxT minT)" using assms
    by (auto simp: progress_inv_def pool_init_def TaskPool_new_def pending_def queue_of_def TaskQueue_new_def)
  with reachable_count_inv [OF rtranclp.rtrancl_refl] show ?case by blast
qed (auto intro: step_world_inv step_count_inv step_progress)

subsection \<open>A time-out can strand a task\<close>

text \<open>
  A schedule of the system, as a list of actions; an action that is not possible leaves the world as it is.
\<close>

datatype 'a action = DoStart | DoScheduleTag string 'a | DoBegin nat | DoFetch nat | DoTimeout nat | DoResume nat | DoFinish nat | DoLeave nat

fun act :: "'a action \<Rightarrow> 'a pool_world \<Rightarrow> 'a pool_world" where
  "act DoStart W = W\<lparr>pool := snd (Start (pool W))\<rparr>"
| "act (DoScheduleTag tag t) W =
     (case Schedule_tag tag (Some t) (pool W) of
        (e, P) \<Rightarrow> if e = PE_OK then W\<lparr>pool := P, workers := awaken \<circ> workers W, history := history W @ [Submitted tag t]\<rparr> else W)"
| "act (DoBegin i) W =
     (if i < spawned (pool W) \<and> workers W i = Starting
      then W\<lparr>pool := BecomeGenericWorker i (pool W), workers := (workers W)(i := Fetching)\<rparr> else W)"
| "act (DoFetch i) W = (if i < spawned (pool W) \<and> workers W i = Fetching then GetTask_pass i W else W)"
| "act (DoTimeout i) W =
     (case workers W i of
        Asleep timed g \<Rightarrow> if timed \<and> i < spawned (pool W) then W\<lparr>workers := (workers W)(i := Woken True g True)\<rparr> else W
      | _ \<Rightarrow> W)"
| "act (DoResume i) W =
     (case workers W i of
        Woken timed g timeout \<Rightarrow> if i < spawned (pool W) then GetTask_resume i timed g timeout W else W
      | _ \<Rightarrow> W)"
| "act (DoFinish i) W =
     (case workers W i of
        Running t tag \<Rightarrow> if i < spawned (pool W)
          then W\<lparr>pool := FinishExecuteTask i tag (pool W), workers := (workers W)(i := Fetching),
            history := (case tag of None \<Rightarrow> history W | Some k \<Rightarrow> history W @ [Finished k t])\<rparr> else W
      | _ \<Rightarrow> W)"
| "act (DoLeave i) W =
     (if i < spawned (pool W) \<and> workers W i = Exiting
      then W\<lparr>pool := ExitGenericWorker i (pool W), workers := (workers W)(i := Gone)\<rparr> else W)"

fun is_timeout :: "'a action \<Rightarrow> bool" where
  "is_timeout (DoTimeout _) = True"
| "is_timeout _ = False"

lemma act_step: "limit \<or> \<not> is_timeout a \<Longrightarrow> (pool_step limit stops)\<^sup>*\<^sup>* W (act a W)"
  by (cases a) (auto split: prod.splits worker.splits intro: r_into_rtranclp pool_step.intros)

lemma acts_steps: "limit \<or> (\<forall>a \<in> set as. \<not> is_timeout a) \<Longrightarrow> (pool_step limit stops)\<^sup>*\<^sup>* W (fold act as W)"
  by (induction as arbitrary: W) (auto intro: rtranclp_trans [OF act_step])

text \<open>
  Two tasks make the pool start a second worker, which takes both of them, since the first one leaves
  tagged tasks to the others.  The second worker's wait then runs out just as a third task is scheduled.
\<close>

definition stranding :: "nat action list" where
  "stranding =
     [DoStart, DoBegin 0, DoFetch 0, DoScheduleTag ''P'' 1, DoScheduleTag ''P'' 2, DoResume 0, DoBegin 1, DoFetch 1, DoFinish 1,
      DoFetch 1, DoFinish 1, DoFetch 1, DoTimeout 1, DoScheduleTag ''P'' 3, DoResume 1, DoResume 0, DoLeave 1]"


lemmas run_defs = stranding_def pool_init_def TaskPool_new_def TaskQueue_new_def Start_def SpawnThreads_def spawn_while_result BecomeGenericWorker_def
  GetTask_pass_def ReapTask_def GetTaskAutoLock_def ReleaseLock_def IsGenericWorker_def IdleExit_wait_def Schedule_tag_def INT_MAX_def with_queue_def
  PutTask_def TryToSpawnThreads_def GetTask_resume_def IdleExit_woken_def SetThreadFree_def FinishExecuteTask_def ExitGenericWorker_def Let_def

theorem tagged_tasks_serial_witness:
  "\<exists>ran waiting. submitted_of ''P'' (history (fold act stranding (pool_init 10 1))) = ran @ waiting \<and>
    (runs_of ''P'' (history (fold act stranding (pool_init 10 1))) = serial ''P'' ran \<or>
     (\<exists>finished t. ran = finished @ [t] \<and> runs_of ''P'' (history (fold act stranding (pool_init 10 1))) = serial ''P'' finished @ [Started ''P'' t]))"
  by (rule tagged_tasks_serial [OF acts_steps, of True]) simp

theorem workers_counted_witness:
  "curThreads (pool (fold act stranding (pool_init 10 1))) = 1
    \<and> card {i. i < spawned (pool (fold act stranding (pool_init 10 1))) \<and> workers (fold act stranding (pool_init 10 1)) i \<noteq> Gone} = 1"
proof -
  let ?W = "fold act stranding (pool_init 10 1)"
  have "curThreads (pool ?W) = 1" by (simp add: run_defs)
  moreover have "curThreads (pool ?W) = int (card {i. i < spawned (pool ?W) \<and> workers ?W i \<noteq> Gone})"
    using workers_counted [of True False 10 1 ?W] acts_steps [of True stranding] by simp
  ultimately show ?thesis by simp
qed

text \<open>
  C18 (liveness): while no wait runs into its time limit and the pool is not being stopped, a pool of at
  least one thread never leaves a task waiting with all its workers asleep: whenever a task waits, some
  worker is on its way to look for one or runs one.
\<close>

theorem no_task_stranded:
  assumes "minT \<ge> 1" and "(pool_step False False)\<^sup>*\<^sup>* (pool_init maxT minT) W" and "pending (pool W)"
  shows "(\<exists>i < spawned (pool W). is_active (workers W i)) \<and> \<not> stranded W"
proof -
  from reachable_progress [OF assms(1,2)] assms(3) obtain i where i: "i < spawned (pool W)" "is_active (workers W i)"
    by (auto simp: progress_inv_def)
  with active_not_asleep [OF i(2)] show ?thesis by (auto simp: stranded_def)
qed

theorem no_task_stranded_witness:
  "pending (pool (fold act (take 4 stranding) (pool_init 10 1))) \<and> \<not> stranded (fold act (take 4 stranding) (pool_init 10 1))"
proof -
  let ?W = "fold act (take 4 stranding) (pool_init 10 1)"
  have "pending (pool ?W)" by (simp add: pending_def queue_of_def) (simp add: run_defs)
  moreover have "(pool_step False False)\<^sup>*\<^sup>* (pool_init 10 1) ?W" by (rule acts_steps) (simp add: stranding_def)
  ultimately show ?thesis using no_task_stranded [of 1 10 ?W] by simp
qed

text \<open>
  With the parameters of the preferences (at most 10 threads, at least one), a time-out can
  strand a task: the second worker times out and leaves although a tagged task has just been scheduled,
  since it checks the generic tasks only, and the first worker has gone back to sleep because the second
  one was still counted.  Leaving notifies nobody, so a caller of \<open>FlushSync\<close> waits forever.
\<close>

theorem timeout_strands_task:
  "(pool_step True False)\<^sup>*\<^sup>* (pool_init 10 1) (fold act stranding (pool_init 10 1))
    \<and> stranded (fold act stranding (pool_init 10 1))
    \<and> submitted_of ''P'' (history (fold act stranding (pool_init 10 1))) = [1, 2, 3]
    \<and> runs_of ''P'' (history (fold act stranding (pool_init 10 1))) = serial ''P'' [1, 2]"
proof (intro conjI)
  let ?W = "fold act stranding (pool_init 10 1)"
  show "(pool_step True False)\<^sup>*\<^sup>* (pool_init 10 1) ?W" by (rule acts_steps) simp
  show "stranded ?W"
    by (simp add: stranded_def pending_def queue_of_def) (simp add: run_defs)
  show "submitted_of ''P'' (history ?W) = [1, 2, 3]" "runs_of ''P'' (history ?W) = serial ''P'' [1, 2]"
    by (simp_all add: run_defs submitted_of_def runs_of_def serial_def)
qed

end
