(* ===== verification/Preferences_Xml.thy ===== *)
theory Preferences_Xml
  imports Task_Pool
begin

text \<open>
  The values of the preferences (preferences_value.cpp) and their XML file (preferences_xml_utils.cpp, and
  the two functions of preferences_impl.cpp that turn a map into elements and back).  The XML library is
  the parameter \<open>'w xml_api\<close> on trees of nodes, the file system the parameter \<open>'w file_api\<close> on a state
  \<open>'w\<close>; the predicates \<open>libxml_nodes\<close> and \<open>libxml_files\<close> name what is relied on.  Printing and reading
  floating point numbers is the parameter \<open>float_text\<close>.

  The lemmas show what comes back from a saved file: every value as it was, except that floating point
  numbers are rounded by their printing and that every truth value comes back as false.
\<close>

unbundle bit_operations_syntax

subsection \<open>Values\<close>

text \<open>
  The variant of \<open>PreferencesValue\<close>; floating point numbers are bit patterns, a \<open>std::set\<close> is the list of
  its elements in order.
\<close>

datatype PreferencesValue =
    PvInt "32 word"
  | PvLong int64
  | PvFloat "32 word"
  | PvDouble "64 word"
  | PvBool bool
  | PvString string
  | PvSet "string list"

definition IsInt :: "PreferencesValue \<Rightarrow> bool" where
  "IsInt v = (case v of PvInt _ \<Rightarrow> True | _ \<Rightarrow> False)"

definition IsLong :: "PreferencesValue \<Rightarrow> bool" where
  "IsLong v = (case v of PvLong _ \<Rightarrow> True | _ \<Rightarrow> False)"

definition IsFloat :: "PreferencesValue \<Rightarrow> bool" where
  "IsFloat v = (case v of PvFloat _ \<Rightarrow> True | _ \<Rightarrow> False)"

definition IsDouble :: "PreferencesValue \<Rightarrow> bool" where
  "IsDouble v = (case v of PvDouble _ \<Rightarrow> True | _ \<Rightarrow> False)"

definition IsBool :: "PreferencesValue \<Rightarrow> bool" where
  "IsBool v = (case v of PvBool _ \<Rightarrow> True | _ \<Rightarrow> False)"

definition IsString :: "PreferencesValue \<Rightarrow> bool" where
  "IsString v = (case v of PvString _ \<Rightarrow> True | _ \<Rightarrow> False)"

definition IsSet :: "PreferencesValue \<Rightarrow> bool" where
  "IsSet v = (case v of PvSet _ \<Rightarrow> True | _ \<Rightarrow> False)"

text \<open>The conversion operators; \<open>None\<close> is the exception of \<open>std::get\<close> on another alternative.\<close>

definition to_int :: "PreferencesValue \<Rightarrow> (32 word) option" where
  "to_int v = (case v of PvInt i \<Rightarrow> Some i | _ \<Rightarrow> None)"

definition to_int64 :: "PreferencesValue \<Rightarrow> int64 option" where
  "to_int64 v = (case v of PvLong i \<Rightarrow> Some i | _ \<Rightarrow> None)"

definition to_float :: "PreferencesValue \<Rightarrow> (32 word) option" where
  "to_float v = (case v of PvFloat f \<Rightarrow> Some f | _ \<Rightarrow> None)"

definition to_double :: "PreferencesValue \<Rightarrow> (64 word) option" where
  "to_double v = (case v of PvDouble d \<Rightarrow> Some d | _ \<Rightarrow> None)"

definition to_bool :: "PreferencesValue \<Rightarrow> bool option" where
  "to_bool v = (case v of PvBool b \<Rightarrow> Some b | _ \<Rightarrow> None)"

definition to_text :: "PreferencesValue \<Rightarrow> string option" where
  "to_text v = (case v of PvString s \<Rightarrow> Some s | _ \<Rightarrow> None)"

definition to_set :: "PreferencesValue \<Rightarrow> string list option" where
  "to_set v = (case v of PvSet s \<Rightarrow> Some s | _ \<Rightarrow> None)"

text \<open>Equality of floating point numbers: a number that is not a number differs from all, the two zeros are equal.\<close>

definition float_eq :: "32 word \<Rightarrow> 32 word \<Rightarrow> bool" where
  "float_eq x y \<longleftrightarrow>
     (x AND 0x7FFFFFFF) \<le> 0x7F800000 \<and> (y AND 0x7FFFFFFF) \<le> 0x7F800000
     \<and> (x = y \<or> (x AND 0x7FFFFFFF = 0 \<and> y AND 0x7FFFFFFF = 0))"

definition double_eq :: "64 word \<Rightarrow> 64 word \<Rightarrow> bool" where
  "double_eq x y \<longleftrightarrow>
     (x AND 0x7FFFFFFFFFFFFFFF) \<le> 0x7FF0000000000000 \<and> (y AND 0x7FFFFFFFFFFFFFFF) \<le> 0x7FF0000000000000
     \<and> (x = y \<or> (x AND 0x7FFFFFFFFFFFFFFF = 0 \<and> y AND 0x7FFFFFFFFFFFFFFF = 0))"

fun value_eq :: "PreferencesValue \<Rightarrow> PreferencesValue \<Rightarrow> bool" where
  "value_eq (PvFloat x) (PvFloat y) = float_eq x y"
| "value_eq (PvDouble x) (PvDouble y) = double_eq x y"
| "value_eq v w = (v = w)"

subsection \<open>Elements and nodes\<close>

datatype Element = Element (tag: string) (key: string) (elem_value: string) (children: "Element list")

text \<open>A node of a document: an element with its attributes and children, or a text.\<close>

datatype xml_node = ElementNode string "(string \<times> string) list" "xml_node list" | TextNode string

fun node_name :: "xml_node \<Rightarrow> string" where
  "node_name (ElementNode n _ _) = n"
| "node_name (TextNode _) = ''text''"

text \<open>
  The XML library: making nodes (\<open>None\<close> is the null pointer), reading them, and reading and writing a
  document, which is given by its root if it has one.
\<close>

record 'w xml_api =
  xmlNewDoc :: bool
  xmlNewNode :: "string \<Rightarrow> xml_node option"
  xmlNewProp :: "xml_node \<Rightarrow> string \<Rightarrow> string \<Rightarrow> xml_node"
  xmlNewText :: "string \<Rightarrow> xml_node option"
  xmlAddChild :: "xml_node \<Rightarrow> xml_node \<Rightarrow> xml_node option"
  xmlGetProp :: "xml_node \<Rightarrow> string \<Rightarrow> string option"
  xmlNodeGetContent :: "xml_node \<Rightarrow> string option"
  xmlReadFile :: "string \<Rightarrow> 'w \<Rightarrow> xml_node option option"
  xmlSaveFormatFileEnc :: "string \<Rightarrow> xml_node \<Rightarrow> 'w \<Rightarrow> int \<times> 'w"

record 'w file_api =
  realpath :: "string \<Rightarrow> 'w \<Rightarrow> string option"
  fopen_r :: "string \<Rightarrow> 'w \<Rightarrow> bool"
  remove_file :: "string \<Rightarrow> 'w \<Rightarrow> int \<times> 'w"
  rename_file :: "string \<Rightarrow> string \<Rightarrow> 'w \<Rightarrow> int \<times> 'w"
  stat_mode :: "string \<Rightarrow> 'w \<Rightarrow> (32 word) option"
  chmod_file :: "string \<Rightarrow> 32 word \<Rightarrow> 'w \<Rightarrow> int \<times> 'w"

record float_text =
  float_to_string :: "32 word \<Rightarrow> string"
  double_to_string :: "64 word \<Rightarrow> string"
  std_stof :: "string \<Rightarrow> (32 word) option"
  std_stod :: "string \<Rightarrow> (64 word) option"

definition PATH_MAX :: nat where
  "PATH_MAX = 4096"

text \<open>A string as the C functions see it: up to its first null byte.\<close>

definition c_str :: "string \<Rightarrow> string" where
  "c_str s = takeWhile (\<lambda>c. c \<noteq> CHR 0x00) s"

subsection \<open>Reading a document\<close>

definition ParsePrimitiveNodeElement :: "'w xml_api \<Rightarrow> xml_node \<Rightarrow> Element option" where
  "ParsePrimitiveNodeElement X node =
     (case (xmlGetProp X node ''key'', xmlGetProp X node ''value'') of
        (Some k, Some v) \<Rightarrow> Some (Element (node_name node) k v [])
      | _ \<Rightarrow> None)"

definition ParseStringNodeElement :: "'w xml_api \<Rightarrow> xml_node \<Rightarrow> Element option" where
  "ParseStringNodeElement X node =
     (case xmlNodeGetContent X node of
        None \<Rightarrow> None
      | Some t \<Rightarrow> Some (Element (node_name node) (case xmlGetProp X node ''key'' of None \<Rightarrow> [] | Some k \<Rightarrow> k) t []))"

text \<open>\<open>ParseSetNodeElement\<close> is the last case; the loop over the children stops at the first failure.\<close>

fun ParseNodeElement :: "'w xml_api \<Rightarrow> xml_node \<Rightarrow> Element option"
  and parse_children :: "'w xml_api \<Rightarrow> xml_node list \<Rightarrow> Element list option" where
  "ParseNodeElement X (TextNode s) = None"
| "ParseNodeElement X (ElementNode n ps cs) =
     (if n \<in> {''int'', ''long'', ''bool'', ''float'', ''double''} then ParsePrimitiveNodeElement X (ElementNode n ps cs)
      else if n = ''string'' then ParseStringNodeElement X (ElementNode n ps cs)
      else if n = ''set'' then
        (case xmlGetProp X (ElementNode n ps cs) ''key'' of
           None \<Rightarrow> None
         | Some k \<Rightarrow> map_option (\<lambda>es. Element n k [] es) (parse_children X cs))
      else None)"
| "parse_children X [] = Some []"
| "parse_children X (c # cs) =
     (case ParseNodeElement X c of
        None \<Rightarrow> None
      | Some e \<Rightarrow> map_option (\<lambda>es. e # es) (parse_children X cs))"

definition ParseSetNodeElement :: "'w xml_api \<Rightarrow> xml_node \<Rightarrow> Element option" where
  "ParseSetNodeElement X node =
     (case xmlGetProp X node ''key'' of
        None \<Rightarrow> None
      | Some k \<Rightarrow>
          (case node of
             TextNode _ \<Rightarrow> Some (Element (node_name node) k [] [])
           | ElementNode n ps cs \<Rightarrow> map_option (\<lambda>es. Element n k [] es) (parse_children X cs)))"

lemma ParseNodeElement_set:
  "node = ElementNode ''set'' ps cs \<Longrightarrow> ParseNodeElement X node = ParseSetNodeElement X node"
  by (simp add: ParseSetNodeElement_def split: option.split)

definition Xml_ReadSettingXml :: "'w xml_api \<Rightarrow> 'w file_api \<Rightarrow> string \<Rightarrow> 'w \<Rightarrow> Element list option" where
  "Xml_ReadSettingXml X F fileName w =
     (if fileName = [] then None
      else if length (c_str fileName) > PATH_MAX then None
      else
        (case realpath F (c_str fileName) w of
           None \<Rightarrow> None
         | Some path \<Rightarrow>
             (case xmlReadFile X path w of
                Some (Some (ElementNode n ps cs)) \<Rightarrow> if n \<noteq> ''preferences'' then None else parse_children X cs
              | _ \<Rightarrow> None)))"

subsection \<open>Writing a document\<close>

definition CreatePrimitiveNode :: "'w xml_api \<Rightarrow> Element \<Rightarrow> xml_node option" where
  "CreatePrimitiveNode X e =
     (case xmlNewNode X (c_str (tag e)) of
        None \<Rightarrow> None
      | Some node \<Rightarrow> Some (xmlNewProp X (xmlNewProp X node ''key'' (c_str (key e))) ''value'' (c_str (elem_value e))))"

text \<open>Adding a child that cannot be added leaves the node without it.\<close>

definition add_or_free :: "'w xml_api \<Rightarrow> xml_node option \<Rightarrow> xml_node \<Rightarrow> xml_node" where
  "add_or_free X c node =
     (case c of
        None \<Rightarrow> node
      | Some c \<Rightarrow> (case xmlAddChild X node c of None \<Rightarrow> node | Some node' \<Rightarrow> node'))"

definition CreateStringNode :: "'w xml_api \<Rightarrow> Element \<Rightarrow> xml_node option" where
  "CreateStringNode X e =
     (case xmlNewNode X (c_str (tag e)) of
        None \<Rightarrow> None
      | Some node \<Rightarrow>
          Some (add_or_free X (xmlNewText X (c_str (elem_value e)))
            (if key e \<noteq> [] then xmlNewProp X node ''key'' (c_str (key e)) else node)))"

fun CreateElementNode :: "'w xml_api \<Rightarrow> Element \<Rightarrow> xml_node option"
  and add_children :: "'w xml_api \<Rightarrow> Element list \<Rightarrow> xml_node \<Rightarrow> xml_node" where
  "CreateElementNode X (Element t k v cs) =
     (if t \<in> {''int'', ''long'', ''float'', ''bool'', ''double''} then CreatePrimitiveNode X (Element t k v cs)
      else if t = ''string'' then CreateStringNode X (Element t k v cs)
      else if t = ''set'' then
        (case xmlNewNode X (c_str t) of
           None \<Rightarrow> None
         | Some node \<Rightarrow> Some (add_children X cs (xmlNewProp X node ''key'' (c_str k))))
      else None)"
| "add_children X [] node = node"
| "add_children X (c # cs) node = add_children X cs (add_or_free X (CreateElementNode X c) node)"

definition CreateSetNode :: "'w xml_api \<Rightarrow> Element \<Rightarrow> xml_node option" where
  "CreateSetNode X e =
     (case xmlNewNode X (c_str (tag e)) of
        None \<Rightarrow> None
      | Some node \<Rightarrow> Some (add_children X (children e) (xmlNewProp X node ''key'' (c_str (key e)))))"

lemma CreateElementNode_set: "tag e = ''set'' \<Longrightarrow> CreateElementNode X e = CreateSetNode X e"
  by (cases e) (simp add: CreateSetNode_def split: option.split)

fun add_settings :: "'w xml_api \<Rightarrow> Element list \<Rightarrow> xml_node \<Rightarrow> xml_node option" where
  "add_settings X [] root = Some root"
| "add_settings X (e # es) root =
     (case CreateElementNode X e of
        None \<Rightarrow> None
      | Some node \<Rightarrow> (case xmlAddChild X root node of None \<Rightarrow> None | Some root' \<Rightarrow> add_settings X es root'))"

definition LimitXmlPermission :: "'w file_api \<Rightarrow> string \<Rightarrow> 'w \<Rightarrow> 'w" where
  "LimitXmlPermission F fileName w =
     (case stat_mode F (c_str fileName) w of
        None \<Rightarrow> w
      | Some mode \<Rightarrow>
          if mode AND (0x40 OR 0x08 OR 0x07) \<noteq> 0
          then snd (chmod_file F (c_str fileName) (mode AND (0x100 OR 0x80 OR 0x20 OR 0x10)) w)
          else w)"

definition Xml_WriteSettingXml :: "'w xml_api \<Rightarrow> 'w file_api \<Rightarrow> string \<Rightarrow> Element list \<Rightarrow> 'w \<Rightarrow> bool \<times> 'w" where
  "Xml_WriteSettingXml X F fileName settings w =
     (if fileName = [] then (False, w)
      else if \<not> xmlNewDoc X then (False, w)
      else
        (case xmlNewNode X ''preferences'' of
           None \<Rightarrow> (False, w)
         | Some root \<Rightarrow>
             (case add_settings X settings (xmlNewProp X root ''version'' ''1.0'') of
                None \<Rightarrow> (False, w)
              | Some root \<Rightarrow>
                  (case xmlSaveFormatFileEnc X (c_str fileName) root w of
                     (result, w) \<Rightarrow> if result > 0 then (True, LimitXmlPermission F fileName w) else (False, w)))))"

subsection \<open>A map as elements\<close>

definition set_insert :: "string \<Rightarrow> string list \<Rightarrow> string list" where
  "set_insert x xs = insort_insert x xs"

text \<open>\<open>None\<close> is an exception of \<open>std::stoi\<close>, \<open>std::stoll\<close>, \<open>std::stof\<close> or \<open>std::stod\<close>.\<close>

definition read_element :: "float_text \<Rightarrow> Element \<Rightarrow> (string \<times> PreferencesValue) list \<Rightarrow> (string \<times> PreferencesValue) list option" where
  "read_element ft e m =
     (if tag e = ''int'' then map_option (\<lambda>i. map_insert (key e) (PvInt (word_of_int i)) m) (stoi (elem_value e))
      else if tag e = ''bool'' then Some (map_insert (key e) (PvBool (elem_value e = ''true'')) m)
      else if tag e = ''long'' then map_option (\<lambda>i. map_insert (key e) (PvLong (word_of_int i)) m) (stoll (elem_value e))
      else if tag e = ''float'' then map_option (\<lambda>f. map_insert (key e) (PvFloat f) m) (std_stof ft (elem_value e))
      else if tag e = ''double'' then map_option (\<lambda>d. map_insert (key e) (PvDouble d) m) (std_stod ft (elem_value e))
      else if tag e = ''string'' then Some (map_insert (key e) (PvString (elem_value e)) m)
      else if tag e = ''set'' then
        Some (map_insert (key e) (PvSet (fold (\<lambda>c values. set_insert (elem_value c) values) (children e) [])) m)
      else Some m)"

fun read_elements :: "float_text \<Rightarrow> Element list \<Rightarrow> (string \<times> PreferencesValue) list \<Rightarrow> (string \<times> PreferencesValue) list option" where
  "read_elements ft [] m = Some m"
| "read_elements ft (e # es) m = (case read_element ft e m of None \<Rightarrow> None | Some m' \<Rightarrow> read_elements ft es m')"

text \<open>The flag is the result of the call: whether the file could be read.\<close>

definition ReadSettingXml ::
  "'w xml_api \<Rightarrow> 'w file_api \<Rightarrow> float_text \<Rightarrow> string \<Rightarrow> (string \<times> PreferencesValue) list \<Rightarrow> 'w
     \<Rightarrow> (bool \<times> (string \<times> PreferencesValue) list) option" where
  "ReadSettingXml X F ft prefPath prefMap w =
     (case Xml_ReadSettingXml X F prefPath w of
        None \<Rightarrow> Some (False, prefMap)
      | Some settings \<Rightarrow> map_option (\<lambda>m. (True, m)) (read_elements ft settings prefMap))"

definition element_of :: "float_text \<Rightarrow> string \<times> PreferencesValue \<Rightarrow> Element" where
  "element_of ft kv =
     (case kv of (k, v) \<Rightarrow>
       (case v of
          PvInt i \<Rightarrow> Element ''int'' k (to_string (sint i)) []
        | PvBool b \<Rightarrow> Element ''bool'' k (to_string (of_bool b)) []
        | PvLong i \<Rightarrow> Element ''long'' k (to_string (sint i)) []
        | PvFloat f \<Rightarrow> Element ''float'' k (float_to_string ft f) []
        | PvDouble d \<Rightarrow> Element ''double'' k (double_to_string ft d) []
        | PvString s \<Rightarrow> Element ''string'' k s []
        | PvSet vs \<Rightarrow> Element ''set'' k [] (map (\<lambda>s. Element ''string'' [] s []) vs)))"

definition WriteSettingXml ::
  "'w xml_api \<Rightarrow> 'w file_api \<Rightarrow> float_text \<Rightarrow> string \<Rightarrow> (string \<times> PreferencesValue) list \<Rightarrow> 'w \<Rightarrow> bool \<times> 'w" where
  "WriteSettingXml X F ft prefPath prefMap w = Xml_WriteSettingXml X F prefPath (map (element_of ft) prefMap) w"


subsection \<open>What is relied on\<close>

text \<open>
  Nodes: an attribute that was set is found, a child that was added is the last one, and the content of a
  node is the text below it.  No call runs out of memory.
\<close>

definition libxml_nodes :: "'w xml_api \<Rightarrow> bool" where
  "libxml_nodes X \<longleftrightarrow> xmlNewDoc X
     \<and> (\<forall>n. xmlNewNode X n = Some (ElementNode n [] []))
     \<and> (\<forall>n ps cs k v. xmlNewProp X (ElementNode n ps cs) k v = ElementNode n (ps @ [(k, v)]) cs)
     \<and> (\<forall>s. xmlNewText X s = Some (TextNode s))
     \<and> (\<forall>n ps cs c. (cs = [] \<or> (\<exists>n' ps' cs'. c = ElementNode n' ps' cs')) \<longrightarrow> xmlAddChild X (ElementNode n ps cs) c = Some (ElementNode n ps (cs @ [c])))
     \<and> (\<forall>n ps cs k. xmlGetProp X (ElementNode n ps cs) k = map_of ps k)
     \<and> (\<forall>n ps. xmlNodeGetContent X (ElementNode n ps []) = Some [])
     \<and> (\<forall>n ps s. xmlNodeGetContent X (ElementNode n ps [TextNode s]) = Some s)"

text \<open>An empty text leaves no trace in a file.\<close>

fun stored :: "xml_node \<Rightarrow> xml_node" where
  "stored (TextNode s) = TextNode s"
| "stored (ElementNode n ps cs) = ElementNode n ps (map stored (filter (\<lambda>c. c \<noteq> TextNode []) cs))"

fun valid_node :: "(string \<Rightarrow> bool) \<Rightarrow> xml_node \<Rightarrow> bool" where
  "valid_node ok (TextNode s) = ok s"
| "valid_node ok (ElementNode n ps cs) = (ok n \<and> list_all (\<lambda>(k, v). ok k \<and> ok v) ps \<and> list_all (valid_node ok) cs)"

text \<open>
  Files: a document of valid texts that was saved is read back as it was, also after its permissions have
  been changed.
\<close>

definition libxml_files :: "'w xml_api \<Rightarrow> 'w file_api \<Rightarrow> (string \<Rightarrow> bool) \<Rightarrow> bool" where
  "libxml_files X F ok \<longleftrightarrow>
     (\<forall>p doc w r w1. xmlSaveFormatFileEnc X p doc w = (r, w1) \<and> r > 0 \<and> valid_node ok doc \<longrightarrow>
        (\<forall>mode. \<forall>w2 \<in> {w1, snd (chmod_file F p mode w1)}.
           \<exists>q. realpath F p w2 = Some q \<and> xmlReadFile X q w2 = Some (Some (stored doc))))"

lemma libxml_nodesD:
  assumes "libxml_nodes X"
  shows "xmlNewDoc X" "xmlNewNode X n = Some (ElementNode n [] [])" "xmlNewProp X (ElementNode n ps cs) k v = ElementNode n (ps @ [(k, v)]) cs"
    "xmlNewText X s = Some (TextNode s)" "xmlAddChild X (ElementNode n ps []) c = Some (ElementNode n ps [c])"
    "xmlAddChild X (ElementNode n ps cs) (ElementNode n' ps' cs') = Some (ElementNode n ps (cs @ [ElementNode n' ps' cs']))"
    "xmlGetProp X (ElementNode n ps cs) k = map_of ps k" "xmlNodeGetContent X (ElementNode n ps []) = Some []"
    "xmlNodeGetContent X (ElementNode n ps [TextNode s]) = Some s"
  using assms by (auto simp: libxml_nodes_def)

subsection \<open>The document of a map\<close>

definition string_node :: "string \<Rightarrow> string \<Rightarrow> xml_node" where
  "string_node k s = ElementNode ''string'' (if k = [] then [] else [(''key'', k)]) [TextNode s]"

definition prim_node :: "string \<Rightarrow> string \<Rightarrow> string \<Rightarrow> xml_node" where
  "prim_node t k s = ElementNode t [(''key'', k), (''value'', s)] []"

definition node_of :: "float_text \<Rightarrow> string \<times> PreferencesValue \<Rightarrow> xml_node" where
  "node_of ft kv =
     (case kv of (k, v) \<Rightarrow>
       (case v of
          PvString s \<Rightarrow> string_node k s
        | PvSet vs \<Rightarrow> ElementNode ''set'' [(''key'', k)] (map (string_node []) vs)
        | _ \<Rightarrow> prim_node (tag (element_of ft kv)) k (elem_value (element_of ft kv))))"

definition doc_of :: "float_text \<Rightarrow> (string \<times> PreferencesValue) list \<Rightarrow> xml_node" where
  "doc_of ft m = ElementNode ''preferences'' [(''version'', ''1.0'')] (map (node_of ft) m)"

text \<open>The texts of an entry: its key and the texts of its value.\<close>

definition entry_texts :: "float_text \<Rightarrow> string \<times> PreferencesValue \<Rightarrow> string set" where
  "entry_texts ft kv = {fst kv, elem_value (element_of ft kv)} \<union> set (map elem_value (children (element_of ft kv)))"

definition texts_ok :: "(string \<Rightarrow> bool) \<Rightarrow> float_text \<Rightarrow> (string \<times> PreferencesValue) list \<Rightarrow> bool" where
  "texts_ok ok ft m \<longleftrightarrow> (\<forall>kv \<in> set m. \<forall>s \<in> entry_texts ft kv. ok s \<and> c_str s = s)
     \<and> (\<forall>s \<in> {''preferences'', ''version'', ''1.0'', ''key'', ''value'', ''int'', ''bool'', ''long'', ''float'', ''double'', ''string'', ''set''}. ok s)"

lemma c_str_names [simp]: "c_str ''int'' = ''int''" "c_str ''bool'' = ''bool''" "c_str ''long'' = ''long''" "c_str ''float'' = ''float''"
  "c_str ''double'' = ''double''" "c_str ''string'' = ''string''" "c_str ''set'' = ''set''" "c_str [] = []"
  by (simp_all add: c_str_def)

lemma add_children_strings:
  assumes X: "libxml_nodes X" and "\<forall>s \<in> set vs. c_str s = s"
  shows "add_children X (map (\<lambda>s. Element ''string'' [] s []) vs) (ElementNode n ps cs) = ElementNode n ps (cs @ map (string_node []) vs)"
  using assms(2)
  by (induction vs arbitrary: cs) (simp_all add: CreateStringNode_def add_or_free_def string_node_def libxml_nodesD [OF X])

lemma CreateElementNode_of:
  assumes X: "libxml_nodes X" and t: "\<forall>s \<in> entry_texts ft kv. c_str s = s"
  shows "CreateElementNode X (element_of ft kv) = Some (node_of ft kv)"
proof -
  obtain k v where kv: "kv = (k, v)" by (cases kv)
  from t kv show ?thesis
    by (cases v) (auto simp: entry_texts_def element_of_def node_of_def prim_node_def string_node_def CreatePrimitiveNode_def CreateStringNode_def
        add_or_free_def libxml_nodesD [OF X] add_children_strings [OF X])
qed

lemma node_of_element: "\<exists>n ps cs. node_of ft kv = ElementNode n ps cs"
  by (cases kv; cases "snd kv") (auto simp: node_of_def prim_node_def string_node_def)

lemma add_settings_of:
  assumes X: "libxml_nodes X" and "\<forall>kv \<in> set m. \<forall>s \<in> entry_texts ft kv. c_str s = s"
  shows "add_settings X (map (element_of ft) m) (ElementNode n ps cs) = Some (ElementNode n ps (cs @ map (node_of ft) m))"
  using assms(2)
proof (induction m arbitrary: cs)
  case (Cons kv m)
  obtain n' ps' cs' where n: "node_of ft kv = ElementNode n' ps' cs'" using node_of_element by blast
  from Cons n show ?case by (simp add: CreateElementNode_of [OF X] libxml_nodesD [OF X])
qed simp

lemma stored_string [simp]: "stored (string_node k s) = ElementNode ''string'' (if k = [] then [] else [(''key'', k)]) (if s = [] then [] else [TextNode s])"
  by (simp add: string_node_def)

lemma parse_string:
  "libxml_nodes X \<Longrightarrow> ParseNodeElement X (stored (string_node k s)) = Some (Element ''string'' k s [])"
  by (simp add: ParseStringNodeElement_def libxml_nodesD)

lemma parse_strings:
  "libxml_nodes X \<Longrightarrow> parse_children X (map stored (map (string_node []) vs)) = Some (map (\<lambda>s. Element ''string'' [] s []) vs)"
  by (induction vs) (simp_all add: parse_string del: stored_string)

lemma parse_node_of:
  assumes "libxml_nodes X"
  shows "ParseNodeElement X (stored (node_of ft kv)) = Some (element_of ft kv)"
proof -
  obtain k v where kv: "kv = (k, v)" by (cases kv)
  have ne: "filter (\<lambda>c. c \<noteq> TextNode []) (map (string_node []) vs) = map (string_node []) vs" for vs
    by (induction vs) (auto simp: string_node_def)
  from kv show ?thesis
  proof (cases v)
    case (PvSet vs)
    with kv ne parse_strings [OF assms, of vs] show ?thesis
      by (simp add: node_of_def element_of_def libxml_nodesD [OF assms] del: map_map)
  qed (simp_all add: node_of_def element_of_def prim_node_def ParsePrimitiveNodeElement_def libxml_nodesD [OF assms] parse_string [OF assms] del: stored_string)
qed

lemma parse_doc_of:
  assumes "libxml_nodes X"
  shows "parse_children X (map stored (map (node_of ft) m)) = Some (map (element_of ft) m)"
  by (induction m) (simp_all add: parse_node_of [OF assms])

lemma stored_doc_of: "stored (doc_of ft m) = ElementNode ''preferences'' [(''version'', ''1.0'')] (map stored (map (node_of ft) m))"
proof -
  have "filter (\<lambda>c. c \<noteq> TextNode []) (map (node_of ft) m) = map (node_of ft) m"
    using node_of_element by (induction m) (auto, metis xml_node.distinct(1))
  then show ?thesis by (simp add: doc_of_def)
qed

lemma valid_doc_of: "texts_ok ok ft m \<Longrightarrow> valid_node ok (doc_of ft m)"
proof -
  assume t: "texts_ok ok ft m"
  have "valid_node ok (node_of ft kv)" if "kv \<in> set m" for kv
    using t that by (cases kv; cases "snd kv") (auto simp: texts_ok_def node_of_def prim_node_def string_node_def entry_texts_def element_of_def list_all_iff)
  with t show ?thesis by (auto simp: doc_of_def texts_ok_def list_all_iff)
qed

subsection \<open>What is read back\<close>

text \<open>
  The value that is read back for a saved value; a truth value was printed as a digit and is compared with
  the word true.
\<close>

definition reload_value :: "float_text \<Rightarrow> PreferencesValue \<Rightarrow> PreferencesValue option" where
  "reload_value ft v =
     (case v of
        PvBool b \<Rightarrow> Some (PvBool False)
      | PvFloat f \<Rightarrow> map_option PvFloat (std_stof ft (float_to_string ft f))
      | PvDouble d \<Rightarrow> map_option PvDouble (std_stod ft (double_to_string ft d))
      | _ \<Rightarrow> Some v)"

definition reloadable :: "float_text \<Rightarrow> PreferencesValue \<Rightarrow> bool" where
  "reloadable ft v \<longleftrightarrow> reload_value ft v \<noteq> None \<and> (case v of PvSet vs \<Rightarrow> sorted_wrt (<) vs | _ \<Rightarrow> True)"

definition reload_map :: "float_text \<Rightarrow> (string \<times> PreferencesValue) list \<Rightarrow> (string \<times> PreferencesValue) list" where
  "reload_map ft m = map (\<lambda>(k, v). (k, the (reload_value ft v))) m"

lemma set_insert_last: "sorted_wrt (<) (xs @ [x]) \<Longrightarrow> set_insert x xs = xs @ [x]"
  unfolding set_insert_def insort_insert_key_def
  by (auto simp: sorted_wrt_append strict_sorted_iff intro!: sorted_insort_is_snoc)

lemma fold_set_insert: "sorted_wrt (<) (acc @ vs) \<Longrightarrow> fold set_insert vs acc = acc @ vs"
proof (induction vs arbitrary: acc)
  case (Cons v vs)
  then have "sorted_wrt (<) (acc @ [v])" by (auto simp: sorted_wrt_append)
  with Cons show ?case by (simp add: set_insert_last)
qed simp

lemma bool_text: "to_string (of_bool b) \<noteq> ''true''"
  by (cases b) (simp_all add: to_string_def nat_str.simps digit_char_def)

lemma sint_bounds32: "- (2 ^ 31) \<le> sint (i :: 32 word)" "sint (i :: 32 word) < 2 ^ 31"
  using sint_greater_eq [of i] sint_less [of i] by simp_all

lemma sint_bounds64: "- (2 ^ 63) \<le> sint (i :: 64 word)" "sint (i :: 64 word) < 2 ^ 63"
  using sint_greater_eq [of i] sint_less [of i] by simp_all

lemma read_element_of:
  assumes "reloadable ft v"
  shows "read_element ft (element_of ft (k, v)) m = Some (map_insert k (the (reload_value ft v)) m)"
proof (cases v)
  case (PvInt i)
  then show ?thesis by (simp add: read_element_def element_of_def reload_value_def stoi_to_string [OF sint_bounds32])
next
  case (PvLong i)
  then show ?thesis by (simp add: read_element_def element_of_def reload_value_def stoll_to_string [OF sint_bounds64])
next
  case (PvBool b)
  then show ?thesis using bool_text [of b] by (simp add: read_element_def element_of_def reload_value_def)
next
  case (PvSet vs)
  with assms fold_set_insert [of "[]" vs] show ?thesis
    by (simp add: read_element_def element_of_def reload_value_def reloadable_def fold_map comp_def)
qed (use assms in \<open>auto simp: read_element_def element_of_def reload_value_def reloadable_def\<close>)

lemma read_elements_of:
  assumes "\<forall>(k, v) \<in> set m. reloadable ft v" and "map_wf (m0 @ m)"
  shows "read_elements ft (map (element_of ft) m) m0 = Some (m0 @ reload_map ft m)"
  using assms
proof (induction m arbitrary: m0)
  case (Cons kv m)
  obtain k v where kv: "kv = (k, v)" by (cases kv)
  let ?v = "the (reload_value ft v)"
  from Cons.prems(2) kv have "\<forall>x \<in> set (map fst m0). x < k" and wf: "map_wf ((m0 @ [(k, ?v)]) @ m)"
    by (auto simp: map_wf_def sorted_wrt_append)
  then have "map_insert k ?v m0 = m0 @ [(k, ?v)]" by (intro map_insert_last)
  with Cons.IH [OF _ wf] Cons.prems(1) kv show ?case by (simp add: read_element_of reload_map_def)
qed (simp add: reload_map_def)


definition path_ok :: "string \<Rightarrow> bool" where
  "path_ok p \<longleftrightarrow> p \<noteq> [] \<and> c_str p = p \<and> length p \<le> PATH_MAX"

definition map_ok :: "(string \<Rightarrow> bool) \<Rightarrow> float_text \<Rightarrow> (string \<times> PreferencesValue) list \<Rightarrow> bool" where
  "map_ok ok ft m \<longleftrightarrow> map_wf m \<and> texts_ok ok ft m \<and> (\<forall>(k, v) \<in> set m. reloadable ft v)"

text \<open>No text of the map contains a null byte.\<close>

definition plain_map :: "float_text \<Rightarrow> (string \<times> PreferencesValue) list \<Rightarrow> bool" where
  "plain_map ft m \<longleftrightarrow> (\<forall>kv \<in> set m. \<forall>s \<in> entry_texts ft kv. c_str s = s)"

lemma map_ok_plain: "map_ok ok ft m \<Longrightarrow> plain_map ft m"
  by (auto simp: map_ok_def texts_ok_def plain_map_def)

lemma WriteSettingXml_saves:
  assumes "libxml_nodes X" "path_ok p" "plain_map ft m"
  shows "WriteSettingXml X F ft p m w =
    (case xmlSaveFormatFileEnc X p (doc_of ft m) w of (r, w1) \<Rightarrow> if r > 0 then (True, LimitXmlPermission F p w1) else (False, w1))"
proof -
  have "\<forall>kv \<in> set m. \<forall>s \<in> entry_texts ft kv. c_str s = s" using assms(3) by (simp add: plain_map_def)
  from add_settings_of [OF assms(1) this] assms(2) show ?thesis
    by (simp add: WriteSettingXml_def Xml_WriteSettingXml_def libxml_nodesD [OF assms(1)] doc_of_def path_ok_def)
qed

lemma ReadSettingXml_of_doc:
  assumes "libxml_nodes X" "path_ok p" "map_ok ok ft m" "realpath F p w = Some q" "xmlReadFile X q w = Some (Some (stored (doc_of ft m)))"
  shows "ReadSettingXml X F ft p [] w = Some (True, reload_map ft m)"
  using assms(2-5) read_elements_of [of m ft "[]"]
  by (simp add: ReadSettingXml_def Xml_ReadSettingXml_def path_ok_def stored_doc_of parse_doc_of [OF assms(1)] map_ok_def del: map_map)

lemma written_file_reads_back:
  assumes X: "libxml_nodes X" "libxml_files X F ok" and "path_ok p" "map_ok ok ft m" and w: "WriteSettingXml X F ft p m w = (True, w')"
  shows "ReadSettingXml X F ft p [] w' = Some (True, reload_map ft m)"
proof -
  obtain r w1 where s: "xmlSaveFormatFileEnc X p (doc_of ft m) w = (r, w1)" by (cases "xmlSaveFormatFileEnc X p (doc_of ft m) w")
  with w WriteSettingXml_saves [OF X(1) assms(3) map_ok_plain [OF assms(4)], of F w] have r: "r > 0" and w': "w' = LimitXmlPermission F p w1"
    by (auto split: if_splits)
  have "\<exists>mode. w' \<in> {w1, snd (chmod_file F p mode w1)}"
    using w' assms(3) by (auto simp: LimitXmlPermission_def path_ok_def split: option.splits if_splits)
  moreover have "valid_node ok (doc_of ft m)" using assms(4) by (intro valid_doc_of) (simp add: map_ok_def)
  ultimately obtain q where "realpath F p w' = Some q" "xmlReadFile X q w' = Some (Some (stored (doc_of ft m)))"
    using X(2) s r unfolding libxml_files_def by blast
  then show ?thesis by (rule ReadSettingXml_of_doc [OF X(1) assms(3,4)])
qed

text \<open>The permissions that \<open>LimitXmlPermission\<close> asks for: no execution, nothing for others.\<close>

lemma limited_mode:
  "(mode AND (0x100 OR 0x80 OR 0x20 OR 0x10)) AND (0x40 OR 0x08 OR 0x07) = (0 :: 32 word)"
proof -
  have "(0x100 OR 0x80 OR 0x20 OR 0x10) AND (0x40 OR 0x08 OR 0x07) = (0 :: 32 word)" by simp
  then show ?thesis by (simp only: and.assoc) simp
qed

end
