(* ===== verification/Preferences_Files.thy ===== *)
theory Preferences_Files
  imports Preferences_Impl
begin

text \<open>
  Writing the file of the preferences on a file system with faults.  The disk maps the names of files to
  what the XML library makes of them, and a schedule says for every operation that changes it whether it
  works or fails; a failed save leaves any content or none in the file.  A process that dies is one whose operations
  all fail from some point on without any effect, so the theorems about arbitrary schedules cover a crash
  at any point.
\<close>

subsection \<open>A disk with faults\<close>

datatype fault = Works | Fails | Leaves "xml_node option option"

record disk =
  files :: "string \<rightharpoonup> xml_node option"
  clock :: nat
  faults :: "nat \<Rightarrow> fault"

text \<open>
  A file holds what \<open>xmlReadFile\<close> and \<open>xmlDocGetRootElement\<close> find in it: the root of a document, or
  nothing that can be parsed.  \<open>Leaves None\<close> is a failed save that has removed the file,
  \<open>Leaves (Some c)\<close> one that leaves the content \<open>c\<close>.
\<close>

definition disk_file_api :: "disk file_api" where
  "disk_file_api =
     \<lparr>realpath = (\<lambda>p d. if p \<in> dom (files d) then Some p else None),
      fopen_r = (\<lambda>p d. p \<in> dom (files d)),
      remove_file = (\<lambda>p d.
        if faults d (clock d) = Works \<and> p \<in> dom (files d) then (0, d\<lparr>files := (files d)(p := None), clock := clock d + 1\<rparr>)
        else (- 1, d\<lparr>clock := clock d + 1\<rparr>)),
      rename_file = (\<lambda>p q d.
        if faults d (clock d) = Works \<and> p \<in> dom (files d)
        then (0, d\<lparr>files := (files d)(p := None, q := files d p), clock := clock d + 1\<rparr>)
        else (- 1, d\<lparr>clock := clock d + 1\<rparr>)),
      stat_mode = (\<lambda>p d. if p \<in> dom (files d) then Some 0x1B0 else None),
      chmod_file = (\<lambda>p m d. (0, d))\<rparr>"

fun tree_content :: "xml_node \<Rightarrow> string" where
  "tree_content (TextNode s) = s"
| "tree_content (ElementNode n ps cs) = concat (map tree_content cs)"

definition disk_xml_api :: "disk xml_api" where
  "disk_xml_api =
     \<lparr>xmlNewDoc = True,
      xmlNewNode = (\<lambda>n. Some (ElementNode n [] [])),
      xmlNewProp = (\<lambda>node k v. case node of ElementNode n ps cs \<Rightarrow> ElementNode n (ps @ [(k, v)]) cs | t \<Rightarrow> t),
      xmlNewText = (\<lambda>s. Some (TextNode s)),
      xmlAddChild = (\<lambda>node c. case node of ElementNode n ps cs \<Rightarrow> Some (ElementNode n ps (cs @ [c])) | _ \<Rightarrow> None),
      xmlGetProp = (\<lambda>node k. case node of ElementNode n ps cs \<Rightarrow> map_of ps k | _ \<Rightarrow> None),
      xmlNodeGetContent = (\<lambda>node. Some (tree_content node)),
      xmlReadFile = (\<lambda>p d. map_option Some (Option.bind (files d p) (\<lambda>c. c))),
      xmlSaveFormatFileEnc = (\<lambda>p doc d.
        case faults d (clock d) of
          Works \<Rightarrow> (1, d\<lparr>files := (files d)(p \<mapsto> Some (stored doc)), clock := clock d + 1\<rparr>)
        | Fails \<Rightarrow> (- 1, d\<lparr>clock := clock d + 1\<rparr>)
        | Leaves c \<Rightarrow> (- 1, d\<lparr>files := (files d)(p := c), clock := clock d + 1\<rparr>))\<rparr>"

lemma disk_nodes: "libxml_nodes disk_xml_api"
  by (auto simp: libxml_nodes_def disk_xml_api_def)

lemma disk_files: "libxml_files disk_xml_api disk_file_api ok"
  by (auto simp: libxml_files_def disk_xml_api_def disk_file_api_def split: fault.splits)

abbreviation Load :: "float_text \<Rightarrow> PreferencesImpl \<Rightarrow> disk \<Rightarrow> (PreferencesImpl \<times> disk) option" where
  "Load \<equiv> LoadFromDisk disk_xml_api disk_file_api"

abbreviation Write :: "float_text \<Rightarrow> MemoryToDiskRequest \<Rightarrow> PreferencesImpl \<Rightarrow> disk \<Rightarrow> MemoryToDiskRequest \<times> PreferencesImpl \<times> disk" where
  "Write \<equiv> WriteToDiskFile disk_xml_api disk_file_api"

subsection \<open>What a start finds\<close>

text \<open>The content that a start reads: the backup if there is one, and the file otherwise.\<close>

definition surviving :: "PreferencesImpl \<Rightarrow> disk \<Rightarrow> xml_node option option" where
  "surviving p d = (if backupPath p \<in> dom (files d) then files d (backupPath p) else files d (filePath p))"

definition repaired :: "disk \<Rightarrow> disk" where
  "repaired d = d\<lparr>faults := (\<lambda>_. Works)\<rparr>"

definition paths_ok :: "PreferencesImpl \<Rightarrow> bool" where
  "paths_ok p \<longleftrightarrow> path_ok (filePath p) \<and> path_ok (backupPath p) \<and> filePath p \<noteq> backupPath p"

lemma exists_disk [simp]: "path_ok q \<Longrightarrow> IsFileExist disk_file_api q d \<longleftrightarrow> q \<in> dom (files d)"
  by (auto simp: IsFileExist_def disk_file_api_def path_ok_def)

lemma limit_disk [simp]: "LimitXmlPermission disk_file_api q d = d"
  by (auto simp: LimitXmlPermission_def disk_file_api_def)

lemma disk_remove:
  "remove_file disk_file_api p d =
     (if faults d (clock d) = Works \<and> p \<in> dom (files d) then (0, d\<lparr>files := (files d)(p := None), clock := clock d + 1\<rparr>)
      else (- 1, d\<lparr>clock := clock d + 1\<rparr>))"
  by (simp add: disk_file_api_def)

lemma disk_rename:
  "rename_file disk_file_api p q d =
     (if faults d (clock d) = Works \<and> p \<in> dom (files d)
      then (0, d\<lparr>files := (files d)(p := None, q := files d p), clock := clock d + 1\<rparr>)
      else (- 1, d\<lparr>clock := clock d + 1\<rparr>))"
  by (simp add: disk_file_api_def)

definition content_map :: "float_text \<Rightarrow> xml_node option option \<Rightarrow> pref_map option" where
  "content_map ft c =
     (case c of
        Some (Some (ElementNode n ps cs)) \<Rightarrow>
          if n \<noteq> ''preferences'' then Some []
          else (case parse_children disk_xml_api cs of None \<Rightarrow> Some [] | Some es \<Rightarrow> read_elements ft es [])
      | _ \<Rightarrow> Some [])"

lemma read_disk:
  assumes "path_ok q" "q \<in> dom (files d)"
  shows "map_option snd (ReadSettingXml disk_xml_api disk_file_api ft q [] d) = content_map ft (files d q)"
proof -
  from assms have r: "Xml_ReadSettingXml disk_xml_api disk_file_api q d =
    (case files d q of Some (Some (ElementNode n ps cs)) \<Rightarrow> if n \<noteq> ''preferences'' then None else parse_children disk_xml_api cs | _ \<Rightarrow> None)"
    by (auto simp: Xml_ReadSettingXml_def path_ok_def disk_file_api_def disk_xml_api_def split: option.splits xml_node.splits)
  show ?thesis
    unfolding ReadSettingXml_def r content_map_def
    by (auto split: option.splits xml_node.splits simp: option.map_comp comp_def option.map_ident)
qed

text \<open>A start on a disk that works reads the surviving content, and leaves it in the file.\<close>

lemma load_repaired:
  assumes "paths_ok p" "\<not> loaded p" "pmap p = []"
  shows "map_option (\<lambda>(p', d'). (pmap p', loaded p')) (Load ft p (repaired d)) = map_option (\<lambda>m. (m, True)) (content_map ft (surviving p d))"
    and "Load ft p (repaired d) = Some (p', d') \<Longrightarrow> files d' = (files d)(backupPath p := None, filePath p := surviving p d)"
proof -
  let ?d0 = "repaired d" and ?f = "filePath p" and ?b = "backupPath p"
  from assms(1) have ok: "path_ok ?f" "path_ok ?b" "?f \<noteq> ?b" by (auto simp: paths_ok_def)
  define d1 where "d1 = (if IsFileExist disk_file_api ?b ?d0 then
                   (let w = snd (remove_file disk_file_api ?f ?d0) in
                    case rename_file disk_file_api ?b ?f w of
                      (r, w) \<Rightarrow> if r \<noteq> 0 then w else LimitXmlPermission disk_file_api ?f w)
                 else ?d0)"
  have f1: "files d1 = (files d)(?b := None, ?f := surviving p d)"
    using ok by (auto simp: d1_def surviving_def repaired_def disk_remove disk_rename Let_def fun_eq_iff split: if_splits)
  have L: "Load ft p ?d0 = (if ?f \<in> dom (files d1) then
      (case ReadSettingXml disk_xml_api disk_file_api ft ?f [] d1 of None \<Rightarrow> None | Some (_, m) \<Rightarrow> Some (p\<lparr>pmap := m, loaded := True\<rparr>, d1))
      else Some (p\<lparr>loaded := True\<rparr>, d1))"
    using assms(2,3) ok unfolding LoadFromDisk_def d1_def [symmetric] by (simp add: Let_def)
  show "map_option (\<lambda>(p', d'). (pmap p', loaded p')) (Load ft p ?d0) = map_option (\<lambda>m. (m, True)) (content_map ft (surviving p d))"
  proof (cases "?f \<in> dom (files d1)")
    case True
    with read_disk [OF ok(1) True, of ft, symmetric] f1 L show ?thesis
      by (cases "ReadSettingXml disk_xml_api disk_file_api ft ?f [] d1") (auto split: prod.splits)
  next
    case False
    with f1 have "surviving p d = None" by (metis domIff fun_upd_same)
    with False L assms(3) show ?thesis by (simp add: content_map_def)
  qed
  show "files d' = (files d)(?b := None, ?f := surviving p d)" if "Load ft p ?d0 = Some (p', d')"
    using that f1 L by (auto split: if_splits option.splits)
qed

subsection \<open>Writing with faults\<close>

lemma disk_save:
  "xmlSaveFormatFileEnc disk_xml_api p doc d =
     (case faults d (clock d) of
        Works \<Rightarrow> (1, d\<lparr>files := (files d)(p \<mapsto> Some (stored doc)), clock := clock d + 1\<rparr>)
      | Fails \<Rightarrow> (- 1, d\<lparr>clock := clock d + 1\<rparr>)
      | Leaves c \<Rightarrow> (- 1, d\<lparr>files := (files d)(p := c), clock := clock d + 1\<rparr>))"
  by (simp add: disk_xml_api_def)

lemma save_cases:
  assumes "path_ok q" "plain_map ft m"
  obtains (Saved) d' where "WriteSettingXml disk_xml_api disk_file_api ft q m d = (True, d')" "files d' = (files d)(q \<mapsto> Some (stored (doc_of ft m)))"
      "faults d' = faults d" "clock d' = clock d + 1" "faults d (clock d) = Works"
  | (Failed) d' c where "WriteSettingXml disk_xml_api disk_file_api ft q m d = (False, d')" "files d' = (files d)(q := c)" "faults d' = faults d"
      "clock d' = clock d + 1" "faults d (clock d) \<noteq> Works"
proof -
  note W = WriteSettingXml_saves [OF disk_nodes assms, of disk_file_api d, unfolded disk_save]
  show ?thesis
  proof (cases "faults d (clock d)")
    case Works
    with W have "WriteSettingXml disk_xml_api disk_file_api ft q m d = (True, d\<lparr>files := (files d)(q \<mapsto> Some (stored (doc_of ft m))), clock := clock d + 1\<rparr>)" by simp
    then show ?thesis by (rule Saved) (use Works in auto)
  next
    case Fails
    with W have "WriteSettingXml disk_xml_api disk_file_api ft q m d = (False, d\<lparr>clock := clock d + 1\<rparr>)" by simp
    then show ?thesis by (rule Failed [of _ "files d q"]) (use Fails in auto)
  next
    case (Leaves c)
    with W have "WriteSettingXml disk_xml_api disk_file_api ft q m d = (False, d\<lparr>files := (files d)(q := c), clock := clock d + 1\<rparr>)" by simp
    then show ?thesis by (rule Failed) (use Leaves in auto)
  qed
qed

lemma remove_disk:
  "files (snd (remove_file disk_file_api q d)) = files d \<or> files (snd (remove_file disk_file_api q d)) = (files d)(q := None)"
  "faults (snd (remove_file disk_file_api q d)) = faults d" "clock (snd (remove_file disk_file_api q d)) = clock d + 1"
  "faults d (clock d) = Works \<Longrightarrow> files (snd (remove_file disk_file_api q d)) = (files d)(q := None)"
  by (auto simp: disk_file_api_def fun_eq_iff domIff)

text \<open>With a backup in place, the second half of writing keeps it until the new file is complete.\<close>

lemma save_survives:
  assumes ok: "paths_ok p" "plain_map ft (writeToDiskMap mcr)" and b: "backupPath p \<in> dom (files d)"
    and w: "WriteToDiskFile_save disk_xml_api disk_file_api ft mcr p d = (mcr', p', d')"
  shows "surviving p d' = surviving p d \<or> surviving p d' = Some (Some (stored (doc_of ft (writeToDiskMap mcr))))"
proof -
  let ?f = "filePath p" and ?b = "backupPath p" and ?m = "writeToDiskMap mcr"
  from ok(1) have pk: "path_ok ?f" "path_ok ?b" "?f \<noteq> ?b" by (auto simp: paths_ok_def)
  show ?thesis
  proof (cases rule: save_cases [OF pk(1) ok(2), of d])
    case (1 d1)
    with b pk have "?b \<in> dom (files d1)" by auto
    with w 1(1) pk have "d' = snd (remove_file disk_file_api ?b d1)" by (auto simp: WriteToDiskFile_save_def)
    with remove_disk(1) [of ?b d1] 1(2) b pk show ?thesis by (auto simp: surviving_def)
  next
    case (2 d1 c)
    with w pk have "d' = (if ?f \<in> dom (files d1) then snd (remove_file disk_file_api ?f d1) else d1)"
      by (auto simp: WriteToDiskFile_save_def Let_def)
    then have "files d' = files d1 \<or> files d' = (files d1)(?f := None)" using remove_disk(1) [of ?f d1] by auto
    with 2(2) b pk show ?thesis by (auto simp: surviving_def)
  qed
qed

lemma write_survives:
  assumes ok: "paths_ok p" "plain_map ft (writeToDiskMap mcr)" and s: "surviving p d \<noteq> None"
    and w: "Write ft mcr p d = (mcr', p', d')"
  shows "surviving p d' = surviving p d \<or> surviving p d' = Some (Some (stored (doc_of ft (writeToDiskMap mcr))))"
proof -
  let ?f = "filePath p" and ?b = "backupPath p"
  from ok(1) have pk: "path_ok ?f" "path_ok ?b" "?f \<noteq> ?b" by (auto simp: paths_ok_def)
  show ?thesis
  proof (cases "?f \<in> dom (files d)")
    case False
    with s have "?b \<in> dom (files d)" by (auto simp: surviving_def domIff split: if_splits)
    with save_survives [OF ok] w False pk show ?thesis by (auto simp: WriteToDiskFile_def)
  next
    case f: True
    show ?thesis
    proof (cases "CheckRequestValidForStateGeneration p mcr")
      case False
      with w f pk show ?thesis by (auto simp: WriteToDiskFile_def)
    next
      case valid: True
      show ?thesis
      proof (cases "?b \<in> dom (files d)")
        case True
        let ?d = "snd (remove_file disk_file_api ?f d)"
        from True pk remove_disk(1) [of ?f d] have "?b \<in> dom (files ?d)" "surviving p ?d = surviving p d"
          by (auto simp: surviving_def)
        with save_survives [OF ok, of ?d] w f valid True pk show ?thesis by (simp add: WriteToDiskFile_def)
      next
        case False
        show ?thesis
        proof (cases "faults d (clock d) = Works")
          case True
          let ?d = "d\<lparr>files := (files d)(?f := None, ?b := files d ?f), clock := clock d + 1\<rparr>"
          from f False pk have "?b \<in> dom (files ?d)" "surviving p ?d = surviving p d" by (auto simp: surviving_def)
          with save_survives [OF ok, of ?d] w f valid False pk True show ?thesis by (simp add: WriteToDiskFile_def disk_rename)
        next
          case no: False
          with w f valid False pk show ?thesis by (auto simp: WriteToDiskFile_def disk_rename surviving_def)
        qed
      qed
    qed
  qed
qed

lemma content_of_doc:
  assumes "map_ok ok ft m"
  shows "content_map ft (Some (Some (stored (doc_of ft m)))) = Some (reload_map ft m)"
  using assms read_elements_of [of m ft "[]"]
  by (simp add: content_map_def stored_doc_of parse_doc_of [OF disk_nodes] map_ok_def del: map_map)



subsection \<open>A concrete disk\<close>

definition demo_text :: float_text where
  "demo_text = \<lparr>float_to_string = (\<lambda>f. to_string (uint f)), double_to_string = (\<lambda>d. to_string (uint d)),
     std_stof = (\<lambda>s. map_option word_of_int (stoll s)), std_stod = (\<lambda>s. map_option word_of_int (stoll s))\<rparr>"

definition demo_pref :: PreferencesImpl where
  "demo_pref = PreferencesImpl_new ''/p''"

definition demo_disk :: "(nat \<Rightarrow> fault) \<Rightarrow> disk" where
  "demo_disk fs = \<lparr>files = [''/p'' \<mapsto> Some (doc_of demo_text [(''k'', PvInt 1)])], clock = 0, faults = fs\<rparr>"

definition demo_request :: MemoryToDiskRequest where
  "demo_request = (MemoryToDiskRequest_new [(''k'', PvInt 2), (''t'', PvBool True)] [''k'', ''t''] [] 1)\<lparr>isSyncRequest := True\<rparr>"

lemma demo_paths: "paths_ok demo_pref" "\<not> loaded demo_pref" "pmap demo_pref = []"
  by (simp_all add: paths_ok_def path_ok_def demo_pref_def PreferencesImpl_new_def MakeBackupPath_def c_str_def PATH_MAX_def)

lemma small_to_string: "to_string 0 = ''0''" "to_string 1 = ''1''" "to_string 2 = ''2''"
  by code_simp+

lemma demo_keys_sorted: "map_wf [(''k'', v), (''t'', w)]"
  by (simp add: map_wf_def less_char_def)

lemma demo_map_ok: "map_ok (\<lambda>_. True) demo_text (writeToDiskMap demo_request)"
  using demo_keys_sorted
  by (auto simp: map_ok_def demo_request_def MemoryToDiskRequest_new_def texts_ok_def entry_texts_def element_of_def
      reloadable_def reload_value_def c_str_def small_to_string)


end
