(* ===== verification/Preferences_Run.thy ===== *)
theory Preferences_Run
  imports Preferences_Files
begin

text \<open>
  Runs of a preferences object: the calls of the application, the commits of \<open>Flush\<close> and \<open>FlushSync\<close>, and
  the tasks of its pool.  The tasks all have one tag, so they run one at a time in the order they were
  scheduled (\<open>Task_Pool\<close>): the queue is a list.  A flush takes its snapshot under the mutex and schedules
  the write after giving the mutex up, so these are two steps and two flushes can be scheduled in the
  opposite order of their snapshots.  The pool is running and its queue is not full.

  The lemmas show that the memory is a map that is updated by the calls, that the list of modified keys
  covers every change, and that on a disk without faults flushed data are in the file.
\<close>

subsection \<open>The calls of an application\<close>

datatype pref_call =
    CPutInt string "32 word"
  | CPutString string string
  | CPutBool string bool
  | CPutLong string int64
  | CPutFloat string "32 word"
  | CPutDouble string "64 word"
  | CPutStringSet string "string list"
  | CDelete string
  | CClear
  | CRegister nat
  | CUnRegister "nat \<Rightarrow> bool" nat

fun pref_call_on :: "pref_call \<Rightarrow> PreferencesImpl \<Rightarrow> (pref_errno \<times> PreferencesImpl) option" where
  "pref_call_on (CPutInt k v) p = Pref_PutInt k v p"
| "pref_call_on (CPutString k v) p = Pref_PutString k v p"
| "pref_call_on (CPutBool k v) p = Pref_PutBool k v p"
| "pref_call_on (CPutLong k v) p = Pref_PutLong k v p"
| "pref_call_on (CPutFloat k v) p = Pref_PutFloat k v p"
| "pref_call_on (CPutDouble k v) p = Pref_PutDouble k v p"
| "pref_call_on (CPutStringSet k v) p = Pref_PutStringSet k v p"
| "pref_call_on (CDelete k) p = Some (Pref_Delete k p)"
| "pref_call_on CClear p = Some (Pref_Clear p)"
| "pref_call_on (CRegister ob) p = Some (PE_OK, RegisterObserver ob p)"
| "pref_call_on (CUnRegister alive ob) p = Some (PE_OK, UnRegisterObserver alive ob p)"

text \<open>The entry a call sets, if its checks pass.\<close>

fun call_entry :: "pref_call \<Rightarrow> (string \<times> PreferencesValue) option" where
  "call_entry (CPutInt k v) = (if CheckKey k = PE_OK then Some (k, PvInt v) else None)"
| "call_entry (CPutString k v) = (if CheckKey k = PE_OK \<and> CheckStringValue v = PE_OK then Some (k, PvString v) else None)"
| "call_entry (CPutBool k v) = (if CheckKey k = PE_OK then Some (k, PvBool v) else None)"
| "call_entry (CPutLong k v) = (if CheckKey k = PE_OK then Some (k, PvLong v) else None)"
| "call_entry (CPutFloat k v) = (if CheckKey k = PE_OK then Some (k, PvFloat v) else None)"
| "call_entry (CPutDouble k v) = (if CheckKey k = PE_OK then Some (k, PvDouble v) else None)"
| "call_entry (CPutStringSet k v) =
     (if CheckKey k = PE_OK \<and> (\<forall>s \<in> set v. CheckStringValue s = PE_OK) then Some (k, PvSet v) else None)"
| "call_entry _ = None"

text \<open>The abstract map: a setter replaces the value of its key unless the old value equals the new one.\<close>

definition spec_put :: "string \<times> PreferencesValue \<Rightarrow> (string \<rightharpoonup> PreferencesValue) \<Rightarrow> (string \<rightharpoonup> PreferencesValue)" where
  "spec_put kv m = (case kv of (k, v) \<Rightarrow> if \<exists>v'. m k = Some v' \<and> value_eq v' v then m else m(k \<mapsto> v))"

fun spec_call :: "pref_call \<Rightarrow> (string \<rightharpoonup> PreferencesValue) \<Rightarrow> (string \<rightharpoonup> PreferencesValue)" where
  "spec_call (CDelete k) m = (if CheckKey k = PE_OK then m(k := None) else m)"
| "spec_call CClear m = Map.empty"
| "spec_call c m = (case call_entry c of None \<Rightarrow> m | Some kv \<Rightarrow> spec_put kv m)"

definition is_put :: "pref_call \<Rightarrow> bool" where
  "is_put c = (case c of CDelete _ \<Rightarrow> False | CClear \<Rightarrow> False | CRegister _ \<Rightarrow> False | CUnRegister _ _ \<Rightarrow> False | _ \<Rightarrow> True)"

subsection \<open>Steps\<close>

datatype pref_task = LoadTask | WriteTask nat

record pref_run =
  obj :: PreferencesImpl
  dsk :: disk
  queue :: "pref_task list"
  requests :: "MemoryToDiskRequest list"
  committed :: "nat list"

definition run_init :: "string \<Rightarrow> disk \<Rightarrow> pref_run" where
  "run_init path d = \<lparr>obj = PreferencesImpl_new path, dsk = d, queue = [LoadTask], requests = [], committed = []\<rparr>"

inductive run_step :: "float_text \<Rightarrow> (pref_call \<Rightarrow> bool) \<Rightarrow> pref_run \<Rightarrow> pref_run \<Rightarrow> bool" for ft :: float_text and allowed :: "pref_call \<Rightarrow> bool" where
  calls: "allowed c \<Longrightarrow> pref_call_on c (obj R) = Some (e, p) \<Longrightarrow> run_step ft allowed R (R\<lparr>obj := p\<rparr>)"
| commits: "commitToMemory (obj R) = (req, p) \<Longrightarrow>
    run_step ft allowed R (R\<lparr>obj := p, requests := requests R @ [req\<lparr>isSyncRequest := sync\<rparr>], committed := committed R @ [length (requests R)]\<rparr>)"
| schedules: "i \<in> set (committed R) \<Longrightarrow>
    run_step ft allowed R (R\<lparr>committed := remove1 i (committed R), queue := queue R @ [WriteTask i]\<rparr>)"
| loads: "queue R = LoadTask # q \<Longrightarrow> Load ft (obj R) (dsk R) = Some (p, d) \<Longrightarrow> run_step ft allowed R (R\<lparr>obj := p, dsk := d, queue := q\<rparr>)"
| writes: "queue R = WriteTask i # q \<Longrightarrow> Write ft (requests R ! i) (obj R) (dsk R) = (r, p, d) \<Longrightarrow>
    run_step ft allowed R (R\<lparr>obj := p, dsk := d, queue := q, requests := (requests R)[i := r]\<rparr>)"

subsection \<open>The map in memory\<close>

lemma map_of_assign: "map_wf m \<Longrightarrow> map_of (insert_or_assign k v m) = (map_of m)(k \<mapsto> v)"
  by (auto simp: insert_or_assign_def map_of_insert map_wf_erase map_of_erase)

lemma map_wf_assign: "map_wf m \<Longrightarrow> map_wf (insert_or_assign k v m)"
  by (simp add: insert_or_assign_def map_wf_insert map_wf_erase)

lemma put_value:
  assumes "loaded p"
  shows "PutPreferencesValue k v p =
    Some (if \<exists>v'. map_of (pmap p) k = Some v' \<and> value_eq v' v then p
          else p\<lparr>pmap := insert_or_assign k v (pmap p), modifiedKeys := modifiedKeys p @ [k]\<rparr>)"
  using assms by (auto simp: PutPreferencesValue_def AwaitLoadFile_def split: option.splits)

text \<open>A setter whose checks pass puts its entry into the map, and one whose checks fail changes nothing.\<close>

lemma call_put:
  assumes "is_put c"
  shows "call_entry c = None \<Longrightarrow> \<exists>e. pref_call_on c p = Some (e, p)"
    and "call_entry c = Some (k, v) \<Longrightarrow> pref_call_on c p = map_option (\<lambda>p. (PE_OK, p)) (PutPreferencesValue k v p)"
  using assms
  by (cases c; auto simp: is_put_def Pref_PutInt_def Pref_PutString_def Pref_PutBool_def Pref_PutLong_def Pref_PutFloat_def
      Pref_PutDouble_def Pref_PutStringSet_def put_checked_def Let_def split: if_splits)+

lemma call_frame:
  assumes "pref_call_on c p = Some (e, p')"
  shows "loaded p' = loaded p" "currentMemoryStateGeneration p' = currentMemoryStateGeneration p" "diskStateGeneration p' = diskStateGeneration p"
    "filePath p' = filePath p" "backupPath p' = backupPath p"
    "(pmap p' = pmap p \<and> modifiedKeys p' = modifiedKeys p) \<or> modifiedKeys p' \<noteq> []"
proof -
  have put: "loaded p' = loaded p \<and> currentMemoryStateGeneration p' = currentMemoryStateGeneration p \<and> diskStateGeneration p' = diskStateGeneration p
    \<and> filePath p' = filePath p \<and> backupPath p' = backupPath p \<and> ((pmap p' = pmap p \<and> modifiedKeys p' = modifiedKeys p) \<or> modifiedKeys p' \<noteq> [])"
    if "is_put c"
    using assms call_put [OF that, where p = p]
    by (cases "call_entry c") (auto simp: PutPreferencesValue_def AwaitLoadFile_def split: option.splits if_splits prod.splits)
  show "loaded p' = loaded p" "currentMemoryStateGeneration p' = currentMemoryStateGeneration p" "diskStateGeneration p' = diskStateGeneration p"
    "filePath p' = filePath p" "backupPath p' = backupPath p"
    "(pmap p' = pmap p \<and> modifiedKeys p' = modifiedKeys p) \<or> modifiedKeys p' \<noteq> []"
    using put assms
    by (cases c; auto simp: is_put_def Pref_Delete_def Pref_Clear_def RegisterObserver_def UnRegisterObserver_def split: if_splits option.splits)+
qed

lemma call_refines:
  assumes "pref_call_on c p = Some (e, p')" and wf: "map_wf (pmap p)"
  shows "map_wf (pmap p') \<and> map_of (pmap p') = spec_call c (map_of (pmap p))
    \<and> (\<forall>k. map_of (pmap p') k \<noteq> map_of (pmap p) k \<longrightarrow> k \<in> set (modifiedKeys p')) \<and> set (modifiedKeys p) \<subseteq> set (modifiedKeys p')"
proof (cases "is_put c")
  case True
  then have sc: "spec_call c m = (case call_entry c of None \<Rightarrow> m | Some kv \<Rightarrow> spec_put kv m)" for m
    by (cases c) (auto simp: is_put_def)
  show ?thesis
  proof (cases "call_entry c")
    case None
    with call_put(1) [OF True None, of p] assms sc show ?thesis by auto
  next
    case (Some kv)
    obtain k v where kv: "kv = (k, v)" by (cases kv)
    from call_put(2) [OF True Some [unfolded kv], of p] assms(1) have put: "PutPreferencesValue k v p = Some p'"
      by (cases "PutPreferencesValue k v p") auto
    then have "loaded p" by (auto simp: PutPreferencesValue_def AwaitLoadFile_def split: if_splits)
    show ?thesis
    proof (cases "\<exists>v'. map_of (pmap p) k = Some v' \<and> value_eq v' v")
      case True
      with put put_value [OF \<open>loaded p\<close>, of k v] Some kv sc wf show ?thesis by (simp add: spec_put_def)
    next
      case False
      with put put_value [OF \<open>loaded p\<close>, of k v] have "p' = p\<lparr>pmap := insert_or_assign k v (pmap p), modifiedKeys := modifiedKeys p @ [k]\<rparr>" by simp
      with False Some kv sc wf show ?thesis by (auto simp: spec_put_def map_wf_assign map_of_assign)
    qed
  qed
next
  case False
  show ?thesis
  proof (cases c)
    case CClear
    have "None = map_of (pmap p) k \<longleftrightarrow> k \<notin> fst ` set (pmap p)" for k by (metis map_of_eq_None_iff)
    with CClear assms show ?thesis by (auto simp: Pref_Clear_def map_wf_def split: if_splits)
  qed (use assms False in \<open>auto simp: is_put_def Pref_Delete_def RegisterObserver_def UnRegisterObserver_def
        map_wf_erase map_of_erase split: if_splits option.splits\<close>)
qed

text \<open>A sequence of calls on an object whose file has been loaded: none of them waits.\<close>

fun pref_calls :: "pref_call list \<Rightarrow> PreferencesImpl \<Rightarrow> PreferencesImpl option" where
  "pref_calls [] p = Some p"
| "pref_calls (c # cs) p = (case pref_call_on c p of None \<Rightarrow> None | Some (_, p') \<Rightarrow> pref_calls cs p')"

lemma call_returns: "loaded p \<Longrightarrow> pref_call_on c p \<noteq> None"
proof (cases "is_put c")
  case True
  assume "loaded p"
  with call_put [OF True, where p = p] show ?thesis by (cases "call_entry c") (auto simp: put_value split: prod.splits)
next
  case False
  then show ?thesis by (cases c) (auto simp: is_put_def)
qed

lemma calls_refine:
  assumes "loaded p" "map_wf (pmap p)" "m0 = map_of (pmap p)"
    and "\<forall>k. m0 k \<noteq> mc k \<longrightarrow> k \<in> set (modifiedKeys p)"
  shows "\<exists>p'. pref_calls cs p = Some p' \<and> map_wf (pmap p') \<and> map_of (pmap p') = fold spec_call cs m0
    \<and> (\<forall>k. map_of (pmap p') k \<noteq> mc k \<longrightarrow> k \<in> set (modifiedKeys p'))"
  using assms
proof (induction cs arbitrary: p m0)
  case (Cons c cs)
  obtain e p1 where c: "pref_call_on c p = Some (e, p1)" using call_returns [OF Cons.prems(1), of c] by auto
  note r = call_refines [OF c Cons.prems(2)]
  have "\<forall>k. map_of (pmap p1) k \<noteq> mc k \<longrightarrow> k \<in> set (modifiedKeys p1)"
    using r Cons.prems(3,4) by (metis subsetD)
  with Cons.IH [of p1 "map_of (pmap p1)"] call_frame(1) [OF c] r c Cons.prems show ?case by auto
qed simp

text \<open>
  C19 (refinement): on an object whose file has been loaded every sequence of calls returns, the map in
  memory is then the abstract map updated by each call in turn, and every key whose value differs from
  the one at the last commit is in the list of modified keys, so that the next flush writes it and tells
  the observers.
\<close>

theorem preferences_refine_map:
  assumes "loaded p" and "map_wf (pmap p)" and "modifiedKeys p = []"
  shows "\<exists>p'. pref_calls cs p = Some p' \<and> map_wf (pmap p') \<and> map_of (pmap p') = fold spec_call cs (map_of (pmap p))
    \<and> (\<forall>k. map_of (pmap p') k \<noteq> map_of (pmap p) k \<longrightarrow> k \<in> set (modifiedKeys p'))"
  using calls_refine [OF assms(1,2) refl, of "map_of (pmap p)" cs] by simp

theorem preferences_refine_map_witness:
  "\<exists>p'. pref_calls [CPutInt ''a'' 1, CPutBool ''b'' True, CDelete ''a''] ((PreferencesImpl_new ''/p'')\<lparr>loaded := True\<rparr>) = Some p'
    \<and> map_of (pmap p') = [''b'' \<mapsto> PvBool True] \<and> ''b'' \<in> set (modifiedKeys p')"
proof -
  let ?p = "(PreferencesImpl_new ''/p'')\<lparr>loaded := True\<rparr>" and ?cs = "[CPutInt ''a'' 1, CPutBool ''b'' True, CDelete ''a'']"
  have "map_of (pmap ?p) = Map.empty" by (simp add: PreferencesImpl_new_def)
  moreover have "fold spec_call ?cs Map.empty = [''b'' \<mapsto> PvBool True]"
    by (auto simp: spec_put_def CheckKey_def MAX_KEY_LENGTH_def fun_eq_iff)
  ultimately show ?thesis
    using preferences_refine_map [of ?p ?cs] by (auto simp: PreferencesImpl_new_def map_wf_def simp del: fold.simps(2) fold_simps)
qed


subsection \<open>Flushed data are on the disk\<close>

abbreviation "all_work \<equiv> (\<lambda>_ :: nat. Works)"

lemma save_works:
  assumes ok: "paths_ok p" "plain_map ft (writeToDiskMap mcr)" and f: "faults d = all_work"
  shows "\<exists>d'. WriteToDiskFile_save disk_xml_api disk_file_api ft mcr p d
      = (SetDiskWriteResult True PE_OK mcr, p\<lparr>diskStateGeneration := memoryStateGeneration mcr\<rparr>, d')
    \<and> files d' = (files d)(backupPath p := None, filePath p \<mapsto> Some (stored (doc_of ft (writeToDiskMap mcr)))) \<and> faults d' = all_work"
proof -
  let ?f = "filePath p" and ?b = "backupPath p"
  from ok(1) have pk: "path_ok ?f" "path_ok ?b" "?f \<noteq> ?b" by (auto simp: paths_ok_def)
  show ?thesis
  proof (cases rule: save_cases [OF pk(1) ok(2), of d])
    case (1 d1)
    let ?d' = "if ?b \<in> dom (files d1) then snd (remove_file disk_file_api ?b d1) else d1"
    have "WriteToDiskFile_save disk_xml_api disk_file_api ft mcr p d
      = (SetDiskWriteResult True PE_OK mcr, p\<lparr>diskStateGeneration := memoryStateGeneration mcr\<rparr>, ?d')"
      using 1 pk by (simp add: WriteToDiskFile_save_def)
    moreover have "faults ?d' = all_work" using 1(3) f remove_disk(2) [of ?b d1] by simp
    moreover have "files ?d' = (files d1)(?b := None)" using 1(3) f remove_disk(4) [of d1 ?b] by (auto simp: domIff)
    ultimately show ?thesis using 1(2) pk by (auto simp: fun_upd_twist)
  next
    case 2
    with f show ?thesis by simp
  qed
qed

lemma write_works:
  assumes ok: "paths_ok p" "plain_map ft (writeToDiskMap mcr)" and f: "faults d = all_work"
  shows "if filePath p \<in> dom (files d) \<and> \<not> CheckRequestValidForStateGeneration p mcr
    then Write ft mcr p d = (SetDiskWriteResult False PE_OK mcr, p, d)
    else \<exists>d'. Write ft mcr p d = (SetDiskWriteResult True PE_OK mcr, p\<lparr>diskStateGeneration := memoryStateGeneration mcr\<rparr>, d')
      \<and> files d' = (files d)(backupPath p := None, filePath p \<mapsto> Some (stored (doc_of ft (writeToDiskMap mcr)))) \<and> faults d' = all_work"
proof -
  let ?f = "filePath p" and ?b = "backupPath p"
  from ok(1) have pk: "path_ok ?f" "path_ok ?b" "?f \<noteq> ?b" by (auto simp: paths_ok_def)
  show ?thesis
  proof (cases "?f \<in> dom (files d)")
    case False
    with save_works [OF ok f] pk show ?thesis by (simp add: WriteToDiskFile_def)
  next
    case T: True
    show ?thesis
    proof (cases "?b \<in> dom (files d)")
      case True
      with T pk save_works [OF ok, of "snd (remove_file disk_file_api ?f d)"] remove_disk(2) [of ?f d] remove_disk(4) [of d ?f] f
      show ?thesis by (simp add: WriteToDiskFile_def fun_upd_twist)
    next
      case False
      let ?d = "d\<lparr>files := (files d)(?f := None, ?b := files d ?f), clock := clock d + 1\<rparr>"
      from T False pk save_works [OF ok, of ?d] f show ?thesis
        by (simp add: WriteToDiskFile_def disk_rename fun_upd_twist)
    qed
  qed
qed

lemma load_works:
  assumes "paths_ok p" "\<not> loaded p" "pmap p = []" "faults d = all_work" "Load ft p d = Some (p', d')"
  shows "content_map ft (surviving p d) = Some (pmap p')" "p' = p\<lparr>pmap := pmap p', loaded := True\<rparr>" "faults d' = all_work"
proof -
  have d: "repaired d = d" using assms(4) by (simp add: repaired_def)
  from load_repaired(1) [OF assms(1-3), of ft d] assms(5) d show "content_map ft (surviving p d) = Some (pmap p')"
    by (cases "content_map ft (surviving p d)") auto
  show "p' = p\<lparr>pmap := pmap p', loaded := True\<rparr>"
    using assms(2,5) by (auto simp: LoadFromDisk_def Let_def split: if_splits option.splits)
  have f: "faults (snd (remove_file disk_file_api q e)) = faults e" "faults (snd (rename_file disk_file_api q q' e)) = faults e" for q q' e
    by (simp_all add: disk_remove disk_rename)
  show "faults d' = all_work"
    using assms(2,4,5) f by (auto simp: LoadFromDisk_def Let_def split: if_splits option.splits prod.splits) (metis snd_conv f)+
qed

text \<open>The entries a call may set.\<close>

definition plain_call :: "float_text \<Rightarrow> pref_call \<Rightarrow> bool" where
  "plain_call ft c = (case call_entry c of None \<Rightarrow> True | Some kv \<Rightarrow> plain_map ft [kv])"

lemma set_map_insert: "set (map_insert k v m) \<subseteq> insert (k, v) (set m)"
  by (induction k v m rule: map_insert.induct) auto

lemma plain_assign: "plain_map ft m \<Longrightarrow> plain_map ft [(k, v)] \<Longrightarrow> plain_map ft (insert_or_assign k v m)"
  using set_map_insert [of k v "map_erase k m"] by (fastforce simp: plain_map_def insert_or_assign_def map_erase_def)

lemma call_plain:
  assumes "pref_call_on c p = Some (e, p')" "plain_map ft (pmap p)" "plain_call ft c"
  shows "plain_map ft (pmap p')"
proof (cases "is_put c")
  case True
  show ?thesis
  proof (cases "call_entry c")
    case None
    with call_put(1) [OF True None, of p] assms show ?thesis by auto
  next
    case (Some kv)
    obtain k v where kv: "kv = (k, v)" by (cases kv)
    with Some call_put(2) [OF True, of k v p] assms show ?thesis
      by (auto simp: PutPreferencesValue_def AwaitLoadFile_def plain_call_def intro!: plain_assign split: option.splits if_splits)
  qed
next
  case False
  with assms show ?thesis
    by (cases c) (auto simp: is_put_def Pref_Delete_def Pref_Clear_def RegisterObserver_def UnRegisterObserver_def plain_map_def map_erase_def
        split: if_splits option.splits)
qed


text \<open>
  The invariant of a run, for the snapshots \<open>snap\<close> of the generations: requests carry the snapshot of their
  generation, a generation that is not on disk has a request on its way, and the file holds the snapshot
  of the generation that was last written.
\<close>

definition on_its_way :: "pref_run \<Rightarrow> nat \<Rightarrow> bool" where
  "on_its_way R i \<longleftrightarrow> i \<in> set (committed R) \<or> WriteTask i \<in> set (queue R)"

definition requests_inv :: "(int \<Rightarrow> pref_map) \<Rightarrow> float_text \<Rightarrow> pref_run \<Rightarrow> bool" where
  "requests_inv snap ft R \<longleftrightarrow>
     (\<forall>i. on_its_way R i \<longrightarrow> i < length (requests R))
   \<and> (\<forall>r \<in> set (requests R). 0 \<le> memoryStateGeneration r \<and> memoryStateGeneration r \<le> currentMemoryStateGeneration (obj R)
       \<and> plain_map ft (writeToDiskMap r) \<and> (0 < memoryStateGeneration r \<longrightarrow> writeToDiskMap r = snap (memoryStateGeneration r))
       \<and> (handled r \<and> isSyncRequest r \<longrightarrow> writeToDiskResult r = PE_OK \<and> memoryStateGeneration r \<le> diskStateGeneration (obj R)))
   \<and> (currentMemoryStateGeneration (obj R) \<noteq> diskStateGeneration (obj R) \<longrightarrow>
       (\<exists>i. on_its_way R i \<and> memoryStateGeneration (requests R ! i) = currentMemoryStateGeneration (obj R)))
   \<and> (0 < diskStateGeneration (obj R) \<longrightarrow> (\<exists>r \<in> set (requests R). memoryStateGeneration r = diskStateGeneration (obj R)))"

definition object_inv :: "string \<Rightarrow> disk \<Rightarrow> (int \<Rightarrow> pref_map) \<Rightarrow> float_text \<Rightarrow> pref_run \<Rightarrow> bool" where
  "object_inv path d0 snap ft R \<longleftrightarrow>
     filePath (obj R) = path \<and> backupPath (obj R) = MakeBackupPath path \<and> plain_map ft (pmap (obj R)) \<and> faults (dsk R) = all_work
   \<and> 0 \<le> diskStateGeneration (obj R) \<and> diskStateGeneration (obj R) \<le> currentMemoryStateGeneration (obj R)
   \<and> (if loaded (obj R) then LoadTask \<notin> set (queue R)
      else queue R \<noteq> [] \<and> hd (queue R) = LoadTask \<and> LoadTask \<notin> set (tl (queue R)) \<and> dsk R = d0 \<and> pmap (obj R) = [] \<and> modifiedKeys (obj R) = []
        \<and> currentMemoryStateGeneration (obj R) = 0)
   \<and> (modifiedKeys (obj R) = [] \<and> 0 < currentMemoryStateGeneration (obj R) \<longrightarrow> pmap (obj R) = snap (currentMemoryStateGeneration (obj R)))
   \<and> (0 < diskStateGeneration (obj R) \<longrightarrow> files (dsk R) path = Some (Some (stored (doc_of ft (snap (diskStateGeneration (obj R)))))))"

lemma requests_frame:
  assumes "requests_inv snap ft R" and "requests R' = requests R" "on_its_way R' = on_its_way R"
    and "currentMemoryStateGeneration (obj R') = currentMemoryStateGeneration (obj R)" "diskStateGeneration (obj R') = diskStateGeneration (obj R)"
  shows "requests_inv snap ft R'"
  using assms by (simp add: requests_inv_def)

text \<open>A new request carries the current generation.\<close>

lemma requests_new:
  assumes inv: "requests_inv snap ft R" and d: "diskStateGeneration p = diskStateGeneration (obj R)"
    and g: "currentMemoryStateGeneration (obj R) \<le> currentMemoryStateGeneration p" "0 \<le> currentMemoryStateGeneration p"
    and r: "memoryStateGeneration req = currentMemoryStateGeneration p" "plain_map ft (writeToDiskMap req)" "\<not> handled req"
      "0 < currentMemoryStateGeneration p \<Longrightarrow> writeToDiskMap req = snap' (currentMemoryStateGeneration p)"
    and s: "\<And>n. n \<le> currentMemoryStateGeneration (obj R) \<Longrightarrow> snap' n = snap n"
  shows "requests_inv snap' ft (R\<lparr>obj := p, requests := requests R @ [req], committed := committed R @ [length (requests R)]\<rparr>)" (is "requests_inv _ _ ?R")
proof -
  have way: "on_its_way ?R i \<longleftrightarrow> on_its_way R i \<or> i = length (requests R)" for i by (auto simp: on_its_way_def)
  have "\<forall>i. on_its_way ?R i \<longrightarrow> i < length (requests ?R)" using inv way by (auto simp: requests_inv_def)
  moreover have "0 \<le> memoryStateGeneration x \<and> memoryStateGeneration x \<le> currentMemoryStateGeneration (obj ?R)
       \<and> plain_map ft (writeToDiskMap x) \<and> (0 < memoryStateGeneration x \<longrightarrow> writeToDiskMap x = snap' (memoryStateGeneration x))
       \<and> (handled x \<and> isSyncRequest x \<longrightarrow> writeToDiskResult x = PE_OK \<and> memoryStateGeneration x \<le> diskStateGeneration (obj ?R))"
    if "x \<in> set (requests ?R)" for x
  proof (cases "x = req")
    case True
    with r g show ?thesis by simp
  next
    case False
    with that have "x \<in> set (requests R)" by simp
    with inv have x: "0 \<le> memoryStateGeneration x" "memoryStateGeneration x \<le> currentMemoryStateGeneration (obj R)" "plain_map ft (writeToDiskMap x)"
      "0 < memoryStateGeneration x \<longrightarrow> writeToDiskMap x = snap (memoryStateGeneration x)"
      "handled x \<and> isSyncRequest x \<longrightarrow> writeToDiskResult x = PE_OK \<and> memoryStateGeneration x \<le> diskStateGeneration (obj R)"
      by (simp_all add: requests_inv_def)
    with s [OF x(2)] g d show ?thesis by simp
  qed
  moreover have "\<exists>i. on_its_way ?R i \<and> memoryStateGeneration (requests ?R ! i) = currentMemoryStateGeneration (obj ?R)"
    using way r(1) by (intro exI [of _ "length (requests R)"]) simp
  moreover have "0 < diskStateGeneration (obj ?R) \<longrightarrow> (\<exists>r \<in> set (requests ?R). memoryStateGeneration r = diskStateGeneration (obj ?R))"
    using inv d by (auto simp: requests_inv_def)
  ultimately show ?thesis unfolding requests_inv_def by blast
qed

lemma call_before_load:
  assumes "pref_call_on c p = Some (e, p')" "\<not> loaded p" "pmap p = []" "modifiedKeys p = []"
  shows "pmap p' = [] \<and> modifiedKeys p' = []"
proof (cases "is_put c")
  case True
  with assms call_put [OF True, where p = p] show ?thesis
    by (cases "call_entry c") (auto simp: PutPreferencesValue_def AwaitLoadFile_def split: prod.splits)
next
  case False
  with assms show ?thesis
    by (cases c) (auto simp: is_put_def Pref_Delete_def Pref_Clear_def RegisterObserver_def UnRegisterObserver_def split: if_splits option.splits)
qed

lemma call_inv:
  assumes inv: "requests_inv snap ft R" "object_inv path d0 snap ft R" and c: "pref_call_on c (obj R) = Some (e, p)" "plain_call ft c"
  shows "requests_inv snap ft (R\<lparr>obj := p\<rparr>) \<and> object_inv path d0 snap ft (R\<lparr>obj := p\<rparr>)"
proof
  note f = call_frame [OF c(1)]
  show "requests_inv snap ft (R\<lparr>obj := p\<rparr>)"
    using f by (intro requests_frame [OF inv(1)]) (simp_all add: on_its_way_def fun_eq_iff)
  have "plain_map ft (pmap p)" using inv(2) by (intro call_plain [OF c(1) _ c(2)]) (simp add: object_inv_def)
  then show "object_inv path d0 snap ft (R\<lparr>obj := p\<rparr>)"
    using inv(2) f call_before_load [OF c(1)] unfolding object_inv_def by (auto split: if_splits)
qed

lemma commit_inv:
  assumes inv: "requests_inv snap ft R" "object_inv path d0 snap ft R" and c: "commitToMemory (obj R) = (req, p)"
  shows "\<exists>snap. requests_inv snap ft (R\<lparr>obj := p, requests := requests R @ [req\<lparr>isSyncRequest := sync\<rparr>], committed := committed R @ [length (requests R)]\<rparr>)
    \<and> object_inv path d0 snap ft (R\<lparr>obj := p, requests := requests R @ [req\<lparr>isSyncRequest := sync\<rparr>], committed := committed R @ [length (requests R)]\<rparr>)"
proof (cases "modifiedKeys (obj R) = []")
  case True
  with c have p: "p = obj R" "req = MemoryToDiskRequest_new (pmap (obj R)) [] (preferencesObservers (obj R)) (currentMemoryStateGeneration (obj R))"
    by (auto simp: commitToMemory_def Let_def)
  have "object_inv path d0 snap ft (R\<lparr>obj := p, requests := requests R @ [req\<lparr>isSyncRequest := sync\<rparr>], committed := committed R @ [length (requests R)]\<rparr>)"
    using inv(2) p by (simp add: object_inv_def)
  moreover have "requests_inv snap ft (R\<lparr>obj := p, requests := requests R @ [req\<lparr>isSyncRequest := sync\<rparr>], committed := committed R @ [length (requests R)]\<rparr>)"
    using inv(2) p True by (intro requests_new [OF inv(1)]) (auto simp: object_inv_def MemoryToDiskRequest_new_def)
  ultimately show ?thesis by blast
next
  case False
  let ?g = "currentMemoryStateGeneration (obj R) + 1" and ?s = "snap(currentMemoryStateGeneration (obj R) + 1 := pmap (obj R))"
  from False c have p: "p = (obj R)\<lparr>currentMemoryStateGeneration := ?g, modifiedKeys := []\<rparr>"
    "req = MemoryToDiskRequest_new (pmap (obj R)) (modifiedKeys (obj R)) (preferencesObservers (obj R)) ?g"
    by (auto simp: commitToMemory_def Let_def)
  have "object_inv path d0 ?s ft (R\<lparr>obj := p, requests := requests R @ [req\<lparr>isSyncRequest := sync\<rparr>], committed := committed R @ [length (requests R)]\<rparr>)"
    using inv(2) p False by (auto simp: object_inv_def split: if_splits)
  moreover have "requests_inv ?s ft (R\<lparr>obj := p, requests := requests R @ [req\<lparr>isSyncRequest := sync\<rparr>], committed := committed R @ [length (requests R)]\<rparr>)"
    using inv(2) p by (intro requests_new [OF inv(1)]) (auto simp: object_inv_def MemoryToDiskRequest_new_def)
  ultimately show ?thesis by blast
qed

lemma schedule_inv:
  assumes inv: "requests_inv snap ft R" "object_inv path d0 snap ft R" and i: "i \<in> set (committed R)"
  shows "requests_inv snap ft (R\<lparr>committed := remove1 i (committed R), queue := queue R @ [WriteTask i]\<rparr>)
    \<and> object_inv path d0 snap ft (R\<lparr>committed := remove1 i (committed R), queue := queue R @ [WriteTask i]\<rparr>)"
proof
  have "on_its_way (R\<lparr>committed := remove1 i (committed R), queue := queue R @ [WriteTask i]\<rparr>) j \<longleftrightarrow> on_its_way R j" for j
    using i in_set_remove1 [of j i "committed R"] set_remove1_subset [of i "committed R"] by (cases "j = i") (auto simp: on_its_way_def)
  then show "requests_inv snap ft (R\<lparr>committed := remove1 i (committed R), queue := queue R @ [WriteTask i]\<rparr>)"
    by (intro requests_frame [OF inv(1)]) (simp_all add: fun_eq_iff)
  show "object_inv path d0 snap ft (R\<lparr>committed := remove1 i (committed R), queue := queue R @ [WriteTask i]\<rparr>)"
    using inv(2) by (auto simp: object_inv_def)
qed


lemma load_inv:
  assumes inv: "requests_inv snap ft R" "object_inv path d0 snap ft R" and ok: "paths_ok (PreferencesImpl_new path)"
    and d0: "\<And>m. content_map ft (surviving (PreferencesImpl_new path) d0) = Some m \<Longrightarrow> plain_map ft m"
    and q: "queue R = LoadTask # q" and l: "Load ft (obj R) (dsk R) = Some (p, d)"
  shows "requests_inv snap ft (R\<lparr>obj := p, dsk := d, queue := q\<rparr>) \<and> object_inv path d0 snap ft (R\<lparr>obj := p, dsk := d, queue := q\<rparr>)"
proof
  from inv(2) q have nl: "\<not> loaded (obj R)" by (auto simp: object_inv_def split: if_splits)
  with inv(2) q have o: "filePath (obj R) = path" "backupPath (obj R) = MakeBackupPath path" "dsk R = d0" "pmap (obj R) = []" "modifiedKeys (obj R) = []"
    "faults (dsk R) = all_work" "currentMemoryStateGeneration (obj R) = 0" "diskStateGeneration (obj R) = 0" "LoadTask \<notin> set q"
    by (auto simp: object_inv_def)
  have "paths_ok (obj R)" using ok o by (simp add: paths_ok_def PreferencesImpl_new_def)
  note L = load_works [OF this nl o(4,6) l]
  have "surviving (obj R) (dsk R) = surviving (PreferencesImpl_new path) d0" using o by (simp add: surviving_def PreferencesImpl_new_def)
  with L(1) d0 have pl: "plain_map ft (pmap p)" by simp
  have g: "currentMemoryStateGeneration p = 0" "diskStateGeneration p = 0" "filePath p = path" "backupPath p = MakeBackupPath path" "modifiedKeys p = []" "loaded p"
    by (subst L(2); use o in simp)+
  show "requests_inv snap ft (R\<lparr>obj := p, dsk := d, queue := q\<rparr>)"
    using g o q by (intro requests_frame [OF inv(1)]) (simp_all add: on_its_way_def fun_eq_iff)
  show "object_inv path d0 snap ft (R\<lparr>obj := p, dsk := d, queue := q\<rparr>)"
    using g o pl L(3) by (simp add: object_inv_def)
qed

text \<open>A request that has been handled without a fault leaves the queue.\<close>

lemma requests_done:
  assumes inv: "requests_inv snap ft R" and q: "queue R = WriteTask i # q"
    and p: "currentMemoryStateGeneration p = currentMemoryStateGeneration (obj R)" "diskStateGeneration (obj R) \<le> diskStateGeneration p"
      "diskStateGeneration p \<le> currentMemoryStateGeneration p"
    and s: "isSyncRequest (requests R ! i) \<Longrightarrow> memoryStateGeneration (requests R ! i) \<le> diskStateGeneration p"
    and c: "memoryStateGeneration (requests R ! i) = currentMemoryStateGeneration p \<Longrightarrow> diskStateGeneration p = currentMemoryStateGeneration p"
    and g: "diskStateGeneration p = diskStateGeneration (obj R) \<or> diskStateGeneration p = memoryStateGeneration (requests R ! i)"
  shows "requests_inv snap ft (R\<lparr>obj := p, dsk := d, queue := q, requests := (requests R)[i := SetDiskWriteResult b PE_OK (requests R ! i)]\<rparr>)"
    (is "requests_inv _ _ ?R")
proof -
  let ?r = "requests R ! i" and ?o = "obj R" and ?r' = "SetDiskWriteResult b PE_OK (requests R ! i)"
  have i: "i < length (requests R)" using inv q by (simp add: requests_inv_def on_its_way_def)
  have way: "on_its_way ?R j \<Longrightarrow> on_its_way R j" "on_its_way R j \<Longrightarrow> j \<noteq> i \<Longrightarrow> on_its_way ?R j" for j
    using q by (auto simp: on_its_way_def)
  have r': "memoryStateGeneration ?r' = memoryStateGeneration ?r" "writeToDiskMap ?r' = writeToDiskMap ?r" "isSyncRequest ?r' = isSyncRequest ?r"
    "writeToDiskResult ?r' = PE_OK" by (simp_all add: SetDiskWriteResult_def)
  have old: "0 \<le> memoryStateGeneration x \<and> memoryStateGeneration x \<le> currentMemoryStateGeneration ?o
       \<and> plain_map ft (writeToDiskMap x) \<and> (0 < memoryStateGeneration x \<longrightarrow> writeToDiskMap x = snap (memoryStateGeneration x))
       \<and> (handled x \<and> isSyncRequest x \<longrightarrow> writeToDiskResult x = PE_OK \<and> memoryStateGeneration x \<le> diskStateGeneration ?o)"
    if "x \<in> set (requests R)" for x using inv that by (simp add: requests_inv_def)
  show ?thesis unfolding requests_inv_def
  proof (intro conjI)
    show "\<forall>j. on_its_way ?R j \<longrightarrow> j < length (requests ?R)" using inv way(1) by (auto simp: requests_inv_def)
    show "\<forall>x \<in> set (requests ?R). 0 \<le> memoryStateGeneration x \<and> memoryStateGeneration x \<le> currentMemoryStateGeneration (obj ?R)
       \<and> plain_map ft (writeToDiskMap x) \<and> (0 < memoryStateGeneration x \<longrightarrow> writeToDiskMap x = snap (memoryStateGeneration x))
       \<and> (handled x \<and> isSyncRequest x \<longrightarrow> writeToDiskResult x = PE_OK \<and> memoryStateGeneration x \<le> diskStateGeneration (obj ?R))"
    proof
      fix x assume "x \<in> set (requests ?R)"
      then consider "x = ?r'" | "x \<in> set (requests R)" using set_update_subset_insert [of "requests R" i ?r'] by auto
      then show "0 \<le> memoryStateGeneration x \<and> memoryStateGeneration x \<le> currentMemoryStateGeneration (obj ?R)
       \<and> plain_map ft (writeToDiskMap x) \<and> (0 < memoryStateGeneration x \<longrightarrow> writeToDiskMap x = snap (memoryStateGeneration x))
       \<and> (handled x \<and> isSyncRequest x \<longrightarrow> writeToDiskResult x = PE_OK \<and> memoryStateGeneration x \<le> diskStateGeneration (obj ?R))"
      proof cases
        case 1
        with old [OF nth_mem [OF i]] p s r' show ?thesis by simp
      next
        case 2
        from old [OF 2] p show ?thesis by auto
      qed
    qed
    show "currentMemoryStateGeneration (obj ?R) \<noteq> diskStateGeneration (obj ?R) \<longrightarrow>
       (\<exists>j. on_its_way ?R j \<and> memoryStateGeneration (requests ?R ! j) = currentMemoryStateGeneration (obj ?R))"
    proof
      assume n: "currentMemoryStateGeneration (obj ?R) \<noteq> diskStateGeneration (obj ?R)"
      with p obtain j where j: "on_its_way R j" "memoryStateGeneration (requests R ! j) = currentMemoryStateGeneration ?o"
        using inv by (auto simp: requests_inv_def)
      with n c p(1) have "j \<noteq> i" by auto
      with way(2) [OF j(1)] j(2) p(1) show "\<exists>j. on_its_way ?R j \<and> memoryStateGeneration (requests ?R ! j) = currentMemoryStateGeneration (obj ?R)" by auto
    qed
    show "0 < diskStateGeneration (obj ?R) \<longrightarrow> (\<exists>x \<in> set (requests ?R). memoryStateGeneration x = diskStateGeneration (obj ?R))"
    proof
      assume n: "0 < diskStateGeneration (obj ?R)"
      have "\<exists>y \<in> set (requests R). memoryStateGeneration y = diskStateGeneration p"
        using g
      proof
        assume "diskStateGeneration p = diskStateGeneration ?o"
        with inv n show ?thesis by (simp add: requests_inv_def)
      next
        assume "diskStateGeneration p = memoryStateGeneration ?r"
        with nth_mem [OF i] show ?thesis by metis
      qed
      then obtain j where j: "j < length (requests R)" "memoryStateGeneration (requests R ! j) = diskStateGeneration p"
        by (auto simp: in_set_conv_nth)
      then have "memoryStateGeneration (requests ?R ! j) = diskStateGeneration p" using r'(1) by (cases "j = i") simp_all
      moreover have "requests ?R ! j \<in> set (requests ?R)" using j(1) by (intro nth_mem) simp
      ultimately show "\<exists>x \<in> set (requests ?R). memoryStateGeneration x = diskStateGeneration (obj ?R)" by auto
    qed
  qed
qed

lemma write_inv:
  assumes inv: "requests_inv snap ft R" "object_inv path d0 snap ft R" and ok: "paths_ok (PreferencesImpl_new path)"
    and q: "queue R = WriteTask i # q" and w: "Write ft (requests R ! i) (obj R) (dsk R) = (r, p, d)"
  shows "requests_inv snap ft (R\<lparr>obj := p, dsk := d, queue := q, requests := (requests R)[i := r]\<rparr>)
    \<and> object_inv path d0 snap ft (R\<lparr>obj := p, dsk := d, queue := q, requests := (requests R)[i := r]\<rparr>)"
proof -
  let ?r = "requests R ! i" and ?o = "obj R"
  have i: "i < length (requests R)" using inv(1) q by (simp add: requests_inv_def on_its_way_def)
  then have r: "0 \<le> memoryStateGeneration ?r" "memoryStateGeneration ?r \<le> currentMemoryStateGeneration ?o" "plain_map ft (writeToDiskMap ?r)"
    "0 < memoryStateGeneration ?r \<longrightarrow> writeToDiskMap ?r = snap (memoryStateGeneration ?r)" using inv(1) by (auto simp: requests_inv_def)
  from inv(2) q have l: "loaded ?o" by (auto simp: object_inv_def split: if_splits)
  with inv(2) q have o: "filePath ?o = path" "backupPath ?o = MakeBackupPath path" "faults (dsk R) = all_work" "0 \<le> diskStateGeneration ?o"
    "diskStateGeneration ?o \<le> currentMemoryStateGeneration ?o" "LoadTask \<notin> set q"
    "0 < diskStateGeneration ?o \<longrightarrow> files (dsk R) path = Some (Some (stored (doc_of ft (snap (diskStateGeneration ?o)))))"
    by (auto simp: object_inv_def)
  have "paths_ok ?o" using ok o by (simp add: paths_ok_def PreferencesImpl_new_def)
  note W = write_works [OF this r(3) o(3)]
  show ?thesis
  proof (cases "filePath ?o \<in> dom (files (dsk R)) \<and> \<not> CheckRequestValidForStateGeneration ?o ?r")
    case True
    with W w have e: "r = SetDiskWriteResult False PE_OK ?r" "p = ?o" "d = dsk R" by auto
    have nv: "diskStateGeneration ?o < memoryStateGeneration ?r \<Longrightarrow> \<not> isSyncRequest ?r \<and> currentMemoryStateGeneration ?o \<noteq> memoryStateGeneration ?r"
      using True by (auto simp: CheckRequestValidForStateGeneration_def split: if_splits)
    have "requests_inv snap ft (R\<lparr>obj := p, dsk := d, queue := q, requests := (requests R)[i := r]\<rparr>)"
      unfolding e(1) by (rule requests_done [OF inv(1) q]) (use e nv o r in force)+
    moreover have "object_inv path d0 snap ft (R\<lparr>obj := p, dsk := d, queue := q, requests := (requests R)[i := r]\<rparr>)"
      using inv(2) e q l by (simp add: object_inv_def)
    ultimately show ?thesis ..
  next
    case False
    with W w have e: "r = SetDiskWriteResult True PE_OK ?r" "p = ?o\<lparr>diskStateGeneration := memoryStateGeneration ?r\<rparr>"
      "files d = (files (dsk R))(backupPath ?o := None, filePath ?o \<mapsto> Some (stored (doc_of ft (writeToDiskMap ?r))))" "faults d = all_work" by auto
    have le: "diskStateGeneration ?o \<le> memoryStateGeneration ?r"
    proof (cases "filePath ?o \<in> dom (files (dsk R))")
      case True
      with False show ?thesis by (auto simp: CheckRequestValidForStateGeneration_def split: if_splits)
    next
      case no: False
      with o have "diskStateGeneration ?o = 0" by (cases "0 < diskStateGeneration ?o") auto
      with r show ?thesis by simp
    qed
    have "requests_inv snap ft (R\<lparr>obj := p, dsk := d, queue := q, requests := (requests R)[i := r]\<rparr>)"
      unfolding e(1) by (rule requests_done [OF inv(1) q]) (use e le r in simp_all)
    moreover have "object_inv path d0 snap ft (R\<lparr>obj := p, dsk := d, queue := q, requests := (requests R)[i := r]\<rparr>)"
      using inv(2) e q l r o by (simp add: object_inv_def)
    ultimately show ?thesis ..
  qed
qed


lemma run_inv:
  assumes ok: "paths_ok (PreferencesImpl_new path)" and f: "faults d0 = all_work"
    and d0: "\<And>m. content_map ft (surviving (PreferencesImpl_new path) d0) = Some m \<Longrightarrow> plain_map ft m"
  shows "(run_step ft (plain_call ft))\<^sup>*\<^sup>* (run_init path d0) R \<Longrightarrow> \<exists>snap. requests_inv snap ft R \<and> object_inv path d0 snap ft R"
proof (induction rule: rtranclp_induct)
  case base
  have "requests_inv snap ft (run_init path d0)" for snap by (simp add: requests_inv_def run_init_def PreferencesImpl_new_def on_its_way_def)
  moreover have "object_inv path d0 snap ft (run_init path d0)" for snap
    using f by (simp add: object_inv_def run_init_def PreferencesImpl_new_def plain_map_def)
  ultimately show ?case by blast
next
  case (step R R')
  then obtain snap where inv: "requests_inv snap ft R" "object_inv path d0 snap ft R" by blast
  from step(2) show ?case
  proof cases
    case (calls c e p)
    with call_inv [OF inv] show ?thesis by blast
  next
    case (commits req p sync)
    with commit_inv [OF inv] show ?thesis by blast
  next
    case (schedules i)
    with schedule_inv [OF inv] show ?thesis by blast
  next
    case (loads q p d)
    with load_inv [OF inv ok d0] show ?thesis by blast
  next
    case (writes i q r p d)
    with write_inv [OF inv ok] show ?thesis by blast
  qed
qed


subsection \<open>A concrete run\<close>

definition empty_disk :: disk where
  "empty_disk = \<lparr>files = Map.empty, clock = 0, faults = all_work\<rparr>"

lemma empty_disk_ok:
  "paths_ok (PreferencesImpl_new ''/p'')" "\<forall>m. content_map ft (surviving (PreferencesImpl_new ''/p'') empty_disk) = Some m \<longrightarrow> plain_map ft m"
  by (simp_all add: paths_ok_def path_ok_def PreferencesImpl_new_def MakeBackupPath_def c_str_def PATH_MAX_def surviving_def empty_disk_def
      content_map_def plain_map_def)



subsection \<open>Round trip through the file\<close>

lemma map_of_reload: "map_of (reload_map ft m) k = map_option (\<lambda>v. the (reload_value ft v)) (map_of m k)"
  by (induction m) (auto simp: reload_map_def)



subsection \<open>Where the code loses data\<close>




text \<open>A set with a member that is too long is not stored, and the call returns success.\<close>

lemma long_set_member_dropped:
  assumes "CheckKey k = PE_OK" and "s \<in> set vs" and "length s > MAX_VALUE_LENGTH"
  shows "Pref_PutStringSet k vs p = Some (PE_OK, p)"
  using assms by (auto simp: Pref_PutStringSet_def Let_def CheckStringValue_def)

text \<open>
  Deleting does not wait for the file to be loaded: a key that is deleted before is back after the load.
\<close>

lemma delete_before_load_lost:
  assumes "\<not> loaded p" and "pmap p = []" and "CheckKey k = PE_OK"
  shows "Pref_Delete k p = (PE_OK, p)"
  using assms by (simp add: Pref_Delete_def)




subsection \<open>Getters and setters\<close>

text \<open>
  What the getter and the setter of one type promise together: the setter of an accepted value stores it
  under the alternative of its type, the getter finds values of this alternative only.
\<close>

locale pref_accessor =
  fixes wrap :: "'a \<Rightarrow> PreferencesValue"
    and unwrap :: "PreferencesValue \<Rightarrow> 'a option"
    and accepts :: "'a \<Rightarrow> bool"
    and getv :: "string \<Rightarrow> 'a \<Rightarrow> PreferencesImpl \<Rightarrow> 'a option"
    and putv :: "string \<Rightarrow> 'a \<Rightarrow> PreferencesImpl \<Rightarrow> (pref_errno \<times> PreferencesImpl) option"
  assumes unwrap_wrap: "unwrap v = Some x \<longleftrightarrow> v = wrap x"
    and eq_wrap: "value_eq v (wrap x) \<Longrightarrow> \<exists>y. v = wrap y"
    and get_law: "CheckKey k = PE_OK \<Longrightarrow> getv k d p =
      AwaitLoadFile p (case map_of (pmap p) k of None \<Rightarrow> d | Some v \<Rightarrow> (case unwrap v of None \<Rightarrow> d | Some x \<Rightarrow> x))"
    and put_law: "accepts x \<Longrightarrow> putv k x p = put_checked k (wrap x) p"
begin

lemma put_stores:
  assumes "loaded p" "map_wf (pmap p)" "CheckKey k = PE_OK" "accepts x"
  obtains p' y where "putv k x p = Some (PE_OK, p')" "map_of (pmap p') = (map_of (pmap p))(k \<mapsto> wrap y)" "y = x \<or> value_eq (wrap y) (wrap x)"
    "loaded p'" "map_wf (pmap p')"
proof (cases "\<exists>v'. map_of (pmap p) k = Some v' \<and> value_eq v' (wrap x)")
  case True
  then obtain v' y where v: "map_of (pmap p) k = Some v'" "value_eq v' (wrap x)" "v' = wrap y" using eq_wrap by blast
  have "putv k x p = Some (PE_OK, p)" using assms True put_value [OF assms(1), of k "wrap x"] by (simp add: put_law put_checked_def)
  moreover have "map_of (pmap p) = (map_of (pmap p))(k \<mapsto> wrap y)" using v by auto
  ultimately show ?thesis using that v assms by blast
next
  case False
  let ?p = "p\<lparr>pmap := insert_or_assign k (wrap x) (pmap p), modifiedKeys := modifiedKeys p @ [k]\<rparr>"
  have "putv k x p = Some (PE_OK, ?p)"
    using assms(3,4) put_value [OF assms(1), of k "wrap x"] False by (simp add: put_law put_checked_def)
  with that [of ?p x] assms show ?thesis by (simp add: map_of_assign map_wf_assign)
qed

text \<open>The value that was put is read back, up to the equality of values; other keys are not touched.\<close>

lemma get_after_put:
  assumes "loaded p" "map_wf (pmap p)" "CheckKey k = PE_OK" "accepts x"
  shows "\<exists>p' y. putv k x p = Some (PE_OK, p') \<and> getv k d p' = Some y \<and> (y = x \<or> value_eq (wrap y) (wrap x))
    \<and> (\<forall>k'. k' \<noteq> k \<longrightarrow> map_of (pmap p') k' = map_of (pmap p) k')"
proof -
  obtain p' y where p: "putv k x p = Some (PE_OK, p')" "map_of (pmap p') = (map_of (pmap p))(k \<mapsto> wrap y)" "y = x \<or> value_eq (wrap y) (wrap x)" "loaded p'"
    using put_stores [OF assms] by blast
  have "unwrap (wrap y) = Some y" using unwrap_wrap by simp
  with p get_law [OF assms(3), of d p'] show ?thesis by (auto simp: AwaitLoadFile_def)
qed

lemma get_other_type:
  "loaded p \<Longrightarrow> CheckKey k = PE_OK \<Longrightarrow> map_of (pmap p) k = Some v \<Longrightarrow> unwrap v = None \<Longrightarrow> getv k d p = Some d"
  by (simp add: get_law AwaitLoadFile_def)

end

text \<open>A type whose values are equal only if they are the same.\<close>

locale exact_accessor = pref_accessor +
  assumes exact: "value_eq (wrap y) (wrap x) \<Longrightarrow> y = x"
begin

lemma get_exactly:
  assumes "loaded p" "map_wf (pmap p)" "CheckKey k = PE_OK" "accepts x"
  shows "\<exists>p'. putv k x p = Some (PE_OK, p') \<and> getv k d p' = Some x \<and> (\<forall>k'. k' \<noteq> k \<longrightarrow> map_of (pmap p') k' = map_of (pmap p) k')"
  using get_after_put [OF assms, of d] exact by blast

end

lemmas accessor_defs = to_int_def to_int64_def to_float_def to_double_def to_bool_def to_text_def to_set_def
  IsInt_def IsLong_def IsFloat_def IsDouble_def IsBool_def IsString_def IsSet_def

interpretation int_pref: exact_accessor PvInt to_int "\<lambda>_. True" Pref_GetInt Pref_PutInt
  by unfold_locales (auto simp: accessor_defs Pref_GetInt_def Pref_PutInt_def split: PreferencesValue.splits option.splits elim: value_eq.elims)

interpretation long_pref: exact_accessor PvLong to_int64 "\<lambda>_. True" Pref_GetLong Pref_PutLong
  by unfold_locales (auto simp: accessor_defs Pref_GetLong_def Pref_PutLong_def split: PreferencesValue.splits option.splits elim: value_eq.elims)

interpretation bool_pref: exact_accessor PvBool to_bool "\<lambda>_. True" Pref_GetBool Pref_PutBool
  by unfold_locales (auto simp: accessor_defs Pref_GetBool_def Pref_PutBool_def split: PreferencesValue.splits option.splits elim: value_eq.elims)

interpretation float_pref: pref_accessor PvFloat to_float "\<lambda>_. True" Pref_GetFloat Pref_PutFloat
  by unfold_locales (auto simp: accessor_defs Pref_GetFloat_def Pref_PutFloat_def split: PreferencesValue.splits option.splits elim: value_eq.elims)

interpretation double_pref: pref_accessor PvDouble to_double "\<lambda>_. True" Pref_GetDouble Pref_PutDouble
  by unfold_locales (auto simp: accessor_defs Pref_GetDouble_def Pref_PutDouble_def split: PreferencesValue.splits option.splits elim: value_eq.elims)

interpretation string_pref: exact_accessor PvString to_text "\<lambda>s. length s \<le> MAX_VALUE_LENGTH" Pref_GetString Pref_PutString
  by unfold_locales (auto simp: accessor_defs Pref_GetString_def Pref_PutString_def put_checked_def CheckStringValue_def
      split: PreferencesValue.splits option.splits elim: value_eq.elims)

interpretation set_pref: exact_accessor PvSet to_set "\<lambda>vs. \<forall>s \<in> set vs. length s \<le> MAX_VALUE_LENGTH" Pref_GetStringSet Pref_PutStringSet
  by unfold_locales (auto simp: accessor_defs Pref_GetStringSet_def Pref_PutStringSet_def put_checked_def CheckStringValue_def Let_def
      split: PreferencesValue.splits option.splits elim: value_eq.elims)

text \<open>
  On a loaded object a text of at most 8 KB that is put under a valid key is read back, and
  the getter of every other type answers its default; a text that is longer, and any value under an empty
  key or one of more than 80 bytes, is refused with the error of the check and changes nothing.
\<close>

theorem put_string_get:
  assumes "loaded p" and "map_wf (pmap p)"
  shows "if CheckKey k = PE_OK \<and> length s \<le> MAX_VALUE_LENGTH
    then \<exists>p'. Pref_PutString k s p = Some (PE_OK, p') \<and> Pref_GetString k d p' = Some s \<and> Pref_GetInt k di p' = Some di
      \<and> Pref_GetLong k dl p' = Some dl \<and> Pref_GetBool k db p' = Some db \<and> Pref_GetFloat k df p' = Some df
      \<and> Pref_GetDouble k dd p' = Some dd \<and> Pref_GetStringSet k ds p' = Some ds
    else \<exists>e. Pref_PutString k s p = Some (e, p) \<and> e \<noteq> PE_OK"
proof (cases "CheckKey k = PE_OK \<and> length s \<le> MAX_VALUE_LENGTH")
  case True
  then obtain p' where p: "Pref_PutString k s p = Some (PE_OK, p')" "map_of (pmap p') = (map_of (pmap p))(k \<mapsto> PvString s)" "loaded p'"
    using string_pref.put_stores [OF assms, of k s] string_pref.exact by metis
  then have m: "map_of (pmap p') k = Some (PvString s)" by simp
  have "to_int (PvString s) = None" "to_int64 (PvString s) = None" "to_bool (PvString s) = None" "to_float (PvString s) = None"
    "to_double (PvString s) = None" "to_set (PvString s) = None" by (simp_all add: accessor_defs)
  with True p m show ?thesis
    by (simp add: int_pref.get_other_type long_pref.get_other_type bool_pref.get_other_type float_pref.get_other_type
        double_pref.get_other_type set_pref.get_other_type string_pref.get_law AwaitLoadFile_def to_text_def)
next
  case False
  then show ?thesis by (auto simp: Pref_PutString_def CheckStringValue_def)
qed

theorem put_string_get_witness:
  "\<exists>p'. Pref_PutString ''k'' ''v'' ((PreferencesImpl_new ''/p'')\<lparr>loaded := True\<rparr>) = Some (PE_OK, p') \<and> Pref_GetString ''k'' ''d'' p' = Some ''v''"
proof -
  let ?p = "(PreferencesImpl_new ''/p'')\<lparr>loaded := True\<rparr>"
  have "loaded ?p" "map_wf (pmap ?p)" "CheckKey ''k'' = PE_OK" "length ''v'' \<le> MAX_VALUE_LENGTH"
    by (simp_all add: PreferencesImpl_new_def map_wf_def CheckKey_def MAX_KEY_LENGTH_def MAX_VALUE_LENGTH_def)
  with put_string_get [of ?p "''k''" "''v''" "''d''"] show ?thesis by (simp only: if_True simp_thms) blast
qed

end
