(* ===== verification/Preferences_Helper.thy ===== *)
theory Preferences_Helper
  imports Preferences_Run
begin

text \<open>
  The cache of preferences objects (preferences_helper.cpp).  Objects are shared pointers: the heap is the
  list of all objects ever made, a pointer is an index into it, and the cache maps real paths to pointers.
  Whether the task pool of a new object starts is decided by its thread limits, which are constants.

  The lemmas show that the cache has one object per real path, that different paths have different
  objects, and what deleting and removing from the cache do.
\<close>

record 'w helper_state =
  prefsCache :: "(string \<times> nat) list"
  objects :: "PreferencesImpl list"
  fsys :: 'w

definition GetRealPath :: "'w file_api \<Rightarrow> string \<Rightarrow> 'w \<Rightarrow> pref_errno \<times> string" where
  "GetRealPath F path w =
     (if path = [] then (PE_EMPTY_FILE_PATH, [])
      else if hd path \<noteq> CHR ''/'' then (PE_RELATIVE_PATH, [])
      else if length (c_str path) > PATH_MAX then (PE_PATH_EXCEED_MAX_LENGTH, [])
      else
        (case find_last_of (CHR ''/'') path of
           None \<Rightarrow> (PE_RELATIVE_PATH, [])
         | Some pos \<Rightarrow>
             (case realpath F (c_str (substr path 0 pos)) w of
                None \<Rightarrow> (PE_INVALID_FILE_PATH, [])
              | Some canonicalPath \<Rightarrow>
                  let fileName = substr path (pos + 1) (length path) in
                  if fileName = [] then (PE_EMPTY_FILE_NAME, [])
                  else (PE_OK, canonicalPath @ ''/'' @ fileName))))"

text \<open>The thread limits of a preferences object.\<close>

definition MAX_TP_THREADS :: int where
  "MAX_TP_THREADS = 10"

definition MIN_TP_THREADS :: int where
  "MIN_TP_THREADS = 1"

definition Init :: "PreferencesImpl \<Rightarrow> pref_errno \<times> PreferencesImpl" where
  "Init p =
     (let errCode = fst (Start (TaskPool_new MAX_TP_THREADS MIN_TP_THREADS :: pref_task TaskPool)) in
      if errCode \<noteq> PE_OK then (errCode, p) else (PE_OK, p\<lparr>loaded := False\<rparr>))"

definition GetPreferences :: "'w file_api \<Rightarrow> string \<Rightarrow> 'w helper_state \<Rightarrow> pref_errno \<times> nat option \<times> 'w helper_state" where
  "GetPreferences F path H =
     (case GetRealPath F path (fsys H) of
        (errCode, realPath) \<Rightarrow>
          if realPath = [] \<or> errCode \<noteq> PE_OK then (errCode, None, H)
          else
            (case map_of (prefsCache H) realPath of
               Some ob \<Rightarrow> (errCode, Some ob, H)
             | None \<Rightarrow>
                 (case Init (PreferencesImpl_new (c_str realPath)) of
                    (errCode, pref) \<Rightarrow>
                      if errCode \<noteq> PE_OK then (errCode, None, H)
                      else (errCode, Some (length (objects H)),
                        H\<lparr>prefsCache := map_insert realPath (length (objects H)) (prefsCache H), objects := objects H @ [pref]\<rparr>))))"

definition DeletePreferences :: "'w file_api \<Rightarrow> string \<Rightarrow> 'w helper_state \<Rightarrow> pref_errno \<times> 'w helper_state" where
  "DeletePreferences F path H =
     (case GetRealPath F path (fsys H) of
        (errCode, realPath) \<Rightarrow>
          if realPath = [] \<or> errCode \<noteq> PE_OK then (errCode, H)
          else
            let file = c_str realPath;
                w = snd (remove_file F file (fsys H));
                w = snd (remove_file F (MakeBackupPath file) w);
                w = snd (remove_file F (MakeBrokenPath file) w);
                H = H\<lparr>prefsCache := map_erase realPath (prefsCache H), fsys := w\<rparr> in
            if fopen_r F file w \<or> fopen_r F (MakeBackupPath file) w \<or> fopen_r F (MakeBrokenPath file) w
            then (PE_DELETE_FILE_FAIL, H) else (PE_OK, H))"

definition RemovePreferencesFromCache :: "'w file_api \<Rightarrow> string \<Rightarrow> 'w helper_state \<Rightarrow> pref_errno \<times> 'w helper_state" where
  "RemovePreferencesFromCache F path H =
     (case GetRealPath F path (fsys H) of
        (errCode, realPath) \<Rightarrow>
          if realPath = [] \<or> errCode \<noteq> PE_OK then (errCode, H)
          else
            (case map_of (prefsCache H) realPath of
               None \<Rightarrow> (PE_OK, H)
             | Some _ \<Rightarrow> (PE_OK, H\<lparr>prefsCache := map_erase realPath (prefsCache H)\<rparr>)))"

subsection \<open>One object per file\<close>

definition cache_inv :: "'w helper_state \<Rightarrow> bool" where
  "cache_inv H \<longleftrightarrow> map_wf (prefsCache H)
     \<and> (\<forall>path ob. map_of (prefsCache H) path = Some ob \<longrightarrow> ob < length (objects H) \<and> filePath (objects H ! ob) = c_str path)
     \<and> (\<forall>p q ob. map_of (prefsCache H) p = Some ob \<and> map_of (prefsCache H) q = Some ob \<longrightarrow> p = q)"

datatype helper_call = HGet string | HDelete string | HRemove string

fun helper_call_on :: "'w file_api \<Rightarrow> helper_call \<Rightarrow> 'w helper_state \<Rightarrow> 'w helper_state" where
  "helper_call_on F (HGet p) H = snd (snd (GetPreferences F p H))"
| "helper_call_on F (HDelete p) H = snd (DeletePreferences F p H)"
| "helper_call_on F (HRemove p) H = snd (RemovePreferencesFromCache F p H)"

lemma Init_new: "Init (PreferencesImpl_new path) = (PE_OK, PreferencesImpl_new path)"
  by (simp add: Init_def Start_def TaskPool_new_def MAX_TP_THREADS_def MIN_TP_THREADS_def PreferencesImpl_new_def)

lemma GetRealPath_ok: "GetRealPath F path w = (e, r) \<Longrightarrow> e = PE_OK \<longleftrightarrow> r \<noteq> []"
  by (auto simp: GetRealPath_def Let_def split: if_splits option.splits)

lemma get_cached: "GetRealPath F path (fsys H) = (PE_OK, r) \<Longrightarrow> map_of (prefsCache H) r = Some ob \<Longrightarrow> GetPreferences F path H = (PE_OK, Some ob, H)"
  using GetRealPath_ok [of F path "fsys H"] by (simp add: GetPreferences_def)

lemma get_new:
  assumes "GetRealPath F path (fsys H) = (PE_OK, r)" "map_of (prefsCache H) r = None"
  shows "GetPreferences F path H = (PE_OK, Some (length (objects H)),
    H\<lparr>prefsCache := map_insert r (length (objects H)) (prefsCache H), objects := objects H @ [PreferencesImpl_new (c_str r)]\<rparr>)"
  using assms GetRealPath_ok [of F path "fsys H"] by (simp add: GetPreferences_def Init_new)

lemma get_cache_inv:
  assumes "cache_inv H"
  shows "cache_inv (snd (snd (GetPreferences F path H)))"
proof -
  obtain e r where g: "GetRealPath F path (fsys H) = (e, r)" by (cases "GetRealPath F path (fsys H)")
  show ?thesis
  proof (cases "e = PE_OK")
    case False
    with assms g show ?thesis by (simp add: GetPreferences_def)
  next
    case True
    show ?thesis
    proof (cases "map_of (prefsCache H) r")
      case (Some ob)
      with True g get_cached assms show ?thesis by (metis snd_conv)
    next
      case None
      let ?n = "length (objects H)"
      have m: "map_of (map_insert r ?n (prefsCache H)) = (map_of (prefsCache H))(r \<mapsto> ?n)"
        using assms None by (simp add: cache_inv_def map_of_insert)
      have old: "ob < ?n" if "map_of (prefsCache H) p = Some ob" for p ob using assms that by (simp add: cache_inv_def)
      have "map_wf (map_insert r ?n (prefsCache H))" using assms by (simp add: cache_inv_def map_wf_insert)
      moreover have "\<forall>path ob. map_of (map_insert r ?n (prefsCache H)) path = Some ob \<longrightarrow>
          ob < Suc ?n \<and> filePath ((objects H @ [PreferencesImpl_new (c_str r)]) ! ob) = c_str path"
        using assms old unfolding m by (auto simp: cache_inv_def nth_append PreferencesImpl_new_def less_Suc_eq)
      moreover have "p = q" if "map_of (map_insert r ?n (prefsCache H)) p = Some ob" "map_of (map_insert r ?n (prefsCache H)) q = Some ob" for p q ob
        using that old [of p ?n] old [of q ?n] assms unfolding m by (auto simp: cache_inv_def split: if_splits)
      then have "\<forall>p q ob. map_of (map_insert r ?n (prefsCache H)) p = Some ob \<and> map_of (map_insert r ?n (prefsCache H)) q = Some ob \<longrightarrow> p = q" by blast
      ultimately have "cache_inv (H\<lparr>prefsCache := map_insert r ?n (prefsCache H), objects := objects H @ [PreferencesImpl_new (c_str r)]\<rparr>)"
        unfolding cache_inv_def by simp
      then show ?thesis using True g get_new [of F path H r] None by simp
    qed
  qed
qed

lemma erase_cache_inv:
  assumes "cache_inv H"
  shows "cache_inv (H\<lparr>prefsCache := map_erase r (prefsCache H), fsys := w\<rparr>)" "cache_inv (H\<lparr>prefsCache := map_erase r (prefsCache H)\<rparr>)"
  using assms by (auto simp: cache_inv_def map_wf_erase map_of_erase split: if_splits)

lemma helper_cache_inv: "cache_inv H \<Longrightarrow> cache_inv (helper_call_on F c H)"
proof (cases c)
  case (HGet p)
  assume "cache_inv H"
  with HGet get_cache_inv show ?thesis by simp
next
  case (HDelete p)
  assume "cache_inv H"
  with HDelete show ?thesis by (auto simp: DeletePreferences_def Let_def erase_cache_inv split: prod.splits)
next
  case (HRemove p)
  assume inv: "cache_inv H"
  from erase_cache_inv(2) [OF inv] inv HRemove show ?thesis
    by (auto simp: RemovePreferencesFromCache_def split: prod.splits option.splits)
qed

lemma helper_calls_cache_inv: "cache_inv H \<Longrightarrow> cache_inv (fold (helper_call_on F) cs H)"
  by (induction cs arbitrary: H) (auto intro: helper_cache_inv)

definition helper_init :: "'w \<Rightarrow> 'w helper_state" where
  "helper_init w = \<lparr>prefsCache = [], objects = [], fsys = w\<rparr>"

lemma helper_init_inv: "cache_inv (helper_init w)"
  by (simp add: helper_init_def cache_inv_def map_wf_def)

text \<open>
  C23 (invariant): whatever calls the threads of a process make, asking for a path returns an object for
  the file of its real path, asking again returns the same object, and two paths get the same object only
  if their real paths are equal.
\<close>

theorem one_object_per_path:
  fixes F :: "'w file_api"
  assumes "GetRealPath F p (fsys (fold (helper_call_on F) cs (helper_init w))) = (PE_OK, r)"
  shows "\<exists>ob H. GetPreferences F p (fold (helper_call_on F) cs (helper_init w)) = (PE_OK, Some ob, H)
    \<and> ob < length (objects H) \<and> filePath (objects H ! ob) = c_str r
    \<and> (\<forall>q. fst (snd (GetPreferences F q H)) = Some ob \<longleftrightarrow> GetRealPath F q (fsys H) = (PE_OK, r))"
proof -
  let ?H = "fold (helper_call_on F) cs (helper_init w)"
  have inv: "cache_inv ?H" using helper_calls_cache_inv [OF helper_init_inv] .
  obtain ob H where g: "GetPreferences F p ?H = (PE_OK, Some ob, H)" and o: "map_of (prefsCache H) r = Some ob"
  proof (cases "map_of (prefsCache ?H) r")
    case (Some ob)
    with get_cached [OF assms Some] that show ?thesis by blast
  next
    case None
    have "map_wf (prefsCache ?H)" using inv by (simp add: cache_inv_def)
    then have "map_of (map_insert r (length (objects ?H)) (prefsCache ?H)) r = Some (length (objects ?H))" using None by (simp add: map_of_insert)
    with that [OF get_new [OF assms None]] show ?thesis by simp
  qed
  have inv': "cache_inv H" using get_cache_inv [OF inv, of F p] g by simp
  then have obj: "ob < length (objects H)" "filePath (objects H ! ob) = c_str r" using o by (auto simp: cache_inv_def)
  have "fst (snd (GetPreferences F q H)) = Some ob \<longleftrightarrow> GetRealPath F q (fsys H) = (PE_OK, r)" for q
  proof -
    obtain e r' where g': "GetRealPath F q (fsys H) = (e, r')" by (cases "GetRealPath F q (fsys H)")
    show ?thesis
    proof (cases "e = PE_OK")
      case False
      with g' show ?thesis by (simp add: GetPreferences_def)
    next
      case True
      show ?thesis
      proof (cases "map_of (prefsCache H) r'")
        case None
        with get_new [of F q H r'] g' True obj(1) o show ?thesis by auto
      next
        case (Some ob')
        with get_cached [of F q H r' ob'] g' True have "GetPreferences F q H = (PE_OK, Some ob', H)" by simp
        moreover have "ob' = ob \<longleftrightarrow> r' = r" using inv' Some o by (auto simp: cache_inv_def)
        ultimately show ?thesis using g' True by simp
      qed
    qed
  qed
  with g obj show ?thesis by blast
qed

definition demo_fs :: disk where
  "demo_fs = \<lparr>files = [''/d'' \<mapsto> None], clock = 0, faults = all_work\<rparr>"

theorem one_object_per_path_witness:
  "\<exists>ob H. GetPreferences disk_file_api ''/d/x'' (fold (helper_call_on disk_file_api) [HGet ''/d/y''] (helper_init demo_fs)) = (PE_OK, Some ob, H)
    \<and> ob < length (objects H) \<and> filePath (objects H ! ob) = ''/d/x''"
proof -
  have r: "GetRealPath disk_file_api ''/d/x'' demo_fs = (PE_OK, ''/d/x'')" "GetRealPath disk_file_api ''/d/y'' demo_fs = (PE_OK, ''/d/y'')"
    by (simp_all add: GetRealPath_def c_str_def PATH_MAX_def find_last_of_def substr_def disk_file_api_def demo_fs_def)
  have f: "fsys (fold (helper_call_on disk_file_api) [HGet ''/d/y''] (helper_init demo_fs)) = demo_fs"
    using get_new [of disk_file_api "''/d/y''" "helper_init demo_fs" "''/d/y''"] r(2) by (simp add: helper_init_def)
  have "c_str ''/d/x'' = ''/d/x''" by (simp add: c_str_def)
  with one_object_per_path [of disk_file_api "''/d/x''" "[HGet ''/d/y'']" demo_fs "''/d/x''"] r f show ?thesis by auto
qed

text \<open>On a disk that works deleting removes the file and its backup, so the next start finds nothing.\<close>

lemma delete_clears:
  assumes "faults (fsys H) = all_work" and "GetRealPath disk_file_api path (fsys H) = (PE_OK, r)"
  shows "\<exists>H'. DeletePreferences disk_file_api path H = (PE_OK, H') \<and> map_of (prefsCache H') r = None
    \<and> surviving (PreferencesImpl_new (c_str r)) (fsys H') = None"
proof -
  let ?f = "c_str r"
  define w1 where "w1 = snd (remove_file disk_file_api ?f (fsys H))"
  define w2 where "w2 = snd (remove_file disk_file_api (MakeBackupPath ?f) w1)"
  define w3 where "w3 = snd (remove_file disk_file_api (MakeBrokenPath ?f) w2)"
  have w: "faults w1 = all_work" "faults w2 = all_work" using assms(1) remove_disk(2) by (simp_all add: w1_def w2_def)
  have f: "files w3 = (files (fsys H))(?f := None, MakeBackupPath ?f := None, MakeBrokenPath ?f := None)"
    using assms(1) w remove_disk(4) [of "fsys H" ?f] remove_disk(4) [of w1 "MakeBackupPath ?f"] remove_disk(4) [of w2 "MakeBrokenPath ?f"]
    by (simp add: w1_def w2_def w3_def)
  have o: "fopen_r disk_file_api q d \<longleftrightarrow> q \<in> dom (files d)" for q d by (simp add: disk_file_api_def)
  have "DeletePreferences disk_file_api path H = (PE_OK, H\<lparr>prefsCache := map_erase r (prefsCache H), fsys := w3\<rparr>)"
    using assms(2) GetRealPath_ok [OF assms(2)] f
    by (simp add: DeletePreferences_def Let_def w1_def [symmetric] w2_def [symmetric] w3_def [symmetric] o domIff)
  then show ?thesis using f by (simp add: map_of_erase surviving_def PreferencesImpl_new_def domIff MakeBrokenPath_def)
qed

end
