(* ===== verification/Kv_Cache.thy ===== *)
theory Kv_Cache
  imports Prelude "HOL-Library.Monad_Syntax"
begin

text \<open>
  What the two key-value stores in C share (kvstore_common.c): the checks of keys and values, and the cache,
  a doubly linked list of entries on the heap with a pointer to its first and its last entry.  The heap maps
  the addresses of allocated entries to their fields; a freed entry is not in it, and reading or writing
  through a null pointer or a freed entry is \<open>None\<close>.  A C string is a \<open>string\<close>, a pointer to one that may be null
  a \<open>string option\<close>.

  The lemmas show that the linked list represents a list of pairs of a key and a value, the most recently added
  first, that no operation follows a dangling pointer or leaks an entry, and what each operation does to the list.
\<close>

subsection \<open>Checks\<close>

definition MAX_KEY_LEN :: nat where
  "MAX_KEY_LEN = 32"

definition MAX_VALUE_LEN :: nat where
  "MAX_VALUE_LEN = 128"

text \<open>The codes of the header ohos_errno.h of the system.\<close>

definition EC_SUCCESS :: int where
  "EC_SUCCESS = 0"

definition EC_FAILURE :: int where
  "EC_FAILURE = - 1"

definition EC_INVALID :: int where
  "EC_INVALID = - 9"

definition strnlen :: "string \<Rightarrow> nat \<Rightarrow> nat" where
  "strnlen s n = min (length s) n"

definition c_islower :: "char \<Rightarrow> bool" where
  "c_islower c \<longleftrightarrow> 97 \<le> (of_char c :: nat) \<and> (of_char c :: nat) \<le> 122"

definition IsValidChar :: "char \<Rightarrow> bool" where
  "IsValidChar ch = (if c_islower ch \<or> is_digit ch \<or> ch = CHR ''_'' \<or> ch = CHR ''.'' then True else False)"

definition IsValidValue :: "string option \<Rightarrow> nat \<Rightarrow> bool" where
  "IsValidValue value len =
     (case value of
        None \<Rightarrow> False
      | Some v \<Rightarrow>
          let valueLen = strnlen v MAX_VALUE_LEN in
          if valueLen = 0 \<or> valueLen \<ge> MAX_VALUE_LEN \<or> valueLen \<ge> len then False else True)"

definition IsValidKey :: "string option \<Rightarrow> bool" where
  "IsValidKey key =
     (if \<not> IsValidValue key MAX_KEY_LEN then False
      else list_all IsValidChar (take (strnlen (the key) MAX_KEY_LEN) (the key)))"

subsection \<open>The cache\<close>

record KvItem =
  item_key :: string
  item_value :: string
  item_next :: "nat option"
  item_prev :: "nat option"

type_synonym kv_items = "nat \<rightharpoonup> KvItem"

record kv_cache =
  items :: kv_items
  g_itemHeader :: "nat option"
  g_itemTail :: "nat option"
  g_sum :: int

text \<open>
  The allocator and the secure copy of the C library are parameters, and so are the sizes of the cache and of a
  store, which the configuration of the system defines: \<open>malloc_item\<close> gives the address of a new entry or none,
  \<open>malloc_text n\<close> says whether \<open>n\<close> bytes can be allocated, \<open>strcpy_ok d k\<close> whether \<open>k\<close> bytes are copied into \<open>d\<close>.
\<close>

record kv_env =
  malloc_item :: "kv_items \<Rightarrow> nat option"
  malloc_text :: "nat \<Rightarrow> kv_items \<Rightarrow> bool"
  strcpy_ok :: "nat \<Rightarrow> nat \<Rightarrow> bool"
  MAX_CACHE_SIZE :: nat
  MAX_KV_SUM :: int

definition FreeItem :: "nat option \<Rightarrow> kv_cache \<Rightarrow> kv_cache option" where
  "FreeItem item c =
     (case item of
        None \<Rightarrow> Some c
      | Some a \<Rightarrow> do { it \<leftarrow> items c a; Some (c\<lparr>items := (items c)(a := None)\<rparr>) })"

definition set_next :: "nat option \<Rightarrow> nat option \<Rightarrow> kv_cache \<Rightarrow> kv_cache option" where
  "set_next p q c = do { a \<leftarrow> p; it \<leftarrow> items c a; Some (c\<lparr>items := (items c)(a \<mapsto> it\<lparr>item_next := q\<rparr>)\<rparr>) }"

definition set_prev :: "nat option \<Rightarrow> nat option \<Rightarrow> kv_cache \<Rightarrow> kv_cache option" where
  "set_prev p q c = do { a \<leftarrow> p; it \<leftarrow> items c a; Some (c\<lparr>items := (items c)(a \<mapsto> it\<lparr>item_prev := q\<rparr>)\<rparr>) }"

text \<open>The loop that \<open>DeleteKVCache\<close> and \<open>GetValueByCache\<close> share: \<open>Some None\<close> is reaching the end of the list.\<close>

partial_function (option) find_item :: "kv_items \<Rightarrow> string \<Rightarrow> nat \<Rightarrow> nat option option" where
  "find_item h key item =
     (case h item of
        None \<Rightarrow> None
      | Some it \<Rightarrow>
          if key \<noteq> item_key it then
            (case item_next it of None \<Rightarrow> Some None | Some n \<Rightarrow> find_item h key n)
          else Some (Some item))"

definition DeleteKVCache :: "string option \<Rightarrow> kv_cache \<Rightarrow> kv_cache option" where
  "DeleteKVCache key c =
     (if key = None \<or> g_itemHeader c = None then Some c
      else do {
        r \<leftarrow> find_item (items c) (the key) (the (g_itemHeader c));
        case r of
          None \<Rightarrow> Some c
        | Some item \<Rightarrow> do {
            it \<leftarrow> items c item;
            let c = c\<lparr>g_sum := g_sum c - 1\<rparr>;
            c \<leftarrow> (if g_sum c = 0 then Some (c\<lparr>g_itemHeader := None, g_itemTail := None\<rparr>)
                 else if Some item = g_itemHeader c then
                   set_prev (item_next it) None (c\<lparr>g_itemHeader := item_next it\<rparr>)
                 else if Some item = g_itemTail c then
                   set_next (item_prev it) None (c\<lparr>g_itemTail := item_prev it\<rparr>)
                 else do {
                   c \<leftarrow> set_next (item_prev it) (item_next it) c;
                   set_prev (item_next it) (item_prev it) c });
            FreeItem (Some item) c }})"

partial_function (option) trim_cache :: "nat \<Rightarrow> kv_cache \<Rightarrow> kv_cache option" where
  "trim_cache limit c =
     (if int limit < g_sum c then do {
        let needDel = g_itemTail c;
        a \<leftarrow> needDel;
        it \<leftarrow> items c a;
        c \<leftarrow> FreeItem needDel (c\<lparr>g_itemTail := item_prev it\<rparr>);
        c \<leftarrow> set_next (g_itemTail c) None c;
        trim_cache limit (c\<lparr>g_sum := g_sum c - 1\<rparr>) }
      else Some c)"

definition AddKVCache :: "kv_env \<Rightarrow> string option \<Rightarrow> string option \<Rightarrow> bool \<Rightarrow> kv_cache \<Rightarrow> kv_cache option" where
  "AddKVCache E key value isNew c =
     (if key = None \<or> value = None then Some c
      else
        let keyLen = strnlen (the key) MAX_KEY_LEN; valueLen = strnlen (the value) MAX_VALUE_LEN in
        if keyLen \<ge> MAX_KEY_LEN \<or> valueLen \<ge> MAX_VALUE_LEN then Some c
        else do {
          c \<leftarrow> (if isNew then DeleteKVCache key c else Some c);
          case malloc_item E (items c) of
            None \<Rightarrow> Some c
          | Some item \<Rightarrow>
              let c = c\<lparr>items := (items c)(item \<mapsto> \<lparr>item_key = [], item_value = [], item_next = None, item_prev = None\<rparr>)\<rparr> in
              if \<not> malloc_text E (keyLen + 1) (items c) \<or> \<not> malloc_text E (valueLen + 1) (items c) then FreeItem (Some item) c
              else if \<not> strcpy_ok E (keyLen + 1) (length (the key) + 1)
                    \<or> \<not> strcpy_ok E (valueLen + 1) (length (the value) + 1) then FreeItem (Some item) c
              else
                let c = c\<lparr>items := (items c)(item \<mapsto>
                  \<lparr>item_key = the key, item_value = the value, item_next = None, item_prev = None\<rparr>)\<rparr> in
                if g_itemHeader c = None then
                  Some (c\<lparr>g_itemHeader := Some item, g_itemTail := Some item, g_sum := g_sum c + 1\<rparr>)
                else do {
                  c \<leftarrow> set_next (Some item) (g_itemHeader c) c;
                  c \<leftarrow> set_prev (g_itemHeader c) (Some item) c;
                  trim_cache (MAX_CACHE_SIZE E) (c\<lparr>g_itemHeader := Some item, g_sum := g_sum c + 1\<rparr>) } })"

text \<open>The value is returned with the code; a null buffer is \<open>hasBuf = False\<close>.\<close>

definition GetValueByCache :: "kv_env \<Rightarrow> string option \<Rightarrow> bool \<Rightarrow> nat \<Rightarrow> kv_cache \<Rightarrow> (int \<times> string) option" where
  "GetValueByCache E key hasBuf maxLen c =
     (if key = None \<or> \<not> hasBuf \<or> g_itemHeader c = None then Some (EC_FAILURE, [])
      else do {
        r \<leftarrow> find_item (items c) (the key) (the (g_itemHeader c));
        case r of
          None \<Rightarrow> Some (EC_FAILURE, [])
        | Some item \<Rightarrow> do {
            it \<leftarrow> items c item;
            let valueLen = strnlen (item_value it) MAX_VALUE_LEN;
            if valueLen \<ge> MAX_VALUE_LEN then Some (EC_FAILURE, [])
            else if valueLen \<ge> maxLen \<or> \<not> strcpy_ok E maxLen (length (item_value it) + 1) then Some (EC_FAILURE, [])
            else Some (EC_SUCCESS, item_value it) }})"

partial_function (option) free_all :: "nat option \<Rightarrow> kv_cache \<Rightarrow> kv_cache option" where
  "free_all item c =
     (case item of
        None \<Rightarrow> Some c
      | Some a \<Rightarrow> do {
          it \<leftarrow> items c a;
          c \<leftarrow> FreeItem (Some a) c;
          free_all (item_next it) (c\<lparr>g_sum := g_sum c - 1\<rparr>) })"

definition ClearKVCacheInner :: "kv_cache \<Rightarrow> (int \<times> kv_cache) option" where
  "ClearKVCacheInner c =
     (if g_itemHeader c = None then Some (EC_SUCCESS, c)
      else do {
        c \<leftarrow> free_all (g_itemHeader c) c;
        let c = c\<lparr>g_itemHeader := None, g_itemTail := None\<rparr>;
        Some (if g_sum c \<noteq> 0 then EC_FAILURE else EC_SUCCESS, c) })"

definition kv_cache_init :: kv_cache where
  "kv_cache_init = \<lparr>items = Map.empty, g_itemHeader = None, g_itemTail = None, g_sum = 0\<rparr>"

subsection \<open>The list that the cache represents\<close>

type_synonym cache_entry = "nat \<times> string \<times> string"

text \<open>
  A segment of the doubly linked list: the entries in order, the pointer \<open>p\<close> to the entry before it and the
  pointer \<open>n\<close> to the entry after it.
\<close>

definition first_of :: "nat option \<Rightarrow> cache_entry list \<Rightarrow> nat option" where
  "first_of n xs = (case xs of [] \<Rightarrow> n | x # _ \<Rightarrow> Some (fst x))"

definition last_of :: "nat option \<Rightarrow> cache_entry list \<Rightarrow> nat option" where
  "last_of p xs = (if xs = [] then p else Some (fst (last xs)))"

fun dlseg :: "kv_items \<Rightarrow> nat option \<Rightarrow> cache_entry list \<Rightarrow> nat option \<Rightarrow> bool" where
  "dlseg h p [] n \<longleftrightarrow> True"
| "dlseg h p ((a, k, v) # xs) n \<longleftrightarrow>
     h a = Some \<lparr>item_key = k, item_value = v, item_next = first_of n xs, item_prev = p\<rparr> \<and> dlseg h (Some a) xs n"

definition cache_entries :: "kv_cache \<Rightarrow> cache_entry list \<Rightarrow> bool" where
  "cache_entries c xs \<longleftrightarrow>
     dlseg (items c) None xs None \<and> distinct (map fst xs) \<and> dom (items c) = set (map fst xs)
     \<and> g_itemHeader c = first_of None xs \<and> g_itemTail c = last_of None xs \<and> g_sum c = int (length xs)"

definition cache_holds :: "kv_cache \<Rightarrow> (string \<times> string) list \<Rightarrow> bool" where
  "cache_holds c kvs \<longleftrightarrow> (\<exists>xs. cache_entries c xs \<and> map snd xs = kvs)"

lemma first_of_simps [simp]:
  "first_of n [] = n" "first_of n (x # xs) = Some (fst x)" "first_of n (xs @ ys) = first_of (first_of n ys) xs"
  by (auto simp: first_of_def split: list.splits)

lemma last_of_simps [simp]:
  "last_of p [] = p" "last_of p (x # xs) = last_of (Some (fst x)) xs" "last_of p (xs @ ys) = last_of (last_of p xs) ys"
  by (auto simp: last_of_def)

lemma last_of_Some: "last_of (Some a) xs \<noteq> None"
  by (simp add: last_of_def)

lemma first_of_None_iff [simp]: "first_of None xs = None \<longleftrightarrow> xs = []"
  by (cases xs) auto

lemma dlseg_append [simp]:
  "dlseg h p (xs @ ys) n \<longleftrightarrow> dlseg h p xs (first_of n ys) \<and> dlseg h (last_of p xs) ys n"
  by (induction h p xs n rule: dlseg.induct) auto

lemma dlseg_frame [simp]: "a \<notin> fst ` set xs \<Longrightarrow> dlseg (h(a := z)) p xs n = dlseg h p xs n"
  by (induction h p xs n rule: dlseg.induct) auto

lemma dlseg_dom: "dlseg h p xs n \<Longrightarrow> fst ` set xs \<subseteq> dom h"
  by (induction h p xs n rule: dlseg.induct) auto

text \<open>Changing the outer pointers of a segment.\<close>

lemma dlseg_set_prev:
  assumes "dlseg h p ((a, k, v) # xs) n" and "distinct (map fst ((a, k, v) # xs))"
  shows "dlseg (h(a \<mapsto> the (h a)\<lparr>item_prev := q\<rparr>)) q ((a, k, v) # xs) n"
  using assms by auto

lemma dlseg_set_next:
  assumes "dlseg h p (xs @ [(a, k, v)]) n" and "distinct (map fst (xs @ [(a, k, v)]))"
  shows "dlseg (h(a \<mapsto> the (h a)\<lparr>item_next := q\<rparr>)) p (xs @ [(a, k, v)]) q"
  using assms by auto

subsection \<open>Operations on the list\<close>

fun del_key :: "string \<Rightarrow> (string \<times> string) list \<Rightarrow> (string \<times> string) list" where
  "del_key k [] = []"
| "del_key k ((k', v) # kvs) = (if k = k' then kvs else (k', v) # del_key k kvs)"

lemma length_del_key: "length (del_key k kvs) \<le> length kvs"
  by (induction k kvs rule: del_key.induct) auto

lemma find_item_dlseg:
  assumes "dlseg h p xs None" and "xs \<noteq> []"
  shows "find_item h key (fst (hd xs)) = Some (map_option fst (find (\<lambda>e. fst (snd e) = key) xs))"
  using assms
proof (induction xs arbitrary: p)
  case (Cons x xs)
  obtain a k v where x: "x = (a, k, v)" by (cases x)
  show ?case
  proof (cases xs)
    case Nil
    then show ?thesis using Cons.prems by (subst find_item.simps) (auto simp: x)
  next
    case (Cons y ys)
    then have "find_item h key (fst y) = Some (map_option fst (find (\<lambda>e. fst (snd e) = key) xs))"
      using Cons.IH [of "Some a"] Cons.prems by (simp add: x)
    then show ?thesis using Cons.prems \<open>xs = y # ys\<close> by (subst find_item.simps) (auto simp: x)
  qed
qed simp

lemma find_entry_cases:
  obtains (absent) "find (\<lambda>e. fst (snd e) = key) xs = None" "key \<notin> fst ` set (map snd xs)" "del_key key (map snd xs) = map snd xs"
  | (present) ys a v zs where "xs = ys @ (a, key, v) # zs" "find (\<lambda>e. fst (snd e) = key) xs = Some (a, key, v)"
      "key \<notin> fst ` set (map snd ys)" "del_key key (map snd xs) = map snd ys @ map snd zs" "map_of (map snd xs) key = Some v"
proof -
  have *: "(find (\<lambda>e. fst (snd e) = key) xs = None \<and> key \<notin> fst ` set (map snd xs) \<and> del_key key (map snd xs) = map snd xs)
    \<or> (\<exists>ys a v zs. xs = ys @ (a, key, v) # zs \<and> find (\<lambda>e. fst (snd e) = key) xs = Some (a, key, v)
      \<and> key \<notin> fst ` set (map snd ys) \<and> del_key key (map snd xs) = map snd ys @ map snd zs \<and> map_of (map snd xs) key = Some v)"
  proof (induction xs)
    case (Cons x xs)
    obtain a k v where x: "x = (a, k, v)" by (cases x)
    show ?case
    proof (cases "k = key")
      case True
      then show ?thesis by (intro disjI2 exI [of _ "[]"] exI [of _ a] exI [of _ v] exI [of _ xs]) (simp add: x)
    next
      case False
      from Cons.IH show ?thesis
      proof
        assume "\<exists>ys a v zs. xs = ys @ (a, key, v) # zs \<and> find (\<lambda>e. fst (snd e) = key) xs = Some (a, key, v)
          \<and> key \<notin> fst ` set (map snd ys) \<and> del_key key (map snd xs) = map snd ys @ map snd zs \<and> map_of (map snd xs) key = Some v"
        then obtain ys b w zs where "xs = ys @ (b, key, w) # zs" "find (\<lambda>e. fst (snd e) = key) xs = Some (b, key, w)"
          "key \<notin> fst ` set (map snd ys)" "del_key key (map snd xs) = map snd ys @ map snd zs" "map_of (map snd xs) key = Some w"
          by blast
        with False show ?thesis
          by (intro disjI2 exI [of _ "x # ys"] exI [of _ b] exI [of _ w] exI [of _ zs]) (auto simp: x)
      qed (use False in \<open>auto simp: x\<close>)
    qed
  qed simp
  then show thesis using absent present by blast
qed

lemma FreeItem_entry [simp]: "items c a = Some it \<Longrightarrow> FreeItem (Some a) c = Some (c\<lparr>items := (items c)(a := None)\<rparr>)"
  by (simp add: FreeItem_def)

lemma set_next_entry [simp]:
  "items c a = Some it \<Longrightarrow> set_next (Some a) q c = Some (c\<lparr>items := (items c)(a \<mapsto> it\<lparr>item_next := q\<rparr>)\<rparr>)"
  by (simp add: set_next_def)

lemma set_prev_entry [simp]:
  "items c a = Some it \<Longrightarrow> set_prev (Some a) q c = Some (c\<lparr>items := (items c)(a \<mapsto> it\<lparr>item_prev := q\<rparr>)\<rparr>)"
  by (simp add: set_prev_def)

lemma cache_entriesI:
  assumes "dlseg (items c) None xs None" and "distinct (map fst xs)" and "dom (items c) = fst ` set xs"
    and "g_itemHeader c = first_of None xs" and "g_itemTail c = last_of None xs" and "g_sum c = int (length xs)"
  shows "cache_entries c xs"
  using assms by (simp add: cache_entries_def)

text \<open>Unlinking an entry: it is the only one, the first, the last, or between two others.\<close>

lemma delete_entry:
  assumes c: "cache_entries c (ys @ (a, key, v) # zs)" and k: "find (\<lambda>e. fst (snd e) = key) (ys @ (a, key, v) # zs) = Some (a, key, v)"
  shows "\<exists>c'. DeleteKVCache (Some key) c = Some c' \<and> cache_entries c' (ys @ zs)"
proof -
  let ?xs = "ys @ (a, key, v) # zs"
  have seg: "dlseg (items c) None ?xs None" and dist: "distinct (map fst ?xs)" and dom: "dom (items c) = fst ` set ?xs"
    and hd: "g_itemHeader c = first_of None ?xs" and tl: "g_itemTail c = last_of None ?xs" and sum: "g_sum c = int (length ?xs)"
    using c by (simp_all add: cache_entries_def image_Un)
  have hdxs: "g_itemHeader c = Some (fst (hd ?xs))" using hd by (cases ys) auto
  have f: "find_item (items c) key (fst (hd ?xs)) = Some (Some a)" using find_item_dlseg [OF seg, of key] k by simp
  have a: "items c a = Some \<lparr>item_key = key, item_value = v, item_next = first_of None zs, item_prev = last_of None ys\<rparr>"
    using seg by simp
  show ?thesis
  proof (cases ys rule: rev_cases)
    case Nil
    show ?thesis
    proof (cases zs)
      case Nil' : Nil
      have "(items c)(a := None) = Map.empty" using dom Nil Nil' by (auto simp: fun_eq_iff)
      then show ?thesis using Nil Nil' hdxs f a dom sum
        by (auto simp: DeleteKVCache_def Let_def intro!: cache_entriesI)
    next
      case (Cons z zs')
      obtain b k' v' where z: "z = (b, k', v')" by (cases z)
      have b: "items c b = Some \<lparr>item_key = k', item_value = v', item_next = first_of None zs', item_prev = Some a\<rparr>"
        and ab: "a \<noteq> b" using seg dist Nil Cons z by auto
      define c' where "c' = c\<lparr>items := (items c)(b \<mapsto> the (items c b)\<lparr>item_prev := None\<rparr>, a := None),
        g_itemHeader := Some b, g_sum := g_sum c - 1\<rparr>"
      have "DeleteKVCache (Some key) c = Some c'" using Nil Cons z hdxs f a b ab sum
        by (simp add: DeleteKVCache_def Let_def c'_def)
      moreover have "cache_entries c' zs"
      proof (rule cache_entriesI)
        show "dom (items c') = fst ` set zs" unfolding c'_def using dom dist ab by (simp add: Nil Cons z insert_Diff_if)
      qed (use Nil Cons z ab b dist seg tl sum in \<open>simp_all add: c'_def\<close>)
      ultimately show ?thesis using Nil by simp
    qed
  next
    case (snoc ys' y)
    obtain b k' v' where y: "y = (b, k', v')" by (cases y)
    have b: "items c b = Some \<lparr>item_key = k', item_value = v', item_next = Some a, item_prev = last_of None ys'\<rparr>"
      and ab: "a \<noteq> b" using seg dist snoc y by auto
    have first: "first_of None ?xs = first_of (Some b) ys'" by (simp add: snoc y)
    have na: "first_of (Some b) ys' \<noteq> Some a" using dist ab by (cases ys') (auto simp: snoc y)
    have lenpos: "int (length ?xs) - 1 \<noteq> 0" by (simp add: snoc)
    show ?thesis
    proof (cases zs)
      case Nil
      define c' where "c' = c\<lparr>items := (items c)(b \<mapsto> the (items c b)\<lparr>item_next := None\<rparr>, a := None),
        g_itemTail := Some b, g_sum := g_sum c - 1\<rparr>"
      have "DeleteKVCache (Some key) c = Some c'" using Nil snoc y hdxs hd tl f a b ab sum na
        by (simp add: DeleteKVCache_def Let_def c'_def)
      moreover have "cache_entries c' ys"
      proof (rule cache_entriesI)
        show "dom (items c') = fst ` set ys" unfolding c'_def using dom dist ab by (simp add: Nil snoc y insert_Diff_if)
      qed (use Nil snoc y ab b dist seg hd sum in \<open>simp_all add: c'_def\<close>)
      ultimately show ?thesis using Nil by simp
    next
      case (Cons z zs')
      obtain d k'' v'' where z: "z = (d, k'', v'')" by (cases z)
      have d: "items c d = Some \<lparr>item_key = k'', item_value = v'', item_next = first_of None zs', item_prev = Some a\<rparr>"
        and ad: "a \<noteq> d" "b \<noteq> d" using seg dist Cons z snoc y by auto
      have nl: "last_of (Some d) zs' \<noteq> Some a" using dist ad Cons z by (auto simp: last_of_def)
      define c' where "c' = c\<lparr>items := (items c)(b \<mapsto> the (items c b)\<lparr>item_next := Some d\<rparr>,
        d \<mapsto> the (items c d)\<lparr>item_prev := Some b\<rparr>, a := None), g_sum := g_sum c - 1\<rparr>"
      have "DeleteKVCache (Some key) c = Some c'" using Cons z snoc y hdxs hd tl f a b d ab ad sum na nl
        by (simp add: DeleteKVCache_def Let_def c'_def)
      moreover have "cache_entries c' (ys @ zs)"
      proof (rule cache_entriesI)
        show "dom (items c') = fst ` set (ys @ zs)" unfolding c'_def using dom dist ab ad
          by (auto simp: Cons z snoc y)
      qed (use Cons z snoc y ab ad b d dist seg hd tl sum in \<open>simp_all add: c'_def\<close>)
      ultimately show ?thesis by simp
    qed
  qed
qed

lemma DeleteKVCache_holds:
  assumes "cache_holds c kvs"
  shows "\<exists>c'. DeleteKVCache (Some key) c = Some c' \<and> cache_holds c' (del_key key kvs)"
proof -
  obtain xs where c: "cache_entries c xs" and kvs: "map snd xs = kvs" using assms by (auto simp: cache_holds_def)
  show ?thesis
  proof (cases rule: find_entry_cases [of key xs])
    case absent
    have "DeleteKVCache (Some key) c = Some c"
    proof (cases xs)
      case Nil
      then show ?thesis using c by (simp add: DeleteKVCache_def cache_entries_def)
    next
      case (Cons x xs')
      then show ?thesis using c absent find_item_dlseg [of "items c" None xs key]
        by (simp add: DeleteKVCache_def cache_entries_def)
    qed
    then show ?thesis using assms absent kvs by simp
  next
    case (present ys a v zs)
    then obtain c' where "DeleteKVCache (Some key) c = Some c'" "cache_entries c' (ys @ zs)"
      using delete_entry [of c ys a key v zs] c by auto
    then show ?thesis using present kvs by (auto simp: cache_holds_def intro!: exI [of _ "ys @ zs"])
  qed
qed

lemma trim_cache_entries:
  assumes "cache_entries c xs" and "1 \<le> limit"
  shows "\<exists>c'. trim_cache limit c = Some c' \<and> cache_entries c' (take limit xs)"
  using assms(1)
proof (induction xs arbitrary: c rule: rev_induct)
  case (snoc x xs)
  note E = snoc.prems[unfolded cache_entries_def]
  show ?case
  proof (cases "length xs < limit")
    case True
    then have "trim_cache limit c = Some c" using E by (subst trim_cache.simps) simp
    then show ?thesis using True snoc.prems by simp
  next
    case False
    then obtain ys y where xs: "xs = ys @ [y]" using assms(2) by (cases xs rule: rev_cases) auto
    obtain a k v b k' v' where x: "x = (a, k, v)" and y: "y = (b, k', v')" by (cases x, cases y)
    have a: "items c a = Some \<lparr>item_key = k, item_value = v, item_next = None, item_prev = Some b\<rparr>"
      and b: "items c b = Some \<lparr>item_key = k', item_value = v', item_next = Some a, item_prev = last_of None ys\<rparr>"
      and ab: "a \<noteq> b" using E by (auto simp: x y xs)
    define c' where "c' = c\<lparr>g_itemTail := Some b,
      items := (items c)(a := None, b \<mapsto> the (items c b)\<lparr>item_next := None\<rparr>), g_sum := g_sum c - 1\<rparr>"
    have "trim_cache limit c = trim_cache limit c'" using E False ab a b
      by (subst trim_cache.simps) (simp add: x y xs c'_def)
    moreover have "cache_entries c' xs"
    proof (rule cache_entriesI)
      have "a \<notin> fst ` set ys" using E by (simp add: x y xs)
      then show "dom (items c') = fst ` set xs" using E ab unfolding c'_def by (auto simp: x y xs)
    qed (use E ab b in \<open>simp_all add: x y xs c'_def fun_upd_twist [of a b]\<close>)
    ultimately show ?thesis using snoc.IH [of c'] False by simp
  qed
next
  case Nil
  then have "trim_cache limit c = Some c" by (subst trim_cache.simps) (simp add: cache_entries_def)
  then show ?case using Nil by simp
qed

definition kv_env_ok :: "kv_env \<Rightarrow> bool" where
  "kv_env_ok E \<longleftrightarrow>
     1 \<le> MAX_CACHE_SIZE E \<and> (\<forall>h a. malloc_item E h = Some a \<longrightarrow> h a = None)
     \<and> (\<forall>d k. 0 < k \<and> k \<le> d \<and> d < 2 ^ 31 \<longrightarrow> strcpy_ok E d k)"

text \<open>There is memory for one entry more than the cache keeps.\<close>

definition memory_left :: "kv_env \<Rightarrow> bool" where
  "memory_left E \<longleftrightarrow>
     (\<forall>h. finite (dom h) \<and> card (dom h) \<le> MAX_CACHE_SIZE E \<longrightarrow> malloc_item E h \<noteq> None) \<and> (\<forall>n h. malloc_text E n h)"

lemma push_entry:
  assumes c: "cache_entries c xs" and new: "items c a = None"
    and h: "h = (items c)(a \<mapsto> \<lparr>item_key = k, item_value = v, item_next = None, item_prev = None\<rparr>)"
  shows "xs = [] \<Longrightarrow> cache_entries (c\<lparr>items := h, g_itemHeader := Some a, g_itemTail := Some a, g_sum := g_sum c + 1\<rparr>) [(a, k, v)]"
    and "xs \<noteq> [] \<Longrightarrow> \<exists>c1 c2. set_next (Some a) (g_itemHeader c) (c\<lparr>items := h\<rparr>) = Some c1
      \<and> set_prev (g_itemHeader c1) (Some a) c1 = Some c2
      \<and> cache_entries (c2\<lparr>g_itemHeader := Some a, g_sum := g_sum c2 + 1\<rparr>) ((a, k, v) # xs)"
proof -
  note E = c[unfolded cache_entries_def]
  have a: "a \<notin> fst ` set xs" using E new by auto
  show "cache_entries (c\<lparr>items := h, g_itemHeader := Some a, g_itemTail := Some a, g_sum := g_sum c + 1\<rparr>) [(a, k, v)]"
    if "xs = []" using that E by (simp add: cache_entries_def h)
  show "\<exists>c1 c2. set_next (Some a) (g_itemHeader c) (c\<lparr>items := h\<rparr>) = Some c1
      \<and> set_prev (g_itemHeader c1) (Some a) c1 = Some c2
      \<and> cache_entries (c2\<lparr>g_itemHeader := Some a, g_sum := g_sum c2 + 1\<rparr>) ((a, k, v) # xs)" if ne: "xs \<noteq> []"
  proof -
    obtain b k' v' ys where xs: "xs = (b, k', v') # ys" using ne by (cases xs) auto
    have b: "items c b = Some \<lparr>item_key = k', item_value = v', item_next = first_of None ys, item_prev = None\<rparr>"
      and ab: "a \<noteq> b" "a \<notin> fst ` set ys" "b \<notin> fst ` set ys" using E a by (auto simp: xs)
    define c1 where "c1 = c\<lparr>items := h(a \<mapsto> \<lparr>item_key = k, item_value = v, item_next = Some b, item_prev = None\<rparr>)\<rparr>"
    define c2 where "c2 = c1\<lparr>items := (items c1)(b \<mapsto> the (items c b)\<lparr>item_prev := Some a\<rparr>)\<rparr>"
    have 1: "set_next (Some a) (g_itemHeader c) (c\<lparr>items := h\<rparr>) = Some c1" using E by (simp add: h c1_def xs)
    have 2: "set_prev (g_itemHeader c1) (Some a) c1 = Some c2" using E ab b by (simp add: c1_def c2_def h xs)
    have "cache_entries (c2\<lparr>g_itemHeader := Some a, g_sum := g_sum c2 + 1\<rparr>) ((a, k, v) # xs)"
    proof (rule cache_entriesI)
      show "dom (items (c2\<lparr>g_itemHeader := Some a, g_sum := g_sum c2 + 1\<rparr>)) = fst ` set ((a, k, v) # xs)"
        using E by (auto simp: c1_def c2_def h xs)
    qed (use E ab b in \<open>simp_all add: c1_def c2_def h xs\<close>)
    with 1 2 show ?thesis by blast
  qed
qed

lemma cache_holds_fresh:
  "cache_holds c kvs \<Longrightarrow> items c a = None \<Longrightarrow> cache_holds (c\<lparr>items := (items c)(a := None)\<rparr>) kvs"
  by (simp add: fun_upd_idem)

lemma AddKVCache_holds:
  fixes isNew :: bool
  assumes c: "cache_holds c kvs" and E: "kv_env_ok E" and len: "length k < MAX_KEY_LEN" "length v < MAX_VALUE_LEN"
  defines "base \<equiv> (if isNew then del_key k kvs else kvs)"
  shows "\<exists>c'. AddKVCache E (Some k) (Some v) isNew c = Some c'
    \<and> (cache_holds c' (take (MAX_CACHE_SIZE E) ((k, v) # base)) \<or> \<not> (memory_left E \<and> length kvs \<le> MAX_CACHE_SIZE E) \<and> cache_holds c' base)"
proof -
  have max: "1 \<le> MAX_CACHE_SIZE E" and fresh: "malloc_item E h = Some a \<Longrightarrow> h a = None" for h a
    using E by (auto simp: kv_env_ok_def)
  have cpy: "strcpy_ok E (length k + 1) (length k + 1)" "strcpy_ok E (length v + 1) (length v + 1)"
    using E len by (auto simp: kv_env_ok_def MAX_KEY_LEN_def MAX_VALUE_LEN_def)
  obtain d where d: "(if isNew then DeleteKVCache (Some k) c else Some c) = Some d" and dh: "cache_holds d base"
    using DeleteKVCache_holds [OF c, of k] c by (cases isNew) (auto simp: base_def)
  obtain xs where xs: "cache_entries d xs" "map snd xs = base" using dh by (auto simp: cache_holds_def)
  have n: "strnlen k MAX_KEY_LEN = length k" "strnlen v MAX_VALUE_LEN = length v" using len by (auto simp: strnlen_def)
  note defs = AddKVCache_def n Let_def d
  show ?thesis
  proof (cases "malloc_item E (items d)")
    case None
    have "length base \<le> length kvs" by (simp add: base_def length_del_key)
    moreover have "card (dom (items d)) = length base" "finite (dom (items d))"
      using xs distinct_card [of "map fst xs"] by (auto simp: cache_entries_def)
    ultimately have "\<not> (memory_left E \<and> length kvs \<le> MAX_CACHE_SIZE E)" using None by (auto simp: memory_left_def)
    then show ?thesis using None len dh by (auto simp: defs)
  next
    case (Some a)
    note a = fresh [OF Some]
    define h where "h = (items d)(a \<mapsto> \<lparr>item_key = k, item_value = v, item_next = None, item_prev = None\<rparr>)"
    define h0 where "h0 = (items d)(a \<mapsto> \<lparr>item_key = [], item_value = [], item_next = None, item_prev = None\<rparr>)"
    show ?thesis
    proof (cases "malloc_text E (length k + 1) h0 \<and> malloc_text E (length v + 1) h0")
      case False
      then have "\<not> memory_left E" by (auto simp: memory_left_def)
      then show ?thesis using False Some len cache_holds_fresh [OF dh a] by (auto simp: defs h0_def)
    next
      case True
      note sim = len cpy Some True
      have hd: "g_itemHeader d = None \<longleftrightarrow> xs = []" using xs by (simp add: cache_entries_def)
      show ?thesis
      proof (cases "xs = []")
        case Nil: True
        have "AddKVCache E (Some k) (Some v) isNew c
          = Some (d\<lparr>items := h, g_itemHeader := Some a, g_itemTail := Some a, g_sum := g_sum d + 1\<rparr>)"
          using sim Nil hd by (simp add: defs h_def h0_def)
        moreover have "take (MAX_CACHE_SIZE E) [(k, v)] = [(k, v)]" using max by simp
        ultimately show ?thesis using push_entry(1) [OF xs(1) a h_def Nil] xs(2) Nil by (fastforce simp: cache_holds_def)
      next
        case ne: False
        obtain c1 c2 where c12: "set_next (Some a) (g_itemHeader d) (d\<lparr>items := h\<rparr>) = Some c1"
          "set_prev (g_itemHeader c1) (Some a) c1 = Some c2"
          and ent: "cache_entries (c2\<lparr>g_itemHeader := Some a, g_sum := g_sum c2 + 1\<rparr>) ((a, k, v) # xs)"
          using push_entry(2) [OF xs(1) a h_def ne] by blast
        obtain c3 where c3: "trim_cache (MAX_CACHE_SIZE E) (c2\<lparr>g_itemHeader := Some a, g_sum := g_sum c2 + 1\<rparr>) = Some c3"
          "cache_entries c3 (take (MAX_CACHE_SIZE E) ((a, k, v) # xs))" using trim_cache_entries [OF ent max] by blast
        have "AddKVCache E (Some k) (Some v) isNew c = Some c3"
          using sim ne hd c12 c3(1) by (auto simp: defs h_def h0_def)
        moreover have "map snd (take (MAX_CACHE_SIZE E) ((a, k, v) # xs)) = take (MAX_CACHE_SIZE E) ((k, v) # base)"
          using xs(2) by (simp add: take_map [symmetric])
        ultimately show ?thesis using c3(2) unfolding cache_holds_def by blast
      qed
    qed
  qed
qed

lemma AddKVCache_skips: "length k \<ge> MAX_KEY_LEN \<or> length v \<ge> MAX_VALUE_LEN \<Longrightarrow> AddKVCache E (Some k) (Some v) isNew c = Some c"
  by (auto simp: AddKVCache_def Let_def strnlen_def)

lemma GetValueByCache_holds:
  assumes "cache_holds c kvs" and "kv_env_ok E" and "maxLen < 2 ^ 31"
  shows "GetValueByCache E (Some k) True maxLen c =
    Some (case map_of kvs k of
            None \<Rightarrow> (EC_FAILURE, [])
          | Some v \<Rightarrow> if length v < MAX_VALUE_LEN \<and> length v < maxLen then (EC_SUCCESS, v) else (EC_FAILURE, []))"
proof -
  obtain xs where c: "cache_entries c xs" and kvs: "map snd xs = kvs" using assms(1) by (auto simp: cache_holds_def)
  have cpy: "length w < maxLen \<Longrightarrow> strcpy_ok E maxLen (length w + 1)" for w
    using assms(2,3) by (auto simp: kv_env_ok_def)
  show ?thesis
  proof (cases "xs = []")
    case True
    then show ?thesis using c kvs by (auto simp: GetValueByCache_def cache_entries_def)
  next
    case False
    have seg: "dlseg (items c) None xs None" and hd: "g_itemHeader c = Some (fst (hd xs))"
      using c False by (auto simp: cache_entries_def first_of_def split: list.splits)
    note f = find_item_dlseg [OF seg False, of k]
    show ?thesis
    proof (cases rule: find_entry_cases [of k xs])
      case absent
      then have "map_of kvs k = None" by (simp only: kvs map_of_eq_None_iff not_False_eq_True)
      then show ?thesis using f hd absent by (simp add: GetValueByCache_def)
    next
      case (present ys a v zs)
      then obtain it where "items c a = Some it" "item_value it = v" using seg by auto
      moreover have "find_item (items c) k (the (g_itemHeader c)) = Some (Some a)" using f hd present(2) by simp
      moreover have "map_of kvs k = Some v" using present(5) kvs by simp
      ultimately show ?thesis using hd cpy by (auto simp: GetValueByCache_def strnlen_def)
    qed
  qed
qed

lemma free_all_entries:
  assumes "dlseg (items c) p xs None" and "distinct (map fst xs)" and "g_sum c = int (length xs)"
  shows "\<exists>c'. free_all (first_of None xs) c = Some c' \<and> g_sum c' = 0
    \<and> items c' = (\<lambda>a. if a \<in> fst ` set xs then None else items c a)"
  using assms
proof (induction xs arbitrary: c p)
  case Nil
  then show ?case by (subst free_all.simps) (simp add: fun_eq_iff)
next
  case (Cons x xs)
  obtain a k v where x: "x = (a, k, v)" by (cases x)
  let ?c = "c\<lparr>items := (items c)(a := None), g_sum := g_sum c - 1\<rparr>"
  have "dlseg ((items c)(a := None)) (Some a) xs None" using Cons.prems by (simp add: x)
  then have "dlseg (items ?c) (Some a) xs None" by simp
  then have "\<exists>c'. free_all (first_of None xs) ?c = Some c' \<and> g_sum c' = 0
      \<and> items c' = (\<lambda>b. if b \<in> fst ` set xs then None else items ?c b)"
    by (rule Cons.IH) (use Cons.prems in \<open>simp_all add: x\<close>)
  moreover have "free_all (first_of None (x # xs)) c = free_all (first_of None xs) ?c"
    using Cons.prems by (subst free_all.simps) (simp add: x)
  ultimately show ?case by (auto simp: x fun_eq_iff)
qed

lemma ClearKVCacheInner_holds:
  assumes "cache_holds c kvs"
  shows "\<exists>c'. ClearKVCacheInner c = Some (EC_SUCCESS, c') \<and> cache_holds c' []"
proof -
  obtain xs where c: "cache_entries c xs" using assms by (auto simp: cache_holds_def)
  show ?thesis
  proof (cases "xs = []")
    case True
    then show ?thesis using c by (auto simp: ClearKVCacheInner_def cache_entries_def cache_holds_def)
  next
    case False
    obtain c' where c': "free_all (g_itemHeader c) c = Some c'" "g_sum c' = 0"
      "items c' = (\<lambda>a. if a \<in> fst ` set xs then None else items c a)"
      using free_all_entries [of c None xs] c by (auto simp: cache_entries_def)
    have "items c' = Map.empty" using c c'(3) by (auto simp: cache_entries_def fun_eq_iff)
    moreover have "g_itemHeader c \<noteq> None" using c False by (simp add: cache_entries_def)
    ultimately show ?thesis using c' by (auto simp: ClearKVCacheInner_def cache_holds_def cache_entries_def)
  qed
qed

lemma cache_holds_init [simp]: "cache_holds kv_cache_init []"
  by (simp add: cache_holds_def cache_entries_def kv_cache_init_def)

subsection \<open>A cache that agrees with a map\<close>

definition cache_agrees :: "(string \<times> string) list \<Rightarrow> (string \<rightharpoonup> string) \<Rightarrow> bool" where
  "cache_agrees kvs m \<longleftrightarrow> distinct (map fst kvs) \<and> (\<forall>k v. (k, v) \<in> set kvs \<longrightarrow> m k = Some v)"

lemma del_key_subset: "set (del_key k kvs) \<subseteq> set kvs"
  by (induction k kvs rule: del_key.induct) auto

lemma del_key_distinct:
  "distinct (map fst kvs) \<Longrightarrow> distinct (map fst (del_key k kvs)) \<and> k \<notin> fst ` set (del_key k kvs)"
proof (induction k kvs rule: del_key.induct)
  case (2 k k' v kvs)
  then show ?case using del_key_subset [of k kvs] by auto
qed simp

lemma cache_agrees_del: "cache_agrees kvs m \<Longrightarrow> cache_agrees (del_key k kvs) (m(k := None))"
  using del_key_distinct [of kvs k] del_key_subset [of k kvs] by (force simp: cache_agrees_def)

lemma cache_agrees_take: "cache_agrees kvs m \<Longrightarrow> cache_agrees (take n kvs) m"
  using set_take_subset [of n kvs] by (auto simp: cache_agrees_def distinct_take take_map [symmetric])

lemma cache_agrees_push: "cache_agrees kvs m \<Longrightarrow> k \<notin> fst ` set kvs \<Longrightarrow> cache_agrees ((k, v) # kvs) (m(k \<mapsto> v))"
  by (force simp: cache_agrees_def)

lemma cache_agrees_drop: "cache_agrees kvs (m(k := None)) \<Longrightarrow> k \<notin> fst ` set kvs \<Longrightarrow> cache_agrees kvs (m(k \<mapsto> v))"
  by (force simp: cache_agrees_def)

lemma cache_agrees_map_of: "cache_agrees kvs m \<Longrightarrow> map_of kvs k = Some v \<Longrightarrow> m k = Some v"
  by (auto simp: cache_agrees_def dest: map_of_SomeD)

text \<open>Adding an entry keeps the agreement, whether or not there is memory for it.\<close>

lemma add_new_agrees:
  assumes "cache_holds c kvs" and "cache_agrees kvs m" and "kv_env_ok E" and "length k < MAX_KEY_LEN" and "length v < MAX_VALUE_LEN"
  obtains c' kvs' where "AddKVCache E (Some k) (Some v) True c = Some c'" "cache_holds c' kvs'" "cache_agrees kvs' (m(k \<mapsto> v))"
proof -
  have d: "cache_agrees (del_key k kvs) (m(k := None))" "k \<notin> fst ` set (del_key k kvs)"
    using cache_agrees_del [OF assms(2)] del_key_distinct [of kvs k] assms(2) by (auto simp: cache_agrees_def)
  have 1: "cache_agrees (take (MAX_CACHE_SIZE E) ((k, v) # del_key k kvs)) (m(k \<mapsto> v))"
    using cache_agrees_take [OF cache_agrees_push [OF d, of v]] by simp
  have 2: "cache_agrees (del_key k kvs) (m(k \<mapsto> v))" by (rule cache_agrees_drop [OF d])
  show thesis using AddKVCache_holds [OF assms(1,3,4,5), of True] that 1 2 by force
qed

lemma add_read_agrees:
  assumes "cache_holds c kvs" and "cache_agrees kvs m" and "kv_env_ok E" and "length k < MAX_KEY_LEN" and "length v < MAX_VALUE_LEN"
    and "m k = Some v" and "map_of kvs k = None"
  obtains c' kvs' where "AddKVCache E (Some k) (Some v) False c = Some c'" "cache_holds c' kvs'" "cache_agrees kvs' m"
proof -
  have "k \<notin> fst ` set kvs" using assms(7) by (simp only: map_of_eq_None_iff not_False_eq_True)
  then have 1: "cache_agrees (take (MAX_CACHE_SIZE E) ((k, v) # kvs)) m"
    using cache_agrees_take [OF cache_agrees_push [OF assms(2), of k v]] assms(6) by (simp add: fun_upd_idem)
  show thesis using AddKVCache_holds [OF assms(1,3,4,5), of False] that 1 assms(2) by auto
qed

subsection \<open>Runs of the cache\<close>

datatype cache_op = CacheAdd string string bool | CacheDelete string | CacheClear

fun cache_run :: "kv_env \<Rightarrow> cache_op list \<Rightarrow> kv_cache \<Rightarrow> kv_cache option" where
  "cache_run E [] c = Some c"
| "cache_run E (CacheAdd k v isNew # ops) c = do { c \<leftarrow> AddKVCache E (Some k) (Some v) isNew c; cache_run E ops c }"
| "cache_run E (CacheDelete k # ops) c = do { c \<leftarrow> DeleteKVCache (Some k) c; cache_run E ops c }"
| "cache_run E (CacheClear # ops) c = do { (r, c) \<leftarrow> ClearKVCacheInner c; cache_run E ops c }"

text \<open>The same run on a list that keeps its first \<open>n\<close> entries.\<close>

fun recency_run :: "nat \<Rightarrow> cache_op list \<Rightarrow> (string \<times> string) list \<Rightarrow> (string \<times> string) list" where
  "recency_run n [] kvs = kvs"
| "recency_run n (CacheAdd k v isNew # ops) kvs =
     recency_run n ops
       (if MAX_KEY_LEN \<le> length k \<or> MAX_VALUE_LEN \<le> length v then kvs
        else take n ((k, v) # (if isNew then del_key k kvs else kvs)))"
| "recency_run n (CacheDelete k # ops) kvs = recency_run n ops (del_key k kvs)"
| "recency_run n (CacheClear # ops) kvs = recency_run n ops []"

text \<open>
  C24 (refinement): the doubly linked list of the cache is never broken.  Starting from the empty cache, any
  sequence of adding, deleting and clearing returns without reading or writing through a null or a freed pointer;
  the entries that are allocated are exactly those of the list, which are the most recently added pairs,
  at most \<open>MAX_CACHE_SIZE\<close> of them, in order, linked in both directions between the header and the tail.
\<close>

theorem cache_keeps_recent_entries:
  assumes "kv_env_ok E" and "memory_left E"
  shows "\<exists>c. cache_run E ops kv_cache_init = Some c \<and> cache_holds c (recency_run (MAX_CACHE_SIZE E) ops [])"
proof -
  have "\<exists>c'. cache_run E ops c = Some c' \<and> cache_holds c' (recency_run (MAX_CACHE_SIZE E) ops kvs)"
    if "cache_holds c kvs" "length kvs \<le> MAX_CACHE_SIZE E" for c kvs
    using that
  proof (induction ops arbitrary: c kvs)
    case (Cons x ops)
    show ?case
    proof (cases x)
      case (CacheAdd k v isNew)
      show ?thesis
      proof (cases "MAX_KEY_LEN \<le> length k \<or> MAX_VALUE_LEN \<le> length v")
        case True
        then show ?thesis using Cons CacheAdd AddKVCache_skips [of k v E isNew c] by auto
      next
        case False
        then obtain c1 where "AddKVCache E (Some k) (Some v) isNew c = Some c1"
          "cache_holds c1 (take (MAX_CACHE_SIZE E) ((k, v) # (if isNew then del_key k kvs else kvs)))"
          using AddKVCache_holds [OF Cons.prems(1) assms(1), of k v isNew] assms(2) Cons.prems(2) by auto
        then show ?thesis using Cons.IH [of c1] CacheAdd False by auto
      qed
    next
      case (CacheDelete k)
      then show ?thesis using DeleteKVCache_holds [OF Cons.prems(1), of k] Cons.IH [of _ "del_key k kvs"] length_del_key [of k kvs] Cons.prems(2)
        by fastforce
    next
      case CacheClear
      then show ?thesis using ClearKVCacheInner_holds [OF Cons.prems(1)] Cons.IH [of _ "[]"] by fastforce
    qed
  qed simp
  then show ?thesis by simp
qed

definition two_entries :: kv_env where
  "two_entries =
     \<lparr>malloc_item = (\<lambda>h. if h 0 = None then Some 0 else if h 1 = None then Some 1 else if h 2 = None then Some 2 else None),
      malloc_text = (\<lambda>n h. True), strcpy_ok = (\<lambda>d k. 0 < k \<and> k \<le> d), MAX_CACHE_SIZE = 2, MAX_KV_SUM = 2\<rparr>"

lemma two_entries_ok: "kv_env_ok two_entries" "memory_left two_entries"
proof -
  show "kv_env_ok two_entries" by (auto simp: kv_env_ok_def two_entries_def split: if_splits)
  have "malloc_item two_entries h \<noteq> None" if "finite (dom h)" "card (dom h) \<le> 2" for h
  proof
    assume "malloc_item two_entries h = None"
    then have "{0, 1, 2} \<subseteq> dom h" by (auto simp: two_entries_def split: if_splits)
    then have "card {0, 1, 2 :: nat} \<le> card (dom h)" by (rule card_mono [OF that(1)])
    then show False using that(2) by simp
  qed
  then show "memory_left two_entries" by (simp add: memory_left_def two_entries_def)
qed

theorem cache_keeps_recent_entries_witness:
  "kv_env_ok two_entries \<and> memory_left two_entries \<and>
   (\<exists>c. cache_run two_entries [CacheAdd ''a'' ''1'' True, CacheAdd ''b'' ''2'' True, CacheAdd ''c'' ''3'' True, CacheAdd ''b'' ''4'' True]
          kv_cache_init = Some c \<and> cache_holds c [(''b'', ''4''), (''c'', ''3'')])"
proof -
  let ?ops = "[CacheAdd ''a'' ''1'' True, CacheAdd ''b'' ''2'' True, CacheAdd ''c'' ''3'' True, CacheAdd ''b'' ''4'' True]"
  have "recency_run (MAX_CACHE_SIZE two_entries) ?ops [] = [(''b'', ''4''), (''c'', ''3'')]"
    by (simp add: two_entries_def MAX_KEY_LEN_def MAX_VALUE_LEN_def numeral_2_eq_2)
  then show ?thesis using cache_keeps_recent_entries [OF two_entries_ok, of ?ops] two_entries_ok by (simp del: cache_run.simps recency_run.simps)
qed

end
