(* ===== verification/Utils_File.thy ===== *)
theory Utils_File
  imports Prelude
begin

text \<open>
  What the key-value stores in C use of the system: the file functions of utils_file.h, the secure functions of
  the C library, \<open>malloc\<close> and \<open>atoi\<close>.  The file functions are a record of operations on a world \<open>'w\<close>; \<open>utils_ok\<close>
  states what their documentation promises on a device that works, as seen through a view of the world as
  named byte sequences and open descriptors.  \<open>ram_files\<close> is a device that keeps the promise.
\<close>

subsection \<open>The file functions\<close>

datatype open_flag = O_RDONLY_FS | O_RDWR_FS | O_CREAT_FS | O_TRUNC_FS

datatype whence = SEEK_SET_FS | SEEK_CUR_FS | SEEK_END_FS

text \<open>
  \<open>UtilsFileRead\<close> returns its code and the bytes it stored at the start of the buffer.  \<open>file_malloc\<close> says whether an
  allocation succeeds; \<open>secure_ok d k\<close> says whether a function of the secure C library that has to store \<open>k\<close> bytes
  in a destination of \<open>d\<close> bytes succeeds; \<open>stack_bytes\<close> is what follows an array on the stack, which \<open>atoi\<close> reads when the
  array is not terminated.
\<close>

record 'w utils_api =
  UtilsFileOpen :: "string \<Rightarrow> open_flag list \<Rightarrow> 'w \<Rightarrow> int \<times> 'w"
  UtilsFileClose :: "int \<Rightarrow> 'w \<Rightarrow> int \<times> 'w"
  UtilsFileRead :: "int \<Rightarrow> nat \<Rightarrow> 'w \<Rightarrow> (int \<times> string) \<times> 'w"
  UtilsFileWrite :: "int \<Rightarrow> string \<Rightarrow> 'w \<Rightarrow> int \<times> 'w"
  UtilsFileSeek :: "int \<Rightarrow> int \<Rightarrow> whence \<Rightarrow> 'w \<Rightarrow> int \<times> 'w"
  UtilsFileStat :: "string \<Rightarrow> 'w \<Rightarrow> (int \<times> nat) \<times> 'w"
  UtilsFileDelete :: "string \<Rightarrow> 'w \<Rightarrow> int \<times> 'w"
  UtilsFileCopy :: "string \<Rightarrow> string \<Rightarrow> 'w \<Rightarrow> int \<times> 'w"
  file_malloc :: "nat \<Rightarrow> 'w \<Rightarrow> bool"
  secure_ok :: "nat \<Rightarrow> nat \<Rightarrow> bool"
  stack_bytes :: string

subsection \<open>Bytes and C strings\<close>

abbreviation NUL :: char where
  "NUL \<equiv> CHR 0x00"

definition cstr :: "string \<Rightarrow> string" where
  "cstr b = takeWhile (\<lambda>c. c \<noteq> NUL) b"

definition put_bytes :: "nat \<Rightarrow> string \<Rightarrow> string \<Rightarrow> string" where
  "put_bytes pos bs b = take pos b @ bs @ drop (pos + length bs) b"

definition pad_to :: "nat \<Rightarrow> string \<Rightarrow> string" where
  "pad_to n s = s @ replicate (n - length s) NUL"

definition atoi :: "string \<Rightarrow> int" where
  "atoi b =
     (let s = dropWhile is_space b in
      case s of
        [] \<Rightarrow> 0
      | c # r \<Rightarrow>
          if c = CHR ''-'' then - int (digits_val (takeWhile is_digit r))
          else if c = CHR ''+'' then int (digits_val (takeWhile is_digit r))
          else int (digits_val (takeWhile is_digit s)))"

text \<open>\<open>sprintf_s\<close> into a zeroed array of \<open>d\<close> bytes.\<close>

definition sprintf_s :: "('w, 'e) utils_api_scheme \<Rightarrow> nat \<Rightarrow> string \<Rightarrow> string option" where
  "sprintf_s A d s = (if secure_ok A d (length s + 1) then Some (pad_to d s) else None)"

lemma length_put_bytes [simp]: "pos \<le> length b \<Longrightarrow> length (put_bytes pos bs b) = max (length b) (pos + length bs)"
  by (simp add: put_bytes_def)

lemma put_bytes_append [simp]: "put_bytes (length a) bs (a @ c) = a @ bs @ drop (length bs) c"
  by (simp add: put_bytes_def)

lemma put_bytes_end [simp]: "put_bytes (length a) bs a = a @ bs"
  using put_bytes_append [of a bs "[]"] by simp

lemma length_pad_to [simp]: "length s \<le> n \<Longrightarrow> length (pad_to n s) = n"
  by (simp add: pad_to_def)

lemma cstr_noNUL [simp]: "NUL \<notin> set s \<Longrightarrow> cstr s = s"
  by (auto simp: cstr_def takeWhile_eq_all_conv)

lemma cstr_terminated [simp]: "NUL \<notin> set s \<Longrightarrow> cstr (s @ NUL # t) = s"
  by (induction s) (auto simp: cstr_def)

lemma cstr_pad_to [simp]: "NUL \<notin> set s \<Longrightarrow> cstr (pad_to n s) = s"
  by (cases "n - length s") (simp_all add: pad_to_def)

lemma atoi_nat_str:
  assumes "t = [] \<or> \<not> is_digit (hd t)"
  shows "atoi (nat_str n @ t) = int n"
proof -
  have d: "dropWhile is_space (nat_str n @ t) = nat_str n @ t"
    using hd_nat_str_digit [of n] digit_not_special by (cases "nat_str n") auto
  have t: "takeWhile is_digit (nat_str n @ t) = nat_str n"
    using assms nat_str_digits [of n] by (cases t) (auto simp: takeWhile_append2)
  obtain c r where c: "nat_str n = c # r" by (cases "nat_str n") auto
  have "is_digit c" using hd_nat_str_digit [of n] c by simp
  then show ?thesis using d t c digit_not_special [of c] digits_val_nat_str [of n] by (simp add: atoi_def)
qed

lemma not_digit_NUL [simp]: "\<not> is_digit NUL"
  by (simp add: is_digit_def)

lemma nat_str_noNUL [simp]: "NUL \<notin> set (nat_str n)"
  using nat_str_digits [of n] by auto

lemma length_nat_str: "n < 10 ^ Suc k \<Longrightarrow> length (nat_str n) \<le> Suc k"
proof (induction k arbitrary: n)
  case (Suc k)
  then show ?case
  proof (cases "n < 10")
    case False
    have "n div 10 < 10 ^ Suc k" using Suc.prems by (simp add: div_less_iff_less_mult)
    then show ?thesis using Suc.IH [of "n div 10"] False by (subst nat_str.simps) simp
  qed (subst nat_str.simps, simp)
qed (subst nat_str.simps, simp)

subsection \<open>A device that works\<close>

record file_view =
  files :: "string \<rightharpoonup> string"
  fds :: "int \<rightharpoonup> string \<times> nat"

definition open_ok :: "('w, 'e) utils_api_scheme \<Rightarrow> ('w \<Rightarrow> file_view) \<Rightarrow> bool" where
  "open_ok A V \<longleftrightarrow> (\<forall>p fl w fd w'. UtilsFileOpen A p fl w = (fd, w') \<longrightarrow>
     (if p \<in> dom (files (V w)) \<or> O_CREAT_FS \<in> set fl
      then 0 \<le> fd \<and> fds (V w) fd = None
        \<and> V w' = (if p \<notin> dom (files (V w)) \<or> O_TRUNC_FS \<in> set fl
                  then (V w)\<lparr>files := (files (V w))(p \<mapsto> []), fds := (fds (V w))(fd \<mapsto> (p, 0))\<rparr>
                  else (V w)\<lparr>fds := (fds (V w))(fd \<mapsto> (p, 0))\<rparr>)
      else fd < 0 \<and> V w' = V w))"

definition close_ok :: "('w, 'e) utils_api_scheme \<Rightarrow> ('w \<Rightarrow> file_view) \<Rightarrow> bool" where
  "close_ok A V \<longleftrightarrow> (\<forall>fd w r w'. UtilsFileClose A fd w = (r, w') \<and> fd \<in> dom (fds (V w)) \<longrightarrow>
     r = 0 \<and> V w' = (V w)\<lparr>fds := (fds (V w))(fd := None)\<rparr>)"

definition read_ok :: "('w, 'e) utils_api_scheme \<Rightarrow> ('w \<Rightarrow> file_view) \<Rightarrow> bool" where
  "read_ok A V \<longleftrightarrow> (\<forall>fd n w r bs w' p pos b.
     UtilsFileRead A fd n w = ((r, bs), w') \<and> fds (V w) fd = Some (p, pos) \<and> files (V w) p = Some b \<longrightarrow>
     bs = take n (drop pos b) \<and> r = int (length bs)
     \<and> V w' = (V w)\<lparr>fds := (fds (V w))(fd \<mapsto> (p, pos + length bs))\<rparr>)"

definition write_ok :: "('w, 'e) utils_api_scheme \<Rightarrow> ('w \<Rightarrow> file_view) \<Rightarrow> bool" where
  "write_ok A V \<longleftrightarrow> (\<forall>fd bs w r w' p pos b.
     UtilsFileWrite A fd bs w = (r, w') \<and> fds (V w) fd = Some (p, pos) \<and> files (V w) p = Some b \<and> pos \<le> length b \<longrightarrow>
     r = int (length bs)
     \<and> V w' = (V w)\<lparr>files := (files (V w))(p \<mapsto> put_bytes pos bs b), fds := (fds (V w))(fd \<mapsto> (p, pos + length bs))\<rparr>)"

definition seek_target :: "whence \<Rightarrow> int \<Rightarrow> nat \<Rightarrow> nat \<Rightarrow> int" where
  "seek_target wh off pos len =
     (case wh of SEEK_SET_FS \<Rightarrow> off | SEEK_CUR_FS \<Rightarrow> int pos + off | SEEK_END_FS \<Rightarrow> int len + off)"

definition seek_ok :: "('w, 'e) utils_api_scheme \<Rightarrow> ('w \<Rightarrow> file_view) \<Rightarrow> bool" where
  "seek_ok A V \<longleftrightarrow> (\<forall>fd off wh w r w' p pos b t.
     UtilsFileSeek A fd off wh w = (r, w') \<and> fds (V w) fd = Some (p, pos) \<and> files (V w) p = Some b
     \<and> t = seek_target wh off pos (length b) \<and> 0 \<le> t \<and> t \<le> int (length b) \<longrightarrow>
     r = t \<and> V w' = (V w)\<lparr>fds := (fds (V w))(fd \<mapsto> (p, nat t))\<rparr>)"

definition stat_ok :: "('w, 'e) utils_api_scheme \<Rightarrow> ('w \<Rightarrow> file_view) \<Rightarrow> bool" where
  "stat_ok A V \<longleftrightarrow> (\<forall>p w r n w'. UtilsFileStat A p w = ((r, n), w') \<longrightarrow>
     V w' = V w \<and> (case files (V w) p of None \<Rightarrow> r < 0 | Some b \<Rightarrow> r = 0 \<and> n = length b))"

definition delete_ok :: "('w, 'e) utils_api_scheme \<Rightarrow> ('w \<Rightarrow> file_view) \<Rightarrow> bool" where
  "delete_ok A V \<longleftrightarrow> (\<forall>p w r w'. UtilsFileDelete A p w = (r, w') \<longrightarrow>
     (if p \<in> dom (files (V w)) then r = 0 \<and> V w' = (V w)\<lparr>files := (files (V w))(p := None)\<rparr> else r < 0 \<and> V w' = V w))"

definition copy_ok :: "('w, 'e) utils_api_scheme \<Rightarrow> ('w \<Rightarrow> file_view) \<Rightarrow> bool" where
  "copy_ok A V \<longleftrightarrow> (\<forall>p q w r w'. UtilsFileCopy A p q w = (r, w') \<longrightarrow>
     (if p \<in> dom (files (V w)) then r = 0 \<and> V w' = (V w)\<lparr>files := (files (V w))(q := files (V w) p)\<rparr> else r < 0 \<and> V w' = V w))"

definition clib_ok :: "('w, 'e) utils_api_scheme \<Rightarrow> bool" where
  "clib_ok A \<longleftrightarrow> (\<forall>d k. 0 < k \<and> k \<le> d \<and> d < 2 ^ 31 \<longrightarrow> secure_ok A d k) \<and> (\<forall>d k. d < k \<longrightarrow> \<not> secure_ok A d k)
     \<and> (\<forall>n w. file_malloc A n w)"

definition utils_ok :: "('w, 'e) utils_api_scheme \<Rightarrow> ('w \<Rightarrow> file_view) \<Rightarrow> bool" where
  "utils_ok A V \<longleftrightarrow> open_ok A V \<and> close_ok A V \<and> read_ok A V \<and> write_ok A V \<and> seek_ok A V \<and> stat_ok A V \<and> delete_ok A V
     \<and> copy_ok A V \<and> clib_ok A"

subsection \<open>A device in memory\<close>

text \<open>The device also keeps the list of its open descriptors, to find a free one.\<close>

record ram = file_view +
  fd_list :: "int list"

definition ram_view :: "ram \<Rightarrow> file_view" where
  "ram_view w = \<lparr>files = files w, fds = (\<lambda>fd. if fd \<in> set (fd_list w) then fds w fd else None)\<rparr>"

definition new_fd :: "int list \<Rightarrow> int" where
  "new_fd l = 1 + foldr max l 0"

definition ram_files :: "ram utils_api" where
  "ram_files =
     \<lparr>UtilsFileOpen = (\<lambda>p fl w.
        if files w p \<noteq> None \<or> O_CREAT_FS \<in> set fl then
          (new_fd (fd_list w),
           w\<lparr>files := (if files w p = None \<or> O_TRUNC_FS \<in> set fl then (files w)(p \<mapsto> []) else files w),
             fds := (fds w)(new_fd (fd_list w) \<mapsto> (p, 0)), fd_list := new_fd (fd_list w) # fd_list w\<rparr>)
        else (- 1, w)),
      UtilsFileClose = (\<lambda>fd w. if fd \<in> set (fd_list w) then (0, w\<lparr>fd_list := removeAll fd (fd_list w)\<rparr>) else (- 1, w)),
      UtilsFileRead = (\<lambda>fd n w.
        case fds w fd of
          None \<Rightarrow> ((- 1, []), w)
        | Some (p, pos) \<Rightarrow>
            (case files w p of
               None \<Rightarrow> ((- 1, []), w)
             | Some b \<Rightarrow>
                 let bs = take n (drop pos b) in ((int (length bs), bs), w\<lparr>fds := (fds w)(fd \<mapsto> (p, pos + length bs))\<rparr>))),
      UtilsFileWrite = (\<lambda>fd bs w.
        case fds w fd of
          None \<Rightarrow> (- 1, w)
        | Some (p, pos) \<Rightarrow>
            (case files w p of
               None \<Rightarrow> (- 1, w)
             | Some b \<Rightarrow>
                 (int (length bs), w\<lparr>files := (files w)(p \<mapsto> put_bytes pos bs b), fds := (fds w)(fd \<mapsto> (p, pos + length bs))\<rparr>))),
      UtilsFileSeek = (\<lambda>fd off wh w.
        case fds w fd of
          None \<Rightarrow> (- 1, w)
        | Some (p, pos) \<Rightarrow>
            (case files w p of
               None \<Rightarrow> (- 1, w)
             | Some b \<Rightarrow>
                 let t = seek_target wh off pos (length b) in
                 if 0 \<le> t \<and> t \<le> int (length b) then (t, w\<lparr>fds := (fds w)(fd \<mapsto> (p, nat t))\<rparr>) else (- 1, w))),
      UtilsFileStat = (\<lambda>p w. (case files w p of None \<Rightarrow> (- 1, 0) | Some b \<Rightarrow> (0, length b), w)),
      UtilsFileDelete = (\<lambda>p w. if files w p = None then (- 1, w) else (0, w\<lparr>files := (files w)(p := None)\<rparr>)),
      UtilsFileCopy = (\<lambda>p q w. if files w p = None then (- 1, w) else (0, w\<lparr>files := (files w)(q := files w p)\<rparr>)),
      file_malloc = (\<lambda>n w. True),
      secure_ok = (\<lambda>d k. 0 < k \<and> k \<le> d),
      stack_bytes = []\<rparr>"

definition ram_empty :: ram where
  "ram_empty = \<lparr>files = Map.empty, fds = Map.empty, fd_list = []\<rparr>"

lemma new_fd_fresh: "new_fd l \<notin> set l" and new_fd_pos: "0 < new_fd l"
proof -
  have "x \<le> foldr max l 0" if "x \<in> set l" for x :: int
    using that by (induction l) (auto simp: le_max_iff_disj)
  moreover have "0 \<le> foldr max l (0 :: int)" by (induction l) auto
  ultimately show "new_fd l \<notin> set l" "0 < new_fd l" by (fastforce simp: new_fd_def)+
qed

lemma utils_ok_ram: "utils_ok ram_files ram_view"
proof -
  note d = ram_files_def ram_view_def
  have "open_ok ram_files ram_view" unfolding open_ok_def
    using new_fd_fresh new_fd_pos [THEN less_imp_le] by (auto simp: d fun_eq_iff split: if_splits)
  moreover have "close_ok ram_files ram_view" by (auto simp: close_ok_def d fun_eq_iff split: if_splits)
  moreover have "read_ok ram_files ram_view" by (auto simp: read_ok_def d fun_eq_iff Let_def split: if_splits)
  moreover have "write_ok ram_files ram_view" by (auto simp: write_ok_def d fun_eq_iff split: if_splits)
  moreover have "seek_ok ram_files ram_view" by (auto simp: seek_ok_def d fun_eq_iff Let_def split: if_splits)
  moreover have "stat_ok ram_files ram_view" by (auto simp: stat_ok_def d split: option.splits)
  moreover have "delete_ok ram_files ram_view" by (auto simp: delete_ok_def d split: if_splits)
  moreover have "copy_ok ram_files ram_view" by (auto simp: copy_ok_def d split: if_splits)
  moreover have "clib_ok ram_files" by (auto simp: clib_ok_def d)
  ultimately show ?thesis by (simp add: utils_ok_def)
qed

subsection \<open>Steps on a device that works\<close>

lemma open_existing:
  assumes "utils_ok A V" and "files (V w) p = Some b" and "O_TRUNC_FS \<notin> set fl"
  obtains fd w' where "UtilsFileOpen A p fl w = (fd, w')" "0 \<le> fd" "fds (V w) fd = None"
    "V w' = (V w)\<lparr>fds := (fds (V w))(fd \<mapsto> (p, 0))\<rparr>"
proof -
  obtain fd w' where o: "UtilsFileOpen A p fl w = (fd, w')" by (metis surj_pair)
  have "open_ok A V" using assms(1) by (simp add: utils_ok_def)
  note this [unfolded open_ok_def, rule_format, OF o]
  then show thesis using assms(2-) o that by (simp add: domIff)
qed

lemma open_fresh:
  assumes "utils_ok A V" and "O_CREAT_FS \<in> set fl" and "files (V w) p = None \<or> O_TRUNC_FS \<in> set fl"
  obtains fd w' where "UtilsFileOpen A p fl w = (fd, w')" "0 \<le> fd" "fds (V w) fd = None"
    "V w' = (V w)\<lparr>files := (files (V w))(p \<mapsto> []), fds := (fds (V w))(fd \<mapsto> (p, 0))\<rparr>"
proof -
  obtain fd w' where o: "UtilsFileOpen A p fl w = (fd, w')" by (metis surj_pair)
  have "open_ok A V" using assms(1) by (simp add: utils_ok_def)
  note this [unfolded open_ok_def, rule_format, OF o]
  then show thesis using assms(2-) o that by (simp add: domIff)
qed

lemma open_missing:
  assumes "utils_ok A V" and "files (V w) p = None" and "O_CREAT_FS \<notin> set fl"
  obtains fd w' where "UtilsFileOpen A p fl w = (fd, w')" "fd < 0" "V w' = V w"
proof -
  obtain fd w' where o: "UtilsFileOpen A p fl w = (fd, w')" by (metis surj_pair)
  have "open_ok A V" using assms(1) by (simp add: utils_ok_def)
  note this [unfolded open_ok_def, rule_format, OF o]
  then show thesis using assms(2-) o that by (simp add: domIff)
qed

lemma close_open:
  assumes "utils_ok A V" and "fds (V w) fd = Some x"
  obtains w' where "UtilsFileClose A fd w = (0, w')" "V w' = (V w)\<lparr>fds := (fds (V w))(fd := None)\<rparr>"
proof -
  obtain r w' where o: "UtilsFileClose A fd w = (r, w')" by (metis surj_pair)
  have "close_ok A V" using assms(1) by (simp add: utils_ok_def)
  note this [unfolded close_ok_def, rule_format, OF conjI [OF o domI [of "fds (V w)", OF assms(2)]]]
  then show thesis using assms(2-) o that by (simp add: domIff)
qed

lemma read_open:
  assumes "utils_ok A V" and "fds (V w) fd = Some (p, pos)" and "files (V w) p = Some b"
  obtains w' where "UtilsFileRead A fd n w = ((int (length (take n (drop pos b))), take n (drop pos b)), w')"
    "V w' = (V w)\<lparr>fds := (fds (V w))(fd \<mapsto> (p, pos + length (take n (drop pos b))))\<rparr>"
proof -
  obtain r bs w' where o: "UtilsFileRead A fd n w = ((r, bs), w')" by (metis surj_pair)
  have "read_ok A V" using assms(1) by (simp add: utils_ok_def)
  note this [unfolded read_ok_def, rule_format, OF conjI [OF o conjI [OF assms(2,3)]]]
  then show thesis using assms(2-) o that by (simp add: domIff)
qed

lemma write_open:
  assumes "utils_ok A V" and "fds (V w) fd = Some (p, pos)" and "files (V w) p = Some b" and "pos \<le> length b"
  obtains w' where "UtilsFileWrite A fd bs w = (int (length bs), w')"
    "V w' = (V w)\<lparr>files := (files (V w))(p \<mapsto> put_bytes pos bs b), fds := (fds (V w))(fd \<mapsto> (p, pos + length bs))\<rparr>"
proof -
  obtain r w' where o: "UtilsFileWrite A fd bs w = (r, w')" by (metis surj_pair)
  have "write_ok A V" using assms(1) by (simp add: utils_ok_def)
  note this [unfolded write_ok_def, rule_format, OF conjI [OF o conjI [OF assms(2) conjI [OF assms(3,4)]]]]
  then show thesis using assms(2-) o that by (simp add: domIff)
qed

lemma seek_open:
  assumes "utils_ok A V" and "fds (V w) fd = Some (p, pos)" and "files (V w) p = Some b"
    and "t = seek_target wh off pos (length b)" and "0 \<le> t" and "t \<le> int (length b)"
  obtains w' where "UtilsFileSeek A fd off wh w = (t, w')" "V w' = (V w)\<lparr>fds := (fds (V w))(fd \<mapsto> (p, nat t))\<rparr>"
proof -
  obtain r w' where o: "UtilsFileSeek A fd off wh w = (r, w')" by (metis surj_pair)
  have "seek_ok A V" using assms(1) by (simp add: utils_ok_def)
  note this [unfolded seek_ok_def, rule_format, OF conjI [OF o conjI [OF assms(2) conjI [OF assms(3) conjI [OF assms(4) conjI [OF assms(5,6)]]]]]]
  then show thesis using assms(2-) o that by (simp add: domIff)
qed

lemma stat_existing:
  assumes "utils_ok A V" and "files (V w) p = Some b"
  obtains w' where "UtilsFileStat A p w = ((0, length b), w')" "V w' = V w"
proof -
  obtain r n w' where o: "UtilsFileStat A p w = ((r, n), w')" by (metis surj_pair)
  have "stat_ok A V" using assms(1) by (simp add: utils_ok_def)
  note this [unfolded stat_ok_def, rule_format, OF o]
  then show thesis using assms(2-) o that by (simp add: domIff)
qed

lemma stat_missing:
  assumes "utils_ok A V" and "files (V w) p = None"
  obtains r n w' where "UtilsFileStat A p w = ((r, n), w')" "r < 0" "V w' = V w"
proof -
  obtain r n w' where o: "UtilsFileStat A p w = ((r, n), w')" by (metis surj_pair)
  have "stat_ok A V" using assms(1) by (simp add: utils_ok_def)
  note this [unfolded stat_ok_def, rule_format, OF o]
  then show thesis using assms(2-) o that by (simp add: domIff)
qed

lemma delete_existing:
  assumes "utils_ok A V" and "files (V w) p = Some b"
  obtains w' where "UtilsFileDelete A p w = (0, w')" "V w' = (V w)\<lparr>files := (files (V w))(p := None)\<rparr>"
proof -
  obtain r w' where o: "UtilsFileDelete A p w = (r, w')" by (metis surj_pair)
  have "delete_ok A V" using assms(1) by (simp add: utils_ok_def)
  note this [unfolded delete_ok_def, rule_format, OF o]
  then show thesis using assms(2-) o that by (simp add: domIff)
qed

lemma delete_missing:
  assumes "utils_ok A V" and "files (V w) p = None"
  obtains r w' where "UtilsFileDelete A p w = (r, w')" "r < 0" "V w' = V w"
proof -
  obtain r w' where o: "UtilsFileDelete A p w = (r, w')" by (metis surj_pair)
  have "delete_ok A V" using assms(1) by (simp add: utils_ok_def)
  note this [unfolded delete_ok_def, rule_format, OF o]
  then show thesis using assms(2-) o that by (simp add: domIff)
qed

lemma copy_existing:
  assumes "utils_ok A V" and "files (V w) p = Some b"
  obtains w' where "UtilsFileCopy A p q w = (0, w')" "V w' = (V w)\<lparr>files := (files (V w))(q \<mapsto> b)\<rparr>"
proof -
  obtain r w' where o: "UtilsFileCopy A p q w = (r, w')" by (metis surj_pair)
  have "copy_ok A V" using assms(1) by (simp add: utils_ok_def)
  note this [unfolded copy_ok_def, rule_format, OF o]
  then show thesis using assms(2-) o that by (simp add: domIff)
qed

lemma utils_malloc [simp]: "utils_ok A V \<Longrightarrow> file_malloc A n w"
  by (simp add: utils_ok_def clib_ok_def)

lemma utils_secure [simp]: "utils_ok A V \<Longrightarrow> d < 2 ^ 31 \<Longrightarrow> 0 < k \<Longrightarrow> secure_ok A d k \<longleftrightarrow> k \<le> d"
  by (metis clib_ok_def utils_ok_def not_less)

lemma fds_restore [simp]: "t fd = None \<Longrightarrow> t(fd := None) = t"
  by (simp add: fun_upd_idem)

text \<open>Opening a file, reading or replacing its content, and closing it.\<close>

lemma replace_file:
  assumes A: "utils_ok A V" and fl: "O_CREAT_FS \<in> set fl" "files (V w) p = None \<or> O_TRUNC_FS \<in> set fl"
  obtains fd w1 w2 w3 where "UtilsFileOpen A p fl w = (fd, w1)" "0 \<le> fd" "UtilsFileWrite A fd bs w1 = (int (length bs), w2)"
    "UtilsFileClose A fd w2 = (0, w3)" "V w3 = (V w)\<lparr>files := (files (V w))(p \<mapsto> bs)\<rparr>"
proof -
  obtain fd w1 where 1: "UtilsFileOpen A p fl w = (fd, w1)" "0 \<le> fd" "fds (V w) fd = None"
    "V w1 = (V w)\<lparr>files := (files (V w))(p \<mapsto> []), fds := (fds (V w))(fd \<mapsto> (p, 0))\<rparr>" by (rule open_fresh [OF A fl])
  obtain w2 where 2: "UtilsFileWrite A fd bs w1 = (int (length bs), w2)"
    "V w2 = (V w)\<lparr>files := (files (V w))(p \<mapsto> bs), fds := (fds (V w))(fd \<mapsto> (p, length bs))\<rparr>"
    by (rule write_open [OF A, of w1 fd p 0 "[]" bs]) (use 1 in \<open>simp_all add: put_bytes_def\<close>)
  obtain w3 where 3: "UtilsFileClose A fd w2 = (0, w3)" "V w3 = (V w2)\<lparr>fds := (fds (V w2))(fd := None)\<rparr>"
    by (rule close_open [OF A, of w2 fd "(p, length bs)"]) (use 2 in simp_all)
  show thesis by (rule that [OF 1(1,2) 2(1) 3(1)]) (use 1 2 3 in \<open>simp add: fun_upd_idem\<close>)
qed

lemma overwrite_file:
  assumes A: "utils_ok A V" and fl: "O_TRUNC_FS \<notin> set fl" "files (V w) p = Some b"
  obtains fd w1 w2 w3 where "UtilsFileOpen A p fl w = (fd, w1)" "0 \<le> fd" "UtilsFileWrite A fd bs w1 = (int (length bs), w2)"
    "UtilsFileClose A fd w2 = (0, w3)" "V w3 = (V w)\<lparr>files := (files (V w))(p \<mapsto> put_bytes 0 bs b)\<rparr>"
proof -
  obtain fd w1 where 1: "UtilsFileOpen A p fl w = (fd, w1)" "0 \<le> fd" "fds (V w) fd = None"
    "V w1 = (V w)\<lparr>fds := (fds (V w))(fd \<mapsto> (p, 0))\<rparr>" by (rule open_existing [OF A fl(2,1)])
  obtain w2 where 2: "UtilsFileWrite A fd bs w1 = (int (length bs), w2)"
    "V w2 = (V w)\<lparr>files := (files (V w))(p \<mapsto> put_bytes 0 bs b), fds := (fds (V w))(fd \<mapsto> (p, length bs))\<rparr>"
    by (rule write_open [OF A, of w1 fd p 0 b bs]) (use 1 fl in simp_all)
  obtain w3 where 3: "UtilsFileClose A fd w2 = (0, w3)" "V w3 = (V w2)\<lparr>fds := (fds (V w2))(fd := None)\<rparr>"
    by (rule close_open [OF A, of w2 fd "(p, length bs)"]) (use 2 in simp_all)
  show thesis by (rule that [OF 1(1,2) 2(1) 3(1)]) (use 1 2 3 in \<open>simp add: fun_upd_idem\<close>)
qed

lemma read_file:
  assumes A: "utils_ok A V" and fl: "O_TRUNC_FS \<notin> set fl" "files (V w) p = Some b"
  obtains fd w1 w2 w3 where "UtilsFileOpen A p fl w = (fd, w1)" "0 \<le> fd"
    "UtilsFileRead A fd n w1 = ((int (length (take n b)), take n b), w2)"
    "UtilsFileClose A fd w2 = (0, w3)" "V w3 = V w"
proof -
  obtain fd w1 where 1: "UtilsFileOpen A p fl w = (fd, w1)" "0 \<le> fd" "fds (V w) fd = None"
    "V w1 = (V w)\<lparr>fds := (fds (V w))(fd \<mapsto> (p, 0))\<rparr>" by (rule open_existing [OF A fl(2,1)])
  obtain w2 where 2: "UtilsFileRead A fd n w1 = ((int (length (take n b)), take n b), w2)"
    "V w2 = (V w1)\<lparr>fds := (fds (V w))(fd \<mapsto> (p, length (take n b)))\<rparr>"
    by (rule read_open [OF A, of w1 fd p 0 b n]) (use 1 fl in simp_all)
  obtain w3 where 3: "UtilsFileClose A fd w2 = (0, w3)" "V w3 = (V w2)\<lparr>fds := (fds (V w2))(fd := None)\<rparr>"
    by (rule close_open [OF A, of w2 fd "(p, length (take n b))"]) (use 2 in simp_all)
  show thesis by (rule that [OF 1(1,2) 2(1) 3(1)]) (use 1 2 3 in \<open>simp add: fun_upd_idem\<close>)
qed

lemma probe_file:
  assumes A: "utils_ok A V" and fl: "O_TRUNC_FS \<notin> set fl" "files (V w) p = Some b"
  obtains fd w1 w2 where "UtilsFileOpen A p fl w = (fd, w1)" "0 \<le> fd" "UtilsFileClose A fd w1 = (0, w2)" "V w2 = V w"
proof -
  obtain fd w1 where 1: "UtilsFileOpen A p fl w = (fd, w1)" "0 \<le> fd" "fds (V w) fd = None"
    "V w1 = (V w)\<lparr>fds := (fds (V w))(fd \<mapsto> (p, 0))\<rparr>" by (rule open_existing [OF A fl(2,1)])
  obtain w2 where 2: "UtilsFileClose A fd w1 = (0, w2)" "V w2 = (V w1)\<lparr>fds := (fds (V w1))(fd := None)\<rparr>"
    by (rule close_open [OF A, of w1 fd "(p, 0)"]) (use 1 in simp_all)
  show thesis by (rule that [OF 1(1,2) 2(1)]) (use 1 2 in \<open>simp add: fun_upd_idem\<close>)
qed

end
