(* ===== verification/Kv_Store.thy ===== *)
theory Kv_Store
  imports Kv_Cache Utils_File
begin

text \<open>
  The key-value store of the small systems (kvstore_impl_hal/kv_store.c): a file per key, a file with the number of
  keys, and the cache in front of them.  The buffer for a value is its bytes before the call, or \<open>None\<close> for a null
  pointer, and a call returns the bytes after it.  An operation is \<open>None\<close> when the cache follows a dangling pointer,
  which the lemmas exclude.

  The locale \<open>kv_contract\<close> states what a key-value store promises: it behaves as a map from keys to values of
  bounded size.  The store is an interpretation of it.
\<close>

definition MAX_GET_VALUE_LEN :: nat where
  "MAX_GET_VALUE_LEN = 0x7FFFFFFF"

definition KV_SUM_FILE :: string where
  "KV_SUM_FILE = ''KV_FILE_SUM''"

definition KV_SUM_INDEX :: nat where
  "KV_SUM_INDEX = 4"

definition Hal_GetValueByFile :: "'w utils_api \<Rightarrow> string \<Rightarrow> string \<Rightarrow> nat \<Rightarrow> 'w \<Rightarrow> (int \<times> string) \<times> 'w" where
  "Hal_GetValueByFile A key value len w =
     (case UtilsFileStat A key w of ((r, valueLen), w) \<Rightarrow>
        if r \<noteq> EC_SUCCESS then ((EC_FAILURE, value), w)
        else if valueLen \<ge> len then ((EC_FAILURE, value), w)
        else (case UtilsFileOpen A key [O_RDONLY_FS] w of (fd, w) \<Rightarrow>
          if fd < 0 then ((EC_FAILURE, value), w)
          else (case UtilsFileRead A fd valueLen w of ((ret, bs), w) \<Rightarrow>
            let w = snd (UtilsFileClose A fd w); value = put_bytes 0 bs value in
            if ret < 0 then ((EC_FAILURE, value), w)
            else ((int valueLen, put_bytes valueLen [NUL] value), w))))"

definition Hal_SetValueToFile :: "'w utils_api \<Rightarrow> string \<Rightarrow> string \<Rightarrow> 'w \<Rightarrow> int \<times> 'w" where
  "Hal_SetValueToFile A key value w =
     (case UtilsFileOpen A key [O_RDWR_FS, O_CREAT_FS, O_TRUNC_FS] w of (fd, w) \<Rightarrow>
        if fd < 0 then (EC_FAILURE, w)
        else (case UtilsFileWrite A fd value w of (ret, w) \<Rightarrow>
          let w = snd (UtilsFileClose A fd w) in
          (if ret < 0 then EC_FAILURE else EC_SUCCESS, w)))"

definition Hal_GetCurrentItem :: "'w utils_api \<Rightarrow> 'w \<Rightarrow> int \<times> 'w" where
  "Hal_GetCurrentItem A w =
     (case UtilsFileOpen A KV_SUM_FILE [O_RDWR_FS] w of (fd, w) \<Rightarrow>
        if fd < 0 then (0, w)
        else (case UtilsFileRead A fd KV_SUM_INDEX w of ((ret, bs), w) \<Rightarrow>
          let w = snd (UtilsFileClose A fd w) in
          (if ret < 0 then 0 else atoi (put_bytes 0 bs (replicate KV_SUM_INDEX NUL) @ stack_bytes A), w)))"

definition Hal_SetCurrentItem :: "'w utils_api \<Rightarrow> int \<Rightarrow> 'w \<Rightarrow> int \<times> 'w" where
  "Hal_SetCurrentItem A num w =
     (case sprintf_s A KV_SUM_INDEX (to_string num) of
        None \<Rightarrow> (EC_FAILURE, w)
      | Some value \<Rightarrow>
          (case UtilsFileOpen A KV_SUM_FILE [O_RDWR_FS, O_CREAT_FS] w of (fd, w) \<Rightarrow>
             if fd < 0 then (EC_FAILURE, w)
             else (case UtilsFileWrite A fd value w of (ret, w) \<Rightarrow>
               let w = snd (UtilsFileClose A fd w) in
               (if ret < 0 then EC_FAILURE else EC_SUCCESS, w))))"

definition Hal_NewItem :: "'w utils_api \<Rightarrow> string \<Rightarrow> 'w \<Rightarrow> bool \<times> 'w" where
  "Hal_NewItem A key w =
     (case UtilsFileOpen A key [O_RDONLY_FS] w of (fd, w) \<Rightarrow>
        if fd < 0 then (True, w) else (False, snd (UtilsFileClose A fd w)))"

type_synonym 'w hal_kv = "kv_cache \<times> 'w"

definition Hal_UtilsGetValue ::
  "'w utils_api \<Rightarrow> kv_env \<Rightarrow> string option \<Rightarrow> string option \<Rightarrow> nat \<Rightarrow> 'w hal_kv \<Rightarrow> ((int \<times> string option) \<times> 'w hal_kv) option" where
  "Hal_UtilsGetValue A E key value len s =
     (case s of (c, w) \<Rightarrow>
        if \<not> IsValidKey key \<or> value = None \<or> len > MAX_GET_VALUE_LEN then Some ((EC_INVALID, value), s)
        else do {
          (r, v) \<leftarrow> GetValueByCache E key (value \<noteq> None) len c;
          if r = EC_SUCCESS then Some ((EC_SUCCESS, Some (put_bytes 0 (v @ [NUL]) (the value))), s)
          else (case Hal_GetValueByFile A (the key) (the value) len w of ((ret, buf), w) \<Rightarrow>
            if ret < 0 then Some ((EC_FAILURE, Some buf), (c, w))
            else do {
              c \<leftarrow> AddKVCache E key (Some (cstr buf)) False c;
              Some ((ret, Some buf), (c, w)) }) })"

definition Hal_UtilsSetValue ::
  "'w utils_api \<Rightarrow> kv_env \<Rightarrow> string option \<Rightarrow> string option \<Rightarrow> 'w hal_kv \<Rightarrow> (int \<times> 'w hal_kv) option" where
  "Hal_UtilsSetValue A E key value s =
     (case s of (c, w) \<Rightarrow>
        if \<not> IsValidKey key \<or> \<not> IsValidValue value MAX_VALUE_LEN then Some (EC_INVALID, s)
        else (case Hal_GetCurrentItem A w of (currentNum, w) \<Rightarrow>
          case Hal_NewItem A (the key) w of (newItem, w) \<Rightarrow>
          if currentNum \<ge> MAX_KV_SUM E \<and> newItem then Some (EC_FAILURE, (c, w))
          else (case Hal_SetValueToFile A (the key) (the value) w of (ret, w) \<Rightarrow>
            do {
              (c, currentNum) \<leftarrow> (if ret = EC_SUCCESS then do {
                  c \<leftarrow> AddKVCache E key value True c;
                  Some (c, if newItem then currentNum + 1 else currentNum) }
                else Some (c, currentNum));
              (case Hal_SetCurrentItem A currentNum w of (ret, w) \<Rightarrow> Some (ret, (c, w))) })))"

definition Hal_UtilsDeleteValue ::
  "'w utils_api \<Rightarrow> kv_env \<Rightarrow> string option \<Rightarrow> 'w hal_kv \<Rightarrow> (int \<times> 'w hal_kv) option" where
  "Hal_UtilsDeleteValue A E key s =
     (case s of (c, w) \<Rightarrow>
        if \<not> IsValidKey key then Some (EC_INVALID, s)
        else do {
          c \<leftarrow> DeleteKVCache key c;
          case UtilsFileDelete A (the key) w of (ret, w) \<Rightarrow>
            if ret = EC_SUCCESS then
              (case Hal_GetCurrentItem A w of (n, w) \<Rightarrow>
               case Hal_SetCurrentItem A (n - 1) w of (ret, w) \<Rightarrow> Some (ret, (c, w)))
            else Some (ret, (c, w)) })"

definition Hal_ClearKVCache :: "'w hal_kv \<Rightarrow> (int \<times> 'w hal_kv) option" where
  "Hal_ClearKVCache s = (case s of (c, w) \<Rightarrow> do { (r, c) \<leftarrow> ClearKVCacheInner c; Some (r, (c, w)) })"

definition Hal_UtilsSetEnv :: "string option \<Rightarrow> 'w hal_kv \<Rightarrow> int \<times> 'w hal_kv" where
  "Hal_UtilsSetEnv path s = (EC_SUCCESS, s)"

subsection \<open>What a key-value store promises\<close>

text \<open>
  A store holds a map of at most \<open>limit\<close> keys.  A call returns \<open>None\<close> if it breaks down; the laws say that it does not.
\<close>

definition key_ok :: "string \<Rightarrow> bool" where
  "key_ok k \<longleftrightarrow> IsValidKey (Some k)"

definition value_ok :: "string \<Rightarrow> bool" where
  "value_ok v \<longleftrightarrow> IsValidValue (Some v) MAX_VALUE_LEN \<and> NUL \<notin> set v"

datatype kv_call = SetValue string string | DeleteValue string | GetValue string nat

fun call_ok :: "(string \<Rightarrow> bool) \<Rightarrow> kv_call \<Rightarrow> bool" where
  "call_ok ok (SetValue k v) \<longleftrightarrow> ok k \<and> value_ok v"
| "call_ok ok (DeleteValue k) \<longleftrightarrow> ok k"
| "call_ok ok (GetValue k len) \<longleftrightarrow> ok k \<and> 0 < len \<and> len \<le> MAX_GET_VALUE_LEN"

text \<open>The abstract store: whether a call succeeds, the value it gives, and the map after it.\<close>

fun map_call :: "int \<Rightarrow> kv_call \<Rightarrow> (string \<rightharpoonup> string) \<Rightarrow> (bool \<times> string option) \<times> (string \<rightharpoonup> string)" where
  "map_call limit (SetValue k v) m =
     (if k \<in> dom m \<or> int (card (dom m)) < limit then ((True, None), m(k \<mapsto> v)) else ((False, None), m))"
| "map_call limit (DeleteValue k) m = ((k \<in> dom m, None), m(k := None))"
| "map_call limit (GetValue k len) m =
     (case m k of
        None \<Rightarrow> ((False, None), m)
      | Some v \<Rightarrow> if length v < len then ((True, Some v), m) else ((False, None), m))"

fun map_calls :: "int \<Rightarrow> kv_call list \<Rightarrow> (string \<rightharpoonup> string) \<Rightarrow> (bool \<times> string option) list \<times> (string \<rightharpoonup> string)" where
  "map_calls limit [] m = ([], m)"
| "map_calls limit (x # xs) m = (case map_call limit x m of (r, m) \<Rightarrow> case map_calls limit xs m of (rs, m) \<Rightarrow> (r # rs, m))"

text \<open>Running calls on a store: the answer of a call is whether its code is not negative, and the string it left in the buffer.\<close>

fun kv_call_run ::
  "(string \<Rightarrow> string \<Rightarrow> 's \<Rightarrow> (int \<times> 's) option) \<Rightarrow> (string \<Rightarrow> string \<Rightarrow> nat \<Rightarrow> 's \<Rightarrow> ((int \<times> string option) \<times> 's) option)
     \<Rightarrow> (string \<Rightarrow> 's \<Rightarrow> (int \<times> 's) option) \<Rightarrow> kv_call \<Rightarrow> 's \<Rightarrow> ((bool \<times> string option) \<times> 's) option" where
  "kv_call_run setv getv delv (SetValue k v) s = map_option (\<lambda>(r, s). ((0 \<le> r, None), s)) (setv k v s)"
| "kv_call_run setv getv delv (DeleteValue k) s = map_option (\<lambda>(r, s). ((0 \<le> r, None), s)) (delv k s)"
| "kv_call_run setv getv delv (GetValue k len) s =
     map_option (\<lambda>((r, b), s). ((0 \<le> r, if 0 \<le> r then map_option cstr b else None), s)) (getv k (replicate len NUL) len s)"

fun kv_calls_run ::
  "(string \<Rightarrow> string \<Rightarrow> 's \<Rightarrow> (int \<times> 's) option) \<Rightarrow> (string \<Rightarrow> string \<Rightarrow> nat \<Rightarrow> 's \<Rightarrow> ((int \<times> string option) \<times> 's) option)
     \<Rightarrow> (string \<Rightarrow> 's \<Rightarrow> (int \<times> 's) option) \<Rightarrow> kv_call list \<Rightarrow> 's \<Rightarrow> ((bool \<times> string option) list \<times> 's) option" where
  "kv_calls_run setv getv delv [] s = Some ([], s)"
| "kv_calls_run setv getv delv (x # xs) s =
     (case kv_call_run setv getv delv x s of
        None \<Rightarrow> None
      | Some (r, s) \<Rightarrow> map_option (\<lambda>(rs, s). (r # rs, s)) (kv_calls_run setv getv delv xs s))"

locale kv_contract =
  fixes ok_key :: "string \<Rightarrow> bool"
    and rep :: "'s \<Rightarrow> (string \<rightharpoonup> string) \<Rightarrow> bool"
    and set_value :: "string \<Rightarrow> string \<Rightarrow> 's \<Rightarrow> (int \<times> 's) option"
    and get_value :: "string \<Rightarrow> string \<Rightarrow> nat \<Rightarrow> 's \<Rightarrow> ((int \<times> string option) \<times> 's) option"
    and delete_value :: "string \<Rightarrow> 's \<Rightarrow> (int \<times> 's) option"
    and limit :: int
  assumes set_law: "rep s m \<Longrightarrow> ok_key k \<Longrightarrow> value_ok v \<Longrightarrow> k \<in> dom m \<or> int (card (dom m)) < limit \<Longrightarrow>
      \<exists>s'. set_value k v s = Some (0, s') \<and> rep s' (m(k \<mapsto> v))"
    and set_full: "rep s m \<Longrightarrow> ok_key k \<Longrightarrow> value_ok v \<Longrightarrow> k \<notin> dom m \<Longrightarrow> limit \<le> int (card (dom m)) \<Longrightarrow>
      \<exists>r s'. set_value k v s = Some (r, s') \<and> r < 0 \<and> rep s' m"
    and get_law: "rep s m \<Longrightarrow> ok_key k \<Longrightarrow> m k = Some v \<Longrightarrow> length v < len \<Longrightarrow> len \<le> MAX_GET_VALUE_LEN \<Longrightarrow> length buf = len \<Longrightarrow>
      \<exists>r b s'. get_value k buf len s = Some ((r, Some b), s') \<and> 0 \<le> r \<and> cstr b = v \<and> rep s' m"
    and get_fails: "rep s m \<Longrightarrow> ok_key k \<Longrightarrow> (\<forall>v. m k = Some v \<longrightarrow> len \<le> length v) \<Longrightarrow> len \<le> MAX_GET_VALUE_LEN \<Longrightarrow> length buf = len \<Longrightarrow>
      \<exists>r b s'. get_value k buf len s = Some ((r, b), s') \<and> r < 0 \<and> rep s' m"
    and delete_law: "rep s m \<Longrightarrow> ok_key k \<Longrightarrow>
      \<exists>r s'. delete_value k s = Some (r, s') \<and> (if k \<in> dom m then r = 0 else r < 0) \<and> rep s' (m(k := None))"
begin

lemma kv_call_refines:
  assumes "rep s m" and "call_ok ok_key x"
  shows "\<exists>s'. kv_call_run set_value get_value delete_value x s = Some (fst (map_call limit x m), s') \<and> rep s' (snd (map_call limit x m))"
proof (cases x)
  case (SetValue k v)
  then show ?thesis using assms set_law [of s m k v] set_full [of s m k v]
    by (cases "k \<in> dom m \<or> int (card (dom m)) < limit") fastforce+
next
  case (DeleteValue k)
  then show ?thesis using assms delete_law [of s m k] by (fastforce split: if_splits)
next
  case (GetValue k len)
  then show ?thesis using assms get_law [of s m k _ len "replicate len NUL"] get_fails [of s m k len "replicate len NUL"]
    by (cases "\<exists>v. m k = Some v \<and> length v < len") (fastforce split: option.splits)+
qed

lemma kv_calls_refine:
  "rep s m \<Longrightarrow> list_all (call_ok ok_key) xs \<Longrightarrow>
     \<exists>s'. kv_calls_run set_value get_value delete_value xs s = Some (fst (map_calls limit xs m), s') \<and> rep s' (snd (map_calls limit xs m))"
proof (induction xs arbitrary: s m)
  case (Cons x xs)
  then obtain s1 where s1: "kv_call_run set_value get_value delete_value x s = Some (fst (map_call limit x m), s1)" "rep s1 (snd (map_call limit x m))"
    using kv_call_refines [of s m x] by auto
  then show ?case using Cons.IH [OF s1(2)] Cons.prems by (auto split: prod.splits)
qed simp

end

subsection \<open>The store on a device that works\<close>

definition count_file :: "(string \<rightharpoonup> string) \<Rightarrow> nat \<Rightarrow> bool" where
  "count_file f n \<longleftrightarrow> (case f KV_SUM_FILE of None \<Rightarrow> n = 0 | Some b \<Rightarrow> b = pad_to KV_SUM_INDEX (nat_str n))"

definition hal_with ::
  "'w utils_api \<Rightarrow> ('w \<Rightarrow> file_view) \<Rightarrow> kv_env \<Rightarrow> kv_cache \<Rightarrow> 'w \<Rightarrow> (string \<rightharpoonup> string) \<Rightarrow> (string \<times> string) list \<Rightarrow> bool" where
  "hal_with A V E c w m kvs \<longleftrightarrow>
     utils_ok A V \<and> kv_env_ok E \<and> MAX_KV_SUM E \<le> 999 \<and> 0 \<le> MAX_KV_SUM E
     \<and> (\<forall>k. key_ok k \<longrightarrow> files (V w) k = m k) \<and> (\<forall>k \<in> dom m. key_ok k) \<and> (\<forall>v \<in> ran m. value_ok v)
     \<and> finite (dom m) \<and> int (card (dom m)) \<le> MAX_KV_SUM E \<and> count_file (files (V w)) (card (dom m))
     \<and> cache_holds c kvs \<and> cache_agrees kvs m"

definition hal_rep ::
  "'w utils_api \<Rightarrow> ('w \<Rightarrow> file_view) \<Rightarrow> kv_env \<Rightarrow> 'w hal_kv \<Rightarrow> (string \<rightharpoonup> string) \<Rightarrow> bool" where
  "hal_rep A V E s m \<longleftrightarrow> (\<exists>kvs. hal_with A V E (fst s) (snd s) m kvs)"

lemma Hal_GetCurrentItem_count:
  assumes A: "utils_ok A V" and n: "count_file (files (V w)) n" "n < 1000"
  obtains w' where "Hal_GetCurrentItem A w = (int n, w')" "V w' = V w"
proof (cases "files (V w) KV_SUM_FILE")
  case None
  obtain fd w' where "UtilsFileOpen A KV_SUM_FILE [O_RDWR_FS] w = (fd, w')" "fd < 0" "V w' = V w"
    by (rule open_missing [OF A None, of "[O_RDWR_FS]"]) auto
  then show thesis using None n that by (simp add: Hal_GetCurrentItem_def count_file_def)
next
  case (Some b)
  have b: "b = pad_to 4 (nat_str n)" using n Some by (simp add: count_file_def KV_SUM_INDEX_def)
  have len: "length (nat_str n) \<le> 3" using length_nat_str [of n 2] n by simp
  have lb: "length b = 4" using b len by simp
  obtain fd w1 w2 w3 where "UtilsFileOpen A KV_SUM_FILE [O_RDWR_FS] w = (fd, w1)" "0 \<le> fd"
    "UtilsFileRead A fd KV_SUM_INDEX w1 = ((int (length (take KV_SUM_INDEX b)), take KV_SUM_INDEX b), w2)"
    "UtilsFileClose A fd w2 = (0, w3)" "V w3 = V w"
    by (rule read_file [OF A _ Some, of "[O_RDWR_FS]" KV_SUM_INDEX]) auto
  moreover have "put_bytes 0 b (replicate KV_SUM_INDEX NUL) = b" using lb by (simp add: put_bytes_def KV_SUM_INDEX_def)
  moreover have "atoi (b @ stack_bytes A) = int n"
  proof -
    obtain z where z: "4 - length (nat_str n) = Suc z" using len by (cases "4 - length (nat_str n)") auto
    show ?thesis using b z atoi_nat_str [of "NUL # replicate z NUL @ stack_bytes A" n] by (simp only: pad_to_def) simp
  qed
  ultimately show thesis using that lb by (simp add: Hal_GetCurrentItem_def KV_SUM_INDEX_def)
qed

lemma Hal_SetCurrentItem_count:
  assumes A: "utils_ok A V" and n: "n < 1000" and old: "count_file (files (V w)) n0" "n0 < 1000"
  obtains w' where "Hal_SetCurrentItem A (int n) w = (EC_SUCCESS, w')"
    "V w' = (V w)\<lparr>files := (files (V w))(KV_SUM_FILE \<mapsto> pad_to KV_SUM_INDEX (nat_str n))\<rparr>"
proof -
  have len: "length (nat_str n) \<le> 3" "length (nat_str n0) \<le> 3" using length_nat_str [of _ 2] n old by simp_all
  have pr: "sprintf_s A KV_SUM_INDEX (to_string (int n)) = Some (pad_to KV_SUM_INDEX (nat_str n))"
    using A len by (simp add: sprintf_s_def to_string_def KV_SUM_INDEX_def)
  let ?bs = "pad_to KV_SUM_INDEX (nat_str n)" and ?fl = "[O_RDWR_FS, O_CREAT_FS]"
  show thesis
  proof (cases "files (V w) KV_SUM_FILE")
    case None
    show thesis by (rule replace_file [OF A, of ?fl w KV_SUM_FILE ?bs]) (use None pr that in \<open>auto simp: Hal_SetCurrentItem_def\<close>)
  next
    case (Some b)
    have eq: "put_bytes 0 ?bs b = ?bs" using Some old len by (simp add: count_file_def put_bytes_def KV_SUM_INDEX_def)
    show thesis
      by (rule overwrite_file [OF A _ Some, of ?fl ?bs]) (use eq pr that in \<open>auto simp: Hal_SetCurrentItem_def\<close>)
  qed
qed

lemma Hal_NewItem_exists:
  assumes A: "utils_ok A V"
  obtains w' where "Hal_NewItem A k w = (files (V w) k = None, w')" "V w' = V w"
proof (cases "files (V w) k")
  case None
  show thesis by (rule open_missing [OF A None, of "[O_RDONLY_FS]"]) (use None that in \<open>auto simp: Hal_NewItem_def\<close>)
next
  case (Some b)
  show thesis by (rule probe_file [OF A _ Some, of "[O_RDONLY_FS]"]) (use Some that in \<open>auto simp: Hal_NewItem_def\<close>)
qed

lemma Hal_SetValueToFile_stores:
  assumes A: "utils_ok A V"
  obtains w' where "Hal_SetValueToFile A k v w = (EC_SUCCESS, w')" "V w' = (V w)\<lparr>files := (files (V w))(k \<mapsto> v)\<rparr>"
  by (rule replace_file [OF A, of "[O_RDWR_FS, O_CREAT_FS, O_TRUNC_FS]" w k v]) (use that in \<open>auto simp: Hal_SetValueToFile_def\<close>)

lemma Hal_GetValueByFile_reads:
  assumes A: "utils_ok A V" and b: "files (V w) k = Some b" "length b < len" "length buf = len"
  obtains w' where "Hal_GetValueByFile A k buf len w = ((int (length b), b @ NUL # drop (length b + 1) buf), w')" "V w' = V w"
proof -
  obtain w0 where 0: "UtilsFileStat A k w = ((0, length b), w0)" "V w0 = V w" by (rule stat_existing [OF A b(1)])
  obtain fd w1 w2 w3 where 1: "UtilsFileOpen A k [O_RDONLY_FS] w0 = (fd, w1)" "0 \<le> fd"
    "UtilsFileRead A fd (length b) w1 = ((int (length (take (length b) b)), take (length b) b), w2)"
    "UtilsFileClose A fd w2 = (0, w3)" "V w3 = V w0"
    by (rule read_file [OF A, of "[O_RDONLY_FS]" w0 k b "length b"]) (use 0 b in auto)
  have "put_bytes (length b) [NUL] (put_bytes 0 b buf) = b @ NUL # drop (length b + 1) buf"
    by (simp add: put_bytes_def)
  then show thesis using that 0 1 b by (simp add: Hal_GetValueByFile_def EC_SUCCESS_def)
qed

lemma Hal_GetValueByFile_fails:
  assumes A: "utils_ok A V" and b: "\<forall>b. files (V w) k = Some b \<longrightarrow> len \<le> length b"
  obtains w' where "Hal_GetValueByFile A k buf len w = ((EC_FAILURE, buf), w')" "V w' = V w"
proof (cases "files (V w) k")
  case None
  show thesis by (rule stat_missing [OF A None]) (use that in \<open>auto simp: Hal_GetValueByFile_def EC_SUCCESS_def\<close>)
next
  case (Some c)
  show thesis by (rule stat_existing [OF A Some]) (use that b Some in \<open>auto simp: Hal_GetValueByFile_def EC_SUCCESS_def\<close>)
qed

lemma key_ok_length: "key_ok k \<Longrightarrow> length k < MAX_KEY_LEN"
  by (auto simp: key_ok_def IsValidKey_def IsValidValue_def Let_def strnlen_def MAX_KEY_LEN_def MAX_VALUE_LEN_def split: if_splits)

lemma value_ok_length: "value_ok v \<Longrightarrow> length v < MAX_VALUE_LEN \<and> NUL \<notin> set v"
  by (auto simp: value_ok_def IsValidValue_def Let_def strnlen_def split: if_splits)

lemma key_ok_not_sum: "\<not> key_ok KV_SUM_FILE"
  by (simp add: key_ok_def KV_SUM_FILE_def IsValidKey_def IsValidValue_def IsValidChar_def c_islower_def is_digit_def
      strnlen_def MAX_KEY_LEN_def)

lemma hal_withD:
  assumes "hal_with A V E c w m kvs"
  shows "utils_ok A V" "kv_env_ok E" "MAX_KV_SUM E \<le> 999" "0 \<le> MAX_KV_SUM E" "key_ok k \<Longrightarrow> files (V w) k = m k"
    "\<forall>k \<in> dom m. key_ok k" "\<forall>v \<in> ran m. value_ok v" "finite (dom m)" "int (card (dom m)) \<le> MAX_KV_SUM E"
    "count_file (files (V w)) (card (dom m))" "cache_holds c kvs" "cache_agrees kvs m" "card (dom m) < 1000"
  using assms by (auto simp: hal_with_def)

lemma hal_repI:
  assumes "utils_ok A V" "kv_env_ok E" "MAX_KV_SUM E \<le> 999" "0 \<le> MAX_KV_SUM E" "\<And>k. key_ok k \<Longrightarrow> files (V w) k = m k"
    "\<forall>k \<in> dom m. key_ok k" "\<forall>v \<in> ran m. value_ok v" "finite (dom m)" "int (card (dom m)) \<le> MAX_KV_SUM E"
    "count_file (files (V w)) (card (dom m))" "cache_holds c kvs" "cache_agrees kvs m"
  shows "hal_rep A V E (c, w) m"
  using assms by (auto simp: hal_rep_def hal_with_def)

lemma count_file_key: "key_ok k \<Longrightarrow> count_file (f(k := x)) n = count_file f n"
  using key_ok_not_sum by (auto simp: count_file_def)

lemma count_file_set: "count_file (f(KV_SUM_FILE \<mapsto> pad_to KV_SUM_INDEX (nat_str n))) n"
  by (simp add: count_file_def)

text \<open>Storing a value: the number of keys, the file of the key, the cache, and the number of keys again.\<close>

lemma hal_set_law:
  assumes rep: "hal_rep A V E (c, w) m" and k: "key_ok k" and v: "value_ok v" and room: "k \<in> dom m \<or> int (card (dom m)) < MAX_KV_SUM E"
  shows "\<exists>s'. Hal_UtilsSetValue A E (Some k) (Some v) (c, w) = Some (0, s') \<and> hal_rep A V E s' (m(k \<mapsto> v))"
proof -
  obtain kvs where "hal_with A V E c w m kvs" using rep by (auto simp: hal_rep_def)
  note R = hal_withD [OF this]
  note A = R(1)
  let ?n = "card (dom m)" and ?n' = "card (dom (m(k \<mapsto> v)))"
  have n: "?n < 1000" "?n' < 1000" "int ?n' \<le> MAX_KV_SUM E" using R(3,8,9) room by (auto simp: card_insert_if)
  obtain w1 where 1: "Hal_GetCurrentItem A w = (int ?n, w1)" "V w1 = V w" by (rule Hal_GetCurrentItem_count [OF A R(10) n(1)])
  obtain w2 where 2: "Hal_NewItem A k w1 = (files (V w1) k = None, w2)" "V w2 = V w1" by (rule Hal_NewItem_exists [OF A])
  obtain w3 where 3: "Hal_SetValueToFile A k v w2 = (EC_SUCCESS, w3)" "V w3 = (V w2)\<lparr>files := (files (V w2))(k \<mapsto> v)\<rparr>"
    by (rule Hal_SetValueToFile_stores [OF A])
  have cf: "count_file (files (V w3)) ?n" using 1 2 3 R(10) by (simp add: count_file_key [OF k])
  obtain w4 where 4: "Hal_SetCurrentItem A (int ?n') w3 = (EC_SUCCESS, w4)"
    "V w4 = (V w3)\<lparr>files := (files (V w3))(KV_SUM_FILE \<mapsto> pad_to KV_SUM_INDEX (nat_str ?n'))\<rparr>"
    by (rule Hal_SetCurrentItem_count [OF A n(2) cf n(1)])
  obtain c' kvs' where 5: "AddKVCache E (Some k) (Some v) True c = Some c'" "cache_holds c' kvs'" "cache_agrees kvs' (m(k \<mapsto> v))"
    by (rule add_new_agrees [OF R(11,12,2)]) (use key_ok_length [OF k] value_ok_length [OF v] in auto)
  have mk: "files (V w) k = m k" by (rule R(5) [OF k])
  have valid: "IsValidKey (Some k)" "IsValidValue (Some v) MAX_VALUE_LEN" using k v by (simp_all add: key_ok_def value_ok_def)
  have num: "(if m k = None then int ?n + 1 else int ?n) = int ?n'" using R(8) by (auto simp: card_insert_if domIff)
  have full: "\<not> (MAX_KV_SUM E \<le> int ?n \<and> m k = None)" using room by auto
  have "Hal_UtilsSetValue A E (Some k) (Some v) (c, w) = Some (0, (c', w4))"
    using 1 2 3 4(1) 5(1) valid full num mk by (auto simp: Hal_UtilsSetValue_def EC_SUCCESS_def)
  moreover have "hal_rep A V E (c', w4) (m(k \<mapsto> v))"
  proof (rule hal_repI [OF R(1-4) _ _ _ _ n(3) _ 5(2,3)])
    show "files (V w4) k' = (m(k \<mapsto> v)) k'" if "key_ok k'" for k'
      using that key_ok_not_sum R(5) [OF that] 1 2 3 4 by auto
    show "\<forall>v' \<in> ran (m(k \<mapsto> v)). value_ok v'" using R(7) v by (auto simp: ran_def split: if_splits)
    show "count_file (files (V w4)) ?n'" using 4(2) by (simp add: count_file_set)
  qed (use R k in auto)
  ultimately show ?thesis by blast
qed

lemma hal_set_full:
  assumes rep: "hal_rep A V E (c, w) m" and k: "key_ok k" and v: "value_ok v" and full: "k \<notin> dom m" "MAX_KV_SUM E \<le> int (card (dom m))"
  shows "\<exists>r s'. Hal_UtilsSetValue A E (Some k) (Some v) (c, w) = Some (r, s') \<and> r < 0 \<and> hal_rep A V E s' m"
proof -
  obtain kvs where "hal_with A V E c w m kvs" using rep by (auto simp: hal_rep_def)
  note R = hal_withD [OF this]
  have n: "card (dom m) < 1000" using R(3,9) by simp
  obtain w1 where 1: "Hal_GetCurrentItem A w = (int (card (dom m)), w1)" "V w1 = V w"
    by (rule Hal_GetCurrentItem_count [OF R(1) R(10) n])
  obtain w2 where 2: "Hal_NewItem A k w1 = (files (V w1) k = None, w2)" "V w2 = V w1" by (rule Hal_NewItem_exists [OF R(1)])
  have "Hal_UtilsSetValue A E (Some k) (Some v) (c, w) = Some (EC_FAILURE, (c, w2))"
    using 1 2 k v full R(5) [OF k] by (auto simp: Hal_UtilsSetValue_def key_ok_def value_ok_def domIff)
  moreover have "hal_rep A V E (c, w2) m" using rep 1 2 by (simp add: hal_rep_def hal_with_def)
  ultimately show ?thesis by (auto simp: EC_FAILURE_def)
qed

lemma hal_get_law:
  assumes rep: "hal_rep A V E (c, w) m" and k: "key_ok k" and v: "m k = Some v" "length v < len" and len: "len \<le> MAX_GET_VALUE_LEN" "length buf = len"
  shows "\<exists>r b s'. Hal_UtilsGetValue A E (Some k) (Some buf) len (c, w) = Some ((r, Some b), s') \<and> 0 \<le> r \<and> cstr b = v \<and> hal_rep A V E s' m"
proof -
  obtain kvs where "hal_with A V E c w m kvs" using rep by (auto simp: hal_rep_def)
  note R = hal_withD [OF this]
  have vk: "length v < MAX_VALUE_LEN" "NUL \<notin> set v" using R(7) v value_ok_length by (auto simp: ran_def)
  have args: "\<not> (\<not> IsValidKey (Some k) \<or> Some buf = None \<or> len > MAX_GET_VALUE_LEN)" using k len by (simp add: key_ok_def)
  have g: "GetValueByCache E (Some k) True len c = Some (if map_of kvs k = None then (EC_FAILURE, []) else (EC_SUCCESS, v))"
    using GetValueByCache_holds [OF R(11,2), of len k] len v vk cache_agrees_map_of [OF R(12), of k]
    by (auto simp: MAX_GET_VALUE_LEN_def split: option.splits)
  show ?thesis
  proof (cases "map_of kvs k")
    case (Some x)
    then have "Hal_UtilsGetValue A E (Some k) (Some buf) len (c, w) = Some ((EC_SUCCESS, Some (put_bytes 0 (v @ [NUL]) buf)), (c, w))"
      using args g by (simp add: Hal_UtilsGetValue_def)
    moreover have "cstr (put_bytes 0 (v @ [NUL]) buf) = v" using vk by (simp add: put_bytes_def)
    ultimately show ?thesis using rep by (auto simp: EC_SUCCESS_def)
  next
    case None
    obtain w' where f: "Hal_GetValueByFile A k buf len w = ((int (length v), v @ NUL # drop (length v + 1) buf), w')" "V w' = V w"
      by (rule Hal_GetValueByFile_reads [OF R(1), of w k v len buf]) (use R(5) [OF k] v len in auto)
    obtain c' kvs' where a: "AddKVCache E (Some k) (Some v) False c = Some c'" "cache_holds c' kvs'" "cache_agrees kvs' m"
      by (rule add_read_agrees [OF R(11,12,2) _ _ v(1) None]) (use key_ok_length [OF k] vk in auto)
    have "Hal_UtilsGetValue A E (Some k) (Some buf) len (c, w) = Some ((int (length v), Some (v @ NUL # drop (length v + 1) buf)), (c', w'))"
      using args g None f a vk by (simp add: Hal_UtilsGetValue_def EC_SUCCESS_def EC_FAILURE_def)
    moreover have "hal_rep A V E (c', w') m" using R a f by (intro hal_repI [where kvs = kvs']) auto
    ultimately show ?thesis using vk by auto
  qed
qed

lemma hal_get_fails:
  assumes rep: "hal_rep A V E (c, w) m" and k: "key_ok k" and v: "\<forall>v. m k = Some v \<longrightarrow> len \<le> length v" and len: "len \<le> MAX_GET_VALUE_LEN" "length buf = len"
  shows "\<exists>r b s'. Hal_UtilsGetValue A E (Some k) (Some buf) len (c, w) = Some ((r, b), s') \<and> r < 0 \<and> hal_rep A V E s' m"
proof -
  obtain kvs where "hal_with A V E c w m kvs" using rep by (auto simp: hal_rep_def)
  note R = hal_withD [OF this]
  have args: "\<not> (\<not> IsValidKey (Some k) \<or> Some buf = None \<or> len > MAX_GET_VALUE_LEN)" using k len by (simp add: key_ok_def)
  have g: "GetValueByCache E (Some k) True len c = Some (EC_FAILURE, [])"
    using GetValueByCache_holds [OF R(11,2), of len k] len v cache_agrees_map_of [OF R(12), of k]
    by (fastforce simp: MAX_GET_VALUE_LEN_def split: option.splits)
  obtain w' where f: "Hal_GetValueByFile A k buf len w = ((EC_FAILURE, buf), w')" "V w' = V w"
    by (rule Hal_GetValueByFile_fails [OF R(1), of w k len buf]) (use R(5) [OF k] v in auto)
  have "Hal_UtilsGetValue A E (Some k) (Some buf) len (c, w) = Some ((EC_FAILURE, Some buf), (c, w'))"
    using args g f by (simp add: Hal_UtilsGetValue_def EC_SUCCESS_def EC_FAILURE_def)
  moreover have "hal_rep A V E (c, w') m" using rep f by (simp add: hal_rep_def hal_with_def)
  ultimately show ?thesis by (auto simp: EC_FAILURE_def)
qed

lemma hal_delete_law:
  assumes rep: "hal_rep A V E (c, w) m" and k: "key_ok k"
  shows "\<exists>r s'. Hal_UtilsDeleteValue A E (Some k) (c, w) = Some (r, s') \<and> (if k \<in> dom m then r = 0 else r < 0) \<and> hal_rep A V E s' (m(k := None))"
proof -
  obtain kvs where "hal_with A V E c w m kvs" using rep by (auto simp: hal_rep_def)
  note R = hal_withD [OF this]
  note A = R(1)
  obtain c' where c: "DeleteKVCache (Some k) c = Some c'" "cache_holds c' (del_key k kvs)" using DeleteKVCache_holds [OF R(11)] by blast
  note ag = cache_agrees_del [OF R(12), of k]
  have valid: "IsValidKey (Some k)" using k by (simp add: key_ok_def)
  let ?n = "card (dom m)" and ?m = "m(k := None)"
  have ran: "\<forall>v \<in> ran ?m. value_ok v" using R(7) by (auto simp: ran_def split: if_splits)
  show ?thesis
  proof (cases "m k")
    case None
    obtain r w' where d: "UtilsFileDelete A k w = (r, w')" "r < 0" "V w' = V w"
      by (rule delete_missing [OF A]) (use R(5) [OF k] None in auto)
    have "Hal_UtilsDeleteValue A E (Some k) (c, w) = Some (r, (c', w'))"
      using d c valid by (simp add: Hal_UtilsDeleteValue_def EC_SUCCESS_def)
    moreover have "hal_rep A V E (c', w') ?m" using R c d ag None by (intro hal_repI [of A V E w' ?m c' "del_key k kvs"]) (auto simp: fun_upd_idem)
    ultimately show ?thesis using d None by auto
  next
    case (Some v)
    have n: "?n < 1000" "?n - 1 < 1000" "0 < ?n" using R(3,8,9) Some by (auto simp: card_gt_0_iff)
    obtain w1 where 1: "UtilsFileDelete A k w = (0, w1)" "V w1 = (V w)\<lparr>files := (files (V w))(k := None)\<rparr>"
      by (rule delete_existing [OF A]) (use R(5) [OF k] Some in auto)
    have cf: "count_file (files (V w1)) ?n" using 1 R(10) by (simp add: count_file_key [OF k])
    obtain w2 where 2: "Hal_GetCurrentItem A w1 = (int ?n, w2)" "V w2 = V w1" by (rule Hal_GetCurrentItem_count [OF A cf n(1)])
    obtain w3 where 3: "Hal_SetCurrentItem A (int (?n - 1)) w2 = (EC_SUCCESS, w3)"
      "V w3 = (V w2)\<lparr>files := (files (V w2))(KV_SUM_FILE \<mapsto> pad_to KV_SUM_INDEX (nat_str (?n - 1)))\<rparr>"
      by (rule Hal_SetCurrentItem_count [OF A n(2), of w2 ?n]) (use cf 2 n in auto)
    have "int (?n - 1) = int ?n - 1" using n by simp
    then have "Hal_UtilsDeleteValue A E (Some k) (c, w) = Some (0, (c', w3))"
      using 1 2 3 c valid by (simp add: Hal_UtilsDeleteValue_def EC_SUCCESS_def)
    moreover have "hal_rep A V E (c', w3) ?m"
    proof (rule hal_repI [OF R(1-4) _ _ ran _ _ _ c(2) ag])
      show "files (V w3) k' = ?m k'" if "key_ok k'" for k' using that key_ok_not_sum R(5) [OF that] 1 2 3 by auto
      have "card (dom ?m) = ?n - 1" using R(8) Some by (auto simp: domIff)
      then show "count_file (files (V w3)) (card (dom ?m))" "int (card (dom ?m)) \<le> MAX_KV_SUM E"
        using 3(2) R(9) by (simp_all add: count_file_set)
    qed (use R in auto)
    ultimately show ?thesis using Some by auto
  qed
qed

interpretation hal_kv: kv_contract key_ok "hal_rep A V E" "\<lambda>k v. Hal_UtilsSetValue A E (Some k) (Some v)"
    "\<lambda>k b. Hal_UtilsGetValue A E (Some k) (Some b)" "\<lambda>k. Hal_UtilsDeleteValue A E (Some k)" "MAX_KV_SUM E" for A V E
proof unfold_locales
  fix s :: "kv_cache \<times> 'a" and m k v len buf
  obtain c w where s: "s = (c, w)" by (cases s)
  show "hal_rep A V E s m \<Longrightarrow> key_ok k \<Longrightarrow> value_ok v \<Longrightarrow> k \<in> dom m \<or> int (card (dom m)) < MAX_KV_SUM E \<Longrightarrow>
    \<exists>s'. Hal_UtilsSetValue A E (Some k) (Some v) s = Some (0, s') \<and> hal_rep A V E s' (m(k \<mapsto> v))"
    unfolding s by (rule hal_set_law)
  show "hal_rep A V E s m \<Longrightarrow> key_ok k \<Longrightarrow> value_ok v \<Longrightarrow> k \<notin> dom m \<Longrightarrow> MAX_KV_SUM E \<le> int (card (dom m)) \<Longrightarrow>
    \<exists>r s'. Hal_UtilsSetValue A E (Some k) (Some v) s = Some (r, s') \<and> r < 0 \<and> hal_rep A V E s' m"
    unfolding s by (rule hal_set_full)
  show "hal_rep A V E s m \<Longrightarrow> key_ok k \<Longrightarrow> m k = Some v \<Longrightarrow> length v < len \<Longrightarrow> len \<le> MAX_GET_VALUE_LEN \<Longrightarrow> length buf = len \<Longrightarrow>
    \<exists>r b s'. Hal_UtilsGetValue A E (Some k) (Some buf) len s = Some ((r, Some b), s') \<and> 0 \<le> r \<and> cstr b = v \<and> hal_rep A V E s' m"
    unfolding s by (rule hal_get_law)
  show "hal_rep A V E s m \<Longrightarrow> key_ok k \<Longrightarrow> \<forall>v. m k = Some v \<longrightarrow> len \<le> length v \<Longrightarrow> len \<le> MAX_GET_VALUE_LEN \<Longrightarrow> length buf = len \<Longrightarrow>
    \<exists>r b s'. Hal_UtilsGetValue A E (Some k) (Some buf) len s = Some ((r, b), s') \<and> r < 0 \<and> hal_rep A V E s' m"
    unfolding s by (rule hal_get_fails)
  show "hal_rep A V E s m \<Longrightarrow> key_ok k \<Longrightarrow>
    \<exists>r s'. Hal_UtilsDeleteValue A E (Some k) s = Some (r, s') \<and> (if k \<in> dom m then r = 0 else r < 0) \<and> hal_rep A V E s' (m(k := None))"
    unfolding s by (rule hal_delete_law)
qed

lemma hal_rep_init:
  assumes "utils_ok A V" and "kv_env_ok E" and "0 \<le> MAX_KV_SUM E" and "MAX_KV_SUM E \<le> 999" and "files (V w) = Map.empty"
  shows "hal_rep A V E (kv_cache_init, w) Map.empty"
  by (rule hal_repI [OF assms(1,2,4,3), where kvs = "[]"]) (use assms in \<open>simp_all add: count_file_def cache_agrees_def\<close>)

text \<open>
  C25 (refinement): on a device that works and is empty at first, the key-value store with its cache, its file per
  key and its file with the number of keys answers every sequence of calls as a map of at most
  \<open>MAX_KV_SUM\<close> keys does: a value is stored unless it has a new key and the map is full, the value last stored is found
  if it fits the buffer, and no call follows a dangling pointer of the cache.
\<close>

theorem hal_store_is_map:
  assumes "utils_ok A V" and "kv_env_ok E" and "0 \<le> MAX_KV_SUM E" and "MAX_KV_SUM E \<le> 999" and "files (V w) = Map.empty"
    and "list_all (call_ok key_ok) xs"
  shows "\<exists>s'. kv_calls_run (\<lambda>k v. Hal_UtilsSetValue A E (Some k) (Some v)) (\<lambda>k b. Hal_UtilsGetValue A E (Some k) (Some b))
      (\<lambda>k. Hal_UtilsDeleteValue A E (Some k)) xs (kv_cache_init, w) = Some (fst (map_calls (MAX_KV_SUM E) xs Map.empty), s')
    \<and> hal_rep A V E s' (snd (map_calls (MAX_KV_SUM E) xs Map.empty))"
  by (rule hal_kv.kv_calls_refine [OF hal_rep_init [OF assms(1-5)] assms(6)])

definition sample_calls :: "kv_call list" where
  "sample_calls =
     [SetValue ''a'' ''x'', SetValue ''b'' ''y'', SetValue ''c'' ''z'', GetValue ''a'' 8, DeleteValue ''a'', GetValue ''a'' 8, GetValue ''b'' 1]"

lemma sample_calls_ok: "list_all (call_ok key_ok) sample_calls"
  by (simp add: sample_calls_def key_ok_def value_ok_def IsValidKey_def IsValidValue_def strnlen_def MAX_KEY_LEN_def MAX_VALUE_LEN_def
      IsValidChar_def c_islower_def MAX_GET_VALUE_LEN_def)

lemma sample_calls_map:
  "fst (map_calls (MAX_KV_SUM two_entries) sample_calls Map.empty) =
     [(True, None), (True, None), (False, None), (True, Some ''x''), (True, None), (False, None), (False, None)]"
  by (simp add: sample_calls_def two_entries_def)

theorem hal_store_is_map_witness:
  "utils_ok ram_files ram_view \<and> kv_env_ok two_entries \<and> 0 \<le> MAX_KV_SUM two_entries \<and> MAX_KV_SUM two_entries \<le> 999
   \<and> files (ram_view ram_empty) = Map.empty \<and> list_all (call_ok key_ok) sample_calls
   \<and> (\<exists>s'. kv_calls_run (\<lambda>k v. Hal_UtilsSetValue ram_files two_entries (Some k) (Some v))
        (\<lambda>k b. Hal_UtilsGetValue ram_files two_entries (Some k) (Some b))
        (\<lambda>k. Hal_UtilsDeleteValue ram_files two_entries (Some k)) sample_calls (kv_cache_init, ram_empty)
      = Some ([(True, None), (True, None), (False, None), (True, Some ''x''), (True, None), (False, None), (False, None)], s'))"
proof -
  have e: "files (ram_view ram_empty) = Map.empty" by (simp add: ram_view_def ram_empty_def)
  have n: "0 \<le> MAX_KV_SUM two_entries" "MAX_KV_SUM two_entries \<le> 999" by (simp_all add: two_entries_def)
  show ?thesis using hal_store_is_map [OF utils_ok_ram two_entries_ok(1) n e sample_calls_ok]
      utils_ok_ram two_entries_ok(1) n e sample_calls_ok unfolding sample_calls_map by blast
qed

end
