(* ===== verification/Kv_Store_Posix.thy ===== *)
theory Kv_Store_Posix
  imports Kv_Store
begin

text \<open>
  The key-value store of the larger systems (kvstore_impl_posix/kv_store.c): the files of the keys are in the
  directory \<open>kvstore\<close> of a data path that the application sets, and the number of keys is kept in memory.  Every call holds the
  global mutex, so it is one step.  The functions of POSIX are the parameter \<open>'w posix_api\<close>; \<open>posix_ok\<close> states what is relied
  on for a file system that works, and \<open>ram_posix\<close> is one.  The store is a second interpretation of \<open>kv_contract\<close>.
\<close>

subsection \<open>The functions of the system\<close>

datatype px_flag = O_RDONLY | O_RDWR | O_CREAT | O_TRUNC

text \<open>
  \<open>px_realpath\<close> gives the resolved path, or nothing and whether the error is \<open>ENOENT\<close>; \<open>px_stat\<close> the size and whether the
  file is a regular one; \<open>px_readdir\<close> the names that \<open>readdir\<close> gives for a directory that can be opened.
\<close>

record 'w posix_api =
  px_realpath :: "string \<Rightarrow> 'w \<Rightarrow> string option \<times> bool"
  px_stat :: "string \<Rightarrow> 'w \<Rightarrow> (nat \<times> bool) option"
  px_access :: "string \<Rightarrow> 'w \<Rightarrow> bool"
  px_readdir :: "string \<Rightarrow> 'w \<Rightarrow> string list option"
  px_open :: "string \<Rightarrow> px_flag list \<Rightarrow> 'w \<Rightarrow> int \<times> 'w"
  px_read :: "int \<Rightarrow> nat \<Rightarrow> 'w \<Rightarrow> (int \<times> string) \<times> 'w"
  px_write :: "int \<Rightarrow> string \<Rightarrow> 'w \<Rightarrow> int \<times> 'w"
  px_close :: "int \<Rightarrow> 'w \<Rightarrow> int \<times> 'w"
  px_unlink :: "string \<Rightarrow> 'w \<Rightarrow> int \<times> 'w"
  px_mkdir :: "string \<Rightarrow> 'w \<Rightarrow> int \<times> 'w"
  px_malloc :: "nat \<Rightarrow> 'w \<Rightarrow> bool"
  px_secure :: "nat \<Rightarrow> nat \<Rightarrow> bool"

definition KVSTORE_PATH :: string where
  "KVSTORE_PATH = ''kvstore''"

definition MAX_KEY_PATH :: nat where
  "MAX_KEY_PATH = 256"

definition PX_PATH_MAX :: nat where
  "PX_PATH_MAX = 4096"

text \<open>The three paths the code formats, each into a buffer of \<open>MAX_KEY_PATH + 1\<close> bytes.\<close>

definition px_format :: "'w posix_api \<Rightarrow> string \<Rightarrow> string option" where
  "px_format P s = (if px_secure P (MAX_KEY_PATH + 1) (length s + 1) then Some s else None)"

definition dir_path :: "string \<Rightarrow> string" where
  "dir_path dataPath = dataPath @ ''/'' @ KVSTORE_PATH"

definition key_path :: "string \<Rightarrow> string \<Rightarrow> string" where
  "key_path dataPath key = dir_path dataPath @ ''/'' @ key"

definition GetResolvedPath :: "'w posix_api \<Rightarrow> string \<Rightarrow> string \<Rightarrow> nat \<Rightarrow> 'w \<Rightarrow> string option" where
  "GetResolvedPath P dataPath key len w =
     (if \<not> px_malloc P (MAX_KEY_PATH + 1) w then None
      else (case px_format P (key_path dataPath key) of
        None \<Rightarrow> None
      | Some keyPath \<Rightarrow>
          (case px_realpath P keyPath w of
             (Some resolved, _) \<Rightarrow> Some resolved
           | (None, enoent) \<Rightarrow>
               if enoent \<and> px_secure P len (length keyPath + 1) then Some keyPath else None)))"

definition Posix_GetValueByFile ::
  "'w posix_api \<Rightarrow> string \<Rightarrow> string \<Rightarrow> string \<Rightarrow> nat \<Rightarrow> 'w \<Rightarrow> (int \<times> string) \<times> 'w" where
  "Posix_GetValueByFile P dataPath key value len w =
     (if \<not> px_malloc P (PX_PATH_MAX + 1) w then ((EC_FAILURE, value), w)
      else (case GetResolvedPath P dataPath key (PX_PATH_MAX + 1) w of
        None \<Rightarrow> ((EC_FAILURE, value), w)
      | Some keyPath \<Rightarrow>
          (case px_stat P keyPath w of
             None \<Rightarrow> ((EC_FAILURE, value), w)
           | Some (st_size, _) \<Rightarrow>
               if st_size \<ge> len then ((EC_FAILURE, value), w)
               else (case px_open P keyPath [O_RDONLY] w of (fd, w) \<Rightarrow>
                 if fd < 0 then ((EC_FAILURE, value), w)
                 else (case px_read P fd st_size w of ((ret, bs), w) \<Rightarrow>
                   let w = snd (px_close P fd w); value = put_bytes 0 bs value in
                   if ret < 0 then ((EC_FAILURE, value), w)
                   else ((int st_size, put_bytes st_size [NUL] value), w))))))"

definition Posix_SetValueToFile :: "'w posix_api \<Rightarrow> string \<Rightarrow> string \<Rightarrow> string \<Rightarrow> 'w \<Rightarrow> int \<times> 'w" where
  "Posix_SetValueToFile P dataPath key value w =
     (if \<not> px_malloc P (PX_PATH_MAX + 1) w then (EC_FAILURE, w)
      else (case GetResolvedPath P dataPath key (PX_PATH_MAX + 1) w of
        None \<Rightarrow> (EC_FAILURE, w)
      | Some keyPath \<Rightarrow>
          (case px_open P keyPath [O_RDWR, O_CREAT, O_TRUNC] w of (fd, w) \<Rightarrow>
             if fd < 0 then (EC_FAILURE, w)
             else (case px_write P fd value w of (ret, w) \<Rightarrow>
               let w = snd (px_close P fd w) in
               (if ret < 0 then EC_FAILURE else EC_SUCCESS, w)))))"

definition Posix_DeleteValueFromFile :: "'w posix_api \<Rightarrow> string \<Rightarrow> string \<Rightarrow> 'w \<Rightarrow> int \<times> 'w" where
  "Posix_DeleteValueFromFile P dataPath key w =
     (if \<not> px_malloc P (MAX_KEY_PATH + 1) w then (EC_FAILURE, w)
      else (case px_format P (key_path dataPath key) of
        None \<Rightarrow> (EC_FAILURE, w)
      | Some keyPath \<Rightarrow> px_unlink P keyPath w))"

definition InitKv :: "'w posix_api \<Rightarrow> string \<Rightarrow> 'w \<Rightarrow> int \<times> 'w" where
  "InitKv P dataPath w =
     (if \<not> px_malloc P (MAX_KEY_PATH + 1) w then (EC_FAILURE, w)
      else (case px_format P (dir_path dataPath) of
        None \<Rightarrow> (EC_FAILURE, w)
      | Some kvPath \<Rightarrow>
          if px_access P kvPath w then (EC_SUCCESS, w)
          else (case px_mkdir P kvPath w of (r, w) \<Rightarrow> if r \<noteq> 0 then (EC_FAILURE, w) else (EC_SUCCESS, w))))"

fun count_regular :: "'w posix_api \<Rightarrow> string \<Rightarrow> 'w \<Rightarrow> string list \<Rightarrow> int \<Rightarrow> int" where
  "count_regular P kvPath w [] n = n"
| "count_regular P kvPath w (d_name # ds) n =
     (case px_format P (kvPath @ ''/'' @ d_name) of
        None \<Rightarrow> EC_FAILURE
      | Some fullPath \<Rightarrow>
          (case px_stat P fullPath w of
             None \<Rightarrow> EC_FAILURE
           | Some (_, regular) \<Rightarrow> count_regular P kvPath w ds (if regular then n + 1 else n)))"

definition Posix_GetCurrentItem :: "'w posix_api \<Rightarrow> string \<Rightarrow> 'w \<Rightarrow> int" where
  "Posix_GetCurrentItem P dataPath w =
     (case px_format P (dir_path dataPath) of
        None \<Rightarrow> EC_FAILURE
      | Some kvPath \<Rightarrow>
          (case px_readdir P kvPath w of None \<Rightarrow> EC_FAILURE | Some ds \<Rightarrow> count_regular P kvPath w ds 0))"

definition Posix_NewItem :: "'w posix_api \<Rightarrow> string \<Rightarrow> string \<Rightarrow> 'w \<Rightarrow> bool" where
  "Posix_NewItem P dataPath key w =
     (if \<not> px_malloc P (MAX_KEY_PATH + 1) w then False
      else (case px_format P (key_path dataPath key) of
        None \<Rightarrow> False
      | Some keyPath \<Rightarrow> if px_access P keyPath w then False else True))"

subsection \<open>The store\<close>

text \<open>The global variables.  The pointer to the array \<open>g_dataPath\<close> is never null, so the tests for it never fail.\<close>

record posix_globals =
  g_kvSum :: int
  g_getKvSum :: bool
  g_dataPath :: string

type_synonym 'w posix_kv = "posix_globals \<times> kv_cache \<times> 'w"

definition Posix_UtilsGetValue ::
  "'w posix_api \<Rightarrow> kv_env \<Rightarrow> string option \<Rightarrow> string option \<Rightarrow> nat \<Rightarrow> 'w posix_kv \<Rightarrow> ((int \<times> string option) \<times> 'w posix_kv) option" where
  "Posix_UtilsGetValue P E key value len s =
     (case s of (g, c, w) \<Rightarrow>
        if \<not> IsValidKey key \<or> value = None \<or> len > MAX_GET_VALUE_LEN then Some ((EC_INVALID, value), s)
        else do {
          (r, v) \<leftarrow> GetValueByCache E key (value \<noteq> None) len c;
          if r = EC_SUCCESS then Some ((EC_SUCCESS, Some (put_bytes 0 (v @ [NUL]) (the value))), s)
          else (case Posix_GetValueByFile P (g_dataPath g) (the key) (the value) len w of ((ret, buf), w) \<Rightarrow>
            if ret < 0 then Some ((EC_FAILURE, Some buf), (g, c, w))
            else do {
              c \<leftarrow> AddKVCache E key (Some (cstr buf)) False c;
              Some ((ret, Some buf), (g, c, w)) }) })"

definition Posix_UtilsSetValue ::
  "'w posix_api \<Rightarrow> kv_env \<Rightarrow> string option \<Rightarrow> string option \<Rightarrow> 'w posix_kv \<Rightarrow> (int \<times> 'w posix_kv) option" where
  "Posix_UtilsSetValue P E key value s =
     (case s of (g, c, w) \<Rightarrow>
        if \<not> IsValidKey key \<or> \<not> IsValidValue value MAX_VALUE_LEN then Some (EC_INVALID, s)
        else (case InitKv P (g_dataPath g) w of (ret, w) \<Rightarrow>
          if ret \<noteq> EC_SUCCESS then Some (EC_FAILURE, (g\<lparr>g_getKvSum := False\<rparr>, c, w))
          else
            let g = (if \<not> g_getKvSum g then g\<lparr>g_kvSum := Posix_GetCurrentItem P (g_dataPath g) w\<rparr> else g) in
            if \<not> g_getKvSum g \<and> g_kvSum g < 0 then Some (EC_FAILURE, (g, c, w))
            else
              let g = g\<lparr>g_getKvSum := True\<rparr>; newItem = Posix_NewItem P (g_dataPath g) (the key) w in
              if g_kvSum g \<ge> MAX_KV_SUM E \<and> newItem then Some (EC_FAILURE, (g, c, w))
              else (case Posix_SetValueToFile P (g_dataPath g) (the key) (the value) w of (ret, w) \<Rightarrow>
                if ret = EC_SUCCESS then do {
                  c \<leftarrow> AddKVCache E key value True c;
                  Some (ret, (if newItem then g\<lparr>g_kvSum := g_kvSum g + 1\<rparr> else g, c, w)) }
                else Some (ret, (g, c, w)))))"

definition Posix_UtilsDeleteValue ::
  "'w posix_api \<Rightarrow> kv_env \<Rightarrow> string option \<Rightarrow> 'w posix_kv \<Rightarrow> (int \<times> 'w posix_kv) option" where
  "Posix_UtilsDeleteValue P E key s =
     (case s of (g, c, w) \<Rightarrow>
        if \<not> IsValidKey key then Some (EC_INVALID, s)
        else do {
          c \<leftarrow> DeleteKVCache key c;
          case Posix_DeleteValueFromFile P (g_dataPath g) (the key) w of (ret, w) \<Rightarrow>
            if ret = EC_SUCCESS then Some (ret, (g\<lparr>g_kvSum := g_kvSum g - 1\<rparr>, c, w)) else Some (ret, (g, c, w)) })"

definition Posix_ClearKVCache :: "'w posix_kv \<Rightarrow> (int \<times> 'w posix_kv) option" where
  "Posix_ClearKVCache s = (case s of (g, c, w) \<Rightarrow> do { (r, c) \<leftarrow> ClearKVCacheInner c; Some (r, (g, c, w)) })"

definition Posix_UtilsSetEnv :: "'w posix_api \<Rightarrow> string option \<Rightarrow> 'w posix_kv \<Rightarrow> int \<times> 'w posix_kv" where
  "Posix_UtilsSetEnv P path s =
     (case s of (g, c, w) \<Rightarrow>
        (case path of
           None \<Rightarrow> (EC_FAILURE, s)
         | Some p \<Rightarrow>
             if px_secure P (MAX_KEY_PATH + 1) (length p + 1) then (EC_SUCCESS, (g\<lparr>g_dataPath := p\<rparr>, c, w))
             else (EC_FAILURE, (g\<lparr>g_dataPath := []\<rparr>, c, w))))"

subsection \<open>A file system that works\<close>

record px_view =
  pfiles :: "string \<rightharpoonup> string"
  pdirs :: "string set"
  pfds :: "int \<rightharpoonup> string \<times> nat"

text \<open>The files and directories of the view are named by their canonical paths.\<close>

definition entry_of :: "string \<Rightarrow> string \<Rightarrow> string \<Rightarrow> bool" where
  "entry_of d n p \<longleftrightarrow> p = d @ ''/'' @ n \<and> CHR ''/'' \<notin> set n \<and> n \<noteq> []"

definition px_names_ok :: "'w posix_api \<Rightarrow> ('w \<Rightarrow> px_view) \<Rightarrow> bool" where
  "px_names_ok P V \<longleftrightarrow> (\<forall>p w.
     (p \<in> dom (pfiles (V w)) \<longrightarrow> fst (px_realpath P p w) = Some p)
     \<and> (p \<notin> dom (pfiles (V w)) \<union> pdirs (V w) \<longrightarrow> px_realpath P p w = (None, True))
     \<and> (px_access P p w \<longleftrightarrow> p \<in> dom (pfiles (V w)) \<union> pdirs (V w)))"

definition px_stat_ok :: "'w posix_api \<Rightarrow> ('w \<Rightarrow> px_view) \<Rightarrow> bool" where
  "px_stat_ok P V \<longleftrightarrow> (\<forall>p w.
     (\<forall>b. pfiles (V w) p = Some b \<longrightarrow> px_stat P p w = Some (length b, True))
     \<and> (p \<notin> dom (pfiles (V w)) \<longrightarrow> p \<in> pdirs (V w) \<or> (\<exists>d \<in> pdirs (V w). p = d @ ''/.'' \<or> p = d @ ''/..'') \<longrightarrow>
          (\<exists>n. px_stat P p w = Some (n, False)))
     \<and> (p \<notin> dom (pfiles (V w)) \<longrightarrow> p \<notin> pdirs (V w) \<longrightarrow> (\<forall>d. p \<noteq> d @ ''/.'' \<and> p \<noteq> d @ ''/..'') \<longrightarrow> px_stat P p w = None))"

definition px_readdir_ok :: "'w posix_api \<Rightarrow> ('w \<Rightarrow> px_view) \<Rightarrow> bool" where
  "px_readdir_ok P V \<longleftrightarrow> (\<forall>d w. d \<in> pdirs (V w) \<longrightarrow>
     (\<exists>ds. px_readdir P d w = Some ds \<and> distinct ds
       \<and> set ds = {''.'', ''..''} \<union> {n. \<exists>p \<in> dom (pfiles (V w)) \<union> pdirs (V w). entry_of d n p}))"

definition px_open_ok :: "'w posix_api \<Rightarrow> ('w \<Rightarrow> px_view) \<Rightarrow> bool" where
  "px_open_ok P V \<longleftrightarrow> (\<forall>p fl w.
     p \<in> dom (pfiles (V w)) \<or> O_CREAT \<in> set fl \<and> p \<notin> pdirs (V w) \<and> (\<exists>d \<in> pdirs (V w). \<exists>n. entry_of d n p) \<longrightarrow>
     (\<exists>fd w'. px_open P p fl w = (fd, w') \<and> 0 \<le> fd \<and> pfds (V w) fd = None
        \<and> V w' = (if p \<notin> dom (pfiles (V w)) \<or> O_TRUNC \<in> set fl
                  then (V w)\<lparr>pfiles := (pfiles (V w))(p \<mapsto> []), pfds := (pfds (V w))(fd \<mapsto> (p, 0))\<rparr>
                  else (V w)\<lparr>pfds := (pfds (V w))(fd \<mapsto> (p, 0))\<rparr>)))"

definition px_rw_ok :: "'w posix_api \<Rightarrow> ('w \<Rightarrow> px_view) \<Rightarrow> bool" where
  "px_rw_ok P V \<longleftrightarrow> (\<forall>fd w p pos b. pfds (V w) fd = Some (p, pos) \<and> pfiles (V w) p = Some b \<longrightarrow>
     (\<forall>n. \<exists>w'. px_read P fd n w = ((int (length (take n (drop pos b))), take n (drop pos b)), w')
        \<and> V w' = (V w)\<lparr>pfds := (pfds (V w))(fd \<mapsto> (p, pos + length (take n (drop pos b))))\<rparr>)
     \<and> (\<forall>bs. pos \<le> length b \<longrightarrow> (\<exists>w'. px_write P fd bs w = (int (length bs), w')
        \<and> V w' = (V w)\<lparr>pfiles := (pfiles (V w))(p \<mapsto> put_bytes pos bs b), pfds := (pfds (V w))(fd \<mapsto> (p, pos + length bs))\<rparr>))
     \<and> V (snd (px_close P fd w)) = (V w)\<lparr>pfds := (pfds (V w))(fd := None)\<rparr>)"

definition px_change_ok :: "'w posix_api \<Rightarrow> ('w \<Rightarrow> px_view) \<Rightarrow> bool" where
  "px_change_ok P V \<longleftrightarrow> (\<forall>p w.
     (p \<in> dom (pfiles (V w)) \<longrightarrow> (\<exists>w'. px_unlink P p w = (0, w') \<and> V w' = (V w)\<lparr>pfiles := (pfiles (V w))(p := None)\<rparr>))
     \<and> (p \<notin> dom (pfiles (V w)) \<longrightarrow> (\<exists>w'. px_unlink P p w = (- 1, w') \<and> V w' = V w))
     \<and> (p \<notin> dom (pfiles (V w)) \<union> pdirs (V w) \<and> (\<exists>d \<in> pdirs (V w). \<exists>n. entry_of d n p) \<longrightarrow>
          (\<exists>w'. px_mkdir P p w = (0, w') \<and> V w' = (V w)\<lparr>pdirs := insert p (pdirs (V w))\<rparr>)))"

definition posix_ok :: "'w posix_api \<Rightarrow> ('w \<Rightarrow> px_view) \<Rightarrow> bool" where
  "posix_ok P V \<longleftrightarrow> px_names_ok P V \<and> px_stat_ok P V \<and> px_readdir_ok P V \<and> px_open_ok P V \<and> px_rw_ok P V \<and> px_change_ok P V
     \<and> (\<forall>n w. px_malloc P n w) \<and> (\<forall>d k. 0 < k \<and> k \<le> d \<and> d < 2 ^ 31 \<longrightarrow> px_secure P d k)"

text \<open>Opening, using and closing a file.\<close>

lemma px_replace_file:
  assumes P: "posix_ok P V" and p: "p \<in> dom (pfiles (V w)) \<or> p \<notin> pdirs (V w) \<and> (\<exists>d \<in> pdirs (V w). \<exists>n. entry_of d n p)"
  obtains fd w1 w2 where "px_open P p [O_RDWR, O_CREAT, O_TRUNC] w = (fd, w1)" "0 \<le> fd" "px_write P fd bs w1 = (int (length bs), w2)"
    "V (snd (px_close P fd w2)) = (V w)\<lparr>pfiles := (pfiles (V w))(p \<mapsto> bs)\<rparr>"
proof -
  have o: "px_open_ok P V" "px_rw_ok P V" using P by (auto simp: posix_ok_def)
  obtain fd w1 where 1: "px_open P p [O_RDWR, O_CREAT, O_TRUNC] w = (fd, w1)" "0 \<le> fd" "pfds (V w) fd = None"
    "V w1 = (V w)\<lparr>pfiles := (pfiles (V w))(p \<mapsto> []), pfds := (pfds (V w))(fd \<mapsto> (p, 0))\<rparr>"
    using o(1)[unfolded px_open_ok_def, rule_format, of p w "[O_RDWR, O_CREAT, O_TRUNC]"] p by auto
  obtain w2 where 2: "px_write P fd bs w1 = (int (length bs), w2)"
    "V w2 = (V w)\<lparr>pfiles := (pfiles (V w))(p \<mapsto> bs), pfds := (pfds (V w))(fd \<mapsto> (p, length bs))\<rparr>"
    using o(2)[unfolded px_rw_ok_def, rule_format, of w1 fd p 0 "[]"] 1 by (auto simp: put_bytes_def)
  have "V (snd (px_close P fd w2)) = (V w2)\<lparr>pfds := (pfds (V w2))(fd := None)\<rparr>"
    using o(2)[unfolded px_rw_ok_def, rule_format, of w2 fd p "length bs" bs] 2 by simp
  then show thesis using that [OF 1(1,2) 2(1)] 1 2 by (simp add: fun_upd_idem)
qed

lemma px_read_file:
  assumes P: "posix_ok P V" and p: "pfiles (V w) p = Some b"
  obtains fd w1 w2 where "px_open P p [O_RDONLY] w = (fd, w1)" "0 \<le> fd"
    "px_read P fd (length b) w1 = ((int (length b), b), w2)" "V (snd (px_close P fd w2)) = V w"
proof -
  have o: "px_open_ok P V" "px_rw_ok P V" using P by (auto simp: posix_ok_def)
  obtain fd w1 where 1: "px_open P p [O_RDONLY] w = (fd, w1)" "0 \<le> fd" "pfds (V w) fd = None"
    "V w1 = (V w)\<lparr>pfds := (pfds (V w))(fd \<mapsto> (p, 0))\<rparr>"
    using o(1)[unfolded px_open_ok_def, rule_format, of p w "[O_RDONLY]"] p by auto
  obtain w2 where 2: "px_read P fd (length b) w1 = ((int (length b), b), w2)"
    "V w2 = (V w)\<lparr>pfds := (pfds (V w))(fd \<mapsto> (p, length b))\<rparr>"
    using o(2)[unfolded px_rw_ok_def, rule_format, of w1 fd p 0 b, THEN conjunct1, THEN spec, of "length b"] 1 p by auto
  have "V (snd (px_close P fd w2)) = (V w2)\<lparr>pfds := (pfds (V w2))(fd := None)\<rparr>"
    using o(2)[unfolded px_rw_ok_def, rule_format, of w2 fd p "length b" b] 2 p by simp
  then show thesis using that [OF 1(1,2) 2(1)] 1 2 by (simp add: fun_upd_idem)
qed
subsection \<open>The store as a map\<close>

definition px_key :: "string \<Rightarrow> bool" where
  "px_key k \<longleftrightarrow> key_ok k \<and> k \<noteq> ''.'' \<and> k \<noteq> ''..''"

text \<open>
  The directory holds exactly the keys of the map, or does not exist yet; the number in memory, once it has been
  computed, is that of the keys.
\<close>

definition px_dir_with :: "px_view \<Rightarrow> string \<Rightarrow> (string \<rightharpoonup> string) \<Rightarrow> bool" where
  "px_dir_with F dp m \<longleftrightarrow>
     (\<forall>n. CHR ''/'' \<notin> set n \<and> n \<noteq> [] \<longrightarrow> pfiles F (key_path dp n) = m n \<and> key_path dp n \<notin> pdirs F)
     \<and> (\<forall>k \<in> dom m. px_key k) \<and> (\<forall>v \<in> ran m. value_ok v) \<and> finite (dom m)
     \<and> (dir_path dp \<in> pdirs F \<or> m = Map.empty \<and> dp \<in> pdirs F \<and> dir_path dp \<notin> dom (pfiles F))"

definition posix_with ::
  "'w posix_api \<Rightarrow> ('w \<Rightarrow> px_view) \<Rightarrow> kv_env \<Rightarrow> posix_globals \<Rightarrow> kv_cache \<Rightarrow> 'w \<Rightarrow> (string \<rightharpoonup> string) \<Rightarrow> (string \<times> string) list \<Rightarrow> bool" where
  "posix_with P V E g c w m kvs \<longleftrightarrow>
     posix_ok P V \<and> kv_env_ok E \<and> length (g_dataPath g) \<le> 216 \<and> px_dir_with (V w) (g_dataPath g) m
     \<and> (g_getKvSum g \<longrightarrow> g_kvSum g = int (card (dom m))) \<and> cache_holds c kvs \<and> cache_agrees kvs m"

definition posix_rep ::
  "'w posix_api \<Rightarrow> ('w \<Rightarrow> px_view) \<Rightarrow> kv_env \<Rightarrow> 'w posix_kv \<Rightarrow> (string \<rightharpoonup> string) \<Rightarrow> bool" where
  "posix_rep P V E s m \<longleftrightarrow> (\<exists>kvs. posix_with P V E (fst s) (fst (snd s)) (snd (snd s)) m kvs)"

lemma posix_withD:
  assumes "posix_with P V E g c w m kvs"
  shows "posix_ok P V" "kv_env_ok E" "length (g_dataPath g) \<le> 216" "px_dir_with (V w) (g_dataPath g) m"
    "g_getKvSum g \<Longrightarrow> g_kvSum g = int (card (dom m))" "cache_holds c kvs" "cache_agrees kvs m" "finite (dom m)" "\<forall>v \<in> ran m. value_ok v"
  using assms by (auto simp: posix_with_def px_dir_with_def)

lemma posix_repI:
  assumes "posix_ok P V" "kv_env_ok E" "length (g_dataPath g) \<le> 216" "px_dir_with (V w) (g_dataPath g) m"
    "g_getKvSum g \<Longrightarrow> g_kvSum g = int (card (dom m))" "cache_holds c kvs" "cache_agrees kvs m"
  shows "posix_rep P V E (g, c, w) m"
  using assms by (auto simp: posix_rep_def posix_with_def)

lemma key_ok_name: "key_ok k \<Longrightarrow> CHR ''/'' \<notin> set k \<and> k \<noteq> []"
proof -
  assume k: "key_ok k"
  have len: "length k < 32" using key_ok_length [OF k] by (simp add: MAX_KEY_LEN_def)
  have "list_all IsValidChar k" using k len by (simp add: key_ok_def IsValidKey_def strnlen_def MAX_KEY_LEN_def split: if_splits)
  moreover have "\<not> IsValidChar (CHR ''/'')" by (simp add: IsValidChar_def c_islower_def is_digit_def)
  moreover have "k \<noteq> []" using k by (auto simp: key_ok_def IsValidKey_def IsValidValue_def strnlen_def split: if_splits)
  ultimately show ?thesis by (auto simp: list_all_iff)
qed

lemma px_dir_key:
  assumes "px_dir_with F dp m" and "px_key k"
  shows "pfiles F (key_path dp k) = m k" "key_path dp k \<notin> pdirs F"
  using assms key_ok_name [of k] by (auto simp: px_dir_with_def px_key_def)

lemma key_path_inj [simp]: "key_path dp k = key_path dp k' \<longleftrightarrow> k = k'"
  by (simp add: key_path_def)

lemma px_formats:
  assumes "posix_ok P V" and "length dp \<le> 216" and "length n < 32"
  shows "px_format P (key_path dp n) = Some (key_path dp n)" "px_format P (dir_path dp) = Some (dir_path dp)"
    "px_secure P (PX_PATH_MAX + 1) (length (key_path dp n) + 1)"
  using assms by (auto simp: posix_ok_def px_format_def key_path_def dir_path_def KVSTORE_PATH_def MAX_KEY_PATH_def PX_PATH_MAX_def)

lemma px_key_length: "px_key k \<Longrightarrow> length k < 32"
  using key_ok_length [of k] by (simp add: px_key_def MAX_KEY_LEN_def)

lemma GetResolvedPath_key:
  assumes P: "posix_ok P V" and dp: "length dp \<le> 216" and D: "px_dir_with (V w) dp m" and k: "px_key k"
  shows "GetResolvedPath P dp k (PX_PATH_MAX + 1) w = Some (key_path dp k)"
proof -
  note f = px_formats [OF P dp px_key_length [OF k]] and d = px_dir_key [OF D k]
  have n: "px_names_ok P V" and ml: "px_malloc P x w" for x using P by (auto simp: posix_ok_def)
  show ?thesis
  proof (cases "m k")
    case None
    then have "px_realpath P (key_path dp k) w = (None, True)" using n d by (auto simp: px_names_ok_def)
    then show ?thesis using f ml by (simp add: GetResolvedPath_def)
  next
    case (Some v)
    then have "fst (px_realpath P (key_path dp k) w) = Some (key_path dp k)" using n d by (auto simp: px_names_ok_def)
    then show ?thesis using f ml by (cases "px_realpath P (key_path dp k) w") (simp add: GetResolvedPath_def)
  qed
qed

lemma Posix_NewItem_key:
  assumes P: "posix_ok P V" and dp: "length dp \<le> 216" and D: "px_dir_with (V w) dp m" and k: "px_key k"
  shows "Posix_NewItem P dp k w \<longleftrightarrow> m k = None"
proof -
  have "px_names_ok P V" and "px_malloc P x w" for x using P by (auto simp: posix_ok_def)
  then show ?thesis using px_formats(1) [OF P dp px_key_length [OF k]] px_dir_key [OF D k]
    by (simp add: Posix_NewItem_def px_names_ok_def domIff)
qed

lemma InitKv_dir:
  assumes P: "posix_ok P V" and dp: "length dp \<le> 216" and D: "px_dir_with (V w) dp m"
  obtains w' where "InitKv P dp w = (EC_SUCCESS, w')" "px_dir_with (V w') dp m" "dir_path dp \<in> pdirs (V w')" "pfiles (V w') = pfiles (V w)"
proof -
  have n: "px_names_ok P V" "px_change_ok P V" and ml: "px_malloc P x w" for x using P by (auto simp: posix_ok_def)
  have f: "px_format P (dir_path dp) = Some (dir_path dp)" using px_formats(2) [OF P dp, of "[]"] by simp
  show thesis
  proof (cases "dir_path dp \<in> pdirs (V w)")
    case True
    then have "InitKv P dp w = (EC_SUCCESS, w)" using n ml f by (simp add: InitKv_def px_names_ok_def)
    then show thesis using that D True by blast
  next
    case False
    then have m: "m = Map.empty" "dp \<in> pdirs (V w)" "dir_path dp \<notin> dom (pfiles (V w))" using D by (auto simp: px_dir_with_def)
    have "entry_of dp KVSTORE_PATH (dir_path dp)" by (simp add: entry_of_def dir_path_def KVSTORE_PATH_def)
    then obtain w' where w': "px_mkdir P (dir_path dp) w = (0, w')" "V w' = (V w)\<lparr>pdirs := insert (dir_path dp) (pdirs (V w))\<rparr>"
      using n(2)[unfolded px_change_ok_def, rule_format, of "dir_path dp" w] False m by blast
    have "InitKv P dp w = (EC_SUCCESS, w')" using n ml f w' False m by (simp add: InitKv_def px_names_ok_def)
    moreover have "px_dir_with (V w') dp m" using D w' by (auto simp: px_dir_with_def key_path_def)
    ultimately show thesis using that w' by simp
  qed
qed

lemma count_regular_filter:
  assumes "\<And>n. n \<in> set ds \<Longrightarrow> px_format P (kv @ ''/'' @ n) = Some (kv @ ''/'' @ n) \<and> (\<exists>z. px_stat P (kv @ ''/'' @ n) w = Some (z, n \<in> K))"
  shows "count_regular P kv w ds i = i + int (length (filter (\<lambda>n. n \<in> K) ds))"
  using assms
proof (induction ds arbitrary: i)
  case (Cons n ds)
  from Cons.prems [of n] obtain z where "px_format P (kv @ ''/'' @ n) = Some (kv @ ''/'' @ n)" "px_stat P (kv @ ''/'' @ n) w = Some (z, n \<in> K)"
    by auto
  moreover have "count_regular P kv w ds j = j + int (length (filter (\<lambda>n. n \<in> K) ds))" for j using Cons by simp
  ultimately show ?case by simp
qed simp

lemma Posix_GetCurrentItem_count:
  assumes P: "posix_ok P V" and dp: "length dp \<le> 216" and D: "px_dir_with (V w) dp m" and dir: "dir_path dp \<in> pdirs (V w)"
  shows "Posix_GetCurrentItem P dp w = int (card (dom m))"
proof -
  have o: "px_readdir_ok P V" "px_stat_ok P V" using P by (auto simp: posix_ok_def)
  obtain ds where ds: "px_readdir P (dir_path dp) w = Some ds" "distinct ds"
    "set ds = {''.'', ''..''} \<union> {n. \<exists>p \<in> dom (pfiles (V w)) \<union> pdirs (V w). entry_of (dir_path dp) n p}"
    using o(1)[unfolded px_readdir_ok_def, rule_format, OF dir] by blast
  have names: "{n. \<exists>p \<in> dom (pfiles (V w)) \<union> pdirs (V w). entry_of (dir_path dp) n p} = dom m"
  proof -
    have "(\<exists>p \<in> dom (pfiles (V w)) \<union> pdirs (V w). entry_of (dir_path dp) n p) \<longleftrightarrow> n \<in> dom m" for n
    proof
      assume "n \<in> dom m"
      then have "px_key n" using D by (auto simp: px_dir_with_def)
      then show "\<exists>p \<in> dom (pfiles (V w)) \<union> pdirs (V w). entry_of (dir_path dp) n p"
        using px_dir_key [OF D \<open>px_key n\<close>] key_ok_name [of n] \<open>n \<in> dom m\<close>
        by (auto simp: px_key_def entry_of_def key_path_def intro!: bexI [of _ "key_path dp n"])
    next
      assume "\<exists>p \<in> dom (pfiles (V w)) \<union> pdirs (V w). entry_of (dir_path dp) n p"
      then show "n \<in> dom m" using D by (fastforce simp: entry_of_def px_dir_with_def key_path_def)
    qed
    then show ?thesis by auto
  qed
  have dots: "''.'' \<notin> dom m" "''..'' \<notin> dom m" using D by (auto simp: px_dir_with_def px_key_def)
  have each: "px_format P (dir_path dp @ ''/'' @ n) = Some (dir_path dp @ ''/'' @ n)
      \<and> (\<exists>z. px_stat P (dir_path dp @ ''/'' @ n) w = Some (z, n \<in> dom m))" if n: "n \<in> set ds" for n
  proof -
    have nin: "n = ''.'' \<or> n = ''..'' \<or> n \<in> dom m" using n unfolding ds(3) names by auto
    have "\<forall>k \<in> dom m. length k < 32" using D px_key_length by (simp add: px_dir_with_def)
    then have len: "length n < 32" using nin by auto
    have f: "px_format P (dir_path dp @ ''/'' @ n) = Some (dir_path dp @ ''/'' @ n)"
      using px_formats(1) [OF P dp len] by (simp add: key_path_def)
    show ?thesis
    proof (cases "n \<in> dom m")
      case True
      then have "px_key n" using D by (auto simp: px_dir_with_def)
      then have "pfiles (V w) (dir_path dp @ ''/'' @ n) = m n" using px_dir_key(1) [OF D] by (simp add: key_path_def)
      then obtain b where "pfiles (V w) (dir_path dp @ ''/'' @ n) = Some b" using True by auto
      then have "px_stat P (dir_path dp @ ''/'' @ n) w = Some (length b, True)" using o(2) unfolding px_stat_ok_def by blast
      then show ?thesis using True f by simp
    next
      case False
      then have nn: "n = ''.'' \<or> n = ''..''" using nin by auto
      then have "pfiles (V w) (dir_path dp @ ''/'' @ n) = m n" using D by (auto simp: px_dir_with_def key_path_def)
      then have "dir_path dp @ ''/'' @ n \<notin> dom (pfiles (V w))" using False by auto
      moreover have "\<exists>d \<in> pdirs (V w). dir_path dp @ ''/'' @ n = d @ ''/.'' \<or> dir_path dp @ ''/'' @ n = d @ ''/..''" using nn dir by auto
      ultimately have "\<exists>z. px_stat P (dir_path dp @ ''/'' @ n) w = Some (z, False)" using o(2) unfolding px_stat_ok_def by blast
      then show ?thesis using f False by simp
    qed
  qed
  have "length (filter (\<lambda>n. n \<in> dom m) ds) = card (dom m)"
  proof -
    have "{n. n \<in> dom m} \<inter> set ds = dom m" unfolding ds(3) names by auto
    then show ?thesis using distinct_length_filter [OF ds(2), of "\<lambda>n. n \<in> dom m"] by (simp only:)
  qed
  then show ?thesis using count_regular_filter [of ds P "dir_path dp" w "dom m" 0, OF each] ds(1) px_formats(2) [OF P dp, of "[]"]
    by (simp add: Posix_GetCurrentItem_def)
qed
lemma Posix_SetValueToFile_stores:
  assumes P: "posix_ok P V" and dp: "length dp \<le> 216" and D: "px_dir_with (V w) dp m" and k: "px_key k" and dir: "dir_path dp \<in> pdirs (V w)"
  obtains w' where "Posix_SetValueToFile P dp k v w = (EC_SUCCESS, w')" "V w' = (V w)\<lparr>pfiles := (pfiles (V w))(key_path dp k \<mapsto> v)\<rparr>"
proof -
  have ml: "px_malloc P x w" for x using P by (auto simp: posix_ok_def)
  have "entry_of (dir_path dp) k (key_path dp k)" using k key_ok_name [of k] by (simp add: px_key_def entry_of_def key_path_def)
  then have e: "key_path dp k \<in> dom (pfiles (V w)) \<or> key_path dp k \<notin> pdirs (V w) \<and> (\<exists>d \<in> pdirs (V w). \<exists>n. entry_of d n (key_path dp k))"
    using px_dir_key(2) [OF D k] dir by blast
  obtain fd w1 w2 where 1: "px_open P (key_path dp k) [O_RDWR, O_CREAT, O_TRUNC] w = (fd, w1)" "0 \<le> fd" "px_write P fd v w1 = (int (length v), w2)"
    "V (snd (px_close P fd w2)) = (V w)\<lparr>pfiles := (pfiles (V w))(key_path dp k \<mapsto> v)\<rparr>" by (rule px_replace_file [OF P e])
  show thesis by (rule that [of "snd (px_close P fd w2)"])
      (use ml GetResolvedPath_key [OF P dp D k] 1 in \<open>simp_all add: Posix_SetValueToFile_def\<close>)
qed

lemma px_dir_update:
  assumes "px_dir_with F dp m" and "px_key k" and "value_ok v" and "dir_path dp \<in> pdirs F"
  shows "px_dir_with (F\<lparr>pfiles := (pfiles F)(key_path dp k \<mapsto> v)\<rparr>) dp (m(k \<mapsto> v))"
  using assms by (auto simp: px_dir_with_def ran_def split: if_splits)

lemma px_dir_delete:
  assumes "px_dir_with F dp m" and "px_key k"
  shows "px_dir_with (F\<lparr>pfiles := (pfiles F)(key_path dp k := None)\<rparr>) dp (m(k := None))"
  using assms by (auto simp: px_dir_with_def ran_def split: if_splits)

lemma Posix_GetValueByFile_reads:
  assumes P: "posix_ok P V" and dp: "length dp \<le> 216" and D: "px_dir_with (V w) dp m" and k: "px_key k"
    and b: "m k = Some b" "length b < len" "length buf = len"
  obtains w' where "Posix_GetValueByFile P dp k buf len w = ((int (length b), b @ NUL # drop (length b + 1) buf), w')" "V w' = V w"
proof -
  have ml: "px_malloc P x w" and st: "px_stat_ok P V" for x using P by (auto simp: posix_ok_def)
  have f: "pfiles (V w) (key_path dp k) = Some b" using px_dir_key(1) [OF D k] b by simp
  then have s: "px_stat P (key_path dp k) w = Some (length b, True)" using st unfolding px_stat_ok_def by blast
  obtain fd w1 w2 where 1: "px_open P (key_path dp k) [O_RDONLY] w = (fd, w1)" "0 \<le> fd"
    "px_read P fd (length b) w1 = ((int (length b), b), w2)" "V (snd (px_close P fd w2)) = V w" by (rule px_read_file [OF P f])
  have "put_bytes (length b) [NUL] (put_bytes 0 b buf) = b @ NUL # drop (length b + 1) buf" by (simp add: put_bytes_def)
  then show thesis
    by (intro that [of "snd (px_close P fd w2)"]) (use ml GetResolvedPath_key [OF P dp D k] s 1 b in \<open>simp_all add: Posix_GetValueByFile_def\<close>)
qed

lemma Posix_GetValueByFile_fails:
  assumes P: "posix_ok P V" and dp: "length dp \<le> 216" and D: "px_dir_with (V w) dp m" and k: "px_key k"
    and b: "\<forall>b. m k = Some b \<longrightarrow> len \<le> length b"
  shows "Posix_GetValueByFile P dp k buf len w = ((EC_FAILURE, buf), w)"
proof -
  have ml: "px_malloc P x w" and st: "px_stat_ok P V" for x using P by (auto simp: posix_ok_def)
  note r = GetResolvedPath_key [OF P dp D k] and d = px_dir_key [OF D k]
  show ?thesis
  proof (cases "m k")
    case None
    have nd: "key_path dp k \<noteq> d @ ''/.'' \<and> key_path dp k \<noteq> d @ ''/..''" for d
    proof -
      obtain x z where "k = x @ [z]" using k key_ok_name [of k] by (cases k rule: rev_cases) (auto simp: px_key_def)
      moreover have "CHR ''/'' \<notin> set k" using k key_ok_name [of k] by (simp add: px_key_def)
      moreover have "k \<noteq> ''.''" "k \<noteq> ''..''" using k by (simp_all add: px_key_def)
      ultimately show ?thesis unfolding key_path_def
        by (cases x rule: rev_cases) (auto simp: append_eq_append_conv2 append_eq_Cons_conv Cons_eq_append_conv)
    qed
    have "px_stat P (key_path dp k) w = None"
      using st[unfolded px_stat_ok_def, rule_format, of w "key_path dp k"] d None nd by (auto simp: domIff)
    then show ?thesis using ml r by (simp add: Posix_GetValueByFile_def)
  next
    case (Some v)
    then have "px_stat P (key_path dp k) w = Some (length v, True)" using st d unfolding px_stat_ok_def by metis
    then show ?thesis using ml r b Some by (simp add: Posix_GetValueByFile_def)
  qed
qed
lemma posix_set_law:
  assumes rep: "posix_rep P V E (g, c, w) m" and k: "px_key k" and v: "value_ok v" and room: "k \<in> dom m \<or> int (card (dom m)) < MAX_KV_SUM E"
  shows "\<exists>s'. Posix_UtilsSetValue P E (Some k) (Some v) (g, c, w) = Some (0, s') \<and> posix_rep P V E s' (m(k \<mapsto> v))"
proof -
  obtain kvs where "posix_with P V E g c w m kvs" using rep by (auto simp: posix_rep_def)
  note R = posix_withD [OF this]
  let ?dp = "g_dataPath g" and ?n = "int (card (dom m))"
  obtain w1 where 1: "InitKv P ?dp w = (EC_SUCCESS, w1)" "px_dir_with (V w1) ?dp m" "dir_path ?dp \<in> pdirs (V w1)"
    by (rule InitKv_dir [OF R(1,3,4)])
  obtain w2 where 2: "Posix_SetValueToFile P ?dp k v w1 = (EC_SUCCESS, w2)" "V w2 = (V w1)\<lparr>pfiles := (pfiles (V w1))(key_path ?dp k \<mapsto> v)\<rparr>"
    by (rule Posix_SetValueToFile_stores [OF R(1,3) 1(2) k 1(3)])
  obtain c' kvs' where 3: "AddKVCache E (Some k) (Some v) True c = Some c'" "cache_holds c' kvs'" "cache_agrees kvs' (m(k \<mapsto> v))"
    by (rule add_new_agrees [OF R(6,7,2)]) (use key_ok_length [of k] k value_ok_length [OF v] in \<open>auto simp: px_key_def\<close>)
  define g1 where "g1 = g\<lparr>g_kvSum := ?n, g_getKvSum := True\<rparr>"
  have g1: "(if \<not> g_getKvSum g then g\<lparr>g_kvSum := Posix_GetCurrentItem P ?dp w1\<rparr> else g)\<lparr>g_getKvSum := True\<rparr> = g1"
    and g2: "(if \<not> g_getKvSum g then Posix_GetCurrentItem P ?dp w1 else g_kvSum g) = ?n"
    using Posix_GetCurrentItem_count [OF R(1,3) 1(2,3)] R(5) by (cases g; auto simp: g1_def)+
  define g' where "g' = (if m k = None then g1\<lparr>g_kvSum := ?n + 1\<rparr> else g1)"
  have valid: "IsValidKey (Some k)" "IsValidValue (Some v) MAX_VALUE_LEN" using k v by (simp_all add: px_key_def key_ok_def value_ok_def)
  have full: "\<not> (MAX_KV_SUM E \<le> ?n \<and> m k = None)" using room by auto
  have new: "Posix_NewItem P ?dp k w1 \<longleftrightarrow> m k = None" by (rule Posix_NewItem_key [OF R(1,3) 1(2) k])
  have "Posix_UtilsSetValue P E (Some k) (Some v) (g, c, w) = Some (0, (g', c', w2))"
    using 1(1) 2(1) 3(1) valid full new Posix_GetCurrentItem_count [OF R(1,3) 1(2,3)] R(5)
    by (cases g) (auto simp: Posix_UtilsSetValue_def Let_def g'_def g1_def EC_SUCCESS_def)
  moreover have "posix_rep P V E (g', c', w2) (m(k \<mapsto> v))"
  proof (rule posix_repI [OF R(1,2) _ _ _ 3(2,3)])
    show "g_kvSum g' = int (card (dom (m(k \<mapsto> v))))" using R(8) by (auto simp: g'_def g1_def card_insert_if domIff)
    show "px_dir_with (V w2) (g_dataPath g') (m(k \<mapsto> v))" using px_dir_update [OF 1(2) k v 1(3)] 2(2) by (simp add: g'_def g1_def)
  qed (use R(3) in \<open>simp add: g'_def g1_def\<close>)
  ultimately show ?thesis by blast
qed

lemma posix_set_full:
  assumes rep: "posix_rep P V E (g, c, w) m" and k: "px_key k" and v: "value_ok v" and full: "k \<notin> dom m" "MAX_KV_SUM E \<le> int (card (dom m))"
  shows "\<exists>r s'. Posix_UtilsSetValue P E (Some k) (Some v) (g, c, w) = Some (r, s') \<and> r < 0 \<and> posix_rep P V E s' m"
proof -
  obtain kvs where "posix_with P V E g c w m kvs" using rep by (auto simp: posix_rep_def)
  note R = posix_withD [OF this]
  let ?dp = "g_dataPath g"
  obtain w1 where 1: "InitKv P ?dp w = (EC_SUCCESS, w1)" "px_dir_with (V w1) ?dp m" "dir_path ?dp \<in> pdirs (V w1)"
    by (rule InitKv_dir [OF R(1,3,4)])
  define g1 where "g1 = g\<lparr>g_kvSum := int (card (dom m)), g_getKvSum := True\<rparr>"
  have valid: "IsValidKey (Some k)" "IsValidValue (Some v) MAX_VALUE_LEN" using k v by (simp_all add: px_key_def key_ok_def value_ok_def)
  have new: "Posix_NewItem P ?dp k w1" using Posix_NewItem_key [OF R(1,3) 1(2) k] full by auto
  have "Posix_UtilsSetValue P E (Some k) (Some v) (g, c, w) = Some (EC_FAILURE, (g1, c, w1))"
    using 1(1) valid full new Posix_GetCurrentItem_count [OF R(1,3) 1(2,3)] R(5)
    by (cases g) (auto simp: Posix_UtilsSetValue_def Let_def g1_def)
  moreover have "posix_rep P V E (g1, c, w1) m" by (rule posix_repI [OF R(1,2) _ _ _ R(6,7)]) (use R 1 in \<open>simp_all add: g1_def\<close>)
  ultimately show ?thesis by (auto simp: EC_FAILURE_def)
qed

lemma posix_get_law:
  assumes rep: "posix_rep P V E (g, c, w) m" and k: "px_key k" and v: "m k = Some v" "length v < len" and len: "len \<le> MAX_GET_VALUE_LEN" "length buf = len"
  shows "\<exists>r b s'. Posix_UtilsGetValue P E (Some k) (Some buf) len (g, c, w) = Some ((r, Some b), s') \<and> 0 \<le> r \<and> cstr b = v \<and> posix_rep P V E s' m"
proof -
  obtain kvs where "posix_with P V E g c w m kvs" using rep by (auto simp: posix_rep_def)
  note R = posix_withD [OF this]
  have vk: "length v < MAX_VALUE_LEN" "NUL \<notin> set v" using R(9) v value_ok_length by (auto simp: ran_def)
  have args: "\<not> (\<not> IsValidKey (Some k) \<or> Some buf = None \<or> len > MAX_GET_VALUE_LEN)" using k len by (simp add: px_key_def key_ok_def)
  have g: "GetValueByCache E (Some k) True len c = Some (if map_of kvs k = None then (EC_FAILURE, []) else (EC_SUCCESS, v))"
    using GetValueByCache_holds [OF R(6,2), of len k] len v vk cache_agrees_map_of [OF R(7), of k]
    by (auto simp: MAX_GET_VALUE_LEN_def split: option.splits)
  show ?thesis
  proof (cases "map_of kvs k")
    case (Some x)
    then have "Posix_UtilsGetValue P E (Some k) (Some buf) len (g, c, w) = Some ((EC_SUCCESS, Some (put_bytes 0 (v @ [NUL]) buf)), (g, c, w))"
      using args g by (simp add: Posix_UtilsGetValue_def)
    moreover have "cstr (put_bytes 0 (v @ [NUL]) buf) = v" using vk by (simp add: put_bytes_def)
    ultimately show ?thesis using rep by (auto simp: EC_SUCCESS_def)
  next
    case None
    obtain w' where f: "Posix_GetValueByFile P (g_dataPath g) k buf len w = ((int (length v), v @ NUL # drop (length v + 1) buf), w')" "V w' = V w"
      by (rule Posix_GetValueByFile_reads [OF R(1,3,4) k v len(2)])
    obtain c' kvs' where a: "AddKVCache E (Some k) (Some v) False c = Some c'" "cache_holds c' kvs'" "cache_agrees kvs' m"
      by (rule add_read_agrees [OF R(6,7,2) _ _ v(1) None]) (use key_ok_length [of k] k vk in \<open>auto simp: px_key_def\<close>)
    have "Posix_UtilsGetValue P E (Some k) (Some buf) len (g, c, w) = Some ((int (length v), Some (v @ NUL # drop (length v + 1) buf)), (g, c', w'))"
      using args g None f a vk by (simp add: Posix_UtilsGetValue_def EC_SUCCESS_def EC_FAILURE_def)
    moreover have "posix_rep P V E (g, c', w') m" using R a f by (intro posix_repI [where kvs = kvs']) auto
    ultimately show ?thesis using vk by auto
  qed
qed

lemma posix_get_fails:
  assumes rep: "posix_rep P V E (g, c, w) m" and k: "px_key k" and v: "\<forall>v. m k = Some v \<longrightarrow> len \<le> length v" and len: "len \<le> MAX_GET_VALUE_LEN" "length buf = len"
  shows "\<exists>r b s'. Posix_UtilsGetValue P E (Some k) (Some buf) len (g, c, w) = Some ((r, b), s') \<and> r < 0 \<and> posix_rep P V E s' m"
proof -
  obtain kvs where "posix_with P V E g c w m kvs" using rep by (auto simp: posix_rep_def)
  note R = posix_withD [OF this]
  have args: "\<not> (\<not> IsValidKey (Some k) \<or> Some buf = None \<or> len > MAX_GET_VALUE_LEN)" using k len by (simp add: px_key_def key_ok_def)
  have "GetValueByCache E (Some k) True len c = Some (EC_FAILURE, [])"
    using GetValueByCache_holds [OF R(6,2), of len k] len v cache_agrees_map_of [OF R(7), of k]
    by (fastforce simp: MAX_GET_VALUE_LEN_def split: option.splits)
  then have "Posix_UtilsGetValue P E (Some k) (Some buf) len (g, c, w) = Some ((EC_FAILURE, Some buf), (g, c, w))"
    using args Posix_GetValueByFile_fails [OF R(1,3,4) k v] by (simp add: Posix_UtilsGetValue_def EC_SUCCESS_def EC_FAILURE_def)
  then show ?thesis using rep by (auto simp: EC_FAILURE_def)
qed

lemma posix_delete_law:
  assumes rep: "posix_rep P V E (g, c, w) m" and k: "px_key k"
  shows "\<exists>r s'. Posix_UtilsDeleteValue P E (Some k) (g, c, w) = Some (r, s') \<and> (if k \<in> dom m then r = 0 else r < 0) \<and> posix_rep P V E s' (m(k := None))"
proof -
  obtain kvs where "posix_with P V E g c w m kvs" using rep by (auto simp: posix_rep_def)
  note R = posix_withD [OF this]
  let ?dp = "g_dataPath g"
  obtain c' where c: "DeleteKVCache (Some k) c = Some c'" "cache_holds c' (del_key k kvs)" using DeleteKVCache_holds [OF R(6)] by blast
  note ag = cache_agrees_del [OF R(7), of k] and d = px_dir_key [OF R(4) k] and f = px_formats(1) [OF R(1,3) px_key_length [OF k]]
  have ch: "px_change_ok P V" and ml: "px_malloc P x w" for x using R(1) by (auto simp: posix_ok_def)
  have valid: "IsValidKey (Some k)" using k by (simp add: px_key_def key_ok_def)
  note defs = Posix_UtilsDeleteValue_def Posix_DeleteValueFromFile_def EC_SUCCESS_def
  show ?thesis
  proof (cases "m k")
    case None
    then obtain w' where w': "px_unlink P (key_path ?dp k) w = (- 1, w')" "V w' = V w" using ch d unfolding px_change_ok_def by (metis domIff)
    have "Posix_UtilsDeleteValue P E (Some k) (g, c, w) = Some (- 1, (g, c', w'))" using w' c valid f ml by (simp add: defs)
    moreover have "posix_rep P V E (g, c', w') (m(k := None))"
      using R c ag w' None by (intro posix_repI [where kvs = "del_key k kvs"]) (auto simp: fun_upd_idem)
    ultimately show ?thesis using None by auto
  next
    case (Some v)
    then obtain w' where w': "px_unlink P (key_path ?dp k) w = (0, w')" "V w' = (V w)\<lparr>pfiles := (pfiles (V w))(key_path ?dp k := None)\<rparr>"
      using ch d unfolding px_change_ok_def by (metis domI)
    have n: "0 < card (dom m)" using R(8) Some by (auto simp: card_gt_0_iff)
    have "Posix_UtilsDeleteValue P E (Some k) (g, c, w) = Some (0, (g\<lparr>g_kvSum := g_kvSum g - 1\<rparr>, c', w'))" using w' c valid f ml by (simp add: defs)
    moreover have "posix_rep P V E (g\<lparr>g_kvSum := g_kvSum g - 1\<rparr>, c', w') (m(k := None))"
    proof (rule posix_repI [OF R(1,2) _ _ _ c(2) ag])
      show "px_dir_with (V w') (g_dataPath (g\<lparr>g_kvSum := g_kvSum g - 1\<rparr>)) (m(k := None))" using px_dir_delete [OF R(4) k] w' by simp
      have "card (dom (m(k := None))) = card (dom m) - 1" using R(8) Some by (auto simp: domIff)
      then show "g_kvSum (g\<lparr>g_kvSum := g_kvSum g - 1\<rparr>) = int (card (dom (m(k := None))))" if "g_getKvSum (g\<lparr>g_kvSum := g_kvSum g - 1\<rparr>)"
        using that R(5) n by simp
    qed (use R(3) in simp)
    ultimately show ?thesis using Some by auto
  qed
qed

interpretation posix_kv: kv_contract px_key "posix_rep P V E" "\<lambda>k v. Posix_UtilsSetValue P E (Some k) (Some v)"
    "\<lambda>k b. Posix_UtilsGetValue P E (Some k) (Some b)" "\<lambda>k. Posix_UtilsDeleteValue P E (Some k)" "MAX_KV_SUM E" for P V E
proof unfold_locales
  fix s :: "posix_globals \<times> kv_cache \<times> 'a" and m k v len buf
  obtain g c w where s: "s = (g, c, w)" by (cases s)
  show "posix_rep P V E s m \<Longrightarrow> px_key k \<Longrightarrow> value_ok v \<Longrightarrow> k \<in> dom m \<or> int (card (dom m)) < MAX_KV_SUM E \<Longrightarrow>
    \<exists>s'. Posix_UtilsSetValue P E (Some k) (Some v) s = Some (0, s') \<and> posix_rep P V E s' (m(k \<mapsto> v))"
    unfolding s by (rule posix_set_law)
  show "posix_rep P V E s m \<Longrightarrow> px_key k \<Longrightarrow> value_ok v \<Longrightarrow> k \<notin> dom m \<Longrightarrow> MAX_KV_SUM E \<le> int (card (dom m)) \<Longrightarrow>
    \<exists>r s'. Posix_UtilsSetValue P E (Some k) (Some v) s = Some (r, s') \<and> r < 0 \<and> posix_rep P V E s' m"
    unfolding s by (rule posix_set_full)
  show "posix_rep P V E s m \<Longrightarrow> px_key k \<Longrightarrow> m k = Some v \<Longrightarrow> length v < len \<Longrightarrow> len \<le> MAX_GET_VALUE_LEN \<Longrightarrow> length buf = len \<Longrightarrow>
    \<exists>r b s'. Posix_UtilsGetValue P E (Some k) (Some buf) len s = Some ((r, Some b), s') \<and> 0 \<le> r \<and> cstr b = v \<and> posix_rep P V E s' m"
    unfolding s by (rule posix_get_law)
  show "posix_rep P V E s m \<Longrightarrow> px_key k \<Longrightarrow> \<forall>v. m k = Some v \<longrightarrow> len \<le> length v \<Longrightarrow> len \<le> MAX_GET_VALUE_LEN \<Longrightarrow> length buf = len \<Longrightarrow>
    \<exists>r b s'. Posix_UtilsGetValue P E (Some k) (Some buf) len s = Some ((r, b), s') \<and> r < 0 \<and> posix_rep P V E s' m"
    unfolding s by (rule posix_get_fails)
  show "posix_rep P V E s m \<Longrightarrow> px_key k \<Longrightarrow>
    \<exists>r s'. Posix_UtilsDeleteValue P E (Some k) s = Some (r, s') \<and> (if k \<in> dom m then r = 0 else r < 0) \<and> posix_rep P V E s' (m(k := None))"
    unfolding s by (rule posix_delete_law)
qed

subsection \<open>A file system in memory\<close>

record px_ram =
  rfiles :: "(string \<times> string) list"
  rdirs :: "string list"
  rfds :: "int \<rightharpoonup> string \<times> nat"
  rfd_list :: "int list"

definition px_ram_view :: "px_ram \<Rightarrow> px_view" where
  "px_ram_view w = \<lparr>pfiles = map_of (rfiles w), pdirs = set (rdirs w),
     pfds = (\<lambda>fd. if fd \<in> set (rfd_list w) then rfds w fd else None)\<rparr>"

definition put_file :: "string \<Rightarrow> string \<Rightarrow> (string \<times> string) list \<Rightarrow> (string \<times> string) list" where
  "put_file p b fs = (p, b) # filter (\<lambda>f. fst f \<noteq> p) fs"

definition entry_name :: "string \<Rightarrow> string \<Rightarrow> string option" where
  "entry_name d p =
     (if take (length d + 1) p = d @ ''/'' \<and> drop (length d + 1) p \<noteq> [] \<and> CHR ''/'' \<notin> set (drop (length d + 1) p)
      then Some (drop (length d + 1) p) else None)"

definition parent_in :: "string list \<Rightarrow> string \<Rightarrow> bool" where
  "parent_in ds p \<longleftrightarrow> list_ex (\<lambda>d. entry_name d p \<noteq> None) ds"

definition ram_posix :: "px_ram posix_api" where
  "ram_posix =
     \<lparr>px_realpath = (\<lambda>p w. if map_of (rfiles w) p \<noteq> None \<or> p \<in> set (rdirs w) then (Some p, False) else (None, True)),
      px_stat = (\<lambda>p w.
        case map_of (rfiles w) p of
          Some b \<Rightarrow> Some (length b, True)
        | None \<Rightarrow> if p \<in> set (rdirs w) \<or> list_ex (\<lambda>d. p = d @ ''/.'' \<or> p = d @ ''/..'') (rdirs w) then Some (0, False) else None),
      px_access = (\<lambda>p w. map_of (rfiles w) p \<noteq> None \<or> p \<in> set (rdirs w)),
      px_readdir = (\<lambda>d w.
        if d \<in> set (rdirs w) then Some (remdups (''.'' # ''..'' # List.map_filter (entry_name d) (map fst (rfiles w) @ rdirs w))) else None),
      px_open = (\<lambda>p fl w.
        if map_of (rfiles w) p \<noteq> None \<or> O_CREAT \<in> set fl \<and> p \<notin> set (rdirs w) \<and> parent_in (rdirs w) p then
          (new_fd (rfd_list w),
           w\<lparr>rfiles := (if map_of (rfiles w) p = None \<or> O_TRUNC \<in> set fl then put_file p [] (rfiles w) else rfiles w),
             rfds := (rfds w)(new_fd (rfd_list w) \<mapsto> (p, 0)), rfd_list := new_fd (rfd_list w) # rfd_list w\<rparr>)
        else (- 1, w)),
      px_read = (\<lambda>fd n w.
        case rfds w fd of
          None \<Rightarrow> ((- 1, []), w)
        | Some (p, pos) \<Rightarrow>
            (case map_of (rfiles w) p of
               None \<Rightarrow> ((- 1, []), w)
             | Some b \<Rightarrow>
                 let bs = take n (drop pos b) in ((int (length bs), bs), w\<lparr>rfds := (rfds w)(fd \<mapsto> (p, pos + length bs))\<rparr>))),
      px_write = (\<lambda>fd bs w.
        case rfds w fd of
          None \<Rightarrow> (- 1, w)
        | Some (p, pos) \<Rightarrow>
            (case map_of (rfiles w) p of
               None \<Rightarrow> (- 1, w)
             | Some b \<Rightarrow>
                 (int (length bs), w\<lparr>rfiles := put_file p (put_bytes pos bs b) (rfiles w), rfds := (rfds w)(fd \<mapsto> (p, pos + length bs))\<rparr>))),
      px_close = (\<lambda>fd w. (0, w\<lparr>rfd_list := removeAll fd (rfd_list w)\<rparr>)),
      px_unlink = (\<lambda>p w. if map_of (rfiles w) p = None then (- 1, w) else (0, w\<lparr>rfiles := filter (\<lambda>f. fst f \<noteq> p) (rfiles w)\<rparr>)),
      px_mkdir = (\<lambda>p w.
        if map_of (rfiles w) p = None \<and> p \<notin> set (rdirs w) \<and> parent_in (rdirs w) p then (0, w\<lparr>rdirs := p # rdirs w\<rparr>) else (- 1, w)),
      px_malloc = (\<lambda>n w. True),
      px_secure = (\<lambda>d k. 0 < k \<and> k \<le> d)\<rparr>"

lemma map_of_filter_neq: "map_of (filter (\<lambda>f. fst f \<noteq> p) fs) = (map_of fs)(p := None)"
  by (induction fs) (auto simp: fun_eq_iff)

lemma map_of_put_file [simp]: "map_of (put_file p b fs) = (map_of fs)(p \<mapsto> b)"
  by (simp add: put_file_def map_of_filter_neq)

lemma entry_name_iff: "entry_name d p = Some n \<longleftrightarrow> entry_of d n p"
proof -
  have "take (length d + 1) p = d @ ''/'' \<and> drop (length d + 1) p = n \<longleftrightarrow> p = d @ ''/'' @ n"
    using append_take_drop_id [of "length d + 1" p] by (auto simp del: append_take_drop_id)
  then show ?thesis by (auto simp: entry_name_def entry_of_def)
qed

lemma set_map_filter: "set (List.map_filter f xs) = {y. \<exists>x \<in> set xs. f x = Some y}"
  by (force simp: List.map_filter_def)

lemma posix_ok_ram: "posix_ok ram_posix px_ram_view"
proof -
  note d = ram_posix_def px_ram_view_def
  have par: "parent_in ds p \<longleftrightarrow> (\<exists>d \<in> set ds. \<exists>n. entry_of d n p)" for ds p
    by (simp add: parent_in_def list_ex_iff entry_name_iff)
  have "px_names_ok ram_posix px_ram_view" unfolding px_names_ok_def by (auto simp: d domIff)
  moreover have "px_stat_ok ram_posix px_ram_view" unfolding px_stat_ok_def by (auto simp: d domIff list_ex_iff)
  moreover have "px_readdir_ok ram_posix px_ram_view" unfolding px_readdir_ok_def
  proof (intro allI impI)
    fix x and w :: px_ram
    assume "x \<in> pdirs (px_ram_view w)"
    moreover have "set (List.map_filter (entry_name x) (map fst (rfiles w) @ rdirs w))
        = {n. \<exists>p \<in> dom (pfiles (px_ram_view w)) \<union> pdirs (px_ram_view w). entry_of x n p}"
      by (simp only: set_map_filter entry_name_iff) (simp add: d dom_map_of_conv_image_fst)
    ultimately show "\<exists>ds. px_readdir ram_posix x w = Some ds \<and> distinct ds
       \<and> set ds = {''.'', ''..''} \<union> {n. \<exists>p \<in> dom (pfiles (px_ram_view w)) \<union> pdirs (px_ram_view w). entry_of x n p}"
      by (intro exI [of _ "remdups (''.'' # ''..'' # List.map_filter (entry_name x) (map fst (rfiles w) @ rdirs w))"])
        (simp_all add: ram_posix_def px_ram_view_def insert_absorb)
  qed
  moreover have "px_open_ok ram_posix px_ram_view" unfolding px_open_ok_def
    using new_fd_fresh new_fd_pos [THEN less_imp_le] by (auto simp: d par domIff fun_eq_iff)
  moreover have "px_rw_ok ram_posix px_ram_view" unfolding px_rw_ok_def
    by (auto simp: d fun_eq_iff Let_def split: if_splits)
  moreover have "px_change_ok ram_posix px_ram_view" unfolding px_change_ok_def
    by (auto simp: d par domIff map_of_filter_neq)
  ultimately show ?thesis by (auto simp: posix_ok_def ram_posix_def)
qed

lemma posix_rep_init:
  assumes "posix_ok P V" and "kv_env_ok E" and "length dp \<le> 216" and "pfiles (V w) = Map.empty" and "pdirs (V w) = {dp}"
  shows "posix_rep P V E (\<lparr>g_kvSum = 0, g_getKvSum = False, g_dataPath = dp\<rparr>, kv_cache_init, w) Map.empty"
  by (rule posix_repI [OF assms(1,2), where kvs = "[]"])
    (use assms in \<open>simp_all add: px_dir_with_def cache_agrees_def key_path_def dir_path_def\<close>)


definition px_ram_start :: px_ram where
  "px_ram_start = \<lparr>rfiles = [], rdirs = [''/data''], rfds = Map.empty, rfd_list = []\<rparr>"


text \<open>
  C29 (error): setting another data path does not clear the cache.  While an entry for a key is in the cache, the
  store answers with that value of the old path, even though there is no file for the key under the new one, whatever
  the file system holds.
\<close>

theorem cached_value_outlives_path:
  assumes "cache_holds c kvs" and "kv_env_ok E" and "map_of kvs k = Some v" and "value_ok v" and "key_ok k" and "length v < len"
    and "len \<le> MAX_GET_VALUE_LEN" and "length buf = len" and "px_secure P (MAX_KEY_PATH + 1) (length path + 1)"
  shows "\<exists>s' b. Posix_UtilsSetEnv P (Some path) (g, c, w) = (EC_SUCCESS, s') \<and> g_dataPath (fst s') = path
    \<and> Posix_UtilsGetValue P E (Some k) (Some buf) len s' = Some ((EC_SUCCESS, Some b), s') \<and> cstr b = v"
proof -
  have "length v < MAX_VALUE_LEN" "NUL \<notin> set v" using value_ok_length [OF assms(4)] by auto
  moreover from this have "GetValueByCache E (Some k) True len c = Some (EC_SUCCESS, v)"
    using GetValueByCache_holds [OF assms(1,2), of len k] assms(3,6,7) by (simp add: MAX_GET_VALUE_LEN_def)
  ultimately show ?thesis using assms(5,7,8,9)
    by (simp add: Posix_UtilsSetEnv_def Posix_UtilsGetValue_def key_ok_def put_bytes_def)
qed

theorem cached_value_outlives_path_witness:
  "\<exists>c. cache_holds c [(''k'', ''v'')] \<and> (\<exists>s' b. Posix_UtilsSetEnv ram_posix (Some ''/new'')
      (\<lparr>g_kvSum = 1, g_getKvSum = True, g_dataPath = ''/old''\<rparr>, c, px_ram_start) = (EC_SUCCESS, s') \<and> g_dataPath (fst s') = ''/new''
    \<and> Posix_UtilsGetValue ram_posix two_entries (Some ''k'') (Some (replicate 8 NUL)) 8 s' = Some ((EC_SUCCESS, Some b), s') \<and> cstr b = ''v'')"
proof -
  have v: "key_ok ''k''" "value_ok ''v''" by (simp_all add: key_ok_def value_ok_def IsValidKey_def IsValidValue_def strnlen_def MAX_KEY_LEN_def
        MAX_VALUE_LEN_def IsValidChar_def c_islower_def)
  obtain c where "cache_holds c [(''k'', ''v'')]"
    using AddKVCache_holds [OF cache_holds_init two_entries_ok(1), of "''k''" "''v''" True] two_entries_ok(2)
    by (auto simp: two_entries_def MAX_KEY_LEN_def MAX_VALUE_LEN_def)
  then show ?thesis using cached_value_outlives_path [OF _ two_entries_ok(1) _ v(2) v(1), of c "[(''k'', ''v'')]" 8 "replicate 8 NUL" ram_posix
      "''/new''" "\<lparr>g_kvSum = 1, g_getKvSum = True, g_dataPath = ''/old''\<rparr>" px_ram_start]
    by (auto simp: MAX_GET_VALUE_LEN_def ram_posix_def MAX_KEY_PATH_def)
qed

end
