(* ===== verification/Dbm_Store.thy ===== *)
theory Dbm_Store
  imports Kv_Cache Utils_File
begin

text \<open>
  The key-value database of the small systems (dbm_kv_store.c): a sum file with a header and an item of 44 bytes for
  every key, a file per key that starts with the number of its item, and a backup file for a key while its value is being
  replaced.  Opening the database checks every item and restores or removes what an interrupted call left behind.

  A handle is a record; the functions return it with their code where they change it.  An array on the stack or from
  \<open>malloc\<close> is the list of its bytes, zeroed where the code zeroes it.  \<open>IsValidKey\<close> is that of kvstore_common.c.  The
  functions that lock and unlock a database come from the application; a call holds the lock, so it is one step.
\<close>

subsection \<open>Constants and data\<close>

definition DBM_OK :: int where
  "DBM_OK = 0"

definition DBM_ERROR :: int where
  "DBM_ERROR = - 1"

definition DBM_NOT_FOUND :: int where
  "DBM_NOT_FOUND = 2"

definition DBM_INVALID_ARGS :: int where
  "DBM_INVALID_ARGS = 3"

definition DBM_NOT_SUPPORT :: int where
  "DBM_NOT_SUPPORT = 5"

definition DBM_OVER_MAX_LIMITS :: int where
  "DBM_OVER_MAX_LIMITS = 7"

definition DBM_MAX_KV_SUM :: int where
  "DBM_MAX_KV_SUM = 45"

definition DBM_MAX_VALUE_LEN :: nat where
  "DBM_MAX_VALUE_LEN = 512"

definition DBM_MAX_GET_LEN :: nat where
  "DBM_MAX_GET_LEN = 0x7FFFFFFF"

definition DBM_SUM_FILE :: string where
  "DBM_SUM_FILE = ''KV_FILE_SUM''"

definition KV_MAGIC :: string where
  "KV_MAGIC = ''KVDB''"

definition SUM_FILE_HEADER_SIZE :: nat where
  "SUM_FILE_HEADER_SIZE = 20"

definition KV_SUM_DATA_ITEM_SIZE :: nat where
  "KV_SUM_DATA_ITEM_SIZE = 44"

definition DBM_MAX_FILE_PATH :: nat where
  "DBM_MAX_FILE_PATH = 256"

definition SUM_FILE_DEFAULT_HEADER :: string where
  "SUM_FILE_DEFAULT_HEADER = ''000'' @ [NUL] @ KV_MAGIC @ replicate 4 NUL @ ''1.0'' @ [NUL] @ KV_MAGIC"

datatype DBType = DBM_DB_TYPE_KV | DBM_DB_TYPE_KV_NO_DIR

record KVDBStatus =
  isNeedRecovery :: bool
  isInvalid :: bool
  kvSumIndexValid :: bool

text \<open>The lock functions are pointers that the application sets; the model keeps them as numbers.\<close>

record DBM =
  db_magic :: string
  dirPath :: string
  db_type :: DBType
  kvItemSum :: int
  initOK :: bool
  sumFlag :: KVDBStatus
  sumFileFd :: int
  db_lock :: nat
  db_unlock :: nat
  db_version :: nat

record KeyItem =
  key_bytes :: string
  isValid :: bool
  isBakValid :: bool
  valueType :: char
  key_len :: int
  item_index :: int

definition empty_item :: KeyItem where
  "empty_item = \<lparr>key_bytes = replicate 33 NUL, isValid = False, isBakValid = False, valueType = NUL, key_len = 0, item_index = 0\<rparr>"

text \<open>The sizes of the structures depend on the compiler.\<close>

record 'w dbm_api = "'w utils_api" +
  sizeof_DBM :: nat
  sizeof_KeyItem :: nat

definition DBM_UserInit :: int where
  "DBM_UserInit = 0"

definition IsValidPath :: "string option \<Rightarrow> bool" where
  "IsValidPath path = (case path of None \<Rightarrow> False | Some p \<Rightarrow> if length p \<ge> DBM_MAX_FILE_PATH then False else True)"

text \<open>\<open>ItemPathFormat\<close> with the directory and a name, formatted into a buffer of \<open>MAX_KEY_PATH + 1\<close> bytes.\<close>

definition ItemPathFormat :: "DBM \<Rightarrow> string \<Rightarrow> string" where
  "ItemPathFormat db name = (if db_type db = DBM_DB_TYPE_KV_NO_DIR then dirPath db @ name else dirPath db @ ''/'' @ name)"

definition item_path :: "'w dbm_api \<Rightarrow> DBM \<Rightarrow> string \<Rightarrow> string option" where
  "item_path A db name =
     (if secure_ok A 257 (length (ItemPathFormat db name) + 1) then Some (ItemPathFormat db name) else None)"

definition bak_name :: "'w dbm_api \<Rightarrow> nat \<Rightarrow> string \<Rightarrow> string option" where
  "bak_name A limit key = (if secure_ok A limit (length (key @ ''_dbm_kv'') + 1) then Some (key @ ''_dbm_kv'') else None)"

definition ReleaseKVDBHandle :: "'w dbm_api \<Rightarrow> DBM \<Rightarrow> 'w \<Rightarrow> 'w" where
  "ReleaseKVDBHandle A db w = (if sumFileFd db \<ge> 0 then snd (UtilsFileClose A (sumFileFd db) w) else w)"

definition GetKVDBHandle :: "'w dbm_api \<Rightarrow> string \<Rightarrow> 'w \<Rightarrow> DBM option \<times> 'w" where
  "GetKVDBHandle A path w =
     (if \<not> file_malloc A (sizeof_DBM A) w then (None, w)
      else if \<not> secure_ok A (sizeof_DBM A) (sizeof_DBM A) then (None, w)
      else if \<not> secure_ok A 5 5 then (None, w)
      else
        let db = \<lparr>db_magic = KV_MAGIC @ [NUL], dirPath = path,
                  db_type = (if length path = 0 then DBM_DB_TYPE_KV_NO_DIR else DBM_DB_TYPE_KV),
                  kvItemSum = 0, initOK = False,
                  sumFlag = \<lparr>isNeedRecovery = False, isInvalid = False, kvSumIndexValid = False\<rparr>,
                  sumFileFd = - 1, db_lock = 0, db_unlock = 0, db_version = 0x10\<rparr>;
            ret = DBM_UserInit;
            db = (if ret = DBM_OK then db\<lparr>initOK := True\<rparr> else db) in
        if ret \<noteq> 0 then (None, ReleaseKVDBHandle A db w) else (Some db, w))"

subsection \<open>Reading and writing the sum file\<close>

text \<open>A read into a zeroed array of the size that is asked for.\<close>

definition FileReadCursor :: "'w dbm_api \<Rightarrow> int \<Rightarrow> int \<Rightarrow> whence \<Rightarrow> nat \<Rightarrow> 'w \<Rightarrow> (int \<times> string) \<times> 'w" where
  "FileReadCursor A fd offset whence cursorSize w =
     (case UtilsFileSeek A fd offset whence w of (pos, w) \<Rightarrow>
        if pos < 0 then (case UtilsFileSeek A fd 0 SEEK_END_FS w of (r, w) \<Rightarrow> ((r, replicate cursorSize NUL), w))
        else (case UtilsFileRead A fd cursorSize w of ((pos, bs), w) \<Rightarrow>
          ((if pos < 0 then - 1 else pos, pad_to cursorSize bs), w)))"

definition FileWriteCursor :: "'w dbm_api \<Rightarrow> int \<Rightarrow> int \<Rightarrow> whence \<Rightarrow> string \<Rightarrow> 'w \<Rightarrow> int \<times> 'w" where
  "FileWriteCursor A fd offset whence buf w =
     (case UtilsFileSeek A fd offset whence w of (pos, w) \<Rightarrow>
        if pos < 0 then (- 1, w)
        else (case UtilsFileWrite A fd buf w of (ret, w) \<Rightarrow> (if ret < 0 then - 1 else ret, w)))"

text \<open>\<open>IsStrSame\<close> compares \<open>len\<close> bytes with a string and its terminator.\<close>

definition IsStrSame :: "string \<Rightarrow> nat \<Rightarrow> string \<Rightarrow> bool" where
  "IsStrSame value len str = (if len \<noteq> length str + 1 then False else take len value = str @ [NUL])"

text \<open>Each test joins the failure of the copy and the comparison with \<open>&&\<close>.\<close>

definition IsHeaderValid :: "'w dbm_api \<Rightarrow> string \<Rightarrow> bool" where
  "IsHeaderValid A header =
     (let magic = (if secure_ok A 4 4 then take 4 (drop 4 header) else replicate 4 NUL) @ [NUL] in
      if \<not> secure_ok A 4 4 \<and> \<not> IsStrSame magic 5 KV_MAGIC then False
      else
        let magic = (if secure_ok A 4 4 then take 4 (drop 16 header) else take 4 magic) @ [NUL] in
        if \<not> secure_ok A 4 4 \<and> \<not> IsStrSame magic 5 KV_MAGIC then False else True)"

text \<open>The code and the path that is in the buffer after it: a failed \<open>sprintf_s\<close> leaves the empty string.\<close>

definition GetSumFilePath :: "'w dbm_api \<Rightarrow> DBM \<Rightarrow> nat \<Rightarrow> int \<times> string" where
  "GetSumFilePath A db len =
     (if length (dirPath db) = 0 \<and> \<not> secure_ok A 12 12 then (DBM_OK, [])
      else if \<not> secure_ok A len (length (ItemPathFormat db DBM_SUM_FILE) + 1) then (DBM_INVALID_ARGS, [])
      else (DBM_OK, ItemPathFormat db DBM_SUM_FILE))"

definition OpenSumFile :: "'w dbm_api \<Rightarrow> DBM \<Rightarrow> open_flag list \<Rightarrow> 'w \<Rightarrow> int \<times> 'w" where
  "OpenSumFile A db mode w =
     (if \<not> file_malloc A 257 w then (- 1, w)
      else (case GetSumFilePath A db 257 of (ret, sumFilePath) \<Rightarrow>
        if ret < 0 then (- 1, w) else UtilsFileOpen A sumFilePath mode w))"

definition GetKeyItemOffset :: "int \<Rightarrow> int" where
  "GetKeyItemOffset index = int SUM_FILE_HEADER_SIZE + index * int KV_SUM_DATA_ITEM_SIZE"

definition LoadDataItem :: "'w dbm_api \<Rightarrow> DBM \<Rightarrow> int \<Rightarrow> KeyItem \<Rightarrow> 'w \<Rightarrow> (int \<times> KeyItem) \<times> 'w" where
  "LoadDataItem A db index item w =
     (case FileReadCursor A (sumFileFd db) (GetKeyItemOffset index) SEEK_SET_FS KV_SUM_DATA_ITEM_SIZE w of ((ret, content), w) \<Rightarrow>
        let itemContent = content @ [NUL] in
        if ret < 0 then ((DBM_ERROR, item), w)
        else if \<not> IsStrSame (drop 40 itemContent) 5 KV_MAGIC then ((DBM_OK, item), w)
        else
          let item = item\<lparr>isValid := itemContent ! 1 \<noteq> NUL, isBakValid := itemContent ! 2 \<noteq> NUL, valueType := itemContent ! 3\<rparr> in
          if \<not> secure_ok A 4 4 then ((DBM_ERROR, item), w)
          else
            let n = atoi (take 4 (drop 4 itemContent) @ stack_bytes A) in
            if n < 0 then ((DBM_ERROR, item), w)
            else if \<not> secure_ok A 32 32 then ((DBM_ERROR, item\<lparr>key_len := n\<rparr>), w)
            else ((DBM_OK, item\<lparr>key_len := n, key_bytes := take 32 (drop 8 itemContent) @ [NUL], item_index := index\<rparr>), w))"

subsection \<open>Files of keys\<close>

definition Dbm_DeleteValueFromFile :: "'w dbm_api \<Rightarrow> DBM \<Rightarrow> string \<Rightarrow> 'w \<Rightarrow> int \<times> 'w" where
  "Dbm_DeleteValueFromFile A db key w =
     (case item_path A db key of
        None \<Rightarrow> (DBM_ERROR, w)
      | Some keyPath \<Rightarrow> (case UtilsFileDelete A keyPath w of (ret, w) \<Rightarrow> (if ret < 0 then DBM_ERROR else DBM_OK, w)))"

definition IsNewItem :: "'w dbm_api \<Rightarrow> DBM \<Rightarrow> string \<Rightarrow> 'w \<Rightarrow> bool \<times> 'w" where
  "IsNewItem A db key w =
     (case item_path A db key of
        None \<Rightarrow> (False, w)
      | Some keyPath \<Rightarrow>
          (case UtilsFileOpen A keyPath [O_RDONLY_FS] w of (fd, w) \<Rightarrow>
             if fd < 0 then (True, w) else (False, snd (UtilsFileClose A fd w))))"

text \<open>The condition \<open>!IsNewItem(...) && DeleteValueFromFile(...) != DBM_OK\<close>, which many functions test.\<close>

definition delete_fails :: "'w dbm_api \<Rightarrow> DBM \<Rightarrow> string \<Rightarrow> 'w \<Rightarrow> bool \<times> 'w" where
  "delete_fails A db key w =
     (case IsNewItem A db key w of (new, w) \<Rightarrow>
        if new then (False, w)
        else (case Dbm_DeleteValueFromFile A db key w of (ret, w) \<Rightarrow> (ret \<noteq> DBM_OK, w)))"

definition DelItem :: "'w dbm_api \<Rightarrow> DBM \<Rightarrow> KeyItem \<Rightarrow> 'w \<Rightarrow> int \<times> 'w" where
  "DelItem A db item w =
     (case delete_fails A db (cstr (key_bytes item)) w of (bad, w) \<Rightarrow>
        if bad then (DBM_ERROR, w)
        else (case bak_name A 40 (cstr (key_bytes item)) of
          None \<Rightarrow> (DBM_INVALID_ARGS, w)
        | Some bakKey \<Rightarrow>
            (case delete_fails A db bakKey w of (bad, w) \<Rightarrow>
               if bad then (DBM_ERROR, w)
               else (case FileWriteCursor A (sumFileFd db) (GetKeyItemOffset (item_index item)) SEEK_SET_FS (replicate 40 NUL) w of (ret, w) \<Rightarrow>
                 (if ret < 0 then DBM_ERROR else DBM_OK, w)))))"

definition CopyValueToFile :: "'w dbm_api \<Rightarrow> DBM \<Rightarrow> string \<Rightarrow> string \<Rightarrow> 'w \<Rightarrow> int \<times> 'w" where
  "CopyValueToFile A db src dest w =
     (case item_path A db src of
        None \<Rightarrow> (DBM_ERROR, w)
      | Some srcPath \<Rightarrow>
          (case item_path A db dest of
             None \<Rightarrow> (DBM_ERROR, w)
           | Some destPath \<Rightarrow> (case UtilsFileCopy A srcPath destPath w of (ret, w) \<Rightarrow> (if ret < 0 then DBM_ERROR else DBM_OK, w))))"

text \<open>The byte that is cleared at the end is the one at offset 1 of the item.\<close>

definition RecoverItem :: "'w dbm_api \<Rightarrow> DBM \<Rightarrow> KeyItem \<Rightarrow> 'w \<Rightarrow> int \<times> 'w" where
  "RecoverItem A db item w =
     (case delete_fails A db (cstr (key_bytes item)) w of (bad, w) \<Rightarrow>
        if bad then (DBM_ERROR, w)
        else (case bak_name A 257 (cstr (key_bytes item)) of
          None \<Rightarrow> (DBM_INVALID_ARGS, w)
        | Some bakFile \<Rightarrow>
            (case CopyValueToFile A db bakFile (cstr (key_bytes item)) w of (ret, w) \<Rightarrow>
               if ret \<noteq> DBM_OK then (DBM_ERROR, w)
               else (case FileWriteCursor A (sumFileFd db) (GetKeyItemOffset (item_index item) + 1) SEEK_SET_FS [NUL] w of (ret, w) \<Rightarrow>
                 (if ret < 0 then DBM_ERROR else DBM_OK, w)))))"

definition CheckPointItem :: "'w dbm_api \<Rightarrow> DBM \<Rightarrow> KeyItem \<Rightarrow> 'w \<Rightarrow> int \<times> 'w" where
  "CheckPointItem A db item w =
     (if cstr (key_bytes item) = [] then (DBM_OK, w)
      else if isInvalid (sumFlag db) \<or> \<not> isValid item then DelItem A db item w
      else (case bak_name A 257 (cstr (key_bytes item)) of
        None \<Rightarrow> (DBM_ERROR, w)
      | Some bakFile \<Rightarrow>
          if isBakValid item then
            (case IsNewItem A db bakFile w of (new, w) \<Rightarrow> if new then DelItem A db item w else RecoverItem A db item w)
          else (case delete_fails A db bakFile w of (bad, w) \<Rightarrow> (if bad then DBM_ERROR else DBM_OK, w))))"

fun vacuum_loop :: "'w dbm_api \<Rightarrow> nat \<Rightarrow> int \<Rightarrow> KeyItem \<Rightarrow> int \<Rightarrow> DBM \<Rightarrow> 'w \<Rightarrow> (int \<times> DBM) \<times> 'w" where
  "vacuum_loop A 0 index item ret db w = ((ret, db), w)"
| "vacuum_loop A (Suc n) index item ret db w =
     (case LoadDataItem A db index item w of ((ret, item), w) \<Rightarrow>
        if ret \<noteq> DBM_OK then vacuum_loop A n (index + 1) item ret db w
        else (case CheckPointItem A db item w of (ret, w) \<Rightarrow>
          if ret \<noteq> DBM_OK then ((ret, db), w)
          else
            let db = (if \<not> kvSumIndexValid (sumFlag db) \<and> isValid item \<and> \<not> isInvalid (sumFlag db)
                      then db\<lparr>kvItemSum := kvItemSum db + 1\<rparr> else db) in
            vacuum_loop A n (index + 1) empty_item ret db w))"

definition VacuumStore :: "'w dbm_api \<Rightarrow> DBM \<Rightarrow> 'w \<Rightarrow> (int \<times> DBM) \<times> 'w" where
  "VacuumStore A db w =
     (case UtilsFileSeek A (sumFileFd db) 0 SEEK_END_FS w of (sumFileLen, w) \<Rightarrow>
        if sumFileLen < int SUM_FILE_HEADER_SIZE \<and> sumFileLen \<noteq> 0 then ((DBM_ERROR, db), w)
        else (case UtilsFileSeek A (sumFileFd db) 0 SEEK_SET_FS w of (ret, w) \<Rightarrow>
          if ret < 0 then ((DBM_ERROR, db), w)
          else
            let sumIndex = (sumFileLen - int SUM_FILE_HEADER_SIZE) div int KV_SUM_DATA_ITEM_SIZE in
            if sumIndex > DBM_MAX_KV_SUM then ((DBM_ERROR, db), w)
            else
              let db = (if \<not> kvSumIndexValid (sumFlag db) then db\<lparr>kvItemSum := 0\<rparr> else db) in
              if \<not> file_malloc A (sizeof_KeyItem A) w then ((DBM_ERROR, db), w)
              else vacuum_loop A (nat sumIndex) 0 empty_item ret db w))"

definition set_index_valid :: "bool \<Rightarrow> DBM \<Rightarrow> DBM" where
  "set_index_valid b db = db\<lparr>sumFlag := (sumFlag db)\<lparr>kvSumIndexValid := b\<rparr>\<rparr>"

definition SetSumIndexToFile :: "'w dbm_api \<Rightarrow> DBM \<Rightarrow> int \<Rightarrow> 'w \<Rightarrow> (int \<times> DBM) \<times> 'w" where
  "SetSumIndexToFile A db sumIndex w =
     (let db = set_index_valid False db in
      case FileWriteCursor A (sumFileFd db) 8 SEEK_SET_FS [NUL] w of (pos, w) \<Rightarrow>
        if pos < 0 then ((DBM_ERROR, db), w)
        else (case sprintf_s A 4 (to_string sumIndex) of
          None \<Rightarrow> ((DBM_ERROR, db), w)
        | Some value \<Rightarrow>
            let db = db\<lparr>kvItemSum := sumIndex\<rparr> in
            (case FileWriteCursor A (sumFileFd db) 0 SEEK_SET_FS value w of (pos, w) \<Rightarrow>
               if pos < 0 then ((DBM_ERROR, db), w)
               else
                 let db = set_index_valid True db in
                 (case FileWriteCursor A (sumFileFd db) 8 SEEK_SET_FS [CHR 0x01] w of (pos, w) \<Rightarrow>
                    ((if pos < 0 then DBM_ERROR else DBM_OK, db), w)))))"

definition SetSumIndex :: "'w dbm_api \<Rightarrow> DBM \<Rightarrow> 'w \<Rightarrow> (int \<times> DBM) \<times> 'w" where
  "SetSumIndex A db w =
     (if kvSumIndexValid (sumFlag db) then ((DBM_OK, db), w) else SetSumIndexToFile A db (kvItemSum db) w)"

definition CheckPoint :: "'w dbm_api \<Rightarrow> DBM \<Rightarrow> 'w \<Rightarrow> (int \<times> DBM) \<times> 'w" where
  "CheckPoint A db w =
     (if \<not> isNeedRecovery (sumFlag db) then ((DBM_OK, db), w)
      else (case VacuumStore A db w of ((ret, db), w) \<Rightarrow>
        if ret \<noteq> DBM_OK then ((DBM_ERROR, db), w)
        else (case SetSumIndex A db w of ((ret, db), w) \<Rightarrow>
          if ret \<noteq> DBM_OK then ((DBM_ERROR, db), w)
          else (case FileWriteCursor A (sumFileFd db) 8 SEEK_SET_FS (replicate 4 NUL) w of (ret, w) \<Rightarrow>
            if ret < 0 then ((DBM_ERROR, db), w)
            else ((DBM_OK, db\<lparr>sumFlag := \<lparr>isNeedRecovery = False, isInvalid = False, kvSumIndexValid = False\<rparr>\<rparr>), w)))))"

definition SetSumFlag :: "string \<Rightarrow> DBM \<Rightarrow> DBM" where
  "SetSumFlag headerFlag db =
     db\<lparr>sumFlag := \<lparr>isNeedRecovery = True, isInvalid = headerFlag ! 1 \<noteq> NUL, kvSumIndexValid = headerFlag ! 0 \<noteq> NUL\<rparr>\<rparr>"

definition LoadSumFileHeader :: "'w dbm_api \<Rightarrow> DBM \<Rightarrow> 'w \<Rightarrow> (int \<times> DBM) \<times> 'w" where
  "LoadSumFileHeader A db w =
     (case FileReadCursor A (sumFileFd db) 0 SEEK_SET_FS SUM_FILE_HEADER_SIZE w of ((ret, content), w) \<Rightarrow>
        let header = content @ [NUL] in
        if ret < 0 then ((DBM_ERROR, db), w)
        else if \<not> secure_ok A 4 4 then ((DBM_ERROR, db), w)
        else if \<not> IsHeaderValid A header then ((DBM_ERROR, db), w)
        else
          let db = SetSumFlag (take 4 (drop 8 header)) db in
          ((DBM_OK, if kvSumIndexValid (sumFlag db) then db\<lparr>kvItemSum := atoi (take 4 header @ [NUL])\<rparr> else db), w))"

definition InitKVStore :: "'w dbm_api \<Rightarrow> DBM \<Rightarrow> 'w \<Rightarrow> (int \<times> DBM) \<times> 'w" where
  "InitKVStore A db w =
     (case OpenSumFile A db [O_RDWR_FS, O_CREAT_FS] w of (fd, w) \<Rightarrow>
        let db = db\<lparr>sumFileFd := fd\<rparr> in
        if fd < 0 then ((DBM_ERROR, db), w)
        else (case UtilsFileSeek A fd 0 SEEK_END_FS w of (sumFileLen, w) \<Rightarrow>
          if sumFileLen < 0 then ((DBM_ERROR, db), w)
          else
            let sumFileLen = (if sumFileLen < int SUM_FILE_HEADER_SIZE \<and> sumFileLen \<noteq> 0 \<and> sumFileLen \<noteq> 4 then 0 else sumFileLen) in
            (case UtilsFileSeek A fd 0 SEEK_SET_FS w of (ret, w) \<Rightarrow>
               if ret < 0 then ((DBM_ERROR, db), w)
               else if sumFileLen = 0 then
                 (case UtilsFileWrite A fd SUM_FILE_DEFAULT_HEADER w of (ret, w) \<Rightarrow> ((if ret < 0 then DBM_ERROR else DBM_OK, db), w))
               else
                 (case LoadSumFileHeader A db w of ((ret, db), w) \<Rightarrow>
                    if ret \<noteq> DBM_OK then ((DBM_ERROR, db), w)
                    else (case CheckPoint A db w of ((ret, db), w) \<Rightarrow> ((if ret \<noteq> DBM_OK then DBM_ERROR else DBM_OK, db), w))))))"

definition DBM_GetKVStore :: "'w dbm_api \<Rightarrow> string option \<Rightarrow> bool \<Rightarrow> 'w \<Rightarrow> (int \<times> DBM option) \<times> 'w" where
  "DBM_GetKVStore A storeFullPath hasOut w =
     (if \<not> hasOut then ((DBM_INVALID_ARGS, None), w)
      else if \<not> IsValidPath storeFullPath then ((DBM_INVALID_ARGS, None), w)
      else (case GetKVDBHandle A (the storeFullPath) w of
        (None, w) \<Rightarrow> ((DBM_ERROR, None), w)
      | (Some db, w) \<Rightarrow>
          (case InitKVStore A db w of ((ret, db), w) \<Rightarrow>
             if ret \<noteq> DBM_OK then ((DBM_ERROR, None), ReleaseKVDBHandle A db w)
             else ((DBM_OK, Some db), w))))"

subsection \<open>Getting a value\<close>

definition IsDataItemMatched :: "'w dbm_api \<Rightarrow> DBM \<Rightarrow> string \<Rightarrow> int \<Rightarrow> 'w \<Rightarrow> bool \<times> 'w" where
  "IsDataItemMatched A db key index w =
     (if index < 0 then (False, w)
      else (case FileReadCursor A (sumFileFd db) (GetKeyItemOffset index) SEEK_SET_FS KV_SUM_DATA_ITEM_SIZE w of ((ret, content), w) \<Rightarrow>
        if ret < 0 then (False, w)
        else (IsStrSame (drop 8 (content @ [NUL])) (length key + 1) key, w)))"

definition IsNeedTransferValue :: "'w dbm_api \<Rightarrow> DBM \<Rightarrow> string \<Rightarrow> string \<Rightarrow> int \<Rightarrow> 'w \<Rightarrow> bool option \<times> 'w" where
  "IsNeedTransferValue A db key fileRead fileLen w =
     (if fileLen \<le> 4 then (Some False, w)
      else if \<not> secure_ok A 3 3 then (None, w)
      else (case IsDataItemMatched A db key (atoi (take 3 fileRead @ [NUL])) w of (m, w) \<Rightarrow> (Some m, w)))"

text \<open>The number of bytes and the buffer after the call.\<close>

definition FormatValueByFile :: "'w dbm_api \<Rightarrow> bool \<Rightarrow> string \<Rightarrow> nat \<Rightarrow> string \<Rightarrow> nat \<Rightarrow> int \<times> string" where
  "FormatValueByFile A isNeedTrans value len fileRead fileLen =
     (let offset = (if isNeedTrans then 4 else 0) in
      if fileLen - offset > len then (- 1, value)
      else if \<not> secure_ok A len (fileLen - offset) then (- 1, value)
      else (int (fileLen - offset), put_bytes 0 (take (fileLen - offset) (drop offset fileRead)) value))"

definition Dbm_GetValueByFile :: "'w dbm_api \<Rightarrow> DBM \<Rightarrow> string \<Rightarrow> string \<Rightarrow> string \<Rightarrow> nat \<Rightarrow> 'w \<Rightarrow> (int \<times> string) \<times> 'w" where
  "Dbm_GetValueByFile A db key keyGet value len w =
     (case item_path A db keyGet of
        None \<Rightarrow> ((- 1, value), w)
      | Some keyPath \<Rightarrow>
          (case UtilsFileStat A keyPath w of ((r, valueLen), w) \<Rightarrow>
             if r < 0 then ((- 1, value), w)
             else if valueLen > DBM_MAX_VALUE_LEN + 4 then ((- 1, value), w)
             else if \<not> file_malloc A valueLen w then ((- 1, value), w)
             else (case UtilsFileOpen A keyPath [O_RDONLY_FS] w of (fd, w) \<Rightarrow>
               if fd < 0 then ((- 1, value), w)
               else (case UtilsFileRead A fd valueLen w of ((valueReadLen, bs), w) \<Rightarrow>
                 let w = snd (UtilsFileClose A fd w) in
                 if valueReadLen < 0 then ((- 1, value), w)
                 else (case IsNeedTransferValue A db key (pad_to valueLen bs) valueReadLen w of
                   (None, w) \<Rightarrow> ((- 1, value), w)
                 | (Some isNeedTrans, w) \<Rightarrow> (FormatValueByFile A isNeedTrans value len (pad_to valueLen bs) (nat valueReadLen), w))))))"

definition Dbm_Get :: "'w dbm_api \<Rightarrow> DBM \<Rightarrow> string option \<Rightarrow> string option \<Rightarrow> nat \<Rightarrow> 'w \<Rightarrow> (int \<times> string option \<times> nat) \<times> 'w" where
  "Dbm_Get A db key value count w =
     (if \<not> IsValidKey key \<or> value = None \<or> count > DBM_MAX_GET_LEN then ((DBM_INVALID_ARGS, value, 0), w)
      else if \<not> initOK db \<or> \<not> IsStrSame (db_magic db) 5 KV_MAGIC then ((DBM_INVALID_ARGS, value, 0), w)
      else (case bak_name A 257 (the key) of
        None \<Rightarrow> ((DBM_INVALID_ARGS, value, 0), w)
      | Some bakFile \<Rightarrow>
          (case IsNewItem A db bakFile w of (bakNew, w) \<Rightarrow>
             let isBakExist = \<not> bakNew in
             if isInvalid (sumFlag db) then ((DBM_NOT_FOUND, value, 0), w)
             else (case IsNewItem A db (the key) w of (new, w) \<Rightarrow>
               if new \<and> \<not> isBakExist then ((DBM_NOT_FOUND, value, 0), w)
               else
                 let keyGet = (if isBakExist then bakFile else the key) in
                 (case Dbm_GetValueByFile A db (the key) keyGet (the value) count w of ((ret, buf), w) \<Rightarrow>
                    if ret < 0 then ((DBM_ERROR, Some buf, 0), w) else ((DBM_OK, Some buf, nat ret), w))))))"

definition DBM_Get :: "'w dbm_api \<Rightarrow> DBM option \<Rightarrow> string option \<Rightarrow> string option \<Rightarrow> nat \<Rightarrow> 'w \<Rightarrow> (int \<times> string option \<times> nat) \<times> 'w" where
  "DBM_Get A db key value count w =
     (case db of None \<Rightarrow> ((DBM_INVALID_ARGS, value, 0), w) | Some db \<Rightarrow> Dbm_Get A db key value count w)"

subsection \<open>Putting a value\<close>

definition Dbm_SetValueToFile :: "'w dbm_api \<Rightarrow> DBM \<Rightarrow> string \<Rightarrow> string \<Rightarrow> 'w \<Rightarrow> int \<times> 'w" where
  "Dbm_SetValueToFile A db key buf w =
     (if \<not> file_malloc A 257 w then (DBM_ERROR, w)
      else (case item_path A db key of
        None \<Rightarrow> (DBM_ERROR, w)
      | Some keyPath \<Rightarrow>
          (case UtilsFileOpen A keyPath [O_RDWR_FS, O_CREAT_FS, O_TRUNC_FS] w of (fd, w) \<Rightarrow>
             if fd < 0 then (DBM_ERROR, w)
             else (case UtilsFileWrite A fd buf w of (ret, w) \<Rightarrow>
               let w = snd (UtilsFileClose A fd w) in (if ret < 0 then DBM_ERROR else DBM_OK, w)))))"

definition BackupItem :: "'w dbm_api \<Rightarrow> DBM \<Rightarrow> KeyItem \<Rightarrow> 'w \<Rightarrow> int \<times> 'w" where
  "BackupItem A db item w =
     (if \<not> isValid item then (DBM_OK, w)
      else (case bak_name A 257 (cstr (key_bytes item)) of
        None \<Rightarrow> (DBM_ERROR, w)
      | Some bakFile \<Rightarrow>
          (case delete_fails A db bakFile w of (bad, w) \<Rightarrow>
             if bad then (DBM_ERROR, w)
             else (case CopyValueToFile A db (cstr (key_bytes item)) bakFile w of (ret, w) \<Rightarrow>
               if ret \<noteq> DBM_OK then (DBM_ERROR, snd (Dbm_DeleteValueFromFile A db bakFile w))
               else (case FileWriteCursor A (sumFileFd db) (GetKeyItemOffset (item_index item) + 2) SEEK_SET_FS [CHR 0x01] w of (ret, w) \<Rightarrow>
                 if ret < 0 then (DBM_ERROR, snd (Dbm_DeleteValueFromFile A db bakFile w)) else (DBM_OK, w))))))"

definition InitValue :: "'w dbm_api \<Rightarrow> int \<Rightarrow> string \<Rightarrow> string option" where
  "InitValue A index value =
     (case sprintf_s A 4 (to_string index) of
        None \<Rightarrow> None
      | Some s \<Rightarrow> if \<not> secure_ok A (length value) (length value) then None else Some (s @ value))"

definition InsertKV :: "'w dbm_api \<Rightarrow> DBM \<Rightarrow> KeyItem \<Rightarrow> string \<Rightarrow> 'w \<Rightarrow> int \<times> 'w" where
  "InsertKV A db item value w =
     (if \<not> file_malloc A (length value + 4) w then (DBM_ERROR, w)
      else (case InitValue A (item_index item) value of
        None \<Rightarrow> (DBM_ERROR, w)
      | Some valueContent \<Rightarrow>
          (case Dbm_SetValueToFile A db (cstr (key_bytes item)) valueContent w of (ret, w) \<Rightarrow>
             let w = (if ret \<noteq> DBM_OK then snd (DelItem A db item w) else w) in
             (case FileWriteCursor A (sumFileFd db) (GetKeyItemOffset (item_index item) + 1) SEEK_SET_FS [CHR 0x01] w of (pos, w) \<Rightarrow>
                if pos < 0 then (DBM_ERROR, snd (DelItem A db item w)) else (ret, w)))))"

definition UpdateKV :: "'w dbm_api \<Rightarrow> DBM \<Rightarrow> KeyItem \<Rightarrow> string \<Rightarrow> 'w \<Rightarrow> int \<times> 'w" where
  "UpdateKV A db item value w =
     (case BackupItem A db item w of (ret, w) \<Rightarrow>
        if ret \<noteq> DBM_OK then (DBM_ERROR, w)
        else if \<not> file_malloc A (length value + 4) w then (DBM_ERROR, w)
        else (case InitValue A (item_index item) value of
          None \<Rightarrow> (DBM_ERROR, w)
        | Some valueContent \<Rightarrow>
            (case Dbm_SetValueToFile A db (cstr (key_bytes item)) valueContent w of (ret, w) \<Rightarrow>
               if ret \<noteq> DBM_OK then (DBM_ERROR, snd (RecoverItem A db item w))
               else (case FileWriteCursor A (sumFileFd db) (GetKeyItemOffset (item_index item) + 2) SEEK_SET_FS [NUL] w of (pos, w) \<Rightarrow>
                 if pos < 0 then (DBM_ERROR, w)
                 else (case bak_name A 257 (cstr (key_bytes item)) of
                   None \<Rightarrow> (DBM_ERROR, w)
                 | Some bakFile \<Rightarrow> (case delete_fails A db bakFile w of (bad, w) \<Rightarrow> (if bad then DBM_ERROR else DBM_OK, w)))))))"

definition WriteNewItemToSumFile :: "'w dbm_api \<Rightarrow> DBM \<Rightarrow> KeyItem \<Rightarrow> 'w \<Rightarrow> int \<times> 'w" where
  "WriteNewItemToSumFile A db item w =
     (case FileWriteCursor A (sumFileFd db) (GetKeyItemOffset (item_index item)) SEEK_SET_FS (replicate 8 NUL) w of (ret, w) \<Rightarrow>
        if ret < 0 then (DBM_ERROR, w)
        else (case FileWriteCursor A (sumFileFd db) (GetKeyItemOffset (item_index item) + 8) SEEK_SET_FS (take 32 (key_bytes item)) w of (ret, w) \<Rightarrow>
          if ret < 0 then (DBM_ERROR, w)
          else (case FileWriteCursor A (sumFileFd db) 0 SEEK_CUR_FS KV_MAGIC w of (ret, w) \<Rightarrow> (if ret < 0 then DBM_ERROR else DBM_OK, w))))"

text \<open>The loop of \<open>AddNewDataItem\<close>: the index that was found and whether the key is a new one.\<close>

fun find_slot :: "'w dbm_api \<Rightarrow> DBM \<Rightarrow> string \<Rightarrow> nat \<Rightarrow> int \<Rightarrow> int \<Rightarrow> 'w \<Rightarrow> (int \<times> bool) \<times> 'w" where
  "find_slot A db key 0 index itemIndex w = ((itemIndex, True), w)"
| "find_slot A db key (Suc n) index itemIndex w =
     (case (if itemIndex = - 1 then IsDataItemMatched A db [] index w else (False, w)) of (free, w) \<Rightarrow>
        let itemIndex = (if free then index else itemIndex) in
        (case IsDataItemMatched A db key index w of (found, w) \<Rightarrow>
           if found then ((index, False), w) else find_slot A db key n (index + 1) itemIndex w))"

definition AddNewDataItem :: "'w dbm_api \<Rightarrow> DBM \<Rightarrow> KeyItem \<Rightarrow> 'w \<Rightarrow> (int \<times> DBM \<times> KeyItem) \<times> 'w" where
  "AddNewDataItem A db item w =
     (case find_slot A db (cstr (key_bytes item)) (nat (kvItemSum db + 1)) 0 (- 1) w of ((itemIndex, isNewItem), w) \<Rightarrow>
        let db = (if isNewItem then db\<lparr>kvItemSum := kvItemSum db + 1\<rparr> else db);
            item = item\<lparr>item_index := (if itemIndex = - 1 then kvItemSum db - 1 else itemIndex)\<rparr> in
        if item_index item < 0 then ((DBM_ERROR, db, item), w)
        else (case WriteNewItemToSumFile A db item w of (ret, w) \<Rightarrow> ((ret, db, item), w)))"

definition FindDataItem :: "'w dbm_api \<Rightarrow> DBM \<Rightarrow> KeyItem \<Rightarrow> bool \<Rightarrow> 'w \<Rightarrow> (int \<times> DBM \<times> KeyItem) \<times> 'w" where
  "FindDataItem A db item kvExisted w =
     (let item = item\<lparr>item_index := 0\<rparr> in
      if kvExisted then
        (if \<not> file_malloc A 257 w then ((DBM_ERROR, db, item), w)
         else (case item_path A db (cstr (key_bytes item)) of
           None \<Rightarrow> ((DBM_ERROR, db, item), w)
         | Some keyPath \<Rightarrow>
             (case UtilsFileOpen A keyPath [O_RDONLY_FS] w of (fd, w) \<Rightarrow>
                if fd < 0 then ((DBM_ERROR, db, item), w)
                else (case UtilsFileRead A fd 4 w of ((ret, bs), w) \<Rightarrow>
                  let w = snd (UtilsFileClose A fd w);
                      item = item\<lparr>item_index := (if ret < 0 then 0 else atoi (pad_to 4 bs @ stack_bytes A))\<rparr> in
                  (case IsDataItemMatched A db (cstr (key_bytes item)) (item_index item) w of (found, w) \<Rightarrow>
                     if found then ((DBM_OK, db, item), w) else AddNewDataItem A db item w)))))
      else AddNewDataItem A db item w)"

definition PrePut :: "'w dbm_api \<Rightarrow> DBM \<Rightarrow> KeyItem \<Rightarrow> bool \<Rightarrow> 'w \<Rightarrow> (int \<times> DBM \<times> KeyItem \<times> bool) \<times> 'w" where
  "PrePut A db item newItem w =
     (case FindDataItem A db item (\<not> newItem) w of ((ret, db, item), w) \<Rightarrow>
        if ret \<noteq> DBM_OK then ((DBM_ERROR, db, item, newItem), w)
        else (case LoadDataItem A db (item_index item) item w of ((ret, item), w) \<Rightarrow>
          if ret \<noteq> DBM_OK then ((DBM_ERROR, db, item, newItem), w)
          else if newItem then ((DBM_OK, db, item, newItem), w)
          else (case CheckPointItem A db item w of (ret, w) \<Rightarrow>
            if ret \<noteq> DBM_OK then ((DBM_ERROR, db, item, newItem), w)
            else if isInvalid (sumFlag db) \<or> \<not> isValid item then
              (case WriteNewItemToSumFile A db item w of (ret, w) \<Rightarrow>
                 if ret \<noteq> DBM_OK then ((ret, db, item, newItem), w) else ((DBM_OK, db, item, True), w))
            else ((DBM_OK, db, item, newItem), w))))"

definition new_item :: "string \<Rightarrow> KeyItem" where
  "new_item key = empty_item\<lparr>key_bytes := pad_to 33 key, key_len := int (length key)\<rparr>"

definition Dbm_Put :: "'w dbm_api \<Rightarrow> DBM \<Rightarrow> string option \<Rightarrow> string option \<Rightarrow> 'w \<Rightarrow> (int \<times> DBM) \<times> 'w" where
  "Dbm_Put A db key value w =
     (if \<not> IsValidKey key \<or> value = None \<or> length (the value) > DBM_MAX_VALUE_LEN \<or> length (the value) \<le> 0 then ((DBM_INVALID_ARGS, db), w)
      else if \<not> initOK db \<or> \<not> IsStrSame (db_magic db) 5 KV_MAGIC then ((DBM_INVALID_ARGS, db), w)
      else (case IsNewItem A db (the key) w of (newItem, w) \<Rightarrow>
        if kvItemSum db \<ge> DBM_MAX_KV_SUM \<and> newItem then ((DBM_OVER_MAX_LIMITS, db), w)
        else if \<not> file_malloc A (sizeof_KeyItem A) w then ((DBM_ERROR, db), w)
        else if \<not> secure_ok A 33 (length (the key) + 1) then ((DBM_ERROR, db), w)
        else (case PrePut A db (new_item (the key)) newItem w of ((ret, db, item, newItem), w) \<Rightarrow>
          if ret \<noteq> DBM_OK then ((DBM_ERROR, db), w)
          else (case (if newItem then InsertKV A db item (the value) w else UpdateKV A db item (the value) w) of (ret, w) \<Rightarrow>
            ((ret, db), w)))))"

definition DBM_Put :: "'w dbm_api \<Rightarrow> DBM option \<Rightarrow> string option \<Rightarrow> string option \<Rightarrow> 'w \<Rightarrow> (int \<times> DBM option) \<times> 'w" where
  "DBM_Put A db key value w =
     (case db of
        None \<Rightarrow> ((DBM_INVALID_ARGS, None), w)
      | Some db \<Rightarrow> (case Dbm_Put A db key value w of ((ret, db), w) \<Rightarrow> ((ret, Some db), w)))"

subsection \<open>Deleting, closing, and deleting the database\<close>

definition ExeDelete :: "'w dbm_api \<Rightarrow> DBM \<Rightarrow> KeyItem \<Rightarrow> bool \<Rightarrow> 'w \<Rightarrow> (int \<times> DBM) \<times> 'w" where
  "ExeDelete A db item newItem w =
     (case FileWriteCursor A (sumFileFd db) (GetKeyItemOffset (item_index item) + 1) SEEK_SET_FS [NUL] w of (ret, w) \<Rightarrow>
        let db = db\<lparr>kvItemSum := kvItemSum db - 1\<rparr> in
        if ret < 0 then ((DBM_ERROR, db), w)
        else (case (if newItem then (DBM_OK, w) else Dbm_DeleteValueFromFile A db (cstr (key_bytes item)) w) of (ret, w) \<Rightarrow>
          if ret \<noteq> DBM_OK then ((DBM_ERROR, db), w)
          else (case bak_name A 256 (cstr (key_bytes item)) of
            None \<Rightarrow> ((DBM_ERROR, db), w)
          | Some bakKey \<Rightarrow>
              (case IsNewItem A db bakKey w of (new, w) \<Rightarrow>
                 let w = (if new then w else snd (Dbm_DeleteValueFromFile A db bakKey w));
                     w = snd (FileWriteCursor A (sumFileFd db) (GetKeyItemOffset (item_index item)) SEEK_SET_FS (replicate 40 NUL) w) in
                 ((DBM_OK, db), w)))))"

definition Dbm_Delete :: "'w dbm_api \<Rightarrow> DBM \<Rightarrow> string option \<Rightarrow> 'w \<Rightarrow> (int \<times> DBM) \<times> 'w" where
  "Dbm_Delete A db key w =
     (if \<not> IsValidKey key then ((DBM_INVALID_ARGS, db), w)
      else if \<not> initOK db \<or> \<not> IsStrSame (db_magic db) 5 KV_MAGIC then ((DBM_INVALID_ARGS, db), w)
      else (case IsNewItem A db (the key) w of (newItem, w) \<Rightarrow>
        if newItem then ((DBM_OK, db), w)
        else if \<not> file_malloc A (sizeof_KeyItem A) w then ((DBM_ERROR, db), w)
        else if \<not> secure_ok A 33 (length (the key) + 1) then ((DBM_ERROR, db), w)
        else (case FindDataItem A db (new_item (the key)) (\<not> newItem) w of ((ret, db, item), w) \<Rightarrow>
          if ret \<noteq> DBM_OK then ((DBM_ERROR, db), w) else ExeDelete A db item newItem w)))"

definition DBM_Delete :: "'w dbm_api \<Rightarrow> DBM option \<Rightarrow> string option \<Rightarrow> 'w \<Rightarrow> (int \<times> DBM option) \<times> 'w" where
  "DBM_Delete A db key w =
     (case db of
        None \<Rightarrow> ((DBM_INVALID_ARGS, None), w)
      | Some db \<Rightarrow> (case Dbm_Delete A db key w of ((ret, db), w) \<Rightarrow> ((ret, Some db), w)))"

definition CloseKVStore :: "'w dbm_api \<Rightarrow> DBM \<Rightarrow> 'w \<Rightarrow> (int \<times> DBM) \<times> 'w" where
  "CloseKVStore A db w =
     (if \<not> initOK db \<or> \<not> IsStrSame (db_magic db) 5 KV_MAGIC then ((DBM_INVALID_ARGS, db), w)
      else (case SetSumIndexToFile A db (kvItemSum db) w of ((ret, db), w) \<Rightarrow>
        case UtilsFileClose A (sumFileFd db) w of (ret, w) \<Rightarrow>
          if ret < 0 then ((DBM_ERROR, db), w) else ((DBM_OK, db\<lparr>sumFileFd := - 1\<rparr>), w)))"

definition DBM_CloseKVStore :: "'w dbm_api \<Rightarrow> DBM option \<Rightarrow> 'w \<Rightarrow> int \<times> 'w" where
  "DBM_CloseKVStore A db w =
     (case db of
        None \<Rightarrow> (DBM_OK, w)
      | Some db \<Rightarrow> (case CloseKVStore A db w of ((ret, db), w) \<Rightarrow> (ret, ReleaseKVDBHandle A db w)))"

definition DelSumFile :: "'w dbm_api \<Rightarrow> DBM \<Rightarrow> 'w \<Rightarrow> (int \<times> DBM) \<times> 'w" where
  "DelSumFile A db w =
     (if \<not> file_malloc A 257 w then ((DBM_ERROR, db), w)
      else (case GetSumFilePath A db 257 of (ret, sumFilePath) \<Rightarrow>
        if ret \<noteq> DBM_OK then ((DBM_ERROR, db), w)
        else (case UtilsFileClose A (sumFileFd db) w of (ret, w) \<Rightarrow>
          if ret < 0 then ((DBM_ERROR, db), w)
          else
            let db = db\<lparr>sumFileFd := - 1\<rparr> in
            (case UtilsFileDelete A sumFilePath w of (ret, w) \<Rightarrow> ((if ret < 0 then DBM_ERROR else DBM_OK, db), w)))))"

definition RemoveKVStoreFile :: "'w dbm_api \<Rightarrow> DBM \<Rightarrow> int \<Rightarrow> 'w \<Rightarrow> (int \<times> DBM) \<times> 'w" where
  "RemoveKVStoreFile A db sumFileLen w =
     (case FileWriteCursor A (sumFileFd db) 8 SEEK_SET_FS (replicate 4 (CHR 0x01)) w of (ret, w) \<Rightarrow>
        if ret < 0 then ((DBM_ERROR, db), w)
        else if sumFileLen > 0 then
          (case LoadSumFileHeader A db w of ((ret, db), w) \<Rightarrow>
             if ret \<noteq> DBM_OK then ((DBM_ERROR, db), w)
             else (case VacuumStore A db w of ((ret, db), w) \<Rightarrow>
               if ret \<noteq> DBM_OK then ((DBM_ERROR, db), w) else DelSumFile A db w))
        else DelSumFile A db w)"

definition DBM_DeleteKVStore :: "'w dbm_api \<Rightarrow> string option \<Rightarrow> 'w \<Rightarrow> int \<times> 'w" where
  "DBM_DeleteKVStore A storeFullPath w =
     (if \<not> IsValidPath storeFullPath then (DBM_INVALID_ARGS, w)
      else (case GetKVDBHandle A (the storeFullPath) w of
        (None, w) \<Rightarrow> (DBM_ERROR, w)
      | (Some db, w) \<Rightarrow>
          (case OpenSumFile A db [O_RDWR_FS] w of (fd, w) \<Rightarrow>
             let db = db\<lparr>sumFileFd := fd\<rparr> in
             if fd < 0 then (DBM_NOT_FOUND, ReleaseKVDBHandle A db w)
             else (case UtilsFileSeek A fd 0 SEEK_END_FS w of (sumFileLen, w) \<Rightarrow>
               if sumFileLen < 0 then (DBM_ERROR, ReleaseKVDBHandle A db w)
               else if sumFileLen < int SUM_FILE_HEADER_SIZE \<and> sumFileLen \<noteq> 0 \<and> sumFileLen \<noteq> 4 then (DBM_ERROR, ReleaseKVDBHandle A db w)
               else (case RemoveKVStoreFile A db sumFileLen w of ((ret, db), w) \<Rightarrow> (ret, ReleaseKVDBHandle A db w))))))"

definition DBM_KVStoreControl :: "DBM option \<Rightarrow> int \<Rightarrow> nat \<Rightarrow> DBM option" where
  "DBM_KVStoreControl db cmd arg =
     (case db of
        None \<Rightarrow> None
      | Some db \<Rightarrow> Some (if cmd = 0 then db\<lparr>db_lock := arg\<rparr> else if cmd = 1 then db\<lparr>db_unlock := arg\<rparr> else db))"

subsection \<open>The POSIX build\<close>

text \<open>The build for POSIX has the same interface and supports none of it.\<close>

definition Posix_DBM_GetKVStore :: "string option \<Rightarrow> bool \<Rightarrow> int" where
  "Posix_DBM_GetKVStore storeFullPath hasOut = DBM_NOT_SUPPORT"

definition Posix_DBM_Get :: "DBM option \<Rightarrow> string option \<Rightarrow> string option \<Rightarrow> nat \<Rightarrow> int" where
  "Posix_DBM_Get db key value count = DBM_NOT_SUPPORT"

definition Posix_DBM_Put :: "DBM option \<Rightarrow> string option \<Rightarrow> string option \<Rightarrow> int" where
  "Posix_DBM_Put db key value = DBM_NOT_SUPPORT"

definition Posix_DBM_Delete :: "DBM option \<Rightarrow> string option \<Rightarrow> int" where
  "Posix_DBM_Delete db key = DBM_NOT_SUPPORT"

definition Posix_DBM_CloseKVStore :: "DBM option \<Rightarrow> int" where
  "Posix_DBM_CloseKVStore db = DBM_NOT_SUPPORT"

definition Posix_DBM_DeleteKVStore :: "string option \<Rightarrow> int" where
  "Posix_DBM_DeleteKVStore storeFullPath = DBM_NOT_SUPPORT"

end
