(* ===== verification/Dbm_Files.thy ===== *)
theory Dbm_Files
  imports Dbm_Store
begin

text \<open>
  The functions of the database on a device that works.  The sum file is its header and the bytes of its slots, one for every
  item; the lemmas say what each function does to the slots and to the files of the keys.
\<close>

named_theorems dbm_steps \<open>definitions that a call of the database unfolds\<close>

subsection \<open>Slots\<close>

record slot =
  skey :: string
  svalid :: bool
  sbak :: bool

definition flag_byte :: "bool \<Rightarrow> char" where
  "flag_byte b = (if b then CHR 0x01 else NUL)"

definition slot_bytes :: "slot \<Rightarrow> string" where
  "slot_bytes s = [NUL, flag_byte (svalid s), flag_byte (sbak s), NUL] @ replicate 4 NUL @ pad_to 32 (skey s) @ KV_MAGIC"

definition free_slot :: slot where
  "free_slot = \<lparr>skey = [], svalid = False, sbak = False\<rparr>"

definition slot_wf :: "slot \<Rightarrow> bool" where
  "slot_wf s \<longleftrightarrow> length (skey s) < 32 \<and> NUL \<notin> set (skey s)"

definition sum_bytes :: "string \<Rightarrow> slot list \<Rightarrow> string" where
  "sum_bytes h ss = h @ concat (map slot_bytes ss)"

definition sum_wf :: "string \<Rightarrow> slot list \<Rightarrow> bool" where
  "sum_wf h ss \<longleftrightarrow> length h = 20 \<and> list_all slot_wf ss"

lemma length_slot_bytes [simp]: "slot_wf s \<Longrightarrow> length (slot_bytes s) = 44"
  by (simp add: slot_bytes_def slot_wf_def KV_MAGIC_def)

lemma free_slot_wf [simp]: "slot_wf free_slot"
  by (simp add: slot_wf_def free_slot_def)

lemma length_slots: "list_all slot_wf ss \<Longrightarrow> length (concat (map slot_bytes ss)) = 44 * length ss"
  by (induction ss) auto

lemma length_sum_bytes [simp]: "sum_wf h ss \<Longrightarrow> length (sum_bytes h ss) = 20 + 44 * length ss"
  by (simp add: sum_bytes_def sum_wf_def length_slots)

lemma sum_split:
  assumes "sum_wf h ss" and "i < length ss"
  shows "sum_bytes h ss = (h @ concat (map slot_bytes (take i ss))) @ slot_bytes (ss ! i) @ concat (map slot_bytes (drop (Suc i) ss))"
    and "length (h @ concat (map slot_bytes (take i ss))) = 20 + 44 * i"
proof -
  have "ss = take i ss @ ss ! i # drop (Suc i) ss" using assms(2) by (simp add: id_take_nth_drop)
  then have "map slot_bytes ss = map slot_bytes (take i ss) @ slot_bytes (ss ! i) # map slot_bytes (drop (Suc i) ss)"
    by (metis list.simps(9) map_append)
  then show "sum_bytes h ss = (h @ concat (map slot_bytes (take i ss))) @ slot_bytes (ss ! i) @ concat (map slot_bytes (drop (Suc i) ss))"
    by (simp add: sum_bytes_def)
  have "list_all slot_wf (take i ss)" using assms(1) by (auto simp: sum_wf_def list_all_iff dest: in_set_takeD)
  then show "length (h @ concat (map slot_bytes (take i ss))) = 20 + 44 * i"
    using assms by (simp add: sum_wf_def length_slots)
qed

lemma sum_wf_nth: "sum_wf h ss \<Longrightarrow> i < length ss \<Longrightarrow> slot_wf (ss ! i)"
  by (simp add: sum_wf_def list_all_length)

lemma sum_wf_update [simp]: "sum_wf h ss \<Longrightarrow> slot_wf s \<Longrightarrow> sum_wf h (ss[i := s])"
  by (auto simp: sum_wf_def list_all_iff dest: set_update_subset_insert [THEN subsetD])

lemma read_slot:
  assumes "sum_wf h ss" and "i < length ss"
  shows "take 44 (drop (20 + 44 * i) (sum_bytes h ss)) = slot_bytes (ss ! i)"
proof -
  have l: "length (h @ concat (map slot_bytes (take i ss))) = 20 + 44 * i" by (rule sum_split(2) [OF assms])
  have "drop (20 + 44 * i) (sum_bytes h ss) = slot_bytes (ss ! i) @ concat (map slot_bytes (drop (Suc i) ss))"
    unfolding sum_split(1) [OF assms] l [symmetric] append_eq_conv_conj by simp
  then show ?thesis using sum_wf_nth [OF assms] by simp
qed

lemma read_past: "sum_wf h ss \<Longrightarrow> drop (20 + 44 * length ss) (sum_bytes h ss) = []"
  by simp

lemma write_slot:
  assumes w: "sum_wf h ss" and i: "i < length ss" and s: "put_bytes j bs (slot_bytes (ss ! i)) = slot_bytes s" and j: "j + length bs \<le> 44"
  shows "put_bytes (20 + 44 * i + j) bs (sum_bytes h ss) = sum_bytes h (ss[i := s])"
proof -
  let ?a = "h @ concat (map slot_bytes (take i ss))" and ?z = "concat (map slot_bytes (drop (Suc i) ss))"
  have l: "length ?a = 20 + 44 * i" by (rule sum_split(2) [OF w i])
  have ls: "length (slot_bytes (ss ! i)) = 44" by (simp add: sum_wf_nth [OF w i])
  have "sum_bytes h (ss[i := s]) = ?a @ slot_bytes s @ ?z"
    using i by (simp add: sum_bytes_def upd_conv_take_nth_drop)
  moreover have "put_bytes (20 + 44 * i + j) bs (?a @ slot_bytes (ss ! i) @ ?z) = ?a @ put_bytes j bs (slot_bytes (ss ! i)) @ ?z"
    using l ls j by (simp add: put_bytes_def)
  ultimately show ?thesis using s unfolding sum_split(1) [OF w i] by simp
qed

subsection \<open>The state of an open database\<close>

definition sum_path :: "DBM \<Rightarrow> string" where
  "sum_path db = ItemPathFormat db DBM_SUM_FILE"

text \<open>The descriptor of the sum file is open, the file has the content \<open>b\<close>, and the other files are \<open>f\<close>.\<close>

definition dbm_at :: "'w dbm_api \<Rightarrow> ('w \<Rightarrow> file_view) \<Rightarrow> DBM \<Rightarrow> 'w \<Rightarrow> string \<Rightarrow> (string \<rightharpoonup> string) \<Rightarrow> bool" where
  "dbm_at A V db w b f \<longleftrightarrow>
     utils_ok A V \<and> length (dirPath db) \<le> 200 \<and> (\<exists>pos. fds (V w) (sumFileFd db) = Some (sum_path db, pos))
     \<and> files (V w) = f(sum_path db \<mapsto> b) \<and> f (sum_path db) = None"

lemma dbm_at_simps [simp]:
  "dbm_at A V (db\<lparr>kvItemSum := n\<rparr>) = dbm_at A V db" "dbm_at A V (db\<lparr>sumFlag := s\<rparr>) = dbm_at A V db"
  "dbm_at A V (set_index_valid x db) = dbm_at A V db" "dbm_at A V (SetSumFlag y db) = dbm_at A V db"
  by (simp_all add: dbm_at_def sum_path_def ItemPathFormat_def fun_eq_iff set_index_valid_def SetSumFlag_def)

lemma sum_read:
  assumes D: "dbm_at A V db w b f" and off: "off \<le> length b"
  obtains w' where "FileReadCursor A (sumFileFd db) (int off) SEEK_SET_FS n w
      = ((int (length (take n (drop off b))), pad_to n (take n (drop off b))), w')" "dbm_at A V db w' b f"
proof -
  obtain pos where U: "utils_ok A V" and fd: "fds (V w) (sumFileFd db) = Some (sum_path db, pos)" and b: "files (V w) (sum_path db) = Some b"
    using D by (auto simp: dbm_at_def)
  obtain w1 where 1: "UtilsFileSeek A (sumFileFd db) (int off) SEEK_SET_FS w = (int off, w1)"
    "V w1 = (V w)\<lparr>fds := (fds (V w))(sumFileFd db \<mapsto> (sum_path db, off))\<rparr>"
    by (rule seek_open [OF U fd b, of "int off" SEEK_SET_FS "int off"]) (use off in \<open>simp_all add: seek_target_def\<close>)
  obtain w2 where 2: "UtilsFileRead A (sumFileFd db) n w1 = ((int (length (take n (drop off b))), take n (drop off b)), w2)"
    "V w2 = (V w1)\<lparr>fds := (fds (V w1))(sumFileFd db \<mapsto> (sum_path db, off + length (take n (drop off b))))\<rparr>"
    by (rule read_open [OF U, of w1 "sumFileFd db" "sum_path db" off b n]) (use 1 b in simp_all)
  show thesis
    by (rule that [of w2]) (use 1 2 D in \<open>simp_all add: FileReadCursor_def dbm_at_def\<close>)
qed

lemma sum_write_pos:
  assumes D: "dbm_at A V db w b f" and off: "off \<le> length b"
    and wh: "wh = SEEK_SET_FS \<and> x = int off \<or> wh = SEEK_CUR_FS \<and> x = 0 \<and> fds (V w) (sumFileFd db) = Some (sum_path db, off)"
  obtains w' where "FileWriteCursor A (sumFileFd db) x wh bs w = (int (length bs), w')"
    "dbm_at A V db w' (put_bytes off bs b) f" "fds (V w') (sumFileFd db) = Some (sum_path db, off + length bs)"
proof -
  obtain pos where U: "utils_ok A V" and fd: "fds (V w) (sumFileFd db) = Some (sum_path db, pos)" and b: "files (V w) (sum_path db) = Some b"
    using D by (auto simp: dbm_at_def)
  obtain w1 where 1: "UtilsFileSeek A (sumFileFd db) x wh w = (int off, w1)"
    "V w1 = (V w)\<lparr>fds := (fds (V w))(sumFileFd db \<mapsto> (sum_path db, nat (int off)))\<rparr>"
    by (rule seek_open [OF U fd b, of "int off" wh x]) (use off wh fd in \<open>auto simp: seek_target_def\<close>)
  obtain w2 where 2: "UtilsFileWrite A (sumFileFd db) bs w1 = (int (length bs), w2)"
    "V w2 = (V w1)\<lparr>files := (files (V w1))(sum_path db \<mapsto> put_bytes off bs b), fds := (fds (V w1))(sumFileFd db \<mapsto> (sum_path db, off + length bs))\<rparr>"
    by (rule write_open [OF U, of w1 "sumFileFd db" "sum_path db" off b bs]) (use 1 b off in simp_all)
  show thesis
    by (rule that [of w2]) (use 1 2 D in \<open>simp_all add: FileWriteCursor_def dbm_at_def\<close>)
qed

lemma sum_write:
  assumes "dbm_at A V db w b f" and "off \<le> length b"
  obtains w' where "FileWriteCursor A (sumFileFd db) (int off) SEEK_SET_FS bs w = (int (length bs), w')"
    "dbm_at A V db w' (put_bytes off bs b) f"
  using sum_write_pos [OF assms, of SEEK_SET_FS "int off" bs] by blast

lemma item_offset [simp]: "GetKeyItemOffset (int i) = int (20 + 44 * i)"
  by (simp add: GetKeyItemOffset_def SUM_FILE_HEADER_SIZE_def KV_SUM_DATA_ITEM_SIZE_def)

text \<open>Writing inside a slot.\<close>

lemma slot_write:
  assumes "dbm_at A V db w (sum_bytes h ss) f" and "sum_wf h ss" and "i < length ss"
    and "put_bytes j bs (slot_bytes (ss ! i)) = slot_bytes s" and "j + length bs \<le> 44"
  obtains w' where "FileWriteCursor A (sumFileFd db) (GetKeyItemOffset (int i) + int j) SEEK_SET_FS bs w = (int (length bs), w')"
    "dbm_at A V db w' (sum_bytes h (ss[i := s])) f"
proof -
  obtain w' where "FileWriteCursor A (sumFileFd db) (int (20 + 44 * i + j)) SEEK_SET_FS bs w = (int (length bs), w')"
    "dbm_at A V db w' (put_bytes (20 + 44 * i + j) bs (sum_bytes h ss)) f"
    by (rule sum_write [OF assms(1), of "20 + 44 * i + j" bs]) (use assms(2,3,5) in \<open>simp_all\<close>)
  then show thesis using that write_slot [OF assms(2-5)] by simp
qed

lemma put_valid [simp]: "put_bytes 1 [flag_byte x] (slot_bytes s) = slot_bytes (s\<lparr>svalid := x\<rparr>)"
  by (simp add: put_bytes_def slot_bytes_def)

lemma put_bak [simp]: "put_bytes 2 [flag_byte x] (slot_bytes s) = slot_bytes (s\<lparr>sbak := x\<rparr>)"
  by (simp add: put_bytes_def slot_bytes_def)

lemma put_zeros: "slot_wf s \<Longrightarrow> put_bytes 0 (replicate 40 NUL) (slot_bytes s) = slot_bytes free_slot"
  by (simp add: put_bytes_def slot_bytes_def slot_wf_def free_slot_def pad_to_def flag_byte_def replicate_add [symmetric] numeral_eq_Suc)

lemma flag_bytes: "[CHR 0x01] = [flag_byte True]" "[NUL] = [flag_byte False]"
  by (simp_all add: flag_byte_def)

lemma magic_tail: "slot_wf s \<Longrightarrow> drop 40 (slot_bytes s) = KV_MAGIC"
  by (simp add: slot_bytes_def slot_wf_def)

lemma slot_fields:
  assumes "slot_wf s"
  shows "IsStrSame (drop 40 (slot_bytes s @ [NUL])) 5 KV_MAGIC" "(slot_bytes s @ [NUL]) ! 1 \<noteq> NUL \<longleftrightarrow> svalid s"
    "(slot_bytes s @ [NUL]) ! 2 \<noteq> NUL \<longleftrightarrow> sbak s" "(slot_bytes s @ [NUL]) ! 3 = NUL"
    "take 4 (drop 4 (slot_bytes s @ [NUL])) = replicate 4 NUL" "take 32 (drop 8 (slot_bytes s @ [NUL])) = pad_to 32 (skey s)"
proof -
  show "IsStrSame (drop 40 (slot_bytes s @ [NUL])) 5 KV_MAGIC" using magic_tail [OF assms] assms by (simp add: IsStrSame_def KV_MAGIC_def)
qed (use assms in \<open>simp_all add: slot_bytes_def flag_byte_def slot_wf_def numeral_eq_Suc\<close>)

lemma atoi_NUL [simp]: "atoi (NUL # t) = 0"
  by (simp add: atoi_def is_space_def digits_val_def is_digit_def)

lemma clib [simp]:
  "dbm_at A V db w b f \<Longrightarrow> file_malloc A n w'"
  "dbm_at A V db w b f \<Longrightarrow> d < 2 ^ 31 \<Longrightarrow> 0 < k \<Longrightarrow> secure_ok A d k \<longleftrightarrow> k \<le> d"
  by (auto simp: dbm_at_def)

definition loaded_item :: "slot \<Rightarrow> nat \<Rightarrow> KeyItem" where
  "loaded_item s i = \<lparr>key_bytes = pad_to 33 (skey s), isValid = svalid s, isBakValid = sbak s, valueType = NUL, key_len = 0, item_index = int i\<rparr>"

lemma LoadDataItem_slot:
  assumes D: "dbm_at A V db w (sum_bytes h ss) f" and W: "sum_wf h ss" and i: "i < length ss"
  obtains w' where "LoadDataItem A db (int i) item w = ((DBM_OK, loaded_item (ss ! i) i), w')" "dbm_at A V db w' (sum_bytes h ss) f"
proof -
  have s: "slot_wf (ss ! i)" by (rule sum_wf_nth [OF W i])
  obtain w' where r: "FileReadCursor A (sumFileFd db) (int (20 + 44 * i)) SEEK_SET_FS 44 w
      = ((int (length (take 44 (drop (20 + 44 * i) (sum_bytes h ss)))), pad_to 44 (take 44 (drop (20 + 44 * i) (sum_bytes h ss)))), w')"
    and D': "dbm_at A V db w' (sum_bytes h ss) f" by (rule sum_read [OF D, of "20 + 44 * i" 44]) (use W i in simp_all)
  then have r: "FileReadCursor A (sumFileFd db) (GetKeyItemOffset (int i)) SEEK_SET_FS KV_SUM_DATA_ITEM_SIZE w = ((44, slot_bytes (ss ! i)), w')"
    unfolding read_slot [OF W i] using s by (simp add: KV_SUM_DATA_ITEM_SIZE_def pad_to_def)
  have "33 - length (skey (ss ! i)) = Suc (32 - length (skey (ss ! i)))" using s unfolding slot_wf_def by linarith
  then have key: "pad_to 32 (skey (ss ! i)) @ [NUL] = pad_to 33 (skey (ss ! i))"
    by (simp add: pad_to_def replicate_append_same)
  obtain c where c: "slot_bytes (ss ! i) @ [NUL] = c" by blast
  note F = slot_fields [OF s, unfolded c]
  have "atoi (replicate 4 NUL @ stack_bytes A) = 0" by (simp add: numeral_eq_Suc)
  moreover have "secure_ok A 4 4" "secure_ok A 32 32" by (simp_all add: clib(2) [OF D])
  ultimately have "LoadDataItem A db (int i) item w = ((DBM_OK, loaded_item (ss ! i) i), w')"
    using r F key by (cases item) (simp add: LoadDataItem_def Let_def loaded_item_def c del: item_offset drop_append)
  with D' show thesis by (rule that [rotated])
qed
lemma IsDataItemMatched_slot:
  assumes D: "dbm_at A V db w (sum_bytes h ss) f" and W: "sum_wf h ss" and i: "i \<le> length ss" and k: "length k < 32" "NUL \<notin> set k"
  obtains w' where "IsDataItemMatched A db k (int i) w = (k = (if i < length ss then skey (ss ! i) else []), w')" "dbm_at A V db w' (sum_bytes h ss) f"
proof -
  obtain w' where r: "FileReadCursor A (sumFileFd db) (int (20 + 44 * i)) SEEK_SET_FS 44 w
      = ((int (length (take 44 (drop (20 + 44 * i) (sum_bytes h ss)))), pad_to 44 (take 44 (drop (20 + 44 * i) (sum_bytes h ss)))), w')"
    and D': "dbm_at A V db w' (sum_bytes h ss) f" by (rule sum_read [OF D, of "20 + 44 * i" 44]) (use W i in simp_all)
  have same: "IsStrSame (pad_to 32 s @ t) (length k + 1) k \<longleftrightarrow> k = s" if "length s < 32" "NUL \<notin> set s" for s t
  proof -
    define z where "z = 31 - length s"
    have z: "32 - length s = Suc z" using that(1) unfolding z_def by linarith
    have "take (length k + 1) (s @ NUL # replicate z NUL @ t) = k @ [NUL] \<longleftrightarrow> k = s"
    proof
      assume e: "take (length k + 1) (s @ NUL # replicate z NUL @ t) = k @ [NUL]"
      have "cstr (take (length k + 1) (s @ NUL # replicate z NUL @ t) @ [NUL]) = (if length k < length s then take (length k + 1) s else s)"
      proof (cases "length k < length s")
        case True
        moreover have "NUL \<notin> set (take (length k + 1) s)" using that(2) by (meson in_set_takeD)
        ultimately show ?thesis by simp
      next
        case False
        then obtain n where "length k - length s = n" "length k + 1 - length s = Suc n" by (cases "length k + 1 - length s") auto
        then show ?thesis using that(2) False by simp
      qed
      moreover have "cstr (take (length k + 1) (s @ NUL # replicate z NUL @ t) @ [NUL]) = k" unfolding e using k(2) by simp
      ultimately show "k = s" by (auto split: if_splits dest: arg_cong [of _ _ length])
    qed simp
    then show ?thesis using z by (simp add: IsStrSame_def pad_to_def)
  qed
  have m: "IsStrSame (drop 8 (pad_to 44 (take 44 (drop (20 + 44 * i) (sum_bytes h ss))) @ [NUL])) (length k + 1) k
      \<longleftrightarrow> k = (if i < length ss then skey (ss ! i) else [])"
  proof (cases "i < length ss")
    case True
    note s = sum_wf_nth [OF W True]
    have "drop 8 (slot_bytes (ss ! i) @ [NUL]) = pad_to 32 (skey (ss ! i)) @ KV_MAGIC @ [NUL]" by (simp add: slot_bytes_def numeral_eq_Suc)
    then show ?thesis unfolding read_slot [OF W True] using same s True by (simp add: pad_to_def [of 44] slot_wf_def)
  next
    case False
    then have "i = length ss" using i by simp
    have "drop 8 (pad_to 44 [] @ [NUL]) = pad_to 32 [] @ replicate 5 NUL" by (simp add: pad_to_def numeral_eq_Suc)
    then show ?thesis using same [of "[]" "replicate 5 NUL"] False W by (simp add: \<open>i = length ss\<close>)
  qed
  show thesis by (rule that [OF _ D']) (use r m in \<open>simp add: IsDataItemMatched_def KV_SUM_DATA_ITEM_SIZE_def\<close>)
qed

subsection \<open>The files of the keys\<close>

definition name_ok :: "string \<Rightarrow> bool" where
  "name_ok n \<longleftrightarrow> length n \<le> 39 \<and> n \<noteq> DBM_SUM_FILE"

abbreviation key_file :: "DBM \<Rightarrow> string \<Rightarrow> string" where
  "key_file \<equiv> ItemPathFormat"

lemma key_file_inj [simp]: "key_file db a = key_file db b \<longleftrightarrow> a = b"
  by (simp add: ItemPathFormat_def)

lemma key_file_sum [simp]: "name_ok n \<Longrightarrow> key_file db n \<noteq> sum_path db" "name_ok n \<Longrightarrow> sum_path db \<noteq> key_file db n"
  by (auto simp: sum_path_def name_ok_def)

lemma item_path_ok: "dbm_at A V db w b f \<Longrightarrow> name_ok n \<Longrightarrow> item_path A db n = Some (key_file db n)"
  using clib(2) [of A V db w b f 257 "length (key_file db n) + 1"]
  by (auto simp: item_path_def dbm_at_def ItemPathFormat_def name_ok_def)

lemma dbm_at_same: "dbm_at A V db w b f \<Longrightarrow> V w' = V w \<Longrightarrow> dbm_at A V db w' b f"
  by (simp add: dbm_at_def)

lemma dbm_at_files:
  assumes "dbm_at A V db w b f" and "V w' = (V w)\<lparr>files := (files (V w))(key_file db n := x)\<rparr>" and "name_ok n"
  shows "dbm_at A V db w' b (f(key_file db n := x))"
  using assms by (auto simp: dbm_at_def fun_upd_twist)

lemma dbm_file: "dbm_at A V db w b f \<Longrightarrow> name_ok n \<Longrightarrow> files (V w) (key_file db n) = f (key_file db n)"
  by (simp add: dbm_at_def)

lemma dbm_utils: "dbm_at A V db w b f \<Longrightarrow> utils_ok A V"
  by (simp add: dbm_at_def)

lemma IsNewItem_file:
  assumes D: "dbm_at A V db w b f" and n: "name_ok n"
  obtains w' where "IsNewItem A db n w = (f (key_file db n) = None, w')" "dbm_at A V db w' b f"
proof (cases "f (key_file db n)")
  case None
  show thesis
    by (rule open_missing [OF dbm_utils [OF D], of w "key_file db n" "[O_RDONLY_FS]"])
      (use that None dbm_file [OF D n] item_path_ok [OF D n] dbm_at_same [OF D] in \<open>auto simp: IsNewItem_def\<close>)
next
  case (Some c)
  show thesis
    by (rule probe_file [OF dbm_utils [OF D], of "[O_RDONLY_FS]" w "key_file db n" c])
      (use that Some dbm_file [OF D n] item_path_ok [OF D n] dbm_at_same [OF D] in \<open>auto simp: IsNewItem_def\<close>)
qed

lemma DeleteValue_file:
  assumes D: "dbm_at A V db w b f" and n: "name_ok n" and c: "f (key_file db n) = Some c"
  obtains w' where "Dbm_DeleteValueFromFile A db n w = (DBM_OK, w')" "dbm_at A V db w' b (f(key_file db n := None))"
  by (rule delete_existing [OF dbm_utils [OF D], of w "key_file db n" c])
    (use that c dbm_file [OF D n] item_path_ok [OF D n] dbm_at_files [OF D _ n] in \<open>auto simp: Dbm_DeleteValueFromFile_def\<close>)

lemma delete_fails_file:
  assumes D: "dbm_at A V db w b f" and n: "name_ok n"
  obtains w' where "delete_fails A db n w = (False, w')" "dbm_at A V db w' b (f(key_file db n := None))"
proof -
  obtain w1 where 1: "IsNewItem A db n w = (f (key_file db n) = None, w1)" "dbm_at A V db w1 b f" by (rule IsNewItem_file [OF D n])
  show thesis
  proof (cases "f (key_file db n)")
    case None
    then show thesis using that 1 by (simp add: delete_fails_def fun_upd_idem)
  next
    case (Some c)
    show thesis by (rule DeleteValue_file [OF 1(2) n Some]) (use that 1 Some in \<open>simp add: delete_fails_def\<close>)
  qed
qed

lemma CopyValue_file:
  assumes D: "dbm_at A V db w b f" and n: "name_ok n" "name_ok m" and c: "f (key_file db n) = Some c"
  obtains w' where "CopyValueToFile A db n m w = (DBM_OK, w')" "dbm_at A V db w' b (f(key_file db m \<mapsto> c))"
  by (rule copy_existing [OF dbm_utils [OF D], of w "key_file db n" c "key_file db m"])
    (use that c dbm_file [OF D n(1)] item_path_ok [OF D n(1)] item_path_ok [OF D n(2)] dbm_at_files [OF D _ n(2)] in \<open>auto simp: CopyValueToFile_def\<close>)

lemma SetValue_file:
  assumes D: "dbm_at A V db w b f" and n: "name_ok n"
  obtains w' where "Dbm_SetValueToFile A db n c w = (DBM_OK, w')" "dbm_at A V db w' b (f(key_file db n \<mapsto> c))"
  by (rule replace_file [OF dbm_utils [OF D], of "[O_RDWR_FS, O_CREAT_FS, O_TRUNC_FS]" w "key_file db n" c])
    (use that clib(1) [OF D] item_path_ok [OF D n] dbm_at_files [OF D _ n] in \<open>auto simp: Dbm_SetValueToFile_def\<close>)

subsection \<open>Items\<close>

definition bak :: "string \<Rightarrow> string" where
  "bak k = k @ ''_dbm_kv''"

text \<open>A key that the interface accepts and that is not the name of a backup.\<close>

definition plain_key :: "string \<Rightarrow> bool" where
  "plain_key k \<longleftrightarrow> IsValidKey (Some k) \<and> (\<forall>j. k \<noteq> bak j)"

lemma valid_key:
  assumes "IsValidKey (Some k)"
  shows "length k < 32" "k \<noteq> []" "list_all IsValidChar k" "NUL \<notin> set k"
proof -
  show l: "length k < 32" using assms by (auto simp: IsValidKey_def IsValidValue_def strnlen_def MAX_KEY_LEN_def split: if_splits)
  show v: "list_all IsValidChar k" using assms l by (simp add: IsValidKey_def strnlen_def MAX_KEY_LEN_def split: if_splits)
  show "k \<noteq> []" using assms by (auto simp: IsValidKey_def IsValidValue_def strnlen_def split: if_splits)
  have "\<not> IsValidChar NUL" by (simp add: IsValidChar_def c_islower_def is_digit_def)
  with v show "NUL \<notin> set k" by (auto simp: list_all_iff)
qed

lemma key_names:
  assumes "IsValidKey (Some k)"
  shows "name_ok k" "name_ok (bak k)"
proof -
  have "\<not> list_all IsValidChar DBM_SUM_FILE" by (simp add: DBM_SUM_FILE_def IsValidChar_def c_islower_def is_digit_def)
  with valid_key(3) [OF assms] show "name_ok k" using valid_key(1) [OF assms] by (auto simp: name_ok_def)
  have "last (bak k) \<noteq> last DBM_SUM_FILE" by (simp add: bak_def DBM_SUM_FILE_def)
  then have "bak k \<noteq> DBM_SUM_FILE" by metis
  then show "name_ok (bak k)" using valid_key(1) [OF assms] by (simp add: name_ok_def bak_def)
qed

lemma bak_neq [simp]: "bak k \<noteq> k" "k \<noteq> bak k" "bak k = bak j \<longleftrightarrow> k = j"
  by (simp_all add: bak_def)

lemma bak_name_ok: "dbm_at A V db w b f \<Longrightarrow> length k < 32 \<Longrightarrow> 40 \<le> n \<Longrightarrow> n < 2 ^ 31 \<Longrightarrow> bak_name A n k = Some (bak k)"
  by (simp add: bak_name_def bak_def)

lemma cstr_loaded [simp]: "NUL \<notin> set (skey s) \<Longrightarrow> cstr (key_bytes (loaded_item s i)) = skey s"
  by (simp add: loaded_item_def)

lemma loaded_item_sel [simp]:
  "isValid (loaded_item s i) = svalid s" "isBakValid (loaded_item s i) = sbak s" "item_index (loaded_item s i) = int i"
  by (simp_all add: loaded_item_def)

lemma DelItem_slot:
  assumes D: "dbm_at A V db w (sum_bytes h ss) f" and W: "sum_wf h ss" and i: "i < length ss"
    and it: "cstr (key_bytes item) = k" "item_index item = int i" and k: "IsValidKey (Some k)"
  obtains w' where "DelItem A db item w = (DBM_OK, w')"
    "dbm_at A V db w' (sum_bytes h (ss[i := free_slot])) (f(key_file db k := None, key_file db (bak k) := None))"
proof -
  note nk = key_names [OF k]
  obtain w1 where 1: "delete_fails A db k w = (False, w1)" "dbm_at A V db w1 (sum_bytes h ss) (f(key_file db k := None))"
    by (rule delete_fails_file [OF D nk(1)])
  obtain w2 where 2: "delete_fails A db (bak k) w1 = (False, w2)"
    "dbm_at A V db w2 (sum_bytes h ss) (f(key_file db k := None, key_file db (bak k) := None))" by (rule delete_fails_file [OF 1(2) nk(2)])
  obtain w3 where 3: "FileWriteCursor A (sumFileFd db) (GetKeyItemOffset (int i) + int 0) SEEK_SET_FS (replicate 40 NUL) w2 = (int (length (replicate 40 NUL)), w3)"
    "dbm_at A V db w3 (sum_bytes h (ss[i := free_slot])) (f(key_file db k := None, key_file db (bak k) := None))"
    by (rule slot_write [OF 2(2) W i, of 0 "replicate 40 NUL" free_slot]) (use put_zeros sum_wf_nth [OF W i] in simp_all)
  have "bak_name A 40 k = Some (bak k)" using bak_name_ok [OF D valid_key(1) [OF k]] by simp
  then show thesis using that [OF _ 3(2)] 1(1) 2(1) 3(1) it by (simp add: DelItem_def)
qed

lemma RecoverItem_slot:
  assumes D: "dbm_at A V db w (sum_bytes h ss) f" and W: "sum_wf h ss" and i: "i < length ss"
    and it: "cstr (key_bytes item) = k" "item_index item = int i" and k: "IsValidKey (Some k)" and c: "f (key_file db (bak k)) = Some c"
  obtains w' where "RecoverItem A db item w = (DBM_OK, w')"
    "dbm_at A V db w' (sum_bytes h (ss[i := (ss ! i)\<lparr>svalid := False\<rparr>])) (f(key_file db k \<mapsto> c))"
proof -
  note nk = key_names [OF k]
  obtain w1 where 1: "delete_fails A db k w = (False, w1)" "dbm_at A V db w1 (sum_bytes h ss) (f(key_file db k := None))"
    by (rule delete_fails_file [OF D nk(1)])
  obtain w2 where 2: "CopyValueToFile A db (bak k) k w1 = (DBM_OK, w2)"
    "dbm_at A V db w2 (sum_bytes h ss) (f(key_file db k := None, key_file db k \<mapsto> c))" by (rule CopyValue_file [OF 1(2) nk(2,1)]) (use c in simp)
  obtain w3 where 3: "FileWriteCursor A (sumFileFd db) (GetKeyItemOffset (int i) + int 1) SEEK_SET_FS [flag_byte False] w2 = (int (length [flag_byte False]), w3)"
    "dbm_at A V db w3 (sum_bytes h (ss[i := (ss ! i)\<lparr>svalid := False\<rparr>])) (f(key_file db k := None, key_file db k \<mapsto> c))"
    by (rule slot_write [OF 2(2) W i put_valid [of False]]) simp
  have "bak_name A 257 k = Some (bak k)" using bak_name_ok [OF D valid_key(1) [OF k]] by simp
  then show thesis using that [of w3] 1(1) 2(1) 3 it by (simp add: RecoverItem_def flag_bytes)
qed

text \<open>The five cases of checking an item when the database is opened or its key is put again.\<close>

definition check_slot :: "bool \<Rightarrow> DBM \<Rightarrow> slot \<Rightarrow> (string \<rightharpoonup> string) \<Rightarrow> slot \<times> (string \<rightharpoonup> string)" where
  "check_slot invalid db s f =
     (if skey s = [] then (s, f)
      else if invalid \<or> \<not> svalid s \<or> (sbak s \<and> f (key_file db (bak (skey s))) = None)
        then (free_slot, f(key_file db (skey s) := None, key_file db (bak (skey s)) := None))
      else if sbak s then (s\<lparr>svalid := False\<rparr>, f(key_file db (skey s) := f (key_file db (bak (skey s)))))
      else (s, f(key_file db (bak (skey s)) := None)))"

lemma CheckPointItem_slot:
  assumes D: "dbm_at A V db w (sum_bytes h ss) f" and W: "sum_wf h ss" and i: "i < length ss" and k: "skey (ss ! i) = [] \<or> IsValidKey (Some (skey (ss ! i)))"
  obtains w' where "CheckPointItem A db (loaded_item (ss ! i) i) w = (DBM_OK, w')"
    "dbm_at A V db w' (sum_bytes h (ss[i := fst (check_slot (isInvalid (sumFlag db)) db (ss ! i) f)])) (snd (check_slot (isInvalid (sumFlag db)) db (ss ! i) f))"
proof -
  let ?s = "ss ! i" and ?it = "loaded_item (ss ! i) i"
  have nul: "NUL \<notin> set (skey ?s)" using sum_wf_nth [OF W i] by (simp add: slot_wf_def)
  show thesis
  proof (cases "skey ?s = []")
    case True
    then show thesis using that [of w] D nul by (simp add: CheckPointItem_def check_slot_def)
  next
    case False
    then have k: "IsValidKey (Some (skey ?s))" using k by simp
    note nk = key_names [OF k]
    have it: "cstr (key_bytes ?it) = skey ?s" "item_index ?it = int i" using nul by simp_all
    have bn: "bak_name A 257 (skey ?s) = Some (bak (skey ?s))" using bak_name_ok [OF D valid_key(1) [OF k]] by simp
    show thesis
    proof (cases "isInvalid (sumFlag db) \<or> \<not> svalid ?s")
      case True
      show thesis by (rule DelItem_slot [OF D W i it k]) (use that True False nul in \<open>auto simp: CheckPointItem_def check_slot_def\<close>)
    next
      case valid: False
      show thesis
      proof (cases "sbak ?s")
        case sb: False
        show thesis by (rule delete_fails_file [OF D nk(2)])
            (use that False nul valid sb bn in \<open>auto simp: CheckPointItem_def check_slot_def\<close>)
      next
        case sb: True
        obtain w1 where 1: "IsNewItem A db (bak (skey ?s)) w = (f (key_file db (bak (skey ?s))) = None, w1)" "dbm_at A V db w1 (sum_bytes h ss) f"
          by (rule IsNewItem_file [OF D nk(2)])
        show thesis
        proof (cases "f (key_file db (bak (skey ?s)))")
          case None
          show thesis by (rule DelItem_slot [OF 1(2) W i it k])
              (use None 1(1) that False nul valid sb bn in \<open>auto simp: CheckPointItem_def check_slot_def\<close>)
        next
          case (Some c)
          show thesis by (rule RecoverItem_slot [OF 1(2) W i it k Some])
              (use Some 1(1) that False nul valid sb bn in \<open>auto simp: CheckPointItem_def check_slot_def\<close>)
        qed
      qed
    qed
  qed
qed

definition content :: "nat \<Rightarrow> string \<Rightarrow> string" where
  "content i v = pad_to 4 (nat_str i) @ v"

lemma InitValue_content:
  assumes "dbm_at A V db w b f" and "i < 100" and "v \<noteq> []" and "length v \<le> 512"
  shows "InitValue A (int i) v = Some (content i v)"
proof -
  have "length (nat_str i) \<le> 2" using length_nat_str [of i 1] assms(2) by simp
  then show ?thesis using clib(2) [OF assms(1)] assms(3,4)
    by (simp add: InitValue_def sprintf_s_def to_string_def content_def length_greater_0_conv [symmetric] del: length_greater_0_conv)
qed

lemma BackupItem_slot:
  assumes D: "dbm_at A V db w (sum_bytes h ss) f" and W: "sum_wf h ss" and i: "i < length ss" and s: "svalid (ss ! i)"
    and k: "IsValidKey (Some (skey (ss ! i)))" and c: "f (key_file db (skey (ss ! i))) = Some c"
  obtains w' where "BackupItem A db (loaded_item (ss ! i) i) w = (DBM_OK, w')"
    "dbm_at A V db w' (sum_bytes h (ss[i := (ss ! i)\<lparr>sbak := True\<rparr>])) (f(key_file db (bak (skey (ss ! i))) \<mapsto> c))"
proof -
  let ?k = "skey (ss ! i)"
  note nk = key_names [OF k]
  have nul: "NUL \<notin> set ?k" using sum_wf_nth [OF W i] by (simp add: slot_wf_def)
  obtain w1 where 1: "delete_fails A db (bak ?k) w = (False, w1)" "dbm_at A V db w1 (sum_bytes h ss) (f(key_file db (bak ?k) := None))"
    by (rule delete_fails_file [OF D nk(2)])
  obtain w2 where 2: "CopyValueToFile A db ?k (bak ?k) w1 = (DBM_OK, w2)"
    "dbm_at A V db w2 (sum_bytes h ss) (f(key_file db (bak ?k) := None, key_file db (bak ?k) \<mapsto> c))" by (rule CopyValue_file [OF 1(2) nk]) (use c in simp)
  obtain w3 where 3: "FileWriteCursor A (sumFileFd db) (GetKeyItemOffset (int i) + int 2) SEEK_SET_FS [flag_byte True] w2 = (int (length [flag_byte True]), w3)"
    "dbm_at A V db w3 (sum_bytes h (ss[i := (ss ! i)\<lparr>sbak := True\<rparr>])) (f(key_file db (bak ?k) := None, key_file db (bak ?k) \<mapsto> c))"
    by (rule slot_write [OF 2(2) W i put_bak [of True]]) simp
  have "bak_name A 257 ?k = Some (bak ?k)" using bak_name_ok [OF D valid_key(1) [OF k]] by simp
  then show thesis using that [of w3] 1(1) 2(1) 3 s nul by (simp add: BackupItem_def flag_bytes)
qed

lemma InsertKV_slot:
  assumes D: "dbm_at A V db w (sum_bytes h ss) f" and W: "sum_wf h ss" and i: "i < length ss" "i < 100"
    and it: "cstr (key_bytes item) = k" "item_index item = int i" and k: "IsValidKey (Some k)" and v: "v \<noteq> []" "length v \<le> 512"
  obtains w' where "InsertKV A db item v w = (DBM_OK, w')"
    "dbm_at A V db w' (sum_bytes h (ss[i := (ss ! i)\<lparr>svalid := True\<rparr>])) (f(key_file db k \<mapsto> content i v))"
proof -
  obtain w1 where 1: "Dbm_SetValueToFile A db k (content i v) w = (DBM_OK, w1)" "dbm_at A V db w1 (sum_bytes h ss) (f(key_file db k \<mapsto> content i v))"
    by (rule SetValue_file [OF D key_names(1) [OF k]])
  obtain w2 where 2: "FileWriteCursor A (sumFileFd db) (GetKeyItemOffset (int i) + int 1) SEEK_SET_FS [flag_byte True] w1 = (int (length [flag_byte True]), w2)"
    "dbm_at A V db w2 (sum_bytes h (ss[i := (ss ! i)\<lparr>svalid := True\<rparr>])) (f(key_file db k \<mapsto> content i v))"
    by (rule slot_write [OF 1(2) W i(1) put_valid [of True]]) simp
  show thesis using that [OF _ 2(2)] 1(1) 2(1) it InitValue_content [OF D i(2) v] clib(1) [OF D] by (simp add: InsertKV_def flag_bytes)
qed

lemma UpdateKV_slot:
  assumes D: "dbm_at A V db w (sum_bytes h ss) f" and W: "sum_wf h ss" and i: "i < length ss" "i < 100" and s: "svalid (ss ! i)"
    and k: "IsValidKey (Some (skey (ss ! i)))" and c: "f (key_file db (skey (ss ! i))) = Some c" and v: "v \<noteq> []" "length v \<le> 512"
  obtains w' where "UpdateKV A db (loaded_item (ss ! i) i) v w = (DBM_OK, w')"
    "dbm_at A V db w' (sum_bytes h (ss[i := (ss ! i)\<lparr>sbak := False\<rparr>]))
       (f(key_file db (skey (ss ! i)) \<mapsto> content i v, key_file db (bak (skey (ss ! i))) := None))"
proof -
  let ?k = "skey (ss ! i)" and ?s1 = "(ss ! i)\<lparr>sbak := True\<rparr>"
  note nk = key_names [OF k]
  have wf: "slot_wf (ss ! i)" by (rule sum_wf_nth [OF W i(1)])
  then have nul: "NUL \<notin> set ?k" and wf1: "slot_wf ?s1" by (simp_all add: slot_wf_def)
  obtain w1 where 1: "BackupItem A db (loaded_item (ss ! i) i) w = (DBM_OK, w1)"
    "dbm_at A V db w1 (sum_bytes h (ss[i := ?s1])) (f(key_file db (bak ?k) \<mapsto> c))" by (rule BackupItem_slot [OF D W i(1) s k c])
  obtain w2 where 2: "Dbm_SetValueToFile A db ?k (content i v) w1 = (DBM_OK, w2)"
    "dbm_at A V db w2 (sum_bytes h (ss[i := ?s1])) (f(key_file db (bak ?k) \<mapsto> c, key_file db ?k \<mapsto> content i v))"
    by (rule SetValue_file [OF 1(2) nk(1)])
  obtain w3 where 3: "FileWriteCursor A (sumFileFd db) (GetKeyItemOffset (int i) + int 2) SEEK_SET_FS [flag_byte False] w2 = (int (length [flag_byte False]), w3)"
    "dbm_at A V db w3 (sum_bytes h ((ss[i := ?s1])[i := ?s1\<lparr>sbak := False\<rparr>])) (f(key_file db (bak ?k) \<mapsto> c, key_file db ?k \<mapsto> content i v))"
    by (rule slot_write [OF 2(2), of i 2 "[flag_byte False]" "?s1\<lparr>sbak := False\<rparr>"]) (use W wf1 i in simp_all)
  obtain w4 where 4: "delete_fails A db (bak ?k) w3 = (False, w4)"
    "dbm_at A V db w4 (sum_bytes h ((ss[i := ?s1])[i := ?s1\<lparr>sbak := False\<rparr>]))
       (f(key_file db (bak ?k) \<mapsto> c, key_file db ?k \<mapsto> content i v, key_file db (bak ?k) := None))" by (rule delete_fails_file [OF 3(2) nk(2)])
  have "bak_name A 257 ?k = Some (bak ?k)" using bak_name_ok [OF D valid_key(1) [OF k]] by simp
  then have "UpdateKV A db (loaded_item (ss ! i) i) v w = (DBM_OK, w4)"
    using 1(1) 2(1) 3(1) 4(1) nul InitValue_content [OF D i(2) v] clib(1) [OF D] by (simp add: UpdateKV_def flag_bytes)
  moreover have "f(key_file db (bak ?k) \<mapsto> c, key_file db ?k \<mapsto> content i v, key_file db (bak ?k) := None)
      = f(key_file db ?k \<mapsto> content i v, key_file db (bak ?k) := None)" by (simp add: fun_upd_twist)
  ultimately show thesis using that [of w4] 4(2) by simp
qed

subsection \<open>Finding and adding items\<close>

lemma put_bytes_seq: "off \<le> length b \<Longrightarrow> put_bytes (off + length x) y (put_bytes off x b) = put_bytes off (x @ y) b"
  by (simp add: put_bytes_def add.commute add.left_commute)

lemma write_whole_slot:
  assumes "sum_wf h ss" and "i \<le> length ss" and "slot_wf s"
  shows "put_bytes (20 + 44 * i) (slot_bytes s) (sum_bytes h ss) = sum_bytes h (if i < length ss then ss[i := s] else ss @ [s])"
proof (cases "i < length ss")
  case True
  then show ?thesis using write_slot [OF assms(1) True, of 0 "slot_bytes s" s] sum_wf_nth [OF assms(1) True] assms(3) by (simp add: put_bytes_def)
next
  case False
  then have e: "20 + 44 * i = length (sum_bytes h ss)" using assms by simp
  show ?thesis unfolding e put_bytes_end using False by (simp add: sum_bytes_def)
qed

definition pending_slot :: "string \<Rightarrow> slot" where
  "pending_slot k = \<lparr>skey = k, svalid = False, sbak = False\<rparr>"

lemma WriteNewItem_slot:
  assumes D: "dbm_at A V db w (sum_bytes h ss) f" and W: "sum_wf h ss" and i: "i \<le> length ss"
    and it: "key_bytes item = pad_to 33 k" "item_index item = int i" and k: "length k < 32" "NUL \<notin> set k"
  obtains w' where "WriteNewItemToSumFile A db item w = (DBM_OK, w')"
    "dbm_at A V db w' (sum_bytes h (if i < length ss then ss[i := pending_slot k] else ss @ [pending_slot k])) f"
proof -
  let ?o = "20 + 44 * i" and ?b = "sum_bytes h ss" and ?z = "replicate 8 NUL" and ?p = "pad_to 32 k"
  have wf: "slot_wf (pending_slot k)" using k by (simp add: pending_slot_def slot_wf_def)
  have sb: "slot_bytes (pending_slot k) = (?z @ ?p) @ KV_MAGIC"
    by (simp add: slot_bytes_def pending_slot_def flag_byte_def numeral_eq_Suc)
  have o: "?o \<le> length ?b" using W i by simp
  obtain w1 where 1: "FileWriteCursor A (sumFileFd db) (int ?o) SEEK_SET_FS ?z w = (int (length ?z), w1)"
    "dbm_at A V db w1 (put_bytes ?o ?z ?b) f" by (rule sum_write [OF D o])
  obtain w2 where 2: "FileWriteCursor A (sumFileFd db) (int (?o + 8)) SEEK_SET_FS ?p w1 = (int (length ?p), w2)"
    "dbm_at A V db w2 (put_bytes (?o + 8) ?p (put_bytes ?o ?z ?b)) f" "fds (V w2) (sumFileFd db) = Some (sum_path db, ?o + 8 + length ?p)"
    by (rule sum_write_pos [OF 1(2), of "?o + 8" SEEK_SET_FS "int (?o + 8)" ?p]) (use o in simp_all)
  have b2: "put_bytes (?o + 8) ?p (put_bytes ?o ?z ?b) = put_bytes ?o (?z @ ?p) ?b" using put_bytes_seq [OF o, of ?z ?p] by simp
  have l40: "8 + length ?p = 40" using k(1) by simp
  obtain w3 where 3: "FileWriteCursor A (sumFileFd db) 0 SEEK_CUR_FS KV_MAGIC w2 = (int (length KV_MAGIC), w3)"
    "dbm_at A V db w3 (put_bytes (?o + 8 + length ?p) KV_MAGIC (put_bytes ?o (?z @ ?p) ?b)) f"
    by (rule sum_write_pos [OF 2(2)[unfolded b2], of "?o + 8 + length ?p" SEEK_CUR_FS 0 KV_MAGIC]) (use o 2(3) l40 in simp_all)
  have "put_bytes (?o + 8 + length ?p) KV_MAGIC (put_bytes ?o (?z @ ?p) ?b) = put_bytes ?o (slot_bytes (pending_slot k)) ?b"
    using put_bytes_seq [OF o, of "?z @ ?p" KV_MAGIC] unfolding sb by (simp add: add.assoc)
  then have b3: "put_bytes (?o + 8 + length ?p) KV_MAGIC (put_bytes ?o (?z @ ?p) ?b)
      = sum_bytes h (if i < length ss then ss[i := pending_slot k] else ss @ [pending_slot k])" using write_whole_slot [OF W i wf] by simp
  have tk: "take 32 (key_bytes item) = ?p" using it(1) k(1) by (simp add: pad_to_def min_def)
  have off: "GetKeyItemOffset (item_index item) = int ?o" "GetKeyItemOffset (item_index item) + 8 = int (?o + 8)" using it(2) by simp_all
  have "WriteNewItemToSumFile A db item w = (DBM_OK, w3)"
    unfolding WriteNewItemToSumFile_def off tk using 1(1) 2(1) 3(1) by simp
  then show thesis using that 3(2) unfolding b3 by blast
qed

end
