(* ===== verification/Dbm_Run.thy ===== *)
theory Dbm_Run
  imports Dbm_Files
begin

text \<open>
  The calls of the database on a device that works: an open database represents a map from keys to values, and putting,
  getting, deleting, closing and opening it act on the map.
\<close>

subsection \<open>The map that a database represents\<close>

definition used :: "string \<Rightarrow> slot" where
  "used k = \<lparr>skey = k, svalid = True, sbak = False\<rparr>"

lemma used_simps [simp]: "skey (used k) = k" "svalid (used k)" "\<not> sbak (used k)" "used k = used j \<longleftrightarrow> k = j"
  by (simp_all add: used_def)

lemma skey_free_slot [simp]: "skey free_slot = []"
  by (simp add: free_slot_def)

text \<open>Every slot is free or holds a key of the map, no key has two slots, and the files of the keys hold the number of the slot and the value.\<close>

definition slots_hold :: "DBM \<Rightarrow> slot list \<Rightarrow> (string \<rightharpoonup> string) \<Rightarrow> (string \<rightharpoonup> string) \<Rightarrow> bool" where
  "slots_hold db ss f m \<longleftrightarrow>
     (\<forall>k v. m k = Some v \<longrightarrow> plain_key k \<and> v \<noteq> [] \<and> length v \<le> DBM_MAX_VALUE_LEN
        \<and> (\<exists>i < length ss. ss ! i = used k \<and> f (key_file db k) = Some (content i v)))
     \<and> (\<forall>i < length ss. ss ! i = free_slot \<or> (\<exists>k \<in> dom m. ss ! i = used k))
     \<and> (\<forall>i < length ss. \<forall>j < length ss. ss ! i = ss ! j \<longrightarrow> ss ! i \<noteq> free_slot \<longrightarrow> i = j)
     \<and> (\<forall>k. plain_key k \<longrightarrow> m k = None \<longrightarrow> f (key_file db k) = None)
     \<and> (\<forall>k. IsValidKey (Some k) \<longrightarrow> f (key_file db (bak k)) = None)"

definition ready :: "DBM \<Rightarrow> bool" where
  "ready db \<longleftrightarrow> initOK db \<and> db_magic db = KV_MAGIC @ [NUL] \<and> \<not> isInvalid (sumFlag db)
     \<and> db_type db = (if dirPath db = [] then DBM_DB_TYPE_KV_NO_DIR else DBM_DB_TYPE_KV)"

text \<open>While a database is open the flags in the header of its sum file are zero.\<close>

definition idle_header :: "string \<Rightarrow> bool" where
  "idle_header h \<longleftrightarrow> take 4 (drop 8 h) = replicate 4 NUL"

definition dbm_rep :: "'w dbm_api \<Rightarrow> ('w \<Rightarrow> file_view) \<Rightarrow> DBM \<times> 'w \<Rightarrow> (string \<rightharpoonup> string) \<Rightarrow> bool" where
  "dbm_rep A V = (\<lambda>(db, w) m. \<exists>h ss f.
     dbm_at A V db w (sum_bytes h ss) f \<and> sum_wf h ss \<and> idle_header h \<and> length ss \<le> 45 \<and> ready db \<and> slots_hold db ss f m
     \<and> finite (dom m) \<and> kvItemSum db = int (card (dom m)) \<and> card (dom m) \<le> 45)"

lemma slots_hold_used:
  assumes "slots_hold db ss f m" and "m k = Some v"
  obtains i where "i < length ss" "ss ! i = used k" "f (key_file db k) = Some (content i v)" "plain_key k" "v \<noteq> []" "length v \<le> 512"
  using assms unfolding slots_hold_def DBM_MAX_VALUE_LEN_def by blast

lemma slots_hold_nth: "slots_hold db ss f m \<Longrightarrow> i < length ss \<Longrightarrow> ss ! i = free_slot \<or> (\<exists>k. k \<in> dom m \<and> ss ! i = used k)"
  unfolding slots_hold_def by blast

lemma slots_hold_distinct: "slots_hold db ss f m \<Longrightarrow> i < length ss \<Longrightarrow> j < length ss \<Longrightarrow> ss ! i = ss ! j \<Longrightarrow> ss ! i \<noteq> free_slot \<Longrightarrow> i = j"
  unfolding slots_hold_def by blast

lemma slots_hold_inj: "slots_hold db ss f m \<Longrightarrow> i < length ss \<Longrightarrow> j < length ss \<Longrightarrow> ss ! i = used k \<Longrightarrow> ss ! j = used k \<Longrightarrow> i = j"
  unfolding slots_hold_def by (metis free_slot_def slot.ext_inject used_def)

lemma slots_hold_plain: "slots_hold db ss f m \<Longrightarrow> k \<in> dom m \<Longrightarrow> plain_key k"
  unfolding slots_hold_def by blast

lemma plain_valid [simp]: "plain_key k \<Longrightarrow> IsValidKey (Some k)"
  by (simp add: plain_key_def)

lemma plain_not_bak [simp]: "plain_key k \<Longrightarrow> k \<noteq> bak j" "plain_key k \<Longrightarrow> bak j \<noteq> k"
  by (auto simp: plain_key_def)

lemma plain_short: "plain_key k \<Longrightarrow> length k < 32" "plain_key k \<Longrightarrow> NUL \<notin> set k" "plain_key k \<Longrightarrow> k \<noteq> []"
  using valid_key [of k] by simp_all

lemma slots_hold_free: "slots_hold db ss f m \<Longrightarrow> i < length ss \<Longrightarrow> skey (ss ! i) = [] \<longleftrightarrow> ss ! i = free_slot"
  using slots_hold_nth [of db ss f m i] slots_hold_plain [of db ss f m] plain_short(3) by fastforce

lemma slots_hold_key: "slots_hold db ss f m \<Longrightarrow> i < length ss \<Longrightarrow> skey (ss ! i) \<noteq> [] \<Longrightarrow> ss ! i = used (skey (ss ! i)) \<and> skey (ss ! i) \<in> dom m"
  using slots_hold_nth [of db ss f m i] by auto

lemma slots_hold_file: "slots_hold db ss f m \<Longrightarrow> plain_key k \<Longrightarrow> f (key_file db k) = None \<longleftrightarrow> m k = None"
  unfolding slots_hold_def by (metis not_None_eq)

lemma slots_hold_bak: "slots_hold db ss f m \<Longrightarrow> IsValidKey (Some k) \<Longrightarrow> f (key_file db (bak k)) = None"
  by (simp add: slots_hold_def)

text \<open>Among the first slots of a database whose map has \<open>n\<close> keys one is free, or they end.\<close>

lemma slots_hold_room:
  assumes R: "slots_hold db ss f m" and fin: "finite (dom m)"
  shows "\<exists>j \<le> card (dom m). j < length ss \<longrightarrow> skey (ss ! j) = []"
proof (rule ccontr)
  assume "\<not> ?thesis"
  then have n: "\<And>j. j \<le> card (dom m) \<Longrightarrow> j < length ss \<and> skey (ss ! j) \<noteq> []" by blast
  let ?g = "\<lambda>j. skey (ss ! j)"
  have "inj_on ?g {0..card (dom m)}"
  proof (rule inj_onI)
    fix i j assume i: "i \<in> {0..card (dom m)}" "j \<in> {0..card (dom m)}" and k: "?g i = ?g j"
    then have l: "i < length ss" "j < length ss" and e: "?g i \<noteq> []" "?g j \<noteq> []" using n [of i] n [of j] by simp_all
    have "ss ! i = used (?g j)" using slots_hold_key [OF R l(1) e(1)] k by simp
    moreover have "ss ! j = used (?g j)" using slots_hold_key [OF R l(2) e(2)] by blast
    ultimately show "i = j" by (rule slots_hold_inj [OF R l])
  qed
  moreover have "?g ` {0..card (dom m)} \<subseteq> dom m" using n slots_hold_key [OF R] by force
  ultimately have "card {0..card (dom m)} \<le> card (dom m)" using card_inj_on_le fin by blast
  then show False by simp
qed

lemma slots_hold_length: 
  assumes R: "slots_hold db ss f m" and fin: "finite (dom m)"
  shows "card (dom m) \<le> length ss"
proof -
  have "dom m \<subseteq> (\<lambda>i. skey (ss ! i)) ` {..<length ss}"
  proof
    fix k assume "k \<in> dom m"
    then obtain v where "m k = Some v" by blast
    then obtain i where "i < length ss" "ss ! i = used k" by (rule slots_hold_used [OF R])
    then show "k \<in> (\<lambda>i. skey (ss ! i)) ` {..<length ss}" by force
  qed
  then have "card (dom m) \<le> card ((\<lambda>i. skey (ss ! i)) ` {..<length ss})" by (rule card_mono [rotated]) simp
  also have "\<dots> \<le> length ss" using card_image_le [of "{..<length ss}" "\<lambda>i. skey (ss ! i)"] by simp
  finally show ?thesis .
qed

subsection \<open>Finding a slot\<close>

definition put_slot :: "nat \<Rightarrow> slot \<Rightarrow> slot list \<Rightarrow> slot list" where
  "put_slot i s ss = (if i < length ss then ss[i := s] else ss @ [s])"

lemma put_slot_nth [simp]:
  "i \<le> length ss \<Longrightarrow> put_slot i s ss ! i = s" "i \<le> length ss \<Longrightarrow> i < length (put_slot i s ss)"
  "i \<le> length ss \<Longrightarrow> (put_slot i s ss)[i := t] = put_slot i t ss"
  by (auto simp: put_slot_def)

lemma put_slot_wf [simp]: "sum_wf h ss \<Longrightarrow> slot_wf s \<Longrightarrow> sum_wf h (put_slot i s ss)"
  by (auto simp: put_slot_def) (simp add: sum_wf_def)

lemma pending_wf [simp]: "plain_key k \<Longrightarrow> slot_wf (pending_slot k)" "plain_key k \<Longrightarrow> slot_wf (used k)"
  using plain_short [of k] by (simp_all add: slot_wf_def pending_slot_def)

lemma find_slot_absent:
  assumes "dbm_at A V db w (sum_bytes h ss) f" and "sum_wf h ss" and "i + n \<le> Suc (length ss)" and "plain_key k"
    and "\<forall>j < length ss. skey (ss ! j) \<noteq> k" and "acc = - 1 \<or> 0 \<le> acc"
  obtains r w' where "find_slot A db k n (int i) acc w = ((r, True), w')" "dbm_at A V db w' (sum_bytes h ss) f"
    "0 \<le> acc \<Longrightarrow> r = acc"
    "acc = - 1 \<Longrightarrow> (r = - 1 \<and> (\<forall>j. i \<le> j \<and> j < i + n \<longrightarrow> j < length ss \<and> skey (ss ! j) \<noteq> []))
       \<or> (\<exists>j < i + n. r = int j \<and> (j < length ss \<longrightarrow> skey (ss ! j) = []))"
  using assms
proof (induction n arbitrary: i acc w thesis)
  case 0
  show thesis by (rule 0(1) [of acc w]) (use 0(2) in auto)
next
  case (Suc n)
  note D = Suc.prems(2) and W = Suc.prems(3)
  note short = plain_short(1,2) [OF Suc.prems(5)]
  have i: "i \<le> length ss" using Suc.prems(4) by simp
  define free where "free \<longleftrightarrow> acc = - 1 \<and> (i < length ss \<longrightarrow> skey (ss ! i) = [])"
  obtain w1 where 1: "(if acc = - 1 then IsDataItemMatched A db [] (int i) w else (False, w)) = (free, w1)" "dbm_at A V db w1 (sum_bytes h ss) f"
  proof (cases "acc = - 1")
    case True
    show thesis by (rule IsDataItemMatched_slot [OF D W i, of "[]"]) (use that True in \<open>auto simp: free_def eq_commute [of "[]"] split: if_splits\<close>)
  qed (use that D in \<open>simp add: free_def\<close>)
  obtain w2 where "IsDataItemMatched A db k (int i) w1 = (k = (if i < length ss then skey (ss ! i) else []), w2)" and D2: "dbm_at A V db w2 (sum_bytes h ss) f"
    by (rule IsDataItemMatched_slot [OF 1(2) W i short])
  then have 2: "IsDataItemMatched A db k (int i) w1 = (False, w2)" using Suc.prems(6) plain_short(3) [OF Suc.prems(5)] by (auto split: if_splits)
  define acc' where "acc' = (if free then int i else acc)"
  have step: "find_slot A db k (Suc n) (int i) acc w = find_slot A db k n (int (Suc i)) acc' w2"
    using 1(1) 2 by (simp add: acc'_def add.commute)
  obtain r w' where r: "find_slot A db k n (int (Suc i)) acc' w2 = ((r, True), w')" "dbm_at A V db w' (sum_bytes h ss) f"
    and keep: "0 \<le> acc' \<Longrightarrow> r = acc'"
    and new: "acc' = - 1 \<Longrightarrow> (r = - 1 \<and> (\<forall>j. Suc i \<le> j \<and> j < Suc i + n \<longrightarrow> j < length ss \<and> skey (ss ! j) \<noteq> []))
       \<or> (\<exists>j < Suc i + n. r = int j \<and> (j < length ss \<longrightarrow> skey (ss ! j) = []))"
    by (rule Suc.IH [OF _ D2 W, of "Suc i" acc']) (use Suc.prems in \<open>auto simp: acc'_def\<close>)
  show thesis
  proof (rule Suc.prems(1) [OF _ r(2)])
    show "find_slot A db k (Suc n) (int i) acc w = ((r, True), w')" using step r(1) by simp
    show "r = acc" if "0 \<le> acc" using that keep by (simp add: acc'_def free_def)
    show "(r = - 1 \<and> (\<forall>j. i \<le> j \<and> j < i + Suc n \<longrightarrow> j < length ss \<and> skey (ss ! j) \<noteq> []))
       \<or> (\<exists>j < i + Suc n. r = int j \<and> (j < length ss \<longrightarrow> skey (ss ! j) = []))" if "acc = - 1"
    proof (cases free)
      case True
      then show ?thesis using keep i by (auto simp: acc'_def free_def)
    next
      case False
      then have "i < length ss" "skey (ss ! i) \<noteq> []" using that by (auto simp: free_def)
      then show ?thesis using new False that unfolding acc'_def by (auto simp: le_less [of i] Suc_le_eq)
    qed
  qed
qed

lemma AddNewDataItem_slot:
  assumes D: "dbm_at A V db w (sum_bytes h ss) f" and W: "sum_wf h ss" and R: "slots_hold db ss f m" and fin: "finite (dom m)"
    and n: "kvItemSum db = int (card (dom m))" and k: "plain_key k" "m k = None" and it: "key_bytes item = pad_to 33 k"
  obtains j w' where "AddNewDataItem A db item w = ((DBM_OK, db\<lparr>kvItemSum := kvItemSum db + 1\<rparr>, item\<lparr>item_index := int j\<rparr>), w')"
    "dbm_at A V db w' (sum_bytes h (put_slot j (pending_slot k) ss)) f" "j \<le> length ss" "j < length ss \<Longrightarrow> ss ! j = free_slot" "j \<le> card (dom m)"
proof -
  note short = plain_short(1,2) [OF k(1)]
  have absent: "\<forall>j < length ss. skey (ss ! j) \<noteq> k" using slots_hold_key [OF R] k(2) plain_short(3) [OF k(1)] by (metis domIff)
  have le: "0 + Suc (card (dom m)) \<le> Suc (length ss)" using slots_hold_length [OF R fin] by simp
  obtain r w1 where 1: "find_slot A db k (Suc (card (dom m))) (int 0) (- 1) w = ((r, True), w1)" "dbm_at A V db w1 (sum_bytes h ss) f"
    and r: "(r = - 1 \<and> (\<forall>j. 0 \<le> j \<and> j < 0 + Suc (card (dom m)) \<longrightarrow> j < length ss \<and> skey (ss ! j) \<noteq> []))
       \<or> (\<exists>j < 0 + Suc (card (dom m)). r = int j \<and> (j < length ss \<longrightarrow> skey (ss ! j) = []))"
    by (rule find_slot_absent [OF D W le k(1) absent, of "- 1"]) auto
  then obtain j where j: "r = int j" "j \<le> card (dom m)" "j < length ss \<longrightarrow> skey (ss ! j) = []"
    using slots_hold_room [OF R fin] by (auto simp: less_Suc_eq_le)
  then have jl: "j \<le> length ss" using slots_hold_length [OF R fin] by simp
  let ?db = "db\<lparr>kvItemSum := kvItemSum db + 1\<rparr>"
  obtain w2 where 2: "WriteNewItemToSumFile A ?db (item\<lparr>item_index := int j\<rparr>) w1 = (DBM_OK, w2)"
    "dbm_at A V db w2 (sum_bytes h (if j < length ss then ss[j := pending_slot k] else ss @ [pending_slot k])) f"
    by (rule WriteNewItem_slot [of A V ?db w1 h ss f j "item\<lparr>item_index := int j\<rparr>" k]) (use 1(2) W jl it short in simp_all)
  have c: "cstr (key_bytes item) = k" "nat (kvItemSum db + 1) = Suc (card (dom m))" using it short n by simp_all
  show thesis
  proof (rule that [OF _ _ jl])
    show "AddNewDataItem A db item w = ((DBM_OK, ?db, item\<lparr>item_index := int j\<rparr>), w2)"
      using 1(1) 2(1) j(1) unfolding AddNewDataItem_def c by (simp del: find_slot.simps)
    show "dbm_at A V db w2 (sum_bytes h (put_slot j (pending_slot k) ss)) f" using 2(2) by (simp add: put_slot_def)
    show "ss ! j = free_slot" if "j < length ss" using that j(3) slots_hold_free [OF R that] by simp
    show "j \<le> card (dom m)" by (rule j(2))
  qed
qed

subsection \<open>The calls\<close>

lemma content_index:
  assumes "i \<le> 45"
  shows "atoi (pad_to 4 (take 4 (content i v)) @ t) = int i" "atoi (take 3 (content i v) @ [NUL]) = int i"
    "length (content i v) = 4 + length v" "drop 4 (content i v) = v"
proof -
  have l: "length (nat_str i) \<le> 2" using length_nat_str [of i 1] assms by simp
  then obtain n where n: "4 - length (nat_str i) = Suc n" "3 - length (nat_str i) = n" by (cases "4 - length (nat_str i)") auto
  have c: "content i v = nat_str i @ NUL # replicate n NUL @ v" using n(1) by (simp add: content_def pad_to_def)
  show lv: "length (content i v) = 4 + length v" "drop 4 (content i v) = v" using l by (simp_all add: content_def)
  have 4: "pad_to 4 (take 4 (content i v)) = nat_str i @ NUL # replicate n NUL" using l n by (simp add: content_def pad_to_def)
  show "atoi (pad_to 4 (take 4 (content i v)) @ t) = int i" unfolding 4 using atoi_nat_str [of "NUL # replicate n NUL @ t" i] by simp
  have "content i v = (nat_str i @ replicate n NUL) @ NUL # v" using n(1) by (simp add: content_def pad_to_def replicate_append_same)
  moreover have "length (nat_str i @ replicate n NUL) = 3" using l n(2) by simp
  ultimately have "take 3 (content i v) = nat_str i @ replicate n NUL" by (metis append_eq_conv_conj)
  then have "take 3 (content i v) @ [NUL] = nat_str i @ NUL # replicate n NUL" by (simp add: replicate_append_same)
  then show "atoi (take 3 (content i v) @ [NUL]) = int i" using atoi_nat_str [of "NUL # replicate n NUL" i] by simp
qed

lemma new_item_simps [simp]:
  "key_bytes (new_item k) = pad_to 33 k" "plain_key k \<Longrightarrow> cstr (key_bytes (new_item k)) = k"
  using plain_short [of k] by (simp_all add: new_item_def empty_item_def)

lemma FindDataItem_existing:
  assumes D: "dbm_at A V db w (sum_bytes h ss) f" and W: "sum_wf h ss" and k: "plain_key k"
    and i: "i < length ss" "i \<le> 45" "skey (ss ! i) = k" and c: "f (key_file db k) = Some (content i v)"
  obtains w' where "FindDataItem A db (new_item k) True w = ((DBM_OK, db, (new_item k)\<lparr>item_index := int i\<rparr>), w')"
    "dbm_at A V db w' (sum_bytes h ss) f"
proof -
  note n = key_names(1) [OF plain_valid [OF k]]
  obtain fd w1 w2 w3 where 1: "UtilsFileOpen A (key_file db k) [O_RDONLY_FS] w = (fd, w1)" "0 \<le> fd"
    "UtilsFileRead A fd 4 w1 = ((int (length (take 4 (content i v))), take 4 (content i v)), w2)" "UtilsFileClose A fd w2 = (0, w3)" "V w3 = V w"
    by (rule read_file [OF dbm_utils [OF D], of "[O_RDONLY_FS]" w "key_file db k" "content i v" 4]) (use c dbm_file [OF D n] in auto)
  have D3: "dbm_at A V db w3 (sum_bytes h ss) f" using dbm_at_same [OF D 1(5)] .
  obtain w4 where 4: "IsDataItemMatched A db k (int i) w3 = (k = (if i < length ss then skey (ss ! i) else []), w4)" "dbm_at A V db w4 (sum_bytes h ss) f"
    by (rule IsDataItemMatched_slot [OF D3 W _ plain_short(1,2) [OF k], of i]) (use i in simp)
  show thesis by (rule that [OF _ 4(2)])
      (use 1 4(1) i plain_short(2) [OF k] content_index(1) [OF i(2)] item_path_ok [OF D n] clib(1) [OF D] in \<open>simp add: FindDataItem_def Let_def new_item_def empty_item_def\<close>)
qed

lemma ready_magic: "ready db \<Longrightarrow> initOK db" "ready db \<Longrightarrow> IsStrSame (db_magic db) 5 KV_MAGIC" "ready db \<Longrightarrow> \<not> isInvalid (sumFlag db)"
  by (auto simp: ready_def IsStrSame_def KV_MAGIC_def)

lemma ready_sum [simp]: "ready (db\<lparr>kvItemSum := n\<rparr>) = ready db" "key_file (db\<lparr>kvItemSum := n\<rparr>) = key_file db"
  by (simp add: ready_def) (rule ext, simp add: ItemPathFormat_def)

lemma slots_hold_sum [simp]: "slots_hold (db\<lparr>kvItemSum := n\<rparr>) ss f m = slots_hold db ss f m"
  by (simp add: slots_hold_def)

lemma slots_hold_insert:
  assumes R: "slots_hold db ss f m" and k: "plain_key k" "m k = None" and v: "v \<noteq> []" "length v \<le> DBM_MAX_VALUE_LEN"
    and j: "j \<le> length ss" "j < length ss \<Longrightarrow> ss ! j = free_slot"
  shows "slots_hold db (put_slot j (used k) ss) (f(key_file db k \<mapsto> content j v)) (m(k \<mapsto> v))"
proof -
  let ?ss = "put_slot j (used k) ss"
  have nth: "?ss ! i = ss ! i \<and> i < length ss" if "i < length ?ss" "i \<noteq> j" for i using that j(1) by (auto simp: put_slot_def nth_append split: if_splits)
  have old: "i < length ?ss \<and> i \<noteq> j \<and> ?ss ! i = ss ! i" if "i < length ss" "ss ! i \<noteq> free_slot" for i
    using that j by (cases "i = j") (auto simp: put_slot_def nth_append)
  have nf: "used x \<noteq> free_slot" "free_slot \<noteq> used x" for x by (simp_all add: used_def free_slot_def)
  have absent: "ss ! i \<noteq> used k" if "i < length ss" for i using slots_hold_nth [OF R that] k(2) nf by auto
  show ?thesis unfolding slots_hold_def
  proof (intro conjI)
    show "\<forall>x u. (m(k \<mapsto> v)) x = Some u \<longrightarrow> plain_key x \<and> u \<noteq> [] \<and> length u \<le> DBM_MAX_VALUE_LEN
        \<and> (\<exists>i < length ?ss. ?ss ! i = used x \<and> (f(key_file db k \<mapsto> content j v)) (key_file db x) = Some (content i u))"
    proof (intro allI impI)
      fix x u assume x: "(m(k \<mapsto> v)) x = Some u"
      show "plain_key x \<and> u \<noteq> [] \<and> length u \<le> DBM_MAX_VALUE_LEN
        \<and> (\<exists>i < length ?ss. ?ss ! i = used x \<and> (f(key_file db k \<mapsto> content j v)) (key_file db x) = Some (content i u))"
      proof (cases "x = k")
        case True
        then show ?thesis using x k v j(1) by (auto intro!: exI [of _ j])
      next
        case False
        then obtain i where "i < length ss" "ss ! i = used x" "f (key_file db x) = Some (content i u)" "plain_key x" "u \<noteq> []" "length u \<le> 512"
          using x slots_hold_used [OF R, of x u] by (metis fun_upd_apply)
        then show ?thesis using old [of i] nf False by (auto simp: DBM_MAX_VALUE_LEN_def)
      qed
    qed
    show "\<forall>i < length ?ss. ?ss ! i = free_slot \<or> (\<exists>x \<in> dom (m(k \<mapsto> v)). ?ss ! i = used x)"
    proof (intro allI impI)
      fix i assume i: "i < length ?ss"
      then show "?ss ! i = free_slot \<or> (\<exists>x \<in> dom (m(k \<mapsto> v)). ?ss ! i = used x)"
        using nth [OF i] slots_hold_nth [OF R, of i] j(1) by (cases "i = j") auto
    qed
    show "\<forall>a < length ?ss. \<forall>b < length ?ss. ?ss ! a = ?ss ! b \<longrightarrow> ?ss ! a \<noteq> free_slot \<longrightarrow> a = b"
    proof (intro allI impI)
      fix a b assume a: "a < length ?ss" "b < length ?ss" "?ss ! a = ?ss ! b" "?ss ! a \<noteq> free_slot"
      show "a = b"
      proof (cases "a = j \<or> b = j")
        case True
        then show ?thesis using a nth [of a] nth [of b] absent [of a] absent [of b] j(1) by (metis put_slot_nth(1))
      next
        case False
        then show ?thesis using a nth [of a] nth [of b] slots_hold_distinct [OF R, of a b] by auto
      qed
    qed
    show "\<forall>x. plain_key x \<longrightarrow> (m(k \<mapsto> v)) x = None \<longrightarrow> (f(key_file db k \<mapsto> content j v)) (key_file db x) = None"
      using slots_hold_file [OF R] by auto
    show "\<forall>x. IsValidKey (Some x) \<longrightarrow> (f(key_file db k \<mapsto> content j v)) (key_file db (bak x)) = None"
      using slots_hold_bak [OF R] k(1) by auto
  qed
qed

lemma slots_hold_replace:
  assumes R: "slots_hold db ss f m" and i: "i < length ss" "ss ! i = used k" and k: "m k = Some u" and v: "v \<noteq> []" "length v \<le> DBM_MAX_VALUE_LEN"
  shows "slots_hold db ss (f(key_file db k \<mapsto> content i v, key_file db (bak k) := None)) (m(k \<mapsto> v))"
proof -
  have p: "plain_key k" using slots_hold_plain [OF R] k by blast
  have b: "(f(key_file db k \<mapsto> content i v, key_file db (bak k) := None)) = f(key_file db k \<mapsto> content i v)"
    using slots_hold_bak [OF R plain_valid [OF p]] by (simp add: fun_upd_idem)
  have d: "dom (m(k \<mapsto> v)) = dom m" using k by auto
  show ?thesis unfolding b slots_hold_def d
    using R i p v unfolding slots_hold_def by (auto simp: DBM_MAX_VALUE_LEN_def)
qed

lemma slots_hold_delete:
  assumes R: "slots_hold db ss f m" and i: "i < length ss" "ss ! i = used k" and k: "m k = Some u"
  shows "slots_hold db (ss[i := free_slot]) (f(key_file db k := None)) (m(k := None))"
proof -
  have p: "plain_key k" using slots_hold_plain [OF R] k by blast
  have only: "j = i" if "j < length ss" "ss ! j = used k" for j using slots_hold_inj [OF R that(1) i(1) that(2) i(2)] .
  have l: "length (ss[i := free_slot]) = length ss" by simp
  have c1: "\<forall>x u. (m(k := None)) x = Some u \<longrightarrow> plain_key x \<and> u \<noteq> [] \<and> length u \<le> DBM_MAX_VALUE_LEN
        \<and> (\<exists>j < length ss. (ss[i := free_slot]) ! j = used x \<and> (f(key_file db k := None)) (key_file db x) = Some (content j u))"
  proof (intro allI impI)
    fix x u assume "(m(k := None)) x = Some u"
    then have x: "x \<noteq> k" "m x = Some u" by (auto split: if_splits)
    then obtain j where j: "j < length ss" "ss ! j = used x" "f (key_file db x) = Some (content j u)" "plain_key x" "u \<noteq> []" "length u \<le> 512"
      using slots_hold_used [OF R x(2)] by blast
    then show "plain_key x \<and> u \<noteq> [] \<and> length u \<le> DBM_MAX_VALUE_LEN
        \<and> (\<exists>j < length ss. (ss[i := free_slot]) ! j = used x \<and> (f(key_file db k := None)) (key_file db x) = Some (content j u))"
      using x i by (auto simp: DBM_MAX_VALUE_LEN_def nth_list_update intro!: exI [of _ j])
  qed
  have c2: "\<forall>j < length ss. (ss[i := free_slot]) ! j = free_slot \<or> (\<exists>x \<in> dom (m(k := None)). (ss[i := free_slot]) ! j = used x)"
  proof (intro allI impI)
    fix j assume j: "j < length ss"
    show "(ss[i := free_slot]) ! j = free_slot \<or> (\<exists>x \<in> dom (m(k := None)). (ss[i := free_slot]) ! j = used x)"
    proof (cases "j = i")
      case False
      then have "ss ! j \<noteq> used k" using only [OF j] by blast
      then show ?thesis using slots_hold_nth [OF R j] False by auto
    qed (use i in simp)
  qed
  have c3: "\<forall>a < length ss. \<forall>b < length ss. ss[i := free_slot] ! a = ss[i := free_slot] ! b \<longrightarrow> ss[i := free_slot] ! a \<noteq> free_slot \<longrightarrow> a = b"
  proof (intro allI impI)
    fix a b assume "a < length ss" "b < length ss" "ss[i := free_slot] ! a = ss[i := free_slot] ! b" "ss[i := free_slot] ! a \<noteq> free_slot"
    then show "a = b" using slots_hold_distinct [OF R, of a b] by (cases "a = i"; cases "b = i") auto
  qed
  show ?thesis unfolding slots_hold_def l
    using c1 c2 c3 slots_hold_file [OF R] slots_hold_bak [OF R] by auto
qed

lemma dbm_repE:
  assumes "dbm_rep A V (db, w) m"
  obtains h ss f where "dbm_at A V db w (sum_bytes h ss) f" "sum_wf h ss" "idle_header h" "length ss \<le> 45" "ready db" "slots_hold db ss f m"
    "finite (dom m)" "kvItemSum db = int (card (dom m))" "card (dom m) \<le> 45"
  using assms unfolding dbm_rep_def by auto

lemma dbm_repI:
  "dbm_at A V db w (sum_bytes h ss) f \<Longrightarrow> sum_wf h ss \<Longrightarrow> idle_header h \<Longrightarrow> length ss \<le> 45 \<Longrightarrow> ready db \<Longrightarrow> slots_hold db ss f m \<Longrightarrow>
   finite (dom m) \<Longrightarrow> kvItemSum db = int (card (dom m)) \<Longrightarrow> card (dom m) \<le> 45 \<Longrightarrow> dbm_rep A V (db, w) m"
  unfolding dbm_rep_def by auto

lemma key_copy [simp]: "dbm_at A V db w b f \<Longrightarrow> plain_key k \<Longrightarrow> secure_ok A 33 (Suc (length k))"
  using clib(2) [of A V db w b f 33 "Suc (length k)"] plain_short(1) [of k] by simp

lemma Dbm_Put_new:
  assumes R: "dbm_rep A V (db, w) m" and k: "plain_key k" "m k = None" and v: "v \<noteq> []" "length v \<le> DBM_MAX_VALUE_LEN" and n: "card (dom m) < 45"
  shows "\<exists>db' w'. Dbm_Put A db (Some k) (Some v) w = ((DBM_OK, db'), w') \<and> dbm_rep A V (db', w') (m(k \<mapsto> v))"
proof (rule dbm_repE [OF R])
  fix h ss f
  assume D: "dbm_at A V db w (sum_bytes h ss) f" and W: "sum_wf h ss" and h: "idle_header h" and l: "length ss \<le> 45" and rd: "ready db"
    and S: "slots_hold db ss f m" and fin: "finite (dom m)" and sum: "kvItemSum db = int (card (dom m))"
  let ?db = "db\<lparr>kvItemSum := kvItemSum db + 1\<rparr>"
  note nk = key_names [OF plain_valid [OF k(1)]]
  obtain w1 where 1: "IsNewItem A db k w = (f (key_file db k) = None, w1)" "dbm_at A V db w1 (sum_bytes h ss) f" by (rule IsNewItem_file [OF D nk(1)])
  have none: "f (key_file db k) = None" using slots_hold_file [OF S k(1)] k(2) by simp
  obtain j w2 where 2: "AddNewDataItem A db ((new_item k)\<lparr>item_index := 0\<rparr>) w1 = ((DBM_OK, ?db, (new_item k)\<lparr>item_index := 0\<rparr>\<lparr>item_index := int j\<rparr>), w2)"
    "dbm_at A V db w2 (sum_bytes h (put_slot j (pending_slot k) ss)) f" and j: "j \<le> length ss" "j < length ss \<Longrightarrow> ss ! j = free_slot" "j \<le> card (dom m)"
    by (rule AddNewDataItem_slot [OF 1(2) W S fin sum k, of "(new_item k)\<lparr>item_index := 0\<rparr>"]) simp_all
  let ?ss = "put_slot j (pending_slot k) ss"
  have W2: "sum_wf h ?ss" and jl: "j < length ?ss" using W k(1) j(1) by simp_all
  obtain w3 where 3: "LoadDataItem A ?db (int j) ((new_item k)\<lparr>item_index := 0\<rparr>\<lparr>item_index := int j\<rparr>) w2 = ((DBM_OK, loaded_item (pending_slot k) j), w3)"
    "dbm_at A V db w3 (sum_bytes h ?ss) f"
    by (rule LoadDataItem_slot [of A V ?db w2 h ?ss f j "(new_item k)\<lparr>item_index := 0\<rparr>\<lparr>item_index := int j\<rparr>"]) (use 2(2) W2 jl j(1) in auto)
  have p: "cstr (key_bytes (loaded_item (pending_slot k) j)) = k" using plain_short(2) [OF k(1)] by (simp add: loaded_item_def pending_slot_def)
  obtain w4 where 4: "InsertKV A ?db (loaded_item (pending_slot k) j) v w3 = (DBM_OK, w4)"
    "dbm_at A V db w4 (sum_bytes h (?ss[j := (?ss ! j)\<lparr>svalid := True\<rparr>])) (f(key_file db k \<mapsto> content j v))"
    by (rule InsertKV_slot [of A V ?db w3 h ?ss f j "loaded_item (pending_slot k) j" k v])
      (use 3(2) W2 jl j(1) l p k(1) v in \<open>auto simp: DBM_MAX_VALUE_LEN_def\<close>)
  have s4: "?ss[j := (?ss ! j)\<lparr>svalid := True\<rparr>] = put_slot j (used k) ss" using j(1) by (simp add: pending_slot_def used_def)
  have "PrePut A db (new_item k) True w1 = ((DBM_OK, ?db, loaded_item (pending_slot k) j, True), w3)"
    using 2(1) 3(1) by (simp add: PrePut_def FindDataItem_def)
  then have "Dbm_Put A db (Some k) (Some v) w = ((DBM_OK, ?db), w4)"
    using 1(1) none 4(1) k(1) v n sum ready_magic [OF rd] clib(1) [OF D] key_copy [OF D k(1)] by (simp add: Dbm_Put_def DBM_MAX_KV_SUM_def)
  moreover have "dbm_rep A V (?db, w4) (m(k \<mapsto> v))"
  proof (rule dbm_repI)
    show "dbm_at A V ?db w4 (sum_bytes h (put_slot j (used k) ss)) (f(key_file db k \<mapsto> content j v))" using 4(2) s4 by simp
    show "sum_wf h (put_slot j (used k) ss)" using W k(1) by simp
    show "slots_hold ?db (put_slot j (used k) ss) (f(key_file db k \<mapsto> content j v)) (m(k \<mapsto> v))"
      using slots_hold_insert [OF S k v j(1,2)] by simp
    show "length (put_slot j (used k) ss) \<le> 45" using l j n by (auto simp: put_slot_def)
  qed (use h rd fin sum k n in \<open>auto simp: domIff\<close>)
  ultimately show ?thesis by blast
qed

lemma Dbm_Put_full:
  assumes R: "dbm_rep A V (db, w) m" and k: "plain_key k" "m k = None" and v: "v \<noteq> []" "length v \<le> DBM_MAX_VALUE_LEN" and n: "45 \<le> card (dom m)"
  shows "\<exists>w'. Dbm_Put A db (Some k) (Some v) w = ((DBM_OVER_MAX_LIMITS, db), w') \<and> dbm_rep A V (db, w') m"
proof (rule dbm_repE [OF R])
  fix h ss f
  assume D: "dbm_at A V db w (sum_bytes h ss) f" and rest: "sum_wf h ss" "idle_header h" "length ss \<le> 45" "ready db" "slots_hold db ss f m" "finite (dom m)"
    "kvItemSum db = int (card (dom m))" "card (dom m) \<le> 45"
  obtain w1 where 1: "IsNewItem A db k w = (f (key_file db k) = None, w1)" "dbm_at A V db w1 (sum_bytes h ss) f"
    by (rule IsNewItem_file [OF D key_names(1) [OF plain_valid [OF k(1)]]])
  have "f (key_file db k) = None" using slots_hold_file [OF rest(5) k(1)] k(2) by simp
  then have "Dbm_Put A db (Some k) (Some v) w = ((DBM_OVER_MAX_LIMITS, db), w1)"
    using 1(1) k(1) v n rest(7) ready_magic [OF rest(4)] by (simp add: Dbm_Put_def DBM_MAX_KV_SUM_def)
  then show ?thesis using dbm_repI [OF 1(2) rest] by blast
qed

lemma Dbm_Put_existing:
  assumes R: "dbm_rep A V (db, w) m" and k: "m k = Some u" and v: "v \<noteq> []" "length v \<le> DBM_MAX_VALUE_LEN"
  shows "\<exists>w'. Dbm_Put A db (Some k) (Some v) w = ((DBM_OK, db), w') \<and> dbm_rep A V (db, w') (m(k \<mapsto> v))"
proof (rule dbm_repE [OF R])
  fix h ss f
  assume D: "dbm_at A V db w (sum_bytes h ss) f" and W: "sum_wf h ss" and h: "idle_header h" and l: "length ss \<le> 45" and rd: "ready db"
    and S: "slots_hold db ss f m" and fin: "finite (dom m)" and sum: "kvItemSum db = int (card (dom m))" and n: "card (dom m) \<le> 45"
  obtain i where i: "i < length ss" "ss ! i = used k" and c: "f (key_file db k) = Some (content i u)" and p: "plain_key k"
    by (rule slots_hold_used [OF S k])
  note nk = key_names [OF plain_valid [OF p]]
  have i45: "i \<le> 45" using i l by simp
  obtain w1 where 1: "IsNewItem A db k w = (f (key_file db k) = None, w1)" "dbm_at A V db w1 (sum_bytes h ss) f" by (rule IsNewItem_file [OF D nk(1)])
  obtain w2 where 2: "FindDataItem A db (new_item k) True w1 = ((DBM_OK, db, (new_item k)\<lparr>item_index := int i\<rparr>), w2)" "dbm_at A V db w2 (sum_bytes h ss) f"
    by (rule FindDataItem_existing [OF 1(2) W p i(1) i45 _ c]) (use i in simp)
  obtain w3 where 3: "LoadDataItem A db (int i) ((new_item k)\<lparr>item_index := int i\<rparr>) w2 = ((DBM_OK, loaded_item (ss ! i) i), w3)"
    "dbm_at A V db w3 (sum_bytes h ss) f" by (rule LoadDataItem_slot [OF 2(2) W i(1)])
  have bak: "f(key_file db (bak k) := None) = f" using slots_hold_bak [OF S plain_valid [OF p]] by (simp add: fun_upd_idem)
  have cs: "check_slot (isInvalid (sumFlag db)) db (ss ! i) f = (ss ! i, f)"
    using i(2) bak plain_short(3) [OF p] ready_magic(3) [OF rd] by (simp add: check_slot_def)
  obtain w4 where 4: "CheckPointItem A db (loaded_item (ss ! i) i) w3 = (DBM_OK, w4)" "dbm_at A V db w4 (sum_bytes h ss) f"
    by (rule CheckPointItem_slot [OF 3(2) W i(1), unfolded cs fst_conv snd_conv list_update_id]) (use i(2) p in auto)
  obtain w5 where 5: "UpdateKV A db (loaded_item (ss ! i) i) v w4 = (DBM_OK, w5)"
    "dbm_at A V db w5 (sum_bytes h (ss[i := (ss ! i)\<lparr>sbak := False\<rparr>])) (f(key_file db k \<mapsto> content i v, key_file db (bak k) := None))"
    by (rule UpdateKV_slot [OF 4(2) W i(1), of "content i u" v]) (use i i45 p c v in \<open>auto simp: DBM_MAX_VALUE_LEN_def\<close>)
  have s5: "ss[i := (ss ! i)\<lparr>sbak := False\<rparr>] = ss" using i by (simp add: used_def list_update_same_conv)
  have "PrePut A db (new_item k) False w1 = ((DBM_OK, db, loaded_item (ss ! i) i, False), w4)"
    using 2(1) 3(1) 4(1) i(2) ready_magic [OF rd] by (simp add: PrePut_def)
  then have "Dbm_Put A db (Some k) (Some v) w = ((DBM_OK, db), w5)"
    using 1(1) c 5(1) p v ready_magic [OF rd] clib(1) [OF D] key_copy [OF D p] by (simp add: Dbm_Put_def)
  moreover have "dbm_rep A V (db, w5) (m(k \<mapsto> v))"
    by (rule dbm_repI [OF 5(2) [unfolded s5] W h l rd slots_hold_replace [OF S i k v]]) (use fin sum n k in \<open>auto simp: insert_absorb domI\<close>)
  ultimately show ?thesis by blast
qed

text \<open>Reading the value of a key from its file or from its backup.\<close>

lemma GetValueByFile_content:
  assumes D: "dbm_at A V db w (sum_bytes h ss) f" and W: "sum_wf h ss" and p: "plain_key k" and g: "name_ok g" and c: "f (key_file db g) = Some (content i v)"
    and i: "i < length ss" "i \<le> 45" "skey (ss ! i) = k" and v: "v \<noteq> []" "length v \<le> 512" and n: "n \<le> DBM_MAX_GET_LEN"
  obtains w' where "Dbm_GetValueByFile A db k g buf n w = (if length v \<le> n then (int (length v), put_bytes 0 v buf) else (- 1, buf), w')"
    "dbm_at A V db w' (sum_bytes h ss) f"
proof -
  note ci = content_index [OF i(2)]
  obtain w3 where 3: "UtilsFileStat A (key_file db g) w = ((0, length (content i v)), w3)" "V w3 = V w"
    by (rule stat_existing [OF dbm_utils [OF D], of w "key_file db g" "content i v"]) (use c dbm_file [OF D g] in auto)
  note D3 = dbm_at_same [OF D 3(2)]
  obtain fd w4 w5 w6 where 4: "UtilsFileOpen A (key_file db g) [O_RDONLY_FS] w3 = (fd, w4)" "0 \<le> fd"
    "UtilsFileRead A fd (length (content i v)) w4 = ((int (length (take (length (content i v)) (content i v))), take (length (content i v)) (content i v)), w5)"
    "UtilsFileClose A fd w5 = (0, w6)" "V w6 = V w3"
    by (rule read_file [OF dbm_utils [OF D], of "[O_RDONLY_FS]" w3 "key_file db g" "content i v" "length (content i v)"]) (use c dbm_file [OF D3 g] in auto)
  note D6 = dbm_at_same [OF D3 4(5)]
  obtain w7 where 7: "IsDataItemMatched A db k (int i) w6 = (k = (if i < length ss then skey (ss ! i) else []), w7)" "dbm_at A V db w7 (sum_bytes h ss) f"
    by (rule IsDataItemMatched_slot [OF D6 W _ plain_short(1,2) [OF p], of i]) (use i in simp)
  have need: "IsNeedTransferValue A db k (content i v) (int (length (content i v))) w6 = (Some True, w7)"
    using 7(1) i ci v(1) clib(2) [OF D] by (simp add: IsNeedTransferValue_def)
  have vl: "0 < length v" using v(1) by simp
  then have fmt: "FormatValueByFile A True buf n (content i v) (length (content i v)) = (if length v \<le> n then (int (length v), put_bytes 0 v buf) else (- 1, buf))"
    using ci clib(2) [OF D, of n "length v"] n by (auto simp: FormatValueByFile_def DBM_MAX_GET_LEN_def)
  have "Dbm_GetValueByFile A db k g buf n w = (if length v \<le> n then (int (length v), put_bytes 0 v buf) else (- 1, buf), w7)"
    using 3(1) 4(1-4) need fmt v(2) ci(3) [of v] item_path_ok [OF D g] clib(1) [OF D]
    by (simp add: Dbm_GetValueByFile_def DBM_MAX_VALUE_LEN_def pad_to_def nat_add_distrib)
  then show thesis using 7(2) by (rule that)
qed

text \<open>A backup is read before the file of the key.\<close>

lemma Dbm_Get_content:
  assumes D: "dbm_at A V db w (sum_bytes h ss) f" and W: "sum_wf h ss" and rd: "ready db" and p: "plain_key k"
    and c: "f (key_file db (bak k)) = Some (content i v) \<or> f (key_file db (bak k)) = None \<and> f (key_file db k) = Some (content i v)"
    and i: "i < length ss" "i \<le> 45" "skey (ss ! i) = k" and v: "v \<noteq> []" "length v \<le> 512" and n: "n \<le> DBM_MAX_GET_LEN"
  obtains w' where "Dbm_Get A db (Some k) (Some buf) n w
      = (if length v \<le> n then (DBM_OK, Some (put_bytes 0 v buf), length v) else (DBM_ERROR, Some buf, 0), w')" "dbm_at A V db w' (sum_bytes h ss) f"
proof -
  note pk = plain_valid [OF p]
  note nk = key_names [OF pk]
  obtain w1 where 1: "IsNewItem A db (bak k) w = (f (key_file db (bak k)) = None, w1)" "dbm_at A V db w1 (sum_bytes h ss) f" by (rule IsNewItem_file [OF D nk(2)])
  obtain w2 where 2: "IsNewItem A db k w1 = (f (key_file db k) = None, w2)" "dbm_at A V db w2 (sum_bytes h ss) f" by (rule IsNewItem_file [OF 1(2) nk(1)])
  define g where "g = (if f (key_file db (bak k)) \<noteq> None then bak k else k)"
  have g: "name_ok g" "f (key_file db g) = Some (content i v)" using nk c by (auto simp: g_def)
  obtain w7 where 7: "Dbm_GetValueByFile A db k g buf n w2 = (if length v \<le> n then (int (length v), put_bytes 0 v buf) else (- 1, buf), w7)"
    "dbm_at A V db w7 (sum_bytes h ss) f" by (rule GetValueByFile_content [OF 2(2) W p g i v n])
  have bn: "bak_name A 257 k = Some (bak k)" using bak_name_ok [OF D plain_short(1) [OF p]] by simp
  have "Dbm_Get A db (Some k) (Some buf) n w
      = (if length v \<le> n then (DBM_OK, Some (put_bytes 0 v buf), length v) else (DBM_ERROR, Some buf, 0), w7)"
    using 1(1) 2(1) 7(1) c bn pk n ready_magic [OF rd] by (auto simp: Dbm_Get_def Let_def g_def)
  then show thesis using 7(2) by (rule that)
qed

lemma Dbm_Get_existing:
  assumes R: "dbm_rep A V (db, w) m" and k: "m k = Some v" and n: "n \<le> DBM_MAX_GET_LEN"
  shows "\<exists>w'. Dbm_Get A db (Some k) (Some buf) n w
      = (if length v \<le> n then (DBM_OK, Some (put_bytes 0 v buf), length v) else (DBM_ERROR, Some buf, 0), w') \<and> dbm_rep A V (db, w') m"
proof (rule dbm_repE [OF R])
  fix h ss f
  assume D: "dbm_at A V db w (sum_bytes h ss) f" and W: "sum_wf h ss" and rest: "idle_header h" "length ss \<le> 45" "ready db" "slots_hold db ss f m" "finite (dom m)"
    "kvItemSum db = int (card (dom m))" "card (dom m) \<le> 45"
  obtain i where i: "i < length ss" "ss ! i = used k" and c: "f (key_file db k) = Some (content i v)" and p: "plain_key k" and v: "v \<noteq> []" "length v \<le> 512"
    by (rule slots_hold_used [OF rest(4) k])
  have i': "i \<le> 45" "skey (ss ! i) = k" using i rest(2) by simp_all
  have c': "f (key_file db (bak k)) = Some (content i v) \<or> f (key_file db (bak k)) = None \<and> f (key_file db k) = Some (content i v)"
    using c slots_hold_bak [OF rest(4) plain_valid [OF p]] by simp
  obtain w7 where 7: "Dbm_Get A db (Some k) (Some buf) n w
      = (if length v \<le> n then (DBM_OK, Some (put_bytes 0 v buf), length v) else (DBM_ERROR, Some buf, 0), w7)" "dbm_at A V db w7 (sum_bytes h ss) f"
    by (rule Dbm_Get_content [OF D W rest(3) p c' i(1) i' v n])
  then show ?thesis using dbm_repI [OF 7(2) W rest] by blast
qed

lemma Dbm_Get_missing:
  assumes R: "dbm_rep A V (db, w) m" and k: "plain_key k" "m k = None" and n: "n \<le> DBM_MAX_GET_LEN"
  shows "\<exists>w'. Dbm_Get A db (Some k) (Some buf) n w = ((DBM_NOT_FOUND, Some buf, 0), w') \<and> dbm_rep A V (db, w') m"
proof (rule dbm_repE [OF R])
  fix h ss f
  assume D: "dbm_at A V db w (sum_bytes h ss) f" and rest: "sum_wf h ss" "idle_header h" "length ss \<le> 45" "ready db" "slots_hold db ss f m" "finite (dom m)"
    "kvItemSum db = int (card (dom m))" "card (dom m) \<le> 45"
  note pk = plain_valid [OF k(1)]
  note nk = key_names [OF pk]
  obtain w1 where 1: "IsNewItem A db (bak k) w = (f (key_file db (bak k)) = None, w1)" "dbm_at A V db w1 (sum_bytes h ss) f" by (rule IsNewItem_file [OF D nk(2)])
  obtain w2 where 2: "IsNewItem A db k w1 = (f (key_file db k) = None, w2)" "dbm_at A V db w2 (sum_bytes h ss) f" by (rule IsNewItem_file [OF 1(2) nk(1)])
  have "bak_name A 257 k = Some (bak k)" using bak_name_ok [OF D plain_short(1) [OF k(1)]] by simp
  then have "Dbm_Get A db (Some k) (Some buf) n w = ((DBM_NOT_FOUND, Some buf, 0), w2)"
    using 1(1) 2(1) slots_hold_bak [OF rest(5) pk] slots_hold_file [OF rest(5) k(1)] k(2) pk n ready_magic [OF rest(4)] by (simp add: Dbm_Get_def Let_def)
  then show ?thesis using dbm_repI [OF 2(2) rest] by blast
qed

lemma Dbm_Delete_missing:
  assumes R: "dbm_rep A V (db, w) m" and k: "plain_key k" "m k = None"
  shows "\<exists>w'. Dbm_Delete A db (Some k) w = ((DBM_OK, db), w') \<and> dbm_rep A V (db, w') m"
proof (rule dbm_repE [OF R])
  fix h ss f
  assume D: "dbm_at A V db w (sum_bytes h ss) f" and rest: "sum_wf h ss" "idle_header h" "length ss \<le> 45" "ready db" "slots_hold db ss f m" "finite (dom m)"
    "kvItemSum db = int (card (dom m))" "card (dom m) \<le> 45"
  note pk = plain_valid [OF k(1)]
  obtain w1 where 1: "IsNewItem A db k w = (f (key_file db k) = None, w1)" "dbm_at A V db w1 (sum_bytes h ss) f" by (rule IsNewItem_file [OF D key_names(1) [OF pk]])
  have "Dbm_Delete A db (Some k) w = ((DBM_OK, db), w1)"
    using 1(1) slots_hold_file [OF rest(5) k(1)] k(2) pk ready_magic [OF rest(4)] by (simp add: Dbm_Delete_def)
  then show ?thesis using dbm_repI [OF 1(2) rest] by blast
qed

lemma ExeDelete_slot:
  assumes D: "dbm_at A V db w (sum_bytes h ss) f" and W: "sum_wf h ss" and i: "i < length ss"
    and it: "cstr (key_bytes item) = k" "item_index item = int i" and k: "IsValidKey (Some k)" and c: "f (key_file db k) = Some c" and b: "f (key_file db (bak k)) = None"
  obtains w' where "ExeDelete A db item False w = ((DBM_OK, db\<lparr>kvItemSum := kvItemSum db - 1\<rparr>), w')"
    "dbm_at A V db w' (sum_bytes h (ss[i := free_slot])) (f(key_file db k := None))"
proof -
  let ?db = "db\<lparr>kvItemSum := kvItemSum db - 1\<rparr>" and ?s = "(ss ! i)\<lparr>svalid := False\<rparr>"
  note nk = key_names [OF k]
  have sw: "slot_wf ?s" using sum_wf_nth [OF W i] by (simp add: slot_wf_def)
  obtain w1 where 1: "FileWriteCursor A (sumFileFd db) (GetKeyItemOffset (int i) + int 1) SEEK_SET_FS [flag_byte False] w = (int (length [flag_byte False]), w1)"
    "dbm_at A V db w1 (sum_bytes h (ss[i := ?s])) f" by (rule slot_write [OF D W i put_valid [of False]]) simp
  obtain w2 where 2: "Dbm_DeleteValueFromFile A ?db k w1 = (DBM_OK, w2)" "dbm_at A V db w2 (sum_bytes h (ss[i := ?s])) (f(key_file db k := None))"
    by (rule DeleteValue_file [of A V ?db w1 "sum_bytes h (ss[i := ?s])" f k c]) (use 1(2) nk c in auto)
  obtain w3 where 3: "IsNewItem A ?db (bak k) w2 = (True, w3)" "dbm_at A V db w3 (sum_bytes h (ss[i := ?s])) (f(key_file db k := None))"
    by (rule IsNewItem_file [of A V ?db w2 "sum_bytes h (ss[i := ?s])" "f(key_file db k := None)" "bak k"]) (use 2(2) nk b in auto)
  obtain w4 where 4: "FileWriteCursor A (sumFileFd db) (GetKeyItemOffset (int i) + int 0) SEEK_SET_FS (replicate 40 NUL) w3 = (int (length (replicate 40 NUL)), w4)"
    "dbm_at A V db w4 (sum_bytes h ((ss[i := ?s])[i := free_slot])) (f(key_file db k := None))"
    by (rule slot_write [OF 3(2), of i 0 "replicate 40 NUL" free_slot]) (use W sw i put_zeros [OF sw] in simp_all)
  have "bak_name A 256 k = Some (bak k)" using bak_name_ok [OF D valid_key(1) [OF k]] by simp
  then show thesis using that [of w4] 1(1) 2(1) 3(1) 4 it by (simp add: ExeDelete_def flag_bytes)
qed

lemma Dbm_Delete_existing:
  assumes R: "dbm_rep A V (db, w) m" and k: "m k = Some v"
  shows "\<exists>db' w'. Dbm_Delete A db (Some k) w = ((DBM_OK, db'), w') \<and> dbm_rep A V (db', w') (m(k := None))"
proof (rule dbm_repE [OF R])
  fix h ss f
  assume D: "dbm_at A V db w (sum_bytes h ss) f" and W: "sum_wf h ss" and h: "idle_header h" and l: "length ss \<le> 45" and rd: "ready db"
    and S: "slots_hold db ss f m" and fin: "finite (dom m)" and sum: "kvItemSum db = int (card (dom m))" and n: "card (dom m) \<le> 45"
  let ?db = "db\<lparr>kvItemSum := kvItemSum db - 1\<rparr>"
  obtain i where i: "i < length ss" "ss ! i = used k" and c: "f (key_file db k) = Some (content i v)" and p: "plain_key k"
    by (rule slots_hold_used [OF S k])
  note pk = plain_valid [OF p]
  have i45: "i \<le> 45" using i l by simp
  obtain w1 where 1: "IsNewItem A db k w = (f (key_file db k) = None, w1)" "dbm_at A V db w1 (sum_bytes h ss) f" by (rule IsNewItem_file [OF D key_names(1) [OF pk]])
  obtain w2 where 2: "FindDataItem A db (new_item k) True w1 = ((DBM_OK, db, (new_item k)\<lparr>item_index := int i\<rparr>), w2)" "dbm_at A V db w2 (sum_bytes h ss) f"
    by (rule FindDataItem_existing [OF 1(2) W p i(1) i45 _ c]) (use i in simp)
  obtain w3 where 3: "ExeDelete A db ((new_item k)\<lparr>item_index := int i\<rparr>) False w2 = ((DBM_OK, ?db), w3)"
    "dbm_at A V db w3 (sum_bytes h (ss[i := free_slot])) (f(key_file db k := None))"
    by (rule ExeDelete_slot [OF 2(2) W i(1) _ _ pk c slots_hold_bak [OF S pk], of "(new_item k)\<lparr>item_index := int i\<rparr>"]) (use plain_short(2) [OF p] in simp_all)
  have "Dbm_Delete A db (Some k) w = ((DBM_OK, ?db), w3)"
    using 1(1) 2(1) 3(1) c pk ready_magic [OF rd] clib(1) [OF D] key_copy [OF D p] by (simp add: Dbm_Delete_def)
  moreover have "dbm_rep A V (?db, w3) (m(k := None))"
  proof (rule dbm_repI)
    show "dbm_at A V ?db w3 (sum_bytes h (ss[i := free_slot])) (f(key_file db k := None))" using 3(2) by simp
    show "slots_hold ?db (ss[i := free_slot]) (f(key_file db k := None)) (m(k := None))" using slots_hold_delete [OF S i k] by simp
    have "0 < card (dom m)" using k fin by (auto simp: card_gt_0_iff)
    then show "kvItemSum ?db = int (card (dom (m(k := None))))" using sum fin k by (simp add: card_Diff_singleton_if domI of_nat_diff)
  qed (use W h l rd fin n card_Diff1_le [of "dom m" k] in auto)
  ultimately show ?thesis by blast
qed

end
