(* ===== verification/Dbm_Calls.thy ===== *)
theory Dbm_Calls
  imports Dbm_Open
begin

text \<open>
  The database as a whole: sequences of calls, of closings and openings and of restarts of the device, against a map of at most
  45 keys; and the key that is lost when the device restarts while its value is being replaced.
\<close>

subsection \<open>A database at rest\<close>

lemma slots_hold_cong: "key_file db = key_file db' \<Longrightarrow> slots_hold db ss f m = slots_hold db' ss f m"
  by (simp only: slots_hold_def)

text \<open>The files of a database that is closed, or that was open when the device restarted.\<close>

definition dbm_disk :: "('w \<Rightarrow> file_view) \<Rightarrow> string \<Rightarrow> 'w \<Rightarrow> (string \<rightharpoonup> string) \<Rightarrow> bool" where
  "dbm_disk V path w m \<longleftrightarrow> (\<exists>h ss f.
     files (V w) = f(sum_path (handle path) \<mapsto> sum_bytes h ss) \<and> f (sum_path (handle path)) = None \<and> sum_wf h ss \<and> length ss \<le> 45
     \<and> slots_hold (handle path) ss f m \<and> finite (dom m) \<and> card (dom m) \<le> 45
     \<and> h ! 9 = NUL \<and> (h ! 8 \<noteq> NUL \<longrightarrow> take 4 h = pad_to 4 (nat_str (card (dom m)))))"

lemma check_from_id: "(\<And>s. s \<in> set ss \<Longrightarrow> check_slot bad db s f = (s, f)) \<Longrightarrow> check_from bad db ss f = (ss, f)"
  by (induction ss) simp_all

lemma check_from_hold:
  assumes S: "slots_hold db ss f m"
  shows "check_from False db ss f = (ss, f)"
proof (rule check_from_id)
  fix s assume "s \<in> set ss"
  then obtain i where "i < length ss" "s = ss ! i" by (auto simp: in_set_conv_nth)
  then consider "s = free_slot" | k where "k \<in> dom m" "s = used k" using slots_hold_nth [OF S] by blast
  then show "check_slot False db s f = (s, f)"
  proof cases
    case 2
    then have "f(key_file db (bak k) := None) = f" using slots_hold_bak [OF S] slots_hold_plain [OF S] by (simp add: fun_upd_idem)
    then show ?thesis using 2 plain_short(3) [OF slots_hold_plain [OF S 2(1)]] by (simp add: check_slot_def)
  qed (simp add: check_slot_def)
qed

lemma slots_hold_valid: "slots_hold db ss f m \<Longrightarrow> keys_valid ss"
  unfolding keys_valid_def list_all_length using slots_hold_key [of db ss f m] slots_hold_plain [of db ss f m] plain_valid by blast

lemma slots_hold_count:
  assumes S: "slots_hold db ss f m"
  shows "length (filter svalid ss) = card (dom m)"
proof -
  let ?I = "{i. i < length ss \<and> svalid (ss ! i)}" and ?g = "\<lambda>i. skey (ss ! i)"
  have u: "ss ! i = used (?g i) \<and> ?g i \<in> dom m" if "i \<in> ?I" for i
    using slots_hold_nth [OF S, of i] that by (auto simp: free_slot_def)
  have "bij_betw ?g ?I (dom m)" unfolding bij_betw_def
  proof
    show "inj_on ?g ?I"
    proof (rule inj_onI)
      fix i j assume ij: "i \<in> ?I" "j \<in> ?I" "?g i = ?g j"
      then have "ss ! i = used (?g j)" "ss ! j = used (?g j)" using u [OF ij(1)] u [OF ij(2)] by metis+
      then show "i = j" using slots_hold_inj [OF S, of i j "?g j"] ij by blast
    qed
    show "?g ` ?I = dom m"
    proof (intro equalityI subsetI)
      fix k assume "k \<in> dom m"
      then obtain v where "m k = Some v" by blast
      then obtain i where "i < length ss" "ss ! i = used k" by (rule slots_hold_used [OF S])
      then show "k \<in> ?g ` ?I" by force
    qed (use u in blast)
  qed
  then show ?thesis by (simp add: length_filter_conv_card bij_betw_same_card)
qed

lemma idle_bytes: "length h = 20 \<Longrightarrow> idle_header h \<Longrightarrow> h ! 8 = NUL \<and> h ! 9 = NUL"
  unfolding idle_header_def by (drule arg_cong [of _ _ "\<lambda>x. (x ! 0, x ! 1)"]) simp

lemma rep_on_disk:
  assumes "dbm_rep A V (db, w) m" and "files (V w') = files (V w)"
  shows "dbm_disk V (dirPath db) w' m"
proof (rule dbm_repE [OF assms(1)])
  fix h ss f
  assume D: "dbm_at A V db w (sum_bytes h ss) f" and W: "sum_wf h ss" and h: "idle_header h" and l: "length ss \<le> 45" and r: "ready db"
    and S: "slots_hold db ss f m" and n: "finite (dom m)" "card (dom m) \<le> 45"
  have "h ! 8 = NUL \<and> h ! 9 = NUL" using W h by (simp add: sum_wf_def idle_bytes)
  moreover have "slots_hold (handle (dirPath db)) ss f m" using S slots_hold_cong [OF ready_key_file [OF r]] by simp
  moreover have "files (V w') = f(sum_path (handle (dirPath db)) \<mapsto> sum_bytes h ss)" "f (sum_path (handle (dirPath db))) = None"
    using D assms(2) ready_sum_path [OF r] by (simp_all add: dbm_at_def)
  ultimately show ?thesis unfolding dbm_disk_def using W l n by blast
qed

lemma close_on_disk:
  assumes R: "dbm_rep A V (db, w) m"
  shows "\<exists>w'. DBM_CloseKVStore A (Some db) w = (DBM_OK, w') \<and> dbm_disk V (dirPath db) w' m"
proof (rule dbm_repE [OF R])
  fix h ss f
  assume D: "dbm_at A V db w (sum_bytes h ss) f" and W: "sum_wf h ss" and h: "idle_header h" and l: "length ss \<le> 45" and r: "ready db"
    and S: "slots_hold db ss f m" and n: "finite (dom m)" "kvItemSum db = int (card (dom m))" "card (dom m) \<le> 45"
  obtain h' w1 where 1: "SetSumIndexToFile A db (int (card (dom m))) w = ((DBM_OK, set_index_valid True (db\<lparr>kvItemSum := int (card (dom m))\<rparr>)), w1)"
    "dbm_at A V db w1 (sum_bytes h' ss) f" "sum_wf h' ss" "take 4 h' = pad_to 4 (nat_str (card (dom m)))" "h' ! 8 = CHR 0x01" "h' ! 9 = h ! 9"
    by (rule SetSumIndexToFile_ok [OF D W n(3)])
  obtain x where x: "fds (V w1) (sumFileFd db) = Some x" using 1(2) by (auto simp: dbm_at_def)
  obtain w2 where 2: "UtilsFileClose A (sumFileFd db) w1 = (0, w2)" "V w2 = (V w1)\<lparr>fds := (fds (V w1))(sumFileFd db := None)\<rparr>"
    by (rule close_open [OF dbm_utils [OF D] x])
  have fd: "sumFileFd (set_index_valid True (db\<lparr>kvItemSum := i\<rparr>)) = sumFileFd db" for i by (simp add: set_index_valid_def)
  have "DBM_CloseKVStore A (Some db) w = (DBM_OK, w2)"
    using 1(1) 2(1) n(2) ready_magic [OF r] by (simp add: DBM_CloseKVStore_def CloseKVStore_def ReleaseKVDBHandle_def fd)
  moreover have "h' ! 9 = NUL" using 1(6) W h by (simp add: sum_wf_def idle_bytes)
  moreover have "slots_hold (handle (dirPath db)) ss f m" using S slots_hold_cong [OF ready_key_file [OF r]] by simp
  moreover have "files (V w2) = f(sum_path (handle (dirPath db)) \<mapsto> sum_bytes h' ss)" "f (sum_path (handle (dirPath db))) = None"
    using 1(2) 2(2) ready_sum_path [OF r] by (simp_all add: dbm_at_def)
  ultimately show ?thesis unfolding dbm_disk_def using 1(3,4) l n by blast
qed

lemma open_disk:
  assumes U: "utils_ok A V" and E: "dbm_env_ok A" and p: "length path \<le> 200" and M: "dbm_disk V path w m"
  shows "\<exists>db w'. DBM_GetKVStore A (Some path) True w = ((DBM_OK, Some db), w') \<and> dbm_rep A V (db, w') m \<and> dirPath db = path"
proof -
  obtain h ss f where f: "files (V w) = f(sum_path (handle path) \<mapsto> sum_bytes h ss)" "f (sum_path (handle path)) = None" and W: "sum_wf h ss"
    and l: "length ss \<le> 45" and S: "slots_hold (handle path) ss f m" and n: "finite (dom m)" "card (dom m) \<le> 45"
    and h: "h ! 9 = NUL" "h ! 8 \<noteq> NUL \<longrightarrow> take 4 h = pad_to 4 (nat_str (card (dom m)))"
    using M unfolding dbm_disk_def by blast
  have h9: "(h ! 9 \<noteq> NUL) = False" using h(1) by simp
  obtain fd h' w' where o: "DBM_GetKVStore A (Some path) True w = ((DBM_OK, Some (opened path h ss fd)), w')"
    "dbm_at A V (opened path h ss fd) w' (sum_bytes h' ss) f" "sum_wf h' ss" "idle_header h'"
    by (rule open_recovers [OF U E p f W slots_hold_valid [OF S] l, unfolded h9 check_from_hold [OF S] fst_conv snd_conv])
  have a: "atoi (pad_to 4 (nat_str (card (dom m))) @ [NUL]) = int (card (dom m))"
    using atoi_nat_str [of "replicate (4 - length (nat_str (card (dom m)))) NUL @ [NUL]" "card (dom m)"]
    by (cases "4 - length (nat_str (card (dom m)))") (simp_all add: pad_to_def)
  have c: "kvItemSum (opened path h ss fd) = int (card (dom m))"
    using h a slots_hold_count [OF S] by (simp add: opened_def)
  have "dbm_rep A V (opened path h ss fd, w') m"
    by (rule dbm_repI [OF o(2-4) l _ _ n(1) c n(2)]) (use S slots_hold_cong [OF opened_ready(2)] in simp_all)
  then show ?thesis using o(1) by (metis opened_ready(3))
qed

text \<open>A directory without a sum file and without files that have the name of a key or of a backup.\<close>

definition fresh_dir :: "('w \<Rightarrow> file_view) \<Rightarrow> string \<Rightarrow> 'w \<Rightarrow> bool" where
  "fresh_dir V path w \<longleftrightarrow> files (V w) (sum_path (handle path)) = None
     \<and> (\<forall>k. IsValidKey (Some k) \<longrightarrow> files (V w) (key_file (handle path) k) = None \<and> files (V w) (key_file (handle path) (bak k)) = None)"

lemma open_fresh_dir:
  assumes U: "utils_ok A V" and E: "dbm_env_ok A" and p: "length path \<le> 200" and F: "fresh_dir V path w"
  shows "\<exists>db w'. DBM_GetKVStore A (Some path) True w = ((DBM_OK, Some db), w') \<and> dbm_rep A V (db, w') Map.empty \<and> dirPath db = path"
proof -
  let ?H = SUM_FILE_DEFAULT_HEADER
  obtain fd w' where o: "DBM_GetKVStore A (Some path) True w = ((DBM_OK, Some (opened path ?H [] fd)), w')"
    "dbm_at A V (opened path ?H [] fd) w' (sum_bytes ?H []) (files (V w))"
    by (rule open_creates [OF U E p]) (use F in \<open>auto simp: fresh_dir_def\<close>)
  have H: "sum_wf ?H []" "idle_header ?H" "?H ! 8 = NUL" "?H ! 9 = NUL"
    by (simp_all add: sum_wf_def idle_header_def SUM_FILE_DEFAULT_HEADER_def KV_MAGIC_def numeral_eq_Suc)
  have k: "kvItemSum (opened path ?H [] fd) = 0" using H(3,4) by (simp add: opened_def)
  have "slots_hold (opened path ?H [] fd) [] (files (V w)) Map.empty" using F by (simp add: slots_hold_def fresh_dir_def)
  then have "dbm_rep A V (opened path ?H [] fd, w') Map.empty"
    by (intro dbm_repI [OF o(2) H(1,2)]) (use k in simp_all)
  then show ?thesis using o(1) by (metis opened_ready(3))
qed

subsection \<open>Sequences of calls\<close>

datatype dbm_call = PutCall string string | GetCall string nat | DeleteCall string | Reopen | Restart

text \<open>\<open>reset\<close> is what a restart does to the device: descriptors are gone and files stay.\<close>

fun dbm_call_run :: "'w dbm_api \<Rightarrow> ('w \<Rightarrow> 'w) \<Rightarrow> string \<Rightarrow> dbm_call \<Rightarrow> DBM option \<times> 'w \<Rightarrow> (int \<times> string option) \<times> DBM option \<times> 'w" where
  "dbm_call_run A reset path (PutCall k v) (db, w) = (case DBM_Put A db (Some k) (Some v) w of ((r, db), w) \<Rightarrow> ((r, None), db, w))"
| "dbm_call_run A reset path (GetCall k n) (db, w) =
     (case DBM_Get A db (Some k) (Some (replicate n NUL)) n w of ((r, b, l), w) \<Rightarrow>
        ((r, if r = DBM_OK then map_option (take l) b else None), db, w))"
| "dbm_call_run A reset path (DeleteCall k) (db, w) = (case DBM_Delete A db (Some k) w of ((r, db), w) \<Rightarrow> ((r, None), db, w))"
| "dbm_call_run A reset path Reopen (db, w) =
     (case DBM_CloseKVStore A db w of (r, w) \<Rightarrow>
        if r \<noteq> DBM_OK then ((r, None), db, w) else (case DBM_GetKVStore A (Some path) True w of ((r, db), w) \<Rightarrow> ((r, None), db, w)))"
| "dbm_call_run A reset path Restart (db, w) = (case DBM_GetKVStore A (Some path) True (reset w) of ((r, db), w) \<Rightarrow> ((r, None), db, w))"

text \<open>The same calls on a map.\<close>

fun dbm_call_spec :: "dbm_call \<Rightarrow> (string \<rightharpoonup> string) \<Rightarrow> (int \<times> string option) \<times> (string \<rightharpoonup> string)" where
  "dbm_call_spec (PutCall k v) m = (if m k = None \<and> 45 \<le> card (dom m) then ((DBM_OVER_MAX_LIMITS, None), m) else ((DBM_OK, None), m(k \<mapsto> v)))"
| "dbm_call_spec (GetCall k n) m =
     (case m k of None \<Rightarrow> ((DBM_NOT_FOUND, None), m) | Some v \<Rightarrow> (if length v \<le> n then (DBM_OK, Some v) else (DBM_ERROR, None), m))"
| "dbm_call_spec (DeleteCall k) m = ((DBM_OK, None), m(k := None))"
| "dbm_call_spec Reopen m = ((DBM_OK, None), m)"
| "dbm_call_spec Restart m = ((DBM_OK, None), m)"

fun dbm_call_ok :: "dbm_call \<Rightarrow> bool" where
  "dbm_call_ok (PutCall k v) \<longleftrightarrow> plain_key k \<and> v \<noteq> [] \<and> length v \<le> DBM_MAX_VALUE_LEN"
| "dbm_call_ok (GetCall k n) \<longleftrightarrow> plain_key k \<and> n \<le> DBM_MAX_GET_LEN"
| "dbm_call_ok (DeleteCall k) \<longleftrightarrow> plain_key k"
| "dbm_call_ok Reopen \<longleftrightarrow> True"
| "dbm_call_ok Restart \<longleftrightarrow> True"

fun run_calls :: "('c \<Rightarrow> 's \<Rightarrow> 'r \<times> 's) \<Rightarrow> 'c list \<Rightarrow> 's \<Rightarrow> 'r list \<times> 's" where
  "run_calls step [] s = ([], s)"
| "run_calls step (x # xs) s = (case step x s of (r, s) \<Rightarrow> case run_calls step xs s of (rs, s) \<Rightarrow> (r # rs, s))"

text \<open>A machine whose single calls answer as a specification does answers every sequence of calls as it does.\<close>

locale call_refinement =
  fixes step :: "'c \<Rightarrow> 's \<Rightarrow> 'r \<times> 's" and spec :: "'c \<Rightarrow> 'm \<Rightarrow> 'r \<times> 'm" and ok :: "'c \<Rightarrow> bool" and rep :: "'s \<Rightarrow> 'm \<Rightarrow> bool"
  assumes step_law: "rep s m \<Longrightarrow> ok x \<Longrightarrow> \<exists>s'. step x s = (fst (spec x m), s') \<and> rep s' (snd (spec x m))"
begin

lemma runs_refine: "rep s m \<Longrightarrow> list_all ok xs \<Longrightarrow> \<exists>s'. run_calls step xs s = (fst (run_calls spec xs m), s') \<and> rep s' (snd (run_calls spec xs m))"
proof (induction xs arbitrary: s m)
  case (Cons x xs)
  then obtain s1 where s1: "step x s = (fst (spec x m), s1)" "rep s1 (snd (spec x m))" using step_law by fastforce
  then show ?case using Cons.IH [OF s1(2)] Cons.prems(2) by (auto split: prod.splits)
qed simp

end

definition dbm_serves :: "'w dbm_api \<Rightarrow> ('w \<Rightarrow> file_view) \<Rightarrow> ('w \<Rightarrow> 'w) \<Rightarrow> string \<Rightarrow> DBM option \<times> 'w \<Rightarrow> (string \<rightharpoonup> string) \<Rightarrow> bool" where
  "dbm_serves A V reset path = (\<lambda>(db, w) m. \<exists>d. db = Some d \<and> dirPath d = path \<and> dbm_rep A V (d, w) m \<and> dbm_env_ok A
     \<and> (\<forall>w. files (V (reset w)) = files (V w)))"

lemma AddNewDataItem_dir: "AddNewDataItem A db item w = ((r, db', i'), w') \<Longrightarrow> dirPath db' = dirPath db"
  by (auto simp: AddNewDataItem_def Let_def split: if_splits prod.splits)

lemma FindDataItem_dir: "FindDataItem A db item e w = ((r, db', i'), w') \<Longrightarrow> dirPath db' = dirPath db"
  by (auto simp: FindDataItem_def Let_def split: if_splits prod.splits option.splits dest: AddNewDataItem_dir)

lemma PrePut_dir: "PrePut A db item e w = ((r, db', i'), w') \<Longrightarrow> dirPath db' = dirPath db"
  by (auto simp: PrePut_def split: if_splits prod.splits dest: FindDataItem_dir)

lemma Dbm_Put_dir: "Dbm_Put A db k v w = ((r, db'), w') \<Longrightarrow> dirPath db' = dirPath db"
  unfolding Dbm_Put_def by (auto split: if_splits prod.splits dest: PrePut_dir)

lemma ExeDelete_dir: "ExeDelete A db item e w = ((r, db'), w') \<Longrightarrow> dirPath db' = dirPath db"
  by (auto simp: ExeDelete_def Let_def split: if_splits prod.splits option.splits)

lemma Dbm_Delete_dir: "Dbm_Delete A db k w = ((r, db'), w') \<Longrightarrow> dirPath db' = dirPath db"
  unfolding Dbm_Delete_def by (auto split: if_splits prod.splits dest: FindDataItem_dir dest!: ExeDelete_dir)

lemma dbm_rep_utils: "dbm_rep A V (d, w) m \<Longrightarrow> utils_ok A V \<and> length (dirPath d) \<le> 200"
  by (auto simp: dbm_rep_def dbm_at_def)

lemma dbm_put_law:
  assumes "dbm_rep A V (d, w) m" and "plain_key k" and "v \<noteq> []" and "length v \<le> DBM_MAX_VALUE_LEN"
  shows "\<exists>d' w'. Dbm_Put A d (Some k) (Some v) w = ((fst (fst (dbm_call_spec (PutCall k v) m)), d'), w') \<and> dbm_rep A V (d', w') (snd (dbm_call_spec (PutCall k v) m))"
  using assms Dbm_Put_existing [OF assms(1) _ assms(3,4)] Dbm_Put_new [OF assms(1,2) _ assms(3,4)] Dbm_Put_full [OF assms(1,2) _ assms(3,4)]
  by (cases "m k"; cases "45 \<le> card (dom m)") fastforce+

lemma dbm_get_law:
  assumes "dbm_rep A V (d, w) m" and "plain_key k" and "n \<le> DBM_MAX_GET_LEN"
  shows "\<exists>w'. dbm_call_run A reset path (GetCall k n) (Some d, w) = (fst (dbm_call_spec (GetCall k n) m), Some d, w') \<and> dbm_rep A V (d, w') m"
proof (cases "m k")
  case None
  then show ?thesis using Dbm_Get_missing [OF assms(1,2) _ assms(3), of "replicate n NUL"] by (fastforce simp: DBM_Get_def DBM_OK_def DBM_NOT_FOUND_def)
next
  case (Some v)
  obtain w' where w': "Dbm_Get A d (Some k) (Some (replicate n NUL)) n w
      = (if length v \<le> n then (DBM_OK, Some (put_bytes 0 v (replicate n NUL)), length v) else (DBM_ERROR, Some (replicate n NUL), 0), w')"
    "dbm_rep A V (d, w') m" using Dbm_Get_existing [OF assms(1) Some assms(3), of "replicate n NUL"] by blast
  moreover have "take (length v) (put_bytes 0 v (replicate n NUL)) = v" by (simp add: put_bytes_def)
  ultimately show ?thesis using Some by (auto simp: DBM_Get_def DBM_OK_def DBM_ERROR_def)
qed

lemma dbm_delete_law:
  assumes "dbm_rep A V (d, w) m" and "plain_key k"
  shows "\<exists>d' w'. Dbm_Delete A d (Some k) w = ((DBM_OK, d'), w') \<and> dbm_rep A V (d', w') (m(k := None))"
proof (cases "m k")
  case None
  then have "m(k := None) = m" by (simp add: fun_upd_idem)
  then show ?thesis using Dbm_Delete_missing [OF assms None] by auto
qed (use Dbm_Delete_existing [OF assms(1)] in blast)

interpretation dbm_map: call_refinement "dbm_call_run A reset path" dbm_call_spec dbm_call_ok "dbm_serves A V reset path" for A V reset path
proof
  fix s :: "DBM option \<times> 'a" and m x
  assume S: "dbm_serves A V reset path s m" and x: "dbm_call_ok x"
  then obtain d w where s: "s = (Some d, w)" and d: "dirPath d = path" and R: "dbm_rep A V (d, w) m" and E: "dbm_env_ok A"
    and rs: "\<And>w. files (V (reset w)) = files (V w)" by (auto simp: dbm_serves_def)
  note U = dbm_rep_utils [OF R, unfolded d]
  have serves: "dbm_serves A V reset path (Some d', w') m'" if "dirPath d' = path" "dbm_rep A V (d', w') m'" for d' w' m'
    using that E rs by (simp add: dbm_serves_def)
  show "\<exists>s'. dbm_call_run A reset path x s = (fst (dbm_call_spec x m), s') \<and> dbm_serves A V reset path s' (snd (dbm_call_spec x m))"
  proof (cases x)
    case (PutCall k v)
    have n: "snd (fst (dbm_call_spec (PutCall k v) m)) = None" by simp
    obtain d' w' where p: "Dbm_Put A d (Some k) (Some v) w = ((fst (fst (dbm_call_spec (PutCall k v) m)), d'), w')"
      "dbm_rep A V (d', w') (snd (dbm_call_spec (PutCall k v) m))" using dbm_put_law [OF R, of k v] x PutCall by auto
    have "dbm_call_run A reset path x s = (fst (dbm_call_spec x m), Some d', w')"
      unfolding PutCall s using p(1) n by (cases "fst (dbm_call_spec (PutCall k v) m)") (simp add: DBM_Put_def del: dbm_call_spec.simps)
    then show ?thesis using serves [OF _ p(2)] Dbm_Put_dir [OF p(1)] d PutCall by auto
  next
    case (GetCall k n)
    then show ?thesis using dbm_get_law [OF R, of k n reset path] x serves [OF d] s by (auto split: option.splits simp del: dbm_call_run.simps)
  next
    case (DeleteCall k)
    then obtain d' w' where p: "Dbm_Delete A d (Some k) w = ((DBM_OK, d'), w')" "dbm_rep A V (d', w') (m(k := None))"
      using dbm_delete_law [OF R, of k] x by auto
    then show ?thesis using serves [OF _ p(2)] Dbm_Delete_dir [OF p(1)] d DeleteCall s by (simp add: DBM_Delete_def)
  next
    case Reopen
    obtain w1 where 1: "DBM_CloseKVStore A (Some d) w = (DBM_OK, w1)" "dbm_disk V path w1 m" using close_on_disk [OF R] d by auto
    then show ?thesis using open_disk [OF _ E _ 1(2)] U serves Reopen s by fastforce
  next
    case Restart
    have "dbm_disk V path (reset w) m" using rep_on_disk [OF R rs] d by simp
    then show ?thesis using open_disk [OF _ E] U serves Restart s by fastforce
  qed
qed


definition ram_dbm :: "ram dbm_api" where
  "ram_dbm =
     \<lparr>UtilsFileOpen = UtilsFileOpen ram_files, UtilsFileClose = UtilsFileClose ram_files, UtilsFileRead = UtilsFileRead ram_files,
      UtilsFileWrite = UtilsFileWrite ram_files, UtilsFileSeek = UtilsFileSeek ram_files, UtilsFileStat = UtilsFileStat ram_files,
      UtilsFileDelete = UtilsFileDelete ram_files, UtilsFileCopy = UtilsFileCopy ram_files, file_malloc = file_malloc ram_files,
      secure_ok = secure_ok ram_files, stack_bytes = [], sizeof_DBM = 64, sizeof_KeyItem = 56\<rparr>"

definition ram_reset :: "ram \<Rightarrow> ram" where
  "ram_reset w = w\<lparr>fds := Map.empty, fd_list := []\<rparr>"

lemma ram_dbm_fields:
  "UtilsFileOpen ram_dbm = UtilsFileOpen ram_files" "UtilsFileClose ram_dbm = UtilsFileClose ram_files" "UtilsFileRead ram_dbm = UtilsFileRead ram_files"
  "UtilsFileWrite ram_dbm = UtilsFileWrite ram_files" "UtilsFileSeek ram_dbm = UtilsFileSeek ram_files" "UtilsFileStat ram_dbm = UtilsFileStat ram_files"
  "UtilsFileDelete ram_dbm = UtilsFileDelete ram_files" "UtilsFileCopy ram_dbm = UtilsFileCopy ram_files" "file_malloc ram_dbm = file_malloc ram_files"
  "secure_ok ram_dbm = secure_ok ram_files"
  by (simp_all add: ram_dbm_def)

lemma ram_dbm_ok: "utils_ok ram_dbm ram_view" "dbm_env_ok ram_dbm" "\<forall>w. files (ram_view (ram_reset w)) = files (ram_view w)"
proof -
  show "utils_ok ram_dbm ram_view" using utils_ok_ram
    unfolding utils_ok_def open_ok_def close_ok_def read_ok_def write_ok_def seek_ok_def stat_ok_def delete_ok_def copy_ok_def clib_ok_def ram_dbm_fields .
qed (simp_all add: dbm_env_ok_def ram_dbm_def ram_view_def ram_reset_def)

lemma ram_fresh: "fresh_dir ram_view path ram_empty"
  by (simp add: fresh_dir_def ram_view_def ram_empty_def)

definition sample_dbm_calls :: "dbm_call list" where
  "sample_dbm_calls = [PutCall ''a'' ''x'', PutCall ''a'' ''yz'', Reopen, GetCall ''a'' 8, GetCall ''a'' 1, Restart, DeleteCall ''a'', GetCall ''a'' 8]"

lemma plain_a: "plain_key ''a''"
proof -
  have "''a'' \<noteq> bak j" for j by (rule notI, drule arg_cong [of _ _ length]) (simp add: bak_def)
  moreover have "IsValidKey (Some ''a'')"
    by (simp add: IsValidKey_def IsValidValue_def strnlen_def MAX_KEY_LEN_def MAX_VALUE_LEN_def IsValidChar_def c_islower_def)
  ultimately show ?thesis unfolding plain_key_def by blast
qed

lemma sample_dbm_calls_ok: "list_all dbm_call_ok sample_dbm_calls"
  using plain_a by (simp add: sample_dbm_calls_def DBM_MAX_VALUE_LEN_def DBM_MAX_GET_LEN_def)

lemma sample_dbm_calls_spec:
  "fst (run_calls dbm_call_spec sample_dbm_calls Map.empty) =
     [(DBM_OK, None), (DBM_OK, None), (DBM_OK, None), (DBM_OK, Some ''yz''), (DBM_ERROR, None), (DBM_OK, None), (DBM_OK, None), (DBM_NOT_FOUND, None)]"
  by (simp add: sample_dbm_calls_def)


subsection \<open>An interrupted replacement\<close>

text \<open>
  The files when the device restarts after \<open>UpdateKV\<close> has made the backup of a key and before it has cleared the flag of the
  backup; the file of the key has any content, or it is missing.
\<close>

definition interrupted :: "('w \<Rightarrow> file_view) \<Rightarrow> string \<Rightarrow> 'w \<Rightarrow> (string \<rightharpoonup> string) \<Rightarrow> string \<Rightarrow> string \<Rightarrow> bool" where
  "interrupted V path w m k v \<longleftrightarrow> (\<exists>h ss f i x.
     slots_hold (handle path) ss f m \<and> m k = Some v \<and> finite (dom m) \<and> card (dom m) \<le> 45 \<and> i < length ss \<and> ss ! i = used k
     \<and> files (V w) = (f(key_file (handle path) k := x, key_file (handle path) (bak k) \<mapsto> content i v))
         (sum_path (handle path) \<mapsto> sum_bytes h (ss[i := (used k)\<lparr>sbak := True\<rparr>]))
     \<and> f (sum_path (handle path)) = None \<and> sum_wf h ss \<and> idle_header h \<and> length ss \<le> 45)"

text \<open>This is the state that \<open>BackupItem\<close> leaves.\<close>

lemma backup_interrupted:
  assumes R: "dbm_rep A V (db, w) m" and k: "m k = Some v" and rs: "\<forall>w. files (V (reset w)) = files (V w)"
  shows "\<exists>i w'. BackupItem A db (loaded_item (used k) i) w = (DBM_OK, w') \<and> interrupted V (dirPath db) (reset w') m k v"
proof (rule dbm_repE [OF R])
  fix h ss f
  assume D: "dbm_at A V db w (sum_bytes h ss) f" and W: "sum_wf h ss" and h: "idle_header h" and l: "length ss \<le> 45" and r: "ready db"
    and S: "slots_hold db ss f m" and n: "finite (dom m)" "card (dom m) \<le> 45"
  let ?H = "handle (dirPath db)"
  obtain i where i: "i < length ss" "ss ! i = used k" and c: "f (key_file db k) = Some (content i v)" and p: "plain_key k" by (rule slots_hold_used [OF S k])
  obtain w' where 1: "BackupItem A db (loaded_item (used k) i) w = (DBM_OK, w')"
    "dbm_at A V db w' (sum_bytes h (ss[i := (used k)\<lparr>sbak := True\<rparr>])) (f(key_file db (bak k) \<mapsto> content i v))"
    by (rule BackupItem_slot [OF D W i(1), unfolded i(2)]) (use p c in simp_all)
  have f: "f(key_file db k := Some (content i v)) = f" using c by (simp add: fun_upd_idem)
  have "files (V (reset w')) = (f(key_file ?H k := Some (content i v), key_file ?H (bak k) \<mapsto> content i v))
      (sum_path ?H \<mapsto> sum_bytes h (ss[i := (used k)\<lparr>sbak := True\<rparr>]))"
    using 1(2) rs f unfolding ready_key_file [OF r, symmetric] ready_sum_path [OF r, symmetric] by (simp add: dbm_at_def)
  moreover have "f (sum_path ?H) = None" using D ready_sum_path [OF r] by (simp add: dbm_at_def)
  moreover have "slots_hold ?H ss f m" using S slots_hold_cong [OF ready_key_file [OF r]] by simp
  ultimately have "interrupted V (dirPath db) (reset w') m k v" unfolding interrupted_def using k n i W h l by blast
  then show ?thesis using 1(1) by blast
qed

lemma check_from_append:
  "check_from bad db (xs @ ys) f = (let (xs', f) = check_from bad db xs f; (ys', f) = check_from bad db ys f in (xs' @ ys', f))"
  by (induction xs arbitrary: f) (auto split: prod.splits)

lemma check_from_one:
  assumes i: "i < length ss" and c: "check_slot bad db (ss ! i) f = (s', f')"
    and o: "\<And>j. j < length ss \<Longrightarrow> j \<noteq> i \<Longrightarrow> check_slot bad db (ss ! j) f = (ss ! j, f) \<and> check_slot bad db (ss ! j) f' = (ss ! j, f')"
  shows "check_from bad db ss f = (ss[i := s'], f')"
proof -
  have "check_from bad db (take i ss) f = (take i ss, f)"
    by (rule check_from_id) (use o i in \<open>auto simp: in_set_conv_nth\<close>)
  moreover have "check_from bad db (drop (Suc i) ss) f' = (drop (Suc i) ss, f')"
    by (rule check_from_id) (use o in \<open>auto simp: in_set_conv_nth\<close>)
  ultimately have "check_from bad db (take i ss @ ss ! i # drop (Suc i) ss) f = (take i ss @ s' # drop (Suc i) ss, f')"
    using c by (simp add: check_from_append)
  then show ?thesis using i by (simp add: id_take_nth_drop [symmetric] upd_conv_take_nth_drop)
qed

lemma check_other_slot:
  assumes S: "slots_hold db ss f m" and i: "i < length ss" "ss ! i = used k" "k \<in> dom m" and j: "j < length ss" "j \<noteq> i"
    and g: "\<And>n. n \<noteq> key_file db k \<Longrightarrow> n \<noteq> key_file db (bak k) \<Longrightarrow> g n = f n"
  shows "check_slot False db (ss ! j) g = (ss ! j, g)"
proof -
  consider "ss ! j = free_slot" | k' where "k' \<in> dom m" "ss ! j = used k'" using slots_hold_nth [OF S j(1)] by blast
  then show ?thesis
  proof cases
    case 2
    have "k' \<noteq> k" using slots_hold_inj [OF S j(1) i(1), of k] 2 i j by auto
    then have "g (key_file db (bak k')) = None"
      using g [of "key_file db (bak k')"] slots_hold_bak [OF S, of k'] slots_hold_plain [OF S 2(1)] slots_hold_plain [OF S i(3)] by auto
    then have "g(key_file db (bak k') := None) = g" by (simp add: fun_upd_idem)
    then show ?thesis using 2 plain_short(3) [OF slots_hold_plain [OF S 2(1)]] by (simp add: check_slot_def)
  qed (simp add: check_slot_def)
qed

lemma keys_valid_update: "keys_valid ss \<Longrightarrow> IsValidKey (Some (skey s)) \<Longrightarrow> keys_valid (ss[i := s])"
  unfolding keys_valid_def list_all_iff by (auto dest!: set_update_subset_insert [THEN subsetD])

lemma count_update: "svalid s = svalid t \<Longrightarrow> length (filter svalid (ss[i := s])) = length (filter svalid (ss[i := t]))"
  by (cases "i < length ss") (simp_all add: upd_conv_take_nth_drop list_update_beyond)

definition half_done :: "string \<Rightarrow> slot" where
  "half_done k = (used k)\<lparr>sbak := True\<rparr>"

definition recovered :: "string \<Rightarrow> slot" where
  "recovered k = (half_done k)\<lparr>svalid := False\<rparr>"

lemma half_done_simps [simp]: "skey (half_done k) = k" "svalid (half_done k)" "sbak (half_done k)" "skey (recovered k) = k" "\<not> svalid (recovered k)"
  by (simp_all add: half_done_def recovered_def)

lemma check_half_done:
  assumes S: "slots_hold db ss f m" and i: "i < length ss" "ss ! i = used k" and k: "m k = Some v"
  shows "check_from False db (ss[i := half_done k]) (f(key_file db k := x, key_file db (bak k) \<mapsto> c))
      = (ss[i := recovered k], f(key_file db k \<mapsto> c, key_file db (bak k) \<mapsto> c))"
proof -
  have p: "k \<noteq> []" "k \<in> dom m" using plain_short(3) [OF slots_hold_plain [OF S]] k by auto
  have "check_from False db (ss[i := half_done k]) (f(key_file db k := x, key_file db (bak k) \<mapsto> c))
      = ((ss[i := half_done k])[i := recovered k], f(key_file db k \<mapsto> c, key_file db (bak k) \<mapsto> c))"
  proof (rule check_from_one)
    show "check_slot False db (ss[i := half_done k] ! i) (f(key_file db k := x, key_file db (bak k) \<mapsto> c))
        = (recovered k, f(key_file db k \<mapsto> c, key_file db (bak k) \<mapsto> c))"
      using i(1) p(1) by (simp add: check_slot_def recovered_def fun_upd_twist)
  qed (use i check_other_slot [OF S i p(2)] in simp_all)
  then show ?thesis by simp
qed

lemma check_recovered:
  assumes S: "slots_hold db ss f m" and i: "i < length ss" "ss ! i = used k" and k: "m k = Some v"
  shows "check_from False db (ss[i := recovered k]) (f(key_file db k \<mapsto> c, key_file db (bak k) \<mapsto> c)) = (ss[i := free_slot], f(key_file db k := None))"
proof -
  have pk: "plain_key k" using slots_hold_plain [OF S] k by blast
  have p: "k \<noteq> []" "k \<in> dom m" using plain_short(3) [OF pk] k by auto
  have b: "(f(key_file db k := y))(key_file db (bak k) := None) = f(key_file db k := y)" for y
    using slots_hold_bak [OF S plain_valid [OF pk]] by (simp add: fun_upd_idem)
  have "check_from False db (ss[i := recovered k]) (f(key_file db k \<mapsto> c, key_file db (bak k) \<mapsto> c))
      = ((ss[i := recovered k])[i := free_slot], f(key_file db k := None))"
  proof (rule check_from_one)
    show "check_slot False db (ss[i := recovered k] ! i) (f(key_file db k \<mapsto> c, key_file db (bak k) \<mapsto> c)) = (free_slot, f(key_file db k := None))"
      using i(1) p(1) b [of None] by (simp add: check_slot_def fun_upd_twist)
  qed (use i check_other_slot [OF S i p(2)] in simp_all)
  then show ?thesis by simp
qed

text \<open>The two openings after an interrupted replacement.\<close>

abbreviation both_files :: "string \<Rightarrow> (string \<rightharpoonup> string) \<Rightarrow> string \<Rightarrow> string option \<Rightarrow> string \<Rightarrow> string \<rightharpoonup> string" where
  "both_files path f k x c \<equiv> f(key_file (handle path) k := x, key_file (handle path) (bak k) \<mapsto> c)"

lemma open_half_done:
  assumes U: "utils_ok A V" and E: "dbm_env_ok A" and p: "length path \<le> 200" and S: "slots_hold (handle path) ss f m" and k: "m k = Some v"
    and i: "i < length ss" "ss ! i = used k" and s0: "f (sum_path (handle path)) = None" and W: "sum_wf h ss" and h: "idle_header h" and l: "length ss \<le> 45"
    and fs: "files (V w) = (both_files path f k x c)(sum_path (handle path) \<mapsto> sum_bytes h (ss[i := half_done k]))"
  obtains fd h1 w1 where "DBM_GetKVStore A (Some path) True w = ((DBM_OK, Some (opened path h (ss[i := half_done k]) fd)), w1)"
    "dbm_at A V (opened path h (ss[i := half_done k]) fd) w1 (sum_bytes h1 (ss[i := recovered k])) (both_files path f k (Some c) c)"
    "sum_wf h1 (ss[i := recovered k])" "idle_header h1"
proof -
  have pk: "plain_key k" using slots_hold_plain [OF S] k by blast
  have F0: "both_files path f k x c (sum_path (handle path)) = None" using s0 key_names [OF plain_valid [OF pk]] by simp
  have W1: "sum_wf h (ss[i := half_done k])" using W pending_wf(2) [OF pk] by (simp add: slot_wf_def)
  have nul: "(h ! 9 \<noteq> NUL) = False" using W h idle_bytes by (simp add: sum_wf_def)
  have K: "keys_valid (ss[i := half_done k])" using keys_valid_update [OF slots_hold_valid [OF S]] pk by simp
  show thesis
    by (rule open_recovers [OF U E p fs F0 W1 K, unfolded nul check_half_done [OF S i k] fst_conv snd_conv]) (use l that in simp_all)
qed

lemma open_recovered:
  assumes U: "utils_ok A V" and E: "dbm_env_ok A" and p: "length path \<le> 200" and S: "slots_hold (handle path) ss f m" and k: "m k = Some v"
    and fin: "finite (dom m)" "card (dom m) \<le> 45" and i: "i < length ss" "ss ! i = used k" and s0: "f (sum_path (handle path)) = None"
    and W: "sum_wf h (ss[i := recovered k])" and h: "idle_header h" and l: "length ss \<le> 45"
    and fs: "files (V w) = (both_files path f k (Some c) c)(sum_path (handle path) \<mapsto> sum_bytes h (ss[i := recovered k]))"
  shows "\<exists>db w'. DBM_GetKVStore A (Some path) True w = ((DBM_OK, Some db), w') \<and> dbm_rep A V (db, w') (m(k := None))"
proof -
  have pk: "plain_key k" using slots_hold_plain [OF S] k by blast
  have F0: "both_files path f k (Some c) c (sum_path (handle path)) = None" using s0 key_names [OF plain_valid [OF pk]] by simp
  have nul: "(h ! 9 \<noteq> NUL) = False" "h ! 8 = NUL" using W h idle_bytes by (simp_all add: sum_wf_def)
  have K: "keys_valid (ss[i := recovered k])" using keys_valid_update [OF slots_hold_valid [OF S]] pk by simp
  obtain fd h' w' where o: "DBM_GetKVStore A (Some path) True w = ((DBM_OK, Some (opened path h (ss[i := recovered k]) fd)), w')"
    "dbm_at A V (opened path h (ss[i := recovered k]) fd) w' (sum_bytes h' (ss[i := free_slot])) (f(key_file (handle path) k := None))"
    "sum_wf h' (ss[i := free_slot])" "idle_header h'"
    by (rule open_recovers [OF U E p fs F0 W K, unfolded nul check_recovered [OF S i k] fst_conv snd_conv]) (use l in simp_all)
  have S': "slots_hold (opened path h (ss[i := recovered k]) fd) (ss[i := free_slot]) (f(key_file (handle path) k := None)) (m(k := None))"
    using slots_hold_delete [OF S i k] slots_hold_cong [OF opened_ready(2)] by simp
  have "length (filter svalid (ss[i := recovered k])) = card (dom (m(k := None)))"
    using slots_hold_count [OF S'] count_update [of free_slot "recovered k" ss i] by (simp add: free_slot_def)
  then have n: "kvItemSum (opened path h (ss[i := recovered k]) fd) = int (card (dom (m(k := None))))" using nul by (simp add: opened_def)
  have "dbm_rep A V (opened path h (ss[i := recovered k]) fd, w') (m(k := None))"
    by (rule dbm_repI [OF o(2-4) _ _ S' _ n]) (use l fin card_Diff1_le [of "dom m" k] in auto)
  then show ?thesis using o(1) by blast
qed

text \<open>
  C28 (error): the device restarts while the value of a key is being replaced, between the backup and the end of the
  replacement.  Opening the database recovers the old value, which is found then.  But recovery has cleared the flag that the item
  is valid instead of the flag that its backup is valid, so when the database is opened once more the key and
  both its files are deleted and nothing else is.
\<close>

theorem dbm_recovered_key_is_lost:
  assumes U: "utils_ok A V" and E: "dbm_env_ok A" and p: "length path \<le> 200" and I: "interrupted V path w m k v"
    and rs: "\<forall>w. files (V (reset w)) = files (V w)" and n: "length v \<le> n" "n \<le> DBM_MAX_GET_LEN"
  shows "\<exists>db1 w1 w2 db2 w3. DBM_GetKVStore A (Some path) True w = ((DBM_OK, Some db1), w1)
     \<and> DBM_Get A (Some db1) (Some k) (Some buf) n w1 = ((DBM_OK, Some (put_bytes 0 v buf), length v), w2)
     \<and> DBM_GetKVStore A (Some path) True (reset w2) = ((DBM_OK, Some db2), w3) \<and> dbm_rep A V (db2, w3) (m(k := None))"
proof -
  obtain h ss f i x where S: "slots_hold (handle path) ss f m" and k: "m k = Some v" and fin: "finite (dom m)" "card (dom m) \<le> 45"
    and i: "i < length ss" "ss ! i = used k"
    and fs: "files (V w) = (both_files path f k x (content i v))(sum_path (handle path) \<mapsto> sum_bytes h (ss[i := half_done k]))"
    and s0: "f (sum_path (handle path)) = None" and W: "sum_wf h ss" and h: "idle_header h" and l: "length ss \<le> 45"
    using I unfolding interrupted_def half_done_def by blast
  have v: "plain_key k" "v \<noteq> []" "length v \<le> 512" using slots_hold_used [OF S k] by auto
  obtain fd h1 w1 where 1: "DBM_GetKVStore A (Some path) True w = ((DBM_OK, Some (opened path h (ss[i := half_done k]) fd)), w1)"
    "dbm_at A V (opened path h (ss[i := half_done k]) fd) w1 (sum_bytes h1 (ss[i := recovered k])) (both_files path f k (Some (content i v)) (content i v))"
    "sum_wf h1 (ss[i := recovered k])" "idle_header h1" by (rule open_half_done [OF U E p S k i s0 W h l fs])
  let ?db = "opened path h (ss[i := half_done k]) fd"
  obtain w2 where 2: "Dbm_Get A ?db (Some k) (Some buf) n w1
      = (if length v \<le> n then (DBM_OK, Some (put_bytes 0 v buf), length v) else (DBM_ERROR, Some buf, 0), w2)"
    "dbm_at A V ?db w2 (sum_bytes h1 (ss[i := recovered k])) (both_files path f k (Some (content i v)) (content i v))"
    by (rule Dbm_Get_content [OF 1(2,3) _ v(1), of i v n buf]) (use i l v n opened_ready(2) in simp_all)
  have "files (V (reset w2)) = (both_files path f k (Some (content i v)) (content i v))(sum_path (handle path) \<mapsto> sum_bytes h1 (ss[i := recovered k]))"
    using 2(2) rs by (simp add: dbm_at_def sum_path_def)
  from open_recovered [OF U E p S k fin i s0 1(3,4) l this] show ?thesis using 1(1) 2(1) n(1) by (auto simp: DBM_Get_def)
qed

definition half_files :: "string \<rightharpoonup> string" where
  "half_files = [key_file (handle ''d'') ''a'' \<mapsto> content 0 ''x'']"

definition half_world :: ram where
  "half_world = ram_empty\<lparr>files := (half_files(key_file (handle ''d'') ''a'' := None, key_file (handle ''d'') (bak ''a'') \<mapsto> content 0 ''x''))
     (sum_path (handle ''d'') \<mapsto> sum_bytes SUM_FILE_DEFAULT_HEADER ([used ''a''][0 := (used ''a'')\<lparr>sbak := True\<rparr>]))\<rparr>"

lemma half_world_interrupted: "interrupted ram_view ''d'' half_world [''a'' \<mapsto> ''x''] ''a'' ''x''"
proof -
  let ?H = "handle ''d''"
  have "slots_hold ?H [used ''a''] half_files [''a'' \<mapsto> ''x'']"
    unfolding slots_hold_def half_files_def using plain_a by (auto simp: DBM_MAX_VALUE_LEN_def)
  moreover have "half_files (sum_path ?H) = None" using key_names(1) [OF plain_valid [OF plain_a]] by (simp add: half_files_def)
  moreover have "sum_wf SUM_FILE_DEFAULT_HEADER [used ''a'']" "idle_header SUM_FILE_DEFAULT_HEADER"
    by (simp_all add: sum_wf_def slot_wf_def idle_header_def SUM_FILE_DEFAULT_HEADER_def KV_MAGIC_def numeral_eq_Suc)
  moreover have "files (ram_view half_world) = (half_files(key_file ?H ''a'' := None, key_file ?H (bak ''a'') \<mapsto> content 0 ''x''))
     (sum_path ?H \<mapsto> sum_bytes SUM_FILE_DEFAULT_HEADER ([used ''a''][0 := (used ''a'')\<lparr>sbak := True\<rparr>]))"
    by (simp add: half_world_def ram_view_def ram_empty_def)
  ultimately show ?thesis unfolding interrupted_def
    by (intro exI [of _ SUM_FILE_DEFAULT_HEADER] exI [of _ "[used ''a'']"] exI [of _ half_files] exI [of _ 0] exI [of _ None]) simp
qed

theorem dbm_recovered_key_is_lost_witness:
  "utils_ok ram_dbm ram_view \<and> dbm_env_ok ram_dbm \<and> interrupted ram_view ''d'' half_world [''a'' \<mapsto> ''x''] ''a'' ''x''
   \<and> (\<exists>db1 w1 w2 db2 w3. DBM_GetKVStore ram_dbm (Some ''d'') True half_world = ((DBM_OK, Some db1), w1)
     \<and> DBM_Get ram_dbm (Some db1) (Some ''a'') (Some [NUL, NUL]) 2 w1 = ((DBM_OK, Some [CHR ''x'', NUL], 1), w2)
     \<and> DBM_GetKVStore ram_dbm (Some ''d'') True (ram_reset w2) = ((DBM_OK, Some db2), w3) \<and> dbm_rep ram_dbm ram_view (db2, w3) Map.empty)"
proof -
  have a: "length ''d'' \<le> 200" "length ''x'' \<le> 2" "2 \<le> DBM_MAX_GET_LEN" by (simp_all add: DBM_MAX_GET_LEN_def)
  have e: "[''a'' \<mapsto> ''x''](''a'' := None) = Map.empty" "put_bytes 0 ''x'' [NUL, NUL] = [CHR ''x'', NUL]" "length ''x'' = 1"
    by (simp_all add: put_bytes_def)
  show ?thesis
    using dbm_recovered_key_is_lost [OF ram_dbm_ok(1,2) a(1) half_world_interrupted ram_dbm_ok(3) a(2,3), of "[NUL, NUL]", unfolded e]
      ram_dbm_ok(1,2) half_world_interrupted by blast
qed

end
