(* ===== verification/Spec2Isabelle.thy ===== *)
theory Spec2Isabelle
  imports Data_Share_Result_Set Data_Share_Calls Rdb_Utils Preferences_Helper Kv_Store_Posix Dbm_Calls
begin

text \<open>
  A verification of the application data framework: the relational store (src/frameworks/native/rdb), the
  shared-memory block that carries its results (src/frameworks/native/appdatafwk), the part of the data
  share library that sends conditions, values and results between processes
  (src/frameworks/native/data_share), the adapter between the two
  (src/frameworks/native/rdb_data_share_adapter), the preferences (src/frameworks/native/preferences), and the
  key-value stores in C for small systems (src/frameworks/native/kv_store and dbm_kv_store).

  \<^bold>\<open>The relational store.\<close>  An application builds a condition with a predicates object, fills a bucket with
  column values, and asks a store to insert, update, delete, query or run SQL.  The store gives the
  calling thread a session; the session borrows a connection from a pool of one writer and, in WAL mode,
  three readers; the connection prepares, binds and steps a statement of the SQLite library.
  Transactions are kept as a stack of records in the pool.  A query gives a step result set, which steps
  the statement, or a shared result set, which copies rows into a block of shared memory.

  \<^item> \<open>Prelude\<close>: the \<open>std::string\<close> operations the sources use, generic list lemmas, fact collections.
  \<^item> \<open>Errno\<close>: the error codes (rdb_errno.h); a fallible method returns a code or a value of \<open>result\<close>.
  \<^item> \<open>Clause_Spec\<close>: what a WHERE-clause builder promises, as the locale \<open>clause_builder\<close>: tokens, the
    grammar of conditions, and the consequences for whole call sequences, proved once.
  \<^item> \<open>Predicates\<close> (abs_predicates.cpp, string_utils.cpp): the builder as a record, one function per
    method; the locale is interpreted on it.  The lemmas show that the text is a rendering of the
    specified tokens, that arguments and placeholders agree, and what ORDER BY, GROUP BY, LIMIT and
    OFFSET become.
  \<^item> \<open>Rdb_Predicates\<close> (abs_rdb_predicates.cpp, rdb_predicates.cpp): the table-bound builder with joins
    and the mirror of the calls to the distributed predicates; a second interpretation of the locale.
  \<^item> \<open>Value_Object\<close> (value_object.cpp, values_bucket.cpp): tagged values, buckets as sorted entry lists
    (the locale \<open>keep_first_map\<close> states their lookup laws), and the parcel round trip.
  \<^item> \<open>Sql_Builder\<close> (sqlite_sql_builder.cpp): the text of each statement and the normalisation of column
    names, with the fragment of \<open>std::regex\<close> it uses.
  \<^item> \<open>Sqlite_Utils\<close> (sqlite_utils.cpp): the classification of statements that routes them to a reader or
    the writer.
  \<^item> \<open>Sqlite_Statement\<close> (sqlite_statement.cpp): preparing, binding, stepping and reading columns.  The
    C interface of SQLite is the parameter \<open>'s sqlite3_api\<close>; \<open>sqlite_contract\<close> names what is relied on.
    \<open>Sqlite_Demo\<close> is an instance of the interface that satisfies the contract, used by the witnesses.
  \<^item> \<open>Sqlite_Connection\<close> (sqlite_connection.cpp, sqlite_config.cpp, sqlite_global_config.cpp): opening
    with every configuration step, the statement methods, step queries, rekeying.  A connection opened
    for reading never changes the content of the database.
  \<^item> \<open>Connection_Pool\<close> (sqlite_connection_pool.cpp, base_transaction.cpp): connections are objects on a
    heap; a wait on a condition variable is \<open>Blocks\<close>, an undefined access or an uncaught exception is
    \<open>Crash\<close>.  The invariant \<open>pool_inv\<close> relates the pool to the set of connections that are out; the
    locale \<open>connection_source\<close> is what sessions rely on, and the pool is its interpretation.
  \<^item> \<open>Store_Session\<close> (store_session.cpp): borrowing with a use count, the statement methods, step
    queries, transactions by level and by marks, backup and attach.  The inductive relation \<open>sys_step\<close>
    interleaves the borrowing of all sessions, one call being one step (the pool's mutexes make it one).
  \<^item> \<open>Rdb_Store\<close> (rdb_store_impl.cpp): the map from threads to sessions and the public methods; the
    calling thread is an argument, and a run is a list of calls with their threads.
  \<^item> \<open>Byte_Memory\<close>, \<open>Shared_Block\<close> (shared_block.cpp): a block as bytes, with the C structures at their
    offsets; an access outside the mapping is \<open>None\<close>.  \<open>Block_Table\<close> refines it to a table of cells.
  \<^item> \<open>Fill_Block\<close> (share_block.cpp, shared_block_serializer_info.cpp): filling a block from a statement,
    with the serialiser and with the module functions.
  \<^item> \<open>Abs_Result_Set\<close>, \<open>Step_Result_Set\<close>, \<open>Shared_Result_Set\<close> (abs_result_set.cpp, step_result_set.cpp,
    sqlite_shared_result_set.cpp, abs_shared_result_set.cpp): positioning and getters; each result set
    is shown to be a cursor over the rows of its query.

  \<^bold>\<open>Data share.\<close>  A consumer sends predicates and values to a provider in another process through
  parcels, the provider translates them for the store and answers with rows in a block.

  \<^item> \<open>Data_Share_Values\<close>, \<open>Data_Share_Predicates\<close> (datashare_value_object.cpp, datashare_values_bucket.cpp,
    datashare_predicates_object.cpp, datashare_predicates.cpp): the calls of a consumer and the parcel formats,
    with their round trips.
  \<^item> \<open>Rdb_Utils\<close> (rdb_utils.cpp): translating predicates and buckets for the store; a condition built with
    texts, doubles and truth values, sent and translated is the condition built locally by the same calls.
  \<^item> \<open>Data_Share_Result_Set\<close> (datashare_block_writer_impl.cpp, rdb_result_set_bridge.cpp,
    datashare_result_set.cpp, datashare_abs_result_set.cpp): copying rows of a result set into windows of a
    block.  The locales \<open>served_rows\<close> and \<open>served_bridge\<close> state what the bridge needs of the rows it serves;
    they are interpreted on the shared result set.
  \<^item> \<open>Data_Share_Operation\<close> (datashare_operation.cpp, datashare_operation_builder.cpp, datashare_result.cpp): batches and their results,
    and the message that carries them; \<open>carries\<close> says that a reader finds what a writer has put, and writers compose.
  \<^item> \<open>Data_Share_Remote\<close> (datashare_proxy.cpp, datashare_stub.cpp, datashare_stub_impl.cpp, datashare_uv_queue.cpp): the proxy of the
    consumer, the stub of the provider and the implementation behind it, all of one interface.
  \<^item> \<open>Data_Share_Calls\<close>: a sequence of calls through the proxy is the sequence of calls on the extension.

  \<^bold>\<open>Preferences.\<close>  A map in memory with an XML file and its backup; a task pool loads and writes the file.

  \<^item> \<open>Task_Pool\<close> (task_pool.cpp, task_queue.cpp): the queues, the pool and its worker threads as a step
    relation.  Tasks of a tag run one at a time in order; no task is stranded unless a wait times out.
  \<^item> \<open>Preferences_Xml\<close> (preferences_value.cpp, preferences_xml_utils.cpp): values, elements and nodes.
  \<^item> \<open>Preferences_Impl\<close> (preferences_impl.cpp): getters, setters, observers, loading, writing, commits.
  \<^item> \<open>Preferences_Files\<close>: writing on a disk with faults; the old or the new map survives.
  \<^item> \<open>Preferences_Run\<close>: runs with overlapping flushes; flushed data are in the file.  The locales
    \<open>pref_accessor\<close> and \<open>exact_accessor\<close> state what a getter and a setter promise together, with an
    interpretation for each of the seven types.
  \<^item> \<open>Preferences_Helper\<close> (preferences_helper.cpp): the cache of objects by real path.

  \<^bold>\<open>Key-value stores in C.\<close>  Small systems keep a file for each key.  The plain store has a cache in memory and counts its keys; the
  database adds a sum file with an item for each key and a backup while a value is being replaced.

  \<^item> \<open>Kv_Cache\<close> (kvstore_common.c): the checks of keys and values and the cache, a doubly linked list on a
    heap; following a dangling pointer is \<open>None\<close>.  The cache holds the most recent entries.
  \<^item> \<open>Utils_File\<close>: the file functions of the device as a record of operations, what their documentation promises (\<open>utils_ok\<close>), a
    device in memory that keeps it, and the effect of opening, reading, replacing and closing a file.
  \<^item> \<open>Kv_Store\<close>, \<open>Kv_Store_Posix\<close> (kv_store.c of both builds): the calls of the store.  The locale \<open>kv_contract\<close> says that a store
    behaves as a map with a limit; both builds are interpretations of it.
  \<^item> \<open>Dbm_Store\<close> (dbm_kv_store.c of both builds): the database, every function of it.
  \<^item> \<open>Dbm_Files\<close>: the functions of the database as operations on the slots of the sum file and on the files of the keys.
  \<^item> \<open>Dbm_Run\<close>: putting, getting and deleting on the map that a database represents.
  \<^item> \<open>Dbm_Open\<close>: opening, with the check of every slot, and the header.
  \<^item> \<open>Dbm_Calls\<close>: sequences of calls, reopening and restarts against a map (an interpretation of the
    locale \<open>call_refinement\<close>), and the key that an interrupted replacement loses.

  This theory adds the properties that span the components.

  \<^bold>\<open>Modelling choices.\<close>  Integers keep their widths where a conversion or wrap-around can be observed
  (\<open>32 word\<close>, \<open>64 word\<close>); counters that only count calls are unbounded.  Strings are lists of bytes.
  Floating point numbers are bit patterns and their conversions to and from text are parameters.  Loops over containers are
  structural recursions; the loops that step a statement until it is done are
  \<open>partial_function (option)\<close>, and the theorems about them show that they return.  Exceptions and
  undefined accesses are values (\<open>None\<close>, \<open>Crash\<close>), so a theorem that a call returns excludes them.
  Log output and trace points have no counterpart.  A public call that holds a mutex is one atomic
  step; where threads give the mutex up in between (\<open>Task_Pool\<close>, \<open>Preferences_Run\<close>), each critical
  section is a step.

  \<^bold>\<open>Parameters.\<close>  SQLite with its shared-block extension, the ashmem device, the secure C library, libxml, the
  file system and the allocator, the file functions of the small systems, the parcels, messages and transport of the IPC library, the event loop, the predicates and the sync service of the distributed
  data service belong to other repositories or to the system; they are arguments of the definitions,
  and each property that relies on them says what it relies on in a named hypothesis with a witness.

  \<^bold>\<open>Not modelled.\<close>  The collation of \<open>ConfigLocale\<close>, which is the ICU library's; the helper that opens a
  store and upgrades it, and the store configuration; the block inside a parcel and the calls on a remote result set
  (the proxy and the stub of the shared result set); the helper that connects a consumer to an extension, the extension
  itself and the data ability predicates; and the
  JavaScript bindings, which convert arguments, forward to the modelled methods on a worker thread and
  convert the results back.
\<close>

subsection \<open>Predicates, buckets and statements together\<close>

lemma pred_call_more:
  "abs_predicates.more (pred_call_on c p) = abs_predicates.more p"
  by (cases c) (auto simp: call_unfolds GroupBy_def split: sum.splits option.splits)

lemma tableName_more:
  "abs_predicates.more p = abs_predicates.more q \<Longrightarrow> tableName p = tableName q"
  by (cases p; cases q) simp

lemma rdb_call_table: "tableName (rdb_call_on ops c p) = tableName p"
proof -
  obtain q where q: "rdb_call_on ops c p = pred_call_on c q" and "tableName q = tableName p"
    using rdb_call_mirrors [of ops c p] by (auto simp: mirror_def)
  with tableName_more [OF pred_call_more [of c q]] show ?thesis by simp
qed

lemma rdb_calls_table: "tableName (fold (rdb_call_on ops) cs p) = tableName p"
  by (induction cs arbitrary: p) (simp_all add: rdb_call_table)

lemma new_predicates_empty:
  "whereClause (RdbPredicates ops table) = []" "whereArgs (RdbPredicates ops table) = []"
  "\<not> isNeedAnd (RdbPredicates ops table)"
  by (simp_all add: RdbPredicates_def AbsRdbPredicates_def InitialParam_def AbsPredicates_def Let_def
      abs_predicates.extend_def rdb_predicates.fields_def)

lemma predicates_placeholders:
  assumes "\<forall>c \<in> set cs. CHR ''?'' \<notin> set (call_column c)"
  shows "count_list (whereClause (fold (rdb_call_on ops) cs (RdbPredicates ops table))) CHR ''?''
    = length (whereArgs (fold (rdb_call_on ops) cs (RdbPredicates ops table)))"
proof -
  have "count_list (render (spec_tokens (map pred_act cs))) CHR ''?'' = holes (spec_tokens (map pred_act cs))"
    by (rule render_holes, rule spec_tokens_texts [OF assms]) simp
  then show ?thesis
    using rdb_builder.run_from_empty [OF new_predicates_empty, of ops cs ops table] abs_builder.run_holes [of cs] by simp
qed

lemma assignments_placeholders:
  "\<forall>(k, v) \<in> set m. CHR ''?'' \<notin> set k \<Longrightarrow>
     count_list (join_with '','' (map (\<lambda>(k, v). k @ ''=?'') m)) CHR ''?'' = length m"
  by (induction m rule: induct_list012) (auto simp: count_list_notin)

text \<open>
  C8 (functional): updating a table by predicates, built by any calls, runs one statement that has exactly
  as many placeholders as values are bound: those of the bucket, in column order, and then those of the
  predicates; provided that no table or column name contains a question mark.
\<close>

theorem update_binds_every_placeholder:
  assumes "table \<noteq> []" and "values \<noteq> []" and "CHR ''?'' \<notin> set table"
    and "\<forall>(k, v) \<in> set values. CHR ''?'' \<notin> set k" and "\<forall>c \<in> set cs. CHR ''?'' \<notin> set (call_column c)"
  shows "\<exists>sql args. Store_Update_by E thr values (fold (rdb_call_on ops) cs (RdbPredicates ops table)) S =
      in_session thr (Session_ExecuteForChangedRowCount E sql args) S
    \<and> args = map snd values
        @ map ValueObject_string (whereArgs (fold (rdb_call_on ops) cs (RdbPredicates ops table)))
    \<and> count_list sql CHR ''?'' = length args"
proof -
  let ?p = "fold (rdb_call_on ops) cs (RdbPredicates ops table)"
  let ?set = "''UPDATE'' @ '' '' @ table @ '' SET '' @ join_with '','' (map (\<lambda>(k, v). k @ ''=?'') values)"
  let ?sql = "if whereClause ?p \<noteq> [] then ?set @ '' WHERE '' @ whereClause ?p else ?set"
  let ?args = "map snd values @ map ValueObject_string (whereArgs ?p)"
  have u: "Store_Update_by E thr values ?p S = in_session thr (Session_ExecuteForChangedRowCount E ?sql ?args) S"
    using assms(1,2)
    by (simp add: Store_Update_by_def Store_Update_def UpdateWithConflictResolution_def rdb_calls_table IsEmpty_def
        GetConflictClause_code [of ON_CONFLICT_NONE, simplified] append_assignments_eq GetAll_def Let_def)
  have w: "count_list (whereClause ?p) CHR ''?'' = length (whereArgs ?p)" by (rule predicates_placeholders [OF assms(5)])
  have "count_list ?set CHR ''?'' = length values"
    using assms(3) assignments_placeholders [OF assms(4)] by (simp add: count_list_notin)
  then have "count_list ?sql CHR ''?'' = length ?args" using w by (cases "whereClause ?p = []") auto
  with u show ?thesis by blast
qed

theorem update_binds_every_placeholder_witness:
  "\<exists>sql args. Store_Update_by demo_env 7 [(''age'', ValueObject_int 18)]
      (fold (rdb_call_on log_ops) [cEqualTo ''name'' ''Li'', cOr, cIn ''id'' [''1'', ''2'']] (RdbPredicates log_ops ''user''))
      (RdbStoreImpl_new [] demo_pool)
    = in_session 7 (Session_ExecuteForChangedRowCount demo_env sql args) (RdbStoreImpl_new [] demo_pool)
    \<and> length args = 4 \<and> count_list sql CHR ''?'' = 4"
proof -
  let ?cs = "[cEqualTo ''name'' ''Li'', cOr, cIn ''id'' [''1'', ''2'']]"
  have a: "whereArgs (fold (rdb_call_on log_ops) ?cs (RdbPredicates log_ops ''user'')) = [''Li'', ''1'', ''2'']"
    by code_simp
  have "\<forall>c \<in> set ?cs. CHR ''?'' \<notin> set (call_column c)" by simp
  from update_binds_every_placeholder [of "''user''" "[(''age'', ValueObject_int 18)]" ?cs, OF _ _ _ _ this] a
  show ?thesis by fastforce
qed

end
